(* ===== verification/Prelude.thy ===== *)
theory Prelude
  imports Main "HOL-Library.Word" "HOL-Library.Signed_Division"
begin

text \<open>
  Shared ground of the development: how a C function that may not return is
  modelled (a sum type whose left side is a \<open>fault\<close>), checked array accesses,
  checked loops over lists of indices, C integer arithmetic, and the generic
  lemmas and theorem collections the component theories use.
\<close>

section \<open>Theorem collections\<close>

named_theorems result_simps \<open>rewriting of the result combinators\<close>
named_theorems array_simps \<open>checked array accesses\<close>

section \<open>Ways a C function may end\<close>

text \<open>
  \<open>Exit c\<close> is a call of \<^verbatim>\<open>exit(c)\<close>, \<open>Abort\<close> a call of
  \<^verbatim>\<open>abort()\<close>, \<open>Assert\<close> a failed \<^verbatim>\<open>assert\<close>, and \<open>Undefined\<close>
  an access outside an object or through a null pointer, after which C promises nothing.
\<close>

datatype fault = Exit int | Abort | Assert | Undefined

type_synonym 'a result = "fault + 'a"

definition EXIT_SUCCESS :: int where "EXIT_SUCCESS = 0"
definition EXIT_FAILURE :: int where "EXIT_FAILURE = 1"

lemma exit_codes_distinct [simp]: "EXIT_SUCCESS \<noteq> EXIT_FAILURE" "EXIT_FAILURE \<noteq> EXIT_SUCCESS"
  by (simp_all add: EXIT_SUCCESS_def EXIT_FAILURE_def)

definition bindR :: "'e + 'a \<Rightarrow> ('a \<Rightarrow> 'e + 'b) \<Rightarrow> 'e + 'b" where
  "bindR m k = (case m of Inl e \<Rightarrow> Inl e | Inr x \<Rightarrow> k x)"

definition guardR :: "bool \<Rightarrow> 'e \<Rightarrow> 'e + unit" where
  "guardR b e = (if b then Inr () else Inl e)"

lemma bindR_Inr [simp, result_simps]: "bindR (Inr x) k = k x"
  by (simp add: bindR_def)

lemma bindR_Inl [simp, result_simps]: "bindR (Inl e) k = Inl e"
  by (simp add: bindR_def)

lemma bindR_eq_Inr [result_simps]: "bindR m k = Inr y \<longleftrightarrow> (\<exists>x. m = Inr x \<and> k x = Inr y)"
  by (cases m) (auto simp: bindR_def)

lemma bindR_InrE: "bindR m k = Inr y \<Longrightarrow> (\<And>x. m = Inr x \<Longrightarrow> k x = Inr y \<Longrightarrow> P) \<Longrightarrow> P"
  by (auto simp: bindR_eq_Inr)

lemma bindR_eq_Inl [result_simps]:
  "bindR m k = Inl e \<longleftrightarrow> m = Inl e \<or> (\<exists>x. m = Inr x \<and> k x = Inl e)"
  by (cases m) (auto simp: bindR_def)

lemma bindR_cong [fundef_cong]:
  "m = m' \<Longrightarrow> (\<And>x. m' = Inr x \<Longrightarrow> k x = k' x) \<Longrightarrow> bindR m k = bindR m' k'"
  by (cases m') simp_all

lemma bindR_assoc: "bindR (bindR m k) h = bindR m (\<lambda>x. bindR (k x) h)"
  by (cases m) simp_all

lemma guardR_True [simp, result_simps]: "guardR True e = Inr ()"
  by (simp add: guardR_def)

lemma guardR_False [simp, result_simps]: "guardR False e = Inl e"
  by (simp add: guardR_def)

lemma guardR_eq_Inr [simp]: "guardR b e = Inr u \<longleftrightarrow> b"
  by (simp add: guardR_def)

text \<open>A loop over a list of values whose body may end the program.\<close>

fun foldR :: "('a \<Rightarrow> 's \<Rightarrow> 'e + 's) \<Rightarrow> 'a list \<Rightarrow> 's \<Rightarrow> 'e + 's" where
  "foldR f [] s = Inr s"
| "foldR f (x # xs) s = bindR (f x s) (foldR f xs)"

lemma foldR_append [result_simps]: "foldR f (xs @ ys) s = bindR (foldR f xs s) (foldR f ys)"
proof (induction xs arbitrary: s)
  case (Cons x xs)
  then show ?case by (cases "f x s") simp_all
qed simp

lemma foldR_invariant:
  assumes "\<And>x s s'. x \<in> set xs \<Longrightarrow> P s \<Longrightarrow> f x s = Inr s' \<Longrightarrow> P s'"
    and "P s" and "foldR f xs s = Inr s'"
  shows "P s'"
  using assms
proof (induction xs arbitrary: s)
  case (Cons x xs)
  from Cons.prems(3) obtain t where "f x s = Inr t" and "foldR f xs t = Inr s'"
    by (auto simp: bindR_eq_Inr)
  with Cons.prems Cons.IH [of t] show ?case by auto
qed simp

section \<open>Checked arrays\<close>

text \<open>
  A C array is a list; a read or write outside of it is \<open>Undefined\<close>. Indices are
  integers, since the source computes them in signed types.
\<close>

definition arr_get :: "'a list \<Rightarrow> int \<Rightarrow> 'a result" where
  "arr_get xs i = (if 0 \<le> i \<and> i < int (length xs) then Inr (xs ! nat i) else Inl Undefined)"

definition arr_set :: "'a list \<Rightarrow> int \<Rightarrow> 'a \<Rightarrow> 'a list result" where
  "arr_set xs i v =
     (if 0 \<le> i \<and> i < int (length xs) then Inr (xs[nat i := v]) else Inl Undefined)"

lemma arr_get_ok [simp, array_simps]:
  "0 \<le> i \<Longrightarrow> i < int (length xs) \<Longrightarrow> arr_get xs i = Inr (xs ! nat i)"
  by (simp add: arr_get_def)

lemma arr_set_ok [simp, array_simps]:
  "0 \<le> i \<Longrightarrow> i < int (length xs) \<Longrightarrow> arr_set xs i v = Inr (xs[nat i := v])"
  by (simp add: arr_set_def)

lemma arr_get_eq_Inr [array_simps]:
  "arr_get xs i = Inr v \<longleftrightarrow> 0 \<le> i \<and> i < int (length xs) \<and> v = xs ! nat i"
  by (auto simp: arr_get_def)

lemma arr_set_eq_Inr [array_simps]:
  "arr_set xs i v = Inr ys \<longleftrightarrow> 0 \<le> i \<and> i < int (length xs) \<and> ys = xs[nat i := v]"
  by (auto simp: arr_set_def)

lemma arr_set_length: "arr_set xs i v = Inr ys \<Longrightarrow> length ys = length xs"
  by (auto simp: arr_set_eq_Inr)

text \<open>
  The loop \<^verbatim>\<open>for (i = a; i < n; i++) if (p(i)) xs[i] = v;\<close> as one checked pass.
\<close>

definition loop_set :: "int \<Rightarrow> int \<Rightarrow> (int \<Rightarrow> bool) \<Rightarrow> 'a \<Rightarrow> 'a list \<Rightarrow> 'a list result" where
  "loop_set a n p v xs =
     foldR (\<lambda>i ys. if p i then arr_set ys i v else Inr ys) [a..n - 1] xs"

lemma loop_set_upto:
  assumes "0 \<le> a" and "n \<le> int (length xs)"
  shows "loop_set a n p v xs =
    Inr (map (\<lambda>i. if a \<le> int i \<and> int i < n \<and> p (int i) then v else xs ! i) [0..<length xs])"
  using assms
proof (induction "nat (n - a)" arbitrary: a xs)
  case 0
  then have "map (\<lambda>i. if a \<le> int i \<and> int i < n \<and> p (int i) then v else xs ! i) [0..<length xs]
      = map (\<lambda>i. xs ! i) [0..<length xs]"
    by (intro map_cong) auto
  with 0 show ?case by (simp add: loop_set_def map_nth)
next
  case (Suc k)
  then have a: "a < n" by simp
  let ?ys = "if p a then xs[nat a := v] else xs"
  have step: "loop_set a n p v xs = loop_set (a + 1) n p v ?ys"
    using a Suc.prems by (simp add: loop_set_def upto_rec1)
  have "loop_set (a + 1) n p v ?ys =
    Inr (map (\<lambda>i. if a + 1 \<le> int i \<and> int i < n \<and> p (int i) then v else ?ys ! i) [0..<length ?ys])"
    using Suc.hyps(2) Suc.prems by (intro Suc.hyps(1)) auto
  also have "\<dots> = Inr (map (\<lambda>i. if a \<le> int i \<and> int i < n \<and> p (int i) then v else xs ! i)
      [0..<length xs])"
  proof -
    have "a + 1 \<le> int i \<longleftrightarrow> a \<le> int i \<and> i \<noteq> nat a" for i
      using Suc.prems(1) by auto
    then show ?thesis
      using a Suc.prems by (auto simp: nth_list_update)
  qed
  finally show ?case using step by simp
qed

section \<open>C integer arithmetic\<close>

text \<open>
  \<open>wrapS w x\<close> is the value a \<open>w\<close>-bit two's complement object holds after
  \<open>x\<close> is stored into it; \<open>sdiv\<close> and \<open>smod\<close> are C's division and remainder,
  which round towards zero.
\<close>

definition wrapS :: "nat \<Rightarrow> int \<Rightarrow> int" where
  "wrapS w x = (x + 2 ^ (w - 1)) mod 2 ^ w - 2 ^ (w - 1)"

definition wrapU :: "nat \<Rightarrow> int \<Rightarrow> int" where
  "wrapU w x = x mod 2 ^ w"

lemma wrapS_id: "0 < w \<Longrightarrow> - (2 ^ (w - 1)) \<le> x \<Longrightarrow> x < 2 ^ (w - 1) \<Longrightarrow> wrapS w x = x"
proof -
  assume w: "0 < w" and lo: "- (2 ^ (w - 1)) \<le> x" and hi: "x < 2 ^ (w - 1)"
  have "(2::int) ^ w = 2 * 2 ^ (w - 1)"
    using w by (cases w) simp_all
  with lo hi show ?thesis by (simp add: wrapS_def)
qed

lemma wrapU_id: "0 \<le> x \<Longrightarrow> x < 2 ^ w \<Longrightarrow> wrapU w x = x"
  by (simp add: wrapU_def)

text \<open>The \<^verbatim>\<open>CLAMP(min, val, max)\<close> macro.\<close>

definition clamp :: "int \<Rightarrow> int \<Rightarrow> int \<Rightarrow> int" where
  "clamp lo v hi = (if v < lo then lo else if v > hi then hi else v)"

lemma clamp_bounds: "lo \<le> hi \<Longrightarrow> lo \<le> clamp lo v hi \<and> clamp lo v hi \<le> hi"
  by (simp add: clamp_def)

lemma clamp_id [simp]: "lo \<le> v \<Longrightarrow> v \<le> hi \<Longrightarrow> clamp lo v hi = v"
  by (simp add: clamp_def)

lemma sdiv_nonneg: "0 \<le> (a::int) \<Longrightarrow> 0 \<le> b \<Longrightarrow> a sdiv b = a div b"
  by (cases "a = 0"; cases "b = 0") (simp_all add: signed_divide_int_def sgn_if)

lemma smod_nonneg: "0 \<le> (a::int) \<Longrightarrow> 0 \<le> b \<Longrightarrow> a smod b = a mod b"
  by (cases "a = 0") (simp_all add: signed_modulo_int_def sdiv_nonneg sgn_if)

section \<open>Lists\<close>

lemma dropWhile_length_le: "length (dropWhile P xs) \<le> length xs"
  by (induction xs) auto

lemma takeWhile_neq_Nil_Cons: "takeWhile P (x # xs) \<noteq> [] \<longleftrightarrow> P x"
  by simp

lemma map_nth_len: "length xs = n \<Longrightarrow> map (\<lambda>i. xs ! i) [0..<n] = xs"
  by (auto simp: map_nth)

end
