(* ===== verification/C_String.thy ===== *)
theory C_String
  imports Prelude "HOL-Library.Char_ord"
begin

text \<open>
  The parts of the C library's string handling that the program calls, in the
  \<^verbatim>\<open>C\<close> locale: character classes, case-insensitive comparison,
  \<^verbatim>\<open>strtok_r\<close>, \<^verbatim>\<open>strtol\<close> and \<^verbatim>\<open>getline\<close>. A C string is
  the list of its characters before the terminating NUL.
\<close>

named_theorems token_simps \<open>splitting of concrete and of structured strings\<close>

section \<open>Characters\<close>

definition NUL :: char where "NUL = CHR 0x00"
definition LF :: char where "LF = CHR 0x0A"
definition CR :: char where "CR = CHR 0x0D"
definition SP :: char where "SP = CHR '' ''"

definition isdigit :: "char \<Rightarrow> bool" where
  "isdigit c \<longleftrightarrow> c \<in> set ''0123456789''"

definition isupper :: "char \<Rightarrow> bool" where
  "isupper c \<longleftrightarrow> 65 \<le> (of_char c :: nat) \<and> (of_char c :: nat) \<le> 90"

definition islower :: "char \<Rightarrow> bool" where
  "islower c \<longleftrightarrow> 97 \<le> (of_char c :: nat) \<and> (of_char c :: nat) \<le> 122"

definition isalpha :: "char \<Rightarrow> bool" where
  "isalpha c \<longleftrightarrow> isupper c \<or> islower c"

definition isspace :: "char \<Rightarrow> bool" where
  "isspace c \<longleftrightarrow> c = SP \<or> (9 \<le> (of_char c :: nat) \<and> (of_char c :: nat) \<le> 13)"

definition tolower :: "char \<Rightarrow> char" where
  "tolower c = (if isupper c then char_of ((of_char c :: nat) + 32) else c)"

definition digit_val :: "char \<Rightarrow> int" where
  "digit_val c = int (of_char c) - 48"

lemma digit_val_bounds: "isdigit c \<Longrightarrow> 0 \<le> digit_val c \<and> digit_val c \<le> 9"
  by (auto simp: isdigit_def digit_val_def)

text \<open>The bytes of an array up to the first NUL, read as a string.\<close>

definition c_str :: "string \<Rightarrow> string" where
  "c_str s = takeWhile (\<lambda>c. c \<noteq> NUL) s"

lemma c_str_no_NUL [simp]: "NUL \<notin> set s \<Longrightarrow> c_str s = s"
  by (induction s) (auto simp: c_str_def)

lemma c_str_append_NUL [simp]: "NUL \<notin> set s \<Longrightarrow> c_str (s @ NUL # t) = s"
  by (induction s) (auto simp: c_str_def)

lemma NUL_notin_c_str [simp]: "NUL \<notin> set (c_str s)"
  by (auto simp: c_str_def dest: set_takeWhileD)

text \<open>Reading \<^verbatim>\<open>s[i]\<close> for an index up to the terminating NUL.\<close>

definition chr_at :: "string \<Rightarrow> nat \<Rightarrow> char" where
  "chr_at s i = (if i < length s then s ! i else NUL)"

lemma chr_at_Cons_0 [simp]: "chr_at (c # s) 0 = c"
  by (simp add: chr_at_def)

lemma chr_at_Nil [simp]: "chr_at [] i = NUL"
  by (simp add: chr_at_def)

lemma chr_at_end [simp]: "chr_at s (length s) = NUL"
  by (simp add: chr_at_def)

text \<open>\<^verbatim>\<open>strncat(dest, src, n)\<close>.\<close>

definition strncat :: "string \<Rightarrow> string \<Rightarrow> nat \<Rightarrow> string" where
  "strncat dest src n = dest @ take n src"

lemma strncat_all [simp]: "length src \<le> n \<Longrightarrow> strncat dest src n = dest @ src"
  by (simp add: strncat_def)

text \<open>\<^verbatim>\<open>strcasecmp(a, b) == 0\<close>.\<close>

definition strcaseeq :: "string \<Rightarrow> string \<Rightarrow> bool" where
  "strcaseeq a b \<longleftrightarrow> map tolower a = map tolower b"

lemma strcaseeq_refl [simp]: "strcaseeq a a"
  by (simp add: strcaseeq_def)

lemma strcaseeq_sym: "strcaseeq a b \<longleftrightarrow> strcaseeq b a"
  by (auto simp: strcaseeq_def)

lemma strcaseeq_length: "strcaseeq a b \<Longrightarrow> length a = length b"
  unfolding strcaseeq_def by (rule map_eq_imp_length_eq)

section \<open>Tokens\<close>

text \<open>
  \<^verbatim>\<open>strtok_r(s, delim, &save)\<close>: leading delimiters are skipped; at the end of the
  string there is no token; otherwise the token runs up to the next delimiter, which is
  overwritten, and the search goes on behind it.
\<close>

definition strtok_r :: "string \<Rightarrow> string \<Rightarrow> (string \<times> string) option" where
  "strtok_r delim s =
     (let s' = dropWhile (\<lambda>c. c \<in> set delim) s in
      if s' = [] then None
      else Some (takeWhile (\<lambda>c. c \<notin> set delim) s', drop 1 (dropWhile (\<lambda>c. c \<notin> set delim) s')))"

lemma strtok_r_shorter: "strtok_r delim s = Some (tok, rest) \<Longrightarrow> length rest < length s"
proof -
  assume a: "strtok_r delim s = Some (tok, rest)"
  define s' where "s' = dropWhile (\<lambda>c. c \<in> set delim) s"
  from a have ne: "s' \<noteq> []" and r: "rest = drop 1 (dropWhile (\<lambda>c. c \<notin> set delim) s')"
    by (auto simp: strtok_r_def s'_def Let_def split: if_splits)
  have "length s' \<le> length s" by (simp add: s'_def dropWhile_length_le)
  moreover from ne obtain c cs where c: "s' = c # cs" and "c \<notin> set delim"
    unfolding s'_def by (metis dropWhile_eq_Cons_conv list.exhaust)
  with r have "rest = drop 1 (dropWhile (\<lambda>c. c \<notin> set delim) cs)" by simp
  then have "length rest \<le> length cs"
    by (metis dropWhile_length_le length_drop diff_le_self le_trans)
  ultimately show ?thesis using c by simp
qed

text \<open>
  The loop \<^verbatim>\<open>tok = strtok_r(...); while (tok) { ...; tok = strtok_r(...); }\<close> visits
  these tokens in this order; the loop bodies of the program do not touch the part of the
  string behind the current token.
\<close>

function tokens :: "string \<Rightarrow> string \<Rightarrow> string list" where
  "tokens delim s =
     (case strtok_r delim s of None \<Rightarrow> [] | Some (tok, rest) \<Rightarrow> tok # tokens delim rest)"
  by pat_completeness auto
termination
  by (relation "measure (\<lambda>(d, s). length s)") (auto dest: strtok_r_shorter)

declare tokens.simps [simp del]

lemma tokens_Nil [simp, token_simps]: "tokens d [] = []"
  by (simp add: tokens.simps strtok_r_def)

lemma tokens_skip [token_simps]: "c \<in> set d \<Longrightarrow> tokens d (c # s) = tokens d s"
  by (subst (1 2) tokens.simps) (simp add: strtok_r_def)

lemma tokens_single:
  assumes "t \<noteq> []" and "set t \<inter> set d = {}"
  shows "tokens d t = [t]"
proof -
  have dw: "dropWhile (\<lambda>c. c \<in> set d) t = t"
    using assms by (cases t) auto
  have tw: "takeWhile (\<lambda>c. c \<notin> set d) t = t" "dropWhile (\<lambda>c. c \<notin> set d) t = []"
    using assms(2) by auto
  show ?thesis
    using assms(1) by (subst tokens.simps) (simp add: strtok_r_def dw tw)
qed

lemma tokens_cons:
  assumes "t \<noteq> []" and "set t \<inter> set d = {}" and "c \<in> set d"
  shows "tokens d (t @ c # s) = t # tokens d s"
proof -
  have dw: "dropWhile (\<lambda>c. c \<in> set d) (t @ c # s) = t @ c # s"
    using assms(1,2) by (cases t) auto
  have tw: "takeWhile (\<lambda>c. c \<notin> set d) (t @ c # s) = t"
    "dropWhile (\<lambda>c. c \<notin> set d) (t @ c # s) = c # s"
    using assms(2,3) by (induction t) auto
  show ?thesis
    using assms(1) by (subst tokens.simps) (simp add: strtok_r_def dw tw)
qed

lemma strtok_r_token:
  assumes "strtok_r d s = Some (tok, rest)"
  shows "tok \<noteq> []" and "set tok \<inter> set d = {}"
proof -
  define s' where "s' = dropWhile (\<lambda>c. c \<in> set d) s"
  from assms have ne: "s' \<noteq> []" and tok: "tok = takeWhile (\<lambda>c. c \<notin> set d) s'"
    by (auto simp: strtok_r_def s'_def Let_def split: if_splits)
  from ne have "hd s' \<notin> set d" unfolding s'_def by (rule hd_dropWhile)
  with ne tok show "tok \<noteq> []" by (cases s') auto
  show "set tok \<inter> set d = {}" using tok by (auto dest: set_takeWhileD)
qed

lemma tokens_words:
  "\<forall>t\<in>set (tokens d s). t \<noteq> [] \<and> set t \<inter> set d = {}"
proof (induction s rule: measure_induct_rule [where f = length])
  case (less s)
  show ?case
  proof (cases "strtok_r d s")
    case None
    then show ?thesis by (simp add: tokens.simps)
  next
    case (Some p)
    obtain tok rest where p: "p = (tok, rest)" by fastforce
    have "tokens d s = tok # tokens d rest"
      using Some p by (simp add: tokens.simps)
    with less [OF strtok_r_shorter] strtok_r_token Some p show ?thesis by auto
  qed
qed

text \<open>Joining non-empty delimiter-free words and splitting them again.\<close>

fun join_with :: "char \<Rightarrow> string list \<Rightarrow> string" where
  "join_with c [] = []"
| "join_with c [t] = t"
| "join_with c (t # u # ts) = t @ c # join_with c (u # ts)"

lemma set_join_with: "set (join_with c ts) \<subseteq> insert c (\<Union>t\<in>set ts. set t)"
  by (induction c ts rule: join_with.induct) auto

lemma join_with_snoc: "join_with c (ts @ [t]) @ u = join_with c (ts @ [t @ u])"
  by (induction c ts rule: join_with.induct) auto

lemma length_join_with: "ts \<noteq> [] \<Longrightarrow> Suc (length (join_with c ts)) = (\<Sum>t\<leftarrow>ts. Suc (length t))"
  by (induction c ts rule: join_with.induct) auto

lemma tokens_join:
  assumes "\<forall>t\<in>set ts. t \<noteq> [] \<and> c \<notin> set t"
  shows "tokens [c] (join_with c ts) = ts"
  using assms
  by (induction c ts rule: join_with.induct) (auto simp: tokens_single tokens_cons)

section \<open>Numbers\<close>

definition LONG_MAX :: int where "LONG_MAX = 2 ^ 63 - 1"
definition LONG_MIN :: int where "LONG_MIN = - (2 ^ 63)"

definition dec_val :: "string \<Rightarrow> int" where
  "dec_val ds = foldl (\<lambda>n c. 10 * n + digit_val c) 0 ds"

text \<open>
  \<^verbatim>\<open>strtol(s, &end, 10)\<close> with a 64-bit \<^verbatim>\<open>long\<close>: white space, an optional
  sign and digits; the value saturates; \<^verbatim>\<open>end\<close> is the text behind the number, or the
  whole text where there is none.
\<close>

definition strtol :: "string \<Rightarrow> int \<times> string" where
  "strtol s =
     (let s1 = dropWhile isspace s;
          neg = (s1 \<noteq> [] \<and> hd s1 = CHR ''-'');
          s2 = (if s1 \<noteq> [] \<and> (hd s1 = CHR ''-'' \<or> hd s1 = CHR ''+'') then tl s1 else s1);
          ds = takeWhile isdigit s2
      in if ds = [] then (0, s)
         else (clamp LONG_MIN (if neg then - dec_val ds else dec_val ds) LONG_MAX,
               dropWhile isdigit s2))"

lemma dec_val_foldl: "\<forall>c\<in>set ds. isdigit c \<Longrightarrow> 0 \<le> n \<Longrightarrow>
    n \<le> foldl (\<lambda>n c. 10 * n + digit_val c) n ds"
proof (induction ds arbitrary: n)
  case (Cons c ds)
  have "0 \<le> digit_val c" using Cons.prems(1) digit_val_bounds by simp
  with Cons.prems Cons.IH [of "10 * n + digit_val c"] show ?case by simp
qed simp

lemma dec_val_nonneg: "\<forall>c\<in>set ds. isdigit c \<Longrightarrow> 0 \<le> dec_val ds"
  using dec_val_foldl [of ds 0] by (simp add: dec_val_def)

lemma digit_not_space: "isdigit c \<Longrightarrow> \<not> isspace c"
  by (auto simp: isdigit_def isspace_def SP_def)

lemma digit_not_sign: "isdigit c \<Longrightarrow> c \<noteq> CHR ''-'' \<and> c \<noteq> CHR ''+''"
  by (auto simp: isdigit_def)

text \<open>On a text that starts with digits, as every number the parser reads does.\<close>

lemma strtol_digits:
  assumes "ds \<noteq> []" and "\<forall>c\<in>set ds. isdigit c" and "rest = [] \<or> \<not> isdigit (hd rest)"
  shows "strtol (ds @ rest) = (min LONG_MAX (dec_val ds), rest)"
proof -
  obtain d es where ds: "ds = d # es" using assms(1) by (cases ds) auto
  have d: "isdigit d" using assms(2) ds by simp
  have 1: "dropWhile isspace (ds @ rest) = ds @ rest"
    using d by (simp add: ds digit_not_space)
  have 2: "takeWhile isdigit (ds @ rest) = ds" "dropWhile isdigit (ds @ rest) = rest"
    using assms(2,3) by (cases rest; auto)+
  have 3: "0 \<le> dec_val ds" by (rule dec_val_nonneg [OF assms(2)])
  have 4: "ds @ rest \<noteq> []" "hd (ds @ rest) = d" using ds by simp_all
  have "strtol (ds @ rest) = (clamp LONG_MIN (dec_val ds) LONG_MAX, rest)"
    unfolding strtol_def Let_def 1 using 4 digit_not_sign [OF d] assms(1) by (simp add: 2)
  with 3 show ?thesis by (simp add: clamp_def LONG_MIN_def LONG_MAX_def min_def)
qed

section \<open>Lines\<close>

text \<open>
  The successive results of \<^verbatim>\<open>getline\<close> on a file: each line with its newline, the last
  one possibly without. Read as a string, a line ends at its first NUL.
\<close>

function getlines :: "string \<Rightarrow> string list" where
  "getlines s =
     (if s = [] then []
      else if LF \<in> set s
      then (takeWhile (\<lambda>c. c \<noteq> LF) s @ [LF]) # getlines (tl (dropWhile (\<lambda>c. c \<noteq> LF) s))
      else [s])"
  by pat_completeness auto
termination
proof (relation "measure length"; clarsimp)
  fix s :: string
  assume "LF \<in> set s"
  then have "dropWhile (\<lambda>c. c \<noteq> LF) s \<noteq> []" by auto
  then show "length (dropWhile (\<lambda>c. c \<noteq> LF) s) - Suc 0 < length s"
    using dropWhile_length_le [of "\<lambda>c. c \<noteq> LF" s] by (cases "dropWhile (\<lambda>c. c \<noteq> LF) s") auto
qed

declare getlines.simps [simp del]

lemma getlines_Nil [simp]: "getlines [] = []"
  by (simp add: getlines.simps)

lemma getlines_cons: "LF \<notin> set l \<Longrightarrow> getlines (l @ LF # s) = (l @ [LF]) # getlines s"
  by (subst getlines.simps) (auto simp: takeWhile_append dropWhile_append)

lemma getlines_last: "LF \<notin> set l \<Longrightarrow> l \<noteq> [] \<Longrightarrow> getlines l = [l]"
  by (simp add: getlines.simps)

end
