(* ===== verification/Posix_Regex.thy ===== *)
theory Posix_Regex
  imports C_String
begin

text \<open>
  The extended regular expressions the configuration parser compiles, as a datatype with
  an executable matcher (derivatives) and the language it recognises. The parser compiles
  with \<^verbatim>\<open>REG_NEWLINE\<close> and anchors every pattern, so a text matches when one of its
  lines is in the language.
\<close>

section \<open>Expressions and their language\<close>

datatype re = Zero | One | Cls string | Seq re re | Alt re re | Star re

definition Plus :: "re \<Rightarrow> re" where "Plus r = Seq r (Star r)"
definition Opt :: "re \<Rightarrow> re" where "Opt r = Alt One r"
definition Lit :: "char \<Rightarrow> re" where "Lit c = Cls [c]"

inductive_set star_lang :: "string set \<Rightarrow> string set" for A where
  star_Nil: "[] \<in> star_lang A"
| star_App: "x \<in> A \<Longrightarrow> x \<noteq> [] \<Longrightarrow> y \<in> star_lang A \<Longrightarrow> x @ y \<in> star_lang A"

fun lang :: "re \<Rightarrow> string set" where
  "lang Zero = {}"
| "lang One = {[]}"
| "lang (Cls cs) = {[c] |c. c \<in> set cs}"
| "lang (Seq r s) = {x @ y |x y. x \<in> lang r \<and> y \<in> lang s}"
| "lang (Alt r s) = lang r \<union> lang s"
| "lang (Star r) = star_lang (lang r)"

fun nullable :: "re \<Rightarrow> bool" where
  "nullable Zero = False"
| "nullable One = True"
| "nullable (Cls cs) = False"
| "nullable (Seq r s) = (nullable r \<and> nullable s)"
| "nullable (Alt r s) = (nullable r \<or> nullable s)"
| "nullable (Star r) = True"

fun deriv :: "char \<Rightarrow> re \<Rightarrow> re" where
  "deriv c Zero = Zero"
| "deriv c One = Zero"
| "deriv c (Cls cs) = (if c \<in> set cs then One else Zero)"
| "deriv c (Seq r s) =
     (if nullable r then Alt (Seq (deriv c r) s) (deriv c s) else Seq (deriv c r) s)"
| "deriv c (Alt r s) = Alt (deriv c r) (deriv c s)"
| "deriv c (Star r) = Seq (deriv c r) (Star r)"

definition re_match :: "re \<Rightarrow> string \<Rightarrow> bool" where
  "re_match r s = nullable (fold deriv s r)"

lemma nullable_iff: "nullable r \<longleftrightarrow> [] \<in> lang r"
  by (induction r) (auto intro: star_Nil)

lemma star_lang_Cons:
  "c # z \<in> star_lang A \<longleftrightarrow> (\<exists>x y. z = x @ y \<and> c # x \<in> A \<and> y \<in> star_lang A)"
proof
  assume "c # z \<in> star_lang A"
  then show "\<exists>x y. z = x @ y \<and> c # x \<in> A \<and> y \<in> star_lang A"
    by (cases rule: star_lang.cases) (auto simp: append_eq_Cons_conv Cons_eq_append_conv)
next
  assume "\<exists>x y. z = x @ y \<and> c # x \<in> A \<and> y \<in> star_lang A"
  then obtain x y where "z = x @ y" "c # x \<in> A" "y \<in> star_lang A" by blast
  then show "c # z \<in> star_lang A" using star_App [of "c # x" A y] by simp
qed

lemma lang_deriv: "s \<in> lang (deriv c r) \<longleftrightarrow> c # s \<in> lang r"
proof (induction r arbitrary: s)
  case (Seq r1 r2)
  have "c # s \<in> lang (Seq r1 r2) \<longleftrightarrow>
      ([] \<in> lang r1 \<and> c # s \<in> lang r2) \<or> (\<exists>x y. s = x @ y \<and> c # x \<in> lang r1 \<and> y \<in> lang r2)"
    by (simp add: Cons_eq_append_conv) blast
  also have "\<dots> \<longleftrightarrow> s \<in> lang (deriv c (Seq r1 r2))"
    using Seq by (auto simp: nullable_iff)
  finally show ?case by blast
next
  case (Star r)
  then show ?case by (auto simp: star_lang_Cons)
qed auto

theorem re_match_iff: "re_match r s \<longleftrightarrow> s \<in> lang r"
  unfolding re_match_def
  by (induction s arbitrary: r) (auto simp: nullable_iff lang_deriv)

section \<open>Lines of a text\<close>

text \<open>
  With \<^verbatim>\<open>REG_NEWLINE\<close> the anchors match at line ends and no class holds a newline, so
  an anchored pattern matches a text when it matches one of its lines.
\<close>

fun text_lines :: "string \<Rightarrow> string list" where
  "text_lines [] = [[]]"
| "text_lines (c # s) =
     (if c = LF then [] # text_lines s
      else case text_lines s of [] \<Rightarrow> [[c]] | l # ls \<Rightarrow> (c # l) # ls)"

lemma text_lines_nonempty [simp]: "text_lines s \<noteq> []"
  by (induction s) (auto split: list.splits)

lemma text_lines_single: "LF \<notin> set s \<Longrightarrow> text_lines s = [s]"
  by (induction s) auto

lemma text_lines_newline: "LF \<notin> set s \<Longrightarrow> text_lines (s @ [LF]) = [s, []]"
  by (induction s) auto

definition anchored_match :: "re \<Rightarrow> string \<Rightarrow> bool" where
  "anchored_match r s = list_ex (re_match r) (text_lines s)"

lemma anchored_match_single: "LF \<notin> set s \<Longrightarrow> anchored_match r s \<longleftrightarrow> s \<in> lang r"
  by (simp add: anchored_match_def text_lines_single re_match_iff)

lemma anchored_match_newline:
  "LF \<notin> set s \<Longrightarrow> [] \<notin> lang r \<Longrightarrow> anchored_match r (s @ [LF]) \<longleftrightarrow> s \<in> lang r"
  by (simp add: anchored_match_def text_lines_newline re_match_iff)

lemma lang_Lit [simp]: "lang (Lit c) = {[c]}"
  by (simp add: Lit_def)

lemma lang_Opt [simp]: "lang (Opt r) = insert [] (lang r)"
  by (simp add: Opt_def)

lemma lang_SeqI: "x \<in> lang r \<Longrightarrow> y \<in> lang t \<Longrightarrow> s = x @ y \<Longrightarrow> s \<in> lang (Seq r t)"
  by auto

lemma lang_Seq_Lit [simp]: "s \<in> lang (Seq (Lit c) r) \<longleftrightarrow> (\<exists>z. s = c # z \<and> z \<in> lang r)"
  by auto

lemma star_Cls: "x \<in> star_lang (lang (Cls cs)) \<longleftrightarrow> set x \<subseteq> set cs"
proof
  assume "x \<in> star_lang (lang (Cls cs))"
  then show "set x \<subseteq> set cs" by (induction rule: star_lang.induct) auto
next
  assume "set x \<subseteq> set cs"
  then show "x \<in> star_lang (lang (Cls cs))"
    by (induction x) (auto simp: star_lang_Cons intro: star_Nil)
qed

lemma lang_Plus_Cls [simp]: "lang (Plus (Cls cs)) = {x. x \<noteq> [] \<and> set x \<subseteq> set cs}"
proof (intro set_eqI iffI)
  fix x
  assume "x \<in> lang (Plus (Cls cs))"
  then show "x \<in> {x. x \<noteq> [] \<and> set x \<subseteq> set cs}"
    unfolding Plus_def lang.simps(4) lang.simps(6) star_Cls by auto
next
  fix x
  assume "x \<in> {x. x \<noteq> [] \<and> set x \<subseteq> set cs}"
  then obtain c y where x: "x = [c] @ y" and "c \<in> set cs" "set y \<subseteq> set cs"
    by (cases x) auto
  then have "[c] \<in> lang (Cls cs)" and "y \<in> star_lang (lang (Cls cs))"
    by (simp, blast intro: star_Cls [THEN iffD2])
  then show "x \<in> lang (Plus (Cls cs))"
    unfolding Plus_def lang.simps(4) lang.simps(6) using x by blast
qed

end
