(* ===== verification/Cron_Parser.thy ===== *)
theory Cron_Parser
  imports Posix_Regex
begin

text \<open>
  The configuration parser, \<^verbatim>\<open>src/src/cronparser.c\<close>: cron-like rules with five time
  fields and a list of tags, and the test whether a rule applies at a moment. A field is an
  array of flags; \<open>parse_subtoken\<close> sets the flags one comma-separated part stands for.
  A write behind the end of a field is \<open>Undefined\<close>, every \<^verbatim>\<open>exit(EXIT_FAILURE)\<close>
  is \<open>Exit EXIT_FAILURE\<close>. Log messages are not modelled.
\<close>

section \<open>Rules\<close>

record cron_rule_t =
  minutes :: "bool list"
  hours :: "bool list"
  days_of_month :: "bool list"
  months :: "bool list"
  days_of_week :: "bool list"
  rule :: string

record rule_container_t =
  arr :: "cron_rule_t list"
  num_rules :: nat

definition init_rule :: cron_rule_t where
  "init_rule =
     \<lparr>minutes = replicate 60 False, hours = replicate 24 False,
      days_of_month = replicate 31 False, months = replicate 12 False,
      days_of_week = replicate 7 False, rule = []\<rparr>"

definition copy_rule :: "cron_rule_t \<Rightarrow> cron_rule_t" where
  "copy_rule origin =
     \<lparr>minutes = map (\<lambda>i. minutes origin ! i) [0..<60],
      hours = map (\<lambda>i. hours origin ! i) [0..<24],
      days_of_month = map (\<lambda>i. days_of_month origin ! i) [0..<31],
      months = map (\<lambda>i. months origin ! i) [0..<12],
      days_of_week = map (\<lambda>i. days_of_week origin ! i) [0..<7],
      rule = rule origin\<rparr>"

text \<open>The well-formedness every operation keeps: the five arrays have their C lengths.\<close>

definition wf_rule :: "cron_rule_t \<Rightarrow> bool" where
  "wf_rule r \<longleftrightarrow> length (minutes r) = 60 \<and> length (hours r) = 24 \<and>
     length (days_of_month r) = 31 \<and> length (months r) = 12 \<and> length (days_of_week r) = 7"

definition wf_rules :: "rule_container_t \<Rightarrow> bool" where
  "wf_rules c \<longleftrightarrow> num_rules c = length (arr c) \<and> list_all wf_rule (arr c)"

section \<open>Regular expressions of the parser\<close>

definition digits :: string where "digits = ''0123456789''"
definition letters :: string where
  "letters = ''abcdefghijklmnopqrstuvwxyzABCDEFGHIJKLMNOPQRSTUVWXYZ''"

definition re_num :: re where "re_num = Plus (Cls digits)"
definition re_letter :: re where "re_letter = Cls letters"

definition r_subtoken :: re where
  "r_subtoken =
     Alt (Seq (Alt re_num (Lit (CHR ''*'')))
           (Seq (Opt (Seq (Lit (CHR ''-'')) re_num)) (Opt (Seq (Lit (CHR ''/'')) re_num))))
         (Seq re_letter (Seq re_letter re_letter))"

definition r_subtoken_num :: re where
  "r_subtoken_num = Alt re_num (Lit (CHR ''*''))"

definition r_subtoken_range :: re where
  "r_subtoken_range = Seq re_num (Seq (Lit (CHR ''-'')) re_num)"

definition r_subtoken_div :: re where
  "r_subtoken_div = Seq (Alt (Lit (CHR ''*'')) re_num) (Seq (Lit (CHR ''/'')) re_num)"

definition r_subtoken_range_div :: re where
  "r_subtoken_range_div =
     Seq re_num (Seq (Lit (CHR ''-'')) (Seq re_num (Seq (Lit (CHR ''/'')) re_num)))"

definition r_subtoken_str :: re where
  "r_subtoken_str = Seq re_letter (Seq re_letter re_letter)"

definition match_regex :: "re \<Rightarrow> string \<Rightarrow> bool" where
  "match_regex r to_match = anchored_match r to_match"

section \<open>Fields\<close>

definition month_names :: "string list" where
  "month_names = [''Jan'', ''Feb'', ''Mar'', ''Apr'', ''May'', ''Jun'', ''Jul'', ''Aug'', ''Sep'',
     ''Okt'', ''Nov'', ''Dec'']"

definition weekday_names :: "string list" where
  "weekday_names = [''Sun'', ''Mon'', ''Tue'', ''Wed'', ''Thu'', ''Fri'', ''Sat'']"

text \<open>The loops over the name tables: the first index whose name matches, if any.\<close>

fun name_index :: "int \<Rightarrow> string list \<Rightarrow> string \<Rightarrow> int \<Rightarrow> int" where
  "name_index index [] subtoken result = result"
| "name_index index (n # ns) subtoken result =
     (if strcaseeq n subtoken then index else name_index (index + 1) ns subtoken result)"

definition parse_subtoken :: "bool list \<Rightarrow> int \<Rightarrow> string \<Rightarrow> bool list result" where
  "parse_subtoken return_values len subtoken =
     (if \<not> match_regex r_subtoken subtoken then Inl (Exit EXIT_FAILURE)
      else if match_regex r_subtoken_num subtoken then
        if chr_at subtoken 0 = CHR ''*'' then loop_set 0 len (\<lambda>i. True) True return_values
        else let (number, ptr) = strtol subtoken in
          if number < len then arr_set return_values number True else Inr return_values
      else if match_regex r_subtoken_range subtoken then
        let (number_1, ptr_dash) = strtol subtoken;
            (number_2, ptr_end) = strtol (drop 1 ptr_dash)
        in loop_set 0 len (\<lambda>i. number_1 \<le> i \<and> i \<le> number_2) True return_values
      else if match_regex r_subtoken_div subtoken then
        if chr_at subtoken 0 = CHR ''*'' then
          let (divisor, ptr_end) = strtol (drop 2 subtoken) in
          if divisor = 0 then Inl (Exit EXIT_FAILURE)
          else loop_set 1 len (\<lambda>i. i smod divisor = 0) True return_values
        else
          let (number_1, ptr_dash) = strtol subtoken;
              (divisor, ptr_end) = strtol (drop 1 ptr_dash)
          in if divisor = 0 then Inl (Exit EXIT_FAILURE)
             else loop_set 1 len (\<lambda>i. number_1 smod divisor = 0 \<and> i = number_1 sdiv divisor) True
                    return_values
      else if match_regex r_subtoken_range_div subtoken then
        let (number_1, ptr_dash) = strtol subtoken;
            (number_2, ptr_slash) = strtol (drop 1 ptr_dash);
            (divisor, ptr_end) = strtol (drop 1 ptr_slash)
        in if divisor = 0 then Inl (Exit EXIT_FAILURE)
           else loop_set 1 len (\<lambda>i. number_1 \<le> i \<and> i \<le> number_2 \<and> i smod divisor = 0) True
                  return_values
      else if match_regex r_subtoken_str subtoken then
        let result = name_index 0 weekday_names subtoken
                       (name_index 0 month_names subtoken (-1))
        in if result = -1 then Inl (Exit EXIT_FAILURE)
           else arr_set return_values result True
      else Inl (Exit EXIT_FAILURE))"

definition split_into_subtokens :: "bool list \<Rightarrow> int \<Rightarrow> string \<Rightarrow> bool list result" where
  "split_into_subtokens a len token =
     foldR (\<lambda>subtoken a. parse_subtoken a len subtoken) (tokens '','' token) a"

definition parse_minutes :: "string \<Rightarrow> cron_rule_t \<Rightarrow> cron_rule_t result" where
  "parse_minutes token r =
     bindR (split_into_subtokens (minutes r) 60 token) (\<lambda>a. Inr (r\<lparr>minutes := a\<rparr>))"

definition parse_hours :: "string \<Rightarrow> cron_rule_t \<Rightarrow> cron_rule_t result" where
  "parse_hours token r =
     bindR (split_into_subtokens (hours r) 24 token) (\<lambda>a. Inr (r\<lparr>hours := a\<rparr>))"

definition parse_days_of_month :: "string \<Rightarrow> cron_rule_t \<Rightarrow> cron_rule_t result" where
  "parse_days_of_month token r =
     bindR (split_into_subtokens (days_of_month r) 31 token) (\<lambda>a. Inr (r\<lparr>days_of_month := a\<rparr>))"

definition parse_months :: "string \<Rightarrow> cron_rule_t \<Rightarrow> cron_rule_t result" where
  "parse_months token r =
     bindR (split_into_subtokens (months r) 12 token) (\<lambda>a. Inr (r\<lparr>months := a\<rparr>))"

definition parse_days_of_week :: "string \<Rightarrow> cron_rule_t \<Rightarrow> cron_rule_t result" where
  "parse_days_of_week token r =
     bindR (split_into_subtokens (days_of_week r) 7 token) (\<lambda>a. Inr (r\<lparr>days_of_week := a\<rparr>))"

section \<open>Configuration files\<close>

text \<open>
  The default case of the token loop: the token is appended behind a space; then the
  character at \<^verbatim>\<open>rule_len - 1\<close> is tested for a newline.
\<close>

definition append_tag :: "string \<Rightarrow> cron_rule_t \<Rightarrow> cron_rule_t" where
  "append_tag token r =
     (let rule_len = length token + length (rule r) + 2;
          s1 = strncat (rule r) '' '' (rule_len - 1);
          s2 = strncat s1 token (rule_len - 1);
          s3 = (if chr_at s2 (rule_len - 1) = LF then take (rule_len - 1) s2 else s2)
      in r\<lparr>rule := s3\<rparr>)"

definition parse_token :: "nat \<Rightarrow> string \<Rightarrow> cron_rule_t \<Rightarrow> cron_rule_t result" where
  "parse_token index token r =
     (if index = 0 then parse_minutes token r
      else if index = 1 then parse_hours token r
      else if index = 2 then parse_days_of_month token r
      else if index = 3 then parse_months token r
      else if index = 4 then parse_days_of_week token r
      else Inr (append_tag token r))"

fun parse_tokens :: "nat \<Rightarrow> string list \<Rightarrow> cron_rule_t \<Rightarrow> (nat \<times> cron_rule_t) result" where
  "parse_tokens index [] r = Inr (index, r)"
| "parse_tokens index (token # ts) r =
     bindR (parse_token index token r) (\<lambda>r'. parse_tokens (index + 1) ts r')"

definition add_rule :: "rule_container_t \<Rightarrow> cron_rule_t \<Rightarrow> rule_container_t" where
  "add_rule rules tmp_rule =
     rules\<lparr>arr := take (num_rules rules) (arr rules) @ [copy_rule tmp_rule],
           num_rules := num_rules rules + 1\<rparr>"

definition parse_config_line :: "string \<Rightarrow> rule_container_t \<Rightarrow> rule_container_t result" where
  "parse_config_line line rules =
     (if chr_at line 0 = CHR ''#'' \<or> length line < 10 then Inr rules
      else bindR (parse_tokens 0 (tokens '' '' line) init_rule)
        (\<lambda>(index, tmp_rule).
           if 0 < index \<and> index < 5 then Inl (Exit EXIT_FAILURE)
           else if 0 < index then Inr (add_rule rules tmp_rule)
           else Inr rules))"

text \<open>The file is \<open>None\<close> where \<^verbatim>\<open>fopen\<close> fails.\<close>

definition parse_config :: "rule_container_t \<Rightarrow> string option \<Rightarrow> rule_container_t result" where
  "parse_config rules file =
     (case file of
        None \<Rightarrow> Inl (Exit EXIT_FAILURE)
      | Some content \<Rightarrow> foldR parse_config_line (map c_str (getlines content)) rules)"

section \<open>Matching\<close>

text \<open>
  The fields of \<^verbatim>\<open>struct tm\<close> that are read. The conversion \<^verbatim>\<open>localtime\<close>
  depends on the time zone of the machine and is a parameter; it may return a null pointer.
\<close>

record tm =
  tm_min :: int
  tm_hour :: int
  tm_mday :: int
  tm_mon :: int
  tm_wday :: int

definition and_get :: "bool list \<Rightarrow> int \<Rightarrow> bool result \<Rightarrow> bool result" where
  "and_get xs i k = bindR (arr_get xs i) (\<lambda>b. if b then k else Inr False)"

definition rule_match :: "(int \<Rightarrow> tm option) \<Rightarrow> cron_rule_t \<Rightarrow> int \<Rightarrow> bool result" where
  "rule_match localtime r time =
     (case localtime time of
        None \<Rightarrow> Inl Undefined
      | Some t \<Rightarrow>
          and_get (minutes r) (tm_min t)
            (and_get (hours r) (tm_hour t)
              (and_get (days_of_month r) (tm_mday t - 1)
                (and_get (months r) (tm_mon t)
                  (and_get (days_of_week r) (tm_wday t) (Inr True))))))"

end
