(* ===== verification/Cron_Spec.thy ===== *)
theory Cron_Spec
  imports Cron_Parser
begin

text \<open>
  What the configuration parser promises: an abstract syntax for the parts of a field with
  its text and its meaning, the proof that \<open>parse_subtoken\<close> accepts exactly these texts and
  sets exactly the flags the meaning names, the lifting to comma-separated fields, to whole
  lines and files, and to the test of a rule against a moment.
\<close>

section \<open>Parts of a field\<close>

datatype subtok =
    All_S
  | Num_S string
  | Range_S string string
  | AllDiv_S string
  | NumDiv_S string string
  | RangeDiv_S string string string
  | Name_S string

fun print_subtok :: "subtok \<Rightarrow> string" where
  "print_subtok All_S = ''*''"
| "print_subtok (Num_S n) = n"
| "print_subtok (Range_S a b) = a @ CHR ''-'' # b"
| "print_subtok (AllDiv_S d) = CHR ''*'' # CHR ''/'' # d"
| "print_subtok (NumDiv_S n d) = n @ CHR ''/'' # d"
| "print_subtok (RangeDiv_S a b d) = a @ CHR ''-'' # b @ CHR ''/'' # d"
| "print_subtok (Name_S s) = s"

definition is_num :: "string \<Rightarrow> bool" where
  "is_num ds \<longleftrightarrow> ds \<noteq> [] \<and> set ds \<subseteq> set digits"

fun wf_subtok :: "subtok \<Rightarrow> bool" where
  "wf_subtok All_S = True"
| "wf_subtok (Num_S n) = is_num n"
| "wf_subtok (Range_S a b) = (is_num a \<and> is_num b)"
| "wf_subtok (AllDiv_S d) = is_num d"
| "wf_subtok (NumDiv_S n d) = (is_num n \<and> is_num d)"
| "wf_subtok (RangeDiv_S a b d) = (is_num a \<and> is_num b \<and> is_num d)"
| "wf_subtok (Name_S s) = (length s = 3 \<and> set s \<subseteq> set letters)"

text \<open>The value of a number as the code reads it, and the index a name stands for.\<close>

definition num_val :: "string \<Rightarrow> int" where
  "num_val ds = min LONG_MAX (dec_val ds)"

definition name_val :: "string \<Rightarrow> int" where
  "name_val s = name_index 0 weekday_names s (name_index 0 month_names s (-1))"

text \<open>The flags a part sets.\<close>

fun selects :: "subtok \<Rightarrow> int \<Rightarrow> bool" where
  "selects All_S i = True"
| "selects (Num_S n) i = (i = num_val n)"
| "selects (Range_S a b) i = (num_val a \<le> i \<and> i \<le> num_val b)"
| "selects (AllDiv_S d) i = (0 < i \<and> i mod num_val d = 0)"
| "selects (NumDiv_S n d) i = (0 < i \<and> num_val n mod num_val d = 0 \<and> i = num_val n div num_val d)"
| "selects (RangeDiv_S a b d) i = (0 < i \<and> num_val a \<le> i \<and> i \<le> num_val b \<and> i mod num_val d = 0)"
| "selects (Name_S s) i = (i = name_val s)"

text \<open>The parts on which the program stops, and the one on which it writes out of bounds.\<close>

fun subtok_fault :: "int \<Rightarrow> subtok \<Rightarrow> fault option" where
  "subtok_fault len (AllDiv_S d) = (if num_val d = 0 then Some (Exit EXIT_FAILURE) else None)"
| "subtok_fault len (NumDiv_S n d) = (if num_val d = 0 then Some (Exit EXIT_FAILURE) else None)"
| "subtok_fault len (RangeDiv_S a b d) = (if num_val d = 0 then Some (Exit EXIT_FAILURE) else None)"
| "subtok_fault len (Name_S s) =
     (if name_val s = -1 then Some (Exit EXIT_FAILURE)
      else if len \<le> name_val s then Some Undefined else None)"
| "subtok_fault len _ = None"

definition set_flags :: "(int \<Rightarrow> bool) \<Rightarrow> bool list \<Rightarrow> bool list" where
  "set_flags p a = map (\<lambda>i. a ! i \<or> p (int i)) [0..<length a]"

lemma set_flags_length [simp]: "length (set_flags p a) = length a"
  by (simp add: set_flags_def)

lemma set_flags_nth [simp]: "i < length a \<Longrightarrow> set_flags p a ! i = (a ! i \<or> p (int i))"
  by (simp add: set_flags_def)

lemma set_flags_twice: "set_flags q (set_flags p a) = set_flags (\<lambda>i. p i \<or> q i) a"
  by (auto simp: set_flags_def intro!: map_cong)

lemma set_flags_cong: "(\<And>i. 0 \<le> i \<Longrightarrow> i < int (length a) \<Longrightarrow> p i = q i) \<Longrightarrow> set_flags p a = set_flags q a"
  by (auto simp: set_flags_def intro!: map_cong)

lemma set_flags_none: "(\<And>i. 0 \<le> i \<Longrightarrow> i < int (length a) \<Longrightarrow> \<not> p i) \<Longrightarrow> set_flags p a = a"
  by (rule nth_equalityI) auto

lemma loop_set_flags:
  "0 \<le> k \<Longrightarrow> loop_set k (int (length a)) p True a = Inr (set_flags (\<lambda>i. k \<le> i \<and> p i) a)"
  by (auto simp: loop_set_upto set_flags_def)

lemma list_update_flags:
  "0 \<le> n \<Longrightarrow> n < int (length a) \<Longrightarrow> a[nat n := True] = set_flags (\<lambda>i. i = n) a"
  by (intro nth_equalityI) (auto simp: nth_list_update)

lemma selects_point: "selects (Num_S n) = (\<lambda>i. i = num_val n)" "selects (Name_S s) = (\<lambda>i. i = name_val s)"
  by auto

section \<open>Languages of the regular expressions\<close>

lemma set_digits [simp]: "c \<in> set digits \<longleftrightarrow> isdigit c"
  by (simp add: digits_def isdigit_def)

lemma letter_not_digit: "c \<in> set letters \<Longrightarrow> \<not> isdigit c \<and> c \<noteq> CHR ''*'' \<and> c \<noteq> CHR ''-'' \<and> c \<noteq> CHR ''/''"
  by (auto simp: letters_def isdigit_def)

lemma digit_not_special: "isdigit c \<Longrightarrow> c \<noteq> CHR ''*'' \<and> c \<noteq> CHR ''-'' \<and> c \<noteq> CHR ''/'' \<and> c \<noteq> LF"
  by (auto simp: isdigit_def LF_def)

lemma letter_not_LF: "c \<in> set letters \<Longrightarrow> c \<noteq> LF"
  by (auto simp: letters_def LF_def)

lemma is_num_iff: "is_num ds \<longleftrightarrow> ds \<noteq> [] \<and> (\<forall>c\<in>set ds. isdigit c)"
  by (auto simp: is_num_def)

lemma is_num_chars:
  "is_num ds \<Longrightarrow> CHR ''*'' \<notin> set ds \<and> CHR ''-'' \<notin> set ds \<and> CHR ''/'' \<notin> set ds \<and> LF \<notin> set ds"
  using digit_not_special by (auto simp: is_num_iff)

lemma lang_num [simp]: "lang re_num = {ds. is_num ds}"
  unfolding re_num_def lang_Plus_Cls by (simp add: is_num_def)

lemma lang_letter3:
  "lang (Seq re_letter (Seq re_letter re_letter)) = {s. length s = 3 \<and> set s \<subseteq> set letters}"
proof (intro set_eqI iffI)
  fix s
  assume "s \<in> {s. length s = 3 \<and> set s \<subseteq> set letters}"
  then obtain a b c where "s = [a] @ [b] @ [c]" "a \<in> set letters" "b \<in> set letters" "c \<in> set letters"
    by (auto simp: length_Suc_conv eval_nat_numeral)
  then show "s \<in> lang (Seq re_letter (Seq re_letter re_letter))"
    unfolding re_letter_def lang.simps(3,4) by blast
qed (auto simp: re_letter_def)

lemma lang_subtoken_num: "s \<in> lang r_subtoken_num \<longleftrightarrow> s = ''*'' \<or> is_num s"
  by (auto simp: r_subtoken_num_def)

lemma lang_subtoken_range:
  "s \<in> lang r_subtoken_range \<longleftrightarrow> (\<exists>a b. is_num a \<and> is_num b \<and> s = print_subtok (Range_S a b))"
  by (auto simp: r_subtoken_range_def)

lemma lang_subtoken_div:
  "s \<in> lang r_subtoken_div \<longleftrightarrow>
     (\<exists>d. is_num d \<and> s = print_subtok (AllDiv_S d)) \<or>
     (\<exists>n d. is_num n \<and> is_num d \<and> s = print_subtok (NumDiv_S n d))"
proof
  assume "(\<exists>d. is_num d \<and> s = print_subtok (AllDiv_S d)) \<or>
     (\<exists>n d. is_num n \<and> is_num d \<and> s = print_subtok (NumDiv_S n d))"
  then show "s \<in> lang r_subtoken_div"
    unfolding r_subtoken_div_def
    by (elim disjE exE conjE) (rule lang_SeqI, auto)+
qed (auto simp: r_subtoken_div_def)

lemma lang_subtoken_range_div:
  "s \<in> lang r_subtoken_range_div \<longleftrightarrow>
     (\<exists>a b d. is_num a \<and> is_num b \<and> is_num d \<and> s = print_subtok (RangeDiv_S a b d))"
  by (simp add: r_subtoken_range_div_def) blast

lemma lang_subtoken_str: "s \<in> lang r_subtoken_str \<longleftrightarrow> wf_subtok (Name_S s)"
  unfolding r_subtoken_str_def lang_letter3 by simp

lemma lang_subtokenI:
  assumes "is_num a \<or> a = ''*''" and "b = [] \<or> (\<exists>n. is_num n \<and> b = CHR ''-'' # n)"
    and "d = [] \<or> (\<exists>n. is_num n \<and> d = CHR ''/'' # n)"
  shows "a @ b @ d \<in> lang r_subtoken"
proof -
  have "a \<in> lang (Alt re_num (Lit (CHR ''*'')))" using assms(1) by auto
  moreover have "b \<in> lang (Opt (Seq (Lit (CHR ''-'')) re_num))" using assms(2) by auto
  moreover have "d \<in> lang (Opt (Seq (Lit (CHR ''/'')) re_num))" using assms(3) by auto
  ultimately have "a @ b @ d \<in> lang (Seq (Alt re_num (Lit (CHR ''*'')))
      (Seq (Opt (Seq (Lit (CHR ''-'')) re_num)) (Opt (Seq (Lit (CHR ''/'')) re_num))))"
    by (blast intro: lang_SeqI)
  then show ?thesis by (simp only: r_subtoken_def lang.simps(5) Un_iff simp_thms)
qed

lemma print_subtok_lang: "wf_subtok t \<Longrightarrow> print_subtok t \<in> lang r_subtoken"
proof (cases t)
  case All_S
  then show ?thesis using lang_subtokenI [of "''*''" "[]" "[]"] by simp
next
  case (Num_S n)
  then show "wf_subtok t \<Longrightarrow> ?thesis" using lang_subtokenI [of n "[]" "[]"] by simp
next
  case (Range_S a b)
  then show "wf_subtok t \<Longrightarrow> ?thesis" using lang_subtokenI [of a "CHR ''-'' # b" "[]"] by simp
next
  case (AllDiv_S d)
  then show "wf_subtok t \<Longrightarrow> ?thesis" using lang_subtokenI [of "''*''" "[]" "CHR ''/'' # d"] by simp
next
  case (NumDiv_S n d)
  then show "wf_subtok t \<Longrightarrow> ?thesis" using lang_subtokenI [of n "[]" "CHR ''/'' # d"] by simp
next
  case (RangeDiv_S a b d)
  then show "wf_subtok t \<Longrightarrow> ?thesis"
    using lang_subtokenI [of a "CHR ''-'' # b" "CHR ''/'' # d"] by simp
next
  case (Name_S s)
  assume "wf_subtok t"
  with Name_S have "s \<in> lang (Seq re_letter (Seq re_letter re_letter))"
    unfolding lang_letter3 by simp
  with Name_S show ?thesis by (simp only: r_subtoken_def lang.simps(5) Un_iff simp_thms print_subtok.simps)
qed

text \<open>The general pattern: the forms above and a star with a range, which no form accepts.\<close>

lemma lang_subtoken:
  "s \<in> lang r_subtoken \<longleftrightarrow>
     (\<exists>t. wf_subtok t \<and> s = print_subtok t) \<or>
     (\<exists>b d. is_num b \<and> (d = [] \<or> (\<exists>e. is_num e \<and> d = CHR ''/'' # e)) \<and> s = CHR ''*'' # CHR ''-'' # b @ d)"
proof
  assume "s \<in> lang r_subtoken"
  then consider
      (seq) a b d where "s = a @ b @ d" "is_num a \<or> a = ''*''"
        "b = [] \<or> (\<exists>n. is_num n \<and> b = CHR ''-'' # n)" "d = [] \<or> (\<exists>n. is_num n \<and> d = CHR ''/'' # n)"
    | (str) "wf_subtok (Name_S s)"
    unfolding r_subtoken_def lang.simps(5) lang_letter3 by auto
  then show "(\<exists>t. wf_subtok t \<and> s = print_subtok t) \<or>
     (\<exists>b d. is_num b \<and> (d = [] \<or> (\<exists>e. is_num e \<and> d = CHR ''/'' # e)) \<and> s = CHR ''*'' # CHR ''-'' # b @ d)"
  proof cases
    case str
    then show ?thesis using print_subtok.simps(7) by metis
  next
    case seq
    consider "b = []" "d = []" | n where "is_num n" "b = CHR ''-'' # n" "d = []"
      | n where "is_num n" "b = []" "d = CHR ''/'' # n"
      | n m where "is_num n" "is_num m" "b = CHR ''-'' # n" "d = CHR ''/'' # m"
      using seq by blast
    then show ?thesis
    proof cases
      case 1
      with seq have "wf_subtok (if a = ''*'' then All_S else Num_S a)"
        "s = print_subtok (if a = ''*'' then All_S else Num_S a)" by auto
      then show ?thesis by blast
    next
      case 2
      show ?thesis
      proof (cases "a = ''*''")
        case True
        with 2 seq have "s = CHR ''*'' # CHR ''-'' # n @ []" by simp
        with 2 show ?thesis by blast
      next
        case False
        with 2 seq have "wf_subtok (Range_S a n)" "s = print_subtok (Range_S a n)" by auto
        then show ?thesis by blast
      qed
    next
      case 3
      with seq have "wf_subtok (if a = ''*'' then AllDiv_S n else NumDiv_S a n)"
        "s = print_subtok (if a = ''*'' then AllDiv_S n else NumDiv_S a n)" by auto
      then show ?thesis by blast
    next
      case 4
      show ?thesis
      proof (cases "a = ''*''")
        case True
        with 4 seq have "s = CHR ''*'' # CHR ''-'' # n @ CHR ''/'' # m" by simp
        with 4 show ?thesis by blast
      next
        case False
        with 4 seq have "wf_subtok (RangeDiv_S a n m)" "s = print_subtok (RangeDiv_S a n m)" by auto
        then show ?thesis by blast
      qed
    qed
  qed
next
  assume "(\<exists>t. wf_subtok t \<and> s = print_subtok t) \<or>
     (\<exists>b d. is_num b \<and> (d = [] \<or> (\<exists>e. is_num e \<and> d = CHR ''/'' # e)) \<and> s = CHR ''*'' # CHR ''-'' # b @ d)"
  then show "s \<in> lang r_subtoken"
  proof
    assume "\<exists>t. wf_subtok t \<and> s = print_subtok t"
    then show ?thesis using print_subtok_lang by blast
  next
    assume "\<exists>b d. is_num b \<and> (d = [] \<or> (\<exists>e. is_num e \<and> d = CHR ''/'' # e)) \<and>
      s = CHR ''*'' # CHR ''-'' # b @ d"
    then obtain b d where "is_num b" "d = [] \<or> (\<exists>e. is_num e \<and> d = CHR ''/'' # e)"
      and s: "s = ''*'' @ (CHR ''-'' # b) @ d" by auto
    then show ?thesis unfolding s by (intro lang_subtokenI) auto
  qed
qed

section \<open>Which pattern a part matches\<close>

lemma print_subtok_no_LF: "wf_subtok t \<Longrightarrow> LF \<notin> set (print_subtok t)"
proof (cases t)
  case (Name_S s)
  then show "wf_subtok t \<Longrightarrow> ?thesis" using letter_not_LF by auto
qed (auto simp: LF_def dest: is_num_chars [unfolded LF_def])

lemma lang_chars:
  "s \<in> lang r_subtoken_num \<Longrightarrow> CHR ''-'' \<notin> set s \<and> CHR ''/'' \<notin> set s"
  "s \<in> lang r_subtoken_range \<Longrightarrow> CHR ''-'' \<in> set s \<and> CHR ''/'' \<notin> set s"
  "s \<in> lang r_subtoken_div \<Longrightarrow> CHR ''-'' \<notin> set s \<and> CHR ''/'' \<in> set s"
  "s \<in> lang r_subtoken_range_div \<Longrightarrow> CHR ''-'' \<in> set s \<and> CHR ''/'' \<in> set s"
  "s \<in> lang r_subtoken_str \<Longrightarrow> CHR ''-'' \<notin> set s \<and> CHR ''/'' \<notin> set s \<and> s \<noteq> ''*'' \<and> \<not> is_num s"
  by (auto simp: lang_subtoken_num lang_subtoken_range lang_subtoken_div lang_subtoken_range_div
      dest: is_num_chars)
    (auto simp: lang_subtoken_str is_num_iff neq_Nil_conv dest: letter_not_digit)

lemma match_regex_lang: "LF \<notin> set s \<Longrightarrow> match_regex r s \<longleftrightarrow> s \<in> lang r"
  by (simp add: match_regex_def anchored_match_single)

text \<open>The patterns in the order the code tries them: exactly one accepts a well-formed part.\<close>

definition kind :: "string \<Rightarrow> nat" where
  "kind s = (if match_regex r_subtoken_num s then 0 else if match_regex r_subtoken_range s then 1
     else if match_regex r_subtoken_div s then 2 else if match_regex r_subtoken_range_div s then 3
     else if match_regex r_subtoken_str s then 4 else 5)"

lemma kind_print:
  assumes "wf_subtok t"
  shows "kind (print_subtok t) =
    (case t of All_S \<Rightarrow> 0 | Num_S _ \<Rightarrow> 0 | Range_S _ _ \<Rightarrow> 1 | AllDiv_S _ \<Rightarrow> 2 | NumDiv_S _ _ \<Rightarrow> 2
     | RangeDiv_S _ _ _ \<Rightarrow> 3 | Name_S _ \<Rightarrow> 4)"
proof -
  let ?s = "print_subtok t"
  note m = match_regex_lang [OF print_subtok_no_LF [OF assms]]
  note c = lang_chars(1) [of ?s] lang_chars(2) [of ?s] lang_chars(3) [of ?s] lang_chars(4) [of ?s]
    lang_chars(5) [of ?s]
  show ?thesis
  proof (cases t)
    case All_S
    then show ?thesis using m by (simp add: kind_def lang_subtoken_num)
  next
    case (Num_S n)
    then show ?thesis using m assms by (simp add: kind_def lang_subtoken_num)
  next
    case (Range_S a b)
    then have "?s \<in> lang r_subtoken_range" using assms lang_subtoken_range by auto
    with Range_S m c show ?thesis by (auto simp: kind_def)
  next
    case (AllDiv_S d)
    then have "?s \<in> lang r_subtoken_div" using assms lang_subtoken_div by auto
    with AllDiv_S m c show ?thesis by (auto simp: kind_def)
  next
    case (NumDiv_S n d)
    then have "?s \<in> lang r_subtoken_div" using assms lang_subtoken_div by auto
    with NumDiv_S m c show ?thesis by (auto simp: kind_def)
  next
    case (RangeDiv_S a b d)
    then have "?s \<in> lang r_subtoken_range_div" using assms lang_subtoken_range_div by auto
    with RangeDiv_S m c show ?thesis by (auto simp: kind_def)
  next
    case (Name_S s)
    then have "?s \<in> lang r_subtoken_str" using assms lang_subtoken_str by auto
    with Name_S m c lang_subtoken_num show ?thesis by (auto simp: kind_def)
  qed
qed

lemma parse_subtoken_kind:
  "parse_subtoken a len s =
    (if \<not> match_regex r_subtoken s then Inl (Exit EXIT_FAILURE)
     else if kind s = 0 then
       (if chr_at s 0 = CHR ''*'' then loop_set 0 len (\<lambda>i. True) True a
        else if fst (strtol s) < len then arr_set a (fst (strtol s)) True else Inr a)
     else if kind s = 1 then
       loop_set 0 len (\<lambda>i. fst (strtol s) \<le> i \<and> i \<le> fst (strtol (drop 1 (snd (strtol s))))) True a
     else if kind s = 2 then
       (if chr_at s 0 = CHR ''*'' then
          (if fst (strtol (drop 2 s)) = 0 then Inl (Exit EXIT_FAILURE)
           else loop_set 1 len (\<lambda>i. i smod fst (strtol (drop 2 s)) = 0) True a)
        else (let d = fst (strtol (drop 1 (snd (strtol s)))) in
          if d = 0 then Inl (Exit EXIT_FAILURE)
          else loop_set 1 len (\<lambda>i. fst (strtol s) smod d = 0 \<and> i = fst (strtol s) sdiv d) True a))
     else if kind s = 3 then
       (let n2 = strtol (drop 1 (snd (strtol s))); d = fst (strtol (drop 1 (snd n2))) in
        if d = 0 then Inl (Exit EXIT_FAILURE)
        else loop_set 1 len (\<lambda>i. fst (strtol s) \<le> i \<and> i \<le> fst n2 \<and> i smod d = 0) True a)
     else if kind s = 4 then
       (if name_val s = -1 then Inl (Exit EXIT_FAILURE) else arr_set a (name_val s) True)
     else Inl (Exit EXIT_FAILURE))"
  by (simp add: parse_subtoken_def kind_def name_val_def split_beta Let_def)

lemma strtol_num: "is_num ds \<Longrightarrow> strtol ds = (num_val ds, [])"
  using strtol_digits [of ds "[]"] by (simp add: is_num_iff num_val_def)

lemma strtol_num_sep:
  "is_num ds \<Longrightarrow> \<not> isdigit c \<Longrightarrow> strtol (ds @ c # rest) = (num_val ds, c # rest)"
  using strtol_digits [of ds "c # rest"] by (simp add: is_num_iff num_val_def)

lemma num_val_nonneg: "is_num ds \<Longrightarrow> 0 \<le> num_val ds"
  by (simp add: num_val_def is_num_iff dec_val_nonneg LONG_MAX_def)

lemma chr_at_num: "is_num ds \<Longrightarrow> chr_at (ds @ s) 0 \<noteq> CHR ''*''"
  by (cases ds) (auto simp: is_num_iff chr_at_def dest: digit_not_special)

lemma not_digit_sep [simp]: "\<not> isdigit (CHR ''-'')" "\<not> isdigit (CHR ''/'')"
  by (simp_all add: isdigit_def)

lemma name_index_bounds: "- 1 \<le> r \<Longrightarrow> 0 \<le> k \<Longrightarrow> -1 \<le> name_index k ns s r"
  by (induction k ns s r rule: name_index.induct) auto

lemma name_val_lower: "-1 \<le> name_val s"
  unfolding name_val_def by (intro name_index_bounds) auto

lemmas strtol_simps = strtol_num strtol_num_sep num_val_nonneg chr_at_num

theorem parse_subtoken_print:
  assumes wf: "wf_subtok t" and len: "len = int (length a)"
  shows "parse_subtoken a len (print_subtok t) =
    (case subtok_fault len t of Some e \<Rightarrow> Inl e | None \<Rightarrow> Inr (set_flags (selects t) a))"
proof -
  have m: "match_regex r_subtoken (print_subtok t)"
    using wf by (simp add: match_regex_lang print_subtok_no_LF print_subtok_lang)
  note k = kind_print [OF wf]
  show ?thesis
  proof (cases t)
    case All_S
    then show ?thesis using m k len
      by (simp add: parse_subtoken_kind loop_set_flags cong: set_flags_cong)
  next
    case (Num_S n)
    then show ?thesis using m k wf len chr_at_num [of n "[]"]
      by (auto simp: parse_subtoken_kind strtol_simps list_update_flags selects_point set_flags_none)
  next
    case (Range_S x y)
    then show ?thesis using m k wf len
      by (auto simp: parse_subtoken_kind strtol_simps loop_set_flags intro!: set_flags_cong)
  next
    case (AllDiv_S d)
    then show ?thesis using m k wf len
      by (auto simp: parse_subtoken_kind strtol_simps loop_set_flags smod_nonneg intro!: set_flags_cong)
  next
    case (NumDiv_S n d)
    then show ?thesis using m k wf len
      by (auto simp: parse_subtoken_kind strtol_simps loop_set_flags smod_nonneg sdiv_nonneg Let_def
          intro!: set_flags_cong)
  next
    case (RangeDiv_S x y d)
    then show ?thesis using m k wf len
      by (auto simp: parse_subtoken_kind strtol_simps loop_set_flags smod_nonneg Let_def
          intro!: set_flags_cong)
  next
    case (Name_S s)
    then show ?thesis using m k wf len name_val_lower [of s]
      by (auto simp: parse_subtoken_kind list_update_flags selects_point arr_set_def)
  qed
qed

lemma parse_subtoken_accepts:
  assumes nl: "LF \<notin> set s" and ok: "parse_subtoken a len s = Inr b"
  shows "\<exists>t. wf_subtok t \<and> s = print_subtok t"
proof (rule ccontr)
  assume no: "\<nexists>t. wf_subtok t \<and> s = print_subtok t"
  from ok have "match_regex r_subtoken s"
    by (auto simp: parse_subtoken_kind split: if_splits)
  with nl no obtain x y where s: "s = CHR ''*'' # CHR ''-'' # x @ y"
    unfolding match_regex_lang [OF nl] lang_subtoken by blast
  have "s \<notin> lang r_subtoken_range" "s \<notin> lang r_subtoken_range_div"
    using s is_num_chars
    by (auto simp: lang_subtoken_range lang_subtoken_range_div Cons_eq_append_conv is_num_iff
        dest: digit_not_special)
  moreover have "s \<notin> lang r_subtoken_num" "s \<notin> lang r_subtoken_div" "s \<notin> lang r_subtoken_str"
    using s lang_chars(1) [of s] lang_chars(3) [of s] lang_chars(5) [of s] by auto
  ultimately have "kind s = 5"
    by (simp add: kind_def match_regex_lang nl)
  with ok show False by (simp add: parse_subtoken_kind split: if_splits)
qed

section \<open>Fields\<close>

definition print_field :: "subtok list \<Rightarrow> string" where
  "print_field ts = join_with (CHR '','') (map print_subtok ts)"

definition field_selects :: "subtok list \<Rightarrow> int \<Rightarrow> bool" where
  "field_selects ts i = list_ex (\<lambda>t. selects t i) ts"

text \<open>A field of \<open>len\<close> entries whose parts are well formed and do not fail.\<close>

definition wf_field :: "int \<Rightarrow> subtok list \<Rightarrow> bool" where
  "wf_field len ts \<longleftrightarrow> ts \<noteq> [] \<and> list_all (\<lambda>t. wf_subtok t \<and> subtok_fault len t = None) ts"

definition plain_char :: "char \<Rightarrow> bool" where
  "plain_char c \<longleftrightarrow> c \<noteq> SP \<and> c \<noteq> LF \<and> c \<noteq> NUL \<and> c \<noteq> CHR '','' \<and> c \<noteq> CHR ''#''"

lemma plain_digit: "isdigit c \<Longrightarrow> plain_char c"
  by (auto simp: isdigit_def plain_char_def SP_def LF_def NUL_def)

lemma plain_letter: "c \<in> set letters \<Longrightarrow> plain_char c"
  by (auto simp: letters_def plain_char_def SP_def LF_def NUL_def)

lemma plain_specials [simp]: "plain_char (CHR ''*'')" "plain_char (CHR ''-'')" "plain_char (CHR ''/'')"
  by (simp_all add: plain_char_def SP_def LF_def NUL_def)

lemma print_subtok_plain: "wf_subtok t \<Longrightarrow> list_all plain_char (print_subtok t)"
  by (cases t) (auto simp: list_all_iff is_num_iff intro: plain_digit plain_letter)

lemma print_subtok_nonempty: "wf_subtok t \<Longrightarrow> print_subtok t \<noteq> []"
  by (cases t) (auto simp: is_num_iff)

lemma tokens_print_field:
  "list_all wf_subtok ts \<Longrightarrow> tokens '','' (print_field ts) = map print_subtok ts"
  unfolding print_field_def using print_subtok_plain print_subtok_nonempty
  by (intro tokens_join) (auto simp: list_all_iff plain_char_def)

lemma foldR_parse_subtokens:
  assumes "list_all (\<lambda>t. wf_subtok t \<and> subtok_fault (int (length a)) t = None) ts"
  shows "foldR (\<lambda>s a. parse_subtoken a (int (length a)) s) (map print_subtok ts) a =
    Inr (set_flags (field_selects ts) a)"
  using assms
proof (induction ts arbitrary: a)
  case Nil
  then show ?case by (simp add: field_selects_def set_flags_none)
next
  case (Cons t ts)
  then show ?case
    by (simp add: parse_subtoken_print set_flags_twice field_selects_def [abs_def])
qed

lemma parse_subtoken_length: "parse_subtoken a len s = Inr b \<Longrightarrow> length b = length a"
proof -
  have "loop_set x y p v xs = Inr ys \<Longrightarrow> length ys = length xs" for x y p v and xs ys :: "bool list"
    unfolding loop_set_def
    by (rule foldR_invariant [where P = "\<lambda>zs. length zs = length xs"])
      (auto dest: arr_set_length split: if_splits)
  then show "parse_subtoken a len s = Inr b \<Longrightarrow> length b = length a"
    by (auto simp: parse_subtoken_kind Let_def split: if_splits dest: arr_set_length)
qed

lemma foldR_len_cong:
  "foldR (\<lambda>s a. parse_subtoken a (int (length a0)) s) ss a0 =
   foldR (\<lambda>s a. parse_subtoken a (int (length a)) s) ss a0"
proof -
  have "length a = length a0 \<Longrightarrow> foldR (\<lambda>s a. parse_subtoken a (int (length a0)) s) ss a =
    foldR (\<lambda>s a. parse_subtoken a (int (length a)) s) ss a" for a
  proof (induction ss arbitrary: a)
    case (Cons s ss)
    then show ?case
      by (cases "parse_subtoken a (int (length a)) s") (auto dest: parse_subtoken_length)
  qed simp
  then show ?thesis by simp
qed

lemma split_print_field:
  assumes "wf_field len ts" and "len = int (length a)"
  shows "split_into_subtokens a len (print_field ts) = Inr (set_flags (field_selects ts) a)"
  using assms unfolding split_into_subtokens_def wf_field_def
  by (simp add: tokens_print_field list_all_iff foldR_len_cong foldR_parse_subtokens)

section \<open>Lines and files\<close>

record cron_line =
  l_minutes :: "subtok list"
  l_hours :: "subtok list"
  l_days_of_month :: "subtok list"
  l_months :: "subtok list"
  l_days_of_week :: "subtok list"
  l_tags :: "string list"

definition tag_word :: "string \<Rightarrow> bool" where
  "tag_word w \<longleftrightarrow> w \<noteq> [] \<and> SP \<notin> set w \<and> LF \<notin> set w \<and> NUL \<notin> set w"

definition wf_line :: "cron_line \<Rightarrow> bool" where
  "wf_line l \<longleftrightarrow> wf_field 60 (l_minutes l) \<and> wf_field 24 (l_hours l) \<and>
     wf_field 31 (l_days_of_month l) \<and> wf_field 12 (l_months l) \<and> wf_field 7 (l_days_of_week l) \<and>
     l_tags l \<noteq> [] \<and> list_all tag_word (l_tags l)"

definition line_words :: "cron_line \<Rightarrow> string list" where
  "line_words l = map print_field [l_minutes l, l_hours l, l_days_of_month l, l_months l, l_days_of_week l]
     @ l_tags l"

definition print_line :: "cron_line \<Rightarrow> string" where
  "print_line l = join_with SP (line_words l) @ [LF]"

text \<open>
  The rule a line stands for. Its tag text holds every tag behind a space and, at the end,
  the newline of the line, which the code means to remove and does not.
\<close>

definition line_rule :: "cron_line \<Rightarrow> cron_rule_t" where
  "line_rule l =
     \<lparr>minutes = set_flags (field_selects (l_minutes l)) (replicate 60 False),
      hours = set_flags (field_selects (l_hours l)) (replicate 24 False),
      days_of_month = set_flags (field_selects (l_days_of_month l)) (replicate 31 False),
      months = set_flags (field_selects (l_months l)) (replicate 12 False),
      days_of_week = set_flags (field_selects (l_days_of_week l)) (replicate 7 False),
      rule = concat (map (\<lambda>t. SP # t) (l_tags l)) @ [LF]\<rparr>"

lemma append_tag_rule [simp]: "rule (append_tag t r) = rule r @ SP # t"
  by (simp add: append_tag_def Let_def chr_at_def NUL_def LF_def SP_def)

lemma append_tag_eq: "append_tag t r = r\<lparr>rule := rule r @ SP # t\<rparr>"
  by (simp add: append_tag_def Let_def chr_at_def NUL_def LF_def SP_def)

lemma parse_tokens_tags:
  "5 \<le> n \<Longrightarrow> parse_tokens n ts r =
     Inr (n + length ts, r\<lparr>rule := rule r @ concat (map (\<lambda>t. SP # t) ts)\<rparr>)"
  by (induction ts arbitrary: n r) (simp_all add: parse_token_def append_tag_eq)

lemma print_field_plain:
  assumes "list_all wf_subtok ts"
  shows "SP \<notin> set (print_field ts) \<and> LF \<notin> set (print_field ts) \<and> NUL \<notin> set (print_field ts)"
proof -
  have "x = CHR '','' \<or> plain_char x" if x: "x \<in> set (print_field ts)" for x
  proof -
    from x have "x = CHR '','' \<or> (\<exists>t\<in>set ts. x \<in> set (print_subtok t))"
      using set_join_with [of "CHR '',''" "map print_subtok ts"] by (auto simp: print_field_def)
    with assms print_subtok_plain show ?thesis by (auto simp: list_all_iff)
  qed
  then have "x = CHR '','' \<or> x \<noteq> SP \<and> x \<noteq> LF \<and> x \<noteq> NUL" if "x \<in> set (print_field ts)" for x
    using that by (auto simp: plain_char_def)
  then show ?thesis by (auto simp: SP_def LF_def NUL_def)
qed

lemma print_field_nonempty: "wf_field n ts \<Longrightarrow> print_field ts \<noteq> []"
  unfolding print_field_def wf_field_def using print_subtok_nonempty
  by (cases ts rule: remdups_adj.cases) auto

lemma wf_field_words:
  "wf_field n ts \<Longrightarrow> tag_word (print_field ts)"
  using print_field_plain [of ts] print_field_nonempty [of n ts]
  by (simp add: wf_field_def tag_word_def list_all_iff)

lemma line_words_ok: "wf_line l \<Longrightarrow> list_all tag_word (line_words l)"
  by (auto simp: wf_line_def line_words_def intro: wf_field_words)

lemma tokens_print_line:
  assumes "wf_line l"
  shows "tokens '' '' (print_line l) =
    map print_field [l_minutes l, l_hours l, l_days_of_month l, l_months l, l_days_of_week l]
      @ butlast (l_tags l) @ [last (l_tags l) @ [LF]]"
proof -
  have ne: "l_tags l \<noteq> []" using assms by (simp add: wf_line_def)
  let ?ws = "butlast (line_words l)" and ?w = "last (line_words l)"
  have ws: "line_words l = ?ws @ [?w]" using ne by (simp add: line_words_def)
  have ok: "\<forall>t\<in>set (?ws @ [?w @ [LF]]). t \<noteq> [] \<and> SP \<notin> set t"
    using line_words_ok [OF assms] unfolding ws [symmetric]
    by (subst (asm) ws) (auto simp: list_all_iff tag_word_def SP_def LF_def)
  have "print_line l = join_with SP (?ws @ [?w @ [LF]])"
    unfolding print_line_def by (subst ws) (simp add: join_with_snoc)
  then have "tokens [SP] (print_line l) = ?ws @ [?w @ [LF]]"
    using tokens_join [OF ok] by simp
  then show ?thesis
    using ne by (simp add: SP_def line_words_def butlast_append)
qed

lemma line_rule_parse:
  assumes "wf_line l"
  shows "parse_tokens 0 (tokens '' '' (print_line l)) init_rule = Inr (5 + length (l_tags l), line_rule l)"
proof -
  have f: "wf_field 60 (l_minutes l)" "wf_field 24 (l_hours l)" "wf_field 31 (l_days_of_month l)"
    "wf_field 12 (l_months l)" "wf_field 7 (l_days_of_week l)" "l_tags l \<noteq> []"
    using assms by (simp_all add: wf_line_def)
  have tags: "concat (map (\<lambda>t. SP # t) (butlast (l_tags l) @ [last (l_tags l) @ [LF]])) =
      concat (map (\<lambda>t. SP # t) (l_tags l)) @ [LF]"
  proof -
    have "concat (map (\<lambda>t. SP # t) (l_tags l)) @ [LF] =
      concat (map (\<lambda>t. SP # t) (butlast (l_tags l) @ [last (l_tags l)])) @ [LF]"
      using f(6) by simp
    then show ?thesis by simp
  qed
  show ?thesis
    unfolding tokens_print_line [OF assms]
    using f
    by (simp add: parse_token_def parse_minutes_def parse_hours_def parse_days_of_month_def
        parse_months_def parse_days_of_week_def init_rule_def split_print_field parse_tokens_tags
        tags [simplified] line_rule_def)
qed

lemma print_line_head: "wf_line l \<Longrightarrow> chr_at (print_line l) 0 \<noteq> CHR ''#''"
proof -
  assume wf: "wf_line l"
  then have "wf_field 60 (l_minutes l)" by (simp add: wf_line_def)
  then obtain t ts where t: "l_minutes l = t # ts" and wt: "wf_subtok t"
    by (cases "l_minutes l") (auto simp: wf_field_def)
  then obtain c cs where "print_subtok t = c # cs" "plain_char c"
    using print_subtok_nonempty [OF wt] print_subtok_plain [OF wt] by (cases "print_subtok t") auto
  then show ?thesis
    using t by (cases ts) (auto simp: print_line_def line_words_def print_field_def plain_char_def)
qed

lemma print_line_long: "wf_line l \<Longrightarrow> 10 \<le> length (print_line l)"
proof -
  assume wf: "wf_line l"
  then have "\<forall>w\<in>set (line_words l). 0 < length w"
    using line_words_ok by (auto simp: list_all_iff tag_word_def)
  then have "(\<Sum>t\<leftarrow>line_words l. 2) \<le> (\<Sum>t\<leftarrow>line_words l. Suc (length t))"
    by (intro sum_list_mono) (auto simp: Suc_le_eq)
  moreover have "6 \<le> length (line_words l)"
    using wf by (cases "l_tags l") (auto simp: line_words_def wf_line_def)
  moreover have "Suc (length (join_with SP (line_words l))) = (\<Sum>t\<leftarrow>line_words l. Suc (length t))"
    by (rule length_join_with) (simp add: line_words_def)
  ultimately show ?thesis by (simp add: print_line_def sum_list_triv)
qed

lemma copy_rule_wf: "wf_rule r \<Longrightarrow> copy_rule r = r"
  by (simp add: wf_rule_def copy_rule_def map_nth_len)

lemma wf_line_rule: "wf_rule (line_rule l)"
  by (simp add: wf_rule_def line_rule_def)

lemma parse_config_line_print:
  assumes "wf_line l" and "wf_rules c"
  shows "parse_config_line (print_line l) c =
    Inr (c\<lparr>arr := arr c @ [line_rule l], num_rules := num_rules c + 1\<rparr>)"
  using assms print_line_head [OF assms(1)] print_line_long [OF assms(1)]
  by (simp add: parse_config_line_def line_rule_parse add_rule_def copy_rule_wf wf_line_rule wf_rules_def)

lemma print_line_chars: "wf_line l \<Longrightarrow> NUL \<notin> set (print_line l) \<and> LF \<notin> set (join_with SP (line_words l))"
  using line_words_ok [of l] set_join_with [of SP "line_words l"]
  by (fastforce simp: print_line_def list_all_iff tag_word_def SP_def LF_def NUL_def)

lemma getlines_print:
  "list_all wf_line ls \<Longrightarrow> getlines (concat (map print_line ls)) = map print_line ls"
  by (induction ls) (auto simp: print_line_def getlines_cons dest: print_line_chars)

lemma foldR_print_lines:
  "list_all wf_line ls \<Longrightarrow> wf_rules c \<Longrightarrow>
   foldR parse_config_line (map print_line ls) c =
     Inr (c\<lparr>arr := arr c @ map line_rule ls, num_rules := num_rules c + length ls\<rparr>)"
proof (induction ls arbitrary: c)
  case (Cons l ls)
  then show ?case
    using Cons.IH [of "c\<lparr>arr := arr c @ [line_rule l], num_rules := num_rules c + 1\<rparr>"]
    by (simp add: parse_config_line_print wf_rules_def wf_line_rule)
qed simp

section \<open>Invariant\<close>

lemma copy_rule_is_wf: "wf_rule (copy_rule r)"
  by (simp add: wf_rule_def copy_rule_def)

lemma add_rule_wf: "wf_rules c \<Longrightarrow> wf_rules (add_rule c r)"
  by (simp add: wf_rules_def add_rule_def copy_rule_is_wf)

lemma parse_config_line_wf: "wf_rules c \<Longrightarrow> parse_config_line l c = Inr d \<Longrightarrow> wf_rules d"
  by (auto simp: parse_config_line_def bindR_eq_Inr add_rule_wf split: if_splits)

lemma parse_config_lines:
  assumes "list_all wf_line ls" and "wf_rules c"
  shows "parse_config c (Some (concat (map print_line ls))) =
    Inr (c\<lparr>arr := arr c @ map line_rule ls, num_rules := num_rules c + length ls\<rparr>)"
proof -
  have "map c_str (map print_line ls) = map print_line ls"
    using assms(1) by (induction ls) (auto dest: print_line_chars)
  then show ?thesis
    unfolding parse_config_def option.case getlines_print [OF assms(1)]
    using foldR_print_lines [OF assms] by (simp only:)
qed

text \<open>The ranges the C standard gives for the fields of \<^verbatim>\<open>struct tm\<close>.\<close>

definition valid_tm :: "tm \<Rightarrow> bool" where
  "valid_tm t \<longleftrightarrow> 0 \<le> tm_min t \<and> tm_min t \<le> 59 \<and> 0 \<le> tm_hour t \<and> tm_hour t \<le> 23 \<and>
     1 \<le> tm_mday t \<and> tm_mday t \<le> 31 \<and> 0 \<le> tm_mon t \<and> tm_mon t \<le> 11 \<and>
     0 \<le> tm_wday t \<and> tm_wday t \<le> 6"

definition line_applies :: "cron_line \<Rightarrow> tm \<Rightarrow> bool" where
  "line_applies l t \<longleftrightarrow>
     field_selects (l_minutes l) (tm_min t) \<and> field_selects (l_hours l) (tm_hour t) \<and>
     field_selects (l_days_of_month l) (tm_mday t - 1) \<and> field_selects (l_months l) (tm_mon t) \<and>
     field_selects (l_days_of_week l) (tm_wday t)"

lemma and_get_flags:
  "0 \<le> i \<Longrightarrow> i < int n \<Longrightarrow>
    and_get (set_flags p (replicate n False)) i k = (if p i then k else Inr False)"
  by (simp add: and_get_def)

lemma rule_match_line_rule:
  "localtime time = Some t \<Longrightarrow> valid_tm t \<Longrightarrow>
    rule_match localtime (line_rule l) time = Inr (line_applies l t)"
  by (simp add: rule_match_def line_rule_def and_get_flags valid_tm_def line_applies_def)

section \<open>Properties\<close>

text \<open>
  C1: on a text without a newline, \<open>parse_subtoken\<close> succeeds exactly on the texts of the
  seven forms of a part (a star, a number, a range, a stepped star, number or range, a name)
  that have no zero divisor and no unknown or too large name, and it then sets exactly the
  flags the part selects and clears none.
\<close>

theorem parse_subtoken_correct:
  assumes "LF \<notin> set s" and "len = int (length a)"
  shows "parse_subtoken a len s = Inr b \<longleftrightarrow>
    (\<exists>t. wf_subtok t \<and> s = print_subtok t \<and> subtok_fault len t = None \<and> b = set_flags (selects t) a)"
proof
  assume ok: "parse_subtoken a len s = Inr b"
  then obtain t where t: "wf_subtok t" "s = print_subtok t"
    using parse_subtoken_accepts [OF assms(1)] by blast
  with ok parse_subtoken_print [OF t(1) assms(2)]
  show "\<exists>t. wf_subtok t \<and> s = print_subtok t \<and> subtok_fault len t = None \<and> b = set_flags (selects t) a"
    by (auto split: option.splits)
next
  assume "\<exists>t. wf_subtok t \<and> s = print_subtok t \<and> subtok_fault len t = None \<and> b = set_flags (selects t) a"
  then show "parse_subtoken a len s = Inr b"
    using parse_subtoken_print assms(2) by fastforce
qed

theorem parse_subtoken_correct_witness:
  "parse_subtoken (replicate 5 False) 5 ''1-3/2'' = Inr [False, False, True, False, False]"
proof -
  have "set_flags (selects (RangeDiv_S ''1'' ''3'' ''2'')) (replicate 5 False) =
      [False, False, True, False, False]"
    by code_simp
  moreover have "wf_subtok (RangeDiv_S ''1'' ''3'' ''2'')"
    "subtok_fault 5 (RangeDiv_S ''1'' ''3'' ''2'') = None" by code_simp+
  ultimately have "\<exists>t. wf_subtok t \<and> ''1-3/2'' = print_subtok t \<and> subtok_fault 5 t = None \<and>
      [False, False, True, False, False] = set_flags (selects t) (replicate 5 False)"
    by (intro exI [of _ "RangeDiv_S ''1'' ''3'' ''2''"]) simp
  then show ?thesis
    by (subst parse_subtoken_correct) (simp_all add: LF_def)
qed

text \<open>
  C2: reading a configuration file of well-formed rule lines yields, in the order of the
  lines, exactly the rules the lines stand for.
\<close>

theorem parse_config_print:
  assumes "list_all wf_line ls" and "wf_rules c"
  shows "parse_config c (Some (concat (map print_line ls))) =
    Inr (c\<lparr>arr := arr c @ map line_rule ls, num_rules := num_rules c + length ls\<rparr>)"
  using assms by (rule parse_config_lines)

definition sample_line :: cron_line where
  "sample_line = \<lparr>l_minutes = [All_S], l_hours = [Range_S ''8'' ''14'', Num_S ''20''],
     l_days_of_month = [All_S], l_months = [Name_S ''jan''], l_days_of_week = [Name_S ''Mon''],
     l_tags = [''+rock'', ''-live'']\<rparr>"

definition no_rules :: rule_container_t where
  "no_rules = \<lparr>arr = [], num_rules = 0\<rparr>"

lemma sample_line_wf: "wf_line sample_line"
  by code_simp

theorem parse_config_print_witness:
  "parse_config no_rules (Some (''* 8-14,20 * jan Mon +rock -live'' @ [LF])) =
    Inr \<lparr>arr = [line_rule sample_line], num_rules = 1\<rparr>"
proof -
  have "list_all wf_line [sample_line]" "wf_rules no_rules"
    using sample_line_wf by (simp_all add: wf_rules_def no_rules_def)
  from parse_config_print [OF this]
  have "parse_config no_rules (Some (print_line sample_line)) =
      Inr \<lparr>arr = [line_rule sample_line], num_rules = 1\<rparr>"
    by (simp add: no_rules_def)
  moreover have "print_line sample_line = ''* 8-14,20 * jan Mon +rock -live'' @ [LF]"
    by code_simp
  ultimately show ?thesis by simp
qed

text \<open>
  Whatever a configuration file holds, if the parser returns, every rule of the
  container has its five flag arrays at their declared lengths and the counter agrees with
  the number of rules.
\<close>

lemma parse_config_wf:
  assumes "wf_rules c" and "parse_config c config = Inr d"
  shows "wf_rules d"
proof -
  from assms(2) obtain ls where f: "foldR parse_config_line ls c = Inr d"
    by (auto simp: parse_config_def split: option.splits)
  show ?thesis
    by (rule foldR_invariant [where P = wf_rules, OF _ assms(1) f]) (rule parse_config_line_wf)
qed

text \<open>
  C3: a rule read from a line applies at a moment exactly when each of its five fields
  selects the moment's component; the day of the month is looked up one below its number.
\<close>

theorem rule_match_line:
  assumes "localtime time = Some t" and "valid_tm t"
  shows "rule_match localtime (line_rule l) time =
    Inr (field_selects (l_minutes l) (tm_min t) \<and> field_selects (l_hours l) (tm_hour t) \<and>
      field_selects (l_days_of_month l) (tm_mday t - 1) \<and> field_selects (l_months l) (tm_mon t) \<and>
      field_selects (l_days_of_week l) (tm_wday t))"
  using rule_match_line_rule [of localtime time t, OF assms] by (simp add: line_applies_def)

theorem rule_match_line_witness:
  "rule_match (\<lambda>_. Some \<lparr>tm_min = 5, tm_hour = 20, tm_mday = 31, tm_mon = 0, tm_wday = 1\<rparr>)
     (line_rule sample_line) 0 = Inr True"
proof -
  let ?t = "\<lparr>tm_min = 5, tm_hour = 20, tm_mday = 31, tm_mon = 0, tm_wday = 1\<rparr>"
  have "valid_tm ?t" by (simp add: valid_tm_def)
  from rule_match_line [of "\<lambda>_. Some ?t", OF refl this]
  show ?thesis by (simp only:) code_simp
qed

text \<open>
  A name is looked up in the month table and then in the weekday table, whatever the
  field; a month name later than July in the day-of-week field makes the parser write behind
  the seven flags.
\<close>

lemma weekday_field_overflow:
  "parse_days_of_week ''Dec'' r = Inl Undefined \<longleftrightarrow> length (days_of_week r) \<le> 11"
proof -
  have k: "kind ''Dec'' = 4" "match_regex r_subtoken ''Dec''" by code_simp+
  have v: "name_val ''Dec'' = 11" by code_simp
  have t: "tokens '','' ''Dec'' = [''Dec'']" by code_simp
  show ?thesis
    unfolding parse_days_of_week_def split_into_subtokens_def t
    by (simp add: parse_subtoken_kind k v arr_set_def)
qed

text \<open>
  The newline of a rule line is never removed: the text of the last tag of a line keeps
  it, whatever the rule's tags before it are.
\<close>

lemma newline_kept: "rule (append_tag (tag @ [LF]) r) = rule r @ SP # tag @ [LF]"
  by simp

text \<open>
  A line of five fields and no tags, whose last field is a day name followed by the
  line's newline, ends the program, although the same field followed by a tag is accepted.
\<close>

lemma weekday_name_newline_exits:
  assumes "length d = 3" and "set d \<subseteq> set letters"
  shows "parse_days_of_week (d @ [LF]) r = Inl (Exit EXIT_FAILURE)"
proof -
  have nd: "CHR '','' \<notin> set (d @ [LF])" "LF \<notin> set d"
    using assms(2) by (auto simp: letters_def LF_def)
  have t: "tokens '','' (d @ [LF]) = [d @ [LF]]"
    using nd by (intro tokens_single) auto
  have str: "d \<in> lang r_subtoken_str" and sub: "d \<in> lang r_subtoken"
    using assms print_subtok_lang [of "Name_S d"] by (simp_all add: lang_subtoken_str)
  have no_nil: "[] \<notin> lang r" if "r \<in> {r_subtoken, r_subtoken_num, r_subtoken_range, r_subtoken_div,
      r_subtoken_range_div, r_subtoken_str}" for r
    using that by (auto simp: nullable_iff [symmetric] r_subtoken_def r_subtoken_num_def
        r_subtoken_range_def r_subtoken_div_def r_subtoken_range_div_def r_subtoken_str_def
        re_num_def re_letter_def Plus_def Lit_def Opt_def)
  have m: "match_regex r (d @ [LF]) \<longleftrightarrow> d \<in> lang r" if "r \<in> {r_subtoken, r_subtoken_num,
      r_subtoken_range, r_subtoken_div, r_subtoken_range_div, r_subtoken_str}" for r
    using anchored_match_newline [OF nd(2) no_nil [OF that]] by (simp add: match_regex_def)
  have k: "kind (d @ [LF]) = 4"
    using str lang_chars(1) [of d] lang_chars(2) [of d] lang_chars(3) [of d] lang_chars(4) [of d]
      lang_chars(5) [OF str]
    by (simp add: kind_def m lang_subtoken_num) blast
  have ni: "name_index i ns (d @ [LF]) res = res" if "\<forall>n\<in>set ns. length n = 3" for i ns res
    using that assms(1)
    by (induction i ns "d @ [LF]" res rule: name_index.induct) (auto dest: strcaseeq_length)
  have "\<forall>n\<in>set weekday_names. length n = 3" "\<forall>n\<in>set month_names. length n = 3"
    by (simp_all add: weekday_names_def month_names_def)
  then have v: "name_val (d @ [LF]) = -1"
    unfolding name_val_def by (simp only: ni)
  show ?thesis
    unfolding parse_days_of_week_def split_into_subtokens_def t
    by (simp add: parse_subtoken_kind k v m sub)
qed

end
