(* ===== verification/Pick_File.thy ===== *)
theory Pick_File
  imports Cron_Spec
begin

text \<open>
  Choosing a song, \<^verbatim>\<open>src/src/pickfile.c\<close>: the rules that apply now are concatenated, their
  tags are sorted into mandatory, optional and excluded ones, a \<^verbatim>\<open>tmsu\<close> command line is
  built from them, the shell runs it, and its output, without the line end, is the file name.
  The shell is a parameter \<open>popen\<close>: the text a command prints, or \<open>None\<close> where the
  process cannot be started; the clock and \<^verbatim>\<open>localtime\<close> are parameters as well.
\<close>

section \<open>Rules that apply now\<close>

text \<open>The first loop of \<^verbatim>\<open>pick_file\<close>.\<close>

fun matching_rules :: "(int \<Rightarrow> tm option) \<Rightarrow> int \<Rightarrow> cron_rule_t list \<Rightarrow> cron_rule_t list result" where
  "matching_rules localtime current [] = Inr []"
| "matching_rules localtime current (r # rs) =
     bindR (rule_match localtime r current) (\<lambda>b.
       bindR (matching_rules localtime current rs) (\<lambda>ms.
         Inr (if b then copy_rule r # ms else ms)))"

definition all_rules :: "cron_rule_t list \<Rightarrow> string" where
  "all_rules ms =
     (let len = (\<Sum>r\<leftarrow>ms. length (rule r))
      in foldl (\<lambda>s r. strncat s (rule r) len) [] ms)"

section \<open>Tags\<close>

record tag_lists =
  mandatory_tags :: "string list"
  optional_tags :: "string list"
  exclusion_tags :: "string list"

definition no_tags :: tag_lists where
  "no_tags = \<lparr>mandatory_tags = [], optional_tags = [], exclusion_tags = []\<rparr>"

definition classify_tag :: "string \<Rightarrow> tag_lists \<Rightarrow> tag_lists result" where
  "classify_tag tag ts =
     (if chr_at tag 0 = CHR ''+'' then Inr (ts\<lparr>mandatory_tags := mandatory_tags ts @ [drop 1 tag]\<rparr>)
      else if chr_at tag 0 = CHR ''-'' then Inr (ts\<lparr>exclusion_tags := exclusion_tags ts @ [drop 1 tag]\<rparr>)
      else if chr_at tag 0 = CHR ''?'' then Inr (ts\<lparr>optional_tags := optional_tags ts @ [drop 1 tag]\<rparr>)
      else Inl (Exit EXIT_FAILURE))"

definition collect_tags :: "string \<Rightarrow> tag_lists result" where
  "collect_tags s = foldR classify_tag (tokens '' '' s) no_tags"

section \<open>The command\<close>

text \<open>
  The state of the three command loops is the command so far and \<^verbatim>\<open>last_tag\<close>: 0 none,
  1 mandatory, 2 optional, 3 exclusion.
\<close>

type_synonym cmd_state = "string \<times> int"

definition add_optional :: "string \<Rightarrow> cmd_state \<Rightarrow> cmd_state result" where
  "add_optional tag = (\<lambda>(cmd, last_tag).
     if last_tag = 0 then
       let n = length cmd + length tag in Inr (strncat cmd tag n, 2)
     else if last_tag = 1 \<or> last_tag = 3 then
       let n = length cmd + length '' and '' + length tag
       in Inr (strncat (strncat cmd '' and '' n) tag n, 2)
     else if last_tag = 2 then
       let n = length cmd + length '' or '' + length tag
       in Inr (strncat (strncat cmd '' or '' n) tag n, 2)
     else Inl (Exit EXIT_FAILURE))"

definition add_mandatory :: "string \<Rightarrow> cmd_state \<Rightarrow> cmd_state result" where
  "add_mandatory tag = (\<lambda>(cmd, last_tag).
     if last_tag = 0 then
       let n = length cmd + length tag in Inr (strncat cmd tag n, 1)
     else if last_tag = 1 \<or> last_tag = 2 \<or> last_tag = 3 then
       let n = length cmd + length '' and '' + length tag
       in Inr (strncat (strncat cmd '' and '' n) tag n, 1)
     else Inl (Exit EXIT_FAILURE))"

definition add_exclusion :: "string \<Rightarrow> cmd_state \<Rightarrow> cmd_state result" where
  "add_exclusion tag = (\<lambda>(cmd, last_tag).
     if last_tag = 0 then
       let n = length cmd + length ''not '' + length tag
       in Inr (strncat (strncat cmd ''not '' n) tag n, 3)
     else if last_tag = 1 \<or> last_tag = 2 \<or> last_tag = 3 then
       let n = length cmd + length '' and not '' + length tag
       in Inr (strncat (strncat cmd '' and not '' n) tag n, 3)
     else Inl (Exit EXIT_FAILURE))"

definition tmsu :: string where "tmsu = ''/usr/bin/tmsu files ''"
definition shuf :: string where "shuf = '' 2>&1 | /usr/bin/shuf -n 1 2>&1''"

definition build_cmd :: "tag_lists \<Rightarrow> string result" where
  "build_cmd ts =
     bindR (foldR add_optional (optional_tags ts) (tmsu, 0)) (\<lambda>s1.
       bindR (foldR add_mandatory (mandatory_tags ts) s1) (\<lambda>s2.
         bindR (foldR add_exclusion (exclusion_tags ts) s2) (\<lambda>(cmd, last_tag).
           Inr (strncat cmd shuf (length cmd + length shuf)))))"

section \<open>Reading the answer\<close>

text \<open>
  \<^verbatim>\<open>fgets\<close> with a buffer of 512 bytes: up to 511 bytes, at most one line. The pieces are
  read as C strings and appended.
\<close>

definition fgets :: "string \<Rightarrow> string" where
  "fgets s = (let l = takeWhile (\<lambda>c. c \<noteq> LF) s
     in take 511 (if length l < length s then l @ [LF] else l))"

lemma fgets_shorter: "s \<noteq> [] \<Longrightarrow> 0 < length (fgets s) \<and> length (fgets s) \<le> length s"
proof -
  assume "s \<noteq> []"
  moreover have "length (takeWhile (\<lambda>c. c \<noteq> LF) s) \<le> length s" by (rule length_takeWhile_le)
  ultimately show ?thesis by (auto simp: fgets_def Let_def)
qed

function read_output :: "string \<Rightarrow> string \<Rightarrow> string" where
  "read_output s output =
     (if s = [] then output
      else let buff = c_str (fgets s)
           in read_output (drop (length (fgets s)) s)
                (strncat output buff (length output + length buff)))"
  by pat_completeness auto
termination
  using fgets_shorter by (relation "measure (\<lambda>(s, out). length s)") (auto simp: Let_def)

declare read_output.simps [simp del]

text \<open>
  The line end: a newline at the end, and a carriage return before the last position. For
  an answer of one character the second test reads before the buffer.
\<close>

definition strip_line_end :: "string \<Rightarrow> string result" where
  "strip_line_end output =
     (let index = int (length output) - 1 in
      bindR (arr_get output index) (\<lambda>c.
        bindR (arr_get output (index - 1)) (\<lambda>d.
          let o1 = (if c = LF then take (nat index) output else output)
          in Inr (if d = CR then take (nat (index - 1)) o1 else o1))))"

definition check_output :: "string \<Rightarrow> string result" where
  "check_output output =
     (if chr_at output 0 \<noteq> CHR ''.'' \<and> chr_at output 0 \<noteq> CHR ''/'' then Inl (Exit EXIT_FAILURE)
      else strip_line_end output)"

definition pick_file ::
  "(int \<Rightarrow> tm option) \<Rightarrow> int \<Rightarrow> (string \<Rightarrow> string option) \<Rightarrow> rule_container_t \<Rightarrow> string result" where
  "pick_file localtime current popen rules =
     bindR (matching_rules localtime current (take (num_rules rules) (arr rules))) (\<lambda>ms.
       bindR (collect_tags (all_rules ms)) (\<lambda>ts.
         bindR (build_cmd ts) (\<lambda>cmd.
           case popen cmd of
             None \<Rightarrow> Inl (Exit EXIT_FAILURE)
           | Some stream \<Rightarrow> check_output (read_output stream []))))"

section \<open>Correctness\<close>

lemma matching_rules_filter:
  assumes "\<And>r. r \<in> set rs \<Longrightarrow> rule_match localtime r current = Inr (p r)"
    and "list_all wf_rule rs"
  shows "matching_rules localtime current rs = Inr (filter p rs)"
  using assms by (induction rs) (auto simp: copy_rule_wf)

lemma foldl_strncat:
  "\<forall>r\<in>set ms. length (rule r) \<le> n \<Longrightarrow>
    foldl (\<lambda>s r. strncat s (rule r) n) acc ms = acc @ concat (map rule ms)"
  by (induction ms arbitrary: acc) auto

lemma rule_length_le: "r \<in> set ms \<Longrightarrow> length (rule r) \<le> (\<Sum>r\<leftarrow>ms. length (rule r))"
  by (induction ms) auto

lemma all_rules_concat: "all_rules ms = concat (map rule ms)"
  unfolding all_rules_def Let_def
  by (subst foldl_strncat) (auto intro: rule_length_le)

text \<open>The query the three loops write, as a conjunction of parts.\<close>

fun glue :: "string \<Rightarrow> string list \<Rightarrow> string" where
  "glue sep [] = []"
| "glue sep [t] = t"
| "glue sep (t # u # ts) = t @ sep @ glue sep (u # ts)"

definition query_parts :: "tag_lists \<Rightarrow> string list" where
  "query_parts ts =
     (if optional_tags ts = [] then [] else [glue '' or '' (optional_tags ts)])
     @ mandatory_tags ts @ map (\<lambda>t. ''not '' @ t) (exclusion_tags ts)"

lemma glue_snoc: "ts \<noteq> [] \<Longrightarrow> glue sep (ts @ [u]) = glue sep ts @ sep @ u"
  by (induction sep ts rule: glue.induct) auto

lemma glue_Cons: "ts \<noteq> [] \<Longrightarrow> glue sep (t # ts) = t @ sep @ glue sep ts"
  by (cases ts) auto

definition after :: "string \<Rightarrow> string list \<Rightarrow> string" where
  "after sep ts = concat (map (\<lambda>t. sep @ t) ts)"

lemma glue_after: "glue sep (t # ts) = t @ after sep ts"
  by (induction ts arbitrary: t) (auto simp: after_def)

lemma fold_optional2:
  "foldR add_optional ts (cmd, 2) = Inr (cmd @ after '' or '' ts, 2)"
  by (induction ts arbitrary: cmd) (simp_all add: add_optional_def after_def)

lemma fold_mandatory:
  "last_tag \<in> {1, 2, 3} \<Longrightarrow> foldR add_mandatory ts (cmd, last_tag) =
     Inr (cmd @ after '' and '' ts, if ts = [] then last_tag else 1)"
  by (induction ts arbitrary: cmd last_tag) (auto simp: add_mandatory_def after_def)

lemma fold_exclusion:
  "last_tag \<in> {1, 2, 3} \<Longrightarrow> foldR add_exclusion ts (cmd, last_tag) =
     Inr (cmd @ after '' and '' (map (\<lambda>t. ''not '' @ t) ts), if ts = [] then last_tag else 3)"
  by (induction ts arbitrary: cmd last_tag) (auto simp: add_exclusion_def after_def)

lemma fold_mandatory0:
  "foldR add_mandatory (t # ts) (cmd, 0) = Inr (cmd @ t @ after '' and '' ts, 1)"
  by (simp add: add_mandatory_def fold_mandatory)

lemma fold_exclusion0:
  "foldR add_exclusion (t # ts) (cmd, 0) =
     Inr (cmd @ ''not '' @ t @ after '' and '' (map (\<lambda>t. ''not '' @ t) ts), 3)"
  by (simp add: add_exclusion_def fold_exclusion)

lemma after_append: "after sep (xs @ ys) = after sep xs @ after sep ys"
  by (simp add: after_def)

lemma build_cmd_query: "build_cmd ts = Inr (tmsu @ glue '' and '' (query_parts ts) @ shuf)"
proof (cases "optional_tags ts")
  case (Cons x xs)
  have "foldR add_optional (optional_tags ts) (tmsu, 0) = Inr (tmsu @ x @ after '' or '' xs, 2)"
    by (simp add: Cons add_optional_def fold_optional2)
  moreover have "query_parts ts = (x @ after '' or '' xs) #
      (mandatory_tags ts @ map (\<lambda>t. ''not '' @ t) (exclusion_tags ts))"
    by (simp add: query_parts_def Cons glue_after)
  ultimately show ?thesis
    by (simp add: build_cmd_def fold_mandatory fold_exclusion glue_after after_append)
next
  case opt: Nil
  show ?thesis
  proof (cases "mandatory_tags ts")
    case (Cons x xs)
    then show ?thesis
      using opt by (simp add: build_cmd_def fold_mandatory0 fold_exclusion query_parts_def
          glue_after after_append del: foldR.simps(2))
  next
    case Nil
    with opt show ?thesis
      by (cases "exclusion_tags ts")
        (simp_all add: build_cmd_def fold_exclusion0 query_parts_def glue_after del: foldR.simps(2))
  qed
qed

lemma read_output_all: "NUL \<notin> set s \<Longrightarrow> read_output s out = out @ s"
proof (induction s out rule: read_output.induct)
  case (1 s out)
  show ?case
  proof (cases "s = []")
    case False
    let ?l = "takeWhile (\<lambda>c. c \<noteq> LF) s"
    have pre: "fgets s @ drop (length (fgets s)) s = s"
    proof -
      have "length ?l < length s \<Longrightarrow> s ! length ?l = LF" by (rule nth_length_takeWhile [of "\<lambda>c. c \<noteq> LF", simplified])
      then have "(if length ?l < length s then ?l @ [LF] else ?l) =
          take (if length ?l < length s then Suc (length ?l) else length ?l) s"
        by (auto simp: take_Suc_conv_app_nth takeWhile_eq_take [symmetric])
      then have "fgets s = take (length (fgets s)) s"
        by (auto simp: fgets_def Let_def min_def)
      then show ?thesis by (metis append_take_drop_id)
    qed
    have "NUL \<notin> set (fgets s)" "NUL \<notin> set (drop (length (fgets s)) s)"
      using "1.prems" pre by (metis UnCI set_append)+
    with False "1.IH" pre show ?thesis
      by (subst read_output.simps) (simp add: Let_def)
  qed (simp add: read_output.simps)
qed

section \<open>Tags of configuration lines\<close>

text \<open>The tags of a line as the parser stores them: the last one keeps the newline.\<close>

definition line_tags :: "cron_line \<Rightarrow> string list" where
  "line_tags l = butlast (l_tags l) @ [last (l_tags l) @ [LF]]"

definition good_tag :: "string \<Rightarrow> bool" where
  "good_tag t \<longleftrightarrow> t \<noteq> [] \<and> (hd t = CHR ''+'' \<or> hd t = CHR ''-'' \<or> hd t = CHR ''?'')"

definition tags_of :: "string list \<Rightarrow> tag_lists" where
  "tags_of ts =
     \<lparr>mandatory_tags = map (drop 1) (filter (\<lambda>t. hd t = CHR ''+'') ts),
      optional_tags = map (drop 1) (filter (\<lambda>t. hd t = CHR ''?'') ts),
      exclusion_tags = map (drop 1) (filter (\<lambda>t. hd t = CHR ''-'') ts)\<rparr>"

lemma classify_fold:
  "list_all good_tag ts \<Longrightarrow> foldR classify_tag ts acc =
    Inr \<lparr>mandatory_tags = mandatory_tags acc @ mandatory_tags (tags_of ts),
         optional_tags = optional_tags acc @ optional_tags (tags_of ts),
         exclusion_tags = exclusion_tags acc @ exclusion_tags (tags_of ts)\<rparr>"
proof (induction ts arbitrary: acc)
  case (Cons t ts)
  then show ?case
    by (cases t) (auto simp: good_tag_def classify_tag_def tags_of_def)
qed (simp add: tags_of_def)

definition stored_word :: "string \<Rightarrow> bool" where
  "stored_word w \<longleftrightarrow> w \<noteq> [] \<and> SP \<notin> set w"

lemma concat_SP_stored:
  "list_all stored_word ws \<Longrightarrow> tokens '' '' (concat (map (\<lambda>t. SP # t) ws)) = ws"
proof (induction ws)
  case (Cons w ws)
  then have w: "w \<noteq> []" "set w \<inter> set '' '' = {}" by (auto simp: stored_word_def SP_def)
  have "tokens '' '' (SP # w @ concat (map (\<lambda>t. SP # t) ws)) =
      w # tokens '' '' (concat (map (\<lambda>t. SP # t) ws))"
  proof (cases ws)
    case Nil
    then show ?thesis using w by (simp add: tokens_skip SP_def tokens_single)
  next
    case (Cons v vs)
    then show ?thesis using w tokens_cons [of w "'' ''" SP]
      by (simp add: tokens_skip SP_def)
  qed
  with Cons show ?case by simp
qed simp

lemma rule_line_rule: "l_tags l \<noteq> [] \<Longrightarrow> rule (line_rule l) = concat (map (\<lambda>t. SP # t) (line_tags l))"
proof -
  assume "l_tags l \<noteq> []"
  then have "concat (map (\<lambda>t. SP # t) (l_tags l)) =
      concat (map (\<lambda>t. SP # t) (butlast (l_tags l) @ [last (l_tags l)]))"
    by simp
  then show ?thesis by (simp add: line_rule_def line_tags_def)
qed

lemma line_tags_stored: "wf_line l \<Longrightarrow> list_all stored_word (line_tags l)"
  by (auto simp: wf_line_def line_tags_def list_all_iff tag_word_def stored_word_def SP_def LF_def
      dest: in_set_butlastD last_in_set)

lemma collect_tags_lines:
  assumes "list_all wf_line ls" and "list_all good_tag (concat (map line_tags ls))"
  shows "collect_tags (concat (map (\<lambda>l. rule (line_rule l)) ls)) = Inr (tags_of (concat (map line_tags ls)))"
proof -
  have "concat (map (\<lambda>l. rule (line_rule l)) ls) = concat (map (\<lambda>t. SP # t) (concat (map line_tags ls)))"
    using assms(1) by (induction ls) (auto simp: rule_line_rule wf_line_def)
  moreover have "list_all stored_word (concat (map line_tags ls))"
    using assms(1) line_tags_stored by (induction ls) auto
  ultimately have "tokens '' '' (concat (map (\<lambda>l. rule (line_rule l)) ls)) = concat (map line_tags ls)"
    by (simp add: concat_SP_stored)
  then show ?thesis
    using classify_fold [OF assms(2), of no_tags] by (simp add: collect_tags_def no_tags_def)
qed

lemma good_tag_append: "good_tag t \<Longrightarrow> good_tag (t @ u)"
  by (auto simp: good_tag_def)

lemma good_line_tags: "wf_line l \<Longrightarrow> list_all good_tag (l_tags l) \<Longrightarrow> list_all good_tag (line_tags l)"
  by (auto simp: wf_line_def line_tags_def list_all_iff good_tag_append
      dest: in_set_butlastD last_in_set)

lemma set_glue: "t \<in> set ts \<Longrightarrow> set t \<subseteq> set (glue sep ts)"
  by (induction sep ts rule: glue.induct) auto

lemma query_parts_mem:
  "x \<in> set (mandatory_tags q) \<or> x \<in> set (optional_tags q) \<or> x \<in> set (exclusion_tags q) \<Longrightarrow>
    c \<in> set x \<Longrightarrow> \<exists>p\<in>set (query_parts q). c \<in> set p"
proof (elim disjE)
  assume o: "x \<in> set (optional_tags q)" and c: "c \<in> set x"
  then have "c \<in> set (glue '' or '' (optional_tags q))" using set_glue by blast
  with o show ?thesis by (auto simp: query_parts_def)
next
  assume "x \<in> set (exclusion_tags q)" and "c \<in> set x"
  then show ?thesis by (intro bexI [of _ "''not '' @ x"]) (auto simp: query_parts_def)
qed (auto simp: query_parts_def)

lemma classify_bad: "\<not> list_all good_tag ts \<Longrightarrow> list_all (\<lambda>t. t \<noteq> []) ts \<Longrightarrow>
    foldR classify_tag ts acc = Inl (Exit EXIT_FAILURE)"
proof (induction ts arbitrary: acc)
  case (Cons t ts)
  show ?case
  proof (cases "good_tag t")
    case True
    then have "\<exists>acc'. classify_tag t acc = Inr acc'"
      by (cases t) (auto simp: good_tag_def classify_tag_def)
    with Cons True show ?thesis by auto
  next
    case False
    with Cons.prems show ?thesis
      by (cases t) (auto simp: good_tag_def classify_tag_def)
  qed
qed simp

text \<open>
  An answer of one line that starts with a dot or a slash is returned without its
  line end, which may be a newline or a carriage return and a newline.
\<close>

lemma pick_file_answer:
  assumes "f \<noteq> []" and "hd f = CHR ''.'' \<or> hd f = CHR ''/''" and "NUL \<notin> set f"
  shows "check_output (read_output (f @ [LF]) []) = Inr (if last f = CR then butlast f else f)"
proof -
  have r: "read_output (f @ [LF]) [] = f @ [LF]"
    using assms(3) by (subst read_output_all) (auto simp: NUL_def LF_def)
  have "chr_at (f @ [LF]) 0 = hd f" using assms(1) by (cases f) auto
  moreover have "(f @ [LF]) ! (length f - 1) = last f"
    using assms(1) by (simp add: nth_append last_conv_nth)
  moreover have "nat (int (length f) - 1) = length f - 1" by simp
  ultimately show ?thesis
    using assms(1,2)
    by (simp add: r check_output_def strip_line_end_def Let_def arr_get_def Suc_le_eq butlast_conv_take)
qed

text \<open>An answer that starts otherwise, or is empty, ends the program.\<close>

lemma pick_file_no_answer:
  assumes "a = [] \<or> hd a \<noteq> CHR ''.'' \<and> hd a \<noteq> CHR ''/''" and "NUL \<notin> set a"
  shows "check_output (read_output a []) = Inl (Exit EXIT_FAILURE)"
proof -
  have "chr_at a 0 \<noteq> CHR ''.'' \<and> chr_at a 0 \<noteq> CHR ''/''"
    using assms(1) by (cases a) (auto simp: NUL_def)
  then show ?thesis using assms(2) by (simp add: read_output_all check_output_def)
qed

lemma pick_file_query:
  assumes ls: "list_all wf_line ls" and t: "localtime now = Some t" "valid_tm t"
    and tags: "list_all good_tag (concat (map l_tags (filter (\<lambda>l. line_applies l t) ls)))"
    and c: "parse_config no_rules (Some (concat (map print_line ls))) = Inr c"
  shows "pick_file localtime now popen c =
    (case popen (tmsu @ glue '' and ''
        (query_parts (tags_of (concat (map line_tags (filter (\<lambda>l. line_applies l t) ls))))) @ shuf) of
       None \<Rightarrow> Inl (Exit EXIT_FAILURE)
     | Some answer \<Rightarrow> check_output (read_output answer []))"
proof -
  let ?ms = "filter (\<lambda>l. line_applies l t) ls"
  have cc: "c = \<lparr>arr = map line_rule ls, num_rules = length ls\<rparr>"
    using c parse_config_lines [OF ls, of no_rules] by (simp add: no_rules_def wf_rules_def)
  have "matching_rules localtime now (map line_rule ls) = Inr (map line_rule ?ms)"
    by (induction ls) (simp_all add: rule_match_line_rule [of localtime now t, OF t] copy_rule_wf wf_line_rule)
  moreover have "collect_tags (all_rules (map line_rule ?ms)) = Inr (tags_of (concat (map line_tags ?ms)))"
  proof -
    have "list_all wf_line ?ms" using ls by (auto simp: list_all_iff)
    moreover from this tags have "list_all good_tag (concat (map line_tags ?ms))"
      using good_line_tags by (auto simp: list_all_iff)
    ultimately show ?thesis
      using collect_tags_lines [of ?ms] by (simp add: all_rules_concat comp_def)
  qed
  ultimately show ?thesis
    by (simp add: pick_file_def cc build_cmd_query)
qed

section \<open>Properties\<close>

text \<open>
  C4: From the text of a configuration to the file: when the file holds well-formed rule
  lines, the daemon reads them, and the tags of the lines that apply now all carry one of
  the three marks, choosing a file runs exactly one command: the optional tags of all applying
  lines in file order joined by or, then the mandatory tags joined by and, then the excluded
  ones joined by and not, without parentheses around the optional ones. When the command cannot
  be run, or its answer does not start with a dot or a slash, the program ends; otherwise the
  answer without its line end (a newline, or a carriage return and a newline) is the file.
\<close>

theorem pick_file_from_config:
  assumes ls: "list_all wf_line ls" and t: "localtime now = Some t" "valid_tm t"
    and tags: "list_all good_tag (concat (map l_tags (filter (\<lambda>l. line_applies l t) ls)))"
    and c: "parse_config no_rules (Some (concat (map print_line ls))) = Inr c"
    and cmd: "cmd = tmsu @ glue '' and ''
      (query_parts (tags_of (concat (map line_tags (filter (\<lambda>l. line_applies l t) ls))))) @ shuf"
  shows "(popen cmd = None \<longrightarrow> pick_file localtime now popen c = Inl (Exit EXIT_FAILURE)) \<and>
    (\<forall>a. popen cmd = Some a \<and> NUL \<notin> set a \<and> (a = [] \<or> hd a \<noteq> CHR ''.'' \<and> hd a \<noteq> CHR ''/'') \<longrightarrow>
      pick_file localtime now popen c = Inl (Exit EXIT_FAILURE)) \<and>
    (\<forall>f. popen cmd = Some (f @ [LF]) \<and> NUL \<notin> set f \<and> f \<noteq> [] \<and> (hd f = CHR ''.'' \<or> hd f = CHR ''/'') \<longrightarrow>
      pick_file localtime now popen c = Inr (if last f = CR then butlast f else f))"
  using pick_file_query [of ls localtime now t c popen, OF ls t tags c, folded cmd]
  by (auto simp: pick_file_answer pick_file_no_answer)

definition noon :: tm where
  "noon = \<lparr>tm_min = 0, tm_hour = 12, tm_mday = 5, tm_mon = 0, tm_wday = 1\<rparr>"

theorem pick_file_from_config_witness:
  "pick_file (\<lambda>_. Some noon) 0
     (\<lambda>cmd. if cmd = ''/usr/bin/tmsu files rock and not live'' @ [LF] @ shuf
            then Some (''/music/a.mp3'' @ [LF]) else None)
     \<lparr>arr = [line_rule sample_line], num_rules = 1\<rparr> = Inr ''/music/a.mp3''"
proof -
  let ?popen = "\<lambda>cmd. if cmd = ''/usr/bin/tmsu files rock and not live'' @ [LF] @ shuf
            then Some (''/music/a.mp3'' @ [LF]) else None"
  have f: "filter (\<lambda>l. line_applies l noon) [sample_line] = [sample_line]" by code_simp
  have c: "parse_config no_rules (Some (concat (map print_line [sample_line]))) =
      Inr \<lparr>arr = [line_rule sample_line], num_rules = 1\<rparr>"
    using parse_config_lines [of "[sample_line]" no_rules] sample_line_wf
    by (simp add: no_rules_def wf_rules_def)
  have g: "list_all good_tag (concat (map l_tags (filter (\<lambda>l. line_applies l noon) [sample_line])))"
    unfolding f by code_simp
  have cmd: "tmsu @ glue '' and '' (query_parts (tags_of (concat (map line_tags [sample_line])))) @ shuf =
      ''/usr/bin/tmsu files rock and not live'' @ [LF] @ shuf"
    by code_simp
  have "NUL \<notin> set ''/music/a.mp3''" "last ''/music/a.mp3'' \<noteq> CR" by code_simp+
  note o = this
  have "list_all wf_line [sample_line]" "valid_tm noon" using sample_line_wf
    by (simp_all add: valid_tm_def noon_def)
  from pick_file_from_config [of "[sample_line]" "\<lambda>_. Some noon", OF this(1) refl this(2) g c refl,
      unfolded f cmd, of ?popen]
  show ?thesis using o by simp
qed

text \<open>
  When at least one rule line applies, the query handed to the shell holds a newline,
  because the parser keeps the newline of each line in its last tag: the shell sees the
  \<^verbatim>\<open>tmsu\<close> call cut off from the selection of one line behind it.
\<close>

lemma pick_query_newline:
  assumes "list_all wf_line ls" and "ls \<noteq> []"
    and "list_all good_tag (concat (map l_tags ls))"
  shows "LF \<in> set (glue '' and '' (query_parts (tags_of (concat (map line_tags ls)))))"
proof -
  let ?ts = "concat (map line_tags ls)"
  obtain l ls' where l: "ls = l # ls'" using assms(2) by (cases ls) auto
  let ?t = "last (l_tags l) @ [LF]"
  have wl: "wf_line l" and gl: "list_all good_tag (l_tags l)" using assms(1,3) l by auto
  have mem: "?t \<in> set ?ts" by (simp add: l line_tags_def)
  have good: "good_tag ?t"
    using good_line_tags [OF wl gl] by (simp add: line_tags_def)
  have nl: "LF \<in> set (drop 1 ?t)" using good by (cases "last (l_tags l)") (auto simp: good_tag_def LF_def)
  let ?q = "tags_of ?ts"
  have "drop 1 ?t \<in> set (mandatory_tags ?q) \<or> drop 1 ?t \<in> set (optional_tags ?q) \<or>
      drop 1 ?t \<in> set (exclusion_tags ?q)"
  proof -
    from mem have "hd ?t = k \<Longrightarrow> drop 1 ?t \<in> set (map (drop 1) (filter (\<lambda>t. hd t = k) ?ts))" for k
      unfolding set_map set_filter by blast
    with good show ?thesis unfolding tags_of_def good_tag_def by auto
  qed
  with nl have "\<exists>p\<in>set (query_parts ?q). LF \<in> set p" by (rule query_parts_mem [rotated])
  then show ?thesis using set_glue by blast
qed

text \<open>
  A tag without one of the three marks ends the program before any command is run.
\<close>

lemma pick_file_bad_tag:
  assumes "matching_rules localtime now (take (num_rules c) (arr c)) = Inr ms"
    and "\<not> list_all good_tag (tokens '' '' (concat (map rule ms)))"
  shows "pick_file localtime now popen c = Inl (Exit EXIT_FAILURE)"
proof -
  have "list_all (\<lambda>t. t \<noteq> []) (tokens '' '' (concat (map rule ms)))"
    using tokens_words by (auto simp: list_all_iff)
  from classify_bad [OF assms(2) this] assms(1) show ?thesis
    by (simp add: pick_file_def collect_tags_def all_rules_concat)
qed

end
