(* ===== verification/Rtrd.thy ===== *)
theory Rtrd
  imports Pick_File
begin

text \<open>
  The daemon's message handling, \<^verbatim>\<open>src/src/rtrd.c\<close>: the global state, the handler of one
  message, and the loop that assembles messages from what \<^verbatim>\<open>recv\<close> delivers. What the
  daemon sends is kept as a list of texts (each is sent with its terminating NUL); a failed
  \<^verbatim>\<open>send\<close> is only logged and changes nothing. \<open>ended\<close> records that the program has
  stopped and how, so that what it did before is not lost.
\<close>

section \<open>State\<close>

record rtrd_state =
  rules :: rule_container_t
  current_song :: string
  queued_message :: string
  sent :: "string list"
  ended :: "fault option"

text \<open>The world of the daemon: the clock, \<^verbatim>\<open>localtime\<close> and the shell.\<close>

record rtrd_env =
  env_localtime :: "int \<Rightarrow> tm option"
  env_time :: int
  env_popen :: "string \<Rightarrow> string option"

definition send_text :: "string \<Rightarrow> rtrd_state \<Rightarrow> rtrd_state" where
  "send_text txt s = s\<lparr>sent := sent s @ [txt]\<rparr>"

definition send_ack :: "rtrd_state \<Rightarrow> rtrd_state" where
  "send_ack s = send_text ''ACK'' s"

section \<open>One message\<close>

definition queue_command :: "string \<Rightarrow> rtrd_state \<Rightarrow> rtrd_state" where
  "queue_command c s = send_ack (s\<lparr>queued_message := c\<rparr>)"

definition handle_message :: "rtrd_env \<Rightarrow> string \<Rightarrow> rtrd_state \<Rightarrow> rtrd_state" where
  "handle_message env msg s =
     (if strcaseeq msg ''PAUSE'' then queue_command ''PAUSE'' s
      else if strcaseeq msg ''PLAY'' then queue_command ''PLAY'' s
      else if strcaseeq msg ''NEXT'' then queue_command ''NEXT'' s
      else if strcaseeq msg ''CURRENT'' then send_text (''CURRENT '' @ current_song s) s
      else if strcaseeq msg ''STOP'' then queue_command ''STOP'' s
      else if strcaseeq msg ''REQFILE'' then
        case pick_file (env_localtime env) (env_time env) (env_popen env) (rules s) of
          Inl e \<Rightarrow> s\<lparr>ended := Some e\<rparr>
        | Inr f \<Rightarrow> send_text (''FILE '' @ f) (s\<lparr>current_song := f\<rparr>)
      else if strcaseeq msg ''YES?'' then
        let s1 = send_text (queued_message s) s in
        if strcaseeq (queued_message s) ''STOP'' then s1\<lparr>ended := Some (Exit EXIT_SUCCESS)\<rparr>
        else s1\<lparr>queued_message := []\<rparr>
      else s)"

section \<open>One connection\<close>

text \<open>
  The receive buffer has 128 bytes and is not cleared: \<^verbatim>\<open>recv\<close> overwrites its front with
  at most as many bytes and leaves the rest of what has arrived to the next call.
  \<^verbatim>\<open>strchr\<close> and \<^verbatim>\<open>strlen\<close> look for a newline or a NUL in it; where there is none
  they leave the buffer.
\<close>

definition BUF_SIZE :: nat where "BUF_SIZE = 128"

definition recv_into :: "string \<Rightarrow> string \<Rightarrow> string" where
  "recv_into chunk buf = take BUF_SIZE chunk @ drop (length (take BUF_SIZE chunk)) buf"

definition strchr_pos :: "char \<Rightarrow> string \<Rightarrow> nat option result" where
  "strchr_pos c buf =
     (let k = length (takeWhile (\<lambda>x. x \<noteq> NUL \<and> x \<noteq> c) buf) in
      if k = length buf then Inl Undefined
      else if buf ! k = c then Inr (Some k) else Inr None)"

definition str_in :: "string \<Rightarrow> string result" where
  "str_in bytes = (if NUL \<in> set bytes then Inr (c_str bytes) else Inl Undefined)"

text \<open>The body of the receive loop: the buffer, the message so far and the daemon's state.\<close>

type_synonym conn = "string \<times> string \<times> rtrd_state"

definition conn_chunk :: "rtrd_env \<Rightarrow> string \<Rightarrow> conn \<Rightarrow> conn" where
  "conn_chunk env chunk = (\<lambda>(buf0, msg, s).
     let buf = recv_into chunk buf0 in
     case strchr_pos LF buf of
       Inl e \<Rightarrow> (buf, msg, s\<lparr>ended := Some e\<rparr>)
     | Inr None \<Rightarrow>
         (buf, strncat msg (c_str buf) (length msg + length (c_str buf)), s)
     | Inr (Some k) \<Rightarrow>
         let rest = drop (Suc k) buf;
             buf' = buf[k := NUL];
             msg' = strncat msg (c_str buf') (length msg + length (c_str buf'));
             s' = handle_message env msg' s
         in if ended s' \<noteq> None then (buf', msg', s')
            else case str_in rest of
              Inl e \<Rightarrow> (buf', msg', s'\<lparr>ended := Some e\<rparr>)
            | Inr r \<Rightarrow> (buf', if 1 < length r then r else [], s'))"

text \<open>
  The loop runs over the successive deliveries, each with the world at its time: the bytes
  that wait in the socket when \<^verbatim>\<open>recv\<close> is called. What does not fit into the buffer waits
  for the next call. The loop ends when \<^verbatim>\<open>recv\<close> returns 0 (an empty delivery), when the
  client is gone (the end of the list) or when the program has stopped.
\<close>

function conn_loop :: "(rtrd_env \<times> string) list \<Rightarrow> conn \<Rightarrow> conn" where
  "conn_loop [] c = c"
| "conn_loop ((env, bytes) # ds) (buf, msg, s) =
     (if ended s \<noteq> None \<or> bytes = [] then (buf, msg, s)
      else conn_loop (if BUF_SIZE < length bytes then (env, drop BUF_SIZE bytes) # ds else ds)
             (conn_chunk env (take BUF_SIZE bytes) (buf, msg, s)))"
  by pat_completeness auto

termination
  by (relation "measure (\<lambda>(ds, c). sum_list (map (Suc \<circ> length \<circ> snd) ds))") (auto simp: BUF_SIZE_def)

definition server_connection :: "(rtrd_env \<times> string) list \<Rightarrow> string \<Rightarrow> rtrd_state \<Rightarrow> rtrd_state" where
  "server_connection chunks stack s = snd (snd (conn_loop chunks (stack, [], s)))"

text \<open>The start of the daemon, behind \<^verbatim>\<open>daemonize\<close>.\<close>

definition rtrd_init :: "string option \<Rightarrow> rtrd_state result" where
  "rtrd_init config =
     bindR (parse_config \<lparr>arr = [], num_rules = 0\<rparr> config) (\<lambda>rs.
       Inr \<lparr>rules = rs, current_song = [], queued_message = [], sent = [], ended = None\<rparr>)"

section \<open>Messages ended by a newline and a NUL\<close>

text \<open>
  The clients of the repository send each command with a newline and the terminating NUL.
  Then the bytes left in the buffer from earlier messages do not matter. A command fits into
  the receive buffer together with the two bytes when it has at most 126 bytes.
\<close>

definition framed :: "string \<Rightarrow> string" where
  "framed m = m @ [LF, NUL]"

definition command :: "string \<Rightarrow> bool" where
  "command m \<longleftrightarrow> LF \<notin> set m \<and> NUL \<notin> set m \<and> length m + 2 \<le> BUF_SIZE"

text \<open>
  What one \<^verbatim>\<open>recv\<close> delivers of such a client: a command, and what else has arrived behind its
  NUL and fits into the buffer (nothing, when the client waits for the answer before it goes on).
\<close>

type_synonym delivery = "rtrd_env \<times> string \<times> string"

definition delivered :: "delivery \<Rightarrow> rtrd_env \<times> string" where
  "delivered = (\<lambda>(env, m, extra). (env, framed m @ extra))"

definition first_command :: "delivery \<Rightarrow> rtrd_env \<times> string" where
  "first_command = (\<lambda>(env, m, extra). (env, m))"

definition delivery_ok :: "delivery \<Rightarrow> bool" where
  "delivery_ok = (\<lambda>(env, m, extra). command m \<and> length (framed m @ extra) \<le> BUF_SIZE)"

text \<open>Handling a list of messages one after the other.\<close>

fun handle_all :: "(rtrd_env \<times> string) list \<Rightarrow> rtrd_state \<Rightarrow> rtrd_state" where
  "handle_all [] s = s"
| "handle_all ((env, m) # ms) s =
     (if ended s \<noteq> None then s else handle_all ms (handle_message env m s))"

lemma handle_all_ended [simp]: "ended s \<noteq> None \<Longrightarrow> handle_all ms s = s"
  by (induction ms s rule: handle_all.induct) auto

declare conn_loop.simps(2) [simp del]

lemma conn_loop_ended [simp]: "ended s \<noteq> None \<Longrightarrow> conn_loop ds (buf, msg, s) = (buf, msg, s)"
  by (cases ds) (auto simp: conn_loop.simps)

lemma conn_loop_recv:
  "bytes \<noteq> [] \<Longrightarrow> length bytes \<le> BUF_SIZE \<Longrightarrow> ended s = None \<Longrightarrow>
    conn_loop ((env, bytes) # ds) (buf, msg, s) = conn_loop ds (conn_chunk env bytes (buf, msg, s))"
  by (simp add: conn_loop.simps)

lemma length_recv_into [simp]: "length buf = BUF_SIZE \<Longrightarrow> length (recv_into chunk buf) = BUF_SIZE"
  by (simp add: recv_into_def)

lemma length_conn_chunk:
  "length buf = BUF_SIZE \<Longrightarrow> length (fst (conn_chunk env chunk (buf, msg, s))) = BUF_SIZE"
  by (simp add: conn_chunk_def Let_def split: sum.split option.split)

lemma strchr_framed:
  "LF \<notin> set m \<Longrightarrow> NUL \<notin> set m \<Longrightarrow> strchr_pos LF (m @ LF # t) = Inr (Some (length m))"
proof -
  assume "LF \<notin> set m" "NUL \<notin> set m"
  then have "takeWhile (\<lambda>x. x \<noteq> NUL \<and> x \<noteq> LF) (m @ LF # t) = m" by (induction m) auto
  then show ?thesis by (simp add: strchr_pos_def)
qed

text \<open>
  The receive buffer keeps its 128 bytes. One \<^verbatim>\<open>recv\<close>: the first command is handled, and the
  message starts anew.
\<close>

lemma conn_chunk_delivery:
  assumes "command m" and "length (framed m @ extra) \<le> BUF_SIZE"
  shows "\<exists>buf' msg'. conn_chunk env (framed m @ extra) (buf, [], s) = (buf', msg', handle_message env m s) \<and>
    (ended (handle_message env m s) = None \<longrightarrow> msg' = [])"
proof -
  let ?t = "extra @ drop (length (framed m @ extra)) buf"
  have b: "recv_into (framed m @ extra) buf = m @ LF # NUL # ?t"
    using assms(2) by (simp add: recv_into_def framed_def)
  have m: "LF \<notin> set m" "NUL \<notin> set m" using assms(1) by (auto simp: command_def)
  then have c: "c_str (m @ NUL # NUL # ?t) = m" by simp
  have n: "strchr_pos LF (m @ LF # NUL # ?t) = Inr (Some (length m))" by (rule strchr_framed [OF m])
  have z: "str_in (NUL # ?t) = Inr []" by (simp add: str_in_def c_str_def)
  show ?thesis
    using n c z by (auto simp: conn_chunk_def b Let_def)
qed

lemma conn_loop_framed:
  "list_all delivery_ok ds \<Longrightarrow>
    snd (snd (conn_loop (map delivered ds) (buf, [], s))) = handle_all (map first_command ds) s"
proof (induction ds arbitrary: buf s)
  case (Cons d ds)
  obtain env m extra where d: "d = (env, m, extra)" by (rule prod_cases3)
  with Cons.prems have m: "command m" and l: "length (framed m @ extra) \<le> BUF_SIZE"
    by (auto simp: delivery_ok_def)
  show ?case
  proof (cases "ended s")
    case None
    obtain buf' msg' where c: "conn_chunk env (framed m @ extra) (buf, [], s) = (buf', msg', handle_message env m s)"
      and e: "ended (handle_message env m s) = None \<longrightarrow> msg' = []"
      using conn_chunk_delivery [OF m l] by blast
    have "framed m @ extra \<noteq> []" by (simp add: framed_def)
    with None l have "conn_loop (map delivered (d # ds)) (buf, [], s) =
      conn_loop (map delivered ds) (buf', msg', handle_message env m s)"
      by (simp add: d delivered_def conn_loop_recv c)
    then show ?thesis
      using None d e Cons by (cases "ended (handle_message env m s)") (auto simp: first_command_def)
  qed (simp add: d)
qed simp

text \<open>
  Two commands that arrive together are not both handled: what follows the NUL of the first in
  the same \<^verbatim>\<open>recv\<close> is dropped. A command of 127 bytes or more does not fit: the buffer then
  holds no newline or nothing behind it, and \<^verbatim>\<open>strchr\<close> or \<^verbatim>\<open>strlen\<close> reads past its end.
\<close>

lemma second_command_dropped:
  assumes "command m" and "length (framed m @ framed m') \<le> BUF_SIZE"
  shows "server_connection [(env, framed m @ framed m')] stack s = handle_all [(env, m)] s"
  using conn_loop_framed [of "[(env, m, framed m')]" stack s] assms
  by (simp add: server_connection_def delivered_def first_command_def delivery_ok_def)

lemma long_message_unknown: "8 \<le> length m \<Longrightarrow> handle_message env m s = s"
  by (auto simp: handle_message_def dest!: strcaseeq_length)

lemma long_command_overruns:
  assumes "LF \<notin> set m" and "NUL \<notin> set m" and "BUF_SIZE \<le> length m + 1"
    and "length stack = BUF_SIZE" and "ended s = None"
  shows "ended (server_connection [(env, framed m)] stack s) = Some Undefined"
proof -
  let ?d = "take BUF_SIZE (framed m)"
  have len: "length ?d = BUF_SIZE" using assms(3) by (simp add: framed_def)
  have b: "recv_into ?d stack = ?d" using len assms(4) by (simp add: recv_into_def)
  have "\<exists>b' m'. conn_chunk env ?d (stack, [], s) = (b', m', s\<lparr>ended := Some Undefined\<rparr>)"
  proof (cases "length m + 1 = BUF_SIZE")
    case True
    then have d: "?d = m @ [LF]" by (simp add: framed_def flip: True)
    have h: "handle_message env m s = s" using True by (intro long_message_unknown) (simp add: BUF_SIZE_def)
    have "c_str (m @ [NUL]) = m" using assms(2) by simp
    with d h show ?thesis
      using strchr_framed [OF assms(1,2), of "[]"] assms(5) b
      by (simp add: conn_chunk_def Let_def str_in_def)
  next
    case False
    then have "?d = take BUF_SIZE m" using assms(3) by (simp add: framed_def)
    then have t: "takeWhile (\<lambda>x. x \<noteq> NUL \<and> x \<noteq> LF) ?d = ?d"
      using assms(1,2) by (auto simp: takeWhile_eq_all_conv dest: in_set_takeD)
    have "strchr_pos LF ?d = Inl Undefined" by (simp only: strchr_pos_def Let_def t) simp
    then show ?thesis by (simp add: conn_chunk_def Let_def b)
  qed
  moreover have "framed m \<noteq> []" by (simp add: framed_def)
  ultimately show ?thesis
    using assms(5) by (auto simp: server_connection_def conn_loop.simps)
qed

section \<open>The mailbox\<close>

text \<open>
  What the queue promises: it holds the last control command, in upper case, until it is
  fetched. The abstract state is the pending command.
\<close>

definition control :: "string \<Rightarrow> string option" where
  "control m = (if strcaseeq m ''PAUSE'' then Some ''PAUSE'' else if strcaseeq m ''PLAY'' then Some ''PLAY''
     else if strcaseeq m ''NEXT'' then Some ''NEXT'' else if strcaseeq m ''STOP'' then Some ''STOP'' else None)"

definition mail :: "rtrd_state \<Rightarrow> string option" where
  "mail s = (if queued_message s = [] then None else Some (queued_message s))"

definition mail_step :: "string \<Rightarrow> string option \<Rightarrow> string option" where
  "mail_step m q =
     (case control m of Some c \<Rightarrow> Some c
      | None \<Rightarrow> if strcaseeq m ''YES?'' \<and> q \<noteq> Some ''STOP'' then None else q)"

text \<open>The queue holds nothing or one of the four commands.\<close>

definition queue_ok :: "rtrd_state \<Rightarrow> bool" where
  "queue_ok s \<longleftrightarrow> queued_message s \<in> {[], ''PAUSE'', ''PLAY'', ''NEXT'', ''STOP''}"

text \<open>Commands are told apart by their lower-case text.\<close>

lemma strcaseeq_lit:
  "strcaseeq m a \<Longrightarrow> strcaseeq m b = (map tolower a = map tolower b)"
  by (simp add: strcaseeq_def)

lemma strcaseeq_STOP:
  "queue_ok s \<Longrightarrow> strcaseeq (queued_message s) ''STOP'' \<longleftrightarrow> queued_message s = ''STOP''"
proof -
  have "\<not> strcaseeq [] ''STOP''" "\<not> strcaseeq ''PAUSE'' ''STOP''" "\<not> strcaseeq ''PLAY'' ''STOP''"
    "\<not> strcaseeq ''NEXT'' ''STOP''" by code_simp+
  then show "queue_ok s \<Longrightarrow> ?thesis" by (auto simp: queue_ok_def)
qed

lemma handle_control: "control m = Some c \<Longrightarrow> handle_message env m s = queue_command c s"
proof -
  have "\<not> strcaseeq m ''CURRENT''" if "strcaseeq m ''STOP''"
    using that strcaseeq_lit [OF that, of "''CURRENT''"] by (simp add: tolower_def isupper_def)
  then show "control m = Some c \<Longrightarrow> ?thesis"
    by (auto simp: control_def handle_message_def split: if_splits)
qed

lemma control_not_None: "control m = Some c \<Longrightarrow> c \<in> {''PAUSE'', ''PLAY'', ''NEXT'', ''STOP''}"
  by (auto simp: control_def split: if_splits)

lemma handle_message_queue_ok: "queue_ok s \<Longrightarrow> queue_ok (handle_message env m s)"
  by (auto simp: queue_ok_def handle_message_def queue_command_def send_ack_def send_text_def Let_def
      split: sum.splits)

text \<open>The four control commands and the fetch command exclude each other.\<close>

lemma control_fetch: "strcaseeq m ''YES?'' \<Longrightarrow> control m = None"
  by (simp add: control_def strcaseeq_lit [of m "''YES?''"] tolower_def isupper_def)

lemma handle_fetch:
  assumes "strcaseeq m ''YES?''"
  shows "handle_message env m s =
    (let s1 = send_text (queued_message s) s in
     if strcaseeq (queued_message s) ''STOP'' then s1\<lparr>ended := Some (Exit EXIT_SUCCESS)\<rparr>
     else s1\<lparr>queued_message := []\<rparr>)"
proof -
  have "\<not> strcaseeq m ''PAUSE''" "\<not> strcaseeq m ''PLAY''" "\<not> strcaseeq m ''NEXT''"
    "\<not> strcaseeq m ''STOP''" "\<not> strcaseeq m ''CURRENT''" "\<not> strcaseeq m ''REQFILE''"
    unfolding strcaseeq_lit [OF assms] by (simp_all add: tolower_def isupper_def)
  then show ?thesis using assms by (simp add: handle_message_def)
qed

lemma handle_other:
  assumes "control m = None" and "\<not> strcaseeq m ''YES?''"
  shows "queued_message (handle_message env m s) = queued_message s"
  using assms
  by (auto simp: control_def handle_message_def send_text_def split: if_splits sum.splits)

lemma mail_handle_message:
  assumes "queue_ok s"
  shows "mail (handle_message env m s) = mail_step m (mail s)"
proof (cases "control m")
  case (Some c)
  then show ?thesis
    using control_not_None [OF Some] handle_control [OF Some]
    by (auto simp: mail_def mail_step_def queue_command_def send_ack_def send_text_def)
next
  case None
  show ?thesis
  proof (cases "strcaseeq m ''YES?''")
    case True
    then show ?thesis
      using None strcaseeq_STOP [OF assms] handle_fetch [OF True, of env s]
      by (auto simp: mail_def mail_step_def send_text_def Let_def)
  next
    case False
    then show ?thesis using None handle_other [OF None False]
      by (simp add: mail_def mail_step_def)
  qed
qed

lemma handle_all_queue_ok: "queue_ok s \<Longrightarrow> queue_ok (handle_all ms s)"
  by (induction ms s rule: handle_all.induct) (auto simp: handle_message_queue_ok)

lemma handle_all_append: "handle_all (xs @ ys) s = handle_all ys (handle_all xs s)"
  by (induction xs s rule: handle_all.induct) auto

lemma handle_all_mail:
  "queue_ok s \<Longrightarrow> ended (handle_all ms s) = None \<Longrightarrow>
    mail (handle_all ms s) = fold (mail_step \<circ> snd) ms (mail s)"
proof (induction ms s rule: handle_all.induct)
  case (2 env m ms s)
  have s: "ended s = None" using 2 by (auto split: if_splits)
  with 2 show ?case
    by (simp add: handle_message_queue_ok mail_handle_message)
qed simp

lemma fold_mail_idle:
  "list_all (\<lambda>(env, m). control m = None \<and> \<not> strcaseeq m ''YES?'') ms \<Longrightarrow>
    fold (mail_step \<circ> snd) ms q = q"
  by (induction ms) (auto simp: mail_step_def)

section \<open>Reachable states\<close>

text \<open>
  The states of the running daemon: it starts from a configuration and handles messages, in
  any order and from any client, until it has ended.
\<close>

inductive reachable :: "rtrd_state \<Rightarrow> bool" where
  reach_init: "rtrd_init config = Inr s \<Longrightarrow> reachable s"
| reach_message: "reachable s \<Longrightarrow> ended s = None \<Longrightarrow> reachable (handle_message env m s)"

text \<open>The file the clients were told of last.\<close>

definition last_file :: "string list \<Rightarrow> string" where
  "last_file texts =
     (case filter (\<lambda>t. take 5 t = ''FILE '') texts of [] \<Rightarrow> [] | ts \<Rightarrow> drop 5 (last ts))"

lemma last_file_snoc [simp]:
  "last_file (texts @ [t]) = (if take 5 t = ''FILE '' then drop 5 t else last_file texts)"
  by (cases "filter (\<lambda>t. take 5 t = ''FILE '') texts") (simp_all add: last_file_def)

lemma take_CURRENT: "take 5 (''CURRENT '' @ f) \<noteq> ''FILE ''" by simp

lemma queue_ok_not_file: "queue_ok s \<Longrightarrow> take 5 (queued_message s) \<noteq> ''FILE ''"
  by (auto simp: queue_ok_def)

lemma handle_message_last_file:
  assumes "queue_ok s" and "current_song s = last_file (sent s)"
  shows "current_song (handle_message env m s) = last_file (sent (handle_message env m s))"
  using assms queue_ok_not_file [OF assms(1)]
  by (auto simp: handle_message_def queue_command_def send_ack_def send_text_def Let_def
      split: sum.splits)

lemma reachable_queue_ok: "reachable s \<Longrightarrow> queue_ok s"
proof (induction rule: reachable.induct)
  case (reach_init config s)
  then show ?case by (auto simp: rtrd_init_def queue_ok_def bindR_eq_Inr)
qed (rule handle_message_queue_ok)

lemma reachable_last_file: "reachable s \<Longrightarrow> current_song s = last_file (sent s)"
proof (induction rule: reachable.induct)
  case (reach_init config s)
  then show ?case by (auto simp: rtrd_init_def bindR_eq_Inr last_file_def)
next
  case (reach_message s env m)
  then show ?case by (intro handle_message_last_file reachable_queue_ok)
qed

lemma reachable_handle_all: "reachable s \<Longrightarrow> reachable (handle_all ms s)"
  by (induction ms s rule: handle_all.induct) (auto intro: reach_message)

section \<open>Properties\<close>

definition sample_env :: rtrd_env where
  "sample_env = \<lparr>env_localtime = (\<lambda>t. None), env_time = 0, env_popen = (\<lambda>c. None)\<rparr>"

definition fresh :: rtrd_state where
  "fresh = \<lparr>rules = \<lparr>arr = [], num_rules = 0\<rparr>, current_song = [], queued_message = [],
     sent = [], ended = None\<rparr>"

lemma fresh_reachable: "reachable fresh"
proof -
  have "rtrd_init (Some []) = Inr fresh" unfolding fresh_def by code_simp
  then show ?thesis by (rule reach_init)
qed

text \<open>
  C5: When every \<^verbatim>\<open>recv\<close> delivers a command of at most 126 bytes with a newline and a NUL
  behind it, the daemon handles exactly the first command of each, one after the other, until
  it has ended: whatever the uninitialised receive buffer held, and whatever follows the NUL in
  the same \<^verbatim>\<open>recv\<close>, which is dropped.
\<close>

theorem server_connection_framed:
  assumes "list_all delivery_ok ds"
  shows "server_connection (map delivered ds) stack s = handle_all (map first_command ds) s"
  unfolding server_connection_def by (rule conn_loop_framed [OF assms])

definition sample_deliveries :: "delivery list" where
  "sample_deliveries = [(sample_env, ''next'', framed ''PAUSE''), (sample_env, ''YES?'', [])]"

theorem server_connection_framed_witness:
  "list_all delivery_ok sample_deliveries \<and>
   sent (server_connection (map delivered sample_deliveries) (replicate 128 LF) fresh) = [''ACK'', ''NEXT'']"
proof -
  have "list_all delivery_ok sample_deliveries" by code_simp
  moreover have "sent (handle_all (map first_command sample_deliveries) fresh) = [''ACK'', ''NEXT'']"
    by code_simp
  ultimately show ?thesis using server_connection_framed by metis
qed

text \<open>
  C6: The queued message is a mailbox of one place: after any sequence of messages that did
  not end the daemon, what is pending is what the abstract mailbox holds, where a control
  command replaces the content and \<^verbatim>\<open>YES?\<close> empties it.
\<close>

theorem mailbox_refinement:
  assumes "reachable s" and "ended (handle_all ms s) = None"
  shows "mail (handle_all ms s) = fold (mail_step \<circ> snd) ms (mail s)"
  using assms by (intro handle_all_mail reachable_queue_ok)

theorem mailbox_refinement_witness:
  "reachable fresh \<and> ended (handle_all [(sample_env, ''PAUSE''), (sample_env, ''next'')] fresh) = None \<and>
   mail (handle_all [(sample_env, ''PAUSE''), (sample_env, ''next'')] fresh) = Some ''NEXT''"
proof -
  have "ended (handle_all [(sample_env, ''PAUSE''), (sample_env, ''next'')] fresh) = None" by code_simp
  moreover have "fold (mail_step \<circ> snd) [(sample_env, ''PAUSE''), (sample_env, ''next'')] (mail fresh) = Some ''NEXT''"
    by code_simp
  ultimately show ?thesis using fresh_reachable mailbox_refinement [of fresh "[(sample_env, ''PAUSE''), (sample_env, ''next'')]"]
    by metis
qed

text \<open>
  A control command is delivered by the next \<^verbatim>\<open>YES?\<close>, whatever messages that are neither
  come in between; after a delivered \<^verbatim>\<open>STOP\<close> the daemon exits successfully, after any other the
  mailbox is empty and the daemon goes on.
\<close>

lemma command_delivered:
  assumes "reachable s" and "control c = Some k"
    and "list_all (\<lambda>(env, m). control m = None \<and> \<not> strcaseeq m ''YES?'') ms"
    and "ended (handle_all ((env1, c) # ms) s) = None" and "strcaseeq y ''YES?''"
    and "t = handle_all ((env1, c) # ms @ [(env2, y)]) s"
  shows "sent t = sent (handle_all ((env1, c) # ms) s) @ [k] \<and>
    ended t = (if k = ''STOP'' then Some (Exit EXIT_SUCCESS) else None) \<and>
    (k \<noteq> ''STOP'' \<longrightarrow> mail t = None)"
proof -
  let ?u = "handle_all ((env1, c) # ms) s"
  have u: "queue_ok ?u" using assms(1) by (intro handle_all_queue_ok reachable_queue_ok)
  have "mail ?u = Some k"
    using handle_all_mail [OF reachable_queue_ok [OF assms(1)] assms(4)] fold_mail_idle [OF assms(3)]
      assms(2) by (simp add: mail_step_def)
  then have k: "queued_message ?u = k" by (simp add: mail_def split: if_splits)
  have "t = handle_message env2 y ?u"
    using assms(4,6) handle_all_append [of "(env1, c) # ms" "[(env2, y)]" s] by simp
  then show ?thesis
    using handle_fetch [OF assms(5), of env2 ?u] k strcaseeq_STOP [OF u] assms(4)
    by (auto simp: send_text_def Let_def mail_def)
qed

text \<open>
  At every moment of the daemon's life \<^verbatim>\<open>CURRENT\<close> is answered with the file that the last
  \<^verbatim>\<open>REQFILE\<close> was answered with (nothing before the first), and asking changes nothing else.
\<close>

lemma current_is_last_file:
  assumes "reachable s" and "strcaseeq m ''CURRENT''"
  shows "handle_message env m s = send_text (''CURRENT '' @ last_file (sent s)) s"
proof -
  have "\<not> strcaseeq m ''PAUSE''" "\<not> strcaseeq m ''PLAY''" "\<not> strcaseeq m ''NEXT''"
    unfolding strcaseeq_lit [OF assms(2)] by (simp_all add: tolower_def isupper_def)
  then show ?thesis
    using assms reachable_last_file [OF assms(1)] by (simp add: handle_message_def)
qed

text \<open>
  A client that ends its commands with a newline only, as the notes on the protocol say, is
  not understood: the receive buffer is not terminated, so after \<^verbatim>\<open>CURRENT\<close> the bytes of
  it that a shorter \<^verbatim>\<open>NEXT\<close> leaves in the buffer are put in front of the following
  \<^verbatim>\<open>STOP\<close>, which is dropped as an unknown message: no acknowledgement, and the queue
  keeps its content.
\<close>

lemma newline_only_client_lost:
  "let s = server_connection [(env, ''CURRENT'' @ [LF, NUL]), (env, ''NEXT'' @ [LF]), (env, ''STOP'' @ [LF])]
             stack fresh
   in sent s = [''CURRENT '', ''ACK''] \<and> queued_message s = ''NEXT'' \<and> ended s = None"
  unfolding server_connection_def fresh_def by (simp add: conn_loop.simps conn_chunk_def recv_into_def BUF_SIZE_def
    strchr_pos_def LF_def NUL_def c_str_def strncat_def str_in_def handle_message_def strcaseeq_def tolower_def isupper_def
    queue_command_def send_ack_def send_text_def Let_def)

end
