(* ===== verification/Sockets.thy ===== *)
theory Sockets
  imports Prelude
begin

text \<open>
  The socket helpers, \<^verbatim>\<open>src/src/sockets.c\<close>, and the allocation wrappers of
  \<^verbatim>\<open>src/src/memory.c\<close>. The system calls are parameters: what they answered is an
  argument of the operation (\<open>Inl\<close> an error number for the return value -1), and what the
  program asked of the system is recorded as a list of events.
\<close>

section \<open>Allocation\<close>

text \<open>A failed allocation (\<open>None\<close>, the null pointer) ends the program.\<close>

definition xmalloc :: "(nat \<Rightarrow> 'p option) \<Rightarrow> nat \<Rightarrow> 'p result" where
  "xmalloc malloc sz = (case malloc sz of None \<Rightarrow> Inl (Exit EXIT_FAILURE) | Some p \<Rightarrow> Inr p)"

definition xcalloc :: "(nat \<Rightarrow> nat \<Rightarrow> 'p option) \<Rightarrow> nat \<Rightarrow> nat \<Rightarrow> 'p result" where
  "xcalloc calloc sz item_size =
     (case calloc sz item_size of None \<Rightarrow> Inl (Exit EXIT_FAILURE) | Some p \<Rightarrow> Inr p)"

definition xrealloc :: "('p \<Rightarrow> nat \<Rightarrow> 'p option) \<Rightarrow> 'p \<Rightarrow> nat \<Rightarrow> 'p result" where
  "xrealloc realloc p sz =
     (case realloc p sz of None \<Rightarrow> Inl (Exit EXIT_FAILURE) | Some p \<Rightarrow> Inr p)"

section \<open>Error messages\<close>

datatype errno = EACCES | EPERM | EADDRINUSE | EAFNOSUPPORT | EAGAIN | EALREADY | EBADF
  | ECONNREFUSED | EFAULT | EINPROGRESS | EINTR | EISCONN | ENETUNREACH | ENOTSOCK | ETIMEDOUT
  | ECONNRESET | EINVAL | ENOENT | ENOMEM | ENOTCONN | EOPNOTSUPP | EPIPE | EPROTONOSUPPORT
  | EPROTOTYPE | ESOCKTNOSUPPORT | OTHER int

fun report_error :: "errno \<Rightarrow> string" where
  "report_error EACCES = ''EACCES Write permission denied.''"
| "report_error EPERM = ''EPERM Invalid credentials.''"
| "report_error EADDRINUSE = ''EADDRINUSE Local address already in use.''"
| "report_error EAFNOSUPPORT =
     ''EAFNOSUPPORT The passed address didn't have the correct address family.''"
| "report_error EAGAIN = ''EAGAIN No more free local ports.''"
| "report_error EALREADY = ''EALREADY Previous connection in progress.''"
| "report_error EBADF = ''EBADF Bad file descriptor.''"
| "report_error ECONNREFUSED = ''ECONNREFUSED No one's listening.''"
| "report_error EFAULT = ''EFAULT Address is outside of user's address space.''"
| "report_error EINPROGRESS =
     ''EINPROGRESS Socket is nonblocking and connection cannot be completed immediately.''"
| "report_error EINTR = ''EINTR System call was interrupted by signal.''"
| "report_error EISCONN = ''EISCONN The socket is already connected.''"
| "report_error ENETUNREACH = ''ENETUNREACH Network unreachable.''"
| "report_error ENOTSOCK = ''ENOTSOCK Filedescriptor is not a socket.''"
| "report_error ETIMEDOUT =
     ''ETIMEDOUT Timeout while attemting connection, server may be too busy.''"
| "report_error ECONNRESET =
     ''ECONNRESET Remote connection socket was unexpectedly closes.''"
| "report_error EINVAL = ''EINVAL Invalid argument passed.''"
| "report_error ENOENT = ''ENOENT Specified pathname does not exist.''"
| "report_error ENOMEM = ''ENOMEM Out of memory.''"
| "report_error ENOTCONN =
     ''ENOTCONN Socket address needs a target address, but socket is not connected.''"
| "report_error EOPNOTSUPP =
     ''EOPNOTSUPP Stream operation called on non-stream oriented socket.''"
| "report_error EPIPE = ''EPIPE Remote socket was closed on a stream socket.''"
| "report_error EPROTONOSUPPORT = ''EPROTONOSUPPORT Protocol not supported.''"
| "report_error EPROTOTYPE =
     ''EPROTOTYPE Remote socket type does not match local socket type.''"
| "report_error ESOCKTNOSUPPORT = ''ESOCKTNOSUPPORT Unknown socket type.''"
| "report_error (OTHER n) = ''Unknown problem''"

section \<open>Events\<close>

datatype sock_event = Socket | Connect string | Unlink string | Bind string | Listen int
  | Accept | Serve int | Close int | Log string

text \<open>
  The state of the caller together with the events so far. The path is copied into the
  108 bytes of \<^verbatim>\<open>sun_path\<close> without a check.
\<close>

type_synonym 's traced = "sock_event list \<times> 's"

definition SUN_PATH_SIZE :: nat where "SUN_PATH_SIZE = 108"

definition copy_path :: "string \<Rightarrow> string result" where
  "copy_path address = (if length address < SUN_PATH_SIZE then Inr address else Inl Undefined)"

definition failed :: "string \<Rightarrow> errno \<Rightarrow> sock_event list" where
  "failed what e = [Log what, Log (report_error e)]"

section \<open>The client\<close>

definition client_socket ::
    "string \<Rightarrow> errno + int \<Rightarrow> errno option \<Rightarrow> (int \<Rightarrow> 's \<Rightarrow> 's) \<Rightarrow> 's \<Rightarrow>
      sock_event list \<times> 's result" where
  "client_socket address socket_res connect_res functionPtr s =
     (case socket_res of
        Inl e \<Rightarrow> (Socket # failed ''Could not create socket.'' e, Inl (Exit EXIT_FAILURE))
      | Inr fd \<Rightarrow>
          (case copy_path address of
             Inl f \<Rightarrow> ([Socket], Inl f)
           | Inr path \<Rightarrow>
               (case connect_res of
                  Some e \<Rightarrow> ([Socket, Connect path] @ failed ''Could not listen at socket.'' e,
                     Inl (Exit EXIT_FAILURE))
                | None \<Rightarrow> ([Socket, Connect path, Serve fd, Close fd], Inr (functionPtr fd s)))))"

section \<open>The server\<close>

text \<open>
  One round of the accept loop. An accepted connection comes with its descriptor and with
  what the client sends on it; \<open>stopped\<close> tells whether the process ended while it was
  served. A failed accept leaves the descriptor -1, which is closed like any other.
\<close>

definition close_connection :: "(int \<Rightarrow> errno option) \<Rightarrow> int \<Rightarrow> sock_event list" where
  "close_connection close_res fd =
     Close fd # (case close_res fd of None \<Rightarrow> []
       | Some e \<Rightarrow> failed ''Could not close connection with client.'' e)"

definition accept_round ::
    "(int \<Rightarrow> errno option) \<Rightarrow> ('w \<Rightarrow> int \<Rightarrow> 's \<Rightarrow> 's) \<Rightarrow> ('s \<Rightarrow> fault option) \<Rightarrow>
      errno + int \<times> 'w \<Rightarrow> 's traced \<Rightarrow> 's traced" where
  "accept_round close_res functionPtr stopped a t =
     (case a of
        Inl e \<Rightarrow> (fst t @ Accept # failed ''Failed to connect to client.'' e
            @ close_connection close_res (-1), snd t)
      | Inr (fd, w) \<Rightarrow>
          let s' = functionPtr w fd (snd t) in
          if stopped s' \<noteq> None then (fst t @ [Accept, Serve fd], s')
          else (fst t @ Accept # Serve fd # close_connection close_res fd, s'))"

text \<open>The loop has no end of its own: the list holds the answers of \<^verbatim>\<open>accept\<close> so far.\<close>

fun accept_loop ::
    "(int \<Rightarrow> errno option) \<Rightarrow> ('w \<Rightarrow> int \<Rightarrow> 's \<Rightarrow> 's) \<Rightarrow> ('s \<Rightarrow> fault option) \<Rightarrow>
      (errno + int \<times> 'w) list \<Rightarrow> 's traced \<Rightarrow> 's traced" where
  "accept_loop close_res functionPtr stopped [] t = t"
| "accept_loop close_res functionPtr stopped (a # as) t =
     (if stopped (snd t) \<noteq> None then t
      else accept_loop close_res functionPtr stopped as
        (accept_round close_res functionPtr stopped a t))"

definition server_socket ::
    "string \<Rightarrow> errno + int \<Rightarrow> errno option \<Rightarrow> errno option \<Rightarrow> (int \<Rightarrow> errno option) \<Rightarrow>
      ('w \<Rightarrow> int \<Rightarrow> 's \<Rightarrow> 's) \<Rightarrow> ('s \<Rightarrow> fault option) \<Rightarrow> (errno + int \<times> 'w) list \<Rightarrow> 's \<Rightarrow>
      sock_event list \<times> 's result" where
  "server_socket address socket_res bind_res listen_res close_res functionPtr stopped accepts s =
     (case socket_res of
        Inl e \<Rightarrow> (Socket # failed ''Could not create socket.'' e, Inl (Exit EXIT_FAILURE))
      | Inr sockfd \<Rightarrow>
          (case copy_path address of
             Inl f \<Rightarrow> ([Socket], Inl f)
           | Inr path \<Rightarrow>
               (case bind_res of
                  Some e \<Rightarrow> ([Socket, Unlink path, Bind path]
                      @ failed ''Could not bind socket to address.'' e, Inl (Exit EXIT_FAILURE))
                | None \<Rightarrow>
                    (case listen_res of
                       Some e \<Rightarrow> ([Socket, Unlink path, Bind path, Listen 5]
                           @ failed ''Could not listen at socket.'' e, Inl (Exit EXIT_FAILURE))
                     | None \<Rightarrow>
                         let t = accept_loop close_res functionPtr stopped accepts
                                   ([Socket, Unlink path, Bind path, Listen 5], s)
                         in (fst t, Inr (snd t))))))"

section \<open>What a server may rely on\<close>

text \<open>The state of the server after the connections, without the events: failed accepts do nothing.\<close>

fun serve :: "('w \<Rightarrow> int \<Rightarrow> 's \<Rightarrow> 's) \<Rightarrow> ('s \<Rightarrow> fault option) \<Rightarrow> (errno + int \<times> 'w) list \<Rightarrow> 's \<Rightarrow> 's" where
  "serve f stopped [] s = s"
| "serve f stopped (Inl e # as) s = serve f stopped as s"
| "serve f stopped (Inr (fd, w) # as) s =
     (if stopped s \<noteq> None then s else serve f stopped as (f w fd s))"

lemma serve_stopped: "stopped s \<noteq> None \<Longrightarrow> serve f stopped as s = s"
  by (induction f stopped as s rule: serve.induct) auto

lemma accept_loop_stopped: "stopped (snd t) \<noteq> None \<Longrightarrow> accept_loop c f stopped as t = t"
  by (cases as) auto

lemma accept_loop_serve: "snd (accept_loop c f stopped as t) = serve f stopped as (snd t)"
proof (induction as arbitrary: t)
  case (Cons a as)
  show ?case
  proof (cases "stopped (snd t)")
    case None
    with Cons show ?thesis
      by (cases a) (auto simp: accept_round_def Let_def)
  next
    case (Some f)
    then show ?thesis by (simp add: serve_stopped)
  qed
qed simp

text \<open>
  The contract of a connection handler: an invariant of the server's state that every
  connection keeps while the process runs. Then the accept loop keeps it too.
\<close>

locale session_handler =
  fixes session :: "'w \<Rightarrow> int \<Rightarrow> 's \<Rightarrow> 's" and stopped :: "'s \<Rightarrow> fault option" and inv :: "'s \<Rightarrow> bool"
  assumes session_inv: "inv s \<Longrightarrow> stopped s = None \<Longrightarrow> inv (session w fd s)"
begin

lemma serve_inv: "inv s \<Longrightarrow> inv (serve session stopped as s)"
proof (induction as arbitrary: s)
  case (Cons a as)
  show ?case
  proof (cases a)
    case (Inr p)
    then show ?thesis
      using Cons session_inv by (cases p) auto
  qed (simp add: Cons)
qed simp

lemma accept_loop_inv: "inv (snd t) \<Longrightarrow> inv (snd (accept_loop c session stopped as t))"
  by (simp add: accept_loop_serve serve_inv)

lemma server_socket_inv:
  "inv s \<Longrightarrow> server_socket addr (Inr sfd) None None c session stopped as s = (ev, Inr s') \<Longrightarrow> inv s'"
  by (auto simp: server_socket_def Let_def accept_loop_inv split: sum.splits)

end

section \<open>Descriptors\<close>

text \<open>The descriptors that are open according to a list of events.\<close>

fun opened :: "sock_event list \<Rightarrow> int set \<Rightarrow> int set" where
  "opened [] A = A"
| "opened (Serve fd # es) A = opened es (insert fd A)"
| "opened (Close fd # es) A = opened es (A - {fd})"
| "opened (e # es) A = opened es A"

lemma opened_append: "opened (xs @ ys) A = opened ys (opened xs A)"
  by (induction xs A rule: opened.induct) auto

lemma opened_failed [simp]: "opened (failed m e) A = A"
  by (simp add: failed_def)

lemma opened_close_connection: "opened (close_connection c fd) A = A - {fd}"
  by (auto simp: close_connection_def split: option.split)

lemma accept_round_opened:
  assumes "stopped (snd (accept_round c f stopped a t)) = None"
    and "\<And>fd w. a = Inr (fd, w) \<Longrightarrow> fd \<notin> A" and "opened (fst t) {} = A" and "-1 \<notin> A"
  shows "opened (fst (accept_round c f stopped a t)) {} = A"
proof (cases a)
  case (Inl e)
  with assms show ?thesis
    by (simp add: accept_round_def opened_append opened_close_connection)
next
  case (Inr p)
  with assms show ?thesis
    by (cases p) (auto simp: accept_round_def Let_def opened_append opened_close_connection split: if_splits)
qed

lemma accept_loop_opened:
  assumes "stopped (snd (accept_loop c f stopped as t)) = None" and "opened (fst t) {} = {}"
  shows "opened (fst (accept_loop c f stopped as t)) {} = {}"
  using assms
proof (induction as arbitrary: t)
  case (Cons a as)
  let ?t' = "accept_round c f stopped a t"
  have run: "stopped (snd t) = None"
    using Cons.prems(1) by (auto split: if_splits)
  have "stopped (snd ?t') = None"
    using Cons.prems(1) run accept_loop_stopped [of stopped ?t' c f as] by (cases "stopped (snd ?t')") auto
  then have "opened (fst ?t') {} = {}"
    using Cons.prems(2) by (intro accept_round_opened) auto
  with Cons.IH [of ?t'] Cons.prems(1) run show ?case by simp
qed simp

text \<open>
  As long as the process runs, every connection the server accepted has been closed again:
  after any number of rounds, with failed and successful accepts in any order, no descriptor
  of a connection is left open.
\<close>

lemma server_closes_connections:
  assumes "server_socket address socket_res bind_res listen_res close_res functionPtr stopped accepts s = (ev, Inr s')"
    and "stopped s' = None"
  shows "opened ev {} = {}"
proof -
  from assms(1) obtain path where
    ev: "ev = fst (accept_loop close_res functionPtr stopped accepts ([Socket, Unlink path, Bind path, Listen 5], s))"
    and s': "s' = snd (accept_loop close_res functionPtr stopped accepts ([Socket, Unlink path, Bind path, Listen 5], s))"
    by (auto simp: server_socket_def Let_def split: sum.splits option.splits)
  show ?thesis
    unfolding ev using assms(2) s' by (intro accept_loop_opened) auto
qed

end
