(* ===== verification/Daemonize.thy ===== *)
theory Daemonize
  imports Cron_Parser
begin

text \<open>
  The start of a daemon, \<^verbatim>\<open>src/src/daemonize.c\<close>: the double fork, the descriptor
  table, the lock file and the process number written to it. The answers of the system are in
  the record \<open>host\<close>; what the process did is recorded in \<open>proc\<close>.
\<close>

section \<open>Signals\<close>

definition SIGHUP :: int where "SIGHUP = 1"
definition SIGTERM :: int where "SIGTERM = 15"
definition SIGCHLD :: int where "SIGCHLD = 17"

definition signal_handler :: "int \<Rightarrow> unit result" where
  "signal_handler sig = (if sig = SIGTERM then Inl (Exit EXIT_SUCCESS) else Inr ())"

datatype disposition = Handler | SIG_IGN

section \<open>The host and the process\<close>

text \<open>
  \<open>open_max\<close> is \<^verbatim>\<open>sysconf(_SC_OPEN_MAX)\<close>. \<open>locks\<close> are the files other processes
  hold a lock on; \<open>openable\<close> tells which files can be opened.
\<close>

record host =
  fork1 :: int
  setsid_res :: int
  fork2 :: int
  open_max :: nat
  openable :: "string \<Rightarrow> bool"
  locks :: "string list"
  pid :: int

text \<open>The descriptor table maps an open descriptor to the file it stands for.\<close>

record proc =
  fds :: "nat \<rightharpoonup> string"
  sigs :: "(int \<times> disposition) list"
  umask :: nat
  cwd :: string
  std_streams :: "nat option list"
  lock_text :: string
  log_name :: "string option"

text \<open>A new descriptor is the lowest free one, as POSIX demands.\<close>

fun lowest_free :: "nat \<Rightarrow> nat \<Rightarrow> (nat \<rightharpoonup> string) \<Rightarrow> nat option" where
  "lowest_free 0 i t = None"
| "lowest_free (Suc n) i t = (if t i = None then Some i else lowest_free n (Suc i) t)"

definition open_file :: "host \<Rightarrow> string \<Rightarrow> proc \<Rightarrow> nat option \<times> proc" where
  "open_file h path p =
     (if openable h path then
        case lowest_free (open_max h) 0 (fds p) of
          None \<Rightarrow> (None, p)
        | Some fd \<Rightarrow> (Some fd, p\<lparr>fds := (fds p)(fd \<mapsto> path)\<rparr>)
      else (None, p))"

text \<open>\<^verbatim>\<open>for (fd = sysconf(_SC_OPEN_MAX); fd > 0; fd--) close(fd);\<close>\<close>

fun close_down :: "nat \<Rightarrow> (nat \<rightharpoonup> string) \<Rightarrow> (nat \<rightharpoonup> string)" where
  "close_down 0 t = t"
| "close_down (Suc n) t = close_down n (t(Suc n := None))"

definition reopen_streams :: "host \<Rightarrow> proc \<Rightarrow> proc" where
  "reopen_streams h p =
     (let (i, p) = open_file h ''/dev/null'' p;
          (j, p) = open_file h ''/dev/null'' p;
          (k, p) = open_file h ''/dev/null'' p
      in p\<lparr>std_streams := [i, j, k]\<rparr>)"

section \<open>The process number\<close>

fun nat_digits :: "nat \<Rightarrow> string" where
  "nat_digits n = (if n < 10 then [char_of (48 + n)] else nat_digits (n div 10) @ [char_of (48 + n mod 10)])"

declare nat_digits.simps [simp del]

definition PID_BUF :: nat where "PID_BUF = 10"

text \<open>
  \<^verbatim>\<open>sprintf(str, "%d\n", getpid())\<close> into ten bytes of the stack: the text, the newline and
  the NUL have to fit. All ten bytes are then written to the file.
\<close>

definition print_pid :: "int \<Rightarrow> string \<Rightarrow> string result" where
  "print_pid n stack =
     (let txt = (if n < 0 then ''-'' @ nat_digits (nat (- n)) else nat_digits (nat n)) @ [LF] in
      if length txt < PID_BUF then Inr (take PID_BUF (txt @ [NUL] @ drop (Suc (length txt)) stack))
      else Inl Undefined)"

section \<open>daemonize\<close>

definition lock_file :: string where "lock_file = ''exampled.lock''"

definition lock_pid_file :: "host \<Rightarrow> string \<Rightarrow> proc \<Rightarrow> proc result" where
  "lock_pid_file h stack p =
     (let path = cwd p @ lock_file; (lfp, p) = open_file h path p in
      case lfp of
        None \<Rightarrow> Inl (Exit 1)
      | Some fd \<Rightarrow>
          if path \<in> set (locks h) then Inl (Exit 0)
          else bindR (print_pid (pid h) stack) (\<lambda>str. Inr (p\<lparr>lock_text := str\<rparr>)))"

definition daemonize :: "host \<Rightarrow> string \<Rightarrow> string \<Rightarrow> proc \<Rightarrow> proc result" where
  "daemonize h stack name p =
     (if fork1 h < 0 then Inl (Exit EXIT_FAILURE)
      else if fork1 h > 0 then Inl (Exit EXIT_SUCCESS)
      else if setsid_res h < 0 then Inl (Exit EXIT_FAILURE)
      else
        let p = p\<lparr>sigs := [(SIGHUP, Handler), (SIGTERM, Handler), (SIGCHLD, SIG_IGN)]\<rparr> in
        if fork2 h < 0 then Inl (Exit EXIT_FAILURE)
        else if fork2 h > 0 then Inl (Exit EXIT_SUCCESS)
        else
          let p = p\<lparr>umask := 0\<rparr>;
              p = p\<lparr>cwd := ''/''\<rparr>;
              p = p\<lparr>fds := close_down (open_max h) (fds p)\<rparr>;
              p = reopen_streams h p
          in bindR (lock_pid_file h stack p) (\<lambda>p. Inr (p\<lparr>log_name := Some name\<rparr>)))"

section \<open>Lemmas\<close>

lemma nat_digits_length: "n < 10 ^ Suc k \<Longrightarrow> length (nat_digits n) \<le> Suc k"
proof (induction k arbitrary: n)
  case (Suc k)
  then have "n div 10 < 10 ^ Suc k" by simp
  with Suc.IH [of "n div 10"] show ?case
    by (simp add: nat_digits.simps [of n])
qed (simp add: nat_digits.simps)

lemma nat_digits_length_ge: "10 ^ k \<le> n \<Longrightarrow> k < length (nat_digits n)"
proof (induction k arbitrary: n)
  case (Suc k)
  have "10 ^ k \<le> n div 10"
    using Suc.prems by (simp add: less_eq_div_iff_mult_less_eq mult.commute)
  moreover have "\<not> n < 10"
  proof -
    have "10 * 1 \<le> (10::nat) * 10 ^ k" by (intro mult_le_mono2 one_le_power) simp
    with Suc.prems show ?thesis unfolding power_Suc by linarith
  qed
  ultimately have "10 ^ k \<le> n div 10" and "\<not> n < 10" .
  with Suc.IH [of "n div 10"] show ?case
    by (simp add: nat_digits.simps [of n])
qed (simp add: nat_digits.simps)

lemma print_pid_ok:
  assumes "0 \<le> n" "n < 10 ^ 8"
  shows "\<exists>str. print_pid n stack = Inr str \<and> take (Suc (length (nat_digits (nat n)))) str = nat_digits (nat n) @ [LF]"
proof -
  have "nat n < 10 ^ Suc 7" using assms by simp
  from nat_digits_length [OF this] show ?thesis
    using assms by (auto simp: print_pid_def PID_BUF_def Let_def)
qed

lemma close_down_eq: "close_down n t = (\<lambda>i. if 0 < i \<and> i \<le> n then None else t i)"
proof (induction n t rule: close_down.induct)
  case (2 n t)
  show ?case unfolding close_down.simps "2.IH" by (auto simp: fun_eq_iff)
qed auto

lemma lowest_free_found:
  assumes "\<And>j. i \<le> j \<Longrightarrow> j < i + k \<Longrightarrow> t j \<noteq> None" and "t (i + k) = None" and "k < n"
  shows "lowest_free n i t = Some (i + k)"
  using assms
proof (induction k arbitrary: i n)
  case 0
  then show ?case by (cases n) auto
next
  case (Suc k)
  obtain n' where n: "n = Suc n'" using Suc.prems(3) by (cases n) auto
  have "lowest_free n' (Suc i) t = Some (Suc i + k)"
    using Suc.prems n by (intro Suc.IH) auto
  with Suc.prems(1) [of i] n show ?case by auto
qed

lemma open_file_first:
  assumes "openable h f" and "\<forall>j<k. fds p j \<noteq> None" and "fds p k = None" and "k < open_max h"
  shows "open_file h f p = (Some k, p\<lparr>fds := (fds p)(k \<mapsto> f)\<rparr>)"
  using lowest_free_found [of 0 k "fds p" "open_max h"] assms by (simp add: open_file_def)

lemma reopen_streams_from_1:
  assumes "openable h ''/dev/null''" and "fds p = [0 \<mapsto> f]" and "3 < open_max h"
  shows "reopen_streams h p = p\<lparr>fds := (fds p)(1 \<mapsto> ''/dev/null'', 2 \<mapsto> ''/dev/null'', 3 \<mapsto> ''/dev/null''),
    std_streams := [Some 1, Some 2, Some 3]\<rparr>"
proof -
  let ?n = "''/dev/null''"
  let ?p1 = "p\<lparr>fds := (fds p)(1 \<mapsto> ?n)\<rparr>" and ?p2 = "p\<lparr>fds := (fds p)(1 \<mapsto> ?n, 2 \<mapsto> ?n)\<rparr>"
  have 1: "open_file h ?n p = (Some 1, ?p1)"
    using assms by (intro open_file_first) auto
  have 2: "open_file h ?n ?p1 = (Some 2, ?p2)"
    using assms open_file_first [of h ?n 2 ?p1] by (simp add: numeral_2_eq_2 All_less_Suc)
  have 3: "open_file h ?n ?p2 = (Some 3, p\<lparr>fds := (fds p)(1 \<mapsto> ?n, 2 \<mapsto> ?n, 3 \<mapsto> ?n)\<rparr>)"
    using assms open_file_first [of h ?n 3 ?p2] by (simp add: eval_nat_numeral All_less_Suc)
  show ?thesis unfolding reopen_streams_def 1 2 3 Let_def prod.case by simp
qed

text \<open>The host lets the process come up: both forks answer in the child and the files open.\<close>

definition child_host :: "host \<Rightarrow> bool" where
  "child_host h \<longleftrightarrow> fork1 h = 0 \<and> 0 \<le> setsid_res h \<and> fork2 h = 0 \<and> 4 < open_max h
     \<and> openable h ''/dev/null'' \<and> openable h (''/'' @ lock_file)"

lemma daemonize_child:
  assumes "child_host h" and "fds p 0 = Some f" and "\<And>i. open_max h < i \<Longrightarrow> fds p i = None"
  shows "daemonize h stack name p =
    (if ''/'' @ lock_file \<in> set (locks h) then Inl (Exit EXIT_SUCCESS)
     else bindR (print_pid (pid h) stack) (\<lambda>str. Inr (p\<lparr>
       sigs := [(SIGHUP, Handler), (SIGTERM, Handler), (SIGCHLD, SIG_IGN)], umask := 0, cwd := ''/'',
       std_streams := [Some 1, Some 2, Some 3],
       fds := [0 \<mapsto> f, 1 \<mapsto> ''/dev/null'', 2 \<mapsto> ''/dev/null'', 3 \<mapsto> ''/dev/null'', 4 \<mapsto> ''/'' @ lock_file],
       lock_text := str, log_name := Some name\<rparr>)))"
proof -
  let ?n = "''/dev/null''"
  let ?l = "''/'' @ lock_file"
  let ?s = "[(SIGHUP, Handler), (SIGTERM, Handler), (SIGCHLD, SIG_IGN)]"
  let ?p1 = "p\<lparr>sigs := ?s, umask := 0, cwd := ''/'', fds := [0 \<mapsto> f]\<rparr>"
  let ?p2 = "p\<lparr>sigs := ?s, umask := 0, cwd := ''/'', fds := [0 \<mapsto> f, 1 \<mapsto> ?n, 2 \<mapsto> ?n, 3 \<mapsto> ?n],
    std_streams := [Some 1, Some 2, Some 3]\<rparr>"
  have c: "close_down (open_max h) (fds p) = [0 \<mapsto> f]"
    using assms(2,3) by (auto simp: close_down_eq fun_eq_iff)
  have r: "reopen_streams h ?p1 = ?p2"
    using assms(1) reopen_streams_from_1 [of h ?p1 f] by (simp add: child_host_def)
  have o: "open_file h ?l ?p2 = (Some 4, ?p2\<lparr>fds := (fds ?p2)(4 \<mapsto> ?l)\<rparr>)"
    using assms(1) by (intro open_file_first)
      (auto simp: child_host_def eval_nat_numeral All_less_Suc)
  have "lock_pid_file h stack ?p2 = (if ?l \<in> set (locks h) then Inl (Exit 0)
      else bindR (print_pid (pid h) stack) (\<lambda>str. Inr (?p2\<lparr>fds := (fds ?p2)(4 \<mapsto> ?l), lock_text := str\<rparr>)))"
    using o by (simp add: lock_pid_file_def Let_def)
  then show ?thesis
    using assms(1) c r by (simp add: daemonize_def child_host_def Let_def EXIT_SUCCESS_def bindR_assoc)
qed

section \<open>Properties\<close>

text \<open>A process as a shell starts it, and a host on which nobody holds the lock.\<close>

definition shell_proc :: proc where
  "shell_proc = \<lparr>fds = [0 \<mapsto> ''/dev/tty'', 1 \<mapsto> ''/dev/tty'', 2 \<mapsto> ''/dev/tty''], sigs = [], umask = 18, cwd = ''/home/'',
     std_streams = [Some 0, Some 1, Some 2], lock_text = [], log_name = None\<rparr>"

definition sample_host :: host where
  "sample_host = \<lparr>fork1 = 0, setsid_res = 77, fork2 = 0, open_max = 1024, openable = (\<lambda>f. True), locks = [], pid = 4242\<rparr>"

lemma sample_host_child: "child_host sample_host"
  by (simp add: child_host_def sample_host_def)

lemma sample_fds: "fds shell_proc 0 = Some ''/dev/tty''" "open_max sample_host < i \<Longrightarrow> fds shell_proc i = None"
  by (auto simp: shell_proc_def sample_host_def)

text \<open>
  C7: On a host where the forks and the files work, where nobody holds the lock, and for a
  process number of at most eight digits (the bound of the ten-byte buffer), daemonize returns:
  the process creates files with all permissions asked for, works in the root directory, handles SIGHUP and SIGTERM, ignores SIGCHLD, has its
  process number in the lock file, and logs under its name. Descriptor 0 is not closed: it is
  still the caller's, and the three streams stand on 1, 2 and 3, with stdin on the descriptor
  of the standard output.
\<close>

theorem daemonize_ok:
  assumes "child_host h" and "fds p 0 = Some f" and "\<And>i. open_max h < i \<Longrightarrow> fds p i = None"
    and "''/'' @ lock_file \<notin> set (locks h)" and "0 \<le> pid h" and "pid h < 10 ^ 8"
  shows "\<exists>p'. daemonize h stack name p = Inr p' \<and> umask p' = 0 \<and> cwd p' = ''/'' \<and> log_name p' = Some name
    \<and> set (sigs p') = {(SIGHUP, Handler), (SIGTERM, Handler), (SIGCHLD, SIG_IGN)}
    \<and> take (Suc (length (nat_digits (nat (pid h))))) (lock_text p') = nat_digits (nat (pid h)) @ [LF]
    \<and> std_streams p' = [Some 1, Some 2, Some 3] \<and> fds p' 0 = Some f
    \<and> fds p' 1 = Some ''/dev/null'' \<and> dom (fds p') = {0..4}"
proof -
  obtain str where str: "print_pid (pid h) stack = Inr str"
    and tx: "take (Suc (length (nat_digits (nat (pid h))))) str = nat_digits (nat (pid h)) @ [LF]"
    using print_pid_ok [OF assms(5,6)] by blast
  have "{0, Suc 0, 2, 3, 4} = {0..4::nat}" by auto
  then show ?thesis
    using daemonize_child [OF assms(1,2,3), of stack name] str tx assms(4) by auto
qed

theorem daemonize_ok_witness:
  "\<exists>p'. daemonize sample_host [] ''rtrd'' shell_proc = Inr p' \<and> cwd p' = ''/'' \<and> fds p' 0 = Some ''/dev/tty''"
proof -
  have "''/'' @ lock_file \<notin> set (locks sample_host)" "0 \<le> pid sample_host" "pid sample_host < 10 ^ 8"
    by (simp_all add: sample_host_def)
  from daemonize_ok [OF sample_host_child sample_fds(1) sample_fds(2) this] show ?thesis by blast
qed

text \<open>
  All daemons lock the same file: when one of them runs (it holds the lock), every later
  daemon, whatever its name, exits at its start, and with the status of success. The player
  client (rtr-jack) cannot run beside rtrd.
\<close>

lemma second_daemon_exits:
  assumes "child_host h" and "fds p 0 = Some f" and "\<And>i. open_max h < i \<Longrightarrow> fds p i = None"
    and "daemonize h stack ''rtrd'' p = Inr p'"
    and "child_host h2" and "fds q 0 = Some g" and "\<And>i. open_max h2 < i \<Longrightarrow> fds q i = None"
    and "locks h2 = the (fds p' 4) # locks h"
  shows "daemonize h2 stack2 name q = Inl (Exit EXIT_SUCCESS)"
proof -
  have "fds p' 4 = Some (''/'' @ lock_file)"
    using daemonize_child [OF assms(1,2,3), of stack "''rtrd''"] assms(4)
    by (cases "print_pid (pid h) stack") (auto split: if_splits)
  then show ?thesis
    using daemonize_child [OF assms(5,6,7), of stack2 name] assms(8) by simp
qed

end
