(* ===== verification/Rtrd_Main.thy ===== *)
theory Rtrd_Main
  imports Rtrd Sockets Daemonize
begin

text \<open>
  The daemon as a whole, \<^verbatim>\<open>main\<close> of \<^verbatim>\<open>src/src/rtrd.c\<close>: become a daemon, read the
  configuration, serve connections. A connection comes with the chunks its client sends and
  with what the stack held where the receive buffer is put.
\<close>

type_synonym session = "(rtrd_env \<times> string) list \<times> string"

definition rtrd_session :: "session \<Rightarrow> int \<Rightarrow> rtrd_state \<Rightarrow> rtrd_state" where
  "rtrd_session w fd s = server_connection (fst w) (snd w) s"

text \<open>The answers of the socket calls.\<close>

record net =
  n_socket :: "errno + int"
  n_bind :: "errno option"
  n_listen :: "errno option"
  n_close :: "int \<Rightarrow> errno option"
  n_accepts :: "(errno + int \<times> session) list"

definition rtrd_main :: "host \<Rightarrow> string \<Rightarrow> net \<Rightarrow> string option \<Rightarrow> proc \<Rightarrow> (sock_event list \<times> rtrd_state) result" where
  "rtrd_main h stack n config p =
     bindR (daemonize h stack ''rtrd'' p) (\<lambda>p.
     bindR (rtrd_init config) (\<lambda>s.
       case server_socket ''/tmp/rtrd'' (n_socket n) (n_bind n) (n_listen n) (n_close n)
              rtrd_session ended (n_accepts n) s of
         (ev, Inl e) \<Rightarrow> Inl e
       | (ev, Inr s') \<Rightarrow> case ended s' of Some e \<Rightarrow> Inl e | None \<Rightarrow> Inr (ev, s')))"

section \<open>The invariant of the daemon\<close>

definition daemon_inv :: "rtrd_state \<Rightarrow> bool" where
  "daemon_inv s \<longleftrightarrow> queue_ok s \<and> current_song s = last_file (sent s)"

lemma daemon_inv_ended [simp]: "daemon_inv (s\<lparr>ended := e\<rparr>) = daemon_inv s"
  by (simp add: daemon_inv_def queue_ok_def)

lemma daemon_inv_message: "daemon_inv s \<Longrightarrow> daemon_inv (handle_message env m s)"
  by (auto simp: daemon_inv_def handle_message_queue_ok handle_message_last_file)

lemma daemon_inv_chunk: "daemon_inv s \<Longrightarrow> daemon_inv (snd (snd (conn_chunk env chunk (buf, msg, s))))"
  by (auto simp: conn_chunk_def Let_def daemon_inv_message split: sum.split option.split)

lemma daemon_inv_loop: "daemon_inv (snd (snd c)) \<Longrightarrow> daemon_inv (snd (snd (conn_loop cs c)))"
proof (induction cs c rule: conn_loop.induct)
  case (2 env bytes ds buf msg s)
  then show ?case
    using daemon_inv_chunk [of s env "take BUF_SIZE bytes" buf msg] by (auto simp: conn_loop.simps)
qed simp

text \<open>The daemon's connection handler meets the contract of the socket server.\<close>

interpretation rtrd_srv: session_handler rtrd_session ended daemon_inv
proof unfold_locales
  fix s w fd
  assume "daemon_inv s"
  then show "daemon_inv (rtrd_session w fd s)"
    using daemon_inv_loop [of "(snd w, [], s)" "fst w"]
    by (simp add: rtrd_session_def server_connection_def)
qed

lemma daemon_inv_init: "rtrd_init config = Inr s \<Longrightarrow> daemon_inv s"
  by (auto simp: rtrd_init_def bindR_eq_Inr daemon_inv_def queue_ok_def last_file_def)

section \<open>Clients that frame their messages\<close>

text \<open>
  The connection of a client that ends every command with a newline and a NUL, one command (or
  one and bytes that are dropped) per \<^verbatim>\<open>recv\<close>, with the stack its receive buffer is put on.
\<close>

type_synonym framed_client = "string \<times> delivery list"

definition client :: "framed_client \<Rightarrow> session" where
  "client = (\<lambda>(stack, ds). (map delivered ds, stack))"

fun deliveries_of :: "(errno + int \<times> framed_client) list \<Rightarrow> delivery list" where
  "deliveries_of [] = []"
| "deliveries_of (Inl e # as) = deliveries_of as"
| "deliveries_of (Inr (fd, stack, ds) # as) = ds @ deliveries_of as"

definition as_accept :: "errno + int \<times> framed_client \<Rightarrow> errno + int \<times> session" where
  "as_accept = map_sum id (\<lambda>(fd, c). (fd, client c))"

lemma serve_clients:
  "list_all delivery_ok (deliveries_of as) \<Longrightarrow>
    serve rtrd_session ended (map as_accept as) s = handle_all (map first_command (deliveries_of as)) s"
proof (induction as arbitrary: s rule: deliveries_of.induct)
  case (3 fd stack ds as)
  have "rtrd_session (client (stack, ds)) fd s = handle_all (map first_command ds) s"
    using 3(2) conn_loop_framed [of ds stack s]
    by (simp add: rtrd_session_def client_def server_connection_def)
  with 3 show ?case
    by (cases "ended s") (simp_all add: as_accept_def handle_all_append)
qed (simp_all add: as_accept_def)

lemma rtrd_main_runs:
  assumes "rtrd_main h stack n config p = Inr (ev, s')"
  obtains q s fd where "daemonize h stack ''rtrd'' p = Inr q" and "rtrd_init config = Inr s"
    and "n_socket n = Inr fd" and "s' = serve rtrd_session ended (n_accepts n) s" and "ended s' = None"
    and "server_socket ''/tmp/rtrd'' (Inr fd) None None (n_close n) rtrd_session ended (n_accepts n) s = (ev, Inr s')"
proof -
  let ?srv = "server_socket ''/tmp/rtrd'' (n_socket n) (n_bind n) (n_listen n) (n_close n)
              rtrd_session ended (n_accepts n)"
  obtain q where q: "daemonize h stack ''rtrd'' p = Inr q"
    using assms by (auto simp: rtrd_main_def bindR_eq_Inr)
  with assms obtain s where s: "rtrd_init config = Inr s"
    by (auto simp: rtrd_main_def bindR_eq_Inr)
  obtain ev' r where r: "?srv s = (ev', r)" by fastforce
  have "?srv s = (ev, Inr s') \<and> ended s' = None"
    using assms q s r by (cases r) (auto simp: rtrd_main_def split: option.splits)
  then have srv: "?srv s = (ev, Inr s')" and e: "ended s' = None" by blast+
  from srv obtain fd where "n_socket n = Inr fd" "n_bind n = None" "n_listen n = None"
    by (auto simp: server_socket_def split: sum.splits option.splits)
  moreover from srv have "s' = serve rtrd_session ended (n_accepts n) s"
    by (auto simp: server_socket_def Let_def accept_loop_serve split: sum.splits option.splits)
  ultimately show ?thesis using that q s e srv by simp
qed

section \<open>Properties\<close>

text \<open>
  C9: The daemon as a whole, with clients that send one framed command of at most 126 bytes per
  \<^verbatim>\<open>recv\<close>: once it is up, the connections it accepted, the failed accepts, the stack contents
  and the bytes behind a framed command make no difference: its state is that of handling the first
  commands of all deliveries, one after the other in the order of the accepts, from the state the
  configuration gives.
\<close>

theorem rtrd_main_serves:
  assumes "n_accepts n = map as_accept as" and "list_all delivery_ok (deliveries_of as)"
    and "rtrd_main h stack n config p = Inr (ev, s')"
  shows "\<exists>s. rtrd_init config = Inr s \<and> s' = handle_all (map first_command (deliveries_of as)) s"
  using rtrd_main_runs [OF assms(3)] serve_clients [OF assms(2)] assms(1) by metis

definition sample_net :: "(errno + int \<times> session) list \<Rightarrow> net" where
  "sample_net as = \<lparr>n_socket = Inr 5, n_bind = None, n_listen = None, n_close = (\<lambda>_. None), n_accepts = as\<rparr>"

lemma sample_daemonize: "\<exists>q. daemonize sample_host [] ''rtrd'' shell_proc = Inr q"
proof -
  obtain str where "print_pid (pid sample_host) [] = Inr str"
    using print_pid_ok [of 4242 "[]"] by (auto simp: sample_host_def)
  then show ?thesis
    using daemonize_child [OF sample_host_child sample_fds, of "[]" "''rtrd''"]
    by (simp add: sample_host_def)
qed

lemma rtrd_init_empty: "rtrd_init (Some []) = Inr fresh"
  unfolding fresh_def by code_simp

definition sample_clients :: "(errno + int \<times> framed_client) list" where
  "sample_clients = [Inr (6, replicate BUF_SIZE LF, [(sample_env, ''PAUSE'', framed ''YES?'')]), Inl EINTR,
     Inr (6, replicate BUF_SIZE LF, [(sample_env, ''YES?'', [])])]"

lemma sample_run:
  "\<exists>ev s'. rtrd_main sample_host [] (sample_net (map as_accept sample_clients)) (Some []) shell_proc = Inr (ev, s')"
proof -
  obtain q where q: "daemonize sample_host [] ''rtrd'' shell_proc = Inr q" using sample_daemonize by blast
  have c: "list_all delivery_ok (deliveries_of sample_clients)" by code_simp
  have "ended (handle_all (map first_command (deliveries_of sample_clients)) fresh) = None" by code_simp
  then have e: "ended (serve rtrd_session ended (map as_accept sample_clients) fresh) = None"
    using serve_clients [OF c] by simp
  have "copy_path ''/tmp/rtrd'' = Inr ''/tmp/rtrd''" by code_simp
  then show ?thesis
    using q rtrd_init_empty e
    by (simp add: rtrd_main_def sample_net_def server_socket_def Let_def accept_loop_serve)
qed

theorem rtrd_main_serves_witness:
  "\<exists>ev s'. rtrd_main sample_host [] (sample_net (map as_accept sample_clients)) (Some []) shell_proc = Inr (ev, s')
     \<and> sent s' = [''ACK'', ''PAUSE'']"
proof -
  obtain ev s' where run: "rtrd_main sample_host [] (sample_net (map as_accept sample_clients)) (Some []) shell_proc = Inr (ev, s')"
    using sample_run by blast
  have c: "list_all delivery_ok (deliveries_of sample_clients)" by code_simp
  have a: "n_accepts (sample_net (map as_accept sample_clients)) = map as_accept sample_clients"
    by (simp add: sample_net_def)
  have "sent (handle_all (map first_command (deliveries_of sample_clients)) fresh) = [''ACK'', ''PAUSE'']" by code_simp
  with rtrd_main_serves [OF a c run] rtrd_init_empty have "sent s' = [''ACK'', ''PAUSE'']" by auto
  with run show ?thesis by blast
qed

text \<open>
  C10: Whatever clients send, framed or not, as long as the daemon runs the queue holds nothing or one
  of the four commands, the current song is the file the clients were told of last, and no
  connection is left open.
\<close>

theorem rtrd_main_invariant:
  assumes "rtrd_main h stack n config p = Inr (ev, s')"
  shows "queued_message s' \<in> {[], ''PAUSE'', ''PLAY'', ''NEXT'', ''STOP''} \<and> current_song s' = last_file (sent s')
    \<and> ended s' = None \<and> opened ev {} = {}"
proof -
  obtain s fd where "rtrd_init config = Inr s" and e: "ended s' = None"
    and "server_socket ''/tmp/rtrd'' (Inr fd) None None (n_close n) rtrd_session ended (n_accepts n) s = (ev, Inr s')"
    using rtrd_main_runs [OF assms] by metis
  note srv = this(3)
  have "daemon_inv s'" using \<open>rtrd_init config = Inr s\<close> srv rtrd_srv.server_socket_inv daemon_inv_init by blast
  moreover have "opened ev {} = {}" using srv e by (rule server_closes_connections)
  ultimately show ?thesis using e by (simp add: daemon_inv_def queue_ok_def)
qed

theorem rtrd_main_invariant_witness:
  "\<exists>ev s'. rtrd_main sample_host [] (sample_net (map as_accept sample_clients)) (Some []) shell_proc = Inr (ev, s')
     \<and> current_song s' = last_file (sent s') \<and> opened ev {} = {}"
proof -
  obtain ev s' where run: "rtrd_main sample_host [] (sample_net (map as_accept sample_clients)) (Some []) shell_proc = Inr (ev, s')"
    using sample_run by blast
  have "current_song s' = last_file (sent s')" "opened ev {} = {}"
    using rtrd_main_invariant [OF run] by (simp_all only: simp_thms)
  with run show ?thesis by (intro exI conjI)
qed

end
