(* ===== verification/Cli.thy ===== *)
theory Cli
  imports Prelude
begin

text \<open>
  The command line program, \<^verbatim>\<open>src/src/cli.c\<close>. The argument parser of the C library
  calls \<^verbatim>\<open>parse_opt\<close> once for each option, then once for each argument (it moves the
  arguments behind the options), and once at the end; \<^verbatim>\<open>arg_num\<close> counts the arguments
  seen before. \<^verbatim>\<open>argp_usage\<close> prints the usage and exits with status 64.
\<close>

datatype opt_key = Key_c | Key_j | ARGP_KEY_ARG | ARGP_KEY_END | Key_other int

record arguments =
  args :: "string option list"
  jack_ports :: string
  config_file :: string

definition ARGP_ERR_UNKNOWN :: int where "ARGP_ERR_UNKNOWN = 7"

definition argp_usage :: "unit result" where "argp_usage = Inl (Exit 64)"

text \<open>The branch of an argument, which the branch of \<^verbatim>\<open>-j\<close> falls into.\<close>

definition store_arg :: "string \<Rightarrow> int \<Rightarrow> arguments \<Rightarrow> arguments result" where
  "store_arg arg arg_num a =
     bindR (if arg_num \<ge> 1 then argp_usage else Inr ()) (\<lambda>_.
     bindR (arr_set (args a) arg_num (Some arg)) (\<lambda>xs. Inr (a\<lparr>args := xs\<rparr>)))"

definition parse_opt :: "opt_key \<Rightarrow> string \<Rightarrow> int \<Rightarrow> arguments \<Rightarrow> (int \<times> arguments) result" where
  "parse_opt key arg arg_num a =
     (case key of
        Key_c \<Rightarrow> Inr (0, a\<lparr>config_file := arg\<rparr>)
      | Key_j \<Rightarrow> bindR (store_arg arg arg_num (a\<lparr>jack_ports := arg\<rparr>)) (\<lambda>a. Inr (0, a))
      | ARGP_KEY_ARG \<Rightarrow> bindR (store_arg arg arg_num a) (\<lambda>a. Inr (0, a))
      | ARGP_KEY_END \<Rightarrow> bindR (if arg_num < 1 then argp_usage else Inr ()) (\<lambda>_. Inr (0, a))
      | Key_other k \<Rightarrow> Inr (ARGP_ERR_UNKNOWN, a))"

text \<open>The calls the parser of the C library makes: options, arguments, end.\<close>

definition parse_options :: "(opt_key \<times> string) list \<Rightarrow> arguments \<Rightarrow> arguments result" where
  "parse_options opts = foldR (\<lambda>(k, v) a. bindR (parse_opt k v 0 a) (\<lambda>(e, a). Inr a)) opts"

definition parse_args :: "string list \<Rightarrow> arguments \<Rightarrow> arguments result" where
  "parse_args vs = foldR (\<lambda>(i, v) a. bindR (parse_opt ARGP_KEY_ARG v i a) (\<lambda>(e, a). Inr a))
     (zip (map int [0..<length vs]) vs)"

definition argp_parse :: "(opt_key \<times> string) list \<Rightarrow> string list \<Rightarrow> arguments \<Rightarrow> arguments result" where
  "argp_parse opts vs a =
     bindR (parse_options opts a) (\<lambda>a.
     bindR (parse_args vs a) (\<lambda>a.
     bindR (parse_opt ARGP_KEY_END [] (int (length vs)) a) (\<lambda>(e, a). Inr a)))"

text \<open>
  \<^verbatim>\<open>main\<close>: the defaults, the parser, and the report, whose second argument is read from
  behind the one-element array.
\<close>

definition default_arguments :: arguments where
  "default_arguments = \<lparr>args = [None], jack_ports = ''^system:playback_[0-9]$'', config_file = ''~/readtheroomrc''\<rparr>"

definition cli_main :: "(opt_key \<times> string) list \<Rightarrow> string list \<Rightarrow> int result" where
  "cli_main opts vs =
     bindR (argp_parse opts vs default_arguments) (\<lambda>a.
     bindR (arr_get (args a) 0) (\<lambda>_.
     bindR (arr_get (args a) 1) (\<lambda>_. Inl (Exit EXIT_SUCCESS))))"

section \<open>Lemmas\<close>

definition is_opt :: "opt_key \<times> string \<Rightarrow> bool" where
  "is_opt p = (fst p = Key_c \<or> fst p = Key_j)"

definition last_value :: "opt_key \<Rightarrow> (opt_key \<times> string) list \<Rightarrow> string \<Rightarrow> string" where
  "last_value k opts d = last (d # map snd (filter (\<lambda>p. fst p = k) opts))"

lemma last_value_Cons: "last_value k ((j, v) # opts) d = last_value k opts (if j = k then v else d)"
  by (simp add: last_value_def)

lemma defaults [simp]: "jack_ports default_arguments = ''^system:playback_[0-9]$''"
  "config_file default_arguments = ''~/readtheroomrc''"
  by (simp_all add: default_arguments_def)

lemma store_arg_first: "length (args a) = 1 \<Longrightarrow> store_arg v 0 a = Inr (a\<lparr>args := [Some v]\<rparr>)"
  by (cases "args a") (simp_all add: store_arg_def arr_set_def)

lemma parse_options_run:
  assumes "list_all is_opt opts" and "length (args a) = 1"
  shows "\<exists>xs. length xs = 1 \<and> parse_options opts a =
    Inr \<lparr>args = xs, jack_ports = last_value Key_j opts (jack_ports a),
         config_file = last_value Key_c opts (config_file a)\<rparr>"
  using assms
proof (induction opts arbitrary: a)
  case Nil
  then show ?case by (auto simp: parse_options_def last_value_def)
next
  case (Cons p opts)
  obtain k v where p: "p = (k, v)" by fastforce
  let ?a' = "if k = Key_c then a\<lparr>config_file := v\<rparr> else a\<lparr>jack_ports := v, args := [Some v]\<rparr>"
  have step: "parse_options (p # opts) a = parse_options opts ?a'"
    using Cons.prems p by (auto simp: parse_options_def parse_opt_def is_opt_def store_arg_first)
  have "\<exists>xs. length xs = 1 \<and> parse_options opts ?a' =
    Inr \<lparr>args = xs, jack_ports = last_value Key_j opts (jack_ports ?a'),
         config_file = last_value Key_c opts (config_file ?a')\<rparr>"
    using Cons.prems p by (intro Cons.IH) auto
  moreover have "k \<noteq> Key_c \<Longrightarrow> k = Key_j" using Cons.prems p by (auto simp: is_opt_def)
  ultimately show ?case
    unfolding step by (auto simp: p last_value_Cons split: if_splits)
qed

lemma parse_args_one: "length (args a) = 1 \<Longrightarrow> parse_args [c] a = Inr (a\<lparr>args := [Some c]\<rparr>)"
  by (cases "args a") (auto simp: parse_args_def parse_opt_def store_arg_def arr_set_def)

lemma parse_args_many: "length (args a) = 1 \<Longrightarrow> parse_args (c # d # vs) a = Inl (Exit 64)"
proof -
  assume a: "length (args a) = 1"
  have "zip (map int [0..<length (c # d # vs)]) (c # d # vs) =
      (0, c) # (1, d) # zip (map int [2..<length (c # d # vs)]) vs"
    by (simp add: upt_conv_Cons del: upt_Suc) (simp add: numeral_2_eq_2)
  with a show ?thesis
    by (cases "args a") (simp_all add: parse_args_def parse_opt_def store_arg_def argp_usage_def arr_set_def)
qed

lemma argp_parse_cases:
  assumes "list_all is_opt opts"
  shows "argp_parse opts vs default_arguments =
    (case vs of [c] \<Rightarrow> Inr \<lparr>args = [Some c], jack_ports = last_value Key_j opts (jack_ports default_arguments),
         config_file = last_value Key_c opts (config_file default_arguments)\<rparr>
     | _ \<Rightarrow> Inl (Exit 64))"
proof -
  obtain xs where xs: "length xs = 1"
    and opt: "parse_options opts default_arguments =
      Inr \<lparr>args = xs, jack_ports = last_value Key_j opts (jack_ports default_arguments),
         config_file = last_value Key_c opts (config_file default_arguments)\<rparr>"
    using parse_options_run [OF assms, of default_arguments] by (auto simp: default_arguments_def)
  consider "vs = []" | c where "vs = [c]" | c d ws where "vs = c # d # ws"
    by (metis list.exhaust)
  then show ?thesis
  proof cases
    case 1
    then show ?thesis using opt by (simp add: argp_parse_def parse_args_def parse_opt_def argp_usage_def)
  next
    case 2
    then show ?thesis using opt xs by (simp add: argp_parse_def parse_args_one parse_opt_def)
  next
    case 3
    then show ?thesis using opt xs by (simp add: argp_parse_def parse_args_many)
  qed
qed

section \<open>Properties\<close>

text \<open>
  C8: The parser accepts exactly the command lines with one command. Although the branch of
  \<^verbatim>\<open>-j\<close> falls through and stores the pattern as the command, the command that comes
  later overwrites it: the result has the command, and the last value given to each option or
  its default. Every other command line ends in the usage message.
\<close>

theorem cli_parse:
  assumes "list_all is_opt opts"
  shows "argp_parse opts vs default_arguments =
    (case vs of [c] \<Rightarrow> Inr \<lparr>args = [Some c], jack_ports = last_value Key_j opts ''^system:playback_[0-9]$'',
         config_file = last_value Key_c opts ''~/readtheroomrc''\<rparr>
     | _ \<Rightarrow> Inl (Exit 64))"
  using argp_parse_cases [OF assms, of vs] unfolding defaults .

theorem cli_parse_witness:
  "argp_parse [(Key_j, ''system:.*'')] [''start''] default_arguments =
     Inr \<lparr>args = [Some ''start''], jack_ports = ''system:.*'', config_file = ''~/readtheroomrc''\<rparr>"
  using cli_parse [of "[(Key_j, ''system:.*'')]" "[''start'']"] by (simp add: is_opt_def last_value_def)

text \<open>
  The program never ends with success: a command line that is accepted makes it read the
  second element of the one-element array of commands, every other one ends in the usage.
\<close>

lemma cli_main_never_succeeds:
  assumes "list_all is_opt opts"
  shows "cli_main opts vs = Inl (if length vs = 1 then Undefined else Exit 64)"
  using argp_parse_cases [OF assms, of vs]
  by (auto simp: cli_main_def arr_get_def split: list.splits)

end
