(* ===== verification/RBTree.thy ===== *)
theory RBTree
  imports Prelude
begin

text \<open>
  The red-black tree of the music server, \<^verbatim>\<open>src/src/moc-2.5.0/rbtree.c\<close>. A node of
  the C tree is reached through its pointer and knows its parent; here it is a location: the
  subtree below it and the path from it to the root. Rotations, recolouring and the two
  repair loops work on locations as the code works on pointers. The null node
  \<^verbatim>\<open>rb_null\<close> is black and its links are null pointers, so looking at the colour
  of its children is \<open>Undefined\<close>.
\<close>

section \<open>Trees and locations\<close>

datatype rb_color = RB_RED | RB_BLACK

datatype 'a rb_node = rb_null | Node (n_color: rb_color) (n_data: 'a) (n_left: "'a rb_node") (n_right: "'a rb_node")

lemma not_black [simp]: "c \<noteq> RB_BLACK \<longleftrightarrow> c = RB_RED" "c \<noteq> RB_RED \<longleftrightarrow> c = RB_BLACK"
  by (cases c; simp)+

fun color :: "'a rb_node \<Rightarrow> rb_color" where
  "color rb_null = RB_BLACK"
| "color (Node c d l r) = c"

fun paint :: "rb_color \<Rightarrow> 'a rb_node \<Rightarrow> 'a rb_node" where
  "paint c rb_null = rb_null"
| "paint c (Node c' d l r) = Node c d l r"

text \<open>
  A step of a path: the parent's colour and data and the parent's other child; \<open>From_left\<close>
  says that the node is its parent's left child.
\<close>

datatype 'a step = From_left rb_color 'a "'a rb_node" | From_right rb_color 'a "'a rb_node"

type_synonym 'a path = "'a step list"
type_synonym 'a location = "'a rb_node \<times> 'a path"

fun up :: "'a rb_node \<Rightarrow> 'a step \<Rightarrow> 'a rb_node" where
  "up t (From_left c d r) = Node c d t r"
| "up t (From_right c d l) = Node c d l t"

fun root_of :: "'a rb_node \<Rightarrow> 'a path \<Rightarrow> 'a rb_node" where
  "root_of t [] = t"
| "root_of t (s # p) = root_of (up t s) p"

fun step_color :: "'a step \<Rightarrow> rb_color" where
  "step_color (From_left c d r) = c"
| "step_color (From_right c d l) = c"

text \<open>The colour of the parent; the parent of the root is the null node.\<close>

fun parent_color :: "'a path \<Rightarrow> rb_color" where
  "parent_color [] = RB_BLACK"
| "parent_color (s # p) = step_color s"

section \<open>Rotations\<close>

fun rb_left_rotate :: "'a rb_node \<Rightarrow> 'a rb_node result" where
  "rb_left_rotate (Node c x a (Node d y b e)) = Inr (Node d y (Node c x a b) e)"
| "rb_left_rotate (Node c x a rb_null) = Inl Assert"
| "rb_left_rotate rb_null = Inl Undefined"

fun rb_right_rotate :: "'a rb_node \<Rightarrow> 'a rb_node result" where
  "rb_right_rotate (Node c x (Node d y a b) e) = Inr (Node d y a (Node c x b e))"
| "rb_right_rotate (Node c x rb_null e) = Inl Assert"
| "rb_right_rotate rb_null = Inl Undefined"

section \<open>Insertion\<close>

text \<open>
  The repair after an insertion. When the parent is red and has no parent itself, the code
  follows the null links of \<^verbatim>\<open>rb_null\<close>.
\<close>

fun rb_insert_fixup :: "'a rb_node \<Rightarrow> 'a path \<Rightarrow> 'a rb_node result" where
  "rb_insert_fixup z [] = Inr (paint RB_BLACK z)"
| "rb_insert_fixup z [s] =
     (if step_color s = RB_RED then Inl Undefined else Inr (paint RB_BLACK (up z s)))"
| "rb_insert_fixup z (s # From_left gc g y # p) =
     (if step_color s = RB_BLACK then Inr (paint RB_BLACK (root_of z (s # From_left gc g y # p)))
      else if color y = RB_RED then
        rb_insert_fixup (Node RB_RED g (paint RB_BLACK (up z s)) (paint RB_BLACK y)) p
      else
        bindR (case s of From_right _ _ _ \<Rightarrow> rb_left_rotate (up z s) | From_left _ _ _ \<Rightarrow> Inr (up z s)) (\<lambda>t.
        bindR (rb_right_rotate (Node RB_RED g (paint RB_BLACK t) y)) (\<lambda>t.
        Inr (paint RB_BLACK (root_of t p)))))"
| "rb_insert_fixup z (s # From_right gc g y # p) =
     (if step_color s = RB_BLACK then Inr (paint RB_BLACK (root_of z (s # From_right gc g y # p)))
      else if color y = RB_RED then
        rb_insert_fixup (Node RB_RED g (paint RB_BLACK y) (paint RB_BLACK (up z s))) p
      else
        bindR (case s of From_left _ _ _ \<Rightarrow> rb_right_rotate (up z s) | From_right _ _ _ \<Rightarrow> Inr (up z s)) (\<lambda>t.
        bindR (rb_left_rotate (Node RB_RED g y (paint RB_BLACK t))) (\<lambda>t.
        Inr (paint RB_BLACK (root_of t p)))))"

text \<open>The descent that insertion and search share: left for negative, right for positive.\<close>

fun descend :: "('a \<Rightarrow> int) \<Rightarrow> 'a rb_node \<Rightarrow> 'a path \<Rightarrow> 'a location" where
  "descend cmp rb_null p = (rb_null, p)"
| "descend cmp (Node c d l r) p =
     (if cmp d < 0 then descend cmp l (From_left c d r # p)
      else if cmp d > 0 then descend cmp r (From_right c d l # p)
      else (Node c d l r, p))"

definition rb_insert :: "('a \<Rightarrow> 'a \<Rightarrow> int) \<Rightarrow> 'a \<Rightarrow> 'a rb_node \<Rightarrow> 'a rb_node result" where
  "rb_insert cmp_func d t =
     (case descend (cmp_func d) t [] of
        (Node _ _ _ _, p) \<Rightarrow> Inl Abort
      | (rb_null, p) \<Rightarrow> rb_insert_fixup (Node RB_RED d rb_null rb_null) p)"

section \<open>Search and traversal\<close>

definition rb_search :: "('k \<Rightarrow> 'a \<Rightarrow> int) \<Rightarrow> 'k \<Rightarrow> 'a rb_node \<Rightarrow> 'a location" where
  "rb_search cmp_key_func key t = descend (cmp_key_func key) t []"

definition rb_is_null :: "'a location \<Rightarrow> bool" where
  "rb_is_null x = (fst x = rb_null)"

fun rb_min_internal :: "'a rb_node \<Rightarrow> 'a path \<Rightarrow> 'a location" where
  "rb_min_internal rb_null p = (rb_null, p)"
| "rb_min_internal (Node c d rb_null r) p = (Node c d rb_null r, p)"
| "rb_min_internal (Node c d (Node c' d' l' r') r) p = rb_min_internal (Node c' d' l' r') (From_left c d r # p)"

definition rb_min :: "'a rb_node \<Rightarrow> 'a location" where
  "rb_min t = rb_min_internal t []"

fun climb :: "'a rb_node \<Rightarrow> 'a path \<Rightarrow> 'a location" where
  "climb x [] = (rb_null, [])"
| "climb x (From_right c d l # p) = climb (Node c d l x) p"
| "climb x (From_left c d r # p) = (Node c d x r, p)"

fun rb_next :: "'a location \<Rightarrow> 'a location" where
  "rb_next (Node c d l rb_null, p) = climb (Node c d l rb_null) p"
| "rb_next (Node c d l (Node c' d' l' r'), p) = rb_min_internal (Node c' d' l' r') (From_right c d l # p)"
| "rb_next (rb_null, p) = (rb_null, p)"

section \<open>Deletion\<close>

text \<open>
  One round of the repair after a deletion, for the sibling \<open>w\<close> of a left child; the result is
  the new subtree of the parent and whether the loop goes on above it. The first case of the code
  (a red sibling) rotates the parent down and goes on with the new sibling.
\<close>

definition fixup_left :: "'a rb_node \<Rightarrow> rb_color \<Rightarrow> 'a \<Rightarrow> 'a rb_node \<Rightarrow> ('a rb_node \<times> bool) result" where
  "fixup_left x pc d w =
     (case w of
        rb_null \<Rightarrow> Inl Undefined
      | Node wc wd wl wr \<Rightarrow>
          if color wl = RB_BLACK \<and> color wr = RB_BLACK then Inr (Node pc d x (Node RB_RED wd wl wr), True)
          else
            bindR (if color wr = RB_BLACK then rb_right_rotate (Node RB_RED wd (paint RB_BLACK wl) wr)
                   else Inr w) (\<lambda>w.
            bindR (case w of rb_null \<Rightarrow> Inl Undefined
                   | Node wc wd wl wr \<Rightarrow> rb_left_rotate (Node RB_BLACK d x (Node pc wd wl (paint RB_BLACK wr)))) (\<lambda>t.
            Inr (t, False))))"

definition fixup_right :: "'a rb_node \<Rightarrow> rb_color \<Rightarrow> 'a \<Rightarrow> 'a rb_node \<Rightarrow> ('a rb_node \<times> bool) result" where
  "fixup_right x pc d w =
     (case w of
        rb_null \<Rightarrow> Inl Undefined
      | Node wc wd wl wr \<Rightarrow>
          if color wr = RB_BLACK \<and> color wl = RB_BLACK then Inr (Node pc d (Node RB_RED wd wl wr) x, True)
          else
            bindR (if color wl = RB_BLACK then rb_left_rotate (Node RB_RED wd wl (paint RB_BLACK wr))
                   else Inr w) (\<lambda>w.
            bindR (case w of rb_null \<Rightarrow> Inl Undefined
                   | Node wc wd wl wr \<Rightarrow> rb_right_rotate (Node RB_BLACK d (Node pc wd (paint RB_BLACK wl) wr) x)) (\<lambda>t.
            Inr (t, False))))"

lemma fixup_left_again: "fixup_left x pc d w = Inr (t, True) \<Longrightarrow> color t = pc"
  by (auto simp: fixup_left_def bindR_eq_Inr split: rb_node.splits if_splits)

lemma fixup_right_again: "fixup_right x pc d w = Inr (t, True) \<Longrightarrow> color t = pc"
  by (auto simp: fixup_right_def bindR_eq_Inr split: rb_node.splits if_splits)

text \<open>Each round goes up one step, or stays where it is with a red node, which ends the loop.\<close>

function rb_delete_fixup :: "'a rb_node \<Rightarrow> 'a path \<Rightarrow> 'a rb_node result" where
  "rb_delete_fixup x [] = Inr (paint RB_BLACK x)"
| "rb_delete_fixup x (From_left pc d w # p) =
     (if color x = RB_RED then Inr (root_of (paint RB_BLACK x) (From_left pc d w # p))
      else case w of
        Node RB_RED wd wl wr \<Rightarrow>
          bindR (fixup_left x RB_RED d wl) (\<lambda>(t, again).
            if again then rb_delete_fixup t (From_left RB_BLACK wd wr # p)
            else Inr (paint RB_BLACK (root_of t (From_left RB_BLACK wd wr # p))))
      | _ \<Rightarrow>
          bindR (fixup_left x pc d w) (\<lambda>(t, again).
            if again then rb_delete_fixup t p else Inr (paint RB_BLACK (root_of t p))))"
| "rb_delete_fixup x (From_right pc d w # p) =
     (if color x = RB_RED then Inr (root_of (paint RB_BLACK x) (From_right pc d w # p))
      else case w of
        Node RB_RED wd wl wr \<Rightarrow>
          bindR (fixup_right x RB_RED d wr) (\<lambda>(t, again).
            if again then rb_delete_fixup t (From_right RB_BLACK wd wl # p)
            else Inr (paint RB_BLACK (root_of t (From_right RB_BLACK wd wl # p))))
      | _ \<Rightarrow>
          bindR (fixup_right x pc d w) (\<lambda>(t, again).
            if again then rb_delete_fixup t p else Inr (paint RB_BLACK (root_of t p))))"
  by pat_completeness auto


termination
  by (relation "measure (\<lambda>(x, p). 2 * length p + (if color x = RB_BLACK then 1 else 0))")
    (auto dest: fixup_left_again fixup_right_again)

text \<open>
  Deletion of the node with the given key. The node that is taken out of the tree, \<open>y\<close>, is the
  one found, or its successor, whose data moves up.
\<close>

definition rb_delete :: "('k \<Rightarrow> 'a \<Rightarrow> int) \<Rightarrow> 'k \<Rightarrow> 'a rb_node \<Rightarrow> 'a rb_node result" where
  "rb_delete cmp_key_func key t =
     (case rb_search cmp_key_func key t of
        (rb_null, p) \<Rightarrow> Inr t
      | (Node c d l r, p) \<Rightarrow>
          let (y, yp) =
                (if l = rb_null \<or> r = rb_null then (Node c d l r, p)
                 else let (y, yp) = rb_next (Node c d l r, p) in
                   (y, yp[length yp - Suc (length p) := From_right c (n_data y) l]));
              x = (if n_left y \<noteq> rb_null then n_left y else n_right y)
          in if color y = RB_BLACK then rb_delete_fixup x yp else Inr (root_of x yp))"

definition rb_init_tree :: "'a rb_node" where
  "rb_init_tree = rb_null"

definition rb_clear :: "'a rb_node \<Rightarrow> 'a rb_node" where
  "rb_clear t = rb_null"

section \<open>Contents and shape\<close>

fun inorder :: "'a rb_node \<Rightarrow> 'a list" where
  "inorder rb_null = []"
| "inorder (Node c d l r) = inorder l @ d # inorder r"

fun before :: "'a path \<Rightarrow> 'a list" where
  "before [] = []"
| "before (From_left c d r # p) = before p"
| "before (From_right c d l # p) = before p @ inorder l @ [d]"

fun behind :: "'a path \<Rightarrow> 'a list" where
  "behind [] = []"
| "behind (From_left c d r # p) = d # inorder r @ behind p"
| "behind (From_right c d l # p) = behind p"

fun bheight :: "'a rb_node \<Rightarrow> nat" where
  "bheight rb_null = 0"
| "bheight (Node c d l r) = (if c = RB_BLACK then Suc (bheight l) else bheight l)"

text \<open>No red node has a red child, and all paths down to the null nodes have as many black nodes.\<close>

fun invc :: "'a rb_node \<Rightarrow> bool" where
  "invc rb_null = True"
| "invc (Node c d l r) = ((c = RB_RED \<longrightarrow> color l = RB_BLACK \<and> color r = RB_BLACK) \<and> invc l \<and> invc r)"

fun invh :: "'a rb_node \<Rightarrow> bool" where
  "invh rb_null = True"
| "invh (Node c d l r) = (bheight l = bheight r \<and> invh l \<and> invh r)"

definition rb_shape :: "'a rb_node \<Rightarrow> bool" where
  "rb_shape t \<longleftrightarrow> color t = RB_BLACK \<and> invc t \<and> invh t"

text \<open>The same for a path whose hole takes a tree of black height \<open>h\<close>; the root is not red.\<close>

fun path_ok :: "nat \<Rightarrow> 'a path \<Rightarrow> bool" where
  "path_ok h [] = True"
| "path_ok h (From_left c d r # p) =
     (invc r \<and> invh r \<and> bheight r = h \<and> (c = RB_RED \<longrightarrow> color r = RB_BLACK \<and> p \<noteq> [] \<and> parent_color p = RB_BLACK)
      \<and> path_ok (if c = RB_BLACK then Suc h else h) p)"
| "path_ok h (From_right c d l # p) =
     (invc l \<and> invh l \<and> bheight l = h \<and> (c = RB_RED \<longrightarrow> color l = RB_BLACK \<and> p \<noteq> [] \<and> parent_color p = RB_BLACK)
      \<and> path_ok (if c = RB_BLACK then Suc h else h) p)"

lemma color_paint [simp]: "color (paint c t) = (if t = rb_null then RB_BLACK else c)"
  by (cases t) auto

lemma inorder_paint [simp]: "inorder (paint c t) = inorder t"
  by (cases t) auto

lemma invc_paint [simp]: "invc t \<Longrightarrow> invc (paint RB_BLACK t)"
  by (cases t) auto

lemma invh_paint [simp]: "invh (paint c t) = invh t"
  by (cases t) auto

lemma paint_black_id: "color t = RB_BLACK \<Longrightarrow> paint RB_BLACK t = t"
  by (cases t) auto

lemma bheight_paint_black: "bheight (paint RB_BLACK t) = (if color t = RB_RED then Suc (bheight t) else bheight t)"
  by (cases t) auto

lemma inorder_up [simp]: "inorder (up t s) = before [s] @ inorder t @ behind [s]"
  by (cases s) auto

lemma inorder_root_of: "inorder (root_of t p) = before p @ inorder t @ behind p"
proof (induction p arbitrary: t)
  case (Cons s p)
  then show ?case by (cases s) auto
qed simp

lemma root_of_shape:
  assumes "path_ok (bheight t) p" and "invc t" and "invh t"
    and "color t = RB_RED \<longrightarrow> p \<noteq> [] \<and> parent_color p = RB_BLACK"
  shows "rb_shape (root_of t p)"
  using assms
proof (induction p arbitrary: t)
  case Nil
  then show ?case by (cases "color t") (auto simp: rb_shape_def)
next
  case (Cons s p)
  then show ?case
    by (cases s) (auto intro!: Cons.IH)
qed


section \<open>The repair after an insertion\<close>

lemma root_of_black:
  assumes "path_ok (bheight t) p" and "invc t" and "invh t" and "color t = RB_BLACK"
  shows "rb_shape (paint RB_BLACK (root_of t p))" and "paint RB_BLACK (root_of t p) = root_of t p"
  using root_of_shape [OF assms(1,2,3)] assms(4) by (auto simp: rb_shape_def paint_black_id)

lemma rb_insert_fixup_ok:
  assumes "color z = RB_RED" and "invc z" and "invh z" and "path_ok (bheight z) p"
  shows "\<exists>t. rb_insert_fixup z p = Inr t \<and> rb_shape t \<and> inorder t = before p @ inorder z @ behind p"
  using assms
proof (induction z p rule: rb_insert_fixup.induct)
  case (1 z)
  then show ?case by (cases z) (auto simp: rb_shape_def)
next
  case (2 z s)
  have "rb_shape (root_of z [s])"
    using 2 by (intro root_of_shape) (cases s; auto)+
  then show ?case using 2 by (cases s) (auto simp: rb_shape_def)
next
  case (3 z s gc g y p)
  obtain c d l r where z: "z = Node c d l r" using 3(2) by (cases z) auto
  show ?case
  proof (cases "step_color s")
    case RB_BLACK
    then have "rb_shape (root_of z (s # From_left gc g y # p))"
      using 3 by (intro root_of_shape) (cases s; auto)+
    then show ?thesis using RB_BLACK inorder_root_of [of z "s # From_left gc g y # p"] by (auto simp: rb_shape_def)
  next
    case RB_RED
    show ?thesis
    proof (cases "color y")
      case RB_BLACK
      then show ?thesis
        using 3(2-) \<open>step_color s = RB_RED\<close> z
        by (cases s) (auto simp: inorder_root_of intro!: root_of_black(1))
    next
      case RB_RED
      then show ?thesis
        using 3 \<open>step_color s = RB_RED\<close> z
        by (cases s; cases y) (auto simp: bheight_paint_black)
    qed
  qed
next
  case (4 z s gc g y p)
  obtain c d l r where z: "z = Node c d l r" using 4(2) by (cases z) auto
  show ?case
  proof (cases "step_color s")
    case RB_BLACK
    then have "rb_shape (root_of z (s # From_right gc g y # p))"
      using 4 by (intro root_of_shape) (cases s; auto)+
    then show ?thesis using RB_BLACK inorder_root_of [of z "s # From_right gc g y # p"] by (auto simp: rb_shape_def)
  next
    case RB_RED
    show ?thesis
    proof (cases "color y")
      case RB_BLACK
      then show ?thesis
        using 4(2-) \<open>step_color s = RB_RED\<close> z
        by (cases s) (auto simp: inorder_root_of intro!: root_of_black(1))
    next
      case RB_RED
      then show ?thesis
        using 4 \<open>step_color s = RB_RED\<close> z
        by (cases s; cases y) (auto simp: bheight_paint_black)
    qed
  qed
qed

section \<open>The repair after a deletion\<close>

text \<open>A subtree that lacks one black node, beside a sibling that does not.\<close>

definition fixed :: "'a rb_node \<Rightarrow> rb_color \<Rightarrow> 'a rb_node \<Rightarrow> bool \<Rightarrow> bool" where
  "fixed x pc t again \<longleftrightarrow> invh t \<and> color t = pc \<and> t \<noteq> rb_null \<and> invc (paint RB_BLACK t) \<and> (\<not> again \<longrightarrow> invc t)
     \<and> bheight t = (if pc = RB_BLACK then Suc (bheight x) else bheight x) + (if again then 0 else 1)"

lemma black_Node: "color w = RB_BLACK \<Longrightarrow> bheight w = Suc h \<Longrightarrow> \<exists>d l r. w = Node RB_BLACK d l r \<and> bheight l = h"
  by (cases w) auto

lemma fixup_left_ok:
  assumes "color x = RB_BLACK" "invc x" "invh x" and "color w = RB_BLACK" "invc w" "invh w"
    and "bheight w = Suc (bheight x)"
  shows "\<exists>t again. fixup_left x pc d w = Inr (t, again) \<and> fixed x pc t again
    \<and> inorder t = inorder x @ d # inorder w"
proof -
  obtain wd wl wr where w: "w = Node RB_BLACK wd wl wr" "bheight wl = bheight x"
    using black_Node [OF assms(4,7)] by blast
  show ?thesis
  proof (cases "color wr")
    case RB_RED
    then obtain d' l' r' where "wr = Node RB_RED d' l' r'" by (cases wr) auto
    then show ?thesis
      using assms w by (simp add: fixup_left_def fixed_def) blast
  next
    case RB_BLACK
    show ?thesis
    proof (cases "color wl")
      case RB_RED
      then obtain d' l' r' where "wl = Node RB_RED d' l' r'" by (cases wl) auto
      then show ?thesis
        using assms w \<open>color wr = RB_BLACK\<close> by (simp add: fixup_left_def fixed_def) blast
    next
      case RB_BLACK
      then show ?thesis
        using assms w \<open>color wr = RB_BLACK\<close> by (simp add: fixup_left_def fixed_def) blast
    qed
  qed
qed

lemma fixup_right_ok:
  assumes "color x = RB_BLACK" "invc x" "invh x" and "color w = RB_BLACK" "invc w" "invh w"
    and "bheight w = Suc (bheight x)"
  shows "\<exists>t again. fixup_right x pc d w = Inr (t, again) \<and> fixed x pc t again
    \<and> inorder t = inorder w @ d # inorder x"
proof -
  obtain wd wl wr where w: "w = Node RB_BLACK wd wl wr" "bheight wl = bheight x"
    using black_Node [OF assms(4,7)] by blast
  show ?thesis
  proof (cases "color wl")
    case RB_RED
    then obtain d' l' r' where "wl = Node RB_RED d' l' r'" by (cases wl) auto
    then show ?thesis
      using assms w by (simp add: fixup_right_def fixed_def) blast
  next
    case RB_BLACK
    show ?thesis
    proof (cases "color wr")
      case RB_RED
      then obtain d' l' r' where "wr = Node RB_RED d' l' r'" by (cases wr) auto
      then show ?thesis
        using assms w \<open>color wl = RB_BLACK\<close> by (simp add: fixup_right_def fixed_def) blast
    next
      case RB_BLACK
      then show ?thesis
        using assms w \<open>color wl = RB_BLACK\<close> by (simp add: fixup_right_def fixed_def) blast
    qed
  qed
qed

definition fixup_post :: "'a rb_node \<Rightarrow> 'a path \<Rightarrow> bool" where
  "fixup_post x p \<longleftrightarrow> (\<exists>t. rb_delete_fixup x p = Inr t \<and> rb_shape t \<and> inorder t = before p @ inorder x @ behind p)"

lemma fixup_post_red:
  assumes "color x = RB_RED" "invc (paint RB_BLACK x)" "invh x" "path_ok (Suc (bheight x)) p"
  shows "fixup_post x p"
proof -
  have "rb_shape (root_of (paint RB_BLACK x) p)"
    using assms by (intro root_of_shape) (auto simp: bheight_paint_black)
  moreover have "rb_delete_fixup x p = Inr (root_of (paint RB_BLACK x) p)"
    using assms(1) by (cases "(x, p)" rule: rb_delete_fixup.cases) simp_all
  ultimately show ?thesis by (auto simp: fixup_post_def inorder_root_of)
qed

lemma fixup_done:
  assumes "fixed x pc t False" "path_ok (if pc = RB_BLACK then Suc (Suc (bheight x)) else Suc (bheight x)) p"
    and "pc = RB_RED \<longrightarrow> p \<noteq> [] \<and> parent_color p = RB_BLACK"
  shows "rb_shape (paint RB_BLACK (root_of t p))"
proof -
  have "rb_shape (root_of t p)"
    using assms by (intro root_of_shape) (auto simp: fixed_def split: if_splits)
  then show ?thesis by (simp add: rb_shape_def paint_black_id)
qed

lemma fixup_post_left:
  assumes IH: "\<And>t. invc (paint RB_BLACK t) \<Longrightarrow> invh t \<Longrightarrow> path_ok (Suc (bheight t)) p \<Longrightarrow> fixup_post t p"
    and c: "invc (paint RB_BLACK x)" and h: "invh x" and p: "path_ok (Suc (bheight x)) (From_left pc d w # p)"
  shows "fixup_post x (From_left pc d w # p)"
proof (cases "color x")
  case RB_RED
  with c h p show ?thesis by (intro fixup_post_red)
next
  case RB_BLACK
  then have x: "invc x" using c by (simp add: paint_black_id)
  have w: "invc w" "invh w" "bheight w = Suc (bheight x)" using p by simp_all
  show ?thesis
  proof (cases "color w")
    case BW: RB_BLACK
    obtain wd wl wr where wn: "w = Node RB_BLACK wd wl wr" using black_Node [OF BW w(3)] by auto
    obtain t b where f: "fixup_left x pc d w = Inr (t, b)" and t: "fixed x pc t b"
      and i: "inorder t = inorder x @ d # inorder w"
      using fixup_left_ok [OF RB_BLACK x h BW w, of pc d] by blast
    have "b \<Longrightarrow> fixup_post t p"
      using p t by (intro IH) (auto simp: fixed_def split: if_splits)
    moreover have "\<not> b \<Longrightarrow> rb_shape (paint RB_BLACK (root_of t p))"
      using t p by (intro fixup_done [of x pc]) auto
    ultimately show ?thesis
      using f wn RB_BLACK i by (cases b) (auto simp: fixup_post_def inorder_root_of)
  next
    case RW: RB_RED
    then obtain wd wl wr where wn: "w = Node RB_RED wd wl wr" by (cases w) auto
    let ?p = "From_left RB_BLACK wd wr # p"
    obtain t b where f: "fixup_left x RB_RED d wl = Inr (t, b)" and t: "fixed x RB_RED t b"
      and i: "inorder t = inorder x @ d # inorder wl"
      using fixup_left_ok [OF RB_BLACK x h, of wl RB_RED d] w wn by auto
    have p': "path_ok (Suc (bheight x)) ?p" using p wn by (auto split: if_splits)
    have "b \<Longrightarrow> fixup_post t ?p"
      using t p' by (intro fixup_post_red) (auto simp: fixed_def)
    moreover have "\<not> b \<Longrightarrow> rb_shape (paint RB_BLACK (root_of t ?p))"
      using t p' by (intro fixup_done [of x RB_RED]) auto
    ultimately show ?thesis
      using f wn RB_BLACK i by (cases b) (auto simp: fixup_post_def inorder_root_of)
  qed
qed

lemma fixup_post_right:
  assumes IH: "\<And>t. invc (paint RB_BLACK t) \<Longrightarrow> invh t \<Longrightarrow> path_ok (Suc (bheight t)) p \<Longrightarrow> fixup_post t p"
    and c: "invc (paint RB_BLACK x)" and h: "invh x" and p: "path_ok (Suc (bheight x)) (From_right pc d w # p)"
  shows "fixup_post x (From_right pc d w # p)"
proof (cases "color x")
  case RB_RED
  with c h p show ?thesis by (intro fixup_post_red)
next
  case RB_BLACK
  then have x: "invc x" using c by (simp add: paint_black_id)
  have w: "invc w" "invh w" "bheight w = Suc (bheight x)" using p by simp_all
  show ?thesis
  proof (cases "color w")
    case BW: RB_BLACK
    obtain wd wl wr where wn: "w = Node RB_BLACK wd wl wr" using black_Node [OF BW w(3)] by auto
    obtain t b where f: "fixup_right x pc d w = Inr (t, b)" and t: "fixed x pc t b"
      and i: "inorder t = inorder w @ d # inorder x"
      using fixup_right_ok [OF RB_BLACK x h BW w, of pc d] by blast
    have "b \<Longrightarrow> fixup_post t p"
      using p t by (intro IH) (auto simp: fixed_def split: if_splits)
    moreover have "\<not> b \<Longrightarrow> rb_shape (paint RB_BLACK (root_of t p))"
      using t p by (intro fixup_done [of x pc]) auto
    ultimately show ?thesis
      using f wn RB_BLACK i by (cases b) (auto simp: fixup_post_def inorder_root_of)
  next
    case RW: RB_RED
    then obtain wd wl wr where wn: "w = Node RB_RED wd wl wr" by (cases w) auto
    let ?p = "From_right RB_BLACK wd wl # p"
    obtain t b where f: "fixup_right x RB_RED d wr = Inr (t, b)" and t: "fixed x RB_RED t b"
      and i: "inorder t = inorder wr @ d # inorder x"
      using fixup_right_ok [OF RB_BLACK x h, of wr RB_RED d] w wn by auto
    have p': "path_ok (Suc (bheight x)) ?p" using p wn by (auto split: if_splits)
    have "b \<Longrightarrow> fixup_post t ?p"
      using t p' by (intro fixup_post_red) (auto simp: fixed_def)
    moreover have "\<not> b \<Longrightarrow> rb_shape (paint RB_BLACK (root_of t ?p))"
      using t p' by (intro fixup_done [of x RB_RED]) auto
    ultimately show ?thesis
      using f wn RB_BLACK i by (cases b) (auto simp: fixup_post_def inorder_root_of)
  qed
qed

lemma rb_delete_fixup_ok:
  "invc (paint RB_BLACK x) \<Longrightarrow> invh x \<Longrightarrow> path_ok (Suc (bheight x)) p \<Longrightarrow> fixup_post x p"
proof (induction p arbitrary: x)
  case Nil
  then show ?case by (auto simp: fixup_post_def rb_shape_def)
next
  case (Cons s p)
  then show ?case by (cases s) (auto intro: fixup_post_left fixup_post_right simp del: path_ok.simps)
qed

section \<open>Descent and traversal\<close>

lemma descend_root: "descend cmp t p = (u, q) \<Longrightarrow> root_of u q = root_of t p"
  by (induction cmp t p rule: descend.induct) (auto split: if_splits)

lemma descend_path_ok:
  "descend cmp t p = (u, q) \<Longrightarrow> invc t \<Longrightarrow> invh t \<Longrightarrow> path_ok (bheight t) p \<Longrightarrow>
   (color t = RB_RED \<longrightarrow> p \<noteq> [] \<and> parent_color p = RB_BLACK) \<Longrightarrow>
   invc u \<and> invh u \<and> path_ok (bheight u) q \<and> (color u = RB_RED \<longrightarrow> q \<noteq> [] \<and> parent_color q = RB_BLACK)"
proof (induction cmp t p rule: descend.induct)
  case (2 cmp c d l r p)
  then show ?case by (cases c) (auto split: if_splits)
qed auto

lemma descend_length: "descend cmp t p = (u, q) \<Longrightarrow> length p \<le> length q"
  by (induction cmp t p rule: descend.induct) (auto split: if_splits)

lemma min_internal_root: "rb_min_internal t p = (u, q) \<Longrightarrow> root_of u q = root_of t p"
  by (induction t p rule: rb_min_internal.induct) auto

lemma min_internal_not_null: "rb_min_internal (Node c d l r) p = (u, q) \<Longrightarrow> u \<noteq> rb_null \<and> n_left u = rb_null"
  by (induction "Node c d l r" p arbitrary: c d l r rule: rb_min_internal.induct) auto

lemma min_internal_append: "rb_min_internal t (p @ p') = (fst (rb_min_internal t p), snd (rb_min_internal t p) @ p')"
  by (induction t p rule: rb_min_internal.induct) auto

lemma min_internal_path_ok:
  "rb_min_internal t p = (u, q) \<Longrightarrow> invc t \<Longrightarrow> invh t \<Longrightarrow> path_ok (bheight t) p \<Longrightarrow>
   (color t = RB_RED \<longrightarrow> p \<noteq> [] \<and> parent_color p = RB_BLACK) \<Longrightarrow>
   invc u \<and> invh u \<and> path_ok (bheight u) q \<and> (color u = RB_RED \<longrightarrow> q \<noteq> [] \<and> parent_color q = RB_BLACK)"
proof (induction t p rule: rb_min_internal.induct)
  case (3 c d c' d' l' r' r p)
  then show ?case by (cases c) auto
qed auto

text \<open>The leftmost node is the first of its subtree, and the next node is the next in order.\<close>

lemma min_internal_before: "rb_min_internal t p = (u, q) \<Longrightarrow> before q = before p"
  by (induction t p rule: rb_min_internal.induct) auto

fun remaining :: "'a location \<Rightarrow> 'a list" where
  "remaining (rb_null, p) = []"
| "remaining (Node c d l r, p) = d # inorder r @ behind p"

lemma remaining_min: "remaining (rb_min_internal (Node c d l r) p) = inorder (Node c d l r) @ behind p"
  by (induction "Node c d l r" p arbitrary: c d l r rule: rb_min_internal.induct) auto

lemma remaining_climb: "remaining (climb x p) = behind p"
  by (induction x p rule: climb.induct) auto

lemma remaining_next: "remaining (rb_next x) = tl (remaining x)"
proof (induction x rule: rb_next.induct)
  case (2 c d l c' d' l' r' p)
  show ?case unfolding rb_next.simps remaining_min by simp
qed (simp_all add: remaining_climb)

lemma remaining_rb_min: "remaining (rb_min t) = inorder t"
  by (cases t) (simp_all add: rb_min_def remaining_min del: rb_min_internal.simps(2,3))

lemma climb_root: "climb x p = (u, q) \<Longrightarrow> u \<noteq> rb_null \<Longrightarrow> root_of u q = root_of x p"
  by (induction x p rule: climb.induct) auto

lemma next_root: "rb_next (u, p) = (v, q) \<Longrightarrow> v \<noteq> rb_null \<Longrightarrow> root_of v q = root_of u p"
  by (cases "(u, p)" rule: rb_next.cases) (auto dest: climb_root min_internal_root)

section \<open>Search trees\<close>

text \<open>
  A comparison with a key is ordered along a list when what is smaller than the key comes first,
  then at most one equal element, then what is larger.
\<close>

definition ordered :: "('a \<Rightarrow> int) \<Rightarrow> 'a list \<Rightarrow> bool" where
  "ordered c xs \<longleftrightarrow> sorted_wrt (\<lambda>a b. c a > 0 \<or> c b < 0) xs"

lemma ordered_append:
  "ordered c (xs @ ys) \<longleftrightarrow> ordered c xs \<and> ordered c ys \<and> (\<forall>a\<in>set xs. \<forall>b\<in>set ys. c a > 0 \<or> c b < 0)"
  by (simp add: ordered_def sorted_wrt_append)

lemma ordered_Cons: "ordered c (x # xs) \<longleftrightarrow> ordered c xs \<and> (\<forall>b\<in>set xs. c x > 0 \<or> c b < 0)"
  by (auto simp: ordered_def)

lemmas ordered_simps = ordered_append ordered_Cons

lemma descend_spec:
  "descend c t p = (u, q) \<Longrightarrow> ordered c (inorder t) \<Longrightarrow>
   \<exists>xs ys. inorder t = xs @ inorder u @ ys \<and> before q = before p @ xs \<and> behind q = ys @ behind p
     \<and> (\<forall>x\<in>set xs. c x > 0) \<and> (\<forall>y\<in>set ys. c y < 0) \<and> (u \<noteq> rb_null \<longrightarrow> c (n_data u) = 0)"
proof (induction c t p rule: descend.induct)
  case (2 c col d l r p)
  consider "c d < 0" | "c d > 0" | "c d = 0" by linarith
  then show ?case
  proof cases
    case 1
    with 2 obtain xs ys where "inorder l = xs @ inorder u @ ys" "before q = before p @ xs"
      "behind q = ys @ behind (From_left col d r # p)" "\<forall>x\<in>set xs. c x > 0" "\<forall>y\<in>set ys. c y < 0"
      "u \<noteq> rb_null \<longrightarrow> c (n_data u) = 0"
      by (auto simp: ordered_simps)
    moreover have "\<forall>y\<in>set (d # inorder r). c y < 0" using 1 2(4) by (auto simp: ordered_simps)
    ultimately show ?thesis
      by (intro exI [of _ xs] exI [of _ "ys @ d # inorder r"]) auto
  next
    case 2
    with "2.IH" "2.prems" obtain xs ys where "inorder r = xs @ inorder u @ ys"
      "before q = before (From_right col d l # p) @ xs"
      "behind q = ys @ behind p" "\<forall>x\<in>set xs. c x > 0" "\<forall>y\<in>set ys. c y < 0" "u \<noteq> rb_null \<longrightarrow> c (n_data u) = 0"
      by (auto simp: ordered_simps)
    moreover have "\<forall>x\<in>set (inorder l @ [d]). c x > 0" using 2 "2.prems"(2) by (auto simp: ordered_simps)
    ultimately show ?thesis
      by (intro exI [of _ "inorder l @ d # xs"] exI [of _ ys]) auto
  next
    case 3
    with "2.prems" show ?thesis by (intro exI [of _ "[]"]) auto
  qed
qed auto

lemma filter_split:
  "\<forall>x\<in>set xs. c x > 0 \<Longrightarrow> \<forall>y\<in>set ys. c y < (0::int) \<Longrightarrow>
    filter (\<lambda>x. c x > 0) (xs @ ys) = xs \<and> filter (\<lambda>x. c x < 0) (xs @ ys) = ys"
  by (induction xs) (auto simp: filter_empty_conv filter_id_conv)

lemma rb_insert_ok:
  assumes "rb_shape t" and "ordered (cmp d) (inorder t)"
  shows "if \<exists>x\<in>set (inorder t). cmp d x = 0 then rb_insert cmp d t = Inl Abort
    else \<exists>t'. rb_insert cmp d t = Inr t' \<and> rb_shape t' \<and>
      inorder t' = filter (\<lambda>x. cmp d x > 0) (inorder t) @ d # filter (\<lambda>x. cmp d x < 0) (inorder t)"
proof -
  obtain u q where u: "descend (cmp d) t [] = (u, q)" by fastforce
  obtain xs ys where s: "inorder t = xs @ inorder u @ ys" "before q = xs" "behind q = ys"
    "\<forall>x\<in>set xs. cmp d x > 0" "\<forall>y\<in>set ys. cmp d y < 0" "u \<noteq> rb_null \<longrightarrow> cmp d (n_data u) = 0"
    using descend_spec [OF u assms(2)] by auto
  show ?thesis
  proof (cases u)
    case rb_null
    have "path_ok (bheight u) q"
      using descend_path_ok [OF u] assms(1) by (simp add: rb_shape_def)
    then obtain t' where "rb_insert_fixup (Node RB_RED d rb_null rb_null) q = Inr t'" "rb_shape t'"
      "inorder t' = before q @ d # behind q"
      using rb_insert_fixup_ok [of "Node RB_RED d rb_null rb_null" q] rb_null by auto
    moreover have "\<not> (\<exists>x\<in>set (inorder t). cmp d x = 0)" using s rb_null by force
    ultimately show ?thesis
      using u rb_null s filter_split [of xs "cmp d" ys] by (simp add: rb_insert_def)
  next
    case (Node c e l r)
    then have "\<exists>x\<in>set (inorder t). cmp d x = 0" using s by auto
    then show ?thesis using u Node by (simp add: rb_insert_def)
  qed
qed

lemma rb_search_ok:
  assumes "ordered (cmpk k) (inorder t)" and "rb_search cmpk k t = (u, q)"
  shows "if \<exists>x\<in>set (inorder t). cmpk k x = 0
    then u \<noteq> rb_null \<and> n_data u \<in> set (inorder t) \<and> cmpk k (n_data u) = 0 \<and> root_of u q = t else u = rb_null"
proof -
  have u: "descend (cmpk k) t [] = (u, q)" using assms(2) by (simp add: rb_search_def)
  obtain xs ys where s: "inorder t = xs @ inorder u @ ys"
    "\<forall>x\<in>set xs. cmpk k x > 0" "\<forall>y\<in>set ys. cmpk k y < 0" "u \<noteq> rb_null \<longrightarrow> cmpk k (n_data u) = 0"
    using descend_spec [OF u assms(1)] by auto
  then show ?thesis using descend_root [OF u] by (cases u) (simp_all, force)
qed

section \<open>Deletion\<close>

text \<open>Taking a node with at most one child out of the tree.\<close>

lemma unlink_ok:
  assumes "y = Node c d l r" and "l = rb_null \<or> r = rb_null" and "invc y" and "invh y" and "path_ok (bheight y) p"
    and "x = (if l \<noteq> rb_null then l else r)"
  shows "\<exists>t. (if c = RB_BLACK then rb_delete_fixup x p else Inr (root_of x p)) = Inr t \<and> rb_shape t
    \<and> inorder t = before p @ inorder x @ behind p"
proof (cases c)
  case RB_BLACK
  have "fixup_post x p"
    using assms RB_BLACK by (intro rb_delete_fixup_ok) (auto split: if_splits)
  then show ?thesis using RB_BLACK by (simp add: fixup_post_def)
next
  case RB_RED
  have "l = rb_null" "r = rb_null"
    using assms(1-4) RB_RED by (cases l; cases r; auto)+
  then have "rb_shape (root_of x p)" using assms RB_RED by (intro root_of_shape) auto
  then show ?thesis using RB_RED by (simp add: inorder_root_of)
qed

lemma path_ok_data: "path_ok h (q @ From_right c d l # p) = path_ok h (q @ From_right c d' l # p)"
proof (induction q arbitrary: h)
  case (Cons s q)
  have "parent_color (q @ From_right c d l # p) = parent_color (q @ From_right c d' l # p)"
    by (cases q) auto
  with Cons show ?case by (cases s) simp_all
qed simp

lemma before_append: "before (q @ p) = before p @ before q"
  by (induction q rule: before.induct) auto

lemma behind_append: "behind (q @ p) = behind q @ behind p"
  by (induction q rule: behind.induct) auto

text \<open>The successor of a node with a right child, and the tree with the data moved up.\<close>

lemma successor_ok:
  assumes "r \<noteq> rb_null" and "rb_next (Node c d l r, p) = (y, yp)" and "invc (Node c d l r)"
    and "invh (Node c d l r)" and "path_ok (bheight (Node c d l r)) p"
    and "c = RB_RED \<longrightarrow> p \<noteq> [] \<and> parent_color p = RB_BLACK"
    and "yp' = yp[length yp - Suc (length p) := From_right c (n_data y) l]"
  shows "\<exists>cy dy ry. y = Node cy dy rb_null ry \<and> invc y \<and> invh y \<and> path_ok (bheight y) yp'
    \<and> before yp' = before p @ inorder l @ [dy] \<and> inorder r @ behind p = dy # inorder ry @ behind yp'"
proof -
  obtain rc rd rl rr where r: "r = Node rc rd rl rr" using assms(1) by (cases r) auto
  obtain u q where u: "rb_min_internal r [] = (u, q)" by fastforce
  have y: "y = u" "yp = q @ From_right c d l # p"
    using assms(2) r u min_internal_append [of r "[]" "From_right c d l # p"] by auto
  have yp': "yp' = q @ From_right c (n_data y) l # p"
    using assms(7) y by (simp add: list_update_append)
  obtain cy dy ry where un: "y = Node cy dy rb_null ry"
    using min_internal_not_null [of rc rd rl rr "[]" u q] u r y by (cases u) auto
  have "invc y \<and> invh y \<and> path_ok (bheight y) yp"
    using min_internal_path_ok [of r "From_right c d l # p" y yp] assms(3-6) assms(2) r
    by (cases c) auto
  moreover have "before q = []" using min_internal_before [OF u] by simp
  moreover have "dy # inorder ry @ behind q = inorder r"
    using remaining_min [of rc rd rl rr "[]"] u r un y by simp
  ultimately show ?thesis
    using un yp' y(2) path_ok_data [of "bheight y" q c d l p dy] by (auto simp: before_append behind_append)
qed

lemma rb_delete_ok:
  assumes "rb_shape t" and "ordered (cmpk k) (inorder t)"
  shows "\<exists>t'. rb_delete cmpk k t = Inr t' \<and> rb_shape t' \<and> inorder t' = filter (\<lambda>x. cmpk k x \<noteq> 0) (inorder t)"
proof -
  obtain u p where u: "descend (cmpk k) t [] = (u, p)" by fastforce
  then have se: "rb_search cmpk k t = (u, p)" by (simp add: rb_search_def)
  obtain xs ys where s: "inorder t = xs @ inorder u @ ys" "before p = xs" "behind p = ys"
    "\<forall>x\<in>set xs. cmpk k x > 0" "\<forall>y\<in>set ys. cmpk k y < 0" "u \<noteq> rb_null \<longrightarrow> cmpk k (n_data u) = 0"
    using descend_spec [OF u assms(2)] by auto
  have ok: "invc u" "invh u" "path_ok (bheight u) p" "color u = RB_RED \<longrightarrow> p \<noteq> [] \<and> parent_color p = RB_BLACK"
    using descend_path_ok [OF u] assms(1) by (auto simp: rb_shape_def)
  have nz: "filter (\<lambda>x. cmpk k x \<noteq> 0) xs = xs" "filter (\<lambda>x. cmpk k x \<noteq> 0) ys = ys"
    using s(4,5) by (auto simp: filter_id_conv)
  show ?thesis
  proof (cases u)
    case rb_null
    then show ?thesis using se assms(1) s nz by (simp add: rb_delete_def)
  next
    case (Node c d l r)
    have "ordered (cmpk k) (inorder l @ d # inorder r)"
      using assms(2) s Node by (simp add: ordered_simps)
    then have lr: "filter (\<lambda>x. cmpk k x \<noteq> 0) (inorder l) = inorder l" "filter (\<lambda>x. cmpk k x \<noteq> 0) (inorder r) = inorder r"
      using s(6) Node by (fastforce simp: ordered_simps filter_id_conv)+
    have goal: "filter (\<lambda>x. cmpk k x \<noteq> 0) (inorder t) = xs @ inorder l @ inorder r @ ys"
      using s Node nz lr by simp
    show ?thesis
    proof (cases "l = rb_null \<or> r = rb_null")
      case True
      let ?x = "if l \<noteq> rb_null then l else r"
      have "inorder ?x = inorder l @ inorder r" using True by auto
      then show ?thesis
        using unlink_ok [OF Node True ok(1-3) refl] se Node True s(2,3) goal by (auto simp: rb_delete_def)
    next
      case False
      obtain y yp where n: "rb_next (Node c d l r, p) = (y, yp)" by fastforce
      let ?yp = "yp[length yp - Suc (length p) := From_right c (n_data y) l]"
      obtain cy dy ry where y: "y = Node cy dy rb_null ry" and yok: "invc y" "invh y" "path_ok (bheight y) ?yp"
        and b: "before ?yp = before p @ inorder l @ [dy]" "inorder r @ behind p = dy # inorder ry @ behind ?yp"
        using successor_ok [OF _ n _ _ _ _ refl] False ok Node by (metis color.simps(2))
      obtain t' where "(if cy = RB_BLACK then rb_delete_fixup ry ?yp else Inr (root_of ry ?yp)) = Inr t'"
        "rb_shape t'" "inorder t' = before ?yp @ inorder ry @ behind ?yp"
        using unlink_ok [OF y _ yok, of ry] by auto
      moreover have "rb_delete cmpk k t = (if cy = RB_BLACK then rb_delete_fixup ry ?yp else Inr (root_of ry ?yp))"
        using se Node False n y by (simp add: rb_delete_def Let_def)
      ultimately show ?thesis using goal b s(2,3) by simp
    qed
  qed
qed

section \<open>Depth\<close>

lemma descend_depth:
  "descend cmp t p = (u, q) \<Longrightarrow> invc t \<Longrightarrow> invh t \<Longrightarrow>
    length q \<le> length p + 2 * bheight t + (if color t = RB_RED then 1 else 0)"
proof (induction cmp t p rule: descend.induct)
  case (2 cmp c d l r p)
  then show ?case by (cases c; cases "color l"; cases "color r") (auto split: if_splits)
qed auto

lemma bheight_size: "invh t \<Longrightarrow> 2 ^ bheight t \<le> length (inorder t) + 1"
proof (induction t)
  case (Node c d l r)
  then have "2 ^ bheight l \<le> length (inorder l) + 1" "2 ^ bheight l \<le> length (inorder r) + 1" by auto
  then show ?case by simp
qed simp

lemma search_depth:
  assumes "rb_shape t" and "rb_search cmpk k t = (u, q)"
  shows "2 ^ length q \<le> (length (inorder t) + 1)\<^sup>2"
proof -
  have "length q \<le> 2 * bheight t"
    using descend_depth [of "cmpk k" t "[]" u q] assms by (simp add: rb_search_def rb_shape_def)
  then have "(2::nat) ^ length q \<le> 2 ^ (2 * bheight t)" by (simp add: power_increasing)
  also have "\<dots> = (2 ^ bheight t)\<^sup>2" by (simp add: power_mult [symmetric] mult.commute)
  also have "\<dots> \<le> (length (inorder t) + 1)\<^sup>2"
    using bheight_size [of t] assms(1) by (intro power_mono) (auto simp: rb_shape_def)
  finally show ?thesis .
qed

section \<open>The contract of the comparison functions\<close>

definition search_tree :: "('a \<Rightarrow> 'a \<Rightarrow> int) \<Rightarrow> 'a rb_node \<Rightarrow> bool" where
  "search_tree cmp t \<longleftrightarrow> rb_shape t \<and> sorted_wrt (\<lambda>a b. cmp a b < 0) (inorder t)"

locale search_order =
  fixes cmp_func :: "'a \<Rightarrow> 'a \<Rightarrow> int" and cmp_key_func :: "'k \<Rightarrow> 'a \<Rightarrow> int"
  assumes cmp_flip: "cmp_func a b > 0 \<longleftrightarrow> cmp_func b a < 0"
    and cmp_le_less: "cmp_func d a \<le> 0 \<Longrightarrow> cmp_func a b < 0 \<Longrightarrow> cmp_func d b < 0"
    and key_le_less: "cmp_key_func k a \<le> 0 \<Longrightarrow> cmp_func a b < 0 \<Longrightarrow> cmp_key_func k b < 0"
begin

lemma ordered_cmp: "sorted_wrt (\<lambda>a b. cmp_func a b < 0) xs \<Longrightarrow> ordered (cmp_func d) xs"
  unfolding ordered_def by (erule sorted_wrt_mono_rel [rotated]) (metis cmp_le_less not_less)

lemma ordered_key: "sorted_wrt (\<lambda>a b. cmp_func a b < 0) xs \<Longrightarrow> ordered (cmp_key_func k) xs"
  unfolding ordered_def by (erule sorted_wrt_mono_rel [rotated]) (metis key_le_less not_less)

lemma insert_absent:
  assumes "search_tree cmp_func t" and "\<forall>x\<in>set (inorder t). cmp_func d x \<noteq> 0"
  shows "\<exists>t'. rb_insert cmp_func d t = Inr t' \<and> search_tree cmp_func t'
    \<and> set (inorder t') = insert d (set (inorder t)) \<and> length (inorder t') = Suc (length (inorder t))"
proof -
  let ?xs = "filter (\<lambda>x. cmp_func d x > 0) (inorder t)" and ?ys = "filter (\<lambda>x. cmp_func d x < 0) (inorder t)"
  have t: "rb_shape t" "sorted_wrt (\<lambda>a b. cmp_func a b < 0) (inorder t)"
    using assms(1) by (auto simp: search_tree_def)
  obtain t' where t': "rb_insert cmp_func d t = Inr t'" "rb_shape t'" "inorder t' = ?xs @ d # ?ys"
    using rb_insert_ok [where cmp = cmp_func and d = d, OF t(1) ordered_cmp [OF t(2)]] assms(2) by (auto split: if_splits)
  have "cmp_func x d < 0" if "x \<in> set ?xs" for x
    using that cmp_flip [of d x] by simp
  moreover have "cmp_func x y < 0" if "x \<in> set ?xs" "y \<in> set ?ys" for x y
    using that cmp_flip [of d x] cmp_le_less [of x d y] by simp
  ultimately have "sorted_wrt (\<lambda>a b. cmp_func a b < 0) (?xs @ d # ?ys)"
    using t(2) by (auto simp: sorted_wrt_append sorted_wrt_filter)
  moreover have "set (?xs @ d # ?ys) = insert d (set (inorder t))"
    using assms(2) by force
  moreover have "length ?xs + length ?ys = length (inorder t)"
  proof -
    have "?ys = filter (\<lambda>x. \<not> cmp_func d x > 0) (inorder t)"
      using assms(2) by (intro filter_cong) force+
    then show ?thesis using sum_length_filter_compl by simp
  qed
  ultimately show ?thesis using t' by (auto simp: search_tree_def)
qed

lemma insert_present:
  "search_tree cmp_func t \<Longrightarrow> x \<in> set (inorder t) \<Longrightarrow> cmp_func d x = 0 \<Longrightarrow> rb_insert cmp_func d t = Inl Abort"
  using rb_insert_ok [of t cmp_func d] ordered_cmp [of "inorder t" d] by (auto simp: search_tree_def split: if_splits)

lemma delete_key:
  assumes "search_tree cmp_func t"
  shows "\<exists>t'. rb_delete cmp_key_func k t = Inr t' \<and> search_tree cmp_func t'
    \<and> inorder t' = filter (\<lambda>x. cmp_key_func k x \<noteq> 0) (inorder t)"
  using rb_delete_ok [of t cmp_key_func k] ordered_key assms
  by (auto simp: search_tree_def sorted_wrt_filter)

lemma search_key:
  assumes "search_tree cmp_func t" and "rb_search cmp_key_func k t = (u, q)"
  shows "if \<exists>x\<in>set (inorder t). cmp_key_func k x = 0
    then u \<noteq> rb_null \<and> n_data u \<in> set (inorder t) \<and> cmp_key_func k (n_data u) = 0 \<and> root_of u q = t
    else u = rb_null"
  using rb_search_ok [of cmp_key_func k t u q] ordered_key assms by (simp add: search_tree_def)

lemma key_unique:
  assumes "search_tree cmp_func t" and "x \<in> set (inorder t)" "y \<in> set (inorder t)"
    and "cmp_key_func k x = 0" "cmp_key_func k y = 0"
  shows "x = y"
proof -
  have o: "ordered (cmp_key_func k) (inorder t)"
    using assms(1) ordered_key by (simp add: search_tree_def)
  obtain i j where "i < length (inorder t)" "x = inorder t ! i" "j < length (inorder t)" "y = inorder t ! j"
    using assms(2,3) by (auto simp: in_set_conv_nth)
  then show ?thesis
    using o assms(4,5) sorted_wrt_nth_less [of _ "inorder t"] unfolding ordered_def
    by (metis less_irrefl linorder_neqE_nat)
qed

end

lemma search_tree_empty [simp]: "search_tree cmp rb_null"
  by (simp add: search_tree_def rb_shape_def)

end
