(* ===== verification/Collation.thy ===== *)
theory Collation
  imports RBTree C_String
begin

text \<open>
  The order of file names. The playlist compares names with \<^verbatim>\<open>strcoll\<close>, whose order depends on
  the environment: it is a parameter, and the locale \<open>collation\<close> states what the C standard
  promises of it. \<^verbatim>\<open>strcmp\<close>, to which it falls back in the C locale, is an instance.
\<close>

section \<open>Collation orders\<close>

locale collation =
  fixes coll :: "'k \<Rightarrow> 'k \<Rightarrow> int"
  assumes flip: "coll a b > 0 \<longleftrightarrow> coll b a < 0"
    and le_less: "coll a b \<le> 0 \<Longrightarrow> coll b c < 0 \<Longrightarrow> coll a c < 0"
begin

lemma refl: "coll a a = 0"
  using flip [of a a] by linarith

lemma sym: "coll a b = 0 \<Longrightarrow> coll b a = 0"
  using flip [of a b] flip [of b a] by linarith

lemma le_trans: "coll a b \<le> 0 \<Longrightarrow> coll b c \<le> 0 \<Longrightarrow> coll a c \<le> 0"
  using flip [of a c] le_less [of c a b] flip [of b c] le_less [of b c a] flip [of a b]
  by (metis le_less less_irrefl linorder_not_less flip)

lemma eq_trans: "coll a b = 0 \<Longrightarrow> coll b c = 0 \<Longrightarrow> coll a c = 0"
  using le_trans [of a b c] le_trans [of c b a] sym [of a b] sym [of b c] flip [of c a] by auto

lemma eq_cong: "coll a b = 0 \<Longrightarrow> coll a c = 0 \<longleftrightarrow> coll b c = 0"
  using eq_trans [of a b c] eq_trans [of b a c] sym [of a b] by auto

end

text \<open>A collation order of keys makes the tree that is ordered by the keys of its data a search tree.\<close>

sublocale collation \<subseteq> by_key: search_order "\<lambda>a b. coll (f a) (f b)" "\<lambda>k a. coll k (f a)" for f
  by unfold_locales (auto simp: flip intro: le_less)

section \<open>The order of bytes\<close>

fun strcmp :: "string \<Rightarrow> string \<Rightarrow> int" where
  "strcmp [] [] = 0"
| "strcmp [] (y # ys) = -1"
| "strcmp (x # xs) [] = 1"
| "strcmp (x # xs) (y # ys) =
     (if x = y then strcmp xs ys else if (of_char x :: nat) < of_char y then -1 else 1)"

lemma strcmp_flip: "strcmp a b = - strcmp b a"
  by (induction a b rule: strcmp.induct) auto

lemma strcmp_eq [simp]: "strcmp a b = 0 \<longleftrightarrow> a = b"
  by (induction a b rule: strcmp.induct) auto

lemma strcmp_less_trans: "strcmp a b < 0 \<Longrightarrow> strcmp b c < 0 \<Longrightarrow> strcmp a c < 0"
proof (induction a b arbitrary: c rule: strcmp.induct)
  case (2 y ys)
  then show ?case by (cases c) auto
next
  case (4 x xs y ys)
  then show ?case by (cases c) (auto split: if_splits)
qed auto

interpretation strcmp: collation strcmp
proof unfold_locales
  show "0 < strcmp a b \<longleftrightarrow> strcmp b a < 0" for a b
    using strcmp_flip [of a b] by linarith
  show "strcmp a c < 0" if "strcmp a b \<le> 0" "strcmp b c < 0" for a b c
    using that strcmp_less_trans [of a b c] strcmp_eq [of a b] by (cases "strcmp a b = 0") auto
qed

section \<open>Properties of the tree\<close>

lemma collation_search_order: "collation coll \<Longrightarrow> search_order (\<lambda>a b. coll (f a) (f b)) (\<lambda>k a. coll k (f a))"
  by (intro search_order.intro) (auto simp: collation.flip intro: collation.le_less)

text \<open>
  C11: Insertion into a red-black search tree: an element whose key is not in the tree gives again a
  red-black search tree, with exactly this element more; an element whose key is there makes
  the program abort. The repair loop never follows a null link and never fails an assertion.
\<close>

theorem rb_insert_correct:
  assumes "collation coll" and "search_tree (\<lambda>a b. coll (f a) (f b)) t"
  shows "if \<exists>x\<in>set (inorder t). coll (f d) (f x) = 0 then rb_insert (\<lambda>a b. coll (f a) (f b)) d t = Inl Abort
    else \<exists>t'. rb_insert (\<lambda>a b. coll (f a) (f b)) d t = Inr t' \<and> search_tree (\<lambda>a b. coll (f a) (f b)) t'
      \<and> set (inorder t') = insert d (set (inorder t)) \<and> length (inorder t') = Suc (length (inorder t))"
  using search_order.insert_absent [OF collation_search_order [OF assms(1)] assms(2), of d]
    search_order.insert_present [OF collation_search_order [OF assms(1)] assms(2), of _ d]
  by auto

definition sample_tree :: "nat rb_node" where
  "sample_tree = Node RB_BLACK 1 (Node RB_RED 0 rb_null rb_null) (Node RB_RED 2 rb_null rb_null)"

definition sample_names :: "nat \<Rightarrow> string" where
  "sample_names i = [''/a'', ''/b'', ''/c'', ''/d''] ! i"

lemma sample_tree_ok: "search_tree (\<lambda>a b. strcmp (sample_names a) (sample_names b)) sample_tree"
  by (simp add: search_tree_def rb_shape_def sample_tree_def sample_names_def)

theorem rb_insert_correct_witness:
  "\<exists>t'. rb_insert (\<lambda>a b. strcmp (sample_names a) (sample_names b)) 3 sample_tree = Inr t' \<and> set (inorder t') = {0, 1, 2, 3}"
proof -
  have "\<not> (\<exists>x\<in>set (inorder sample_tree). strcmp (sample_names 3) (sample_names x) = 0)"
    by (simp add: sample_tree_def sample_names_def)
  moreover have "insert 3 (set (inorder sample_tree)) = {0, 1, 2, 3}"
    by (auto simp: sample_tree_def)
  ultimately show ?thesis
    using rb_insert_correct [OF strcmp.collation_axioms sample_tree_ok, of 3] by auto
qed

text \<open>
  C12: Deletion by key removes exactly the element with this key, keeps the order of all others
  and yields again a red-black search tree; when there is no such element the tree keeps its contents.
  No null link is followed and no assertion fails on the way.
\<close>

theorem rb_delete_correct:
  assumes "collation coll" and "search_tree (\<lambda>a b. coll (f a) (f b)) t"
  shows "\<exists>t'. rb_delete (\<lambda>k a. coll k (f a)) k t = Inr t' \<and> search_tree (\<lambda>a b. coll (f a) (f b)) t'
    \<and> inorder t' = filter (\<lambda>x. coll k (f x) \<noteq> 0) (inorder t)"
  by (rule search_order.delete_key [OF collation_search_order [OF assms(1)] assms(2)])

theorem rb_delete_correct_witness:
  "\<exists>t'. rb_delete (\<lambda>k a. strcmp k (sample_names a)) ''/b'' sample_tree = Inr t' \<and> inorder t' = [0, 2]"
proof -
  have "filter (\<lambda>x. strcmp ''/b'' (sample_names x) \<noteq> 0) (inorder sample_tree) = [0, 2]"
    by (simp add: sample_tree_def sample_names_def)
  with rb_delete_correct [OF strcmp.collation_axioms sample_tree_ok, of "''/b''"] show ?thesis by auto
qed

text \<open>
  Search finds the element with the given key exactly when the tree has one, and its way down
  has at most twice the binary logarithm of the number of elements plus one steps.
\<close>

lemma rb_search_correct:
  assumes "collation coll" and "search_tree (\<lambda>a b. coll (f a) (f b)) t"
    and "rb_search (\<lambda>k a. coll k (f a)) k t = (u, q)"
  shows "(if \<exists>x\<in>set (inorder t). coll k (f x) = 0
      then u \<noteq> rb_null \<and> n_data u \<in> set (inorder t) \<and> coll k (f (n_data u)) = 0 \<and> root_of u q = t
      else u = rb_null) \<and> 2 ^ length q \<le> (length (inorder t) + 1)\<^sup>2"
  using search_order.search_key [OF collation_search_order [OF assms(1)] assms(2,3)]
    search_depth [OF _ assms(3)] assms(2) by (simp add: search_tree_def)

end
