(* ===== verification/Files.thy ===== *)
theory Files
  imports C_String
begin

text \<open>
  What the playlist needs of \<^verbatim>\<open>src/src/moc-2.5.0/files.c\<close>: the kind of a file and its
  modification time. What the file system and the decoders know of a name is in the record
  \<open>host_fs\<close>.
\<close>

record host_fs =
  fs_stat :: "string \<Rightarrow> (bool \<times> int) option"
  fs_readable :: "string \<Rightarrow> bool"
  fs_sound :: "string \<Rightarrow> bool"

datatype file_type = F_DIR | F_SOUND | F_URL | F_PLAYLIST | F_THEME | F_OTHER

definition strncaseeq :: "string \<Rightarrow> string \<Rightarrow> nat \<Rightarrow> bool" where
  "strncaseeq a b n = strcaseeq (take n a) (take n b)"

definition is_url :: "string \<Rightarrow> bool" where
  "is_url str = (strncaseeq str ''http://'' 7 \<or> strncaseeq str ''ftp://'' 6)"

fun strrchr :: "string \<Rightarrow> char \<Rightarrow> nat option" where
  "strrchr [] c = None"
| "strrchr (x # xs) c =
     (case strrchr xs c of Some i \<Rightarrow> Some (Suc i) | None \<Rightarrow> if x = c then Some 0 else None)"

definition ext_pos :: "string \<Rightarrow> string option" where
  "ext_pos path =
     (case strrchr path (CHR ''.'') of
        None \<Rightarrow> None
      | Some e \<Rightarrow>
          if (case strrchr path (CHR ''/'') of None \<Rightarrow> True | Some s \<Rightarrow> s < e) \<and> e \<noteq> 0 \<and> path ! (e - 1) \<noteq> CHR ''/''
          then Some (drop (Suc e) path) else None)"

definition is_plist_file :: "string \<Rightarrow> bool" where
  "is_plist_file name =
     (case ext_pos name of None \<Rightarrow> False | Some ext \<Rightarrow> strcaseeq ext ''m3u'' \<or> strcaseeq ext ''pls'')"

definition file_type_of :: "host_fs \<Rightarrow> string \<Rightarrow> file_type" where
  "file_type_of fs name =
     (if is_url name then F_URL
      else case fs_stat fs name of
        None \<Rightarrow> F_OTHER
      | Some (dir, _) \<Rightarrow>
          if dir then F_DIR else if fs_sound fs name then F_SOUND
          else if is_plist_file name then F_PLAYLIST else F_OTHER)"

definition get_mtime :: "host_fs \<Rightarrow> string \<Rightarrow> int" where
  "get_mtime fs name = (case fs_stat fs name of None \<Rightarrow> -1 | Some (_, t) \<Rightarrow> t)"

lemma strrchr_split: "c \<notin> set ys \<Longrightarrow> strrchr (xs @ c # ys) c = Some (length xs)"
proof (induction xs)
  case Nil
  have "strrchr ys c = None" using Nil by (induction ys) auto
  then show ?case by simp
qed simp

text \<open>A name with a base and an extension, in any directory.\<close>

lemma ext_pos_base:
  assumes "base \<noteq> []" and "last base \<noteq> CHR ''/''" and "CHR ''.'' \<notin> set ext" and "CHR ''/'' \<notin> set ext"
  shows "ext_pos (base @ CHR ''.'' # ext) = Some ext"
proof -
  have d: "strrchr (base @ CHR ''.'' # ext) (CHR ''.'') = Some (length base)"
    using assms(3) by (rule strrchr_split)
  have lt: "strrchr (xs @ ys) c = Some s \<Longrightarrow> c \<notin> set ys \<Longrightarrow> s < length xs" for xs ys and c :: char and s
  proof (induction xs arbitrary: s)
    case Nil
    have "c \<notin> set ys \<Longrightarrow> strrchr ys c = None" by (induction ys) auto
    with Nil show ?case by simp
  next
    case (Cons x xs)
    then show ?case by (auto split: option.splits if_splits)
  qed
  have "case strrchr (base @ CHR ''.'' # ext) (CHR ''/'') of None \<Rightarrow> True | Some s \<Rightarrow> s < length base"
    using lt [of base "CHR ''.'' # ext" "CHR ''/''"] assms(4) by (auto split: option.split)
  moreover have "(base @ CHR ''.'' # ext) ! (length base - 1) = last base"
    using assms(1) by (simp add: nth_append last_conv_nth)
  ultimately show ?thesis using d assms by (simp add: ext_pos_def)
qed

end
