(* ===== verification/Plist.thy ===== *)
theory Plist
  imports Collation Files
begin

text \<open>
  The playlist, \<^verbatim>\<open>src/src/moc-2.5.0/playlist.c\<close>: an array of items, of which some are
  only marked as deleted, counters over it, and a red-black tree that finds the item of a file
  name. The array is the list of its used elements; the data in the tree are indices of it. The
  order of file names \<open>coll\<close> stands for \<^verbatim>\<open>strcoll\<close>.
\<close>

unbundle bit_operations_syntax

section \<open>Data\<close>

record file_tags =
  title :: "string option"
  artist :: "string option"
  album :: "string option"
  track :: int
  time :: int
  filled :: int

definition tags_new :: file_tags where
  "tags_new = \<lparr>title = None, artist = None, album = None, track = -1, time = -1, filled = 0\<rparr>"

definition tags_clear :: "file_tags \<Rightarrow> file_tags" where
  "tags_clear t = t\<lparr>title := None, artist := None, album := None, track := -1, time := -1\<rparr>"

definition tags_copy :: "file_tags \<Rightarrow> file_tags \<Rightarrow> file_tags" where
  "tags_copy dst src = dst\<lparr>title := title src, artist := artist src, album := album src,
     track := track src, time := time src, filled := filled src\<rparr>"

definition tags_dup :: "file_tags \<Rightarrow> file_tags" where
  "tags_dup t = tags_copy tags_new t"

record plist_item =
  i_file :: "string option"
  i_type :: file_type
  i_title_file :: "string option"
  i_title_tags :: "string option"
  i_tags :: "file_tags option"
  i_deleted :: bool
  i_mtime :: int
  i_queue_pos :: int

text \<open>
  The counters are of type \<^verbatim>\<open>int\<close> in the program, where an overflow is undefined. Here they are
  mathematical integers: the model is that of the program as long as they fit (lists of less than
  \<open>2 ^ 30\<close> items with a total time below \<open>2 ^ 31\<close> seconds).
\<close>

record plist =
  items :: "plist_item list"
  allocated :: int
  not_deleted :: int
  serial :: int
  total_time :: int
  items_with_time :: int
  search_tree_of :: "nat rb_node"

abbreviation num :: "plist \<Rightarrow> nat" where
  "num p \<equiv> length (items p)"

definition INIT_SIZE :: int where "INIT_SIZE = 64"

definition TAGS_TIME :: int where "TAGS_TIME = 2"

definition item_at :: "plist \<Rightarrow> int \<Rightarrow> plist_item result" where
  "item_at p i = arr_get (items p) i"

text \<open>\<^verbatim>\<open>assert (LIMIT(num, plist->num))\<close>\<close>

definition limit :: "int \<Rightarrow> plist \<Rightarrow> unit result" where
  "limit i p = guardR (0 \<le> i \<and> i < int (num p)) Assert"

definition set_item :: "nat \<Rightarrow> plist_item \<Rightarrow> plist \<Rightarrow> plist" where
  "set_item i x p = p\<lparr>items := (items p)[i := x]\<rparr>"

section \<open>The search tree\<close>

text \<open>
  The name of an item. A comparison that meets an index outside of the array or an item
  without a name leaves the array or follows a null pointer: such an operation is \<open>Undefined\<close>.
\<close>

definition named :: "plist \<Rightarrow> nat \<Rightarrow> bool" where
  "named p i \<longleftrightarrow> i < num p \<and> i_file (items p ! i) \<noteq> None"

definition name_at :: "plist \<Rightarrow> nat \<Rightarrow> string" where
  "name_at p i = (if named p i then the (i_file (items p ! i)) else [])"

definition rb_compare :: "(string \<Rightarrow> string \<Rightarrow> int) \<Rightarrow> plist \<Rightarrow> nat \<Rightarrow> nat \<Rightarrow> int" where
  "rb_compare coll p = (\<lambda>a b. coll (name_at p a) (name_at p b))"

definition rb_fname_compare :: "(string \<Rightarrow> string \<Rightarrow> int) \<Rightarrow> plist \<Rightarrow> string \<Rightarrow> nat \<Rightarrow> int" where
  "rb_fname_compare coll p = (\<lambda>k a. coll k (name_at p a))"

fun step_data :: "'a step \<Rightarrow> 'a" where
  "step_data (From_left c d r) = d"
| "step_data (From_right c d l) = d"

definition visited :: "'a location \<Rightarrow> 'a list" where
  "visited x = (case fst x of rb_null \<Rightarrow> [] | Node c d l r \<Rightarrow> [d]) @ map step_data (snd x)"

definition tree_search :: "(string \<Rightarrow> string \<Rightarrow> int) \<Rightarrow> plist \<Rightarrow> string \<Rightarrow> nat location result" where
  "tree_search coll p k =
     (let x = rb_search (rb_fname_compare coll p) k (search_tree_of p) in
      if list_all (named p) (visited x) then Inr x else Inl Undefined)"

definition tree_delete :: "(string \<Rightarrow> string \<Rightarrow> int) \<Rightarrow> string \<Rightarrow> plist \<Rightarrow> plist result" where
  "tree_delete coll k p =
     bindR (tree_search coll p k) (\<lambda>_.
     bindR (rb_delete (rb_fname_compare coll p) k (search_tree_of p)) (\<lambda>t.
     Inr (p\<lparr>search_tree_of := t\<rparr>)))"

definition tree_insert :: "(string \<Rightarrow> string \<Rightarrow> int) \<Rightarrow> nat \<Rightarrow> plist \<Rightarrow> plist result" where
  "tree_insert coll i p =
     (if search_tree_of p \<noteq> rb_null \<and> \<not> named p i \<or>
         \<not> list_all (named p) (visited (descend (rb_compare coll p i) (search_tree_of p) []))
      then Inl Undefined
      else bindR (rb_insert (rb_compare coll p) i (search_tree_of p)) (\<lambda>t.
        Inr (p\<lparr>search_tree_of := t\<rparr>)))"

section \<open>Operations\<close>

definition plist_init :: plist where
  "plist_init = \<lparr>items = [], allocated = INIT_SIZE, not_deleted = 0, serial = -1, total_time = 0,
     items_with_time = 0, search_tree_of = rb_init_tree\<rparr>"

definition plist_new_item :: plist_item where
  "plist_new_item = \<lparr>i_file = None, i_type = F_OTHER, i_title_file = None, i_title_tags = None,
     i_tags = None, i_deleted = False, i_mtime = -1, i_queue_pos = 0\<rparr>"

definition plist_deleted :: "plist \<Rightarrow> int \<Rightarrow> bool result" where
  "plist_deleted p i = bindR (limit i p) (\<lambda>_. bindR (item_at p i) (\<lambda>x. Inr (i_deleted x)))"

definition plist_count :: "plist \<Rightarrow> int" where
  "plist_count p = not_deleted p"

definition plist_add :: "host_fs \<Rightarrow> (string \<Rightarrow> string \<Rightarrow> int) \<Rightarrow> string option \<Rightarrow> plist \<Rightarrow> (nat \<times> plist) result" where
  "plist_add fs coll file_name p =
     (let n = num p;
          x = plist_new_item\<lparr>i_file := file_name,
                i_type := (case file_name of None \<Rightarrow> F_OTHER | Some f \<Rightarrow> file_type_of fs f),
                i_mtime := (case file_name of None \<Rightarrow> -1 | Some f \<Rightarrow> get_mtime fs f)\<rparr>;
          p = p\<lparr>items := items p @ [x],
                allocated := (if allocated p = int n then allocated p * 2 else allocated p)\<rparr>
      in bindR (case file_name of None \<Rightarrow> Inr p
                | Some f \<Rightarrow> bindR (tree_delete coll f p) (tree_insert coll n)) (\<lambda>p.
         Inr (n, p\<lparr>not_deleted := not_deleted p + 1\<rparr>)))"

definition plist_item_copy :: "plist_item \<Rightarrow> plist_item \<Rightarrow> plist_item" where
  "plist_item_copy dst src = dst\<lparr>i_file := i_file src, i_type := i_type src,
     i_title_file := i_title_file src, i_title_tags := i_title_tags src, i_mtime := i_mtime src,
     i_queue_pos := i_queue_pos src, i_tags := map_option tags_dup (i_tags src), i_deleted := i_deleted src\<rparr>"

definition item_time :: "plist_item \<Rightarrow> int" where
  "item_time x = (case i_tags x of None \<Rightarrow> -1 | Some t \<Rightarrow> time t)"

text \<open>Adding a time to the totals and taking it away; -1 stands for no time.\<close>

definition count_time :: "int \<Rightarrow> plist \<Rightarrow> plist" where
  "count_time t p = (if t \<noteq> -1 then p\<lparr>total_time := total_time p + t, items_with_time := items_with_time p + 1\<rparr> else p)"

definition uncount_time :: "int \<Rightarrow> plist \<Rightarrow> plist" where
  "uncount_time t p = (if t \<noteq> -1 then p\<lparr>total_time := total_time p - t, items_with_time := items_with_time p - 1\<rparr> else p)"

definition plist_add_from_item ::
    "host_fs \<Rightarrow> (string \<Rightarrow> string \<Rightarrow> int) \<Rightarrow> plist_item \<Rightarrow> plist \<Rightarrow> (nat \<times> plist) result" where
  "plist_add_from_item fs coll x p =
     bindR (plist_add fs coll (i_file x) p) (\<lambda>(pos, p).
     bindR (item_at p (int pos)) (\<lambda>d.
     Inr (pos, count_time (item_time x) (set_item pos (plist_item_copy d x) p))))"

definition plist_get_file :: "plist \<Rightarrow> int \<Rightarrow> string option result" where
  "plist_get_file p i =
     bindR (guardR (i \<ge> 0) Assert) (\<lambda>_. Inr (if i < int (num p) then i_file (items p ! nat i) else None))"

text \<open>The index of the next item that is not deleted; the loops of \<^verbatim>\<open>plist_next\<close> and \<^verbatim>\<open>plist_prev\<close>.\<close>

definition plist_next :: "plist \<Rightarrow> int \<Rightarrow> int result" where
  "plist_next p n =
     bindR (guardR (n \<ge> -1) Assert) (\<lambda>_.
       let i = nat (n + 1) + length (takeWhile i_deleted (drop (nat (n + 1)) (items p)))
       in Inr (if i < num p then int i else -1))"

fun prev_from :: "plist \<Rightarrow> nat \<Rightarrow> int result" where
  "prev_from p 0 = Inr (-1)"
| "prev_from p (Suc i) =
     bindR (item_at p (int i)) (\<lambda>x. if i_deleted x then prev_from p i else Inr (int i))"

definition plist_prev :: "plist \<Rightarrow> int \<Rightarrow> int result" where
  "plist_prev p n = bindR (guardR (n \<ge> -1) Assert) (\<lambda>_. prev_from p (nat n))"

definition plist_free_item_fields :: "plist_item \<Rightarrow> plist_item" where
  "plist_free_item_fields x = x\<lparr>i_file := None, i_title_tags := None, i_title_file := None, i_tags := None\<rparr>"

definition plist_clear :: "plist \<Rightarrow> plist" where
  "plist_clear p = p\<lparr>items := [], allocated := INIT_SIZE, not_deleted := 0,
     search_tree_of := rb_clear (search_tree_of p), total_time := 0, items_with_time := 0\<rparr>"

definition plist_delete :: "int \<Rightarrow> plist \<Rightarrow> plist result" where
  "plist_delete i p =
     bindR (item_at p i) (\<lambda>x.
     bindR (guardR (\<not> i_deleted x) Assert) (\<lambda>_.
     bindR (guardR (not_deleted p > 0) Assert) (\<lambda>_.
       let p = uncount_time (item_time x) p;
           x = (plist_free_item_fields x)\<lparr>i_file := i_file x, i_deleted := True\<rparr>
       in Inr ((set_item (nat i) x p)\<lparr>not_deleted := not_deleted p - 1\<rparr>))))"

definition plist_find_fname :: "(string \<Rightarrow> string \<Rightarrow> int) \<Rightarrow> string \<Rightarrow> plist \<Rightarrow> int result" where
  "plist_find_fname coll f p =
     bindR (tree_search coll p f) (\<lambda>x.
       case fst x of
         rb_null \<Rightarrow> Inr (-1)
       | Node c i l r \<Rightarrow> bindR (plist_deleted p (int i)) (\<lambda>d. Inr (if d then -1 else int i)))"

text \<open>
  Sorting walks through the tree, copies the items that are not deleted and renumbers their nodes
  on the way. The data of \<^verbatim>\<open>rb_null\<close> is index 0, and its links are null pointers: running
  into it before an item that is not deleted is \<open>Undefined\<close>.
\<close>

fun set_data :: "'a \<Rightarrow> 'a location \<Rightarrow> 'a location" where
  "set_data d (Node c e l r, q) = (Node c d l r, q)"
| "set_data d (rb_null, q) = (rb_null, q)"

lemma remaining_set_data [simp]: "length (remaining (set_data d x)) = length (remaining x)"
  by (cases "(d, x)" rule: set_data.cases) auto

lemma remaining_next_less: "fst x \<noteq> rb_null \<Longrightarrow> length (remaining (rb_next x)) < length (remaining x)"
  by (cases x rule: remaining.cases) (auto simp: remaining_next)

function first_live :: "plist \<Rightarrow> nat location \<Rightarrow> nat location result" where
  "first_live p x =
     (case fst x of
        rb_null \<Rightarrow> Inl Undefined
      | Node c i l r \<Rightarrow>
          bindR (plist_deleted p (int i)) (\<lambda>d. if d then first_live p (rb_next x) else Inr x))"
  by pat_completeness auto

termination
  by (relation "measure (\<lambda>(p, x). length (remaining x))")
    (auto intro!: remaining_next_less)

function sort_loop :: "plist \<Rightarrow> nat location \<Rightarrow> plist_item list \<Rightarrow> (nat rb_node \<times> plist_item list) result" where
  "sort_loop p x out =
     (if fst x = rb_null then Inl Undefined
      else let y = rb_next x in
        case fst y of
          rb_null \<Rightarrow> Inr (root_of (fst x) (snd x), out)
        | Node c i l r \<Rightarrow>
            bindR (plist_deleted p (int i)) (\<lambda>d.
              if d then sort_loop p y out
              else bindR (guardR (int (length out) < not_deleted p) Undefined) (\<lambda>_.
                bindR (item_at p (int i)) (\<lambda>it.
                sort_loop p (set_data (length out) y) (out @ [it])))))"
  by pat_completeness auto

termination
  by (relation "measure (\<lambda>(p, x, out). length (remaining x))")
    (auto intro!: remaining_next_less simp del: rb_next.simps)

definition plist_sort_fname :: "plist \<Rightarrow> plist result" where
  "plist_sort_fname p =
     (if plist_count p = 0 then Inr p
      else
        let x = rb_min (search_tree_of p) in
        bindR (guardR (\<not> rb_is_null x) Assert) (\<lambda>_.
        bindR (first_live p x) (\<lambda>x.
        bindR (item_at p (int (n_data (fst x)))) (\<lambda>it.
        bindR (sort_loop p (set_data 0 x) [it]) (\<lambda>(t, out).
        Inr (p\<lparr>items := out, not_deleted := int (length out), search_tree_of := t\<rparr>))))))"

definition plist_find_del_fname :: "string \<Rightarrow> plist \<Rightarrow> int result" where
  "plist_find_del_fname f p =
     foldR (\<lambda>i item.
       if i_file (items p ! i) = Some f then
         if item = -1 then Inr (int i)
         else bindR (plist_deleted p item) (\<lambda>d. Inr (if d then int i else item))
       else Inr item) [0..<num p] (-1)"

definition plist_get_next_dead_entry :: "host_fs \<Rightarrow> plist \<Rightarrow> nat \<Rightarrow> (string \<times> nat) option" where
  "plist_get_next_dead_entry fs p last_index =
     (case filter (\<lambda>i. case i_file (items p ! i) of None \<Rightarrow> False
              | Some f \<Rightarrow> \<not> i_deleted (items p ! i) \<and> \<not> fs_readable fs f) [last_index..<num p] of
        [] \<Rightarrow> None
      | i # _ \<Rightarrow> Some (the (i_file (items p ! i)), i + 1))"

definition plist_set_title_tags :: "int \<Rightarrow> string option \<Rightarrow> plist \<Rightarrow> plist result" where
  "plist_set_title_tags i t p =
     bindR (limit i p) (\<lambda>_. Inr (set_item (nat i) ((items p ! nat i)\<lparr>i_title_tags := t\<rparr>) p))"

definition plist_set_title_file :: "int \<Rightarrow> string option \<Rightarrow> plist \<Rightarrow> plist result" where
  "plist_set_title_file i t p =
     bindR (limit i p) (\<lambda>_. Inr (set_item (nat i) ((items p ! nat i)\<lparr>i_title_file := t\<rparr>) p))"

definition plist_set_file :: "host_fs \<Rightarrow> (string \<Rightarrow> string \<Rightarrow> int) \<Rightarrow> int \<Rightarrow> string \<Rightarrow> plist \<Rightarrow> plist result" where
  "plist_set_file fs coll i f p =
     bindR (limit i p) (\<lambda>_.
     bindR (if i_file (items p ! nat i) \<noteq> None then tree_delete coll f p else Inr p) (\<lambda>p.
       tree_insert coll (nat i) (set_item (nat i) ((items p ! nat i)\<lparr>i_file := Some f,
         i_type := file_type_of fs f, i_mtime := get_mtime fs f\<rparr>) p)))"

definition plist_cat :: "host_fs \<Rightarrow> (string \<Rightarrow> string \<Rightarrow> int) \<Rightarrow> plist \<Rightarrow> plist \<Rightarrow> plist result" where
  "plist_cat fs coll a b =
     foldR (\<lambda>x a.
       case i_file x of
         None \<Rightarrow> Inl Assert
       | Some f \<Rightarrow>
           if i_deleted x then Inr a
           else bindR (plist_find_fname coll f a) (\<lambda>j.
             if j = -1 then bindR (plist_add_from_item fs coll x a) (\<lambda>(_, a). Inr a) else Inr a)) (items b) a"

definition plist_set_item_time :: "int \<Rightarrow> int \<Rightarrow> plist \<Rightarrow> plist result" where
  "plist_set_item_time i t p =
     bindR (limit i p) (\<lambda>_.
       let x = items p ! nat i;
           tags = (case i_tags x of None \<Rightarrow> tags_new | Some tg \<Rightarrow> tg);
           p = count_time t (uncount_time (item_time x) p)
       in Inr (set_item (nat i) (x\<lparr>i_tags := Some (tags\<lparr>time := t, filled := filled tags OR TAGS_TIME\<rparr>)\<rparr>) p))"

definition get_item_time :: "plist \<Rightarrow> int \<Rightarrow> int result" where
  "get_item_time p i = bindR (item_at p i) (\<lambda>x. Inr (item_time x))"

definition plist_total_time :: "plist \<Rightarrow> int \<times> bool" where
  "plist_total_time p = (total_time p, not_deleted p = items_with_time p)"

definition plist_swap :: "int \<Rightarrow> int \<Rightarrow> plist \<Rightarrow> plist result" where
  "plist_swap a b p =
     bindR (limit a p) (\<lambda>_. bindR (limit b p) (\<lambda>_.
       Inr (if a \<noteq> b then p\<lparr>items := (items p)[nat a := items p ! nat b, nat b := items p ! nat a]\<rparr> else p)))"

text \<open>The numbers that \<^verbatim>\<open>rand\<close> gives for the swaps of a shuffle are an argument.\<close>

definition plist_shuffle :: "(string \<Rightarrow> string \<Rightarrow> int) \<Rightarrow> (nat \<Rightarrow> int) \<Rightarrow> plist \<Rightarrow> plist result" where
  "plist_shuffle coll r p =
     bindR (foldR (\<lambda>i p. plist_swap (int i) (r i) p) [0..<num p] p) (\<lambda>p.
       foldR (tree_insert coll) [0..<num p] (p\<lparr>search_tree_of := rb_clear (search_tree_of p)\<rparr>))"

definition plist_swap_first_fname :: "(string \<Rightarrow> string \<Rightarrow> int) \<Rightarrow> string \<Rightarrow> plist \<Rightarrow> plist result" where
  "plist_swap_first_fname coll f p =
     bindR (plist_find_fname coll f p) (\<lambda>i.
       if i \<noteq> -1 \<and> i \<noteq> 0 then
         bindR (tree_delete coll f p) (\<lambda>p.
         bindR (item_at p 0) (\<lambda>x.
         bindR (case i_file x of None \<Rightarrow> Inl Assert | Some g \<Rightarrow> tree_delete coll g p) (\<lambda>p.
         bindR (plist_swap 0 i p) (\<lambda>p.
         bindR (tree_insert coll 0 p) (tree_insert coll (nat i))))))
       else Inr p)"

definition plist_set_serial :: "int \<Rightarrow> plist \<Rightarrow> plist" where
  "plist_set_serial n p = p\<lparr>serial := n\<rparr>"

definition plist_get_serial :: "plist \<Rightarrow> int" where
  "plist_get_serial p = serial p"

fun last_from :: "plist \<Rightarrow> nat \<Rightarrow> int result" where
  "last_from p 0 = Inr 0"
| "last_from p (Suc i) = bindR (plist_deleted p (int (Suc i))) (\<lambda>d. if d then last_from p i else Inr (int (Suc i)))"

definition plist_last :: "plist \<Rightarrow> int result" where
  "plist_last p = (if num p = 0 then Inr (-1) else last_from p (num p - 1))"

definition plist_file_type :: "plist \<Rightarrow> int \<Rightarrow> file_type result" where
  "plist_file_type p i =
     bindR (guardR (i < int (num p)) Assert) (\<lambda>_. bindR (item_at p i) (\<lambda>x. Inr (i_type x)))"

definition plist_remove_common_items :: "(string \<Rightarrow> string \<Rightarrow> int) \<Rightarrow> plist \<Rightarrow> plist \<Rightarrow> plist result" where
  "plist_remove_common_items coll a b =
     foldR (\<lambda>i a.
       case i_file (items a ! i) of
         None \<Rightarrow> Inl Assert
       | Some f \<Rightarrow> bindR (plist_find_fname coll f b) (\<lambda>j. if j \<noteq> -1 then plist_delete (int i) a else Inr a))
     [0..<num a] a"

definition plist_discard_tags :: "plist \<Rightarrow> plist" where
  "plist_discard_tags p = p\<lparr>items := map (\<lambda>x. if \<not> i_deleted x then x\<lparr>i_tags := None\<rparr> else x) (items p),
     items_with_time := 0, total_time := 0\<rparr>"

definition plist_set_tags :: "int \<Rightarrow> file_tags \<Rightarrow> plist \<Rightarrow> plist result" where
  "plist_set_tags i tags p =
     bindR (limit i p) (\<lambda>_.
       let x = items p ! nat i in
       Inr (count_time (time tags) (uncount_time (item_time x)
         (set_item (nat i) (x\<lparr>i_tags := Some (tags_dup tags)\<rparr>) p))))"

definition plist_get_tags :: "plist \<Rightarrow> int \<Rightarrow> file_tags option result" where
  "plist_get_tags p i = bindR (limit i p) (\<lambda>_. Inr (map_option tags_dup (i_tags (items p ! nat i))))"

text \<open>The data of two nodes of the tree are exchanged where they stand.\<close>

fun from_left :: "'a step \<Rightarrow> bool" where
  "from_left (From_left c d r) = True"
| "from_left (From_right c d l) = False"

fun set_at :: "bool list \<Rightarrow> 'a \<Rightarrow> 'a rb_node \<Rightarrow> 'a rb_node" where
  "set_at ws d rb_null = rb_null"
| "set_at [] d (Node c e l r) = Node c d l r"
| "set_at (w # ws) d (Node c e l r) = (if w then Node c e (set_at ws d l) r else Node c e l (set_at ws d r))"

definition plist_swap_files :: "(string \<Rightarrow> string \<Rightarrow> int) \<Rightarrow> string \<Rightarrow> string \<Rightarrow> plist \<Rightarrow> plist result" where
  "plist_swap_files coll f g p =
     bindR (tree_search coll p f) (\<lambda>x1.
     bindR (tree_search coll p g) (\<lambda>x2.
       if \<not> rb_is_null x1 \<and> \<not> rb_is_null x2 then
         let i = n_data (fst x1); j = n_data (fst x2) in
         bindR (plist_swap (int i) (int j) p) (\<lambda>p.
         Inr (p\<lparr>search_tree_of := set_at (rev (map from_left (snd x2))) i
           (set_at (rev (map from_left (snd x1))) j (search_tree_of p))\<rparr>))
       else Inr p))"

definition plist_get_position :: "plist \<Rightarrow> int \<Rightarrow> int result" where
  "plist_get_position p i =
     bindR (limit i p) (\<lambda>_. Inr (1 + int (length (filter (\<lambda>x. \<not> i_deleted x) (take (nat i) (items p))))))"

end
