(* ===== verification/Plist_Spec.thy ===== *)
theory Plist_Spec
  imports Plist
begin

text \<open>
  Correctness of the playlist: the search tree finds the item of a name, the counters count the
  items, and every operation keeps both.
\<close>

section \<open>Invariants\<close>

definition time_of :: "plist_item \<Rightarrow> int" where
  "time_of x = (if item_time x = -1 then 0 else item_time x)"

definition index_ok :: "(string \<Rightarrow> string \<Rightarrow> int) \<Rightarrow> plist \<Rightarrow> bool" where
  "index_ok coll p \<longleftrightarrow> search_tree (rb_compare coll p) (search_tree_of p) \<and>
     (\<forall>i\<in>set (inorder (search_tree_of p)). named p i)"

definition counts_ok :: "plist \<Rightarrow> bool" where
  "counts_ok p \<longleftrightarrow> not_deleted p = (\<Sum>x\<leftarrow>items p. of_bool (\<not> i_deleted x))
     \<and> total_time p = (\<Sum>x\<leftarrow>items p. time_of x) \<and> items_with_time p = (\<Sum>x\<leftarrow>items p. of_bool (item_time x \<noteq> -1))
     \<and> (\<forall>x\<in>set (items p). i_deleted x \<longrightarrow> i_tags x = None)
     \<and> int (num p) \<le> allocated p \<and> 0 < allocated p"

text \<open>Every name on the list is in the tree.\<close>

definition complete :: "(string \<Rightarrow> string \<Rightarrow> int) \<Rightarrow> plist \<Rightarrow> bool" where
  "complete coll p \<longleftrightarrow>
     (\<forall>i. named p i \<longrightarrow> (\<exists>j\<in>set (inorder (search_tree_of p)). coll (name_at p i) (name_at p j) = 0))"

definition plist_inv :: "(string \<Rightarrow> string \<Rightarrow> int) \<Rightarrow> plist \<Rightarrow> bool" where
  "plist_inv coll p \<longleftrightarrow> index_ok coll p \<and> counts_ok p \<and> complete coll p"

lemmas inv_defs = plist_inv_def index_ok_def counts_ok_def complete_def

section \<open>The tree as an index\<close>

lemma search_tree_cong:
  assumes "\<And>a b. a \<in> set (inorder t) \<Longrightarrow> b \<in> set (inorder t) \<Longrightarrow> cmp a b = cmp' a b"
  shows "search_tree cmp t = search_tree cmp' t"
proof -
  have "sorted_wrt (\<lambda>a b. cmp a b < 0) xs = sorted_wrt (\<lambda>a b. cmp' a b < 0) xs"
    if "\<And>a b. a \<in> set xs \<Longrightarrow> b \<in> set xs \<Longrightarrow> cmp a b = cmp' a b" for xs
    using that by (induction xs) auto
  with assms show ?thesis by (simp add: search_tree_def)
qed

lemma visited_root: "set (visited (u, q)) \<subseteq> set (inorder (root_of u q))"
proof -
  have "step_data s \<in> set (inorder (root_of u q))" if "s \<in> set q" for s u q
    using that
  proof (induction q arbitrary: u)
    case (Cons s' q)
    have "step_data s' \<in> set (inorder (up u s'))" by (cases s') auto
    with Cons show ?case by (auto simp: inorder_root_of)
  qed simp
  then show ?thesis by (auto simp: visited_def inorder_root_of split: rb_node.splits)
qed

lemma visited_descend: "set (visited (descend c t [])) \<subseteq> set (inorder t)"
  using visited_root [of "fst (descend c t [])" "snd (descend c t [])"]
    descend_root [of c t "[]" "fst (descend c t [])" "snd (descend c t [])"] by simp

lemma visited_named: "index_ok coll p \<Longrightarrow> list_all (named p) (visited (descend c (search_tree_of p) []))"
  using visited_descend [of c "search_tree_of p"] by (auto simp: index_ok_def list_all_iff)

lemma names_order:
  "collation coll \<Longrightarrow> search_order (rb_compare coll p) (rb_fname_compare coll p)"
  unfolding rb_compare_def rb_fname_compare_def by (rule collation_search_order)

lemma tree_search_ok:
  assumes "collation coll" and "index_ok coll p"
  obtains u q where "tree_search coll p k = Inr (u, q)"
    and "if \<exists>i\<in>set (inorder (search_tree_of p)). coll k (name_at p i) = 0
      then u \<noteq> rb_null \<and> n_data u \<in> set (inorder (search_tree_of p)) \<and> coll k (name_at p (n_data u)) = 0
      else u = rb_null"
proof -
  obtain u q where x: "rb_search (rb_fname_compare coll p) k (search_tree_of p) = (u, q)" by fastforce
  have "tree_search coll p k = Inr (u, q)"
    using visited_named [OF assms(2), of "rb_fname_compare coll p k"] x
    by (simp add: tree_search_def rb_search_def Let_def)
  moreover have "if \<exists>i\<in>set (inorder (search_tree_of p)). rb_fname_compare coll p k i = 0
      then u \<noteq> rb_null \<and> n_data u \<in> set (inorder (search_tree_of p)) \<and> rb_fname_compare coll p k (n_data u) = 0
        \<and> root_of u q = search_tree_of p
      else u = rb_null"
    using assms(2) x by (intro search_order.search_key [OF names_order [OF assms(1)]]) (simp_all add: index_ok_def)
  ultimately show ?thesis using that by (auto simp: rb_fname_compare_def split: if_splits)
qed

lemma index_unique:
  assumes "collation coll" and "index_ok coll p" and "i \<in> set (inorder (search_tree_of p))" "j \<in> set (inorder (search_tree_of p))"
    and "coll k (name_at p i) = 0" "coll k (name_at p j) = 0"
  shows "i = j"
  using search_order.key_unique [OF names_order [OF assms(1)], of p "search_tree_of p" i j k] assms
  by (simp add: index_ok_def rb_fname_compare_def)

lemma find_found:
  assumes "collation coll" and "index_ok coll p" and "i \<in> set (inorder (search_tree_of p))" and "coll f (name_at p i) = 0"
  shows "plist_find_fname coll f p = Inr (if i_deleted (items p ! i) then -1 else int i)"
proof -
  obtain u q where s: "tree_search coll p f = Inr (u, q)" and u: "u \<noteq> rb_null"
    "n_data u \<in> set (inorder (search_tree_of p))" "coll f (name_at p (n_data u)) = 0"
    using tree_search_ok [OF assms(1,2), of f] assms(3,4) by metis
  then have "n_data u = i" using index_unique [OF assms(1,2)] assms(3,4) by blast
  with u(1) obtain c l r where "u = Node c i l r" by (cases u) auto
  moreover have "i < num p" using assms(2,3) by (auto simp: index_ok_def named_def)
  ultimately show ?thesis
    using s by (simp add: plist_find_fname_def plist_deleted_def limit_def item_at_def)
qed

lemma find_absent:
  assumes "collation coll" and "index_ok coll p" and "\<forall>i\<in>set (inorder (search_tree_of p)). coll f (name_at p i) \<noteq> 0"
  shows "plist_find_fname coll f p = Inr (-1)"
proof -
  obtain u q where "tree_search coll p f = Inr (u, q)" "u = rb_null"
    using tree_search_ok [OF assms(1,2), of f] assms(3) by metis
  then show ?thesis by (simp add: plist_find_fname_def)
qed

lemma tree_delete_ok:
  assumes "collation coll" and "index_ok coll p"
  shows "\<exists>t. tree_delete coll f p = Inr (p\<lparr>search_tree_of := t\<rparr>) \<and> search_tree (rb_compare coll p) t
    \<and> set (inorder t) = {i \<in> set (inorder (search_tree_of p)). coll f (name_at p i) \<noteq> 0}"
proof -
  obtain x where "tree_search coll p f = Inr x" using tree_search_ok [OF assms] by metis
  moreover obtain t where "rb_delete (rb_fname_compare coll p) f (search_tree_of p) = Inr t"
    "search_tree (rb_compare coll p) t"
    "inorder t = filter (\<lambda>x. rb_fname_compare coll p f x \<noteq> 0) (inorder (search_tree_of p))"
    using search_order.delete_key [OF names_order [OF assms(1)], of p "search_tree_of p" f] assms(2)
    by (auto simp: index_ok_def)
  ultimately show ?thesis by (auto simp: tree_delete_def rb_fname_compare_def)
qed

lemma tree_insert_ok:
  assumes "collation coll" and "index_ok coll p" and "named p i"
    and "\<forall>j\<in>set (inorder (search_tree_of p)). coll (name_at p i) (name_at p j) \<noteq> 0"
  shows "\<exists>t. tree_insert coll i p = Inr (p\<lparr>search_tree_of := t\<rparr>) \<and> search_tree (rb_compare coll p) t
    \<and> set (inorder t) = insert i (set (inorder (search_tree_of p)))"
proof -
  obtain t where "rb_insert (rb_compare coll p) i (search_tree_of p) = Inr t" "search_tree (rb_compare coll p) t"
    "set (inorder t) = insert i (set (inorder (search_tree_of p)))"
    using search_order.insert_absent [OF names_order [OF assms(1)], of p "search_tree_of p" i] assms(2,4)
    by (auto simp: index_ok_def rb_compare_def)
  then show ?thesis
    using assms(3) visited_named [OF assms(2)] by (auto simp: tree_insert_def)
qed

lemma tree_insert_abort:
  assumes "collation coll" and "index_ok coll p" and "named p i"
    and "j \<in> set (inorder (search_tree_of p))" "coll (name_at p i) (name_at p j) = 0"
  shows "tree_insert coll i p = Inl Abort"
  using search_order.insert_present [OF names_order [OF assms(1)], of p "search_tree_of p" j i] assms
    visited_named [OF assms(2)]
  by (auto simp: index_ok_def rb_compare_def tree_insert_def)

section \<open>Adding\<close>

text \<open>Names do not change when an item is appended or when an item keeps its file.\<close>

lemma named_append: "named (p\<lparr>items := items p @ xs, allocated := n\<rparr>) i \<longleftrightarrow>
    (if i < num p then named p i else i < num p + length xs \<and> i_file (xs ! (i - num p)) \<noteq> None)"
  by (auto simp: named_def nth_append)

lemma name_at_append: "i < num p \<Longrightarrow> name_at (p\<lparr>items := items p @ xs, allocated := n\<rparr>) i = name_at p i"
  by (simp add: name_at_def named_append nth_append)

lemma names_of_items:
  assumes "items p = items q"
  shows "named p = named q" "name_at p = name_at q" "rb_compare coll p = rb_compare coll q"
    "rb_fname_compare coll p = rb_fname_compare coll q"
  unfolding rb_compare_def rb_fname_compare_def name_at_def named_def assms by (rule refl)+

lemma names_tree [simp]: "rb_compare coll (p\<lparr>search_tree_of := t\<rparr>) = rb_compare coll p"
  "name_at (p\<lparr>search_tree_of := t\<rparr>) = name_at p" "named (p\<lparr>search_tree_of := t\<rparr>) = named p"
  by (rule names_of_items, simp)+

lemma names_count [simp]: "rb_compare coll (p\<lparr>not_deleted := n\<rparr>) = rb_compare coll p"
  "name_at (p\<lparr>not_deleted := n\<rparr>) = name_at p" "named (p\<lparr>not_deleted := n\<rparr>) = named p"
  by (rule names_of_items, simp)+

definition new_item :: "host_fs \<Rightarrow> string option \<Rightarrow> plist_item" where
  "new_item fs f = plist_new_item\<lparr>i_file := f,
     i_type := (case f of None \<Rightarrow> F_OTHER | Some f \<Rightarrow> file_type_of fs f),
     i_mtime := (case f of None \<Rightarrow> -1 | Some f \<Rightarrow> get_mtime fs f)\<rparr>"

lemma new_item_simps [simp]: "i_file (new_item fs f) = f" "i_deleted (new_item fs f) = False" "i_tags (new_item fs f) = None"
  "item_time (new_item fs f) = -1"
  by (simp_all add: new_item_def plist_new_item_def item_time_def)

text \<open>The list after an addition: the item at the end, and the tree with its index for the name.\<close>

definition grown :: "plist \<Rightarrow> plist_item \<Rightarrow> nat rb_node \<Rightarrow> plist" where
  "grown p x t = p\<lparr>items := items p @ [x], allocated := (if allocated p = int (num p) then allocated p * 2 else allocated p),
     search_tree_of := t, not_deleted := not_deleted p + 1\<rparr>"

lemma index_ok_append:
  assumes "index_ok coll p"
  shows "index_ok coll (p\<lparr>items := items p @ [x], allocated := n\<rparr>)"
proof -
  let ?p = "p\<lparr>items := items p @ [x], allocated := n\<rparr>"
  have lt: "i < num p" if "i \<in> set (inorder (search_tree_of p))" for i
    using that assms by (auto simp: index_ok_def named_def)
  have "search_tree (rb_compare coll ?p) (search_tree_of p) = search_tree (rb_compare coll p) (search_tree_of p)"
    using lt by (intro search_tree_cong) (simp add: rb_compare_def name_at_append)
  then show ?thesis using assms lt by (auto simp: index_ok_def named_append)
qed

lemma plist_add_Some:
  assumes "collation coll" and "index_ok coll p"
  shows "\<exists>t. plist_add fs coll (Some f) p = Inr (num p, grown p (new_item fs (Some f)) t)
    \<and> index_ok coll (grown p (new_item fs (Some f)) t)
    \<and> set (inorder t) = insert (num p) {i \<in> set (inorder (search_tree_of p)). coll f (name_at p i) \<noteq> 0}"
proof -
  let ?x = "new_item fs (Some f)" and ?T = "set (inorder (search_tree_of p))"
  define n where "n = (if allocated p = int (num p) then allocated p * 2 else allocated p)"
  let ?p = "p\<lparr>items := items p @ [?x], allocated := n\<rparr>"
  have ok: "index_ok coll ?p" by (rule index_ok_append [OF assms(2)])
  have nm: "named ?p (num p)" "name_at ?p (num p) = f"
    by (simp_all add: named_append name_at_def)
  have lt: "i < num p" if "i \<in> ?T" for i
    using that assms(2) by (auto simp: index_ok_def named_def)
  have keep: "{i \<in> ?T. coll f (name_at ?p i) \<noteq> 0} = {i \<in> ?T. coll f (name_at p i) \<noteq> 0}"
    using lt by (auto simp: name_at_append)
  obtain t1 where t1: "tree_delete coll f ?p = Inr (?p\<lparr>search_tree_of := t1\<rparr>)" "search_tree (rb_compare coll ?p) t1"
    "set (inorder t1) = {i \<in> ?T. coll f (name_at p i) \<noteq> 0}"
    using tree_delete_ok [OF assms(1) ok, of f] keep by auto
  have ok1: "index_ok coll (?p\<lparr>search_tree_of := t1\<rparr>)"
    using ok t1(2,3) unfolding index_ok_def by auto
  obtain t2 where t2: "tree_insert coll (num p) (?p\<lparr>search_tree_of := t1\<rparr>) = Inr (?p\<lparr>search_tree_of := t2\<rparr>)"
    "search_tree (rb_compare coll ?p) t2" "set (inorder t2) = insert (num p) (set (inorder t1))"
    using tree_insert_ok [OF assms(1) ok1, of "num p"] nm t1(3) lt by (auto simp: name_at_append)
  have "plist_add fs coll (Some f) p = Inr (num p, grown p ?x t2)"
    using t1(1) t2(1) by (simp add: plist_add_def grown_def Let_def n_def new_item_def)
  moreover have "index_ok coll (grown p ?x t2)"
  proof -
    have "grown p ?x t2 = ?p\<lparr>search_tree_of := t2, not_deleted := not_deleted p + 1\<rparr>" by (simp add: grown_def n_def)
    then show ?thesis using ok ok1 t2 nm(1) unfolding index_ok_def by auto
  qed
  ultimately show ?thesis using t1(3) t2(3) by auto
qed

lemma counts_grown:
  assumes "counts_ok p" and "\<not> i_deleted x"
  shows "counts_ok (count_time (item_time x) (grown p x t))"
  using assms by (auto simp: counts_ok_def count_time_def grown_def time_of_def)

lemma name_at_grown:
  "i < num p \<Longrightarrow> name_at (grown p x t) i = name_at p i"
  "i < num p \<Longrightarrow> named (grown p x t) i = named p i"
  "named (grown p x t) (num p) = (i_file x \<noteq> None)"
  "i_file x = Some f \<Longrightarrow> name_at (grown p x t) (num p) = f"
  "num p < i \<Longrightarrow> \<not> named (grown p x t) i"
  by (auto simp: grown_def name_at_def named_def nth_append)

lemma complete_grown:
  assumes c: "collation coll" and "complete coll p" and x: "i_file x = Some f"
    and t: "set (inorder t) = insert (num p) {i \<in> set (inorder (search_tree_of p)). coll f (name_at p i) \<noteq> 0}"
    and lt: "\<forall>i\<in>set (inorder (search_tree_of p)). i < num p"
  shows "complete coll (grown p x t)"
  unfolding complete_def
proof (intro allI impI)
  fix i
  assume i: "named (grown p x t) i"
  have st: "search_tree_of (grown p x t) = t" by (simp add: grown_def)
  show "\<exists>j\<in>set (inorder (search_tree_of (grown p x t))). coll (name_at (grown p x t) i) (name_at (grown p x t) j) = 0"
  proof (cases "i < num p")
    case True
    then obtain j where j: "j \<in> set (inorder (search_tree_of p))" "coll (name_at p i) (name_at p j) = 0"
      using assms(2) i by (auto simp: complete_def name_at_grown)
    show ?thesis
    proof (cases "coll f (name_at p j) = 0")
      case False
      then show ?thesis using j t lt True by (intro bexI [of _ j]) (auto simp: st name_at_grown)
    next
      case e: True
      have "coll (name_at p i) f = 0"
        using collation.eq_trans [OF c j(2) collation.sym [OF c e]] .
      then show ?thesis using t True x by (intro bexI [of _ "num p"]) (auto simp: st name_at_grown)
    qed
  next
    case False
    then have "i = num p" using i name_at_grown(5) [of p i x t] by (cases "num p < i") auto
    then show ?thesis using t x collation.refl [OF c] by (intro bexI [of _ "num p"]) (auto simp: st name_at_grown)
  qed
qed

lemma plist_add_inv:
  assumes "collation coll" and "plist_inv coll p"
  shows "\<exists>t. plist_add fs coll (Some f) p = Inr (num p, grown p (new_item fs (Some f)) t)
    \<and> plist_inv coll (grown p (new_item fs (Some f)) t)
    \<and> set (inorder t) = insert (num p) {i \<in> set (inorder (search_tree_of p)). coll f (name_at p i) \<noteq> 0}"
proof -
  have ok: "index_ok coll p" "counts_ok p" "complete coll p" using assms(2) by (auto simp: plist_inv_def)
  then have lt: "\<forall>i\<in>set (inorder (search_tree_of p)). i < num p" by (auto simp: index_ok_def named_def)
  obtain t where t: "plist_add fs coll (Some f) p = Inr (num p, grown p (new_item fs (Some f)) t)"
    "index_ok coll (grown p (new_item fs (Some f)) t)"
    "set (inorder t) = insert (num p) {i \<in> set (inorder (search_tree_of p)). coll f (name_at p i) \<noteq> 0}"
    using plist_add_Some [OF assms(1) ok(1)] by blast
  moreover have "counts_ok (grown p (new_item fs (Some f)) t)"
    using counts_grown [OF ok(2), of "new_item fs (Some f)" t] by (simp add: count_time_def)
  ultimately show ?thesis
    using complete_grown [OF assms(1) ok(3) _ t(3) lt, of "new_item fs (Some f)"] by (auto simp: plist_inv_def)
qed

section \<open>Changing one item\<close>

lemma sum_update:
  "i < length xs \<Longrightarrow> (\<Sum>y\<leftarrow>xs[i := x]. f y) = (\<Sum>y\<leftarrow>xs. f y) + f x - (f (xs ! i) :: int)"
  by (induction xs arbitrary: i) (auto split: nat.split)

lemma sum_ge_elem: "i < length xs \<Longrightarrow> (\<And>x. 0 \<le> f x) \<Longrightarrow> f (xs ! i) \<le> (\<Sum>y\<leftarrow>xs. (f y :: int))"
proof (induction xs arbitrary: i)
  case (Cons x xs)
  have "0 \<le> (\<Sum>y\<leftarrow>xs. f y)" using Cons.prems(2) by (intro sum_list_nonneg) auto
  moreover have "0 \<le> f x" by (rule Cons.prems(2))
  ultimately show ?case using Cons by (cases i) (fastforce simp: add_increasing)+
qed simp

lemma names_set_item:
  assumes "i < num p" and "i_file x = i_file (items p ! i)"
  shows "named (set_item i x p) = named p" "name_at (set_item i x p) = name_at p"
proof -
  show n: "named (set_item i x p) = named p"
    using assms by (auto simp: named_def set_item_def nth_list_update fun_eq_iff)
  show "name_at (set_item i x p) = name_at p"
    unfolding name_at_def n using assms by (auto simp: set_item_def nth_list_update named_def fun_eq_iff)
qed

text \<open>The tree part of the invariant depends on the names and the tree only.\<close>

lemma index_complete_cong:
  assumes "named p = named q" "name_at p = name_at q" "search_tree_of p = search_tree_of q"
  shows "index_ok coll p = index_ok coll q" "complete coll p = complete coll q"
  using assms by (simp_all add: index_ok_def complete_def rb_compare_def)

lemma set_item_simps [simp]: "search_tree_of (set_item i x p) = search_tree_of p" "num (set_item i x p) = num p"
  "items (set_item i x p) = (items p)[i := x]" "not_deleted (set_item i x p) = not_deleted p"
  "total_time (set_item i x p) = total_time p" "items_with_time (set_item i x p) = items_with_time p"
  "allocated (set_item i x p) = allocated p"
  by (simp_all add: set_item_def)

lemma count_simps [simp]: "items (count_time t p) = items p" "search_tree_of (count_time t p) = search_tree_of p"
  "not_deleted (count_time t p) = not_deleted p" "allocated (count_time t p) = allocated p"
  "items (uncount_time t p) = items p" "search_tree_of (uncount_time t p) = search_tree_of p"
  "not_deleted (uncount_time t p) = not_deleted p" "allocated (uncount_time t p) = allocated p"
  "total_time (count_time t p) = total_time p + (if t = -1 then 0 else t)"
  "total_time (uncount_time t p) = total_time p - (if t = -1 then 0 else t)"
  "items_with_time (count_time t p) = items_with_time p + of_bool (t \<noteq> -1)"
  "items_with_time (uncount_time t p) = items_with_time p - of_bool (t \<noteq> -1)"
  by (simp_all add: count_time_def uncount_time_def)

text \<open>
  Replacing an item by one with the same file keeps the invariant when the counters follow.
\<close>

lemma replace_item_inv:
  assumes inv: "plist_inv coll p" and i: "i < num p" and x: "i_file x = i_file (items p ! i)"
    and q: "items q = (items p)[i := x]" "search_tree_of q = search_tree_of p" "allocated q = allocated p"
    and nd: "not_deleted q = not_deleted p + of_bool (\<not> i_deleted x) - of_bool (\<not> i_deleted (items p ! i))"
    and tt: "total_time q = total_time p + time_of x - time_of (items p ! i)"
    and wt: "items_with_time q = items_with_time p + of_bool (item_time x \<noteq> -1) - of_bool (item_time (items p ! i) \<noteq> -1)"
    and dl: "i_deleted x \<longrightarrow> i_tags x = None"
  shows "plist_inv coll q"
proof -
  have "items q = items (set_item i x p)" using q(1) by simp
  from names_of_items [OF this] have n: "named q = named p" "name_at q = name_at p"
    using names_set_item [OF i x] by simp_all
  have "counts_ok q"
    using inv nd tt wt dl q i set_update_subset_insert [of "items p" i x]
    by (auto simp: plist_inv_def counts_ok_def sum_update)
  moreover have "index_ok coll q" "complete coll q"
    using index_complete_cong [OF n q(2)] inv by (simp_all add: plist_inv_def)
  ultimately show ?thesis by (simp add: plist_inv_def)
qed

lemma limit_ok [simp]: "i < num p \<Longrightarrow> limit (int i) p = Inr ()"
  by (simp add: limit_def)

definition dead_item :: "plist_item \<Rightarrow> plist_item" where
  "dead_item x = (plist_free_item_fields x)\<lparr>i_file := i_file x, i_deleted := True\<rparr>"

lemma dead_item_simps [simp]: "i_file (dead_item x) = i_file x" "i_deleted (dead_item x)" "i_tags (dead_item x) = None"
  "item_time (dead_item x) = -1" "time_of (dead_item x) = 0"
  by (simp_all add: dead_item_def plist_free_item_fields_def item_time_def time_of_def)

lemma live_count_pos:
  assumes "counts_ok p" "i < num p" "\<not> i_deleted (items p ! i)"
  shows "0 < not_deleted p"
proof -
  have "of_bool (\<not> i_deleted (items p ! i)) \<le> (\<Sum>x\<leftarrow>items p. (of_bool (\<not> i_deleted x) :: int))"
    using assms(2) by (intro sum_ge_elem) auto
  with assms show ?thesis by (simp add: counts_ok_def)
qed

lemma plist_delete_inv:
  assumes "plist_inv coll p" and "i < num p" and "\<not> i_deleted (items p ! i)"
  shows "\<exists>q. plist_delete (int i) p = Inr q \<and> plist_inv coll q \<and> items q = (items p)[i := dead_item (items p ! i)]
    \<and> search_tree_of q = search_tree_of p"
proof -
  let ?x = "items p ! i"
  let ?q = "(set_item i (dead_item ?x) (uncount_time (item_time ?x) p))\<lparr>not_deleted := not_deleted p - 1\<rparr>"
  have "0 < not_deleted p" using live_count_pos assms by (auto simp: plist_inv_def)
  then have "plist_delete (int i) p = Inr ?q"
    using assms(2,3) by (simp add: plist_delete_def item_at_def dead_item_def Let_def)
  moreover have "plist_inv coll ?q"
    by (rule replace_item_inv [OF assms(1,2), where x = "dead_item ?x"]) (simp_all add: assms(3) time_of_def [of ?x])
  ultimately show ?thesis by auto
qed

lemma plist_set_tags_inv:
  assumes "plist_inv coll p" and "i < num p" and "\<not> i_deleted (items p ! i)"
  shows "\<exists>q. plist_set_tags (int i) tags p = Inr q \<and> plist_inv coll q
    \<and> items q = (items p)[i := (items p ! i)\<lparr>i_tags := Some (tags_dup tags)\<rparr>]"
proof -
  let ?x = "items p ! i" and ?y = "(items p ! i)\<lparr>i_tags := Some (tags_dup tags)\<rparr>"
  let ?q = "count_time (time tags) (uncount_time (item_time ?x) (set_item i ?y p))"
  have y: "item_time ?y = time tags" by (simp add: item_time_def tags_dup_def tags_copy_def)
  have "plist_inv coll ?q"
    by (rule replace_item_inv [OF assms(1,2), where x = ?y]) (simp_all add: assms(3) time_of_def y)
  then show ?thesis using assms(2) by (simp add: plist_set_tags_def Let_def)
qed

lemma plist_set_item_time_inv:
  assumes "plist_inv coll p" and "i < num p" and "\<not> i_deleted (items p ! i)"
  shows "\<exists>q. plist_set_item_time (int i) t p = Inr q \<and> plist_inv coll q \<and> item_time (items q ! i) = t"
proof -
  let ?x = "items p ! i"
  let ?tg = "case i_tags ?x of None \<Rightarrow> tags_new | Some tg \<Rightarrow> tg"
  let ?y = "?x\<lparr>i_tags := Some (?tg\<lparr>time := t, filled := filled ?tg OR TAGS_TIME\<rparr>)\<rparr>"
  let ?q = "set_item i ?y (count_time t (uncount_time (item_time ?x) p))"
  have y: "item_time ?y = t" by (simp add: item_time_def)
  have "plist_inv coll ?q"
    by (rule replace_item_inv [OF assms(1,2), where x = ?y]) (simp_all add: assms(3) time_of_def y)
  then show ?thesis using assms(2) y by (simp add: plist_set_item_time_def Let_def)
qed

lemma plist_set_title_inv:
  assumes "plist_inv coll p" and "i < num p"
  shows "\<exists>q. plist_set_title_tags (int i) t p = Inr q \<and> plist_inv coll q"
    and "\<exists>q. plist_set_title_file (int i) t p = Inr q \<and> plist_inv coll q"
proof -
  have d: "i_deleted (items p ! i) \<longrightarrow> i_tags (items p ! i) = None"
    using assms by (auto simp: plist_inv_def counts_ok_def)
  have "plist_inv coll (set_item i ((items p ! i)\<lparr>i_title_tags := t\<rparr>) p)"
    by (rule replace_item_inv [OF assms, where x = "(items p ! i)\<lparr>i_title_tags := t\<rparr>"])
      (simp_all add: d time_of_def item_time_def)
  moreover have "plist_inv coll (set_item i ((items p ! i)\<lparr>i_title_file := t\<rparr>) p)"
    by (rule replace_item_inv [OF assms, where x = "(items p ! i)\<lparr>i_title_file := t\<rparr>"])
      (simp_all add: d time_of_def item_time_def)
  ultimately show "\<exists>q. plist_set_title_tags (int i) t p = Inr q \<and> plist_inv coll q"
    and "\<exists>q. plist_set_title_file (int i) t p = Inr q \<and> plist_inv coll q"
    using assms(2) by (simp_all add: plist_set_title_tags_def plist_set_title_file_def)
qed

lemma sum_zero: "\<forall>x\<in>set xs. g x = 0 \<Longrightarrow> (\<Sum>x\<leftarrow>xs. g x) = (0 :: int)"
  by (induction xs) auto

definition untagged :: "plist_item \<Rightarrow> plist_item" where
  "untagged x = (if \<not> i_deleted x then x\<lparr>i_tags := None\<rparr> else x)"

lemma untagged_simps [simp]: "i_file (untagged x) = i_file x" "i_deleted (untagged x) = i_deleted x"
  by (simp_all add: untagged_def)

lemma plist_discard_tags_inv:
  assumes "plist_inv coll p"
  shows "plist_inv coll (plist_discard_tags p)"
proof -
  have q: "plist_discard_tags p = p\<lparr>items := map untagged (items p), items_with_time := 0, total_time := 0\<rparr>"
    by (simp add: plist_discard_tags_def untagged_def [abs_def])
  have n: "named (plist_discard_tags p) = named p" "name_at (plist_discard_tags p) = name_at p"
    by (auto simp: fun_eq_iff named_def name_at_def q)
  have dl: "\<forall>x\<in>set (items p). i_deleted x \<longrightarrow> i_tags x = None" using assms by (simp add: plist_inv_def counts_ok_def)
  then have u: "\<forall>x\<in>set (items p). i_tags (untagged x) = None" by (simp add: untagged_def)
  then have "(\<Sum>x\<leftarrow>items p. time_of (untagged x)) = 0"
    and "(\<Sum>x\<leftarrow>items p. of_bool (item_time (untagged x) \<noteq> -1)) = (0::int)"
    by (auto intro!: sum_zero simp: item_time_def time_of_def)
  then have "counts_ok (plist_discard_tags p)"
    using assms u by (auto simp: plist_inv_def counts_ok_def q comp_def)
  then show ?thesis
    using index_complete_cong [OF n] assms by (simp add: plist_inv_def q)
qed

lemma plist_init_inv: "plist_inv coll plist_init"
  by (simp add: inv_defs plist_init_def rb_init_tree_def named_def INIT_SIZE_def)

lemma plist_clear_inv: "plist_inv coll (plist_clear p)"
  by (simp add: inv_defs plist_clear_def rb_clear_def named_def INIT_SIZE_def)

section \<open>Copying an item\<close>

lemma item_copy_simps [simp]: "i_file (plist_item_copy d x) = i_file x" "i_deleted (plist_item_copy d x) = i_deleted x"
  "item_time (plist_item_copy d x) = item_time x" "i_tags (plist_item_copy d x) = map_option tags_dup (i_tags x)"
  by (auto simp: plist_item_copy_def item_time_def tags_dup_def tags_copy_def split: option.split)

lemma plist_add_from_item_inv:
  assumes "collation coll" and "plist_inv coll p" and "i_file x = Some f" and "\<not> i_deleted x"
  shows "\<exists>q. plist_add_from_item fs coll x p = Inr (num p, q) \<and> plist_inv coll q
    \<and> items q = items p @ [plist_item_copy (new_item fs (Some f)) x]
    \<and> set (inorder (search_tree_of q)) = insert (num p) {i \<in> set (inorder (search_tree_of p)). coll f (name_at p i) \<noteq> 0}"
proof -
  let ?n = "new_item fs (Some f)" and ?y = "plist_item_copy (new_item fs (Some f)) x"
  obtain t where t: "plist_add fs coll (Some f) p = Inr (num p, grown p ?n t)" "plist_inv coll (grown p ?n t)"
    "set (inorder t) = insert (num p) {i \<in> set (inorder (search_tree_of p)). coll f (name_at p i) \<noteq> 0}"
    using plist_add_inv [OF assms(1,2)] by blast
  let ?g = "grown p ?n t"
  let ?q = "count_time (item_time x) (set_item (num p) ?y ?g)"
  have g: "num p < num ?g" "items ?g ! num p = ?n" "items ?g = items p @ [?n]" by (simp_all add: grown_def)
  have "plist_inv coll ?q"
    by (rule replace_item_inv [OF t(2) g(1), where x = ?y]) (simp_all add: g(2) assms(3,4) time_of_def)
  moreover have "plist_add_from_item fs coll x p = Inr (num p, ?q)"
    using t(1) g assms(3) by (simp add: plist_add_from_item_def item_at_def)
  ultimately show ?thesis using t(3) by (auto simp: grown_def)
qed

section \<open>Lists without duplicates\<close>

text \<open>
  A store into which elements are put only when their key is not found: what a list built that
  way has is the union of the keys. The contract is that of a lookup and an insertion.
\<close>

locale guarded_store =
  fixes ok :: "'s \<Rightarrow> bool" and has :: "'s \<Rightarrow> 'k \<Rightarrow> bool" and same :: "'k \<Rightarrow> 'k \<Rightarrow> bool"
    and find :: "'k \<Rightarrow> 's \<Rightarrow> int result" and add :: "'x \<Rightarrow> 's \<Rightarrow> 's result"
    and key :: "'x \<Rightarrow> 'k" and good :: "'x \<Rightarrow> bool"
  assumes find_has: "ok s \<Longrightarrow> \<exists>j. find k s = Inr j \<and> (j \<noteq> -1 \<longleftrightarrow> has s k)"
    and add_new: "ok s \<Longrightarrow> good x \<Longrightarrow> \<not> has s (key x) \<Longrightarrow>
      \<exists>s'. add x s = Inr s' \<and> ok s' \<and> (\<forall>k. has s' k \<longleftrightarrow> has s k \<or> same k (key x))"
    and has_same: "ok s \<Longrightarrow> has s k' \<Longrightarrow> same k k' \<Longrightarrow> has s k"
begin

lemma fill:
  assumes "ok s" and "\<forall>x\<in>set xs. good x"
  shows "\<exists>s'. foldR (\<lambda>x s. bindR (find (key x) s) (\<lambda>j. if j = -1 then add x s else Inr s)) xs s = Inr s'
    \<and> ok s' \<and> (\<forall>k. has s' k \<longleftrightarrow> has s k \<or> (\<exists>x\<in>set xs. same k (key x)))"
  using assms
proof (induction xs arbitrary: s)
  case (Cons x xs)
  obtain j where j: "find (key x) s = Inr j" "j \<noteq> -1 \<longleftrightarrow> has s (key x)" using find_has [OF Cons.prems(1)] by blast
  show ?case
  proof (cases "j = -1")
    case True
    then obtain s1 where s1: "add x s = Inr s1" "ok s1" "\<forall>k. has s1 k \<longleftrightarrow> has s k \<or> same k (key x)"
      using add_new [OF Cons.prems(1), of x] Cons.prems(2) j by auto
    with Cons.IH [of s1] Cons.prems(2) j True show ?thesis by auto
  next
    case False
    then have "same k (key x) \<Longrightarrow> has s k" for k
      using has_same [OF Cons.prems(1), of "key x" k] j by blast
    with Cons.IH [of s] Cons.prems j False show ?thesis by auto
  qed
qed simp

end

definition has_name :: "(string \<Rightarrow> string \<Rightarrow> int) \<Rightarrow> plist \<Rightarrow> string \<Rightarrow> bool" where
  "has_name coll p k \<longleftrightarrow> (\<exists>i. named p i \<and> \<not> i_deleted (items p ! i) \<and> coll k (name_at p i) = 0)"

definition plist_uniq :: "(string \<Rightarrow> string \<Rightarrow> int) \<Rightarrow> plist \<Rightarrow> bool" where
  "plist_uniq coll p \<longleftrightarrow> plist_inv coll p \<and>
     (\<forall>i. named p i \<and> \<not> i_deleted (items p ! i) \<longrightarrow> i \<in> set (inorder (search_tree_of p)))"

lemma find_has_name:
  assumes "collation coll" and "plist_uniq coll p"
  shows "\<exists>j. plist_find_fname coll k p = Inr j \<and> (j \<noteq> -1 \<longleftrightarrow> has_name coll p k)"
proof -
  have ok: "index_ok coll p" using assms(2) by (simp add: plist_uniq_def plist_inv_def)
  let ?T = "set (inorder (search_tree_of p))"
  have live: "named p i \<Longrightarrow> \<not> i_deleted (items p ! i) \<Longrightarrow> i \<in> ?T" for i
    using assms(2) by (simp add: plist_uniq_def)
  show ?thesis
  proof (cases "\<exists>i\<in>?T. coll k (name_at p i) = 0")
    case True
    then obtain i where i: "i \<in> ?T" "coll k (name_at p i) = 0" by blast
    have "has_name coll p k \<longleftrightarrow> \<not> i_deleted (items p ! i)"
      using i ok live index_unique [OF assms(1) ok _ i(1)] unfolding has_name_def index_ok_def by blast
    then show ?thesis using find_found [OF assms(1) ok i] by auto
  next
    case False
    then show ?thesis using find_absent [OF assms(1) ok] live unfolding has_name_def by blast
  qed
qed

lemma add_item_uniq:
  assumes "collation coll" and "plist_uniq coll p" and "i_file x = Some f" "\<not> i_deleted x" and "\<not> has_name coll p f"
  shows "\<exists>q. plist_add_from_item fs coll x p = Inr (num p, q) \<and> plist_uniq coll q
    \<and> (\<forall>k. has_name coll q k \<longleftrightarrow> has_name coll p k \<or> coll k f = 0)"
proof -
  have inv: "plist_inv coll p" using assms(2) by (simp add: plist_uniq_def)
  obtain q where q: "plist_add_from_item fs coll x p = Inr (num p, q)" "plist_inv coll q"
    "items q = items p @ [plist_item_copy (new_item fs (Some f)) x]"
    "set (inorder (search_tree_of q)) = insert (num p) {i \<in> set (inorder (search_tree_of p)). coll f (name_at p i) \<noteq> 0}"
    using plist_add_from_item_inv [OF assms(1) inv assms(3,4)] by blast
  let ?y = "plist_item_copy (new_item fs (Some f)) x"
  have n: "named q i \<longleftrightarrow> (if i < num p then named p i else i = num p)" for i
    using q(3) assms(3) by (auto simp: named_def nth_append)
  have nm: "name_at q i = (if i < num p then name_at p i else if i = num p then f else [])" for i
    using q(3) assms(3) unfolding name_at_def n by (auto simp: nth_append named_def)
  have d: "i_deleted (items q ! i) \<longleftrightarrow> i_deleted (items p ! i)" if "i < num p" for i
    using that q(3) by (simp add: nth_append)
  have d': "\<not> i_deleted (items q ! num p)" using q(3) assms(4) by simp
  have "plist_uniq coll q"
    using q(2) assms(2,5) q(4) n d unfolding plist_uniq_def has_name_def by (auto simp: named_def)
  moreover have "has_name coll q k \<longleftrightarrow> has_name coll p k \<or> coll k f = 0" for k
  proof
    show "has_name coll q k \<Longrightarrow> has_name coll p k \<or> coll k f = 0"
      unfolding has_name_def n nm using d by (auto split: if_splits)
    have "has_name coll q k" if "named p i" "\<not> i_deleted (items p ! i)" "coll k (name_at p i) = 0" for i
      unfolding has_name_def n nm using that d by (intro exI [of _ i]) (auto simp: named_def)
    moreover have "has_name coll q k" if "coll k f = 0"
      unfolding has_name_def n nm using that d' by (intro exI [of _ "num p"]) auto
    ultimately show "has_name coll p k \<or> coll k f = 0 \<Longrightarrow> has_name coll q k"
      unfolding has_name_def [of coll p] by blast
  qed
  ultimately show ?thesis using q(1) by blast
qed

lemma has_name_same: "collation coll \<Longrightarrow> has_name coll p k' \<Longrightarrow> coll k k' = 0 \<Longrightarrow> has_name coll p k"
  unfolding has_name_def by (metis collation.eq_trans)

text \<open>The playlist meets the contract.\<close>

lemma plist_guarded_store:
  "collation coll \<Longrightarrow> guarded_store (plist_uniq coll) (has_name coll) (\<lambda>k k'. coll k k' = 0) (plist_find_fname coll)
     (\<lambda>x p. bindR (plist_add_from_item fs coll x p) (\<lambda>(_, q). Inr q)) (\<lambda>x. the (i_file x))
     (\<lambda>x. i_file x \<noteq> None \<and> \<not> i_deleted x)"
proof (intro guarded_store.intro)
  fix s and x :: plist_item
  assume c: "collation coll" and "plist_uniq coll s" "i_file x \<noteq> None \<and> \<not> i_deleted x" "\<not> has_name coll s (the (i_file x))"
  then show "\<exists>s'. bindR (plist_add_from_item fs coll x s) (\<lambda>(_, q). Inr q) = Inr s' \<and> plist_uniq coll s'
      \<and> (\<forall>k. has_name coll s' k \<longleftrightarrow> has_name coll s k \<or> coll k (the (i_file x)) = 0)"
    using add_item_uniq [OF c, of s x "the (i_file x)" fs] by auto
qed (auto intro: find_has_name has_name_same)

interpretation strcmp_list: guarded_store "plist_uniq strcmp" "has_name strcmp" "\<lambda>k k'. strcmp k k' = 0"
    "plist_find_fname strcmp" "\<lambda>x p. bindR (plist_add_from_item fs strcmp x p) (\<lambda>(_, q). Inr q)"
    "\<lambda>x. the (i_file x)" "\<lambda>x. i_file x \<noteq> None \<and> \<not> i_deleted x" for fs
  by (rule plist_guarded_store [OF strcmp.collation_axioms])

lemma plist_cat_as_fill:
  "\<forall>x\<in>set (items b). i_file x \<noteq> None \<Longrightarrow> plist_cat fs coll a b =
    foldR (\<lambda>x s. bindR (plist_find_fname coll (the (i_file x)) s)
      (\<lambda>j. if j = -1 then bindR (plist_add_from_item fs coll x s) (\<lambda>(_, q). Inr q) else Inr s))
      (filter (\<lambda>x. \<not> i_deleted x) (items b)) a"
proof -
  have "\<forall>x\<in>set xs. i_file x \<noteq> None \<Longrightarrow> foldR (\<lambda>x a. case i_file x of None \<Rightarrow> Inl Assert
      | Some f \<Rightarrow> if i_deleted x then Inr a else bindR (plist_find_fname coll f a) (\<lambda>j.
             if j = -1 then bindR (plist_add_from_item fs coll x a) (\<lambda>(_, a). Inr a) else Inr a)) xs a =
    foldR (\<lambda>x s. bindR (plist_find_fname coll (the (i_file x)) s)
      (\<lambda>j. if j = -1 then bindR (plist_add_from_item fs coll x s) (\<lambda>(_, q). Inr q) else Inr s))
      (filter (\<lambda>x. \<not> i_deleted x) xs) a" for xs
    by (induction xs arbitrary: a) (auto intro!: bindR_cong)
  then show "\<forall>x\<in>set (items b). i_file x \<noteq> None \<Longrightarrow> ?thesis" by (simp add: plist_cat_def)
qed

end
