(* ===== verification/Plist_Order.thy ===== *)
theory Plist_Order
  imports Plist_Spec "HOL-Library.Multiset"
begin

text \<open>
  The operations of the playlist that change the order of its items: exchanging two files, moving a
  file to the front, shuffling and sorting; and those that work with a second list. Each of them
  keeps the invariant of the list. Exchanges keep the contents of the array, so that
  the counters stay right; the search tree follows the indices or is built anew.
\<close>

section \<open>Exchanging two items\<close>

definition swp :: "nat \<Rightarrow> nat \<Rightarrow> nat \<Rightarrow> nat" where
  "swp i j k = (if k = i then j else if k = j then i else k)"

lemma swp_swp [simp]: "swp i j (swp i j k) = k"
  by (simp add: swp_def)

lemma swp_ends [simp]: "swp i j i = j" "swp i j j = i"
  by (simp_all add: swp_def)

lemma swp_same [simp]: "swp i i k = k"
  by (simp add: swp_def)

definition swapped :: "nat \<Rightarrow> nat \<Rightarrow> plist \<Rightarrow> plist" where
  "swapped i j p = p\<lparr>items := (items p)[i := items p ! j, j := items p ! i]\<rparr>"

lemma swapped_simps [simp]: "search_tree_of (swapped i j p) = search_tree_of p" "num (swapped i j p) = num p"
  "items (swapped i j p) = (items p)[i := items p ! j, j := items p ! i]"
  by (simp_all add: swapped_def)

lemma swapped_same: "swapped i i p = p"
  by (simp add: swapped_def)

lemma swapped_nth:
  "i < num p \<Longrightarrow> j < num p \<Longrightarrow> k < num p \<Longrightarrow> items (swapped i j p) ! swp i j k = items p ! k"
  by (auto simp: swp_def nth_list_update)

lemma swapped_names:
  assumes "i < num p" "j < num p"
  shows "named (swapped i j p) (swp i j k) = named p k" "name_at (swapped i j p) (swp i j k) = name_at p k"
proof -
  have "swp i j k < num p \<longleftrightarrow> k < num p" using assms by (auto simp: swp_def)
  then show n: "named (swapped i j p) (swp i j k) = named p k"
    using swapped_nth [OF assms, of k] by (auto simp: named_def)
  show "name_at (swapped i j p) (swp i j k) = name_at p k"
    unfolding name_at_def n using swapped_nth [OF assms, of k] by (auto simp: named_def)
qed

lemma plist_swap_ok:
  "i < num p \<Longrightarrow> j < num p \<Longrightarrow> plist_swap (int i) (int j) p = Inr (swapped i j p)"
  by (auto simp: plist_swap_def swapped_def)

lemma plist_swapE:
  assumes "plist_swap a b p = Inr q"
  obtains i j where "a = int i" "b = int j" "i < num p" "j < num p" "q = swapped i j p"
proof -
  have ab: "0 \<le> a" "a < int (num p)" "0 \<le> b" "b < int (num p)"
    using assms by (auto simp: plist_swap_def limit_def bindR_eq_Inr)
  then show ?thesis
    using that [of "nat a" "nat b"] plist_swap_ok [of "nat a" p "nat b"] assms by (simp add: nat_less_iff)
qed

text \<open>The counters depend on the items but not on their order.\<close>

lemma counts_perm:
  assumes "counts_ok p" and "mset (items q) = mset (items p)" and "not_deleted q = not_deleted p" "total_time q = total_time p"
    "items_with_time q = items_with_time p" "allocated q = allocated p"
  shows "counts_ok q"
proof -
  have s: "(\<Sum>x\<leftarrow>items q. f x) = (\<Sum>x\<leftarrow>items p. f x)" for f :: "plist_item \<Rightarrow> int"
    using assms(2) by (metis mset_map sum_mset_sum_list)
  have "num q = num p" "set (items q) = set (items p)" using assms(2) by (metis size_mset, metis set_mset_mset)
  then show ?thesis using assms(1,3-6) unfolding counts_ok_def s by simp
qed

lemma swapped_counts:
  assumes "counts_ok p" "i < num p" "j < num p"
  shows "counts_ok (swapped i j p)"
proof (rule counts_perm [OF assms(1)])
  show "mset (items (swapped i j p)) = mset (items p)"
    using mset_swap [OF assms(3,2)] by simp
qed (simp_all add: swapped_def)

text \<open>An index for the old numbers becomes one for the new numbers when its data are renumbered.\<close>

lemma index_renumbered:
  assumes "index_ok coll p" and "complete coll p" and "rb_shape (search_tree_of q)"
    and "inorder (search_tree_of q) = map f (inorder (search_tree_of p))"
    and f: "\<And>k. named q (f k) = named p k" "\<And>k. name_at q (f k) = name_at p k" "\<And>i. \<exists>k. i = f k"
  shows "index_ok coll q" and "complete coll q"
proof -
  have "sorted_wrt (\<lambda>a b. rb_compare coll p a b < 0) (inorder (search_tree_of p))"
    using assms(1) by (simp add: index_ok_def search_tree_def)
  then show "index_ok coll q"
    using assms(1,3) f(1) by (simp add: index_ok_def search_tree_def assms(4) sorted_wrt_map rb_compare_def f(2))
  show "complete coll q"
    unfolding complete_def assms(4)
  proof (intro allI impI)
    fix i assume "named q i"
    moreover obtain k where "i = f k" using f(3) by blast
    ultimately show "\<exists>j\<in>set (map f (inorder (search_tree_of p))). coll (name_at q i) (name_at q j) = 0"
      using assms(2) f(1,2) by (auto simp: complete_def)
  qed
qed

section \<open>Exchanging data in the tree\<close>

fun data_at :: "bool list \<Rightarrow> 'a rb_node \<Rightarrow> 'a option" where
  "data_at ws rb_null = None"
| "data_at [] (Node c e l r) = Some e"
| "data_at (w # ws) (Node c e l r) = data_at ws (if w then l else r)"

lemma data_at_root: "data_at (rev (map from_left q) @ ws) (root_of u q) = data_at ws u"
proof (induction q arbitrary: u ws)
  case (Cons s q)
  show ?case using Cons [of "from_left s # ws" "up u s"] by (cases s) auto
qed simp

lemma set_at_root: "set_at (rev (map from_left q) @ ws) d (root_of u q) = root_of (set_at ws d u) q"
proof (induction q arbitrary: u ws)
  case (Cons s q)
  show ?case using Cons [of "from_left s # ws" "up u s"] by (cases s) auto
qed simp

lemma data_at_mem: "data_at ws t = Some d \<Longrightarrow> d \<in> set (inorder t)"
  by (induction ws t rule: data_at.induct) (auto split: if_splits)

lemma set_at_same: "data_at ws t = Some d \<Longrightarrow> set_at ws d t = t"
  by (induction ws t rule: data_at.induct) (auto split: if_splits)

lemma set_data_root: "fst y \<noteq> rb_null \<Longrightarrow> root_of (fst (set_data d y)) (snd (set_data d y)) = set_at (rev (map from_left (snd y))) d (root_of (fst y) (snd y))"
  using set_at_root [of "snd y" "[]" d "fst y"] by (cases "(d, y)" rule: set_data.cases) auto

text \<open>The shape of a tree does not depend on its data.\<close>

lemma color_set_at [simp]: "color (set_at ws d t) = color t"
  by (induction ws d t rule: set_at.induct) auto

lemma bheight_set_at [simp]: "bheight (set_at ws d t) = bheight t"
  by (induction ws d t rule: set_at.induct) auto

lemma inv_set_at [simp]: "invc (set_at ws d t) = invc t" "invh (set_at ws d t) = invh t"
  by (induction ws d t rule: set_at.induct) auto

lemma rb_shape_set_at [simp]: "rb_shape (set_at ws d t) = rb_shape t"
  by (simp add: rb_shape_def)

lemma set_at_one:
  "data_at ws t = Some j \<Longrightarrow> distinct (inorder t) \<Longrightarrow> i \<notin> set (inorder t) \<Longrightarrow>
    inorder (set_at ws i t) = map (swp i j) (inorder t)"
proof (induction ws t rule: data_at.induct)
  case (2 c e l r)
  then show ?case by (auto simp: swp_def intro!: map_idI [symmetric])
next
  case (3 w ws c e l r)
  have j: "j \<in> set (inorder (if w then l else r))" using 3(2) data_at_mem by (metis data_at.simps(3))
  have o: "map (swp i j) xs = xs" if "i \<notin> set xs" "j \<notin> set xs" for xs
    using that by (intro map_idI) (auto simp: swp_def)
  have e: "swp i j e = e" using j 3(3,4) by (auto simp: swp_def split: if_splits)
  show ?case
  proof (cases w)
    case True
    then have "j \<notin> set (inorder r)" using j 3(3) by auto
    then show ?thesis using True 3 e o [of "inorder r"] by simp
  next
    case False
    then have "j \<notin> set (inorder l)" using j 3(3) by auto
    then show ?thesis using False 3 e o [of "inorder l"] by simp
  qed
qed simp

lemma set_at_swap:
  "data_at ws t = Some i \<Longrightarrow> data_at ws' t = Some j \<Longrightarrow> i \<noteq> j \<Longrightarrow> distinct (inorder t) \<Longrightarrow>
    inorder (set_at ws' i (set_at ws j t)) = map (swp i j) (inorder t)"
proof (induction t arbitrary: ws ws')
  case (Node c e l r)
  have o: "map (swp i j) xs = xs" if "i \<notin> set xs" "j \<notin> set xs" for xs
    using that by (intro map_idI) (auto simp: swp_def)
  have c: "swp j i = swp i j" by (auto simp: swp_def fun_eq_iff)
  have m: "\<And>vs k s. data_at vs s = Some k \<Longrightarrow> k \<in> set (inorder s)" by (rule data_at_mem)
  have d: "distinct (inorder l)" "distinct (inorder r)" "e \<notin> set (inorder l)" "e \<notin> set (inorder r)"
    "set (inorder l) \<inter> set (inorder r) = {}" using Node.prems(4) by auto
  show ?case
  proof (cases ws)
    case Nil
    then have e: "e = i" using Node.prems(1) by simp
    obtain w vs where ws': "ws' = w # vs" using Node.prems(2,3) e by (cases ws') auto
    have j: "data_at vs (if w then l else r) = Some j" using Node.prems(2) ws' by simp
    have "j \<notin> set (inorder (if w then r else l))" using m [OF j] d(5) by (auto split: if_splits)
    with set_at_one [OF j, of i] d e Nil ws' show ?thesis
      using o [of "inorder l"] o [of "inorder r"] by (cases w) auto
  next
    case (Cons w vs)
    have i: "data_at vs (if w then l else r) = Some i" using Node.prems(1) Cons by simp
    show ?thesis
    proof (cases ws')
      case Nil
      then have e: "e = j" using Node.prems(2) by simp
      have "i \<notin> set (inorder (if w then r else l))" using m [OF i] d(5) by (auto split: if_splits)
      with set_at_one [OF i, of j] d e Nil Cons show ?thesis
        using o [of "inorder l"] o [of "inorder r"] by (cases w) (auto simp: c)
    next
      case w': (Cons w' vs')
      have j: "data_at vs' (if w' then l else r) = Some j" using Node.prems(2) w' by simp
      have e: "swp i j e = e" using m [OF i] m [OF j] d by (auto simp: swp_def split: if_splits)
      show ?thesis
      proof (cases "w = w'")
        case True
        then have "i \<notin> set (inorder (if w then r else l))" "j \<notin> set (inorder (if w then r else l))"
          using m [OF i] m [OF j] d(5) by (auto split: if_splits)
        then show ?thesis
          using True Node.IH(1) [of vs vs'] Node.IH(2) [of vs vs'] i j Node.prems(3) d e Cons w' o [of "inorder l"] o [of "inorder r"]
          by (cases w) auto
      next
        case False
        then have "i \<notin> set (inorder (if w' then l else r))" "j \<notin> set (inorder (if w then l else r))"
          using m [OF i] m [OF j] d(5) by (auto split: if_splits)
        then show ?thesis
          using False set_at_one [OF i, of j] set_at_one [OF j, of i] m [OF i] m [OF j] d e Cons w'
          by (cases w; cases w') (auto simp: c)
      qed
    qed
  qed
qed simp

lemma tree_search_root:
  assumes "tree_search coll p k = Inr (u, q)"
  shows "root_of u q = search_tree_of p"
  using assms descend_root [of "rb_fname_compare coll p k" "search_tree_of p" "[]" u q]
  by (simp add: tree_search_def rb_search_def Let_def split: if_splits)

lemma index_distinct:
  assumes "collation coll" and "index_ok coll p"
  shows "distinct (inorder (search_tree_of p))"
proof -
  have "sorted_wrt (\<lambda>a b. rb_compare coll p a b < 0) xs \<Longrightarrow> distinct xs" for xs
    using collation.refl [OF assms(1)] by (induction xs) (auto simp: rb_compare_def)
  then show ?thesis using assms(2) by (simp add: index_ok_def search_tree_def)
qed

section \<open>Exchanging two files\<close>

lemma plist_swap_files_inv:
  assumes "collation coll" and "plist_inv coll p" and "plist_swap_files coll f g p = Inr q"
  shows "plist_inv coll q \<and> mset (items q) = mset (items p)"
proof -
  have ok: "index_ok coll p" "counts_ok p" "complete coll p" using assms(2) by (auto simp: plist_inv_def)
  let ?t = "search_tree_of p"
  obtain u1 q1 u2 q2 where x: "tree_search coll p f = Inr (u1, q1)" "tree_search coll p g = Inr (u2, q2)"
    using tree_search_ok [OF assms(1) ok(1)] by metis
  show ?thesis
  proof (cases "u1 \<noteq> rb_null \<and> u2 \<noteq> rb_null")
    case False
    then have "q = p" using assms(3) x by (auto simp: plist_swap_files_def rb_is_null_def)
    then show ?thesis using assms(2) by simp
  next
    case True
    define i j where "i = n_data u1" and "j = n_data u2"
    define ws vs where "ws = rev (map from_left q1)" and "vs = rev (map from_left q2)"
    have r: "root_of u1 q1 = ?t" "root_of u2 q2 = ?t" using tree_search_root x by blast+
    have "data_at [] u1 = Some i" "data_at [] u2 = Some j" using True by (cases u1; cases u2; simp add: i_def j_def)+
    then have d: "data_at ws ?t = Some i" "data_at vs ?t = Some j"
      using data_at_root [of q1 "[]" u1] data_at_root [of q2 "[]" u2] r by (simp_all add: ws_def vs_def)
    note m = data_at_mem [OF d(1)] data_at_mem [OF d(2)]
    then have lt: "i < num p" "j < num p" using ok(1) by (auto simp: index_ok_def named_def)
    have q: "q = (swapped i j p)\<lparr>search_tree_of := set_at vs i (set_at ws j ?t)\<rparr>"
      using assms(3) x True plist_swap_ok [OF lt]
      by (simp add: plist_swap_files_def rb_is_null_def Let_def i_def j_def ws_def vs_def)
    have t: "inorder (search_tree_of q) = map (swp i j) (inorder ?t)"
    proof (cases "i = j")
      case True
      then have "set_at vs i (set_at ws j ?t) = ?t" using d set_at_same by metis
      then show ?thesis using True by (simp add: q map_idI)
    next
      case False
      then show ?thesis using set_at_swap [OF d False index_distinct [OF assms(1) ok(1)]] by (simp add: q)
    qed
    have n: "named q = named (swapped i j p)" "name_at q = name_at (swapped i j p)" by (simp_all add: q)
    have s: "rb_shape (search_tree_of q)" using ok(1) by (simp add: q index_ok_def search_tree_def)
    note ix = index_renumbered [OF ok(1,3) s t]
    have "\<exists>l. k = swp i j l" for k by (metis swp_swp)
    then have "index_ok coll q" "complete coll q"
      using ix swapped_names [OF lt] unfolding n by blast+
    moreover have "counts_ok q" "mset (items q) = mset (items p)"
      using swapped_counts [OF ok(2) lt] mset_swap [OF lt(2,1)] by (simp_all add: q counts_ok_def)
    ultimately show ?thesis by (simp add: plist_inv_def)
  qed
qed

section \<open>Building the index anew\<close>

lemma tree_insert_inv:
  assumes "collation coll" and "index_ok coll p" and "named p i" and "tree_insert coll i p = Inr q"
  shows "\<exists>t. q = p\<lparr>search_tree_of := t\<rparr> \<and> index_ok coll q \<and> set (inorder t) = insert i (set (inorder (search_tree_of p)))"
proof -
  have "\<forall>j\<in>set (inorder (search_tree_of p)). coll (name_at p i) (name_at p j) \<noteq> 0"
    using tree_insert_abort [OF assms(1-3)] assms(4) by fastforce
  from tree_insert_ok [OF assms(1-3) this] assms(3,4) assms(2) show ?thesis by (auto simp: index_ok_def)
qed

lemma insert_all_inv:
  assumes "collation coll"
  shows "index_ok coll p \<Longrightarrow> \<forall>i\<in>set ks. named p i \<Longrightarrow> foldR (tree_insert coll) ks p = Inr q \<Longrightarrow>
    \<exists>t. q = p\<lparr>search_tree_of := t\<rparr> \<and> index_ok coll q \<and> set (inorder t) = set ks \<union> set (inorder (search_tree_of p))"
proof (induction ks arbitrary: p)
  case Nil
  then show ?case by (auto intro!: exI [of _ "search_tree_of p"])
next
  case (Cons k ks)
  obtain p1 where p1: "tree_insert coll k p = Inr p1" "foldR (tree_insert coll) ks p1 = Inr q"
    using Cons.prems(3) by (auto simp: bindR_eq_Inr)
  from tree_insert_inv [OF assms Cons.prems(1) _ p1(1)] Cons.prems(2) obtain t where
    t: "p1 = p\<lparr>search_tree_of := t\<rparr>" "index_ok coll p1" "set (inorder t) = insert k (set (inorder (search_tree_of p)))" by auto
  have "\<forall>i\<in>set ks. named p1 i" using Cons.prems(2) t(1) by simp
  from Cons.IH [OF t(2) this p1(2)] t show ?case by auto
qed

text \<open>Every item has a file.\<close>

definition all_named :: "plist \<Rightarrow> bool" where
  "all_named p \<longleftrightarrow> (\<forall>x\<in>set (items p). i_file x \<noteq> None)"

lemma all_namedD: "all_named p \<Longrightarrow> i < num p \<Longrightarrow> named p i"
  by (simp add: all_named_def named_def)

lemma all_named_mset: "mset (items q) = mset (items p) \<Longrightarrow> all_named q = all_named p"
  unfolding all_named_def by (metis set_mset_mset)

lemma plist_shuffle_inv:
  assumes "collation coll" and "plist_inv coll p" and "all_named p" and "plist_shuffle coll r p = Inr q"
  shows "plist_inv coll q \<and> mset (items q) = mset (items p)"
proof -
  let ?P = "\<lambda>u. counts_ok u \<and> mset (items u) = mset (items p)"
  obtain u where u: "foldR (\<lambda>i p. plist_swap (int i) (r i) p) [0..<num p] p = Inr u"
    and q: "foldR (tree_insert coll) [0..<num u] (u\<lparr>search_tree_of := rb_clear (search_tree_of u)\<rparr>) = Inr q"
    using assms(4) by (auto simp: plist_shuffle_def bindR_eq_Inr)
  have "?P u"
  proof (rule foldR_invariant [OF _ _ u])
    fix k v w
    assume "?P v" "plist_swap (int k) (r k) v = Inr w"
    then obtain i j where "i < num v" "j < num v" "w = swapped i j v" by (auto elim: plist_swapE)
    then show "?P w" using \<open>?P v\<close> swapped_counts [of v i j] mset_swap [of j "items v" i] by simp
  qed (use assms(2) in \<open>simp add: plist_inv_def\<close>)
  then have "all_named u" using all_named_mset assms(3) by blast
  let ?u = "u\<lparr>search_tree_of := rb_clear (search_tree_of u)\<rparr>"
  have "index_ok coll ?u" by (simp add: index_ok_def rb_clear_def search_tree_def rb_shape_def)
  moreover have "\<forall>i\<in>set [0..<num u]. named ?u i" using all_namedD [OF \<open>all_named u\<close>] by simp
  ultimately obtain t where t: "q = ?u\<lparr>search_tree_of := t\<rparr>" "index_ok coll q" "set (inorder t) = {0..<num u}"
    using insert_all_inv [OF assms(1) _ _ q] by (auto simp: rb_clear_def)
  have "complete coll q" unfolding complete_def
    using t collation.refl [OF assms(1)] by (auto simp: named_def intro!: bexI)
  moreover have "counts_ok q" using \<open>?P u\<close> t(1) by (simp add: counts_ok_def)
  ultimately show ?thesis using t \<open>?P u\<close> by (simp add: plist_inv_def)
qed

section \<open>Moving a file to the front\<close>

text \<open>
  When the item \<open>k\<close> of the name \<open>f\<close> and the first item, of the name \<open>g\<close>, have changed their
  places and their indices have been entered instead of the entries for \<open>f\<close> and \<open>g\<close>, every name is in the tree.
\<close>

lemma front_complete:
  assumes c: "collation coll" and ok: "index_ok coll p" "complete coll p"
    and k: "k \<in> set (inorder (search_tree_of p))" "coll f (name_at p k) = 0" and lt: "0 < num p" "k < num p" and g: "name_at p 0 = g"
    and S: "S = {i \<in> set (inorder (search_tree_of p)). coll f (name_at p i) \<noteq> 0 \<and> coll g (name_at p i) \<noteq> 0}"
    and out: "\<forall>j\<in>S. j \<noteq> 0 \<and> j \<noteq> k" and q: "q = (swapped 0 k p)\<lparr>search_tree_of := t\<rparr>" and t: "set (inorder t) = insert k (insert 0 S)"
  shows "complete coll q"
  unfolding complete_def
proof (intro allI impI)
  note sn = swapped_names [OF lt]
  have ends: "name_at q 0 = name_at p k" "name_at q k = g" using sn(2) [of 0] sn(2) [of k] g by (simp_all add: q)
  fix a assume "named q a"
  then have "named p (swp 0 k a)" "name_at q a = name_at p (swp 0 k a)"
    using sn(1) [of "swp 0 k a"] sn(2) [of "swp 0 k a"] by (simp_all add: q)
  then obtain j where j: "j \<in> set (inorder (search_tree_of p))" "coll (name_at q a) (name_at p j) = 0"
    using ok(2) by (auto simp: complete_def)
  consider "j \<in> S" | "coll f (name_at p j) = 0" | "coll g (name_at p j) = 0" using j(1) S by blast
  then show "\<exists>b\<in>set (inorder (search_tree_of q)). coll (name_at q a) (name_at q b) = 0"
  proof cases
    case 1
    then have "swp 0 k j = j" using out by (auto simp: swp_def)
    then have "name_at q j = name_at p j" using sn(2) [of j] by (simp add: q)
    then show ?thesis using 1 j(2) t by (intro bexI [of _ j]) (auto simp: q)
  next
    case 2
    then have "j = k" using index_unique [OF c ok(1) j(1) k(1) _ k(2)] by blast
    then show ?thesis using j(2) ends t by (intro bexI [of _ 0]) (auto simp: q)
  next
    case 3
    then have "coll (name_at q a) g = 0" using j(2) collation.eq_trans [OF c] collation.sym [OF c] by metis
    then show ?thesis using ends t by (intro bexI [of _ k]) (auto simp: q)
  qed
qed

lemma plist_swap_first_fname_inv:
  assumes c: "collation coll" and "plist_inv coll p" and "plist_swap_first_fname coll f p = Inr q"
  shows "plist_inv coll q \<and> mset (items q) = mset (items p)"
proof -
  have ok: "index_ok coll p" "counts_ok p" "complete coll p" using assms(2) by (auto simp: plist_inv_def)
  let ?T = "set (inorder (search_tree_of p))"
  obtain i where i: "plist_find_fname coll f p = Inr i" using assms(3) by (auto simp: plist_swap_first_fname_def bindR_eq_Inr)
  show ?thesis
  proof (cases "i \<noteq> -1 \<and> i \<noteq> 0")
    case False
    then show ?thesis using assms(2,3) i by (auto simp: plist_swap_first_fname_def)
  next
    case True
    then obtain k where k: "k \<in> ?T" "coll f (name_at p k) = 0" using find_absent [OF c ok(1), of f] i by fastforce
    then have ik: "i = int k" "k \<noteq> 0" using find_found [OF c ok(1) k] i True by (auto split: if_splits)
    have kn: "k < num p" "named p k" using k(1) ok(1) by (auto simp: index_ok_def named_def)
    obtain t1 where t1: "tree_delete coll f p = Inr (p\<lparr>search_tree_of := t1\<rparr>)" "search_tree (rb_compare coll p) t1"
      "set (inorder t1) = {i \<in> ?T. coll f (name_at p i) \<noteq> 0}" using tree_delete_ok [OF c ok(1)] by blast
    let ?p1 = "p\<lparr>search_tree_of := t1\<rparr>"
    have ok1: "index_ok coll ?p1" using t1 ok(1) by (auto simp: index_ok_def)
    have "num p > 0" using kn(1) by linarith
    then have x0: "item_at ?p1 0 = Inr (items p ! 0)" by (simp add: item_at_def arr_get_def)
    obtain g where g: "i_file (items p ! 0) = Some g"
      using assms(3) i True t1(1) x0 by (cases "i_file (items p ! 0)") (auto simp: plist_swap_first_fname_def)
    have n0: "named p 0" "name_at p 0 = g" using g \<open>num p > 0\<close> by (auto simp: named_def name_at_def)
    obtain t2 where t2: "tree_delete coll g ?p1 = Inr (?p1\<lparr>search_tree_of := t2\<rparr>)" "search_tree (rb_compare coll p) t2"
      "set (inorder t2) = {i \<in> set (inorder t1). coll g (name_at p i) \<noteq> 0}" using tree_delete_ok [OF c ok1, of g] by auto
    let ?s = "swapped 0 k p"
    let ?p3 = "?s\<lparr>search_tree_of := t2\<rparr>"
    have sw: "plist_swap 0 i (?p1\<lparr>search_tree_of := t2\<rparr>) = Inr ?p3"
      using plist_swap_ok [of 0 "?p1\<lparr>search_tree_of := t2\<rparr>" k] kn(1) ik \<open>num p > 0\<close> by (simp add: swapped_def)
    have T2: "set (inorder t2) = {i \<in> ?T. coll f (name_at p i) \<noteq> 0 \<and> coll g (name_at p i) \<noteq> 0}" using t1(3) t2(3) by auto
    note lt = \<open>num p > 0\<close> kn(1)
    note sn = swapped_names [OF lt]
    have out: "j \<noteq> 0 \<and> j \<noteq> k" if "j \<in> set (inorder t2)" for j
    proof -
      have "coll f (name_at p j) \<noteq> 0" "coll g (name_at p j) \<noteq> 0" using that T2 by simp_all
      then show ?thesis using k(2) n0(2) collation.refl [OF c, of g] by metis
    qed
    have same: "name_at ?s j = name_at p j" "named ?s j = named p j" if "j \<noteq> 0 \<and> j \<noteq> k" for j
      using that sn(1) [of j] sn(2) [of j] by (simp_all add: swp_def)
    have ends: "name_at ?s 0 = name_at p k" "name_at ?s k = g" "named ?s 0" "named ?s k"
      using sn(1) [of 0] sn(2) [of 0] sn(1) [of k] sn(2) [of k] n0 kn(2) by simp_all
    have "search_tree (rb_compare coll ?s) t2 = search_tree (rb_compare coll p) t2"
      using out same by (intro search_tree_cong) (simp add: rb_compare_def)
    then have ok3: "index_ok coll ?p3"
      using t2(2) T2 ok(1) out same by (auto simp: index_ok_def)
    obtain p4 where p4: "tree_insert coll 0 ?p3 = Inr p4" "tree_insert coll k p4 = Inr q"
      using assms(3) i True t1(1) x0 g t2(1) sw ik by (auto simp: plist_swap_first_fname_def bindR_eq_Inr)
    obtain t4 where t4: "p4 = ?p3\<lparr>search_tree_of := t4\<rparr>" "index_ok coll p4" "set (inorder t4) = insert 0 (set (inorder t2))"
      using tree_insert_inv [OF c ok3 _ p4(1)] ends(3) by auto
    obtain t5 where t5: "q = p4\<lparr>search_tree_of := t5\<rparr>" "index_ok coll q" "set (inorder t5) = insert k (insert 0 (set (inorder t2)))"
      using tree_insert_inv [OF c t4(2) _ p4(2)] t4 ends(4) by auto
    have q: "q = ?s\<lparr>search_tree_of := t5\<rparr>" using t5(1) t4(1) by simp
    have "complete coll q"
      by (rule front_complete [OF c ok(1,3) k lt n0(2) T2 _ q]) (use out t5(3) in auto)
    moreover have "counts_ok q" "mset (items q) = mset (items p)"
      using swapped_counts [OF ok(2) lt] mset_swap [OF lt(2,1)] by (simp_all add: q counts_ok_def)
    ultimately show ?thesis using t5(2) by (simp add: plist_inv_def)
  qed
qed

section \<open>Sorting\<close>

text \<open>
  Sorting keeps the invariant of a list whose names are all different and from which nothing was
  deleted, as are the lists the interface sorts.
\<close>

definition sortable :: "plist \<Rightarrow> bool" where
  "sortable p \<longleftrightarrow> (\<forall>i<num p. \<not> i_deleted (items p ! i) \<and> i \<in> set (inorder (search_tree_of p)))"

declare sort_loop.simps [simp del] first_live.simps [simp del]

lemma inorder_set_data:
  assumes "fst y = Node c i l r" and "inorder (root_of (fst y) (snd y)) = xs @ remaining y"
  shows "inorder (root_of (fst (set_data d y)) (snd (set_data d y))) = xs @ d # tl (remaining y)"
    and "tl (remaining (set_data d y)) = tl (remaining y)" and "fst (set_data d y) \<noteq> rb_null"
proof -
  obtain q where y: "y = (Node c i l r, q)" using assms(1) by (cases y) simp
  then have "before q @ inorder l = xs" using assms(2) by (simp add: inorder_root_of)
  then show "inorder (root_of (fst (set_data d y)) (snd (set_data d y))) = xs @ d # tl (remaining y)"
    by (simp add: y inorder_root_of flip: append_assoc)
  show "tl (remaining (set_data d y)) = tl (remaining y)" "fst (set_data d y) \<noteq> rb_null" by (simp_all add: y)
qed

lemma sort_loop_spec:
  "fst x \<noteq> rb_null \<Longrightarrow> \<forall>k\<in>set (tl (remaining x)). k < num p \<and> \<not> i_deleted (items p ! k) \<Longrightarrow>
   int (length out + length (tl (remaining x))) \<le> not_deleted p \<Longrightarrow>
   inorder (root_of (fst x) (snd x)) = [0..<length out] @ tl (remaining x) \<Longrightarrow>
   \<exists>t. sort_loop p x out = Inr (t, out @ map ((!) (items p)) (tl (remaining x))) \<and>
     inorder t = [0..<length out + length (tl (remaining x))] \<and> rb_shape t = rb_shape (root_of (fst x) (snd x))"
proof (induction p x out rule: sort_loop.induct)
  case (1 p x out)
  define y where "y = rb_next x"
  have rem: "remaining y = tl (remaining x)" by (simp add: y_def remaining_next)
  show ?case
  proof (cases "fst y")
    case rb_null
    then have "tl (remaining x) = []" using rem by (cases y) auto
    then show ?thesis using "1.prems"(1,4) rb_null by (simp add: sort_loop.simps [of p x out] y_def Let_def)
  next
    case (Node c i l r)
    let ?z = "set_data (length out) y" and ?out = "out @ [items p ! i]"
    have root: "root_of (fst y) (snd y) = root_of (fst x) (snd x)"
      using next_root [of "fst x" "snd x" "fst y" "snd y"] Node by (simp add: y_def)
    obtain b where "y = (Node c i l r, b)" using Node by (cases y) simp
    then have ri: "tl (remaining x) = i # tl (remaining y)" unfolding rem [symmetric] by simp
    then have live: "plist_deleted p (int i) = Inr False" "item_at p (int i) = Inr (items p ! i)" "int (length out) < not_deleted p"
      using "1.prems"(2,3) by (auto simp: plist_deleted_def item_at_def)
    have "inorder (root_of (fst y) (snd y)) = [0..<length out] @ remaining y" using "1.prems"(4) root rem by simp
    note z = inorder_set_data [OF Node this, of "length out"]
    have run: "sort_loop p x out = sort_loop p ?z ?out"
      using "1.prems"(1) Node live by (simp add: sort_loop.simps [of p x out] y_def Let_def)
    have "\<exists>t. sort_loop p ?z ?out = Inr (t, ?out @ map ((!) (items p)) (tl (remaining ?z))) \<and>
       inorder t = [0..<length ?out + length (tl (remaining ?z))] \<and> rb_shape t = rb_shape (root_of (fst ?z) (snd ?z))"
    proof (rule "1.IH"(2) [OF "1.prems"(1) y_def Node live(1) _ _ live(2)])
      show "fst ?z \<noteq> rb_null" by (rule z(3))
      show "inorder (root_of (fst ?z) (snd ?z)) = [0..<length ?out] @ tl (remaining ?z)" using z(1,2) by simp
    qed (use "1.prems"(2,3) ri z(2) live(3) in \<open>auto simp: guardR_def\<close>)
    moreover have "rb_shape (root_of (fst ?z) (snd ?z)) = rb_shape (root_of (fst x) (snd x))"
      using set_data_root [of y "length out"] Node root by simp
    ultimately show ?thesis using run ri z(2) by (auto simp: add.assoc)
  qed
qed

lemma plist_sort_fname_inv:
  assumes c: "collation coll" and "plist_inv coll p" and "sortable p" and "plist_sort_fname p = Inr q"
  shows "plist_inv coll q \<and> mset (items q) = mset (items p)"
proof (cases "num p = 0")
  case True
  then have "plist_count p = 0" using assms(2) by (simp add: plist_inv_def counts_ok_def plist_count_def)
  then show ?thesis using assms(2,4) by (simp add: plist_sort_fname_def)
next
  case False
  have ok: "index_ok coll p" "counts_ok p" using assms(2) by (auto simp: plist_inv_def)
  let ?t = "search_tree_of p"
  define ks where "ks = inorder ?t"
  have ks: "distinct ks" "set ks = {0..<num p}"
    using index_distinct [OF c ok(1)] ok(1) assms(3) by (auto simp: ks_def sortable_def index_ok_def named_def)
  then have len: "length ks = num p" by (metis distinct_card card_atLeastLessThan diff_zero)
  have "(\<Sum>x\<leftarrow>items p. of_bool (\<not> i_deleted x)) = (\<Sum>x\<leftarrow>items p. (1::int))"
    using assms(3) by (intro arg_cong [where f = sum_list] map_cong) (auto simp: sortable_def in_set_conv_nth)
  then have nd: "not_deleted p = int (num p)" using ok(2) by (simp add: counts_ok_def sum_list_triv)
  obtain u w where x: "rb_min ?t = (u, w)" by fastforce
  have rem: "remaining (u, w) = ks" using remaining_rb_min [of ?t] x by (simp add: ks_def)
  obtain i js where i: "ks = i # js" using len False by (cases ks) auto
  then obtain c' l r where u: "u = Node c' i l r" using rem by (cases u) auto
  have root: "root_of u w = ?t" using x min_internal_root [of ?t "[]"] by (simp add: rb_min_def)
  have live: "plist_deleted p (int k) = Inr False" "item_at p (int k) = Inr (items p ! k)" if "k \<in> set ks" for k
    using that ks(2) assms(3) by (auto simp: sortable_def plist_deleted_def item_at_def)
  have fl: "first_live p (u, w) = Inr (u, w)" using live(1) [of i] i by (simp add: first_live.simps u)
  have "inorder (root_of (fst (u, w)) (snd (u, w))) = [] @ remaining (u, w)" using root rem by (simp add: ks_def)
  note z = inorder_set_data [OF _ this, of c' i l r 0]
  let ?z = "set_data 0 (u, w)"
  have "\<exists>t. sort_loop p ?z [items p ! i] = Inr (t, [items p ! i] @ map ((!) (items p)) (tl (remaining ?z))) \<and>
     inorder t = [0..<length [items p ! i] + length (tl (remaining ?z))] \<and> rb_shape t = rb_shape (root_of (fst ?z) (snd ?z))"
  proof (rule sort_loop_spec)
    have "set js \<subseteq> {0..<num p}" using ks(2) i by auto
    then show "\<forall>k\<in>set (tl (remaining ?z)). k < num p \<and> \<not> i_deleted (items p ! k)"
      using z(2) u rem i assms(3) by (auto simp: sortable_def)
  qed (use u z rem i nd len in auto)
  moreover have "tl (remaining ?z) = js" "length [items p ! i] + length js = num p" using u z(2) rem i len by simp_all
  ultimately obtain t where t: "sort_loop p ?z [items p ! i] = Inr (t, map ((!) (items p)) ks)" "inorder t = [0..<num p]"
    "rb_shape t = rb_shape (root_of (fst ?z) (snd ?z))"
    using i by (auto simp del: upt_Suc)
  have q: "q = p\<lparr>items := map ((!) (items p)) ks, not_deleted := int (num p), search_tree_of := t\<rparr>"
    using assms(4) x nd False fl live(2) [of i] i t(1) u len
    by (simp add: plist_sort_fname_def plist_count_def rb_is_null_def Let_def)
  have "mset ks = mset [0..<num p]" using ks by (intro set_eq_iff_mset_eq_distinct [THEN iffD1]) auto
  then have "mset (map ((!) (items p)) ks) = mset (map ((!) (items p)) [0..<num p])" by (simp only: mset_map)
  then have m: "mset (items q) = mset (items p)" by (simp add: q map_nth)
  have n: "named q k" "name_at q k = name_at p (ks ! k)" if "k < num p" for k
    using that ok(1) nth_mem [of k ks] len by (auto simp: q named_def name_at_def ks_def index_ok_def)
  have "sorted_wrt (\<lambda>a b. rb_compare coll p a b < 0) ks" using ok(1) by (simp add: ks_def index_ok_def search_tree_def)
  then have "sorted_wrt (\<lambda>a b. rb_compare coll q a b < 0) [0..<num p]"
    using len by (auto simp: sorted_wrt_iff_nth_less rb_compare_def n)
  moreover have "rb_shape t"
    using t(3) set_data_root [of "(u, w)" 0] u root ok(1) by (simp add: index_ok_def search_tree_def)
  ultimately have "index_ok coll q" using n(1) t(2) by (simp add: q index_ok_def search_tree_def)
  moreover have "complete coll q" unfolding complete_def
    using t(2) collation.refl [OF c] len by (auto simp: q named_def intro!: bexI)
  moreover have "counts_ok q" by (rule counts_perm [OF ok(2) m]) (simp_all add: q nd)
  ultimately show ?thesis using m by (simp add: plist_inv_def)
qed

section \<open>A second list\<close>

lemma plist_cat_inv:
  assumes "collation coll" and "plist_inv coll a" and "all_named a" and "plist_cat fs coll a b = Inr q"
  shows "plist_inv coll q \<and> all_named q"
proof (rule foldR_invariant [OF _ _ assms(4) [unfolded plist_cat_def]])
  fix x s s'
  assume s: "plist_inv coll s \<and> all_named s" and "(case i_file x of None \<Rightarrow> Inl Assert
       | Some f \<Rightarrow> if i_deleted x then Inr s else bindR (plist_find_fname coll f s) (\<lambda>j.
             if j = -1 then bindR (plist_add_from_item fs coll x s) (\<lambda>(_, a). Inr a) else Inr s)) = Inr s'"
  then consider "s' = s" | f pos where "i_file x = Some f" "\<not> i_deleted x" "plist_add_from_item fs coll x s = Inr (pos, s')"
    by (auto simp: bindR_eq_Inr split: option.splits if_splits)
  then show "plist_inv coll s' \<and> all_named s'"
  proof cases
    case (2 f pos)
    then show ?thesis using plist_add_from_item_inv [OF assms(1) conjunct1 [OF s] 2(1,2), of fs] s by (auto simp: all_named_def)
  qed (use s in simp)
qed (use assms in simp)

lemma plist_deleteE:
  assumes "plist_inv coll p" and "plist_delete i p = Inr q"
  shows "plist_inv coll q \<and> (all_named p \<longrightarrow> all_named q)"
proof -
  have "0 \<le> i" "i < int (num p)" "\<not> i_deleted (items p ! nat i)"
    using assms(2) by (auto simp: plist_delete_def item_at_def result_simps array_simps)
  then show ?thesis
    using plist_delete_inv [OF assms(1), of "nat i"] assms(2) set_update_subset_insert [of "items p" "nat i"]
    by (fastforce simp: all_named_def)
qed

lemma plist_remove_common_inv:
  assumes "plist_inv coll a" and "all_named a" and "plist_remove_common_items coll a b = Inr q"
  shows "plist_inv coll q \<and> all_named q"
  by (rule foldR_invariant [OF _ _ assms(3) [unfolded plist_remove_common_items_def]])
    (use assms plist_deleteE in \<open>auto simp: bindR_eq_Inr split: option.splits if_splits\<close>)

end
