(* ===== verification/Plist_Props.thy ===== *)
theory Plist_Props
  imports Plist_Order
begin

text \<open>The properties of the playlist that its clients rely on.\<close>

section \<open>Reachable lists\<close>

text \<open>
  The operations by which the server and the interface change a list. Items are added with a
  file, tags and times are set for items that are not deleted, and sorted are lists with
  different names and without deleted items. Left out is \<^verbatim>\<open>plist_set_file\<close>: it looks up the
  wrong name (see below).
\<close>

inductive plist_step :: "host_fs \<Rightarrow> (string \<Rightarrow> string \<Rightarrow> int) \<Rightarrow> plist \<Rightarrow> plist \<Rightarrow> bool" for fs coll where
  step_add: "plist_add fs coll (Some f) p = Inr (i, q) \<Longrightarrow> plist_step fs coll p q"
| step_add_item: "i_file x = Some f \<Longrightarrow> \<not> i_deleted x \<Longrightarrow> plist_add_from_item fs coll x p = Inr (i, q) \<Longrightarrow>
    plist_step fs coll p q"
| step_delete: "plist_delete i p = Inr q \<Longrightarrow> plist_step fs coll p q"
| step_set_tags: "plist_deleted p i = Inr False \<Longrightarrow> plist_set_tags i tags p = Inr q \<Longrightarrow> plist_step fs coll p q"
| step_set_time: "plist_deleted p i = Inr False \<Longrightarrow> plist_set_item_time i t p = Inr q \<Longrightarrow> plist_step fs coll p q"
| step_title_tags: "plist_set_title_tags i s p = Inr q \<Longrightarrow> plist_step fs coll p q"
| step_title_file: "plist_set_title_file i s p = Inr q \<Longrightarrow> plist_step fs coll p q"
| step_discard: "plist_step fs coll p (plist_discard_tags p)"
| step_clear: "plist_step fs coll p (plist_clear p)"
| step_serial: "plist_step fs coll p (plist_set_serial n p)"
| step_swap_files: "plist_swap_files coll f g p = Inr q \<Longrightarrow> plist_step fs coll p q"
| step_swap_first: "plist_swap_first_fname coll f p = Inr q \<Longrightarrow> plist_step fs coll p q"
| step_shuffle: "plist_shuffle coll r p = Inr q \<Longrightarrow> plist_step fs coll p q"
| step_sort: "sortable p \<Longrightarrow> plist_sort_fname p = Inr q \<Longrightarrow> plist_step fs coll p q"
| step_cat: "plist_cat fs coll p b = Inr q \<Longrightarrow> plist_step fs coll p q"
| step_remove_common: "plist_remove_common_items coll p b = Inr q \<Longrightarrow> plist_step fs coll p q"

text \<open>
  The counters of the program are of type \<^verbatim>\<open>int\<close>; those of the model are as large as they
  have to be. The steps considered are those after which they fit.
\<close>

definition fits_int :: "plist \<Rightarrow> bool" where
  "fits_int p \<longleftrightarrow> - (2 ^ 31) \<le> total_time p \<and> total_time p < 2 ^ 31 \<and> allocated p < 2 ^ 31"

definition plist_int_step :: "host_fs \<Rightarrow> (string \<Rightarrow> string \<Rightarrow> int) \<Rightarrow> plist \<Rightarrow> plist \<Rightarrow> bool" where
  "plist_int_step fs coll p q \<longleftrightarrow> plist_step fs coll p q \<and> fits_int q"

lemma valid_deleted: "plist_deleted p i = Inr b \<longleftrightarrow> 0 \<le> i \<and> i < int (num p) \<and> b = i_deleted (items p ! nat i)"
  by (auto simp: plist_deleted_def limit_def item_at_def result_simps array_simps)

lemma valid_limit: "limit i p = Inr u \<longleftrightarrow> 0 \<le> i \<and> i < int (num p)"
  by (simp add: limit_def)

lemma nat_index: "0 \<le> i \<Longrightarrow> i < int n \<Longrightarrow> \<exists>k. i = int k \<and> k < n"
  by (intro exI [of _ "nat i"]) auto

lemma plist_add_named:
  "collation coll \<Longrightarrow> plist_inv coll p \<Longrightarrow> plist_add fs coll (Some f) p = Inr (i, q) \<Longrightarrow> plist_inv coll q \<and> (all_named p \<longrightarrow> all_named q)"
  using plist_add_inv [of coll p fs f] by (auto simp: all_named_def grown_def)

lemma all_named_update: "all_named p \<Longrightarrow> i_file x \<noteq> None \<Longrightarrow> items q = (items p)[i := x] \<Longrightarrow> all_named q"
  unfolding all_named_def by (metis insertE set_update_subset_insert subsetD)

lemma set_item_named:
  assumes "all_named p"
  shows "plist_set_tags i tags p = Inr q \<Longrightarrow> all_named q" "plist_set_item_time i t p = Inr q \<Longrightarrow> all_named q"
    "plist_set_title_tags i s p = Inr q \<Longrightarrow> all_named q" "plist_set_title_file i s p = Inr q \<Longrightarrow> all_named q"
proof -
  have v: "i_file (items p ! nat i) \<noteq> None" if "limit i p = Inr u" for u
    using that assms by (auto simp: valid_limit all_named_def nat_less_iff)
  show "plist_set_tags i tags p = Inr q \<Longrightarrow> all_named q"
    by (rule all_named_update [OF assms, where i = "nat i" and x = "(items p ! nat i)\<lparr>i_tags := Some (tags_dup tags)\<rparr>"])
      (auto simp: plist_set_tags_def bindR_eq_Inr Let_def dest: v)
  show "plist_set_item_time i t p = Inr q \<Longrightarrow> all_named q"
    by (rule all_named_update [OF assms, where i = "nat i" and x = "items q ! nat i"])
      (use v in \<open>auto simp: plist_set_item_time_def bindR_eq_Inr Let_def valid_limit nat_less_iff\<close>)
  show "plist_set_title_tags i s p = Inr q \<Longrightarrow> all_named q"
    by (rule all_named_update [OF assms, where i = "nat i" and x = "(items p ! nat i)\<lparr>i_title_tags := s\<rparr>"])
      (auto simp: plist_set_title_tags_def bindR_eq_Inr dest: v)
  show "plist_set_title_file i s p = Inr q \<Longrightarrow> all_named q"
    by (rule all_named_update [OF assms, where i = "nat i" and x = "(items p ! nat i)\<lparr>i_title_file := s\<rparr>"])
      (auto simp: plist_set_title_file_def bindR_eq_Inr dest: v)
qed

lemma step_inv:
  assumes "collation coll" and "plist_step fs coll p q" and "plist_inv coll p" and "all_named p"
  shows "plist_inv coll q \<and> all_named q"
  using assms(2,3,4)
proof (induction rule: plist_step.induct)
  case (step_add f p i q)
  then show ?case using plist_add_named [OF assms(1)] by blast
next
  case (step_add_item x f p i q)
  then show ?case using plist_add_from_item_inv [OF assms(1) step_add_item(4), of x f fs] by (auto simp: all_named_def)
next
  case (step_delete i p q)
  then show ?case using plist_deleteE by blast
next
  case (step_set_tags p i tags q)
  then show ?case using plist_set_tags_inv [OF step_set_tags(3), of "nat i" tags] set_item_named(1) by (auto simp: valid_deleted)
next
  case (step_set_time p i t q)
  then show ?case using plist_set_item_time_inv [OF step_set_time(3), of "nat i" t] set_item_named(2) by (auto simp: valid_deleted)
next
  case (step_title_tags i s p q)
  then have "0 \<le> i" "i < int (num p)" by (auto simp: plist_set_title_tags_def result_simps valid_limit)
  then show ?case using step_title_tags plist_set_title_inv(1) [OF step_title_tags(2), of "nat i" s] set_item_named(3) by auto
next
  case (step_title_file i s p q)
  then have "0 \<le> i" "i < int (num p)" by (auto simp: plist_set_title_file_def result_simps valid_limit)
  then show ?case using step_title_file plist_set_title_inv(2) [OF step_title_file(2), of "nat i" s] set_item_named(4) by auto
next
  case (step_discard p)
  then show ?case using plist_discard_tags_inv by (auto simp: all_named_def plist_discard_tags_def)
next
  case (step_clear p)
  then show ?case using plist_clear_inv by (simp add: all_named_def plist_clear_def)
next
  case (step_serial p n)
  have "named (plist_set_serial n p) = named p" "name_at (plist_set_serial n p) = name_at p"
    by (rule names_of_items, simp add: plist_set_serial_def)+
  from index_complete_cong [OF this] show ?case
    using step_serial by (simp add: plist_inv_def counts_ok_def all_named_def plist_set_serial_def)
next
  case (step_swap_files f g p q)
  then show ?case using plist_swap_files_inv [OF assms(1)] all_named_mset by blast
next
  case (step_swap_first f p q)
  then show ?case using plist_swap_first_fname_inv [OF assms(1)] all_named_mset by blast
next
  case (step_shuffle r p q)
  then show ?case using plist_shuffle_inv [OF assms(1)] all_named_mset by blast
next
  case (step_sort p q)
  then show ?case using plist_sort_fname_inv [OF assms(1)] all_named_mset by blast
next
  case (step_cat p b q)
  then show ?case using plist_cat_inv [OF assms(1)] by blast
next
  case (step_remove_common p b q)
  then show ?case using plist_remove_common_inv by blast
qed

lemma reachable_plist_inv:
  assumes "collation coll" and "(plist_int_step fs coll)\<^sup>*\<^sup>* plist_init p"
  shows "plist_inv coll p"
proof -
  have "plist_inv coll p \<and> all_named p" using assms(2)
  proof (induction rule: rtranclp_induct)
    case base
    show ?case using plist_init_inv by (simp add: all_named_def plist_init_def)
  next
    case (step q r)
    then show ?case using step_inv [OF assms(1)] by (auto simp: plist_int_step_def)
  qed
  then show ?thesis ..
qed

text \<open>All items that are not deleted have a time exactly when there are as many of the one as of the other.\<close>

lemma all_timed:
  assumes "counts_ok p"
  shows "length (filter (\<lambda>x. \<not> i_deleted x) (items p)) = length (filter (\<lambda>x. item_time x \<noteq> -1) (items p)) \<longleftrightarrow>
    (\<forall>x\<in>set (items p). \<not> i_deleted x \<longrightarrow> item_time x \<noteq> -1)"
proof -
  have d: "\<forall>x\<in>set (items p). item_time x \<noteq> -1 \<longrightarrow> \<not> i_deleted x"
    using assms by (auto simp: counts_ok_def item_time_def)
  have "\<forall>x\<in>set xs. item_time x \<noteq> -1 \<longrightarrow> \<not> i_deleted x \<Longrightarrow>
      length (filter (\<lambda>x. item_time x \<noteq> -1) xs) \<le> length (filter (\<lambda>x. \<not> i_deleted x) xs) \<and>
      (length (filter (\<lambda>x. \<not> i_deleted x) xs) = length (filter (\<lambda>x. item_time x \<noteq> -1) xs) \<longleftrightarrow>
        (\<forall>x\<in>set xs. \<not> i_deleted x \<longrightarrow> item_time x \<noteq> -1))" for xs
    by (induction xs) auto
  with d show ?thesis by blast
qed

lemma find_sound:
  assumes "collation coll" and "index_ok coll p"
  shows "\<exists>j. plist_find_fname coll f p = Inr j \<and>
    (j \<noteq> -1 \<longrightarrow> 0 \<le> j \<and> named p (nat j) \<and> \<not> i_deleted (items p ! nat j) \<and> coll f (name_at p (nat j)) = 0)"
proof (cases "\<exists>i\<in>set (inorder (search_tree_of p)). coll f (name_at p i) = 0")
  case True
  then obtain i where i: "i \<in> set (inorder (search_tree_of p))" "coll f (name_at p i) = 0" by blast
  then show ?thesis using find_found [OF assms i] assms(2) by (auto simp: index_ok_def)
next
  case False
  then show ?thesis using find_absent [OF assms] by auto
qed

text \<open>
  C13: In every playlist built by adding, deleting, tagging, clearing, exchanging, shuffling,
  joining and subtracting (and sorting lists with different names and without deleted items), as
  long as the counters fit into an int: the counters are right (the number of items that are not
  deleted, the total time and the number of items with a time), the array is within its allocation, and a
  search by name neither fails nor returns a wrong, deleted or invalid item.
\<close>

theorem plist_reachable_inv:
  assumes "collation coll" and "(plist_int_step fs coll)\<^sup>*\<^sup>* plist_init p"
  shows "plist_count p = int (length (filter (\<lambda>x. \<not> i_deleted x) (items p)))
    \<and> plist_total_time p = ((\<Sum>x\<leftarrow>filter (\<lambda>x. item_time x \<noteq> -1) (items p). item_time x),
        \<forall>x\<in>set (items p). \<not> i_deleted x \<longrightarrow> item_time x \<noteq> -1)
    \<and> items_with_time p = int (length (filter (\<lambda>x. item_time x \<noteq> -1) (items p)))
    \<and> int (num p) \<le> allocated p
    \<and> (\<exists>j. plist_find_fname coll f p = Inr j \<and>
      (j \<noteq> -1 \<longrightarrow> 0 \<le> j \<and> named p (nat j) \<and> \<not> i_deleted (items p ! nat j) \<and> coll f (name_at p (nat j)) = 0))"
proof -
  have inv: "plist_inv coll p" by (rule reachable_plist_inv [OF assms])
  then have c: "counts_ok p" by (simp add: plist_inv_def)
  have l: "(\<Sum>x\<leftarrow>xs. of_bool (P x)) = int (length (filter P xs))" for P :: "plist_item \<Rightarrow> bool" and xs
    by (induction xs) auto
  moreover have "(\<Sum>x\<leftarrow>xs. time_of x) = (\<Sum>x\<leftarrow>filter (\<lambda>x. item_time x \<noteq> -1) xs. item_time x)" for xs
    by (induction xs) (auto simp: time_of_def)
  moreover have "not_deleted p = items_with_time p \<longleftrightarrow> (\<forall>x\<in>set (items p). \<not> i_deleted x \<longrightarrow> item_time x \<noteq> -1)"
    using all_timed [OF c] c l by (simp add: counts_ok_def)
  ultimately show ?thesis
    using inv find_sound [OF assms(1), of p f] by (simp add: plist_inv_def counts_ok_def plist_count_def plist_total_time_def)
qed

definition sample_fs :: host_fs where
  "sample_fs = \<lparr>fs_stat = (\<lambda>_. Some (False, 7)), fs_readable = (\<lambda>_. True), fs_sound = (\<lambda>_. True)\<rparr>"

lemma sample_add:
  "\<exists>p. plist_add sample_fs strcmp (Some f) plist_init = Inr (0, p) \<and> plist_inv strcmp p
     \<and> items p = [new_item sample_fs (Some f)] \<and> set (inorder (search_tree_of p)) = {0} \<and> fits_int p"
  using plist_add_inv [OF strcmp.collation_axioms plist_init_inv, of sample_fs f]
  by (auto simp: plist_init_def grown_def rb_init_tree_def fits_int_def INIT_SIZE_def)

theorem plist_reachable_inv_witness:
  "\<exists>p. (plist_int_step sample_fs strcmp)\<^sup>*\<^sup>* plist_init p \<and> num p = 1 \<and> plist_count p = 1"
proof -
  obtain p where p: "plist_add sample_fs strcmp (Some ''/a'') plist_init = Inr (0, p)"
    "items p = [new_item sample_fs (Some ''/a'')]" "fits_int p" using sample_add by blast
  have r: "(plist_int_step sample_fs strcmp)\<^sup>*\<^sup>* plist_init p"
    unfolding plist_int_step_def [abs_def] using p(1,3) by (blast intro: step_add)
  have "plist_count p = int (length (filter (\<lambda>x. \<not> i_deleted x) (items p)))"
    using plist_reachable_inv [OF strcmp.collation_axioms r, of "''/a''"] by (elim conjE)
  with r p(2) show ?thesis by auto
qed

section \<open>Adding and finding\<close>

text \<open>
  C14: After a file is added, the search by any name that collates with it gives the index of the new item,
  and the search by every other name gives what it gave before.
\<close>

theorem plist_add_find:
  assumes "collation coll" and "plist_inv coll p" and "plist_add fs coll (Some f) p = Inr (i, q)"
  shows "plist_find_fname coll g q = (if coll g f = 0 then Inr (int (num p)) else plist_find_fname coll g p)"
proof -
  have ok: "index_ok coll p" using assms(2) by (simp add: plist_inv_def)
  let ?T = "set (inorder (search_tree_of p))"
  have lt: "\<forall>i\<in>?T. i < num p" using ok by (auto simp: index_ok_def named_def)
  obtain t where t: "q = grown p (new_item fs (Some f)) t" "plist_inv coll q"
    "set (inorder t) = insert (num p) {i \<in> ?T. coll f (name_at p i) \<noteq> 0}"
    using plist_add_inv [OF assms(1,2), of fs f] assms(3) by auto
  have okq: "index_ok coll q" using t(2) by (simp add: plist_inv_def)
  have st: "search_tree_of q = t" using t(1) by (simp add: grown_def)
  have new: "name_at q (num p) = f" "\<not> i_deleted (items q ! num p)"
    using t(1) name_at_grown(4) [of "new_item fs (Some f)" f p t] by (auto simp: grown_def)
  have old: "name_at q j = name_at p j" "items q ! j = items p ! j" if "j \<in> ?T" for j
    using that lt t(1) by (auto simp: name_at_grown) (auto simp: grown_def nth_append)
  show ?thesis
  proof (cases "coll g f = 0")
    case True
    then show ?thesis using find_found [OF assms(1) okq, of "num p" g] t(3) st new by simp
  next
    case False
    show ?thesis
    proof (cases "\<exists>j\<in>?T. coll g (name_at p j) = 0")
      case True
      then obtain j where j: "j \<in> ?T" "coll g (name_at p j) = 0" by blast
      have "coll f (name_at p j) \<noteq> 0"
        using False j(2) collation.eq_trans [OF assms(1)] collation.sym [OF assms(1)] by metis
      then have "j \<in> set (inorder (search_tree_of q))" using t(3) st j(1) by simp
      then show ?thesis
        using find_found [OF assms(1) okq, of j g] find_found [OF assms(1) ok j] old [OF j(1)] j(2) False by simp
    next
      case none: False
      then have "\<forall>j\<in>set (inorder (search_tree_of q)). coll g (name_at q j) \<noteq> 0"
        using t(3) st False new old by auto
      then show ?thesis using find_absent [OF assms(1) okq] find_absent [OF assms(1) ok] none False by simp
    qed
  qed
qed

theorem plist_add_find_witness:
  "\<exists>p q i. plist_inv strcmp p \<and> plist_add sample_fs strcmp (Some ''/b'') p = Inr (i, q) \<and>
     plist_find_fname strcmp ''/b'' q = Inr (int (num p))"
proof -
  obtain p where p: "plist_inv strcmp p" using sample_add by blast
  obtain i q where q: "plist_add sample_fs strcmp (Some ''/b'') p = Inr (i, q)"
    using plist_add_inv [OF strcmp.collation_axioms p] by blast
  then show ?thesis using p plist_add_find [OF strcmp.collation_axioms p q, of "''/b''"] by auto
qed

text \<open>
  Deleting a valid item that is not deleted yet always succeeds and keeps the invariant: the
  count goes down by one, the item is no longer found by its name, and the search by every
  other name gives what it gave before.
\<close>

lemma plist_delete_find:
  assumes "collation coll" and "plist_inv coll p" and "plist_find_fname coll f p = Inr (int i)"
  shows "\<exists>q. plist_delete (int i) p = Inr q \<and> plist_inv coll q \<and> plist_count q = plist_count p - 1
    \<and> plist_find_fname coll f q = Inr (-1)
    \<and> (\<forall>g. coll g (name_at p i) \<noteq> 0 \<longrightarrow> plist_find_fname coll g q = plist_find_fname coll g p)"
proof -
  have ok: "index_ok coll p" using assms(2) by (simp add: plist_inv_def)
  obtain i where i': "i \<in> set (inorder (search_tree_of p))" "coll f (name_at p i) = 0"
    using assms(3) find_absent [OF assms(1) ok, of f] by fastforce
  with assms(3) have i: "i \<in> set (inorder (search_tree_of p))" "coll f (name_at p i) = 0" "\<not> i_deleted (items p ! i)"
    "plist_find_fname coll f p = Inr (int i)"
    using find_found [OF assms(1) ok i'] by (auto split: if_splits)
  have lt: "i < num p" using i(1) ok by (auto simp: index_ok_def named_def)
  obtain q where q: "plist_delete (int i) p = Inr q" "plist_inv coll q"
    "items q = (items p)[i := dead_item (items p ! i)]" "search_tree_of q = search_tree_of p"
    using plist_delete_inv [OF assms(2) lt i(3)] by blast
  have okq: "index_ok coll q" using q(2) by (simp add: plist_inv_def)
  have n: "name_at q = name_at p"
    using names_of_items(2) [of q "set_item i (dead_item (items p ! i)) p"] names_set_item(2) [OF lt, of "dead_item (items p ! i)"] q(3)
    by simp
  have "plist_count q = plist_count p - 1"
    using q(2,3) assms(2) lt i(3) sum_update [OF lt, of "\<lambda>x. of_bool (\<not> i_deleted x)" "dead_item (items p ! i)"]
    by (simp add: plist_count_def plist_inv_def counts_ok_def)
  moreover have "plist_find_fname coll f q = Inr (-1)"
    using find_found [OF assms(1) okq, of i f] i q(3,4) n lt by simp
  moreover have "plist_find_fname coll g q = plist_find_fname coll g p" if "coll g (name_at p i) \<noteq> 0" for g
  proof (cases "\<exists>j\<in>set (inorder (search_tree_of p)). coll g (name_at p j) = 0")
    case True
    then obtain j where j: "j \<in> set (inorder (search_tree_of p))" "coll g (name_at p j) = 0" by blast
    then have "items q ! j = items p ! j" using that q(3) by (cases "i = j") auto
    then show ?thesis using find_found [OF assms(1) okq, of j g] find_found [OF assms(1) ok j] j q(4) n by simp
  next
    case False
    then show ?thesis using find_absent [OF assms(1) okq] find_absent [OF assms(1) ok] q(4) n by simp
  qed
  ultimately show ?thesis using q(1,2) i(4) assms(3) by auto
qed

section \<open>Joining lists\<close>

text \<open>
  Appending a list to a list without duplicates: it always succeeds, gives again a list without
  duplicates in which every name is found, and the names on it are exactly those of the two lists.
\<close>

lemma plist_cat_union:
  assumes "collation coll" and "plist_uniq coll a" and "\<forall>x\<in>set (items b). i_file x \<noteq> None"
  shows "\<exists>q. plist_cat fs coll a b = Inr q \<and> plist_uniq coll q
    \<and> (\<forall>k. (\<exists>j. plist_find_fname coll k q = Inr j \<and> j \<noteq> -1) \<longleftrightarrow> has_name coll a k \<or> has_name coll b k)"
proof -
  let ?b = "filter (\<lambda>x. \<not> i_deleted x) (items b)"
  have "\<forall>x\<in>set ?b. i_file x \<noteq> None \<and> \<not> i_deleted x" using assms(3) by auto
  from guarded_store.fill [OF plist_guarded_store [OF assms(1), of fs] assms(2) this]
  obtain q where q: "plist_cat fs coll a b = Inr q" "plist_uniq coll q"
    "\<forall>k. has_name coll q k \<longleftrightarrow> has_name coll a k \<or> (\<exists>x\<in>set ?b. coll k (the (i_file x)) = 0)"
    unfolding plist_cat_as_fill [OF assms(3), of fs coll a] by blast
  have "(\<exists>x\<in>set ?b. coll k (the (i_file x)) = 0) \<longleftrightarrow> has_name coll b k" for k
  proof
    assume "\<exists>x\<in>set ?b. coll k (the (i_file x)) = 0"
    then obtain i where "i < num b" "\<not> i_deleted (items b ! i)" "coll k (the (i_file (items b ! i))) = 0"
      by (auto simp: in_set_conv_nth)
    then show "has_name coll b k" using assms(3) unfolding has_name_def
      by (intro exI [of _ i]) (auto simp: named_def name_at_def)
  next
    assume "has_name coll b k"
    then obtain i where "i < num b" "\<not> i_deleted (items b ! i)" "coll k (the (i_file (items b ! i))) = 0"
      by (auto simp: has_name_def named_def name_at_def split: if_splits)
    then show "\<exists>x\<in>set ?b. coll k (the (i_file x)) = 0" by (intro bexI [of _ "items b ! i"]) auto
  qed
  moreover have "(\<exists>j. plist_find_fname coll k q = Inr j \<and> j \<noteq> -1) \<longleftrightarrow> has_name coll q k" for k
    using find_has_name [OF assms(1) q(2), of k] by auto
  ultimately have "\<forall>k. (\<exists>j. plist_find_fname coll k q = Inr j \<and> j \<noteq> -1) \<longleftrightarrow> has_name coll a k \<or> has_name coll b k"
    using q(3) by simp
  with q(1,2) show ?thesis by (intro exI [of _ q] conjI)
qed

lemma plist_init_uniq: "plist_uniq coll plist_init"
  using plist_init_inv [of coll] by (simp add: plist_uniq_def named_def plist_init_def)

section \<open>Walking through the list\<close>

definition live_indices :: "plist \<Rightarrow> nat \<Rightarrow> nat \<Rightarrow> nat list" where
  "live_indices p a b = filter (\<lambda>i. \<not> i_deleted (items p ! i)) [a..<b]"

lemma takeWhile_drop_filter:
  "(let i = k + length (takeWhile P (drop k xs)) in if i < length xs then int i else -1) =
    (case filter (\<lambda>i. \<not> P (xs ! i)) [k..<length xs] of [] \<Rightarrow> -1 | i # _ \<Rightarrow> int i)"
proof (induction "length xs - k" arbitrary: k)
  case 0
  then show ?case by simp
next
  case (Suc n)
  then have k: "k < length xs" by simp
  then have "drop k xs = xs ! k # drop (Suc k) xs" "[k..<length xs] = k # [Suc k..<length xs]"
    by (simp_all add: Cons_nth_drop_Suc upt_conv_Cons)
  moreover have "n = length xs - Suc k" using Suc.hyps(2) by simp
  ultimately show ?case using k Suc.hyps(1) [of "Suc k"] by (cases "P (xs ! k)") (simp_all add: Let_def)
qed

lemma plist_next_live:
  "-1 \<le> n \<Longrightarrow> plist_next p n = Inr (case live_indices p (nat (n + 1)) (num p) of [] \<Rightarrow> -1 | i # _ \<Rightarrow> int i)"
  using takeWhile_drop_filter [of "nat (n + 1)" i_deleted "items p"]
  by (simp add: plist_next_def live_indices_def Let_def)

lemma prev_from_live:
  "i \<le> num p \<Longrightarrow> prev_from p i = Inr (if live_indices p 0 i = [] then -1 else int (last (live_indices p 0 i)))"
proof (induction i)
  case (Suc i)
  then show ?case
    by (cases "i_deleted (items p ! i)") (simp_all add: item_at_def live_indices_def)
qed (simp add: live_indices_def)

text \<open>
  \<^verbatim>\<open>plist_next\<close> gives the first item after the given one that is not deleted, or -1, and
  \<^verbatim>\<open>plist_prev\<close> the last one before it, or -1; going forward and back again from an item
  that is not deleted leads to this item.
\<close>

lemma plist_next_prev:
  assumes "i < num p"
  shows "plist_next p (int i) = Inr (case live_indices p (i + 1) (num p) of [] \<Rightarrow> -1 | j # _ \<Rightarrow> int j)
    \<and> plist_next p (-1) = Inr (case live_indices p 0 (num p) of [] \<Rightarrow> -1 | j # _ \<Rightarrow> int j)
    \<and> plist_prev p (int i) = Inr (if live_indices p 0 i = [] then -1 else int (last (live_indices p 0 i)))
    \<and> (\<forall>j. \<not> i_deleted (items p ! i) \<longrightarrow> plist_next p (int i) = Inr j \<longrightarrow> j \<noteq> -1 \<longrightarrow> plist_prev p j = Inr (int i))"
proof (intro conjI allI impI)
  show nx: "plist_next p (int i) = Inr (case live_indices p (i + 1) (num p) of [] \<Rightarrow> -1 | j # _ \<Rightarrow> int j)"
    using plist_next_live [of "int i" p] by (simp add: nat_add_distrib)
  show "plist_next p (-1) = Inr (case live_indices p 0 (num p) of [] \<Rightarrow> -1 | j # _ \<Rightarrow> int j)"
    using plist_next_live [of "-1" p] by simp
  show "plist_prev p (int i) = Inr (if live_indices p 0 i = [] then -1 else int (last (live_indices p 0 i)))"
    using prev_from_live [of i p] assms by (simp add: plist_prev_def)
  fix j
  assume l: "\<not> i_deleted (items p ! i)" and j: "plist_next p (int i) = Inr j" "j \<noteq> -1"
  then obtain k ks where k: "live_indices p (i + 1) (num p) = k # ks" "j = int k"
    using nx by (auto split: list.splits)
  have "filter (\<lambda>i. \<not> i_deleted (items p ! i)) [i + 1..<num p] = k # ks" using k(1) by (simp add: live_indices_def)
  then have r: "i < k" "k < num p" "\<forall>m. i < m \<and> m < k \<longrightarrow> i_deleted (items p ! m)"
  proof -
    have "k \<in> set (filter (\<lambda>i. \<not> i_deleted (items p ! i)) [i + 1..<num p])"
      unfolding \<open>filter _ _ = k # ks\<close> by simp
    then show "i < k" "k < num p" by auto
    obtain us vs where uv: "[i + 1..<num p] = us @ k # vs" "\<forall>u\<in>set us. i_deleted (items p ! u)"
      using \<open>filter _ _ = k # ks\<close> by (auto simp: filter_eq_Cons_iff)
    show "\<forall>m. i < m \<and> m < k \<longrightarrow> i_deleted (items p ! m)"
    proof (intro allI impI)
      fix m assume m: "i < m \<and> m < k"
      have "sorted_wrt (<) (us @ k # vs)" using uv(1) sorted_wrt_upt by metis
      then have "\<forall>v\<in>set vs. k < v" by (simp add: sorted_wrt_append)
      moreover have "m \<in> set (us @ k # vs)" using m \<open>k < num p\<close> uv(1) [symmetric] by simp
      ultimately show "i_deleted (items p ! m)" using uv(2) m by auto
    qed
  qed
  have "[0..<k] = [0..<i] @ i # [Suc i..<k]"
    using r(1) upt_add_eq_append [of 0 i "k - i"] upt_conv_Cons [of i k] by simp
  moreover have "filter (\<lambda>i. \<not> i_deleted (items p ! i)) [Suc i..<k] = []"
    using r(3) by (auto simp: filter_empty_conv)
  ultimately have "live_indices p 0 k = live_indices p 0 i @ [i]" using l by (simp add: live_indices_def)
  then show "plist_prev p j = Inr (int i)"
    using prev_from_live [of k p] r(2) k(2) by (simp add: plist_prev_def)
qed

section \<open>Renaming an item\<close>

text \<open>
  Renaming the only item of a list aborts the program: the tree is searched for the new name
  instead of the old one, the old entry stays, and inserting the entry again finds it there.
\<close>

lemma plist_set_file_aborts:
  assumes "collation coll" and "plist_add fs coll (Some f) plist_init = Inr (0, p)" and "coll g f \<noteq> 0"
  shows "plist_set_file fs coll 0 g p = Inl Abort"
proof -
  obtain t where t: "p = grown plist_init (new_item fs (Some f)) t" "plist_inv coll p" "set (inorder t) = {0}"
    using plist_add_inv [OF assms(1) plist_init_inv, of fs f] assms(2)
    by (auto simp: plist_init_def rb_init_tree_def)
  have st: "search_tree_of p = t" and it: "items p = [new_item fs (Some f)]"
    using t(1) by (simp_all add: grown_def plist_init_def)
  have "index_ok coll p" using t(2) by (simp add: plist_inv_def)
  have nf: "name_at p 0 = f" using it by (simp add: name_at_def named_def)
  obtain t1 where t1: "tree_delete coll g p = Inr (p\<lparr>search_tree_of := t1\<rparr>)" "search_tree (rb_compare coll p) t1"
    "set (inorder t1) = {0}"
    using tree_delete_ok [OF assms(1) \<open>index_ok coll p\<close>, of g] st t(3) nf assms(3) by auto
  let ?x = "(new_item fs (Some f))\<lparr>i_file := Some g, i_type := file_type_of fs g, i_mtime := get_mtime fs g\<rparr>"
  let ?q = "set_item 0 ?x (p\<lparr>search_tree_of := t1\<rparr>)"
  have "sorted_wrt (\<lambda>a b. rb_compare coll p a b < 0) (inorder t1)" using t1(2) by (simp add: search_tree_def)
  then have "inorder t1 = [0]"
  proof (cases "inorder t1")
    case (Cons a as)
    then have "a = 0" "\<forall>b\<in>set as. b = 0" using t1(3) by auto
    with Cons \<open>sorted_wrt _ _\<close> show ?thesis
      using collation.refl [OF assms(1)] by (cases as) (auto simp: rb_compare_def)
  qed (use t1(3) in simp)
  moreover have "rb_shape t1" using t1(2) by (simp add: search_tree_def)
  ultimately have "index_ok coll ?q" using it by (simp add: index_ok_def search_tree_def named_def)
  moreover have "name_at ?q 0 = g" "named ?q 0" using it by (simp_all add: name_at_def named_def)
  ultimately have "tree_insert coll 0 ?q = Inl Abort"
    using tree_insert_abort [OF assms(1), of ?q 0 0] \<open>inorder t1 = [0]\<close> collation.refl [OF assms(1)] by simp
  then show ?thesis
    using it t1(1) limit_ok [of 0 p] by (simp add: plist_set_file_def)
qed

end
