(* ===== verification/Fifo_Buf.thy ===== *)
theory Fifo_Buf
  imports Prelude
begin

text \<open>
  The byte buffer between the player and the output, \<^verbatim>\<open>src/src/moc-2.5.0/fifo_buf.c\<close>: a
  ring in an array. The contract of a queue is the locale \<open>fifo\<close>; the ring meets it.
\<close>

section \<open>Queues\<close>

datatype 'a fifo_op = Put "'a list" | Get nat

text \<open>What a sequence of operations accepted and delivered, in order.\<close>

fun run_ops :: "('a list \<Rightarrow> 's \<Rightarrow> (nat \<times> 's) result) \<Rightarrow> (nat \<Rightarrow> 's \<Rightarrow> ('a list \<times> 's) result) \<Rightarrow>
    'a fifo_op list \<Rightarrow> 's \<Rightarrow> ('a list \<times> 'a list \<times> 's) result" where
  "run_ops put get [] s = Inr ([], [], s)"
| "run_ops put get (Put xs # ops) s =
     bindR (put xs s) (\<lambda>(n, s). bindR (run_ops put get ops s) (\<lambda>(a, d, s). Inr (take n xs @ a, d, s)))"
| "run_ops put get (Get k # ops) s =
     bindR (get k s) (\<lambda>(ys, s). bindR (run_ops put get ops s) (\<lambda>(a, d, s). Inr (a, ys @ d, s)))"

locale fifo =
  fixes inv :: "'s \<Rightarrow> bool" and contents :: "'s \<Rightarrow> 'a list"
    and put :: "'a list \<Rightarrow> 's \<Rightarrow> (nat \<times> 's) result" and get :: "nat \<Rightarrow> 's \<Rightarrow> ('a list \<times> 's) result"
  assumes put_ok: "inv s \<Longrightarrow> \<exists>n s'. put xs s = Inr (n, s') \<and> inv s' \<and> n \<le> length xs \<and> contents s' = contents s @ take n xs"
    and get_ok: "inv s \<Longrightarrow> \<exists>s'. get k s = Inr (take k (contents s), s') \<and> inv s' \<and> contents s' = drop k (contents s)"
begin

text \<open>Nothing is lost, doubled or reordered, and no operation fails.\<close>

lemma stream:
  "inv s \<Longrightarrow> \<exists>a d s'. run_ops put get ops s = Inr (a, d, s') \<and> inv s' \<and> contents s @ a = d @ contents s'"
proof (induction ops arbitrary: s)
  case (Cons x ops)
  show ?case
  proof (cases x)
    case (Put xs)
    obtain n s1 where p: "put xs s = Inr (n, s1)" "inv s1" "contents s1 = contents s @ take n xs"
      using put_ok [OF Cons.prems] by blast
    with Cons.IH [OF p(2)] Put show ?thesis by fastforce
  next
    case (Get k)
    obtain s1 where g: "get k s = Inr (take k (contents s), s1)" "inv s1" "contents s1 = drop k (contents s)"
      using get_ok [OF Cons.prems] by blast
    from Cons.IH [OF g(2)] obtain a d s' where r: "run_ops put get ops s1 = Inr (a, d, s')" "inv s'"
      "contents s1 @ a = d @ contents s'" by blast
    have "contents s @ a = (take k (contents s) @ d) @ contents s'"
      using r(3) g(3) append_take_drop_id [of k "contents s"] by (metis append_assoc)
    with Get g(1) r show ?thesis by auto
  qed
qed simp

end

section \<open>The ring\<close>

record 'a fifo_buf =
  buf :: "'a list"
  bsize :: nat
  pos :: nat
  fill :: nat

text \<open>\<^verbatim>\<open>memcpy\<close> into an array, and out of one.\<close>

definition copy_in :: "'a list \<Rightarrow> nat \<Rightarrow> 'a list \<Rightarrow> 'a list result" where
  "copy_in dst k src =
     (if k + length src \<le> length dst then Inr (take k dst @ src @ drop (k + length src) dst) else Inl Undefined)"

definition copy_out :: "'a list \<Rightarrow> nat \<Rightarrow> nat \<Rightarrow> 'a list result" where
  "copy_out src k n = (if k + n \<le> length src then Inr (take n (drop k src)) else Inl Undefined)"

text \<open>The buffer is allocated with whatever the memory holds.\<close>

definition fifo_buf_init :: "'a list \<Rightarrow> nat \<Rightarrow> 'a fifo_buf result" where
  "fifo_buf_init mem sz =
     bindR (guardR (0 < sz) Assert) (\<lambda>_. Inr \<lparr>buf = mem, bsize = sz, pos = 0, fill = 0\<rparr>)"

function put_loop :: "'a list \<Rightarrow> nat \<Rightarrow> 'a fifo_buf \<Rightarrow> (nat \<times> 'a fifo_buf) result" where
  "put_loop data written b =
     (if fill b < bsize b \<and> written < length data then
        let (write_from, to_write) =
              (if pos b + fill b < bsize b then (pos b + fill b, bsize b - (pos b + fill b))
               else (fill b + pos b - bsize b, bsize b - fill b));
            to_write = min to_write (length data - written)
        in bindR (copy_in (buf b) write_from (take to_write (drop written data))) (\<lambda>m.
             put_loop data (written + to_write) (b\<lparr>buf := m, fill := fill b + to_write\<rparr>))
      else Inr (written, b))"
  by pat_completeness auto

termination
  by (relation "measure (\<lambda>(data, written, b). length data - written)") (auto split: if_splits)

definition fifo_buf_put :: "'a list \<Rightarrow> 'a fifo_buf \<Rightarrow> (nat \<times> 'a fifo_buf) result" where
  "fifo_buf_put data b = put_loop data 0 b"

function peek_loop :: "'a list \<Rightarrow> nat \<Rightarrow> nat \<Rightarrow> nat \<Rightarrow> 'a list \<Rightarrow> nat \<Rightarrow> 'a list result" where
  "peek_loop m sz p left out usize =
     (if left \<noteq> 0 \<and> length out < usize then
        let to_copy = (if p + left \<le> sz then left else sz - p);
            to_copy = min to_copy (usize - length out)
        in if to_copy = 0 then Inl Undefined
           else bindR (copy_out m p to_copy) (\<lambda>ys.
             peek_loop m sz (if p + to_copy = sz then 0 else p + to_copy) (left - to_copy) (out @ ys) usize)
      else Inr out)"
  by pat_completeness auto

termination
  by (relation "measure (\<lambda>(m, sz, p, left, out, usize). left)") (auto split: if_splits)

text \<open>
  A round that copies nothing would repeat for ever; it needs a position behind the end of the
  buffer and is marked as \<open>Undefined\<close>.
\<close>

definition fifo_buf_peek :: "nat \<Rightarrow> 'a fifo_buf \<Rightarrow> 'a list result" where
  "fifo_buf_peek usize b = peek_loop (buf b) (bsize b) (pos b) (fill b) [] usize"

function get_loop :: "'a list \<Rightarrow> nat \<Rightarrow> 'a fifo_buf \<Rightarrow> ('a list \<times> 'a fifo_buf) result" where
  "get_loop out usize b =
     (if fill b \<noteq> 0 \<and> length out < usize then
        let to_copy = (if pos b + fill b \<le> bsize b then fill b else bsize b - pos b);
            to_copy = min to_copy (usize - length out)
        in if to_copy = 0 then Inl Undefined
           else bindR (copy_out (buf b) (pos b) to_copy) (\<lambda>ys.
             get_loop (out @ ys) usize (b\<lparr>fill := fill b - to_copy,
               pos := (if pos b + to_copy = bsize b then 0 else pos b + to_copy)\<rparr>))
      else Inr (out, b))"
  by pat_completeness auto

termination
  by (relation "measure (\<lambda>(out, usize, b). fill b)") (auto split: if_splits)

definition fifo_buf_get :: "nat \<Rightarrow> 'a fifo_buf \<Rightarrow> ('a list \<times> 'a fifo_buf) result" where
  "fifo_buf_get usize b = get_loop [] usize b"

definition fifo_buf_get_space :: "'a fifo_buf \<Rightarrow> nat" where
  "fifo_buf_get_space b = bsize b - fill b"

definition fifo_buf_get_fill :: "'a fifo_buf \<Rightarrow> nat" where
  "fifo_buf_get_fill b = fill b"

definition fifo_buf_get_size :: "'a fifo_buf \<Rightarrow> nat" where
  "fifo_buf_get_size b = bsize b"

definition fifo_buf_clear :: "'a fifo_buf \<Rightarrow> 'a fifo_buf" where
  "fifo_buf_clear b = b\<lparr>fill := 0\<rparr>"

declare put_loop.simps [simp del] peek_loop.simps [simp del] get_loop.simps [simp del]

section \<open>The ring as a list\<close>

definition ring_inv :: "'a fifo_buf \<Rightarrow> bool" where
  "ring_inv b \<longleftrightarrow> 0 < bsize b \<and> length (buf b) = bsize b \<and> pos b < bsize b \<and> fill b \<le> bsize b"

definition slot :: "'a fifo_buf \<Rightarrow> nat \<Rightarrow> nat" where
  "slot b i = (if pos b + i < bsize b then pos b + i else pos b + i - bsize b)"

definition ring :: "'a fifo_buf \<Rightarrow> 'a list" where
  "ring b = map (\<lambda>i. buf b ! slot b i) [0..<fill b]"

lemma length_ring [simp]: "length (ring b) = fill b"
  by (simp add: ring_def)

lemma nth_ring: "i < fill b \<Longrightarrow> ring b ! i = buf b ! slot b i"
  by (simp add: ring_def)

lemma copy_in_nth:
  "copy_in dst k src = Inr m \<Longrightarrow> length m = length dst \<and>
    (\<forall>j<length dst. m ! j = (if k \<le> j \<and> j < k + length src then src ! (j - k) else dst ! j))"
  by (auto simp: copy_in_def nth_append split: if_splits)

text \<open>One round of writing appends to the list, one round of reading takes from its front.\<close>

lemma write_round:
  assumes inv: "ring_inv b" and k: "length src = k" "0 < k" "fill b + k \<le> bsize b"
    and wfrom: "wfrom = (if pos b + fill b < bsize b then pos b + fill b else fill b + pos b - bsize b)" "wfrom + k \<le> bsize b"
  shows "\<exists>m. copy_in (buf b) wfrom src = Inr m \<and> ring_inv (b\<lparr>buf := m, fill := fill b + k\<rparr>)
    \<and> ring (b\<lparr>buf := m, fill := fill b + k\<rparr>) = ring b @ src"
proof -
  obtain m where m: "copy_in (buf b) wfrom src = Inr m"
    using inv wfrom(2) k(1) by (simp add: copy_in_def ring_inv_def)
  let ?b = "b\<lparr>buf := m, fill := fill b + k\<rparr>"
  have n: "length m = bsize b" "\<forall>j<bsize b. m ! j = (if wfrom \<le> j \<and> j < wfrom + k then src ! (j - wfrom) else buf b ! j)"
    using copy_in_nth [OF m] inv k(1) by (simp_all add: ring_inv_def)
  have "ring ?b = ring b @ src"
  proof (rule nth_equalityI)
    fix i
    assume i: "i < length (ring ?b)"
    have s: "slot ?b i = slot b i" "slot b i < bsize b" using inv i k(3) by (auto simp: slot_def ring_inv_def)
    show "ring ?b ! i = (ring b @ src) ! i"
    proof (cases "i < fill b")
      case True
      then have "\<not> (wfrom \<le> slot b i \<and> slot b i < wfrom + k)"
        using inv k wfrom by (auto simp: slot_def ring_inv_def split: if_splits)
      then show ?thesis using True i n s by (auto simp: nth_ring nth_append)
    next
      case False
      then obtain j where j: "i = fill b + j" by (metis le_Suc_ex not_less)
      then have "slot b i = wfrom + j" "j < k"
        using inv i wfrom by (auto simp: slot_def ring_inv_def split: if_splits)
      then have "m ! slot b i = src ! j" using n s(2) by simp
      then show ?thesis using j i s(1) by (simp add: nth_ring nth_append)
    qed
  qed (use k(1) in simp)
  moreover have "ring_inv ?b" using inv k n(1) by (simp add: ring_inv_def)
  ultimately show ?thesis using m by blast
qed

lemma read_round:
  assumes inv: "ring_inv b" and k: "k \<le> fill b" "pos b + k \<le> bsize b"
    and p: "p' = (if pos b + k = bsize b then 0 else pos b + k)"
  shows "copy_out (buf b) (pos b) k = Inr (take k (ring b)) \<and> ring_inv (b\<lparr>fill := fill b - k, pos := p'\<rparr>)
    \<and> ring (b\<lparr>fill := fill b - k, pos := p'\<rparr>) = drop k (ring b)"
proof (intro conjI)
  have "take k (drop (pos b) (buf b)) = take k (ring b)"
  proof (rule nth_equalityI)
    show "length (take k (drop (pos b) (buf b))) = length (take k (ring b))" using inv k by (simp add: ring_inv_def)
    fix i
    assume "i < length (take k (drop (pos b) (buf b)))"
    then show "take k (drop (pos b) (buf b)) ! i = take k (ring b) ! i"
      using inv k by (simp add: ring_inv_def nth_ring slot_def)
  qed
  then show "copy_out (buf b) (pos b) k = Inr (take k (ring b))"
    using inv k(2) by (simp add: copy_out_def ring_inv_def)
  show "ring_inv (b\<lparr>fill := fill b - k, pos := p'\<rparr>)" using inv k p by (auto simp: ring_inv_def)
  show "ring (b\<lparr>fill := fill b - k, pos := p'\<rparr>) = drop k (ring b)"
  proof (rule nth_equalityI)
    fix i
    assume i: "i < length (ring (b\<lparr>fill := fill b - k, pos := p'\<rparr>))"
    have "slot (b\<lparr>fill := fill b - k, pos := p'\<rparr>) i = slot b (k + i)"
      using inv k p i by (auto simp: slot_def ring_inv_def)
    then show "ring (b\<lparr>fill := fill b - k, pos := p'\<rparr>) ! i = drop k (ring b) ! i"
      using i k by (simp add: nth_ring)
  qed simp
qed

lemma put_loop_ok:
  "ring_inv b \<Longrightarrow> written \<le> length data \<Longrightarrow>
    \<exists>b'. put_loop data written b = Inr (written + min (bsize b - fill b) (length data - written), b') \<and> ring_inv b'
      \<and> bsize b' = bsize b \<and> ring b' = ring b @ take (bsize b - fill b) (drop written data)"
proof (induction "length data - written" arbitrary: written b rule: less_induct)
  case less
  show ?case
  proof (cases "fill b < bsize b \<and> written < length data")
    case True
    define wfrom where "wfrom = (if pos b + fill b < bsize b then pos b + fill b else fill b + pos b - bsize b)"
    define tw where "tw = (if pos b + fill b < bsize b then bsize b - (pos b + fill b) else bsize b - fill b)"
    define k where "k = min tw (length data - written)"
    let ?src = "take k (drop written data)"
    have k: "length ?src = k" "0 < k" "fill b + k \<le> bsize b" "wfrom + k \<le> bsize b" "written + k \<le> length data"
      using True less(2) by (auto simp: k_def tw_def wfrom_def ring_inv_def)
    obtain m where m: "copy_in (buf b) wfrom ?src = Inr m" "ring_inv (b\<lparr>buf := m, fill := fill b + k\<rparr>)"
      "ring (b\<lparr>buf := m, fill := fill b + k\<rparr>) = ring b @ ?src"
      using write_round [OF less(2) k(1-3) wfrom_def k(4)] by blast
    let ?b = "b\<lparr>buf := m, fill := fill b + k\<rparr>"
    have step: "put_loop data written b = put_loop data (written + k) ?b"
      using True m(1) by (subst put_loop.simps) (auto simp: Let_def wfrom_def tw_def k_def)
    have "length data - (written + k) < length data - written" using True k(2,5) by linarith
    from less(1) [OF this m(2) k(5)] obtain b' where b': "put_loop data (written + k) ?b =
        Inr (written + k + min (bsize ?b - fill ?b) (length data - (written + k)), b')" "ring_inv b'"
      "bsize b' = bsize ?b" "ring b' = ring ?b @ take (bsize ?b - fill ?b) (drop (written + k) data)"
      by blast
    have "written + k + min (bsize ?b - fill ?b) (length data - (written + k)) =
        written + min (bsize b - fill b) (length data - written)" using k by auto
    moreover have "?src @ take (bsize b - (fill b + k)) (drop (written + k) data) = take (bsize b - fill b) (drop written data)"
      using k(3) take_add [of k "bsize b - (fill b + k)" "drop written data"] by (simp add: add.commute)
    ultimately show ?thesis using step b' m(3) by auto
  next
    case False
    then show ?thesis using less(2,3) by (subst put_loop.simps) (auto simp: ring_inv_def)
  qed
qed

lemma get_loop_ok:
  "ring_inv b \<Longrightarrow> length out \<le> usize \<Longrightarrow>
    \<exists>b'. get_loop out usize b = Inr (out @ take (usize - length out) (ring b), b') \<and> ring_inv b'
      \<and> bsize b' = bsize b \<and> ring b' = drop (usize - length out) (ring b)"
proof (induction "fill b" arbitrary: out b rule: less_induct)
  case less
  show ?case
  proof (cases "fill b \<noteq> 0 \<and> length out < usize")
    case True
    define tc where "tc = (if pos b + fill b \<le> bsize b then fill b else bsize b - pos b)"
    define k where "k = min tc (usize - length out)"
    define p' where "p' = (if pos b + k = bsize b then 0 else pos b + k)"
    have k: "k \<le> fill b" "pos b + k \<le> bsize b" "k \<noteq> 0" "length out + k \<le> usize"
      using True less(2) by (auto simp: k_def tc_def ring_inv_def)
    let ?b = "b\<lparr>fill := fill b - k, pos := p'\<rparr>"
    have r: "copy_out (buf b) (pos b) k = Inr (take k (ring b))" "ring_inv ?b" "ring ?b = drop k (ring b)"
      using read_round [OF less(2) k(1,2) p'_def] by auto
    have step: "get_loop out usize b = get_loop (out @ take k (ring b)) usize ?b"
      using True r(1) k(3) by (subst get_loop.simps) (auto simp: Let_def tc_def k_def p'_def)
    have len: "length (take k (ring b)) = k" using k(1) by simp
    have "fill ?b < fill b" using k(1,3) by simp
    from less(1) [OF this r(2), of "out @ take k (ring b)"] obtain b' where b': "get_loop (out @ take k (ring b)) usize ?b =
        Inr (out @ take k (ring b) @ take (usize - (length out + k)) (drop k (ring b)), b')" "ring_inv b'"
      "bsize b' = bsize b" "ring b' = drop (usize - (length out + k)) (drop k (ring b))"
      using len r(3) k(4) by auto
    have "take k (ring b) @ take (usize - (length out + k)) (drop k (ring b)) = take (usize - length out) (ring b)"
      using k(4) take_add [of k "usize - (length out + k)" "ring b"] by simp
    moreover have "drop (usize - (length out + k)) (drop k (ring b)) = drop (usize - length out) (ring b)"
      using k(4) by simp
    ultimately show ?thesis using step b' by auto
  next
    case False
    then show ?thesis using less(2,3) by (subst get_loop.simps) (auto simp: ring_inv_def ring_def)
  qed
qed

lemma peek_is_get:
  "peek_loop (buf b) (bsize b) (pos b) (fill b) out usize = bindR (get_loop out usize b) (\<lambda>(ys, _). Inr ys)"
proof (induction "fill b" arbitrary: out b rule: less_induct)
  case less
  define tc where "tc = (if pos b + fill b \<le> bsize b then fill b else bsize b - pos b)"
  define k where "k = min tc (usize - length out)"
  show ?case
  proof (cases "fill b \<noteq> 0 \<and> length out < usize \<and> k \<noteq> 0")
    case True
    let ?b = "b\<lparr>fill := fill b - k, pos := (if pos b + k = bsize b then 0 else pos b + k)\<rparr>"
    have "fill ?b < fill b" using True by simp
    from less [OF this] have "peek_loop (buf b) (bsize b) (if pos b + k = bsize b then 0 else pos b + k) (fill b - k) ys usize =
        bindR (get_loop ys usize ?b) (\<lambda>(ys, _). Inr ys)" for ys by simp
    moreover have "peek_loop (buf b) (bsize b) (pos b) (fill b) out usize = bindR (copy_out (buf b) (pos b) k) (\<lambda>ys.
        peek_loop (buf b) (bsize b) (if pos b + k = bsize b then 0 else pos b + k) (fill b - k) (out @ ys) usize)"
      using True by (subst peek_loop.simps) (auto simp: Let_def tc_def k_def)
    moreover have "get_loop out usize b = bindR (copy_out (buf b) (pos b) k) (\<lambda>ys. get_loop (out @ ys) usize ?b)"
      using True by (subst get_loop.simps) (auto simp: Let_def tc_def k_def)
    ultimately show ?thesis by (simp add: bindR_assoc)
  next
    case False
    then show ?thesis
      by (subst peek_loop.simps, subst get_loop.simps) (auto simp: Let_def tc_def k_def)
  qed
qed

lemma fifo_buf_put_ok:
  "ring_inv b \<Longrightarrow> \<exists>b'. fifo_buf_put data b = Inr (min (bsize b - fill b) (length data), b') \<and> ring_inv b'
    \<and> bsize b' = bsize b \<and> ring b' = ring b @ take (bsize b - fill b) data"
  using put_loop_ok [of b 0 data] by (simp add: fifo_buf_put_def)

lemma fifo_buf_get_ok:
  "ring_inv b \<Longrightarrow> \<exists>b'. fifo_buf_get k b = Inr (take k (ring b), b') \<and> ring_inv b'
    \<and> bsize b' = bsize b \<and> ring b' = drop k (ring b)"
  using get_loop_ok [of b "[]" k] by (simp add: fifo_buf_get_def)

text \<open>The ring buffer is a queue.\<close>

interpretation ring_fifo: fifo ring_inv ring fifo_buf_put fifo_buf_get
proof unfold_locales
  fix b :: "'a fifo_buf" and data
  assume "ring_inv b"
  from fifo_buf_put_ok [OF this, of data]
  show "\<exists>n s'. fifo_buf_put data b = Inr (n, s') \<and> ring_inv s' \<and> n \<le> length data \<and> ring s' = ring b @ take n data"
    by (auto simp: min_def split: if_splits)
next
  fix b :: "'a fifo_buf" and k
  assume "ring_inv b"
  from fifo_buf_get_ok [OF this, of k]
  show "\<exists>s'. fifo_buf_get k b = Inr (take k (ring b), s') \<and> ring_inv s' \<and> ring s' = drop k (ring b)" by blast
qed

lemma fifo_buf_init_inv: "length mem = sz \<Longrightarrow> fifo_buf_init mem sz = Inr b \<Longrightarrow> ring_inv b \<and> ring b = [] \<and> bsize b = sz"
  by (auto simp: fifo_buf_init_def result_simps ring_inv_def ring_def)

section \<open>Properties\<close>

text \<open>
  C15: Whatever sequence of writes and reads of whatever sizes goes through a new buffer, no operation
  fails, and the bytes read are exactly the bytes accepted, in their order, up to those
  still in the buffer.
\<close>

theorem fifo_buf_stream:
  assumes "length mem = sz" and "fifo_buf_init mem sz = Inr b"
  shows "\<exists>a d b'. run_ops fifo_buf_put fifo_buf_get ops b = Inr (a, d, b') \<and> a = d @ ring b' \<and> ring_inv b'"
  using ring_fifo.stream [of b ops] fifo_buf_init_inv [OF assms] by auto

theorem fifo_buf_stream_witness:
  "\<exists>a d b'. run_ops fifo_buf_put fifo_buf_get [Put [1, 2, 3], Get 2, Put [4, 5, 6], Get 9]
     \<lparr>buf = [0, 0, 0, 0::nat], bsize = 4, pos = 0, fill = 0\<rparr> = Inr (a, d, b') \<and> a = d @ ring b'"
proof -
  have "fifo_buf_init [0, 0, 0, 0::nat] 4 = Inr \<lparr>buf = [0, 0, 0, 0], bsize = 4, pos = 0, fill = 0\<rparr>" by code_simp
  from fifo_buf_stream [OF _ this, of "[Put [1, 2, 3], Get 2, Put [4, 5, 6], Get 9]"] show ?thesis by auto
qed

text \<open>
  A write accepts exactly as much as there is space for, a read delivers exactly as much as was
  asked for and is there, and a peek delivers what a read would and changes nothing.
\<close>

lemma fifo_buf_exact:
  assumes "ring_inv b"
  shows "(\<exists>b'. fifo_buf_put data b = Inr (min (fifo_buf_get_space b) (length data), b')
      \<and> ring b' = ring b @ take (fifo_buf_get_space b) data)
    \<and> (\<exists>b'. fifo_buf_get k b = Inr (take k (ring b), b') \<and> ring b' = drop k (ring b))
    \<and> fifo_buf_peek k b = Inr (take k (ring b)) \<and> fifo_buf_get_fill b = length (ring b) \<and> ring (fifo_buf_clear b) = []"
proof (intro conjI)
  show "\<exists>b'. fifo_buf_put data b = Inr (min (fifo_buf_get_space b) (length data), b')
      \<and> ring b' = ring b @ take (fifo_buf_get_space b) data"
    using fifo_buf_put_ok [OF assms, of data] by (auto simp: fifo_buf_get_space_def)
  show g: "\<exists>b'. fifo_buf_get k b = Inr (take k (ring b), b') \<and> ring b' = drop k (ring b)"
    using fifo_buf_get_ok [OF assms, of k] by blast
  show "fifo_buf_peek k b = Inr (take k (ring b))"
    using g peek_is_get [of b "[]" k] by (auto simp: fifo_buf_peek_def fifo_buf_get_def)
qed (simp_all add: fifo_buf_get_fill_def fifo_buf_clear_def ring_def)

end
