(* ===== verification/Protocol.thy ===== *)
theory Protocol
  imports Plist Fifo_Buf
begin

text \<open>
  The protocol between the music server and its clients, \<^verbatim>\<open>src/src/moc-2.5.0/protocol.c\<close>:
  numbers and strings on a stream socket, the packets for tags, items and events, and the
  event queue. Bytes are characters; numbers are sent in the representation of the machine
  (both ends are on one machine), here with the lowest byte first.
\<close>

section \<open>The socket\<close>

text \<open>
  \<open>inp\<close> holds the bytes that are still to arrive. Each \<^verbatim>\<open>recv\<close> finds the next number of
  \<open>avail\<close> of them available, all of them when the list is used up; a negative number is an
  error.
\<close>

record chan =
  inp :: string
  avail :: "int list"

definition recv :: "nat \<Rightarrow> chan \<Rightarrow> string option \<times> chan" where
  "recv n c =
     (case avail c of
        [] \<Rightarrow> (Some (take n (inp c)), c\<lparr>inp := drop n (inp c)\<rparr>)
      | a # as \<Rightarrow>
          if a < 0 then (None, c\<lparr>avail := as\<rparr>)
          else let k = min n (nat a) in (Some (take k (inp c)), c\<lparr>inp := drop k (inp c), avail := as\<rparr>))"

section \<open>Numbers and strings\<close>

fun le_bytes :: "nat \<Rightarrow> nat \<Rightarrow> string" where
  "le_bytes 0 n = []"
| "le_bytes (Suc w) n = char_of (n mod 256) # le_bytes w (n div 256)"

fun le_val :: "string \<Rightarrow> nat" where
  "le_val [] = 0"
| "le_val (c # cs) = of_char c + 256 * le_val cs"

definition enc_int :: "int \<Rightarrow> string" where
  "enc_int i = le_bytes 4 (nat (wrapU 32 i))"

definition dec_int :: "string \<Rightarrow> int" where
  "dec_int s = wrapS 32 (int (le_val s))"

definition enc_time :: "int \<Rightarrow> string" where
  "enc_time i = le_bytes 8 (nat (wrapU 64 i))"

definition dec_time :: "string \<Rightarrow> int" where
  "dec_time s = wrapS 64 (int (le_val s))"

definition get_int :: "chan \<Rightarrow> int option \<times> chan" where
  "get_int c = (case recv 4 c of
     (Some s, c) \<Rightarrow> (if length s = 4 then Some (dec_int s) else None, c) | (None, c) \<Rightarrow> (None, c))"

definition get_time :: "chan \<Rightarrow> int option \<times> chan" where
  "get_time c = (case recv 8 c of
     (Some s, c) \<Rightarrow> (if length s = 8 then Some (dec_time s) else None, c) | (None, c) \<Rightarrow> (None, c))"

definition MAX_SEND_STRING :: int where "MAX_SEND_STRING = 4096"

lemma recv_length: "recv n c = (Some s, c') \<Longrightarrow> length s \<le> n"
  by (auto simp: recv_def Let_def split: list.splits if_splits)

function get_str_loop :: "nat \<Rightarrow> string \<Rightarrow> chan \<Rightarrow> string option \<times> chan" where
  "get_str_loop len str c =
     (if length str < len then
        case recv (len - length str) c of
          (None, c) \<Rightarrow> (None, c)
        | (Some s, c) \<Rightarrow> if s = [] then (None, c) else get_str_loop len (str @ s) c
      else (Some str, c))"
  by pat_completeness auto

termination
  by (relation "measure (\<lambda>(len, str, c). len - length str)") (auto simp: diff_less_mono2)

declare get_str_loop.simps [simp del]

text \<open>The string a caller sees ends at the first NUL.\<close>

definition get_str :: "chan \<Rightarrow> string option \<times> chan" where
  "get_str c = (case get_int c of
     (None, c) \<Rightarrow> (None, c)
   | (Some len, c) \<Rightarrow>
       if 0 \<le> len \<and> len \<le> MAX_SEND_STRING then
         case get_str_loop (nat len) [] c of (r, c) \<Rightarrow> (map_option c_str r, c)
       else (None, c))"

section \<open>Packets\<close>

record packet_buf =
  pb_buf :: string
  pb_allocated :: nat

definition packet_buf_new :: packet_buf where
  "packet_buf_new = \<lparr>pb_buf = [], pb_allocated = 1024\<rparr>"

definition packet_buf_add_space :: "nat \<Rightarrow> packet_buf \<Rightarrow> packet_buf" where
  "packet_buf_add_space n b =
     (if pb_allocated b < length (pb_buf b) + n then b\<lparr>pb_allocated := pb_allocated b + (n + 256)\<rparr> else b)"

text \<open>The copy behind the used part of the buffer has to stay inside of the allocation.\<close>

definition packet_buf_append :: "string \<Rightarrow> packet_buf \<Rightarrow> packet_buf result" where
  "packet_buf_append s b =
     (if length (pb_buf b) + length s \<le> pb_allocated b then Inr (b\<lparr>pb_buf := pb_buf b @ s\<rparr>) else Inl Undefined)"

definition packet_buf_add_int :: "int \<Rightarrow> packet_buf \<Rightarrow> packet_buf result" where
  "packet_buf_add_int n b = packet_buf_append (enc_int n) (packet_buf_add_space 4 b)"

definition packet_buf_add_str :: "string \<Rightarrow> packet_buf \<Rightarrow> packet_buf result" where
  "packet_buf_add_str s b =
     bindR (packet_buf_add_int (int (length s)) b) (\<lambda>b.
       packet_buf_append s (packet_buf_add_space (length s) b))"

definition packet_buf_add_time :: "int \<Rightarrow> packet_buf \<Rightarrow> packet_buf result" where
  "packet_buf_add_time n b = packet_buf_append (enc_time n) (packet_buf_add_space 8 b)"

definition or_empty :: "string option \<Rightarrow> string" where
  "or_empty s = (case s of None \<Rightarrow> [] | Some t \<Rightarrow> t)"

definition packet_buf_add_tags :: "file_tags option \<Rightarrow> packet_buf \<Rightarrow> packet_buf result" where
  "packet_buf_add_tags tags b =
     (case tags of
        Some t \<Rightarrow>
          bindR (packet_buf_add_str (or_empty (title t)) b) (\<lambda>b.
          bindR (packet_buf_add_str (or_empty (artist t)) b) (\<lambda>b.
          bindR (packet_buf_add_str (or_empty (album t)) b) (\<lambda>b.
          bindR (packet_buf_add_int (track t) b) (\<lambda>b.
          bindR (packet_buf_add_int (if filled t AND TAGS_TIME \<noteq> 0 then time t else -1) b)
            (packet_buf_add_int (filled t))))))
      | None \<Rightarrow>
          bindR (packet_buf_add_str [] b) (\<lambda>b.
          bindR (packet_buf_add_str [] b) (\<lambda>b.
          bindR (packet_buf_add_str [] b) (\<lambda>b.
          bindR (packet_buf_add_int (-1) b) (\<lambda>b.
          bindR (packet_buf_add_int (-1) b) (packet_buf_add_int 0))))))"

definition packet_buf_add_item :: "plist_item \<Rightarrow> packet_buf \<Rightarrow> packet_buf result" where
  "packet_buf_add_item x b =
     (case i_file x of
        None \<Rightarrow> Inl Assert
      | Some f \<Rightarrow>
          bindR (packet_buf_add_str f b) (\<lambda>b.
          bindR (packet_buf_add_str (or_empty (i_title_tags x)) b) (\<lambda>b.
          bindR (packet_buf_add_tags (i_tags x) b) (packet_buf_add_time (i_mtime x)))))"

text \<open>
  Sending in pieces: each call of \<^verbatim>\<open>send\<close> takes the next number of bytes of the list, all that
  are left when the list is used up; a negative number is an error.
\<close>

fun send_all :: "int list \<Rightarrow> string \<Rightarrow> bool \<times> string" where
  "send_all rs [] = (True, [])"
| "send_all [] s = (True, s)"
| "send_all (r # rs) s =
     (if r < 0 then (False, [])
      else let (ok, out) = send_all rs (drop (nat r) s) in (ok, take (nat r) s @ out))"

definition send_str :: "string \<Rightarrow> string" where
  "send_str s = enc_int (int (length s)) @ s"

definition send_item :: "int list \<Rightarrow> plist_item option \<Rightarrow> (bool \<times> string) result" where
  "send_item rs x =
     (case x of
        None \<Rightarrow> Inr (True, send_str [])
      | Some x \<Rightarrow> bindR (packet_buf_add_item x packet_buf_new) (\<lambda>b. Inr (send_all rs (pb_buf b))))"

definition send_tags :: "int list \<Rightarrow> file_tags option \<Rightarrow> (bool \<times> string) result" where
  "send_tags rs t = bindR (packet_buf_add_tags t packet_buf_new) (\<lambda>b. Inr (send_all rs (pb_buf b)))"

text \<open>Reading is a sequence of steps of which each may fail.\<close>

definition then_get :: "'a option \<times> chan \<Rightarrow> ('a \<Rightarrow> chan \<Rightarrow> 'b option \<times> chan) \<Rightarrow> 'b option \<times> chan" where
  "then_get m k = (case m of (None, c) \<Rightarrow> (None, c) | (Some x, c) \<Rightarrow> k x c)"

definition non_empty :: "string \<Rightarrow> string option" where
  "non_empty s = (if s = [] then None else Some s)"

definition recv_tags :: "chan \<Rightarrow> file_tags option \<times> chan" where
  "recv_tags c =
     then_get (get_str c) (\<lambda>ti c. then_get (get_str c) (\<lambda>ar c. then_get (get_str c) (\<lambda>al c.
     then_get (get_int c) (\<lambda>tr c. then_get (get_int c) (\<lambda>tm c. then_get (get_int c) (\<lambda>fi c.
       (Some \<lparr>title = non_empty ti, artist = non_empty ar, album = non_empty al, track = tr, time = tm, filled = fi\<rparr>, c)))))))"

definition recv_item :: "host_fs \<Rightarrow> chan \<Rightarrow> plist_item option \<times> chan" where
  "recv_item fs c =
     then_get (get_str c) (\<lambda>f c.
       if f = [] then (Some (plist_new_item\<lparr>i_file := Some f\<rparr>), c)
       else then_get (get_str c) (\<lambda>tt c. then_get (recv_tags c) (\<lambda>tags c. then_get (get_time c) (\<lambda>t c.
         (Some (plist_new_item\<lparr>i_file := Some f, i_type := file_type_of fs f, i_title_tags := non_empty tt,
            i_tags := Some tags, i_mtime := t\<rparr>), c)))))"

section \<open>Numbers\<close>

lemma length_le_bytes [simp]: "length (le_bytes w n) = w"
  by (induction w n rule: le_bytes.induct) auto

lemma le_val_bytes: "le_val (le_bytes w n) = n mod 256 ^ w"
proof (induction w n rule: le_bytes.induct)
  case (2 w n)
  then show ?case by (simp add: mod_mult2_eq add.commute)
qed simp

lemma wrapS_wrapU: "0 < w \<Longrightarrow> wrapS w (wrapU w x) = wrapS w x"
  by (simp add: wrapS_def wrapU_def mod_add_left_eq)

lemma dec_enc_int: "- (2 ^ 31) \<le> i \<Longrightarrow> i < 2 ^ 31 \<Longrightarrow> dec_int (enc_int i) = i"
proof -
  assume i: "- (2 ^ 31) \<le> i" "i < 2 ^ 31"
  have "nat (wrapU 32 i) < 256 ^ 4" by (simp add: wrapU_def nat_less_iff)
  then have "int (le_val (enc_int i)) = wrapU 32 i"
    by (simp add: enc_int_def le_val_bytes wrapU_def)
  then show ?thesis using i wrapS_wrapU [of 32 i] wrapS_id [of 32 i] by (simp add: dec_int_def)
qed

lemma dec_enc_time: "- (2 ^ 63) \<le> i \<Longrightarrow> i < 2 ^ 63 \<Longrightarrow> dec_time (enc_time i) = i"
proof -
  assume i: "- (2 ^ 63) \<le> i" "i < 2 ^ 63"
  have "nat (wrapU 64 i) < 256 ^ 8" by (simp add: wrapU_def nat_less_iff)
  then have "int (le_val (enc_time i)) = wrapU 64 i"
    by (simp add: enc_time_def le_val_bytes wrapU_def)
  then show ?thesis using i wrapS_wrapU [of 64 i] wrapS_id [of 64 i] by (simp add: dec_time_def)
qed

lemma length_enc [simp]: "length (enc_int i) = 4" "length (enc_time i) = 8"
  by (simp_all add: enc_int_def enc_time_def)

section \<open>What a packet holds\<close>

definition pb_ok :: "packet_buf \<Rightarrow> bool" where
  "pb_ok b \<longleftrightarrow> length (pb_buf b) \<le> pb_allocated b"

definition appends :: "string \<Rightarrow> packet_buf \<Rightarrow> packet_buf result \<Rightarrow> bool" where
  "appends s b r \<longleftrightarrow> (\<exists>b'. r = Inr b' \<and> pb_ok b' \<and> pb_buf b' = pb_buf b @ s)"

lemma append_space: "pb_ok b \<Longrightarrow> length s = n \<Longrightarrow> appends s b (packet_buf_append s (packet_buf_add_space n b))"
  by (auto simp: appends_def packet_buf_append_def packet_buf_add_space_def pb_ok_def)

lemma appends_bind:
  assumes "appends s b m" and "\<And>b'. pb_ok b' \<Longrightarrow> appends t b' (k b')"
  shows "appends (s @ t) b (bindR m k)"
proof -
  obtain b' where b': "m = Inr b'" "pb_ok b'" "pb_buf b' = pb_buf b @ s" using assms(1) by (auto simp: appends_def)
  from assms(2) [OF b'(2)] obtain b'' where "k b' = Inr b''" "pb_ok b''" "pb_buf b'' = pb_buf b' @ t" by (auto simp: appends_def)
  with b' show ?thesis by (auto simp: appends_def)
qed

lemma appends_int: "pb_ok b \<Longrightarrow> appends (enc_int n) b (packet_buf_add_int n b)"
  unfolding packet_buf_add_int_def by (intro append_space) auto

lemma appends_time: "pb_ok b \<Longrightarrow> appends (enc_time n) b (packet_buf_add_time n b)"
  unfolding packet_buf_add_time_def by (intro append_space) auto

lemma appends_str: "pb_ok b \<Longrightarrow> appends (send_str s) b (packet_buf_add_str s b)"
  unfolding packet_buf_add_str_def send_str_def by (intro appends_bind appends_int append_space) auto

text \<open>Tags as they arrive: empty texts are absent, an unknown time is -1, no tags are empty tags.\<close>

definition sent_tags :: "file_tags option \<Rightarrow> file_tags" where
  "sent_tags tags =
     (case tags of None \<Rightarrow> tags_new
      | Some t \<Rightarrow> t\<lparr>title := non_empty (or_empty (title t)), artist := non_empty (or_empty (artist t)),
          album := non_empty (or_empty (album t)), time := (if filled t AND TAGS_TIME \<noteq> 0 then time t else -1)\<rparr>)"

definition tags_bytes :: "file_tags \<Rightarrow> string" where
  "tags_bytes t = send_str (or_empty (title t)) @ send_str (or_empty (artist t)) @ send_str (or_empty (album t))
     @ enc_int (track t) @ enc_int (time t) @ enc_int (filled t)"

lemma or_empty_non_empty [simp]: "or_empty (non_empty s) = s"
  by (simp add: or_empty_def non_empty_def)

lemma appends_tags: "pb_ok b \<Longrightarrow> appends (tags_bytes (sent_tags tags)) b (packet_buf_add_tags tags b)"
  unfolding tags_bytes_def packet_buf_add_tags_def
  by (cases tags) (auto simp: sent_tags_def tags_new_def or_empty_def [of None] intro!: appends_bind appends_str appends_int)

definition item_bytes :: "string \<Rightarrow> plist_item \<Rightarrow> string" where
  "item_bytes f x = send_str f @ send_str (or_empty (i_title_tags x)) @ tags_bytes (sent_tags (i_tags x)) @ enc_time (i_mtime x)"

lemma appends_item: "pb_ok b \<Longrightarrow> i_file x = Some f \<Longrightarrow> appends (item_bytes f x) b (packet_buf_add_item x b)"
  unfolding packet_buf_add_item_def item_bytes_def
  by (auto intro!: appends_bind appends_str appends_tags appends_time)

lemma send_all_ok: "send_all rs s = (True, out) \<Longrightarrow> out = s"
  by (induction rs s arbitrary: out rule: send_all.induct) (auto split: if_splits prod.splits)

lemma send_all_nonneg: "\<forall>r\<in>set rs. 0 \<le> r \<Longrightarrow> send_all rs s = (True, s)"
  by (induction rs s rule: send_all.induct) (auto simp: not_less)

section \<open>Reading it back\<close>

abbreviation stream :: "string \<Rightarrow> chan" where
  "stream s \<equiv> \<lparr>inp = s, avail = []\<rparr>"

definition int32 :: "int \<Rightarrow> bool" where "int32 i \<longleftrightarrow> - (2 ^ 31) \<le> i \<and> i < 2 ^ 31"
definition int64 :: "int \<Rightarrow> bool" where "int64 i \<longleftrightarrow> - (2 ^ 63) \<le> i \<and> i < 2 ^ 63"

definition short :: "string \<Rightarrow> bool" where
  "short s \<longleftrightarrow> NUL \<notin> set s \<and> int (length s) \<le> MAX_SEND_STRING"

lemma then_get_Some [simp]: "then_get (Some x, c) k = k x c"
  by (simp add: then_get_def)

lemma get_int_enc: "int32 i \<Longrightarrow> get_int (stream (enc_int i @ rest)) = (Some i, stream rest)"
  by (simp add: get_int_def recv_def dec_enc_int int32_def)

lemma get_time_enc: "int64 i \<Longrightarrow> get_time (stream (enc_time i @ rest)) = (Some i, stream rest)"
  by (simp add: get_time_def recv_def dec_enc_time int64_def)

lemma get_str_loop_stream: "get_str_loop (length s) [] (stream (s @ rest)) = (Some s, stream rest)"
proof (cases "s = []")
  case True
  then show ?thesis by (simp add: get_str_loop.simps)
next
  case False
  have "get_str_loop (length s) [] (stream (s @ rest)) = get_str_loop (length s) s (stream rest)"
    using False by (subst get_str_loop.simps) (simp add: recv_def)
  also have "\<dots> = (Some s, stream rest)" by (subst get_str_loop.simps) simp
  finally show ?thesis .
qed

lemma get_str_enc: "short s \<Longrightarrow> get_str (stream (send_str s @ rest)) = (Some s, stream rest)"
proof -
  assume s: "short s"
  then have "get_int (stream (send_str s @ rest)) = (Some (int (length s)), stream (s @ rest))"
    unfolding send_str_def append_assoc by (intro get_int_enc) (simp add: short_def int32_def MAX_SEND_STRING_def)
  then show ?thesis using s get_str_loop_stream [of s rest] by (simp add: get_str_def short_def)
qed

definition good_tags :: "file_tags \<Rightarrow> bool" where
  "good_tags t \<longleftrightarrow> short (or_empty (title t)) \<and> short (or_empty (artist t)) \<and> short (or_empty (album t))
     \<and> int32 (track t) \<and> int32 (time t) \<and> int32 (filled t)"

lemma recv_tags_bytes:
  assumes "good_tags t" and "title t = non_empty (or_empty (title t))" "artist t = non_empty (or_empty (artist t))"
    "album t = non_empty (or_empty (album t))"
  shows "recv_tags (stream (tags_bytes t @ rest)) = (Some t, stream rest)"
  using assms(1) unfolding recv_tags_def tags_bytes_def append_assoc
  by (simp add: good_tags_def get_str_enc get_int_enc assms(2-4) [symmetric])

lemma sent_tags_norm:
  "title (sent_tags t) = non_empty (or_empty (title (sent_tags t)))" "artist (sent_tags t) = non_empty (or_empty (artist (sent_tags t)))"
  "album (sent_tags t) = non_empty (or_empty (album (sent_tags t)))"
  by (auto simp: sent_tags_def tags_new_def or_empty_def non_empty_def split: option.split)

lemma sent_tags_good: "(\<And>t. tags = Some t \<Longrightarrow> good_tags t) \<Longrightarrow> good_tags (sent_tags tags)"
  by (cases tags) (auto simp: sent_tags_def good_tags_def tags_new_def or_empty_def [of None] short_def int32_def MAX_SEND_STRING_def)

definition good_item :: "plist_item \<Rightarrow> bool" where
  "good_item x \<longleftrightarrow> (\<exists>f. i_file x = Some f \<and> f \<noteq> [] \<and> short f) \<and> short (or_empty (i_title_tags x))
     \<and> (\<forall>t. i_tags x = Some t \<longrightarrow> good_tags t) \<and> int64 (i_mtime x)"

text \<open>The item as it arrives.\<close>

definition sent_item :: "host_fs \<Rightarrow> plist_item \<Rightarrow> plist_item" where
  "sent_item fs x = plist_new_item\<lparr>i_file := i_file x, i_type := file_type_of fs (the (i_file x)),
     i_title_tags := non_empty (or_empty (i_title_tags x)), i_tags := Some (sent_tags (i_tags x)), i_mtime := i_mtime x\<rparr>"

lemma recv_item_bytes:
  assumes "good_item x" and "i_file x = Some f"
  shows "recv_item fs (stream (item_bytes f x @ rest)) = (Some (sent_item fs x), stream rest)"
proof -
  have f: "f \<noteq> []" "short f" "short (or_empty (i_title_tags x))" "int64 (i_mtime x)" and t: "good_tags (sent_tags (i_tags x))"
    using assms sent_tags_good [of "i_tags x"] by (auto simp: good_item_def)
  show ?thesis
    unfolding recv_item_def item_bytes_def append_assoc
    using f assms(2) by (simp add: get_str_enc get_time_enc recv_tags_bytes [OF t sent_tags_norm] sent_item_def)
qed

lemma packet_buf_new_ok [simp]: "pb_ok packet_buf_new" "pb_buf packet_buf_new = []"
  by (simp_all add: pb_ok_def packet_buf_new_def)

lemma send_item_bytes:
  "i_file x = Some f \<Longrightarrow> send_item rs (Some x) = Inr (send_all rs (item_bytes f x))"
  using appends_item [OF packet_buf_new_ok(1), of x f] by (auto simp: send_item_def appends_def)

section \<open>Properties of the packets\<close>

text \<open>
  C16: A playlist item that is sent, in whatever pieces the socket takes it, is received as the same
  item: file, title, tags and modification time, with empty texts absent, and the bytes behind it
  are left for the next reader. The packet buffer never overflows.
\<close>

theorem item_roundtrip:
  assumes "good_item x" and "send_item rs (Some x) = Inr (True, out)"
  shows "recv_item fs (stream (out @ rest)) = (Some (sent_item fs x), stream rest)"
proof -
  obtain f where f: "i_file x = Some f" using assms(1) by (auto simp: good_item_def)
  have "out = item_bytes f x" using assms(2) send_item_bytes [OF f, of rs] send_all_ok by auto
  then show ?thesis using recv_item_bytes [OF assms(1) f] by simp
qed

definition sample_item :: plist_item where
  "sample_item = plist_new_item\<lparr>i_file := Some ''/a.ogg'', i_tags := Some (tags_new\<lparr>artist := Some ''X'', time := 215, filled := 3\<rparr>), i_mtime := 1460000000\<rparr>"

lemma sample_item_good: "good_item sample_item"
  by (simp add: good_item_def sample_item_def plist_new_item_def tags_new_def good_tags_def short_def or_empty_def
      int32_def int64_def MAX_SEND_STRING_def NUL_def)

theorem item_roundtrip_witness:
  "\<forall>fs rest. \<exists>out. send_item [3, 1, 7] (Some sample_item) = Inr (True, out) \<and>
     recv_item fs (stream (out @ rest)) = (Some (sent_item fs sample_item), stream rest)"
proof -
  have f: "i_file sample_item = Some ''/a.ogg''" by (simp add: sample_item_def)
  have "send_all [3, 1, 7] t = (True, t)" for t by (rule send_all_nonneg) simp
  then have "send_item [3, 1, 7] (Some sample_item) = Inr (True, item_bytes ''/a.ogg'' sample_item)"
    using send_item_bytes [OF f, of "[3, 1, 7]"] by simp
  then show ?thesis using item_roundtrip [OF sample_item_good] by blast
qed

text \<open>Reading a string in pieces.\<close>

lemma get_str_loop_pieces:
  assumes "\<forall>a\<in>set as. 0 < a" and "inp c = s @ rest" and "avail c = as"
  shows "\<exists>c'. get_str_loop (length str + length s) str c = (Some (str @ s), c') \<and> inp c' = rest"
  using assms
proof (induction "length s" arbitrary: s str c as rule: less_induct)
  case less
  show ?case
  proof (cases "s = []")
    case True
    then show ?thesis using less(3) by (subst get_str_loop.simps) simp
  next
    case False
    obtain k c1 where r: "recv (length s) c = (Some (take k s), c1)" "0 < k" "k \<le> length s" "inp c1 = drop k s @ rest"
      "avail c1 = tl as"
    proof (cases as)
      case Nil
      then show ?thesis using that [of "length s" "c\<lparr>inp := rest\<rparr>"] less(3,4) False by (simp add: recv_def)
    next
      case (Cons a as')
      let ?k = "min (length s) (nat a)"
      have "recv (length s) c = (Some (take ?k s), c\<lparr>inp := drop ?k s @ rest, avail := as'\<rparr>)"
        using Cons less(2-4) by (simp add: recv_def Let_def)
      then show ?thesis using that [of ?k "c\<lparr>inp := drop ?k s @ rest, avail := as'\<rparr>"] Cons less(2) False by auto
    qed
    have ne: "take k s \<noteq> []" using r(2) False by simp
    have p: "\<forall>a\<in>set (tl as). 0 < a" using less(2) by (cases as) auto
    have "get_str_loop (length str + length s) str c = get_str_loop (length str + length s) (str @ take k s) c1"
      using False r(1) ne by (subst get_str_loop.simps) simp
    moreover have "\<exists>c'. get_str_loop (length (str @ take k s) + length (drop k s)) (str @ take k s) c1 =
        (Some ((str @ take k s) @ drop k s), c') \<and> inp c' = rest"
      using r False p by (intro less(1) [of _ "tl as"]) auto
    ultimately show ?thesis using r(3) by auto
  qed
qed

text \<open>
  A string arrives whole in whatever pieces the socket delivers it, as long as its length arrives
  in one piece; a length that is split over two reads makes the reader give up.
\<close>

lemma string_short_reads:
  assumes "short s" and "\<forall>a\<in>set as. 0 < a"
  shows "(\<exists>c. get_str \<lparr>inp = send_str s @ rest, avail = 4 # as\<rparr> = (Some s, c) \<and> inp c = rest) \<and>
    fst (get_str \<lparr>inp = send_str s @ rest, avail = 2 # as\<rparr>) = None"
proof
  let ?c = "\<lparr>inp = s @ rest, avail = as\<rparr>"
  have "int32 (int (length s))" using assms(1) by (simp add: short_def int32_def MAX_SEND_STRING_def)
  then have i: "get_int \<lparr>inp = send_str s @ rest, avail = 4 # as\<rparr> = (Some (int (length s)), ?c)"
    by (simp add: get_int_def recv_def send_str_def dec_enc_int int32_def Let_def)
  obtain c where c: "get_str_loop (length s) [] ?c = (Some s, c)" "inp c = rest"
    using get_str_loop_pieces [OF assms(2), of ?c s rest "[]"] by auto
  then show "\<exists>c. get_str \<lparr>inp = send_str s @ rest, avail = 4 # as\<rparr> = (Some s, c) \<and> inp c = rest"
    using i assms(1) by (simp add: get_str_def short_def)
  show "fst (get_str \<lparr>inp = send_str s @ rest, avail = 2 # as\<rparr>) = None"
    by (simp add: get_str_def get_int_def recv_def send_str_def Let_def min_def)
qed

end
