(* ===== verification/Linked_Queue.thy ===== *)
theory Linked_Queue
  imports Prelude
begin

text \<open>
  A queue as a linked list with pointers to both ends, on an explicit store of nodes. The queue of
  events for a client (\<^verbatim>\<open>protocol.c\<close>) and the queue of requests for tags
  (\<^verbatim>\<open>tags_cache.c\<close>) have this shape; adding behind the tail and removing the head are proved
  here once.
\<close>

record 'a linked_queue =
  nodes :: "nat \<rightharpoonup> 'a \<times> nat option"
  head :: "nat option"
  tail :: "nat option"
  fresh :: nat

section \<open>The list behind the pointers\<close>

fun next_of :: "(nat \<times> 'a) list \<Rightarrow> nat option" where
  "next_of [] = None"
| "next_of ((a, e) # xs) = Some a"

fun linked :: "(nat \<rightharpoonup> 'a \<times> nat option) \<Rightarrow> (nat \<times> 'a) list \<Rightarrow> bool" where
  "linked h [] = True"
| "linked h ((a, e) # xs) = (h a = Some (e, next_of xs) \<and> linked h xs)"

definition holds :: "'a linked_queue \<Rightarrow> (nat \<times> 'a) list \<Rightarrow> bool" where
  "holds q xs \<longleftrightarrow> linked (nodes q) xs \<and> head q = next_of xs \<and> tail q = (if xs = [] then None else Some (fst (last xs)))
     \<and> distinct (map fst xs) \<and> (\<forall>a\<in>fst ` set xs. a < fresh q)"

fun walk :: "nat \<Rightarrow> (nat \<rightharpoonup> 'a \<times> nat option) \<Rightarrow> nat option \<Rightarrow> 'a list" where
  "walk 0 h p = []"
| "walk (Suc n) h None = []"
| "walk (Suc n) h (Some a) = (case h a of None \<Rightarrow> [] | Some (e, p) \<Rightarrow> e # walk n h p)"

definition pending :: "'a linked_queue \<Rightarrow> 'a list" where
  "pending q = walk (fresh q) (nodes q) (head q)"

definition queue_inv :: "'a linked_queue \<Rightarrow> bool" where
  "queue_inv q \<longleftrightarrow> (\<exists>xs. holds q xs)"

lemma walk_linked: "linked h xs \<Longrightarrow> length xs \<le> n \<Longrightarrow> walk n h (next_of xs) = map snd xs"
proof (induction xs arbitrary: n)
  case Nil
  then show ?case by (cases n) auto
next
  case (Cons x xs)
  then show ?case by (cases x; cases n) auto
qed

lemma holds_length:
  assumes "holds q xs"
  shows "length xs \<le> fresh q"
proof -
  have "card (fst ` set xs) \<le> card {..<fresh q}"
    using assms by (intro card_mono) (auto simp: holds_def)
  moreover have "card (fst ` set xs) = length xs"
    using assms distinct_card [of "map fst xs"] by (simp add: holds_def)
  ultimately show ?thesis by simp
qed

lemma holds_pending: "holds q xs \<Longrightarrow> pending q = map snd xs"
  using walk_linked [of "nodes q" xs "fresh q"] holds_length [of q xs] by (simp add: pending_def holds_def)

lemma linked_upd: "a \<notin> fst ` set xs \<Longrightarrow> linked (h(a := v)) xs = linked h xs"
  by (induction h xs rule: linked.induct) auto

lemma linked_snoc:
  "linked h (xs @ [(t, e')]) \<Longrightarrow> distinct (map fst (xs @ [(t, e')])) \<Longrightarrow> a \<notin> fst ` set (xs @ [(t, e')]) \<Longrightarrow>
    linked (h(t \<mapsto> (e', Some a), a \<mapsto> (e, None))) (xs @ [(t, e'), (a, e)])"
proof (induction xs)
  case (Cons x xs)
  obtain b d where x: "x = (b, d)" by fastforce
  have "next_of (xs @ [(t, e')]) = next_of (xs @ [(t, e'), (a, e)])" by (cases xs) auto
  with Cons x show ?case by auto
qed auto

text \<open>A node added behind the tail, and the head removed.\<close>

lemma holds_first:
  assumes "holds q []"
  shows "head q = None" "tail q = None"
    "holds (q\<lparr>nodes := (nodes q)(fresh q \<mapsto> (e, None)), head := Some (fresh q), tail := Some (fresh q), fresh := Suc (fresh q)\<rparr>) [(fresh q, e)]"
  using assms by (simp_all add: holds_def)

lemma holds_last:
  assumes "holds q (ys @ [(t, e')])"
  shows "head q \<noteq> None" "tail q = Some t" "nodes q t = Some (e', None)"
    "holds (q\<lparr>nodes := (nodes q)(t \<mapsto> (e', Some (fresh q)), fresh q \<mapsto> (e, None)), tail := Some (fresh q), fresh := Suc (fresh q)\<rparr>)
       (ys @ [(t, e'), (fresh q, e)])"
proof -
  show "head q \<noteq> None" using assms by (cases ys) (auto simp: holds_def)
  show "tail q = Some t" using assms by (simp add: holds_def)
  have "linked h (zs @ [(t, e')]) \<Longrightarrow> h t = Some (e', None)" for h zs by (induction zs) auto
  then show "nodes q t = Some (e', None)" using assms by (auto simp: holds_def)
  have "fresh q \<notin> fst ` set (ys @ [(t, e')])" using assms by (auto simp: holds_def)
  then show "holds (q\<lparr>nodes := (nodes q)(t \<mapsto> (e', Some (fresh q)), fresh q \<mapsto> (e, None)), tail := Some (fresh q), fresh := Suc (fresh q)\<rparr>)
      (ys @ [(t, e'), (fresh q, e)])"
    using assms linked_snoc [of "nodes q" ys t e' "fresh q" e] by (cases ys) (auto simp: holds_def)
qed

lemma holds_cons:
  assumes "holds q ((a, e) # xs)"
  shows "nodes q a = Some (e, next_of xs)" "head q = Some a" "tail q = Some (fst (last ((a, e) # xs)))"
    "xs \<noteq> [] \<Longrightarrow> fst (last xs) \<noteq> a"
    "holds (q\<lparr>nodes := (nodes q)(a := None), head := next_of xs, tail := (if xs = [] then None else tail q)\<rparr>) xs"
proof -
  show "nodes q a = Some (e, next_of xs)" "head q = Some a" "tail q = Some (fst (last ((a, e) # xs)))"
    using assms by (auto simp: holds_def)
  show "xs \<noteq> [] \<Longrightarrow> fst (last xs) \<noteq> a" using assms by (cases xs rule: rev_cases) (auto simp: holds_def)
  show "holds (q\<lparr>nodes := (nodes q)(a := None), head := next_of xs, tail := (if xs = [] then None else tail q)\<rparr>) xs"
    using assms linked_upd [of a xs "nodes q" None] by (cases xs rule: rev_cases) (auto simp: holds_def)
qed

lemma empty_queue_inv: "holds \<lparr>nodes = Map.empty, head = None, tail = None, fresh = k\<rparr> []"
  by (simp add: holds_def)

lemma holds_inv: "holds q xs \<Longrightarrow> queue_inv q"
  by (auto simp: queue_inv_def)

lemma tail_update_last [simp]: "q\<lparr>tail := t, nodes := n, head := h\<rparr> = q\<lparr>nodes := n, head := h, tail := t\<rparr>"
  by (cases q) simp

lemma queue_cases:
  assumes "queue_inv q"
  obtains xs where "holds q xs" "pending q = map snd xs"
  using assms holds_pending by (auto simp: queue_inv_def)

lemma pending_empty: "queue_inv q \<Longrightarrow> head q = None \<longleftrightarrow> pending q = []"
  by (elim queue_cases) (auto simp: holds_def elim: next_of.elims)

lemma pending_cons:
  assumes "queue_inv q" and "pending q = e # es"
  obtains a xs where "holds q ((a, e) # xs)" "map snd xs = es"
  using assms by (elim queue_cases) (auto simp: map_eq_Cons_conv)

end
