(* ===== verification/Event_Queue.thy ===== *)
theory Event_Queue
  imports Protocol Linked_Queue
begin

text \<open>
  The queue of events for a client and the packets made of them, in
  \<^verbatim>\<open>src/src/moc-2.5.0/protocol.c\<close>. The queue is a linked list with pointers to both ends,
  modelled with an explicit store of nodes; the contract of a queue is that of the byte buffer.
\<close>

section \<open>Events\<close>

definition EV_SRV_ERROR :: int where "EV_SRV_ERROR = 0x04"
definition EV_STATUS_MSG :: int where "EV_STATUS_MSG = 0x0f"
definition EV_FILE_TAGS :: int where "EV_FILE_TAGS = 0x11"
definition EV_PLIST_ADD :: int where "EV_PLIST_ADD = 0x50"
definition EV_PLIST_DEL :: int where "EV_PLIST_DEL = 0x51"
definition EV_PLIST_MOVE :: int where "EV_PLIST_MOVE = 0x52"
definition EV_QUEUE_ADD :: int where "EV_QUEUE_ADD = 0x54"
definition EV_QUEUE_DEL :: int where "EV_QUEUE_DEL = 0x55"
definition EV_QUEUE_MOVE :: int where "EV_QUEUE_MOVE = 0x56"

datatype ev_data = No_data | Text string | Item plist_item | Tags_of string "file_tags option" | Move string string

record event =
  e_type :: int
  e_data :: ev_data

text \<open>Data of another kind than the type asks for would be read through a wrong pointer type.\<close>

definition make_event_packet :: "event \<Rightarrow> packet_buf result" where
  "make_event_packet e =
     bindR (packet_buf_add_int (e_type e) packet_buf_new) (\<lambda>b.
       if e_type e \<in> {EV_PLIST_DEL, EV_QUEUE_DEL, EV_SRV_ERROR, EV_STATUS_MSG} then
         case e_data e of No_data \<Rightarrow> Inl Assert | Text s \<Rightarrow> packet_buf_add_str s b | _ \<Rightarrow> Inl Undefined
       else if e_type e \<in> {EV_PLIST_ADD, EV_QUEUE_ADD} then
         case e_data e of No_data \<Rightarrow> Inl Assert | Item x \<Rightarrow> packet_buf_add_item x b | _ \<Rightarrow> Inl Undefined
       else if e_type e = EV_FILE_TAGS then
         case e_data e of No_data \<Rightarrow> Inl Assert
         | Tags_of f t \<Rightarrow> bindR (packet_buf_add_str f b) (packet_buf_add_tags t) | _ \<Rightarrow> Inl Undefined
       else if e_type e \<in> {EV_PLIST_MOVE, EV_QUEUE_MOVE} then
         case e_data e of No_data \<Rightarrow> Inl Assert
         | Move f t \<Rightarrow> bindR (packet_buf_add_str f b) (packet_buf_add_str t) | _ \<Rightarrow> Inl Undefined
       else if e_data e \<noteq> No_data then Inl Abort
       else Inr b)"

section \<open>The queue\<close>

type_synonym event_queue = "event linked_queue"

definition event_queue_init :: event_queue where
  "event_queue_init = \<lparr>nodes = Map.empty, head = None, tail = None, fresh = 0\<rparr>"

definition event_push :: "event \<Rightarrow> event_queue \<Rightarrow> event_queue result" where
  "event_push e q =
     (let a = fresh q in
      case head q of
        None \<Rightarrow> Inr (q\<lparr>nodes := (nodes q)(a \<mapsto> (e, None)), head := Some a, tail := Some a, fresh := Suc a\<rparr>)
      | Some _ \<Rightarrow>
          (case tail q of
             None \<Rightarrow> Inl Assert
           | Some t \<Rightarrow>
               (case nodes q t of
                  None \<Rightarrow> Inl Undefined
                | Some (e', Some _) \<Rightarrow> Inl Assert
                | Some (e', None) \<Rightarrow>
                    Inr (q\<lparr>nodes := (nodes q)(t \<mapsto> (e', Some a), a \<mapsto> (e, None)), tail := Some a, fresh := Suc a\<rparr>))))"

definition event_pop :: "event_queue \<Rightarrow> event_queue result" where
  "event_pop q =
     (case (head q, tail q) of
        (Some h, Some t) \<Rightarrow>
          (case nodes q h of
             None \<Rightarrow> Inl Undefined
           | Some (e, nxt) \<Rightarrow>
               Inr (q\<lparr>nodes := (nodes q)(h := None), head := nxt, tail := (if t = h then None else Some t)\<rparr>))
      | _ \<Rightarrow> Inl Assert)"

definition event_get_first :: "event_queue \<Rightarrow> event option result" where
  "event_get_first q =
     (case head q of None \<Rightarrow> Inr None
      | Some h \<Rightarrow> (case nodes q h of None \<Rightarrow> Inl Undefined | Some (e, _) \<Rightarrow> Inr (Some e)))"

definition event_queue_empty :: "event_queue \<Rightarrow> bool" where
  "event_queue_empty q = (head q = None)"

datatype noblock_io_status = NB_IO_OK | NB_IO_BLOCK | NB_IO_ERR

text \<open>
  Sending the first event: \<open>res\<close> is what \<^verbatim>\<open>send\<close> answers, with the error number for -1. The
  result has the bytes that were sent.
\<close>

definition event_send_noblock :: "int \<Rightarrow> bool \<Rightarrow> event_queue \<Rightarrow> (noblock_io_status \<times> string \<times> event_queue) result" where
  "event_send_noblock res would_block q =
     bindR (guardR (\<not> event_queue_empty q) Assert) (\<lambda>_.
     bindR (event_get_first q) (\<lambda>e.
       case e of None \<Rightarrow> Inl Assert
       | Some e \<Rightarrow>
           bindR (make_event_packet e) (\<lambda>b.
             if res > 0 then bindR (event_pop q) (\<lambda>q. Inr (NB_IO_OK, take (nat res) (pb_buf b), q))
             else if would_block then Inr (NB_IO_BLOCK, [], q) else Inr (NB_IO_ERR, [], q))))"

text \<open>
  Releasing an event: what the type of the event says is released, and other data is a fault. The
  loop of \<^verbatim>\<open>event_queue_free\<close> removes one node in each round; no queue has more nodes than
  were ever made.
\<close>

definition free_event_data :: "event \<Rightarrow> unit result" where
  "free_event_data e =
     (if e_type e \<in> {EV_PLIST_ADD, EV_QUEUE_ADD} then
        case e_data e of Item x \<Rightarrow> Inr () | _ \<Rightarrow> Inl Undefined
      else if e_type e = EV_FILE_TAGS then
        case e_data e of No_data \<Rightarrow> Inl Assert | Tags_of f t \<Rightarrow> Inr () | _ \<Rightarrow> Inl Undefined
      else if e_type e \<in> {EV_PLIST_DEL, EV_STATUS_MSG, EV_SRV_ERROR, EV_QUEUE_DEL} then
        case e_data e of No_data \<Rightarrow> Inr () | Text s \<Rightarrow> Inr () | _ \<Rightarrow> Inl Undefined
      else if e_type e \<in> {EV_PLIST_MOVE, EV_QUEUE_MOVE} then
        case e_data e of No_data \<Rightarrow> Inl Assert | Move f t \<Rightarrow> Inr () | _ \<Rightarrow> Inl Undefined
      else if e_data e \<noteq> No_data then Inl Abort else Inr ())"

fun free_loop :: "nat \<Rightarrow> event_queue \<Rightarrow> event_queue result" where
  "free_loop 0 q = Inr q"
| "free_loop (Suc k) q =
     bindR (event_get_first q) (\<lambda>e.
       case e of None \<Rightarrow> Inr q
       | Some e \<Rightarrow> bindR (free_event_data e) (\<lambda>_. bindR (event_pop q) (free_loop k)))"

definition event_queue_free :: "event_queue \<Rightarrow> event_queue result" where
  "event_queue_free q = free_loop (fresh q) q"

definition recv_move_ev_data :: "chan \<Rightarrow> (string \<times> string) option \<times> chan" where
  "recv_move_ev_data c = then_get (get_str c) (\<lambda>f c. then_get (get_str c) (\<lambda>t c. (Some (f, t), c)))"

text \<open>Pushing several events, and fetching the first ones.\<close>

definition push_events :: "event list \<Rightarrow> event_queue \<Rightarrow> (nat \<times> event_queue) result" where
  "push_events es q = bindR (foldR event_push es q) (\<lambda>q. Inr (length es, q))"

fun fetch_events :: "nat \<Rightarrow> event_queue \<Rightarrow> (event list \<times> event_queue) result" where
  "fetch_events 0 q = Inr ([], q)"
| "fetch_events (Suc k) q =
     bindR (event_get_first q) (\<lambda>e.
       case e of None \<Rightarrow> Inr ([], q)
       | Some e \<Rightarrow> bindR (event_pop q) (\<lambda>q. bindR (fetch_events k q) (\<lambda>(es, q). Inr (e # es, q))))"

section \<open>The queue holds a list\<close>

lemma event_push_holds:
  assumes "holds q xs"
  shows "\<exists>q'. event_push e q = Inr q' \<and> holds q' (xs @ [(fresh q, e)])"
proof (cases xs rule: rev_cases)
  case Nil
  then show ?thesis using holds_first(1,2) [of q] holds_first(3) [of q e] assms by (simp add: event_push_def Let_def)
next
  case (snoc ys y)
  obtain t e' where "y = (t, e')" by fastforce
  then show ?thesis using holds_last(1-3) [of q ys t e'] holds_last(4) [of q ys t e' e] assms snoc by (auto simp: event_push_def Let_def)
qed

lemma event_pop_holds:
  assumes "holds q ((a, e) # xs)"
  shows "event_get_first q = Inr (Some e)" and "\<exists>q'. event_pop q = Inr q' \<and> holds q' xs"
  using holds_cons [OF assms] by (auto simp: event_get_first_def event_pop_def)

lemma push_events_holds:
  "holds q xs \<Longrightarrow> \<exists>q' ys. foldR event_push es q = Inr q' \<and> holds q' (xs @ ys) \<and> map snd ys = es"
proof (induction es arbitrary: q xs)
  case (Cons e es)
  obtain q1 where q1: "event_push e q = Inr q1" "holds q1 (xs @ [(fresh q, e)])"
    using event_push_holds [OF Cons.prems] by blast
  from Cons.IH [OF q1(2)] obtain q' ys where
    "foldR event_push es q1 = Inr q'" "holds q' ((xs @ [(fresh q, e)]) @ ys)" "map snd ys = es" by blast
  with q1 show ?case by (intro exI [of _ q'] exI [of _ "(fresh q, e) # ys"]) auto
qed auto

lemma fetch_events_holds:
  "holds q xs \<Longrightarrow> \<exists>q'. fetch_events k q = Inr (map snd (take k xs), q') \<and> holds q' (drop k xs)"
proof (induction k arbitrary: q xs)
  case (Suc k)
  show ?case
  proof (cases xs)
    case Nil
    then have "event_get_first q = Inr None" using Suc.prems by (simp add: holds_def event_get_first_def)
    then show ?thesis using Nil Suc.prems by simp
  next
    case (Cons x ys)
    obtain a e where x: "x = (a, e)" by fastforce
    from event_pop_holds [of q a e ys] Suc.prems Cons x obtain q1 where
      "event_get_first q = Inr (Some e)" "event_pop q = Inr q1" "holds q1 ys" by auto
    with Suc.IH [of q1 ys] Cons x show ?thesis by auto
  qed
qed auto

text \<open>The event queue meets the contract of a queue.\<close>

interpretation event_fifo: fifo queue_inv pending push_events fetch_events
proof unfold_locales
  fix q :: event_queue and es
  assume "queue_inv q"
  then obtain xs where xs: "holds q xs" by (auto simp: queue_inv_def)
  from push_events_holds [OF xs] obtain q' ys where
    "foldR event_push es q = Inr q'" "holds q' (xs @ ys)" "map snd ys = es" by blast
  then show "\<exists>n s'. push_events es q = Inr (n, s') \<and> queue_inv s' \<and> n \<le> length es \<and> pending s' = pending q @ take n es"
    using xs by (auto simp: holds_pending push_events_def queue_inv_def)
next
  fix q :: event_queue and k
  assume "queue_inv q"
  then obtain xs where xs: "holds q xs" by (auto simp: queue_inv_def)
  from fetch_events_holds [OF xs, of k] obtain q' where
    "fetch_events k q = Inr (map snd (take k xs), q')" "holds q' (drop k xs)" by blast
  then show "\<exists>s'. fetch_events k q = Inr (take k (pending q), s') \<and> queue_inv s' \<and> pending s' = drop k (pending q)"
    using xs by (auto simp: holds_pending queue_inv_def take_map drop_map)
qed

lemma event_queue_init_inv: "queue_inv event_queue_init" "pending event_queue_init = []"
  by (auto simp: queue_inv_def holds_def event_queue_init_def pending_def intro: exI [of _ "[]"])

section \<open>Events whose data has the kind their type asks for\<close>

definition data_fits :: "event \<Rightarrow> bool" where
  "data_fits e =
     (if e_type e \<in> {EV_PLIST_DEL, EV_QUEUE_DEL, EV_SRV_ERROR, EV_STATUS_MSG} then \<exists>s. e_data e = Text s
      else if e_type e \<in> {EV_PLIST_ADD, EV_QUEUE_ADD} then \<exists>x. e_data e = Item x \<and> i_file x \<noteq> None
      else if e_type e = EV_FILE_TAGS then \<exists>f t. e_data e = Tags_of f t
      else if e_type e \<in> {EV_PLIST_MOVE, EV_QUEUE_MOVE} then \<exists>f t. e_data e = Move f t
      else e_data e = No_data)"

definition packet_bytes :: "event \<Rightarrow> string" where
  "packet_bytes e = enc_int (e_type e) @
     (case e_data e of No_data \<Rightarrow> [] | Text s \<Rightarrow> send_str s | Item x \<Rightarrow> item_bytes (the (i_file x)) x
      | Tags_of f t \<Rightarrow> send_str f @ tags_bytes (sent_tags t) | Move f t \<Rightarrow> send_str f @ send_str t)"

lemma appends_nothing: "pb_ok b \<Longrightarrow> appends [] b (Inr b)"
  by (simp add: appends_def)

lemma make_event_packet_appends:
  assumes "data_fits e"
  shows "appends (packet_bytes e) packet_buf_new (make_event_packet e)"
  unfolding packet_bytes_def make_event_packet_def
  by (rule appends_bind [OF appends_int])
    (use assms in \<open>auto simp: data_fits_def EV_PLIST_DEL_def EV_QUEUE_DEL_def EV_SRV_ERROR_def EV_STATUS_MSG_def EV_PLIST_ADD_def
       EV_QUEUE_ADD_def EV_FILE_TAGS_def EV_PLIST_MOVE_def EV_QUEUE_MOVE_def split: if_splits
       intro!: appends_str appends_item appends_bind appends_tags appends_nothing\<close>)

lemma make_event_packet_ok:
  assumes "data_fits e"
  obtains b where "make_event_packet e = Inr b" "pb_buf b = packet_bytes e"
  using make_event_packet_appends [OF assms] by (auto simp: appends_def)

lemma free_event_data_ok: "data_fits e \<Longrightarrow> free_event_data e = Inr ()"
  by (auto simp: data_fits_def free_event_data_def EV_PLIST_DEL_def EV_QUEUE_DEL_def EV_SRV_ERROR_def EV_STATUS_MSG_def EV_PLIST_ADD_def
      EV_QUEUE_ADD_def EV_FILE_TAGS_def EV_PLIST_MOVE_def EV_QUEUE_MOVE_def split: if_splits)

lemma free_loop_holds:
  "holds q xs \<Longrightarrow> length xs \<le> k \<Longrightarrow> \<forall>e\<in>snd ` set xs. data_fits e \<Longrightarrow> \<exists>q'. free_loop k q = Inr q' \<and> holds q' []"
proof (induction k arbitrary: q xs)
  case (Suc k)
  show ?case
  proof (cases xs)
    case Nil
    then show ?thesis using Suc.prems by (simp add: holds_def event_get_first_def)
  next
    case (Cons x ys)
    obtain a e where x: "x = (a, e)" by fastforce
    from event_pop_holds [of q a e ys] Suc.prems(1) Cons x obtain q1 where
      "event_get_first q = Inr (Some e)" "event_pop q = Inr q1" "holds q1 ys" by auto
    with Suc.IH [of q1 ys] Suc.prems Cons x show ?thesis by (auto simp: free_event_data_ok)
  qed
qed auto

lemma event_queue_free_ok:
  assumes "queue_inv q" and "\<forall>e\<in>set (pending q). data_fits e"
  shows "\<exists>q'. event_queue_free q = Inr q' \<and> queue_inv q' \<and> pending q' = []"
proof -
  obtain xs where xs: "holds q xs" "pending q = map snd xs" using queue_cases [OF assms(1)] .
  have "length xs \<le> fresh q" by (rule holds_length [OF xs(1)])
  from free_loop_holds [OF xs(1) this] assms(2) xs(2) obtain q' where "event_queue_free q = Inr q'" "holds q' []"
    by (auto simp: event_queue_free_def)
  then show ?thesis using holds_pending [of q' "[]"] by (auto simp: queue_inv_def)
qed

section \<open>Properties\<close>

text \<open>
  C17: Events leave the queue in the order in which they were pushed, none is lost or doubled, and
  the pointers to both ends stay right through any sequence of pushing and fetching: no
  assertion fails and no dangling pointer is followed.
\<close>

theorem event_queue_order:
  "\<exists>a d q. run_ops push_events fetch_events ops event_queue_init = Inr (a, d, q) \<and> a = d @ pending q \<and> queue_inv q"
  using event_fifo.stream [OF event_queue_init_inv(1), of ops] event_queue_init_inv(2) by simp

text \<open>
  Sending the first event without blocking: when the socket takes nothing the queue is as it was;
  when it takes anything the event is removed, also when only a part of its packet was sent.
\<close>

lemma event_send_removes:
  assumes "queue_inv q" and "pending q = e # es" and "make_event_packet e = Inr b"
  shows "(res > 0 \<longrightarrow> (\<exists>q'. event_send_noblock res wb q = Inr (NB_IO_OK, take (nat res) (pb_buf b), q') \<and> pending q' = es))
    \<and> (res \<le> 0 \<longrightarrow> event_send_noblock res wb q = Inr (if wb then NB_IO_BLOCK else NB_IO_ERR, [], q))"
proof -
  obtain a ys where ys: "holds q ((a, e) # ys)" "map snd ys = es" using pending_cons [OF assms(1,2)] .
  have p: "event_get_first q = Inr (Some e)" "\<exists>q'. event_pop q = Inr q' \<and> holds q' ys"
    using event_pop_holds ys(1) by auto
  have "\<not> event_queue_empty q" using ys(1) by (simp add: holds_def event_queue_empty_def)
  then show ?thesis using p assms(3) ys(2) by (auto simp: holds_pending event_send_noblock_def)
qed

end
