(* ===== verification/C_Float.thy ===== *)
theory C_Float
  imports Complex_Main "HOL-Library.Log_Nat" Prelude
begin

text \<open>
  C's \<^verbatim>\<open>float\<close> and \<^verbatim>\<open>double\<close> as far as the sound code uses them: a value is the
  rational number it stands for, and an operation is the exact operation followed by rounding to
  24 or 53 significant bits, to the nearest and to even on a tie. Infinities, NaN and the lower
  and upper end of the range of exponents are outside of the model.
\<close>

type_synonym flt = rat

section \<open>Rounding\<close>

definition rne :: "rat \<Rightarrow> int" where
  "rne x =
     (let n = \<lfloor>x\<rfloor>; d = x - of_int n in
      if d < 1 / 2 then n else if 1 / 2 < d then n + 1 else if even n then n else n + 1)"

definition ilog2 :: "rat \<Rightarrow> int" where
  "ilog2 x =
     (let (p, q) = quotient_of x; e = bitlen p - bitlen q in
      if 2 powi e \<le> x then e else e - 1)"

definition fl :: "int \<Rightarrow> rat \<Rightarrow> rat" where
  "fl p x =
     (if x = 0 then 0
      else let e = ilog2 \<bar>x\<bar> - (p - 1) in of_int (rne (x / 2 powi e)) * 2 powi e)"

definition f32 :: "rat \<Rightarrow> flt" where "f32 = fl 24"

definition f64 :: "rat \<Rightarrow> flt" where "f64 = fl 53"

section \<open>What rounding keeps\<close>

lemma rne_of_int [simp]: "rne (of_int k) = k"
  by (simp add: rne_def)

lemma rne_near: "\<bar>of_int (rne x) - x\<bar> \<le> 1 / 2"
proof -
  have "of_int \<lfloor>x\<rfloor> \<le> x" "x < of_int \<lfloor>x\<rfloor> + 1" by linarith+
  then show ?thesis unfolding rne_def Let_def abs_le_iff by (simp split: if_splits; linarith)
qed

lemma rne_mono_int: "x \<le> of_int k \<Longrightarrow> rne x \<le> k"
proof -
  assume x: "x \<le> of_int k"
  show ?thesis
  proof (cases "x = of_int k")
    case False
    with x have "\<lfloor>x\<rfloor> + 1 \<le> k" by linarith
    then show ?thesis by (auto simp: rne_def Let_def)
  qed simp
qed

lemma rne_mono_int': "of_int k \<le> x \<Longrightarrow> k \<le> rne x"
proof -
  assume "of_int k \<le> x"
  then have "k \<le> \<lfloor>x\<rfloor>" by linarith
  then show ?thesis by (auto simp: rne_def Let_def)
qed

lemma powi_bitlen: "0 < n \<Longrightarrow> 2 powi (bitlen n - 1) \<le> (of_int n :: rat) \<and> (of_int n :: rat) < 2 powi bitlen n"
proof -
  assume n: "0 < n"
  have b: "2 ^ nat (bitlen n - 1) \<le> n" "n < 2 ^ nat (bitlen n)" using bitlen_bounds [OF n] by auto
  have "0 \<le> bitlen n - 1"
    using n bitlen_eq_zero_iff [of n] bitlen_nonneg [of n] by linarith
  moreover have "(of_int (2 ^ nat (bitlen n - 1)) :: rat) \<le> of_int n" "(of_int n :: rat) < of_int (2 ^ nat (bitlen n))"
    using b by (simp_all only: of_int_le_iff of_int_less_iff)
  ultimately show ?thesis by (simp add: power_int_nonneg_exp bitlen_nonneg)
qed

lemma ilog2_bounds:
  assumes "0 < x"
  shows "2 powi ilog2 x \<le> x" and "x < 2 powi (ilog2 x + 1)"
proof -
  obtain p q where pq: "quotient_of x = (p, q)" by (cases "quotient_of x")
  have q: "0 < q" and x: "x = of_int p / of_int q"
    using quotient_of_denom_pos [OF pq] quotient_of_div [OF pq] by auto
  have p: "0 < p" using assms x q by (simp add: zero_less_divide_iff)
  let ?e = "bitlen p - bitlen q"
  have "2 powi (bitlen p - 1) / 2 powi bitlen q \<le> x"
    using powi_bitlen [OF p] powi_bitlen [OF q] q p unfolding x by (intro frac_le) auto
  then have lo: "2 powi (?e - 1) \<le> x"
    by (simp add: power_int_diff power_int_add algebra_simps)
  have "x < 2 powi bitlen p / 2 powi (bitlen q - 1)"
    using powi_bitlen [OF p] powi_bitlen [OF q] q p unfolding x by (intro frac_less) auto
  then have hi: "x < 2 powi (?e + 1)"
    by (simp add: power_int_diff power_int_add algebra_simps)
  show "2 powi ilog2 x \<le> x" "x < 2 powi (ilog2 x + 1)"
    using lo hi by (auto simp: ilog2_def pq Let_def)
qed

text \<open>A number with few enough significant bits is not changed.\<close>

lemma fl_exact:
  assumes "\<bar>k\<bar> < 2 ^ nat p" and "0 < p"
  shows "fl p (of_int k * 2 powi j) = of_int k * 2 powi j"
proof (cases "k = 0")
  case False
  let ?x = "of_int k * 2 powi j :: rat"
  let ?e = "ilog2 \<bar>?x\<bar> - (p - 1)"
  have ax: "\<bar>?x\<bar> = of_int \<bar>k\<bar> * 2 powi j" by (simp add: abs_mult)
  have pos: "0 < \<bar>?x\<bar>" using False by simp
  have "(of_int \<bar>k\<bar> :: rat) < of_int (2 ^ nat p)" using assms(1) by (simp only: of_int_less_iff)
  then have "\<bar>?x\<bar> < 2 powi p * 2 powi j" unfolding ax using assms(2)
    by (intro mult_strict_right_mono) (simp_all add: power_int_nonneg_exp)
  then have "2 powi ilog2 \<bar>?x\<bar> < (2 powi (p + j) :: rat)"
    using ilog2_bounds(1) [OF pos] by (simp add: power_int_add)
  then have "ilog2 \<bar>?x\<bar> < p + j"
    by (meson linorder_not_less one_le_numeral power_int_increasing)
  then have e: "?e \<le> j" by simp
  have "?x / 2 powi ?e = of_int k * 2 powi (j - ?e)" by (simp add: power_int_diff)
  also have "\<dots> = of_int (k * 2 ^ nat (j - ?e))" using e by (simp add: power_int_nonneg_exp)
  finally have r: "?x / 2 powi ?e = of_int (k * 2 ^ nat (j - ?e))" .
  have "fl p ?x = of_int (rne (?x / 2 powi ?e)) * 2 powi ?e" using False by (simp add: fl_def Let_def)
  also have "\<dots> = ?x / 2 powi ?e * 2 powi ?e" unfolding r rne_of_int ..
  finally show ?thesis by simp
qed (simp add: fl_def)

lemma fl_int [simp]: "0 < p \<Longrightarrow> \<bar>k\<bar> < 2 ^ nat p \<Longrightarrow> fl p (of_int k) = of_int k"
  using fl_exact [of k p 0] by simp

lemma fl_0 [simp]: "fl p 0 = 0" by (simp add: fl_def)

lemma f32_scaled: "\<bar>k\<bar> < 2 ^ 24 \<Longrightarrow> f32 (of_int k * 2 ^ n) = of_int k * 2 ^ n"
  using fl_exact [of k 24 "int n"] by (simp add: f32_def)

lemma f32_frac: "\<bar>k\<bar> < 2 ^ 24 \<Longrightarrow> f32 (of_int k / 2 ^ n) = of_int k / 2 ^ n"
  using fl_exact [of k 24 "- int n"] by (simp add: f32_def power_int_minus field_simps)

lemma f32_int: "\<bar>k\<bar> < 2 ^ 24 \<Longrightarrow> f32 (of_int k) = of_int k"
  using f32_scaled [of k 0] by simp

text \<open>Rounding keeps the order with respect to powers of two, and so the interval from -1 to 1.\<close>

lemma fl_le_one: "\<bar>x\<bar> \<le> 1 \<Longrightarrow> 0 < p \<Longrightarrow> \<bar>fl p x\<bar> \<le> 1"
proof (cases "x = 0")
  case False
  assume x: "\<bar>x\<bar> \<le> 1" and p: "0 < p"
  let ?l = "ilog2 \<bar>x\<bar>" and ?e = "ilog2 \<bar>x\<bar> - (p - 1)"
  have "2 powi ?l \<le> (2 powi 0 :: rat)" using ilog2_bounds(1) [of "\<bar>x\<bar>"] False x by simp
  then have "?l \<le> 0" by (metis not_le one_less_numeral_iff power_int_strict_increasing semiring_norm(76))
  then have e: "?e \<le> 0" using p by simp
  then have i: "1 / 2 powi ?e = (of_int (2 ^ nat (- ?e)) :: rat)"
    by (simp add: power_int_minus_divide [symmetric] power_int_nonneg_exp)
  have pos: "0 < (2 powi ?e :: rat)" by simp
  have "x / 2 powi ?e \<le> 1 / 2 powi ?e" "- (1 / 2 powi ?e) \<le> x / 2 powi ?e"
    using divide_right_mono [of x 1 "2 powi ?e"] divide_right_mono [of "-1" x "2 powi ?e"] x
    by (simp_all add: abs_le_iff)
  then have "rne (x / 2 powi ?e) \<le> 2 ^ nat (- ?e)" "- (2 ^ nat (- ?e)) \<le> rne (x / 2 powi ?e)"
    unfolding i by (auto intro!: rne_mono_int rne_mono_int')
  then have "\<bar>rne (x / 2 powi ?e)\<bar> \<le> 2 ^ nat (- ?e)" by linarith
  then have "(of_int \<bar>rne (x / 2 powi ?e)\<bar> :: rat) \<le> of_int (2 ^ nat (- ?e))" by (simp only: of_int_le_iff)
  then have "\<bar>of_int (rne (x / 2 powi ?e)) :: rat\<bar> * 2 powi ?e \<le> 1 / 2 powi ?e * 2 powi ?e"
    unfolding i using pos by (intro mult_right_mono) simp_all
  then show ?thesis using False pos by (simp add: fl_def Let_def abs_mult)
qed simp

lemma f32_le_one: "\<bar>x\<bar> \<le> 1 \<Longrightarrow> \<bar>f32 x\<bar> \<le> 1"
  by (simp add: f32_def fl_le_one)

lemma f64_le_one: "\<bar>x\<bar> \<le> 1 \<Longrightarrow> \<bar>f64 x\<bar> \<le> 1"
  by (simp add: f64_def fl_le_one)

section \<open>Limits of the integer types as floats\<close>

lemma f32_INT32_MAX: "f32 2147483647 = 2147483648"
  by code_simp

end
