(* ===== verification/Sound_Format.thy ===== *)
theory Sound_Format
  imports C_String C_Float
begin

text \<open>
  Sample formats: the bits of \<^verbatim>\<open>src/src/moc-2.5.0/audio.h\<close> and the functions on them in
  \<^verbatim>\<open>audio.c\<close>. The machine is little-endian. A format is a number of type
  \<^verbatim>\<open>long\<close> whose bits name the kind and the endianness of the samples.
\<close>

unbundle bit_operations_syntax

section \<open>Formats\<close>

definition SFMT_S8 :: int where "SFMT_S8 = 0x01"
definition SFMT_U8 :: int where "SFMT_U8 = 0x02"
definition SFMT_S16 :: int where "SFMT_S16 = 0x04"
definition SFMT_U16 :: int where "SFMT_U16 = 0x08"
definition SFMT_S32 :: int where "SFMT_S32 = 0x10"
definition SFMT_U32 :: int where "SFMT_U32 = 0x20"
definition SFMT_FLOAT :: int where "SFMT_FLOAT = 0x40"
definition SFMT_LE :: int where "SFMT_LE = 0x1000"
definition SFMT_BE :: int where "SFMT_BE = 0x2000"
definition SFMT_NE :: int where "SFMT_NE = SFMT_LE"
definition SFMT_MASK_FORMAT :: int where "SFMT_MASK_FORMAT = 0xfff"
definition SFMT_MASK_ENDIANNESS :: int where "SFMT_MASK_ENDIANNESS = 0x3000"
definition SFMT_STR_MAX :: nat where "SFMT_STR_MAX = 265"

lemmas sfmt_defs = SFMT_S8_def SFMT_U8_def SFMT_S16_def SFMT_U16_def SFMT_S32_def SFMT_U32_def
  SFMT_FLOAT_def SFMT_LE_def SFMT_BE_def SFMT_NE_def SFMT_MASK_FORMAT_def SFMT_MASK_ENDIANNESS_def

definition sound_format_ok :: "int \<Rightarrow> bool" where
  "sound_format_ok f \<longleftrightarrow> f AND SFMT_MASK_FORMAT \<noteq> 0 \<and>
     (f AND (SFMT_S8 OR SFMT_U8 OR SFMT_FLOAT) \<noteq> 0 \<or> f AND SFMT_MASK_ENDIANNESS \<noteq> 0)"

definition sfmt_set_fmt :: "int \<Rightarrow> int \<Rightarrow> int" where
  "sfmt_set_fmt f new_fmt = (f AND NOT SFMT_MASK_FORMAT) OR new_fmt"

definition sfmt_set_endian :: "int \<Rightarrow> int \<Rightarrow> int" where
  "sfmt_set_endian f endian = (f AND NOT SFMT_MASK_ENDIANNESS) OR endian"

record sound_params =
  sp_channels :: int
  sp_rate :: int
  sp_fmt :: int

text \<open>
  The description of a format is put together in a buffer of \<open>buf_size\<close> bytes. The final
  move takes as many bytes as the description has with its NUL, from two bytes behind the start:
  it reads two bytes more than the description has.
\<close>

definition sfmt_str :: "int \<Rightarrow> nat \<Rightarrow> string result" where
  "sfmt_str format buf_size =
     bindR (guardR (sound_format_ok format \<and> 0 < buf_size) Assert) (\<lambda>_.
       let add = (\<lambda>b s msg. if b then strncat msg s (buf_size - length msg - 1) else msg);
           has = (\<lambda>f. format AND f \<noteq> 0);
           msg = add (has SFMT_S8) '', 8-bit signed'' [];
           msg = add (has SFMT_U8) '', 8-bit unsigned'' msg;
           msg = add (has SFMT_S16) '', 16-bit signed'' msg;
           msg = add (has SFMT_U16) '', 16-bit unsigned'' msg;
           msg = add (has SFMT_S32) '', 24-bit signed (as 32-bit samples)'' msg;
           msg = add (has SFMT_U32) '', 24-bit unsigned (as 32-bit samples)'' msg;
           msg = add (has SFMT_FLOAT) '', float'' msg;
           msg = (if has SFMT_LE then add True '' little-endian'' msg
                  else add (has SFMT_BE) '' big-endian'' msg);
           msg = add (has SFMT_NE) '' (native)'' msg
       in if msg = [] then Inr []
          else bindR (guardR (length msg + 3 \<le> buf_size) Undefined) (\<lambda>_. Inr (drop 2 msg)))"

definition sfmt_same_bps :: "int \<Rightarrow> int \<Rightarrow> bool" where
  "sfmt_same_bps fmt1 fmt2 \<longleftrightarrow>
     fmt1 AND (SFMT_S8 OR SFMT_U8) \<noteq> 0 \<and> fmt2 AND (SFMT_S8 OR SFMT_U8) \<noteq> 0 \<or>
     fmt1 AND (SFMT_S16 OR SFMT_U16) \<noteq> 0 \<and> fmt2 AND (SFMT_S16 OR SFMT_U16) \<noteq> 0 \<or>
     fmt1 AND (SFMT_S32 OR SFMT_U32) \<noteq> 0 \<and> fmt2 AND (SFMT_S32 OR SFMT_U32) \<noteq> 0 \<or>
     fmt1 AND fmt2 AND SFMT_FLOAT \<noteq> 0"

text \<open>The first of a list of formats that is available, 0 when none is.\<close>

fun first_of :: "int \<Rightarrow> int list \<Rightarrow> int" where
  "first_of formats [] = 0"
| "first_of formats (f # fs) = (if formats AND f \<noteq> 0 then f else first_of formats fs)"

definition sfmt_best_matching :: "int \<Rightarrow> int \<Rightarrow> int result" where
  "sfmt_best_matching formats_with_endian req_with_endian =
     (let formats = formats_with_endian AND SFMT_MASK_FORMAT;
          req = req_with_endian AND SFMT_MASK_FORMAT;
          best =
            (if formats AND req \<noteq> 0 then req
             else if req = SFMT_S8 \<or> req = SFMT_U8 then
               first_of formats [SFMT_S8, SFMT_U8, SFMT_S16, SFMT_U16, SFMT_S32, SFMT_U32, SFMT_FLOAT]
             else if req = SFMT_S16 \<or> req = SFMT_U16 then
               first_of formats [SFMT_S16, SFMT_U16, SFMT_S32, SFMT_U32, SFMT_FLOAT, SFMT_S8, SFMT_U8]
             else if req = SFMT_S32 \<or> req = SFMT_U32 \<or> req = SFMT_FLOAT then
               first_of formats [SFMT_S32, SFMT_U32, SFMT_S16, SFMT_U16, SFMT_FLOAT, SFMT_S8, SFMT_U8]
             else 0)
      in bindR (guardR (best \<noteq> 0) Assert) (\<lambda>_.
           Inr (if best AND (SFMT_S8 OR SFMT_U8) = 0 then
                  if formats_with_endian AND SFMT_LE \<noteq> 0 \<and> formats_with_endian AND SFMT_BE \<noteq> 0 then best OR SFMT_NE
                  else best OR (formats_with_endian AND SFMT_MASK_ENDIANNESS)
                else best)))"

definition sfmt_Bps :: "int \<Rightarrow> nat result" where
  "sfmt_Bps format =
     (let f = format AND SFMT_MASK_FORMAT in
      if f = SFMT_S8 \<or> f = SFMT_U8 then Inr 1
      else if f = SFMT_S16 \<or> f = SFMT_U16 then Inr 2
      else if f = SFMT_S32 \<or> f = SFMT_U32 then Inr 4
      else if f = SFMT_FLOAT then Inr 4
      else Inl Assert)"

section \<open>Single formats\<close>

text \<open>
  A format of samples has one kind and, apart from single bytes and floats, an endianness. While
  a sound is converted its format may name both.
\<close>

definition kinds :: "int set" where
  "kinds = {SFMT_S8, SFMT_U8, SFMT_S16, SFMT_U16, SFMT_S32, SFMT_U32, SFMT_FLOAT}"

definition endians :: "int set" where
  "endians = {0, SFMT_LE, SFMT_BE, SFMT_LE OR SFMT_BE}"

lemma kindsE:
  assumes "k \<in> kinds"
  obtains "k = SFMT_S8" | "k = SFMT_U8" | "k = SFMT_S16" | "k = SFMT_U16" | "k = SFMT_S32" | "k = SFMT_U32" | "k = SFMT_FLOAT"
  using assms by (auto simp: kinds_def)

lemma endiansE:
  assumes "e \<in> endians"
  obtains "e = 0" | "e = SFMT_LE" | "e = SFMT_BE" | "e = SFMT_LE OR SFMT_BE"
  using assms by (auto simp: endians_def)

lemma fmt_kind:
  assumes "k \<in> kinds" "e \<in> endians"
  shows "(k OR e) AND SFMT_MASK_FORMAT = k" and "(k OR e) AND SFMT_MASK_ENDIANNESS = e"
    and "(k OR e) AND SFMT_NE = 0 \<longleftrightarrow> e = 0 \<or> e = SFMT_BE"
  by (insert assms, cases rule: kindsE [OF assms(1)]; cases rule: endiansE [OF assms(2)]; simp add: sfmt_defs)+

lemma fmt_bits:
  assumes "k \<in> kinds" "e \<in> endians"
  shows "(k OR e) AND (SFMT_S8 OR SFMT_U8 OR SFMT_FLOAT) = 0 \<longleftrightarrow> k \<notin> {SFMT_S8, SFMT_U8, SFMT_FLOAT}"
    and "(k OR e) AND (SFMT_S16 OR SFMT_U16) = 0 \<longleftrightarrow> k \<notin> {SFMT_S16, SFMT_U16}"
    and "(k OR e) AND (SFMT_S32 OR SFMT_U32) = 0 \<longleftrightarrow> k \<notin> {SFMT_S32, SFMT_U32}"
    and "(k OR e) AND SFMT_S8 = 0 \<longleftrightarrow> k \<noteq> SFMT_S8" and "(k OR e) AND SFMT_S16 = 0 \<longleftrightarrow> k \<noteq> SFMT_S16"
    and "(k OR e) AND SFMT_S32 = 0 \<longleftrightarrow> k \<noteq> SFMT_S32" and "(k OR e) AND SFMT_FLOAT = 0 \<longleftrightarrow> k \<noteq> SFMT_FLOAT"
  by (insert assms, cases rule: kindsE [OF assms(1)]; cases rule: endiansE [OF assms(2)]; simp add: sfmt_defs)+

lemma set_endian_fmt:
  assumes "k \<in> kinds" "e \<in> endians"
  shows "sfmt_set_endian (k OR e) e' = k OR e'"
  by (cases rule: kindsE [OF assms(1)]; cases rule: endiansE [OF assms(2)]; simp add: sfmt_set_endian_def sfmt_defs)

lemma set_fmt_fmt:
  assumes "k \<in> kinds" "e \<in> endians"
  shows "sfmt_set_fmt (k OR e) f = f OR e"
  by (cases rule: kindsE [OF assms(1)]; cases rule: endiansE [OF assms(2)]; simp add: sfmt_set_fmt_def sfmt_defs or.commute)

lemma same_bps_fmt:
  assumes "k \<in> kinds" "e \<in> endians" "k' \<in> kinds" "e' \<in> endians"
  shows "sfmt_same_bps (k OR e) (k' OR e') \<longleftrightarrow>
    k \<in> {SFMT_S8, SFMT_U8} \<and> k' \<in> {SFMT_S8, SFMT_U8} \<or> k \<in> {SFMT_S16, SFMT_U16} \<and> k' \<in> {SFMT_S16, SFMT_U16} \<or>
    k \<in> {SFMT_S32, SFMT_U32} \<and> k' \<in> {SFMT_S32, SFMT_U32} \<or> k = SFMT_FLOAT \<and> k' = SFMT_FLOAT"
proof -
  have h: "(k OR e) AND SFMT_FLOAT = (if k = SFMT_FLOAT then SFMT_FLOAT else 0)" if "k \<in> kinds" "e \<in> endians" for k e
    by (cases rule: kindsE [OF that(1)]; cases rule: endiansE [OF that(2)]; simp add: sfmt_defs)
  have "(k OR e) AND (k' OR e') AND SFMT_FLOAT = ((k OR e) AND SFMT_FLOAT) AND ((k' OR e') AND SFMT_FLOAT)"
    by (simp add: and.assoc and.left_commute and.commute)
  then have e: "(k OR e) AND (k' OR e') AND SFMT_FLOAT = 0 \<longleftrightarrow> \<not> (k = SFMT_FLOAT \<and> k' = SFMT_FLOAT)"
    unfolding h [OF assms(1,2)] h [OF assms(3,4)] by (simp add: SFMT_FLOAT_def)
  have f: "(k OR e) AND (SFMT_S8 OR SFMT_U8) = 0 \<longleftrightarrow> k \<notin> {SFMT_S8, SFMT_U8}" if "k \<in> kinds" "e \<in> endians" for k e
    by (cases rule: kindsE [OF that(1)]; cases rule: endiansE [OF that(2)]; simp add: sfmt_defs)
  show ?thesis
    unfolding sfmt_same_bps_def using e f [OF assms(1,2)] f [OF assms(3,4)] fmt_bits(2,3) [OF assms(1,2)] fmt_bits(2,3) [OF assms(3,4)]
    by blast
qed

lemma Bps_fmt:
  assumes "k \<in> kinds" "e \<in> endians"
  shows "sfmt_Bps (k OR e) = Inr (if k \<in> {SFMT_S8, SFMT_U8} then 1 else if k \<in> {SFMT_S16, SFMT_U16} then 2 else 4)"
  using fmt_kind(1) [OF assms] assms(1) by (auto simp: sfmt_Bps_def kinds_def)

lemma endians_or: "e \<in> endians \<Longrightarrow> e' \<in> endians \<Longrightarrow> e OR e' \<in> endians"
  by (elim endiansE) (simp_all add: endians_def sfmt_defs)

end
