(* ===== verification/Audio_Conv.thy ===== *)
theory Audio_Conv
  imports Sound_Format
begin

text \<open>
  Conversion of sound, \<^verbatim>\<open>src/src/moc-2.5.0/audio_conversion.c\<close>: between the integer formats
  and floats, changes of sign and endianness, doubling of a mono channel, and the composition of
  them in \<^verbatim>\<open>audio_conv\<close>. The resampling library is the parameter \<open>src\<close>.
\<close>

section \<open>Buffers\<close>

type_synonym byte = "8 word"

text \<open>A buffer holds bytes, or floats when it is used through a pointer to them.\<close>

datatype sound = Fixed "byte list" | Floats "flt list"

fun bytes_of :: "sound \<Rightarrow> nat" where
  "bytes_of (Fixed bs) = length bs"
| "bytes_of (Floats fs) = 4 * length fs"

text \<open>The bytes seen as samples of 16 and of 32 bits, lowest byte first.\<close>

fun to16 :: "byte list \<Rightarrow> 16 word list" where
  "to16 (a # b # bs) = (ucast a OR push_bit 8 (ucast b)) # to16 bs"
| "to16 _ = []"

definition of16 :: "16 word list \<Rightarrow> byte list" where
  "of16 ws = concat (map (\<lambda>w. [ucast w, ucast (drop_bit 8 w)]) ws)"

fun to32 :: "byte list \<Rightarrow> 32 word list" where
  "to32 (a # b # c # d # bs) =
     (ucast a OR push_bit 8 (ucast b) OR push_bit 16 (ucast c) OR push_bit 24 (ucast d)) # to32 bs"
| "to32 _ = []"

definition of32 :: "32 word list \<Rightarrow> byte list" where
  "of32 ws = concat (map (\<lambda>w. [ucast w, ucast (drop_bit 8 w), ucast (drop_bit 16 w), ucast (drop_bit 24 w)]) ws)"

text \<open>A change of the first \<open>n\<close> samples in place; samples behind the end of the buffer are undefined.\<close>

definition on8 :: "nat \<Rightarrow> (8 word \<Rightarrow> 8 word) \<Rightarrow> byte list \<Rightarrow> byte list result" where
  "on8 n f buf = bindR (guardR (n \<le> length buf) Undefined) (\<lambda>_. Inr (map f (take n buf) @ drop n buf))"

definition on16 :: "nat \<Rightarrow> (16 word \<Rightarrow> 16 word) \<Rightarrow> byte list \<Rightarrow> byte list result" where
  "on16 n f buf = bindR (guardR (2 * n \<le> length buf) Undefined) (\<lambda>_.
     Inr (of16 (map f (to16 (take (2 * n) buf))) @ drop (2 * n) buf))"

definition on32 :: "nat \<Rightarrow> (32 word \<Rightarrow> 32 word) \<Rightarrow> byte list \<Rightarrow> byte list result" where
  "on32 n f buf = bindR (guardR (4 * n \<le> length buf) Undefined) (\<lambda>_.
     Inr (of32 (map f (to32 (take (4 * n) buf))) @ drop (4 * n) buf))"

section \<open>Floats to integers and back\<close>

definition INT8_MIN :: int where "INT8_MIN = - 128"
definition INT8_MAX :: int where "INT8_MAX = 127"
definition UINT8_MAX :: int where "UINT8_MAX = 255"
definition INT16_MIN :: int where "INT16_MIN = - 32768"
definition INT16_MAX :: int where "INT16_MAX = 32767"
definition UINT16_MAX :: int where "UINT16_MAX = 65535"
definition INT32_MIN :: int where "INT32_MIN = - 2147483648"
definition INT32_MAX :: int where "INT32_MAX = 2147483647"
definition UINT32_MAX :: int where "UINT32_MAX = 4294967295"

lemmas limit_defs = INT8_MIN_def INT8_MAX_def UINT8_MAX_def INT16_MIN_def INT16_MAX_def UINT16_MAX_def
  INT32_MIN_def INT32_MAX_def UINT32_MAX_def

text \<open>
  All conversions scale, saturate and round the same way; \<^verbatim>\<open>lrintf\<close> rounds to the nearest
  integer. \<open>from_float max min hi lo g x\<close> scales with \<open>max\<close>.
\<close>

definition from_float :: "int \<Rightarrow> int \<Rightarrow> int \<Rightarrow> int \<Rightarrow> (int \<Rightarrow> int) \<Rightarrow> flt \<Rightarrow> int" where
  "from_float mx mn hi lo g x =
     (let f = f32 (x * f32 (of_int mx)) in
      if f \<ge> f32 (of_int mx) then hi else if f \<le> f32 (of_int mn) then lo else g (rne f))"

definition float_to_u8 :: "flt list \<Rightarrow> 8 word list" where
  "float_to_u8 = map (\<lambda>x. word_of_int (from_float INT32_MAX INT32_MIN UINT8_MAX 0 (\<lambda>n. n div 2 ^ 24 - INT8_MIN) x))"

definition float_to_s8 :: "flt list \<Rightarrow> 8 word list" where
  "float_to_s8 = map (\<lambda>x. word_of_int (from_float INT32_MAX INT32_MIN INT8_MAX INT8_MIN (\<lambda>n. n div 2 ^ 24) x))"

definition float_to_u16 :: "flt list \<Rightarrow> 16 word list" where
  "float_to_u16 = map (\<lambda>x. word_of_int (from_float INT32_MAX INT32_MIN UINT16_MAX 0 (\<lambda>n. n div 2 ^ 16 - INT16_MIN) x))"

definition float_to_s16 :: "flt list \<Rightarrow> 16 word list" where
  "float_to_s16 = map (\<lambda>x. word_of_int (from_float INT32_MAX INT32_MIN INT16_MAX INT16_MIN (\<lambda>n. n div 2 ^ 16) x))"

definition float_to_u32 :: "flt list \<Rightarrow> 32 word list" where
  "float_to_u32 =
     (let U32_MAX = 2 ^ 24 - 1; S32_MAX = 2 ^ 23 - 1; S32_MIN = - (2 ^ 23) in
      map (\<lambda>x. word_of_int (from_float S32_MAX S32_MIN (U32_MAX * 2 ^ 8) 0 (\<lambda>n. (n - S32_MIN) * 2 ^ 8) x)))"

definition float_to_s32 :: "flt list \<Rightarrow> 32 word list" where
  "float_to_s32 =
     (let S32_MAX = 2 ^ 23 - 1; S32_MIN = - (2 ^ 23) in
      map (\<lambda>x. word_of_int (from_float S32_MAX S32_MIN (S32_MAX * 2 ^ 8) (S32_MIN * 2 ^ 8) (\<lambda>n. n * 2 ^ 8) x)))"

definition u8_to_float :: "8 word list \<Rightarrow> flt list" where
  "u8_to_float = map (\<lambda>w. f32 (of_int (uint w + INT8_MIN) / f32 (of_int (INT8_MAX + 1))))"

definition s8_to_float :: "8 word list \<Rightarrow> flt list" where
  "s8_to_float = map (\<lambda>w. f32 (of_int (sint w) / f32 (of_int (INT8_MAX + 1))))"

definition u16_to_float :: "16 word list \<Rightarrow> flt list" where
  "u16_to_float = map (\<lambda>w. f32 (of_int (uint w + INT16_MIN) / f32 (of_int (INT16_MAX + 1))))"

definition s16_to_float :: "16 word list \<Rightarrow> flt list" where
  "s16_to_float = map (\<lambda>w. f32 (of_int (sint w) / f32 (of_int (INT16_MAX + 1))))"

text \<open>The divisor is a \<^verbatim>\<open>double\<close> here: the quotient is rounded twice.\<close>

definition u32_to_float :: "32 word list \<Rightarrow> flt list" where
  "u32_to_float = map (\<lambda>w. f32 (f64 (f32 (f32 (of_int (uint w)) + f32 (of_int INT32_MIN)) / f64 (f32 (of_int INT32_MAX) + 1))))"

definition s32_to_float :: "32 word list \<Rightarrow> flt list" where
  "s32_to_float = map (\<lambda>w. f32 (f64 (of_int (sint w) / f64 (f32 (of_int INT32_MAX) + 1))))"

definition fixed_to_float :: "int \<Rightarrow> byte list \<Rightarrow> flt list result" where
  "fixed_to_float fmt buf =
     (let f = fmt AND SFMT_MASK_FORMAT in
      bindR (guardR (f \<noteq> SFMT_FLOAT) Assert) (\<lambda>_.
        if f = SFMT_U8 then Inr (u8_to_float buf)
        else if f = SFMT_S8 then Inr (s8_to_float buf)
        else if f = SFMT_U16 then Inr (u16_to_float (to16 buf))
        else if f = SFMT_S16 then Inr (s16_to_float (to16 buf))
        else if f = SFMT_U32 then Inr (u32_to_float (to32 buf))
        else if f = SFMT_S32 then Inr (s32_to_float (to32 buf))
        else Inl Abort))"

definition float_to_fixed :: "int \<Rightarrow> flt list \<Rightarrow> byte list result" where
  "float_to_fixed fmt buf =
     (let f = fmt AND SFMT_MASK_FORMAT in
      bindR (guardR (f \<noteq> SFMT_FLOAT) Assert) (\<lambda>_.
        if f = SFMT_U8 then Inr (float_to_u8 buf)
        else if f = SFMT_S8 then Inr (float_to_s8 buf)
        else if f = SFMT_U16 then Inr (of16 (float_to_u16 buf))
        else if f = SFMT_S16 then Inr (of16 (float_to_s16 buf))
        else if f = SFMT_U32 then Inr (of32 (float_to_u32 buf))
        else if f = SFMT_S32 then Inr (of32 (float_to_s32 buf))
        else Inl Abort))"

section \<open>Sign and endianness\<close>

definition change_sign_8 :: "nat \<Rightarrow> byte list \<Rightarrow> byte list result" where
  "change_sign_8 samples = on8 samples (\<lambda>w. w XOR push_bit 7 1)"

definition change_sign_16 :: "nat \<Rightarrow> byte list \<Rightarrow> byte list result" where
  "change_sign_16 samples = on16 samples (\<lambda>w. w XOR push_bit 15 1)"

definition change_sign_32 :: "nat \<Rightarrow> byte list \<Rightarrow> byte list result" where
  "change_sign_32 samples = on32 samples (\<lambda>w. w XOR push_bit 31 1)"

definition change_sign :: "nat \<Rightarrow> int \<Rightarrow> byte list \<Rightarrow> (byte list \<times> int) result" where
  "change_sign sz fmt buf =
     (let f = fmt AND SFMT_MASK_FORMAT in
      if f = SFMT_S8 \<or> f = SFMT_U8 then
        bindR (change_sign_8 sz buf) (\<lambda>b.
          Inr (b, if fmt AND SFMT_S8 \<noteq> 0 then sfmt_set_fmt fmt SFMT_U8 else sfmt_set_fmt fmt SFMT_S8))
      else if f = SFMT_S16 \<or> f = SFMT_U16 then
        bindR (change_sign_16 (sz div 2) buf) (\<lambda>b.
          Inr (b, if fmt AND SFMT_S16 \<noteq> 0 then sfmt_set_fmt fmt SFMT_U16 else sfmt_set_fmt fmt SFMT_S16))
      else if f = SFMT_S32 \<or> f = SFMT_U32 then
        bindR (change_sign_32 (sz div 4) buf) (\<lambda>b.
          Inr (b, if fmt AND SFMT_S32 \<noteq> 0 then sfmt_set_fmt fmt SFMT_U32 else sfmt_set_fmt fmt SFMT_S32))
      else Inl Abort)"

definition bswap_16 :: "16 word \<Rightarrow> 16 word" where
  "bswap_16 x = push_bit 8 (x AND 0x00FF) OR drop_bit 8 (x AND 0xFF00)"

definition bswap_32 :: "32 word \<Rightarrow> 32 word" where
  "bswap_32 x = push_bit 24 (x AND 0x000000FF) OR push_bit 8 (x AND 0x0000FF00)
     OR drop_bit 8 (x AND 0x00FF0000) OR drop_bit 24 (x AND 0xFF000000)"

definition audio_conv_bswap_16 :: "nat \<Rightarrow> byte list \<Rightarrow> byte list result" where
  "audio_conv_bswap_16 num = on16 num bswap_16"

definition audio_conv_bswap_32 :: "nat \<Rightarrow> byte list \<Rightarrow> byte list result" where
  "audio_conv_bswap_32 num = on32 num bswap_32"

definition swap_endian :: "nat \<Rightarrow> int \<Rightarrow> byte list \<Rightarrow> byte list result" where
  "swap_endian sz fmt buf =
     (let f = fmt AND SFMT_MASK_FORMAT in
      if fmt AND (SFMT_S8 OR SFMT_U8 OR SFMT_FLOAT) \<noteq> 0 then Inr buf
      else if f = SFMT_S16 \<or> f = SFMT_U16 then audio_conv_bswap_16 (sz div 2) buf
      else if f = SFMT_S32 \<or> f = SFMT_U32 then audio_conv_bswap_32 (sz div 4) buf
      else Inl Abort)"

text \<open>
  A mono channel is doubled sample by sample; an incomplete sample at the end would be read
  behind the end of the buffer.
\<close>

function mono_to_stereo :: "nat \<Rightarrow> 'a list \<Rightarrow> 'a list result" where
  "mono_to_stereo Bps xs =
     (if xs = [] then Inr []
      else if Bps = 0 \<or> length xs < Bps then Inl Undefined
      else bindR (mono_to_stereo Bps (drop Bps xs)) (\<lambda>r. Inr (take Bps xs @ take Bps xs @ r)))"
  by pat_completeness auto

termination
  by (relation "measure (\<lambda>(b, xs). length xs)") auto

declare mono_to_stereo.simps [simp del]

text \<open>A sample of 32 bits loses its lower half; the shift keeps the sign.\<close>

definition s32_to_s16 :: "32 word list \<Rightarrow> 16 word list" where
  "s32_to_s16 = map (\<lambda>w. word_of_int (sint w div 2 ^ 16))"

definition u32_to_u16 :: "32 word list \<Rightarrow> 16 word list" where
  "u32_to_u16 = map (\<lambda>w. ucast (drop_bit 16 w))"

section \<open>Resampling\<close>

datatype src_type = SRC_SINC_BEST_QUALITY | SRC_SINC_MEDIUM_QUALITY | SRC_SINC_FASTEST | SRC_ZERO_ORDER_HOLD | SRC_LINEAR

text \<open>
  \<open>src st ratio input out_frames\<close> is \<^verbatim>\<open>src_process\<close>: the new state of the library, and
  the frames it used, the frames it made and their samples, or \<open>None\<close> for an error.
\<close>

type_synonym 's src = "'s \<Rightarrow> flt \<Rightarrow> flt list \<Rightarrow> nat \<Rightarrow> 's \<times> (nat \<times> nat \<times> flt list) option"

record 's audio_conversion =
  c_from :: sound_params
  c_to :: sound_params
  src_state :: "'s option"
  resample_buf :: "flt list option"
  resample_buf_nsamples :: nat

definition resample_type :: "string \<Rightarrow> src_type result" where
  "resample_type method =
     (if strcaseeq method ''SincBestQuality'' then Inr SRC_SINC_BEST_QUALITY
      else if strcaseeq method ''SincMediumQuality'' then Inr SRC_SINC_MEDIUM_QUALITY
      else if strcaseeq method ''SincFastest'' then Inr SRC_SINC_FASTEST
      else if strcaseeq method ''ZeroOrderHold'' then Inr SRC_ZERO_ORDER_HOLD
      else if strcaseeq method ''Linear'' then Inr SRC_LINEAR
      else Inl (Exit EXIT_FAILURE))"

text \<open>\<open>None\<close> is the error return.\<close>

definition audio_conv_new ::
    "string \<Rightarrow> (src_type \<Rightarrow> int \<Rightarrow> 's option) \<Rightarrow> sound_params \<Rightarrow> sound_params \<Rightarrow> 's audio_conversion option result" where
  "audio_conv_new method src_new from to =
     bindR (guardR (sp_rate from \<noteq> sp_rate to \<or> sp_fmt from \<noteq> sp_fmt to \<or> sp_channels from \<noteq> sp_channels to) Assert) (\<lambda>_.
       let conv = (\<lambda>st. Inr (Some \<lparr>c_from = from, c_to = to, src_state = st, resample_buf = None, resample_buf_nsamples = 0\<rparr>))
       in if sp_channels from \<noteq> sp_channels to \<and> \<not> (sp_channels from = 1 \<and> sp_channels to = 2) then Inr None
          else if sp_rate from \<noteq> sp_rate to then
            bindR (resample_type method) (\<lambda>t.
              case src_new t (sp_channels to) of None \<Rightarrow> Inr None | Some st \<Rightarrow> conv (Some st))
          else conv None)"

text \<open>
  The loop of \<^verbatim>\<open>resample_sound\<close>. It ends since each further round has fewer frames of
  output left. A library that uses or makes more frames than it was given would write outside of
  the buffers.
\<close>

function resample_loop :: "'s src \<Rightarrow> flt \<Rightarrow> nat \<Rightarrow> 's \<Rightarrow> flt list \<Rightarrow> nat \<Rightarrow> nat \<Rightarrow> flt list \<Rightarrow>
    ('s \<times> (flt list \<times> nat \<times> flt list) option) result" where
  "resample_loop src ratio nch st data_in input_frames output_frames out =
     (case src st ratio (take (input_frames * nch) data_in) output_frames of
        (st, None) \<Rightarrow> Inr (st, None)
      | (st, Some (used, gen, samples)) \<Rightarrow>
          bindR (guardR (used \<le> input_frames \<and> gen \<le> output_frames \<and> length samples = gen * nch) Undefined) (\<lambda>_.
            let data_in = drop (used * nch) data_in; input_frames = input_frames - used;
                out_left = output_frames - gen; out = out @ samples
            in if input_frames \<noteq> 0 \<and> gen \<noteq> 0 \<and> out_left \<noteq> 0
               then resample_loop src ratio nch st data_in input_frames out_left out
               else Inr (st, Some (data_in, input_frames, out))))"
  by pat_completeness auto

termination
  by (relation "measure (\<lambda>(_, _, _, _, _, _, n, _). n)") auto

declare resample_loop.simps [simp del]

definition resample_sound :: "'s src \<Rightarrow> 's audio_conversion \<Rightarrow> flt list \<Rightarrow> nat \<Rightarrow> (flt list option \<times> 's audio_conversion) result" where
  "resample_sound src conv buf nch =
     (case src_state conv of
        None \<Rightarrow> Inl Undefined
      | Some st \<Rightarrow>
          bindR (guardR (nch \<noteq> 0) Undefined) (\<lambda>_.
            let ratio = f64 (of_int (sp_rate (c_to conv)) / of_int (sp_rate (c_from conv)));
                n = resample_buf_nsamples conv;
                input_frames = length buf div nch + n div nch;
                output_frames = nat \<lfloor>f64 (of_nat input_frames * ratio)\<rfloor>;
                old = (case resample_buf conv of None \<Rightarrow> [] | Some b \<Rightarrow> take n b)
            in bindR (guardR (n + length buf \<le> input_frames * nch) Undefined) (\<lambda>_.
               bindR (resample_loop src ratio nch st (old @ buf) input_frames output_frames []) (\<lambda>(st, r).
                 case r of
                   None \<Rightarrow> Inr (None, conv\<lparr>src_state := Some st, resample_buf := Some (old @ buf)\<rparr>)
                 | Some (data_in, frames, out) \<Rightarrow>
                     Inr (Some out,
                       if frames \<noteq> 0 then
                         conv\<lparr>src_state := Some st, resample_buf := Some (take (frames * nch) data_in),
                           resample_buf_nsamples := frames * nch\<rparr>
                       else conv\<lparr>src_state := Some st, resample_buf := None, resample_buf_nsamples := 0\<rparr>)))))"

section \<open>The whole conversion\<close>

text \<open>
  The sound on its way through the conversion: the buffer (\<open>None\<close> is a null pointer), its
  size in \<^verbatim>\<open>*conv_len\<close> and its format in \<^verbatim>\<open>curr_sfmt\<close>.
\<close>

record conv_state =
  curr_sound :: "sound option"
  conv_len :: nat
  curr_sfmt :: int

definition fixed_sound :: "conv_state \<Rightarrow> byte list result" where
  "fixed_sound s = (case curr_sound s of Some (Fixed b) \<Rightarrow> Inr b | _ \<Rightarrow> Inl Undefined)"

text \<open>Byte order of the buffer; for single bytes and floats the buffer is not looked at.\<close>

definition conv_swap :: "conv_state \<Rightarrow> conv_state result" where
  "conv_swap s =
     (if curr_sfmt s AND (SFMT_S8 OR SFMT_U8 OR SFMT_FLOAT) \<noteq> 0 then Inr s
      else bindR (fixed_sound s) (\<lambda>b. bindR (swap_endian (conv_len s) (curr_sfmt s) b) (\<lambda>b.
        Inr (s\<lparr>curr_sound := Some (Fixed b)\<rparr>))))"

definition conv_native :: "conv_state \<Rightarrow> conv_state result" where
  "conv_native s =
     (if curr_sfmt s AND SFMT_NE = 0
      then bindR (conv_swap s) (\<lambda>s. Inr (s\<lparr>curr_sfmt := sfmt_set_endian (curr_sfmt s) SFMT_NE\<rparr>))
      else Inr s)"

definition conv_fast :: "'s audio_conversion \<Rightarrow> conv_state \<Rightarrow> conv_state result" where
  "conv_fast conv s =
     (if curr_sfmt s AND (SFMT_S32 OR SFMT_U32) \<noteq> 0 \<and> sp_fmt (c_to conv) AND (SFMT_S16 OR SFMT_U16) \<noteq> 0
         \<and> sp_rate (c_from conv) = sp_rate (c_to conv)
      then bindR (fixed_sound s) (\<lambda>b.
        bindR (guardR (conv_len s div 4 * 4 \<le> length b) Undefined) (\<lambda>_.
          let ws = to32 (take (conv_len s div 4 * 4) b) in
          if curr_sfmt s AND SFMT_MASK_FORMAT = SFMT_S32
          then Inr \<lparr>curr_sound = Some (Fixed (of16 (s32_to_s16 ws))), conv_len = conv_len s div 2,
                 curr_sfmt = sfmt_set_fmt (curr_sfmt s) SFMT_S16\<rparr>
          else Inr \<lparr>curr_sound = Some (Fixed (of16 (u32_to_u16 ws))), conv_len = conv_len s div 2,
                 curr_sfmt = sfmt_set_fmt (curr_sfmt s) SFMT_U16\<rparr>))
      else Inr s)"

definition conv_to_float :: "'s audio_conversion \<Rightarrow> conv_state \<Rightarrow> conv_state result" where
  "conv_to_float conv s =
     (if (sp_rate (c_from conv) \<noteq> sp_rate (c_to conv) \<or> sp_fmt (c_to conv) AND SFMT_MASK_FORMAT = SFMT_FLOAT
           \<or> \<not> sfmt_same_bps (sp_fmt (c_to conv)) (curr_sfmt s))
         \<and> curr_sfmt s AND SFMT_MASK_FORMAT \<noteq> SFMT_FLOAT
      then bindR (fixed_sound s) (\<lambda>b.
        bindR (guardR (conv_len s \<le> length b) Undefined) (\<lambda>_.
        bindR (fixed_to_float (curr_sfmt s) (take (conv_len s) b)) (\<lambda>fs.
          Inr \<lparr>curr_sound = Some (Floats fs), conv_len = 4 * length fs,
            curr_sfmt = sfmt_set_fmt (curr_sfmt s) SFMT_FLOAT\<rparr>)))
      else Inr s)"

definition conv_resample :: "'s src \<Rightarrow> 's audio_conversion \<Rightarrow> conv_state \<Rightarrow> (conv_state \<times> 's audio_conversion) result" where
  "conv_resample src conv s =
     (if sp_rate (c_from conv) \<noteq> sp_rate (c_to conv) then
        case curr_sound s of
          Some (Floats fs) \<Rightarrow>
            bindR (resample_sound src conv (take (conv_len s div 4) fs) (nat (sp_channels (c_to conv)))) (\<lambda>(r, conv).
              case r of
                None \<Rightarrow> Inr (s\<lparr>curr_sound := None, conv_len := conv_len s * 4\<rparr>, conv)
              | Some out \<Rightarrow> Inr (s\<lparr>curr_sound := Some (Floats out), conv_len := length out * 4\<rparr>, conv))
        | _ \<Rightarrow> Inl Undefined
      else Inr (s, conv))"

text \<open>
  The last change of the format. \<open>sz\<close> is the size of the sound before the conversion, which the
  code uses for the change of the sign.
\<close>

definition conv_format :: "nat \<Rightarrow> 's audio_conversion \<Rightarrow> conv_state \<Rightarrow> conv_state result" where
  "conv_format sz conv s =
     (let to = sp_fmt (c_to conv) in
      if curr_sfmt s AND SFMT_MASK_FORMAT = to AND SFMT_MASK_FORMAT then Inr s
      else if sfmt_same_bps (curr_sfmt s) to then
        bindR (fixed_sound s) (\<lambda>b. bindR (change_sign sz (curr_sfmt s) b) (\<lambda>(b, f).
          Inr (s\<lparr>curr_sound := Some (Fixed b), curr_sfmt := f\<rparr>)))
      else bindR (guardR (curr_sfmt s AND SFMT_FLOAT \<noteq> 0) Assert) (\<lambda>_.
        case curr_sound s of
          None \<Rightarrow> Inl Assert
        | Some (Fixed _) \<Rightarrow> Inl Undefined
        | Some (Floats fs) \<Rightarrow>
            bindR (guardR (conv_len s div 4 \<le> length fs) Undefined) (\<lambda>_.
            bindR (float_to_fixed to (take (conv_len s div 4) fs)) (\<lambda>b.
              Inr \<lparr>curr_sound = Some (Fixed b), conv_len = length b, curr_sfmt = sfmt_set_fmt (curr_sfmt s) to\<rparr>))))"

definition conv_endian :: "'s audio_conversion \<Rightarrow> conv_state \<Rightarrow> conv_state result" where
  "conv_endian conv s =
     (let to = sp_fmt (c_to conv) AND SFMT_MASK_ENDIANNESS in
      if curr_sfmt s AND SFMT_MASK_ENDIANNESS \<noteq> to
      then bindR (conv_swap s) (\<lambda>s. Inr (s\<lparr>curr_sfmt := sfmt_set_endian (curr_sfmt s) to\<rparr>))
      else Inr s)"

definition conv_stereo :: "'s audio_conversion \<Rightarrow> conv_state \<Rightarrow> conv_state result" where
  "conv_stereo conv s =
     (if sp_channels (c_from conv) = 1 \<and> sp_channels (c_to conv) = 2 then
        bindR (sfmt_Bps (curr_sfmt s)) (\<lambda>Bps.
        bindR (case curr_sound s of
            None \<Rightarrow> if conv_len s = 0 then Inr (Floats []) else Inl Undefined
          | Some (Fixed b) \<Rightarrow>
              bindR (guardR (conv_len s \<le> length b) Undefined) (\<lambda>_.
              bindR (mono_to_stereo Bps (take (conv_len s) b)) (\<lambda>b. Inr (Fixed b)))
          | Some (Floats fs) \<Rightarrow> bindR (mono_to_stereo 1 fs) (\<lambda>fs. Inr (Floats fs))) (\<lambda>snd.
          Inr (s\<lparr>curr_sound := Some snd, conv_len := conv_len s * 2\<rparr>)))
      else Inr s)"

definition audio_conv :: "'s src \<Rightarrow> 's audio_conversion \<Rightarrow> sound \<Rightarrow> (sound option \<times> nat \<times> 's audio_conversion) result" where
  "audio_conv src conv buf =
     bindR (conv_native \<lparr>curr_sound = Some buf, conv_len = bytes_of buf, curr_sfmt = sp_fmt (c_from conv)\<rparr>) (\<lambda>s.
     bindR (conv_fast conv s) (\<lambda>s.
     bindR (conv_to_float conv s) (\<lambda>s.
     bindR (conv_resample src conv s) (\<lambda>(s, conv).
     bindR (conv_format (bytes_of buf) conv s) (\<lambda>s.
     bindR (conv_endian conv s) (\<lambda>s.
     bindR (conv_stereo conv s) (\<lambda>s.
       Inr (curr_sound s, conv_len s, conv))))))))"

end
