(* ===== verification/Audio_Conv_Spec.thy ===== *)
theory Audio_Conv_Spec
  imports Audio_Conv
begin

text \<open>
  What a conversion means: every format gives a buffer of bytes a list of sample values, and
  the conversions are compared through these values.
\<close>

section \<open>Views of a buffer\<close>

lemma join16: "(ucast (ucast (w :: 16 word) :: 8 word) :: 16 word) OR push_bit 8 (ucast (ucast (drop_bit 8 w) :: 8 word)) = w"
  by (rule bit_word_eqI) (auto simp: bit_simps)

lemma split16:
  "(ucast (ucast (a :: 8 word) OR push_bit 8 (ucast (b :: 8 word)) :: 16 word) :: 8 word) = a"
  "(ucast (drop_bit 8 (ucast (a :: 8 word) OR push_bit 8 (ucast (b :: 8 word)) :: 16 word)) :: 8 word) = b"
  by (rule bit_word_eqI; auto simp: bit_simps dest: bit_imp_le_length)+

lemma to16_of16 [simp]: "to16 (of16 ws @ bs) = ws @ to16 bs"
  by (induction ws) (simp_all add: of16_def join16)

lemma to16_of16' [simp]: "to16 (of16 ws) = ws"
  using to16_of16 [of ws "[]"] by simp

lemma length_of16 [simp]: "length (of16 ws) = 2 * length ws"
  by (induction ws) (simp_all add: of16_def)

lemma of16_to16: "even (length bs) \<Longrightarrow> of16 (to16 bs) = bs"
  by (induction bs rule: to16.induct) (auto simp: of16_def split16 simp del: drop_bit_or)

lemma length_to16 [simp]: "length (to16 bs) = length bs div 2"
  by (induction bs rule: to16.induct) auto

lemma join32:
  "(ucast (ucast (w :: 32 word) :: 8 word) :: 32 word) OR push_bit 8 (ucast (ucast (drop_bit 8 w) :: 8 word))
     OR push_bit 16 (ucast (ucast (drop_bit 16 w) :: 8 word)) OR push_bit 24 (ucast (ucast (drop_bit 24 w) :: 8 word)) = w"
proof (rule bit_word_eqI)
  fix n :: nat
  assume "n < LENGTH(32)"
  then consider "n < 8" | "8 \<le> n" "n < 16" | "16 \<le> n" "n < 24" | "24 \<le> n" "n < 32" by fastforce
  then show "bit ((ucast (ucast (w :: 32 word) :: 8 word) :: 32 word) OR push_bit 8 (ucast (ucast (drop_bit 8 w) :: 8 word))
     OR push_bit 16 (ucast (ucast (drop_bit 16 w) :: 8 word)) OR push_bit 24 (ucast (ucast (drop_bit 24 w) :: 8 word))) n = bit w n"
    by cases (auto simp: bit_simps)
qed

lemma to32_of32 [simp]: "to32 (of32 ws @ bs) = ws @ to32 bs"
  by (induction ws) (simp_all add: of32_def join32)

lemma to32_of32' [simp]: "to32 (of32 ws) = ws"
  using to32_of32 [of ws "[]"] by simp

lemma length_of32 [simp]: "length (of32 ws) = 4 * length ws"
  by (induction ws) (simp_all add: of32_def)

lemma length_to32 [simp]: "length (to32 bs) = length bs div 4"
  by (induction bs rule: to32.induct) auto

text \<open>The masks of the byte swaps, as ranges of bits.\<close>

lemma byte_masks:
  "(0x00FF :: 16 word) = mask 8" "(0xFF00 :: 16 word) = push_bit 8 (mask 8)"
  "(0x000000FF :: 32 word) = mask 8" "(0x0000FF00 :: 32 word) = push_bit 8 (mask 8)"
  "(0x00FF0000 :: 32 word) = push_bit 16 (mask 8)" "(0xFF000000 :: 32 word) = push_bit 24 (mask 8)"
  by (simp_all add: mask_eq_exp_minus_1 push_bit_eq_mult)

lemma bit_bswap_16: "bit (bswap_16 w) n = (if n < 8 then bit w (n + 8) else n < 16 \<and> bit w (n - 8))"
  unfolding bswap_16_def byte_masks
  by (auto simp: bit_simps ac_simps simp del: push_bit_mask_eq dest: bit_imp_le_length)

lemma bswap_16_bswap_16 [simp]: "bswap_16 (bswap_16 w) = w"
  by (rule bit_word_eqI) (auto simp: bit_bswap_16)

lemma bit_bswap_32:
  "bit (bswap_32 w) n =
     (if n < 8 then bit w (n + 24) else if n < 16 then bit w (n + 8) else if n < 24 then bit w (n - 8)
      else n < 32 \<and> bit w (n - 24))"
proof -
  consider "n < 8" | "8 \<le> n" "n < 16" | "16 \<le> n" "n < 24" | "24 \<le> n" "n < 32" | "32 \<le> n" by linarith
  then show ?thesis
    unfolding bswap_32_def byte_masks
    by cases (auto simp: bit_simps ac_simps dest: bit_imp_le_length)
qed

lemma bswap_32_bswap_32 [simp]: "bswap_32 (bswap_32 w) = w"
  by (rule bit_word_eqI) (auto simp: bit_bswap_32)

section \<open>Flipping the sign bit\<close>

lemma top_bit: "bit (uint (w :: 'a::len word)) (LENGTH('a) - 1) \<longleftrightarrow> 2 ^ (LENGTH('a) - 1) \<le> uint w"
proof -
  let ?m = "LENGTH('a) - 1"
  have "uint w < 2 ^ LENGTH('a)" by simp
  also have "\<dots> = 2 * 2 ^ ?m" by (metis One_nat_def Suc_pred len_gt_0 power_Suc)
  finally have "uint w div 2 ^ ?m = (if 2 ^ ?m \<le> uint w then 1 else 0)"
    by (auto simp: int_div_pos_eq [of _ _ 1 "uint w - 2 ^ ?m"])
  then show ?thesis by (simp add: bit_iff_odd)
qed

lemma sint_cases:
  "sint (w :: 'a::len word) = (if 2 ^ (LENGTH('a) - 1) \<le> uint w then uint w - 2 ^ LENGTH('a) else uint w)"
  using top_bit [of w] by (simp add: sint_uint signed_take_bit_eq_take_bit_minus take_bit_int_eq_self)

lemma flip_top: "sint ((w :: 'a::len word) XOR push_bit (LENGTH('a) - 1) 1) = uint w - 2 ^ (LENGTH('a) - 1)"
proof -
  let ?m = "LENGTH('a) - 1"
  have m: "(2::int) ^ LENGTH('a) = 2 * 2 ^ ?m" by (metis One_nat_def Suc_pred len_gt_0 power_Suc)
  have "uint (push_bit ?m 1 :: 'a word) = push_bit ?m 1"
    by (rule bit_eqI) (auto simp: bit_uint_iff bit_simps simp del: push_bit_of_1)
  then have "uint (w XOR push_bit ?m 1) = flip_bit ?m (uint w)"
    by (simp add: unsigned_xor_eq flip_bit_eq_xor)
  also have "\<dots> = (if 2 ^ ?m \<le> uint w then uint w - 2 ^ ?m else uint w + 2 ^ ?m)"
    using top_bit [of w] by (simp add: flip_bit_eq_if set_bit_eq unset_bit_eq)
  finally show ?thesis
    using m uint_lt2p [of w] by (simp add: sint_cases split: if_splits)
qed

section \<open>Sample values\<close>

definition bits :: "int \<Rightarrow> nat" where
  "bits k = (if k \<in> {SFMT_S8, SFMT_U8} then 8 else if k \<in> {SFMT_S16, SFMT_U16} then 16 else 32)"

abbreviation Bps :: "int \<Rightarrow> nat" where
  "Bps k \<equiv> bits k div 8"

definition signed_kind :: "int \<Rightarrow> bool" where
  "signed_kind k \<longleftrightarrow> k \<in> {SFMT_S8, SFMT_S16, SFMT_S32}"

definition fixed_kinds :: "int set" where
  "fixed_kinds = {SFMT_S8, SFMT_U8, SFMT_S16, SFMT_U16, SFMT_S32, SFMT_U32}"

definition word_val :: "bool \<Rightarrow> 'a::len word \<Rightarrow> int" where
  "word_val sgnd w = (if sgnd then sint w else uint w - 2 ^ (LENGTH('a) - 1))"

definition vals :: "int \<Rightarrow> int \<Rightarrow> byte list \<Rightarrow> int list" where
  "vals k e bs =
     (if bits k = 8 then map (word_val (signed_kind k)) bs
      else if bits k = 16 then map (word_val (signed_kind k)) (map (if e = SFMT_BE then bswap_16 else id) (to16 bs))
      else map (word_val (signed_kind k)) (map (if e = SFMT_BE then bswap_32 else id) (to32 bs)))"

lemma fixed_kindsE:
  assumes "k \<in> fixed_kinds"
  obtains "k = SFMT_S8" | "k = SFMT_U8" | "k = SFMT_S16" | "k = SFMT_U16" | "k = SFMT_S32" | "k = SFMT_U32"
  using assms by (auto simp: fixed_kinds_def)

lemma fixed_kinds_kinds: "k \<in> fixed_kinds \<Longrightarrow> k \<in> kinds \<and> k \<noteq> SFMT_FLOAT"
  by (auto simp: fixed_kinds_def kinds_def sfmt_defs)

lemma bits_simps [simp]:
  "bits SFMT_S8 = 8" "bits SFMT_U8 = 8" "bits SFMT_S16 = 16" "bits SFMT_U16 = 16" "bits SFMT_S32 = 32" "bits SFMT_U32 = 32"
  by (simp_all add: bits_def sfmt_defs)

lemma signed_kind_simps [simp]:
  "signed_kind SFMT_S8" "\<not> signed_kind SFMT_U8" "signed_kind SFMT_S16" "\<not> signed_kind SFMT_U16"
  "signed_kind SFMT_S32" "\<not> signed_kind SFMT_U32"
  by (simp_all add: signed_kind_def sfmt_defs)

lemma kind_neqs [simp]:
  "SFMT_S8 \<noteq> SFMT_U8" "SFMT_S8 \<noteq> SFMT_S16" "SFMT_S8 \<noteq> SFMT_U16" "SFMT_S8 \<noteq> SFMT_S32" "SFMT_S8 \<noteq> SFMT_U32" "SFMT_S8 \<noteq> SFMT_FLOAT"
  "SFMT_U8 \<noteq> SFMT_S8" "SFMT_U8 \<noteq> SFMT_S16" "SFMT_U8 \<noteq> SFMT_U16" "SFMT_U8 \<noteq> SFMT_S32" "SFMT_U8 \<noteq> SFMT_U32" "SFMT_U8 \<noteq> SFMT_FLOAT"
  "SFMT_S16 \<noteq> SFMT_S8" "SFMT_S16 \<noteq> SFMT_U8" "SFMT_S16 \<noteq> SFMT_U16" "SFMT_S16 \<noteq> SFMT_S32" "SFMT_S16 \<noteq> SFMT_U32" "SFMT_S16 \<noteq> SFMT_FLOAT"
  "SFMT_U16 \<noteq> SFMT_S8" "SFMT_U16 \<noteq> SFMT_U8" "SFMT_U16 \<noteq> SFMT_S16" "SFMT_U16 \<noteq> SFMT_S32" "SFMT_U16 \<noteq> SFMT_U32" "SFMT_U16 \<noteq> SFMT_FLOAT"
  "SFMT_S32 \<noteq> SFMT_S8" "SFMT_S32 \<noteq> SFMT_U8" "SFMT_S32 \<noteq> SFMT_S16" "SFMT_S32 \<noteq> SFMT_U16" "SFMT_S32 \<noteq> SFMT_U32" "SFMT_S32 \<noteq> SFMT_FLOAT"
  "SFMT_U32 \<noteq> SFMT_S8" "SFMT_U32 \<noteq> SFMT_U8" "SFMT_U32 \<noteq> SFMT_S16" "SFMT_U32 \<noteq> SFMT_U16" "SFMT_U32 \<noteq> SFMT_S32" "SFMT_U32 \<noteq> SFMT_FLOAT"
  "SFMT_FLOAT \<noteq> SFMT_S8" "SFMT_FLOAT \<noteq> SFMT_U8" "SFMT_FLOAT \<noteq> SFMT_S16" "SFMT_FLOAT \<noteq> SFMT_U16" "SFMT_FLOAT \<noteq> SFMT_S32" "SFMT_FLOAT \<noteq> SFMT_U32"
  "SFMT_LE \<noteq> SFMT_BE" "SFMT_BE \<noteq> SFMT_LE" "SFMT_LE \<noteq> 0" "SFMT_BE \<noteq> 0" "SFMT_LE OR SFMT_BE \<noteq> SFMT_BE" "SFMT_LE OR SFMT_BE \<noteq> 0"
  by (simp_all add: sfmt_defs)

lemma to16_append: "even (length xs) \<Longrightarrow> to16 (xs @ ys) = to16 xs @ to16 ys"
  by (induction xs rule: to16.induct) auto

lemma to32_append: "4 dvd length xs \<Longrightarrow> to32 (xs @ ys) = to32 xs @ to32 ys"
proof (induction xs rule: to32.induct)
  case (1 a b c d bs)
  have "4 dvd length bs" using 1(2) by simp presburger
  with 1(1) show ?case by simp
qed (auto dest: dvd_imp_le)

lemma vals_append: "k \<in> fixed_kinds \<Longrightarrow> Bps k dvd length xs \<Longrightarrow> vals k e (xs @ ys) = vals k e xs @ vals k e ys"
  by (elim fixed_kindsE) (simp_all add: vals_def to16_append to32_append)

lemma length_vals: "k \<in> fixed_kinds \<Longrightarrow> length (vals k e bs) = length bs div Bps k"
  by (elim fixed_kindsE) (simp_all add: vals_def)

lemma word_val_bounds: "- (2 ^ (LENGTH('a) - 1)) \<le> word_val b (w :: 'a::len word) \<and> word_val b w < 2 ^ (LENGTH('a) - 1)"
proof -
  have m: "(2::int) ^ LENGTH('a) = 2 * 2 ^ (LENGTH('a) - 1)" by (metis One_nat_def Suc_pred len_gt_0 power_Suc)
  have "uint w < 2 ^ LENGTH('a)" "0 \<le> uint w" by (simp_all only: uint_lt2p uint_ge_0)
  moreover have "(0::int) \<le> 2 ^ (LENGTH('a) - 1)" by simp
  ultimately show ?thesis using m unfolding word_val_def sint_cases
    by (cases b; cases "2 ^ (LENGTH('a) - 1) \<le> uint w"; simp only: if_True if_False; linarith)
qed

lemma vals_bounds: "k \<in> fixed_kinds \<Longrightarrow> v \<in> set (vals k e bs) \<Longrightarrow> - (2 ^ (bits k - 1)) \<le> v \<and> v < 2 ^ (bits k - 1)"
  using word_val_bounds [where 'a = 8] word_val_bounds [where 'a = 16] word_val_bounds [where 'a = 32]
  by (elim fixed_kindsE) (auto simp: vals_def)

section \<open>The steps of a conversion, on values\<close>

lemma on8_all: "on8 (length bs) f bs = Inr (map f bs)"
  by (simp add: on8_def)

lemma on16_all: "even (length bs) \<Longrightarrow> on16 (length bs div 2) f bs = Inr (of16 (map f (to16 bs)))"
  by (auto simp: on16_def)

lemma on32_all: "4 dvd length bs \<Longrightarrow> on32 (length bs div 4) f bs = Inr (of32 (map f (to32 bs)))"
  by (auto simp: on32_def)

text \<open>Swapping the bytes of the samples exchanges the two byte orders.\<close>

lemma swap_endian_vals:
  assumes k: "k \<in> fixed_kinds" and e: "e \<in> endians" and al: "Bps k dvd length bs"
  shows "\<exists>b. swap_endian (length bs) (k OR e) bs = Inr b \<and> length b = length bs \<and>
    vals k SFMT_BE b = vals k SFMT_LE bs \<and> vals k SFMT_LE b = vals k SFMT_BE bs"
proof -
  have kk: "k \<in> kinds" using k fixed_kinds_kinds by blast
  note f = fmt_kind(1) [OF kk e] fmt_bits(1) [OF kk e]
  show ?thesis
    using k al f
    by (elim fixed_kindsE)
      (auto simp: swap_endian_def audio_conv_bswap_16_def audio_conv_bswap_32_def on16_all on32_all vals_def o_def
        dvd_def)
qed

lemma flip_val: "word_val (\<not> s) ((w :: 'a::len word) XOR push_bit (LENGTH('a) - 1) 1) = word_val s w"
proof -
  have "(w XOR push_bit (LENGTH('a) - 1) 1) XOR push_bit (LENGTH('a) - 1) 1 = w" by (simp add: xor.assoc)
  then have "sint w = uint (w XOR push_bit (LENGTH('a) - 1) 1) - 2 ^ (LENGTH('a) - 1)"
    using flip_top [of "w XOR push_bit (LENGTH('a) - 1) 1"] by simp
  with flip_top [of w] show ?thesis by (simp add: word_val_def)
qed

lemma flip_val':
  "word_val False ((a :: 8 word) XOR push_bit 7 1) = word_val True a" "word_val True (a XOR push_bit 7 1) = word_val False a"
  "word_val False ((b :: 16 word) XOR push_bit 15 1) = word_val True b" "word_val True (b XOR push_bit 15 1) = word_val False b"
  "word_val False ((c :: 32 word) XOR push_bit 31 1) = word_val True c" "word_val True (c XOR push_bit 31 1) = word_val False c"
  using flip_val [of True a] flip_val [of False a] flip_val [of True b] flip_val [of False b] flip_val [of True c] flip_val [of False c]
  by simp_all

text \<open>Changing the sign goes to the other kind of the same width and keeps the values.\<close>

lemma change_sign_vals:
  assumes k: "k \<in> fixed_kinds" "k' \<in> fixed_kinds" "k' \<noteq> k" "bits k = bits k'" and e: "e \<in> endians" and al: "Bps k dvd length bs"
  shows "\<exists>b. change_sign (length bs) (k OR e) bs = Inr (b, k' OR e) \<and> length b = length bs \<and> vals k' SFMT_LE b = vals k SFMT_LE bs"
proof -
  have kk: "k \<in> kinds" using k fixed_kinds_kinds by blast
  note f = fmt_kind(1) [OF kk e] fmt_bits(4,5,6) [OF kk e] set_fmt_fmt [OF kk e]
  show ?thesis
    using k(2-4) al f
    by (cases rule: fixed_kindsE [OF k(1)]; elim fixed_kindsE)
      (auto simp: change_sign_def change_sign_8_def change_sign_16_def change_sign_32_def on8_all on16_all on32_all
        vals_def o_def flip_val' simp del: push_bit_of_1)
qed

lemma sint_of_int_id:
  "- (2 ^ (LENGTH('a) - 1)) \<le> v \<Longrightarrow> v < 2 ^ (LENGTH('a) - 1) \<Longrightarrow> sint (word_of_int v :: 'a::len word) = v"
  using wrapS_id [of "LENGTH('a)" v] by (simp add: int_word_sint wrapS_def)

lemma uint_of_int_id: "0 \<le> v \<Longrightarrow> v < 2 ^ LENGTH('a) \<Longrightarrow> uint (word_of_int v :: 'a::len word) = v"
  by (simp add: uint_word_of_int)

lemma word_val_of_int:
  assumes "- (2 ^ (LENGTH('a) - 1)) \<le> v" and "v < 2 ^ (LENGTH('a) - 1)"
  shows "word_val True (word_of_int v :: 'a::len word) = v"
    and "word_val False (word_of_int (v + 2 ^ (LENGTH('a) - 1)) :: 'a::len word) = v"
proof -
  have m: "(2::int) ^ LENGTH('a) = 2 * 2 ^ (LENGTH('a) - 1)" by (metis One_nat_def Suc_pred len_gt_0 power_Suc)
  show "word_val True (word_of_int v :: 'a::len word) = v"
    "word_val False (word_of_int (v + 2 ^ (LENGTH('a) - 1)) :: 'a::len word) = v"
    using assms m sint_of_int_id [where 'a = 'a, of v] uint_of_int_id [where 'a = 'a, of "v + 2 ^ (LENGTH('a) - 1)"]
    by (simp_all add: word_val_def)
qed

text \<open>Cutting 32 bits down to 16 keeps the upper half of the value.\<close>

lemma s32_to_s16_val: "word_val True (word_of_int (sint (w :: 32 word) div 2 ^ 16) :: 16 word) = word_val True w div 2 ^ 16"
proof -
  have "- (2 ^ 31) \<le> sint w" "sint w < 2 ^ 31" using word_val_bounds [of True w] by (simp_all add: word_val_def)
  then have "- (2 ^ 15) \<le> sint w div 2 ^ 16" "sint w div 2 ^ 16 < 2 ^ 15"
    by (simp_all add: div_less_iff_less_mult)
  then show ?thesis using sint_of_int_id [where 'a = 16, of "sint w div 2 ^ 16"] by (simp add: word_val_def)
qed

lemma u32_to_u16_val: "word_val False (ucast (drop_bit 16 (w :: 32 word)) :: 16 word) = word_val False w div 2 ^ 16"
proof -
  have "uint w < 2 ^ 32" using uint_lt2p [of w] by simp
  then have "uint w div 2 ^ 16 < 2 ^ 16" by (simp add: div_less_iff_less_mult)
  then have "take_bit 16 (uint w div 2 ^ 16) = uint w div 2 ^ 16"
    by (intro take_bit_int_eq_self) (simp_all add: pos_imp_zdiv_nonneg_iff)
  then have u: "uint (ucast (drop_bit 16 w) :: 16 word) = uint w div 2 ^ 16"
    by (simp add: unsigned_ucast_eq drop_bit_eq_div uint_div)
  have "(uint w - 2 ^ 31) div 2 ^ 16 = uint w div 2 ^ 16 - 2 ^ 15"
    using div_mult_self1 [of "2 ^ 16" "uint w" "- (2 ^ 15)"] by (simp add: algebra_simps)
  with u show ?thesis by (simp add: word_val_def)
qed

text \<open>Samples of 8 and 16 bits are exact as floats, and the way back scales them exactly.\<close>

lemma fixed_to_float_vals:
  assumes k: "k \<in> fixed_kinds" "bits k \<le> 16" and e: "e \<in> endians"
  shows "fixed_to_float (k OR e) bs = Inr (map (\<lambda>v. of_int v / 2 ^ (bits k - 1)) (vals k SFMT_LE bs))"
proof -
  have kk: "k \<in> kinds" using k fixed_kinds_kinds by blast
  note f = fmt_kind(1) [OF kk e]
  have c: "f32 128 = 128" "f32 32768 = 32768"
    using f32_int [of 128] f32_int [of 32768] by simp_all
  have q: "f32 (of_int v / 128) = of_int v / 128" if "\<bar>v\<bar> < 2 ^ 24" for v
    using f32_frac [OF that, of 7] by simp
  have q': "f32 (of_int v / 32768) = of_int v / 32768" if "\<bar>v\<bar> < 2 ^ 24" for v
    using f32_frac [OF that, of 15] by simp
  have b: "\<bar>word_val s (w :: 8 word)\<bar> < 2 ^ 24" "\<bar>word_val s (w' :: 16 word)\<bar> < 2 ^ 24" for s w w'
    using word_val_bounds [of s w] word_val_bounds [of s w'] by (auto simp: abs_less_iff)
  have u: "uint (w :: 8 word) + INT8_MIN = word_val False w" "uint (w' :: 16 word) + INT16_MIN = word_val False w'"
    "sint w = word_val True w" "sint w' = word_val True w'" for w w'
    by (simp_all add: word_val_def limit_defs)
  have l: "f32 (of_int (INT8_MAX + 1)) = 128" "f32 (of_int (INT16_MAX + 1)) = 32768"
    using c by (simp_all add: limit_defs)
  have "u8_to_float x = map (\<lambda>w. of_int (word_val False w) / 128) x" "s8_to_float x = map (\<lambda>w. of_int (word_val True w) / 128) x"
    "u16_to_float y = map (\<lambda>w. of_int (word_val False w) / 32768) y" "s16_to_float y = map (\<lambda>w. of_int (word_val True w) / 32768) y" for x y
    unfolding u8_to_float_def s8_to_float_def u16_to_float_def s16_to_float_def u l q [OF b(1)] q' [OF b(2)] by simp_all
  then show ?thesis using k f by (elim fixed_kindsE) (simp_all add: fixed_to_float_def vals_def o_def)
qed

lemma from_float_exact:
  assumes v: "- (2 ^ (w - 1)) \<le> v" "v < 2 ^ (w - 1)" and w: "w = 8 \<or> w = 16"
  shows "from_float INT32_MAX INT32_MIN hi lo g (of_int v / 2 ^ (w - 1))
     = (if v = - (2 ^ (w - 1)) then lo else g (v * 2 ^ (32 - w)))"
proof -
  have b: "\<bar>v\<bar> < 2 ^ 24" using v w by auto
  have mn: "f32 (of_int INT32_MIN) = - 2147483648"
    using f32_scaled [of "-1" 31] by (simp add: INT32_MIN_def)
  have "of_int v / 2 ^ (w - 1) * 2147483648 = (of_int v * 2 ^ (32 - w) :: rat)"
    using w by auto
  then have f: "f32 (of_int v / 2 ^ (w - 1) * 2147483648) = of_int (v * 2 ^ (32 - w))"
    using f32_scaled [OF b, of "32 - w"] by simp
  have "v * 2 ^ (32 - w) < 2147483648" "v * 2 ^ (32 - w) \<le> - 2147483648 \<longleftrightarrow> v = - (2 ^ (w - 1))"
    using v w by auto
  then have "(of_int (v * 2 ^ (32 - w)) :: rat) < of_int 2147483648"
    "(of_int (v * 2 ^ (32 - w)) :: rat) \<le> of_int (- 2147483648) \<longleftrightarrow> v = - (2 ^ (w - 1))"
    by (simp_all only: of_int_less_iff of_int_le_iff)
  then show ?thesis
    unfolding from_float_def INT32_MAX_def using mn f f32_INT32_MAX by (simp add: Let_def del: of_int_mult)
qed

lemma scaled_bounds:
  fixes v :: int
  assumes v: "- (2 ^ (w - 1)) \<le> v" "v < 2 ^ (w - 1)" and w: "w = 8 \<or> w = 16" and w': "w' = 8 \<or> w' = 16"
  shows "v * 2 ^ (32 - w) div 2 ^ (32 - w') = v * 2 ^ w' div 2 ^ w"
    and "- (2 ^ (w' - 1)) \<le> v * 2 ^ w' div 2 ^ w" and "v * 2 ^ w' div 2 ^ w < 2 ^ (w' - 1)"
    and "v = - (2 ^ (w - 1)) \<Longrightarrow> v * 2 ^ w' div 2 ^ w = - (2 ^ (w' - 1))"
proof -
  have "v * 16777216 div 65536 = v * 256" "v * 65536 div 256 = v * 256" "v * 65536 div 16777216 = v div 256"
    "v * 256 div 65536 = v div 256"
    using nonzero_mult_div_cancel_right [of 65536 "v * 256"] nonzero_mult_div_cancel_right [of 256 "v * 256"]
      div_mult_mult2 [of 65536 v 256] div_mult_mult2 [of 256 v 256]
    by (simp_all add: mult.assoc)
  with v w w' show "v * 2 ^ (32 - w) div 2 ^ (32 - w') = v * 2 ^ w' div 2 ^ w"
    "- (2 ^ (w' - 1)) \<le> v * 2 ^ w' div 2 ^ w" "v * 2 ^ w' div 2 ^ w < 2 ^ (w' - 1)"
    "v = - (2 ^ (w - 1)) \<Longrightarrow> v * 2 ^ w' div 2 ^ w = - (2 ^ (w' - 1))"
    by auto
qed

lemma float_to_fixed_vals:
  assumes k: "k \<in> fixed_kinds" "bits k \<le> 16" and e: "e \<in> endians" and w: "w = 8 \<or> w = 16"
    and v: "\<And>v. v \<in> set vs \<Longrightarrow> - (2 ^ (w - 1)) \<le> v \<and> v < 2 ^ (w - 1)"
  shows "\<exists>b. float_to_fixed (k OR e) (map (\<lambda>v. of_int v / 2 ^ (w - 1)) vs) = Inr b \<and> length b = length vs * Bps k \<and>
    vals k SFMT_LE b = map (\<lambda>v. v * 2 ^ bits k div 2 ^ w) vs"
proof -
  have kk: "k \<in> kinds" using k fixed_kinds_kinds by blast
  note f = fmt_kind(1) [OF kk e]
  let ?x = "\<lambda>v. of_int v / 2 ^ (w - 1) :: rat"
  have g: "from_float INT32_MAX INT32_MIN hi (- (2 ^ (w' - 1))) (\<lambda>n. n div 2 ^ (32 - w')) (?x v) = v * 2 ^ w' div 2 ^ w"
    "from_float INT32_MAX INT32_MIN hi 0 (\<lambda>n. n div 2 ^ (32 - w') - - (2 ^ (w' - 1))) (?x v) = v * 2 ^ w' div 2 ^ w + 2 ^ (w' - 1)"
    if "v \<in> set vs" "w' = 8 \<or> w' = 16" for v w' hi
  proof -
    have b: "- (2 ^ (w - 1)) \<le> v" "v < 2 ^ (w - 1)" using v [OF that(1)] by auto
    show "from_float INT32_MAX INT32_MIN hi (- (2 ^ (w' - 1))) (\<lambda>n. n div 2 ^ (32 - w')) (?x v) = v * 2 ^ w' div 2 ^ w"
      "from_float INT32_MAX INT32_MIN hi 0 (\<lambda>n. n div 2 ^ (32 - w') - - (2 ^ (w' - 1))) (?x v) = v * 2 ^ w' div 2 ^ w + 2 ^ (w' - 1)"
      unfolding from_float_exact [OF b w] using scaled_bounds(1,4) [OF b w that(2)] by (simp_all split: if_splits)
  qed
  have b: "- (2 ^ (w' - 1)) \<le> v * 2 ^ w' div 2 ^ w" "v * 2 ^ w' div 2 ^ w < 2 ^ (w' - 1)"
    if "v \<in> set vs" "w' = 8 \<or> w' = 16" for v w'
    using scaled_bounds(2,3) [of w v w'] v [OF that(1)] w that(2) by auto
  have c: "float_to_s8 (map ?x vs) = map (\<lambda>v. word_of_int (v * 2 ^ 8 div 2 ^ w)) vs"
    "float_to_u8 (map ?x vs) = map (\<lambda>v. word_of_int (v * 2 ^ 8 div 2 ^ w + 2 ^ (8 - 1))) vs"
    "float_to_s16 (map ?x vs) = map (\<lambda>v. word_of_int (v * 2 ^ 16 div 2 ^ w)) vs"
    "float_to_u16 (map ?x vs) = map (\<lambda>v. word_of_int (v * 2 ^ 16 div 2 ^ w + 2 ^ (16 - 1))) vs"
    using g [of _ 8] g [of _ 16]
    by (simp_all add: float_to_s8_def float_to_u8_def float_to_s16_def float_to_u16_def INT8_MIN_def INT16_MIN_def o_def)
  have r: "word_val True (word_of_int (v * 2 ^ 8 div 2 ^ w) :: 8 word) = v * 2 ^ 8 div 2 ^ w"
    "word_val False (word_of_int (v * 2 ^ 8 div 2 ^ w + 2 ^ (8 - 1)) :: 8 word) = v * 2 ^ 8 div 2 ^ w"
    "word_val True (word_of_int (v * 2 ^ 16 div 2 ^ w) :: 16 word) = v * 2 ^ 16 div 2 ^ w"
    "word_val False (word_of_int (v * 2 ^ 16 div 2 ^ w + 2 ^ (16 - 1)) :: 16 word) = v * 2 ^ 16 div 2 ^ w"
    if "v \<in> set vs" for v
    using word_val_of_int [where 'a = 8, of "v * 2 ^ 8 div 2 ^ w"] word_val_of_int [where 'a = 16, of "v * 2 ^ 16 div 2 ^ w"]
      b [OF that, of 8] b [OF that, of 16] by simp_all
  show ?thesis
    using k f r c by (elim fixed_kindsE) (simp_all add: float_to_fixed_def vals_def o_def)
qed

text \<open>Doubling the samples of a mono channel doubles the values.\<close>

definition doubled :: "'a list \<Rightarrow> 'a list" where
  "doubled xs = concat (map (\<lambda>x. [x, x]) xs)"

lemma doubled_simps [simp]: "doubled [] = []" "doubled (x # xs) = x # x # doubled xs" "length (doubled xs) = 2 * length xs"
  by (simp_all add: doubled_def length_concat o_def sum_list_triv)

lemma mono_to_stereo_vals:
  "k \<in> fixed_kinds \<Longrightarrow> Bps k dvd length bs \<Longrightarrow>
     \<exists>b. mono_to_stereo (Bps k) bs = Inr b \<and> length b = 2 * length bs \<and> vals k e b = doubled (vals k e bs)"
proof (induction "length bs" arbitrary: bs rule: less_induct)
  case less
  have p: "0 < Bps k" using less.prems(1) by (elim fixed_kindsE) simp_all
  show ?case
  proof (cases "bs = []")
    case True
    then show ?thesis using less.prems(1) length_vals [of k e "[]"] by (simp add: mono_to_stereo.simps)
  next
    case False
    let ?n = "Bps k" and ?r = "drop (Bps k) bs" and ?h = "take (Bps k) bs"
    have l: "?n \<le> length bs" using less.prems(2) False by (simp add: dvd_imp_le)
    have "?n dvd length ?r" using less.prems(2) l by (simp add: dvd_diff_nat)
    moreover have "length ?r < length bs" using p l by simp
    ultimately obtain b where b: "mono_to_stereo ?n ?r = Inr b" "length b = 2 * length ?r" "vals k e b = doubled (vals k e ?r)"
      using less.hyps [of ?r] less.prems(1) by blast
    have m: "mono_to_stereo ?n bs = Inr (?h @ ?h @ b)"
      using False p l b(1) mono_to_stereo.simps [of ?n bs] by simp
    have h: "length ?h = ?n" using l by simp
    have "length (vals k e ?h) = 1" using length_vals [OF less.prems(1), of e ?h] h p by simp
    then obtain v where v: "vals k e ?h = [v]" by (auto simp: length_Suc_conv)
    have "vals k e bs = vals k e ?h @ vals k e ?r"
      using vals_append [OF less.prems(1), of ?h e ?r] h by simp
    moreover have "vals k e (?h @ ?h @ b) = vals k e ?h @ vals k e ?h @ vals k e b"
      using vals_append [OF less.prems(1), of ?h e] h by simp
    ultimately show ?thesis using m b v l by auto
  qed
qed

section \<open>The whole conversion, on values\<close>

text \<open>A format of fixed point samples: only single bytes may have no byte order.\<close>

definition valid_fmt :: "int \<Rightarrow> int \<Rightarrow> bool" where
  "valid_fmt k e \<longleftrightarrow> k \<in> fixed_kinds \<and> e \<in> {0, SFMT_LE, SFMT_BE} \<and> (e = 0 \<longrightarrow> bits k = 8)"

abbreviation held :: "byte list \<Rightarrow> int \<Rightarrow> conv_state" where
  "held b f \<equiv> \<lparr>curr_sound = Some (Fixed b), conv_len = length b, curr_sfmt = f\<rparr>"

lemma valid_fmtD:
  assumes "valid_fmt k e"
  shows "k \<in> fixed_kinds" "k \<in> kinds" "e \<in> endians" "k \<noteq> SFMT_FLOAT" "e = 0 \<Longrightarrow> bits k = 8" "e = 0 \<or> e = SFMT_LE \<or> e = SFMT_BE"
  using assms fixed_kinds_kinds by (auto simp: valid_fmt_def endians_def)

lemma vals_8: "bits k = 8 \<Longrightarrow> vals k e b = vals k e' b"
  by (simp add: vals_def)

lemma vals_not_BE: "e \<noteq> SFMT_BE \<Longrightarrow> vals k e b = vals k SFMT_LE b"
  by (simp add: vals_def)

lemma bits_kind: "k \<in> fixed_kinds \<Longrightarrow> k \<in> {SFMT_S8, SFMT_U8} \<longleftrightarrow> bits k = 8"
  "k \<in> fixed_kinds \<Longrightarrow> k \<in> {SFMT_S16, SFMT_U16} \<longleftrightarrow> bits k = 16"
  "k \<in> fixed_kinds \<Longrightarrow> k \<in> {SFMT_S32, SFMT_U32} \<longleftrightarrow> bits k = 32"
  by (elim fixed_kindsE; simp)+

text \<open>A swap of the bytes of a buffer whose samples have more than one; nothing for single bytes.\<close>

lemma conv_swap_held:
  assumes k: "k \<in> fixed_kinds" and e: "e \<in> endians" and al: "Bps k dvd length b"
  shows "\<exists>b'. conv_swap (held b (k OR e)) = Inr (held b' (k OR e)) \<and> length b' = length b \<and>
    vals k SFMT_BE b' = vals k SFMT_LE b \<and> vals k SFMT_LE b' = vals k SFMT_BE b"
proof (cases "bits k = 8")
  case True
  then have "k \<in> {SFMT_S8, SFMT_U8}" using bits_kind k by blast
  then show ?thesis
    using fmt_bits(1) [of k e] k e fixed_kinds_kinds [OF k] vals_8 [OF True] by (auto simp: conv_swap_def)
next
  case False
  obtain b' where b': "swap_endian (length b) (k OR e) b = Inr b'" "length b' = length b"
    "vals k SFMT_BE b' = vals k SFMT_LE b" "vals k SFMT_LE b' = vals k SFMT_BE b"
    using swap_endian_vals [OF k e al] by blast
  have "k \<notin> {SFMT_S8, SFMT_U8, SFMT_FLOAT}" using False bits_kind(1) [OF k] fixed_kinds_kinds [OF k] by auto
  then show ?thesis
    using fmt_bits(1) [of k e] e fixed_kinds_kinds [OF k] b' by (simp add: conv_swap_def fixed_sound_def)
qed

lemma conv_native_held:
  assumes v: "valid_fmt k e" and al: "Bps k dvd length b"
  shows "\<exists>b'. conv_native (held b (k OR e)) = Inr (held b' (k OR SFMT_LE)) \<and> length b' = length b \<and>
    vals k SFMT_LE b' = vals k e b"
proof (cases "e = SFMT_LE")
  case True
  then show ?thesis using fmt_kind(3) [of k e] valid_fmtD [OF v] by (simp add: conv_native_def)
next
  case False
  note d = valid_fmtD [OF v]
  obtain b' where b': "conv_swap (held b (k OR e)) = Inr (held b' (k OR e))" "length b' = length b"
    "vals k SFMT_LE b' = vals k SFMT_BE b"
    using conv_swap_held [OF d(1,3) al] by blast
  have "vals k SFMT_BE b = vals k e b" using False d(5,6) vals_8 by blast
  moreover have "sfmt_set_endian (k OR e) SFMT_NE = k OR SFMT_LE" using set_endian_fmt [OF d(2,3)] by (simp add: SFMT_NE_def)
  moreover have "(k OR e) AND SFMT_NE = 0" using fmt_kind(3) [OF d(2,3)] False d(6) by blast
  ultimately show ?thesis using b' by (simp add: conv_native_def)
qed

lemma conv_endian_held:
  assumes v: "valid_fmt k e" and al: "Bps k dvd length b" and f: "e' = SFMT_LE \<or> e' = e OR SFMT_LE"
    and to: "sp_fmt (c_to conv) = k OR e"
  shows "\<exists>b'. conv_endian conv (held b (k OR e')) = Inr (held b' (k OR e)) \<and> length b' = length b \<and>
    vals k e b' = vals k SFMT_LE b"
proof -
  note d = valid_fmtD [OF v]
  have e': "e' \<in> endians" using f d(3) endians_or [OF d(3)] by (auto simp: endians_def)
  have t: "sp_fmt (c_to conv) AND SFMT_MASK_ENDIANNESS = e" using to fmt_kind(2) [OF d(2,3)] by simp
  have c: "(k OR e') AND SFMT_MASK_ENDIANNESS = e'" using fmt_kind(2) [OF d(2) e'] .
  show ?thesis
  proof (cases "e' = e")
    case True
    then have "e \<noteq> SFMT_BE" using f by (auto simp: sfmt_defs)
    then show ?thesis using True t c vals_not_BE [of e k b] by (simp add: conv_endian_def)
  next
    case False
    obtain b' where b': "conv_swap (held b (k OR e')) = Inr (held b' (k OR e'))" "length b' = length b"
      "vals k SFMT_BE b' = vals k SFMT_LE b"
      using conv_swap_held [OF d(1) e' al] by blast
    have "e \<noteq> SFMT_LE" using False f by (auto simp: sfmt_defs)
    then have "vals k SFMT_BE b' = vals k e b'" using d(5,6) vals_8 by blast
    moreover have "sfmt_set_endian (k OR e') e = k OR e" using set_endian_fmt [OF d(2) e'] .
    ultimately show ?thesis using b' False t c by (simp add: conv_endian_def)
  qed
qed

lemma conv_stereo_held:
  assumes v: "valid_fmt k e" and al: "Bps k dvd length b"
  shows "\<exists>b'. conv_stereo conv (held b (k OR e)) = Inr (held b' (k OR e)) \<and>
    vals k e b' = (if sp_channels (c_from conv) = 1 \<and> sp_channels (c_to conv) = 2 then doubled (vals k e b) else vals k e b)"
proof -
  note d = valid_fmtD [OF v]
  have n: "sfmt_Bps (k OR e) = Inr (Bps k)"
    using Bps_fmt [OF d(2,3)] bits_kind [OF d(1)] d(1) by (elim fixed_kindsE) simp_all
  obtain b' where "mono_to_stereo (Bps k) b = Inr b'" "length b' = 2 * length b" "vals k e b' = doubled (vals k e b)"
    using mono_to_stereo_vals [OF d(1) al] by blast
  then show ?thesis using n by (simp add: conv_stereo_def mult.commute)
qed

lemma same_bps_bits:
  assumes "k \<in> fixed_kinds" "e \<in> endians" "k' \<in> fixed_kinds" "e' \<in> endians"
  shows "sfmt_same_bps (k OR e) (k' OR e') \<longleftrightarrow> bits k = bits k'"
  using same_bps_fmt [of k e k' e'] assms fixed_kinds_kinds [OF assms(1)] fixed_kinds_kinds [OF assms(3)]
  by (elim fixed_kindsE) simp_all

lemma LE_endians: "SFMT_LE \<in> endians" by (simp add: endians_def)

lemma conv_fast_other:
  assumes k: "k \<in> fixed_kinds" "valid_fmt k' e'" and to: "sp_fmt (c_to conv) = k' OR e'" and n: "\<not> (bits k = 32 \<and> bits k' = 16)"
  shows "conv_fast conv (held b (k OR SFMT_LE)) = Inr (held b (k OR SFMT_LE))"
  using fmt_bits(3) [of k SFMT_LE] fmt_bits(2) [of k' e'] fixed_kinds_kinds [OF k(1)] valid_fmtD [OF k(2)] LE_endians
    bits_kind(3) [OF k(1)] bits_kind(2) [of k'] n to
  by (auto simp: conv_fast_def)

lemma conv_fast_cut:
  assumes k: "k \<in> fixed_kinds" "valid_fmt k' e'" and to: "sp_fmt (c_to conv) = k' OR e'" and r: "sp_rate (c_from conv) = sp_rate (c_to conv)"
    and w: "bits k = 32" "bits k' = 16" "signed_kind k = signed_kind k'" and al: "Bps k dvd length b"
  shows "\<exists>b'. conv_fast conv (held b (k OR SFMT_LE)) = Inr (held b' (k' OR SFMT_LE)) \<and> Bps k' dvd length b' \<and>
    vals k' SFMT_LE b' = map (\<lambda>v. v div 2 ^ 16) (vals k SFMT_LE b)"
proof -
  note d = valid_fmtD [OF k(2)]
  have kk: "k \<in> kinds" using fixed_kinds_kinds k by blast
  obtain n where n: "length b = 4 * n" using al w(1) by (auto elim: dvdE)
  have k32: "k = (if signed_kind k then SFMT_S32 else SFMT_U32)" "k' = (if signed_kind k then SFMT_S16 else SFMT_U16)"
    using k(1) d(1) w by (elim fixed_kindsE; simp)+
  have c: "(k OR SFMT_LE) AND (SFMT_S32 OR SFMT_U32) \<noteq> 0" "(k' OR e') AND (SFMT_S16 OR SFMT_U16) \<noteq> 0"
    using fmt_bits(3) [OF kk LE_endians] fmt_bits(2) [OF d(2,3)] k32 by (auto split: if_splits)
  note f = fmt_kind(1) [OF kk LE_endians] set_fmt_fmt [OF kk LE_endians]
  have "conv_fast conv (held b (k OR SFMT_LE)) =
      Inr (held (of16 (if signed_kind k then s32_to_s16 (to32 b) else u32_to_u16 (to32 b))) (k' OR SFMT_LE))"
    using c f to r n k32 by (simp add: conv_fast_def fixed_sound_def s32_to_s16_def u32_to_u16_def split: if_splits)
  moreover have "vals k' SFMT_LE (of16 (if signed_kind k then s32_to_s16 (to32 b) else u32_to_u16 (to32 b))) = map (\<lambda>v. v div 2 ^ 16) (vals k SFMT_LE b)"
    using w s32_to_s16_val u32_to_u16_val by (auto simp: vals_def s32_to_s16_def u32_to_u16_def)
  ultimately show ?thesis using w(2) by simp
qed

lemma conv_to_float_same:
  assumes k: "k \<in> fixed_kinds" "valid_fmt k' e'" and to: "sp_fmt (c_to conv) = k' OR e'" and r: "sp_rate (c_from conv) = sp_rate (c_to conv)"
    and w: "bits k = bits k'"
  shows "conv_to_float conv (held b (k OR SFMT_LE)) = Inr (held b (k OR SFMT_LE))"
  using same_bps_bits [of k' e' k SFMT_LE] valid_fmtD [OF k(2)] LE_endians k(1) fmt_kind(1) [of k' e'] w r to
  by (simp add: conv_to_float_def)

definition float_of :: "nat \<Rightarrow> int \<Rightarrow> flt" where
  "float_of w v = of_int v / 2 ^ (w - 1)"

abbreviation held_floats :: "flt list \<Rightarrow> int \<Rightarrow> conv_state" where
  "held_floats fs f \<equiv> \<lparr>curr_sound = Some (Floats fs), conv_len = 4 * length fs, curr_sfmt = f\<rparr>"

lemma conv_to_float_wide:
  assumes k: "k \<in> fixed_kinds" "valid_fmt k' e'" and to: "sp_fmt (c_to conv) = k' OR e'"
    and w: "bits k \<noteq> bits k'" "bits k \<le> 16"
  shows "conv_to_float conv (held b (k OR SFMT_LE)) = Inr (held_floats (map (float_of (bits k)) (vals k SFMT_LE b)) (SFMT_FLOAT OR SFMT_LE))"
proof -
  note d = valid_fmtD [OF k(2)]
  have kk: "k \<in> kinds" "k \<noteq> SFMT_FLOAT" using fixed_kinds_kinds k by blast+
  have "\<not> sfmt_same_bps (k' OR e') (k OR SFMT_LE)" using same_bps_bits [OF d(1,3) k(1) LE_endians] w(1) by simp
  then show ?thesis
    using fmt_kind(1) [OF kk(1) LE_endians] kk(2) to fixed_to_float_vals [OF k(1) w(2) LE_endians, of b] set_fmt_fmt [OF kk(1) LE_endians, of SFMT_FLOAT]
    by (simp add: conv_to_float_def fixed_sound_def float_of_def [abs_def])
qed

text \<open>The last step with the true size of the sound: to the target kind and its values.\<close>

lemma conv_format_held:
  assumes k: "k \<in> fixed_kinds" "valid_fmt k' e'" and to: "sp_fmt (c_to conv) = k' OR e'" and w: "bits k = bits k'"
    and al: "Bps k dvd length b" and sz: "k = k' \<or> sz = length b"
  shows "\<exists>b'. conv_format sz conv (held b (k OR SFMT_LE)) = Inr (held b' (k' OR SFMT_LE)) \<and> Bps k' dvd length b' \<and>
    vals k' SFMT_LE b' = vals k SFMT_LE b"
proof (cases "k = k'")
  case True
  then show ?thesis
    using fmt_kind(1) [of k' SFMT_LE] fmt_kind(1) [of k' e'] valid_fmtD [OF k(2)] LE_endians to al by (simp add: conv_format_def Let_def)
next
  case False
  note d = valid_fmtD [OF k(2)]
  have kk: "k \<in> kinds" using fixed_kinds_kinds k by blast
  obtain b' where b': "change_sign (length b) (k OR SFMT_LE) b = Inr (b', k' OR SFMT_LE)" "length b' = length b"
    "vals k' SFMT_LE b' = vals k SFMT_LE b"
    using change_sign_vals [OF k(1) d(1) _ w LE_endians al] False by blast
  then show ?thesis
    using same_bps_bits [OF k(1) LE_endians d(1,3)] fmt_kind(1) [OF kk LE_endians] fmt_kind(1) [OF d(2,3)] False w to al sz
    by (simp add: conv_format_def fixed_sound_def Let_def)
qed

lemma conv_format_floats:
  assumes k: "valid_fmt k' e'" "bits k' \<le> 16" and to: "sp_fmt (c_to conv) = k' OR e'" and w: "w = 8 \<or> w = 16"
    and v: "\<And>v. v \<in> set vs \<Longrightarrow> - (2 ^ (w - 1)) \<le> v \<and> v < 2 ^ (w - 1)"
  shows "\<exists>b'. conv_format sz conv (held_floats (map (float_of w) vs) (SFMT_FLOAT OR SFMT_LE)) = Inr (held b' (k' OR (e' OR SFMT_LE))) \<and>
    Bps k' dvd length b' \<and> vals k' SFMT_LE b' = map (\<lambda>v. v * 2 ^ bits k' div 2 ^ w) vs"
proof -
  note d = valid_fmtD [OF k(1)]
  have fk: "SFMT_FLOAT \<in> kinds" by (simp add: kinds_def)
  obtain b' where b': "float_to_fixed (k' OR e') (map (float_of w) vs) = Inr b'" "length b' = length vs * Bps k'"
    "vals k' SFMT_LE b' = map (\<lambda>v. v * 2 ^ bits k' div 2 ^ w) vs"
    using float_to_fixed_vals [OF d(1) k(2) d(3) w v] unfolding float_of_def [abs_def] by blast
  have "\<not> sfmt_same_bps (SFMT_FLOAT OR SFMT_LE) (k' OR e')"
    using same_bps_fmt [OF fk LE_endians d(2,3)] d(4) by simp
  moreover have "(SFMT_FLOAT OR SFMT_LE) AND SFMT_FLOAT \<noteq> 0" by (simp add: sfmt_defs)
  moreover have "sfmt_set_fmt (SFMT_FLOAT OR SFMT_LE) (k' OR e') = k' OR (e' OR SFMT_LE)"
    using set_fmt_fmt [OF fk LE_endians] by (simp add: or.assoc)
  ultimately show ?thesis
    using fmt_kind(1) [OF fk LE_endians] fmt_kind(1) [OF d(2,3)] d(4) to b' by (simp add: conv_format_def Let_def)
qed

text \<open>The steps between the byte orders.\<close>

definition conv_middle :: "'s src \<Rightarrow> nat \<Rightarrow> 's audio_conversion \<Rightarrow> conv_state \<Rightarrow> (conv_state \<times> 's audio_conversion) result" where
  "conv_middle src sz conv s =
     bindR (conv_fast conv s) (\<lambda>s. bindR (conv_to_float conv s) (\<lambda>s. bindR (conv_resample src conv s) (\<lambda>(s, conv).
       bindR (conv_format sz conv s) (\<lambda>s. Inr (s, conv)))))"

lemma audio_conv_middle:
  "audio_conv src conv buf =
     bindR (conv_native \<lparr>curr_sound = Some buf, conv_len = bytes_of buf, curr_sfmt = sp_fmt (c_from conv)\<rparr>) (\<lambda>s.
     bindR (conv_middle src (bytes_of buf) conv s) (\<lambda>(s, conv).
     bindR (conv_endian conv s) (\<lambda>s. bindR (conv_stereo conv s) (\<lambda>s. Inr (curr_sound s, conv_len s, conv)))))"
  unfolding audio_conv_def conv_middle_def bindR_assoc by (simp add: bindR_assoc case_prod_unfold)

text \<open>The pairs of formats between which values are scaled exactly.\<close>

definition exact_pair :: "int \<Rightarrow> int \<Rightarrow> bool" where
  "exact_pair k k' \<longleftrightarrow> bits k = bits k' \<or> bits k \<le> 16 \<and> bits k' \<le> 16 \<or>
     bits k = 32 \<and> bits k' = 16 \<and> signed_kind k = signed_kind k'"

lemma bits_cases: "k \<in> fixed_kinds \<Longrightarrow> bits k = 8 \<or> bits k = 16 \<or> bits k = 32"
  by (elim fixed_kindsE) simp_all

lemma conv_middle_held:
  assumes k: "k \<in> fixed_kinds" "valid_fmt k' e'" "exact_pair k k'" and to: "sp_fmt (c_to conv) = k' OR e'"
    and r: "sp_rate (c_from conv) = sp_rate (c_to conv)" and al: "Bps k dvd length b"
  shows "\<exists>b' f. conv_middle src (length b) conv (held b (k OR SFMT_LE)) = Inr (held b' (k' OR f), conv) \<and>
    (f = SFMT_LE \<or> f = e' OR SFMT_LE) \<and> Bps k' dvd length b' \<and>
    vals k' SFMT_LE b' = map (\<lambda>v. v * 2 ^ bits k' div 2 ^ bits k) (vals k SFMT_LE b)"
proof -
  have res: "conv_resample src conv s = Inr (s, conv)" for s using r by (simp add: conv_resample_def)
  have k': "k' \<in> fixed_kinds" using valid_fmtD(1) [OF k(2)] .
  consider (same) "bits k = bits k'" | (float) "bits k \<noteq> bits k'" "bits k \<le> 16" "bits k' \<le> 16"
    | (cut) "bits k = 32" "bits k' = 16" "signed_kind k = signed_kind k'"
    using k(3) by (auto simp: exact_pair_def)
  then show ?thesis
  proof cases
    case same
    have nf: "\<not> (bits k = 32 \<and> bits k' = 16)" using same by simp
    obtain b' where "conv_format (length b) conv (held b (k OR SFMT_LE)) = Inr (held b' (k' OR SFMT_LE))" "Bps k' dvd length b'"
      "vals k' SFMT_LE b' = vals k SFMT_LE b"
      using conv_format_held [OF k(1,2) to same al] by blast
    then show ?thesis
      using conv_fast_other [OF k(1,2) to nf, of b] conv_to_float_same [OF k(1,2) to r same, of b] res same
      by (auto simp: conv_middle_def)
  next
    case float
    have nf: "\<not> (bits k = 32 \<and> bits k' = 16)" using float by simp
    have w: "bits k = 8 \<or> bits k = 16" using float(2) bits_cases [OF k(1)] by auto
    obtain b' where "conv_format (length b) conv (held_floats (map (float_of (bits k)) (vals k SFMT_LE b)) (SFMT_FLOAT OR SFMT_LE))
        = Inr (held b' (k' OR (e' OR SFMT_LE)))" "Bps k' dvd length b'"
      "vals k' SFMT_LE b' = map (\<lambda>v. v * 2 ^ bits k' div 2 ^ bits k) (vals k SFMT_LE b)"
      using conv_format_floats [OF k(2) float(3) to w, of "vals k SFMT_LE b" "length b"] vals_bounds [OF k(1), of _ SFMT_LE b] by blast
    then show ?thesis
      using conv_fast_other [OF k(1,2) to nf, of b] conv_to_float_wide [OF k(1,2) to float(1,2), of b] res
      by (auto simp: conv_middle_def)
  next
    case cut
    obtain b1 where b1: "conv_fast conv (held b (k OR SFMT_LE)) = Inr (held b1 (k' OR SFMT_LE))" "Bps k' dvd length b1"
      "vals k' SFMT_LE b1 = map (\<lambda>v. v div 2 ^ 16) (vals k SFMT_LE b)"
      using conv_fast_cut [OF k(1,2) to r cut al] by blast
    have "v * 2 ^ 16 div 2 ^ 32 = v div 2 ^ 16" for v :: int using div_mult_mult2 [of "2 ^ 16" v "2 ^ 16"] by simp
    moreover obtain b' where "conv_format (length b) conv (held b1 (k' OR SFMT_LE)) = Inr (held b' (k' OR SFMT_LE))" "Bps k' dvd length b'"
      "vals k' SFMT_LE b' = vals k' SFMT_LE b1"
      using conv_format_held [OF k' k(2) to _ b1(2)] by blast
    ultimately show ?thesis
      using b1 conv_to_float_same [OF k' k(2) to r, of b1] res cut by (auto simp: conv_middle_def)
  qed
qed

section \<open>Correctness\<close>


definition s16_be_mono :: sound_params where
  "s16_be_mono = \<lparr>sp_channels = 1, sp_rate = 44100, sp_fmt = SFMT_S16 OR SFMT_BE\<rparr>"

definition u8_stereo :: sound_params where
  "u8_stereo = \<lparr>sp_channels = 2, sp_rate = 44100, sp_fmt = SFMT_U8 OR 0\<rparr>"

definition to_u8 :: "unit audio_conversion" where
  "to_u8 = \<lparr>c_from = s16_be_mono, c_to = u8_stereo, src_state = None, resample_buf = None, resample_buf_nsamples = 0\<rparr>"


text \<open>
  From 32 to 16 bits of the other signedness the conversion of any sound leaves its buffer:
  the sign is changed for as many bytes as the sound had before it was cut to half the size.
\<close>

lemma audio_conv_sign_overrun:
  assumes v: "valid_fmt k e" "valid_fmt k' e'" and w: "bits k = 32" "bits k' = 16" "signed_kind k \<noteq> signed_kind k'"
    and fmt: "sp_fmt (c_from conv) = k OR e" "sp_fmt (c_to conv) = k' OR e'"
    and r: "sp_rate (c_from conv) = sp_rate (c_to conv)" and al: "4 dvd length buf" and ne: "buf \<noteq> []"
  shows "audio_conv src conv (Fixed buf) = Inl Undefined"
proof -
  define k1 where "k1 = (if signed_kind k then SFMT_S16 else SFMT_U16)"
  note d = valid_fmtD [OF v(2)]
  have k1: "k1 \<in> fixed_kinds" "k1 \<in> kinds" "bits k1 = 16" "signed_kind k = signed_kind k1" "k1 \<noteq> k'" "valid_fmt k1 SFMT_LE"
    using w by (auto simp: k1_def fixed_kinds_def kinds_def valid_fmt_def)
  have alk: "Bps k dvd length buf" using al w(1) by simp
  obtain b1 where b1: "conv_native (held buf (k OR e)) = Inr (held b1 (k OR SFMT_LE))" "length b1 = length buf"
    using conv_native_held [OF v(1) alk] by blast
  obtain n where n: "length buf = 4 * n" "0 < n"
    using al ne by (metis dvdE gr0I length_0_conv mult_0_right)
  define conv' where "conv' = conv\<lparr>c_to := (c_to conv)\<lparr>sp_fmt := k1 OR SFMT_LE\<rparr>\<rparr>"
  have "conv_fast conv s = conv_fast conv' s" for s
    using fmt_bits(2) [OF d(2,3)] fmt_bits(2) [OF k1(2) LE_endians] bits_kind(2) [OF d(1)] bits_kind(2) [OF k1(1)] w(2) k1(3) fmt(2)
    by (simp add: conv_fast_def conv'_def)
  moreover obtain b2 where b2: "conv_fast conv' (held b1 (k OR SFMT_LE)) = Inr (held b2 (k1 OR SFMT_LE))"
    "vals k1 SFMT_LE b2 = map (\<lambda>v. v div 2 ^ 16) (vals k SFMT_LE b1)" "Bps k1 dvd length b2"
    using conv_fast_cut [OF valid_fmtD(1) [OF v(1)] k1(6), of conv' b1] w(1) k1(3,4) alk b1(2) r by (auto simp: conv'_def)
  ultimately have f: "conv_fast conv (held b1 (k OR SFMT_LE)) = Inr (held b2 (k1 OR SFMT_LE))" by simp
  have "length b2 div 2 = n"
    using arg_cong [OF b2(2), of length] length_vals [OF k1(1), of SFMT_LE b2] length_vals [OF valid_fmtD(1) [OF v(1)], of SFMT_LE b1]
      n b1(2) w(1) k1(3) by simp
  then have "\<not> 2 * (length buf div 2) \<le> length b2" using n b2(3) k1(3) by auto
  then have "change_sign (length buf) (k1 OR SFMT_LE) b2 = Inl Undefined"
    using fmt_kind(1) [OF k1(2) LE_endians] bits_kind(2) [OF k1(1)] k1(3) by (auto simp: change_sign_def change_sign_16_def on16_def)
  then have "conv_format (length buf) conv (held b2 (k1 OR SFMT_LE)) = Inl Undefined"
    using same_bps_bits [OF k1(1) LE_endians d(1,3)] fmt_kind(1) [OF k1(2) LE_endians] fmt_kind(1) [OF d(2,3)] k1(3,5) w(2) fmt(2)
    by (simp add: conv_format_def fixed_sound_def Let_def)
  moreover have "conv_to_float conv (held b2 (k1 OR SFMT_LE)) = Inr (held b2 (k1 OR SFMT_LE))"
    using conv_to_float_same [OF k1(1) v(2) fmt(2) r] k1(3) w(2) by simp
  ultimately show ?thesis
    unfolding audio_conv_middle conv_middle_def using b1 f fmt(1) r by (simp add: conv_resample_def)
qed

text \<open>
  A mono sound with an odd number of samples is resampled as if it had the two channels of the
  target; its last sample is written behind the buffer for the resampler.
\<close>

lemma resample_mono_overrun:
  assumes "src_state conv \<noteq> None" and "resample_buf_nsamples conv = 0" and "odd (length fs)"
  shows "resample_sound src conv fs 2 = Inl Undefined"
proof -
  have "\<not> length fs \<le> length fs div 2 * 2" using assms(3) by presburger
  with assms(1,2) show ?thesis by (auto simp: resample_sound_def Let_def)
qed

end
