(* ===== verification/C_Text.thy ===== *)
theory C_Text
  imports C_String
begin

text \<open>
  Texts with numbers and lines, as the sources read and write them: the digits of
  \<^verbatim>\<open>strtol\<close> and \<^verbatim>\<open>sscanf\<close> in several bases, decimal numbers of \<^verbatim>\<open>fprintf\<close>, and
  \<^verbatim>\<open>read_line\<close> of \<^verbatim>\<open>src/src/moc-2.5.0/files.c\<close>.
\<close>

section \<open>Digits\<close>

definition hex_val :: "char \<Rightarrow> int option" where
  "hex_val c =
     (if isdigit c then Some (digit_val c)
      else if CHR ''a'' \<le> tolower c \<and> tolower c \<le> CHR ''f'' then Some (int (of_char (tolower c)) - 87) else None)"

definition base_digit :: "int \<Rightarrow> char \<Rightarrow> bool" where
  "base_digit b c = (case hex_val c of None \<Rightarrow> False | Some d \<Rightarrow> d < b)"

section \<open>Lines\<close>

text \<open>\<^verbatim>\<open>read_line\<close> of \<^verbatim>\<open>files.c\<close> strips a final newline and then a carriage return.\<close>

definition strip_end :: "char \<Rightarrow> string \<Rightarrow> string" where
  "strip_end c s = (if s \<noteq> [] \<and> last s = c then butlast s else s)"

definition read_lines :: "string \<Rightarrow> string list" where
  "read_lines s = map (\<lambda>l. strip_end CR (strip_end LF l)) (getlines s)"

lemma read_lines_step: "LF \<notin> set l \<Longrightarrow> CR \<notin> set l \<Longrightarrow> read_lines (l @ LF # s) = l # read_lines s"
  by (auto simp: read_lines_def getlines_cons strip_end_def dest: last_in_set)

section \<open>Decimal numbers\<close>

fun show_nat :: "nat \<Rightarrow> string" where
  "show_nat n = (if n < 10 then [char_of (48 + n)] else show_nat (n div 10) @ [char_of (48 + n mod 10)])"

declare show_nat.simps [simp del]

definition show_int :: "int \<Rightarrow> string" where
  "show_int i = (if i < 0 then CHR ''-'' # show_nat (nat (- i)) else show_nat (nat i))"

lemma digit_char_code:
  "list_all (\<lambda>n. isdigit (char_of (48 + n)) \<and> digit_val (char_of (48 + n)) = int n) [0, 1, 2, 3, 4, 5, 6, 7, 8, 9]"
  by code_simp

lemma digit_char: "n < 10 \<Longrightarrow> isdigit (char_of (48 + n)) \<and> digit_val (char_of (48 + n)) = int n"
proof -
  assume "n < 10"
  then have "n \<in> set [0, 1, 2, 3, 4, 5, 6, 7, 8, 9]" by auto
  then show ?thesis using digit_char_code unfolding list_all_iff by blast
qed

lemma show_nat_digits: "\<forall>c\<in>set (show_nat n). isdigit c"
proof (induction n rule: less_induct)
  case (less n)
  show ?case
  proof (cases "n < 10")
    case True
    then show ?thesis using digit_char [of n] by (subst show_nat.simps) simp
  next
    case False
    then have "\<forall>c\<in>set (show_nat (n div 10)). isdigit c" using less [of "n div 10"] by auto
    then show ?thesis using False digit_char [of "n mod 10"] by (subst show_nat.simps) auto
  qed
qed

lemma show_nat_val: "foldl (\<lambda>a c. a * 10 + digit_val c) 0 (show_nat n) = int n"
proof (induction n rule: less_induct)
  case (less n)
  show ?case
  proof (cases "n < 10")
    case True
    then show ?thesis using digit_char [of n] by (subst show_nat.simps) simp
  next
    case False
    then show ?thesis using less [of "n div 10"] digit_char [of "n mod 10"] by (subst show_nat.simps) (simp add: zdiv_int zmod_int)
  qed
qed

lemma show_nat_hd: "show_nat n \<noteq> [] \<and> (hd (show_nat n) = CHR ''0'' \<longrightarrow> n = 0)"
proof (induction n rule: less_induct)
  case (less n)
  show ?case
  proof (cases "n < 10")
    case True
    have "digit_val (CHR ''0'') = 0" by (simp add: digit_val_def)
    then show ?thesis using True digit_char [of n] by (subst (1 2) show_nat.simps) auto
  next
    case False
    then have "n div 10 < n" "n div 10 \<noteq> 0" by auto
    then show ?thesis using less [of "n div 10"] False by (subst (1 2) show_nat.simps) auto
  qed
qed

lemma hex_digit: "isdigit c \<Longrightarrow> hex_val c = Some (digit_val c) \<and> base_digit 10 c"
  using digit_val_bounds [of c] by (simp add: hex_val_def base_digit_def)

lemma dec_val_show: "dec_val (show_nat n) = int n"
  using show_nat_val [of n] by (simp add: dec_val_def mult.commute)

lemma strtol_show:
  assumes "LONG_MIN \<le> n" "n \<le> LONG_MAX" and r: "rest = [] \<or> \<not> isdigit (hd rest)"
  shows "strtol (show_int n @ rest) = (n, rest)"
proof (cases "n < 0")
  case False
  then show ?thesis
    using strtol_digits [OF _ show_nat_digits r, of "nat n"] show_nat_hd [of "nat n"] assms(2) dec_val_show [of "nat n"]
    by (simp add: show_int_def)
next
  case True
  define ds where "ds = show_nat (nat (- n))"
  have d: "\<forall>c\<in>set ds. isdigit c" "ds \<noteq> []" "dec_val ds = - n"
    using show_nat_digits show_nat_hd dec_val_show [of "nat (- n)"] True by (auto simp: ds_def)
  have t: "takeWhile isdigit (ds @ rest) = ds" "dropWhile isdigit (ds @ rest) = rest"
    using d(1) r by (cases rest; auto)+
  have "dropWhile isspace (CHR ''-'' # ds @ rest) = CHR ''-'' # ds @ rest" by (simp add: isspace_def SP_def)
  then show ?thesis
    using True assms(1,2) t d(2,3) by (simp add: show_int_def ds_def [symmetric] strtol_def Let_def)
qed

lemma show_int_chars: "c \<in> set (show_int n) \<Longrightarrow> isdigit c \<or> c = CHR ''-''"
  using show_nat_digits by (auto simp: show_int_def split: if_splits)

lemma show_int_neq_Nil [simp]: "show_int n \<noteq> []"
  using show_nat_hd by (simp add: show_int_def)

lemma show_nat_length: "n < 10 ^ k \<Longrightarrow> 0 < k \<Longrightarrow> length (show_nat n) \<le> k"
proof (induction k arbitrary: n)
  case (Suc k)
  show ?case
  proof (cases "n < 10")
    case True
    then show ?thesis by (subst show_nat.simps) simp
  next
    case False
    then have "0 < k" using Suc.prems(1) by (cases k) auto
    moreover have "n div 10 < 10 ^ k" using Suc.prems(1) by (simp add: less_mult_imp_div_less mult.commute)
    ultimately show ?thesis using Suc.IH [of "n div 10"] False by (subst show_nat.simps) simp
  qed
qed simp

text \<open>
  \<^verbatim>\<open>strtol(s, &end, 0)\<close>: the base is 16 after \<open>0x\<close> with a digit behind it, 8 after another \<open>0\<close>,
  and 10 otherwise.
\<close>

definition strtol_any :: "string \<Rightarrow> int \<times> string" where
  "strtol_any s =
     (let s1 = dropWhile isspace s;
          neg = (take 1 s1 = ''-'');
          s2 = (if take 1 s1 = ''-'' \<or> take 1 s1 = ''+'' then tl s1 else s1);
          (b, s3) = (if (take 2 s2 = ''0x'' \<or> take 2 s2 = ''0X'') \<and> takeWhile (base_digit 16) (drop 2 s2) \<noteq> [] then (16, drop 2 s2)
                     else if take 1 s2 = ''0'' then (8, s2) else (10, s2));
          ds = takeWhile (base_digit b) s3;
          n = foldl (\<lambda>n c. n * b + the (hex_val c)) 0 ds
      in if ds = [] then (0, s)
         else (clamp LONG_MIN (if neg then - n else n) LONG_MAX, dropWhile (base_digit b) s3))"

lemma strtol_any_show:
  assumes "LONG_MIN \<le> n" "n \<le> LONG_MAX"
  shows "strtol_any (show_int n) = (n, [])"
proof (cases "n = 0")
  case True
  have "strtol_any (show_int 0) = (0, [])" by code_simp
  with True show ?thesis by simp
next
  case False
  define ds where "ds = show_nat (nat \<bar>n\<bar>)"
  have d: "\<forall>c\<in>set ds. isdigit c" "ds \<noteq> []" using show_nat_digits show_nat_hd by (auto simp: ds_def)
  have "hd ds \<noteq> CHR ''0''" using show_nat_hd [of "nat \<bar>n\<bar>"] False by (auto simp: ds_def)
  moreover obtain c cs where cs: "ds = c # cs" using d(2) by (cases ds) auto
  ultimately have c: "c \<noteq> CHR ''0''" "isdigit c" using d(1) by auto
  have b: "\<forall>c\<in>set ds. base_digit 10 c" using d(1) hex_digit by blast
  then have t: "takeWhile (base_digit 10) ds = ds" "dropWhile (base_digit 10) ds = []" by (simp_all add: takeWhile_eq_all_conv dropWhile_eq_Nil_conv)
  have "foldl (\<lambda>a c. a * 10 + the (hex_val c)) 0 ds = foldl (\<lambda>a c. a * 10 + digit_val c) 0 ds"
    using d(1) hex_digit by (intro foldl_cong) auto
  then have v: "foldl (\<lambda>a c. a * 10 + the (hex_val c)) 0 ds = \<bar>n\<bar>" using show_nat_val [of "nat \<bar>n\<bar>"] by (simp add: ds_def)
  have s: "show_int n = (if n < 0 then CHR ''-'' # ds else ds)" by (simp add: show_int_def ds_def)
  have c': "c \<noteq> CHR ''-''" "c \<noteq> CHR ''+''" "\<not> isspace c" using digit_not_sign [OF c(2)] digit_not_space [OF c(2)] by auto
  have m: "\<not> isspace (CHR ''-'')" by (simp add: isspace_def SP_def)
  define s2 where "s2 = ds"
  have h: "take 1 s2 \<noteq> ''0''" "take 2 s2 \<noteq> ''0x''" "take 2 s2 \<noteq> ''0X''" using c(1) by (auto simp: s2_def cs)
  show ?thesis
    using assms False h c' m t v d(2) unfolding s strtol_any_def Let_def s2_def
    by (auto simp: cs split: if_splits)
qed

end
