(* ===== verification/Softmixer.thy ===== *)
theory Softmixer
  imports Audio_Conv_Spec Files C_Text
begin

text \<open>
  The software mixer, \<^verbatim>\<open>src/src/moc-2.5.0/softmixer.c\<close>: its settings and their file, the
  volume and the mixing of all channels into one. The code keeps intermediate values in signed
  integers of twice the width of a sample; they are wrapped at that width here.
\<close>

section \<open>Settings\<close>

definition SOFTMIXER_MIN :: int where "SOFTMIXER_MIN = 0"
definition SOFTMIXER_MAX :: int where "SOFTMIXER_MAX = 200"

record softmixer =
  active :: bool
  mix_mono :: bool
  mixer_val :: int
  mixer_amp :: int
  mixer_real :: int
  mixer_realf :: flt

definition softmixer_name :: "softmixer \<Rightarrow> string" where
  "softmixer_name m = (if active m then ''Soft'' else ''S.Off'')"

definition softmixer_set_value :: "int \<Rightarrow> softmixer \<Rightarrow> softmixer" where
  "softmixer_set_value val m =
     (let v = clamp 0 val 100; r = clamp SOFTMIXER_MIN ((v * mixer_amp m) sdiv 100) SOFTMIXER_MAX in
      m\<lparr>mixer_val := v, mixer_real := r, mixer_realf := f32 (f32 (of_int r) / 100)\<rparr>)"

definition softmixer_get_value :: "softmixer \<Rightarrow> int" where
  "softmixer_get_value m = mixer_val m"

definition softmixer_set_active :: "int \<Rightarrow> softmixer \<Rightarrow> softmixer" where
  "softmixer_set_active act m = m\<lparr>active := act \<noteq> 0\<rparr>"

definition softmixer_is_active :: "softmixer \<Rightarrow> bool" where
  "softmixer_is_active m = active m"

definition softmixer_set_mono :: "int \<Rightarrow> softmixer \<Rightarrow> softmixer" where
  "softmixer_set_mono mono_flag m = m\<lparr>mix_mono := mono_flag \<noteq> 0\<rparr>"

definition softmixer_is_mono :: "softmixer \<Rightarrow> bool" where
  "softmixer_is_mono m = mix_mono m"

text \<open>
  The number that \<^verbatim>\<open>sscanf\<close> finds with \<^verbatim>\<open>%*s %i\<close>: the second word of the line, in base
  16 after \<open>0x\<close>, in base 8 after another \<open>0\<close>.
\<close>

definition scan_base :: "int \<Rightarrow> string \<Rightarrow> int option" where
  "scan_base b s =
     (let ds = takeWhile (base_digit b) s in
      if ds = [] then None else Some (foldl (\<lambda>n c. n * b + the (hex_val c)) 0 ds))"

definition scan_i :: "string \<Rightarrow> int option" where
  "scan_i s =
     (let (sg, s) = (if s \<noteq> [] \<and> hd s = CHR ''-'' then (-1, tl s) else if s \<noteq> [] \<and> hd s = CHR ''+'' then (1, tl s) else (1, s));
          v = (if take 2 s \<in> {''0x'', ''0X''} then scan_base 16 (drop 2 s)
               else if take 1 s = ''0'' then scan_base 8 s
               else scan_base 10 s)
      in map_option (\<lambda>n. wrapS 32 (sg * n)) v)"

definition second_number :: "string \<Rightarrow> int option" where
  "second_number s =
     (let s = dropWhile isspace s; w = takeWhile (\<lambda>c. \<not> isspace c) s in
      if w = [] then None else scan_i (dropWhile isspace (drop (length w) s)))"

definition config_line :: "string \<Rightarrow> softmixer \<Rightarrow> softmixer" where
  "config_line l m =
     (let on = (\<lambda>name f m. if strncaseeq l name (length name)
                           then (case second_number l of None \<Rightarrow> m | Some t \<Rightarrow> f t m) else m);
          m = on ''Active:'' (\<lambda>t m. m\<lparr>active := t > 0\<rparr>) m;
          m = on ''Amplification:'' (\<lambda>t m. if SOFTMIXER_MIN \<le> t \<and> t \<le> SOFTMIXER_MAX then m\<lparr>mixer_amp := t\<rparr> else m) m;
          m = on ''Value:'' (\<lambda>t m. if 0 \<le> t \<and> t \<le> 100 then softmixer_set_value t m else m) m
      in on ''Mono:'' (\<lambda>t m. m\<lparr>mix_mono := t > 0\<rparr>) m)"

text \<open>\<open>None\<close> is a file that cannot be opened.\<close>

definition softmixer_read_config :: "string option \<Rightarrow> softmixer \<Rightarrow> softmixer" where
  "softmixer_read_config file m = (case file of None \<Rightarrow> m | Some s \<Rightarrow> foldl (\<lambda>m l. config_line l m) m (read_lines s))"

definition softmixer_write_config :: "softmixer \<Rightarrow> string" where
  "softmixer_write_config m =
     ''Active:'' @ SP # show_int (of_bool (active m)) @ [LF] @
     ''Amplification:'' @ SP # show_int (mixer_amp m) @ [LF] @
     ''Value:'' @ SP # show_int (mixer_val m) @ [LF] @
     ''Mono:'' @ SP # show_int (of_bool (mix_mono m)) @ [LF]"

definition softmixer_init :: "string option \<Rightarrow> softmixer" where
  "softmixer_init file =
     softmixer_read_config file (softmixer_set_value 100
       \<lparr>active = False, mix_mono = False, mixer_val = 0, mixer_amp = 100, mixer_real = 0, mixer_realf = 0\<rparr>)"

text \<open>The file after a shutdown, when the option to save the settings is set or not.\<close>

definition softmixer_shutdown :: "bool \<Rightarrow> softmixer \<Rightarrow> string option \<Rightarrow> string option" where
  "softmixer_shutdown save m file = (if save then Some (softmixer_write_config m) else file)"

section \<open>Volume\<close>

definition scale_unsigned :: "nat \<Rightarrow> int \<Rightarrow> int \<Rightarrow> int \<Rightarrow> int" where
  "scale_unsigned W umax vol x =
     (let tmp = wrapS W x;
          tmp = wrapS W (tmp - umax div 2);
          tmp = wrapS W (tmp * vol);
          tmp = wrapS W (tmp sdiv 100);
          tmp = wrapS W (tmp + umax div 2)
      in clamp 0 tmp umax)"

definition scale_signed :: "nat \<Rightarrow> int \<Rightarrow> int \<Rightarrow> int \<Rightarrow> int \<Rightarrow> int" where
  "scale_signed W lo hi vol x =
     (let tmp = wrapS W x;
          tmp = wrapS W (tmp * vol);
          tmp = wrapS W (tmp sdiv 100)
      in clamp lo tmp hi)"

definition process_buffer_u8 :: "softmixer \<Rightarrow> nat \<Rightarrow> byte list \<Rightarrow> byte list result" where
  "process_buffer_u8 m n = on8 n (\<lambda>w. word_of_int (scale_unsigned 16 UINT8_MAX (mixer_real m) (uint w)))"

definition process_buffer_s8 :: "softmixer \<Rightarrow> nat \<Rightarrow> byte list \<Rightarrow> byte list result" where
  "process_buffer_s8 m n = on8 n (\<lambda>w. word_of_int (scale_signed 16 INT8_MIN INT8_MAX (mixer_real m) (sint w)))"

definition process_buffer_u16 :: "softmixer \<Rightarrow> nat \<Rightarrow> byte list \<Rightarrow> byte list result" where
  "process_buffer_u16 m n = on16 n (\<lambda>w. word_of_int (scale_unsigned 32 UINT16_MAX (mixer_real m) (uint w)))"

definition process_buffer_s16 :: "softmixer \<Rightarrow> nat \<Rightarrow> byte list \<Rightarrow> byte list result" where
  "process_buffer_s16 m n = on16 n (\<lambda>w. word_of_int (scale_signed 32 INT16_MIN INT16_MAX (mixer_real m) (sint w)))"

definition process_buffer_u32 :: "softmixer \<Rightarrow> nat \<Rightarrow> byte list \<Rightarrow> byte list result" where
  "process_buffer_u32 m n = on32 n (\<lambda>w. word_of_int (scale_unsigned 64 UINT32_MAX (mixer_real m) (uint w)))"

definition process_buffer_s32 :: "softmixer \<Rightarrow> nat \<Rightarrow> byte list \<Rightarrow> byte list result" where
  "process_buffer_s32 m n = on32 n (\<lambda>w. word_of_int (scale_signed 64 INT32_MIN INT32_MAX (mixer_real m) (sint w)))"

definition fclamp :: "flt \<Rightarrow> flt" where
  "fclamp x = (if x < - 1 then - 1 else if x > 1 then 1 else x)"

definition process_buffer_float :: "softmixer \<Rightarrow> flt list \<Rightarrow> flt list" where
  "process_buffer_float m = map (\<lambda>x. fclamp (f32 (x * mixer_realf m)))"

section \<open>Mixing to mono\<close>

text \<open>All samples of a frame are replaced with one; an incomplete frame is read behind the end.\<close>

function mono_loop :: "nat \<Rightarrow> ('a list \<Rightarrow> 'a) \<Rightarrow> 'a list \<Rightarrow> 'a list result" where
  "mono_loop ch f xs =
     (if xs = [] then Inr []
      else if ch = 0 \<or> length xs < ch then Inl Undefined
      else bindR (mono_loop ch f (drop ch xs)) (\<lambda>r. Inr (replicate ch (f (take ch xs)) @ r)))"
  by pat_completeness auto

termination
  by (relation "measure (\<lambda>(ch, f, xs). length xs)") auto

declare mono_loop.simps [simp del]

definition mono_sum :: "nat \<Rightarrow> int list \<Rightarrow> int" where
  "mono_sum W xs = foldl (\<lambda>acc x. wrapS W (acc + x)) 0 xs"

definition mono_unsigned :: "nat \<Rightarrow> int \<Rightarrow> int list \<Rightarrow> int" where
  "mono_unsigned W umax xs = min (wrapS W (mono_sum W xs sdiv int (length xs))) umax"

definition mono_signed :: "nat \<Rightarrow> int \<Rightarrow> int \<Rightarrow> int list \<Rightarrow> int" where
  "mono_signed W lo hi xs = clamp lo (wrapS W (mono_sum W xs sdiv int (length xs))) hi"

text \<open>With fewer than two channels there is nothing to mix.\<close>

definition mono8 :: "(8 word list \<Rightarrow> 8 word) \<Rightarrow> int \<Rightarrow> nat \<Rightarrow> byte list \<Rightarrow> byte list result" where
  "mono8 f ch n buf =
     (if ch < 2 then Inr buf
      else bindR (guardR (n \<le> length buf) Undefined) (\<lambda>_.
        bindR (mono_loop (nat ch) f (take n buf)) (\<lambda>ws. Inr (ws @ drop n buf))))"

definition mono16 :: "(16 word list \<Rightarrow> 16 word) \<Rightarrow> int \<Rightarrow> nat \<Rightarrow> byte list \<Rightarrow> byte list result" where
  "mono16 f ch n buf =
     (if ch < 2 then Inr buf
      else bindR (guardR (2 * n \<le> length buf) Undefined) (\<lambda>_.
        bindR (mono_loop (nat ch) f (to16 (take (2 * n) buf))) (\<lambda>ws. Inr (of16 ws @ drop (2 * n) buf))))"

definition mono32 :: "(32 word list \<Rightarrow> 32 word) \<Rightarrow> int \<Rightarrow> nat \<Rightarrow> byte list \<Rightarrow> byte list result" where
  "mono32 f ch n buf =
     (if ch < 2 then Inr buf
      else bindR (guardR (4 * n \<le> length buf) Undefined) (\<lambda>_.
        bindR (mono_loop (nat ch) f (to32 (take (4 * n) buf))) (\<lambda>ws. Inr (of32 ws @ drop (4 * n) buf))))"

definition mix_mono_u8 :: "int \<Rightarrow> nat \<Rightarrow> byte list \<Rightarrow> byte list result" where
  "mix_mono_u8 = mono8 (\<lambda>ws. word_of_int (mono_unsigned 16 UINT8_MAX (map uint ws)))"

definition mix_mono_s8 :: "int \<Rightarrow> nat \<Rightarrow> byte list \<Rightarrow> byte list result" where
  "mix_mono_s8 = mono8 (\<lambda>ws. word_of_int (mono_signed 16 INT8_MIN INT8_MAX (map sint ws)))"

definition mix_mono_u16 :: "int \<Rightarrow> nat \<Rightarrow> byte list \<Rightarrow> byte list result" where
  "mix_mono_u16 = mono16 (\<lambda>ws. word_of_int (mono_unsigned 32 UINT16_MAX (map uint ws)))"

definition mix_mono_s16 :: "int \<Rightarrow> nat \<Rightarrow> byte list \<Rightarrow> byte list result" where
  "mix_mono_s16 = mono16 (\<lambda>ws. word_of_int (mono_signed 32 INT16_MIN INT16_MAX (map sint ws)))"

definition mix_mono_u32 :: "int \<Rightarrow> nat \<Rightarrow> byte list \<Rightarrow> byte list result" where
  "mix_mono_u32 = mono32 (\<lambda>ws. word_of_int (mono_unsigned 64 UINT32_MAX (map uint ws)))"

definition mix_mono_s32 :: "int \<Rightarrow> nat \<Rightarrow> byte list \<Rightarrow> byte list result" where
  "mix_mono_s32 = mono32 (\<lambda>ws. word_of_int (mono_signed 64 INT32_MIN INT32_MAX (map sint ws)))"

definition mix_mono_float :: "int \<Rightarrow> flt list \<Rightarrow> flt list result" where
  "mix_mono_float ch fs =
     (if ch < 2 then Inr fs
      else mono_loop (nat ch) (\<lambda>xs. fclamp (f32 (foldl (\<lambda>acc x. f32 (acc + x)) 0 xs / f32 (of_int ch)))) fs)"

section \<open>The whole mixer\<close>

definition mix_format :: "softmixer \<Rightarrow> int \<Rightarrow> int \<Rightarrow> nat \<Rightarrow> byte list \<Rightarrow> byte list result" where
  "mix_format m sound_format ch sz buf =
     (let both = (\<lambda>process mix n.
            bindR (if mixer_real m \<noteq> 100 then process m n buf else Inr buf) (\<lambda>buf.
              if mix_mono m then mix ch n buf else Inr buf))
      in if sound_format = SFMT_U8 then both process_buffer_u8 mix_mono_u8 sz
         else if sound_format = SFMT_S8 then both process_buffer_s8 mix_mono_s8 sz
         else if sound_format = SFMT_U16 then both process_buffer_u16 mix_mono_u16 (sz div 2)
         else if sound_format = SFMT_S16 then both process_buffer_s16 mix_mono_s16 (sz div 2)
         else if sound_format = SFMT_U32 then both process_buffer_u32 mix_mono_u32 (sz div 4)
         else if sound_format = SFMT_S32 then both process_buffer_s32 mix_mono_s32 (sz div 4)
         else Inr buf)"

definition swap_samples :: "nat \<Rightarrow> byte list \<Rightarrow> byte list result" where
  "swap_samples samplesize buf =
     (if samplesize = 4 then audio_conv_bswap_32 (length buf div 4) buf else audio_conv_bswap_16 (length buf div 2) buf)"

definition softmixer_process_buffer :: "softmixer \<Rightarrow> sound_params \<Rightarrow> sound \<Rightarrow> sound result" where
  "softmixer_process_buffer m params buf =
     (if mixer_real m = 100 \<and> \<not> mix_mono m then Inr buf
      else
        let sound_endianness = sp_fmt params AND SFMT_MASK_ENDIANNESS;
            sound_format = sp_fmt params AND SFMT_MASK_FORMAT;
            ch = sp_channels params
        in bindR (sfmt_Bps sound_format) (\<lambda>samplesize.
           bindR (guardR (ch \<noteq> 0) Undefined) (\<lambda>_.
           bindR (guardR (int (bytes_of buf) mod (int samplesize * ch) = 0) Assert) (\<lambda>_.
             case buf of
               Floats fs \<Rightarrow>
                 if sound_format = SFMT_FLOAT then
                   let fs = (if mixer_real m \<noteq> 100 then process_buffer_float m fs else fs) in
                   bindR (if mix_mono m then mix_mono_float ch fs else Inr fs) (\<lambda>fs. Inr (Floats fs))
                 else Inl Undefined
             | Fixed b \<Rightarrow>
                 if sound_format = SFMT_FLOAT then Inl Undefined
                 else
                   let swap = (if sound_endianness \<noteq> SFMT_NE \<and> samplesize > 1 then swap_samples samplesize else Inr)
                   in bindR (swap b) (\<lambda>b. bindR (mix_format m sound_format ch (length b) b) (\<lambda>b.
                        bindR (swap b) (\<lambda>b. Inr (Fixed b))))))))"

end
