(* ===== verification/Softmixer_Spec.thy ===== *)
theory Softmixer_Spec
  imports Softmixer
begin

text \<open>
  The mixer on sample values: the volume and the mixing are the exact arithmetic on unbounded
  integers, in every format, and the settings survive being written and read.
\<close>

section \<open>Arithmetic without overflow\<close>

lemma abs_sdiv: "\<bar>(a::int) sdiv b\<bar> = \<bar>a\<bar> div \<bar>b\<bar>"
proof -
  have "0 \<le> \<bar>a\<bar> div \<bar>b\<bar>" by (cases "b = 0") (simp_all add: pos_imp_zdiv_nonneg_iff)
  then show ?thesis by (cases "a = 0"; cases "b = 0") (simp_all add: signed_divide_int_def abs_mult)
qed

lemma abs_sdiv_le: "\<bar>(a::int) sdiv b\<bar> \<le> \<bar>a\<bar>"
  using abs_sdiv [of a b] zdiv_mono2 [of "\<bar>a\<bar>" 1 "\<bar>b\<bar>"] by (cases "b = 0") auto

lemma wrapS_abs: "0 < W \<Longrightarrow> \<bar>x\<bar> < 2 ^ (W - 1) \<Longrightarrow> wrapS W x = x"
  by (intro wrapS_id) auto

text \<open>\<open>h\<close> is half of the range of a sample, \<open>W\<close> the width of the intermediate values.\<close>

definition roomy :: "nat \<Rightarrow> int \<Rightarrow> bool" where
  "roomy W h \<longleftrightarrow> 0 < W \<and> 128 \<le> h \<and> 2 ^ (W - 1) = 2 * h * h"

lemma roomy_room:
  assumes "roomy W h" and "\<bar>x\<bar> \<le> 200 * h"
  shows "\<bar>x\<bar> + h < 2 ^ (W - 1)"
proof -
  have "256 * h \<le> 2 * h * h" using assms(1) by (intro mult_right_mono) (auto simp: roomy_def)
  moreover have "128 \<le> h" "2 ^ (W - 1) = 2 * h * h" using assms(1) by (simp_all only: roomy_def)
  ultimately show ?thesis using assms(2) by linarith
qed

lemma volume_bound: "\<bar>x\<bar> \<le> h \<Longrightarrow> 0 \<le> r \<Longrightarrow> r \<le> 200 \<Longrightarrow> \<bar>x * r\<bar> \<le> 200 * (h::int)"
  using mult_mono [of "\<bar>x\<bar>" h r 200] by (simp add: abs_mult mult.commute)

lemma scale_signed_exact:
  assumes W: "roomy W h" and r: "0 \<le> r" "r \<le> 200" and x: "- h \<le> x" "x < h"
  shows "scale_signed W lo hi r x = clamp lo (x * r sdiv 100) hi"
proof -
  have p: "0 < W" "0 < h" using W by (auto simp: roomy_def)
  have a: "\<bar>x\<bar> \<le> h" using x by auto
  note b = volume_bound [OF a r]
  have "\<bar>x * r sdiv 100\<bar> \<le> 200 * h" using b abs_sdiv_le [of "x * r" 100] by linarith
  then have "wrapS W x = x" "wrapS W (x * r) = x * r" "wrapS W (x * r sdiv 100) = x * r sdiv 100"
    using roomy_room [OF W, of x] roomy_room [OF W b] roomy_room [OF W, of "x * r sdiv 100"] a p
    by (auto intro!: wrapS_abs)
  then show ?thesis by (simp add: scale_signed_def)
qed

lemma scale_unsigned_exact:
  assumes W: "roomy W h" and r: "0 \<le> r" "r \<le> 200" and x: "0 \<le> x" "x < 2 * h"
  shows "scale_unsigned W (2 * h - 1) r x = clamp 0 ((x - (h - 1)) * r sdiv 100 + (h - 1)) (2 * h - 1)"
proof -
  have p: "0 < W" "0 < h" "128 \<le> h" using W by (auto simp: roomy_def)
  have m: "(2 * h - 1) div 2 = h - 1" using p by simp
  let ?y = "x - (h - 1)"
  have a: "\<bar>?y\<bar> \<le> h" using x by auto
  note b = volume_bound [OF a r]
  have c: "\<bar>?y * r sdiv 100\<bar> \<le> 200 * h" using b abs_sdiv_le [of "?y * r" 100] by linarith
  have "wrapS W x = x" "wrapS W ?y = ?y" "wrapS W (?y * r) = ?y * r" "wrapS W (?y * r sdiv 100) = ?y * r sdiv 100"
    "wrapS W (?y * r sdiv 100 + (h - 1)) = ?y * r sdiv 100 + (h - 1)"
    using roomy_room [OF W, of x] roomy_room [OF W, of ?y] roomy_room [OF W b] roomy_room [OF W c] a x p
    by (simp_all add: wrapS_abs abs_if split: if_splits)
  then show ?thesis by (simp add: scale_unsigned_def m)
qed

lemma mono_sum_exact:
  assumes "0 < W" "\<And>x. x \<in> set xs \<Longrightarrow> \<bar>x\<bar> \<le> B" "int (length xs) * B < 2 ^ (W - 1)"
  shows "mono_sum W xs = sum_list xs"
proof -
  have "foldl (\<lambda>acc x. wrapS W (acc + x)) a xs = a + sum_list xs"
    if "\<And>x. x \<in> set xs \<Longrightarrow> \<bar>x\<bar> \<le> B" "\<bar>a\<bar> + int (length xs) * B < 2 ^ (W - 1)" for a xs
    using that
  proof (induction xs arbitrary: a)
    case (Cons x xs)
    have B: "0 \<le> B" "\<bar>x\<bar> \<le> B" using Cons.prems(1) [of x] by auto
    have s: "\<bar>a + x\<bar> + int (length xs) * B < 2 ^ (W - 1)" using Cons.prems(2) B by (simp add: algebra_simps)
    moreover have "0 \<le> int (length xs) * B" using B by simp
    ultimately have "wrapS W (a + x) = a + x" using assms(1) by (intro wrapS_abs) linarith+
    with Cons.IH [of "a + x"] Cons.prems(1) s show ?case by simp
  qed simp
  from this [of xs 0] assms show ?thesis by (simp add: mono_sum_def)
qed

section \<open>Samples\<close>

text \<open>
  The volume of a sample of \<open>w\<close> bits with value \<open>v\<close>: the code takes one less than the middle
  of the range as the centre of an unsigned sample.
\<close>

definition volume_val :: "bool \<Rightarrow> nat \<Rightarrow> int \<Rightarrow> int \<Rightarrow> int" where
  "volume_val sgnd w vol v =
     clamp (- (2 ^ (w - 1))) (if sgnd then v * vol sdiv 100 else (v + 1) * vol sdiv 100 - 1) (2 ^ (w - 1) - 1)"

definition mono_val :: "bool \<Rightarrow> int list \<Rightarrow> int" where
  "mono_val sgnd vs = (if sgnd then sum_list vs sdiv int (length vs) else sum_list vs div int (length vs))"

lemma clamp_centre: "clamp 0 y (2 * h - 1) = clamp (- h) (y - h) (h - 1) + h"
  by (simp add: clamp_def)

lemma clamp_in: "lo \<le> hi \<Longrightarrow> lo \<le> clamp lo x hi" "lo \<le> hi \<Longrightarrow> clamp lo x hi \<le> hi"
  by (simp_all add: clamp_def)

lemma word_half: "roomy W (2 ^ (LENGTH('a::len) - 1)) \<Longrightarrow> (2::int) ^ LENGTH('a) = 2 * 2 ^ (LENGTH('a) - 1)"
  by (metis One_nat_def Suc_pred len_gt_0 power_Suc)

lemma volume_signed_word:
  fixes x :: "'a::len word"
  assumes W: "roomy W (2 ^ (LENGTH('a) - 1))" and r: "0 \<le> r" "r \<le> 200"
  shows "word_val True (word_of_int (scale_signed W (- (2 ^ (LENGTH('a) - 1))) (2 ^ (LENGTH('a) - 1) - 1) r (sint x)) :: 'a word)
    = volume_val True (LENGTH('a)) r (word_val True x)"
proof -
  let ?h = "2 ^ (LENGTH('a) - 1) :: int"
  have x: "- ?h \<le> sint x" "sint x < ?h" using word_val_bounds [of True x] by (simp_all add: word_val_def)
  have c: "- ?h \<le> clamp (- ?h) (sint x * r sdiv 100) (?h - 1)" "clamp (- ?h) (sint x * r sdiv 100) (?h - 1) < ?h"
    using clamp_in [of "- ?h" "?h - 1" "sint x * r sdiv 100"] by auto
  show ?thesis
    unfolding scale_signed_exact [OF W r x] word_val_of_int(1) [OF c] by (simp add: volume_val_def word_val_def)
qed

lemma volume_unsigned_word:
  fixes x :: "'a::len word"
  assumes W: "roomy W (2 ^ (LENGTH('a) - 1))" and r: "0 \<le> r" "r \<le> 200"
  shows "word_val False (word_of_int (scale_unsigned W (2 * 2 ^ (LENGTH('a) - 1) - 1) r (uint x)) :: 'a word)
    = volume_val False (LENGTH('a)) r (word_val False x)"
proof -
  let ?h = "2 ^ (LENGTH('a) - 1) :: int"
  have x: "0 \<le> uint x" "uint x < 2 * ?h" using uint_lt2p [of x] word_half [OF W] by simp_all
  let ?y = "(uint x - (?h - 1)) * r sdiv 100 + (?h - 1)"
  have "clamp 0 ?y (2 * ?h - 1) = clamp (- ?h) (?y - ?h) (?h - 1) + ?h"
    by (rule clamp_centre)
  moreover have "- ?h \<le> clamp (- ?h) (?y - ?h) (?h - 1)" "clamp (- ?h) (?y - ?h) (?h - 1) < ?h"
    using clamp_in [of "- ?h" "?h - 1" "?y - ?h"] by auto
  ultimately have "word_val False (word_of_int (clamp 0 ?y (2 * ?h - 1)) :: 'a word) = clamp (- ?h) (?y - ?h) (?h - 1)"
    using word_val_of_int(2) [where 'a = 'a, of "clamp (- ?h) (?y - ?h) (?h - 1)"] by simp
  then show ?thesis
    unfolding scale_unsigned_exact [OF W r x] by (simp add: volume_val_def word_val_def algebra_simps)
qed

lemma sum_list_bounds:
  "(\<And>x. x \<in> set xs \<Longrightarrow> lo \<le> x \<and> x \<le> (hi::int)) \<Longrightarrow> int (length xs) * lo \<le> sum_list xs \<and> sum_list xs \<le> int (length xs) * hi"
  by (induction xs) (fastforce simp: algebra_simps)+

lemma mono_signed_word:
  fixes ws :: "'a::len word list"
  assumes W: "roomy W (2 ^ (LENGTH('a) - 1))" and n: "0 < length ws" "length ws \<le> 128"
  shows "word_val True (word_of_int (mono_signed W (- (2 ^ (LENGTH('a) - 1))) (2 ^ (LENGTH('a) - 1) - 1) (map sint ws)) :: 'a word)
    = mono_val True (map (word_val True) ws)"
proof -
  define h where "h = (2 ^ (LENGTH('a) - 1) :: int)"
  define xs where "xs = map sint ws"
  define k where "k = int (length ws)"
  have k: "0 < k" "k \<le> 128" "int (length xs) = k" using n by (simp_all add: k_def xs_def)
  have R: "roomy W h" using W by (simp add: h_def)
  have h: "128 \<le> h" "2 ^ (W - 1) = 2 * h * h" "0 < W" using R by (simp_all only: roomy_def)
  have v: "- h \<le> x \<and> x \<le> h - 1" if "x \<in> set xs" for x
    using that word_val_bounds [of True] by (auto simp: word_val_def h_def xs_def)
  have "k * h \<le> 128 * h" using k h by (intro mult_right_mono) auto
  then have lim: "k * h < 2 ^ (W - 1)" using roomy_room [OF R, of "128 * h"] h by simp
  have "\<bar>x\<bar> \<le> h" if "x \<in> set xs" for x using v [OF that] by (auto simp: abs_le_iff)
  then have ms: "mono_sum W xs = sum_list xs" using mono_sum_exact [OF h(3), of xs h] lim k(3) by simp
  have b: "k * - h \<le> sum_list xs" "sum_list xs \<le> k * (h - 1)"
    using sum_list_bounds [of xs "- h" "h - 1"] v k(3) by auto
  let ?q = "sum_list xs sdiv k"
  have "?q = (if 0 \<le> sum_list xs then sum_list xs div k else - ((- sum_list xs) div k))"
    using k by (auto simp: signed_divide_int_def sgn_if)
  moreover have "sum_list xs div k \<le> h - 1" "(- sum_list xs) div k \<le> h"
    using zdiv_mono1 [OF b(2) k(1)] zdiv_mono1 [of "- sum_list xs" "k * h" k] b(1) k by auto
  moreover have "0 \<le> sum_list xs \<Longrightarrow> 0 \<le> sum_list xs div k" "sum_list xs < 0 \<Longrightarrow> 0 \<le> (- sum_list xs) div k"
    using k by (simp_all add: pos_imp_zdiv_nonneg_iff)
  ultimately have q: "- h \<le> ?q" "?q \<le> h - 1" using h by (auto split: if_splits)
  have "h + h < 2 ^ (W - 1)" using roomy_room [OF R, of h] h(1) by linarith
  then have "wrapS W ?q = ?q" using q h(1,3) by (intro wrapS_abs) linarith+
  then have m: "mono_signed W (- h) (h - 1) xs = ?q" using q ms k(3) by (simp add: mono_signed_def)
  have "word_val True (word_of_int ?q :: 'a word) = ?q" using q by (intro word_val_of_int(1)) (simp_all add: h_def)
  moreover have e: "map (word_val True) ws = xs" by (simp add: word_val_def xs_def)
  ultimately show ?thesis using m k(3) unfolding e mono_val_def h_def [symmetric] xs_def [symmetric] by simp
qed

lemma mono_unsigned_word:
  fixes ws :: "'a::len word list"
  assumes W: "roomy W (2 ^ (LENGTH('a) - 1))" and n: "0 < length ws" "length ws \<le> 128"
  shows "word_val False (word_of_int (mono_unsigned W (2 * 2 ^ (LENGTH('a) - 1) - 1) (map uint ws)) :: 'a word)
    = mono_val False (map (word_val False) ws)"
proof -
  define h where "h = (2 ^ (LENGTH('a) - 1) :: int)"
  define xs where "xs = map uint ws"
  define k where "k = int (length ws)"
  have k: "0 < k" "k \<le> 128" "int (length xs) = k" using n by (simp_all add: k_def xs_def)
  have R: "roomy W h" using W by (simp add: h_def)
  have h: "128 \<le> h" "2 ^ (W - 1) = 2 * h * h" "0 < W" using R by (simp_all only: roomy_def)
  have v: "0 \<le> x \<and> x \<le> 2 * h - 1" if x: "x \<in> set xs" for x
  proof -
    obtain w :: "'a word" where "x = uint w" using x by (auto simp: xs_def)
    then show ?thesis using uint_lt2p [of w] word_half [OF W] by (simp add: h_def)
  qed
  have "k * (2 * h - 1) \<le> 128 * (2 * h - 1)" using k h by (intro mult_right_mono) auto
  also have "\<dots> < 256 * h" by simp
  also have "\<dots> \<le> 2 * h * h" using h by (intro mult_right_mono) auto
  finally have lim: "k * (2 * h - 1) < 2 ^ (W - 1)" using h by simp
  have "\<bar>x\<bar> \<le> 2 * h - 1" if "x \<in> set xs" for x using v [OF that] by auto
  then have ms: "mono_sum W xs = sum_list xs" using mono_sum_exact [OF h(3), of xs "2 * h - 1"] lim k(3) by simp
  have b: "0 \<le> sum_list xs" "sum_list xs \<le> k * (2 * h - 1)"
    using sum_list_bounds [of xs 0 "2 * h - 1"] v k(3) by auto
  let ?q = "sum_list xs div k"
  have d: "sum_list xs sdiv k = ?q" using b k by (intro sdiv_nonneg) auto
  have q: "0 \<le> ?q" "?q \<le> 2 * h - 1"
    using zdiv_mono1 [OF b(2) k(1)] b(1) k by (auto simp: pos_imp_zdiv_nonneg_iff)
  have "h + h < 2 ^ (W - 1)" using roomy_room [OF R, of h] h(1) by linarith
  then have "wrapS W ?q = ?q" using q h(1,3) by (intro wrapS_abs) linarith+
  then have m: "mono_unsigned W (2 * h - 1) xs = (?q - h) + h" using q ms d k(3) by (simp add: mono_unsigned_def)
  have w: "word_val False (word_of_int (?q - h + h) :: 'a word) = ?q - h"
    using q word_val_of_int(2) [where 'a = 'a, of "?q - h"] by (simp add: h_def)
  have "map (word_val False) ws = map (\<lambda>x. x - h) xs" by (simp add: word_val_def xs_def h_def)
  then have "sum_list (map (word_val False) ws) = sum_list xs - k * h"
    using k(3) by (simp add: sum_list_subtractf sum_list_triv)
  then have "sum_list (map (word_val False) ws) div k = ?q - h"
    using k div_mult_self2 [of k "sum_list xs" "- h"] by simp
  then show ?thesis using m w by (simp add: mono_val_def h_def xs_def k_def)
qed

section \<open>Frames\<close>

text \<open>Every sample gets the value that \<open>f\<close> makes of its frame.\<close>

definition mono_frames :: "nat \<Rightarrow> ('a list \<Rightarrow> 'b) \<Rightarrow> 'a list \<Rightarrow> 'b list" where
  "mono_frames ch f xs = map (\<lambda>i. f (take ch (drop (i div ch * ch) xs))) [0..<length xs]"

lemma length_mono_frames [simp]: "length (mono_frames ch f xs) = length xs"
  by (simp add: mono_frames_def)

lemma mono_frames_step:
  assumes "0 < ch" "ch \<le> length xs"
  shows "mono_frames ch f xs = replicate ch (f (take ch xs)) @ mono_frames ch f (drop ch xs)"
proof (rule nth_equalityI)
  fix i assume "i < length (mono_frames ch f xs)"
  then have i: "i < length xs" by simp
  show "mono_frames ch f xs ! i = (replicate ch (f (take ch xs)) @ mono_frames ch f (drop ch xs)) ! i"
  proof (cases "i < ch")
    case True
    then show ?thesis using i by (simp add: mono_frames_def nth_append)
  next
    case False
    then have "i div ch * ch = (i - ch) div ch * ch + ch"
      using assms(1) by (simp add: le_div_geq)
    then show ?thesis using i False assms by (simp add: mono_frames_def nth_append add.commute)
  qed
qed (use assms in simp)

lemma mono_loop_frames:
  "0 < ch \<Longrightarrow> ch dvd length xs \<Longrightarrow> mono_loop ch f xs = Inr (mono_frames ch f xs)"
proof (induction "length xs" arbitrary: xs rule: less_induct)
  case less
  show ?case
  proof (cases "xs = []")
    case True
    then show ?thesis by (simp add: mono_loop.simps mono_frames_def)
  next
    case False
    have l: "ch \<le> length xs" using less.prems(2) False by (simp add: dvd_imp_le)
    then have "ch dvd length (drop ch xs)" "length (drop ch xs) < length xs" using less.prems by (simp_all add: dvd_diff_nat)
    then have "mono_loop ch f (drop ch xs) = Inr (mono_frames ch f (drop ch xs))" using less.hyps less.prems(1) by blast
    then show ?thesis
      using False l less.prems(1) mono_loop.simps [of ch f xs] mono_frames_step [OF less.prems(1) l, of f] by simp
  qed
qed

lemma map_mono_frames:
  assumes "0 < ch" "ch dvd length xs" "\<And>ys. length ys = ch \<Longrightarrow> g (f ys) = F (map g ys)"
  shows "map g (mono_frames ch f xs) = mono_frames ch F (map g xs)"
proof -
  have "length (take ch (drop (i div ch * ch) xs)) = ch" if "i < length xs" for i
  proof -
    obtain n where n: "length xs = n * ch" using assms(2) by (metis dvdE mult.commute)
    have "i div ch < n" using that n assms(1) by (simp add: div_less_iff_less_mult)
    then have "Suc (i div ch) * ch \<le> n * ch" by (intro mult_right_mono) auto
    then have "ch \<le> length xs - i div ch * ch" using n by (simp add: algebra_simps)
    then show ?thesis by simp
  qed
  then show ?thesis by (simp add: mono_frames_def assms(3) take_map drop_map)
qed

section \<open>The mixer on values\<close>

lemma roomy_widths: "roomy 16 (2 ^ (LENGTH(8) - 1))" "roomy 32 (2 ^ (LENGTH(16) - 1))" "roomy 64 (2 ^ (LENGTH(32) - 1))"
  by (simp_all add: roomy_def)

definition mixed :: "softmixer \<Rightarrow> int \<Rightarrow> int \<Rightarrow> int list \<Rightarrow> int list" where
  "mixed m k ch vs =
     (let vs = map (volume_val (signed_kind k) (bits k) (mixer_real m)) vs in
      if mix_mono m \<and> 2 \<le> ch then mono_frames (nat ch) (mono_val (signed_kind k)) vs else vs)"

lemma sdiv_100: "x * 100 sdiv 100 = (x::int)"
  by (simp add: signed_divide_int_def sgn_mult abs_mult sgn_if)

lemma volume_100: "k \<in> fixed_kinds \<Longrightarrow> v \<in> set (vals k e bs) \<Longrightarrow> volume_val (signed_kind k) (bits k) 100 v = v"
  using vals_bounds [of k v e bs] sdiv_100 [of "v + 1"] by (simp add: volume_val_def sdiv_100)

lemma process_vals:
  assumes k: "k \<in> fixed_kinds" and r: "0 \<le> mixer_real m" "mixer_real m \<le> 200" and al: "Bps k dvd length b"
  shows "\<exists>b'. mix_format (m\<lparr>mix_mono := False\<rparr>) k ch (length b) b = Inr b' \<and> length b' = length b \<and>
    vals k SFMT_LE b' = map (volume_val (signed_kind k) (bits k) (mixer_real m)) (vals k SFMT_LE b)"
proof (cases "mixer_real m = 100")
  case True
  then show ?thesis
    using k volume_100 [OF k, of _ SFMT_LE b] by (elim fixed_kindsE) (simp_all add: mix_format_def map_idI)
next
  case False
  note s = volume_signed_word [OF roomy_widths(1) r] volume_signed_word [OF roomy_widths(2) r] volume_signed_word [OF roomy_widths(3) r]
    volume_unsigned_word [OF roomy_widths(1) r] volume_unsigned_word [OF roomy_widths(2) r] volume_unsigned_word [OF roomy_widths(3) r]
  show ?thesis
    using k al False s
    by (elim fixed_kindsE)
      (auto simp: mix_format_def process_buffer_u8_def process_buffer_s8_def process_buffer_u16_def process_buffer_s16_def
        process_buffer_u32_def process_buffer_s32_def on8_all on16_all on32_all vals_def limit_defs)
qed

lemma mono_words_signed:
  fixes ws :: "'a::len word list"
  assumes "roomy W (2 ^ (LENGTH('a) - 1))" "0 < n" "n \<le> 128" "n dvd length ws"
  shows "map (word_val True) (mono_frames n (\<lambda>ys. word_of_int (mono_signed W (- (2 ^ (LENGTH('a) - 1))) (2 ^ (LENGTH('a) - 1) - 1) (map sint ys)) :: 'a word) ws)
    = mono_frames n (mono_val True) (map (word_val True) ws)"
  by (rule map_mono_frames [OF assms(2,4)]) (rule mono_signed_word [OF assms(1)]; use assms(2,3) in simp)

lemma mono_words_unsigned:
  fixes ws :: "'a::len word list"
  assumes "roomy W (2 ^ (LENGTH('a) - 1))" "0 < n" "n \<le> 128" "n dvd length ws"
  shows "map (word_val False) (mono_frames n (\<lambda>ys. word_of_int (mono_unsigned W (2 * 2 ^ (LENGTH('a) - 1) - 1) (map uint ys)) :: 'a word) ws)
    = mono_frames n (mono_val False) (map (word_val False) ws)"
  by (rule map_mono_frames [OF assms(2,4)]) (rule mono_unsigned_word [OF assms(1)]; use assms(2,3) in simp)

lemma mono_all:
  "2 \<le> ch \<Longrightarrow> nat ch dvd length b \<Longrightarrow> mono8 f ch (length b) b = Inr (mono_frames (nat ch) f b)"
  "2 \<le> ch \<Longrightarrow> even (length b) \<Longrightarrow> nat ch dvd length b div 2 \<Longrightarrow> mono16 g ch (length b div 2) b = Inr (of16 (mono_frames (nat ch) g (to16 b)))"
  "2 \<le> ch \<Longrightarrow> 4 dvd length b \<Longrightarrow> nat ch dvd length b div 4 \<Longrightarrow> mono32 h ch (length b div 4) b = Inr (of32 (mono_frames (nat ch) h (to32 b)))"
  by (simp_all add: mono8_def mono16_def mono32_def mono_loop_frames)

lemma mono_vals:
  assumes k: "k \<in> fixed_kinds" and ch: "2 \<le> ch" "ch \<le> 128" and al: "Bps k dvd length b" "nat ch dvd length b div Bps k"
  shows "\<exists>b'. mix_format (m\<lparr>mixer_real := 100, mix_mono := True\<rparr>) k ch (length b) b = Inr b' \<and> length b' = length b \<and>
    vals k SFMT_LE b' = mono_frames (nat ch) (mono_val (signed_kind k)) (vals k SFMT_LE b)"
proof -
  have n: "0 < nat ch" "nat ch \<le> 128" using ch by auto
  have f: "nat ch dvd length b \<Longrightarrow> map (word_val True) (mono_frames (nat ch) (\<lambda>ys. word_of_int (mono_signed 16 INT8_MIN INT8_MAX (map sint ys)) :: 8 word) b)
      = mono_frames (nat ch) (mono_val True) (map (word_val True) b)"
    "nat ch dvd length b \<Longrightarrow> map (word_val False) (mono_frames (nat ch) (\<lambda>ys. word_of_int (mono_unsigned 16 UINT8_MAX (map uint ys)) :: 8 word) b)
      = mono_frames (nat ch) (mono_val False) (map (word_val False) b)"
    "nat ch dvd length b div 2 \<Longrightarrow> map (word_val True) (mono_frames (nat ch) (\<lambda>ys. word_of_int (mono_signed 32 INT16_MIN INT16_MAX (map sint ys)) :: 16 word) (to16 b))
      = mono_frames (nat ch) (mono_val True) (map (word_val True) (to16 b))"
    "nat ch dvd length b div 2 \<Longrightarrow> map (word_val False) (mono_frames (nat ch) (\<lambda>ys. word_of_int (mono_unsigned 32 UINT16_MAX (map uint ys)) :: 16 word) (to16 b))
      = mono_frames (nat ch) (mono_val False) (map (word_val False) (to16 b))"
    "nat ch dvd length b div 4 \<Longrightarrow> map (word_val True) (mono_frames (nat ch) (\<lambda>ys. word_of_int (mono_signed 64 INT32_MIN INT32_MAX (map sint ys)) :: 32 word) (to32 b))
      = mono_frames (nat ch) (mono_val True) (map (word_val True) (to32 b))"
    "nat ch dvd length b div 4 \<Longrightarrow> map (word_val False) (mono_frames (nat ch) (\<lambda>ys. word_of_int (mono_unsigned 64 UINT32_MAX (map uint ys)) :: 32 word) (to32 b))
      = mono_frames (nat ch) (mono_val False) (map (word_val False) (to32 b))"
    using mono_words_signed [OF roomy_widths(1) n, of b] mono_words_unsigned [OF roomy_widths(1) n, of b]
      mono_words_signed [OF roomy_widths(2) n, of "to16 b"] mono_words_unsigned [OF roomy_widths(2) n, of "to16 b"]
      mono_words_signed [OF roomy_widths(3) n, of "to32 b"] mono_words_unsigned [OF roomy_widths(3) n, of "to32 b"]
    by (simp_all add: limit_defs)
  note m = mix_mono_u8_def mix_mono_s8_def mix_mono_u16_def mix_mono_s16_def mix_mono_u32_def mix_mono_s32_def
  show ?thesis
    using k al ch f
    by (elim fixed_kindsE) (auto simp: mix_format_def m mono_all vals_def)
qed

lemma bindR_right [simp]: "bindR x Inr = x"
  by (cases x) simp_all

text \<open>The two parts of \<^verbatim>\<open>softmixer_process_buffer\<close> for one format, one after the other.\<close>

lemma mix_format_split:
  assumes "k \<in> fixed_kinds" "mix_format (m\<lparr>mix_mono := False\<rparr>) k ch sz b = Inr b1" "mix_mono m"
  shows "mix_format m k ch sz b = mix_format (m\<lparr>mixer_real := 100, mix_mono := True\<rparr>) k ch sz b1"
  using assms
  by (elim fixed_kindsE)
    (simp_all add: mix_format_def process_buffer_u8_def process_buffer_s8_def process_buffer_u16_def process_buffer_s16_def
      process_buffer_u32_def process_buffer_s32_def split: if_splits)

lemma mix_format_few:
  assumes "k \<in> fixed_kinds" "ch < 2"
  shows "mix_format m k ch sz b = mix_format (m\<lparr>mix_mono := False\<rparr>) k ch sz b"
proof -
  note m = mix_mono_u8_def mix_mono_s8_def mix_mono_u16_def mix_mono_s16_def mix_mono_u32_def mix_mono_s32_def
  show ?thesis
    using assms by (elim fixed_kindsE)
      (simp_all add: mix_format_def m mono8_def mono16_def mono32_def process_buffer_u8_def process_buffer_s8_def process_buffer_u16_def process_buffer_s16_def
      process_buffer_u32_def process_buffer_s32_def)
qed

lemma mix_format_vals:
  assumes k: "k \<in> fixed_kinds" and r: "0 \<le> mixer_real m" "mixer_real m \<le> 200" and ch: "1 \<le> ch" "ch \<le> 128"
    and al: "Bps k dvd length b" "nat ch dvd length b div Bps k"
  shows "\<exists>b'. mix_format m k ch (length b) b = Inr b' \<and> length b' = length b \<and> vals k SFMT_LE b' = mixed m k ch (vals k SFMT_LE b)"
proof -
  obtain b1 where b1: "mix_format (m\<lparr>mix_mono := False\<rparr>) k ch (length b) b = Inr b1" "length b1 = length b"
    "vals k SFMT_LE b1 = map (volume_val (signed_kind k) (bits k) (mixer_real m)) (vals k SFMT_LE b)"
    using process_vals [OF k r al(1)] by blast
  show ?thesis
  proof (cases "mix_mono m \<and> 2 \<le> ch")
    case True
    obtain b2 where "mix_format (m\<lparr>mixer_real := 100, mix_mono := True\<rparr>) k ch (length b1) b1 = Inr b2" "length b2 = length b1"
      "vals k SFMT_LE b2 = mono_frames (nat ch) (mono_val (signed_kind k)) (vals k SFMT_LE b1)"
      using mono_vals [OF k, of ch b1 m] True ch al b1(2) by auto
    then show ?thesis using mix_format_split [OF k b1(1)] b1 True by (simp add: mixed_def Let_def)
  next
    case False
    have "mix_format m k ch (length b) b = Inr b1"
    proof (cases "mix_mono m")
      case True
      then show ?thesis using mix_format_few [OF k, of ch m] False b1(1) by simp
    next
      case F: False
      then have "m\<lparr>mix_mono := False\<rparr> = m" by simp
      then show ?thesis using b1(1) by simp
    qed
    then show ?thesis using b1 False by (auto simp: mixed_def Let_def)
  qed
qed

section \<open>Reachable settings\<close>

text \<open>The settings after a start with any file and any calls of the interface.\<close>

inductive mixer_reach :: "softmixer \<Rightarrow> bool" where
  init: "mixer_reach (softmixer_init cfg)"
| set_value: "mixer_reach m \<Longrightarrow> mixer_reach (softmixer_set_value v m)"
| set_active: "mixer_reach m \<Longrightarrow> mixer_reach (softmixer_set_active a m)"
| set_mono: "mixer_reach m \<Longrightarrow> mixer_reach (softmixer_set_mono b m)"

definition mixer_ok :: "softmixer \<Rightarrow> bool" where
  "mixer_ok m \<longleftrightarrow> 0 \<le> mixer_val m \<and> mixer_val m \<le> 100 \<and> 0 \<le> mixer_amp m \<and> mixer_amp m \<le> 200 \<and>
     0 \<le> mixer_real m \<and> mixer_real m \<le> 200"

lemma set_value_ok: "0 \<le> mixer_amp m \<Longrightarrow> mixer_amp m \<le> 200 \<Longrightarrow> mixer_ok (softmixer_set_value v m)"
  using clamp_bounds [of 0 100 v] clamp_bounds [of 0 200 "clamp 0 v 100 * mixer_amp m sdiv 100"]
  by (simp add: mixer_ok_def softmixer_set_value_def Let_def SOFTMIXER_MIN_def SOFTMIXER_MAX_def)

lemma config_line_ok: "mixer_ok m \<Longrightarrow> mixer_ok (config_line l m)"
proof -
  have v: "mixer_ok m \<Longrightarrow> mixer_ok (softmixer_set_value t m)" for m t by (rule set_value_ok) (simp_all add: mixer_ok_def)
  have a: "mixer_ok m \<Longrightarrow> mixer_ok (m\<lparr>active := b\<rparr>)" "mixer_ok m \<Longrightarrow> mixer_ok (m\<lparr>mix_mono := b\<rparr>)"
    "mixer_ok m \<Longrightarrow> 0 \<le> t \<Longrightarrow> t \<le> 200 \<Longrightarrow> mixer_ok (m\<lparr>mixer_amp := t\<rparr>)" for m b t
    by (simp_all add: mixer_ok_def)
  assume "mixer_ok m"
  then show ?thesis
    by (cases "second_number l") (simp_all add: config_line_def Let_def v a SOFTMIXER_MIN_def SOFTMIXER_MAX_def)
qed

lemma read_config_ok: "mixer_ok m \<Longrightarrow> mixer_ok (softmixer_read_config cfg m)"
proof -
  have "mixer_ok m \<Longrightarrow> mixer_ok (foldl (\<lambda>m l. config_line l m) m ls)" for ls m
    by (induction ls arbitrary: m) (simp_all add: config_line_ok)
  then show "mixer_ok m \<Longrightarrow> ?thesis" by (cases cfg) (simp_all add: softmixer_read_config_def)
qed

lemma reach_ok: "mixer_reach m \<Longrightarrow> mixer_ok m"
proof (induction rule: mixer_reach.induct)
  case (init cfg)
  show ?case unfolding softmixer_init_def by (intro read_config_ok set_value_ok) simp_all
next
  case (set_value m v)
  then show ?case by (intro set_value_ok) (simp_all add: mixer_ok_def)
qed (simp_all add: mixer_ok_def softmixer_set_active_def softmixer_set_mono_def)

section \<open>Correctness\<close>

lemma mixed_id:
  assumes "k \<in> fixed_kinds" "mixer_real m = 100" "\<not> mix_mono m"
  shows "mixed m k ch (vals k e b) = vals k e b"
  using assms volume_100 [OF assms(1), of _ e b] by (simp add: mixed_def map_idI)

lemma swap_samples_vals:
  assumes k: "k \<in> fixed_kinds" "bits k \<noteq> 8" and al: "Bps k dvd length b"
  shows "\<exists>b'. swap_samples (Bps k) b = Inr b' \<and> length b' = length b \<and>
    vals k SFMT_BE b' = vals k SFMT_LE b \<and> vals k SFMT_LE b' = vals k SFMT_BE b"
proof -
  have kk: "k \<in> kinds" using fixed_kinds_kinds k by blast
  have "swap_endian (length b) (k OR SFMT_LE) b = swap_samples (Bps k) b"
    using k fmt_kind(1) [OF kk LE_endians] fmt_bits(1) [OF kk LE_endians]
    by (elim fixed_kindsE) (simp_all add: swap_endian_def swap_samples_def)
  then show ?thesis using swap_endian_vals [OF k(1) LE_endians al] by simp
qed

text \<open>
  C19: in every state the mixer can reach, for every fixed point format and up to 128 channels,
  the samples are scaled by the volume and clipped, and mixed to their average when mono is on,
  in exact arithmetic: no intermediate value overflows and the byte order does not matter.
\<close>

theorem softmixer_process_values:
  assumes m: "mixer_reach m" and v: "valid_fmt k e" and fmt: "sp_fmt params = k OR e"
    and ch: "1 \<le> sp_channels params" "sp_channels params \<le> 128" and al: "Bps k * nat (sp_channels params) dvd length buf"
  shows "\<exists>out. softmixer_process_buffer m params (Fixed buf) = Inr (Fixed out) \<and> length out = length buf \<and>
    vals k e out = mixed m k (sp_channels params) (vals k e buf)"
proof (cases "mixer_real m = 100 \<and> \<not> mix_mono m")
  case True
  then show ?thesis using mixed_id [OF valid_fmtD(1) [OF v]] by (simp add: softmixer_process_buffer_def)
next
  case False
  note d = valid_fmtD [OF v]
  let ?ch = "sp_channels params"
  have r: "0 \<le> mixer_real m" "mixer_real m \<le> 200" using reach_ok [OF m] by (simp_all add: mixer_ok_def)
  have p: "0 < Bps k" using bits_cases [OF d(1)] by auto
  obtain q where q: "length buf = Bps k * (nat ?ch * q)" using al by (metis dvdE mult.assoc)
  have al1: "Bps k dvd length buf" "nat ?ch dvd length buf div Bps k" using q p by simp_all
  have B: "sfmt_Bps k = Inr (Bps k)" using Bps_fmt [of k 0] d(1,2) by (elim fixed_kindsE) (simp_all add: endians_def)
  have "int (length buf) = int (Bps k) * ?ch * int q" using q ch by simp
  then have md: "int (length buf) mod (int (Bps k) * ?ch) = 0" by simp
  let ?swap = "if e \<noteq> SFMT_NE \<and> Bps k > 1 then swap_samples (Bps k) else Inr"
  have run: "softmixer_process_buffer m params (Fixed buf) =
      bindR (?swap buf) (\<lambda>b. bindR (mix_format m k ?ch (length b) b) (\<lambda>b. bindR (?swap b) (\<lambda>b. Inr (Fixed b))))"
    unfolding softmixer_process_buffer_def if_not_P [OF False]
    using fmt fmt_kind(1,2) [OF d(2,3)] B md ch d(4) by (simp add: Let_def)
  show ?thesis
  proof (cases "e \<noteq> SFMT_NE \<and> Bps k > 1")
    case True
    then have k8: "bits k \<noteq> 8" and e: "e = SFMT_BE" using d(5,6) by (auto simp: SFMT_NE_def)
    obtain b1 where b1: "swap_samples (Bps k) buf = Inr b1" "length b1 = length buf" "vals k SFMT_LE b1 = vals k SFMT_BE buf"
      using swap_samples_vals [OF d(1) k8 al1(1)] by blast
    obtain b2 where b2: "mix_format m k ?ch (length b1) b1 = Inr b2" "length b2 = length b1"
      "vals k SFMT_LE b2 = mixed m k ?ch (vals k SFMT_LE b1)"
      using mix_format_vals [OF d(1) r ch, of b1] al1 b1(2) by auto
    obtain b3 where "swap_samples (Bps k) b2 = Inr b3" "length b3 = length b2" "vals k SFMT_BE b3 = vals k SFMT_LE b2"
      using swap_samples_vals [OF d(1) k8, of b2] al1(1) b1(2) b2(2) by auto
    then show ?thesis using run True b1 b2 e by simp
  next
    case F: False
    have "vals k e b = vals k SFMT_LE b" for b
      using F d(5,6) bits_cases [OF d(1)] vals_8 [of k e b SFMT_LE] vals_not_BE [of e k b] by (auto simp: SFMT_NE_def)
    then show ?thesis using run F mix_format_vals [OF d(1) r ch al1] by auto
  qed
qed

definition loud :: softmixer where
  "loud = softmixer_set_mono 1 (softmixer_set_value 50 (softmixer_init None))"

text \<open>Half the volume and mono: the stereo frame (100, 200) of signed bytes becomes (0, 0) and so on.\<close>

theorem softmixer_process_values_witness:
  "\<exists>out. softmixer_process_buffer loud \<lparr>sp_channels = 2, sp_rate = 44100, sp_fmt = SFMT_S8 OR 0\<rparr> (Fixed [100, 20, 255, 251]) = Inr (Fixed out) \<and>
     vals SFMT_S8 0 out = [30, 30, -1, -1]"
proof -
  have "mixer_reach loud" unfolding loud_def by (intro mixer_reach.intros)
  moreover have "valid_fmt SFMT_S8 0" by (simp add: valid_fmt_def fixed_kinds_def)
  moreover have "mixed loud SFMT_S8 2 (vals SFMT_S8 0 [100, 20, 255, 251]) = [30, 30, -1, -1]" by code_simp
  ultimately show ?thesis
    using softmixer_process_values [of loud SFMT_S8 0 "\<lparr>sp_channels = 2, sp_rate = 44100, sp_fmt = SFMT_S8 OR 0\<rparr>" "[100, 20, 255, 251]"]
    by auto
qed

section \<open>The settings file\<close>

definition mixer_names :: "string list" where
  "mixer_names = [''Active:'', ''Amplification:'', ''Value:'', ''Mono:'']"

text \<open>A line with a name and a number is recognised as that name and no other.\<close>

definition line_ok :: "string \<Rightarrow> int \<Rightarrow> bool" where
  "line_ok name n =
     (let l = name @ SP # show_int n in
      second_number l = Some n \<and> LF \<notin> set l \<and> CR \<notin> set l \<and>
      list_all (\<lambda>p. strncaseeq l p (length p) = (p = name)) mixer_names)"

lemma scan_show:
  assumes "0 \<le> n" "n < 2 ^ 31"
  shows "scan_i (show_int n) = Some n"
proof -
  let ?s = "show_nat (nat n)"
  have s: "show_int n = ?s" "?s \<noteq> []" using assms show_nat_hd by (simp_all add: show_int_def)
  have d: "\<forall>c\<in>set ?s. isdigit c" by (rule show_nat_digits)
  have h: "isdigit (hd ?s)" using d s(2) by (simp add: hd_in_set)
  have "\<forall>c\<in>set ?s. base_digit 10 c" using d hex_digit by blast
  then have t: "takeWhile (base_digit 10) ?s = ?s" by (simp add: takeWhile_eq_all_conv)
  have "foldl (\<lambda>a c. a * 10 + the (hex_val c)) 0 ?s = foldl (\<lambda>a c. a * 10 + digit_val c) 0 ?s"
    using d hex_digit by (intro foldl_cong) auto
  then have b: "scan_base 10 ?s = Some n" using t s(2) show_nat_val [of "nat n"] assms
    unfolding scan_base_def t Let_def by simp
  have w: "wrapS 32 n = n" using assms by (intro wrapS_id) auto
  show ?thesis
  proof (cases "n = 0")
    case True
    have "scan_i (show_int 0) = Some 0" by code_simp
    with True show ?thesis by simp
  next
    case False
    then have "hd ?s \<noteq> CHR ''0''" using show_nat_hd [of "nat n"] assms by auto
    then have "take 1 ?s \<noteq> ''0''" "take 2 ?s \<notin> {''0x'', ''0X''}" using s(2) by (cases ?s; auto)+
    moreover have "hd ?s \<noteq> CHR ''-''" "hd ?s \<noteq> CHR ''+''" using digit_not_sign [OF h] by auto
    ultimately show ?thesis using s b w by (simp add: scan_i_def)
  qed
qed

lemma second_number_show:
  assumes "\<forall>c\<in>set p. \<not> isspace c" "p \<noteq> []" "0 \<le> n" "n < 2 ^ 31"
  shows "second_number (p @ SP # show_int n) = Some n"
proof -
  have sp: "isspace SP" by (simp add: isspace_def)
  have s: "show_int n \<noteq> []" "\<not> isspace (hd (show_int n))"
    using assms(3) show_nat_hd [of "nat n"] show_nat_digits [of "nat n"] digit_not_space by (auto simp: show_int_def hd_in_set)
  then have d: "dropWhile isspace (show_int n) = show_int n" by (cases "show_int n") auto
  have "dropWhile isspace (p @ SP # show_int n) = p @ SP # show_int n" using assms(1,2) by (cases p) auto
  moreover have "takeWhile (\<lambda>c. \<not> isspace c) (p @ SP # show_int n) = p" using assms(1) sp by (simp add: takeWhile_append2)
  ultimately show ?thesis using assms sp d scan_show by (simp add: second_number_def Let_def)
qed

lemma lines_ok:
  assumes "p \<in> set mixer_names" "0 \<le> n" "n \<le> 200"
  shows "line_ok p n"
proof -
  have d: "\<forall>c\<in>set (show_int n). isdigit c" using assms show_nat_digits by (simp add: show_int_def)
  have "\<not> isdigit LF" "\<not> isdigit CR" by (simp_all add: isdigit_def LF_def CR_def)
  with d have e: "LF \<notin> set (show_int n)" "CR \<notin> set (show_int n)" by auto
  have p: "p = ''Active:'' \<or> p = ''Amplification:'' \<or> p = ''Value:'' \<or> p = ''Mono:''" using assms(1) by (simp add: mixer_names_def)
  then have "\<forall>c\<in>set p. \<not> isspace c" "p \<noteq> []" "LF \<notin> set p" "CR \<notin> set p"
    by (auto simp: isspace_def SP_def LF_def CR_def)
  moreover have "SP \<noteq> LF" "SP \<noteq> CR" by (simp_all add: SP_def LF_def CR_def)
  moreover have "list_all (\<lambda>q. strncaseeq (p @ SP # show_int n) q (length q) = (q = p)) mixer_names"
    using p by (elim disjE) (simp_all add: mixer_names_def strncaseeq_def strcaseeq_def tolower_def isupper_def)
  ultimately show ?thesis using second_number_show [of p n] assms e by (simp add: line_ok_def Let_def)
qed

lemma config_line_named:
  assumes "line_ok p n" "p \<in> set mixer_names"
  shows "config_line (p @ SP # show_int n) m =
    (if p = ''Active:'' then m\<lparr>active := n > 0\<rparr>
     else if p = ''Amplification:'' then (if 0 \<le> n \<and> n \<le> 200 then m\<lparr>mixer_amp := n\<rparr> else m)
     else if p = ''Value:'' then (if 0 \<le> n \<and> n \<le> 100 then softmixer_set_value n m else m)
     else m\<lparr>mix_mono := n > 0\<rparr>)"
proof -
  define l where "l = p @ SP # show_int n"
  have s: "second_number l = Some n" using assms(1) by (simp add: line_ok_def Let_def l_def)
  have all: "\<forall>q\<in>set mixer_names. strncaseeq l q (length q) = (q = p)"
    using assms(1) unfolding line_ok_def Let_def l_def [symmetric] list_all_iff by blast
  have c: "strncaseeq l ''Active:'' (length ''Active:'') = (''Active:'' = p)"
    "strncaseeq l ''Amplification:'' (length ''Amplification:'') = (''Amplification:'' = p)"
    "strncaseeq l ''Value:'' (length ''Value:'') = (''Value:'' = p)" "strncaseeq l ''Mono:'' (length ''Mono:'') = (''Mono:'' = p)"
    by (rule bspec [OF all], simp add: mixer_names_def)+
  have "p = ''Active:'' \<or> p = ''Amplification:'' \<or> p = ''Value:'' \<or> p = ''Mono:''" using assms(2) by (simp add: mixer_names_def)
  then show ?thesis
    unfolding l_def [symmetric] config_line_def s Let_def c SOFTMIXER_MIN_def SOFTMIXER_MAX_def by auto
qed

text \<open>
  What the mixer writes when it stops is read back when it starts: all settings are as they
  were, whatever they were before, if the effective volume belongs to the value and the
  amplification.
\<close>

lemma softmixer_config_roundtrip:
  assumes m: "mixer_reach m" and c: "softmixer_set_value (mixer_val m) m = m"
  shows "softmixer_init (softmixer_shutdown True m cfg) = m"
proof -
  have ok: "0 \<le> mixer_val m" "mixer_val m \<le> 100" "0 \<le> mixer_amp m" "mixer_amp m \<le> 200"
    using reach_ok [OF m] by (simp_all add: mixer_ok_def)
  let ?b = "\<lambda>b. of_bool b :: int"
  have l: "line_ok ''Active:'' (?b (active m))" "line_ok ''Amplification:'' (mixer_amp m)" "line_ok ''Value:'' (mixer_val m)"
    "line_ok ''Mono:'' (?b (mix_mono m))"
    using ok by (auto intro!: lines_ok simp: mixer_names_def)
  have n: "LF \<notin> set (p @ SP # show_int n)" "CR \<notin> set (p @ SP # show_int n)" if "line_ok p n" for p n
    using that by (simp_all add: line_ok_def Let_def)
  let ?ls = "[''Active:'' @ SP # show_int (?b (active m)), ''Amplification:'' @ SP # show_int (mixer_amp m),
    ''Value:'' @ SP # show_int (mixer_val m), ''Mono:'' @ SP # show_int (?b (mix_mono m))]"
  have w: "softmixer_write_config m = (?ls ! 0) @ LF # (?ls ! 1) @ LF # (?ls ! 2) @ LF # (?ls ! 3) @ LF # []"
    by (simp add: softmixer_write_config_def)
  have rl: "read_lines (softmixer_write_config m) = ?ls"
    unfolding w by (simp only: nth_Cons_0 nth_Cons_Suc One_nat_def numeral_2_eq_2 numeral_3_eq_3
      read_lines_step [OF n [OF l(1)]] read_lines_step [OF n [OF l(2)]] read_lines_step [OF n [OF l(3)]] read_lines_step [OF n [OF l(4)]])
      (simp add: read_lines_def)
  define m0 where "m0 = softmixer_set_value 100 \<lparr>active = False, mix_mono = False, mixer_val = 0, mixer_amp = 100, mixer_real = 0, mixer_realf = 0\<rparr>"
  have N: "''Active:'' \<in> set mixer_names" "''Amplification:'' \<in> set mixer_names" "''Value:'' \<in> set mixer_names" "''Mono:'' \<in> set mixer_names"
    by (simp_all add: mixer_names_def)
  have "softmixer_init (softmixer_shutdown True m cfg) =
      (softmixer_set_value (mixer_val m) (m0\<lparr>active := active m, mixer_amp := mixer_amp m\<rparr>))\<lparr>mix_mono := mix_mono m\<rparr>"
    unfolding softmixer_init_def softmixer_shutdown_def m0_def [symmetric] softmixer_read_config_def if_True option.case rl foldl.simps
      config_line_named [OF l(1) N(1)] config_line_named [OF l(2) N(2)] config_line_named [OF l(3) N(3)] config_line_named [OF l(4) N(4)]
    using ok by simp
  also have "\<dots> = m"
    using arg_cong [OF c, of mixer_real] arg_cong [OF c, of mixer_realf] arg_cong [OF c, of mixer_val]
    by (simp add: softmixer_set_value_def m0_def Let_def)
  finally show ?thesis .
qed

end
