(* ===== verification/Play_Order.thy ===== *)
theory Play_Order
  imports Plist_Props
begin

text \<open>
  Which file is played next, \<^verbatim>\<open>src/src/moc-2.5.0/audio.c\<close>: the playlist, its shuffled copy and
  the queue, the choice of the next file, the playing thread, and the requests that change the
  lists. The thread and the requests take the same locks; a step of the model is what runs under
  them. Playing a file itself is outside: during a file the user may ask for the next or the
  previous one or stop.
\<close>

section \<open>State\<close>

datatype which_list = No_list | Playlist | Shuffled | Queue

definition STATE_PLAY :: int where "STATE_PLAY = 1"
definition STATE_STOP :: int where "STATE_STOP = 2"
definition STATE_PAUSE :: int where "STATE_PAUSE = 3"

text \<open>
  \<open>thread_running\<close> is true until the thread is waited for, \<open>thread_alive\<close> until it ends.
  \<open>popped\<close> lists the files that \<^verbatim>\<open>server_queue_pop\<close> was called for, \<open>reported\<close> the
  states the clients were told of.
\<close>

record audio =
  playlist :: plist
  shuffled_plist :: plist
  queue :: plist
  curr_plist :: which_list
  curr_playing :: int
  curr_playing_fname :: "string option"
  before_queue_fname :: "string option"
  started_playing_in_queue :: bool
  play_next :: bool
  play_prev :: bool
  stop_playing :: bool
  last_stream_url :: "string option"
  play_state :: int
  prev_state :: int
  thread_running :: bool
  thread_alive :: bool
  popped :: "string list"
  reported :: "int list"

record play_options =
  Shuffle :: bool
  AutoNext :: bool
  Repeat :: bool
  QueueNextSongReturn :: bool

text \<open>What is outside: the file system, the order of names and the random numbers of a shuffle.\<close>

record play_env =
  env_fs :: host_fs
  env_coll :: "string \<Rightarrow> string \<Rightarrow> int"
  env_rand :: "nat \<Rightarrow> int"

definition audio_initialize :: audio where
  "audio_initialize = \<lparr>playlist = plist_init, shuffled_plist = plist_init, queue = plist_init,
     curr_plist = No_list, curr_playing = -1, curr_playing_fname = None, before_queue_fname = None,
     started_playing_in_queue = False, play_next = False, play_prev = False, stop_playing = False,
     last_stream_url = None, play_state = STATE_STOP, prev_state = STATE_STOP, thread_running = False, thread_alive = False,
     popped = [], reported = []\<rparr>"

definition curr_list :: "audio \<Rightarrow> plist result" where
  "curr_list s = (case curr_plist s of No_list \<Rightarrow> Inl Undefined | Playlist \<Rightarrow> Inr (playlist s)
     | Shuffled \<Rightarrow> Inr (shuffled_plist s) | Queue \<Rightarrow> Inr (queue s))"

text \<open>A search for a null pointer fails an assertion of \<^verbatim>\<open>rb_search\<close>.\<close>

definition find_file :: "play_env \<Rightarrow> string option \<Rightarrow> plist \<Rightarrow> int result" where
  "find_file E f p =
     (case f of Some f \<Rightarrow> plist_find_fname (env_coll E) f p
      | None \<Rightarrow> Inl Assert)"

section \<open>The next file\<close>

text \<open>Playing from the queue removes the file from it and tells the clients.\<close>

definition take_from_queue :: "audio \<Rightarrow> audio result" where
  "take_from_queue s =
     bindR (plist_next (queue s) (-1)) (\<lambda>i.
     bindR (item_at (queue s) i) (\<lambda>x.
     bindR (case i_file x of None \<Rightarrow> Inl Undefined | Some f \<Rightarrow> Inr f) (\<lambda>f.
     bindR (plist_delete i (queue s)) (\<lambda>q.
       Inr (s\<lparr>queue := q, curr_plist := Queue, curr_playing := i, popped := popped s @ [f]\<rparr>)))))"

definition shuffle_list :: "play_env \<Rightarrow> plist \<Rightarrow> plist \<Rightarrow> plist result" where
  "shuffle_list E sh p =
     bindR (plist_cat (env_fs E) (env_coll E) sh p) (plist_shuffle (env_coll E) (env_rand E))"

definition choose_list :: "play_env \<Rightarrow> play_options \<Rightarrow> audio \<Rightarrow> audio result" where
  "choose_list E opt s =
     (if Shuffle opt then
        bindR (if plist_count (playlist s) \<noteq> 0 \<and> plist_count (shuffled_plist s) = 0 then
                 bindR (shuffle_list E (shuffled_plist s) (playlist s)) (\<lambda>sh.
                   case curr_playing_fname s of None \<Rightarrow> Inr sh
                   | Some f \<Rightarrow> plist_swap_first_fname (env_coll E) f sh)
               else Inr (shuffled_plist s))
          (\<lambda>sh. Inr (s\<lparr>shuffled_plist := sh, curr_plist := Shuffled\<rparr>))
      else Inr (s\<lparr>curr_plist := Playlist\<rparr>))"

definition go_prev :: "play_options \<Rightarrow> int \<Rightarrow> audio \<Rightarrow> audio result" where
  "go_prev opt pos s =
     bindR (curr_list s) (\<lambda>p.
     let start = (pos = -1 \<or> started_playing_in_queue s) in
     bindR (plist_prev p (if start then -1 else pos)) (\<lambda>i.
     bindR (if i = -1 \<and> Repeat opt then plist_last p else Inr i) (\<lambda>i.
       Inr (s\<lparr>curr_playing := i, started_playing_in_queue := started_playing_in_queue s \<and> \<not> start\<rparr>))))"

definition go_next :: "play_env \<Rightarrow> play_options \<Rightarrow> int \<Rightarrow> audio \<Rightarrow> audio result" where
  "go_next E opt pos s =
     bindR (curr_list s) (\<lambda>p.
     let start = (pos = -1 \<or> started_playing_in_queue s) in
     bindR (plist_next p (if start then -1 else pos)) (\<lambda>i.
     let s = s\<lparr>curr_playing := i, started_playing_in_queue := started_playing_in_queue s \<and> \<not> start\<rparr> in
     if i = -1 \<and> Repeat opt then
       bindR (if Shuffle opt then
                bindR (shuffle_list E (plist_clear (shuffled_plist s)) (playlist s)) (\<lambda>sh.
                  Inr (s\<lparr>shuffled_plist := sh\<rparr>))
              else Inr s) (\<lambda>s.
       bindR (curr_list s) (\<lambda>p. bindR (plist_next p (-1)) (\<lambda>i. Inr (s\<lparr>curr_playing := i\<rparr>))))
     else Inr s))"

definition go_to_another_file :: "play_env \<Rightarrow> play_options \<Rightarrow> audio \<Rightarrow> audio result" where
  "go_to_another_file E opt s =
     (let next = (play_next s \<or> AutoNext opt) in
      if plist_count (queue s) \<noteq> 0 \<and> next then
        take_from_queue (if before_queue_fname s = None \<and> curr_playing_fname s \<noteq> None
                         then s\<lparr>before_queue_fname := curr_playing_fname s\<rparr> else s)
      else
        let s = (if before_queue_fname s \<noteq> None \<and> QueueNextSongReturn opt
                 then s\<lparr>curr_playing_fname := before_queue_fname s, before_queue_fname := None\<rparr> else s) in
        bindR (choose_list E opt s) (\<lambda>s.
        bindR (curr_list s) (\<lambda>p.
        bindR (find_file E (curr_playing_fname s) p) (\<lambda>pos.
        bindR (if pos = -1 \<and> before_queue_fname s \<noteq> None then find_file E (before_queue_fname s) p else Inr pos) (\<lambda>pos.
        bindR (if play_prev s \<and> plist_count p \<noteq> 0 then go_prev opt pos s
               else if next \<and> plist_count p \<noteq> 0 then go_next E opt pos s
               else Inr (if \<not> Repeat opt then s\<lparr>curr_playing := -1\<rparr> else s)) (\<lambda>s.
          Inr (s\<lparr>before_queue_fname := None\<rparr>)))))))"

section \<open>The playing thread\<close>

text \<open>What the user asks for while a file is played.\<close>

datatype request = No_request | Want_next | Want_prev | Want_stop

definition apply_request :: "request \<Rightarrow> audio \<Rightarrow> audio" where
  "apply_request r s = (case r of No_request \<Rightarrow> s | Want_next \<Rightarrow> s\<lparr>play_next := True\<rparr>
     | Want_prev \<Rightarrow> s\<lparr>play_prev := True\<rparr> | Want_stop \<Rightarrow> s\<lparr>stop_playing := True\<rparr>)"

text \<open>One round of the loop of \<^verbatim>\<open>play_thread\<close>, with the file it plays and the one it looks ahead to.\<close>

definition play_one :: "play_env \<Rightarrow> play_options \<Rightarrow> request \<Rightarrow> audio \<Rightarrow> ((string \<times> string option) option \<times> audio) result" where
  "play_one E opt r s =
     bindR (curr_list s) (\<lambda>p.
     bindR (plist_get_file p (curr_playing s)) (\<lambda>f.
     let s = s\<lparr>play_next := False, play_prev := False\<rparr> in
     bindR (case f of
              None \<Rightarrow> Inr (None, s)
            | Some f \<Rightarrow>
                bindR (plist_next p (curr_playing s)) (\<lambda>i.
                bindR (if i \<noteq> -1 then plist_get_file p i else Inr None) (\<lambda>next_file.
                  Inr (Some (f, next_file), apply_request r (s\<lparr>curr_playing_fname := Some f\<rparr>))))) (\<lambda>(out, s).
     let s = s\<lparr>last_stream_url := None\<rparr> in
     bindR (if stop_playing s then Inr (s\<lparr>curr_playing := -1\<rparr>) else go_to_another_file E opt s) (\<lambda>s.
       Inr (out, s)))))"

definition change_state :: "int \<Rightarrow> audio \<Rightarrow> audio" where
  "change_state st s = s\<lparr>prev_state := play_state s, play_state := st, reported := reported s @ [st]\<rparr>"

definition thread_end :: "audio \<Rightarrow> audio" where
  "thread_end s = (change_state STATE_STOP s)\<lparr>curr_playing_fname := None, thread_alive := False\<rparr>"

text \<open>
  The thread with the requests during the files it plays, one for each; it gives the files it has
  played, and whether it has ended or is still playing.
\<close>

fun play_thread :: "play_env \<Rightarrow> play_options \<Rightarrow> request list \<Rightarrow> audio \<Rightarrow> (string list \<times> bool \<times> audio) result" where
  "play_thread E opt [] s = Inr ([], curr_playing s = -1, if curr_playing s = -1 then thread_end s else s)"
| "play_thread E opt (r # rs) s =
     (if curr_playing s = -1 then Inr ([], True, thread_end s)
      else bindR (play_one E opt r s) (\<lambda>(out, s).
        bindR (play_thread E opt rs s) (\<lambda>(fs, e, s).
          Inr (case out of None \<Rightarrow> fs | Some (f, _) \<Rightarrow> f # fs, e, s))))"

text \<open>
  \<^verbatim>\<open>audio_stop\<close> waits for the thread: the round the thread is in ends with its file, and the
  thread with it.
\<close>

definition audio_stop :: "audio \<Rightarrow> audio" where
  "audio_stop s =
     (if thread_running s then
        (if thread_alive s then thread_end (if curr_playing s \<noteq> -1 then s\<lparr>last_stream_url := None, curr_playing := -1\<rparr> else s) else s)
          \<lparr>thread_running := False, stop_playing := False\<rparr>
      else if play_state s = STATE_PAUSE then change_state STATE_STOP (s\<lparr>curr_playing_fname := None\<rparr>)
      else s)"

definition first_or :: "play_env \<Rightarrow> string \<Rightarrow> plist \<Rightarrow> int result" where
  "first_or E fname p =
     (if fname \<noteq> [] then plist_find_fname (env_coll E) fname p
      else if plist_count p \<noteq> 0 then plist_next p (-1) else Inr (-1))"

definition audio_play :: "play_env \<Rightarrow> play_options \<Rightarrow> string \<Rightarrow> audio \<Rightarrow> audio result" where
  "audio_play E opt fname s =
     (let s = audio_stop s in
      bindR (if plist_count (queue s) \<noteq> 0 \<and> fname = [] then
               bindR (take_from_queue s) (\<lambda>s. Inr (s\<lparr>started_playing_in_queue := True\<rparr>))
             else if Shuffle opt then
               bindR (shuffle_list E (plist_clear (shuffled_plist s)) (playlist s)) (\<lambda>sh.
               bindR (plist_swap_first_fname (env_coll E) fname sh) (\<lambda>sh.
               bindR (first_or E fname sh) (\<lambda>i.
                 Inr (s\<lparr>shuffled_plist := sh, curr_plist := Shuffled, curr_playing := i\<rparr>))))
             else
               bindR (first_or E fname (playlist s)) (\<lambda>i. Inr (s\<lparr>curr_plist := Playlist, curr_playing := i\<rparr>))) (\<lambda>s.
        Inr (s\<lparr>thread_running := True, thread_alive := True\<rparr>)))"

definition audio_next :: "audio \<Rightarrow> audio" where
  "audio_next s = (if thread_running s then s\<lparr>play_next := True\<rparr> else s)"

definition audio_prev :: "audio \<Rightarrow> audio" where
  "audio_prev s = (if thread_running s then s\<lparr>play_prev := True\<rparr> else s)"

text \<open>A stream cannot be paused: it is stopped, and its address is kept.\<close>

definition audio_pause :: "play_env \<Rightarrow> audio \<Rightarrow> audio result" where
  "audio_pause E s =
     (if curr_playing s \<noteq> -1 then
        bindR (curr_list s) (\<lambda>p.
        bindR (plist_get_file p (curr_playing s)) (\<lambda>f.
          case f of
            None \<Rightarrow> Inl Undefined
          | Some f \<Rightarrow>
              let s = (if file_type_of (env_fs E) f = F_URL
                       then (audio_stop s)\<lparr>last_stream_url := Some f, curr_playing_fname := Some f\<rparr> else s)
              in Inr (change_state STATE_PAUSE s)))
      else Inr s)"

definition audio_unpause :: "play_env \<Rightarrow> play_options \<Rightarrow> audio \<Rightarrow> audio result" where
  "audio_unpause E opt s =
     (case last_stream_url s of
        Some url \<Rightarrow>
          if file_type_of (env_fs E) url = F_URL then audio_play E opt url s
          else Inr (if curr_playing s \<noteq> -1 then change_state STATE_PLAY s else s)
      | None \<Rightarrow> Inr (if curr_playing s \<noteq> -1 then change_state STATE_PLAY s else s))"

definition audio_state_started_playing :: "audio \<Rightarrow> audio" where
  "audio_state_started_playing s = change_state STATE_PLAY s"

section \<open>Requests that change the lists\<close>

definition audio_plist_add :: "play_env \<Rightarrow> string \<Rightarrow> audio \<Rightarrow> audio result" where
  "audio_plist_add E f s =
     bindR (plist_find_fname (env_coll E) f (playlist s)) (\<lambda>i.
     bindR (if i = -1 then bindR (plist_add (env_fs E) (env_coll E) (Some f) (playlist s)) (\<lambda>(_, p). Inr p) else Inr (playlist s)) (\<lambda>p.
       Inr (s\<lparr>shuffled_plist := plist_clear (shuffled_plist s), playlist := p\<rparr>)))"

definition audio_queue_add :: "play_env \<Rightarrow> string \<Rightarrow> audio \<Rightarrow> audio result" where
  "audio_queue_add E f s =
     bindR (plist_find_fname (env_coll E) f (queue s)) (\<lambda>i.
     bindR (if i = -1 then bindR (plist_add (env_fs E) (env_coll E) (Some f) (queue s)) (\<lambda>(_, p). Inr p) else Inr (queue s)) (\<lambda>q.
       Inr (s\<lparr>queue := q\<rparr>)))"

definition audio_plist_clear :: "audio \<Rightarrow> audio" where
  "audio_plist_clear s = s\<lparr>shuffled_plist := plist_clear (shuffled_plist s), playlist := plist_clear (playlist s)\<rparr>"

definition audio_queue_clear :: "audio \<Rightarrow> audio" where
  "audio_queue_clear s = s\<lparr>queue := plist_clear (queue s)\<rparr>"

definition delete_named :: "play_env \<Rightarrow> string \<Rightarrow> plist \<Rightarrow> plist result" where
  "delete_named E f p = bindR (plist_find_fname (env_coll E) f p) (\<lambda>i. if i \<noteq> -1 then plist_delete i p else Inr p)"

definition audio_plist_delete :: "play_env \<Rightarrow> string \<Rightarrow> audio \<Rightarrow> audio result" where
  "audio_plist_delete E f s =
     bindR (delete_named E f (playlist s)) (\<lambda>p.
     bindR (delete_named E f (shuffled_plist s)) (\<lambda>sh. Inr (s\<lparr>playlist := p, shuffled_plist := sh\<rparr>)))"

definition audio_queue_delete :: "play_env \<Rightarrow> string \<Rightarrow> audio \<Rightarrow> audio result" where
  "audio_queue_delete E f s = bindR (delete_named E f (queue s)) (\<lambda>q. Inr (s\<lparr>queue := q\<rparr>))"

definition audio_get_ftime :: "play_env \<Rightarrow> string \<Rightarrow> audio \<Rightarrow> int result" where
  "audio_get_ftime E f s =
     bindR (plist_find_fname (env_coll E) f (playlist s)) (\<lambda>i.
       if i \<noteq> -1 then
         bindR (get_item_time (playlist s) i) (\<lambda>t.
         bindR (item_at (playlist s) i) (\<lambda>x.
           Inr (if t \<noteq> -1 \<and> i_mtime x = get_mtime (env_fs E) f then t else -1)))
       else Inr (-1))"

definition audio_plist_set_time :: "play_env \<Rightarrow> string \<Rightarrow> int \<Rightarrow> audio \<Rightarrow> audio result" where
  "audio_plist_set_time E f t s =
     bindR (plist_find_fname (env_coll E) f (playlist s)) (\<lambda>i.
       if i \<noteq> -1 then
         bindR (plist_set_item_time i t (playlist s)) (\<lambda>p.
         bindR (item_at p i) (\<lambda>x.
           Inr (s\<lparr>playlist := set_item (nat i) (x\<lparr>i_mtime := get_mtime (env_fs E) f\<rparr>) p\<rparr>)))
       else Inr s)"

definition audio_plist_get_serial :: "audio \<Rightarrow> int" where
  "audio_plist_get_serial s = plist_get_serial (playlist s)"

definition audio_plist_set_serial :: "int \<Rightarrow> audio \<Rightarrow> audio" where
  "audio_plist_set_serial n s = s\<lparr>playlist := plist_set_serial n (playlist s)\<rparr>"

definition audio_plist_move :: "play_env \<Rightarrow> string \<Rightarrow> string \<Rightarrow> audio \<Rightarrow> audio result" where
  "audio_plist_move E f g s = bindR (plist_swap_files (env_coll E) f g (playlist s)) (\<lambda>p. Inr (s\<lparr>playlist := p\<rparr>))"

definition audio_queue_move :: "play_env \<Rightarrow> string \<Rightarrow> string \<Rightarrow> audio \<Rightarrow> audio result" where
  "audio_queue_move E f g s = bindR (plist_swap_files (env_coll E) f g (queue s)) (\<lambda>q. Inr (s\<lparr>queue := q\<rparr>))"

definition audio_queue_get_contents :: "play_env \<Rightarrow> audio \<Rightarrow> plist result" where
  "audio_queue_get_contents E s = plist_cat (env_fs E) (env_coll E) plist_init (queue s)"

end
