(* ===== verification/Play_Order_Spec.thy ===== *)
theory Play_Order_Spec
  imports Play_Order
begin

text \<open>
  The order in which files are played: the queue first, then the list from where it was left, and
  then the thread ends.
\<close>

section \<open>Live items\<close>

definition all_named :: "plist \<Rightarrow> bool" where
  "all_named p \<longleftrightarrow> (\<forall>i<num p. named p i)"

definition file_of :: "plist \<Rightarrow> nat \<Rightarrow> string" where
  "file_of p i = the (i_file (items p ! i))"

definition files_from :: "plist \<Rightarrow> nat \<Rightarrow> string list" where
  "files_from p i = map (file_of p) (live_indices p i (num p))"

definition live :: "plist \<Rightarrow> nat \<Rightarrow> bool" where
  "live p i \<longleftrightarrow> i < num p \<and> \<not> i_deleted (items p ! i)"

lemma live_indices_Cons:
  assumes "live_indices p a (num p) = j # js"
  shows "live p j" and "a \<le> j" and "live_indices p (Suc j) (num p) = js"
proof -
  have f: "filter (\<lambda>i. \<not> i_deleted (items p ! i)) [a..<num p] = j # js" using assms by (simp add: live_indices_def)
  then have "j \<in> set (filter (\<lambda>i. \<not> i_deleted (items p ! i)) [a..<num p])" by simp
  then show l: "live p j" "a \<le> j" by (auto simp: live_def)
  obtain us vs where uv: "[a..<num p] = us @ j # vs" "\<forall>u\<in>set us. i_deleted (items p ! u)"
    "filter (\<lambda>i. \<not> i_deleted (items p ! i)) vs = js"
    using f by (auto simp: filter_eq_Cons_iff)
  have n: "length us < num p - a" using arg_cong [OF uv(1), of length] by simp
  have "[a..<num p] ! length us = j" using uv(1) by simp
  then have j: "j = a + length us" using n by simp
  have "drop (Suc (length us)) [a..<num p] = vs" using uv(1) by simp
  then have "vs = [Suc j..<num p]" using j by (simp add: drop_upt)
  then show "live_indices p (Suc j) (num p) = js" using uv(3) by (simp add: live_indices_def)
qed

lemma find_live:
  assumes "collation coll" "plist_uniq coll p" "all_named p" "live p i"
  shows "plist_find_fname coll (file_of p i) p = Inr (int i)"
proof -
  have n: "named p i" using assms(3,4) by (auto simp: all_named_def live_def)
  then have "name_at p i = file_of p i" by (simp add: name_at_def file_of_def)
  moreover have "i \<in> set (inorder (search_tree_of p))" using assms(2,4) n by (auto simp: plist_uniq_def live_def)
  moreover have "index_ok coll p" using assms(2) by (simp add: plist_uniq_def plist_inv_def)
  ultimately show ?thesis
    using find_found [OF assms(1), of p i "file_of p i"] collation.refl [OF assms(1)] assms(4) by (simp add: live_def)
qed

lemma count_live: "plist_inv coll p \<Longrightarrow> plist_count p = 0 \<longleftrightarrow> live_indices p 0 (num p) = []"
proof -
  assume i: "plist_inv coll p"
  have "(\<Sum>x\<leftarrow>xs. of_bool (\<not> i_deleted x)) = (int (length (filter (\<lambda>x. \<not> i_deleted x) xs)))" for xs
    by (induction xs) auto
  then have c: "plist_count p = int (length (filter (\<lambda>x. \<not> i_deleted x) (items p)))"
    using i by (simp add: plist_count_def plist_inv_def counts_ok_def)
  have "filter (\<lambda>x. \<not> i_deleted x) (items p) = map (\<lambda>i. items p ! i) (live_indices p 0 (num p))"
    using filter_map [of "\<lambda>x. \<not> i_deleted x" "\<lambda>i. items p ! i" "[0..<num p]"] by (simp add: map_nth live_indices_def o_def)
  with c show ?thesis by simp
qed

lemma get_file_live: "all_named p \<Longrightarrow> i < num p \<Longrightarrow> plist_get_file p (int i) = Inr (Some (file_of p i))"
  by (auto simp: plist_get_file_def all_named_def named_def file_of_def)

lemma next_live: "plist_next p (int i) = Inr (case live_indices p (Suc i) (num p) of [] \<Rightarrow> -1 | j # _ \<Rightarrow> int j)"
  using plist_next_live [of "int i" p] by (simp add: nat_add_distrib)

lemma next_first: "plist_next p (-1) = Inr (case live_indices p 0 (num p) of [] \<Rightarrow> -1 | j # _ \<Rightarrow> int j)"
  using plist_next_live [of "-1" p] by simp

text \<open>Taking the first file from the queue.\<close>

lemma take_from_queue_first:
  assumes q: "plist_inv coll (queue s)" "all_named (queue s)" and j: "live_indices (queue s) 0 (num (queue s)) = j # js"
  shows "\<exists>q. take_from_queue s = Inr (s\<lparr>queue := q, curr_plist := Queue, curr_playing := int j, popped := popped s @ [file_of (queue s) j]\<rparr>)
    \<and> plist_inv coll q \<and> all_named q \<and> num q = num (queue s) \<and> live_indices q 0 (num q) = js
    \<and> (\<forall>i<num q. file_of q i = file_of (queue s) i)"
proof -
  let ?p = "queue s"
  have l: "live ?p j" using live_indices_Cons [OF j] by blast
  then obtain q where q': "plist_delete (int j) ?p = Inr q" "plist_inv coll q" "items q = (items ?p)[j := dead_item (items ?p ! j)]"
    using plist_delete_inv [OF q(1)] by (auto simp: live_def)
  have n: "named ?p j" using l q(2) by (auto simp: all_named_def live_def)
  then have f: "item_at ?p (int j) = Inr (items ?p ! j)" "i_file (items ?p ! j) = Some (file_of ?p j)"
    by (auto simp: item_at_def named_def file_of_def)
  have e: "i_file (items q ! i) = i_file (items ?p ! i)" if "i < num q" for i
    using q'(3) that by (cases "i = j") simp_all
  have "live_indices q 0 (num q) = filter (\<lambda>i. i \<noteq> j) (live_indices ?p 0 (num ?p))"
    unfolding live_indices_def filter_filter using q'(3) l by (intro filter_cong) (auto simp: nth_list_update live_def)
  also have "\<dots> = js"
  proof -
    have "distinct (live_indices ?p 0 (num ?p))" by (simp add: live_indices_def)
    then show ?thesis unfolding j by (auto simp: filter_id_conv)
  qed
  finally have "live_indices q 0 (num q) = js" .
  moreover have "all_named q" "\<forall>i<num q. file_of q i = file_of ?p i"
    using q(2) q'(3) e by (auto simp: all_named_def named_def file_of_def)
  moreover have "take_from_queue s = Inr (s\<lparr>queue := q, curr_plist := Queue, curr_playing := int j, popped := popped s @ [file_of ?p j]\<rparr>)"
    using next_first [of ?p] j f q'(1) by (simp add: take_from_queue_def)
  ultimately show ?thesis using q' by auto
qed

section \<open>The order of playing\<close>

text \<open>
  The setting: no shuffling and no repetition, the next file follows by itself, and when the queue
  is empty the list goes on behind the file before it, because the option says so or because the
  files of the queue are not on the list.
\<close>

definition plain :: "play_env \<Rightarrow> play_options \<Rightarrow> plist \<Rightarrow> string set \<Rightarrow> bool" where
  "plain E opt p Q \<longleftrightarrow> collation (env_coll E) \<and> plist_uniq (env_coll E) p \<and> all_named p \<and>
     \<not> Shuffle opt \<and> AutoNext opt \<and> \<not> Repeat opt \<and>
     (QueueNextSongReturn opt \<or> (\<forall>f\<in>Q. \<not> has_name (env_coll E) p f))"

definition idle :: "plist \<Rightarrow> audio \<Rightarrow> bool" where
  "idle p s \<longleftrightarrow> playlist s = p \<and> \<not> started_playing_in_queue s \<and> \<not> stop_playing s"

definition first_or_end :: "nat list \<Rightarrow> int" where
  "first_or_end js = (case js of [] \<Rightarrow> -1 | j # _ \<Rightarrow> int j)"

text \<open>Going on in the list behind item \<open>i\<close>, with an empty queue.\<close>

lemma go_on_in_list:
  assumes pl: "plain E opt p Q" and i: "live p i" and s: "idle p s" "plist_count (queue s) = 0" "\<not> play_prev s"
    and fm: "(before_queue_fname s = None \<and> curr_playing_fname s = Some (file_of p i)) \<or>
      (before_queue_fname s = Some (file_of p i) \<and> (\<exists>g\<in>Q. curr_playing_fname s = Some g))"
  shows "\<exists>s'. go_to_another_file E opt s = Inr s' \<and> idle p s' \<and> queue s' = queue s \<and> popped s' = popped s \<and>
    before_queue_fname s' = None \<and> curr_plist s' = Playlist \<and> curr_playing s' = first_or_end (live_indices p (Suc i) (num p))"
proof -
  let ?c = "env_coll E"
  have c: "collation ?c" "plist_uniq ?c p" "all_named p" "\<not> Shuffle opt" "AutoNext opt" "\<not> Repeat opt"
    using pl by (auto simp: plain_def)
  have inv: "plist_inv ?c p" using c(2) by (simp add: plist_uniq_def)
  have "i \<in> set (live_indices p 0 (num p))" using i by (simp add: live_indices_def live_def)
  then have n: "plist_count p \<noteq> 0" using count_live [OF inv] by auto
  have f: "plist_find_fname ?c (file_of p i) p = Inr (int i)" by (rule find_live [OF c(1-3) i])
  have nx: "plist_next p (int i) = Inr (first_or_end (live_indices p (Suc i) (num p)))"
    by (simp add: next_live first_or_end_def)
  have miss: "plist_find_fname ?c g p = Inr (-1)" if "g \<in> Q" "\<not> QueueNextSongReturn opt" for g
    using find_has_name [OF c(1,2), of g] that pl by (auto simp: plain_def)
  note d = go_to_another_file_def choose_list_def curr_list_def find_file_def go_next_def idle_def Let_def
  show ?thesis
  proof (cases "before_queue_fname s = None \<or> QueueNextSongReturn opt")
    case True
    then show ?thesis using fm s c n f nx by (elim disjE) (auto simp: d)
  next
    case False
    then obtain g where "g \<in> Q" "curr_playing_fname s = Some g" "before_queue_fname s = Some (file_of p i)" using fm by auto
    then show ?thesis using False s c n f nx miss [of g] by (simp add: d)
  qed
qed

text \<open>Requests that do not change the order.\<close>

definition forward :: "request \<Rightarrow> bool" where
  "forward r \<longleftrightarrow> r = No_request \<or> r = Want_next"

text \<open>The state while file \<open>f\<close> is played, at the point where the next one is chosen.\<close>

definition at_end :: "request \<Rightarrow> string \<Rightarrow> audio \<Rightarrow> audio" where
  "at_end r f s = (apply_request r (s\<lparr>play_next := False, play_prev := False, curr_playing_fname := Some f\<rparr>))\<lparr>last_stream_url := None\<rparr>"

lemma at_end_simps [simp]:
  "forward r \<Longrightarrow> playlist (at_end r f s) = playlist s" "forward r \<Longrightarrow> queue (at_end r f s) = queue s"
  "forward r \<Longrightarrow> started_playing_in_queue (at_end r f s) = started_playing_in_queue s" "forward r \<Longrightarrow> stop_playing (at_end r f s) = stop_playing s"
  "forward r \<Longrightarrow> \<not> play_prev (at_end r f s)" "forward r \<Longrightarrow> curr_playing_fname (at_end r f s) = Some f"
  "forward r \<Longrightarrow> before_queue_fname (at_end r f s) = before_queue_fname s" "forward r \<Longrightarrow> popped (at_end r f s) = popped s"
  by (auto simp: at_end_def forward_def apply_request_def)

lemma play_one_file:
  assumes "curr_list s = Inr q" "all_named q" "curr_playing s = int j" "j < num q" "forward r" "\<not> stop_playing s"
  shows "\<exists>nf. play_one E opt r s = bindR (go_to_another_file E opt (at_end r (file_of q j) s)) (\<lambda>s. Inr (Some (file_of q j, nf), s))"
proof -
  have n: "plist_next q (int j) = Inr (first_or_end (live_indices q (Suc j) (num q)))" by (simp add: next_live first_or_end_def)
  obtain nf where "(if first_or_end (live_indices q (Suc j) (num q)) \<noteq> -1 then plist_get_file q (first_or_end (live_indices q (Suc j) (num q))) else Inr None) = Inr nf"
  proof (cases "live_indices q (Suc j) (num q)")
    case (Cons k ks)
    then show ?thesis
      using that get_file_live [OF assms(2), of k] live_indices_Cons(1) [OF Cons] by (auto simp: first_or_end_def live_def)
  qed (auto simp: first_or_end_def)
  then show ?thesis
    using assms n get_file_live [OF assms(2,4)] at_end_simps(4) [OF assms(5), of "file_of q j" s]
    by (intro exI [of _ nf]) (simp add: play_one_def at_end_def Let_def split del: if_split)
qed

lemma thread_list:
  assumes pl: "plain E opt p Q" and rs: "list_all forward rs" and s: "idle p s" "plist_count (queue s) = 0" "before_queue_fname s = None"
    "curr_plist s = Playlist" "curr_playing s = first_or_end js" and js: "js = live_indices p a (num p)" "length js \<le> length rs"
  shows "\<exists>s'. play_thread E opt rs s = Inr (map (file_of p) js, True, s') \<and> playlist s' = p \<and> queue s' = queue s \<and> popped s' = popped s
    \<and> curr_playing s' = -1 \<and> play_state s' = STATE_STOP"
  using rs s js
proof (induction js arbitrary: rs s a)
  case Nil
  then show ?case
    by (cases rs) (auto simp: first_or_end_def idle_def thread_end_def change_state_def)
next
  case (Cons j js)
  have j: "live p j" "live_indices p (Suc j) (num p) = js" using live_indices_Cons [of p a j js] Cons.prems(7) by auto
  obtain r rs' where rs: "rs = r # rs'" using Cons.prems(8) by (cases rs) auto
  have f: "forward r" "list_all forward rs'" using Cons.prems(1) rs by auto
  have an: "all_named p" using pl by (simp add: plain_def)
  have cl: "curr_list s = Inr p" using Cons.prems(2,5) by (simp add: curr_list_def idle_def)
  have cp: "curr_playing s = int j" using Cons.prems(6) by (simp add: first_or_end_def)
  have st: "\<not> stop_playing s" using Cons.prems(2) by (simp add: idle_def)
  obtain nf where one: "play_one E opt r s = bindR (go_to_another_file E opt (at_end r (file_of p j) s)) (\<lambda>s. Inr (Some (file_of p j, nf), s))"
    using play_one_file [OF cl an cp _ f(1) st] j(1) by (auto simp: live_def)
  obtain s1 where s1: "go_to_another_file E opt (at_end r (file_of p j) s) = Inr s1" "idle p s1" "queue s1 = queue s" "popped s1 = popped s"
    "before_queue_fname s1 = None" "curr_plist s1 = Playlist" "curr_playing s1 = first_or_end js"
    using go_on_in_list [OF pl j(1), of "at_end r (file_of p j) s"] Cons.prems(2-4) f(1) j(2) by (auto simp: idle_def)
  obtain s2 where "play_thread E opt rs' s1 = Inr (map (file_of p) js, True, s2)" "playlist s2 = p" "queue s2 = queue s1" "popped s2 = popped s1"
    "curr_playing s2 = -1" "play_state s2 = STATE_STOP"
    using Cons.IH [OF f(2) s1(2) _ s1(5,6,7) j(2) [symmetric]] s1(3) Cons.prems(3,8) rs by auto
  then show ?case using rs cp one s1 by auto
qed

text \<open>
  The rest of the queue and then the list: \<open>q\<close> is the list whose item \<open>j\<close> is played, from the
  queue or, at the start, item \<open>i\<close> of the list itself.
\<close>

lemma thread_queue:
  assumes pl: "plain E opt p Q" and i: "live p i" and rs: "list_all forward rs"
    and s: "idle p s" "plist_inv (env_coll E) (queue s)" "all_named (queue s)" "curr_list s = Inr q" "all_named q" "curr_playing s = int j" "j < num q"
      "(before_queue_fname s = None \<and> file_of q j = file_of p i) \<or> (before_queue_fname s = Some (file_of p i) \<and> file_of q j \<in> Q)"
    and ks: "live_indices (queue s) 0 (num (queue s)) = ks" "set (map (file_of (queue s)) ks) \<subseteq> Q"
      "1 + length ks + length (live_indices p (Suc i) (num p)) \<le> length rs"
  shows "\<exists>s'. play_thread E opt rs s = Inr (file_of q j # map (file_of (queue s)) ks @ files_from p (Suc i), True, s') \<and> playlist s' = p
    \<and> plist_count (queue s') = 0 \<and> popped s' = popped s @ map (file_of (queue s)) ks \<and> curr_playing s' = -1 \<and> play_state s' = STATE_STOP"
  using rs s ks
proof (induction ks arbitrary: rs s q j)
  case Nil
  note pr = Nil.prems
  obtain r rs' where rs: "rs = r # rs'" using pr(12) by (cases rs) auto
  have f: "forward r" "list_all forward rs'" using pr(1) rs by auto
  have st: "\<not> stop_playing s" using pr(2) by (simp add: idle_def)
  have z: "plist_count (queue s) = 0" using count_live [OF pr(3)] pr(10) by simp
  obtain nf where one: "play_one E opt r s = bindR (go_to_another_file E opt (at_end r (file_of q j) s)) (\<lambda>s. Inr (Some (file_of q j, nf), s))"
    using play_one_file [OF pr(5,6,7,8) f(1) st] by blast
  obtain s1 where s1: "go_to_another_file E opt (at_end r (file_of q j) s) = Inr s1" "idle p s1" "queue s1 = queue s" "popped s1 = popped s"
    "before_queue_fname s1 = None" "curr_plist s1 = Playlist" "curr_playing s1 = first_or_end (live_indices p (Suc i) (num p))"
    using go_on_in_list [OF pl i, of "at_end r (file_of q j) s"] pr(2,9) f(1) z by (auto simp: idle_def)
  obtain s2 where "play_thread E opt rs' s1 = Inr (map (file_of p) (live_indices p (Suc i) (num p)), True, s2)" "playlist s2 = p" "queue s2 = queue s1"
    "popped s2 = popped s1" "curr_playing s2 = -1" "play_state s2 = STATE_STOP"
    using thread_list [OF pl f(2) s1(2) _ s1(5,6,7) refl] s1(3) z pr(12) rs by auto
  then show ?case using rs pr(7) one s1 z by (auto simp: files_from_def)
next
  case (Cons k ks)
  note pr = Cons.prems
  obtain r rs' where rs: "rs = r # rs'" using pr(12) by (cases rs) auto
  have f: "forward r" "list_all forward rs'" using pr(1) rs by auto
  have st: "\<not> stop_playing s" using pr(2) by (simp add: idle_def)
  have z: "plist_count (queue s) \<noteq> 0" using count_live [OF pr(3)] pr(10) by simp
  have an: "AutoNext opt" using pl by (simp add: plain_def)
  obtain nf where one: "play_one E opt r s = bindR (go_to_another_file E opt (at_end r (file_of q j) s)) (\<lambda>s. Inr (Some (file_of q j, nf), s))"
    using play_one_file [OF pr(5,6,7,8) f(1) st] by blast
  define t where "t = (if before_queue_fname s = None then (at_end r (file_of q j) s)\<lparr>before_queue_fname := Some (file_of q j)\<rparr> else at_end r (file_of q j) s)"
  have t: "queue t = queue s" "idle p t" "before_queue_fname t = Some (file_of p i)" "popped t = popped s"
    using f(1) pr(2,9) by (auto simp: t_def idle_def)
  have g: "go_to_another_file E opt (at_end r (file_of q j) s) = take_from_queue t"
    using z an f(1) by (simp add: go_to_another_file_def t_def Let_def)
  obtain q1 where q1: "take_from_queue t = Inr (t\<lparr>queue := q1, curr_plist := Queue, curr_playing := int k, popped := popped t @ [file_of (queue s) k]\<rparr>)"
    "plist_inv (env_coll E) q1" "all_named q1" "num q1 = num (queue s)" "live_indices q1 0 (num q1) = ks"
    "\<forall>i<num q1. file_of q1 i = file_of (queue s) i"
    using take_from_queue_first [of "env_coll E" t k ks] pr(3,4,10) t(1) by auto
  let ?s1 = "t\<lparr>queue := q1, curr_plist := Queue, curr_playing := int k, popped := popped t @ [file_of (queue s) k]\<rparr>"
  have k: "k < num q1" using live_indices_Cons(1) [OF pr(10)] q1(4) by (simp add: live_def)
  have fk: "file_of q1 k = file_of (queue s) k" using q1(6) k by blast
  have fks: "map (file_of q1) ks = map (file_of (queue s)) ks"
    using q1(5,6) by (auto simp: live_indices_def)
  have "\<exists>s'. play_thread E opt rs' ?s1 = Inr (file_of q1 k # map (file_of (queue ?s1)) ks @ files_from p (Suc i), True, s') \<and> playlist s' = p
    \<and> plist_count (queue s') = 0 \<and> popped s' = popped ?s1 @ map (file_of (queue ?s1)) ks \<and> curr_playing s' = -1 \<and> play_state s' = STATE_STOP"
    by (rule Cons.IH [OF f(2)]) (use t pr(11,12) q1 k fk fks rs in \<open>auto simp: idle_def curr_list_def\<close>)
  then show ?case using rs pr(7) one g q1(1) fk fks t(4) by auto
qed

section \<open>Correctness\<close>

text \<open>
  C20: the playing thread started on an item of the list plays it, then all files of the queue in
  order, then all items of the list behind it in order, and then it ends, whether the files end by
  themselves or the user asks for the next one; the queue is empty then and the clients were told
  of every file taken from it.
\<close>

theorem play_queue_then_list:
  assumes pl: "plain E opt p (set (files_from (queue s) 0))" and i: "live p i" and rs: "list_all forward rs"
    and s: "playlist s = p" "\<not> started_playing_in_queue s" "\<not> stop_playing s" "before_queue_fname s = None"
      "curr_plist s = Playlist" "curr_playing s = int i"
    and q: "plist_inv (env_coll E) (queue s)" "all_named (queue s)"
    and n: "1 + length (files_from (queue s) 0) + length (files_from p (Suc i)) \<le> length rs"
  shows "\<exists>s'. play_thread E opt rs s = Inr (file_of p i # files_from (queue s) 0 @ files_from p (Suc i), True, s')
    \<and> playlist s' = p \<and> plist_count (queue s') = 0 \<and> popped s' = popped s @ files_from (queue s) 0
    \<and> curr_playing s' = -1 \<and> play_state s' = STATE_STOP"
proof -
  have an: "all_named p" using pl by (simp add: plain_def)
  have d: "idle p s" "curr_list s = Inr p" "i < num p" using s i by (simp_all add: idle_def curr_list_def live_def)
  show ?thesis
    using thread_queue [OF pl i rs d(1) q d(2) an s(6) d(3) _ refl] s(4) n by (simp add: files_from_def)
qed

definition one_file :: "string \<Rightarrow> plist" where
  "one_file f = \<lparr>items = [plist_new_item\<lparr>i_file := Some f\<rparr>], allocated = 64, not_deleted = 1, serial = -1, total_time = 0,
     items_with_time = 0, search_tree_of = Node RB_BLACK 0 rb_null rb_null\<rparr>"

lemma one_file_uniq: "plist_uniq strcmp (one_file f)" "all_named (one_file f)"
  by (auto simp: one_file_def plist_uniq_def inv_defs all_named_def named_def plist_new_item_def time_of_def item_time_def
    search_tree_def rb_shape_def name_at_def)

definition sample_play :: audio where
  "sample_play = audio_initialize\<lparr>playlist := one_file ''/a'', queue := one_file ''/q'', curr_plist := Playlist, curr_playing := 0\<rparr>"

definition play_sample_opt :: play_options where
  "play_sample_opt = \<lparr>Shuffle = False, AutoNext = True, Repeat = False, QueueNextSongReturn = True\<rparr>"

definition play_sample_env :: play_env where
  "play_sample_env = \<lparr>env_fs = sample_fs, env_coll = strcmp, env_rand = (\<lambda>_. 0)\<rparr>"

theorem play_queue_then_list_witness:
  "\<exists>s'. play_thread play_sample_env play_sample_opt [No_request, Want_next] sample_play = Inr ([''/a'', ''/q''], True, s') \<and> play_state s' = STATE_STOP"
proof -
  have f: "files_from (one_file ''/q'') 0 = [''/q'']" "files_from (one_file ''/a'') (Suc 0) = []" "file_of (one_file ''/a'') 0 = ''/a''"
    by (simp_all add: files_from_def one_file_def live_indices_def file_of_def plist_new_item_def)
  have q: "queue sample_play = one_file ''/q''" "playlist sample_play = one_file ''/a''" by (simp_all add: sample_play_def)
  have "plain play_sample_env play_sample_opt (one_file ''/a'') (set (files_from (queue sample_play) 0))"
    using one_file_uniq strcmp.collation_axioms by (simp add: plain_def play_sample_env_def play_sample_opt_def)
  moreover have "live (one_file ''/a'') 0" by (simp add: live_def one_file_def plist_new_item_def)
  ultimately show ?thesis
    using play_queue_then_list [of play_sample_env play_sample_opt "one_file ''/a''" sample_play 0 "[No_request, Want_next]"] one_file_uniq f q
    by (auto simp: sample_play_def audio_initialize_def play_sample_env_def forward_def plist_uniq_def)
qed

text \<open>
  Clearing the playlist after \<^verbatim>\<open>audio_play\<close> has chosen a file and before its thread looks
  at it makes the thread fail an assertion of the search tree, with any options that let it look
  for the next file.
\<close>

lemma play_cleared_list_asserts:
  assumes "plist_find_fname (env_coll E) f (playlist s) = Inr (int i)" "f \<noteq> []" "\<not> Shuffle opt" "\<not> thread_running s"
    "play_state s = STATE_STOP" "curr_playing_fname s = None" "before_queue_fname s = None" "\<not> stop_playing s" "plist_count (queue s) = 0"
  shows "\<exists>s'. audio_play E opt f s = Inr s' \<and> play_thread E opt (r # rs) (audio_plist_clear s') = Inl Assert"
proof -
  let ?s = "s\<lparr>curr_plist := Playlist, curr_playing := int i, thread_running := True, thread_alive := True\<rparr>"
  have "audio_stop s = s" using assms(4,5) by (simp add: audio_stop_def STATE_STOP_def STATE_PAUSE_def)
  then have "audio_play E opt f s = Inr ?s"
    using assms(1-3,9) by (simp add: audio_play_def first_or_def Let_def)
  moreover have "play_one E opt r (audio_plist_clear ?s) = Inl Assert"
    using assms by (simp add: play_one_def curr_list_def plist_get_file_def audio_plist_clear_def plist_clear_def
      go_to_another_file_def choose_list_def find_file_def Let_def)
  ultimately show ?thesis by (auto simp: audio_plist_clear_def)
qed

end
