(* ===== verification/Common.thy ===== *)
theory Common
  imports C_Text
begin

text \<open>
  Helpers of \<^verbatim>\<open>src/src/moc-2.5.0/common.c\<close> and functions on strings of the C library that
  several parts of the player share. \<^verbatim>\<open>fatal\<close> writes a message and exits.
\<close>

section \<open>The C library\<close>

definition EXIT_FATAL :: int where "EXIT_FATAL = 2"

abbreviation fatal :: "'a result" where "fatal \<equiv> Inl (Exit EXIT_FATAL)"

abbreviation backslash :: char where "backslash \<equiv> CHR 0x5C"
abbreviation dquote :: char where "dquote \<equiv> CHR 0x22"

definition isblank :: "char \<Rightarrow> bool" where
  "isblank c \<longleftrightarrow> c = SP \<or> c = CHR 0x09"

text \<open>The sign of the result is what the callers use.\<close>

fun strcasecmp :: "string \<Rightarrow> string \<Rightarrow> int" where
  "strcasecmp [] [] = 0"
| "strcasecmp [] (d # ds) = - int (of_char (tolower d))"
| "strcasecmp (c # cs) [] = int (of_char (tolower c))"
| "strcasecmp (c # cs) (d # ds) =
     (if tolower c = tolower d then strcasecmp cs ds else int (of_char (tolower c)) - int (of_char (tolower d)))"

text \<open>\<^verbatim>\<open>strstr\<close> with the position of the first occurrence.\<close>

fun strstr :: "string \<Rightarrow> string \<Rightarrow> nat option" where
  "strstr [] pat = (if pat = [] then Some 0 else None)"
| "strstr (c # s) pat = (if take (length pat) (c # s) = pat then Some 0 else map_option Suc (strstr s pat))"

lemma strstr_bound: "strstr s pat = Some i \<Longrightarrow> i + length pat \<le> length s \<and> (pat \<noteq> [] \<longrightarrow> 0 < length s)"
proof (induction s arbitrary: i)
  case (Cons c s)
  then show ?case by (auto split: if_splits dest: arg_cong [of _ _ length])
qed (auto split: if_splits)

definition strspn :: "string \<Rightarrow> string \<Rightarrow> nat" where
  "strspn s accept = length (takeWhile (\<lambda>c. c \<in> set accept) s)"

fun strchr :: "string \<Rightarrow> char \<Rightarrow> nat option" where
  "strchr [] c = None"
| "strchr (x # xs) c = (if x = c then Some 0 else map_option Suc (strchr xs c))"

section \<open>Ways to fail\<close>

text \<open>A computation that fails in no other ways than the given ones.\<close>

definition fails_in :: "fault set \<Rightarrow> 'a result \<Rightarrow> bool" where
  "fails_in F r \<longleftrightarrow> (\<forall>f. r = Inl f \<longrightarrow> f \<in> F)"

lemma fails_in_Inr [simp, intro]: "fails_in F (Inr x)"
  by (simp add: fails_in_def)

lemma fails_in_Inl [simp]: "fails_in F (Inl f) \<longleftrightarrow> f \<in> F"
  by (simp add: fails_in_def)

lemma fails_in_bind: "fails_in F m \<Longrightarrow> (\<And>x. m = Inr x \<Longrightarrow> fails_in F (k x)) \<Longrightarrow> fails_in F (bindR m k)"
  by (cases m) auto

lemma fails_in_mono: "fails_in F r \<Longrightarrow> F \<subseteq> G \<Longrightarrow> fails_in G r"
  by (auto simp: fails_in_def)

lemma fails_in_foldR:
  assumes "\<And>x s. x \<in> set xs \<Longrightarrow> P s \<Longrightarrow> fails_in F (f x s) \<and> (\<forall>s'. f x s = Inr s' \<longrightarrow> P s')" and "P s"
  shows "fails_in F (foldR f xs s) \<and> (\<forall>s'. foldR f xs s = Inr s' \<longrightarrow> P s')"
  using assms
proof (induction xs arbitrary: s)
  case (Cons x xs)
  have hd: "fails_in F (f x s)" "\<And>s1. f x s = Inr s1 \<Longrightarrow> P s1" using Cons.prems by auto
  have tl: "fails_in F (foldR f xs s1) \<and> (\<forall>s'. foldR f xs s1 = Inr s' \<longrightarrow> P s')" if "P s1" for s1
    by (rule Cons.IH) (use Cons.prems(1) that in auto)
  show ?case using hd tl by (cases "f x s") auto
qed simp

section \<open>Symbols and times\<close>

definition is_valid_symbol :: "string \<Rightarrow> bool" where
  "is_valid_symbol candidate \<longleftrightarrow>
     (let first = ''+-.0123456789@'';
          valid = ''abcdefghijklmnopqrstuvwxyz'' @ ''ABCDEFGHIJKLMNOPQRSTUVWXYZ'' @ ''0123456789'' @ ''@?!.+-*/<=>:$%^&_~'';
          len = length candidate
      in len > 0 \<and> len = strspn candidate valid \<and> strchr first (hd candidate) = None)"

definition pad :: "char \<Rightarrow> nat \<Rightarrow> string \<Rightarrow> string" where
  "pad c n s = replicate (n - length s) c @ s"

definition sec_to_min :: "int \<Rightarrow> string result" where
  "sec_to_min seconds =
     bindR (guardR (seconds \<ge> 0) Assert) (\<lambda>_.
       Inr (if seconds < 6000 then
              take 5 (pad (CHR ''0'') 2 (show_int (seconds sdiv 60)) @ '':'' @ pad (CHR ''0'') 2 (show_int (seconds smod 60)))
            else if seconds < 10000 * 60 then take 5 (pad SP 4 (show_int (seconds sdiv 60)) @ ''m'')
            else ''!!!!!''))"

text \<open>The path of a file in the directory of the player's settings; \<open>home\<close> is the home directory.\<close>

definition PATH_MAX :: nat where "PATH_MAX = 4096"

definition create_file_name :: "string \<Rightarrow> string option \<Rightarrow> string \<Rightarrow> string result" where
  "create_file_name home moc_dir name =
     (case moc_dir of
        None \<Rightarrow> Inl Undefined
      | Some d \<Rightarrow>
          let fname = (if chr_at d 0 = CHR ''~''
                       then home @ ''/'' @ drop (if chr_at d 1 = CHR ''/'' then 2 else 1) d @ ''/'' @ name
                       else d @ ''/'' @ name)
          in if length fname \<ge> PATH_MAX then fatal else Inr fname)"

section \<open>Replacing in a string\<close>

text \<open>
  \<^verbatim>\<open>str_repl\<close> works in the memory of its argument, \<open>cap\<close> bytes, which it makes larger when
  the string it builds does not fit; \<open>mx\<close> is the size it assumes. With an empty pattern the loop
  does not end.
\<close>

partial_function (option) repl_loop :: "string \<Rightarrow> string \<Rightarrow> nat \<Rightarrow> nat \<Rightarrow> string \<Rightarrow> nat \<Rightarrow> string result option" where
  "repl_loop old new cap mx target s =
     (case strstr (drop s target) old of
        None \<Rightarrow> Some (Inr target)
      | Some i \<Rightarrow>
          let p = s + i;
              len = length target + length new - length old;
              grow = (len + 1 > mx);
              mx' = (if grow then max (len + 1) (mx * 2) else mx);
              cap' = (if grow then mx' else cap)
          in if len + 1 > cap' \<or> length target + 1 > cap' then Some (Inl Undefined)
             else repl_loop old new cap' mx' (take p target @ new @ drop (p + length old) target) (p + length new))"

definition str_repl :: "nat \<Rightarrow> string \<Rightarrow> string \<Rightarrow> string \<Rightarrow> string result option" where
  "str_repl cap target old new = repl_loop old new cap (length target) target 0"

text \<open>Every occurrence from left to right is replaced.\<close>

function replace_all :: "string \<Rightarrow> string \<Rightarrow> string \<Rightarrow> string" where
  "replace_all old new t =
     (if old = [] then t
      else case strstr t old of None \<Rightarrow> t
        | Some i \<Rightarrow> take i t @ new @ replace_all old new (drop (i + length old) t))"
  by pat_completeness auto
termination
  by (relation "measure (\<lambda>(old, new, t). length t)") (auto dest: strstr_bound)

declare replace_all.simps [simp del]

lemma repl_loop_ok:
  assumes "old \<noteq> []" and "length (x @ y) + 1 \<le> cap" and "length (x @ y) \<le> mx" and "mx \<le> cap"
  shows "repl_loop old new cap mx (x @ y) (length x) = Some (Inr (x @ replace_all old new y))"
  using assms
proof (induction old new y arbitrary: x cap mx rule: replace_all.induct)
  case (1 old new y)
  show ?case
  proof (cases "strstr y old")
    case None
    then show ?thesis using 1(2) by (subst repl_loop.simps, subst replace_all.simps) simp
  next
    case (Some i)
    have b: "i + length old \<le> length y" using strstr_bound [OF Some] by blast
    have l: "0 < length old" using 1(2) by simp
    define len where "len = length (x @ y) + length new - length old"
    define mx' where "mx' = (if len + 1 > mx then max (len + 1) (mx * 2) else mx)"
    define cap' where "cap' = (if len + 1 > mx then mx' else cap)"
    have c: "len + 1 \<le> cap'" "length (x @ y) + 1 \<le> cap'" "mx' \<le> cap'" "len \<le> mx'"
      using 1(3,4,5) b l by (auto simp: cap'_def mx'_def)
    let ?x = "x @ take i y @ new"
    let ?y = "drop (i + length old) y"
    have t: "take (length x + i) (x @ y) @ new @ drop (length x + i + length old) (x @ y) = ?x @ ?y" by simp
    have n: "length x + i + length new = length ?x" using b by simp
    have "length (?x @ ?y) = len" using b by (simp add: len_def)
    then have ih: "repl_loop old new cap' mx' (?x @ ?y) (length ?x) = Some (Inr (?x @ replace_all old new ?y))"
      using 1(1) [OF 1(2) Some 1(2), of ?x cap' mx'] c by simp
    have st: "strstr (drop (length x) (x @ y)) old = Some i" using Some by simp
    have nb: "(len + 1 > cap' \<or> length (x @ y) + 1 > cap') = False" using c(1,2) by (simp only: linorder_not_less [symmetric] simp_thms)
    have "repl_loop old new cap mx (x @ y) (length x) = repl_loop old new cap' mx' (?x @ ?y) (length ?x)"
      by (subst repl_loop.simps) (simp only: st nb option.case Let_def len_def [symmetric] mx'_def [symmetric] cap'_def [symmetric] t n if_False)
    then show ?thesis using ih Some 1(2) by (simp add: replace_all.simps [of old new y])
  qed
qed

lemma str_repl_ok:
  "old \<noteq> [] \<Longrightarrow> length target < cap \<Longrightarrow> str_repl cap target old new = Some (Inr (replace_all old new target))"
  using repl_loop_ok [of old "[]" target cap "length target" new] by (simp add: str_repl_def)

section \<open>Trimming\<close>

text \<open>\<^verbatim>\<open>trim\<close> of the first \<open>len\<close> characters.\<close>

definition trim :: "string \<Rightarrow> nat \<Rightarrow> string option" where
  "trim src len =
     (let s = rev (dropWhile isspace (rev (take len src))) in if s = [] then None else Some (dropWhile isspace s))"

end
