(* ===== verification/Resolve_Path.thy ===== *)
theory Resolve_Path
  imports Files Common
begin

text \<open>
  \<^verbatim>\<open>resolve_path\<close> of \<^verbatim>\<open>src/src/moc-2.5.0/files.c\<close>: a file name behind a directory, with
  \<open>.\<close> and \<open>..\<close> removed, and what it computes in terms of the parts of a path.
\<close>

section \<open>The function\<close>


abbreviation slash :: char where "slash \<equiv> CHR ''/''"

text \<open>
  The loop, with the rest of the temporary path, the buffer and the number of its characters;
  the buffer holds the directory until the first character is written.
\<close>

function resolve_loop :: "nat \<Rightarrow> string \<Rightarrow> string \<Rightarrow> nat \<Rightarrow> (string \<times> nat) result" where
  "resolve_loop sz f buf len =
     (if f = [] then Inr (buf, len)
      else if take 4 f = ''/../'' then
        (case strrchr buf slash of
           None \<Rightarrow> Inl Assert
         | Some s \<Rightarrow> if s = 0 then resolve_loop sz (drop 3 f) (take 1 buf) 1
                     else resolve_loop sz (drop 3 f) (take s buf) s)
      else if take 3 f = ''/./'' then resolve_loop sz (drop 2 f) buf len
      else if take 2 f = ''//'' then resolve_loop sz (drop 1 f) buf len
      else if len = sz - 1 then Inl (Exit EXIT_FATAL)
      else resolve_loop sz (tl f) (take len buf @ [hd f]) (len + 1))"
  by pat_completeness auto
termination
  by (relation "measure (\<lambda>(sz, f, buf, len). length f)") auto

declare resolve_loop.simps [simp del]

definition resolve_path :: "nat \<Rightarrow> string \<Rightarrow> string \<Rightarrow> string result" where
  "resolve_path sz buf file_name =
     bindR (guardR (take 1 buf = ''/'') Assert) (\<lambda>_.
       let path = buf @ slash # file_name @ ''/'' in
       if length path \<ge> 2 * PATH_MAX then Inl (Exit EXIT_FATAL)
       else bindR (resolve_loop sz path buf 0) (\<lambda>(buf, len).
         let len = (if len \<ge> 2 \<and> buf ! (len - 1) = CHR ''.'' \<and> buf ! (len - 2) = slash then len - 1 else len);
             len = (if len > 1 \<and> buf ! (len - 1) = slash then len - 1 else len)
         in Inr (take len buf)))"

section \<open>Paths as parts\<close>

definition slashed :: "string list \<Rightarrow> string" where
  "slashed cs = concat (map (Cons slash) cs)"

fun segments :: "string \<Rightarrow> string list" where
  "segments [] = [[]]"
| "segments (c # s) =
     (if c = slash then [] # segments s
      else case segments s of [] \<Rightarrow> [[c]] | t # ts \<Rightarrow> (c # t) # ts)"

lemma slashed_simps [simp]: "slashed [] = []" "slashed (c # cs) = slash # c @ slashed cs"
  "slashed (cs @ ds) = slashed cs @ slashed ds"
  by (simp_all add: slashed_def)

lemma segments_neq_Nil [simp]: "segments s \<noteq> []"
  by (cases s) (auto split: list.split)

lemma slashed_segments: "slashed (segments s) = slash # s"
  by (induction s) (auto split: list.splits)

lemma segments_plain: "t \<in> set (segments s) \<Longrightarrow> slash \<notin> set t"
  by (induction s arbitrary: t) (fastforce split: list.splits if_splits)+

lemma segments_slashed:
  assumes "\<forall>c\<in>set cs. slash \<notin> set c"
  shows "segments (slashed cs) = [] # cs"
proof -
  have *: "segments (c @ s) = (c @ hd (segments s)) # tl (segments s)" if "slash \<notin> set c" for c s
    using that by (induction c) (auto split: list.split)
  show ?thesis using assms by (induction cs) (auto simp: *)
qed

text \<open>A part of a path that names something in its directory.\<close>

definition proper :: "string \<Rightarrow> bool" where
  "proper c \<longleftrightarrow> c \<noteq> [] \<and> c \<noteq> ''.'' \<and> c \<noteq> ''..'' \<and> slash \<notin> set c"

text \<open>Walking along the parts of a path, and whether the walk climbs up to the root.\<close>

definition walk_step :: "string \<Rightarrow> string list \<Rightarrow> string list" where
  "walk_step c st = (if c = [] \<or> c = ''.'' then st else if c = ''..'' then butlast st else st @ [c])"

fun walk :: "string list \<Rightarrow> string list \<Rightarrow> string list" where
  "walk st [] = st"
| "walk st (c # cs) = walk (walk_step c st) cs"

fun climbs :: "string list \<Rightarrow> string list \<Rightarrow> bool" where
  "climbs st [] = False"
| "climbs st (c # cs) \<longleftrightarrow> c = ''..'' \<and> length st \<le> 1 \<or> climbs (walk_step c st) cs"

definition resolved :: "string list \<Rightarrow> string list \<Rightarrow> string" where
  "resolved st cs =
     (if walk st cs = [] then ''/'' else (if climbs st cs then ''/'' else []) @ slashed (walk st cs))"

section \<open>What the loop does\<close>

lemma plain_step:
  assumes "f \<noteq> []" "hd f \<noteq> slash" "len \<noteq> sz - 1"
  shows "resolve_loop sz f buf len = resolve_loop sz (tl f) (take len buf @ [hd f]) (len + 1)"
  using assms by (subst resolve_loop.simps) (cases f, auto)

lemma plain_part:
  assumes "slash \<notin> set c" "length buf + length c < sz"
  shows "resolve_loop sz (c @ f) buf (length buf) = resolve_loop sz f (buf @ c) (length buf + length c)"
  using assms
proof (induction c arbitrary: buf)
  case (Cons a c)
  have "resolve_loop sz ((a # c) @ f) buf (length buf) = resolve_loop sz (c @ f) (buf @ [a]) (length (buf @ [a]))"
    using Cons.prems by (subst plain_step) auto
  then show ?case using Cons.IH [of "buf @ [a]"] Cons.prems by simp
qed simp

lemma take_slash_part:
  assumes "proper c"
  shows "take 4 (slash # c @ slash # s) \<noteq> ''/../'' \<and> take 3 (slash # c @ slash # s) \<noteq> ''/./''
    \<and> take 2 (slash # c @ slash # s) \<noteq> ''//''"
proof -
  obtain a d where c: "c = a # d" "a \<noteq> slash" using assms by (cases c) (auto simp: proper_def)
  show ?thesis
  proof (cases d)
    case Nil
    with c assms show ?thesis by (auto simp: proper_def)
  next
    case (Cons b e)
    with c assms show ?thesis by (cases e) (auto simp: proper_def)
  qed
qed

lemma proper_part:
  assumes "proper c" "len + length c + 1 < sz" "len \<le> length buf"
  shows "resolve_loop sz (slash # c @ slash # s) buf len
    = resolve_loop sz (slash # s) (take len buf @ slash # c) (len + length c + 1)"
proof -
  have "len \<noteq> sz - 1" using assms(2) by linarith
  then have "resolve_loop sz (slash # c @ slash # s) buf len = resolve_loop sz (c @ slash # s) (take len buf @ [slash]) (len + 1)"
    using take_slash_part [OF assms(1), of s] by (subst resolve_loop.simps) (simp del: take_append)
  also have "\<dots> = resolve_loop sz (slash # s) (take len buf @ slash # c) (len + length c + 1)"
    using plain_part [of c "take len buf @ [slash]" sz "slash # s"] assms by (simp add: proper_def)
  finally show ?thesis .
qed

lemma skip_part:
  "resolve_loop sz (slash # slash # s) buf len = resolve_loop sz (slash # s) buf len"
  "resolve_loop sz (slash # CHR ''.'' # slash # s) buf len = resolve_loop sz (slash # s) buf len"
  by (subst (1) resolve_loop.simps, simp)+

lemma up_part:
  "strrchr buf slash = Some 0 \<Longrightarrow>
    resolve_loop sz (slash # CHR ''.'' # CHR ''.'' # slash # s) buf len = resolve_loop sz (slash # s) (take 1 buf) 1"
  "strrchr buf slash = Some k \<Longrightarrow> 0 < k \<Longrightarrow>
    resolve_loop sz (slash # CHR ''.'' # CHR ''.'' # slash # s) buf len = resolve_loop sz (slash # s) (take k buf) k"
  by (subst (1) resolve_loop.simps, simp add: numeral_3_eq_3)+

text \<open>
  At a slash the buffer holds the parts walked so far, behind an additional slash once the
  walk has climbed to the root.
\<close>

definition holds :: "string list \<Rightarrow> bool \<Rightarrow> string \<Rightarrow> nat \<Rightarrow> bool" where
  "holds st b buf len \<longleftrightarrow> list_all proper st \<and>
     (len = length buf \<and> buf = (if b then ''/'' else []) @ slashed st \<and> buf \<noteq> [] \<or> len = 0 \<and> buf = ''/'' \<and> st = [] \<and> \<not> b)"

lemma slashed_snoc_slash: "proper c \<Longrightarrow> strrchr (s @ slash # c) slash = Some (length s)"
  by (rule strrchr_split) (simp add: proper_def)

lemma holds_up:
  assumes "holds st b buf len"
  shows "\<exists>buf' len'. resolve_loop sz (slash # CHR ''.'' # CHR ''.'' # slash # s) buf len = resolve_loop sz (slash # s) buf' len'
    \<and> holds (butlast st) (b \<or> length st \<le> 1) buf' len' \<and> len' \<le> len + 1"
proof (cases st rule: rev_cases)
  case Nil
  then have "buf = ''/''" using assms by (auto simp: holds_def split: if_splits)
  then have "resolve_loop sz (slash # CHR ''.'' # CHR ''.'' # slash # s) buf len = resolve_loop sz (slash # s) ''/'' 1"
    by (subst up_part(1)) auto
  then show ?thesis using Nil by (intro exI [of _ "''/''"] exI [of _ 1]) (auto simp: holds_def)
next
  case (snoc st' c)
  let ?b = "(if b then ''/'' else []) @ slashed st'"
  have h: "buf = ?b @ slash # c" "proper c" "len = length buf" "list_all proper st'"
    using assms by (auto simp: holds_def snoc)
  have r: "strrchr buf slash = Some (length ?b)" unfolding h(1) by (rule slashed_snoc_slash [OF h(2)])
  show ?thesis
  proof (cases "?b = []")
    case True
    then have e: "st' = []" "\<not> b" by (auto split: if_splits) (cases st', auto)+
    then have "resolve_loop sz (slash # CHR ''.'' # CHR ''.'' # slash # s) buf len = resolve_loop sz (slash # s) ''/'' 1"
      using r h by (subst up_part(1)) auto
    then show ?thesis using e snoc by (intro exI [of _ "''/''"] exI [of _ 1]) (auto simp: holds_def)
  next
    case False
    then have l: "0 < length ?b" by blast
    have st: "(b \<or> length st \<le> 1) = b" using False snoc by (cases st') (auto split: if_splits)
    have "resolve_loop sz (slash # CHR ''.'' # CHR ''.'' # slash # s) buf len = resolve_loop sz (slash # s) (take (length ?b) buf) (length ?b)"
      by (rule up_part(2) [OF r l])
    then have "resolve_loop sz (slash # CHR ''.'' # CHR ''.'' # slash # s) buf len = resolve_loop sz (slash # s) ?b (length ?b)"
      unfolding h(1) by simp
    then show ?thesis using False h snoc unfolding st by (intro exI [of _ ?b] exI [of _ "length ?b"]) (auto simp: holds_def)
  qed
qed

lemma holds_step:
  assumes "holds st b buf len" "slash \<notin> set c" "len + length c + 1 < sz"
  shows "\<exists>buf' len'. resolve_loop sz (slash # c @ slash # s) buf len = resolve_loop sz (slash # s) buf' len'
    \<and> holds (walk_step c st) (b \<or> c = ''..'' \<and> length st \<le> 1) buf' len' \<and> len' \<le> len + length c + 1"
proof -
  consider "c = []" | "c = ''.''" | "c = ''..''" | "proper c" using assms(2) by (auto simp: proper_def)
  then show ?thesis
  proof cases
    case 3
    then show ?thesis using holds_up [OF assms(1), of sz s] by (auto simp: walk_step_def) fastforce
  next
    case 4
    have l: "len \<le> length buf" using assms(1) by (auto simp: holds_def)
    have "holds (st @ [c]) b (take len buf @ slash # c) (len + length c + 1)"
      using assms(1) 4 by (auto simp: holds_def)
    then show ?thesis using proper_part [OF 4 assms(3) l] 4 by (auto simp: walk_step_def proper_def)
  next
    case 1
    then show ?thesis using assms(1) by (intro exI [of _ buf] exI [of _ len]) (simp add: walk_step_def skip_part)
  next
    case 2
    then show ?thesis using assms(1) by (intro exI [of _ buf] exI [of _ len]) (simp add: walk_step_def skip_part)
  qed
qed

lemma holds_walk:
  assumes "holds st b buf len" "\<forall>c\<in>set cs. slash \<notin> set c" "len + length (slashed cs) + 1 < sz"
  shows "\<exists>buf' len'. resolve_loop sz (slashed cs @ ''/'') buf len = resolve_loop sz ''/'' buf' len'
    \<and> holds (walk st cs) (b \<or> climbs st cs) buf' len' \<and> len' + 1 < sz"
  using assms
proof (induction cs arbitrary: st b buf len)
  case (Cons c cs)
  obtain s where s: "slashed cs @ ''/'' = slash # s" by (cases cs) auto
  obtain buf' len' where h: "resolve_loop sz (slash # c @ slash # s) buf len = resolve_loop sz (slash # s) buf' len'"
    "holds (walk_step c st) (b \<or> c = ''..'' \<and> length st \<le> 1) buf' len'" "len' \<le> len + length c + 1"
    using holds_step [OF Cons.prems(1), of c sz s] Cons.prems(2,3) by auto
  have "\<exists>buf2 len2. resolve_loop sz (slashed cs @ ''/'') buf' len' = resolve_loop sz ''/'' buf2 len2
    \<and> holds (walk (walk_step c st) cs) ((b \<or> c = ''..'' \<and> length st \<le> 1) \<or> climbs (walk_step c st) cs) buf2 len2 \<and> len2 + 1 < sz"
    using h(3) Cons.prems by (intro Cons.IH [OF h(2)]) auto
  then show ?case using h(1) unfolding s [symmetric] by (auto simp: disj_assoc)
qed auto

lemma last_slash:
  assumes "holds st b buf len" "len + 1 < sz"
  shows "resolve_loop sz ''/'' buf len = Inr (take len buf @ ''/'', len + 1)"
proof -
  have "resolve_loop sz [] b l = Inr (b, l)" for b l by (simp add: resolve_loop.simps)
  then show ?thesis using assms(2) by (subst resolve_loop.simps) simp
qed

text \<open>The result, from the state of the loop before the last slash.\<close>

lemma resolve_end:
  assumes "resolve_loop sz (buf @ slash # file_name @ ''/'') buf 0 = resolve_loop sz ''/'' buf' len'"
    and "holds st b buf' len'" "len' + 1 < sz" and "take 1 buf = ''/''" "length buf + length file_name + 2 < 2 * PATH_MAX"
  shows "resolve_path sz buf file_name = Inr (if st = [] then ''/'' else (if b then ''/'' else []) @ slashed st)"
proof -
  have "resolve_loop sz (buf @ slash # file_name @ ''/'') buf 0 = Inr (take len' buf' @ ''/'', len' + 1)"
    using assms(1) last_slash [OF assms(2,3)] by simp
  moreover have l: "length (take len' buf') = len'" using assms(2) by (auto simp: holds_def)
  ultimately have r: "resolve_path sz buf file_name = Inr (take (if 0 < len' then len' else 1) (take len' buf' @ ''/''))"
    using assms(4,5) l by (simp add: resolve_path_def Let_def nth_append)
  consider "len' = length buf'" "buf' = (if b then ''/'' else []) @ slashed st" "buf' \<noteq> []" | "len' = 0" "st = []"
    using assms(2) unfolding holds_def by blast
  then show ?thesis
  proof cases
    case 1
    then have "0 < len'" by blast
    with r 1(1) have "resolve_path sz buf file_name = Inr buf'" by simp
    then show ?thesis using 1(2,3) by (cases b; cases st) auto
  qed (use r in simp)
qed

lemma resolve_path_dir:
  assumes "list_all proper ds" "length (slashed ds) + length file_name + 2 < 2 * PATH_MAX"
    "length (slashed ds) + length file_name + 2 < sz" and ds: "ds \<noteq> []"
  shows "resolve_path sz (slashed ds) file_name = Inr (resolved ds (segments file_name))"
proof -
  obtain d es where d: "ds = d # es" "proper d" "list_all proper es" using ds assms(1) by (cases ds) auto
  let ?cs = "es @ segments file_name"
  have f: "slashed ds @ slash # file_name @ ''/'' = slash # d @ slashed ?cs @ ''/''"
    using slashed_segments [of file_name] by (simp add: d)
  obtain s where s: "slashed ?cs @ ''/'' = slash # s" by (cases ?cs) auto
  have "resolve_loop sz (slash # d @ slash # s) (slashed ds) 0 = resolve_loop sz (slash # s) (slash # d) (length d + 1)"
    using proper_part [OF d(2), of 0 sz "slashed ds" s] assms(3) d(1) by simp
  then have 1: "resolve_loop sz (slashed ds @ slash # file_name @ ''/'') (slashed ds) 0 = resolve_loop sz (slashed ?cs @ ''/'') (slash # d) (length d + 1)"
    unfolding f s .
  have h: "holds [d] False (slash # d) (length d + 1)" using d(2) by (simp add: holds_def)
  have p: "\<forall>c\<in>set ?cs. slash \<notin> set c" using d(3) segments_plain by (auto simp: list_all_iff proper_def)
  have l: "length d + 1 + length (slashed ?cs) + 1 < sz" using assms(3) slashed_segments [of file_name] by (simp add: d)
  obtain buf' len' where w: "resolve_loop sz (slashed ?cs @ ''/'') (slash # d) (length d + 1) = resolve_loop sz ''/'' buf' len'"
    "holds (walk [d] ?cs) (climbs [d] ?cs) buf' len'" "len' + 1 < sz"
    using holds_walk [OF h p l] by (simp only: simp_thms) blast
  have *: "walk st (es @ xs) = walk (st @ es) xs" "climbs st (es @ xs) = climbs (st @ es) xs" if "list_all proper es" for st es xs
    using that by (induction es arbitrary: st) (auto simp: walk_step_def proper_def)
  have "take 1 (slashed ds) = ''/''" by (simp add: d)
  then show ?thesis using resolve_end [OF 1 [unfolded w(1)] w(2,3)] assms(2) * [OF d(3)] by (simp add: resolved_def d)
qed

lemma resolve_path_root:
  assumes "length file_name + 3 < 2 * PATH_MAX" "length file_name + 3 < sz"
  shows "resolve_path sz ''/'' file_name = Inr (resolved [] (segments file_name))"
proof -
  let ?cs = "[] # segments file_name"
  have h: "holds [] False ''/'' 0" by (simp add: holds_def)
  have f: "''/'' @ slash # file_name @ ''/'' = slashed ?cs @ ''/''" using slashed_segments [of file_name] by simp
  have p: "\<forall>c\<in>set ?cs. slash \<notin> set c" using segments_plain by auto
  have l: "0 + length (slashed ?cs) + 1 < sz" using assms(2) slashed_segments [of file_name] by simp
  obtain buf' len' where w: "resolve_loop sz (slashed ?cs @ ''/'') ''/'' 0 = resolve_loop sz ''/'' buf' len'"
    "holds (walk [] ?cs) (climbs [] ?cs) buf' len'" "len' + 1 < sz"
    using holds_walk [OF h p l] by (simp only: simp_thms) blast
  have "walk [] ?cs = walk [] (segments file_name)" "climbs [] ?cs = climbs [] (segments file_name)"
    by (simp_all add: walk_step_def)
  then show ?thesis using resolve_end [OF w(1) [folded f] w(2,3)] assms(1) by (simp add: resolved_def)
qed

lemma walk_proper: "list_all proper st \<Longrightarrow> \<forall>c\<in>set cs. slash \<notin> set c \<Longrightarrow> list_all proper (walk st cs)"
proof (induction cs arbitrary: st)
  case (Cons c cs)
  have "list_all proper (walk_step c st)"
    using Cons.prems by (auto simp: walk_step_def proper_def list_all_iff dest: in_set_butlastD)
  then show ?case using Cons by simp
qed simp

text \<open>A resolved name is left as it is.\<close>

lemma resolved_id: "list_all proper cs \<Longrightarrow> cs \<noteq> [] \<Longrightarrow> resolved [] (segments (slashed cs)) = slashed cs"
proof -
  assume cs: "list_all proper cs" "cs \<noteq> []"
  then have "\<forall>c\<in>set cs. slash \<notin> set c" by (auto simp: list_all_iff proper_def)
  then have s: "segments (slashed cs) = [] # cs" by (rule segments_slashed)
  have "walk st cs = st @ cs \<and> \<not> climbs st cs" for st
    using cs(1) by (induction cs arbitrary: st) (auto simp: walk_step_def proper_def)
  then show ?thesis using cs(2) by (simp add: resolved_def s walk_step_def)
qed

section \<open>Correctness\<close>

definition directory :: "string list \<Rightarrow> string" where
  "directory ds = (if ds = [] then ''/'' else slashed ds)"

lemma tokens_slashed: "list_all proper cs \<Longrightarrow> tokens ''/'' (slashed cs) = cs"
proof (induction cs)
  case (Cons c cs)
  then have c: "c \<noteq> []" "set c \<inter> set ''/'' = {}" by (auto simp: proper_def)
  have "tokens ''/'' (slashed (c # cs)) = tokens ''/'' (c @ slashed cs)" by (simp add: tokens_skip)
  also have "\<dots> = c # tokens ''/'' (slashed cs)"
  proof (cases cs)
    case (Cons d ds)
    then show ?thesis using tokens_cons [OF c, of slash] tokens_skip [of slash "''/''"] by simp
  qed (simp add: tokens_single [OF c])
  finally show ?case using Cons by simp
qed simp

text \<open>
  C21: for a directory without \<open>.\<close> and \<open>..\<close> in its name and every file name, if both fit into the
  buffers, \<open>resolve_path\<close> gives an absolute path whose parts are those of the walk from the
  directory along the parts of the name. It starts with two slashes instead of one exactly
  when the walk climbs up to the root and down again, and does not end with one.
\<close>

theorem resolve_path_correct:
  assumes ds: "list_all proper ds" and l: "length (slashed ds) + length file_name + 3 < 2 * PATH_MAX"
    and sz: "length (slashed ds) + length file_name + 3 < sz"
  shows "\<exists>r. resolve_path sz (directory ds) file_name = Inr r \<and> tokens ''/'' r = walk ds (segments file_name) \<and> take 1 r = ''/''
    \<and> (take 2 r = ''//'' \<longleftrightarrow> climbs ds (segments file_name) \<and> walk ds (segments file_name) \<noteq> [])
    \<and> (r \<noteq> ''/'' \<longrightarrow> last r \<noteq> slash)"
proof (intro exI conjI)
  let ?cs = "segments file_name" and ?r = "resolved ds (segments file_name)"
  have w: "list_all proper (walk ds ?cs)" using walk_proper [OF ds] segments_plain by blast
  show "resolve_path sz (directory ds) file_name = Inr ?r"
    using resolve_path_root [of file_name sz] resolve_path_dir [OF ds, of file_name sz] l sz by (simp add: directory_def)
  show "tokens ''/'' ?r = walk ds ?cs"
    using tokens_slashed [OF w] by (simp add: resolved_def tokens_skip)
  show "take 1 ?r = ''/''" by (cases "walk ds ?cs") (auto simp: resolved_def)
  show "take 2 ?r = ''//'' \<longleftrightarrow> climbs ds ?cs \<and> walk ds ?cs \<noteq> []"
    using w by (cases "walk ds ?cs") (auto simp: resolved_def proper_def neq_Nil_conv)
  show "?r \<noteq> ''/'' \<longrightarrow> last ?r \<noteq> slash"
    using w by (cases "walk ds ?cs" rule: rev_cases) (auto simp: resolved_def proper_def dest: last_in_set)
qed

theorem resolve_path_correct_witness:
  "list_all proper [''home'', ''music''] \<and>
   (\<exists>r. resolve_path 8192 ''/home/music'' ''./live//../../a.mp3'' = Inr r \<and> tokens ''/'' r = [''home'', ''a.mp3''] \<and> take 2 r \<noteq> ''//'') \<and>
   (\<exists>r. resolve_path 8192 ''/music'' ''../a.mp3'' = Inr r \<and> tokens ''/'' r = [''a.mp3''] \<and> take 2 r = ''//'')"
proof -
  have p: "list_all proper [''home'', ''music'']" "list_all proper [''music'']" by code_simp+
  have d: "directory [''home'', ''music''] = ''/home/music''" "directory [''music''] = ''/music''" by code_simp+
  have w: "walk [''home'', ''music''] (segments ''./live//../../a.mp3'') = [''home'', ''a.mp3'']"
    "walk [''music''] (segments ''../a.mp3'') = [''a.mp3'']" by code_simp+
  have c: "\<not> climbs [''home'', ''music''] (segments ''./live//../../a.mp3'')" "climbs [''music''] (segments ''../a.mp3'')" by code_simp+
  have l: "length (slashed [''home'', ''music'']) + length ''./live//../../a.mp3'' + 3 < 2 * PATH_MAX"
    "length (slashed [''home'', ''music'']) + length ''./live//../../a.mp3'' + 3 < 8192"
    "length (slashed [''music'']) + length ''../a.mp3'' + 3 < 2 * PATH_MAX" "length (slashed [''music'']) + length ''../a.mp3'' + 3 < 8192"
    by (simp_all add: PATH_MAX_def)
  show ?thesis
    using p resolve_path_correct [OF p(1) l(1,2)] resolve_path_correct [OF p(2) l(3,4)] unfolding d w using c by auto
qed

end
