(* ===== verification/Title.thy ===== *)
theory Title
  imports Plist C_Text Resolve_Path
begin

text \<open>
  Titles of songs, \<^verbatim>\<open>title_expn_subs\<close>, \<^verbatim>\<open>do_title_expn\<close> and \<^verbatim>\<open>build_title\<close> of
  \<^verbatim>\<open>src/src/moc-2.5.0/playlist.c\<close>: a format with places for the tags and for conditions on them,
  expanded into a buffer of fixed size. \<^verbatim>\<open>fatal\<close> is \<open>Exit EXIT_FATAL\<close>.
\<close>

section \<open>The expansion\<close>

abbreviation percent :: char where "percent \<equiv> CHR ''%''"

definition if_not_empty :: "string option \<Rightarrow> string option" where
  "if_not_empty s = (if s = Some [] then None else s)"

definition title_expn_subs :: "char \<Rightarrow> file_tags option \<Rightarrow> string option result" where
  "title_expn_subs c tags =
     (if c = CHR ''n'' then
        Inr (case tags of None \<Rightarrow> None | Some t \<Rightarrow> if track t = -1 then None else Some (take 15 (show_int (track t))))
      else if c = CHR ''a'' then Inr (case tags of None \<Rightarrow> None | Some t \<Rightarrow> if_not_empty (artist t))
      else if c = CHR ''A'' then Inr (case tags of None \<Rightarrow> None | Some t \<Rightarrow> if_not_empty (album t))
      else if c = CHR ''t'' then Inr (case tags of None \<Rightarrow> None | Some t \<Rightarrow> if_not_empty (title t))
      else fatal)"

text \<open>
  Copying a branch of a condition up to the character that ends it, and skipping one. Both give
  the text from that character on; \<open>n\<close> is the number of characters copied so far.
\<close>

fun copy_until :: "char \<Rightarrow> nat \<Rightarrow> bool \<Rightarrow> string \<Rightarrow> (string \<times> string) result" where
  "copy_until stop n esc [] = fatal"
| "copy_until stop n esc (c # cs) =
     (if esc \<or> c \<noteq> stop then
        if n = 254 then fatal
        else bindR (copy_until stop (n + 1) (c = backslash) cs) (\<lambda>(e, r). Inr (c # e, r))
      else Inr ([], c # cs))"

fun eat_until :: "char \<Rightarrow> bool \<Rightarrow> string \<Rightarrow> string result" where
  "eat_until stop esc [] = fatal"
| "eat_until stop esc (c # cs) =
     (if esc \<or> c \<noteq> stop then eat_until stop (\<not> esc \<and> c = backslash) cs else Inr (c # cs))"

text \<open>The chosen branch of a condition, and the text from its closing parenthesis on.\<close>

definition branch :: "bool \<Rightarrow> char \<Rightarrow> string \<Rightarrow> (string \<times> string) result" where
  "branch b separator f =
     (if f = [] then fatal
      else if b then
        bindR (copy_until separator 0 False f) (\<lambda>(e, r). bindR (eat_until (CHR '')'') False r) (\<lambda>r. Inr (e, r)))
      else
        bindR (eat_until separator False f) (\<lambda>r. copy_until (CHR '')'') 0 False (tl r)))"

lemma copy_until_length: "copy_until stop n esc f = Inr (e, r) \<Longrightarrow> length e + length r = length f \<and> r \<noteq> []"
  by (induction stop n esc f arbitrary: e r rule: copy_until.induct) (auto simp: bindR_eq_Inr split: if_splits)

lemma eat_until_length: "eat_until stop esc f = Inr r \<Longrightarrow> length r \<le> length f \<and> r \<noteq> []"
  by (induction stop esc f arbitrary: r rule: eat_until.induct) (auto split: if_splits)

lemma branch_length: "branch b sp f = Inr (e, r) \<Longrightarrow> length e \<le> length f \<and> length r \<le> length f \<and> r \<noteq> []"
  by (fastforce simp: branch_def bindR_eq_Inr split: if_splits dest: copy_until_length eat_until_length)

text \<open>
  Writing a text and its terminator at a position of the buffer, whose last index is \<open>sz\<close>, and
  appending at most \<open>n\<close> characters to the text in it.
\<close>

definition write_at :: "int \<Rightarrow> int \<Rightarrow> string \<Rightarrow> string \<Rightarrow> string result" where
  "write_at sz i t dest =
     (if 0 \<le> i \<and> i \<le> int (length dest) \<and> i + int (length t) \<le> sz then Inr (take (nat i) dest @ t) else Inl Undefined)"

definition append_n :: "int \<Rightarrow> string \<Rightarrow> int \<Rightarrow> string \<Rightarrow> string result" where
  "append_n sz h n dest = write_at sz (int (length dest)) (take (nat n) h) dest"

text \<open>
  The loop with the buffer, its size and the free space, which a tag that does not fit makes
  negative.
\<close>

function title_loop :: "file_tags option \<Rightarrow> string \<Rightarrow> int \<Rightarrow> string \<Rightarrow> int \<Rightarrow> bool \<Rightarrow> string result" where
  "title_loop tags fmt sz dest free esc =
     (if free > 0 \<and> fmt \<noteq> [] then
        if hd fmt = percent \<and> \<not> esc then
          (case tl fmt of
             [] \<Rightarrow> fatal
           | c # f1 \<Rightarrow>
               if c = CHR ''('' then
                 (case f1 of
                    [] \<Rightarrow> fatal
                  | x # f2 \<Rightarrow>
                      bindR (title_expn_subs x tags) (\<lambda>h.
                        case f2 of
                          [] \<Rightarrow> fatal
                        | separator # f3 \<Rightarrow>
                            bindR (branch (h \<noteq> None) separator f3) (\<lambda>(expr, r).
                            bindR (title_loop tags expr (free - 1) [] (free - 1) False) (\<lambda>t.
                            bindR (write_at sz (sz - free) t dest) (\<lambda>dest.
                              title_loop tags (tl r) sz dest (free - int (length t)) esc)))))
               else
                 bindR (title_expn_subs c tags) (\<lambda>h.
                   case h of
                     None \<Rightarrow> title_loop tags f1 sz dest free esc
                   | Some h \<Rightarrow> 
                       bindR (append_n sz h (free - 1) dest) (\<lambda>dest. title_loop tags f1 sz dest (free - int (length h)) esc)))
        else if hd fmt = backslash \<and> \<not> esc then title_loop tags (tl fmt) sz dest free True
        else bindR (write_at sz (sz - free) [hd fmt] dest) (\<lambda>dest. title_loop tags (tl fmt) sz dest (free - 1) False)
      else bindR (guardR (0 \<le> sz - max free 0) Undefined) (\<lambda>_. Inr (take (nat (sz - max free 0)) dest)))"
  by pat_completeness auto

termination
  by (relation "measure (\<lambda>(tags, fmt, _). length fmt)")
    (auto dest!: branch_length simp: neq_Nil_conv)

declare title_loop.simps [simp del]

definition do_title_expn :: "int \<Rightarrow> string \<Rightarrow> file_tags option \<Rightarrow> string result" where
  "do_title_expn sz fmt tags = title_loop tags fmt (sz - 1) [] (sz - 1) False"

definition build_title_with_format :: "file_tags option \<Rightarrow> string \<Rightarrow> string result" where
  "build_title_with_format tags fmt = do_title_expn 512 fmt tags"

section \<open>Steps of the loop\<close>

lemma title_loop_end: "free \<le> 0 \<or> fmt = [] \<Longrightarrow> 0 \<le> sz - max free 0 \<Longrightarrow> title_loop tags fmt sz dest free esc = Inr (take (nat (sz - max free 0)) dest)"
  by (subst title_loop.simps) auto

lemma title_loop_tag:
  "0 < free \<Longrightarrow> c \<noteq> CHR ''('' \<Longrightarrow> title_loop tags (percent # c # f) sz dest free False =
     bindR (title_expn_subs c tags) (\<lambda>h. case h of None \<Rightarrow> title_loop tags f sz dest free False
       | Some h \<Rightarrow> bindR (append_n sz h (free - 1) dest) (\<lambda>dest. title_loop tags f sz dest (free - int (length h)) False))"
  by (subst title_loop.simps) simp

lemma title_loop_cond:
  "0 < free \<Longrightarrow> title_loop tags (percent # CHR ''('' # x # sp # f) sz dest free False =
     bindR (title_expn_subs x tags) (\<lambda>h. bindR (branch (h \<noteq> None) sp f) (\<lambda>(expr, r).
     bindR (title_loop tags expr (free - 1) [] (free - 1) False) (\<lambda>t.
     bindR (write_at sz (sz - free) t dest) (\<lambda>dest. title_loop tags (tl r) sz dest (free - int (length t)) False))))"
  by (subst title_loop.simps) simp

lemma title_loop_char:
  "0 < free \<Longrightarrow> esc \<or> a \<noteq> percent \<and> a \<noteq> backslash \<Longrightarrow> title_loop tags (a # f) sz dest free esc =
     bindR (write_at sz (sz - free) [a] dest) (\<lambda>dest. title_loop tags f sz dest (free - 1) False)"
  by (subst title_loop.simps) auto

lemma title_loop_escape:
  "0 < free \<Longrightarrow> title_loop tags (backslash # f) sz dest free False = title_loop tags f sz dest free True"
  by (subst title_loop.simps) simp

lemma subs_cases:
  obtains h where "title_expn_subs c tags = Inr h" | "title_expn_subs c tags = fatal"
  by (cases "title_expn_subs c tags") (auto simp: title_expn_subs_def split: if_splits)

lemma title_loop_short:
  assumes "0 < free"
  shows "title_loop tags [percent] sz dest free False = fatal" "title_loop tags [percent, CHR ''(''] sz dest free False = fatal"
    "title_loop tags [percent, CHR ''('', x] sz dest free False = fatal"
  using assms by (subst title_loop.simps, auto intro: subs_cases [of x tags])+

section \<open>The buffer\<close>

text \<open>The buffer is full up to the free space as long as there is any.\<close>

definition fits :: "int \<Rightarrow> string \<Rightarrow> int \<Rightarrow> bool" where
  "fits sz dest free \<longleftrightarrow> int (length dest) \<le> sz \<and> (0 < free \<longrightarrow> int (length dest) = sz - free)"

lemma fits_write:
  assumes "fits sz dest free" "0 < free" "int (length t) \<le> free"
  shows "write_at sz (sz - free) t dest = Inr (dest @ t)" "fits sz (dest @ t) (free - int (length t))"
  using assms by (auto simp: fits_def write_at_def)

lemma fits_append:
  assumes "fits sz dest free" "0 < free"
  shows "append_n sz h (free - 1) dest = Inr (dest @ take (nat (free - 1)) h)" "fits sz (dest @ take (nat (free - 1)) h) (free - int (length h))"
  using assms by (auto simp: fits_def append_n_def write_at_def min_def)

lemma copy_until_fails: "copy_until stop n esc f = Inl e \<Longrightarrow> e = Exit EXIT_FATAL"
  by (induction stop n esc f rule: copy_until.induct) (auto simp: bindR_eq_Inl split: if_splits)

lemma eat_until_fails: "eat_until stop esc f = Inl e \<Longrightarrow> e = Exit EXIT_FATAL"
  by (induction stop esc f rule: eat_until.induct) (auto split: if_splits)

lemma branch_fails: "branch b sp f = Inl e \<Longrightarrow> e = Exit EXIT_FATAL"
  by (auto simp: branch_def bindR_eq_Inl split: if_splits dest: copy_until_fails eat_until_fails)

lemma format_cases:
  obtains (stop) "free \<le> 0 \<or> fmt = []"
    | (short) "0 < free" "\<not> esc" "fmt = [percent] \<or> fmt = [percent, CHR ''(''] \<or> (\<exists>x. fmt = [percent, CHR ''('', x])"
    | (tag) c f where "0 < free" "\<not> esc" "fmt = percent # c # f" "c \<noteq> CHR ''(''"
    | (cond) x sp f where "0 < free" "\<not> esc" "fmt = percent # CHR ''('' # x # sp # f"
    | (esc) f where "0 < free" "\<not> esc" "fmt = backslash # f"
    | (chr) a f where "0 < (free :: int)" "fmt = a # f" "esc \<or> a \<noteq> percent \<and> a \<noteq> backslash"
proof -
  consider "free \<le> 0 \<or> fmt = []" | a f where "0 < free" "fmt = a # f" "esc \<or> a \<noteq> percent" | f where "0 < free" "fmt = percent # f" "\<not> esc"
    by (cases fmt) force+
  then show thesis
  proof cases
    case 2
    then show ?thesis using that(5,6) by blast
  next
    case (3 f)
    consider "f = []" | c g where "f = c # g" "c \<noteq> CHR ''(''" | "f = ''(''" | x where "f = [CHR ''('', x]" | x sp g where "f = CHR ''('' # x # sp # g"
      by (metis list.exhaust)
    then show ?thesis using 3 that(2,3,4) by cases auto
  qed (rule that(1))
qed

lemma title_loop_safe:
  assumes "fits sz dest free" "0 \<le> sz"
  shows "title_loop tags fmt sz dest free esc = fatal
    \<or> (\<exists>t. title_loop tags fmt sz dest free esc = Inr t \<and> int (length t) \<le> sz)" (is "?safe fmt sz dest free esc")
  using assms
proof (induction "length fmt" arbitrary: fmt sz dest free esc rule: less_induct)
  case less
  show ?case
  proof (cases rule: format_cases [where free = free and fmt = fmt and esc = esc])
    case stop
    then show ?thesis using title_loop_end [OF stop, of sz tags dest esc] less.prems by (auto simp: fits_def)
  next
    case short
    then show ?thesis using title_loop_short [OF short(1)] short(2) by auto
  next
    case (tag c f)
    show ?thesis
    proof (cases rule: subs_cases [of c tags])
      case (1 h)
      then show ?thesis
        using title_loop_tag [OF tag(1,4)] less.hyps [of f sz dest free False] less.prems tag fits_append [OF less.prems(1) tag(1)]
          less.hyps [of f sz "dest @ take (nat (free - 1)) (the h)" "free - int (length (the h))" False] by (cases h) auto
    qed (use title_loop_tag [OF tag(1,4)] tag in auto)
  next
    case (cond x sp f)
    show ?thesis
    proof (cases rule: subs_cases [of x tags])
      case (1 h)
      show ?thesis
      proof (cases "branch (h \<noteq> None) sp f")
        case (Inl e)
        then show ?thesis using title_loop_cond [OF cond(1)] cond 1 branch_fails [OF Inl] by auto
      next
        case (Inr er)
        obtain e r where e: "er = (e, r)" by fastforce
        then have l: "length e < length fmt" "length (tl r) < length fmt" using branch_length [of "h \<noteq> None" sp f e r] Inr cond(3) by auto
        have "?safe e (free - 1) [] (free - 1) False" by (rule less.hyps [OF l(1)]) (use cond(1) in \<open>auto simp: fits_def\<close>)
        then consider "title_loop tags e (free - 1) [] (free - 1) False = fatal"
          | t where "title_loop tags e (free - 1) [] (free - 1) False = Inr t" "int (length t) \<le> free" by force
        then show ?thesis
        proof cases
          case t: 2
          note w = fits_write [OF less.prems(1) cond(1) t(2)]
          show ?thesis
            using title_loop_cond [OF cond(1)] cond(2,3) 1 Inr e t(1) w(1) less.hyps [OF l(2) w(2) less.prems(2), of False] by simp
        qed (use title_loop_cond [OF cond(1)] cond 1 Inr e in simp)
      qed
    qed (use title_loop_cond [OF cond(1)] cond in auto)
  next
    case (esc f)
    then show ?thesis using title_loop_escape [OF esc(1)] less.hyps [of f sz dest free True] less.prems by auto
  next
    case (chr a f)
    have "fits sz (dest @ [a]) (free - 1)" "write_at sz (sz - free) [a] dest = Inr (dest @ [a])"
      using fits_write [of sz dest free "[a]"] less.prems chr(1) by auto
    then show ?thesis using title_loop_char [OF chr(1,3)] less.hyps [of f sz "dest @ [a]" "free - 1" False] less.prems chr by auto
  qed
qed

section \<open>Formats\<close>

text \<open>
  The abstract syntax of formats: text, tags, and conditions \<^verbatim>\<open>%(x:true:false)\<close> on a tag with
  text and tags in their branches; how a format is written, and what it means.
\<close>

datatype piece = Text char | Tag char

datatype part = Piece piece | Cond char "piece list" "piece list"

definition specials :: string where "specials = [percent, backslash, CHR '':'', CHR '')'']"
definition tag_letters :: string where "tag_letters = ''naAt''"

fun show_piece :: "piece \<Rightarrow> string" where
  "show_piece (Text c) = (if c \<in> set specials then [backslash, c] else [c])"
| "show_piece (Tag c) = [percent, c]"

definition show_pieces :: "piece list \<Rightarrow> string" where
  "show_pieces ps = concat (map show_piece ps)"

fun show_part :: "part \<Rightarrow> string" where
  "show_part (Piece p) = show_piece p"
| "show_part (Cond c ts fs) = percent # CHR ''('' # c # CHR '':'' # show_pieces ts @ CHR '':'' # show_pieces fs @ '')''"

definition show_format :: "part list \<Rightarrow> string" where
  "show_format ps = concat (map show_part ps)"

definition tag_text :: "file_tags option \<Rightarrow> char \<Rightarrow> string option" where
  "tag_text tags c = (case title_expn_subs c tags of Inl _ \<Rightarrow> None | Inr h \<Rightarrow> h)"

fun piece_text :: "file_tags option \<Rightarrow> piece \<Rightarrow> string" where
  "piece_text tags (Text c) = [c]"
| "piece_text tags (Tag c) = (case tag_text tags c of None \<Rightarrow> [] | Some h \<Rightarrow> h)"

definition pieces_text :: "file_tags option \<Rightarrow> piece list \<Rightarrow> string" where
  "pieces_text tags ps = concat (map (piece_text tags) ps)"

fun part_text :: "file_tags option \<Rightarrow> part \<Rightarrow> string" where
  "part_text tags (Piece p) = piece_text tags p"
| "part_text tags (Cond c ts fs) = pieces_text tags (if tag_text tags c \<noteq> None then ts else fs)"

definition format_text :: "file_tags option \<Rightarrow> part list \<Rightarrow> string" where
  "format_text tags ps = concat (map (part_text tags) ps)"

fun good_piece :: "piece \<Rightarrow> bool" where
  "good_piece (Text c) = True"
| "good_piece (Tag c) = (c \<in> set tag_letters)"

definition good_branch :: "piece list \<Rightarrow> bool" where
  "good_branch ps \<longleftrightarrow> list_all good_piece ps \<and> Text backslash \<notin> set ps \<and> length (show_pieces ps) \<le> 254"

fun good_part :: "part \<Rightarrow> bool" where
  "good_part (Piece p) = good_piece p"
| "good_part (Cond c ts fs) \<longleftrightarrow> c \<in> set tag_letters \<and> good_branch ts \<and> good_branch fs"

lemma show_pieces_simps [simp]: "show_pieces [] = []" "show_pieces (p # ps) = show_piece p @ show_pieces ps"
  by (simp_all add: show_pieces_def)

lemma pieces_text_simps [simp]: "pieces_text tags [] = []" "pieces_text tags (p # ps) = piece_text tags p @ pieces_text tags ps"
  by (simp_all add: pieces_text_def)

lemma subs_tag: "c \<in> set tag_letters \<Longrightarrow> title_expn_subs c tags = Inr (tag_text tags c)"
  by (auto simp: tag_letters_def tag_text_def title_expn_subs_def)

lemma copy_pieces:
  assumes "list_all good_piece ps" "Text backslash \<notin> set ps" "stop = CHR '':'' \<or> stop = CHR '')''" "n + length (show_pieces ps) \<le> 254"
  shows "copy_until stop n False (show_pieces ps @ stop # f) = Inr (show_pieces ps, stop # f)"
  using assms
proof (induction ps arbitrary: n)
  case (Cons p ps)
  let ?m = "n + length (show_piece p)"
  have s: "backslash \<noteq> stop" "percent \<noteq> stop" using Cons.prems(3) by auto
  have ih: "copy_until stop ?m False (show_pieces ps @ stop # f) = Inr (show_pieces ps, stop # f)"
    using Cons.prems by (intro Cons.IH) auto
  show ?case
  proof (cases p)
    case (Text c)
    have c: "c \<noteq> backslash" "c \<notin> set specials \<Longrightarrow> c \<noteq> stop" using Cons.prems(2,3) Text by (auto simp: specials_def)
    show ?thesis
      by (cases "c \<in> set specials") (use ih s c Cons.prems(4) Text in simp_all)
  next
    case (Tag c)
    have c: "c \<noteq> backslash" "c \<noteq> stop" using Cons.prems(1,3) Tag by (auto simp: tag_letters_def)
    then show ?thesis using ih s Cons.prems(4) Tag by simp
  qed
qed auto

lemma eat_pieces:
  assumes "list_all good_piece ps" "stop = CHR '':'' \<or> stop = CHR '')''"
  shows "eat_until stop False (show_pieces ps @ stop # f) = Inr (stop # f)"
  using assms
proof (induction ps)
  case (Cons p ps)
  then show ?case by (cases p) (auto simp: specials_def tag_letters_def)
qed auto

lemma branch_pieces:
  assumes "good_branch ts" "good_branch fs"
  shows "branch b (CHR '':'') (show_pieces ts @ CHR '':'' # show_pieces fs @ CHR '')'' # f)
    = Inr (show_pieces (if b then ts else fs), CHR '')'' # f)"
proof -
  have g: "list_all good_piece ts" "list_all good_piece fs" "Text backslash \<notin> set ts" "Text backslash \<notin> set fs"
    "0 + length (show_pieces ts) \<le> 254" "0 + length (show_pieces fs) \<le> 254"
    using assms by (auto simp: good_branch_def)
  show ?thesis
    using copy_pieces [OF g(1,3) _ g(5), of "CHR '':''" "show_pieces fs @ CHR '')'' # f"]
      eat_pieces [OF g(2), of "CHR '')''" f] eat_pieces [OF g(1), of "CHR '':''" "show_pieces fs @ CHR '')'' # f"]
      copy_pieces [OF g(2,4) _ g(6), of "CHR '')''" f]
    by (simp add: branch_def)
qed

lemma piece_loop:
  assumes "good_piece p" "fits sz dest free" "int (length (piece_text tags p)) < free"
  shows "title_loop tags (show_piece p @ f) sz dest free False
    = title_loop tags f sz (dest @ piece_text tags p) (free - int (length (piece_text tags p))) False"
proof (cases p)
  case (Text c)
  have w: "write_at sz (sz - free) [c] dest = Inr (dest @ [c])" using fits_write(1) [OF assms(2), of "[c]"] assms(3) Text by simp
  show ?thesis
    using title_loop_char [of free False c tags f sz dest] title_loop_char [of free True c tags f sz dest]
      title_loop_escape [of free tags "c # f" sz dest] w assms(3) Text by (auto simp: specials_def)
next
  case (Tag c)
  have "c \<noteq> CHR ''(''" using assms(1) Tag by (auto simp: tag_letters_def)
  then show ?thesis
    using title_loop_tag [of free c tags f sz dest] subs_tag [of c tags] fits_append(1) [OF assms(2)] assms(1,3) Tag
    by (auto split: option.splits)
qed

lemma pieces_loop:
  assumes "list_all good_piece ps" "fits sz dest free" "int (length (pieces_text tags ps)) < free"
  shows "title_loop tags (show_pieces ps @ f) sz dest free False
    = title_loop tags f sz (dest @ pieces_text tags ps) (free - int (length (pieces_text tags ps))) False"
  using assms
proof (induction ps arbitrary: dest free)
  case (Cons p ps)
  let ?t = "piece_text tags p"
  have "fits sz (dest @ ?t) (free - int (length ?t))" using fits_write(2) [of sz dest free ?t] Cons.prems by simp
  then show ?case
    using piece_loop [of p sz dest free tags "show_pieces ps @ f"] Cons.IH [of "dest @ ?t" "free - int (length ?t)"] Cons.prems
    by (simp add: algebra_simps)
qed simp

lemma part_loop:
  assumes "good_part p" "fits sz dest free" "int (length (part_text tags p)) < free - 1"
  shows "title_loop tags (show_part p @ f) sz dest free False
    = title_loop tags f sz (dest @ part_text tags p) (free - int (length (part_text tags p))) False"
proof (cases p)
  case (Piece q)
  then show ?thesis using piece_loop [of q sz dest free tags f] assms by simp
next
  case (Cond c ts fs)
  define h where "h = tag_text tags c"
  define ps where "ps = (if h \<noteq> None then ts else fs)"
  have g: "list_all good_piece ps" using assms(1) Cond by (auto simp: ps_def good_branch_def)
  have t: "part_text tags p = pieces_text tags ps" by (simp add: Cond ps_def h_def)
  have l: "int (length (pieces_text tags ps)) < free - 1" using assms(3) t by simp
  have "title_loop tags (show_pieces ps) (free - 1) [] (free - 1) False = Inr (pieces_text tags ps)"
    using pieces_loop [OF g, of "free - 1" "[]" "free - 1" tags "[]"] l title_loop_end [of _ "[]" "free - 1" tags "pieces_text tags ps" False]
    by (simp add: fits_def)
  moreover have "write_at sz (sz - free) (pieces_text tags ps) dest = Inr (dest @ pieces_text tags ps)"
    using fits_write(1) [OF assms(2), of "pieces_text tags ps"] l by simp
  moreover have "title_expn_subs c tags = Inr h" using subs_tag [of c tags] assms(1) Cond by (simp add: h_def)
  moreover have "branch (h \<noteq> None) (CHR '':'') (show_pieces ts @ CHR '':'' # show_pieces fs @ CHR '')'' # f) = Inr (show_pieces ps, CHR '')'' # f)"
    using branch_pieces [of ts fs] assms(1) Cond by (simp add: ps_def)
  ultimately show ?thesis
    using title_loop_cond [of free tags c "CHR '':''" _ sz dest] l unfolding t by (simp add: Cond)
qed

lemma format_loop:
  assumes "list_all good_part ps" "fits sz dest free" "int (length (format_text tags ps)) < free - 1"
  shows "title_loop tags (show_format ps) sz dest free False = Inr (dest @ format_text tags ps)"
  using assms
proof (induction ps arbitrary: dest free)
  case Nil
  then have "int (length dest) = sz - free" "max free 0 = free" by (simp_all add: fits_def format_text_def)
  then show ?case using title_loop_end [of free "[]" sz tags dest False] by (simp add: show_format_def format_text_def)
next
  case (Cons p ps)
  let ?t = "part_text tags p"
  have e: "show_format (p # ps) = show_part p @ show_format ps" "format_text tags (p # ps) = ?t @ format_text tags ps"
    by (simp_all add: show_format_def format_text_def)
  have "fits sz (dest @ ?t) (free - int (length ?t))" using fits_write(2) [of sz dest free ?t] Cons.prems e(2) by simp
  then show ?case
    using part_loop [of p sz dest free tags "show_format ps"] Cons.IH [of "dest @ ?t" "free - int (length ?t)"] Cons.prems
    unfolding e by simp
qed

section \<open>Correctness\<close>

text \<open>
  C22: whatever the format and the tags, the expansion ends, either with a title that fits into
  the buffer, having written nothing outside of it, or with a fatal error.
\<close>

theorem title_expansion_safe:
  assumes "1 \<le> sz"
  shows "do_title_expn sz fmt tags = Inl (Exit EXIT_FATAL) \<or> (\<exists>t. do_title_expn sz fmt tags = Inr t \<and> int (length t) < sz)"
  using title_loop_safe [of "sz - 1" "[]" "sz - 1" tags fmt False] assms by (force simp: do_title_expn_def fits_def)

text \<open>A tag that is longer than the space that is left is cut off, and the rest of the format is dropped.\<close>

theorem title_expansion_safe_witness:
  "do_title_expn 6 ''%t-'' (Some (tags_new\<lparr>title := Some ''abcdefgh''\<rparr>)) = Inr ''abcd'' \<and>
   do_title_expn 6 ''%(t:'' (Some (tags_new\<lparr>title := Some ''abcdefgh''\<rparr>)) = Inl (Exit EXIT_FATAL) \<and>
   (\<forall>fmt. do_title_expn 6 fmt None = Inl (Exit EXIT_FATAL) \<or> (\<exists>t. do_title_expn 6 fmt None = Inr t \<and> int (length t) < 6))"
proof -
  have "do_title_expn 6 ''%t-'' (Some (tags_new\<lparr>title := Some ''abcdefgh''\<rparr>)) = Inr ''abcd''" by code_simp
  moreover have "do_title_expn 6 ''%(t:'' (Some (tags_new\<lparr>title := Some ''abcdefgh''\<rparr>)) = Inl (Exit EXIT_FATAL)" by code_simp
  ultimately show ?thesis using title_expansion_safe [of 6] by simp
qed

text \<open>
  The title of a song is what the format means: its text, with the tags that are present in
  their places and of each condition the branch for its tag. This holds for titles of less
  than 510 characters, branches that are written with at most 254, and branches without a backslash.
\<close>

lemma build_title_format:
  assumes "list_all good_part ps" "length (format_text tags ps) < 510"
  shows "build_title_with_format tags (show_format ps) = Inr (format_text tags ps)"
  using format_loop [OF assms(1), of 511 "[]" 511 tags] assms(2)
  by (simp add: build_title_with_format_def do_title_expn_def fits_def)

end
