(* ===== verification/Playlist_File.thy ===== *)
theory Playlist_File
  imports Title
begin

text \<open>
  Files with playlists, \<^verbatim>\<open>src/src/moc-2.5.0/playlist_file.c\<close>, and the titles that
  \<^verbatim>\<open>src/src/moc-2.5.0/files.c\<close> gives to the items of a list. A file is its text, \<open>None\<close> where it
  cannot be opened; a path in a list of the disk is put behind the directory of the list.
\<close>

text \<open>What is outside: the file system, the order of names, the conversion of file names and the options.\<close>

record list_env =
  le_fs :: host_fs
  le_coll :: "string \<Rightarrow> string \<Rightarrow> int"
  files_iconv_str :: "string \<Rightarrow> string"
  ReadTags :: bool
  HideFileExtension :: bool
  FileNamesIconv :: bool
  FormatString :: string

section \<open>Titles\<close>

definition build_title :: "list_env \<Rightarrow> file_tags \<Rightarrow> string result" where
  "build_title E tags = build_title_with_format (Some tags) (FormatString E)"

definition live_item :: "int \<Rightarrow> plist \<Rightarrow> unit result" where
  "live_item i p = bindR (limit i p) (\<lambda>_. bindR (plist_deleted p i) (\<lambda>d. guardR (\<not> d) Assert))"

definition item_type :: "list_env \<Rightarrow> int \<Rightarrow> plist \<Rightarrow> (string \<times> file_type) result" where
  "item_type E i p = (case i_file (items p ! nat i) of None \<Rightarrow> Inl Assert | Some f \<Rightarrow> Inr (f, file_type_of (le_fs E) f))"

definition make_file_title :: "list_env \<Rightarrow> int \<Rightarrow> bool \<Rightarrow> plist \<Rightarrow> plist result" where
  "make_file_title E i hide_extension p =
     bindR (live_item i p) (\<lambda>_.
     bindR (item_type E i p) (\<lambda>(f, ty).
       if ty \<noteq> F_URL then
         let t = (if hide_extension
                  then case ext_pos f of None \<Rightarrow> f | Some extn \<Rightarrow> take (length f - length extn - 1) f else f);
             t = (if FileNamesIconv E then files_iconv_str E t else t)
         in plist_set_title_file i (Some t) p
       else plist_set_title_file i (Some f) p))"

definition make_tags_title :: "list_env \<Rightarrow> int \<Rightarrow> plist \<Rightarrow> plist result" where
  "make_tags_title E i p =
     bindR (live_item i p) (\<lambda>_.
     bindR (item_type E i p) (\<lambda>(f, ty).
       if ty = F_URL then make_file_title E i False p
       else
         let x = items p ! nat i in
         if i_title_tags x \<noteq> None then Inr p
         else case i_tags x of
             None \<Rightarrow> Inl Undefined
           | Some tags \<Rightarrow>
               if title tags \<noteq> None then bindR (build_title E tags) (\<lambda>t. plist_set_title_tags i (Some t) p)
               else make_file_title E i (HideFileExtension E) p))"

definition switch_titles_file :: "list_env \<Rightarrow> plist \<Rightarrow> plist result" where
  "switch_titles_file E p =
     foldR (\<lambda>i p.
       bindR (plist_deleted p (int i)) (\<lambda>d.
         if d then Inr p
         else bindR (if i_title_file (items p ! i) = None then make_file_title E (int i) (HideFileExtension E) p else Inr p) (\<lambda>p.
           bindR (guardR (i_title_file (items p ! i) \<noteq> None) Assert) (\<lambda>_. Inr p)))) [0..<num p] p"

definition switch_titles_tags :: "list_env \<Rightarrow> plist \<Rightarrow> plist result" where
  "switch_titles_tags E p =
     foldR (\<lambda>i p.
       bindR (plist_deleted p (int i)) (\<lambda>d.
         if \<not> d \<and> i_title_tags (items p ! i) = None \<and> i_title_file (items p ! i) = None
         then make_file_title E (int i) (HideFileExtension E) p else Inr p)) [0..<num p] p"

section \<open>M3U\<close>

definition make_path :: "nat \<Rightarrow> string \<Rightarrow> string \<Rightarrow> string result" where
  "make_path buf_size cwd path =
     (if is_url path then Inr (take (buf_size - 1) path)
      else if take 1 path \<noteq> ''/'' then
        if length cwd < buf_size then resolve_path buf_size cwd path else Inl Undefined
      else resolve_path buf_size ''/'' path)"

text \<open>The first character is kept even if it is a blank.\<close>

definition strip_string :: "string \<Rightarrow> string" where
  "strip_string s = (if s = [] then [] else hd s # rev (dropWhile isblank (rev (tl s))))"

record m3u =
  m_list :: plist
  last_added :: int
  after_extinf :: bool
  added :: int

text \<open>The line behind \<^verbatim>\<open>#EXTINF:\<close>; \<open>False\<close> ends the reading of the file.\<close>

definition extinf_line :: "list_env \<Rightarrow> string \<Rightarrow> m3u \<Rightarrow> (bool \<times> m3u) result" where
  "extinf_line E l st =
     (if after_extinf st then
        bindR (plist_delete (last_added st) (m_list st)) (\<lambda>p. Inr (False, st\<lparr>m_list := p\<rparr>))
      else if CHR '','' \<notin> set l then Inr (False, st)
      else
        let time_text = takeWhile (\<lambda>c. c \<noteq> CHR '','') l; comma = tl (dropWhile (\<lambda>c. c \<noteq> CHR '','') l) in
        if length time_text \<ge> 10 then Inr (False, st)
        else
          let (time_sec, num_err) = strtol time_text in
          if num_err \<noteq> [] then Inr (False, st)
          else
            bindR (plist_add (le_fs E) (le_coll E) None (m_list st)) (\<lambda>(n, p).
            bindR (plist_set_title_tags (int n) (Some comma) p) (\<lambda>p.
            bindR (if time_text \<noteq> [] then plist_set_item_time (int n) (wrapS 32 time_sec) p else Inr p) (\<lambda>p.
              Inr (True, st\<lparr>m_list := p, last_added := int n, after_extinf := True\<rparr>)))))"

definition path_line :: "list_env \<Rightarrow> string \<Rightarrow> string \<Rightarrow> m3u \<Rightarrow> (bool \<times> m3u) result" where
  "path_line E cwd l st =
     (let l = strip_string l; p = m_list st;
          drop_last = (if after_extinf st then plist_delete (last_added st) p else Inr p)
      in bindR (if length l \<le> PATH_MAX then
                  bindR (make_path (2 * PATH_MAX) cwd l) (\<lambda>path.
                  bindR (plist_find_fname (le_coll E) path p) (\<lambda>i.
                    if i = -1 then
                      bindR (if after_extinf st then plist_set_file (le_fs E) (le_coll E) (last_added st) path p
                             else bindR (plist_add (le_fs E) (le_coll E) (Some path) p) (\<lambda>(_, p). Inr p)) (\<lambda>p.
                        Inr (p, added st + 1))
                    else bindR drop_last (\<lambda>p. Inr (p, added st))))
                else bindR drop_last (\<lambda>p. Inr (p, added st))) (\<lambda>(p, n).
        Inr (True, st\<lparr>m_list := p, added := n, after_extinf := False\<rparr>)))"

definition serial_line :: "string \<Rightarrow> m3u \<Rightarrow> m3u" where
  "serial_line s st =
     (if s \<noteq> [] then
        let (n, err) = strtol_any s in
        if err = [] then st\<lparr>m_list := plist_set_serial (wrapS 32 n) (m_list st)\<rparr> else st
      else st)"

definition m3u_line :: "list_env \<Rightarrow> string \<Rightarrow> bool \<Rightarrow> string \<Rightarrow> m3u \<Rightarrow> (bool \<times> m3u) result" where
  "m3u_line E cwd load_serial l st =
     (if take 8 l = ''#EXTINF:'' then extinf_line E (drop 8 l) st
      else if take 1 l \<noteq> ''#'' then path_line E cwd l st
      else Inr (True, if load_serial \<and> take 12 l = ''#MOCSERIAL: '' then serial_line (drop 12 l) st else st))"

fun m3u_lines :: "list_env \<Rightarrow> string \<Rightarrow> bool \<Rightarrow> string list \<Rightarrow> m3u \<Rightarrow> m3u result" where
  "m3u_lines E cwd load_serial [] st = Inr st"
| "m3u_lines E cwd load_serial (l # ls) st =
     bindR (m3u_line E cwd load_serial l st) (\<lambda>(go, st). if go then m3u_lines E cwd load_serial ls st else Inr st)"

definition plist_load_m3u :: "list_env \<Rightarrow> string option \<Rightarrow> string \<Rightarrow> bool \<Rightarrow> plist \<Rightarrow> (int \<times> plist) result" where
  "plist_load_m3u E contents cwd load_serial p =
     (case contents of
        None \<Rightarrow> Inr (0, p)
      | Some s \<Rightarrow>
          bindR (m3u_lines E cwd load_serial (read_lines s)
            \<lparr>m_list = p, last_added = -1, after_extinf = False, added = 0\<rparr>) (\<lambda>st.
          Inr (added st, m_list st)))"

section \<open>PLS\<close>

definition is_blank_line :: "string \<Rightarrow> bool" where
  "is_blank_line l = list_all isblank l"

text \<open>
  The text behind an equals sign. The closing quotation mark of a value ends it, the opening one
  remains; if it is not closed, a pointer into the released line is returned.
\<close>

definition ini_value :: "string \<Rightarrow> string result" where
  "ini_value s =
     (let value = dropWhile isblank s in
      if take 1 value = [CHR 0x22] then
        case strchr (tl value) (CHR 0x22) of None \<Rightarrow> Inl Undefined | Some q \<Rightarrow> Inr (take (Suc q) value)
      else Inr value)"

text \<open>
  The loop that goes back over the blanks before the equals sign stops behind its first step, so
  that the name is all that is in front of the sign.
\<close>

fun ini_lines :: "string \<Rightarrow> string \<Rightarrow> bool \<Rightarrow> string list \<Rightarrow> string option result" where
  "ini_lines s_name key in_section [] = Inr None"
| "ini_lines s_name key in_section (l # ls) =
     (if take 1 l = ''['' then
        if in_section then Inr None
        else
          (case strchr l (CHR '']'') of
             None \<Rightarrow> Inr None
           | Some close \<Rightarrow> ini_lines s_name key (strncaseeq (drop 1 l) s_name (close - 1)) ls)
      else if in_section \<and> take 1 l \<noteq> ''#'' \<and> \<not> is_blank_line l then
        (case strchr l (CHR ''='') of
           None \<Rightarrow> Inr None
         | Some t \<Rightarrow>
             if strncaseeq l key (max t (length key)) then bindR (ini_value (drop (Suc t) l)) (\<lambda>v. Inr (Some v))
             else ini_lines s_name key in_section ls)
      else ini_lines s_name key in_section ls)"

definition read_ini_value :: "string \<Rightarrow> string \<Rightarrow> string \<Rightarrow> string option result" where
  "read_ini_value contents s_name key = ini_lines s_name key False (read_lines contents)"

definition pls_time :: "string option \<Rightarrow> int" where
  "pls_time pls_length =
     (case pls_length of
        None \<Rightarrow> -1
      | Some s \<Rightarrow> let (n, e) = strtol s in if e \<noteq> [] then -1 else wrapS 32 n)"

text \<open>The tags with a time are set without counting it.\<close>

definition pls_add :: "list_env \<Rightarrow> string \<Rightarrow> string \<Rightarrow> string option \<Rightarrow> int \<Rightarrow> plist \<Rightarrow> plist result" where
  "pls_add E cwd pls_file pls_title t p =
     (if length pls_file \<le> PATH_MAX then
        bindR (make_path (2 * PATH_MAX) cwd pls_file) (\<lambda>path.
        bindR (plist_find_fname (le_coll E) path p) (\<lambda>i.
          if i = -1 then
            bindR (plist_add (le_fs E) (le_coll E) (Some path) p) (\<lambda>(n, p).
            bindR (if pls_title \<noteq> None \<and> pls_title \<noteq> Some [] then plist_set_title_tags (int n) pls_title p else Inr p) (\<lambda>p.
              Inr (if t > 0
                   then set_item n ((items p ! n)\<lparr>i_tags := Some (tags_new\<lparr>time := t, filled := filled tags_new OR TAGS_TIME\<rparr>)\<rparr>) p
                   else p)))
          else Inr p))
      else Inr p)"

text \<open>The key with a length does not fit into its array from number \<open>10^9\<close> on.\<close>

function pls_items :: "list_env \<Rightarrow> string \<Rightarrow> string \<Rightarrow> int \<Rightarrow> int \<Rightarrow> int \<Rightarrow> plist \<Rightarrow> (int \<times> plist) result" where
  "pls_items E contents cwd nitems i n p =
     (if i \<le> nitems then
        bindR (read_ini_value contents ''playlist'' (''File'' @ show_int i)) (\<lambda>pls_file.
          case pls_file of
            None \<Rightarrow> Inr (n, p)
          | Some pls_file \<Rightarrow>
              bindR (read_ini_value contents ''playlist'' (''Title'' @ show_int i)) (\<lambda>pls_title.
              bindR (guardR (i < 10 ^ 9) Undefined) (\<lambda>_.
              bindR (read_ini_value contents ''playlist'' (''Length'' @ show_int i)) (\<lambda>pls_length.
              bindR (pls_add E cwd pls_file pls_title (pls_time pls_length) p) (\<lambda>p.
                pls_items E contents cwd nitems (i + 1) (n + 1) p)))))
      else Inr (n, p))"
  by pat_completeness auto

termination
  by (relation "measure (\<lambda>(E, contents, cwd, nitems, i, n, p). nat (nitems - i + 1))") auto

declare pls_items.simps [simp del]

definition plist_load_pls :: "list_env \<Rightarrow> string option \<Rightarrow> string \<Rightarrow> plist \<Rightarrow> (int \<times> plist) result" where
  "plist_load_pls E contents cwd p =
     (case contents of
        None \<Rightarrow> Inr (0, p)
      | Some s \<Rightarrow>
          bindR (read_ini_value s ''playlist'' ''NumberOfEntries'') (\<lambda>line.
            case line of
              None \<Rightarrow> plist_load_m3u E contents cwd False p
            | Some line \<Rightarrow>
                let (nitems, e) = strtol line in
                if e \<noteq> [] then Inr (0, p) else pls_items E s cwd nitems 1 0 p))"

definition plist_load :: "list_env \<Rightarrow> string \<Rightarrow> string option \<Rightarrow> string \<Rightarrow> bool \<Rightarrow> plist \<Rightarrow> (int \<times> plist) result" where
  "plist_load E fname contents cwd load_serial p =
     bindR (case ext_pos fname of
              Some ext \<Rightarrow> if strcaseeq ext ''pls'' then plist_load_pls E contents cwd p else plist_load_m3u E contents cwd load_serial p
            | None \<Rightarrow> plist_load_m3u E contents cwd load_serial p) (\<lambda>(n, p).
     bindR (if ReadTags E then switch_titles_tags E p else switch_titles_file E p) (\<lambda>p. Inr (n, p)))"

section \<open>Saving\<close>

abbreviation CRLF :: string where "CRLF \<equiv> [CR, LF]"

definition extinf_text :: "plist_item \<Rightarrow> string result" where
  "extinf_text x =
     bindR (case i_tags x of
              Some t \<Rightarrow> Inr (time t, if i_title_tags x \<noteq> None then i_title_tags x else i_title_file x)
            | None \<Rightarrow> Inr (0, i_title_file x)) (\<lambda>(t, s).
       case s of None \<Rightarrow> Inl Undefined | Some s \<Rightarrow> Inr (''#EXTINF:'' @ show_int t @ '','' @ s @ CRLF))"

definition file_text :: "nat \<Rightarrow> plist_item \<Rightarrow> string result" where
  "file_text strip_path x =
     (case i_file x of None \<Rightarrow> Inl Undefined
      | Some f \<Rightarrow> if strip_path \<le> length f then Inr (drop strip_path f @ CRLF) else Inl Undefined)"

text \<open>
  Whether the \<open>k\<close>-th call of \<^verbatim>\<open>fprintf\<close> succeeds is \<open>wr k\<close>. The result is whether all of
  them do, and what has been written.
\<close>

fun save_items :: "(nat \<Rightarrow> bool) \<Rightarrow> nat \<Rightarrow> plist_item list \<Rightarrow> nat \<Rightarrow> string \<Rightarrow> (bool \<times> string) result" where
  "save_items wr strip_path [] k out = Inr (True, out)"
| "save_items wr strip_path (x # xs) k out =
     (if i_deleted x then save_items wr strip_path xs k out
      else bindR (extinf_text x) (\<lambda>e.
        if \<not> wr k then Inr (False, out)
        else bindR (file_text strip_path x) (\<lambda>f.
          if \<not> wr (k + 1) then Inr (False, out @ e)
          else save_items wr strip_path xs (k + 2) (out @ e @ f))))"

definition plist_save_m3u ::
    "bool \<Rightarrow> (nat \<Rightarrow> bool) \<Rightarrow> bool \<Rightarrow> nat \<Rightarrow> bool \<Rightarrow> plist \<Rightarrow> (bool \<times> string) result" where
  "plist_save_m3u opened wr closed strip_path save_serial p =
     (if \<not> opened \<or> \<not> wr 0 then Inr (False, [])
      else if save_serial \<and> \<not> wr 1 then Inr (False, ''#EXTM3U'' @ CRLF)
      else bindR (save_items wr strip_path (items p) (if save_serial then 2 else 1)
          (''#EXTM3U'' @ CRLF @ (if save_serial then ''#MOCSERIAL: '' @ show_int (plist_get_serial p) @ CRLF else []))) (\<lambda>(ok, out).
        Inr (ok \<and> closed, out)))"

text \<open>
  \<^verbatim>\<open>common_path\<close> is never set: what the memory of the array holds is an argument.
\<close>

definition plist_save ::
    "string \<Rightarrow> bool \<Rightarrow> (nat \<Rightarrow> bool) \<Rightarrow> bool \<Rightarrow> string option \<Rightarrow> bool \<Rightarrow> plist \<Rightarrow> (bool \<times> string) result" where
  "plist_save common_path opened wr closed cwd save_serial p =
     plist_save_m3u opened wr closed (if cwd = Some common_path then length common_path else 0) save_serial p"

end
