(* ===== verification/Playlist_File_Spec.thy ===== *)
theory Playlist_File_Spec
  imports Playlist_File Plist_Props
begin

text \<open>
  What is saved is loaded again: the files of a list, their order, titles and times survive
  being written to a file and read from it. Files that end too early and lists of the other
  format show where the loader breaks its own assumptions.
\<close>

section \<open>One entry\<close>

definition nameless_item :: "string \<Rightarrow> int \<Rightarrow> plist_item" where
  "nameless_item t n = plist_new_item\<lparr>i_title_tags := Some t, i_tags := Some (tags_new\<lparr>time := n, filled := TAGS_TIME\<rparr>)\<rparr>"

definition m3u_item :: "host_fs \<Rightarrow> string \<Rightarrow> string \<Rightarrow> int \<Rightarrow> plist_item" where
  "m3u_item fs f t n = (nameless_item t n)\<lparr>i_file := Some f, i_type := file_type_of fs f, i_mtime := get_mtime fs f\<rparr>"

lemma entry_simps [simp]: "item_time (nameless_item t n) = n" "item_time (m3u_item fs f t n) = n"
  "i_file (nameless_item t n) = None" "i_file (m3u_item fs f t n) = Some f" "\<not> i_deleted (nameless_item t n)" "\<not> i_deleted (m3u_item fs f t n)"
  "i_title_tags (m3u_item fs f t n) = Some t"
  by (simp_all add: nameless_item_def m3u_item_def item_time_def plist_new_item_def)

lemma index_ok_items: "items p = items q \<Longrightarrow> search_tree_of p = search_tree_of q \<Longrightarrow> index_ok coll p = index_ok coll q"
  using names_of_items [of p q] index_complete_cong(1) by blast

text \<open>An item without a name at the end changes nothing for the tree.\<close>

lemma nameless_index:
  assumes "index_ok coll p"
  shows "index_ok coll (count_time n (grown p x (search_tree_of p)))"
  using index_ok_append [OF assms, where x = x and n = "allocated (grown p x (search_tree_of p))"]
  by (subst index_ok_items [of _ "p\<lparr>items := items p @ [x], allocated := allocated (grown p x (search_tree_of p))\<rparr>"])
    (simp_all add: grown_def)

lemma name_at_counted: "name_at (count_time n p) = name_at p" "named (count_time n p) = named p"
  using names_of_items [of "count_time n p" p] by simp_all

lemma num_grown [simp]: "num (grown p x t) = Suc (num p)" "items (grown p x t) = items p @ [x]" "search_tree_of (grown p x t) = t"
  by (simp_all add: grown_def)

lemma set_item_grown: "set_item (num p) y (count_time n (grown p x t)) = count_time n (grown p y t)"
  "set_item (num p) y (grown p x t) = grown p y t"
  by (intro plist.equality; simp add: set_item_def grown_def count_time_def)+

lemma split_at_char: "c \<notin> set s \<Longrightarrow> takeWhile (\<lambda>x. x \<noteq> c) (s @ c # t) = s" "c \<notin> set s \<Longrightarrow> dropWhile (\<lambda>x. x \<noteq> c) (s @ c # t) = c # t"
  by (induction s) auto

lemma extinf_ok:
  assumes "\<not> after_extinf st" "length (show_int n) < 10" "- (2 ^ 31) \<le> n" "n < 2 ^ 31"
  shows "extinf_line E (show_int n @ CHR '','' # t) st = Inr (True, st\<lparr>m_list := count_time n (grown (m_list st) (nameless_item t n) (search_tree_of (m_list st))),
     last_added := int (num (m_list st)), after_extinf := True\<rparr>)"
proof -
  define p where "p = m_list st"
  have c: "CHR '','' \<notin> set (show_int n)" using show_int_chars [of "CHR '',''" n] by (auto simp: isdigit_def)
  have "strtol (show_int n) = (n, [])" using strtol_show [of n "[]"] assms(3,4) by (simp add: LONG_MIN_def LONG_MAX_def)
  moreover have "wrapS 32 n = n" using assms(3,4) by (intro wrapS_id) auto
  moreover have "plist_add fs coll None p = Inr (num p, grown p plist_new_item (search_tree_of p))" for fs coll
    by (simp add: plist_add_def Let_def grown_def plist_new_item_def)
  moreover have "plist_set_title_tags (int (num p)) (Some t) (grown p plist_new_item (search_tree_of p))
      = Inr (grown p (plist_new_item\<lparr>i_title_tags := Some t\<rparr>) (search_tree_of p))"
    by (simp add: plist_set_title_tags_def set_item_grown)
  moreover have "plist_set_item_time (int (num p)) n (grown p (plist_new_item\<lparr>i_title_tags := Some t\<rparr>) (search_tree_of p))
      = Inr (count_time n (grown p (nameless_item t n) (search_tree_of p)))"
    by (simp add: plist_set_item_time_def Let_def nameless_item_def uncount_time_def item_time_def plist_new_item_def
      tags_new_def TAGS_TIME_def set_item_grown)
  ultimately show ?thesis using assms(1,2) split_at_char [OF c, of t] by (simp add: extinf_line_def Let_def p_def)
qed

lemma set_file_ok:
  assumes c: "collation coll" and inv: "plist_inv coll p" and new: "\<forall>i\<in>set (inorder (search_tree_of p)). coll f (name_at p i) \<noteq> 0"
  shows "\<exists>tr. plist_set_file fs coll (int (num p)) f (count_time n (grown p (nameless_item t n) (search_tree_of p)))
      = Inr (count_time n (grown p (m3u_item fs f t n) tr))
    \<and> plist_inv coll (count_time n (grown p (m3u_item fs f t n) tr))
    \<and> set (inorder tr) = insert (num p) (set (inorder (search_tree_of p)))"
proof -
  let ?T = "search_tree_of p" and ?x = "m3u_item fs f t n"
  let ?q = "count_time n (grown p ?x ?T)"
  have ok: "index_ok coll p" "counts_ok p" "complete coll p" using inv by (auto simp: plist_inv_def)
  then have lt: "\<forall>i\<in>set (inorder ?T). i < num p" by (auto simp: index_ok_def named_def)
  have q: "index_ok coll ?q" by (rule nameless_index [OF ok(1)])
  have nm: "named ?q (num p)" "name_at ?q (num p) = f" by (simp_all add: name_at_counted name_at_grown)
  have keep: "{i \<in> set (inorder ?T). coll f (name_at p i) \<noteq> 0} = set (inorder ?T)" using new by auto
  obtain tr where tr: "tree_insert coll (num p) ?q = Inr (?q\<lparr>search_tree_of := tr\<rparr>)" "search_tree (rb_compare coll ?q) tr"
    "set (inorder tr) = insert (num p) (set (inorder ?T))"
    using tree_insert_ok [OF c q nm(1)] nm(2) new lt by (auto simp: name_at_counted name_at_grown)
  have e: "?q\<lparr>search_tree_of := tr\<rparr> = count_time n (grown p ?x tr)" by (simp add: grown_def count_time_def)
  have "plist_set_file fs coll (int (num p)) f (count_time n (grown p (nameless_item t n) ?T)) = tree_insert coll (num p) ?q"
    by (simp add: plist_set_file_def m3u_item_def set_item_grown)
  moreover have "index_ok coll (count_time n (grown p ?x tr))"
    unfolding e [symmetric] using q tr(2,3) nm(1) by (auto simp: index_ok_def)
  moreover have "complete coll (count_time n (grown p ?x tr))"
    using complete_grown [OF c ok(3), of ?x f tr] tr(3) lt keep index_complete_cong(2) [of "count_time n (grown p ?x tr)" "grown p ?x tr"]
    by (simp add: name_at_counted)
  moreover have "counts_ok (count_time n (grown p ?x tr))" using counts_grown [OF ok(2), of ?x tr] by simp
  ultimately show ?thesis using tr(1,3) e by (auto simp: plist_inv_def)
qed

text \<open>A name that is read as it was written: a web address or a resolved absolute path.\<close>

definition savable_name :: "string \<Rightarrow> bool" where
  "savable_name f \<longleftrightarrow> (is_url f \<or> resolved [] (segments f) = f) \<and> LF \<notin> set f \<and> \<not> isblank (last f) \<and> length f \<le> PATH_MAX"

lemma savable_chars:
  assumes "savable_name f"
  shows "f \<noteq> []" "hd f \<noteq> CHR ''#''" "strip_string f = f" "make_path (2 * PATH_MAX) cwd f = Inr f"
proof -
  have "\<not> is_url (CHR ''#'' # g)" "\<not> is_url []" for g
    by (simp_all add: is_url_def strncaseeq_def strcaseeq_def tolower_def isupper_def)
  then have url: "hd f \<noteq> CHR ''#''" "f \<noteq> []" if "is_url f" using that by (metis list.collapse)+
  have hd: "hd (resolved [] cs) = slash" "resolved [] cs \<noteq> []" for cs
    by (cases "walk [] cs"; auto simp: resolved_def)+
  have r: "f \<noteq> [] \<and> hd f = slash" if "resolved [] (segments f) = f" using hd [of "segments f"] unfolding that by simp
  show 1: "f \<noteq> []" and "hd f \<noteq> CHR ''#''" using assms url r by (auto simp: savable_name_def)
  have "\<not> isblank (last f)" using assms by (simp add: savable_name_def)
  then have "rev (dropWhile isblank (rev (tl f))) = tl f"
    using 1 by (cases "tl f" rule: rev_cases) (auto simp: last_tl split: if_splits, metis last_snoc last_tl snoc_eq_iff_butlast)
  then show "strip_string f = f" using 1 by (simp add: strip_string_def)
  have l: "length f + 3 < 2 * PATH_MAX" using assms by (simp add: savable_name_def PATH_MAX_def)
  show "make_path (2 * PATH_MAX) cwd f = Inr f"
  proof (cases "is_url f")
    case False
    then have r: "resolved [] (segments f) = f" using assms by (simp add: savable_name_def)
    then have "take 1 f = ''/''" using hd [of "segments f"] by (cases f) auto
    then show ?thesis using False r resolve_path_root [OF l l] by (simp add: make_path_def)
  qed (use l in \<open>simp add: make_path_def\<close>)
qed

section \<open>What is saved of an item\<close>

definition live_items :: "plist \<Rightarrow> plist_item list" where
  "live_items p = filter (\<lambda>x. \<not> i_deleted x) (items p)"

definition saved_time :: "plist_item \<Rightarrow> int" where
  "saved_time x = (case i_tags x of None \<Rightarrow> 0 | Some t \<Rightarrow> time t)"

definition saved_title :: "plist_item \<Rightarrow> string option" where
  "saved_title x = (if i_tags x \<noteq> None \<and> i_title_tags x \<noteq> None then i_title_tags x else i_title_file x)"

definition fname :: "plist_item \<Rightarrow> string" where
  "fname x = the (i_file x)"

definition savable :: "plist_item \<Rightarrow> bool" where
  "savable x \<longleftrightarrow> i_file x \<noteq> None \<and> savable_name (fname x) \<and> saved_title x \<noteq> None \<and> LF \<notin> set (the (saved_title x))
     \<and> - (10 ^ 8) < saved_time x \<and> saved_time x < 10 ^ 9"

definition reloaded :: "host_fs \<Rightarrow> plist_item \<Rightarrow> plist_item" where
  "reloaded fs x = m3u_item fs (fname x) (the (saved_title x)) (saved_time x)"

definition entry_lines :: "plist_item \<Rightarrow> string list" where
  "entry_lines x = [''#EXTINF:'' @ show_int (saved_time x) @ CHR '','' # the (saved_title x), fname x]"

definition line_text :: "string list \<Rightarrow> string" where
  "line_text ls = concat (map (\<lambda>l. l @ CRLF) ls)"

lemma line_text_simps [simp]: "line_text [] = []" "line_text (l # ls) = l @ CR # LF # line_text ls"
  "line_text (ls @ ks) = line_text ls @ line_text ks"
  by (simp_all add: line_text_def)

lemma show_int_LF: "LF \<notin> set (show_int n)" "CR \<notin> set (show_int n)"
  using show_int_chars [of LF n] show_int_chars [of CR n] by (auto simp: isdigit_def LF_def CR_def)

lemma read_lines_text: "\<forall>l\<in>set ls. LF \<notin> set l \<Longrightarrow> read_lines (line_text ls) = ls"
proof (induction ls)
  case (Cons l ls)
  have "CR \<noteq> LF" by (simp add: CR_def LF_def)
  then have "getlines (line_text (l # ls)) = (l @ [CR, LF]) # getlines (line_text ls)"
    using getlines_cons [of "l @ [CR]" "line_text ls"] Cons.prems by simp
  moreover have "strip_end CR (strip_end LF (l @ [CR, LF])) = l" by (simp add: strip_end_def butlast_append)
  ultimately show ?case using Cons by (simp add: read_lines_def)
qed (simp add: read_lines_def)

lemma save_items_text:
  assumes "\<forall>x\<in>set xs. \<not> i_deleted x \<longrightarrow> savable x"
  shows "save_items (\<lambda>_. True) 0 xs k out = Inr (True, out @ line_text (concat (map entry_lines (filter (\<lambda>x. \<not> i_deleted x) xs))))"
  using assms
proof (induction xs arbitrary: k out)
  case (Cons x xs)
  show ?case
  proof (cases "i_deleted x")
    case False
    then have x: "savable x" using Cons.prems by simp
    have "extinf_text x = Inr (''#EXTINF:'' @ show_int (saved_time x) @ CHR '','' # the (saved_title x) @ CRLF)"
      using x by (auto simp: extinf_text_def savable_def saved_title_def saved_time_def split: option.splits if_splits)
    moreover have "file_text 0 x = Inr (fname x @ CRLF)" using x by (auto simp: file_text_def savable_def fname_def split: option.splits)
    ultimately show ?thesis using False Cons by (simp add: entry_lines_def)
  qed (use Cons in simp)
qed simp

section \<open>Loading\<close>

lemma time_digits: "savable x \<Longrightarrow> length (show_int (saved_time x)) < 10"
  using show_nat_length [of "nat (saved_time x)" 9] show_nat_length [of "nat (- saved_time x)" 8]
  by (auto simp: savable_def show_int_def nat_less_iff)

lemma entry_loaded:
  assumes c: "collation (le_coll E)" and inv: "plist_inv (le_coll E) (m_list st)" and x: "savable x" and st: "\<not> after_extinf st"
    and new: "\<forall>i\<in>set (inorder (search_tree_of (m_list st))). le_coll E (fname x) (name_at (m_list st) i) \<noteq> 0"
  shows "\<exists>tr st'. m3u_lines E cwd ser (entry_lines x @ ls) st = m3u_lines E cwd ser ls st'
    \<and> m_list st' = count_time (saved_time x) (grown (m_list st) (reloaded (le_fs E) x) tr) \<and> plist_inv (le_coll E) (m_list st')
    \<and> set (inorder tr) = insert (num (m_list st)) (set (inorder (search_tree_of (m_list st)))) \<and> \<not> after_extinf st' \<and> added st' = added st + 1"
proof -
  define p t n f where d: "p = m_list st" "t = the (saved_title x)" "n = saved_time x" "f = fname x"
  let ?p1 = "count_time n (grown p (nameless_item t n) (search_tree_of p))"
  let ?st1 = "st\<lparr>m_list := ?p1, last_added := int (num p), after_extinf := True\<rparr>"
  have f: "savable_name f" using x by (simp add: d savable_def)
  have i1: "index_ok (le_coll E) ?p1" using inv by (intro nameless_index) (simp add: d plist_inv_def)
  have l1: "m3u_line E cwd ser (''#EXTINF:'' @ show_int n @ CHR '','' # t) st = Inr (True, ?st1)"
    using extinf_ok [OF st time_digits [OF x], of E t] x by (simp add: m3u_line_def d savable_def)
  have n1: "plist_find_fname (le_coll E) f ?p1 = Inr (-1)"
    using find_absent [OF c i1, of f] inv new
    by (auto simp: d plist_inv_def index_ok_def named_def name_at_counted name_at_grown)
  obtain tr where tr: "plist_set_file (le_fs E) (le_coll E) (int (num p)) f ?p1 = Inr (count_time n (grown p (m3u_item (le_fs E) f t n) tr))"
    "plist_inv (le_coll E) (count_time n (grown p (m3u_item (le_fs E) f t n) tr))" "set (inorder tr) = insert (num p) (set (inorder (search_tree_of p)))"
    using set_file_ok [OF c inv, of f "le_fs E" n t] new by (auto simp: d)
  let ?st2 = "?st1\<lparr>m_list := count_time n (grown p (m3u_item (le_fs E) f t n) tr), added := added st + 1, after_extinf := False\<rparr>"
  have "m3u_line E cwd ser f ?st1 = path_line E cwd f ?st1"
    using savable_chars(1,2) [OF f] by (cases f) (auto simp: m3u_line_def)
  moreover have "length f \<le> PATH_MAX" using f by (simp add: savable_name_def)
  ultimately have l2: "m3u_line E cwd ser f ?st1 = Inr (True, ?st2)"
    using savable_chars(3,4) [OF f] n1 tr(1) by (simp add: path_line_def)
  have "m3u_lines E cwd ser (entry_lines x @ ls) st = m3u_lines E cwd ser ls ?st2"
    using l1 l2 unfolding entry_lines_def d by simp
  then show ?thesis using tr(2,3) by (intro exI [of _ tr] exI [of _ ?st2]) (simp add: reloaded_def d)
qed

lemma entries_loaded:
  assumes c: "collation (le_coll E)" and "plist_inv (le_coll E) (m_list st)" "\<forall>x\<in>set xs. savable x" "\<not> after_extinf st"
    and "\<forall>x\<in>set xs. \<forall>i\<in>set (inorder (search_tree_of (m_list st))). le_coll E (fname x) (name_at (m_list st) i) \<noteq> 0"
    and "sorted_wrt (\<lambda>x y. le_coll E (fname y) (fname x) \<noteq> 0) xs"
  shows "\<exists>st'. m3u_lines E cwd ser (concat (map entry_lines xs) @ ls) st = m3u_lines E cwd ser ls st' \<and> \<not> after_extinf st' \<and> items (m_list st') = items (m_list st) @ map (reloaded (le_fs E)) xs
    \<and> plist_inv (le_coll E) (m_list st') \<and> serial (m_list st') = serial (m_list st) \<and> added st' = added st + int (length xs)"
  using assms(2-)
proof (induction xs arbitrary: st)
  case (Cons x xs)
  obtain tr st1 where 1: "m3u_lines E cwd ser (entry_lines x @ concat (map entry_lines xs) @ ls) st = m3u_lines E cwd ser (concat (map entry_lines xs) @ ls) st1"
    "m_list st1 = count_time (saved_time x) (grown (m_list st) (reloaded (le_fs E) x) tr)" "plist_inv (le_coll E) (m_list st1)"
    "set (inorder tr) = insert (num (m_list st)) (set (inorder (search_tree_of (m_list st))))" "\<not> after_extinf st1" "added st1 = added st + 1"
    using entry_loaded [OF c, of st x cwd ser "concat (map entry_lines xs) @ ls"] Cons.prems by auto
  have lt: "\<forall>i\<in>set (inorder (search_tree_of (m_list st))). i < num (m_list st)"
    using Cons.prems(1) by (auto simp: plist_inv_def index_ok_def named_def)
  have "\<forall>y\<in>set xs. \<forall>i\<in>set (inorder (search_tree_of (m_list st1))). le_coll E (fname y) (name_at (m_list st1) i) \<noteq> 0"
    using Cons.prems(4,5) lt 1(4) by (auto simp: 1(2) name_at_counted name_at_grown reloaded_def)
  from Cons.IH [OF 1(3) _ 1(5) this] Cons.prems(2,5) obtain st' where
    "m3u_lines E cwd ser (concat (map entry_lines xs) @ ls) st1 = m3u_lines E cwd ser ls st'" "\<not> after_extinf st'" "items (m_list st') = items (m_list st1) @ map (reloaded (le_fs E)) xs"
    "plist_inv (le_coll E) (m_list st')" "serial (m_list st') = serial (m_list st1)" "added st' = added st1 + int (length xs)" by auto
  moreover have "serial (m_list st1) = serial (m_list st)" by (simp add: 1(2) count_time_def grown_def)
  ultimately show ?case using 1(1,2,6) by auto
qed auto

lemma serial_inv: "plist_inv coll (plist_set_serial n p) = plist_inv coll p" "items (plist_set_serial n p) = items p"
proof -
  let ?q = "plist_set_serial n p"
  have i: "items ?q = items p" "search_tree_of ?q = search_tree_of p" by (simp_all add: plist_set_serial_def)
  then have "index_ok coll ?q = index_ok coll p" "complete coll ?q = complete coll p"
    using index_complete_cong [of ?q p coll] names_of_items [OF i(1)] by simp_all
  moreover have "counts_ok ?q = counts_ok p" by (simp add: counts_ok_def plist_set_serial_def)
  ultimately show "plist_inv coll ?q = plist_inv coll p" "items ?q = items p" using i(1) by (simp_all add: plist_inv_def)
qed

lemma switch_titles_tags_id: "\<forall>x\<in>set (items p). i_title_tags x \<noteq> None \<Longrightarrow> switch_titles_tags E p = Inr p"
proof -
  assume a: "\<forall>x\<in>set (items p). i_title_tags x \<noteq> None"
  then have b: "\<forall>i<num p. i_title_tags (items p ! i) \<noteq> None" using nth_mem by blast
  have "set is \<subseteq> {0..<num p} \<Longrightarrow> foldR (\<lambda>i p. bindR (plist_deleted p (int i)) (\<lambda>d.
      if \<not> d \<and> i_title_tags (items p ! i) = None \<and> i_title_file (items p ! i) = None
      then make_file_title E (int i) (HideFileExtension E) p else Inr p)) is p = Inr p" for "is"
    using b by (induction "is") (auto simp: plist_deleted_def item_at_def)
  then show ?thesis by (simp add: switch_titles_tags_def)
qed

text \<open>
  C23: a list that is saved with its serial number and loaded again gives the same files in the
  same order, each with its title and its time, the same serial number, and a list that
  meets the invariant. This holds for every list of different names that are resolved paths or web
  addresses, with titles and names of one line and times of at most nine characters.
\<close>

theorem m3u_roundtrip:
  assumes c: "collation (le_coll E)" and s: "\<forall>x\<in>set (live_items p). savable x"
    and u: "sorted_wrt (\<lambda>x y. le_coll E (fname y) (fname x) \<noteq> 0) (live_items p)"
    and n: "- (2 ^ 31) \<le> serial p" "serial p < 2 ^ 31" and r: "ReadTags E" and e: "ext_pos name = Some ''m3u''"
  shows "\<exists>s q. plist_save common_path True (\<lambda>_. True) True None True p = Inr (True, s)
    \<and> plist_load E name (Some s) cwd True plist_init = Inr (int (length (live_items p)), q)
    \<and> items q = map (reloaded (le_fs E)) (live_items p) \<and> serial q = serial p \<and> plist_inv (le_coll E) q"
proof -
  let ?ls = "[''#EXTM3U'', ''#MOCSERIAL: '' @ show_int (serial p)] @ concat (map entry_lines (live_items p))"
  have "plist_save common_path True (\<lambda>_. True) True None True p = Inr (True, line_text ?ls)"
    using save_items_text [of "items p"] s by (simp add: plist_save_def plist_save_m3u_def plist_get_serial_def live_items_def)
  moreover have "\<forall>l\<in>set ?ls. LF \<notin> set l"
    using s show_int_LF by (auto simp: entry_lines_def savable_def savable_name_def LF_def [symmetric]) (auto simp: LF_def)
  then have l: "read_lines (line_text ?ls) = ?ls" by (rule read_lines_text)
  define st1 where "st1 = \<lparr>m_list = plist_set_serial (serial p) plist_init, last_added = -1, after_extinf = False, added = 0\<rparr>"
  have "strtol_any (show_int (serial p)) = (serial p, [])" "wrapS 32 (serial p) = serial p"
    using strtol_any_show [of "serial p"] wrapS_id [of 32 "serial p"] n by (simp_all add: LONG_MIN_def LONG_MAX_def)
  then have h: "m3u_lines E cwd True ?ls \<lparr>m_list = plist_init, last_added = -1, after_extinf = False, added = 0\<rparr>
      = m3u_lines E cwd True (concat (map entry_lines (live_items p))) st1"
    by (simp add: m3u_line_def serial_line_def st1_def)
  have "plist_inv (le_coll E) (m_list st1)" "search_tree_of (m_list st1) = rb_null" "items (m_list st1) = []"
    using plist_init_inv by (simp_all add: st1_def serial_inv) (simp_all add: plist_init_def plist_set_serial_def rb_init_tree_def)
  then obtain st' where st': "m3u_lines E cwd True ?ls \<lparr>m_list = plist_init, last_added = -1, after_extinf = False, added = 0\<rparr> = Inr st'"
    "items (m_list st') = map (reloaded (le_fs E)) (live_items p)" "plist_inv (le_coll E) (m_list st')" "serial (m_list st') = serial (m_list st1)"
    "added st' = added st1 + int (length (live_items p))"
    using entries_loaded [OF c _ s _ _ u, of st1 cwd True "[]"] unfolding h by (auto simp: st1_def)
  have "switch_titles_tags E (m_list st') = Inr (m_list st')" using st'(2) by (intro switch_titles_tags_id) (auto simp: reloaded_def)
  moreover have "\<not> strcaseeq ''m3u'' ''pls''" by (simp add: strcaseeq_def tolower_def isupper_def)
  moreover have "serial (m_list st1) = serial p" "added st1 = 0" by (simp_all add: st1_def plist_set_serial_def)
  ultimately have "plist_load E name (Some (line_text ?ls)) cwd True plist_init = Inr (int (length (live_items p)), m_list st')"
    using st'(1,5) r e unfolding plist_load_def plist_load_m3u_def by (simp add: l del: append.simps line_text_simps)
  with \<open>plist_save common_path True (\<lambda>_. True) True None True p = Inr (True, line_text ?ls)\<close> st'(2,3,4)
  show ?thesis by (intro exI [of _ "line_text ?ls"] exI [of _ "m_list st'"]) (simp add: st1_def plist_set_serial_def)
qed

definition file_env :: "bool \<Rightarrow> list_env" where
  "file_env read_tags = \<lparr>le_fs = sample_fs, le_coll = strcmp, files_iconv_str = (\<lambda>s. s), ReadTags = read_tags, HideFileExtension = True,
     FileNamesIconv = False, FormatString = ''%t''\<rparr>"

definition file_list :: plist where
  "file_list = plist_init\<lparr>items := [plist_new_item\<lparr>i_file := Some ''/music/a b.mp3'', i_title_tags := Some ''A, B'', i_tags := Some (tags_new\<lparr>time := 215\<rparr>)\<rparr>,
     plist_new_item\<lparr>i_file := Some ''/music/old.mp3'', i_deleted := True\<rparr>,
     plist_new_item\<lparr>i_file := Some ''http://radio.org/live'', i_title_file := Some ''radio''\<rparr>], serial := 7\<rparr>"

theorem m3u_roundtrip_witness:
  "\<exists>s q. plist_save [] True (\<lambda>_. True) True None True file_list = Inr (True, s)
    \<and> plist_load (file_env True) ''/tmp/list.m3u'' (Some s) ''/home'' True plist_init = Inr (2, q)
    \<and> map i_file (items q) = [Some ''/music/a b.mp3'', Some ''http://radio.org/live''] \<and> map item_time (items q) = [215, 0] \<and> serial q = 7"
proof -
  have c: "collation (le_coll (file_env True))" using strcmp.collation_axioms by (simp add: file_env_def)
  have s: "\<forall>x\<in>set (live_items file_list). savable x" by code_simp
  have "le_coll (file_env True) = strcmp" by (simp add: file_env_def)
  moreover have "sorted_wrt (\<lambda>x y. strcmp (fname y) (fname x) \<noteq> 0) (live_items file_list)" by code_simp
  ultimately have u: "sorted_wrt (\<lambda>x y. le_coll (file_env True) (fname y) (fname x) \<noteq> 0) (live_items file_list)" by simp
  have e: "ext_pos ''/tmp/list.m3u'' = Some ''m3u''" by code_simp
  have l: "length (live_items file_list) = 2" "map (\<lambda>x. Some (fname x)) (live_items file_list) = [Some ''/music/a b.mp3'', Some ''http://radio.org/live'']"
    "map saved_time (live_items file_list) = [215, 0]" by code_simp+
  have n: "serial file_list = 7" "ReadTags (file_env True)" by (simp_all add: file_list_def file_env_def)
  have "map i_file (map (reloaded fs) xs) = map (\<lambda>x. Some (fname x)) xs" "map item_time (map (reloaded fs) xs) = map saved_time xs" for fs xs
    by (simp_all add: reloaded_def)
  moreover obtain s q where "plist_save [] True (\<lambda>_. True) True None True file_list = Inr (True, s)"
    "plist_load (file_env True) ''/tmp/list.m3u'' (Some s) ''/home'' True plist_init = Inr (int (length (live_items file_list)), q)"
    "items q = map (reloaded (le_fs (file_env True))) (live_items file_list)" "serial q = serial file_list"
    using m3u_roundtrip [OF c s u _ _ n(2) e, of "[]" "''/home''"] n(1) by auto
  ultimately show ?thesis using n(1) l by (intro exI [of _ s] exI [of _ q]) (simp del: map_map)
qed

section \<open>A file that ends too early\<close>

text \<open>The titles of the items before the nameless one are made, and then its name is missing.\<close>

lemma make_file_title_ok:
  assumes "i < num p" "\<not> i_deleted (items p ! i)" "i_file (items p ! i) = Some f"
  shows "\<exists>t. make_file_title E (int i) h p = Inr (set_item i ((items p ! i)\<lparr>i_title_file := Some t\<rparr>) p)"
  using assms by (auto simp: make_file_title_def live_item_def item_type_def plist_deleted_def item_at_def plist_set_title_file_def)

definition title_step :: "list_env \<Rightarrow> nat \<Rightarrow> plist \<Rightarrow> plist result" where
  "title_step E i p = bindR (plist_deleted p (int i)) (\<lambda>d.
     if d then Inr p
     else bindR (if i_title_file (items p ! i) = None then make_file_title E (int i) (HideFileExtension E) p else Inr p) (\<lambda>p.
       bindR (guardR (i_title_file (items p ! i) \<noteq> None) Assert) (\<lambda>_. Inr p)))"

lemma switch_titles_file_steps: "switch_titles_file E p = foldR (title_step E) [0..<num p] p"
  by (simp add: switch_titles_file_def title_step_def [abs_def])

lemma set_item_same: "i < num p \<Longrightarrow> set_item i (items p ! i) p = p"
  by (simp add: set_item_def)

lemma title_step_ok:
  assumes "i < num p" "i_file (items p ! i) \<noteq> None"
  shows "\<exists>x. title_step E i p = Inr (set_item i x p)"
proof -
  obtain f where "i_file (items p ! i) = Some f" using assms(2) by auto
  then obtain t where "\<not> i_deleted (items p ! i) \<Longrightarrow> make_file_title E (int i) (HideFileExtension E) p = Inr (set_item i ((items p ! i)\<lparr>i_title_file := Some t\<rparr>) p)"
    using make_file_title_ok [OF assms(1)] by metis
  then have "title_step E i p = Inr (set_item i (if \<not> i_deleted (items p ! i) \<and> i_title_file (items p ! i) = None
      then (items p ! i)\<lparr>i_title_file := Some t\<rparr> else items p ! i) p)"
    using assms(1) set_item_same [OF assms(1)] by (simp add: title_step_def plist_deleted_def item_at_def)
  then show ?thesis by blast
qed

lemma titles_before:
  assumes "\<forall>i<k. i_file (items p ! i) \<noteq> None" "k \<le> num p"
  shows "\<exists>q. foldR (title_step E) [0..<k] p = Inr q \<and> num q = num p \<and> (\<forall>i. k \<le> i \<longrightarrow> i < num p \<longrightarrow> items q ! i = items p ! i)"
  using assms
proof (induction k)
  case (Suc k)
  then obtain q where q: "foldR (title_step E) [0..<k] p = Inr q" "num q = num p" "\<forall>i. k \<le> i \<longrightarrow> i < num p \<longrightarrow> items q ! i = items p ! i"
    by auto
  obtain x where "title_step E k q = Inr (set_item k x q)" using title_step_ok [of k q E] q(2,3) Suc.prems by auto
  then show ?case using q by (auto simp: foldR_append)
qed simp

text \<open>
  With file names as titles, a playlist file whose last line announces a file that does not
  follow makes the program fail an assertion: the item without a name stays on the list, and a
  title is made of its name.
\<close>

lemma m3u_incomplete_asserts:
  assumes c: "collation (le_coll E)" and s: "\<forall>x\<in>set xs. savable x" and u: "sorted_wrt (\<lambda>x y. le_coll E (fname y) (fname x) \<noteq> 0) xs"
    and t: "LF \<notin> set t" and n: "- (10 ^ 8) < n" "n < 10 ^ 9" and r: "\<not> ReadTags E" and e: "ext_pos name = Some ''m3u''"
  shows "plist_load E name (Some (line_text (concat (map entry_lines xs) @ [''#EXTINF:'' @ show_int n @ CHR '','' # t]))) cwd ser plist_init = Inl Assert"
proof -
  let ?l = "''#EXTINF:'' @ show_int n @ CHR '','' # t" and ?st = "\<lparr>m_list = plist_init, last_added = -1, after_extinf = False, added = 0\<rparr>"
  have "\<forall>l\<in>set (concat (map entry_lines xs) @ [?l]). LF \<notin> set l"
    using s t show_int_LF by (auto simp: entry_lines_def savable_def savable_name_def) (auto simp: LF_def)
  then have l: "read_lines (line_text (concat (map entry_lines xs) @ [?l])) = concat (map entry_lines xs) @ [?l]" by (rule read_lines_text)
  have "plist_inv (le_coll E) (m_list ?st)" "search_tree_of (m_list ?st) = rb_null" "items (m_list ?st) = []"
    using plist_init_inv by (simp_all add: plist_init_def rb_init_tree_def)
  then obtain st where st: "m3u_lines E cwd ser (concat (map entry_lines xs) @ [?l]) ?st = m3u_lines E cwd ser [?l] st"
    "\<not> after_extinf st" "items (m_list st) = map (reloaded (le_fs E)) xs"
    using entries_loaded [OF c _ s _ _ u, of ?st cwd ser "[?l]"] by auto
  define q where "q = count_time n (grown (m_list st) (nameless_item t n) (search_tree_of (m_list st)))"
  have d: "length (show_int n) < 10"
    using show_nat_length [of "nat n" 9] show_nat_length [of "nat (- n)" 8] n by (auto simp: show_int_def nat_less_iff)
  have "m3u_line E cwd ser ?l st = Inr (True, st\<lparr>m_list := q, last_added := int (num (m_list st)), after_extinf := True\<rparr>)"
    using extinf_ok [OF st(2) d, of E t] n by (simp add: m3u_line_def q_def)
  then have load: "plist_load_m3u E (Some (line_text (concat (map entry_lines xs) @ [?l]))) cwd ser plist_init = Inr (added st, q)"
    unfolding plist_load_m3u_def option.case l st(1) by simp
  have i: "items q = map (reloaded (le_fs E)) xs @ [nameless_item t n]" using st(3) by (simp add: q_def)
  then have "\<forall>i<length xs. i_file (items q ! i) \<noteq> None" "length xs \<le> num q" by (simp_all add: nth_append reloaded_def)
  from titles_before [OF this, of E] obtain q' where q': "foldR (title_step E) [0..<length xs] q = Inr q'" "num q' = num q"
    "items q' ! length xs = nameless_item t n" using i by (auto simp: nth_append)
  have "title_step E (length xs) q' = Inl Assert"
    using q'(2,3) i by (simp add: title_step_def plist_deleted_def item_at_def make_file_title_def live_item_def item_type_def)
      (simp add: nameless_item_def plist_new_item_def)
  moreover have "[0..<num q] = [0..<length xs] @ [length xs]" using i by simp
  ultimately have "switch_titles_file E q = Inl Assert" using q'(1) by (simp add: switch_titles_file_steps foldR_append)
  moreover have "\<not> strcaseeq ''m3u'' ''pls''" by (simp add: strcaseeq_def tolower_def isupper_def)
  ultimately show ?thesis using load r e unfolding plist_load_def by simp
qed

end
