(* ===== verification/Out_Buf.thy ===== *)
theory Out_Buf
  imports Fifo_Buf C_Float "HOL-Library.Sublist"
begin

text \<open>
  The output buffer, \<^verbatim>\<open>src/src/moc-2.5.0/out_buf.c\<close>: a thread reads from the byte buffer and
  sends to the audio device, while the player puts sound into it and the user pauses and stops.
  A step of the system is what a thread does while it holds the mutex, or one call of the
  device outside of it; a thread that waits for a condition may wake up at any time, as POSIX
  allows. One call of \<^verbatim>\<open>out_buf_put\<close> runs at a time, as in the player.
\<close>

section \<open>State\<close>

record 'a out_buf =
  ob_fifo :: "'a fifo_buf"
  ob_pause :: bool
  ob_exit :: bool
  ob_stop :: bool
  reset_dev :: bool
  ob_time :: flt
  hardware_buf_fill :: int
  read_thread_waiting :: bool
  free_callback :: bool

text \<open>
  Where the reading thread is: before its first lock, at the top of its loop (where it holds the
  mutex), in the callback, waiting for \<^verbatim>\<open>play_cond\<close>, sending the rest of a chunk, or at its end.
\<close>

datatype 'a reader = Start | Top | Callback | Waiting | Playing nat "'a list" | Ended

text \<open>A call of \<^verbatim>\<open>out_buf_put\<close> with the rest of its data, which waits for \<^verbatim>\<open>ready_cond\<close> or not.\<close>

datatype 'a writer = Idle | Putting "'a list" | Blocked "'a list"

datatype 'a device = Dev_reset | Dev_close | Dev_open | Dev_play "'a list"

record 'a out_sys =
  ob :: "'a out_buf"
  rd :: "'a reader"
  wr :: "'a writer"
  audio_dev_closed :: bool
  calls :: "'a device list"

definition out_buf_init :: "'a list \<Rightarrow> nat \<Rightarrow> 'a out_sys result" where
  "out_buf_init mem sz =
     bindR (guardR (0 < sz) Assert) (\<lambda>_.
     bindR (fifo_buf_init mem sz) (\<lambda>b.
       Inr \<lparr>ob = \<lparr>ob_fifo = b, ob_pause = False, ob_exit = False, ob_stop = False, reset_dev = False, ob_time = 0,
              hardware_buf_fill = 0, read_thread_waiting = False, free_callback = False\<rparr>,
            rd = Start, wr = Idle, audio_dev_closed = False, calls = []\<rparr>))"

section \<open>The reading thread\<close>

definition AUDIO_MAX_PLAY :: flt where "AUDIO_MAX_PLAY = f64 (1 / 10)"
definition AUDIO_MAX_PLAY_BYTES :: nat where "AUDIO_MAX_PLAY_BYTES = 32768"

text \<open>
  What the audio functions return during a step: whether the device can be opened again, the
  bytes of a frame and of a second, and how much the hardware buffers.
\<close>

record audio_funcs =
  can_open :: bool
  audio_get_bpf :: int
  audio_get_bps :: int
  audio_get_buf_fill :: int

text \<open>The number of bytes to take from the buffer; without a frame size the conversion of a quotient by zero is undefined.\<close>

definition play_bytes :: "audio_funcs \<Rightarrow> nat result" where
  "play_bytes a =
     (let bpf = audio_get_bpf a in
      if bpf \<le> 0 \<or> audio_get_bps a < 0 then Inl Undefined
      else
        let play_buf_frames = nat \<lfloor>f64 (min (f64 (of_int (audio_get_bps a) * AUDIO_MAX_PLAY)) (of_nat AUDIO_MAX_PLAY_BYTES) / of_int bpf)\<rfloor>
        in Inr (play_buf_frames * nat bpf))"

text \<open>The part of the loop behind the wait. A \<^verbatim>\<open>continue\<close> goes to the top without giving the mutex away.\<close>

definition reader_go :: "audio_funcs \<Rightarrow> 'a out_sys \<Rightarrow> 'a out_sys result" where
  "reader_go a s =
     (let s = s\<lparr>ob := (ob s)\<lparr>read_thread_waiting := False\<rparr>\<rparr>;
          s = (if audio_dev_closed s \<and> \<not> ob_pause (ob s) \<and> can_open a
               then s\<lparr>audio_dev_closed := False, calls := calls s @ [Dev_open]\<rparr> else s)
      in if fifo_buf_get_fill (ob_fifo (ob s)) = 0 then Inr (s\<lparr>rd := (if ob_exit (ob s) then Ended else Top)\<rparr>)
         else if ob_pause (ob s) \<or> ob_stop (ob s) \<or> audio_dev_closed s then Inr (s\<lparr>rd := Top\<rparr>)
         else
           bindR (play_bytes a) (\<lambda>n.
           bindR (fifo_buf_get n (ob_fifo (ob s))) (\<lambda>(play_buf, b).
           bindR (guardR (length play_buf \<le> AUDIO_MAX_PLAY_BYTES) Undefined) (\<lambda>_.
             Inr (s\<lparr>ob := (ob s)\<lparr>ob_fifo := b\<rparr>, rd := Playing (length play_buf) play_buf\<rparr>)))))"

definition reader_signal :: "audio_funcs \<Rightarrow> 'a out_sys \<Rightarrow> 'a out_sys result" where
  "reader_signal a s =
     (if (fifo_buf_get_fill (ob_fifo (ob s)) = 0 \<or> ob_pause (ob s) \<or> ob_stop (ob s)) \<and> \<not> ob_exit (ob s) then
        let s = (if ob_pause (ob s) \<and> \<not> audio_dev_closed s
                 then s\<lparr>audio_dev_closed := True, calls := calls s @ [Dev_close]\<rparr> else s)
        in Inr (s\<lparr>ob := (ob s)\<lparr>read_thread_waiting := True\<rparr>, rd := Waiting\<rparr>)
      else reader_go a s)"

definition reader_top :: "audio_funcs \<Rightarrow> 'a out_sys \<Rightarrow> 'a out_sys result" where
  "reader_top a s =
     (let s = (if reset_dev (ob s) \<and> \<not> audio_dev_closed s
               then s\<lparr>ob := (ob s)\<lparr>reset_dev := False\<rparr>, calls := calls s @ [Dev_reset]\<rparr> else s);
          s = (if ob_stop (ob s) then s\<lparr>ob := (ob s)\<lparr>ob_fifo := fifo_buf_clear (ob_fifo (ob s))\<rparr>\<rparr> else s)
      in if free_callback (ob s) then Inr (s\<lparr>rd := Callback\<rparr>) else reader_signal a s)"

text \<open>The device takes \<open>k\<close> bytes of the chunk; after the last one the time is updated.\<close>

definition reader_play :: "audio_funcs \<Rightarrow> nat \<Rightarrow> 'a out_sys \<Rightarrow> 'a out_sys" where
  "reader_play a k s =
     (case rd s of
        Playing n [] \<Rightarrow>
          s\<lparr>ob := (ob s)\<lparr>ob_time := (if n \<noteq> 0 \<and> audio_get_bps a \<noteq> 0
                                      then f32 (ob_time (ob s) + f32 (f32 (of_nat n) / f32 (of_int (audio_get_bps a)))) else ob_time (ob s)),
                        hardware_buf_fill := audio_get_buf_fill a\<rparr>, rd := Top\<rparr>
      | Playing n xs \<Rightarrow> s\<lparr>rd := Playing n (drop k xs), calls := calls s @ [Dev_play (take k xs)]\<rparr>
      | _ \<Rightarrow> s)"

definition read_thread :: "audio_funcs \<Rightarrow> nat \<Rightarrow> 'a out_sys \<Rightarrow> 'a out_sys result" where
  "read_thread a k s =
     (case rd s of
        Start \<Rightarrow> Inr (s\<lparr>rd := Top\<rparr>)
      | Top \<Rightarrow> reader_top a s
      | Callback \<Rightarrow> reader_signal a s
      | Waiting \<Rightarrow> reader_go a s
      | Playing _ _ \<Rightarrow> Inr (reader_play a k s)
      | Ended \<Rightarrow> Inr s)"

section \<open>The other threads\<close>

text \<open>Putting data, from the point where the mutex is held and there is space or the buffer is stopped.\<close>

definition put_section :: "'a list \<Rightarrow> 'a out_sys \<Rightarrow> 'a out_sys result" where
  "put_section data s =
     (if ob_stop (ob s) then Inr (s\<lparr>wr := Idle\<rparr>)
      else bindR (fifo_buf_put data (ob_fifo (ob s))) (\<lambda>(written, b).
        Inr (s\<lparr>ob := (ob s)\<lparr>ob_fifo := b\<rparr>, wr := Putting (drop written data)\<rparr>)))"

definition out_buf_put :: "'a out_sys \<Rightarrow> 'a out_sys result" where
  "out_buf_put s =
     (case wr s of
        Idle \<Rightarrow> Inr s
      | Putting [] \<Rightarrow> Inr (s\<lparr>wr := Idle\<rparr>)
      | Putting data \<Rightarrow>
          if fifo_buf_get_space (ob_fifo (ob s)) = 0 \<and> \<not> ob_stop (ob s) then Inr (s\<lparr>wr := Blocked data\<rparr>) else put_section data s
      | Blocked data \<Rightarrow> put_section data s)"

definition out_buf_pause :: "'a out_buf \<Rightarrow> 'a out_buf" where
  "out_buf_pause b = b\<lparr>ob_pause := True, reset_dev := True\<rparr>"

definition out_buf_unpause :: "'a out_buf \<Rightarrow> 'a out_buf" where
  "out_buf_unpause b = b\<lparr>ob_pause := False\<rparr>"

definition out_buf_stop :: "'a out_buf \<Rightarrow> 'a out_buf" where
  "out_buf_stop b = b\<lparr>ob_stop := True, ob_pause := False, reset_dev := True\<rparr>"

definition out_buf_reset :: "'a out_buf \<Rightarrow> 'a out_buf" where
  "out_buf_reset b = b\<lparr>ob_fifo := fifo_buf_clear (ob_fifo b), ob_stop := False, ob_pause := False, reset_dev := False, hardware_buf_fill := 0\<rparr>"

definition out_buf_time_set :: "flt \<Rightarrow> 'a out_buf \<Rightarrow> 'a out_buf" where
  "out_buf_time_set t b = b\<lparr>ob_time := t\<rparr>"

text \<open>Conversion to an integer rounds towards zero.\<close>

definition out_buf_time_get :: "int \<Rightarrow> 'a out_buf \<Rightarrow> int" where
  "out_buf_time_get bps b =
     (let t = f32 (ob_time b - (if bps \<noteq> 0 then f32 (f32 (of_int (hardware_buf_fill b)) / f32 (of_int bps)) else 0))
      in if t < 0 then \<lceil>t\<rceil> else \<lfloor>t\<rfloor>)"

definition out_buf_set_free_callback :: "bool \<Rightarrow> 'a out_buf \<Rightarrow> 'a out_buf" where
  "out_buf_set_free_callback f b = b\<lparr>free_callback := f\<rparr>"

definition out_buf_get_free :: "'a out_buf \<Rightarrow> nat" where
  "out_buf_get_free b = fifo_buf_get_space (ob_fifo b)"

definition out_buf_get_fill :: "'a out_buf \<Rightarrow> nat" where
  "out_buf_get_fill b = fifo_buf_get_fill (ob_fifo b)"

text \<open>The condition under which \<^verbatim>\<open>out_buf_wait\<close> returns.\<close>

definition out_buf_waited :: "'a out_buf \<Rightarrow> bool" where
  "out_buf_waited b = read_thread_waiting b"

text \<open>The two parts of \<^verbatim>\<open>out_buf_destroy\<close>, before and after it waits for the end of the thread.\<close>

definition out_buf_request_exit :: "'a out_buf \<Rightarrow> 'a out_buf" where
  "out_buf_request_exit b = b\<lparr>ob_exit := True\<rparr>"

definition out_buf_destroy :: "'a out_buf \<Rightarrow> 'a out_buf" where
  "out_buf_destroy b = b\<lparr>ob_fifo := fifo_buf_clear (ob_fifo b)\<rparr>"

section \<open>The size of a chunk\<close>

lemma fl_near:
  assumes "0 < x"
  shows "\<bar>fl p x - x\<bar> \<le> x * 2 powi (- p)"
proof -
  define e where "e = ilog2 x - (p - 1)"
  have u: "(0::rat) < 2 powi e" by simp
  have "\<bar>of_int (rne (x / 2 powi e)) - x / 2 powi e\<bar> * 2 powi e \<le> 1 / 2 * 2 powi e"
    using rne_near [of "x / 2 powi e"] u by (intro mult_right_mono) auto
  moreover have "\<bar>of_int (rne (x / 2 powi e)) - x / 2 powi e\<bar> * 2 powi e = \<bar>fl p x - x\<bar>"
  proof -
    have "\<bar>of_int (rne (x / 2 powi e)) - x / 2 powi e\<bar> * 2 powi e = \<bar>(of_int (rne (x / 2 powi e)) - x / 2 powi e) * 2 powi e\<bar>"
      using u by (simp add: abs_mult)
    also have "\<dots> = \<bar>fl p x - x\<bar>" using u assms by (simp add: fl_def Let_def e_def [symmetric] left_diff_distrib)
    finally show ?thesis .
  qed
  moreover have "1 / 2 * 2 powi e = (2 powi ilog2 x * 2 powi (- p) :: rat)"
    by (simp add: e_def power_int_diff power_int_minus field_simps power_int_add)
  moreover have "2 powi ilog2 x * 2 powi (- p) \<le> x * 2 powi (- p)"
    using ilog2_bounds(1) [OF assms] by (intro mult_right_mono) auto
  ultimately show ?thesis by linarith
qed

lemma frames_bound:
  assumes "0 < b" "b < 2 ^ 31" "0 \<le> m" "m \<le> (32768 :: rat)"
  shows "\<lfloor>f64 (m / of_int b)\<rfloor> * b \<le> 32768"
proof (rule ccontr)
  let ?k = "\<lfloor>f64 (m / of_int b)\<rfloor>" and ?q = "m / of_int b"
  assume a: "\<not> ?k * b \<le> 32768"
  have b: "(0::rat) < of_int b" "(1::rat) \<le> of_int b" using assms(1) by simp_all
  have "32769 \<le> ?k * b" using a by linarith
  then have "(of_int 32769 :: rat) \<le> of_int (?k * b)" by (simp only: of_int_le_iff)
  then have k: "(32769 :: rat) \<le> of_int ?k * of_int b" by simp
  have q: "?q \<le> 32768 / of_int b" using assms(4) b by (simp add: divide_right_mono)
  have "0 < ?q"
  proof (rule ccontr)
    assume "\<not> 0 < ?q"
    then have "?q = 0" using assms(3) b by (simp add: zero_less_divide_iff)
    then have "?k = 0" by (simp add: f64_def fl_def)
    with k show False by simp
  qed
  then have "\<bar>f64 ?q - ?q\<bar> \<le> ?q * 2 powi (- 53)" using fl_near [of ?q 53] by (simp add: f64_def)
  moreover have "of_int ?k \<le> f64 ?q" by (rule of_int_floor_le)
  ultimately have "of_int ?k \<le> ?q + ?q * 2 powi (- 53)" by linarith
  also have "\<dots> \<le> 32768 / of_int b + 32768 / of_int b * 2 powi (- 53)"
    using q by (intro add_mono mult_right_mono) auto
  finally have "of_int ?k * of_int b \<le> (32768 / of_int b + 32768 / of_int b * 2 powi (- 53)) * (of_int b :: rat)"
    using b(1) by (intro mult_right_mono) auto
  also have "\<dots> = 32768 + 32768 * 2 powi (- 53)" using b(1) by (simp add: field_simps)
  also have "\<dots> < (32769 :: rat)" by (simp add: power_int_def power_one_over)
  finally show False using k by simp
qed

definition valid_params :: "audio_funcs \<Rightarrow> bool" where
  "valid_params a \<longleftrightarrow> 0 < audio_get_bpf a \<and> audio_get_bpf a < 2 ^ 31 \<and> 0 \<le> audio_get_bps a"

lemma f64_nonneg: "0 \<le> x \<Longrightarrow> 0 \<le> f64 x"
  using rne_mono_int' [of 0] by (cases "x = 0") (auto simp: f64_def fl_def Let_def)

lemma play_bytes_ok:
  assumes "valid_params a"
  shows "\<exists>n. play_bytes a = Inr n \<and> n \<le> AUDIO_MAX_PLAY_BYTES"
proof -
  let ?b = "audio_get_bpf a" and ?m = "min (f64 (of_int (audio_get_bps a) * AUDIO_MAX_PLAY)) 32768"
  let ?k = "\<lfloor>f64 (?m / of_int ?b)\<rfloor>"
  have v: "0 < ?b" "?b < 2 ^ 31" "0 \<le> audio_get_bps a" using assms by (simp_all add: valid_params_def)
  have "0 \<le> AUDIO_MAX_PLAY" unfolding AUDIO_MAX_PLAY_def by (rule f64_nonneg) simp
  then have m: "0 \<le> ?m" using v(3) by (auto intro!: f64_nonneg mult_nonneg_nonneg)
  then have "0 \<le> f64 (?m / of_int ?b)" using v(1) by (intro f64_nonneg) auto
  then have k: "0 \<le> ?k" by simp
  have "?k * ?b \<le> 32768" using frames_bound [OF v(1,2) m] by simp
  then have "nat ?k * nat ?b \<le> 32768" using k v(1) by (simp flip: nat_mult_distrib)
  then show ?thesis using v by (simp add: play_bytes_def Let_def AUDIO_MAX_PLAY_BYTES_def)
qed

section \<open>All interleavings\<close>

text \<open>
  A step with the bytes that \<^verbatim>\<open>out_buf_put\<close> accepts in it; the flag is false for the steps that
  give up the contents of the buffer. Every step but those of the reading thread needs the mutex,
  which that thread holds at the top of its loop.
\<close>

definition put_data :: "'a writer \<Rightarrow> 'a list" where
  "put_data w = (case w of Idle \<Rightarrow> [] | Putting xs \<Rightarrow> xs | Blocked xs \<Rightarrow> xs)"

inductive out_step :: "'a out_sys \<Rightarrow> 'a list \<Rightarrow> bool \<Rightarrow> 'a out_sys \<Rightarrow> bool" where
  read_step: "read_thread a k s = Inr s' \<Longrightarrow> out_step s [] True s'"
| call_step: "rd s \<noteq> Top \<Longrightarrow> wr s = Idle \<Longrightarrow> out_step s [] True (s\<lparr>wr := Putting data\<rparr>)"
| put_step: "rd s \<noteq> Top \<Longrightarrow> out_buf_put s = Inr s' \<Longrightarrow> wr s' \<noteq> Idle \<Longrightarrow>
    out_step s (take (length (put_data (wr s)) - length (put_data (wr s'))) (put_data (wr s))) True s'"
| return_step: "rd s \<noteq> Top \<Longrightarrow> out_buf_put s = Inr s' \<Longrightarrow> wr s' = Idle \<Longrightarrow> out_step s [] True s'"
| pause_step: "rd s \<noteq> Top \<Longrightarrow> out_step s [] True (s\<lparr>ob := out_buf_pause (ob s)\<rparr>)"
| unpause_step: "rd s \<noteq> Top \<Longrightarrow> out_step s [] True (s\<lparr>ob := out_buf_unpause (ob s)\<rparr>)"
| time_step: "rd s \<noteq> Top \<Longrightarrow> out_step s [] True (s\<lparr>ob := out_buf_time_set t (ob s)\<rparr>)"
| callback_step: "rd s \<noteq> Top \<Longrightarrow> out_step s [] True (s\<lparr>ob := out_buf_set_free_callback f (ob s)\<rparr>)"
| exit_step: "rd s \<noteq> Top \<Longrightarrow> out_step s [] True (s\<lparr>ob := out_buf_request_exit (ob s)\<rparr>)"
| stop_step: "rd s \<noteq> Top \<Longrightarrow> out_step s [] False (s\<lparr>ob := out_buf_stop (ob s)\<rparr>)"
| reset_step: "rd s \<noteq> Top \<Longrightarrow> out_step s [] False (s\<lparr>ob := out_buf_reset (ob s)\<rparr>)"
| destroy_step: "rd s = Ended \<Longrightarrow> out_step s [] False (s\<lparr>ob := out_buf_destroy (ob s)\<rparr>)"

inductive out_run :: "'a out_sys \<Rightarrow> 'a list \<Rightarrow> bool \<Rightarrow> 'a out_sys \<Rightarrow> bool" for s0 where
  run_start: "out_run s0 [] True s0"
| run_step: "out_run s0 acc kept s \<Longrightarrow> out_step s xs b s' \<Longrightarrow> out_run s0 (acc @ xs) (kept \<and> b) s'"

text \<open>What the device has been given, what is on its way to it, and what is still in the buffer.\<close>

fun sent_by :: "'a device \<Rightarrow> 'a list" where
  "sent_by (Dev_play xs) = xs"
| "sent_by Dev_reset = []"
| "sent_by Dev_close = []"
| "sent_by Dev_open = []"

definition sent :: "'a out_sys \<Rightarrow> 'a list" where
  "sent s = concat (map sent_by (calls s))"

definition in_flight :: "'a out_sys \<Rightarrow> 'a list" where
  "in_flight s = (case rd s of Playing n xs \<Rightarrow> xs | _ \<Rightarrow> [])"

definition stream_of :: "'a out_sys \<Rightarrow> 'a list" where
  "stream_of s = sent s @ in_flight s @ ring (ob_fifo (ob s))"

definition out_inv :: "'a out_sys \<Rightarrow> bool" where
  "out_inv s \<longleftrightarrow> ring_inv (ob_fifo (ob s)) \<and>
     (case rd s of Playing n xs \<Rightarrow> \<not> audio_dev_closed s \<and> length xs \<le> n \<and> n \<le> AUDIO_MAX_PLAY_BYTES | _ \<Rightarrow> True)"

lemma ring_clear [simp]: "ring (fifo_buf_clear b) = []" "ring_inv b \<Longrightarrow> ring_inv (fifo_buf_clear b)"
  by (simp_all add: fifo_buf_clear_def ring_def ring_inv_def)

lemma reader_go_stream:
  assumes "out_inv s" "rd s \<in> {Top, Callback, Waiting}" "reader_go a s = Inr s'"
  shows "out_inv s' \<and> stream_of s' = stream_of s \<and> ob_stop (ob s') = ob_stop (ob s)"
proof -
  define s1 where "s1 = s\<lparr>ob := (ob s)\<lparr>read_thread_waiting := False\<rparr>\<rparr>"
  define s2 where "s2 = (if audio_dev_closed s1 \<and> \<not> ob_pause (ob s1) \<and> can_open a
    then s1\<lparr>audio_dev_closed := False, calls := calls s1 @ [Dev_open]\<rparr> else s1)"
  have s2: "ob_fifo (ob s2) = ob_fifo (ob s)" "sent s2 = sent s" "rd s2 = rd s" "ob_stop (ob s2) = ob_stop (ob s)"
    by (simp_all add: s2_def s1_def sent_def)
  have r: "ring_inv (ob_fifo (ob s2))" using assms(1) s2(1) by (simp add: out_inv_def)
  have i: "stream_of s = sent s2 @ ring (ob_fifo (ob s2))" using assms(2) s2 by (auto simp: stream_of_def in_flight_def)
  have g: "reader_go a s = (if fifo_buf_get_fill (ob_fifo (ob s2)) = 0 then Inr (s2\<lparr>rd := (if ob_exit (ob s2) then Ended else Top)\<rparr>)
      else if ob_pause (ob s2) \<or> ob_stop (ob s2) \<or> audio_dev_closed s2 then Inr (s2\<lparr>rd := Top\<rparr>)
      else bindR (play_bytes a) (\<lambda>n. bindR (fifo_buf_get n (ob_fifo (ob s2))) (\<lambda>(play_buf, b).
           bindR (guardR (length play_buf \<le> AUDIO_MAX_PLAY_BYTES) Undefined) (\<lambda>_.
             Inr (s2\<lparr>ob := (ob s2)\<lparr>ob_fifo := b\<rparr>, rd := Playing (length play_buf) play_buf\<rparr>)))))"
    unfolding reader_go_def Let_def s2_def s1_def by simp
  consider r' where "s' = s2\<lparr>rd := r'\<rparr>" "r' = Ended \<or> r' = Top"
    | n b where "\<not> audio_dev_closed s2" "play_bytes a = Inr n" "fifo_buf_get n (ob_fifo (ob s2)) = Inr (take n (ring (ob_fifo (ob s2))), b)"
      "ring_inv b" "ring b = drop n (ring (ob_fifo (ob s2)))" "length (take n (ring (ob_fifo (ob s2)))) \<le> AUDIO_MAX_PLAY_BYTES"
      "s' = s2\<lparr>ob := (ob s2)\<lparr>ob_fifo := b\<rparr>, rd := Playing (length (take n (ring (ob_fifo (ob s2))))) (take n (ring (ob_fifo (ob s2))))\<rparr>"
    using assms(3) fifo_buf_get_ok [OF r] unfolding g by (auto simp: bindR_eq_Inr split: if_splits) fastforce+
  then show ?thesis
  proof cases
    case 1
    then show ?thesis using r i s2(4) by (auto simp: out_inv_def stream_of_def in_flight_def sent_def)
  next
    case 2
    then show ?thesis using i s2(4) by (auto simp: out_inv_def stream_of_def in_flight_def sent_def)
  qed
qed

lemma reader_signal_stream:
  assumes "out_inv s" "rd s \<in> {Top, Callback, Waiting}" "reader_signal a s = Inr s'"
  shows "out_inv s' \<and> stream_of s' = stream_of s \<and> ob_stop (ob s') = ob_stop (ob s)"
  using assms reader_go_stream [OF assms(1,2)]
  by (auto simp: reader_signal_def Let_def out_inv_def stream_of_def in_flight_def sent_def split: if_splits)

lemma read_thread_stream:
  assumes "out_inv s" "read_thread a k s = Inr s'"
  shows "out_inv s' \<and> ob_stop (ob s') = ob_stop (ob s) \<and> subseq (stream_of s') (stream_of s) \<and> (\<not> ob_stop (ob s) \<longrightarrow> stream_of s' = stream_of s)"
proof (cases "rd s")
  case Top
  define s1 where "s1 = (if reset_dev (ob s) \<and> \<not> audio_dev_closed s
    then s\<lparr>ob := (ob s)\<lparr>reset_dev := False\<rparr>, calls := calls s @ [Dev_reset]\<rparr> else s)"
  define s2 where "s2 = (if ob_stop (ob s1) then s1\<lparr>ob := (ob s1)\<lparr>ob_fifo := fifo_buf_clear (ob_fifo (ob s1))\<rparr>\<rparr> else s1)"
  have 1: "sent s1 = sent s" "ob_fifo (ob s1) = ob_fifo (ob s)" "rd s1 = Top" "ob_stop (ob s1) = ob_stop (ob s)"
    using Top by (simp_all add: s1_def sent_def)
  have 2: "out_inv s2" "rd s2 = Top" "ob_stop (ob s2) = ob_stop (ob s)" "subseq (stream_of s2) (stream_of s)"
    "\<not> ob_stop (ob s) \<longrightarrow> stream_of s2 = stream_of s"
    using assms(1) 1 Top by (auto simp: s2_def out_inv_def stream_of_def in_flight_def sent_def)
  have "(if free_callback (ob s2) then Inr (s2\<lparr>rd := Callback\<rparr>) else reader_signal a s2) = Inr s'"
    using assms(2) Top unfolding read_thread_def reader_top_def Let_def s1_def [symmetric] s2_def [symmetric] by simp
  then show ?thesis
    using reader_signal_stream [OF 2(1), of a s'] 2 by (auto simp: out_inv_def stream_of_def in_flight_def sent_def split: if_splits)
next
  case (Playing n xs)
  then have s': "s' = reader_play a k s" using assms(2) by (simp add: read_thread_def)
  show ?thesis
  proof (cases xs)
    case Nil
    then show ?thesis using assms(1) Playing s' by (auto simp: reader_play_def out_inv_def stream_of_def in_flight_def sent_def)
  next
    case (Cons y ys)
    then have "s' = s\<lparr>rd := Playing n (drop k xs), calls := calls s @ [Dev_play (take k xs)]\<rparr>" using s' Playing by (simp add: reader_play_def)
    moreover have td: "take k xs @ drop k xs @ r = xs @ r" for r by (metis append_assoc append_take_drop_id)
    ultimately show ?thesis using assms(1) Playing by (simp add: out_inv_def stream_of_def in_flight_def sent_def td del: append_same_eq) linarith
  qed
qed (use assms reader_signal_stream [OF assms(1), of a s'] reader_go_stream [OF assms(1), of a s'] in
  \<open>auto simp: read_thread_def out_inv_def stream_of_def in_flight_def sent_def\<close>)

lemma stream_frame:
  assumes "rd s' = rd s" "calls s' = calls s" "audio_dev_closed s' = audio_dev_closed s"
  shows "ob_fifo (ob s') = ob_fifo (ob s) \<Longrightarrow> out_inv s' = out_inv s \<and> stream_of s' = stream_of s"
    and "out_inv s \<Longrightarrow> ring_inv (ob_fifo (ob s')) \<Longrightarrow> out_inv s'"
  using assms by (auto simp: out_inv_def stream_of_def in_flight_def sent_def split: reader.splits)

lemma put_section_stream:
  assumes "out_inv s" "put_section data s = Inr s'" "\<not> ob_stop (ob s)"
  shows "\<exists>n. wr s' = Putting (drop n data) \<and> n \<le> length data \<and> out_inv s' \<and> stream_of s' = stream_of s @ take n data \<and> ob_stop (ob s') = ob_stop (ob s)"
proof -
  have r: "ring_inv (ob_fifo (ob s))" using assms(1) by (simp add: out_inv_def)
  let ?n = "min (bsize (ob_fifo (ob s)) - fill (ob_fifo (ob s))) (length data)"
  obtain b where "fifo_buf_put data (ob_fifo (ob s)) = Inr (?n, b)" "ring_inv b"
    "ring b = ring (ob_fifo (ob s)) @ take (bsize (ob_fifo (ob s)) - fill (ob_fifo (ob s))) data"
    using fifo_buf_put_ok [OF r, of data] by blast
  moreover have "take (bsize (ob_fifo (ob s)) - fill (ob_fifo (ob s))) data = take ?n data" by (metis min.commute take_take take_all_iff order_refl)
  moreover from calculation have "s' = s\<lparr>ob := (ob s)\<lparr>ob_fifo := b\<rparr>, wr := Putting (drop ?n data)\<rparr>" using assms(2,3) by (simp add: put_section_def)
  ultimately show ?thesis
    using assms(1) stream_frame(2) [of s' s] by (intro exI [of _ ?n]) (simp add: stream_of_def in_flight_def sent_def)
qed

lemma put_stream:
  assumes "out_inv s" "out_buf_put s = Inr s'"
  shows "out_inv s' \<and> ob_stop (ob s') = ob_stop (ob s) \<and>
    stream_of s' = stream_of s @ (if wr s' = Idle then [] else take (length (put_data (wr s)) - length (put_data (wr s'))) (put_data (wr s)))"
proof -
  define data where "data = put_data (wr s)"
  have p: "put_section data s = Inr s' \<Longrightarrow> s' = s\<lparr>wr := Idle\<rparr> \<or> \<not> ob_stop (ob s)" by (auto simp: put_section_def)
  have "s' = s \<and> wr s = Idle \<or> s' = s\<lparr>wr := Idle\<rparr> \<or> s' = s\<lparr>wr := Blocked data\<rparr> \<or> put_section data s = Inr s'"
  proof (cases "wr s")
    case (Putting d)
    then show ?thesis using assms(2) by (cases d) (auto simp: out_buf_put_def data_def put_data_def split: if_splits)
  qed (use assms(2) in \<open>auto simp: out_buf_put_def data_def put_data_def\<close>)
  then consider "s' = s" "wr s = Idle" | "s' = s\<lparr>wr := Idle\<rparr>" | "s' = s\<lparr>wr := Blocked data\<rparr>" | "put_section data s = Inr s'" "\<not> ob_stop (ob s)"
    using p by blast
  then show ?thesis
  proof cases
    case 3
    then show ?thesis using assms(1) stream_frame(1) [of s' s] by (simp add: data_def [symmetric]) (simp add: put_data_def)
  next
    case 4
    then obtain n where n: "wr s' = Putting (drop n data)" "n \<le> length data" "out_inv s'" "stream_of s' = stream_of s @ take n data"
      "ob_stop (ob s') = ob_stop (ob s)" using put_section_stream [OF assms(1)] by blast
    then have "put_data (wr s') = drop n data" by (simp add: put_data_def)
    then show ?thesis using n by (simp add: data_def [symmetric])
  qed (use assms(1) stream_frame(1) [of s' s] in simp_all)
qed

lemma out_step_stream:
  assumes "out_step s xs b s'" "out_inv s"
  shows "out_inv s' \<and> subseq (stream_of s') (stream_of s @ xs) \<and>
    (\<not> ob_stop (ob s) \<longrightarrow> b \<longrightarrow> \<not> ob_stop (ob s') \<and> stream_of s' = stream_of s @ xs)"
  using assms
proof (induction rule: out_step.induct)
  case (read_step a k s s')
  then show ?case using read_thread_stream [of s a k s'] by auto
next
  case (put_step s s')
  then show ?case using put_stream [of s s'] by auto
next
  case (return_step s s')
  then show ?case using put_stream [of s s'] by auto
qed (auto simp: out_inv_def stream_of_def in_flight_def sent_def out_buf_pause_def out_buf_unpause_def out_buf_time_set_def
  out_buf_set_free_callback_def out_buf_request_exit_def out_buf_stop_def out_buf_reset_def out_buf_destroy_def split: reader.splits)

lemma out_run_stream:
  assumes "out_run s0 acc kept s" "out_inv s0" "stream_of s0 = []" "\<not> ob_stop (ob s0)"
  shows "out_inv s \<and> subseq (stream_of s) acc \<and> (kept \<longrightarrow> \<not> ob_stop (ob s) \<and> stream_of s = acc)"
  using assms
proof (induction rule: out_run.induct)
  case (run_step acc kept s xs b s')
  then have ih: "out_inv s" "subseq (stream_of s) acc" "kept \<longrightarrow> \<not> ob_stop (ob s) \<and> stream_of s = acc" by auto
  have 1: "out_inv s'" "subseq (stream_of s') (stream_of s @ xs)" "\<not> ob_stop (ob s) \<longrightarrow> b \<longrightarrow> \<not> ob_stop (ob s') \<and> stream_of s' = stream_of s @ xs"
    using out_step_stream [OF run_step.hyps(2) ih(1)] by auto
  have "subseq (stream_of s @ xs) (acc @ xs)" using ih(2) by (rule list_emb_append_mono) simp
  then show ?case using 1 ih(3) subseq_order.order_trans by blast
qed simp

section \<open>Correctness\<close>

lemma init_stream:
  assumes "length mem = sz" "out_buf_init mem sz = Inr s0"
  shows "out_inv s0 \<and> stream_of s0 = [] \<and> \<not> ob_stop (ob s0)"
proof -
  obtain b where "fifo_buf_init mem sz = Inr b" "s0 = \<lparr>ob = \<lparr>ob_fifo = b, ob_pause = False, ob_exit = False, ob_stop = False, reset_dev = False,
      ob_time = 0, hardware_buf_fill = 0, read_thread_waiting = False, free_callback = False\<rparr>, rd = Start, wr = Idle, audio_dev_closed = False, calls = []\<rparr>"
    using assms(2) by (auto simp: out_buf_init_def bindR_eq_Inr)
  then show ?thesis using fifo_buf_init_inv [OF assms(1)] by (auto simp: out_inv_def stream_of_def in_flight_def sent_def)
qed

text \<open>
  C24: for every interleaving of the reading thread, the player and the user's requests, the
  bytes given to the audio device are bytes that were put into the buffer, in the order in
  which they were put and none of them twice. As long as the buffer is not stopped or reset, nothing
  is lost: what was given to the device, what is about to be given to it and what is in the
  buffer are together exactly what was put. While sound is sent the device is not closed.
\<close>

theorem out_buf_plays_what_was_put:
  assumes "length mem = sz" "out_buf_init mem sz = Inr s0" "out_run s0 put kept s"
  shows "subseq (sent s) put \<and> (kept \<longrightarrow> sent s @ in_flight s @ ring (ob_fifo (ob s)) = put) \<and> (in_flight s \<noteq> [] \<longrightarrow> \<not> audio_dev_closed s)"
proof -
  have i: "out_inv s" "subseq (stream_of s) put" "kept \<longrightarrow> stream_of s = put"
    using out_run_stream [OF assms(3)] init_stream [OF assms(1,2)] by auto
  have "subseq (sent s) (stream_of s)" by (rule prefix_imp_subseq) (simp add: stream_of_def)
  then have "subseq (sent s) put" using i(2) subseq_order.order_trans by blast
  moreover have "kept \<longrightarrow> sent s @ in_flight s @ ring (ob_fifo (ob s)) = put" using i(3) by (simp add: stream_of_def)
  moreover have "in_flight s \<noteq> [] \<longrightarrow> \<not> audio_dev_closed s" using i(1) by (auto simp: out_inv_def in_flight_def split: reader.splits)
  ultimately show ?thesis by blast
qed

text \<open>A tenth of a second in the float arithmetic of the source.\<close>

lemma rne_unique: "\<bar>x - of_int k\<bar> < 1 / 2 \<Longrightarrow> rne x = k"
  using rne_near [of x] by linarith

lemma fl_unique:
  assumes "2 powi e \<le> x" "x < 2 powi (e + 1)" "\<bar>x / 2 powi (e - (p - 1)) - of_int k\<bar> < 1 / 2"
  shows "fl p x = of_int k * 2 powi (e - (p - 1))"
proof -
  have x: "0 < x" using assms(1) by (rule less_le_trans [rotated]) simp
  have "2 powi e < (2 powi (ilog2 x + 1) :: rat)" "2 powi ilog2 x < (2 powi (e + 1) :: rat)"
    using assms(1,2) ilog2_bounds [OF x] by linarith+
  then have "\<not> ilog2 x + 1 \<le> e" "\<not> e + 1 \<le> ilog2 x" using power_int_increasing [of _ _ "2 :: rat"] by (meson not_less one_le_numeral)+
  then have "ilog2 x = e" by linarith
  then show ?thesis using x rne_unique [OF assms(3)] by (simp add: fl_def Let_def)
qed

lemma f64_tenth: "f64 (1 / 10) = 7205759403792794 / 2 ^ 56"
  unfolding f64_def by (subst fl_unique [of "- 4" _ _ 7205759403792794]) (simp_all add: power_int_def power_one_over)

lemma f64_ten: "f64 (100 * (7205759403792794 / 2 ^ 56)) = 10"
  unfolding f64_def by (subst fl_unique [of 3 _ _ "10 * 2 ^ 49"]) (simp_all add: power_int_def power_one_over)

text \<open>A buffer of four bytes, two of which are on their way to the device after one is sent.\<close>

definition out_sample :: "nat out_sys" where
  "out_sample = \<lparr>ob = \<lparr>ob_fifo = \<lparr>buf = [0, 0, 0, 0], bsize = 4, pos = 0, fill = 0\<rparr>, ob_pause = False, ob_exit = False, ob_stop = False,
     reset_dev = False, ob_time = 0, hardware_buf_fill = 0, read_thread_waiting = False, free_callback = False\<rparr>,
     rd = Start, wr = Idle, audio_dev_closed = False, calls = []\<rparr>"

definition out_sample_funcs :: audio_funcs where
  "out_sample_funcs = \<lparr>can_open = True, audio_get_bpf = 1, audio_get_bps = 100, audio_get_buf_fill = 0\<rparr>"

definition out_sample_put :: "nat out_sys" where
  "out_sample_put = out_sample\<lparr>ob := (ob out_sample)\<lparr>ob_fifo := \<lparr>buf = [7, 8, 9, 0], bsize = 4, pos = 0, fill = 3\<rparr>\<rparr>, wr := Putting []\<rparr>"

definition out_sample_sent :: "nat out_sys" where
  "out_sample_sent = out_sample_put\<lparr>ob := (ob out_sample)\<lparr>ob_fifo := \<lparr>buf = [7, 8, 9, 0], bsize = 4, pos = 3, fill = 0\<rparr>\<rparr>,
     rd := Playing 3 [8, 9], calls := [Dev_play [7]]\<rparr>"

lemma play_bytes_sample: "play_bytes out_sample_funcs = Inr 10"
proof -
  have "f64 10 = 10" using fl_int [of 53 10] by (simp add: f64_def)
  then show ?thesis
    by (simp add: play_bytes_def out_sample_funcs_def AUDIO_MAX_PLAY_def f64_tenth f64_ten [simplified] AUDIO_MAX_PLAY_BYTES_def)
qed

lemma out_sample_reached: "out_run out_sample [7, 8, 9] True out_sample_sent"
proof -
  let ?s0 = "out_sample\<lparr>wr := Putting [7, 8, 9]\<rparr>" and ?r = "read_thread out_sample_funcs 1"
  let ?s3 = "out_sample_put\<lparr>ob := (ob out_sample)\<lparr>ob_fifo := \<lparr>buf = [7, 8, 9, 0], bsize = 4, pos = 3, fill = 0\<rparr>\<rparr>, rd := Playing 3 [7, 8, 9]\<rparr>"
  have p: "out_buf_put ?s0 = Inr out_sample_put" by code_simp
  have g: "fifo_buf_get 10 \<lparr>buf = [7, 8, 9, 0], bsize = 4, pos = 0, fill = 3\<rparr> = Inr ([7, 8, 9 :: nat], \<lparr>buf = [7, 8, 9, 0], bsize = 4, pos = 3, fill = 0\<rparr>)"
    by code_simp
  have r: "?r out_sample_put = Inr (out_sample_put\<lparr>rd := Top\<rparr>)" "?r ?s3 = Inr out_sample_sent"
    by (simp_all add: read_thread_def out_sample_put_def out_sample_def reader_play_def out_sample_sent_def)
  have t: "?r (out_sample_put\<lparr>rd := Top\<rparr>) = Inr ?s3"
    using g play_bytes_sample by (simp add: read_thread_def reader_top_def reader_signal_def reader_go_def Let_def
      out_sample_put_def out_sample_def fifo_buf_get_fill_def AUDIO_MAX_PLAY_BYTES_def)
  have "out_run out_sample ([] @ []) (True \<and> True) ?s0"
    by (rule run_step [OF run_start call_step]) (simp_all add: out_sample_def)
  moreover have "out_step ?s0 [7, 8, 9] True out_sample_put"
    using put_step [of ?s0 out_sample_put] p by (simp add: put_data_def out_sample_def out_sample_put_def)
  ultimately have "out_run out_sample (([] @ []) @ [7, 8, 9]) ((True \<and> True) \<and> True) out_sample_put" by (rule run_step)
  from run_step [OF run_step [OF run_step [OF this read_step [OF r(1)]] read_step [OF t]] read_step [OF r(2)]] show ?thesis by simp
qed

theorem out_buf_plays_what_was_put_witness:
  "sent out_sample_sent = [7] \<and> in_flight out_sample_sent = [8, 9] \<and>
   sent out_sample_sent @ in_flight out_sample_sent @ ring (ob_fifo (ob out_sample_sent)) = [7, 8, 9]"
proof -
  have "sent out_sample_sent = [7]" "in_flight out_sample_sent = [8, 9]" by (simp_all add: sent_def in_flight_def out_sample_sent_def)
  moreover have i: "out_buf_init [0, 0, 0, 0] 4 = Inr out_sample" by (simp add: out_buf_init_def fifo_buf_init_def out_sample_def)
  have "length [0, 0, 0, 0 :: nat] = 4" by simp
  from out_buf_plays_what_was_put [OF this i out_sample_reached] have
    "sent out_sample_sent @ in_flight out_sample_sent @ ring (ob_fifo (ob out_sample_sent)) = [7, 8, 9]" by blast
  ultimately show ?thesis by blast
qed

text \<open>
  Whenever the device has valid parameters, no step of the reading thread and of the player
  has undefined behaviour, in whatever state the threads are: the chunks fit into the array of
  the reading thread, and the ring is not left.
\<close>

lemma out_buf_steps_defined:
  assumes "length mem = sz" "out_buf_init mem sz = Inr s0" "out_run s0 put kept s" "valid_params a"
  shows "(\<exists>s'. read_thread a k s = Inr s') \<and> (\<exists>s'. out_buf_put s = Inr s')"
proof -
  have i: "out_inv s" using out_run_stream [OF assms(3)] init_stream [OF assms(1,2)] by auto
  obtain n where n: "play_bytes a = Inr n" "n \<le> AUDIO_MAX_PLAY_BYTES" using play_bytes_ok [OF assms(4)] by blast
  have go: "\<exists>s'. reader_go a t = Inr s'" if "ring_inv (ob_fifo (ob t))" for t :: "'a out_sys"
    using fifo_buf_get_ok [OF that, of n] n by (auto simp: reader_go_def Let_def guardR_def)
  then have sig: "\<exists>s'. reader_signal a t = Inr s'" if "ring_inv (ob_fifo (ob t))" for t :: "'a out_sys"
    using that by (auto simp: reader_signal_def Let_def)
  have "\<exists>s'. reader_top a s = Inr s'" using i sig by (auto simp: reader_top_def Let_def out_inv_def)
  then have "\<exists>s'. read_thread a k s = Inr s'" using i go sig by (auto simp: read_thread_def out_inv_def split: reader.split)
  moreover have "\<exists>s'. put_section d s = Inr s'" for d
    using fifo_buf_put_ok [of "ob_fifo (ob s)" d] i by (auto simp: put_section_def out_inv_def)
  then have "\<exists>s'. out_buf_put s = Inr s'" by (auto simp: out_buf_put_def split: writer.split list.split)
  ultimately show ?thesis by blast
qed

text \<open>
  A thread that shall end while the buffer is paused and not empty goes around its loop without
  ever giving the mutex away, so that nobody can resume it.
\<close>

lemma exit_while_paused_spins:
  assumes "rd s = Top" "ob_exit (ob s)" "ob_pause (ob s)" "\<not> ob_stop (ob s)" "\<not> free_callback (ob s)" "fill (ob_fifo (ob s)) \<noteq> 0"
  shows "\<exists>s'. read_thread a k s = Inr s' \<and> rd s' = Top \<and> ob_exit (ob s') \<and> ob_pause (ob s') \<and> \<not> ob_stop (ob s')
    \<and> \<not> free_callback (ob s') \<and> fill (ob_fifo (ob s')) \<noteq> 0"
  using assms by (auto simp: read_thread_def reader_top_def reader_signal_def reader_go_def Let_def fifo_buf_get_fill_def)

end
