(* ===== verification/Str_Lists.thy ===== *)
theory Str_Lists
  imports Common
begin

text \<open>
  Lists of strings, \<^verbatim>\<open>src/src/moc-2.5.0/lists.c\<close>: an array of pointers that grows by doubling.
  A cell of the array that holds no string is \<open>None\<close>. The contract of a list that can be
  appended to is the locale \<open>growable\<close>, from which splitting and loading follow.
\<close>

section \<open>Appending\<close>

locale growable =
  fixes inv :: "'l \<Rightarrow> bool" and contents :: "'l \<Rightarrow> 'a list" and add :: "'a \<Rightarrow> 'l \<Rightarrow> 'l result"
  assumes add_ok: "inv l \<Longrightarrow> \<exists>l'. add x l = Inr l' \<and> inv l' \<and> contents l' = contents l @ [x]"
begin

lemma add_all: "inv l \<Longrightarrow> \<exists>l'. foldR add xs l = Inr l' \<and> inv l' \<and> contents l' = contents l @ xs"
proof (induction xs arbitrary: l)
  case (Cons x xs)
  obtain l1 where l1: "add x l = Inr l1" "inv l1" "contents l1 = contents l @ [x]" using add_ok [OF Cons.prems] by blast
  with Cons.IH [OF l1(2)] show ?case by auto
qed simp

end

section \<open>The list\<close>

record lists_t_strs =
  l_size :: nat
  l_capacity :: nat
  l_strs :: "string option list"

definition lists_strs_new :: "int \<Rightarrow> lists_t_strs result" where
  "lists_strs_new reserve =
     bindR (guardR (0 \<le> reserve) Assert) (\<lambda>_.
       let n = (if reserve \<noteq> 0 then nat reserve else 64)
       in Inr \<lparr>l_size = 0, l_capacity = n, l_strs = replicate n None\<rparr>)"

definition lists_strs_clear :: "lists_t_strs \<Rightarrow> lists_t_strs" where
  "lists_strs_clear l = l\<lparr>l_size := 0\<rparr>"

definition lists_strs_size :: "lists_t_strs \<Rightarrow> int" where
  "lists_strs_size l = int (l_size l)"

definition lists_strs_capacity :: "lists_t_strs \<Rightarrow> int" where
  "lists_strs_capacity l = int (l_capacity l)"

definition lists_strs_empty :: "lists_t_strs \<Rightarrow> bool" where
  "lists_strs_empty l = (l_size l = 0)"

text \<open>A cell that is read as a string must hold one.\<close>

definition cell :: "lists_t_strs \<Rightarrow> int \<Rightarrow> string result" where
  "cell l i = bindR (arr_get (l_strs l) i) (\<lambda>c. case c of None \<Rightarrow> Inl Undefined | Some s \<Rightarrow> Inr s)"

definition lists_strs_at :: "lists_t_strs \<Rightarrow> int \<Rightarrow> string result" where
  "lists_strs_at l i = bindR (guardR (0 \<le> i \<and> i < lists_strs_size l) Assert) (\<lambda>_. cell l i)"

text \<open>\<^verbatim>\<open>qsort\<close> with the comparison of the caller.\<close>

definition lists_strs_sort :: "(string option list \<Rightarrow> string option list) \<Rightarrow> lists_t_strs \<Rightarrow> lists_t_strs" where
  "lists_strs_sort qsort l = l\<lparr>l_strs := qsort (take (l_size l) (l_strs l)) @ drop (l_size l) (l_strs l)\<rparr>"

function reverse_loop :: "int \<Rightarrow> int \<Rightarrow> string option list \<Rightarrow> string option list result" where
  "reverse_loop ix iy cs =
     (if ix < iy then
        bindR (arr_get cs ix) (\<lambda>s.
        bindR (arr_get cs iy) (\<lambda>t.
        bindR (arr_set cs ix t) (\<lambda>cs.
        bindR (arr_set cs iy s) (reverse_loop (ix + 1) (iy - 1)))))
      else Inr cs)"
  by pat_completeness auto
termination
  by (relation "measure (\<lambda>(ix, iy, cs). nat (iy - ix))") auto

declare reverse_loop.simps [simp del]

definition lists_strs_reverse :: "lists_t_strs \<Rightarrow> lists_t_strs result" where
  "lists_strs_reverse l = bindR (reverse_loop 0 (lists_strs_size l - 1) (l_strs l)) (\<lambda>cs. Inr (l\<lparr>l_strs := cs\<rparr>))"

text \<open>
  The capacity is doubled when the array is full. In the program size and capacity are of type
  \<^verbatim>\<open>int\<close>: the model is that of lists with less than \<open>2 ^ 30\<close> strings.
\<close>

definition lists_strs_push :: "string \<Rightarrow> lists_t_strs \<Rightarrow> lists_t_strs result" where
  "lists_strs_push s l =
     (let l = (if l_size l = l_capacity l
               then l\<lparr>l_capacity := l_capacity l * 2, l_strs := take (l_capacity l * 2) (l_strs l) @ replicate (l_capacity l * 2 - length (l_strs l)) None\<rparr>
               else l)
      in bindR (arr_set (l_strs l) (int (l_size l)) (Some s)) (\<lambda>cs. Inr (l\<lparr>l_strs := cs, l_size := l_size l + 1\<rparr>)))"

definition lists_strs_pop :: "lists_t_strs \<Rightarrow> (string option \<times> lists_t_strs) result" where
  "lists_strs_pop l =
     (if l_size l > 0 then bindR (cell l (lists_strs_size l - 1)) (\<lambda>s. Inr (Some s, l\<lparr>l_size := l_size l - 1\<rparr>))
      else Inr (None, l))"

definition lists_strs_swap :: "int \<Rightarrow> string \<Rightarrow> lists_t_strs \<Rightarrow> (string \<times> lists_t_strs) result" where
  "lists_strs_swap i s l =
     bindR (guardR (0 \<le> i \<and> i < lists_strs_size l) Assert) (\<lambda>_.
     bindR (cell l i) (\<lambda>old.
     bindR (arr_set (l_strs l) i (Some s)) (\<lambda>cs. Inr (old, l\<lparr>l_strs := cs\<rparr>))))"

definition lists_strs_append :: "string \<Rightarrow> lists_t_strs \<Rightarrow> lists_t_strs result" where
  "lists_strs_append s l = lists_strs_push s l"

definition lists_strs_remove :: "lists_t_strs \<Rightarrow> lists_t_strs result" where
  "lists_strs_remove l = bindR (lists_strs_pop l) (\<lambda>(_, l). Inr l)"

definition lists_strs_replace :: "int \<Rightarrow> string \<Rightarrow> lists_t_strs \<Rightarrow> lists_t_strs result" where
  "lists_strs_replace i s l = bindR (lists_strs_swap i s l) (\<lambda>(_, l). Inr l)"

section \<open>Helpers\<close>

definition lists_strs_split :: "string \<Rightarrow> string \<Rightarrow> lists_t_strs \<Rightarrow> (int \<times> lists_t_strs) result" where
  "lists_strs_split s delim l =
     foldR (\<lambda>token (n, l). bindR (lists_strs_append token l) (\<lambda>l. Inr (n + 1, l))) (tokens delim s) (0, l)"

definition lists_strs_tokenise :: "string \<Rightarrow> lists_t_strs \<Rightarrow> (int \<times> lists_t_strs) result" where
  "lists_strs_tokenise s l = lists_strs_split s [SP, CHR 0x09] l"

text \<open>
  A format is given as what is before and behind its \<^verbatim>\<open>%s\<close>. The result is written piece by piece
  into memory of the computed length.
\<close>

definition all_strings :: "lists_t_strs \<Rightarrow> string list result" where
  "all_strings l = foldR (\<lambda>i ss. bindR (lists_strs_at l (int i)) (\<lambda>s. Inr (ss @ [s]))) [0..<l_size l] []"

fun fmt_loop :: "string \<Rightarrow> string \<Rightarrow> int \<Rightarrow> string list \<Rightarrow> string \<Rightarrow> string result" where
  "fmt_loop before behind len [] out = Inr out"
| "fmt_loop before behind len (s # ss) out =
     (let t = before @ s @ behind; rc = int (length t) in
      if rc > len then fatal else fmt_loop before behind (len - rc) ss (out @ t))"

definition lists_strs_fmt :: "string \<Rightarrow> string \<Rightarrow> lists_t_strs \<Rightarrow> string option result" where
  "lists_strs_fmt before behind l =
     (if \<not> lists_strs_empty l then
        bindR (all_strings l) (\<lambda>ss.
          let len = (\<Sum>s\<leftarrow>ss. int (length s)) + int (length ss) * (int (length (before @ ''%s'' @ behind)) - 2)
          in bindR (fmt_loop before behind len ss []) (\<lambda>r. Inr (Some r)))
      else Inr None)"

definition lists_strs_cat :: "lists_t_strs \<Rightarrow> string option result" where
  "lists_strs_cat l = lists_strs_fmt [] [] l"

text \<open>The null-terminated array of the snapshot is the list of its strings.\<close>

definition lists_strs_save :: "lists_t_strs \<Rightarrow> string list result" where
  "lists_strs_save l = all_strings l"

definition lists_strs_load :: "string list \<Rightarrow> lists_t_strs \<Rightarrow> (int \<times> lists_t_strs) result" where
  "lists_strs_load saved l =
     bindR (foldR lists_strs_append saved l) (\<lambda>l'. Inr (lists_strs_size l' - lists_strs_size l, l'))"

function find_from :: "lists_t_strs \<Rightarrow> string \<Rightarrow> int \<Rightarrow> int result" where
  "find_from l sought i =
     (if i < lists_strs_size l then
        bindR (lists_strs_at l i) (\<lambda>s. if strcaseeq s sought then Inr i else find_from l sought (i + 1))
      else Inr i)"
  by pat_completeness auto
termination
  by (relation "measure (\<lambda>(l, s, i). nat (lists_strs_size l - i))") auto

declare find_from.simps [simp del]

definition lists_strs_find :: "string \<Rightarrow> lists_t_strs \<Rightarrow> int result" where
  "lists_strs_find sought l = find_from l sought 0"

definition lists_strs_exists :: "string \<Rightarrow> lists_t_strs \<Rightarrow> bool result" where
  "lists_strs_exists sought l = bindR (lists_strs_find sought l) (\<lambda>i. Inr (i < lists_strs_size l))"

section \<open>The strings of a list\<close>

definition strings :: "lists_t_strs \<Rightarrow> string list" where
  "strings l = map the (take (l_size l) (l_strs l))"

definition list_inv :: "lists_t_strs \<Rightarrow> bool" where
  "list_inv l \<longleftrightarrow> 0 < l_capacity l \<and> l_size l \<le> l_capacity l \<and> length (l_strs l) = l_capacity l
     \<and> (\<forall>i<l_size l. l_strs l ! i \<noteq> None)"

lemma length_strings [simp]: "list_inv l \<Longrightarrow> length (strings l) = l_size l"
  by (simp add: strings_def list_inv_def)

lemma cell_ok: "list_inv l \<Longrightarrow> i < l_size l \<Longrightarrow> cell l (int i) = Inr (strings l ! i)"
  by (auto simp: cell_def list_inv_def strings_def)

lemma at_ok: "list_inv l \<Longrightarrow> i < l_size l \<Longrightarrow> lists_strs_at l (int i) = Inr (strings l ! i)"
  using cell_ok by (simp add: lists_strs_at_def lists_strs_size_def)

lemma new_ok: "0 \<le> reserve \<Longrightarrow> \<exists>l. lists_strs_new reserve = Inr l \<and> list_inv l \<and> strings l = []"
  by (simp add: lists_strs_new_def Let_def list_inv_def strings_def)

lemma push_ok:
  assumes "list_inv l"
  shows "\<exists>l'. lists_strs_push s l = Inr l' \<and> list_inv l' \<and> strings l' = strings l @ [s]"
proof -
  define l1 where "l1 = (if l_size l = l_capacity l
    then l\<lparr>l_capacity := l_capacity l * 2, l_strs := take (l_capacity l * 2) (l_strs l) @ replicate (l_capacity l * 2 - length (l_strs l)) None\<rparr> else l)"
  have 1: "list_inv l1" "strings l1 = strings l" "l_size l1 = l_size l" "l_size l1 < length (l_strs l1)"
    using assms by (auto simp: l1_def list_inv_def strings_def nth_append)
  let ?l = "l1\<lparr>l_strs := (l_strs l1)[l_size l1 := Some s], l_size := l_size l1 + 1\<rparr>"
  have "lists_strs_push s l = Inr ?l"
    using 1(4) by (simp add: lists_strs_push_def Let_def l1_def [symmetric])
  moreover have "list_inv ?l" using 1(1,4) by (auto simp: list_inv_def nth_list_update)
  moreover have "strings ?l = strings l @ [s]"
    using 1(2,4) by (simp add: strings_def take_Suc_conv_app_nth)
  ultimately show ?thesis by blast
qed

interpretation str_list: growable list_inv strings lists_strs_append
  by unfold_locales (simp add: lists_strs_append_def push_ok)

lemma pop_ok:
  assumes "list_inv l"
  shows "\<exists>l'. lists_strs_pop l = Inr (if strings l = [] then None else Some (last (strings l)), l') \<and> list_inv l' \<and> strings l' = butlast (strings l)"
proof (cases "l_size l = 0")
  case True
  then show ?thesis using assms by (simp add: lists_strs_pop_def strings_def)
next
  case False
  then obtain n where n: "l_size l = Suc n" by (cases "l_size l") auto
  have ne: "strings l \<noteq> []" using length_strings [OF assms] n by auto
  have "cell l (int n) = Inr (last (strings l))" using cell_ok [OF assms, of n] n ne length_strings [OF assms] by (simp add: last_conv_nth)
  then have "lists_strs_pop l = Inr (Some (last (strings l)), l\<lparr>l_size := n\<rparr>)" using n by (simp add: lists_strs_pop_def lists_strs_size_def)
  moreover have "n < length (l_strs l)" using assms n by (simp add: list_inv_def)
  then have "strings (l\<lparr>l_size := n\<rparr>) = butlast (strings l)" by (simp add: strings_def n take_Suc_conv_app_nth)
  moreover have "list_inv (l\<lparr>l_size := n\<rparr>)" using assms n by (simp add: list_inv_def)
  ultimately show ?thesis using ne by auto
qed

lemma swap_ok:
  assumes "list_inv l" "i < l_size l"
  shows "\<exists>l'. lists_strs_swap (int i) s l = Inr (strings l ! i, l') \<and> list_inv l' \<and> strings l' = (strings l)[i := s]"
proof -
  let ?l = "l\<lparr>l_strs := (l_strs l)[i := Some s]\<rparr>"
  have "lists_strs_swap (int i) s l = Inr (strings l ! i, ?l)"
    using cell_ok [OF assms] assms by (simp add: lists_strs_swap_def lists_strs_size_def list_inv_def)
  moreover have "list_inv ?l" using assms by (auto simp: list_inv_def nth_list_update)
  moreover have "strings ?l = (strings l)[i := s]" using assms by (simp add: strings_def take_update_swap map_update)
  ultimately show ?thesis by blast
qed

lemma reverse_loop_ok:
  "0 \<le> ix \<Longrightarrow> iy < int (length cs) \<Longrightarrow> ix \<le> iy + 1 \<Longrightarrow> \<exists>ds. reverse_loop ix iy cs = Inr ds \<and> length ds = length cs
    \<and> (\<forall>j<length cs. ds ! j = (if ix \<le> int j \<and> int j \<le> iy then cs ! nat (ix + iy - int j) else cs ! j))"
proof (induction ix iy cs rule: reverse_loop.induct)
  case (1 ix iy cs)
  show ?case
  proof (cases "ix < iy")
    case True
    let ?cs = "cs[nat ix := cs ! nat iy, nat iy := cs ! nat ix]"
    have r: "reverse_loop ix iy cs = reverse_loop (ix + 1) (iy - 1) ?cs"
      using True 1(2,3) by (subst reverse_loop.simps) simp
    obtain ds where ds: "reverse_loop (ix + 1) (iy - 1) ?cs = Inr ds" "length ds = length cs"
      "\<forall>j<length cs. ds ! j = (if ix + 1 \<le> int j \<and> int j \<le> iy - 1 then ?cs ! nat (ix + iy - int j) else ?cs ! j)"
      using 1(1) [OF True, of "cs ! nat ix" "cs ! nat iy" "cs[nat ix := cs ! nat iy]" ?cs] True 1(2,3) by auto
    have "ds ! j = (if ix \<le> int j \<and> int j \<le> iy then cs ! nat (ix + iy - int j) else cs ! j)" if "j < length cs" for j
    proof -
      obtain i k where ik: "ix = int i" "iy = int k" "i < k" "k < length cs" using True 1(2,3) zero_le_imp_eq_int [of ix] zero_le_imp_eq_int [of iy] by auto
      have c: "?cs ! m = (if m = k then cs ! i else if m = i then cs ! k else cs ! m)" if "m < length cs" for m
        using that ik by (simp add: nth_list_update)
      have n: "nat (int i + int k - int j) = i + k - j" by linarith
      consider "j = i" | "j = k" | "i < j" "j < k" | "j < i \<or> k < j" by linarith
      then show ?thesis
      proof cases
        case 3
        then have "i + k - j < length cs" "i + k - j \<noteq> i" "i + k - j \<noteq> k" using ik by linarith+
        then show ?thesis using 3 ds(3) that c [of "i + k - j"] ik by (simp add: n)
      qed (use ds(3) that c [of j] ik in auto)
    qed
    then show ?thesis using r ds by auto
  next
    case False
    then have "ix \<le> int j \<and> int j \<le> iy \<Longrightarrow> nat (ix + iy - int j) = j" for j by linarith
    with False show ?thesis by (subst reverse_loop.simps) auto
  qed
qed

lemma reverse_ok:
  assumes "list_inv l"
  shows "\<exists>l'. lists_strs_reverse l = Inr l' \<and> list_inv l' \<and> strings l' = rev (strings l)"
proof -
  let ?n = "l_size l"
  have n: "?n \<le> length (l_strs l)" using assms by (simp add: list_inv_def)
  obtain ds where ds: "reverse_loop 0 (int ?n - 1) (l_strs l) = Inr ds" "length ds = length (l_strs l)"
    "\<forall>j<length (l_strs l). ds ! j = (if 0 \<le> int j \<and> int j \<le> int ?n - 1 then l_strs l ! nat (0 + (int ?n - 1) - int j) else l_strs l ! j)"
    using reverse_loop_ok [of 0 "int ?n - 1" "l_strs l"] n by auto
  have j: "ds ! j = l_strs l ! (?n - 1 - j)" if "j < ?n" for j
  proof -
    have "nat (int ?n - 1 - int j) = ?n - 1 - j" using that by linarith
    then show ?thesis using ds(3) that n by auto
  qed
  let ?l = "l\<lparr>l_strs := ds\<rparr>"
  have "list_inv ?l" using assms ds(2) j by (auto simp: list_inv_def)
  moreover have "strings ?l = rev (strings l)"
    using j ds(2) n by (intro nth_equalityI) (auto simp: strings_def rev_nth)
  ultimately show ?thesis using ds(1) by (simp add: lists_strs_reverse_def lists_strs_size_def)
qed

lemma split_ok:
  assumes "list_inv l"
  shows "\<exists>l'. lists_strs_split s delim l = Inr (int (length (tokens delim s)), l') \<and> list_inv l' \<and> strings l' = strings l @ tokens delim s"
proof -
  have "foldR (\<lambda>token (n, l). bindR (lists_strs_append token l) (\<lambda>l. Inr (n + 1, l))) ts (n, l)
    = bindR (foldR lists_strs_append ts l) (\<lambda>l. Inr (n + int (length ts), l))" for ts n and l :: lists_t_strs
  proof (induction ts arbitrary: n l)
    case (Cons t ts)
    then show ?case by (cases "lists_strs_append t l") (simp_all add: algebra_simps)
  qed simp
  then show ?thesis using str_list.add_all [OF assms, of "tokens delim s"] by (auto simp: lists_strs_split_def)
qed

lemma load_ok:
  assumes "list_inv l"
  shows "\<exists>l'. lists_strs_load saved l = Inr (int (length saved), l') \<and> list_inv l' \<and> strings l' = strings l @ saved"
proof -
  obtain l' where l': "foldR lists_strs_append saved l = Inr l'" "list_inv l'" "strings l' = strings l @ saved"
    using str_list.add_all [OF assms, of saved] by blast
  have "l_size l' = l_size l + length saved" using length_strings [OF l'(2)] length_strings [OF assms] l'(3) by simp
  then show ?thesis using l' by (simp add: lists_strs_load_def lists_strs_size_def)
qed

lemma all_strings_ok:
  assumes "list_inv l"
  shows "all_strings l = Inr (strings l)"
proof -
  have "k \<le> l_size l \<Longrightarrow> foldR (\<lambda>i ss. bindR (lists_strs_at l (int i)) (\<lambda>s. Inr (ss @ [s]))) [0..<k] [] = Inr (take k (strings l))" for k
    using assms by (induction k) (simp_all add: foldR_append at_ok take_Suc_conv_app_nth)
  from this [of "l_size l"] show ?thesis using assms by (simp add: all_strings_def)
qed

lemma fmt_ok:
  assumes "list_inv l"
  shows "lists_strs_fmt before behind l = Inr (if strings l = [] then None else Some (concat (map (\<lambda>s. before @ s @ behind) (strings l))))"
proof -
  have "fmt_loop before behind ((\<Sum>s\<leftarrow>ss. int (length s)) + int (length ss) * (int (length before) + int (length behind))) ss out
    = Inr (out @ concat (map (\<lambda>s. before @ s @ behind) ss))" for ss out
  proof (induction ss arbitrary: out)
    case (Cons s ss)
    have "0 \<le> (\<Sum>s\<leftarrow>ss. int (length s))" by (rule sum_list_nonneg) auto
    then have "int (length (before @ s @ behind)) \<le> (\<Sum>s\<leftarrow>s # ss. int (length s)) + int (length (s # ss)) * (int (length before) + int (length behind))"
      by (simp add: algebra_simps)
    then show ?case using Cons [of "out @ before @ s @ behind"] by (simp add: algebra_simps)
  qed simp
  moreover have "lists_strs_empty l = (strings l = [])" using length_strings [OF assms] by (auto simp: lists_strs_empty_def)
  ultimately show ?thesis using all_strings_ok [OF assms] by (simp add: lists_strs_fmt_def Let_def add.assoc)
qed

section \<open>Correctness\<close>

datatype list_op = Op_push string | Op_pop | Op_swap nat string | Op_reverse | Op_clear | Op_split string string | Op_load "string list"

definition run_op :: "list_op \<Rightarrow> lists_t_strs \<Rightarrow> lists_t_strs result" where
  "run_op p l = (case p of Op_push s \<Rightarrow> lists_strs_append s l | Op_pop \<Rightarrow> lists_strs_remove l | Op_swap i s \<Rightarrow> lists_strs_replace (int i) s l
     | Op_reverse \<Rightarrow> lists_strs_reverse l | Op_clear \<Rightarrow> Inr (lists_strs_clear l)
     | Op_split s d \<Rightarrow> bindR (lists_strs_split s d l) (\<lambda>(_, l). Inr l) | Op_load ss \<Rightarrow> bindR (lists_strs_load ss l) (\<lambda>(_, l). Inr l))"

definition spec_op :: "list_op \<Rightarrow> string list \<Rightarrow> string list result" where
  "spec_op p xs = (case p of Op_push s \<Rightarrow> Inr (xs @ [s]) | Op_pop \<Rightarrow> Inr (butlast xs)
     | Op_swap i s \<Rightarrow> if i < length xs then Inr (xs[i := s]) else Inl Assert
     | Op_reverse \<Rightarrow> Inr (rev xs) | Op_clear \<Rightarrow> Inr [] | Op_split s d \<Rightarrow> Inr (xs @ tokens d s) | Op_load ss \<Rightarrow> Inr (xs @ ss))"

lemma run_op_refines:
  assumes "list_inv l"
  shows "case spec_op p (strings l) of Inl e \<Rightarrow> run_op p l = Inl e | Inr xs \<Rightarrow> \<exists>l'. run_op p l = Inr l' \<and> list_inv l' \<and> strings l' = xs"
proof (cases p)
  case (Op_push s)
  then show ?thesis using push_ok [OF assms, of s] by (simp add: run_op_def spec_op_def lists_strs_append_def)
next
  case Op_pop
  then show ?thesis using pop_ok [OF assms] by (auto simp: run_op_def spec_op_def lists_strs_remove_def)
next
  case (Op_swap i s)
  then show ?thesis using swap_ok [OF assms, of i s] assms
    by (auto simp: run_op_def spec_op_def lists_strs_replace_def lists_strs_swap_def lists_strs_size_def)
next
  case Op_reverse
  then show ?thesis using reverse_ok [OF assms] by (simp add: run_op_def spec_op_def)
next
  case Op_clear
  then show ?thesis using assms by (simp add: run_op_def spec_op_def lists_strs_clear_def list_inv_def strings_def)
next
  case (Op_split s d)
  then show ?thesis using split_ok [OF assms, of s d] by (auto simp: run_op_def spec_op_def)
next
  case (Op_load ss)
  then show ?thesis using load_ok [OF assms, of ss] by (auto simp: run_op_def spec_op_def)
qed

text \<open>
  C25: an array list refines the list of its strings: after any sequence of operations on a new
  list, of whatever reserved size, the array holds the strings that the operations on plain lists
  give, or both fail the same assertion; and what is then saved, formatted or joined is made of
  exactly these strings.
\<close>

theorem str_list_refines:
  assumes "0 \<le> reserve"
  shows "case foldR spec_op ops [] of
      Inl e \<Rightarrow> bindR (lists_strs_new reserve) (foldR run_op ops) = Inl e
    | Inr xs \<Rightarrow> \<exists>l. bindR (lists_strs_new reserve) (foldR run_op ops) = Inr l \<and> list_inv l \<and> strings l = xs
        \<and> lists_strs_save l = Inr xs \<and> lists_strs_cat l = Inr (if xs = [] then None else Some (concat xs))"
proof -
  obtain l0 where l0: "lists_strs_new reserve = Inr l0" "list_inv l0" "strings l0 = []" using new_ok [OF assms] by blast
  have "case foldR spec_op ops (strings l) of Inl e \<Rightarrow> foldR run_op ops l = Inl e
      | Inr xs \<Rightarrow> \<exists>l'. foldR run_op ops l = Inr l' \<and> list_inv l' \<and> strings l' = xs" if "list_inv l" for l
    using that
  proof (induction ops arbitrary: l)
    case (Cons p ops)
    show ?case
    proof (cases "spec_op p (strings l)")
      case (Inl e)
      then show ?thesis using run_op_refines [OF Cons.prems, of p] by simp
    next
      case (Inr xs)
      then obtain l' where "run_op p l = Inr l'" "list_inv l'" "strings l' = xs" using run_op_refines [OF Cons.prems, of p] by auto
      then show ?thesis using Cons.IH [of l'] Inr by (auto split: sum.splits)
    qed
  qed simp
  from this [OF l0(2)] show ?thesis using l0(1,3) all_strings_ok fmt_ok [of _ "[]" "[]"]
    by (auto simp: lists_strs_save_def lists_strs_cat_def split: sum.splits)
qed

theorem str_list_refines_witness:
  "\<exists>l. bindR (lists_strs_new 1) (foldR run_op [Op_push ''a'', Op_split '' b  c'' '' '', Op_reverse, Op_swap 0 ''d'', Op_pop]) = Inr l
    \<and> strings l = [''d'', ''b''] \<and> lists_strs_cat l = Inr (Some ''db'')"
proof -
  let ?ops = "[Op_push ''a'', Op_split '' b  c'' '' '', Op_reverse, Op_swap 0 ''d'', Op_pop]"
  have "foldR spec_op ?ops [] = Inr [''d'', ''b'']" by code_simp
  then show ?thesis using str_list_refines [of 1 ?ops] by auto
qed

end
