(* ===== verification/Options.thy ===== *)
theory Options
  imports Posix_Regex Str_Lists Files
begin

text \<open>
  The options of the player, \<^verbatim>\<open>src/src/moc-2.5.0/options.c\<close>: a hash table of named and typed
  values with their constraints, the built-in options, and the parser of the configuration file.
  The table is a list of slots; a value of the union is tagged with the member that was written
  last, and reading another one is undefined.
\<close>

unbundle bit_operations_syntax

section \<open>The table\<close>

definition OPTIONS_MAX :: nat where "OPTIONS_MAX = 181"
definition OPTION_NAME_MAX :: nat where "OPTION_NAME_MAX = 32"

definition OPTION_FREE :: int where "OPTION_FREE = 0"
definition OPTION_INT :: int where "OPTION_INT = 1"
definition OPTION_BOOL :: int where "OPTION_BOOL = 2"
definition OPTION_STR :: int where "OPTION_STR = 4"
definition OPTION_SYMB :: int where "OPTION_SYMB = 8"
definition OPTION_LIST :: int where "OPTION_LIST = 16"
definition OPTION_ANY :: int where "OPTION_ANY = 255"

datatype option_value = Num int | Boolean bool | Str "string option" | Lst "lists_t_strs option"

datatype options_t_check = Check_range | Check_discrete | Check_length | Check_function | Check_true

text \<open>An array of constraints holds numbers or strings; \<open>No_array\<close> is the null pointer.\<close>

datatype constraints = No_array | Int_array "int list" | Str_array "string list"

record opt =
  o_name :: string
  o_type :: int
  o_value :: option_value
  ignore_in_config :: bool
  set_in_config :: bool
  o_hash :: "32 word"
  o_check :: options_t_check
  o_count :: int
  o_constraints :: constraints

record options =
  slots :: "opt list"
  options_num :: nat

definition free_slot :: opt where
  "free_slot = \<lparr>o_name = [], o_type = OPTION_FREE, o_value = Num 0, ignore_in_config = False, set_in_config = False,
     o_hash = 0, o_check = Check_true, o_count = 0, o_constraints = No_array\<rparr>"

text \<open>A character is signed where it becomes a number.\<close>

definition char_int :: "char \<Rightarrow> int" where
  "char_int c = wrapS 8 (of_char c)"

definition hash :: "string \<Rightarrow> 32 word" where
  "hash str = foldl (\<lambda>h c. (push_bit 5 h + h) + word_of_int (char_int (tolower c))) 5381 str"

definition probe_order :: "32 word \<Rightarrow> nat list" where
  "probe_order h = (let init_pos = nat (uint h mod int OPTIONS_MAX) in [init_pos..<OPTIONS_MAX] @ [0..<init_pos])"

fun find_in :: "(opt \<Rightarrow> bool) \<Rightarrow> opt list \<Rightarrow> nat list \<Rightarrow> int" where
  "find_in m os [] = -1"
| "find_in m os (i # is) =
     (if o_type (os ! i) = OPTION_FREE then -1 else if m (os ! i) then int i else find_in m os is)"

definition find_option :: "string \<Rightarrow> int \<Rightarrow> options \<Rightarrow> int" where
  "find_option name type t =
     (let h = hash name in
      find_in (\<lambda>x. h = o_hash x \<and> type AND o_type x \<noteq> 0 \<and> strcaseeq name (o_name x)) (slots t) (probe_order h))"

fun first_free :: "opt list \<Rightarrow> nat list \<Rightarrow> int" where
  "first_free os [] = -1"
| "first_free os (i # is) = (if o_type (os ! i) = OPTION_FREE then int i else first_free os is)"

definition find_free :: "32 word \<Rightarrow> options \<Rightarrow> int result" where
  "find_free h t =
     bindR (guardR (options_num t < OPTIONS_MAX) Assert) (\<lambda>_. Inr (first_free (slots t) (probe_order h)))"

definition slot :: "options \<Rightarrow> int \<Rightarrow> opt result" where
  "slot t i = arr_get (slots t) i"

definition set_slot :: "int \<Rightarrow> opt \<Rightarrow> options \<Rightarrow> options result" where
  "set_slot i x t = bindR (arr_set (slots t) i x) (\<lambda>os. Inr (t\<lparr>slots := os\<rparr>))"

section \<open>Constraints\<close>

text \<open>The value passed to a check, and reading an array or a value as numbers or strings.\<close>

datatype arg = Int_arg int | Str_arg string

definition as_int :: "arg \<Rightarrow> int result" where
  "as_int a = (case a of Int_arg n \<Rightarrow> Inr n | Str_arg _ \<Rightarrow> Inl Undefined)"

definition as_str :: "arg \<Rightarrow> string result" where
  "as_str a = (case a of Int_arg _ \<Rightarrow> Inl Undefined | Str_arg s \<Rightarrow> Inr s)"

definition int_at :: "constraints \<Rightarrow> int \<Rightarrow> int result" where
  "int_at cs i = (case cs of Int_array ns \<Rightarrow> arr_get ns i | _ \<Rightarrow> Inl Undefined)"

definition str_at :: "constraints \<Rightarrow> int \<Rightarrow> string result" where
  "str_at cs i = (case cs of Str_array ss \<Rightarrow> arr_get ss i | _ \<Rightarrow> Inl Undefined)"

text \<open>The loop over pairs of bounds, and the loop over single values.\<close>

function range_loop :: "(int \<Rightarrow> 'a result) \<Rightarrow> ('a \<Rightarrow> bool) \<Rightarrow> ('a \<Rightarrow> bool) \<Rightarrow> int \<Rightarrow> int \<Rightarrow> bool result" where
  "range_loop get lo hi count ix =
     (if ix < count then
        bindR (get ix) (\<lambda>a.
          if lo a then bindR (get (ix + 1)) (\<lambda>b. if hi b then Inr True else range_loop get lo hi count (ix + 2))
          else range_loop get lo hi count (ix + 2))
      else Inr False)"
  by pat_completeness auto
termination
  by (relation "measure (\<lambda>(g, l, h, count, ix). nat (count - ix))") auto

function discrete_loop :: "(int \<Rightarrow> 'a result) \<Rightarrow> ('a \<Rightarrow> bool) \<Rightarrow> int \<Rightarrow> int \<Rightarrow> bool result" where
  "discrete_loop get eq count ix =
     (if ix < count then bindR (get ix) (\<lambda>a. if eq a then Inr True else discrete_loop get eq count (ix + 1))
      else Inr False)"
  by pat_completeness auto
termination
  by (relation "measure (\<lambda>(g, e, count, ix). nat (count - ix))") auto

declare range_loop.simps [simp del] discrete_loop.simps [simp del]

definition check_range :: "opt \<Rightarrow> arg \<Rightarrow> bool result" where
  "check_range x a =
     bindR (guardR (o_count x smod 2 = 0) Assert) (\<lambda>_.
     bindR (guardR (o_type x AND (OPTION_INT OR OPTION_STR OR OPTION_LIST) \<noteq> 0) Assert) (\<lambda>_.
       if o_type x = OPTION_INT then
         bindR (as_int a) (\<lambda>v. range_loop (int_at (o_constraints x)) (\<lambda>c. v \<ge> c) (\<lambda>c. v \<le> c) (o_count x) 0)
       else if o_type x = OPTION_STR \<or> o_type x = OPTION_LIST then
         bindR (as_str a) (\<lambda>v. range_loop (str_at (o_constraints x)) (\<lambda>c. strcasecmp v c \<ge> 0) (\<lambda>c. strcasecmp v c \<le> 0) (o_count x) 0)
       else Inr False))"

definition check_discrete :: "opt \<Rightarrow> arg \<Rightarrow> bool result" where
  "check_discrete x a =
     bindR (guardR (o_type x AND (OPTION_INT OR OPTION_SYMB OR OPTION_LIST) \<noteq> 0) Assert) (\<lambda>_.
       if o_type x = OPTION_INT then
         bindR (as_int a) (\<lambda>v. discrete_loop (int_at (o_constraints x)) (\<lambda>c. v = c) (o_count x) 0)
       else if o_type x = OPTION_SYMB \<or> o_type x = OPTION_LIST then
         bindR (as_str a) (\<lambda>v. discrete_loop (str_at (o_constraints x)) (\<lambda>c. strcaseeq v c) (o_count x) 0)
       else Inr False)"

definition check_length :: "opt \<Rightarrow> arg \<Rightarrow> bool result" where
  "check_length x a =
     bindR (guardR (o_count x smod 2 = 0) Assert) (\<lambda>_.
     bindR (guardR (o_type x AND (OPTION_STR OR OPTION_LIST) \<noteq> 0) Assert) (\<lambda>_.
     bindR (as_str a) (\<lambda>s.
       range_loop (int_at (o_constraints x)) (\<lambda>c. int (length s) \<ge> c) (\<lambda>c. int (length s) \<le> c) (o_count x) 0)))"

text \<open>
  The pattern of a function: letters of either case, digits, slashes and dashes, then parameters
  in parentheses. The pattern is compiled once and the compilation succeeds.
\<close>

definition function_re :: re where
  "function_re =
     (let word = Cls ''abcdefghijklmnopqrstuvwxyzABCDEFGHIJKLMNOPQRSTUVWXYZ0123456789/-'';
          param = Star (Cls (filter (\<lambda>c. c \<notin> set '',) '') (map char_of [1..<256])))
      in Seq (Plus word) (Seq (Lit (CHR ''('')) (Seq param (Seq (Star (Seq (Lit (CHR '','')) param)) (Lit (CHR '')''))))))"

definition check_function :: "opt \<Rightarrow> arg \<Rightarrow> bool result" where
  "check_function x a =
     bindR (guardR (o_count x = 0) Assert) (\<lambda>_.
     bindR (guardR (o_type x AND (OPTION_STR OR OPTION_LIST) \<noteq> 0) Assert) (\<lambda>_.
     bindR (as_str a) (\<lambda>s. Inr (re_match function_re s))))"

definition check_true :: "opt \<Rightarrow> arg \<Rightarrow> bool result" where
  "check_true x a = Inr True"

definition run_check :: "opt \<Rightarrow> arg \<Rightarrow> bool result" where
  "run_check x = (case o_check x of Check_range \<Rightarrow> check_range x | Check_discrete \<Rightarrow> check_discrete x
     | Check_length \<Rightarrow> check_length x | Check_function \<Rightarrow> check_function x | Check_true \<Rightarrow> check_true x)"

section \<open>Adding options\<close>

definition init_option :: "string \<Rightarrow> int \<Rightarrow> options \<Rightarrow> (int \<times> options) result" where
  "init_option name type t =
     (let h = hash name in
      bindR (find_free h t) (\<lambda>pos.
      bindR (guardR (length name < OPTION_NAME_MAX) Assert) (\<lambda>_.
      bindR (guardR (is_valid_symbol name) Assert) (\<lambda>_.
      bindR (guardR (pos \<ge> 0) Assert) (\<lambda>_.
      bindR (slot t pos) (\<lambda>x.
      bindR (set_slot pos (x\<lparr>o_name := name, o_hash := h, o_type := type, ignore_in_config := False, set_in_config := False,
          o_check := Check_true, o_count := 0, o_constraints := No_array\<rparr>) t) (\<lambda>t.
        Inr (pos, t\<lparr>options_num := options_num t + 1\<rparr>))))))))"

definition upd_slot :: "int \<Rightarrow> (opt \<Rightarrow> opt) \<Rightarrow> options \<Rightarrow> options result" where
  "upd_slot pos f t = bindR (slot t pos) (\<lambda>x. set_slot pos (f x) t)"

text \<open>The arguments behind the count, read as numbers or as strings.\<close>

fun va_args :: "(arg \<Rightarrow> 'a result) \<Rightarrow> nat \<Rightarrow> arg list \<Rightarrow> 'a list result" where
  "va_args get 0 va = Inr []"
| "va_args get (Suc n) [] = Inl Undefined"
| "va_args get (Suc n) (a # va) = bindR (get a) (\<lambda>x. bindR (va_args get n va) (\<lambda>xs. Inr (x # xs)))"

definition add_int :: "string \<Rightarrow> int \<Rightarrow> options_t_check \<Rightarrow> int \<Rightarrow> arg list \<Rightarrow> options \<Rightarrow> options result" where
  "add_int name value check count va t =
     bindR (init_option name OPTION_INT t) (\<lambda>(pos, t).
     bindR (if count > 0 then bindR (va_args as_int (nat count) va) (\<lambda>ns. Inr (Int_array ns)) else Inr No_array) (\<lambda>cs.
       upd_slot pos (\<lambda>x. x\<lparr>o_value := Num value, o_check := check, o_count := count, o_constraints := cs\<rparr>) t))"

definition add_bool :: "string \<Rightarrow> bool \<Rightarrow> options \<Rightarrow> options result" where
  "add_bool name value t =
     bindR (init_option name OPTION_BOOL t) (\<lambda>(pos, t). upd_slot pos (\<lambda>x. x\<lparr>o_value := Boolean value\<rparr>) t)"

definition read_constraints :: "options_t_check \<Rightarrow> int \<Rightarrow> arg list \<Rightarrow> constraints result" where
  "read_constraints check count va =
     (if count > 0 then
        if check = Check_length then bindR (va_args as_int (nat count) va) (\<lambda>ns. Inr (Int_array ns))
        else bindR (va_args as_str (nat count) va) (\<lambda>ss. Inr (Str_array ss))
      else Inr No_array)"

definition add_str :: "string \<Rightarrow> string option \<Rightarrow> options_t_check \<Rightarrow> int \<Rightarrow> arg list \<Rightarrow> options \<Rightarrow> options result" where
  "add_str name value check count va t =
     bindR (init_option name OPTION_STR t) (\<lambda>(pos, t).
     bindR (read_constraints check count va) (\<lambda>cs.
       upd_slot pos (\<lambda>x. x\<lparr>o_value := Str value, o_check := check, o_count := count, o_constraints := cs\<rparr>) t))"

text \<open>The last symbol that is equal up to case.\<close>

definition find_symbol :: "string \<Rightarrow> string list \<Rightarrow> string option" where
  "find_symbol value ss = foldl (\<lambda>r s. if strcaseeq value s then Some s else r) None ss"

definition add_symb :: "string \<Rightarrow> string \<Rightarrow> int \<Rightarrow> arg list \<Rightarrow> options \<Rightarrow> options result" where
  "add_symb name value count va t =
     bindR (guardR (count > 0) Assert) (\<lambda>_.
     bindR (init_option name OPTION_SYMB t) (\<lambda>(pos, t).
     bindR (va_args as_str (nat count) va) (\<lambda>ss.
       if \<not> list_all is_valid_symbol ss then fatal
       else case find_symbol value ss of
         None \<Rightarrow> fatal
       | Some v \<Rightarrow> upd_slot pos (\<lambda>x. x\<lparr>o_value := Str (Some v), o_check := Check_discrete, o_count := count, o_constraints := Str_array ss\<rparr>) t)))"

definition add_list :: "string \<Rightarrow> string option \<Rightarrow> options_t_check \<Rightarrow> int \<Rightarrow> arg list \<Rightarrow> options \<Rightarrow> options result" where
  "add_list name value check count va t =
     bindR (init_option name OPTION_LIST t) (\<lambda>(pos, t).
     bindR (lists_strs_new 8) (\<lambda>l.
     bindR (case value of None \<Rightarrow> Inr l | Some v \<Rightarrow> bindR (lists_strs_split v '':'' l) (\<lambda>(_, l). Inr l)) (\<lambda>l.
     bindR (read_constraints check count va) (\<lambda>cs.
       upd_slot pos (\<lambda>x. x\<lparr>o_value := Lst (Some l), o_check := check, o_count := count, o_constraints := cs\<rparr>) t))))"

section \<open>Reading and setting\<close>

definition value_num :: "opt \<Rightarrow> int result" where
  "value_num x = (case o_value x of Num n \<Rightarrow> Inr n | _ \<Rightarrow> Inl Undefined)"

definition value_bool :: "opt \<Rightarrow> bool result" where
  "value_bool x = (case o_value x of Boolean b \<Rightarrow> Inr b | _ \<Rightarrow> Inl Undefined)"

definition value_str :: "opt \<Rightarrow> string option result" where
  "value_str x = (case o_value x of Str s \<Rightarrow> Inr s | _ \<Rightarrow> Inl Undefined)"

definition value_list :: "opt \<Rightarrow> lists_t_strs option result" where
  "value_list x = (case o_value x of Lst l \<Rightarrow> Inr l | _ \<Rightarrow> Inl Undefined)"

text \<open>An option that must exist.\<close>

definition known :: "string \<Rightarrow> int \<Rightarrow> options \<Rightarrow> (int \<times> opt) result" where
  "known name type t =
     (let i = find_option name type t in if i = -1 then fatal else bindR (slot t i) (\<lambda>x. Inr (i, x)))"

definition options_get_int :: "string \<Rightarrow> options \<Rightarrow> int result" where
  "options_get_int name t =
     bindR (known name (OPTION_INT OR OPTION_BOOL) t) (\<lambda>(i, x).
       if o_type x = OPTION_BOOL then bindR (value_bool x) (\<lambda>b. Inr (of_bool b)) else value_num x)"

definition options_get_bool :: "string \<Rightarrow> options \<Rightarrow> bool result" where
  "options_get_bool name t = bindR (known name OPTION_BOOL t) (\<lambda>(i, x). value_bool x)"

definition options_get_str :: "string \<Rightarrow> options \<Rightarrow> string option result" where
  "options_get_str name t = bindR (known name (OPTION_STR OR OPTION_SYMB) t) (\<lambda>(i, x). value_str x)"

definition options_get_symb :: "string \<Rightarrow> options \<Rightarrow> string option result" where
  "options_get_symb name t = bindR (known name OPTION_SYMB t) (\<lambda>(i, x). value_str x)"

definition options_get_list :: "string \<Rightarrow> options \<Rightarrow> lists_t_strs option result" where
  "options_get_list name t = bindR (known name OPTION_LIST t) (\<lambda>(i, x). value_list x)"

definition options_get_type :: "string \<Rightarrow> options \<Rightarrow> int result" where
  "options_get_type name t =
     (let i = find_option name OPTION_ANY t in if i = -1 then Inr OPTION_FREE else bindR (slot t i) (\<lambda>x. Inr (o_type x)))"

definition options_set_int :: "string \<Rightarrow> int \<Rightarrow> options \<Rightarrow> options result" where
  "options_set_int name value t =
     bindR (known name (OPTION_INT OR OPTION_BOOL) t) (\<lambda>(i, x).
       set_slot i (x\<lparr>o_value := (if o_type x = OPTION_INT then Num value else Boolean (value \<noteq> 0))\<rparr>) t)"

definition options_set_bool :: "string \<Rightarrow> bool \<Rightarrow> options \<Rightarrow> options result" where
  "options_set_bool name value t =
     bindR (known name OPTION_BOOL t) (\<lambda>(i, x). set_slot i (x\<lparr>o_value := Boolean value\<rparr>) t)"

definition options_set_symb :: "string \<Rightarrow> string \<Rightarrow> options \<Rightarrow> options result" where
  "options_set_symb name value t =
     bindR (known name OPTION_SYMB t) (\<lambda>(i, x).
     bindR (foldR (\<lambda>ix r. bindR (str_at (o_constraints x) ix) (\<lambda>s. Inr (if strcaseeq value s then Some s else r)))
              [0..o_count x - 1] None) (\<lambda>v.
       if v = None then fatal else set_slot i (x\<lparr>o_value := Str v\<rparr>) t))"

definition options_set_str :: "string \<Rightarrow> string \<Rightarrow> options \<Rightarrow> options result" where
  "options_set_str name value t =
     bindR (known name (OPTION_STR OR OPTION_SYMB) t) (\<lambda>(i, x).
       if o_type x = OPTION_SYMB then options_set_symb name value t
       else set_slot i (x\<lparr>o_value := Str (Some value)\<rparr>) t)"

definition the_list :: "lists_t_strs option \<Rightarrow> lists_t_strs result" where
  "the_list l = (case l of None \<Rightarrow> Inl Undefined | Some l \<Rightarrow> Inr l)"

definition options_set_list :: "string \<Rightarrow> string \<Rightarrow> bool \<Rightarrow> options \<Rightarrow> options result" where
  "options_set_list name value app t =
     bindR (known name OPTION_LIST t) (\<lambda>(i, x).
     bindR (value_list x) (\<lambda>l.
     bindR (the_list l) (\<lambda>l.
     let l = (if \<not> app \<and> \<not> lists_strs_empty l then lists_strs_clear l else l) in
     bindR (lists_strs_split value '':'' l) (\<lambda>(_, l).
       set_slot i (x\<lparr>o_value := Lst (Some l)\<rparr>) t))))"

definition options_ignore_config :: "string \<Rightarrow> options \<Rightarrow> options result" where
  "options_ignore_config name t =
     bindR (known name OPTION_ANY t) (\<lambda>(i, x). set_slot i (x\<lparr>ignore_in_config := True\<rparr>) t)"

section \<open>Checking a value for an option\<close>

definition checked :: "string \<Rightarrow> int \<Rightarrow> (opt \<Rightarrow> bool result) \<Rightarrow> options \<Rightarrow> bool result" where
  "checked name type f t =
     (let i = find_option name type t in if i = -1 then Inr False else bindR (slot t i) f)"

definition options_check_int :: "string \<Rightarrow> int \<Rightarrow> options \<Rightarrow> bool result" where
  "options_check_int name val = checked name OPTION_INT (\<lambda>x. run_check x (Int_arg val))"

definition options_check_bool :: "string \<Rightarrow> bool \<Rightarrow> options \<Rightarrow> bool result" where
  "options_check_bool name val = checked name OPTION_BOOL (\<lambda>x. Inr (val = True \<or> val = False))"

definition options_check_str :: "string \<Rightarrow> string \<Rightarrow> options \<Rightarrow> bool result" where
  "options_check_str name val = checked name (OPTION_STR OR OPTION_SYMB) (\<lambda>x. run_check x (Str_arg val))"

definition options_check_symb :: "string \<Rightarrow> string \<Rightarrow> options \<Rightarrow> bool result" where
  "options_check_symb name val = checked name OPTION_SYMB (\<lambda>x. check_discrete x (Str_arg val))"

fun check_all :: "opt \<Rightarrow> string list \<Rightarrow> bool result" where
  "check_all x [] = Inr True"
| "check_all x (s # ss) = bindR (run_check x (Str_arg s)) (\<lambda>ok. if ok then check_all x ss else Inr False)"

definition options_check_list :: "string \<Rightarrow> string \<Rightarrow> options \<Rightarrow> bool result" where
  "options_check_list name val =
     checked name OPTION_LIST (\<lambda>x.
       bindR (lists_strs_new 8) (\<lambda>l.
       bindR (lists_strs_split val '':'' l) (\<lambda>(n, l).
       bindR (all_strings l) (check_all x))))"

text \<open>A number is read as \<^verbatim>\<open>long\<close> and stored in an \<^verbatim>\<open>int\<close>.\<close>

definition options_set_pair :: "string \<Rightarrow> string \<Rightarrow> bool \<Rightarrow> options \<Rightarrow> (bool \<times> options) result" where
  "options_set_pair name value app t =
     bindR (options_get_type name t) (\<lambda>type.
       if type = OPTION_INT then
         let (n, rest) = strtol value; num = wrapS 32 n in
         if rest \<noteq> [] then Inr (False, t)
         else bindR (options_check_int name num t) (\<lambda>ok.
           if \<not> ok then Inr (False, t) else bindR (options_set_int name num t) (\<lambda>t. Inr (True, t)))
       else if type = OPTION_BOOL then
         if strcaseeq value ''yes'' then bindR (options_set_bool name True t) (\<lambda>t. Inr (True, t))
         else if strcaseeq value ''no'' then bindR (options_set_bool name False t) (\<lambda>t. Inr (True, t))
         else Inr (False, t)
       else if type = OPTION_STR then
         bindR (options_check_str name value t) (\<lambda>ok.
           if \<not> ok then Inr (False, t) else bindR (options_set_str name value t) (\<lambda>t. Inr (True, t)))
       else if type = OPTION_SYMB then
         bindR (options_check_symb name value t) (\<lambda>ok.
           if \<not> ok then Inr (False, t) else bindR (options_set_symb name value t) (\<lambda>t. Inr (True, t)))
       else if type = OPTION_LIST then
         bindR (options_check_list name value t) (\<lambda>ok.
           if \<not> ok then Inr (False, t) else bindR (options_set_list name value app t) (\<lambda>t. Inr (True, t)))
       else if type = OPTION_FREE \<or> type = OPTION_ANY then Inr (False, t)
       else Inr (True, t))"

end
