(* ===== verification/Options_Table.thy ===== *)
theory Options_Table
  imports Options
begin

text \<open>
  The hash table of the options as a map from names, in any case, to options: the invariant of
  the open addressing, and what \<^verbatim>\<open>find_option\<close> and the functions that set a slot do to the map.
\<close>

section \<open>Invariant\<close>

definition in_use :: "opt \<Rightarrow> bool" where
  "in_use x \<longleftrightarrow> o_type x \<noteq> OPTION_FREE"

definition option_types :: "int set" where
  "option_types = {OPTION_INT, OPTION_BOOL, OPTION_STR, OPTION_SYMB, OPTION_LIST}"

lemmas type_defs = OPTION_FREE_def OPTION_INT_def OPTION_BOOL_def OPTION_STR_def OPTION_SYMB_def OPTION_LIST_def OPTION_ANY_def

text \<open>Every slot that is probed before the slot of an option is in use.\<close>

definition reachable_slot :: "opt list \<Rightarrow> nat \<Rightarrow> bool" where
  "reachable_slot os i \<longleftrightarrow>
     (\<forall>xs ys. probe_order (o_hash (os ! i)) = xs @ i # ys \<longrightarrow> (\<forall>j\<in>set xs. in_use (os ! j)))"

definition table_inv :: "options \<Rightarrow> bool" where
  "table_inv t \<longleftrightarrow> length (slots t) = OPTIONS_MAX \<and>
     (\<forall>i<OPTIONS_MAX. in_use (slots t ! i) \<longrightarrow>
        o_hash (slots t ! i) = hash (o_name (slots t ! i)) \<and> o_type (slots t ! i) \<in> option_types \<and> reachable_slot (slots t) i) \<and>
     (\<forall>i<OPTIONS_MAX. \<forall>j<OPTIONS_MAX. in_use (slots t ! i) \<and> in_use (slots t ! j)
        \<and> strcaseeq (o_name (slots t ! i)) (o_name (slots t ! j)) \<longrightarrow> i = j)"

text \<open>The option of a name.\<close>

definition entry :: "options \<Rightarrow> string \<Rightarrow> opt option" where
  "entry t name = find (\<lambda>x. in_use x \<and> strcaseeq name (o_name x)) (slots t)"

section \<open>Probing\<close>

lemma hash_case: "strcaseeq a b \<Longrightarrow> hash a = hash b"
proof -
  have "foldl (\<lambda>h c. (push_bit 5 h + h) + word_of_int (char_int (tolower c))) h0 s
      = foldl (\<lambda>h c. (push_bit 5 h + h) + word_of_int (char_int c)) h0 (map tolower s)" for h0 :: "32 word" and s
    by (induction s arbitrary: h0) auto
  then show "strcaseeq a b \<Longrightarrow> hash a = hash b" by (simp add: hash_def strcaseeq_def)
qed

lemma strcaseeq_trans: "strcaseeq a b \<Longrightarrow> strcaseeq b c \<Longrightarrow> strcaseeq a c"
  by (simp add: strcaseeq_def)

lemma probe_init: "nat (uint h mod int OPTIONS_MAX) < OPTIONS_MAX"
proof -
  have "uint h mod int OPTIONS_MAX < int OPTIONS_MAX" by (rule pos_mod_bound) (simp add: OPTIONS_MAX_def)
  moreover have "0 \<le> uint h mod int OPTIONS_MAX" by (rule pos_mod_sign) (simp add: OPTIONS_MAX_def)
  ultimately show ?thesis by (simp add: nat_less_iff)
qed

lemma set_probe_order: "set (probe_order h) = {..<OPTIONS_MAX}"
  using probe_init [of h] by (auto simp: probe_order_def Let_def)

lemma distinct_probe_order: "distinct (probe_order h)"
  by (auto simp: probe_order_def Let_def)

lemma probe_split: "i < OPTIONS_MAX \<Longrightarrow> \<exists>xs ys. probe_order h = xs @ i # ys"
  using set_probe_order [of h] by (intro split_list) auto

lemma find_in_hit:
  "\<forall>j\<in>set xs. in_use (os ! j) \<and> \<not> m (os ! j) \<Longrightarrow> in_use (os ! i) \<Longrightarrow> m (os ! i) \<Longrightarrow> find_in m os (xs @ i # ys) = int i"
  by (induction xs) (auto simp: in_use_def)

lemma find_in_miss: "\<forall>j\<in>set xs. in_use (os ! j) \<longrightarrow> \<not> m (os ! j) \<Longrightarrow> find_in m os xs = -1"
  by (induction xs) (auto simp: in_use_def)

lemma entry_Some:
  assumes "table_inv t"
  shows "entry t name = Some x \<longleftrightarrow> (\<exists>i<OPTIONS_MAX. slots t ! i = x \<and> in_use x \<and> strcaseeq name (o_name x))"
proof
  assume "entry t name = Some x"
  then show "\<exists>i<OPTIONS_MAX. slots t ! i = x \<and> in_use x \<and> strcaseeq name (o_name x)"
    using assms by (auto simp: entry_def find_Some_iff table_inv_def)
next
  assume "\<exists>i<OPTIONS_MAX. slots t ! i = x \<and> in_use x \<and> strcaseeq name (o_name x)"
  then obtain i where i: "i < OPTIONS_MAX" "slots t ! i = x" "in_use x" "strcaseeq name (o_name x)" by blast
  have "x \<in> set (slots t)" using i assms nth_mem [of i "slots t"] by (simp add: table_inv_def)
  then have "entry t name \<noteq> None" using i(3,4) by (auto simp: entry_def find_None_iff)
  then obtain y where y: "entry t name = Some y" by blast
  then obtain j where j: "j < OPTIONS_MAX" "slots t ! j = y" "in_use y" "strcaseeq name (o_name y)"
    using assms by (auto simp: entry_def find_Some_iff table_inv_def)
  then have "strcaseeq (o_name x) (o_name y)" using i(4) strcaseeq_trans strcaseeq_sym by blast
  then have "i = j" using i j assms by (auto simp: table_inv_def)
  then show "entry t name = Some x" using y i j by simp
qed

lemma entry_None:
  assumes "table_inv t"
  shows "entry t name = None \<longleftrightarrow> (\<forall>i<OPTIONS_MAX. in_use (slots t ! i) \<longrightarrow> \<not> strcaseeq name (o_name (slots t ! i)))"
  using assms by (auto simp: entry_def find_None_iff table_inv_def in_set_conv_nth)

lemma find_option_miss:
  assumes "table_inv t" and "\<forall>x. entry t name = Some x \<longrightarrow> type AND o_type x = 0"
  shows "find_option name type t = -1"
  unfolding find_option_def Let_def
proof (rule find_in_miss, intro ballI impI)
  fix j
  assume "j \<in> set (probe_order (hash name))" "in_use (slots t ! j)"
  then show "\<not> (hash name = o_hash (slots t ! j) \<and> type AND o_type (slots t ! j) \<noteq> 0 \<and> strcaseeq name (o_name (slots t ! j)))"
    using assms entry_Some [OF assms(1), of name "slots t ! j"] set_probe_order by auto
qed

lemma find_option_hit:
  assumes t: "table_inv t" and e: "entry t name = Some x" and ty: "type AND o_type x \<noteq> 0"
  shows "\<exists>i<OPTIONS_MAX. find_option name type t = int i \<and> slots t ! i = x"
proof -
  obtain i where i: "i < OPTIONS_MAX" "slots t ! i = x" "in_use x" "strcaseeq name (o_name x)"
    using e entry_Some [OF t] by blast
  have h: "hash name = o_hash x" using hash_case [OF i(4)] t i by (auto simp: table_inv_def)
  obtain xs ys where p: "probe_order (hash name) = xs @ i # ys" using probe_split [OF i(1)] by blast
  have "\<forall>j\<in>set xs. in_use (slots t ! j)"
    using t i p h by (auto simp: table_inv_def reachable_slot_def)
  moreover have "\<not> strcaseeq name (o_name (slots t ! j))" if "j \<in> set xs" for j
  proof -
    have j: "j < OPTIONS_MAX" "j \<noteq> i"
      using that p set_probe_order [of "hash name"] distinct_probe_order [of "hash name"] by auto
    have "in_use (slots t ! j)" using that \<open>\<forall>j\<in>set xs. in_use (slots t ! j)\<close> by blast
    then have "\<not> strcaseeq (o_name (slots t ! j)) (o_name x)" using j i t by (auto simp: table_inv_def)
    then show ?thesis using i(4) strcaseeq_trans strcaseeq_sym by blast
  qed
  ultimately have "find_option name type t = int i"
    unfolding find_option_def Let_def p using i ty h by (intro find_in_hit) auto
  with i show ?thesis by blast
qed

section \<open>Changing an option\<close>

text \<open>What stays when an option is set: its name and type, and the hash of the name.\<close>

definition same_key :: "opt \<Rightarrow> opt \<Rightarrow> bool" where
  "same_key x y \<longleftrightarrow> o_name x = o_name y \<and> o_type x = o_type y \<and> o_hash x = o_hash y"

definition put :: "nat \<Rightarrow> opt \<Rightarrow> options \<Rightarrow> options" where
  "put i x t = t\<lparr>slots := (slots t)[i := x]\<rparr>"

lemma set_slot_ok: "table_inv t \<Longrightarrow> i < OPTIONS_MAX \<Longrightarrow> set_slot (int i) x t = Inr (put i x t)"
  by (simp add: set_slot_def table_inv_def put_def)

lemma slot_ok: "table_inv t \<Longrightarrow> i < OPTIONS_MAX \<Longrightarrow> slot t (int i) = Inr (slots t ! i)"
  by (simp add: slot_def table_inv_def)

lemma put_nth: "table_inv t \<Longrightarrow> i < OPTIONS_MAX \<Longrightarrow> j < OPTIONS_MAX \<Longrightarrow> slots (put i x t) ! j = (if j = i then x else slots t ! j)"
  by (simp add: put_def table_inv_def nth_list_update)

lemma put_inv:
  assumes t: "table_inv t" and i: "i < OPTIONS_MAX" and k: "same_key x (slots t ! i)"
  shows "table_inv (put i x t)"
proof -
  have n: "o_name (slots (put i x t) ! j) = o_name (slots t ! j)" "o_type (slots (put i x t) ! j) = o_type (slots t ! j)"
    "o_hash (slots (put i x t) ! j) = o_hash (slots t ! j)" if "j < OPTIONS_MAX" for j
    using put_nth [OF t i that] k by (auto simp: same_key_def)
  have u: "in_use (slots (put i x t) ! j) = in_use (slots t ! j)" if "j < OPTIONS_MAX" for j
    using n(2) [OF that] by (simp add: in_use_def)
  have r: "reachable_slot (slots (put i x t)) j" if "j < OPTIONS_MAX" "reachable_slot (slots t) j" for j
    unfolding reachable_slot_def
  proof (intro allI impI ballI)
    fix xs ys l
    assume "probe_order (o_hash (slots (put i x t) ! j)) = xs @ j # ys" "l \<in> set xs"
    moreover from this have "l < OPTIONS_MAX" using set_probe_order [of "o_hash (slots (put i x t) ! j)"] by auto
    ultimately show "in_use (slots (put i x t) ! l)"
      using that n(3) [OF that(1)] u by (auto simp: reachable_slot_def)
  qed
  have l: "length (slots (put i x t)) = OPTIONS_MAX" using t by (simp add: table_inv_def put_def)
  show ?thesis unfolding table_inv_def
    using t l by (auto simp: table_inv_def n u intro: r)
qed

lemma put_entry:
  assumes t: "table_inv t" and i: "i < OPTIONS_MAX" and k: "same_key x (slots t ! i)" and u: "in_use x"
  shows "entry (put i x t) name = (if strcaseeq name (o_name x) then Some x else entry t name)"
proof (cases "strcaseeq name (o_name x)")
  case True
  then show ?thesis
    using entry_Some [OF put_inv [OF t i k], of name x] i u put_nth [OF t i i, of x] by auto
next
  case False
  have "entry (put i x t) name = Some y \<longleftrightarrow> entry t name = Some y" for y
  proof -
    have "slots (put i x t) ! k = y \<and> strcaseeq name (o_name y) \<longleftrightarrow> slots t ! k = y \<and> strcaseeq name (o_name y)" if "k < OPTIONS_MAX" for k
      using put_nth [OF t i that, of x] False k by (auto simp: same_key_def)
    then show ?thesis using entry_Some [OF put_inv [OF t i k], of name y] entry_Some [OF t, of name y] by blast
  qed
  then have "entry (put i x t) name = entry t name" by (metis option.exhaust)
  then show ?thesis using False by simp
qed

lemma entry_type: "table_inv t \<Longrightarrow> entry t name = Some x \<Longrightarrow> o_type x \<in> option_types"
  using entry_Some [of t name x] by (auto simp: table_inv_def)

lemma entry_in_use: "table_inv t \<Longrightarrow> entry t name = Some x \<Longrightarrow> in_use x \<and> strcaseeq name (o_name x)"
  using entry_Some [of t name x] by auto

text \<open>An option of a given type is found or the program stops.\<close>

lemma known_ok:
  assumes "table_inv t" "entry t name = Some x" "type AND o_type x \<noteq> 0"
  shows "\<exists>i<OPTIONS_MAX. known name type t = Inr (int i, x) \<and> slots t ! i = x"
  using find_option_hit [OF assms] assms(1) by (auto simp: known_def Let_def slot_ok)

lemma known_fatal:
  assumes "table_inv t" "\<forall>x. entry t name = Some x \<longrightarrow> type AND o_type x = 0"
  shows "known name type t = fatal"
  using find_option_miss [OF assms] by (simp add: known_def)

lemma checked_ok:
  assumes "table_inv t" "entry t name = Some x" "type AND o_type x \<noteq> 0"
  shows "checked name type f t = f x"
  using find_option_hit [OF assms] assms(1) by (auto simp: checked_def Let_def slot_ok)

lemma options_get_type_ok:
  assumes "table_inv t"
  shows "options_get_type name t = Inr (case entry t name of None \<Rightarrow> OPTION_FREE | Some x \<Rightarrow> o_type x)"
proof (cases "entry t name")
  case None
  then show ?thesis using find_option_miss [OF assms, of name OPTION_ANY] by (simp add: options_get_type_def)
next
  case (Some x)
  have "OPTION_ANY AND o_type x \<noteq> 0" using entry_type [OF assms Some] by (auto simp: option_types_def type_defs)
  from find_option_hit [OF assms Some this] obtain i where "i < OPTIONS_MAX" "find_option name OPTION_ANY t = int i" "slots t ! i = x" by blast
  then show ?thesis using Some slot_ok [OF assms] by (simp add: options_get_type_def)
qed

section \<open>Adding an option\<close>

lemma distinct_prefix: "distinct (xs @ i # ys) \<Longrightarrow> as @ i # bs = xs @ i # ys \<Longrightarrow> as = xs"
proof (induction as arbitrary: xs)
  case Nil
  then show ?case by (cases xs) auto
next
  case (Cons a as)
  then show ?case by (cases xs) auto
qed

lemma first_free_hit:
  "\<exists>j\<in>set ps. \<not> in_use (os ! j) \<Longrightarrow> \<exists>xs i ys. ps = xs @ i # ys \<and> first_free os ps = int i \<and> \<not> in_use (os ! i) \<and> (\<forall>j\<in>set xs. in_use (os ! j))"
proof (induction ps)
  case (Cons p ps)
  show ?case
  proof (cases "in_use (os ! p)")
    case True
    then obtain xs i ys where "ps = xs @ i # ys" "first_free os ps = int i" "\<not> in_use (os ! i)" "\<forall>j\<in>set xs. in_use (os ! j)"
      using Cons by auto
    then show ?thesis using True by (intro exI [of _ "p # xs"] exI [of _ i] exI [of _ ys]) (auto simp: in_use_def)
  next
    case False
    then show ?thesis by (intro exI [of _ "[]"]) (auto simp: in_use_def)
  qed
qed simp

definition used_slots :: "options \<Rightarrow> nat" where
  "used_slots t = length (filter in_use (slots t))"

lemma free_slot_exists:
  assumes "table_inv t" "used_slots t < OPTIONS_MAX"
  shows "\<exists>i<OPTIONS_MAX. \<not> in_use (slots t ! i)"
proof (rule ccontr)
  assume "\<not> ?thesis"
  then have "filter in_use (slots t) = slots t" using assms(1) by (auto simp: filter_id_conv in_set_conv_nth table_inv_def)
  then show False using assms by (simp add: used_slots_def table_inv_def)
qed

lemma used_slots_update:
  "i < length xs \<Longrightarrow> \<not> in_use (xs ! i) \<Longrightarrow> in_use x \<Longrightarrow> length (filter in_use (xs[i := x])) = Suc (length (filter in_use xs))"
proof (induction xs arbitrary: i)
  case (Cons a xs)
  then show ?case by (cases i) auto
qed simp

lemma init_option_ok:
  assumes t: "table_inv t" and n: "used_slots t = options_num t" "options_num t < OPTIONS_MAX"
    and name: "length name < OPTION_NAME_MAX" "is_valid_symbol name" and new: "entry t name = None" and ty: "type \<in> option_types"
  shows "\<exists>i t'. init_option name type t = Inr (int i, t') \<and> i < OPTIONS_MAX \<and> table_inv t' \<and> used_slots t' = options_num t' \<and> options_num t' = Suc (options_num t)
    \<and> same_key (slots t' ! i) \<lparr>o_name = name, o_type = type, o_value = Num 0, ignore_in_config = False, set_in_config = False,
         o_hash = hash name, o_check = Check_true, o_count = 0, o_constraints = No_array\<rparr>
    \<and> o_check (slots t' ! i) = Check_true \<and> o_constraints (slots t' ! i) = No_array \<and> \<not> in_use (slots t ! i)
    \<and> \<not> set_in_config (slots t' ! i) \<and> \<not> ignore_in_config (slots t' ! i)
    \<and> (\<forall>j<OPTIONS_MAX. j \<noteq> i \<longrightarrow> slots t' ! j = slots t ! j)"
proof -
  have "\<exists>j\<in>set (probe_order (hash name)). \<not> in_use (slots t ! j)"
    using free_slot_exists [OF t] n set_probe_order by auto
  from first_free_hit [OF this] obtain xs i ys where p: "probe_order (hash name) = xs @ i # ys" "first_free (slots t) (probe_order (hash name)) = int i"
    "\<not> in_use (slots t ! i)" "\<forall>j\<in>set xs. in_use (slots t ! j)" by auto
  have i: "i < OPTIONS_MAX" using p(1) set_probe_order [of "hash name"] by auto
  have len: "length (slots t) = OPTIONS_MAX" using t by (simp add: table_inv_def)
  define x where "x = (slots t ! i)\<lparr>o_name := name, o_hash := hash name, o_type := type, ignore_in_config := False, set_in_config := False,
          o_check := Check_true, o_count := 0, o_constraints := No_array\<rparr>"
  define t' where "t' = (put i x t)\<lparr>options_num := options_num t + 1\<rparr>"
  have nth: "slots t' ! j = (if j = i then x else slots t ! j)" if "j < OPTIONS_MAX" for j
    using put_nth [OF t i that] by (simp add: t'_def)
  have ux: "in_use x" using ty by (auto simp: x_def in_use_def option_types_def type_defs)
  have r: "init_option name type t = Inr (int i, t')"
    using p(2) n(2) name i len slot_ok [OF t i] set_slot_ok [OF t i]
    by (simp add: init_option_def Let_def find_free_def t'_def x_def put_def)
  have "table_inv t'" unfolding table_inv_def
  proof (intro conjI allI impI)
    show "length (slots t') = OPTIONS_MAX" using len by (simp add: t'_def put_def)
  next
    fix j assume j: "j < OPTIONS_MAX" "in_use (slots t' ! j)"
    show "o_hash (slots t' ! j) = hash (o_name (slots t' ! j))"
      using j nth [OF j(1)] t by (auto simp: x_def table_inv_def)
    show "o_type (slots t' ! j) \<in> option_types"
      using j nth [OF j(1)] t ty by (auto simp: x_def table_inv_def)
    show "reachable_slot (slots t') j" unfolding reachable_slot_def
    proof (intro allI impI ballI)
      fix as bs l
      assume a: "probe_order (o_hash (slots t' ! j)) = as @ j # bs" "l \<in> set as"
      have l: "l < OPTIONS_MAX" using a set_probe_order [of "o_hash (slots t' ! j)"] by auto
      show "in_use (slots t' ! l)"
      proof (cases "j = i")
        case True
        then have "as @ i # bs = xs @ i # ys" using a p(1) nth [OF i] by (simp add: x_def)
        then have "as = xs" using distinct_prefix distinct_probe_order [of "hash name"] p(1) by metis
        then show ?thesis using p(4) a(2) nth [OF l] ux by auto
      next
        case False
        then have "reachable_slot (slots t) j" "slots t' ! j = slots t ! j" using j nth [OF j(1)] t by (auto simp: table_inv_def)
        then show ?thesis using a nth [OF l] ux by (auto simp: reachable_slot_def)
      qed
    qed
  next
    fix j k assume "j < OPTIONS_MAX" "k < OPTIONS_MAX" and a: "in_use (slots t' ! j) \<and> in_use (slots t' ! k) \<and> strcaseeq (o_name (slots t' ! j)) (o_name (slots t' ! k))"
    then show "j = k" using nth [of j] nth [of k] t new entry_None [OF t, of name] strcaseeq_sym
      by (auto simp: x_def table_inv_def split: if_splits)
  qed
  moreover have "used_slots t' = options_num t'"
    using used_slots_update [of i "slots t" x] i len p(3) ux n(1) by (simp add: used_slots_def t'_def put_def)
  ultimately show ?thesis using r i nth p(3) by (intro exI [of _ i] exI [of _ t']) (auto simp: same_key_def x_def t'_def put_def)
qed

end
