(* ===== verification/Options_Init.thy ===== *)
theory Options_Init
  imports Options
begin

text \<open>
  The built-in options with their types, default values and constraints, \<^verbatim>\<open>options_init\<close> of
  \<^verbatim>\<open>src/src/moc-2.5.0/options.c\<close>. The calls that add them are data, run in order by
  \<open>add_option\<close>; a count is written out as the macro of the call gives it.
\<close>

definition INT_MAX :: int where "INT_MAX = 2147483647"

datatype option_decl =
    Add_bool string bool
  | Add_int string int options_t_check int "arg list"
  | Add_str string "string option" options_t_check int "arg list"
  | Add_symb string string int "arg list"
  | Add_list string "string option" options_t_check int "arg list"

definition add_option :: "option_decl \<Rightarrow> options \<Rightarrow> options result" where
  "add_option d =
     (case d of Add_bool n v \<Rightarrow> add_bool n v | Add_int n v k c va \<Rightarrow> add_int n v k c va
      | Add_str n v k c va \<Rightarrow> add_str n v k c va | Add_symb n v c va \<Rightarrow> add_symb n v c va
      | Add_list n v k c va \<Rightarrow> add_list n v k c va)"

definition sound_options :: "option_decl list" where
  "sound_options =
    [Add_bool ''ReadTags'' True,
     Add_str ''MusicDir'' None Check_true 0 [],
     Add_bool ''StartInMusicDir'' False,
     Add_symb ''Sort'' ''FileName'' 1 [Str_arg ''FileName''],
     Add_bool ''ShowStreamErrors'' False,
     Add_bool ''MP3IgnoreCRCErrors'' True,
     Add_bool ''Repeat'' False,
     Add_bool ''Shuffle'' False,
     Add_bool ''AutoNext'' True,
     Add_str ''FormatString'' (Some (''%(n:%n :)%(a:%a - :)%(t:%t:)%(A: '' @ [backslash] @ ''(%A'' @ [backslash] @ ''):)'')) Check_true 0 [],
     Add_int ''InputBuffer'' 512 Check_range 2 [Int_arg 32, Int_arg INT_MAX],
     Add_int ''OutputBuffer'' 512 Check_range 2 [Int_arg 128, Int_arg INT_MAX],
     Add_int ''Prebuffering'' 64 Check_range 2 [Int_arg 0, Int_arg INT_MAX],
     Add_str ''HTTPProxy'' None Check_true 0 [],
     Add_list ''SoundDriver'' (Some ''Jack:ALSA:OSS'') Check_discrete 5 [Str_arg ''SNDIO'', Str_arg ''Jack'', Str_arg ''ALSA'', Str_arg ''OSS'', Str_arg ''null''],
     Add_str ''JackClientName'' (Some ''moc'') Check_true 0 [],
     Add_bool ''JackStartServer'' False,
     Add_str ''JackOutLeft'' (Some ''system:playback_1'') Check_true 0 [],
     Add_str ''JackOutRight'' (Some ''system:playback_2'') Check_true 0 [],
     Add_str ''OSSDevice'' (Some ''/dev/dsp'') Check_true 0 [],
     Add_str ''OSSMixerDevice'' (Some ''/dev/mixer'') Check_true 0 [],
     Add_symb ''OSSMixerChannel1'' ''pcm'' 3 [Str_arg ''pcm'', Str_arg ''master'', Str_arg ''speaker''],
     Add_symb ''OSSMixerChannel2'' ''master'' 3 [Str_arg ''pcm'', Str_arg ''master'', Str_arg ''speaker''],
     Add_str ''ALSADevice'' (Some ''default'') Check_true 0 [],
     Add_str ''ALSAMixer1'' (Some ''PCM'') Check_true 0 [],
     Add_str ''ALSAMixer2'' (Some ''Master'') Check_true 0 [],
     Add_bool ''Softmixer_SaveState'' True,
     Add_bool ''Equalizer_SaveState'' True]"

definition interface_options :: "option_decl list" where
  "interface_options =
    [Add_bool ''ShowHiddenFiles'' False,
     Add_bool ''HideFileExtension'' False,
     Add_bool ''ShowFormat'' True,
     Add_symb ''ShowTime'' ''IfAvailable'' 3 [Str_arg ''yes'', Str_arg ''no'', Str_arg ''IfAvailable''],
     Add_bool ''ShowTimePercent'' False,
     Add_list ''ScreenTerms'' (Some ''screen:screen-w:vt100'') Check_true 0 [],
     Add_list ''XTerms'' (Some ''xterm:xterm-colour:xterm-color:xterm-256colour:xterm-256color:rxvt:rxvt-unicode:rxvt-unicode-256colour:rxvt-unicode-256color:eterm'') Check_true 0 [],
     Add_str ''Theme'' None Check_true 0 [],
     Add_str ''XTermTheme'' None Check_true 0 [],
     Add_str ''ForceTheme'' None Check_true 0 [],
     Add_bool ''AutoLoadLyrics'' True,
     Add_str ''MOCDir'' (Some ''~/.moc'') Check_true 0 [],
     Add_bool ''UseMMap'' False,
     Add_bool ''UseMimeMagic'' False,
     Add_str ''ID3v1TagsEncoding'' (Some ''WINDOWS-1250'') Check_true 0 [],
     Add_bool ''UseRCC'' True,
     Add_bool ''UseRCCForFilesystem'' True,
     Add_bool ''EnforceTagsEncoding'' False,
     Add_bool ''FileNamesIconv'' False,
     Add_bool ''NonUTFXterm'' False,
     Add_bool ''Precache'' True,
     Add_bool ''SavePlaylist'' True,
     Add_bool ''SyncPlaylist'' True,
     Add_str ''Keymap'' None Check_true 0 [],
     Add_bool ''ASCIILines'' False,
     Add_str ''FastDir1'' None Check_true 0 [],
     Add_str ''FastDir2'' None Check_true 0 [],
     Add_str ''FastDir3'' None Check_true 0 [],
     Add_str ''FastDir4'' None Check_true 0 [],
     Add_str ''FastDir5'' None Check_true 0 [],
     Add_str ''FastDir6'' None Check_true 0 [],
     Add_str ''FastDir7'' None Check_true 0 [],
     Add_str ''FastDir8'' None Check_true 0 [],
     Add_str ''FastDir9'' None Check_true 0 [],
     Add_str ''FastDir10'' None Check_true 0 []]"

definition playing_options :: "option_decl list" where
  "playing_options =
    [Add_int ''SeekTime'' 1 Check_range 2 [Int_arg 1, Int_arg INT_MAX],
     Add_int ''SilentSeekTime'' 5 Check_range 2 [Int_arg 1, Int_arg INT_MAX],
     Add_list ''PreferredDecoders'' (Some ''aac(aac,ffmpeg):m4a(ffmpeg):mpc(musepack,*,ffmpeg):mpc8(musepack,*,ffmpeg):sid(sidplay2):mus(sidplay2):wav(sndfile,*,ffmpeg):wv(wavpack,*,ffmpeg):audio/aac(aac):audio/aacp(aac):audio/m4a(ffmpeg):audio/wav(sndfile,*):ogg(vorbis,ffmpeg):oga(vorbis,ffmpeg):ogv(ffmpeg):opus(ffmpeg):spx(speex):application/ogg(vorbis):audio/ogg(vorbis)'') Check_function 0 [],
     Add_symb ''ResampleMethod'' ''Linear'' 5 [Str_arg ''SincBestQuality'', Str_arg ''SincMediumQuality'', Str_arg ''SincFastest'', Str_arg ''ZeroOrderHold'', Str_arg ''Linear''],
     Add_int ''ForceSampleRate'' 0 Check_range 2 [Int_arg 0, Int_arg 500000],
     Add_bool ''Allow24bitOutput'' False,
     Add_bool ''UseRealtimePriority'' False,
     Add_int ''TagsCacheSize'' 256 Check_range 2 [Int_arg 0, Int_arg INT_MAX],
     Add_bool ''PlaylistNumbering'' True,
     Add_list ''Layout1'' (Some ''directory(0,0,50%,100%):playlist(50%,0,FILL,100%)'') Check_function 0 [],
     Add_list ''Layout2'' (Some ''directory(0,0,100%,100%):playlist(0,0,100%,100%)'') Check_function 0 [],
     Add_list ''Layout3'' None Check_function 0 [],
     Add_bool ''FollowPlayedFile'' True,
     Add_bool ''CanStartInPlaylist'' True,
     Add_str ''ExecCommand1'' None Check_true 0 [],
     Add_str ''ExecCommand2'' None Check_true 0 [],
     Add_str ''ExecCommand3'' None Check_true 0 [],
     Add_str ''ExecCommand4'' None Check_true 0 [],
     Add_str ''ExecCommand5'' None Check_true 0 [],
     Add_str ''ExecCommand6'' None Check_true 0 [],
     Add_str ''ExecCommand7'' None Check_true 0 [],
     Add_str ''ExecCommand8'' None Check_true 0 [],
     Add_str ''ExecCommand9'' None Check_true 0 [],
     Add_str ''ExecCommand10'' None Check_true 0 [],
     Add_bool ''UseCursorSelection'' False,
     Add_bool ''SetXtermTitle'' True,
     Add_bool ''SetScreenTitle'' True,
     Add_bool ''PlaylistFullPaths'' True,
     Add_str ''BlockDecorators'' (Some ([CHR 0x60] @ [dquote] @ [CHR 0x27])) Check_length 2 [Int_arg 3, Int_arg 3],
     Add_int ''MessageLingerTime'' 3 Check_range 2 [Int_arg 0, Int_arg INT_MAX],
     Add_bool ''PrefixQueuedMessages'' True,
     Add_str ''ErrorMessagesQueued'' (Some ''!'') Check_true 0 []]"

definition decoder_options :: "option_decl list" where
  "decoder_options =
    [Add_bool ''ModPlug_Oversampling'' True,
     Add_bool ''ModPlug_NoiseReduction'' True,
     Add_bool ''ModPlug_Reverb'' False,
     Add_bool ''ModPlug_MegaBass'' False,
     Add_bool ''ModPlug_Surround'' False,
     Add_symb ''ModPlug_ResamplingMode'' ''FIR'' 4 [Str_arg ''FIR'', Str_arg ''SPLINE'', Str_arg ''LINEAR'', Str_arg ''NEAREST''],
     Add_int ''ModPlug_Channels'' 2 Check_discrete 2 [Int_arg 1, Int_arg 2],
     Add_int ''ModPlug_Bits'' 16 Check_discrete 3 [Int_arg 8, Int_arg 16, Int_arg 32],
     Add_int ''ModPlug_Frequency'' 44100 Check_discrete 4 [Int_arg 11025, Int_arg 22050, Int_arg 44100, Int_arg 48000],
     Add_int ''ModPlug_ReverbDepth'' 0 Check_range 2 [Int_arg 0, Int_arg 100],
     Add_int ''ModPlug_ReverbDelay'' 0 Check_range 2 [Int_arg 0, Int_arg INT_MAX],
     Add_int ''ModPlug_BassAmount'' 0 Check_range 2 [Int_arg 0, Int_arg 100],
     Add_int ''ModPlug_BassRange'' 10 Check_range 2 [Int_arg 10, Int_arg 100],
     Add_int ''ModPlug_SurroundDepth'' 0 Check_range 2 [Int_arg 0, Int_arg 100],
     Add_int ''ModPlug_SurroundDelay'' 0 Check_range 2 [Int_arg 0, Int_arg INT_MAX],
     Add_int ''ModPlug_LoopCount'' 0 Check_range 2 [Int_arg (-1), Int_arg INT_MAX],
     Add_int ''TiMidity_Rate'' 44100 Check_range 2 [Int_arg 8000, Int_arg 48000],
     Add_int ''TiMidity_Bits'' 16 Check_discrete 2 [Int_arg 8, Int_arg 16],
     Add_int ''TiMidity_Channels'' 2 Check_discrete 2 [Int_arg 1, Int_arg 2],
     Add_int ''TiMidity_Volume'' 100 Check_range 2 [Int_arg 0, Int_arg 800],
     Add_str ''TiMidity_Config'' None Check_true 0 [],
     Add_int ''SidPlay2_DefaultSongLength'' 180 Check_range 2 [Int_arg 0, Int_arg INT_MAX],
     Add_int ''SidPlay2_MinimumSongLength'' 0 Check_range 2 [Int_arg 0, Int_arg INT_MAX],
     Add_str ''SidPlay2_Database'' None Check_true 0 [],
     Add_int ''SidPlay2_Frequency'' 44100 Check_range 2 [Int_arg 4000, Int_arg 48000],
     Add_int ''SidPlay2_Bits'' 16 Check_discrete 2 [Int_arg 8, Int_arg 16],
     Add_int ''SidPlay2_Optimisation'' 0 Check_range 2 [Int_arg 0, Int_arg 2],
     Add_symb ''SidPlay2_PlayMode'' ''M'' 4 [Str_arg ''M'', Str_arg ''S'', Str_arg ''L'', Str_arg ''R''],
     Add_bool ''SidPlay2_StartAtStart'' True,
     Add_bool ''SidPlay2_PlaySubTunes'' True,
     Add_str ''OnSongChange'' None Check_true 0 [],
     Add_bool ''RepeatSongChange'' False,
     Add_str ''OnStop'' None Check_true 0 [],
     Add_bool ''QueueNextSongReturn'' False]"

text \<open>The static variables before the first call.\<close>

definition options_static :: options where
  "options_static = \<lparr>slots = replicate OPTIONS_MAX free_slot, options_num = 0\<rparr>"

text \<open>The table is cleared, the number of options is not.\<close>

definition options_init :: "options \<Rightarrow> options result" where
  "options_init t =
     foldR add_option (sound_options @ interface_options @ playing_options @ decoder_options)
       (t\<lparr>slots := replicate OPTIONS_MAX free_slot\<rparr>)"

end
