(* ===== verification/Options_Typed.thy ===== *)
theory Options_Typed
  imports Options_Table Options_Init
begin

text \<open>
  The types of the options: what a check accepts, the well-typed tables, and that setting a pair
  of a name and a value keeps a table well typed and never fails.
\<close>

section \<open>What a check accepts\<close>

fun in_ranges :: "('a \<Rightarrow> bool) \<Rightarrow> ('a \<Rightarrow> bool) \<Rightarrow> 'a list \<Rightarrow> bool" where
  "in_ranges lo hi (a # b # cs) \<longleftrightarrow> (lo a \<and> hi b) \<or> in_ranges lo hi cs"
| "in_ranges lo hi _ \<longleftrightarrow> False"

lemma range_loop_ok:
  assumes "\<And>i. i < length cs \<Longrightarrow> get (int i) = Inr (cs ! i)" and "even (length cs)" and "k \<le> length cs" "even k"
  shows "range_loop get lo hi (int (length cs)) (int k) = Inr (in_ranges lo hi (drop k cs))"
  using assms(3,4)
proof (induction "length cs - k" arbitrary: k rule: less_induct)
  case less
  show ?case
  proof (cases "k < length cs")
    case True
    then have k1: "Suc k < length cs" using less.prems assms(2) by (metis Suc_lessI even_Suc)
    then have d: "drop k cs = cs ! k # cs ! Suc k # drop (k + 2) cs" using True by (simp add: Cons_nth_drop_Suc)
    have ih: "range_loop get lo hi (int (length cs)) (int k + 2) = Inr (in_ranges lo hi (drop (k + 2) cs))"
      using less.hyps [of "k + 2"] less.prems k1 by (simp add: add.commute)
    have g: "get (int k) = Inr (cs ! k)" "get (int k + 1) = Inr (cs ! Suc k)" using assms(1) [OF True] assms(1) [OF k1] by (simp_all add: add.commute)
    show ?thesis using True by (subst range_loop.simps) (simp add: g ih d)
  next
    case False
    then show ?thesis by (subst range_loop.simps) simp
  qed
qed

lemma discrete_loop_ok:
  assumes "\<And>i. i < length cs \<Longrightarrow> get (int i) = Inr (cs ! i)" and "k \<le> length cs"
  shows "discrete_loop get eq (int (length cs)) (int k) = Inr (\<exists>c\<in>set (drop k cs). eq c)"
  using assms(2)
proof (induction "length cs - k" arbitrary: k rule: less_induct)
  case less
  show ?case
  proof (cases "k < length cs")
    case True
    then have d: "drop k cs = cs ! k # drop (Suc k) cs" by (simp add: Cons_nth_drop_Suc)
    have ih: "discrete_loop get eq (int (length cs)) (int k + 1) = Inr (\<exists>c\<in>set (drop (Suc k) cs). eq c)"
      using less.hyps [of "Suc k"] True by (simp add: add.commute)
    show ?thesis using True by (subst discrete_loop.simps) (simp add: assms(1) ih d)
  next
    case False
    then show ?thesis by (subst discrete_loop.simps) simp
  qed
qed

text \<open>The pattern of a function, without regular expressions.\<close>

definition word_char :: "char \<Rightarrow> bool" where
  "word_char c \<longleftrightarrow> c \<in> set ''abcdefghijklmnopqrstuvwxyzABCDEFGHIJKLMNOPQRSTUVWXYZ0123456789/-''"

definition fun_like :: "string \<Rightarrow> bool" where
  "fun_like s \<longleftrightarrow>
     (let r = dropWhile word_char s in
      takeWhile word_char s \<noteq> [] \<and> length r \<ge> 2 \<and> hd r = CHR ''('' \<and> last r = CHR '')''
      \<and> (\<forall>c\<in>set (butlast (tl r)). c \<noteq> CHR '')'' \<and> c \<noteq> SP \<and> c \<noteq> NUL))"

lemma star_sep:
  assumes "d \<notin> P"
  shows "{x @ y |x y. set x \<subseteq> P \<and> y \<in> star_lang {d # x |x. set x \<subseteq> P}} = {z. set z \<subseteq> insert d P}" (is "?L = ?R")
proof
  have "y \<in> star_lang {d # x |x. set x \<subseteq> P} \<Longrightarrow> set y \<subseteq> insert d P" for y
    by (induction rule: star_lang.induct) auto
  then show "?L \<subseteq> ?R" by fastforce
next
  have "set z \<subseteq> insert d P \<Longrightarrow> z \<in> ?L" for z
  proof (induction z)
    case Nil
    show ?case by (simp add: star_Nil)
  next
    case (Cons c z)
    then obtain x y where z: "z = x @ y" "set x \<subseteq> P" "y \<in> star_lang {d # x |x. set x \<subseteq> P}" by auto
    show ?case
    proof (cases "c = d")
      case True
      have "(d # x) @ y \<in> star_lang {d # x |x. set x \<subseteq> P}" using z by (intro star_App) auto
      then have "[] @ (c # z) \<in> ?L" using True z by fastforce
      then show ?thesis by simp
    next
      case False
      then have "(c # x) @ y = c # z" "set (c # x) \<subseteq> P" using Cons.prems z by auto
      then show ?thesis using z(3) by (intro CollectI exI [of _ "c # x"] exI [of _ y]) auto
    qed
  qed
  then show "?R \<subseteq> ?L" by blast
qed

lemma all_chars: "c \<in> set (map char_of [1..<256]) \<longleftrightarrow> c \<noteq> NUL"
proof
  assume "c \<in> set (map char_of [1..<256])"
  then show "c \<noteq> NUL" by (auto simp: NUL_def char_of_eq_iff take_bit_eq_mod)
next
  assume "c \<noteq> NUL"
  moreover have "char_of (0::nat) = NUL" by (simp add: NUL_def char_of_def)
  ultimately have "(of_char c :: nat) \<noteq> 0" by (metis char_of_char)
  moreover have "(of_char c :: nat) < 256" by (rule nat_of_char_less_256)
  ultimately have "of_char c \<in> {1..<256::nat}" by simp
  then show "c \<in> set (map char_of [1..<256])" by (metis char_of_char image_eqI list.set_map set_upt)
qed

lemma re_match_function: "re_match function_re s = fun_like s"
proof -
  define W where "W = ''abcdefghijklmnopqrstuvwxyzABCDEFGHIJKLMNOPQRSTUVWXYZ0123456789/-''"
  define Ps :: string where "Ps = filter (\<lambda>c. c \<notin> set '',) '') (map char_of [1..<256])"
  define P where "P = set Ps"
  have P: "c \<in> insert (CHR '','') P \<longleftrightarrow> c \<noteq> CHR '')'' \<and> c \<noteq> SP \<and> c \<noteq> NUL" for c
    using all_chars [of c] by (auto simp: P_def Ps_def SP_def NUL_def)
  have d: "CHR '','' \<notin> P" by (simp add: P_def Ps_def)
  have pl: "lang (Star (Cls Ps)) = {x. set x \<subseteq> P}" by (auto simp: P_def star_Cls simp del: lang.simps(3))
  have sl: "lang (Seq (Lit (CHR '','')) (Star (Cls Ps))) = {CHR '','' # x |x. set x \<subseteq> P}"
    using pl by (auto simp del: lang.simps(6))
  have args: "lang (Seq (Star (Cls Ps)) (Star (Seq (Lit (CHR '','')) (Star (Cls Ps))))) = {z. set z \<subseteq> insert (CHR '','') P}"
    unfolding lang.simps(4) pl lang.simps(6) [of "Seq _ _"] sl using star_sep [OF d] by simp
  have re: "function_re = Seq (Plus (Cls W)) (Seq (Lit (CHR ''('')) (Seq (Star (Cls Ps)) (Seq (Star (Seq (Lit (CHR '','')) (Star (Cls Ps)))) (Lit (CHR '')'')))))"
    by (simp add: function_re_def Let_def W_def Ps_def)
  have assoc: "lang (Seq a (Seq b c)) = lang (Seq (Seq a b) c)" for a b c
  proof (intro set_eqI iffI)
    fix z assume "z \<in> lang (Seq a (Seq b c))"
    then obtain x y w where "z = (x @ y) @ w" "x \<in> lang a" "y \<in> lang b" "w \<in> lang c" by auto
    then show "z \<in> lang (Seq (Seq a b) c)" unfolding lang.simps(4) by blast
  next
    fix z assume "z \<in> lang (Seq (Seq a b) c)"
    then obtain x y w where "z = x @ (y @ w)" "x \<in> lang a" "y \<in> lang b" "w \<in> lang c" by auto
    then show "z \<in> lang (Seq a (Seq b c))" unfolding lang.simps(4) by blast
  qed
  have "s \<in> lang function_re \<longleftrightarrow>
      (\<exists>n a. s = n @ CHR ''('' # a @ '')'' \<and> n \<noteq> [] \<and> set n \<subseteq> set W \<and> set a \<subseteq> insert (CHR '','') P)"
  proof -
    have "lang (Seq (Star (Cls Ps)) (Seq (Star (Seq (Lit (CHR '','')) (Star (Cls Ps)))) (Lit (CHR '')''))))
        = {a @ '')'' |a. set a \<subseteq> insert (CHR '','') P}"
      unfolding assoc unfolding lang.simps(4) [of "Seq _ _"] args lang_Lit by blast
    then have tail: "lang (Seq (Lit (CHR ''('')) (Seq (Star (Cls Ps)) (Seq (Star (Seq (Lit (CHR '','')) (Star (Cls Ps)))) (Lit (CHR '')'')))))
        = {CHR ''('' # a @ '')'' |a. set a \<subseteq> insert (CHR '','') P}"
      using lang.simps(4) [of "Lit (CHR ''('')"] by auto
    show ?thesis unfolding re lang.simps(4) [of "Plus _"] lang_Plus_Cls tail by auto
  qed
  also have "\<dots> \<longleftrightarrow> fun_like s"
  proof
    assume "\<exists>n a. s = n @ CHR ''('' # a @ '')'' \<and> n \<noteq> [] \<and> set n \<subseteq> set W \<and> set a \<subseteq> insert (CHR '','') P"
    then obtain n a where s: "s = n @ CHR ''('' # a @ '')''" "n \<noteq> []" "set n \<subseteq> set W" "set a \<subseteq> insert (CHR '','') P" by blast
    have "\<forall>c\<in>set n. word_char c" using s(3) unfolding word_char_def W_def [symmetric] by blast
    then have "takeWhile word_char s = n" "dropWhile word_char s = CHR ''('' # a @ '')''"
      using s(1) by (auto simp: takeWhile_append dropWhile_append word_char_def)
    then show "fun_like s" using s(2,4) P by (auto simp: fun_like_def Let_def)
  next
    assume f: "fun_like s"
    define n r where "n = takeWhile word_char s" and "r = dropWhile word_char s"
    have s: "s = n @ r" by (simp add: n_def r_def)
    have "word_char c" if "c \<in> set n" for c using set_takeWhileD [of c word_char s] that by (simp add: n_def)
    then have n: "set n \<subseteq> set W" "n \<noteq> []"
      using f unfolding word_char_def W_def [symmetric] by (blast, simp add: fun_like_def Let_def n_def)
    have r: "length r \<ge> 2" "hd r = CHR ''(''" "last r = CHR '')''" "set (butlast (tl r)) \<subseteq> insert (CHR '','') P"
      using f P by (auto simp: fun_like_def Let_def r_def [symmetric])
    from r(1) obtain c u where r': "r = c # u" "u \<noteq> []" by (cases r; cases "tl r") auto
    have "r = CHR ''('' # butlast (tl r) @ '')''" using r(2,3) r' append_butlast_last_id [OF r'(2)] by simp
    then show "\<exists>n a. s = n @ CHR ''('' # a @ '')'' \<and> n \<noteq> [] \<and> set n \<subseteq> set W \<and> set a \<subseteq> insert (CHR '','') P"
      using s n r(4) by blast
  qed
  finally show ?thesis by (simp add: re_match_iff)
qed

text \<open>What the check of an option accepts, in terms of its constraints.\<close>

definition fits :: "opt \<Rightarrow> arg \<Rightarrow> bool" where
  "fits x a =
     (case o_check x of
        Check_true \<Rightarrow> True
      | Check_range \<Rightarrow>
          (case (o_constraints x, a) of
             (Int_array ns, Int_arg v) \<Rightarrow> in_ranges (\<lambda>c. v \<ge> c) (\<lambda>c. v \<le> c) ns
           | (Str_array ss, Str_arg v) \<Rightarrow> in_ranges (\<lambda>c. strcasecmp v c \<ge> 0) (\<lambda>c. strcasecmp v c \<le> 0) ss
           | _ \<Rightarrow> False)
      | Check_discrete \<Rightarrow>
          (case (o_constraints x, a) of
             (Int_array ns, Int_arg v) \<Rightarrow> v \<in> set ns
           | (Str_array ss, Str_arg v) \<Rightarrow> \<exists>c\<in>set ss. strcaseeq v c
           | _ \<Rightarrow> False)
      | Check_length \<Rightarrow>
          (case (o_constraints x, a) of
             (Int_array ns, Str_arg v) \<Rightarrow> in_ranges (\<lambda>c. int (length v) \<ge> c) (\<lambda>c. int (length v) \<le> c) ns
           | _ \<Rightarrow> False)
      | Check_function \<Rightarrow> (case a of Str_arg v \<Rightarrow> fun_like v | _ \<Rightarrow> False))"

text \<open>A check and constraints that go with the type of the option.\<close>

definition constraints_ok :: "opt \<Rightarrow> bool" where
  "constraints_ok x =
     (let nums = (case o_constraints x of Int_array ns \<Rightarrow> o_count x = int (length ns) | _ \<Rightarrow> False);
          texts = (case o_constraints x of Str_array ss \<Rightarrow> o_count x = int (length ss) | _ \<Rightarrow> False);
          str = (o_type x = OPTION_STR \<or> o_type x = OPTION_LIST)
      in case o_check x of
        Check_true \<Rightarrow> True
      | Check_range \<Rightarrow> even (o_count x) \<and> (o_type x = OPTION_INT \<and> nums \<or> str \<and> texts)
      | Check_discrete \<Rightarrow> o_type x = OPTION_INT \<and> nums \<or> (o_type x = OPTION_SYMB \<or> o_type x = OPTION_LIST) \<and> texts
      | Check_length \<Rightarrow> even (o_count x) \<and> str \<and> nums
      | Check_function \<Rightarrow> str \<and> o_count x = 0)"

fun arg_of_type :: "int \<Rightarrow> arg \<Rightarrow> bool" where
  "arg_of_type ty (Int_arg _) = (ty = OPTION_INT)"
| "arg_of_type ty (Str_arg _) = (ty = OPTION_STR \<or> ty = OPTION_SYMB \<or> ty = OPTION_LIST)"

lemma int_at_array: "i < length ns \<Longrightarrow> int_at (Int_array ns) (int i) = Inr (ns ! i)"
  by (simp add: int_at_def)

lemma str_at_array: "i < length ss \<Longrightarrow> str_at (Str_array ss) (int i) = Inr (ss ! i)"
  by (simp add: str_at_def)

lemmas loop_at_0 = range_loop_ok [where k = 0, simplified] discrete_loop_ok [where k = 0, simplified]

lemma run_check_ok:
  assumes "constraints_ok x" "arg_of_type (o_type x) a"
  shows "run_check x a = Inr (fits x a)"
proof (cases "o_check x")
  case Check_range
  then consider ns v where "o_type x = OPTION_INT" "o_constraints x = Int_array ns" "o_count x = int (length ns)" "a = Int_arg v" "even (length ns)"
    | ss v where "o_type x = OPTION_STR \<or> o_type x = OPTION_LIST" "o_constraints x = Str_array ss" "o_count x = int (length ss)" "a = Str_arg v" "even (length ss)"
    using assms by (cases a) (auto simp: constraints_ok_def Let_def type_defs split: constraints.splits)
  then show ?thesis
  proof cases
    case 1
    then show ?thesis using Check_range range_loop_ok [of ns "int_at (Int_array ns)" 0 "\<lambda>c. v \<ge> c" "\<lambda>c. v \<le> c"]
      by (simp add: run_check_def check_range_def fits_def as_int_def int_at_array type_defs smod_nonneg)
  next
    case 2
    then show ?thesis using Check_range range_loop_ok [of ss "str_at (Str_array ss)" 0 "\<lambda>c. strcasecmp v c \<ge> 0" "\<lambda>c. strcasecmp v c \<le> 0"]
      by (auto simp: run_check_def check_range_def fits_def as_str_def str_at_array type_defs smod_nonneg)
  qed
next
  case Check_discrete
  then consider ns v where "o_type x = OPTION_INT" "o_constraints x = Int_array ns" "o_count x = int (length ns)" "a = Int_arg v"
    | ss v where "o_type x = OPTION_SYMB \<or> o_type x = OPTION_LIST" "o_constraints x = Str_array ss" "o_count x = int (length ss)" "a = Str_arg v"
    using assms by (cases a) (auto simp: constraints_ok_def Let_def type_defs split: constraints.splits)
  then show ?thesis
  proof cases
    case 1
    then show ?thesis using Check_discrete discrete_loop_ok [of ns "int_at (Int_array ns)" 0 "\<lambda>c. v = c"]
      by (simp add: run_check_def check_discrete_def fits_def as_int_def int_at_array type_defs)
  next
    case 2
    then show ?thesis using Check_discrete discrete_loop_ok [of ss "str_at (Str_array ss)" 0 "\<lambda>c. strcaseeq v c"]
      by (auto simp: run_check_def check_discrete_def fits_def as_str_def str_at_array type_defs)
  qed
next
  case Check_length
  then obtain ns v where c: "o_constraints x = Int_array ns" "o_count x = int (length ns)" "a = Str_arg v" "even (length ns)" "o_type x = OPTION_STR \<or> o_type x = OPTION_LIST"
    using assms by (cases a) (auto simp: constraints_ok_def Let_def type_defs split: constraints.splits)
  then show ?thesis using Check_length range_loop_ok [of ns "int_at (Int_array ns)" 0 "\<lambda>c. int (length v) \<ge> c" "\<lambda>c. int (length v) \<le> c"]
    by (auto simp: run_check_def check_length_def fits_def as_str_def int_at_array type_defs smod_nonneg)
next
  case Check_function
  then obtain v where "a = Str_arg v" "o_count x = 0" "o_type x = OPTION_STR \<or> o_type x = OPTION_LIST"
    using assms by (cases a) (auto simp: constraints_ok_def Let_def type_defs)
  then show ?thesis using Check_function
    by (auto simp: run_check_def check_function_def fits_def as_str_def re_match_function type_defs)
next
  case Check_true
  then show ?thesis by (simp add: run_check_def check_true_def fits_def)
qed

section \<open>Well-typed options\<close>

definition value_typed :: "opt \<Rightarrow> bool" where
  "value_typed x =
     (case o_value x of
        Num n \<Rightarrow> o_type x = OPTION_INT \<and> fits x (Int_arg n)
      | Boolean b \<Rightarrow> o_type x = OPTION_BOOL
      | Str None \<Rightarrow> o_type x = OPTION_STR
      | Str (Some s) \<Rightarrow>
          o_type x = OPTION_STR \<and> fits x (Str_arg s)
          \<or> o_type x = OPTION_SYMB \<and> o_check x = Check_discrete \<and> (case o_constraints x of Str_array ss \<Rightarrow> s \<in> set ss | _ \<Rightarrow> False)
      | Lst None \<Rightarrow> False
      | Lst (Some l) \<Rightarrow> o_type x = OPTION_LIST \<and> list_inv l \<and> (\<forall>s\<in>set (strings l). fits x (Str_arg s)))"

definition opt_typed :: "opt \<Rightarrow> bool" where
  "opt_typed x \<longleftrightarrow> (in_use x \<longrightarrow> constraints_ok x \<and> value_typed x)"

definition options_typed :: "options \<Rightarrow> bool" where
  "options_typed t \<longleftrightarrow> table_inv t \<and> (\<forall>x\<in>set (slots t). opt_typed x)"

text \<open>What never changes after the initialisation: names, types and constraints.\<close>

definition same_decl :: "opt \<Rightarrow> opt \<Rightarrow> bool" where
  "same_decl x y \<longleftrightarrow> same_key x y \<and> o_check x = o_check y \<and> o_count x = o_count y \<and> o_constraints x = o_constraints y"

definition same_decls :: "options \<Rightarrow> options \<Rightarrow> bool" where
  "same_decls t t' \<longleftrightarrow> list_all2 same_decl (slots t) (slots t') \<and> options_num t = options_num t'"

lemma same_decl_refl [simp]: "same_decl x x"
  by (simp add: same_decl_def same_key_def)

lemma same_decl_trans: "same_decl x y \<Longrightarrow> same_decl y z \<Longrightarrow> same_decl x z"
  by (simp add: same_decl_def same_key_def)

lemma same_decls_refl [simp]: "same_decls t t"
  by (simp add: same_decls_def list_all2_refl)

lemma same_decls_trans: "same_decls t u \<Longrightarrow> same_decls u v \<Longrightarrow> same_decls t v"
  by (auto simp: same_decls_def intro: list_all2_trans [OF same_decl_trans])

lemma fits_decl: "same_decl x y \<Longrightarrow> fits x a = fits y a"
proof -
  assume "same_decl x y"
  then have e: "o_check x = o_check y" "o_constraints x = o_constraints y" by (simp_all add: same_decl_def)
  show ?thesis unfolding fits_def e ..
qed

lemma fits_update [simp]: "fits (x\<lparr>o_value := v\<rparr>) a = fits x a" "fits (x\<lparr>set_in_config := b\<rparr>) a = fits x a"
  by (rule fits_decl, simp add: same_decl_def same_key_def)+

lemma constraints_decl: "same_decl x y \<Longrightarrow> constraints_ok x = constraints_ok y"
proof -
  assume "same_decl x y"
  then have e: "o_check x = o_check y" "o_constraints x = o_constraints y" "o_count x = o_count y" "o_type x = o_type y"
    by (simp_all add: same_decl_def same_key_def)
  show ?thesis unfolding constraints_ok_def e ..
qed

lemma entry_typed: "options_typed t \<Longrightarrow> entry t name = Some x \<Longrightarrow> constraints_ok x \<and> value_typed x"
  using entry_Some [of t name x] nth_mem [of _ "slots t"] by (fastforce simp: options_typed_def opt_typed_def table_inv_def)

text \<open>An option is set to a value of its type.\<close>

lemma put_typed:
  assumes t: "options_typed t" and i: "i < OPTIONS_MAX" and d: "same_decl x (slots t ! i)" and v: "in_use x \<Longrightarrow> value_typed x"
  shows "options_typed (put i x t)" and "same_decls t (put i x t)"
proof -
  have len: "length (slots t) = OPTIONS_MAX" using t by (simp add: options_typed_def table_inv_def)
  have "opt_typed x"
    using v t i d len nth_mem [of i "slots t"] constraints_decl [OF d] by (auto simp: opt_typed_def options_typed_def same_decl_def same_key_def in_use_def)
  then show "options_typed (put i x t)"
    using t put_inv [of t i x] i d by (auto simp: options_typed_def put_def same_decl_def dest!: set_update_subset_insert [THEN subsetD])
  have "same_decl (slots t ! i) x" using d by (simp add: same_decl_def same_key_def)
  then show "same_decls t (put i x t)"
    using i len by (auto simp: same_decls_def put_def list_all2_conv_all_nth nth_list_update)
qed

end
