(* ===== verification/Options_Builtin.thy ===== *)
theory Options_Builtin
  imports Options_Typed
begin

text \<open>
  The built-in options: adding them succeeds, and the table they make is well typed. What a call
  adds is a slot that can be read off the call; the calls of \<^verbatim>\<open>options_init\<close> are checked by
  evaluation.
\<close>

section \<open>What a call adds\<close>

fun decl_name :: "option_decl \<Rightarrow> string" where
  "decl_name (Add_bool n _) = n"
| "decl_name (Add_int n _ _ _ _) = n"
| "decl_name (Add_str n _ _ _ _) = n"
| "decl_name (Add_symb n _ _ _) = n"
| "decl_name (Add_list n _ _ _ _) = n"

fun decl_type :: "option_decl \<Rightarrow> int" where
  "decl_type (Add_bool _ _) = OPTION_BOOL"
| "decl_type (Add_int _ _ _ _ _) = OPTION_INT"
| "decl_type (Add_str _ _ _ _ _) = OPTION_STR"
| "decl_type (Add_symb _ _ _ _) = OPTION_SYMB"
| "decl_type (Add_list _ _ _ _ _) = OPTION_LIST"

definition split_list :: "string option \<Rightarrow> lists_t_strs result" where
  "split_list v =
     bindR (lists_strs_new 8) (\<lambda>l. case v of None \<Rightarrow> Inr l | Some v \<Rightarrow> bindR (lists_strs_split v '':'' l) (\<lambda>(_, l). Inr l))"

text \<open>The value, the check, the count and the constraints, where they can be read.\<close>

fun decl_content :: "option_decl \<Rightarrow> (option_value \<times> options_t_check \<times> int \<times> constraints) result" where
  "decl_content (Add_bool _ v) = Inr (Boolean v, Check_true, 0, No_array)"
| "decl_content (Add_int _ v k c va) =
     bindR (if c > 0 then bindR (va_args as_int (nat c) va) (\<lambda>ns. Inr (Int_array ns)) else Inr No_array) (\<lambda>cs. Inr (Num v, k, c, cs))"
| "decl_content (Add_str _ v k c va) = bindR (read_constraints k c va) (\<lambda>cs. Inr (Str v, k, c, cs))"
| "decl_content (Add_symb _ v c va) =
     bindR (guardR (c > 0) Assert) (\<lambda>_.
     bindR (va_args as_str (nat c) va) (\<lambda>ss.
       if \<not> list_all is_valid_symbol ss then fatal
       else case find_symbol v ss of None \<Rightarrow> fatal | Some s \<Rightarrow> Inr (Str (Some s), Check_discrete, c, Str_array ss)))"
| "decl_content (Add_list _ v k c va) =
     bindR (split_list v) (\<lambda>l. bindR (read_constraints k c va) (\<lambda>cs. Inr (Lst (Some l), k, c, cs)))"

definition with_content :: "option_value \<times> options_t_check \<times> int \<times> constraints \<Rightarrow> opt \<Rightarrow> opt" where
  "with_content vc x = (case vc of (v, k, c, cs) \<Rightarrow> x\<lparr>o_value := v, o_check := k, o_count := c, o_constraints := cs\<rparr>)"

definition decl_ok :: "option_decl \<Rightarrow> bool" where
  "decl_ok d \<longleftrightarrow> length (decl_name d) < OPTION_NAME_MAX \<and> is_valid_symbol (decl_name d) \<and>
     (case decl_content d of Inl _ \<Rightarrow> False
      | Inr vc \<Rightarrow> let x = with_content vc (free_slot\<lparr>o_type := decl_type d\<rparr>) in constraints_ok x \<and> value_typed x)"

lemma sound_decls_ok: "list_all decl_ok sound_options"
  by code_simp

lemma interface_decls_ok: "list_all decl_ok interface_options"
  by code_simp

lemma playing_decls_ok: "list_all decl_ok playing_options"
  by code_simp

lemma decoder_decls_ok: "list_all decl_ok decoder_options"
  by code_simp

lemmas all_decls_ok = sound_decls_ok interface_decls_ok playing_decls_ok decoder_decls_ok

text \<open>The names in lower case; no two of them are equal.\<close>

abbreviation lower_name :: "option_decl \<Rightarrow> string" where
  "lower_name d \<equiv> map tolower (decl_name d)"

lemma sound_names: "map lower_name sound_options =
    [''readtags'', ''musicdir'', ''startinmusicdir'', ''sort'', ''showstreamerrors'', ''mp3ignorecrcerrors'',
     ''repeat'', ''shuffle'', ''autonext'', ''formatstring'', ''inputbuffer'', ''outputbuffer'', ''prebuffering'',
     ''httpproxy'', ''sounddriver'', ''jackclientname'', ''jackstartserver'', ''jackoutleft'', ''jackoutright'',
     ''ossdevice'', ''ossmixerdevice'', ''ossmixerchannel1'', ''ossmixerchannel2'', ''alsadevice'',
     ''alsamixer1'', ''alsamixer2'', ''softmixer_savestate'', ''equalizer_savestate'']"
  by code_simp

lemma interface_names: "map lower_name interface_options =
    [''showhiddenfiles'', ''hidefileextension'', ''showformat'', ''showtime'', ''showtimepercent'',
     ''screenterms'', ''xterms'', ''theme'', ''xtermtheme'', ''forcetheme'', ''autoloadlyrics'', ''mocdir'',
     ''usemmap'', ''usemimemagic'', ''id3v1tagsencoding'', ''usercc'', ''userccforfilesystem'',
     ''enforcetagsencoding'', ''filenamesiconv'', ''nonutfxterm'', ''precache'', ''saveplaylist'',
     ''syncplaylist'', ''keymap'', ''asciilines'', ''fastdir1'', ''fastdir2'', ''fastdir3'', ''fastdir4'',
     ''fastdir5'', ''fastdir6'', ''fastdir7'', ''fastdir8'', ''fastdir9'', ''fastdir10'']"
  by code_simp

lemma playing_names: "map lower_name playing_options =
    [''seektime'', ''silentseektime'', ''preferreddecoders'', ''resamplemethod'', ''forcesamplerate'',
     ''allow24bitoutput'', ''userealtimepriority'', ''tagscachesize'', ''playlistnumbering'', ''layout1'',
     ''layout2'', ''layout3'', ''followplayedfile'', ''canstartinplaylist'', ''execcommand1'', ''execcommand2'',
     ''execcommand3'', ''execcommand4'', ''execcommand5'', ''execcommand6'', ''execcommand7'', ''execcommand8'',
     ''execcommand9'', ''execcommand10'', ''usecursorselection'', ''setxtermtitle'', ''setscreentitle'',
     ''playlistfullpaths'', ''blockdecorators'', ''messagelingertime'', ''prefixqueuedmessages'',
     ''errormessagesqueued'']"
  by code_simp

lemma decoder_names: "map lower_name decoder_options =
    [''modplug_oversampling'', ''modplug_noisereduction'', ''modplug_reverb'', ''modplug_megabass'',
     ''modplug_surround'', ''modplug_resamplingmode'', ''modplug_channels'', ''modplug_bits'',
     ''modplug_frequency'', ''modplug_reverbdepth'', ''modplug_reverbdelay'', ''modplug_bassamount'',
     ''modplug_bassrange'', ''modplug_surrounddepth'', ''modplug_surrounddelay'', ''modplug_loopcount'',
     ''timidity_rate'', ''timidity_bits'', ''timidity_channels'', ''timidity_volume'', ''timidity_config'',
     ''sidplay2_defaultsonglength'', ''sidplay2_minimumsonglength'', ''sidplay2_database'',
     ''sidplay2_frequency'', ''sidplay2_bits'', ''sidplay2_optimisation'', ''sidplay2_playmode'',
     ''sidplay2_startatstart'', ''sidplay2_playsubtunes'', ''onsongchange'', ''repeatsongchange'', ''onstop'',
     ''queuenextsongreturn'']"
  by code_simp

lemma all_names_distinct:
  "distinct (map lower_name (sound_options @ interface_options @ playing_options @ decoder_options))"
  unfolding map_append sound_names interface_names playing_names decoder_names by simp

section \<open>Adding them\<close>

lemma with_content_eq: "with_content (v, k, c, cs) = (\<lambda>x. x\<lparr>o_value := v, o_check := k, o_count := c, o_constraints := cs\<rparr>)"
  by (simp add: with_content_def fun_eq_iff)

lemma add_option_eq:
  assumes "decl_content d = Inr vc" and "init_option (decl_name d) (decl_type d) t = Inr (pos, t1)"
  shows "add_option d t = upd_slot pos (if \<exists>n v. d = Add_bool n v then (\<lambda>x. x\<lparr>o_value := fst vc\<rparr>) else with_content vc) t1"
proof (cases d)
  case (Add_bool n v)
  then show ?thesis using assms by (auto simp: add_option_def add_bool_def)
next
  case (Add_int n v k c va)
  then obtain cs where "vc = (Num v, k, c, cs)" "(if c > 0 then bindR (va_args as_int (nat c) va) (\<lambda>ns. Inr (Int_array ns)) else Inr No_array) = Inr cs"
    using assms(1) by (auto simp: bindR_eq_Inr)
  then show ?thesis using Add_int assms(2) by (simp add: add_option_def add_int_def with_content_eq)
next
  case (Add_str n v k c va)
  then obtain cs where "vc = (Str v, k, c, cs)" "read_constraints k c va = Inr cs" using assms(1) by (auto simp: bindR_eq_Inr)
  then show ?thesis using Add_str assms(2) by (simp add: add_option_def add_str_def with_content_eq)
next
  case (Add_symb n v c va)
  then obtain ss where ss: "c > 0" "va_args as_str (nat c) va = Inr ss" using assms(1) by (auto simp: bindR_eq_Inr)
  then obtain w where "vc = (Str (Some w), Check_discrete, c, Str_array ss)" "list_all is_valid_symbol ss" "find_symbol v ss = Some w"
    using assms(1) Add_symb by (auto split: if_splits option.splits)
  then show ?thesis using Add_symb assms(2) ss by (simp add: add_option_def add_symb_def with_content_eq)
next
  case (Add_list n v k c va)
  then obtain l cs where l: "vc = (Lst (Some l), k, c, cs)" "split_list v = Inr l" "read_constraints k c va = Inr cs"
    using assms(1) by (auto simp: bindR_eq_Inr)
  from l(2) obtain l0 where "lists_strs_new 8 = Inr l0"
      "(case v of None \<Rightarrow> Inr l0 | Some v \<Rightarrow> bindR (lists_strs_split v '':'' l0) (\<lambda>(_, l). Inr l)) = Inr l"
    by (auto simp: split_list_def bindR_eq_Inr)
  then show ?thesis using Add_list assms(2) l by (simp add: add_option_def add_list_def with_content_eq)
qed

text \<open>The option that a call has added, before any configuration.\<close>

definition as_declared :: "option_decl \<Rightarrow> opt \<Rightarrow> bool" where
  "as_declared d x \<longleftrightarrow> o_name x = decl_name d \<and> o_type x = decl_type d \<and> \<not> set_in_config x \<and> \<not> ignore_in_config x
     \<and> (case decl_content d of Inl _ \<Rightarrow> False | Inr (v, k, _, _) \<Rightarrow> o_value x = v \<and> o_check x = k)"

lemma used_slots_same:
  "i < length xs \<Longrightarrow> in_use (xs ! i) \<Longrightarrow> in_use x \<Longrightarrow> length (filter in_use (xs[i := x])) = length (filter in_use xs)"
proof (induction xs arbitrary: i)
  case (Cons a xs)
  then show ?case by (cases i) auto
qed simp

lemma add_option_ok:
  assumes t: "options_typed t" "used_slots t = options_num t" "options_num t < OPTIONS_MAX"
    and d: "decl_ok d" and new: "entry t (decl_name d) = None"
  shows "\<exists>t'. add_option d t = Inr t' \<and> options_typed t' \<and> used_slots t' = options_num t' \<and> options_num t' = Suc (options_num t)
    \<and> (\<forall>m. \<not> strcaseeq m (decl_name d) \<longrightarrow> entry t' m = entry t m)
    \<and> (\<exists>x. entry t' (decl_name d) = Some x \<and> as_declared d x)"
proof -
  have inv: "table_inv t" using t(1) by (simp add: options_typed_def)
  obtain vc where vc: "decl_content d = Inr vc" using d by (auto simp: decl_ok_def split: sum.splits)
  have ty: "decl_type d \<in> option_types" by (cases d) (auto simp: option_types_def)
  from init_option_ok [OF inv t(2,3) _ _ new ty] d obtain i t1 where i: "init_option (decl_name d) (decl_type d) t = Inr (int i, t1)" "i < OPTIONS_MAX"
      "table_inv t1" "used_slots t1 = options_num t1" "options_num t1 = Suc (options_num t)"
    and k: "o_name (slots t1 ! i) = decl_name d" "o_type (slots t1 ! i) = decl_type d" "o_hash (slots t1 ! i) = hash (decl_name d)"
      "o_check (slots t1 ! i) = Check_true" "o_constraints (slots t1 ! i) = No_array" "\<not> in_use (slots t ! i)"
      "\<not> set_in_config (slots t1 ! i)" "\<not> ignore_in_config (slots t1 ! i)"
    and other: "\<forall>j<OPTIONS_MAX. j \<noteq> i \<longrightarrow> slots t1 ! j = slots t ! j"
    by (auto simp: decl_ok_def same_key_def)
  define x where "x = (if \<exists>n v. d = Add_bool n v then (\<lambda>x. x\<lparr>o_value := fst vc\<rparr>) else with_content vc) (slots t1 ! i)"
  define t' where "t' = put i x t1"
  have key: "same_key x (slots t1 ! i)" by (auto simp: x_def same_key_def with_content_def split: prod.splits)
  have u: "in_use x" using ty k(2) key by (auto simp: in_use_def same_key_def option_types_def type_defs)
  have r: "add_option d t = Inr t'"
    using add_option_eq [OF vc i(1)] slot_ok [OF i(3,2)] set_slot_ok [OF i(3,2)] by (simp add: upd_slot_def t'_def x_def)
  define y where "y = with_content vc (free_slot\<lparr>o_type := decl_type d\<rparr>)"
  have y: "constraints_ok y" "value_typed y" using d vc by (simp_all add: decl_ok_def Let_def y_def)
  have xy: "o_type x = o_type y" "o_check x = o_check y" "o_constraints x = o_constraints y" "o_value x = o_value y"
    "o_check y \<noteq> Check_true \<Longrightarrow> o_count x = o_count y"
    using k vc by (auto simp: x_def y_def with_content_def free_slot_def split: prod.splits)
  have f: "fits x = fits y" by (rule ext) (simp only: fits_def xy)
  have "value_typed x" using y(2) unfolding value_typed_def xy f .
  moreover have "constraints_ok x"
  proof (cases "o_check y = Check_true")
    case True
    then show ?thesis by (simp add: constraints_ok_def xy)
  next
    case False
    show ?thesis using y(1) unfolding constraints_ok_def xy(1,2,3) xy(5) [OF False] .
  qed
  moreover have "o_value x = fst vc" unfolding xy(4) by (simp add: y_def with_content_def split: prod.splits)
  ultimately have x: "opt_typed x" "o_value x = fst vc" by (simp_all add: opt_typed_def)
  have "table_inv t'" unfolding t'_def by (rule put_inv [OF i(3,2) key])
  moreover have "opt_typed (slots t' ! j)" if "j < OPTIONS_MAX" for j
    using that other t(1) x(1) put_nth [OF i(3,2) that, of x] inv nth_mem [of j "slots t"]
    by (cases "j = i") (auto simp: t'_def options_typed_def table_inv_def)
  ultimately have ty': "options_typed t'" by (auto simp: options_typed_def in_set_conv_nth table_inv_def)
  have e: "entry t1 m = entry t m" if "\<not> strcaseeq m (decl_name d)" for m
  proof -
    have "entry t1 m = Some z \<longleftrightarrow> entry t m = Some z" for z
    proof -
      have "slots t1 ! j = z \<and> in_use z \<and> strcaseeq m (o_name z) \<longleftrightarrow> slots t ! j = z \<and> in_use z \<and> strcaseeq m (o_name z)" if "j < OPTIONS_MAX" for j
        using that other k(1,6) \<open>\<not> strcaseeq m (decl_name d)\<close> by (cases "j = i") auto
      then show ?thesis using entry_Some [OF i(3), of m z] entry_Some [OF inv, of m z] by blast
    qed
    then show ?thesis by (metis option.exhaust)
  qed
  have en: "entry t' m = (if strcaseeq m (o_name x) then Some x else entry t1 m)" for m
    unfolding t'_def by (rule put_entry [OF i(3,2) key u])
  have nx: "o_name x = decl_name d" using key k(1) by (simp add: same_key_def)
  have us: "used_slots t' = used_slots t1"
  proof -
    have "in_use (slots t1 ! i)" using u key by (simp add: in_use_def same_key_def)
    then show ?thesis using used_slots_same [of i "slots t1" x] u i(2,3) by (simp add: used_slots_def t'_def put_def table_inv_def)
  qed
  have "options_num t' = options_num t1" by (simp add: t'_def put_def)
  moreover have "o_type x = decl_type d" using key k(2) by (simp add: same_key_def)
  then have "as_declared d x" using nx vc k(7,8) xy(2) x(2) by (auto simp: as_declared_def x_def y_def with_content_def split: prod.splits if_splits)
  ultimately show ?thesis using r ty' us i(4,5) en e nx by auto
qed

definition builtin_options :: "option_decl list" where
  "builtin_options = sound_options @ interface_options @ playing_options @ decoder_options"

lemma add_options_ok:
  assumes "options_typed t" "used_slots t = options_num t" "options_num t + length ds \<le> OPTIONS_MAX"
    and "list_all decl_ok ds" "distinct (map (\<lambda>d. map tolower (decl_name d)) ds)" "\<forall>d\<in>set ds. entry t (decl_name d) = None"
  shows "\<exists>t'. foldR add_option ds t = Inr t' \<and> options_typed t' \<and> options_num t' = options_num t + length ds
    \<and> (\<forall>m. (\<forall>d\<in>set ds. \<not> strcaseeq m (decl_name d)) \<longrightarrow> entry t' m = entry t m)
    \<and> (\<forall>d\<in>set ds. \<exists>x. entry t' (decl_name d) = Some x \<and> as_declared d x)"
  using assms
proof (induction ds arbitrary: t)
  case (Cons d ds)
  from add_option_ok [of t d] Cons.prems obtain t1 where t1: "add_option d t = Inr t1" "options_typed t1" "used_slots t1 = options_num t1"
      "options_num t1 = Suc (options_num t)" "\<forall>m. \<not> strcaseeq m (decl_name d) \<longrightarrow> entry t1 m = entry t m"
      "\<exists>x. entry t1 (decl_name d) = Some x \<and> as_declared d x"
    by auto
  have ne: "\<not> strcaseeq (decl_name e) (decl_name d)" if "e \<in> set ds" for e
    using Cons.prems(5) imageI [OF that, of "\<lambda>d. map tolower (decl_name d)"] by (auto simp: strcaseeq_def)
  then have "\<forall>e\<in>set ds. entry t1 (decl_name e) = None" using t1(5) Cons.prems(6) by simp
  with Cons.IH [of t1] t1 Cons.prems obtain t' where t': "foldR add_option ds t1 = Inr t'" "options_typed t'" "options_num t' = options_num t1 + length ds"
      "\<forall>m. (\<forall>d\<in>set ds. \<not> strcaseeq m (decl_name d)) \<longrightarrow> entry t' m = entry t1 m"
      "\<forall>d\<in>set ds. \<exists>x. entry t' (decl_name d) = Some x \<and> as_declared d x"
    by auto
  have "entry t' (decl_name d) = entry t1 (decl_name d)" using t'(4) ne strcaseeq_sym by blast
  then show ?case using t1 t' by auto
qed simp

lemma options_init_ok:
  assumes "options_num t0 = 0"
  shows "\<exists>t. options_init t0 = Inr t \<and> options_typed t \<and> options_num t = length builtin_options
    \<and> (\<forall>d\<in>set builtin_options. \<exists>x. entry t (decl_name d) = Some x \<and> as_declared d x)"
proof -
  let ?t = "t0\<lparr>slots := replicate OPTIONS_MAX free_slot\<rparr>"
  have f: "\<not> in_use free_slot" by (simp add: in_use_def free_slot_def)
  then have "options_typed ?t" by (auto simp: options_typed_def table_inv_def opt_typed_def)
  moreover have "used_slots ?t = options_num ?t" using f assms by (simp add: used_slots_def)
  moreover have "entry ?t m = None" for m using f by (auto simp: entry_def find_None_iff)
  moreover have "length builtin_options \<le> OPTIONS_MAX" by code_simp
  ultimately show ?thesis
    using add_options_ok [of ?t builtin_options] all_decls_ok all_names_distinct assms
    by (auto simp: options_init_def builtin_options_def)
qed

end
