(* ===== verification/Options_Parse.thy ===== *)
theory Options_Parse
  imports Options_Init
begin

text \<open>
  The configuration file of the player, \<^verbatim>\<open>src/src/moc-2.5.0/options.c\<close>: the substitution of
  variables, the rewriting of values from older versions, and the parser, which reads the file
  character by character. The buffers for a name and a value have a fixed size; a name or a value
  is terminated in its buffer.
\<close>

section \<open>Variables\<close>

text \<open>
  What is outside: the environment, and what newly allocated memory holds.
\<close>

record conf_env =
  env_var :: "string \<Rightarrow> string option"
  fresh_mem :: "nat \<Rightarrow> char"

definition option_text :: "string \<Rightarrow> options \<Rightarrow> string option result" where
  "option_text name t =
     bindR (options_get_type name t) (\<lambda>type.
       if type = OPTION_INT then bindR (options_get_int name t) (\<lambda>n. Inr (Some (take 15 (show_int n))))
       else if type = OPTION_BOOL then bindR (options_get_bool name t) (\<lambda>b. Inr (Some (if b then ''yes'' else ''no'')))
       else if type = OPTION_STR then options_get_str name t
       else if type = OPTION_SYMB then options_get_symb name t
       else if type = OPTION_LIST then
         bindR (options_get_list name t) (\<lambda>l.
         bindR (the_list l) (\<lambda>l.
           if lists_strs_empty l then Inr None
           else bindR (lists_strs_fmt [] '':'' l) (\<lambda>v. Inr (map_option butlast v))))
       else Inr None)"

definition variable_value :: "conf_env \<Rightarrow> string \<Rightarrow> options \<Rightarrow> string option result" where
  "variable_value E name t =
     (case env_var E name of
        Some v \<Rightarrow> Inr (Some v)
      | None \<Rightarrow> if find_option name OPTION_ANY t \<noteq> -1 then option_text name t else Inr None)"

definition accept :: string where
  "accept = ''abcdefghijklmnopqrstuvwxyz'' @ ''ABCDEFGHIJKLMNOPQRSTUVWXYZ'' @ ''0123456789_''"

text \<open>The part behind a dollar sign and a brace: the name, the default, and what follows.\<close>

definition variable :: "string \<Rightarrow> (string \<times> string option \<times> string) result" where
  "variable s =
     (let len = strspn s accept; name = take len s; rest = drop len s in
      if len = 0 then fatal
      else if chr_at rest 0 = CHR ''}'' then Inr (name, None, drop 1 rest)
      else if take 2 rest = '':-'' then
        (case strchr (drop 2 rest) (CHR ''}'') of
           None \<Rightarrow> fatal
         | Some e \<Rightarrow> Inr (name, Some (take e (drop 2 rest)), drop (e + 3) rest))
      else fatal)"

lemma variable_rest: "variable s = Inr (name, dflt, rest) \<Longrightarrow> length rest \<le> length s"
  by (auto simp: variable_def Let_def split: if_splits option.splits)

text \<open>
  The loop looks for the next variable in the text \<open>p\<close> from the position \<open>k\<close> on.
\<close>

function subst_loop :: "conf_env \<Rightarrow> options \<Rightarrow> lists_t_strs \<Rightarrow> string \<Rightarrow> nat \<Rightarrow> (lists_t_strs \<times> string) result" where
  "subst_loop E t strs p k =
     (case strstr (drop k p) ''${'' of
        None \<Rightarrow> Inr (strs, p)
      | Some i \<Rightarrow>
          let dollar = k + i in
          if dollar > 0 \<and> p ! (dollar - 1) = CHR ''$'' then
            bindR (lists_strs_append (take (dollar - 1) p) strs) (\<lambda>strs. subst_loop E t strs (drop dollar p) 2)
          else
            bindR (lists_strs_append (take dollar p) strs) (\<lambda>strs.
            bindR (variable (drop (dollar + 2) p)) (\<lambda>(name, dflt, rest).
            bindR (variable_value E name t) (\<lambda>v.
            bindR (case v of
                     Some (c # cs) \<Rightarrow> Inr (c # cs)
                   | _ \<Rightarrow> (case dflt of Some d \<Rightarrow> Inr d | None \<Rightarrow> fatal)) (\<lambda>v.
            bindR (lists_strs_append v strs) (\<lambda>strs. subst_loop E t strs rest 0))))))"
  by pat_completeness auto
termination
  by (relation "measure (\<lambda>(E, t, strs, p, k). length p)") (auto dest!: strstr_bound variable_rest)

declare subst_loop.simps [simp del]

definition substitute_variable :: "conf_env \<Rightarrow> string \<Rightarrow> options \<Rightarrow> string result" where
  "substitute_variable E value_in t =
     bindR (lists_strs_new 5) (\<lambda>strs.
     bindR (subst_loop E t strs value_in 0) (\<lambda>(strs, p).
       if lists_strs_empty strs then Inr value_in
       else bindR (lists_strs_append p strs) (\<lambda>strs.
            bindR (lists_strs_cat strs) (\<lambda>r. case r of None \<Rightarrow> Inl Undefined | Some s \<Rightarrow> Inr s))))"

section \<open>Values of older versions\<close>

text \<open>
  The test for a blank looks at the memory that is about to be written. The final NUL is copied
  like any other character; if it is not, the result has no end.
\<close>

fun sounddriver_loop :: "(nat \<Rightarrow> char) \<Rightarrow> string \<Rightarrow> string \<Rightarrow> string result" where
  "sounddriver_loop mem [] out = (if mem (length out) \<noteq> SP then Inr out else Inl Undefined)"
| "sounddriver_loop mem (c # cs) out =
     sounddriver_loop mem cs (if c = CHR '','' then out @ '':'' else if mem (length out) \<noteq> SP then out @ [c] else out)"

definition rewrite_sounddriver_as_list :: "conf_env \<Rightarrow> string \<Rightarrow> string result" where
  "rewrite_sounddriver_as_list E str = sounddriver_loop (fresh_mem E) str []"

definition rewrite_layout_as_list :: "string \<Rightarrow> string result" where
  "rewrite_layout_as_list str =
     bindR (lists_strs_new 4) (\<lambda>l.
     bindR (lists_strs_split str [SP] l) (\<lambda>(n, l).
     bindR (foldR (\<lambda>ix l.
              bindR (lists_strs_at l ix) (\<lambda>s.
                case strchr s (CHR '':'') of None \<Rightarrow> fatal | Some i \<Rightarrow> lists_strs_replace ix (s[i := CHR ''('']) l))
              [0..n - 1] l) (\<lambda>l.
     bindR (lists_strs_fmt [] ''):'' l) (\<lambda>r. case r of None \<Rightarrow> Inl Undefined | Some s \<Rightarrow> Inr (butlast s)))))"

section \<open>Setting an option of the file\<close>

definition is_deprecated_option :: "string \<Rightarrow> bool" where
  "is_deprecated_option name = (name = ''TagsIconv'')"

definition current_name :: "string \<Rightarrow> string" where
  "current_name name =
     (let name_s = (if strcaseeq name ''OSSMixerChannel'' then ''OSSMixerChannel1'' else name)
      in if strcaseeq name ''ALSAMixer'' then ''ALSAMixer1'' else name_s)"

definition yes_no :: "string \<Rightarrow> string \<Rightarrow> string \<Rightarrow> string option \<Rightarrow> string option" where
  "yes_no opt_name name value_s value =
     (if strcaseeq opt_name name then
        if value_s = ''0'' then Some ''no'' else if value_s = ''1'' then Some ''yes'' else value
      else value)"

definition rewrite_value :: "conf_env \<Rightarrow> string \<Rightarrow> string \<Rightarrow> string result" where
  "rewrite_value E name value_s =
     (let v = None;
          v = yes_no name ''SidPlay2_StartAtStart'' value_s v;
          v = yes_no name ''SidPlay2_PlaySubTunes'' value_s v;
          v = yes_no name ''QueueNextSongReturn'' value_s v
      in bindR (if strcaseeq name ''SoundDriver'' \<and> strchr value_s (CHR '','') \<noteq> None
                then bindR (rewrite_sounddriver_as_list E value_s) (\<lambda>s. Inr (Some s)) else Inr v) (\<lambda>v.
         bindR (if strncaseeq name ''Layout'' 6 \<and> value_s \<noteq> [] \<and> strchr value_s (CHR ''('') = None
                then bindR (rewrite_layout_as_list value_s) (\<lambda>s. Inr (Some s)) else Inr v) (\<lambda>v.
           Inr (case v of None \<Rightarrow> value_s | Some s \<Rightarrow> s))))"

definition set_option :: "conf_env \<Rightarrow> string \<Rightarrow> string \<Rightarrow> bool \<Rightarrow> options \<Rightarrow> (bool \<times> options) result" where
  "set_option E name value_in app t =
     (if is_deprecated_option name then Inr (True, t)
      else
        let name_s = current_name name; i = find_option name_s OPTION_ANY t in
        if i = -1 then Inr (False, t)
        else bindR (slot t i) (\<lambda>x.
          if ignore_in_config x then Inr (True, t)
          else if app \<and> o_type x \<noteq> OPTION_LIST then Inr (False, t)
          else if \<not> app \<and> set_in_config x then Inr (False, t)
          else bindR (set_slot i (x\<lparr>set_in_config := True\<rparr>) t) (\<lambda>t.
            bindR (substitute_variable E value_in t) (\<lambda>value_s.
            bindR (rewrite_value E (o_name x) value_s) (\<lambda>value.
              options_set_pair name_s value app t)))))"

definition sanity_check :: "options \<Rightarrow> unit result" where
  "sanity_check t =
     bindR (options_get_int ''Prebuffering'' t) (\<lambda>p.
     bindR (options_get_int ''InputBuffer'' t) (\<lambda>b. if p > b then fatal else Inr ()))"

section \<open>The parser\<close>

definition OPT_NAME_SIZE :: nat where "OPT_NAME_SIZE = 30"
definition OPT_VALUE_SIZE :: nat where "OPT_VALUE_SIZE = 512"

record parser =
  comm :: bool
  eq :: bool
  quote :: bool
  esc :: bool
  plus :: bool
  append_to :: bool
  sp :: bool
  opt_name :: string
  opt_value :: string
  line :: int

definition parser_start :: parser where
  "parser_start = \<lparr>comm = False, eq = False, quote = False, esc = False, plus = False, append_to = False, sp = False,
     opt_name = [], opt_value = [], line = 1\<rparr>"

definition end_of_line :: "conf_env \<Rightarrow> parser \<Rightarrow> options \<Rightarrow> (parser \<times> options) result" where
  "end_of_line E p t =
     bindR (guardR (length (opt_name p) < OPT_NAME_SIZE \<and> length (opt_value p) < OPT_VALUE_SIZE) Undefined) (\<lambda>_.
     bindR (if opt_name p \<noteq> [] then
              if opt_value p = [] \<and> \<not> strncaseeq (c_str (opt_name p)) ''Layout'' 6 then fatal
              else bindR (set_option E (c_str (opt_name p)) (c_str (opt_value p)) (append_to p) t) (\<lambda>(ok, t).
                if \<not> ok then fatal else Inr t)
            else Inr t) (\<lambda>t.
       Inr (p\<lparr>comm := False, opt_name := [], opt_value := [], eq := False, quote := False, esc := False,
              append_to := False, sp := False, line := line p + 1\<rparr>, t)))"

text \<open>A character is added while there is room for it in the buffer.\<close>

definition add_value :: "char \<Rightarrow> parser \<Rightarrow> parser result" where
  "add_value c p = (if length (opt_value p) = OPT_VALUE_SIZE then fatal else Inr (p\<lparr>opt_value := opt_value p @ [c]\<rparr>))"

definition add_name :: "char \<Rightarrow> parser \<Rightarrow> parser result" where
  "add_name c p = (if length (opt_name p) = OPT_NAME_SIZE then fatal else Inr (p\<lparr>opt_name := opt_name p @ [c]\<rparr>))"

text \<open>A character inside of a line, the last part of the chain of conditions.\<close>

definition parse_plain :: "char \<Rightarrow> parser \<Rightarrow> parser result" where
  "parse_plain ch p =
     (if ch = CHR ''#'' \<and> \<not> quote p then Inr (p\<lparr>comm := True\<rparr>)
      else if \<not> quote p \<and> \<not> esc p \<and> ch = dquote then Inr (p\<lparr>quote := True\<rparr>)
      else if \<not> esc p \<and> quote p \<and> ch = dquote then Inr (p\<lparr>quote := False\<rparr>)
      else if \<not> esc p \<and> \<not> eq p \<and> ch = CHR ''+'' then Inr (p\<lparr>plus := True\<rparr>)
      else if ch = CHR ''='' \<and> \<not> quote p then
        if eq p then fatal
        else if opt_name p = [] then fatal
        else Inr (p\<lparr>append_to := plus p, plus := False, eq := True\<rparr>)
      else if ch = backslash \<and> \<not> esc p then Inr (p\<lparr>esc := True\<rparr>)
      else if \<not> eq p \<and> opt_name p \<noteq> [] \<and> isblank ch then Inr (p\<lparr>sp := True\<rparr>)
      else if \<not> eq p \<and> sp p \<and> \<not> isblank ch then fatal
      else if (\<not> isblank ch \<or> quote p) \<and> eq p then
        bindR (if esc p \<and> ch \<noteq> dquote then add_value backslash p else Inr p) (\<lambda>p.
        bindR (add_value ch p) (\<lambda>p. Inr (p\<lparr>esc := False\<rparr>)))
      else if \<not> isblank ch \<or> quote p then bindR (add_name ch p) (\<lambda>p. Inr (p\<lparr>esc := False\<rparr>))
      else Inr p)"

definition parse_char :: "conf_env \<Rightarrow> char \<Rightarrow> parser \<times> options \<Rightarrow> (parser \<times> options) result" where
  "parse_char E ch pt =
     (let (p, t) = pt in
      if comm p \<and> ch \<noteq> LF then Inr (p, t)
      else if ch \<noteq> CHR ''='' \<and> plus p then fatal
      else if ch = LF then end_of_line E p t
      else bindR (parse_plain ch p) (\<lambda>p. Inr (p, t)))"

text \<open>\<open>secure\<close> is the answer of \<^verbatim>\<open>is_secure\<close>; \<open>None\<close> is a file that cannot be opened.\<close>

definition options_parse :: "conf_env \<Rightarrow> bool \<Rightarrow> string option \<Rightarrow> options \<Rightarrow> options result" where
  "options_parse E secure conf t =
     (if \<not> secure then fatal
      else case conf of
        None \<Rightarrow> Inr t
      | Some s \<Rightarrow>
          bindR (foldR (parse_char E) s (parser_start, t)) (\<lambda>(p, t).
            if opt_name p \<noteq> [] \<or> opt_value p \<noteq> [] then fatal
            else bindR (sanity_check t) (\<lambda>_. Inr t)))"

section \<open>Releasing the options\<close>

text \<open>Releasing the constraints as strings is undefined where they are numbers.\<close>

definition free_strings :: "opt \<Rightarrow> unit result" where
  "free_strings x = foldR (\<lambda>ix u. bindR (str_at (o_constraints x) ix) (\<lambda>_. Inr ())) [0..o_count x - 1] ()"

definition free_option :: "opt \<Rightarrow> opt result" where
  "free_option x =
     bindR (if o_type x = OPTION_STR then bindR (value_str x) (\<lambda>s. Inr (x\<lparr>o_value := Str None\<rparr>))
            else if o_type x = OPTION_LIST then bindR (free_strings x) (\<lambda>_. Inr (x\<lparr>o_value := Lst None\<rparr>))
            else if o_type x = OPTION_SYMB then Inr (x\<lparr>o_value := Str None\<rparr>)
            else Inr x) (\<lambda>x.
     bindR (if o_type x AND (OPTION_STR OR OPTION_SYMB) \<noteq> 0 \<and> o_check x \<noteq> Check_length then free_strings x else Inr ()) (\<lambda>_.
       Inr (x\<lparr>o_check := Check_true, o_count := 0, o_constraints := No_array\<rparr>)))"

text \<open>The loop runs over as many slots as there are options, although the options are spread over the table.\<close>

definition options_free :: "options \<Rightarrow> options result" where
  "options_free t =
     foldR (\<lambda>i t. bindR (slot t (int i)) (\<lambda>x. bindR (free_option x) (\<lambda>x. set_slot (int i) x t))) [0..<options_num t] t"

end
