(* ===== verification/Options_Spec.thy ===== *)
theory Options_Spec
  imports Options_Builtin Options_Parse
begin

text \<open>
  The configuration of the player as a whole: the built-in options are well typed, and reading a
  configuration file keeps them so. What a line of the file sets is what is read back.
\<close>

section \<open>Setting an option\<close>

lemma type_of_entry:
  "table_inv t \<Longrightarrow> entry t name = Some x \<Longrightarrow>
    o_type x = OPTION_INT \<or> o_type x = OPTION_BOOL \<or> o_type x = OPTION_STR \<or> o_type x = OPTION_SYMB \<or> o_type x = OPTION_LIST"
  using entry_type [of t name x] by (simp add: option_types_def)

text \<open>Storing a value in the option of a name.\<close>

lemma store_ok:
  assumes t: "options_typed t" and e: "entry t name = Some x" and ty: "type AND o_type x \<noteq> 0" and v: "value_typed (x\<lparr>o_value := v\<rparr>)"
  shows "\<exists>i t'. known name type t = Inr (int i, x) \<and> set_slot (int i) (x\<lparr>o_value := v\<rparr>) t = Inr t' \<and> options_typed t' \<and> same_decls t t'
    \<and> entry t' name = Some (x\<lparr>o_value := v\<rparr>) \<and> (\<forall>m. \<not> strcaseeq m name \<longrightarrow> entry t' m = entry t m)"
proof -
  have inv: "table_inv t" using t by (simp add: options_typed_def)
  obtain i where i: "i < OPTIONS_MAX" "known name type t = Inr (int i, x)" "slots t ! i = x" using known_ok [OF inv e ty] by blast
  let ?x = "x\<lparr>o_value := v\<rparr>"
  have d: "same_decl ?x (slots t ! i)" using i(3) by (simp add: same_decl_def same_key_def)
  have u: "in_use ?x" "strcaseeq name (o_name ?x)" using entry_in_use [OF inv e] by (auto simp: in_use_def)
  have en: "entry (put i ?x t) m = (if strcaseeq m (o_name ?x) then Some ?x else entry t m)" for m
    using put_entry [OF inv i(1) _ u(1)] d by (simp add: same_decl_def)
  have "strcaseeq m (o_name ?x) \<longleftrightarrow> strcaseeq m name" for m using u(2) strcaseeq_trans strcaseeq_sym by blast
  then show ?thesis using i set_slot_ok [OF inv i(1)] put_typed [OF t i(1) d] v en by auto
qed

definition sets_to :: "options \<Rightarrow> string \<Rightarrow> opt \<Rightarrow> option_value \<Rightarrow> options \<Rightarrow> bool" where
  "sets_to t name x v t' \<longleftrightarrow> options_typed t' \<and> same_decls t t' \<and> entry t' name = Some (x\<lparr>o_value := v\<rparr>)
     \<and> (\<forall>m. \<not> strcaseeq m name \<longrightarrow> entry t' m = entry t m)"

lemma set_int_ok:
  assumes t: "options_typed t" and e: "entry t name = Some x" and ty: "o_type x = OPTION_INT" and f: "fits x (Int_arg n)"
  shows "\<exists>t'. options_set_int name n t = Inr t' \<and> sets_to t name x (Num n) t'"
proof -
  have "value_typed (x\<lparr>o_value := Num n\<rparr>)" using ty f by (simp add: value_typed_def)
  from store_ok [OF t e _ this, of "OPTION_INT OR OPTION_BOOL"] ty show ?thesis
    by (auto simp: options_set_int_def sets_to_def type_defs)
qed

lemma set_bool_ok:
  assumes t: "options_typed t" and e: "entry t name = Some x" and ty: "o_type x = OPTION_BOOL"
  shows "\<exists>t'. options_set_bool name b t = Inr t' \<and> sets_to t name x (Boolean b) t'"
    and "\<exists>t'. options_set_int name n t = Inr t' \<and> sets_to t name x (Boolean (n \<noteq> 0)) t'"
proof -
  have v: "value_typed (x\<lparr>o_value := Boolean c\<rparr>)" for c using ty by (simp add: value_typed_def)
  from store_ok [OF t e _ v, of OPTION_BOOL] ty show "\<exists>t'. options_set_bool name b t = Inr t' \<and> sets_to t name x (Boolean b) t'"
    by (fastforce simp: options_set_bool_def sets_to_def type_defs)
  from store_ok [OF t e _ v, of "OPTION_INT OR OPTION_BOOL"] ty show "\<exists>t'. options_set_int name n t = Inr t' \<and> sets_to t name x (Boolean (n \<noteq> 0)) t'"
    by (fastforce simp: options_set_int_def sets_to_def type_defs)
qed

lemma set_str_ok:
  assumes t: "options_typed t" and e: "entry t name = Some x" and ty: "o_type x = OPTION_STR" and f: "fits x (Str_arg s)"
  shows "\<exists>t'. options_set_str name s t = Inr t' \<and> sets_to t name x (Str (Some s)) t'"
proof -
  have "value_typed (x\<lparr>o_value := Str (Some s)\<rparr>)" using ty f by (simp add: value_typed_def)
  from store_ok [OF t e _ this, of "OPTION_STR OR OPTION_SYMB"] ty show ?thesis
    by (auto simp: options_set_str_def sets_to_def type_defs)
qed

lemma find_symbol_loop:
  "foldR (\<lambda>ix r. bindR (str_at (Str_array ss) ix) (\<lambda>s. Inr (if strcaseeq value s then Some s else r))) [0..int (length ss) - 1] None
    = (Inr (find_symbol value ss) :: string option result)"
proof -
  have "k \<le> length ss \<Longrightarrow> foldR (\<lambda>ix r. bindR (str_at (Str_array ss) ix) (\<lambda>s. Inr (if strcaseeq value s then Some s else r))) [0..int k - 1] None
      = (Inr (find_symbol value (take k ss)) :: string option result)" for k
  proof (induction k)
    case 0
    then show ?case by (simp add: find_symbol_def)
  next
    case (Suc k)
    have "[0..int (Suc k) - 1] = [0..int k - 1] @ [int k]" by (simp add: upto_rec2)
    then show ?case using Suc by (simp add: foldR_append str_at_array find_symbol_def take_Suc_conv_app_nth)
  qed
  from this [of "length ss"] show ?thesis by simp
qed

lemma find_symbol_in: "find_symbol value ss = Some s \<Longrightarrow> s \<in> set ss \<and> strcaseeq value s"
  by (induction ss rule: rev_induct) (auto simp: find_symbol_def split: if_splits)

lemma find_symbol_exists: "c \<in> set ss \<Longrightarrow> strcaseeq value c \<Longrightarrow> find_symbol value ss \<noteq> None"
  by (induction ss rule: rev_induct) (auto simp: find_symbol_def split: if_splits)

lemma set_symb_ok:
  assumes t: "options_typed t" and e: "entry t name = Some x" and ty: "o_type x = OPTION_SYMB" and f: "fits x (Str_arg s)"
  shows "\<exists>c t'. options_set_symb name s t = Inr t' \<and> strcaseeq s c \<and> sets_to t name x (Str (Some c)) t'"
proof -
  from entry_typed [OF t e] ty obtain ss where ss: "o_constraints x = Str_array ss" "o_check x = Check_discrete"
    by (auto simp: value_typed_def type_defs split: option_value.splits option.splits constraints.splits)
  then have n: "o_count x = int (length ss)" using entry_typed [OF t e] by (simp add: constraints_ok_def Let_def)
  from f ss obtain c0 where "c0 \<in> set ss" "strcaseeq s c0" by (auto simp: fits_def)
  from find_symbol_exists [OF this] obtain c where c: "find_symbol s ss = Some c" by blast
  have "value_typed (x\<lparr>o_value := Str (Some c)\<rparr>)" using ty ss find_symbol_in [OF c] by (simp add: value_typed_def)
  from store_ok [OF t e _ this, of OPTION_SYMB] ty obtain i t' where i: "known name OPTION_SYMB t = Inr (int i, x)"
    "set_slot (int i) (x\<lparr>o_value := Str (Some c)\<rparr>) t = Inr t'" "sets_to t name x (Str (Some c)) t'"
    by (auto simp: sets_to_def type_defs)
  then have "options_set_symb name s t = Inr t'"
    using ss(1) n c find_symbol_loop [of ss s] by (simp add: options_set_symb_def)
  then show ?thesis using i(3) find_symbol_in [OF c] by blast
qed

lemma set_list_ok:
  assumes t: "options_typed t" and e: "entry t name = Some x" and ty: "o_type x = OPTION_LIST"
    and f: "\<forall>u\<in>set (tokens '':'' s). fits x (Str_arg u)"
  shows "\<exists>l l' t'. o_value x = Lst (Some l) \<and> options_set_list name s app t = Inr t' \<and> sets_to t name x (Lst (Some l')) t'
    \<and> strings l' = (if app then strings l else []) @ tokens '':'' s"
proof -
  from entry_typed [OF t e] ty obtain l where l: "o_value x = Lst (Some l)" "list_inv l" "\<forall>u\<in>set (strings l). fits x (Str_arg u)"
    by (auto simp: value_typed_def type_defs split: option_value.splits option.splits)
  define l1 where "l1 = (if \<not> app \<and> \<not> lists_strs_empty l then lists_strs_clear l else l)"
  have "list_inv l1 \<and> strings l1 = (if app then strings l else [])"
    using l(2) length_strings [OF l(2)] by (auto simp: l1_def lists_strs_clear_def lists_strs_empty_def list_inv_def strings_def)
  then obtain l' where l': "lists_strs_split s '':'' l1 = Inr (int (length (tokens '':'' s)), l')" "list_inv l'"
    "strings l' = (if app then strings l else []) @ tokens '':'' s" using split_ok [of l1 s "'':''"] by auto
  have "value_typed (x\<lparr>o_value := Lst (Some l')\<rparr>)" using ty l' l(3) f by (auto simp: value_typed_def)
  from store_ok [OF t e _ this, of OPTION_LIST] ty obtain i t' where i: "known name OPTION_LIST t = Inr (int i, x)"
    "set_slot (int i) (x\<lparr>o_value := Lst (Some l')\<rparr>) t = Inr t'" "sets_to t name x (Lst (Some l')) t'"
    by (auto simp: sets_to_def type_defs)
  then have "options_set_list name s app t = Inr t'"
    using l(1) l'(1) by (simp add: options_set_list_def value_list_def the_list_def l1_def [symmetric] Let_def)
  then show ?thesis using l(1) l'(3) i(3) by blast
qed

lemma check_all_ok:
  "constraints_ok x \<Longrightarrow> o_type x = OPTION_LIST \<Longrightarrow> check_all x ss = Inr (\<forall>s\<in>set ss. fits x (Str_arg s))"
  by (induction ss) (simp_all add: run_check_ok)

lemma options_check_list_ok:
  assumes "options_typed t" "entry t name = Some x" "o_type x = OPTION_LIST"
  shows "options_check_list name s t = Inr (\<forall>u\<in>set (tokens '':'' s). fits x (Str_arg u))"
proof -
  obtain l where l: "lists_strs_new 8 = Inr l" "list_inv l" "strings l = []" using new_ok [of 8] by auto
  then obtain l' where l': "lists_strs_split s '':'' l = Inr (int (length (tokens '':'' s)), l')" "list_inv l'" "strings l' = tokens '':'' s"
    using split_ok [OF l(2), of s "'':''"] by auto
  have "checked name OPTION_LIST f t = f x" for f
    using checked_ok assms by (simp add: options_typed_def type_defs)
  then show ?thesis
    using l(1) l' all_strings_ok [OF l'(2)] check_all_ok entry_typed [OF assms(1,2)] assms(3) by (simp add: options_check_list_def)
qed

text \<open>
  Setting a pair of a name and a value: it never fails, the table stays well typed, and options
  of other names keep their values.
\<close>

lemma set_pair_typed:
  assumes t: "options_typed t"
  shows "\<exists>ok t'. options_set_pair name s app t = Inr (ok, t') \<and> options_typed t' \<and> same_decls t t'
    \<and> (\<forall>m. \<not> strcaseeq m name \<longrightarrow> entry t' m = entry t m)"
proof (cases "entry t name")
  case None
  then have "options_set_pair name s app t = Inr (False, t)"
    using options_get_type_ok [of t name] t by (simp add: options_set_pair_def options_typed_def type_defs)
  then show ?thesis using t by (auto intro: exI [of _ False])
next
  case (Some x)
  have inv: "table_inv t" using t by (simp add: options_typed_def)
  note ty = options_get_type_ok [OF inv, of name, unfolded Some, simplified]
  have c: "constraints_ok x" using entry_typed [OF t Some] by blast
  have chk: "checked name type f t = f x" if "type AND o_type x \<noteq> 0" for type f using checked_ok [OF inv Some that] .
  from type_of_entry [OF inv Some] show ?thesis
  proof (elim disjE)
    assume i: "o_type x = OPTION_INT"
    define num where "num = wrapS 32 (fst (strtol s))"
    have k: "options_check_int name num t = Inr (fits x (Int_arg num))"
      using chk [of OPTION_INT] run_check_ok [OF c] i by (simp add: options_check_int_def type_defs)
    show ?thesis
    proof (cases "snd (strtol s) = [] \<and> fits x (Int_arg num)")
      case True
      then show ?thesis using set_int_ok [OF t Some i, of num] ty k i
        by (auto simp: options_set_pair_def sets_to_def type_defs num_def split_beta Let_def)
    next
      case False
      then have "options_set_pair name s app t = Inr (False, t)"
        using ty k i by (auto simp: options_set_pair_def type_defs num_def split_beta Let_def)
      then show ?thesis using t by (auto intro: exI [of _ False])
    qed
  next
    assume i: "o_type x = OPTION_BOOL"
    show ?thesis
    proof (cases "strcaseeq s ''yes'' \<or> strcaseeq s ''no''")
      case True
      then show ?thesis using set_bool_ok(1) [OF t Some i, of True] set_bool_ok(1) [OF t Some i, of False] ty i
        by (auto simp: options_set_pair_def sets_to_def type_defs)
    next
      case False
      then have "options_set_pair name s app t = Inr (False, t)" using ty i by (simp add: options_set_pair_def type_defs)
      then show ?thesis using t by (auto intro: exI [of _ False])
    qed
  next
    assume i: "o_type x = OPTION_STR"
    have k: "options_check_str name s t = Inr (fits x (Str_arg s))"
      using chk [of "OPTION_STR OR OPTION_SYMB"] run_check_ok [OF c] i by (simp add: options_check_str_def type_defs)
    show ?thesis
    proof (cases "fits x (Str_arg s)")
      case True
      then show ?thesis using set_str_ok [OF t Some i True] ty k i by (auto simp: options_set_pair_def sets_to_def type_defs)
    next
      case False
      then have "options_set_pair name s app t = Inr (False, t)" using ty k i by (simp add: options_set_pair_def type_defs)
      then show ?thesis using t by (auto intro: exI [of _ False])
    qed
  next
    assume i: "o_type x = OPTION_SYMB"
    have "o_check x = Check_discrete"
      using entry_typed [OF t Some] i by (auto simp: value_typed_def type_defs split: option_value.splits option.splits)
    then have k: "options_check_symb name s t = Inr (fits x (Str_arg s))"
      using chk [of OPTION_SYMB] run_check_ok [OF c, of "Str_arg s"] i by (simp add: options_check_symb_def type_defs run_check_def)
    show ?thesis
    proof (cases "fits x (Str_arg s)")
      case True
      then show ?thesis using set_symb_ok [OF t Some i True] ty k i by (auto simp: options_set_pair_def sets_to_def type_defs)
    next
      case False
      then have "options_set_pair name s app t = Inr (False, t)" using ty k i by (simp add: options_set_pair_def type_defs)
      then show ?thesis using t by (auto intro: exI [of _ False])
    qed
  next
    assume i: "o_type x = OPTION_LIST"
    note k = options_check_list_ok [OF t Some i, of s]
    show ?thesis
    proof (cases "\<forall>u\<in>set (tokens '':'' s). fits x (Str_arg u)")
      case True
      then show ?thesis using set_list_ok [OF t Some i True, of app] ty k i by (auto simp: options_set_pair_def sets_to_def type_defs)
    next
      case False
      then have "options_set_pair name s app t = Inr (False, t)" using ty k i by (simp add: options_set_pair_def type_defs)
      then show ?thesis using t by (auto intro: exI [of _ False])
    qed
  qed
qed

section \<open>Reading an option\<close>

lemma get_known:
  assumes "options_typed t" "entry t name = Some x"
  shows "o_type x = OPTION_INT \<Longrightarrow> \<exists>n. o_value x = Num n \<and> options_get_int name t = Inr n"
    and "o_type x = OPTION_BOOL \<Longrightarrow> \<exists>b. o_value x = Boolean b \<and> options_get_bool name t = Inr b \<and> options_get_int name t = Inr (of_bool b)"
    and "o_type x = OPTION_STR \<Longrightarrow> \<exists>s. o_value x = Str s \<and> options_get_str name t = Inr s"
    and "o_type x = OPTION_SYMB \<Longrightarrow> \<exists>s. o_value x = Str (Some s) \<and> options_get_symb name t = Inr (Some s)"
    and "o_type x = OPTION_LIST \<Longrightarrow> \<exists>l. o_value x = Lst (Some l) \<and> list_inv l \<and> options_get_list name t = Inr (Some l)"
proof -
  have inv: "table_inv t" using assms(1) by (simp add: options_typed_def)
  note k = known_ok [OF inv assms(2)] and v = entry_typed [OF assms, THEN conjunct2, unfolded value_typed_def]
  show "o_type x = OPTION_INT \<Longrightarrow> \<exists>n. o_value x = Num n \<and> options_get_int name t = Inr n"
    using k [of "OPTION_INT OR OPTION_BOOL"] v
    by (auto simp: options_get_int_def value_num_def type_defs split: option_value.splits option.splits)
  show "o_type x = OPTION_BOOL \<Longrightarrow> \<exists>b. o_value x = Boolean b \<and> options_get_bool name t = Inr b \<and> options_get_int name t = Inr (of_bool b)"
    using k [of OPTION_BOOL] k [of "OPTION_INT OR OPTION_BOOL"] v
    by (auto simp: options_get_int_def options_get_bool_def value_bool_def type_defs split: option_value.splits option.splits)
  show "o_type x = OPTION_STR \<Longrightarrow> \<exists>s. o_value x = Str s \<and> options_get_str name t = Inr s"
    using k [of "OPTION_STR OR OPTION_SYMB"] v
    by (auto simp: options_get_str_def value_str_def type_defs split: option_value.splits option.splits)
  show "o_type x = OPTION_SYMB \<Longrightarrow> \<exists>s. o_value x = Str (Some s) \<and> options_get_symb name t = Inr (Some s)"
    using k [of OPTION_SYMB] v
    by (auto simp: options_get_symb_def value_str_def type_defs split: option_value.splits option.splits)
  show "o_type x = OPTION_LIST \<Longrightarrow> \<exists>l. o_value x = Lst (Some l) \<and> list_inv l \<and> options_get_list name t = Inr (Some l)"
    using k [of OPTION_LIST] v
    by (auto simp: options_get_list_def value_list_def type_defs split: option_value.splits option.splits)
qed

section \<open>Lines of the configuration file\<close>

lemma option_text_ok:
  assumes "options_typed t"
  shows "\<exists>v. option_text name t = Inr v"
proof (cases "entry t name")
  case None
  then show ?thesis using options_get_type_ok [of t name] assms by (simp add: option_text_def options_typed_def type_defs)
next
  case (Some x)
  have inv: "table_inv t" using assms by (simp add: options_typed_def)
  note ty = options_get_type_ok [OF inv, of name, unfolded Some, simplified] and g = get_known [OF assms Some]
  have fmt: "\<exists>v. lists_strs_fmt [] '':'' l = Inr v" if "list_inv l" for l using fmt_ok [OF that] by blast
  from type_of_entry [OF inv Some] show ?thesis
  proof (elim disjE)
    assume "o_type x = OPTION_LIST"
    moreover from this g(5) obtain l where "list_inv l" "options_get_list name t = Inr (Some l)" by blast
    ultimately show ?thesis using ty fmt [of l] by (auto simp: option_text_def type_defs the_list_def)
  qed (use ty g(1,2,3,4) in \<open>auto simp: option_text_def type_defs\<close>)
qed

lemma variable_fails: "fails_in {Exit EXIT_FATAL} (variable s)"
  by (simp add: variable_def Let_def split: option.splits)

lemma subst_loop_ok:
  assumes "options_typed t" "list_inv strs"
  shows "fails_in {Exit EXIT_FATAL} (subst_loop E t strs p k) \<and> (\<forall>strs' p'. subst_loop E t strs p k = Inr (strs', p') \<longrightarrow> list_inv strs')"
  using assms
proof (induction E t strs p k rule: subst_loop.induct)
  case (1 E t strs p k)
  show ?case
  proof (cases "strstr (drop k p) ''${''")
    case None
    then show ?thesis using 1(4) by (simp add: subst_loop.simps [of E t strs p k])
  next
    case (Some i)
    define dollar where "dollar = k + i"
    show ?thesis
    proof (cases "dollar > 0 \<and> p ! (dollar - 1) = CHR ''$''")
      case True
      obtain strs1 where s1: "lists_strs_append (take (dollar - 1) p) strs = Inr strs1" "list_inv strs1"
        using str_list.add_ok [OF 1(4)] by blast
      have "subst_loop E t strs p k = subst_loop E t strs1 (drop dollar p) 2"
        unfolding subst_loop.simps [of E t strs p k] Some option.case Let_def dollar_def [symmetric] if_P [OF True] s1(1) bindR_Inr by (rule refl)
      then show ?thesis using 1(1) [OF Some dollar_def True s1(1) 1(3) s1(2)] by simp
    next
      case False
      obtain strs1 where s1: "lists_strs_append (take dollar p) strs = Inr strs1" "list_inv strs1"
        using str_list.add_ok [OF 1(4)] by blast
      have eq: "subst_loop E t strs p k = bindR (variable (drop (dollar + 2) p)) (\<lambda>(name, dflt, rest).
            bindR (variable_value E name t) (\<lambda>v.
            bindR (case v of Some (c # cs) \<Rightarrow> Inr (c # cs) | _ \<Rightarrow> (case dflt of Some d \<Rightarrow> Inr d | None \<Rightarrow> fatal)) (\<lambda>v.
            bindR (lists_strs_append v strs1) (\<lambda>strs. subst_loop E t strs rest 0))))"
        unfolding subst_loop.simps [of E t strs p k] Some option.case Let_def dollar_def [symmetric] if_not_P [OF False] s1(1) bindR_Inr by (rule refl)
      show ?thesis
      proof (cases "variable (drop (dollar + 2) p)")
        case (Inl f)
        then show ?thesis using eq variable_fails [of "drop (dollar + 2) p"] by simp
      next
        case (Inr r)
        obtain name dflt rest where r: "r = (name, dflt, rest)" by (cases r)
        obtain v0 where "option_text name t = Inr v0" using option_text_ok 1(3) by blast
        then have "\<exists>v. variable_value E name t = Inr v" by (simp add: variable_value_def split: option.split)
        then obtain v where v: "variable_value E name t = Inr v" by blast
        define w :: "string result" where "w = (case v of Some (c # cs) \<Rightarrow> Inr (c # cs) | _ \<Rightarrow> (case dflt of Some d \<Rightarrow> Inr d | None \<Rightarrow> fatal))"
        have eq2: "subst_loop E t strs p k = bindR w (\<lambda>v. bindR (lists_strs_append v strs1) (\<lambda>strs. subst_loop E t strs rest 0))"
          using eq Inr r v by (simp add: w_def)
        show ?thesis
        proof (cases w)
          case (Inl f)
          then have "f = Exit EXIT_FATAL" by (auto simp: w_def split: option.splits list.splits)
          then show ?thesis using eq2 Inl by simp
        next
          case w: (Inr u)
          obtain strs2 where s2: "lists_strs_append u strs1 = Inr strs2" "list_inv strs2"
            using str_list.add_ok [OF s1(2)] by blast
          then show ?thesis
            using eq2 w 1(2) [OF Some dollar_def False s1(1) Inr r [symmetric] refl v w [unfolded w_def] s2(1) 1(3) s2(2)] by simp
        qed
      qed
    qed
  qed
qed

lemma substitute_fails:
  assumes "options_typed t"
  shows "fails_in {Exit EXIT_FATAL} (substitute_variable E v t)"
proof -
  obtain l where l: "lists_strs_new 5 = Inr l" "list_inv l" using new_ok [of 5] by auto
  show ?thesis
  proof (cases "subst_loop E t l v 0")
    case (Inl f)
    then show ?thesis using l subst_loop_ok [OF assms l(2), of E v 0] by (simp add: substitute_variable_def)
  next
    case (Inr r)
    obtain strs p where r: "r = (strs, p)" by (cases r)
    have "list_inv strs" using subst_loop_ok [OF assms l(2), of E v 0] Inr r by simp
    then obtain strs1 where s1: "lists_strs_append p strs = Inr strs1" "list_inv strs1" "strings strs1 = strings strs @ [p]"
      using str_list.add_ok by blast
    then have "lists_strs_cat strs1 = Inr (Some (concat (strings strs1)))" using fmt_ok [OF s1(2), of "[]" "[]"] by (simp add: lists_strs_cat_def)
    then show ?thesis using l Inr r s1 by (simp add: substitute_variable_def)
  qed
qed

text \<open>
  What a step of the parser keeps, and how it may fail: by stopping the program, and where the
  given condition holds by leaving the defined behaviour.
\<close>

definition config_faults :: "bool \<Rightarrow> fault set" where
  "config_faults b = insert (Exit EXIT_FATAL) (if b then {Undefined} else {})"

lemma fatal_in [simp, intro]: "Exit EXIT_FATAL \<in> config_faults b"
  by (simp add: config_faults_def)

lemma config_faults_mono: "(b \<Longrightarrow> c) \<Longrightarrow> config_faults b \<subseteq> config_faults c"
  by (auto simp: config_faults_def)

lemma fails_in_stronger: "fails_in (config_faults b) r \<Longrightarrow> (b \<Longrightarrow> c) \<Longrightarrow> fails_in (config_faults c) r"
  by (erule fails_in_mono) (rule config_faults_mono)

lemma tokens_empty: "tokens d s = [] \<Longrightarrow> set s \<subseteq> set d"
proof (induction s)
  case (Cons c s)
  show ?case
  proof (cases "c \<in> set d")
    case True
    then show ?thesis using Cons by (simp add: tokens_skip)
  next
    case False
    then show ?thesis using Cons.prems by (subst (asm) tokens.simps) (simp add: strtok_r_def Let_def split: option.splits)
  qed
qed simp

text \<open>
  The old form of a layout is rewritten without a test for a text of blanks only, the old form of
  the list of drivers depends on what the memory holds that is about to be written.
\<close>

definition rewrite_undefined :: "conf_env \<Rightarrow> string \<Rightarrow> string \<Rightarrow> bool" where
  "rewrite_undefined E name v \<longleftrightarrow>
     strcaseeq name ''SoundDriver'' \<and> CHR '','' \<in> set v \<and> (\<exists>k\<le>length v. fresh_mem E k = SP)
     \<or> strncaseeq name ''Layout'' 6 \<and> v \<noteq> [] \<and> set v \<subseteq> {SP}"

lemma rewrite_layout_fails: "fails_in (config_faults (set str \<subseteq> {SP})) (rewrite_layout_as_list str)"
proof -
  obtain l where l: "lists_strs_new 4 = Inr l" "list_inv l" "strings l = []" using new_ok [of 4] by auto
  define n where "n = length (tokens [SP] str)"
  from l obtain l1 where l1: "lists_strs_split str [SP] l = Inr (int n, l1)" "list_inv l1" "strings l1 = tokens [SP] str"
    using split_ok [OF l(2), of str "[SP]"] by (auto simp: n_def)
  define f where "f = (\<lambda>ix l. bindR (lists_strs_at l ix) (\<lambda>s. case strchr s (CHR '':'') of None \<Rightarrow> fatal | Some i \<Rightarrow> lists_strs_replace ix (s[i := CHR ''('']) l))"
  have step: "fails_in {Exit EXIT_FATAL} (f ix l) \<and> (\<forall>l'. f ix l = Inr l' \<longrightarrow> list_inv l' \<and> length (strings l') = n)"
    if "ix \<in> set [0..int n - 1]" "list_inv l \<and> length (strings l) = n" for ix l
  proof -
    have "k < l_size l" if "ix = int k" for k using that \<open>ix \<in> _\<close> \<open>list_inv l \<and> _\<close> length_strings [of l] by auto
    moreover have "0 \<le> ix" using that(1) by simp
    ultimately obtain k where k: "ix = int k" "k < l_size l" using zero_le_imp_eq_int [of ix] by blast
    note l0 = that(2)
    have at: "lists_strs_at l ix = Inr (strings l ! k)" using at_ok k that(2) by simp
    show ?thesis
    proof (cases "strchr (strings l ! k) (CHR '':'')")
      case None
      then show ?thesis using at by (simp add: f_def)
    next
      case (Some i)
      obtain l' where "lists_strs_swap ix ((strings l ! k)[i := CHR ''('']) l = Inr (strings l ! k, l')" "list_inv l'"
          "strings l' = (strings l)[k := (strings l ! k)[i := CHR ''('']]"
        using swap_ok [of l k] k l0 by blast
      then show ?thesis using at Some l0 by (simp add: f_def lists_strs_replace_def)
    qed
  qed
  have all: "fails_in {Exit EXIT_FATAL} (foldR f [0..int n - 1] l1) \<and> (\<forall>l'. foldR f [0..int n - 1] l1 = Inr l' \<longrightarrow> list_inv l' \<and> length (strings l') = n)"
    by (rule fails_in_foldR [OF step]) (use l1 in \<open>auto simp: n_def\<close>)
  have eq: "rewrite_layout_as_list str = bindR (foldR f [0..int n - 1] l1) (\<lambda>l.
      bindR (lists_strs_fmt [] ''):'' l) (\<lambda>r. case r of None \<Rightarrow> Inl Undefined | Some s \<Rightarrow> Inr (butlast s)))"
    using l l1 by (simp add: rewrite_layout_as_list_def f_def)
  show ?thesis
  proof (cases "foldR f [0..int n - 1] l1")
    case (Inl e)
    then show ?thesis using all eq by simp
  next
    case (Inr l2)
    moreover have "set str \<subseteq> {SP}" if "n = 0" using that tokens_empty [of "[SP]" str] by (simp add: n_def)
    ultimately show ?thesis using all eq fmt_ok [of l2 "[]" "''):''"] by (auto simp: config_faults_def)
  qed
qed

lemma sounddriver_fails:
  "fails_in (config_faults (\<exists>k\<le>length cs + length out. mem k = SP)) (sounddriver_loop mem cs out)"
proof (induction mem cs out rule: sounddriver_loop.induct)
  case (1 mem out)
  then show ?case by (auto simp: config_faults_def)
next
  case (2 mem c cs out)
  let ?out = "if c = CHR '','' then out @ '':'' else if mem (length out) \<noteq> SP then out @ [c] else out"
  have len: "length ?out \<le> Suc (length out)" by simp
  show ?case unfolding sounddriver_loop.simps
  proof (rule fails_in_stronger [OF 2])
    assume "\<exists>k\<le>length cs + length ?out. mem k = SP"
    then obtain k where k: "k \<le> length cs + length ?out" "mem k = SP" by blast
    have "k \<le> length (c # cs) + length out" using k(1) len unfolding list.size by linarith
    with k(2) show "\<exists>k\<le>length (c # cs) + length out. mem k = SP" by blast
  qed
qed

lemma strchr_mem: "strchr v c \<noteq> None \<Longrightarrow> c \<in> set v"
  by (induction v c rule: strchr.induct) (auto split: if_splits)

lemma rewrite_value_fails: "fails_in (config_faults (rewrite_undefined E name v)) (rewrite_value E name v)"
proof -
  have "fails_in (config_faults (rewrite_undefined E name v)) (rewrite_sounddriver_as_list E v)"
    if "strcaseeq name ''SoundDriver''" "strchr v (CHR '','') \<noteq> None"
  proof -
    have "CHR '','' \<in> set v" using strchr_mem [OF that(2)] .
    then show ?thesis using that(1) fails_in_stronger [OF sounddriver_fails [of v "[]" "fresh_mem E"]]
      by (simp add: rewrite_sounddriver_as_list_def rewrite_undefined_def)
  qed
  moreover have "fails_in (config_faults (rewrite_undefined E name v)) (rewrite_layout_as_list v)"
    if "strncaseeq name ''Layout'' 6" "v \<noteq> []"
    using that by (intro fails_in_stronger [OF rewrite_layout_fails]) (simp add: rewrite_undefined_def)
  ultimately show ?thesis unfolding rewrite_value_def Let_def by (intro fails_in_bind) (auto intro!: fails_in_bind)
qed

text \<open>Setting an option is undefined only where its value is rewritten in that way.\<close>

definition option_undefined :: "conf_env \<Rightarrow> string \<Rightarrow> string \<Rightarrow> options \<Rightarrow> bool" where
  "option_undefined E name v t \<longleftrightarrow>
     (\<exists>x t1 s. slot t (find_option (current_name name) OPTION_ANY t) = Inr x
       \<and> set_slot (find_option (current_name name) OPTION_ANY t) (x\<lparr>set_in_config := True\<rparr>) t = Inr t1
       \<and> substitute_variable E v t1 = Inr s \<and> rewrite_undefined E (o_name x) s)"

lemma set_option_typed:
  assumes t: "options_typed t"
  shows "fails_in (config_faults (option_undefined E name v t)) (set_option E name v app t)
    \<and> (\<forall>ok t'. set_option E name v app t = Inr (ok, t') \<longrightarrow> options_typed t' \<and> same_decls t t')"
proof (cases "is_deprecated_option name \<or> find_option (current_name name) OPTION_ANY t = -1")
  case True
  then show ?thesis using t by (auto simp: set_option_def Let_def)
next
  case False
  have inv: "table_inv t" using t by (simp add: options_typed_def)
  have "entry t (current_name name) \<noteq> None" using False find_option_miss [OF inv] by fastforce
  then obtain x where x: "entry t (current_name name) = Some x" by blast
  have "OPTION_ANY AND o_type x \<noteq> 0" using entry_type [OF inv x] by (auto simp: option_types_def type_defs)
  from find_option_hit [OF inv x this] obtain i where i: "i < OPTIONS_MAX" "find_option (current_name name) OPTION_ANY t = int i" "slots t ! i = x" by blast
  let ?x = "x\<lparr>set_in_config := True\<rparr>"
  have d: "same_decl ?x (slots t ! i)" using i(3) by (simp add: same_decl_def same_key_def)
  have "value_typed ?x = value_typed x" by (simp add: value_typed_def split: option_value.split option.split)
  then have v: "value_typed ?x" using entry_typed [OF t x] by simp
  define t1 where "t1 = put i ?x t"
  have t1: "set_slot (int i) ?x t = Inr t1" "options_typed t1" "same_decls t t1"
    using set_slot_ok [OF inv i(1)] put_typed [OF t i(1) d v] by (auto simp: t1_def)
  define r where "r = bindR (substitute_variable E v t1) (\<lambda>s. bindR (rewrite_value E (o_name x) s) (\<lambda>s. options_set_pair (current_name name) s app t1))"
  have undef: "option_undefined E name v t" if "substitute_variable E v t1 = Inr s" "rewrite_undefined E (o_name x) s" for s
    unfolding option_undefined_def i(2) using slot_ok [OF inv i(1)] i(3) t1(1) that by auto
  have "fails_in (config_faults (option_undefined E name v t)) r \<and> (\<forall>ok t'. r = Inr (ok, t') \<longrightarrow> options_typed t' \<and> same_decls t t')"
  proof
    have "fails_in F (options_set_pair m s app t1)" for F m s
      using set_pair_typed [OF t1(2), of m s app] by (auto simp: fails_in_def)
    moreover have "fails_in (config_faults (option_undefined E name v t)) (substitute_variable E v t1)"
      by (rule fails_in_mono [OF substitute_fails [OF t1(2)]]) simp
    ultimately show "fails_in (config_faults (option_undefined E name v t)) r" unfolding r_def
      by (intro fails_in_bind) (auto intro: undef fails_in_stronger [OF rewrite_value_fails])
    show "\<forall>ok t'. r = Inr (ok, t') \<longrightarrow> options_typed t' \<and> same_decls t t'"
    proof (intro allI impI)
      fix ok t' assume "r = Inr (ok, t')"
      then obtain s where "options_set_pair (current_name name) s app t1 = Inr (ok, t')" by (auto simp: r_def bindR_eq_Inr)
      then show "options_typed t' \<and> same_decls t t'"
        using set_pair_typed [OF t1(2), of "current_name name" s app] same_decls_trans [OF t1(3)] by auto
    qed
  qed
  moreover have "set_option E name v app t =
      (if ignore_in_config x then Inr (True, t) else if app \<and> o_type x \<noteq> OPTION_LIST then Inr (False, t)
       else if \<not> app \<and> set_in_config x then Inr (False, t) else r)"
    using False i slot_ok [OF inv i(1)] t1(1) by (simp add: set_option_def Let_def r_def)
  ultimately show ?thesis using t by auto
qed

text \<open>The buffers for a name and a value are never filled beyond their size.\<close>

definition buffers_ok :: "parser \<Rightarrow> bool" where
  "buffers_ok p \<longleftrightarrow> length (opt_name p) \<le> OPT_NAME_SIZE \<and> length (opt_value p) \<le> OPT_VALUE_SIZE"

lemma add_char_ok:
  "add_value c p = Inr q \<Longrightarrow> buffers_ok p \<Longrightarrow> buffers_ok q" "add_name c p = Inr q \<Longrightarrow> buffers_ok p \<Longrightarrow> buffers_ok q"
  by (auto simp: buffers_ok_def add_value_def add_name_def split: if_splits)

lemma add_char_fails: "fails_in (config_faults b) (add_value c p)" "fails_in (config_faults b) (add_name c p)"
  by (simp_all add: add_value_def add_name_def)

lemma parse_plain_fails: "fails_in (config_faults b) (parse_plain ch p)"
  unfolding parse_plain_def by (auto intro!: fails_in_bind add_char_fails)

lemma if_InrE: "(if b then m else n) = Inr x \<Longrightarrow> (m = Inr x \<Longrightarrow> P) \<Longrightarrow> (n = Inr x \<Longrightarrow> P) \<Longrightarrow> P"
  by (cases b) auto

lemma parse_plain_buffers:
  assumes "buffers_ok p" and "parse_plain ch p = Inr q"
  shows "buffers_ok q"
proof -
  have u: "buffers_ok (r\<lparr>esc := b\<rparr>) = buffers_ok r" "buffers_ok (r\<lparr>comm := b\<rparr>) = buffers_ok r"
    "buffers_ok (r\<lparr>quote := b\<rparr>) = buffers_ok r" "buffers_ok (r\<lparr>plus := b\<rparr>) = buffers_ok r" "buffers_ok (r\<lparr>sp := b\<rparr>) = buffers_ok r"
    "buffers_ok (r\<lparr>append_to := b, plus := c, eq := d\<rparr>) = buffers_ok r" for r b c d by (simp_all add: buffers_ok_def)
  show ?thesis
    using assms(2) unfolding parse_plain_def
    by (elim if_InrE bindR_InrE) (use assms(1) in \<open>auto simp: u dest: add_char_ok\<close>)
qed

text \<open>
  At the end of a line the parser leaves the defined behaviour only where one of the buffers is
  full to the last byte, so that there is no room for the NUL, or where setting the option does.
\<close>

definition line_undefined :: "conf_env \<Rightarrow> parser \<Rightarrow> options \<Rightarrow> bool" where
  "line_undefined E p t \<longleftrightarrow>
     length (opt_name p) = OPT_NAME_SIZE \<or> length (opt_value p) = OPT_VALUE_SIZE
     \<or> option_undefined E (c_str (opt_name p)) (c_str (opt_value p)) t"

lemma parse_char_typed:
  assumes t: "options_typed t" and b: "buffers_ok p"
  shows "fails_in (config_faults (ch = LF \<and> line_undefined E p t)) (parse_char E ch (p, t))
    \<and> (\<forall>p' t'. parse_char E ch (p, t) = Inr (p', t') \<longrightarrow> buffers_ok p' \<and> options_typed t' \<and> same_decls t t')"
proof -
  note s = set_option_typed [OF t, of E "c_str (opt_name p)" "c_str (opt_value p)" "append_to p"]
  let ?F = "config_faults (line_undefined E p t)"
  have so: "fails_in ?F (set_option E (c_str (opt_name p)) (c_str (opt_value p)) (append_to p) t)"
    by (rule fails_in_stronger [OF s [THEN conjunct1]]) (simp add: line_undefined_def)
  have "fails_in ?F (guardR (length (opt_name p) < OPT_NAME_SIZE \<and> length (opt_value p) < OPT_VALUE_SIZE) Undefined)"
    using b by (auto simp: guardR_def buffers_ok_def line_undefined_def config_faults_def)
  then have "fails_in ?F (end_of_line E p t)"
    unfolding end_of_line_def by (intro fails_in_bind) (auto intro!: fails_in_bind so)
  moreover have "end_of_line E p t = Inr (p', t') \<Longrightarrow> buffers_ok p' \<and> options_typed t' \<and> same_decls t t'" for p' t'
    using s t by (auto simp: end_of_line_def bindR_eq_Inr buffers_ok_def split: if_splits)
  ultimately show ?thesis using t b parse_plain_fails [of _ ch p] parse_plain_buffers [OF b, of ch]
    by (auto simp: parse_char_def bindR_eq_Inr intro!: fails_in_bind)
qed

text \<open>The step at which a run over a list of values stops.\<close>

lemma foldR_stops:
  assumes "\<And>x s s'. P s \<Longrightarrow> f x s = Inr s' \<Longrightarrow> P s'" and "P s" and "foldR f xs s = Inl e"
  obtains pre x post s' where "xs = pre @ x # post" "foldR f pre s = Inr s'" "P s'" "f x s' = Inl e"
  using assms(2,3)
proof (induction xs arbitrary: s thesis)
  case (Cons x xs)
  show ?case
  proof (cases "f x s")
    case (Inl e')
    then show ?thesis using Cons.prems(1) [of "[]" x xs s] Cons.prems(2,3) by simp
  next
    case (Inr t)
    then have "P t" "foldR f xs t = Inl e" using assms(1) Cons.prems by auto
    from Cons.IH [OF _ this] obtain pre y post s' where "xs = pre @ y # post" "foldR f pre t = Inr s'" "P s'" "f y s' = Inl e" .
    then show ?thesis using Cons.prems(1) [of "x # pre" y post s'] Inr by simp
  qed
qed simp

lemma parse_typed:
  assumes t: "options_typed t" and b: "buffers_ok p"
  shows "foldR (parse_char E) s (p, t) = Inr (p', t') \<Longrightarrow> options_typed t' \<and> same_decls t t'"
    and "foldR (parse_char E) s (p, t) = Inl f \<Longrightarrow> f = Exit EXIT_FATAL \<or> f = Undefined \<and>
      (\<exists>pre post q u. s = pre @ LF # post \<and> foldR (parse_char E) pre (p, t) = Inr (q, u) \<and> line_undefined E q u)"
proof -
  let ?P = "\<lambda>(q, u). buffers_ok q \<and> options_typed u \<and> same_decls t u"
  have step: "?P st'" if "?P st" "parse_char E c st = Inr st'" for c st st'
    using that parse_char_typed [of "snd st" "fst st" c E] same_decls_trans [of t] by (cases st; cases st') auto
  have start: "?P (p, t)" using t b by simp
  show "foldR (parse_char E) s (p, t) = Inr (p', t') \<Longrightarrow> options_typed t' \<and> same_decls t t'"
    using foldR_invariant [of s ?P "parse_char E" "(p, t)" "(p', t')"] step start by auto
  assume "foldR (parse_char E) s (p, t) = Inl f"
  from foldR_stops [where P = ?P, OF step start this] obtain pre c post st where
    c: "s = pre @ c # post" "foldR (parse_char E) pre (p, t) = Inr st" "?P st" "parse_char E c st = Inl f" .
  obtain q u where st: "st = (q, u)" by (cases st)
  have "fails_in (config_faults (c = LF \<and> line_undefined E q u)) (parse_char E c (q, u))"
    using parse_char_typed [of u q c E] c(3) st by simp
  then have "f = Exit EXIT_FATAL \<or> f = Undefined \<and> c = LF \<and> line_undefined E q u"
    using c(4) st by (auto simp: config_faults_def split: if_splits)
  then show "f = Exit EXIT_FATAL \<or> f = Undefined \<and>
      (\<exists>pre post q u. s = pre @ LF # post \<and> foldR (parse_char E) pre (p, t) = Inr (q, u) \<and> line_undefined E q u)"
    using c(1,2) st by blast
qed

text \<open>The declarations of the options are those of the beginning, so the final check finds its two numbers.\<close>

lemma entry_same_decls:
  assumes "same_decls t t'" and "entry t name = Some x"
  shows "\<exists>y. entry t' name = Some y \<and> o_type y = o_type x"
proof -
  have "list_all2 same_decl xs ys \<Longrightarrow> find (\<lambda>x. in_use x \<and> strcaseeq name (o_name x)) xs = Some x \<Longrightarrow>
      \<exists>y. find (\<lambda>x. in_use x \<and> strcaseeq name (o_name x)) ys = Some y \<and> o_type y = o_type x" for xs ys
    by (induction xs ys rule: list_all2_induct) (auto simp: same_decl_def same_key_def in_use_def split: if_splits)
  then show ?thesis using assms by (auto simp: entry_def same_decls_def)
qed

section \<open>A line that sets a string\<close>

text \<open>
  A value between quotation marks, in which a quotation mark is escaped. There is no way to write
  a backslash before a quotation mark, so values with a backslash are left out.
\<close>

definition escape_quotes :: "string \<Rightarrow> string" where
  "escape_quotes v = concat (map (\<lambda>c. if c = dquote then [backslash, dquote] else [c]) v)"

definition conf_line :: "string \<Rightarrow> string \<Rightarrow> string" where
  "conf_line name v = name @ '' = '' @ [dquote] @ escape_quotes v @ [dquote, LF]"

definition writable_value :: "string \<Rightarrow> bool" where
  "writable_value v \<longleftrightarrow> v \<noteq> [] \<and> length v < OPT_VALUE_SIZE \<and> LF \<notin> set v \<and> NUL \<notin> set v \<and> backslash \<notin> set v \<and> strstr v ''${'' = None"

definition plain_name :: "string \<Rightarrow> bool" where
  "plain_name n \<longleftrightarrow> n \<noteq> [] \<and> length n < OPT_NAME_SIZE
     \<and> list_all (\<lambda>c. c \<notin> {LF, NUL, CHR ''#'', dquote, CHR ''+'', CHR ''='', backslash} \<and> \<not> isblank c) n
     \<and> \<not> is_deprecated_option n \<and> current_name n = n"

text \<open>Between two lines.\<close>

definition between_lines :: "parser \<Rightarrow> bool" where
  "between_lines p \<longleftrightarrow> \<not> comm p \<and> \<not> eq p \<and> \<not> quote p \<and> \<not> esc p \<and> \<not> plus p \<and> \<not> append_to p \<and> \<not> sp p \<and> opt_name p = [] \<and> opt_value p = []"

lemma foldR_end [simp]: "bindR m (foldR f []) = m"
  by (cases m) simp_all

lemma parse_name_chars:
  assumes "\<not> comm p" "\<not> eq p" "\<not> quote p" "\<not> esc p" "\<not> plus p" "\<not> sp p"
    and "length (opt_name p) + length n \<le> OPT_NAME_SIZE"
    and "\<forall>c\<in>set n. c \<notin> {LF, CHR ''#'', dquote, CHR ''+'', CHR ''='', backslash} \<and> \<not> isblank c"
  shows "foldR (parse_char E) n (p, t) = Inr (p\<lparr>opt_name := opt_name p @ n\<rparr>, t)"
  using assms
proof (induction n arbitrary: p)
  case (Cons c n)
  have "parse_char E c (p, t) = Inr (p\<lparr>opt_name := opt_name p @ [c], esc := False\<rparr>, t)"
    using Cons.prems by (simp add: parse_char_def parse_plain_def add_name_def)
  moreover have "p\<lparr>opt_name := opt_name p @ [c], esc := False\<rparr> = p\<lparr>opt_name := opt_name p @ [c]\<rparr>" using Cons.prems by simp
  ultimately show ?case using Cons.IH [of "p\<lparr>opt_name := opt_name p @ [c]\<rparr>"] Cons.prems by simp
qed simp

lemma parse_value_chars:
  assumes "\<not> comm p" "eq p" "quote p" "\<not> esc p" "\<not> plus p"
    and "length (opt_value p) + length v \<le> OPT_VALUE_SIZE" and "LF \<notin> set v" "backslash \<notin> set v"
  shows "foldR (parse_char E) (escape_quotes v) (p, t) = Inr (p\<lparr>opt_value := opt_value p @ v\<rparr>, t)"
  using assms
proof (induction v arbitrary: p)
  case (Cons c v)
  have "foldR (parse_char E) (if c = dquote then [backslash, dquote] else [c]) (p, t) = Inr (p\<lparr>opt_value := opt_value p @ [c]\<rparr>, t)"
    using Cons.prems by (auto simp: parse_char_def parse_plain_def add_value_def LF_def)
  moreover have "escape_quotes (c # v) = (if c = dquote then [backslash, dquote] else [c]) @ escape_quotes v" by (simp add: escape_quotes_def)
  ultimately show ?case using Cons.IH [of "p\<lparr>opt_value := opt_value p @ [c]\<rparr>"] Cons.prems by (simp add: foldR_append)
qed (simp add: escape_quotes_def)

lemma parse_line:
  assumes p: "between_lines p" and n: "plain_name n" and v: "length v \<le> OPT_VALUE_SIZE" "LF \<notin> set v" "backslash \<notin> set v"
  shows "foldR (parse_char E) (conf_line n v) (p, t) =
    end_of_line E (p\<lparr>opt_name := n, opt_value := v, eq := True, sp := True\<rparr>) t"
proof -
  have p0: "opt_name p = []" "opt_value p = []" "\<not> comm p" "\<not> eq p" "\<not> quote p" "\<not> esc p" "\<not> plus p" "\<not> sp p" "\<not> append_to p"
    using p by (auto simp: between_lines_def)
  have "foldR (parse_char E) n (p, t) = Inr (p\<lparr>opt_name := n\<rparr>, t)"
    using parse_name_chars [of p n E t] n p0 by (auto simp: plain_name_def list_all_iff)
  moreover define q where "q = p\<lparr>opt_name := n, sp := True, eq := True, quote := True\<rparr>"
  have "foldR (parse_char E) ('' = '' @ [dquote]) (p\<lparr>opt_name := n\<rparr>, t) = Inr (q, t)"
    using p0 n by (simp add: parse_char_def parse_plain_def isblank_def SP_def LF_def plain_name_def q_def)
  moreover have "foldR (parse_char E) (escape_quotes v) (q, t) = Inr (q\<lparr>opt_value := v\<rparr>, t)"
    using parse_value_chars [of q v E t] v p0 by (simp add: q_def)
  moreover have "foldR (parse_char E) [dquote, LF] (q\<lparr>opt_value := v\<rparr>, t) = end_of_line E (q\<lparr>opt_value := v, quote := False\<rparr>) t"
    using p0 by (simp add: parse_char_def parse_plain_def LF_def q_def)
  moreover have "q\<lparr>opt_value := v, quote := False\<rparr> = p\<lparr>opt_name := n, opt_value := v, eq := True, sp := True\<rparr>"
    using p0(5) by (simp add: q_def)
  moreover have "conf_line n v = n @ ('' = '' @ [dquote]) @ escape_quotes v @ [dquote, LF]" by (simp add: conf_line_def)
  ultimately show ?thesis by (simp only: foldR_append bindR_Inr)
qed

lemma substitute_none:
  assumes "strstr v ''${'' = None"
  shows "substitute_variable E v t = Inr v"
proof -
  obtain l where l: "lists_strs_new 5 = Inr l" "list_inv l" "strings l = []" using new_ok [of 5] by auto
  moreover have "subst_loop E t l v 0 = Inr (l, v)" using assms by (simp add: subst_loop.simps)
  moreover have "lists_strs_empty l" using length_strings [OF l(2)] l(3) by (simp add: lists_strs_empty_def)
  ultimately show ?thesis by (simp add: substitute_variable_def)
qed

text \<open>Names whose values are not rewritten.\<close>

definition unchanged_name :: "string \<Rightarrow> bool" where
  "unchanged_name n \<longleftrightarrow> \<not> strcaseeq n ''SidPlay2_StartAtStart'' \<and> \<not> strcaseeq n ''SidPlay2_PlaySubTunes'' \<and> \<not> strcaseeq n ''QueueNextSongReturn''
     \<and> \<not> strcaseeq n ''SoundDriver'' \<and> \<not> strncaseeq n ''Layout'' 6"

lemma rewrite_unchanged: "unchanged_name n \<Longrightarrow> rewrite_value E n v = Inr v"
  by (simp add: unchanged_name_def rewrite_value_def yes_no_def)

lemma set_option_str:
  assumes t: "options_typed t" and e: "entry t n = Some x" and x: "o_type x = OPTION_STR" "o_check x = Check_true" "\<not> set_in_config x" "\<not> ignore_in_config x"
    and n: "plain_name n" "unchanged_name (o_name x)" and v: "strstr v ''${'' = None"
  shows "\<exists>t'. set_option E n v False t = Inr (True, t') \<and> options_typed t' \<and> options_get_str n t' = Inr (Some v)
    \<and> (\<exists>y. entry t' n = Some y \<and> o_type y = OPTION_STR) \<and> (\<forall>m. \<not> strcaseeq m n \<longrightarrow> entry t' m = entry t m)"
proof -
  have inv: "table_inv t" using t by (simp add: options_typed_def)
  from find_option_hit [OF inv e, of OPTION_ANY] x obtain i where i: "i < OPTIONS_MAX" "find_option n OPTION_ANY t = int i" "slots t ! i = x"
    by (auto simp: type_defs)
  let ?x = "x\<lparr>set_in_config := True\<rparr>"
  have d: "same_decl ?x (slots t ! i)" using i(3) by (simp add: same_decl_def same_key_def)
  have "value_typed ?x = value_typed x" by (simp add: value_typed_def split: option_value.split option.split)
  then have vt: "value_typed ?x" using entry_typed [OF t e] by simp
  define t1 where "t1 = put i ?x t"
  have u: "in_use ?x" "strcaseeq n (o_name ?x)" using entry_in_use [OF inv e] by (auto simp: in_use_def)
  have t1: "set_slot (int i) ?x t = Inr t1" "options_typed t1" using set_slot_ok [OF inv i(1)] put_typed [OF t i(1) d vt] by (auto simp: t1_def)
  have en: "entry t1 m = (if strcaseeq m (o_name x) then Some ?x else entry t m)" for m
    using put_entry [OF inv i(1) _ u(1)] d by (simp add: t1_def same_decl_def)
  then have e1: "entry t1 n = Some ?x" using u(2) by simp
  have ty: "options_get_type n t1 = Inr OPTION_STR" using options_get_type_ok [of t1 n] t1(2) e1 x(1) by (simp add: options_typed_def)
  have f: "fits ?x (Str_arg v)" using x(2) by (simp add: fits_def)
  have c: "options_check_str n v t1 = Inr True"
    using checked_ok [of t1 n ?x "OPTION_STR OR OPTION_SYMB"] t1(2) e1 x(1,2)
    by (simp add: options_check_str_def options_typed_def type_defs run_check_def check_true_def)
  from set_str_ok [OF t1(2) e1 _ f] x(1) obtain t' where t': "options_set_str n v t1 = Inr t'" "sets_to t1 n ?x (Str (Some v)) t'" by auto
  have "options_set_pair n v False t1 = Inr (True, t')" using ty c t'(1) by (simp add: options_set_pair_def type_defs)
  then have "set_option E n v False t = Inr (True, t')"
    using n i slot_ok [OF inv i(1)] x t1(1) substitute_none [OF v] rewrite_unchanged [OF n(2)]
    by (simp add: set_option_def plain_name_def Let_def)
  moreover have "options_get_str n t' = Inr (Some v)"
    using get_known(3) [of t' n "?x\<lparr>o_value := Str (Some v)\<rparr>"] t'(2) x(1) by (simp add: sets_to_def)
  moreover have "entry t' m = entry t m" if "\<not> strcaseeq m n" for m
  proof -
    have "\<not> strcaseeq m (o_name x)" using that u(2) strcaseeq_trans [of m "o_name x" n] strcaseeq_sym [of n "o_name x"] by auto
    then show ?thesis using t'(2) that en [of m] by (simp add: sets_to_def)
  qed
  ultimately show ?thesis using t'(2) x(1) by (auto simp: sets_to_def)
qed

text \<open>A file of such lines.\<close>

definition conf_file :: "(string \<times> string) list \<Rightarrow> string" where
  "conf_file kvs = concat (map (\<lambda>(n, v). conf_line n v) kvs)"

definition settable :: "options \<Rightarrow> string \<Rightarrow> bool" where
  "settable t n \<longleftrightarrow> (\<exists>x. entry t n = Some x \<and> o_type x = OPTION_STR \<and> o_check x = Check_true \<and> \<not> set_in_config x \<and> \<not> ignore_in_config x
     \<and> plain_name n \<and> unchanged_name (o_name x))"

lemma conf_file_ok:
  assumes "between_lines p" "options_typed t" "\<forall>(n, v)\<in>set kvs. settable t n \<and> writable_value v" "distinct (map (\<lambda>(n, v). map tolower n) kvs)"
  shows "\<exists>p' t'. foldR (parse_char E) (conf_file kvs) (p, t) = Inr (p', t') \<and> between_lines p' \<and> options_typed t'
    \<and> (\<forall>(n, v)\<in>set kvs. options_get_str n t' = Inr (Some v)) \<and> (\<forall>m. (\<forall>(n, v)\<in>set kvs. \<not> strcaseeq m n) \<longrightarrow> entry t' m = entry t m)"
  using assms
proof (induction kvs arbitrary: p t)
  case Nil
  then show ?case by (simp add: conf_file_def)
next
  case (Cons kv kvs)
  obtain n v where kv: "kv = (n, v)" by (cases kv)
  have w: "writable_value v" using Cons.prems(3) kv by simp
  obtain x where x: "entry t n = Some x" "o_type x = OPTION_STR" "o_check x = Check_true" "\<not> set_in_config x" "\<not> ignore_in_config x"
    "plain_name n" "unchanged_name (o_name x)" using Cons.prems(3) kv by (auto simp: settable_def)
  from set_option_str [OF Cons.prems(2) x, of v E] w obtain t1 where t1: "set_option E n v False t = Inr (True, t1)" "options_typed t1"
    "options_get_str n t1 = Inr (Some v)" "\<forall>m. \<not> strcaseeq m n \<longrightarrow> entry t1 m = entry t m"
    "\<exists>y. entry t1 n = Some y \<and> o_type y = OPTION_STR" by (auto simp: writable_value_def)
  have "NUL \<notin> set n" "NUL \<notin> set v" using x(6) w unfolding plain_name_def list_all_iff writable_value_def by blast+
  then have c: "c_str n = n" "c_str v = v" by simp_all
  have ne: "\<not> strcaseeq m n" if "(m, u) \<in> set kvs" for m u
    using Cons.prems(4) kv imageI [OF that, of "\<lambda>(n, v). map tolower n"] by (auto simp: strcaseeq_def)
  let ?q = "p\<lparr>opt_name := n, opt_value := v, eq := True, sp := True\<rparr>"
  obtain p1 where p1: "end_of_line E ?q t = Inr (p1, t1)" "between_lines p1"
    using Cons.prems(1) t1(1) c x(6) w by (auto simp: end_of_line_def plain_name_def writable_value_def between_lines_def)
  have l: "foldR (parse_char E) (conf_line n v) (p, t) = Inr (p1, t1)"
    using parse_line [OF Cons.prems(1) x(6), of v E t] w p1(1) by (simp add: writable_value_def)
  have "\<forall>(m, u)\<in>set kvs. settable t1 m \<and> writable_value u"
    using Cons.prems(3) t1(4) ne by (fastforce simp: settable_def)
  from Cons.IH [OF p1(2) t1(2) this] Cons.prems(4) obtain p' t' where t': "foldR (parse_char E) (conf_file kvs) (p1, t1) = Inr (p', t')"
    "between_lines p'" "options_typed t'" "\<forall>(n, v)\<in>set kvs. options_get_str n t' = Inr (Some v)"
    "\<forall>m. (\<forall>(n, v)\<in>set kvs. \<not> strcaseeq m n) \<longrightarrow> entry t' m = entry t1 m" by auto
  have "entry t' n = entry t1 n" using t'(5) ne strcaseeq_sym by blast
  moreover obtain y where y: "entry t1 n = Some y" "o_type y = OPTION_STR"
    using t1(5) by blast
  ultimately have "options_get_str n t' = Inr (Some v)"
    using get_known(3) [OF t'(3), of n y] get_known(3) [OF t1(2), of n y] t1(3) by simp
  moreover have "entry t' m = entry t m" if "\<not> strcaseeq m n" "\<forall>(n, v)\<in>set kvs. \<not> strcaseeq m n" for m
    using t'(5) t1(4) that by simp
  ultimately show ?case using l t' kv by (intro exI [of _ p'] exI [of _ t']) (auto simp: conf_file_def foldR_append)
qed

section \<open>The built-in options\<close>

definition str_name_ok :: "option_decl \<Rightarrow> bool" where
  "str_name_ok d = (case d of Add_str n _ k _ _ \<Rightarrow> k = Check_true \<longrightarrow> plain_name n \<and> unchanged_name n | _ \<Rightarrow> True)"

lemmas name_check_defs = plain_name_def unchanged_name_def OPT_NAME_SIZE_def LF_def NUL_def isblank_def SP_def is_deprecated_option_def
  current_name_def strcaseeq_def strncaseeq_def tolower_def isupper_def

lemma sound_str_names: "list_all str_name_ok sound_options"
  by (simp add: sound_options_def str_name_ok_def name_check_defs)

lemma interface_str_names: "list_all str_name_ok interface_options"
  by (simp add: interface_options_def str_name_ok_def name_check_defs)

lemma playing_str_names: "list_all str_name_ok playing_options"
  by (simp add: playing_options_def str_name_ok_def name_check_defs)

lemma decoder_str_names: "list_all str_name_ok decoder_options"
  by (simp add: decoder_options_def str_name_ok_def name_check_defs)

lemma str_names_ok: "list_all str_name_ok builtin_options"
  by (simp add: builtin_options_def sound_str_names interface_str_names playing_str_names decoder_str_names)

lemma entry_cong: "strcaseeq m n \<Longrightarrow> entry t m = entry t n"
  unfolding entry_def strcaseeq_def by simp

lemma builtin_settable:
  assumes "options_init options_static = Inr t" "Add_str n d Check_true 0 [] \<in> set builtin_options"
  shows "settable t n"
proof -
  from options_init_ok [of options_static] assms obtain x where x: "entry t n = Some x" "as_declared (Add_str n d Check_true 0 []) x"
    by (fastforce simp: options_static_def)
  moreover have "plain_name n \<and> unchanged_name n"
    using str_names_ok assms(2) by (force simp: list_all_iff str_name_ok_def)
  ultimately show ?thesis by (auto simp: settable_def as_declared_def read_constraints_def)
qed

lemma sanity_ok:
  assumes "options_typed t" "entry t ''Prebuffering'' = Some x" "o_type x = OPTION_INT" "o_value x = Num a"
    and "entry t ''InputBuffer'' = Some y" "o_type y = OPTION_INT" "o_value y = Num b" and "a \<le> b"
  shows "sanity_check t = Inr ()"
  using get_known(1) [OF assms(1,2,3)] get_known(1) [OF assms(1,5,6)] assms(4,7,8) by (auto simp: sanity_check_def)

lemma builtin_buffers:
  assumes "options_init options_static = Inr t"
  shows "\<exists>x y. entry t ''Prebuffering'' = Some x \<and> o_type x = OPTION_INT \<and> o_value x = Num 64
    \<and> entry t ''InputBuffer'' = Some y \<and> o_type y = OPTION_INT \<and> o_value y = Num 512"
proof -
  have e: "d \<in> set builtin_options \<Longrightarrow> \<exists>x. entry t (decl_name d) = Some x \<and> as_declared d x" for d
    using options_init_ok [of options_static] assms by (simp add: options_static_def)
  have m: "Add_int ''Prebuffering'' 64 Check_range 2 [Int_arg 0, Int_arg INT_MAX] \<in> set builtin_options"
    "Add_int ''InputBuffer'' 512 Check_range 2 [Int_arg 32, Int_arg INT_MAX] \<in> set builtin_options"
    by (simp_all add: builtin_options_def sound_options_def)
  have "va_args as_int (nat 2) [Int_arg i, Int_arg j] = Inr [i, j]" for i j by (simp add: as_int_def numeral_2_eq_2)
  then show ?thesis using e [OF m(1)] e [OF m(2)] by (auto simp: as_declared_def)
qed

lemma sanity_fails:
  assumes "options_init options_static = Inr t" and "same_decls t t'" and "options_typed t'"
  shows "fails_in {Exit EXIT_FATAL} (sanity_check t')"
proof -
  obtain x y where "entry t ''Prebuffering'' = Some x" "o_type x = OPTION_INT" "entry t ''InputBuffer'' = Some y" "o_type y = OPTION_INT"
    using builtin_buffers [OF assms(1)] by blast
  then obtain a b where "options_get_int ''Prebuffering'' t' = Inr a" "options_get_int ''InputBuffer'' t' = Inr b"
    using entry_same_decls [OF assms(2)] get_known(1) [OF assms(3)] by metis
  then show ?thesis by (simp add: sanity_check_def)
qed

section \<open>Correctness\<close>

text \<open>
  C26: The options are well typed, whatever the configuration file holds: the built-in options can
  be added, and reading any file either gives a table in which every option has a value of its
  type that meets its constraints, with the names, types and constraints of the built-in options,
  or stops the program; no assertion fails. The behaviour is undefined only at the end of a line
  before which the parser was in one of three situations: the name fills its buffer of 30 bytes
  or the value its buffer of 512 bytes exactly (never more), so that there is no room for the NUL;
  the line sets a layout to a text of blanks; or it sets the sound driver to a text with a
  comma while newly allocated memory happens to hold a blank.
\<close>

theorem options_parse_typed:
  "\<exists>t. options_init options_static = Inr t \<and> options_typed t \<and> options_num t = length builtin_options \<and>
     (\<forall>E secure conf. case options_parse E secure conf t of
        Inr t' \<Rightarrow> options_typed t' \<and> same_decls t t'
      | Inl f \<Rightarrow> f = Exit EXIT_FATAL \<or> f = Undefined \<and>
          (\<exists>pre post q u. conf = Some (pre @ LF # post) \<and>
             foldR (parse_char E) pre (parser_start, t) = Inr (q, u) \<and> line_undefined E q u))"
proof -
  obtain t where t: "options_init options_static = Inr t" "options_typed t" "options_num t = length builtin_options"
    using options_init_ok [of options_static] by (auto simp: options_static_def)
  have b: "buffers_ok parser_start" by (simp add: buffers_ok_def parser_start_def)
  have "case options_parse E secure conf t of
        Inr t' \<Rightarrow> options_typed t' \<and> same_decls t t'
      | Inl f \<Rightarrow> f = Exit EXIT_FATAL \<or> f = Undefined \<and>
          (\<exists>pre post q u. conf = Some (pre @ LF # post) \<and>
             foldR (parse_char E) pre (parser_start, t) = Inr (q, u) \<and> line_undefined E q u)" for E secure conf
  proof (cases "\<not> secure \<or> conf = None")
    case True
    then show ?thesis using t(2) by (auto simp: options_parse_def)
  next
    case False
    then obtain s where s: "conf = Some s" "secure" by auto
    note p = parse_typed [OF t(2) b, of E s]
    show ?thesis
    proof (cases "foldR (parse_char E) s (parser_start, t)")
      case (Inl f)
      then show ?thesis using p(2) s by (auto simp: options_parse_def)
    next
      case (Inr r)
      obtain q u where r: "r = (q, u)" by (cases r)
      have u: "options_typed u" "same_decls t u" using p(1) Inr r by auto
      then show ?thesis using sanity_fails [OF t(1) u(2,1)] s Inr r
        by (cases "sanity_check u") (auto simp: options_parse_def)
    qed
  qed
  with t show ?thesis by blast
qed

text \<open>
  C27: What a configuration file says is what the program reads: a file with lines that set any
  unconstrained string options to any texts, with quotation marks escaped, is accepted, and
  afterwards each of the options has its text.
\<close>

theorem config_roundtrip:
  assumes "options_init options_static = Inr t"
    and "\<forall>(n, v)\<in>set kvs. (\<exists>d. Add_str n d Check_true 0 [] \<in> set builtin_options) \<and> writable_value v"
    and "distinct (map (\<lambda>(n, v). map tolower n) kvs)"
  shows "\<exists>t'. options_parse E True (Some (conf_file kvs)) t = Inr t' \<and> (\<forall>(n, v)\<in>set kvs. options_get_str n t' = Inr (Some v))"
proof -
  have t: "options_typed t" using options_init_ok [of options_static] assms(1) by (auto simp: options_static_def)
  have s: "\<forall>(n, v)\<in>set kvs. settable t n \<and> writable_value v" using assms(2) builtin_settable [OF assms(1)] by fastforce
  have "between_lines parser_start" by (simp add: between_lines_def parser_start_def)
  from conf_file_ok [OF this t s assms(3)] obtain p' t' where t': "foldR (parse_char E) (conf_file kvs) (parser_start, t) = Inr (p', t')"
    "between_lines p'" "options_typed t'" "\<forall>(n, v)\<in>set kvs. options_get_str n t' = Inr (Some v)"
    "\<forall>m. (\<forall>(n, v)\<in>set kvs. \<not> strcaseeq m n) \<longrightarrow> entry t' m = entry t m" by blast
  obtain x y where xy: "entry t ''Prebuffering'' = Some x" "o_type x = OPTION_INT" "o_value x = Num 64"
    "entry t ''InputBuffer'' = Some y" "o_type y = OPTION_INT" "o_value y = Num 512" using builtin_buffers [OF assms(1)] by blast
  have other: "entry t' m = entry t m" if "entry t m = Some z" "o_type z = OPTION_INT" for m z
  proof -
    have "\<not> strcaseeq m n" if "(n, v) \<in> set kvs" for n v
      using s that entry_cong [of m n t] \<open>entry t m = Some z\<close> \<open>o_type z = OPTION_INT\<close> by (fastforce simp: settable_def type_defs)
    then show ?thesis using t'(5) by blast
  qed
  have "sanity_check t' = Inr ()"
    by (rule sanity_ok [OF t'(3) _ xy(2,3) _ xy(5,6)]) (use other [OF xy(1,2)] other [OF xy(4,5)] xy in auto)
  then have "options_parse E True (Some (conf_file kvs)) t = Inr t'"
    using t'(1,2) by (simp add: options_parse_def between_lines_def)
  with t'(4) show ?thesis by blast
qed

theorem config_roundtrip_witness:
  "\<exists>t t'. options_init options_static = Inr t \<and>
     options_parse \<lparr>env_var = (\<lambda>_. None), fresh_mem = (\<lambda>_. NUL)\<rparr> True (Some (conf_file [(''MusicDir'', ''/a b''), (''Theme'', [CHR ''x'', dquote])])) t = Inr t'
     \<and> options_get_str ''MusicDir'' t' = Inr (Some ''/a b'') \<and> options_get_str ''Theme'' t' = Inr (Some [CHR ''x'', dquote])"
proof -
  obtain t where t: "options_init options_static = Inr t" using options_init_ok [of options_static] by (auto simp: options_static_def)
  have m: "Add_str ''MusicDir'' None Check_true 0 [] \<in> set builtin_options" "Add_str ''Theme'' None Check_true 0 [] \<in> set builtin_options"
    by (simp_all add: builtin_options_def sound_options_def interface_options_def)
  have w: "writable_value ''/a b''" "writable_value [CHR ''x'', dquote]" by code_simp+
  have d: "distinct [map tolower ''MusicDir'', map tolower ''Theme'']" by code_simp
  show ?thesis
    using config_roundtrip [OF t, of "[(''MusicDir'', ''/a b''), (''Theme'', [CHR ''x'', dquote])]" "\<lparr>env_var = (\<lambda>_. None), fresh_mem = (\<lambda>_. NUL)\<rparr>"]
      t m w d by auto
qed

text \<open>
  A value of exactly 512 characters fits into the buffer, but its end does not: the parser writes
  behind the buffer.
\<close>

lemma value_overrun:
  assumes "plain_name n" "length v = OPT_VALUE_SIZE" "LF \<notin> set v" "backslash \<notin> set v"
  shows "options_parse E True (Some (conf_line n v)) t = Inl Undefined"
proof -
  have "foldR (parse_char E) (conf_line n v) (parser_start, t) = Inl Undefined"
    using parse_line [of parser_start n v E t] assms by (simp add: between_lines_def parser_start_def end_of_line_def)
  then show ?thesis by (simp add: options_parse_def)
qed

text \<open>A number is cut to 32 bits before it is checked.\<close>

lemma number_wraps: "wrapS 32 (fst (strtol ''4294967808'')) = 512"
  by code_simp

end
