(* ===== verification/Tags_Cache.thy ===== *)
theory Tags_Cache
  imports Linked_Queue Protocol Play_Order Common
begin

text \<open>
  The cache of file tags, \<^verbatim>\<open>src/src/moc-2.5.0/tags_cache.c\<close>: a queue of requests for each
  client, the records in the Berkeley database, the removal of the record that was not used for
  the longest time, and the thread that answers the requests in turn. The database, the
  decoders and the clock are parameters. A response to a client is a result of the
  operation that the server applies (\<^verbatim>\<open>tags_response\<close>). Messages are left out.
\<close>

unbundle bit_operations_syntax

definition CLIENTS_MAX :: nat where "CLIENTS_MAX = 10"

section \<open>Requests\<close>

type_synonym request_queue = "(string \<times> int) linked_queue"

definition request_queue_init :: request_queue where
  "request_queue_init = \<lparr>nodes = Map.empty, head = None, tail = None, fresh = 0\<rparr>"

text \<open>The loops that release nodes remove one in each round; \<open>fresh\<close> bounds their number.\<close>

fun clear_loop :: "nat \<Rightarrow> request_queue \<Rightarrow> request_queue result" where
  "clear_loop 0 q = Inr q"
| "clear_loop (Suc k) q =
     (case head q of None \<Rightarrow> Inr q
      | Some h \<Rightarrow>
          (case nodes q h of None \<Rightarrow> Inl Undefined
           | Some (r, nxt) \<Rightarrow> clear_loop k (q\<lparr>nodes := (nodes q)(h := None), head := nxt\<rparr>)))"

definition request_queue_clear :: "request_queue \<Rightarrow> request_queue result" where
  "request_queue_clear q = bindR (clear_loop (fresh q) q) (\<lambda>q. Inr (q\<lparr>tail := None\<rparr>))"

fun up_to_loop :: "nat \<Rightarrow> string \<Rightarrow> request_queue \<Rightarrow> request_queue result" where
  "up_to_loop 0 file q = Inr q"
| "up_to_loop (Suc k) file q =
     (case head q of None \<Rightarrow> Inr q
      | Some h \<Rightarrow>
          (case nodes q h of None \<Rightarrow> Inl Undefined
           | Some (r, nxt) \<Rightarrow>
               let q = q\<lparr>nodes := (nodes q)(h := None), head := nxt\<rparr> in
               if fst r = file then Inr q else up_to_loop k file q))"

definition request_queue_clear_up_to :: "string \<Rightarrow> request_queue \<Rightarrow> request_queue result" where
  "request_queue_clear_up_to file q =
     bindR (up_to_loop (fresh q) file q) (\<lambda>q. Inr (if head q = None then q\<lparr>tail := None\<rparr> else q))"

definition request_queue_add :: "string \<Rightarrow> int \<Rightarrow> request_queue \<Rightarrow> request_queue result" where
  "request_queue_add file tags_sel q =
     (let a = fresh q; r = (file, tags_sel) in
      case head q of
        None \<Rightarrow> Inr (q\<lparr>nodes := (nodes q)(a \<mapsto> (r, None)), head := Some a, tail := Some a, fresh := Suc a\<rparr>)
      | Some _ \<Rightarrow>
          (case tail q of
             None \<Rightarrow> Inl Assert
           | Some t \<Rightarrow>
               (case nodes q t of
                  None \<Rightarrow> Inl Undefined
                | Some (r', Some _) \<Rightarrow> Inl Assert
                | Some (r', None) \<Rightarrow>
                    Inr (q\<lparr>nodes := (nodes q)(t \<mapsto> (r', Some a), a \<mapsto> (r, None)), tail := Some a, fresh := Suc a\<rparr>))))"

definition request_queue_empty :: "request_queue \<Rightarrow> bool" where
  "request_queue_empty q \<longleftrightarrow> head q = None"

definition request_queue_pop :: "request_queue \<Rightarrow> ((string \<times> int) option \<times> request_queue) result" where
  "request_queue_pop q =
     (case head q of
        None \<Rightarrow> Inr (None, q)
      | Some h \<Rightarrow>
          (case nodes q h of
             None \<Rightarrow> Inl Undefined
           | Some (r, nxt) \<Rightarrow>
               Inr (Some r, q\<lparr>nodes := (nodes q)(h := None), head := nxt, tail := (if tail q = Some h then None else tail q)\<rparr>)))"

section \<open>Records of the database\<close>

definition TAGS_COMMENTS :: int where "TAGS_COMMENTS = 1"

record cache_record =
  mod_time :: int
  atime :: int
  rec_tags :: file_tags

definition strlen_null :: "string option \<Rightarrow> nat" where
  "strlen_null s = (case s of Some s \<Rightarrow> length s | None \<Rightarrow> 0)"

definition enc_size :: "nat \<Rightarrow> string" where
  "enc_size n = le_bytes 8 n"

definition put_str :: "string option \<Rightarrow> string" where
  "put_str s = enc_size (strlen_null s) @ or_empty s"

text \<open>The buffer has the computed length; the copies have to fill it and to stay inside.\<close>

definition cache_record_serialize :: "cache_record \<Rightarrow> string result" where
  "cache_record_serialize rc =
     (let t = rec_tags rc;
          len = 8 + 8 + 8 * 3 + strlen_null (artist t) + strlen_null (album t) + strlen_null (title t) + 4 + 4;
          buf = enc_time (mod_time rc) @ enc_time (atime rc) @ put_str (artist t) @ put_str (album t) @ put_str (title t)
                @ enc_int (track t) @ enc_int (time t)
      in if length buf = len then Inr buf else Inl Undefined)"

text \<open>
  A reader keeps the bytes behind its pointer and the counter \<^verbatim>\<open>bytes_left\<close>, which may differ
  from their number. A read behind the end of the record is undefined; \<open>None\<close> is the jump to
  \<^verbatim>\<open>err\<close>.
\<close>

record cache_reader =
  bytes_left :: nat
  rest_of :: string

definition extract_num :: "nat \<Rightarrow> cache_reader \<Rightarrow> (string \<times> cache_reader) option result" where
  "extract_num w r =
     (if bytes_left r < w then Inr None
      else if length (rest_of r) < w then Inl Undefined
      else Inr (Some (take w (rest_of r), \<lparr>bytes_left = bytes_left r - w, rest_of = drop w (rest_of r)\<rparr>)))"

definition extract_str :: "cache_reader \<Rightarrow> (string \<times> cache_reader) option result" where
  "extract_str r =
     (if bytes_left r < 8 then Inr None
      else if length (rest_of r) < 8 then Inl Undefined
      else
        let str_len = le_val (take 8 (rest_of r)); p = drop 8 (rest_of r) in
        if bytes_left r < str_len then Inr None
        else if length p < str_len then Inl Undefined
        else Inr (Some (c_str (take str_len p), r\<lparr>rest_of := drop str_len p\<rparr>)))"

definition bindO :: "'a option result \<Rightarrow> ('a \<Rightarrow> 'b option result) \<Rightarrow> 'b option result" where
  "bindO m k = bindR m (\<lambda>x. case x of None \<Rightarrow> Inr None | Some x \<Rightarrow> k x)"

definition read_times :: "string \<Rightarrow> nat \<Rightarrow> (int \<times> int \<times> cache_reader) option result" where
  "read_times serialized n =
     bindO (extract_num 8 \<lparr>bytes_left = n, rest_of = serialized\<rparr>) (\<lambda>(m, r).
     bindO (extract_num 8 r) (\<lambda>(a, r). Inr (Some (dec_time m, dec_time a, r))))"

text \<open>The texts of a record are never null pointers once they were read, only empty.\<close>

definition read_tags :: "cache_reader \<Rightarrow> file_tags option result" where
  "read_tags r =
     bindO (extract_str r) (\<lambda>(ar, r). bindO (extract_str r) (\<lambda>(al, r). bindO (extract_str r) (\<lambda>(ti, r).
     bindO (extract_num 4 r) (\<lambda>(tr, r). bindO (extract_num 4 r) (\<lambda>(tm, r).
       let t = tags_new\<lparr>artist := Some ar, album := Some al, title := Some ti, track := dec_int tr, time := dec_int tm\<rparr>;
           t = (if title t \<noteq> None then t\<lparr>filled := filled t OR TAGS_COMMENTS\<rparr> else t\<lparr>artist := None, album := None\<rparr>);
           t = (if time t \<ge> 0 then t\<lparr>filled := filled t OR TAGS_TIME\<rparr> else t)
       in Inr (Some t))))))"

text \<open>With the tags, and (for \<^verbatim>\<open>skip_tags\<close>) only the times, where \<^verbatim>\<open>tags_free\<close> of the
  null pointer fails an assertion on the way out.\<close>

definition cache_record_deserialize :: "string \<Rightarrow> cache_record option result" where
  "cache_record_deserialize serialized =
     bindO (read_times serialized (length serialized)) (\<lambda>(m, a, r).
     bindO (read_tags r) (\<lambda>t. Inr (Some \<lparr>mod_time = m, atime = a, rec_tags = t\<rparr>)))"

definition deserialize_times :: "string \<Rightarrow> (int \<times> int) result" where
  "deserialize_times serialized =
     bindR (read_times serialized (length serialized)) (\<lambda>x.
       case x of None \<Rightarrow> Inl Assert | Some (m, a, r) \<Rightarrow> Inr (m, a))"

section \<open>The cache\<close>

datatype db_answer = Found string | DB_NOTFOUND | Db_error

text \<open>
  The operations of the database: \<open>db_get\<close>, \<open>db_put\<close> and \<open>db_del\<close> on keys, the pairs a
  cursor visits, \<open>db_sync\<close>, and whether the locks are granted and released.
\<close>

record 'd db_ops =
  db_get :: "'d \<Rightarrow> string \<Rightarrow> db_answer"
  db_put :: "'d \<Rightarrow> string \<Rightarrow> string \<Rightarrow> 'd"
  db_del :: "'d \<Rightarrow> string \<Rightarrow> 'd"
  db_cursor :: "'d \<Rightarrow> (string \<times> string) list"
  db_sync :: "'d \<Rightarrow> 'd"
  db_lock_get :: "'d \<Rightarrow> string \<Rightarrow> bool"
  db_lock_put :: "'d \<Rightarrow> string \<Rightarrow> bool"

text \<open>\<open>decoder_of\<close> gives the function that reads the tags of a file, if there is a decoder for it.\<close>

record 'd tags_env =
  t_db :: "'d db_ops"
  t_play :: play_env
  t_now :: int
  decoder_of :: "string \<Rightarrow> (file_tags \<Rightarrow> int \<Rightarrow> file_tags) option"

record 'd tags_cache =
  tdb :: "'d option"
  max_items :: int
  queues :: "request_queue list"
  stop_reader_thread :: bool
  sync_count :: nat

definition tags_cache_init :: "int \<Rightarrow> 'd tags_cache" where
  "tags_cache_init max_size = \<lparr>tdb = None, max_items = max_size, queues = replicate CLIENTS_MAX request_queue_init,
     stop_reader_thread = False, sync_count = 0\<rparr>"

definition the_db :: "'d tags_cache \<Rightarrow> 'd result" where
  "the_db c = (case tdb c of None \<Rightarrow> Inl Undefined | Some d \<Rightarrow> Inr d)"

definition with_db_lock ::
  "'d tags_env \<Rightarrow> string \<Rightarrow> ('d tags_cache \<Rightarrow> ('a \<times> 'd tags_cache) result) \<Rightarrow> 'd tags_cache \<Rightarrow> ('a \<times> 'd tags_cache) result" where
  "with_db_lock E file fn c =
     (case tdb c of None \<Rightarrow> Inl Assert
      | Some d \<Rightarrow>
          if \<not> db_lock_get (t_db E) d file then fatal
          else bindR (fn c) (\<lambda>(x, c). if \<not> db_lock_put (t_db E) d file then fatal else Inr (x, c)))"

definition tags_cache_remove_rec :: "'d tags_env \<Rightarrow> string \<Rightarrow> 'd tags_cache \<Rightarrow> 'd tags_cache result" where
  "tags_cache_remove_rec E fname c = bindR (the_db c) (\<lambda>d. Inr (c\<lparr>tdb := Some (db_del (t_db E) d fname)\<rparr>))"

text \<open>The search for the record that was used longest ago: its key and time, and the number of records.\<close>

definition gc_item :: "string \<times> string \<Rightarrow> string option \<times> int \<times> int \<Rightarrow> (string option \<times> int \<times> int) result" where
  "gc_item kv st =
     (case (kv, st) of ((key, v), (lastref, last_atime, n)) \<Rightarrow>
        bindR (deserialize_times v) (\<lambda>(m, a).
          Inr (if a < last_atime then (Some (c_str key), a, n + 1) else (lastref, last_atime, n + 1))))"

definition tags_cache_gc :: "'d tags_env \<Rightarrow> 'd tags_cache \<Rightarrow> 'd tags_cache result" where
  "tags_cache_gc E c =
     bindR (the_db c) (\<lambda>d.
     bindR (foldR gc_item (db_cursor (t_db E) d) (None, t_now E + 1, 0)) (\<lambda>(lastref, _, nitems).
       case lastref of
         Some key \<Rightarrow> if nitems \<ge> max_items c then tags_cache_remove_rec E key c else Inr c
       | None \<Rightarrow> Inr c))"

definition DB_SYNC_COUNT :: nat where "DB_SYNC_COUNT = 5"

definition tags_cache_sync :: "'d tags_env \<Rightarrow> 'd tags_cache \<Rightarrow> 'd tags_cache result" where
  "tags_cache_sync E c =
     (if DB_SYNC_COUNT = 0 then Inr c
      else if sync_count c + 1 \<ge> DB_SYNC_COUNT then
        bindR (the_db c) (\<lambda>d. Inr (c\<lparr>sync_count := 0, tdb := Some (db_sync (t_db E) d)\<rparr>))
      else Inr (c\<lparr>sync_count := sync_count c + 1\<rparr>))"

definition tags_cache_add :: "'d tags_env \<Rightarrow> string \<Rightarrow> file_tags \<Rightarrow> 'd tags_cache \<Rightarrow> 'd tags_cache result" where
  "tags_cache_add E file tags c =
     bindR (cache_record_serialize \<lparr>mod_time = get_mtime (env_fs (t_play E)) file, atime = t_now E, rec_tags = tags\<rparr>) (\<lambda>data.
     bindR (tags_cache_gc E c) (\<lambda>c.
     bindR (the_db c) (\<lambda>d.
       tags_cache_sync E (c\<lparr>tdb := Some (db_put (t_db E) d file data)\<rparr>))))"

section \<open>Reading tags\<close>

definition read_file_tags :: "'d tags_env \<Rightarrow> string \<Rightarrow> file_tags \<Rightarrow> int \<Rightarrow> file_tags result" where
  "read_file_tags E file tags tags_sel =
     (if file_type_of (env_fs (t_play E)) file = F_URL then Inr tags
      else
        let needed = NOT (filled tags) AND tags_sel in
        if needed = 0 then Inr tags
        else case decoder_of E file of
          None \<Rightarrow> Inr tags
        | Some info \<Rightarrow>
            if needed AND TAGS_COMMENTS \<noteq> 0 \<and> (title tags \<noteq> None \<or> artist tags \<noteq> None \<or> album tags \<noteq> None) then Inl Assert
            else let tags = info tags needed in Inr (tags\<lparr>filled := filled tags OR tags_sel\<rparr>))"

definition read_missing_tags :: "'d tags_env \<Rightarrow> audio \<Rightarrow> string \<Rightarrow> file_tags option \<Rightarrow> int \<Rightarrow> file_tags result" where
  "read_missing_tags E a file tags tags_sel =
     (let tags = (case tags of None \<Rightarrow> tags_new | Some t \<Rightarrow> t) in
      bindR (if tags_sel AND TAGS_TIME \<noteq> 0 then audio_get_ftime (t_play E) file a else Inr (-1)) (\<lambda>t.
        if t \<noteq> -1
        then read_file_tags E file (tags\<lparr>time := t, filled := filled tags OR TAGS_TIME\<rparr>) (tags_sel AND NOT TAGS_TIME)
        else read_file_tags E file tags tags_sel))"

definition locked_read_add ::
  "'d tags_env \<Rightarrow> audio \<Rightarrow> string \<Rightarrow> int \<Rightarrow> int \<Rightarrow> 'd tags_cache \<Rightarrow> (file_tags \<times> 'd tags_cache) result" where
  "locked_read_add E a file tags_sel client_id c =
     (let reread = (\<lambda>tags. bindR (read_missing_tags E a file tags tags_sel) (\<lambda>tags.
                      bindR (tags_cache_add E file tags c) (\<lambda>c. Inr (tags, c)))) in
      case tdb c of None \<Rightarrow> Inl Assert
      | Some d \<Rightarrow>
          (case db_get (t_db E) d file of
             Found s \<Rightarrow>
               bindR (cache_record_deserialize s) (\<lambda>x.
                 case x of
                   None \<Rightarrow> reread None
                 | Some rc \<Rightarrow>
                     if mod_time rc \<noteq> get_mtime (env_fs (t_play E)) file then reread None
                     else if filled (rec_tags rc) AND tags_sel = tags_sel \<and> client_id = -1 then Inr (rec_tags rc, c)
                     else reread (Some (rec_tags rc)))
           | _ \<Rightarrow> reread None))"

text \<open>The tags for a caller inside the server (\<open>client_id = -1\<close>), or else the response to a client.\<close>

definition tags_cache_read_add ::
  "'d tags_env \<Rightarrow> audio \<Rightarrow> string \<Rightarrow> int \<Rightarrow> int \<Rightarrow> 'd tags_cache \<Rightarrow> (file_tags \<times> 'd tags_cache) result" where
  "tags_cache_read_add E a file tags_sel client_id c =
     (if max_items c \<noteq> 0 then with_db_lock E file (locked_read_add E a file tags_sel client_id) c
      else bindR (read_missing_tags E a file None tags_sel) (\<lambda>t. Inr (t, c)))"

definition tags_cache_get_immediate ::
  "'d tags_env \<Rightarrow> audio \<Rightarrow> string \<Rightarrow> int \<Rightarrow> 'd tags_cache \<Rightarrow> (file_tags \<times> 'd tags_cache) result" where
  "tags_cache_get_immediate E a file tags_sel c =
     (if \<not> is_url file then tags_cache_read_add E a file tags_sel (-1) c else Inr (tags_new, c))"

section \<open>Requests of the clients\<close>

definition on_queue ::
  "int \<Rightarrow> (request_queue \<Rightarrow> request_queue result) \<Rightarrow> 'd tags_cache \<Rightarrow> 'd tags_cache result" where
  "on_queue i f c =
     (if 0 \<le> i \<and> i < int CLIENTS_MAX then
        bindR (arr_get (queues c) i) (\<lambda>q. bindR (f q) (\<lambda>q.
        bindR (arr_set (queues c) i q) (\<lambda>qs. Inr (c\<lparr>queues := qs\<rparr>))))
      else Inl Assert)"

definition tags_cache_clear_queue :: "int \<Rightarrow> 'd tags_cache \<Rightarrow> 'd tags_cache result" where
  "tags_cache_clear_queue client_id c = on_queue client_id request_queue_clear c"

definition tags_cache_clear_up_to :: "string \<Rightarrow> int \<Rightarrow> 'd tags_cache \<Rightarrow> 'd tags_cache result" where
  "tags_cache_clear_up_to file client_id c = on_queue client_id (request_queue_clear_up_to file) c"

text \<open>The tags of the cache when they are fresh and complete.\<close>

definition locked_add_request ::
  "'d tags_env \<Rightarrow> string \<Rightarrow> int \<Rightarrow> 'd tags_cache \<Rightarrow> (file_tags option \<times> 'd tags_cache) result" where
  "locked_add_request E file tags_sel c =
     (case tdb c of None \<Rightarrow> Inl Assert
      | Some d \<Rightarrow>
          (case db_get (t_db E) d file of
             Found s \<Rightarrow>
               bindR (cache_record_deserialize s) (\<lambda>x.
                 case x of
                   None \<Rightarrow> Inr (None, c)
                 | Some rc \<Rightarrow>
                     if mod_time rc = get_mtime (env_fs (t_play E)) file \<and> filled (rec_tags rc) AND tags_sel = tags_sel
                     then Inr (Some (rec_tags rc), c) else Inr (None, c))
           | _ \<Rightarrow> Inr (None, c)))"

text \<open>The request is answered at once or put into the queue of the client.\<close>

definition tags_cache_add_request ::
  "'d tags_env \<Rightarrow> string \<Rightarrow> int \<Rightarrow> int \<Rightarrow> 'd tags_cache \<Rightarrow> (file_tags option \<times> 'd tags_cache) result" where
  "tags_cache_add_request E file tags_sel client_id c =
     (if 0 \<le> client_id \<and> client_id < int CLIENTS_MAX then
        bindR (if max_items c \<noteq> 0 then with_db_lock E file (locked_add_request E file tags_sel) c else Inr (None, c)) (\<lambda>(t, c).
          case t of
            Some t \<Rightarrow> Inr (Some t, c)
          | None \<Rightarrow> bindR (on_queue client_id (request_queue_add file tags_sel) c) (\<lambda>c. Inr (None, c)))
      else Inl Assert)"

section \<open>The reader thread\<close>

text \<open>The first queue from \<open>i\<close> on, and below \<open>lim\<close>, that is not empty, or \<open>lim\<close>.\<close>

function scan_queues :: "request_queue list \<Rightarrow> nat \<Rightarrow> nat \<Rightarrow> nat" where
  "scan_queues qs i lim = (if i < lim \<and> request_queue_empty (qs ! i) then scan_queues qs (i + 1) lim else i)"
  by pat_completeness auto

termination
  by (relation "measure (\<lambda>(qs, i, lim). lim - i)") auto

declare scan_queues.simps [simp del]

definition find_queue :: "request_queue list \<Rightarrow> nat \<Rightarrow> nat option" where
  "find_queue qs cq =
     (let i = scan_queues qs cq CLIENTS_MAX in
      if i = CLIENTS_MAX then let i = scan_queues qs 0 cq in if i = cq then None else Some i
      else Some i)"

text \<open>
  One round of the thread: a request is taken from the queue that is next in turn and answered.
  With all queues empty it waits, and starts the round again when it is woken up.
\<close>

definition reader_round ::
  "'d tags_env \<Rightarrow> audio \<Rightarrow> nat \<Rightarrow> 'd tags_cache \<Rightarrow> ((nat \<times> string \<times> file_tags) option \<times> nat \<times> 'd tags_cache) result" where
  "reader_round E a cq c =
     (case find_queue (queues c) cq of
        None \<Rightarrow> Inr (None, cq, c)
      | Some i \<Rightarrow>
          bindR (arr_get (queues c) (int i)) (\<lambda>q.
          bindR (request_queue_pop q) (\<lambda>(r, q).
          bindR (arr_set (queues c) (int i) q) (\<lambda>qs.
            case r of
              None \<Rightarrow> Inl Assert
            | Some (file, tags_sel) \<Rightarrow>
                bindR (tags_cache_read_add E a file tags_sel (int i) (c\<lparr>queues := qs\<rparr>)) (\<lambda>(t, c).
                  Inr (Some (i, file, t), (i + 1) mod CLIENTS_MAX, c))))))"

text \<open>The end of the cache: the thread stops and the queues are emptied.\<close>

definition tags_cache_destroy :: "'d tags_cache \<Rightarrow> 'd tags_cache result" where
  "tags_cache_destroy c =
     foldR (\<lambda>i c. bindR (arr_get (queues c) (int i)) (\<lambda>q. bindR (request_queue_clear q) (\<lambda>q.
              bindR (arr_set (queues c) (int i) q) (\<lambda>qs. Inr (c\<lparr>queues := qs\<rparr>)))))
       [0..<CLIENTS_MAX] (c\<lparr>stop_reader_thread := True, tdb := None\<rparr>)"

end
