(* ===== verification/Tags_Cache_Spec.thy ===== *)
theory Tags_Cache_Spec
  imports Tags_Cache Fifo_Buf
begin

text \<open>
  The cache of tags: the request queues deliver requests in order, a record that was written is
  read back, the cache keeps its limit, and the reader thread answers the clients in turn.
\<close>

section \<open>The request queues\<close>

lemma request_queue_add_ok:
  assumes "queue_inv q"
  obtains q' where "request_queue_add f n q = Inr q'" "queue_inv q'" "pending q' = pending q @ [(f, n)]"
proof -
  obtain xs where xs: "holds q xs" "pending q = map snd xs" using queue_cases [OF assms] .
  have "\<exists>q'. request_queue_add f n q = Inr q' \<and> holds q' (xs @ [(fresh q, (f, n))])"
  proof (cases xs rule: rev_cases)
    case Nil
    then show ?thesis using holds_first(1,2) [of q] holds_first(3) [of q "(f, n)"] xs(1) by (simp add: request_queue_add_def Let_def)
  next
    case (snoc ys y)
    obtain t e' where "y = (t, e')" by (cases y)
    then show ?thesis using holds_last(1-3) [of q ys t e'] holds_last(4) [of q ys t e' "(f, n)"] xs(1) snoc
      by (auto simp: request_queue_add_def Let_def)
  qed
  then obtain q' where "request_queue_add f n q = Inr q'" "holds q' (xs @ [(fresh q, (f, n))])" by blast
  then show ?thesis using that [of q'] xs(2) holds_inv holds_pending by force
qed

lemma request_queue_pop_ok:
  assumes "queue_inv q" and "pending q = r # rs"
  obtains q' where "request_queue_pop q = Inr (Some r, q')" "queue_inv q'" "pending q' = rs"
proof -
  obtain a xs where xs: "holds q ((a, r) # xs)" "map snd xs = rs" using pending_cons [OF assms] .
  note h = holds_cons [OF xs(1)]
  have "(if tail q = Some a then None else tail q) = (if xs = [] then None else tail q)" using h(3,4) by auto
  then show ?thesis using that h(1,2,5) xs(2) by (auto simp: request_queue_pop_def queue_inv_def holds_pending)
qed

lemma request_queue_inv_init: "queue_inv request_queue_init"
  using empty_queue_inv [THEN holds_inv] by (simp add: request_queue_init_def)

lemma request_queue_empty_pending: "queue_inv q \<Longrightarrow> request_queue_empty q \<longleftrightarrow> pending q = []"
  by (simp add: request_queue_empty_def pending_empty)

text \<open>While nodes are released, the tail stays where it was.\<close>

lemma clear_loop_holds:
  "holds q xs \<Longrightarrow> length xs \<le> k \<Longrightarrow> \<exists>q'. clear_loop k (q\<lparr>tail := t\<rparr>) = Inr q' \<and> holds (q'\<lparr>tail := None\<rparr>) []"
proof (induction k arbitrary: q xs)
  case (Suc k)
  show ?case
  proof (cases xs)
    case Nil
    then show ?thesis using Suc.prems by (simp add: holds_def)
  next
    case (Cons x ys)
    obtain a e where x: "x = (a, e)" by (cases x)
    note h = holds_cons [of q a e ys]
    show ?thesis using h(1,2,5) Suc.IH [OF h(5)] Suc.prems Cons x by simp
  qed
qed (auto simp: holds_def)

lemma request_queue_clear_ok:
  assumes "queue_inv q"
  obtains q' where "request_queue_clear q = Inr q'" "queue_inv q'" "pending q' = []"
proof -
  obtain xs where xs: "holds q xs" using queue_cases [OF assms] by blast
  from clear_loop_holds [OF xs holds_length [OF xs], of "tail q"] obtain q' where
    "clear_loop (fresh q) q = Inr q'" "holds (q'\<lparr>tail := None\<rparr>) []" by auto
  then show ?thesis using that [of "q'\<lparr>tail := None\<rparr>"] holds_pending [of "q'\<lparr>tail := None\<rparr>" "[]"]
    by (auto simp: request_queue_clear_def queue_inv_def)
qed

text \<open>The requests behind the first one for the file.\<close>

fun after_file :: "string \<Rightarrow> (string \<times> int) list \<Rightarrow> (string \<times> int) list" where
  "after_file f [] = []"
| "after_file f (r # rs) = (if fst r = f then rs else after_file f rs)"

lemma up_to_loop_holds:
  "holds q xs \<Longrightarrow> length xs \<le> k \<Longrightarrow>
     \<exists>q' ys. up_to_loop k f (q\<lparr>tail := t\<rparr>) = Inr q' \<and> map snd ys = after_file f (map snd xs)
        \<and> tail q' = t \<and> holds (q'\<lparr>tail := (if ys = [] then None else tail q)\<rparr>) ys"
proof (induction k arbitrary: q xs)
  case 0
  then show ?case by (intro exI [of _ "q\<lparr>tail := t\<rparr>"] exI [of _ "[]"]) (simp add: holds_def)
next
  case (Suc k)
  show ?case
  proof (cases xs)
    case Nil
    then show ?thesis using Suc.prems
      by (intro exI [of _ "q\<lparr>tail := t\<rparr>"] exI [of _ "[]"]) (simp add: holds_def)
  next
    case (Cons x ys)
    obtain a e where x: "x = (a, e)" by (cases x)
    note h = holds_cons [of q a e ys]
    let ?q = "q\<lparr>nodes := (nodes q)(a := None), head := next_of ys, tail := (if ys = [] then None else tail q)\<rparr>"
    show ?thesis
    proof (cases "fst e = f")
      case True
      then show ?thesis using h(1,2,5) Suc.prems Cons x
        by (intro exI [of _ "q\<lparr>nodes := (nodes q)(a := None), head := next_of ys, tail := t\<rparr>"] exI [of _ ys]) (simp add: Let_def)
    next
      case False
      from Suc.IH [of ?q ys] h(5) Suc.prems Cons x obtain q' zs where z:
        "up_to_loop k f (?q\<lparr>tail := t\<rparr>) = Inr q'" "map snd zs = after_file f (map snd ys)" "tail q' = t"
        "holds (q'\<lparr>tail := (if zs = [] then None else tail ?q)\<rparr>) zs" by auto
      have "zs \<noteq> [] \<Longrightarrow> ys \<noteq> []" using z(2) by (cases ys) auto
      then have "holds (q'\<lparr>tail := (if zs = [] then None else tail q)\<rparr>) zs" using z(4) by (cases "zs = []") auto
      then show ?thesis using False h(1,2) z(1-3) Suc.prems Cons x by (intro exI [of _ q'] exI [of _ zs]) (simp add: Let_def)
    qed
  qed
qed

lemma request_queue_clear_up_to_ok:
  assumes "queue_inv q"
  obtains q' where "request_queue_clear_up_to f q = Inr q'" "queue_inv q'" "pending q' = after_file f (pending q)"
proof -
  obtain xs where xs: "holds q xs" "pending q = map snd xs" using queue_cases [OF assms] .
  from up_to_loop_holds [OF xs(1) holds_length [OF xs(1)], of f "tail q"] obtain q' ys where
    q': "up_to_loop (fresh q) f q = Inr q'" "map snd ys = after_file f (pending q)" "tail q' = tail q"
    "holds (q'\<lparr>tail := (if ys = [] then None else tail q)\<rparr>) ys" using xs(2) by auto
  have "head q' = None \<longleftrightarrow> ys = []" using q'(4) by (cases ys) (auto simp: holds_def)
  then have "(if head q' = None then q'\<lparr>tail := None\<rparr> else q') = q'\<lparr>tail := (if ys = [] then None else tail q)\<rparr>"
    using q'(3) by auto
  then have "request_queue_clear_up_to f q = Inr (q'\<lparr>tail := (if ys = [] then None else tail q)\<rparr>)"
    using q'(1) by (simp add: request_queue_clear_up_to_def)
  then show ?thesis using that q'(2,4) by (auto simp: queue_inv_def holds_pending)
qed

text \<open>The request queue meets the contract of a queue.\<close>

definition add_requests :: "(string \<times> int) list \<Rightarrow> request_queue \<Rightarrow> (nat \<times> request_queue) result" where
  "add_requests rs q = bindR (foldR (\<lambda>(f, n). request_queue_add f n) rs q) (\<lambda>q. Inr (length rs, q))"

fun pop_requests :: "nat \<Rightarrow> request_queue \<Rightarrow> ((string \<times> int) list \<times> request_queue) result" where
  "pop_requests 0 q = Inr ([], q)"
| "pop_requests (Suc k) q =
     bindR (request_queue_pop q) (\<lambda>(r, q).
       case r of None \<Rightarrow> Inr ([], q) | Some r \<Rightarrow> bindR (pop_requests k q) (\<lambda>(rs, q). Inr (r # rs, q)))"

lemma add_requests_ok:
  "queue_inv q \<Longrightarrow> \<exists>q'. foldR (\<lambda>(f, n). request_queue_add f n) rs q = Inr q' \<and> queue_inv q' \<and> pending q' = pending q @ rs"
proof (induction rs arbitrary: q)
  case (Cons r rs)
  obtain f n where r: "r = (f, n)" by fastforce
  obtain q1 where q1: "request_queue_add f n q = Inr q1" "queue_inv q1" "pending q1 = pending q @ [(f, n)]"
    using request_queue_add_ok [OF Cons.prems] .
  from Cons.IH [OF q1(2)] q1 r show ?case by auto
qed auto

lemma pop_requests_ok:
  "queue_inv q \<Longrightarrow> \<exists>q'. pop_requests k q = Inr (take k (pending q), q') \<and> queue_inv q' \<and> pending q' = drop k (pending q)"
proof (induction k arbitrary: q)
  case (Suc k)
  show ?case
  proof (cases "pending q")
    case Nil
    then have "head q = None" using pending_empty [OF Suc.prems] by simp
    then show ?thesis using Nil Suc.prems by (simp add: request_queue_pop_def)
  next
    case (Cons r rs)
    obtain q1 where "request_queue_pop q = Inr (Some r, q1)" "queue_inv q1" "pending q1 = rs"
      using request_queue_pop_ok [OF Suc.prems Cons] .
    with Suc.IH [of q1] Cons show ?thesis by auto
  qed
qed auto

interpretation request_fifo: fifo queue_inv pending add_requests pop_requests
proof unfold_locales
  fix q :: request_queue and rs
  assume "queue_inv q"
  from add_requests_ok [OF this, of rs]
  show "\<exists>n s'. add_requests rs q = Inr (n, s') \<and> queue_inv s' \<and> n \<le> length rs \<and> pending s' = pending q @ take n rs"
    by (auto simp: add_requests_def)
next
  fix q :: request_queue and k
  assume "queue_inv q"
  from pop_requests_ok [OF this]
  show "\<exists>s'. pop_requests k q = Inr (take k (pending q), s') \<and> queue_inv s' \<and> pending s' = drop k (pending q)" .
qed

section \<open>Records\<close>

definition size_ok :: "string option \<Rightarrow> bool" where
  "size_ok s \<longleftrightarrow> strlen_null s < 2 ^ 64"

definition small_tags :: "file_tags \<Rightarrow> bool" where
  "small_tags t \<longleftrightarrow> size_ok (artist t) \<and> size_ok (album t) \<and> size_ok (title t)"

definition record_bytes :: "cache_record \<Rightarrow> string" where
  "record_bytes rc = enc_time (mod_time rc) @ enc_time (atime rc) @ put_str (artist (rec_tags rc)) @ put_str (album (rec_tags rc))
     @ put_str (title (rec_tags rc)) @ enc_int (track (rec_tags rc)) @ enc_int (time (rec_tags rc))"

lemma strlen_or_empty: "strlen_null s = length (or_empty s)"
  by (simp add: strlen_null_def or_empty_def split: option.split)

lemma length_put_str [simp]: "length (put_str s) = 8 + strlen_null s"
  by (simp add: put_str_def enc_size_def strlen_or_empty)

lemma serialize_bytes: "cache_record_serialize rc = Inr (record_bytes rc)"
  by (simp add: cache_record_serialize_def record_bytes_def Let_def)

lemma extract_num_bytes:
  "length s = w \<Longrightarrow> w \<le> n \<Longrightarrow> extract_num w \<lparr>bytes_left = n, rest_of = s @ r\<rparr> = Inr (Some (s, \<lparr>bytes_left = n - w, rest_of = r\<rparr>))"
  by (simp add: extract_num_def)

lemma extract_str_bytes:
  assumes "size_ok s" and "8 + strlen_null s \<le> n"
  shows "extract_str \<lparr>bytes_left = n, rest_of = put_str s @ r\<rparr> = Inr (Some (c_str (or_empty s), \<lparr>bytes_left = n, rest_of = r\<rparr>))"
proof -
  have "le_val (enc_size (strlen_null s)) = strlen_null s"
    using assms(1) by (simp add: enc_size_def le_val_bytes size_ok_def)
  moreover have "length (enc_size (strlen_null s)) = 8" by (simp add: enc_size_def)
  ultimately show ?thesis using assms(2) by (simp add: extract_str_def put_str_def Let_def strlen_or_empty)
qed

text \<open>The tags a record gives: a text that was absent is empty, and comments always count as filled.\<close>

definition cached_tags :: "file_tags \<Rightarrow> file_tags" where
  "cached_tags t = \<lparr>title = Some (c_str (or_empty (title t))), artist = Some (c_str (or_empty (artist t))), album = Some (c_str (or_empty (album t))),
     track = wrapS 32 (track t), time = wrapS 32 (time t), filled = (if wrapS 32 (time t) \<ge> 0 then TAGS_COMMENTS OR TAGS_TIME else TAGS_COMMENTS)\<rparr>"

lemma dec_enc_int_wrap: "dec_int (enc_int i) = wrapS 32 i"
proof -
  have "nat (wrapU 32 i) < 256 ^ 4" by (simp add: wrapU_def nat_less_iff)
  then have "int (le_val (enc_int i)) = wrapU 32 i" by (simp add: enc_int_def le_val_bytes wrapU_def)
  then show ?thesis using wrapS_wrapU [of 32 i] by (simp add: dec_int_def)
qed

lemma dec_enc_time_wrap: "dec_time (enc_time i) = wrapS 64 i"
proof -
  have "nat (wrapU 64 i) < 256 ^ 8" by (simp add: wrapU_def nat_less_iff)
  then have "int (le_val (enc_time i)) = wrapU 64 i" by (simp add: enc_time_def le_val_bytes wrapU_def)
  then show ?thesis using wrapS_wrapU [of 64 i] by (simp add: dec_time_def)
qed

lemma bindO_Some [simp]: "bindO (Inr (Some x)) k = k x"
  by (simp add: bindO_def)

lemma read_times_bytes:
  "16 \<le> n \<Longrightarrow> read_times (enc_time m @ enc_time a @ r) n = Inr (Some (wrapS 64 m, wrapS 64 a, \<lparr>bytes_left = n - 16, rest_of = r\<rparr>))"
  by (simp add: read_times_def extract_num_bytes dec_enc_time_wrap)

lemma read_tags_bytes:
  assumes "small_tags t" and "32 + strlen_null (artist t) + strlen_null (album t) + strlen_null (title t) \<le> n"
  shows "read_tags \<lparr>bytes_left = n, rest_of = put_str (artist t) @ put_str (album t) @ put_str (title t) @ enc_int (track t) @ enc_int (time t)\<rparr>
    = Inr (Some (cached_tags t))"
  using assms extract_num_bytes [of "enc_int (time t)" 4 "n - 4" "[]"]
  by (simp add: read_tags_def small_tags_def extract_str_bytes extract_num_bytes dec_enc_int_wrap cached_tags_def tags_new_def Let_def)

lemma deserialize_bytes:
  assumes "small_tags (rec_tags rc)"
  shows "cache_record_deserialize (record_bytes rc)
    = Inr (Some \<lparr>mod_time = wrapS 64 (mod_time rc), atime = wrapS 64 (atime rc), rec_tags = cached_tags (rec_tags rc)\<rparr>)"
  unfolding cache_record_deserialize_def
  using assms by (simp add: record_bytes_def read_times_bytes read_tags_bytes)

lemma deserialize_times_bytes: "deserialize_times (record_bytes rc) = Inr (wrapS 64 (mod_time rc), wrapS 64 (atime rc))"
  by (simp add: deserialize_times_def record_bytes_def read_times_bytes)

section \<open>The database\<close>

text \<open>What the database promises when no operation fails.\<close>

definition db_laws :: "'d db_ops \<Rightarrow> bool" where
  "db_laws D \<longleftrightarrow>
     (\<forall>d k v k'. db_get D (db_put D d k v) k' = (if k' = k then Found v else db_get D d k'))
     \<and> (\<forall>d k k'. db_get D (db_del D d k) k' = (if k' = k then DB_NOTFOUND else db_get D d k'))
     \<and> (\<forall>d k. db_get D (db_sync D d) k = db_get D d k)
     \<and> (\<forall>d. distinct (map fst (db_cursor D d)) \<and> (\<forall>k v. (k, v) \<in> set (db_cursor D d) \<longleftrightarrow> db_get D d k = Found v))
     \<and> (\<forall>d k. db_lock_get D d k \<and> db_lock_put D d k)"

definition rec_ok :: "string \<Rightarrow> bool" where
  "rec_ok v \<longleftrightarrow> (\<exists>rc. v = record_bytes rc \<and> small_tags (rec_tags rc))"

definition db_fine :: "'d db_ops \<Rightarrow> 'd \<Rightarrow> bool" where
  "db_fine D d \<longleftrightarrow> (\<forall>k v. db_get D d k = Found v \<longrightarrow> rec_ok v)"

lemma rec_times: "rec_ok v \<Longrightarrow> \<exists>m a. deserialize_times v = Inr (m, a)"
  by (auto simp: rec_ok_def deserialize_times_bytes)

lemma gc_item_step:
  "deserialize_times v = Inr (m, a) \<Longrightarrow>
    gc_item (k, v) (l, t, n) = Inr (if a < t then (Some (c_str k), a, n + 1) else (l, t, n + 1))"
  by (simp add: gc_item_def)

lemma gc_fold:
  assumes "\<forall>(k, v)\<in>set xs. rec_ok v"
  shows "\<exists>l' t'. foldR gc_item xs (l, t, n) = Inr (l', t', n + int (length xs)) \<and> (l' = l \<or> (\<exists>k\<in>fst ` set xs. l' = Some (c_str k)))
     \<and> (l \<noteq> None \<or> (\<exists>(k, v)\<in>set xs. \<forall>m a. deserialize_times v = Inr (m, a) \<longrightarrow> a < t) \<longrightarrow> l' \<noteq> None)"
  using assms
proof (induction xs arbitrary: l t n)
  case (Cons x xs)
  obtain k v where x: "x = (k, v)" by (cases x)
  obtain m a where d: "deserialize_times v = Inr (m, a)" using Cons.prems x rec_times [of v] by auto
  have pr: "\<forall>(k, v)\<in>set xs. rec_ok v" using Cons.prems by simp
  show ?case
  proof (cases "a < t")
    case True
    from Cons.IH [OF pr, of "Some (c_str k)" a "n + 1"] obtain l' t' where
      r: "foldR gc_item xs (Some (c_str k), a, n + 1) = Inr (l', t', n + 1 + int (length xs))"
      "l' = Some (c_str k) \<or> (\<exists>k\<in>fst ` set xs. l' = Some (c_str k))" "l' \<noteq> None" by blast
    then show ?thesis using x d True by (intro exI [of _ l'] exI [of _ t']) (auto simp: gc_item_step)
  next
    case False
    from Cons.IH [OF pr, of l t "n + 1"] obtain l' t' where
      r: "foldR gc_item xs (l, t, n + 1) = Inr (l', t', n + 1 + int (length xs))"
      "l' = l \<or> (\<exists>k\<in>fst ` set xs. l' = Some (c_str k))"
      "l \<noteq> None \<or> (\<exists>(k, v)\<in>set xs. \<forall>m a. deserialize_times v = Inr (m, a) \<longrightarrow> a < t) \<longrightarrow> l' \<noteq> None" by blast
    then show ?thesis using x d False by (intro exI [of _ l'] exI [of _ t']) (auto simp: gc_item_step)
  qed
qed auto

text \<open>A cache with an open database in which all records are readable.\<close>

definition opened :: "'d tags_env \<Rightarrow> 'd tags_cache \<Rightarrow> bool" where
  "opened E c \<longleftrightarrow> (\<exists>d. tdb c = Some d \<and> db_fine (t_db E) d)"

lemma cursor_fine: "db_laws D \<Longrightarrow> db_fine D d \<Longrightarrow> \<forall>(k, v)\<in>set (db_cursor D d). rec_ok v"
  by (auto simp: db_laws_def db_fine_def)

lemma gc_ok:
  assumes "db_laws (t_db E)" and "tdb c = Some d" and "db_fine (t_db E) d"
  shows "\<exists>d'. tags_cache_gc E c = Inr (c\<lparr>tdb := Some d'\<rparr>) \<and> (d' = d \<or> (\<exists>k. d' = db_del (t_db E) d k))"
proof -
  from gc_fold [OF cursor_fine [OF assms(1,3)], of None "t_now E + 1" 0] obtain l t where
    "foldR gc_item (db_cursor (t_db E) d) (None, t_now E + 1, 0) = Inr (l, t, int (length (db_cursor (t_db E) d)))" by auto
  moreover have "c = c\<lparr>tdb := Some d\<rparr>" using assms(2) by (cases c) simp
  ultimately show ?thesis using assms(2)
    by (cases l) (auto simp: tags_cache_gc_def the_db_def tags_cache_remove_rec_def intro: exI [of _ d])
qed

lemma db_del_fine: "db_laws D \<Longrightarrow> db_fine D d \<Longrightarrow> db_fine D (db_del D d k)"
  by (simp add: db_laws_def db_fine_def)

lemma db_put_fine: "db_laws D \<Longrightarrow> db_fine D d \<Longrightarrow> rec_ok v \<Longrightarrow> db_fine D (db_put D d k v)"
  by (simp add: db_laws_def db_fine_def)

lemma db_sync_fine: "db_laws D \<Longrightarrow> db_fine D d \<Longrightarrow> db_fine D (db_sync D d)"
  by (simp add: db_laws_def db_fine_def)

text \<open>The record a call of \<open>tags_cache_add\<close> writes, and the database behind it.\<close>

definition new_record :: "'d tags_env \<Rightarrow> string \<Rightarrow> file_tags \<Rightarrow> cache_record" where
  "new_record E file tags = \<lparr>mod_time = get_mtime (env_fs (t_play E)) file, atime = t_now E, rec_tags = tags\<rparr>"

lemma add_ok:
  assumes "db_laws (t_db E)" and "tdb c = Some d" and "db_fine (t_db E) d"
  shows "\<exists>d1 d' n. tags_cache_gc E c = Inr (c\<lparr>tdb := Some d1\<rparr>) \<and> (d1 = d \<or> (\<exists>k. d1 = db_del (t_db E) d k))
    \<and> tags_cache_add E file tags c = Inr (c\<lparr>tdb := Some d', sync_count := n\<rparr>)
    \<and> (d' = db_put (t_db E) d1 file (record_bytes (new_record E file tags))
       \<or> d' = db_sync (t_db E) (db_put (t_db E) d1 file (record_bytes (new_record E file tags))))"
proof -
  obtain d1 where d1: "tags_cache_gc E c = Inr (c\<lparr>tdb := Some d1\<rparr>)" "d1 = d \<or> (\<exists>k. d1 = db_del (t_db E) d k)"
    using gc_ok [OF assms] by blast
  let ?d = "db_put (t_db E) d1 file (record_bytes (new_record E file tags))"
  have "tags_cache_sync E (c\<lparr>tdb := Some ?d\<rparr>) = Inr (c\<lparr>tdb := Some (db_sync (t_db E) ?d), sync_count := 0\<rparr>)
      \<or> tags_cache_sync E (c\<lparr>tdb := Some ?d\<rparr>) = Inr (c\<lparr>tdb := Some ?d, sync_count := Suc (sync_count c)\<rparr>)"
    by (cases c) (simp add: tags_cache_sync_def the_db_def DB_SYNC_COUNT_def)
  then show ?thesis using d1
    by (auto simp: tags_cache_add_def serialize_bytes the_db_def new_record_def)
qed

lemma add_get:
  assumes "db_laws (t_db E)" and "tdb c = Some d" and "db_fine (t_db E) d" and "small_tags tags"
  shows "\<exists>d' n. tags_cache_add E file tags c = Inr (c\<lparr>tdb := Some d', sync_count := n\<rparr>) \<and> db_fine (t_db E) d'
    \<and> db_get (t_db E) d' file = Found (record_bytes (new_record E file tags))"
proof -
  obtain d1 d' n where a: "d1 = d \<or> (\<exists>k. d1 = db_del (t_db E) d k)" "tags_cache_add E file tags c = Inr (c\<lparr>tdb := Some d', sync_count := n\<rparr>)"
    "d' = db_put (t_db E) d1 file (record_bytes (new_record E file tags))
       \<or> d' = db_sync (t_db E) (db_put (t_db E) d1 file (record_bytes (new_record E file tags)))"
    using add_ok [OF assms(1-3)] by blast
  have "rec_ok (record_bytes (new_record E file tags))"
    using assms(4) by (auto simp: rec_ok_def new_record_def intro!: exI [of _ "new_record E file tags"])
  moreover have "db_fine (t_db E) d1" using a(1) assms(3) db_del_fine [OF assms(1)] by blast
  ultimately have "db_fine (t_db E) d'" using a(3) db_put_fine [OF assms(1)] db_sync_fine [OF assms(1)] by blast
  moreover have "db_get (t_db E) d' file = Found (record_bytes (new_record E file tags))"
    using a(3) assms(1) by (auto simp: db_laws_def)
  ultimately show ?thesis using a(2) by blast
qed

section \<open>The cache gives back what was put into it\<close>

text \<open>Tags that were read completely.\<close>

definition complete_tags :: "file_tags \<Rightarrow> bool" where
  "complete_tags t \<longleftrightarrow> (\<forall>s\<in>{title t, artist t, album t}. \<exists>x. s = Some x \<and> NUL \<notin> set x \<and> length x < 2 ^ 64)
     \<and> int32 (track t) \<and> int32 (time t) \<and> 0 \<le> time t \<and> filled t = TAGS_COMMENTS OR TAGS_TIME"

lemma complete_small: "complete_tags t \<Longrightarrow> small_tags t"
  by (auto simp: complete_tags_def small_tags_def size_ok_def strlen_null_def)

lemma complete_cached: "complete_tags t \<Longrightarrow> cached_tags t = t"
  using wrapS_id [of 32 "track t"] wrapS_id [of 32 "time t"]
  by (cases t) (auto simp: complete_tags_def cached_tags_def or_empty_def int32_def)

text \<open>
  A request for a file with a record is answered from it when the file still has the
  modification time of the record and the record has what is asked for; otherwise it is queued.
\<close>

lemma locked_add_request_record:
  assumes "db_laws (t_db E)" and "tdb c = Some d"
    and "db_get (t_db E) d file = Found (record_bytes rc)" and "small_tags (rec_tags rc)"
  shows "with_db_lock E file (locked_add_request E file sel) c =
    Inr (if wrapS 64 (mod_time rc) = get_mtime (env_fs (t_play E)) file \<and> filled (cached_tags (rec_tags rc)) AND sel = sel
         then Some (cached_tags (rec_tags rc)) else None, c)"
proof -
  have l: "db_lock_get (t_db E) d file" "db_lock_put (t_db E) d file" using assms(1) by (auto simp: db_laws_def)
  show ?thesis using assms(2-4) l
    by (simp add: with_db_lock_def locked_add_request_def deserialize_bytes)
qed

lemma add_request_cached:
  assumes "db_laws (t_db E)" and "tdb c = Some d" and "max_items c \<noteq> 0" and "i < CLIENTS_MAX"
    and "db_get (t_db E) d file = Found (record_bytes rc)" and "small_tags (rec_tags rc)"
    and "wrapS 64 (mod_time rc) = get_mtime (env_fs (t_play E)) file" and "filled (cached_tags (rec_tags rc)) AND sel = sel"
  shows "tags_cache_add_request E file sel (int i) c = Inr (Some (cached_tags (rec_tags rc)), c)"
  using assms(3,4,7,8) locked_add_request_record [OF assms(1,2,5,6), of sel] by (simp add: tags_cache_add_request_def)

lemma add_request_queued:
  assumes "db_laws (t_db E)" and "tdb c = Some d" and "max_items c \<noteq> 0" and "i < CLIENTS_MAX"
    and "db_get (t_db E) d file = Found (record_bytes rc)" and "small_tags (rec_tags rc)"
    and "\<not> (wrapS 64 (mod_time rc) = get_mtime (env_fs (t_play E)) file \<and> filled (cached_tags (rec_tags rc)) AND sel = sel)"
    and "length (queues c) = CLIENTS_MAX" and "queue_inv (queues c ! i)"
  shows "\<exists>q. tags_cache_add_request E file sel (int i) c = Inr (None, c\<lparr>queues := (queues c)[i := q]\<rparr>)
    \<and> queue_inv q \<and> pending q = pending (queues c ! i) @ [(file, sel)]"
proof -
  obtain q where q: "request_queue_add file sel (queues c ! i) = Inr q" "queue_inv q" "pending q = pending (queues c ! i) @ [(file, sel)]"
    using request_queue_add_ok [OF assms(9)] .
  then have "on_queue (int i) (request_queue_add file sel) c = Inr (c\<lparr>queues := (queues c)[i := q]\<rparr>)"
    using assms(4,8) by (simp add: on_queue_def)
  moreover have "with_db_lock E file (locked_add_request E file sel) c = Inr (None, c)"
    using locked_add_request_record [OF assms(1,2,5,6), of sel] assms(7) by (simp only: if_False)
  ultimately have "tags_cache_add_request E file sel (int i) c = Inr (None, c\<lparr>queues := (queues c)[i := q]\<rparr>)"
    using assms(3,4) by (simp add: tags_cache_add_request_def)
  with q show ?thesis by blast
qed

text \<open>
  C29: What the cache answers after tags were added to it, whatever happened to be removed to make
  room for them. As long as the file keeps its modification time, a request for comments, or for the
  time when it is known, is answered at once, with the tags as they were added except that
  texts are cut at their first NUL, that an absent text comes back empty, and that comments always
  count as read (\<open>cached_tags\<close>); complete tags come back unchanged. Every other request (the file was
  modified, or the time is asked for and not known) is not answered from the record but put at the end of
  the client's queue.
\<close>

theorem tags_cache_answers:
  assumes "db_laws (t_db E)" and "tdb c = Some d" and "db_fine (t_db E) d" and "max_items c \<noteq> 0"
    and "small_tags tags" and "int64 (get_mtime (env_fs (t_play E)) file)" and "i < CLIENTS_MAX"
    and "length (queues c) = CLIENTS_MAX" and "queue_inv (queues c ! i)" and "t_db E' = t_db E"
  shows "\<exists>c'. tags_cache_add E file tags c = Inr c' \<and> queues c' = queues c
    \<and> (if get_mtime (env_fs (t_play E')) file = get_mtime (env_fs (t_play E)) file \<and> filled (cached_tags tags) AND sel = sel
        then tags_cache_add_request E' file sel (int i) c' = Inr (Some (cached_tags tags), c')
        else \<exists>q. tags_cache_add_request E' file sel (int i) c' = Inr (None, c'\<lparr>queues := (queues c)[i := q]\<rparr>)
               \<and> pending q = pending (queues c ! i) @ [(file, sel)])
    \<and> (complete_tags tags \<longrightarrow> cached_tags tags = tags)"
proof -
  obtain d' n where a: "tags_cache_add E file tags c = Inr (c\<lparr>tdb := Some d', sync_count := n\<rparr>)"
    "db_get (t_db E) d' file = Found (record_bytes (new_record E file tags))"
    using add_get [OF assms(1-3,5)] by blast
  let ?c = "c\<lparr>tdb := Some d', sync_count := n\<rparr>" and ?rc = "new_record E file tags"
  have rc: "rec_tags ?rc = tags" "wrapS 64 (mod_time ?rc) = get_mtime (env_fs (t_play E)) file"
    using assms(6) wrapS_id [of 64] by (simp_all add: new_record_def int64_def)
  have req: "db_laws (t_db E')" "db_get (t_db E') d' file = Found (record_bytes ?rc)" using assms(1,10) a(2) by simp_all
  show ?thesis
  proof (cases "get_mtime (env_fs (t_play E')) file = get_mtime (env_fs (t_play E)) file \<and> filled (cached_tags tags) AND sel = sel")
    case True
    then show ?thesis using a(1) rc add_request_cached [of E' ?c d' i "file" ?rc sel] req assms(4,5,7) complete_cached [of tags] by auto
  next
    case False
    have "\<not> (wrapS 64 (mod_time ?rc) = get_mtime (env_fs (t_play E')) file \<and> filled (cached_tags (rec_tags ?rc)) AND sel = sel)"
      using False rc by metis
    from add_request_queued [of E' ?c d' i "file" ?rc sel, OF _ _ _ _ _ _ this] False show ?thesis
      using a(1) rc req assms(4,5,7-9) complete_cached [of tags] by (simp only: if_False) fastforce
  qed
qed

text \<open>A database as an association list, newest entry first.\<close>

definition list_db :: "(string \<times> string) list db_ops" where
  "list_db = \<lparr>db_get = (\<lambda>d k. case map_of d k of Some v \<Rightarrow> Found v | None \<Rightarrow> DB_NOTFOUND),
     db_put = (\<lambda>d k v. (k, v) # d), db_del = (\<lambda>d k. filter (\<lambda>x. fst x \<noteq> k) d),
     db_cursor = (\<lambda>d. map (\<lambda>k. (k, the (map_of d k))) (remdups (map fst d))), db_sync = id,
     db_lock_get = (\<lambda>_ _. True), db_lock_put = (\<lambda>_ _. True)\<rparr>"

lemma list_db_laws: "db_laws list_db"
proof -
  have "map_of (filter (\<lambda>x. fst x \<noteq> k) d) k' = (if k' = k then None else map_of d k')" for d :: "(string \<times> string) list" and k k'
    by (induction d) auto
  moreover have "(k, v) \<in> set (map (\<lambda>k. (k, the (map_of d k))) (remdups (map fst d))) \<longleftrightarrow> map_of d k = Some v"
    for d :: "(string \<times> string) list" and k v
  proof -
    have "k \<in> fst ` set d \<longleftrightarrow> map_of d k \<noteq> None" by (simp add: map_of_eq_None_iff)
    then show ?thesis by (cases "map_of d k") auto
  qed
  ultimately show ?thesis by (auto simp: db_laws_def list_db_def comp_def split: option.splits)
qed

definition sample_tags_env :: "(string \<times> string) list tags_env" where
  "sample_tags_env = \<lparr>t_db = list_db, t_play = \<lparr>env_fs = \<lparr>fs_stat = (\<lambda>_. Some (False, 77)), fs_readable = (\<lambda>_. True), fs_sound = (\<lambda>_. True)\<rparr>,
     env_coll = (\<lambda>a b. 0), env_rand = (\<lambda>_. 0)\<rparr>, t_now = 1000, decoder_of = (\<lambda>_. None)\<rparr>"

definition sample_tags :: file_tags where
  "sample_tags = \<lparr>title = Some ''So What'', artist = Some ''Miles'', album = Some [], track = 1, time = 545, filled = 3\<rparr>"

theorem tags_cache_answers_witness:
  "\<exists>c'. tags_cache_add sample_tags_env ''/a'' sample_tags ((tags_cache_init 1)\<lparr>tdb := Some []\<rparr>) = Inr c'
    \<and> tags_cache_add_request (sample_tags_env\<lparr>t_now := 2000\<rparr>) ''/a'' TAGS_COMMENTS (int 3) c' = Inr (Some sample_tags, c')"
proof -
  let ?E = "sample_tags_env" and ?E' = "sample_tags_env\<lparr>t_now := 2000\<rparr>" and ?c = "(tags_cache_init 1)\<lparr>tdb := Some []\<rparr>"
  have t: "complete_tags sample_tags" by (simp add: complete_tags_def sample_tags_def int32_def TAGS_COMMENTS_def TAGS_TIME_def NUL_def)
  have l: "db_laws (t_db ?E)" by (simp add: sample_tags_env_def list_db_laws)
  have f: "db_fine (t_db ?E) []" by (simp add: sample_tags_env_def db_fine_def list_db_def)
  have q: "length (queues ?c) = CLIENTS_MAX" "queue_inv (queues ?c ! 3)"
    by (simp_all add: tags_cache_init_def CLIENTS_MAX_def request_queue_inv_init)
  have m: "int64 (get_mtime (env_fs (t_play ?E)) ''/a'')" by (simp add: sample_tags_env_def get_mtime_def int64_def)
  have "max_items ?c \<noteq> 0" "(3::nat) < CLIENTS_MAX" "tdb ?c = Some []" "t_db ?E' = t_db ?E"
    by (simp_all add: tags_cache_init_def CLIENTS_MAX_def)
  note answer = tags_cache_answers [OF l this(3) f this(1) complete_small [OF t] m this(2) q this(4), of TAGS_COMMENTS]
  have "filled (cached_tags sample_tags) AND TAGS_COMMENTS = TAGS_COMMENTS" by code_simp
  then show ?thesis using answer t by auto
qed

text \<open>
  What the record cannot say is whether the comments were ever read: after a request for the time
  alone, a request for the comments is answered with empty texts, although the decoder was never
  asked for them.
\<close>

lemma unread_comments_answered:
  assumes "db_laws (t_db E)" and "tdb c = Some d" and "db_fine (t_db E) d" and "max_items c \<noteq> 0"
    and "int64 (get_mtime (env_fs (t_play E)) file)" and "i < CLIENTS_MAX" and "0 \<le> t" "int32 t"
  shows "\<exists>c' a. tags_cache_add E file (tags_new\<lparr>time := t, filled := TAGS_TIME\<rparr>) c = Inr c'
    \<and> tags_cache_add_request E file TAGS_COMMENTS (int i) c' = Inr (Some a, c') \<and> title a = Some [] \<and> artist a = Some []"
proof -
  let ?t = "tags_new\<lparr>time := t, filled := TAGS_TIME\<rparr>"
  have s: "small_tags ?t" by (simp add: small_tags_def size_ok_def tags_new_def strlen_null_def)
  obtain d' n where a: "tags_cache_add E file ?t c = Inr (c\<lparr>tdb := Some d', sync_count := n\<rparr>)"
    "db_get (t_db E) d' file = Found (record_bytes (new_record E file ?t))"
    using add_get [OF assms(1-3) s] by blast
  have m: "wrapS 64 (get_mtime (env_fs (t_play E)) file) = get_mtime (env_fs (t_play E)) file"
    using assms(5) wrapS_id [of 64] by (simp add: int64_def)
  have f: "filled (cached_tags ?t) AND TAGS_COMMENTS = TAGS_COMMENTS" by (simp add: cached_tags_def TAGS_COMMENTS_def TAGS_TIME_def)
  have "tags_cache_add_request E file TAGS_COMMENTS (int i) (c\<lparr>tdb := Some d', sync_count := n\<rparr>)
      = Inr (Some (cached_tags (rec_tags (new_record E file ?t))), c\<lparr>tdb := Some d', sync_count := n\<rparr>)"
    by (rule add_request_cached [where d = d']) (use assms(1,4,6) a(2) f m s in \<open>simp_all add: new_record_def\<close>)
  then show ?thesis using a(1) by (auto simp: new_record_def cached_tags_def tags_new_def or_empty_def)
qed

text \<open>
  A corrupt record is worse: the counter of the bytes that are left does not count the texts, so
  that a text may be read far behind the end of the record.
\<close>

lemma corrupt_record_overrun:
  "cache_record_deserialize (enc_time 0 @ enc_time 0 @ enc_size 8 @ ''abcdefgh'' @ enc_size 9 @ ''abc'') = Inl Undefined"
  by (simp add: cache_record_deserialize_def read_times_bytes read_tags_def extract_str_def enc_size_def le_val_bytes Let_def bindO_def)

section \<open>The limit of the cache\<close>

definition db_size :: "'d db_ops \<Rightarrow> 'd \<Rightarrow> int" where
  "db_size D d = int (length (db_cursor D d))"

definition db_keys :: "'d db_ops \<Rightarrow> 'd \<Rightarrow> string set" where
  "db_keys D d = {k. \<exists>v. db_get D d k = Found v}"

lemma cursor_iff: "db_laws D \<Longrightarrow> db_get D d k = Found v \<longleftrightarrow> (k, v) \<in> set (db_cursor D d)"
  by (simp add: db_laws_def)

lemma db_keys_cursor: "db_laws D \<Longrightarrow> db_keys D d = set (map fst (db_cursor D d))"
  by (simp add: db_keys_def cursor_iff fst_eq_Domain Domain_unfold)

lemma db_size_keys: "db_laws D \<Longrightarrow> db_size D d = int (card (db_keys D d)) \<and> finite (db_keys D d)"
  using distinct_card [of "map fst (db_cursor D d)"] by (simp add: db_keys_cursor db_size_def) (simp add: db_laws_def)

lemma db_keys_ops:
  assumes "db_laws D"
  shows "db_keys D (db_put D d k v) = insert k (db_keys D d)" "db_keys D (db_del D d k) = db_keys D d - {k}"
    "db_keys D (db_sync D d) = db_keys D d"
  using assms by (auto simp: db_laws_def db_keys_def split: if_splits)

text \<open>Records that were used until now, under names as they come from C strings.\<close>

definition used_until :: "'d db_ops \<Rightarrow> int \<Rightarrow> 'd \<Rightarrow> bool" where
  "used_until D now d \<longleftrightarrow> (\<forall>k v. db_get D d k = Found v \<longrightarrow>
     NUL \<notin> set k \<and> (\<exists>rc. v = record_bytes rc \<and> small_tags (rec_tags rc) \<and> int64 (atime rc) \<and> atime rc \<le> now))"

lemma used_until_fine: "used_until D now d \<Longrightarrow> db_fine D d"
  by (auto simp: used_until_def db_fine_def rec_ok_def)

lemma used_until_ops:
  assumes "db_laws D" and "used_until D now d"
  shows "used_until D now (db_del D d k)" "used_until D now (db_sync D d)"
    "NUL \<notin> set k \<Longrightarrow> small_tags (rec_tags rc) \<Longrightarrow> int64 (atime rc) \<Longrightarrow> atime rc \<le> now \<Longrightarrow> used_until D now (db_put D d k (record_bytes rc))"
  using assms by (auto simp: db_laws_def used_until_def)

lemma used_until_mono: "used_until D now d \<Longrightarrow> now \<le> now' \<Longrightarrow> used_until D now' d"
  by (fastforce simp: used_until_def)

text \<open>
  With room for the new record or not, the removal leaves room for one, below the limit or, when
  there were more records than that to begin with, below their number.
\<close>

lemma gc_makes_room:
  assumes "db_laws (t_db E)" and "tdb c = Some d" and "used_until (t_db E) (t_now E) d"
    and "db_size (t_db E) d \<le> b" "max_items c \<le> b" and "1 \<le> max_items c" and "tags_cache_gc E c = Inr (c\<lparr>tdb := Some d1\<rparr>)"
  shows "db_size (t_db E) d1 < b"
proof (cases "db_cursor (t_db E) d")
  case Nil
  then have "tags_cache_gc E c = Inr c" using assms(2) by (simp add: tags_cache_gc_def the_db_def)
  then have "d1 = d" using assms(2,7) by (cases c) simp
  then show ?thesis using Nil assms(5,6) by (simp add: db_size_def)
next
  case (Cons x xs)
  let ?D = "t_db E"
  obtain k0 v0 where x: "x = (k0, v0)" by (cases x)
  have g: "db_get ?D d k0 = Found v0" using Cons x by (simp add: cursor_iff [OF assms(1)])
  then obtain rc where "v0 = record_bytes rc" "int64 (atime rc)" "atime rc \<le> t_now E"
    using assms(3) by (fastforce simp: used_until_def)
  then have "\<forall>m a. deserialize_times v0 = Inr (m, a) \<longrightarrow> a < t_now E + 1"
    using wrapS_id [of 64 "atime rc"] by (simp add: deserialize_times_bytes int64_def)
  then have old: "\<exists>(k, v)\<in>set (db_cursor ?D d). \<forall>m a. deserialize_times v = Inr (m, a) \<longrightarrow> a < t_now E + 1"
    using Cons x by auto
  from gc_fold [OF cursor_fine [OF assms(1) used_until_fine [OF assms(3)]], of None "t_now E + 1" 0] obtain l t where
    l: "foldR gc_item (db_cursor ?D d) (None, t_now E + 1, 0) = Inr (l, t, 0 + int (length (db_cursor ?D d)))"
    "l = None \<or> (\<exists>k\<in>fst ` set (db_cursor ?D d). l = Some (c_str k))" "l \<noteq> None" using old by blast
  then obtain k where k: "k \<in> fst ` set (db_cursor ?D d)" "l = Some (c_str k)" by blast
  have f: "foldR gc_item (db_cursor ?D d) (None, t_now E + 1, 0) = Inr (Some (c_str k), t, db_size ?D d)"
    "k \<in> fst ` set (db_cursor ?D d)" using l(1) k by (simp_all add: db_size_def)
  have k: "k \<in> db_keys ?D d" using f(2) by (simp add: db_keys_cursor [OF assms(1)])
  then have "c_str k = k" using assms(3) by (auto simp: db_keys_def used_until_def)
  then have "tags_cache_gc E c = (if db_size ?D d \<ge> max_items c then Inr (c\<lparr>tdb := Some (db_del ?D d k)\<rparr>) else Inr c)"
    using assms(2) f(1) by (simp add: tags_cache_gc_def the_db_def tags_cache_remove_rec_def)
  then have "d1 = (if db_size ?D d \<ge> max_items c then db_del ?D d k else d)" using assms(2,7) by (cases c) (auto split: if_splits)
  moreover have "card (db_keys ?D d - {k}) < card (db_keys ?D d)"
    using k db_size_keys [OF assms(1), of d] by (intro psubset_card_mono) auto
  ultimately show ?thesis
    using assms(4,5) db_size_keys [OF assms(1)] by (auto simp: db_keys_ops [OF assms(1)])
qed

lemma add_keeps_limit:
  assumes "db_laws (t_db E)" and "tdb c = Some d" and "used_until (t_db E) (t_now E) d"
    and "db_size (t_db E) d \<le> b" "max_items c \<le> b" and "1 \<le> max_items c"
    and "NUL \<notin> set file" "small_tags tags" "int64 (t_now E)"
  shows "\<exists>d' n. tags_cache_add E file tags c = Inr (c\<lparr>tdb := Some d', sync_count := n\<rparr>)
    \<and> used_until (t_db E) (t_now E) d' \<and> db_size (t_db E) d' \<le> b"
proof -
  let ?D = "t_db E" and ?v = "record_bytes (new_record E file tags)"
  obtain d1 d' n where a: "tags_cache_gc E c = Inr (c\<lparr>tdb := Some d1\<rparr>)" "d1 = d \<or> (\<exists>k. d1 = db_del ?D d k)"
    "tags_cache_add E file tags c = Inr (c\<lparr>tdb := Some d', sync_count := n\<rparr>)"
    "d' = db_put ?D d1 file ?v \<or> d' = db_sync ?D (db_put ?D d1 file ?v)"
    using add_ok [OF assms(1,2) used_until_fine [OF assms(3)]] by blast
  have "used_until ?D (t_now E) d1" using a(2) used_until_ops(1) [OF assms(1,3)] assms(3) by blast
  from used_until_ops(3) [OF assms(1) this assms(7), of "new_record E file tags"] assms(8,9)
  have u: "used_until ?D (t_now E) (db_put ?D d1 file ?v)" by (simp add: new_record_def)
  then have "used_until ?D (t_now E) d'" using a(4) used_until_ops(2) [OF assms(1) u] by blast
  moreover have "db_keys ?D d' = insert file (db_keys ?D d1)"
    using a(4) by (auto simp: db_keys_ops [OF assms(1)])
  then have "db_size ?D d' \<le> db_size ?D d1 + 1"
    using db_size_keys [OF assms(1)] by (simp add: card_insert_if)
  then have "db_size ?D d' \<le> b" using gc_makes_room [OF assms(1-6) a(1)] by simp
  ultimately show ?thesis using a(3) by blast
qed

text \<open>Additions at given times.\<close>

definition add_at :: "'d tags_env \<Rightarrow> int \<times> string \<times> file_tags \<Rightarrow> 'd tags_cache \<Rightarrow> 'd tags_cache result" where
  "add_at E x c = (case x of (now, file, tags) \<Rightarrow> tags_cache_add (E\<lparr>t_now := now\<rparr>) file tags c)"

lemma adds_keep_limit:
  assumes "db_laws (t_db E)" and "1 \<le> max_items c" "max_items c \<le> b"
    and "\<forall>(now, file, tags)\<in>set adds. NUL \<notin> set file \<and> small_tags tags \<and> int64 now"
    and "sorted (map fst adds)" and "\<forall>a\<in>set adds. since \<le> fst a"
    and "tdb c = Some d" and "used_until (t_db E) since d" and "db_size (t_db E) d \<le> b"
  shows "\<exists>c' d'. foldR (add_at E) adds c = Inr c' \<and> tdb c' = Some d' \<and> db_size (t_db E) d' \<le> b"
  using assms(2-)
proof (induction adds arbitrary: c d since)
  case (Cons x adds)
  obtain now fl tags where x: "x = (now, fl, tags)" by (cases x)
  have u: "used_until (t_db E) now d" using Cons.prems x used_until_mono by fastforce
  from add_keeps_limit [of "E\<lparr>t_now := now\<rparr>" c d b fl tags] assms(1) Cons.prems x u obtain d' n where
    a: "add_at E x c = Inr (c\<lparr>tdb := Some d', sync_count := n\<rparr>)" "used_until (t_db E) now d'" "db_size (t_db E) d' \<le> b"
    by (auto simp: add_at_def)
  have "\<exists>c' d''. foldR (add_at E) adds (c\<lparr>tdb := Some d', sync_count := n\<rparr>) = Inr c' \<and> tdb c' = Some d''
      \<and> db_size (t_db E) d'' \<le> b"
    by (rule Cons.IH [where since = now and d = d']) (use Cons.prems x a in auto)
  then show ?case using a(1) by simp
qed auto

text \<open>
  C30: Additions to the cache made one after another, while the clock does not run backwards, never
  fail, and the number of records then is at most the limit or, when there were more records than that to
  begin with (the limit was lowered), at most their number: it never grows above the limit, but
  it need not shrink to a lowered one.
\<close>

theorem tags_cache_limit:
  assumes "db_laws (t_db E)" and "1 \<le> most" and "used_until (t_db E) since d"
    and "\<forall>(now, file, tags)\<in>set adds. NUL \<notin> set file \<and> small_tags tags \<and> int64 now \<and> since \<le> now" and "sorted (map fst adds)"
  shows "\<exists>c d'. foldR (add_at E) adds ((tags_cache_init most)\<lparr>tdb := Some d\<rparr>) = Inr c \<and> tdb c = Some d'
    \<and> db_size (t_db E) d' \<le> max most (db_size (t_db E) d)"
proof -
  let ?c = "(tags_cache_init most)\<lparr>tdb := Some d\<rparr>"
  have "\<forall>a\<in>set adds. since \<le> fst a" "\<forall>(now, file, tags)\<in>set adds. NUL \<notin> set file \<and> small_tags tags \<and> int64 now"
    using assms(4) by auto
  then show ?thesis
    using adds_keep_limit [of E ?c "max most (db_size (t_db E) d)" adds since d] assms by (simp add: tags_cache_init_def)
qed

theorem tags_cache_limit_witness:
  "\<exists>c d'. foldR (add_at sample_tags_env) [(10, ''/a'', sample_tags), (11, ''/b'', sample_tags), (12, ''/c'', sample_tags)]
      ((tags_cache_init 2)\<lparr>tdb := Some []\<rparr>) = Inr c \<and> tdb c = Some d' \<and> int (length (db_cursor (t_db sample_tags_env) d')) \<le> 2"
proof -
  let ?adds = "[(10, ''/a'', sample_tags), (11, ''/b'', sample_tags), (12, ''/c'', sample_tags)]"
  have l: "db_laws (t_db sample_tags_env)" by (simp add: sample_tags_env_def list_db_laws)
  have u: "used_until (t_db sample_tags_env) 0 []" by (simp add: sample_tags_env_def used_until_def list_db_def)
  have z: "db_size (t_db sample_tags_env) [] = 0" by (simp add: db_size_def sample_tags_env_def list_db_def)
  have a: "\<forall>(now, file, tags)\<in>set ?adds. NUL \<notin> set file \<and> small_tags tags \<and> int64 now \<and> 0 \<le> now"
    by (simp add: NUL_def sample_tags_def small_tags_def size_ok_def strlen_null_def int64_def)
  show ?thesis using tags_cache_limit [OF l _ u a, of 2] z by (simp add: db_size_def)
qed

text \<open>
  The removal and the insertion are two operations of the database, and the lock that is held
  meanwhile is that of the one file: two threads that add different files to a cache with room for one both
  find that nothing has to be removed, and the limit is exceeded.
\<close>

lemma two_adders_exceed:
  assumes "db_laws (t_db E)" and "tdb c = Some d" and "db_fine (t_db E) d" and "db_size (t_db E) d = max_items c - 1"
    and "f \<noteq> g" and "f \<notin> db_keys (t_db E) d" and "g \<notin> db_keys (t_db E) d"
  shows "tags_cache_gc E c = Inr c \<and> db_size (t_db E) (db_put (t_db E) (db_put (t_db E) d f v) g w) = max_items c + 1"
proof
  from gc_fold [OF cursor_fine [OF assms(1,3)], of None "t_now E + 1" 0] obtain l t where
    "foldR gc_item (db_cursor (t_db E) d) (None, t_now E + 1, 0) = Inr (l, t, db_size (t_db E) d)" by (auto simp: db_size_def)
  then show "tags_cache_gc E c = Inr c"
    using assms(2,4) by (simp add: tags_cache_gc_def the_db_def split: option.split)
  show "db_size (t_db E) (db_put (t_db E) (db_put (t_db E) d f v) g w) = max_items c + 1"
    using assms(4-7) db_size_keys [OF assms(1)] by (simp add: db_keys_ops [OF assms(1)])
qed

section \<open>The reader thread\<close>

text \<open>Which queue is next in turn: the first that is not empty, going round from the current one.\<close>

lemma scan_queues_spec:
  "i \<le> lim \<Longrightarrow> (let j = scan_queues qs i lim in i \<le> j \<and> j \<le> lim \<and> (j < lim \<longrightarrow> \<not> request_queue_empty (qs ! j))
     \<and> (\<forall>k. i \<le> k \<and> k < j \<longrightarrow> request_queue_empty (qs ! k)))"
proof (induction qs i lim rule: scan_queues.induct)
  case (1 qs i lim)
  show ?case
  proof (cases "i < lim \<and> request_queue_empty (qs ! i)")
    case True
    have "scan_queues qs i lim = scan_queues qs (i + 1) lim" using True by (subst scan_queues.simps) simp
    moreover have "\<forall>k. i \<le> k \<and> k < j \<longrightarrow> request_queue_empty (qs ! k)"
      if "\<forall>k. Suc i \<le> k \<and> k < j \<longrightarrow> request_queue_empty (qs ! k)" for j
      using that True by (metis Suc_leI le_neq_implies_less)
    ultimately show ?thesis using 1 True by (auto simp: Let_def)
  next
    case False
    then have "scan_queues qs i lim = i" by (subst scan_queues.simps) auto
    then show ?thesis using False 1 by (auto simp: Let_def)
  qed
qed

text \<open>How many queues are passed before the turn of a queue comes.\<close>

definition turns :: "nat \<Rightarrow> nat \<Rightarrow> nat" where
  "turns cq i = (if cq \<le> i then i - cq else CLIENTS_MAX - cq + i)"

lemma find_queue_turn:
  assumes "cq < CLIENTS_MAX" and "i < CLIENTS_MAX" and "\<not> request_queue_empty (qs ! i)"
  obtains j where "find_queue qs cq = Some j" "j < CLIENTS_MAX" "\<not> request_queue_empty (qs ! j)" "turns cq j \<le> turns cq i"
proof -
  let ?j = "scan_queues qs cq CLIENTS_MAX"
  have s: "cq \<le> ?j" "?j \<le> CLIENTS_MAX" "?j < CLIENTS_MAX \<longrightarrow> \<not> request_queue_empty (qs ! ?j)"
    "\<forall>k. cq \<le> k \<and> k < ?j \<longrightarrow> request_queue_empty (qs ! k)"
    using scan_queues_spec [of cq CLIENTS_MAX qs] assms(1) by (auto simp: Let_def)
  show thesis
  proof (cases "?j = CLIENTS_MAX")
    case False
    have "\<not> (cq \<le> i \<and> i < ?j)" using s(4) assms(3) by blast
    then have "turns cq ?j \<le> turns cq i" using s(1,2) False by (auto simp: turns_def)
    then show ?thesis using that [of ?j] s False by (simp add: find_queue_def Let_def)
  next
    case True
    let ?k = "scan_queues qs 0 cq"
    have i: "i < cq" using s(4) True assms(2,3) by (metis leI)
    have t: "?k \<le> cq" "?k < cq \<longrightarrow> \<not> request_queue_empty (qs ! ?k)" "\<forall>k. k < ?k \<longrightarrow> request_queue_empty (qs ! k)"
      using scan_queues_spec [of 0 cq qs] by (auto simp: Let_def)
    then have "?k \<le> i" using assms(3) by (metis leI)
    then have "?k < cq" "turns cq ?k \<le> turns cq i" using i by (auto simp: turns_def)
    then show ?thesis using that [of ?k] t(2) assms(1) True by (simp add: find_queue_def Let_def)
  qed
qed

text \<open>After another queue was served, the turn of the queue is nearer.\<close>

lemma turns_decrease:
  assumes "cq < CLIENTS_MAX" "i < CLIENTS_MAX" "j < CLIENTS_MAX" "turns cq j \<le> turns cq i" "j \<noteq> i"
  shows "turns ((j + 1) mod CLIENTS_MAX) i < turns cq i"
proof (cases "j + 1 = CLIENTS_MAX")
  case True
  then show ?thesis using assms by (auto simp: turns_def split: if_splits)
next
  case False
  then show ?thesis using assms by (auto simp: turns_def split: if_splits)
qed

text \<open>A decoder that gives texts of a possible size, and a playlist in order.\<close>

definition decoders_ok :: "'d tags_env \<Rightarrow> bool" where
  "decoders_ok E \<longleftrightarrow> (\<forall>fl info t n. decoder_of E fl = Some info \<and> small_tags t \<longrightarrow> small_tags (info t n))"

definition tags_world :: "'d tags_env \<Rightarrow> audio \<Rightarrow> bool" where
  "tags_world E a \<longleftrightarrow> db_laws (t_db E) \<and> decoders_ok E \<and> collation (env_coll (t_play E)) \<and> index_ok (env_coll (t_play E)) (playlist a)"

lemma audio_get_ftime_ok:
  assumes "tags_world E a"
  obtains t where "audio_get_ftime (t_play E) fl a = Inr t"
proof -
  obtain j where j: "plist_find_fname (env_coll (t_play E)) fl (playlist a) = Inr j"
    "j \<noteq> -1 \<longrightarrow> 0 \<le> j \<and> named (playlist a) (nat j)"
    using find_sound assms by (fastforce simp: tags_world_def)
  have "j \<noteq> -1 \<longrightarrow> 0 \<le> j \<and> j < int (length (items (playlist a)))" using j(2) by (auto simp: named_def)
  then have "\<exists>t. audio_get_ftime (t_play E) fl a = Inr t"
    using j(1) by (cases "j = -1") (auto simp: audio_get_ftime_def get_item_time_def item_at_def)
  then show ?thesis using that by blast
qed

lemma read_file_tags_ok:
  assumes "decoders_ok E" and "small_tags t"
    and "NOT (filled t) AND sel AND TAGS_COMMENTS = 0 \<or> title t = None \<and> artist t = None \<and> album t = None"
  obtains t' where "read_file_tags E fl t sel = Inr t'" "small_tags t'"
proof (cases "decoder_of E fl")
  case (Some info)
  then have "small_tags (info t n)" for n using assms(1,2) by (auto simp: decoders_ok_def)
  then have "\<exists>t'. read_file_tags E fl t sel = Inr t' \<and> small_tags t'"
    using assms Some by (auto simp: read_file_tags_def Let_def and.assoc small_tags_def)
  then show ?thesis using that by blast
qed (use that assms in \<open>auto simp: read_file_tags_def Let_def\<close>)

lemma cached_comments: "NOT (filled (cached_tags t)) AND sel AND TAGS_COMMENTS = 0"
proof -
  have "NOT (filled (cached_tags t)) AND TAGS_COMMENTS = 0" by (simp add: cached_tags_def TAGS_COMMENTS_def TAGS_TIME_def)
  then have "sel AND (NOT (filled (cached_tags t)) AND TAGS_COMMENTS) = 0" by simp
  then show ?thesis by (simp only: ac_simps)
qed

lemma not_and_time: "NOT (f OR TAGS_TIME) AND (sel AND NOT TAGS_TIME) AND TAGS_COMMENTS = NOT f AND sel AND TAGS_COMMENTS"
proof (rule bit_eqI)
  fix n
  show "bit (NOT (f OR TAGS_TIME) AND (sel AND NOT TAGS_TIME) AND TAGS_COMMENTS) n = bit (NOT f AND sel AND TAGS_COMMENTS) n"
    by (cases n) (auto simp: bit_simps TAGS_COMMENTS_def TAGS_TIME_def)
qed

lemma read_missing_tags_ok:
  assumes "tags_world E a" and "tags = None \<or> (\<exists>t. tags = Some (cached_tags t) \<and> small_tags (cached_tags t))"
  obtains t' where "read_missing_tags E a fl tags sel = Inr t'" "small_tags t'"
proof -
  define t0 where "t0 = (case tags of None \<Rightarrow> tags_new | Some t \<Rightarrow> t)"
  have small: "small_tags t0" and
    ok: "NOT (filled t0) AND sel AND TAGS_COMMENTS = 0 \<or> title t0 = None \<and> artist t0 = None \<and> album t0 = None"
    using assms(2) cached_comments by (auto simp: t0_def tags_new_def small_tags_def size_ok_def strlen_null_def)
  have d: "decoders_ok E" using assms(1) by (simp add: tags_world_def)
  obtain f where f: "audio_get_ftime (t_play E) fl a = Inr f" using audio_get_ftime_ok [OF assms(1)] .
  let ?f = "if sel AND TAGS_TIME \<noteq> 0 then f else -1"
  let ?t = "t0\<lparr>time := ?f, filled := filled t0 OR TAGS_TIME\<rparr>"
  have m: "read_missing_tags E a fl tags sel =
      (if ?f \<noteq> -1 then read_file_tags E fl ?t (sel AND NOT TAGS_TIME) else read_file_tags E fl t0 sel)"
    using f by (simp add: read_missing_tags_def t0_def [symmetric])
  have "small_tags ?t" using small by (simp add: small_tags_def)
  moreover have "NOT (filled ?t) AND (sel AND NOT TAGS_TIME) AND TAGS_COMMENTS = 0 \<or> title ?t = None \<and> artist ?t = None \<and> album ?t = None"
    using ok not_and_time [of "filled t0" sel] by (simp add: and.assoc)
  ultimately obtain t1 where t1: "read_file_tags E fl ?t (sel AND NOT TAGS_TIME) = Inr t1" "small_tags t1"
    using read_file_tags_ok [OF d, of ?t "sel AND NOT TAGS_TIME" fl] by blast
  obtain t2 where "read_file_tags E fl t0 sel = Inr t2" "small_tags t2" using read_file_tags_ok [OF d small ok] .
  then show ?thesis using that m t1 by (cases "?f \<noteq> -1") auto
qed

lemma cached_small: "small_tags t \<Longrightarrow> small_tags (cached_tags t)"
proof -
  have "size_ok s \<Longrightarrow> size_ok (Some (c_str (or_empty s)))" for s
    using length_takeWhile_le [of "\<lambda>c. c \<noteq> NUL" "or_empty s"] by (auto simp: size_ok_def strlen_or_empty c_str_def or_empty_def [of "Some _"])
  then show "small_tags t \<Longrightarrow> small_tags (cached_tags t)" by (simp add: small_tags_def cached_tags_def)
qed

text \<open>The cache without a database, or with one whose records are readable.\<close>

definition cache_inv :: "'d tags_env \<Rightarrow> 'd tags_cache \<Rightarrow> bool" where
  "cache_inv E c \<longleftrightarrow> length (queues c) = CLIENTS_MAX \<and> (\<forall>q\<in>set (queues c). queue_inv q)
     \<and> (max_items c \<noteq> 0 \<longrightarrow> (\<exists>d. tdb c = Some d \<and> db_fine (t_db E) d))"

lemma if_all: "Q x \<Longrightarrow> Q y \<Longrightarrow> Q z \<Longrightarrow> Q (if b then x else if d then y else z)"
  by simp

lemma locked_read_add_ok:
  assumes "tags_world E a" and "tdb c = Some d" and "db_fine (t_db E) d"
  shows "\<exists>t d' n. locked_read_add E a fl sel i c = Inr (t, c\<lparr>tdb := Some d', sync_count := n\<rparr>) \<and> db_fine (t_db E) d'"
proof -
  have l: "db_laws (t_db E)" using assms(1) by (simp add: tags_world_def)
  define reread where "reread = (\<lambda>tags. bindR (read_missing_tags E a fl tags sel) (\<lambda>tags. bindR (tags_cache_add E fl tags c) (\<lambda>c. Inr (tags, c))))"
  have r: "\<exists>t d' n. reread tags = Inr (t, c\<lparr>tdb := Some d', sync_count := n\<rparr>) \<and> db_fine (t_db E) d'"
    if cached: "tags = None \<or> (\<exists>t. tags = Some (cached_tags t) \<and> small_tags (cached_tags t))" for tags
  proof -
    obtain t where t: "read_missing_tags E a fl tags sel = Inr t" "small_tags t" using read_missing_tags_ok [OF assms(1) cached] .
    obtain d' n where "tags_cache_add E fl t c = Inr (c\<lparr>tdb := Some d', sync_count := n\<rparr>)" "db_fine (t_db E) d'"
      using add_get [OF l assms(2,3) t(2)] by blast
    then show ?thesis using t(1) by (auto simp: reread_def)
  qed
  have same: "c = c\<lparr>tdb := Some d, sync_count := sync_count c\<rparr>" using assms(2) by (cases c) simp
  show ?thesis
  proof (cases "\<exists>s. db_get (t_db E) d fl = Found s")
    case False
    then have "locked_read_add E a fl sel i c = reread None"
      using assms(2) by (cases "db_get (t_db E) d fl") (auto simp: locked_read_add_def reread_def Let_def)
    then show ?thesis using r by simp
  next
    case True
    then obtain rc where rc: "db_get (t_db E) d fl = Found (record_bytes rc)" "small_tags (rec_tags rc)"
      using assms(3) by (auto simp: db_fine_def rec_ok_def)
    have "locked_read_add E a fl sel i c =
        (if wrapS 64 (mod_time rc) \<noteq> get_mtime (env_fs (t_play E)) fl then reread None
         else if filled (cached_tags (rec_tags rc)) AND sel = sel \<and> i = -1 then Inr (cached_tags (rec_tags rc), c)
         else reread (Some (cached_tags (rec_tags rc))))"
      using assms(2) rc by (simp add: locked_read_add_def reread_def Let_def deserialize_bytes)
    then show ?thesis using same assms(3) cached_small [OF rc(2)]
      by (simp only:) (intro if_all [where Q = "\<lambda>r. \<exists>t d' n. r = Inr (t, c\<lparr>tdb := Some d', sync_count := n\<rparr>) \<and> db_fine (t_db E) d'"] r, blast+)
  qed
qed

lemma read_add_ok:
  assumes "tags_world E a" and "cache_inv E c"
  shows "\<exists>t c'. tags_cache_read_add E a fl sel i c = Inr (t, c') \<and> queues c' = queues c \<and> cache_inv E c'"
proof (cases "max_items c = 0")
  case True
  obtain t where "read_missing_tags E a fl None sel = Inr t" using read_missing_tags_ok [OF assms(1)] by blast
  then show ?thesis using True assms(2) by (simp add: tags_cache_read_add_def)
next
  case False
  then obtain d where d: "tdb c = Some d" "db_fine (t_db E) d" using assms(2) by (auto simp: cache_inv_def)
  have l: "db_lock_get (t_db E) d fl" "db_lock_put (t_db E) d fl" using assms(1) by (auto simp: tags_world_def db_laws_def)
  obtain t d' n where "locked_read_add E a fl sel i c = Inr (t, c\<lparr>tdb := Some d', sync_count := n\<rparr>)" "db_fine (t_db E) d'"
    using locked_read_add_ok [OF assms(1) d] by blast
  then show ?thesis using False d l assms(2) by (simp add: tags_cache_read_add_def with_db_lock_def cache_inv_def)
qed

lemma inv_queue: "cache_inv E c \<Longrightarrow> i < CLIENTS_MAX \<Longrightarrow> queue_inv (queues c ! i) \<and> i < length (queues c)"
  by (simp add: cache_inv_def)

lemma reader_round_ok:
  assumes "tags_world E a" and "cache_inv E c" and "find_queue (queues c) cq = Some j" and "j < CLIENTS_MAX"
    and "pending (queues c ! j) = (fl, sel) # rs"
  shows "\<exists>t c' q. reader_round E a cq c = Inr (Some (j, fl, t), (j + 1) mod CLIENTS_MAX, c')
    \<and> queues c' = (queues c)[j := q] \<and> pending q = rs \<and> cache_inv E c'"
proof -
  have q: "queue_inv (queues c ! j)" "j < length (queues c)" using inv_queue [OF assms(2,4)] by auto
  obtain q' where p: "request_queue_pop (queues c ! j) = Inr (Some (fl, sel), q')" "queue_inv q'" "pending q' = rs"
    using request_queue_pop_ok [OF q(1) assms(5)] .
  have "cache_inv E (c\<lparr>queues := (queues c)[j := q']\<rparr>)"
    using assms(2) p(2) by (auto simp: cache_inv_def dest: subsetD [OF set_update_subset_insert])
  from read_add_ok [OF assms(1) this, of fl sel "int j"] obtain t c' where
    "tags_cache_read_add E a fl sel (int j) (c\<lparr>queues := (queues c)[j := q']\<rparr>) = Inr (t, c')" "queues c' = (queues c)[j := q']" "cache_inv E c'"
    by auto
  then show ?thesis using assms(3) p q(2) by (auto simp: reader_round_def)
qed

lemma add_request_ok:
  assumes "tags_world E a" and "cache_inv E c" and "i < CLIENTS_MAX"
  shows "\<exists>t c'. tags_cache_add_request E fl sel (int i) c = Inr (t, c') \<and> cache_inv E c'
    \<and> (\<forall>j<CLIENTS_MAX. \<exists>rs. pending (queues c' ! j) = pending (queues c ! j) @ rs)"
proof -
  obtain q where q: "request_queue_add fl sel (queues c ! i) = Inr q" "queue_inv q" "pending q = pending (queues c ! i) @ [(fl, sel)]"
    using request_queue_add_ok inv_queue [OF assms(2,3)] by blast
  have i: "i < length (queues c)" using inv_queue [OF assms(2,3)] by simp
  let ?c = "c\<lparr>queues := (queues c)[i := q]\<rparr>"
  have o: "on_queue (int i) (request_queue_add fl sel) c = Inr ?c" using q(1) i assms(3) by (simp add: on_queue_def)
  have inv: "cache_inv E ?c" using assms(2) q(2) by (auto simp: cache_inv_def dest: subsetD [OF set_update_subset_insert])
  have pend: "\<forall>j<CLIENTS_MAX. \<exists>rs. pending (queues ?c ! j) = pending (queues c ! j) @ rs"
    using q(3) i by (simp add: nth_list_update)
  have "\<exists>t. (if max_items c \<noteq> 0 then with_db_lock E fl (locked_add_request E fl sel) c else Inr (None, c)) = Inr (t, c)"
  proof (cases "max_items c = 0")
    case False
    then obtain d where d: "tdb c = Some d" "db_fine (t_db E) d" using assms(2) by (auto simp: cache_inv_def)
    have l: "db_lock_get (t_db E) d fl" "db_lock_put (t_db E) d fl" using assms(1) by (auto simp: tags_world_def db_laws_def)
    show ?thesis
    proof (cases "db_get (t_db E) d fl")
      case (Found s)
      then obtain rc where "s = record_bytes rc" "small_tags (rec_tags rc)" using d(2) by (auto simp: db_fine_def rec_ok_def)
      then show ?thesis using False d l Found by (simp add: with_db_lock_def locked_add_request_def deserialize_bytes)
    qed (use False d l in \<open>simp_all add: with_db_lock_def locked_add_request_def\<close>)
  qed simp
  then obtain t where "(if max_items c \<noteq> 0 then with_db_lock E fl (locked_add_request E fl sel) c else Inr (None, c)) = Inr (t, c)" ..
  then show ?thesis using o inv pend assms(2,3) by (cases t) (auto simp: tags_cache_add_request_def)
qed

text \<open>
  The thread and the server take turns in any order: a step is a request of a client, or a round of
  the thread, with the files that were answered by the thread.
\<close>

datatype tags_step = Request nat string int | Serve

fun tags_run :: "'d tags_env \<Rightarrow> audio \<Rightarrow> tags_step list \<Rightarrow> nat \<Rightarrow> 'd tags_cache \<Rightarrow> ((nat \<times> string \<times> file_tags) list \<times> nat \<times> 'd tags_cache) result" where
  "tags_run E a [] cq c = Inr ([], cq, c)"
| "tags_run E a (Request i fl sel # es) cq c =
     bindR (tags_cache_add_request E fl sel (int i) c) (\<lambda>(_, c). tags_run E a es cq c)"
| "tags_run E a (Serve # es) cq c =
     bindR (reader_round E a cq c) (\<lambda>(r, cq, c).
     bindR (tags_run E a es cq c) (\<lambda>(out, cq, c). Inr (case r of None \<Rightarrow> out | Some x \<Rightarrow> x # out, cq, c)))"

definition of_clients :: "tags_step list \<Rightarrow> bool" where
  "of_clients es \<longleftrightarrow> (\<forall>i fl sel. Request i fl sel \<in> set es \<longrightarrow> i < CLIENTS_MAX)"

lemma find_queue_range: "find_queue qs cq = Some j \<Longrightarrow> cq < CLIENTS_MAX \<Longrightarrow> j < CLIENTS_MAX \<and> \<not> request_queue_empty (qs ! j)"
  using scan_queues_spec [of cq CLIENTS_MAX qs] scan_queues_spec [of 0 cq qs]
  by (auto simp: find_queue_def Let_def split: if_splits)

lemma serve_ok:
  assumes "tags_world E a" and "cache_inv E c" and "cq < CLIENTS_MAX"
  shows "(\<exists>j fl sel rs t c' q. j < CLIENTS_MAX \<and> find_queue (queues c) cq = Some j \<and> pending (queues c ! j) = (fl, sel) # rs \<and>
      reader_round E a cq c = Inr (Some (j, fl, t), (j + 1) mod CLIENTS_MAX, c') \<and> queues c' = (queues c)[j := q] \<and> pending q = rs \<and> cache_inv E c')
    \<or> (find_queue (queues c) cq = None \<and> reader_round E a cq c = Inr (None, cq, c))"
proof (cases "find_queue (queues c) cq")
  case (Some j)
  have j: "j < CLIENTS_MAX" "\<not> request_queue_empty (queues c ! j)" using find_queue_range [OF Some assms(3)] by auto
  then obtain r rs where "pending (queues c ! j) = r # rs"
    using request_queue_empty_pending [of "queues c ! j"] inv_queue [OF assms(2)] by (meson list.exhaust)
  then show ?thesis using reader_round_ok [OF assms(1,2) Some j(1), of "fst r" "snd r" rs] Some j(1) by (cases r) auto
qed (simp add: reader_round_def)

text \<open>Serving never fails, whatever the clients ask for.\<close>

lemma tags_run_ok:
  "tags_world E a \<Longrightarrow> cache_inv E c \<Longrightarrow> cq < CLIENTS_MAX \<Longrightarrow> of_clients es \<Longrightarrow> \<exists>out cq' c'. tags_run E a es cq c = Inr (out, cq', c')"
proof (induction es arbitrary: cq c)
  case (Cons e es)
  have es: "of_clients es" using Cons.prems(4) by (auto simp: of_clients_def)
  show ?case
  proof (cases e)
    case (Request i fl sel)
    then have "i < CLIENTS_MAX" using Cons.prems(4) by (auto simp: of_clients_def)
    then obtain t c1 where "tags_cache_add_request E fl sel (int i) c = Inr (t, c1)" "cache_inv E c1"
      using add_request_ok [OF Cons.prems(1,2)] by blast
    then show ?thesis using Cons.IH [OF Cons.prems(1) _ Cons.prems(3) es] Request by simp
  next
    case Serve
    obtain r cq1 c1 where "reader_round E a cq c = Inr (r, cq1, c1)" "cq1 < CLIENTS_MAX" "cache_inv E c1"
    proof (cases "find_queue (queues c) cq")
      case None
      then show ?thesis using that [of None cq c] serve_ok [OF Cons.prems(1-3)] Cons.prems by auto
    next
      case (Some j)
      have "(k + 1) mod CLIENTS_MAX < CLIENTS_MAX" for k by (simp add: CLIENTS_MAX_def)
      then show ?thesis using that Some serve_ok [OF Cons.prems(1-3)] by auto
    qed
    then show ?thesis using Cons.IH [OF Cons.prems(1) _ _ es, of c1 cq1] Serve by auto
  qed
qed simp

lemma request_answered:
  "tags_world E a \<Longrightarrow> cache_inv E c \<Longrightarrow> cq < CLIENTS_MAX \<Longrightarrow> of_clients es \<Longrightarrow> i < CLIENTS_MAX \<Longrightarrow>
    pending (queues c ! i) = (fl, sel) # rs \<Longrightarrow> turns cq i < length (filter (\<lambda>e. e = Serve) es) \<Longrightarrow>
    \<exists>out cq' c' t. tags_run E a es cq c = Inr (out, cq', c') \<and> (i, fl, t) \<in> set out"
proof (induction es arbitrary: cq c rs)
  case (Cons e es)
  have es: "of_clients es" using Cons.prems(4) by (auto simp: of_clients_def)
  show ?case
  proof (cases e)
    case (Request k fl' sel')
    then have "k < CLIENTS_MAX" using Cons.prems(4) by (auto simp: of_clients_def)
    then obtain t c1 rs' where c1: "tags_cache_add_request E fl' sel' (int k) c = Inr (t, c1)" "cache_inv E c1"
      "pending (queues c1 ! i) = (fl, sel) # rs @ rs'"
      using add_request_ok [OF Cons.prems(1,2), of k fl' sel'] Cons.prems(5,6) by (metis append_Cons)
    then show ?thesis using Cons.IH [OF Cons.prems(1) c1(2) Cons.prems(3) es Cons.prems(5) c1(3)] Cons.prems(7) Request by simp
  next
    case Serve
    have i: "\<not> request_queue_empty (queues c ! i)"
      using request_queue_empty_pending [of "queues c ! i"] inv_queue [OF Cons.prems(2,5)] Cons.prems(6) by simp
    obtain j where j: "find_queue (queues c) cq = Some j" "j < CLIENTS_MAX" "turns cq j \<le> turns cq i"
      using find_queue_turn [OF Cons.prems(3,5) i] .
    from serve_ok [OF Cons.prems(1-3)] j(1) obtain fl' sel' rs' t c1 q where
      r: "pending (queues c ! j) = (fl', sel') # rs'" "reader_round E a cq c = Inr (Some (j, fl', t), (j + 1) mod CLIENTS_MAX, c1)"
        "queues c1 = (queues c)[j := q]" "cache_inv E c1" by auto
    have m: "(j + 1) mod CLIENTS_MAX < CLIENTS_MAX" by (simp add: CLIENTS_MAX_def)
    show ?thesis
    proof (cases "j = i")
      case True
      then show ?thesis using tags_run_ok [OF Cons.prems(1) r(4) m es] r(1,2) Cons.prems(6) Serve by auto
    next
      case False
      then have "pending (queues c1 ! i) = (fl, sel) # rs" using r(3) Cons.prems(6) by simp
      moreover have "turns ((j + 1) mod CLIENTS_MAX) i < length (filter (\<lambda>e. e = Serve) es)"
        using turns_decrease [OF Cons.prems(3,5) j(2,3) False] Cons.prems(7) Serve by simp
      ultimately show ?thesis
        using Cons.IH [OF Cons.prems(1) r(4) m es Cons.prems(5)] r(2) Serve by fastforce
    qed
  qed
qed simp

text \<open>
  C28: A client that waits for tags is answered after at most as many rounds of the thread as there
  are clients, however many requests the other clients make meanwhile.
\<close>

theorem tags_reader_fair:
  assumes "tags_world E a" and "cache_inv E c" and "cq < CLIENTS_MAX" and "of_clients es" and "i < CLIENTS_MAX"
    and "pending (queues c ! i) = (fl, sel) # rs" and "CLIENTS_MAX \<le> length (filter (\<lambda>e. e = Serve) es)"
  shows "\<exists>out cq' c' t. tags_run E a es cq c = Inr (out, cq', c') \<and> (i, fl, t) \<in> set out"
proof -
  have "turns cq i < CLIENTS_MAX" using assms(3,5) by (auto simp: turns_def)
  then show ?thesis using request_answered [OF assms(1-6)] assms(7) by simp
qed

definition waiting_queue :: request_queue where
  "waiting_queue = \<lparr>nodes = [0 \<mapsto> ((''/a'', TAGS_TIME), None)], head = Some 0, tail = Some 0, fresh = 1\<rparr>"

lemma waiting_queue_inv: "queue_inv waiting_queue"
  unfolding queue_inv_def by (rule exI [of _ "[(0, (''/a'', TAGS_TIME))]"]) (simp add: waiting_queue_def holds_def)

theorem tags_reader_fair_witness:
  "\<exists>out cq' c' t. tags_run (sample_tags_env\<lparr>t_play := (t_play sample_tags_env)\<lparr>env_coll := strcmp\<rparr>\<rparr>) audio_initialize
      (Request 2 ''/b'' TAGS_TIME # replicate 10 Serve) 0
      ((tags_cache_init 0)\<lparr>queues := (replicate CLIENTS_MAX request_queue_init)[7 := waiting_queue]\<rparr>) = Inr (out, cq', c')
    \<and> (7, ''/a'', t) \<in> set out"
proof (rule tags_reader_fair)
  note request_queue_inv_init
  then show "cache_inv (sample_tags_env\<lparr>t_play := (t_play sample_tags_env)\<lparr>env_coll := strcmp\<rparr>\<rparr>)
      ((tags_cache_init 0)\<lparr>queues := (replicate CLIENTS_MAX request_queue_init)[7 := waiting_queue]\<rparr>)"
    using waiting_queue_inv by (auto simp: cache_inv_def tags_cache_init_def dest: subsetD [OF set_update_subset_insert])
  show "tags_world (sample_tags_env\<lparr>t_play := (t_play sample_tags_env)\<lparr>env_coll := strcmp\<rparr>\<rparr>) audio_initialize"
    using list_db_laws strcmp.collation_axioms plist_init_inv [of strcmp]
    by (simp add: tags_world_def sample_tags_env_def decoders_ok_def audio_initialize_def plist_inv_def)
  show "of_clients (Request 2 ''/b'' TAGS_TIME # replicate 10 Serve)" by (auto simp: of_clients_def CLIENTS_MAX_def)
qed (simp_all add: CLIENTS_MAX_def waiting_queue_def pending_def numeral_eq_Suc)

end
