(* ===== verification/Cache_Dir.thy ===== *)
theory Cache_Dir
  imports Files Common "HOL-Library.AList"
begin

text \<open>
  The directory of the tags cache, \<^verbatim>\<open>src/src/moc-2.5.0/tags_cache.c\<close>: the version tag in it, the
  removal of everything when the version differs, and the removal of files that Berkeley DB left
  behind. The content of a directory is a list of entries in the order \<^verbatim>\<open>readdir\<close> gives them;
  which system calls fail is a parameter. The directory holds no symbolic links.
\<close>

datatype dir_item = File_entry string | Dir_entry "(string \<times> dir_item) list"

type_synonym dir = "(string \<times> dir_item) list"

record dir_ops =
  can_opendir :: "string \<Rightarrow> bool"
  can_stat :: "string \<Rightarrow> bool"
  can_unlink :: "string \<Rightarrow> bool"
  can_rmdir :: "string \<Rightarrow> bool"

definition path_in :: "string \<Rightarrow> string \<Rightarrow> string" where
  "path_in dir_path name = dir_path @ ''/'' @ name"

section \<open>Removing files\<close>

text \<open>The loop over the entries of a directory; what was not removed when a call fails is left.\<close>

fun purge_entries :: "dir_ops \<Rightarrow> string \<Rightarrow> dir \<Rightarrow> bool \<times> dir" where
  "purge_entries Op path [] = (True, [])"
| "purge_entries Op path ((n, File_entry s) # es) =
     (if \<not> can_stat Op (path_in path n) then (False, (n, File_entry s) # es)
      else if can_unlink Op (path_in path n) then purge_entries Op path es
      else (False, (n, File_entry s) # es))"
| "purge_entries Op path ((n, Dir_entry d) # es) =
     (if \<not> can_stat Op (path_in path n) then (False, (n, Dir_entry d) # es)
      else
        let (ok, d') = (if can_opendir Op (path_in path n) then purge_entries Op (path_in path n) d else (False, d)) in
        if \<not> ok then (False, (n, Dir_entry d') # es)
        else if can_rmdir Op (path_in path n) then purge_entries Op path es
        else (False, (n, Dir_entry d') # es))"

definition purge_directory :: "dir_ops \<Rightarrow> string \<Rightarrow> dir \<Rightarrow> bool \<times> dir" where
  "purge_directory Op path d = (if can_opendir Op path then purge_entries Op path d else (False, d))"

definition vacuum_old_db_files :: "dir_ops \<Rightarrow> string \<Rightarrow> dir \<Rightarrow> dir" where
  "vacuum_old_db_files Op path d =
     (if can_opendir Op path
      then filter (\<lambda>(n, e). \<not> (take 5 n = ''__db.'' \<and> (case e of File_entry _ \<Rightarrow> True | Dir_entry _ \<Rightarrow> False) \<and> can_unlink Op (path_in path n))) d
      else d)"

section \<open>The version\<close>

definition VERSION_TAG_MAX :: nat where "VERSION_TAG_MAX = 64"
definition CACHE_DB_FORMAT_VERSION :: int where "CACHE_DB_FORMAT_VERSION = 1"
definition MOC_VERSION_TAG :: string where "MOC_VERSION_TAG = ''moc_version_tag''"

text \<open>The version of the database and, where the build has one, the revision of the package.\<close>

record build =
  db_major :: int
  db_minor :: int
  package_revision :: "string option"

definition create_version_tag :: "build \<Rightarrow> string" where
  "create_version_tag b = take (VERSION_TAG_MAX - 1)
     (show_int CACHE_DB_FORMAT_VERSION @ SP # show_int (db_major b) @ SP # show_int (db_minor b)
      @ (case package_revision b of None \<Rightarrow> [] | Some r \<Rightarrow> '' r'' @ r))"

definition cut_newline :: "string \<Rightarrow> string" where
  "cut_newline s = (case strrchr s LF of None \<Rightarrow> s | Some i \<Rightarrow> take i s)"

definition cut_revision :: "string \<Rightarrow> string" where
  "cut_revision s =
     (case strrchr s SP of None \<Rightarrow> s | Some i \<Rightarrow> if drop (Suc i) s \<noteq> [] \<and> hd (drop (Suc i) s) = CHR ''r'' then take i s else s)"

definition file_in :: "dir \<Rightarrow> string \<Rightarrow> string option" where
  "file_in d name = (case map_of d name of Some (File_entry s) \<Rightarrow> Some s | _ \<Rightarrow> None)"

definition cache_version_matches :: "build \<Rightarrow> dir \<Rightarrow> bool" where
  "cache_version_matches b d =
     (case file_in d MOC_VERSION_TAG of
        None \<Rightarrow> False
      | Some content \<Rightarrow>
          let disk = take (VERSION_TAG_MAX - 1) content in
          if length disk = VERSION_TAG_MAX - 1 then False
          else cut_revision (cut_newline (c_str disk)) = cut_revision (cut_newline (create_version_tag b)))"

definition write_cache_version :: "bool \<Rightarrow> build \<Rightarrow> dir \<Rightarrow> dir" where
  "write_cache_version writable b d =
     (if writable then AList.update MOC_VERSION_TAG (File_entry (create_version_tag b)) d else d)"

text \<open>
  The directory is made, or kept, or emptied. \<open>mkdir_ok\<close> says whether a missing directory can be
  made; an existing one is \<open>Some d\<close>.
\<close>

definition prepare_cache_dir :: "dir_ops \<Rightarrow> bool \<Rightarrow> bool \<Rightarrow> build \<Rightarrow> string \<Rightarrow> dir option \<Rightarrow> bool \<times> dir option" where
  "prepare_cache_dir Op mkdir_ok writable b path d =
     (case d of
        None \<Rightarrow> if mkdir_ok then (True, Some (write_cache_version writable b [])) else (False, None)
      | Some d \<Rightarrow>
          if \<not> cache_version_matches b d then
            (case purge_directory Op path d of (ok, d) \<Rightarrow>
               if ok then (True, Some (write_cache_version writable b d)) else (False, Some d))
          else (True, Some (vacuum_old_db_files Op path d)))"

section \<open>Correctness\<close>

lemma purge_entries_empty: "purge_entries Op path d = (True, d') \<Longrightarrow> d' = []"
  by (induction Op path d arbitrary: d' rule: purge_entries.induct) (auto simp: Let_def split: if_splits prod.splits)

text \<open>When every call succeeds, nothing is left.\<close>

lemma purge_entries_all:
  "(\<forall>p. can_opendir Op p \<and> can_stat Op p \<and> can_unlink Op p \<and> can_rmdir Op p) \<Longrightarrow> purge_entries Op path d = (True, [])"
  by (induction Op path d rule: purge_entries.induct) auto

definition short_version :: "build \<Rightarrow> bool" where
  "short_version b \<longleftrightarrow> length (show_int (db_major b)) + length (show_int (db_minor b)) < 50
     \<and> (case package_revision b of None \<Rightarrow> True | Some r \<Rightarrow> length r < 8 \<and> (\<forall>c\<in>set r. c \<noteq> SP \<and> c \<noteq> LF \<and> c \<noteq> NUL))"

lemma show_int_plain: "c \<in> {SP, LF, NUL, CHR ''r''} \<Longrightarrow> c \<notin> set (show_int n)"
  using show_int_chars [of c n] by (auto simp: isdigit_def SP_def LF_def NUL_def)

lemma version_tag_text:
  assumes "short_version b"
  shows "create_version_tag b = show_int 1 @ SP # show_int (db_major b) @ SP # show_int (db_minor b)
      @ (case package_revision b of None \<Rightarrow> [] | Some r \<Rightarrow> '' r'' @ r)"
    and "length (create_version_tag b) < VERSION_TAG_MAX - 1" and "NUL \<notin> set (create_version_tag b)"
proof -
  have one: "show_int 1 = ''1''" by code_simp
  show t: "create_version_tag b = show_int 1 @ SP # show_int (db_major b) @ SP # show_int (db_minor b)
      @ (case package_revision b of None \<Rightarrow> [] | Some r \<Rightarrow> '' r'' @ r)"
    using assms by (auto simp: create_version_tag_def VERSION_TAG_MAX_def CACHE_DB_FORMAT_VERSION_def short_version_def one split: option.splits)
  show "length (create_version_tag b) < VERSION_TAG_MAX - 1"
    using assms by (auto simp: t VERSION_TAG_MAX_def short_version_def one split: option.splits)
  show "NUL \<notin> set (create_version_tag b)"
    using assms show_int_plain [of NUL] by (auto simp: t short_version_def one NUL_def SP_def split: option.splits)
qed

text \<open>
  A cache directory that was made is found in the right version the next time, so that nothing but
  the files left by the database is removed from it.
\<close>

lemma cache_dir_kept:
  assumes "short_version b" and "prepare_cache_dir Op mk True b path d = (True, Some d1)" and "d = None \<or> \<not> cache_version_matches b (the d)"
  shows "cache_version_matches b (d1 @ es)" "prepare_cache_dir Op mk w b path (Some (d1 @ es)) = (True, Some (vacuum_old_db_files Op path (d1 @ es)))"
proof -
  have "\<exists>d0. d1 = AList.update MOC_VERSION_TAG (File_entry (create_version_tag b)) d0"
    using assms(2,3)
    by (auto simp: prepare_cache_dir_def write_cache_version_def split: option.splits if_splits prod.splits intro: exI [of _ "[]"])
  then have "file_in (d1 @ es) MOC_VERSION_TAG = Some (create_version_tag b)"
    by (auto simp: file_in_def update_conv)
  then show m: "cache_version_matches b (d1 @ es)"
    using version_tag_text(2,3) [OF assms(1)] by (simp add: cache_version_matches_def Let_def)
  show "prepare_cache_dir Op mk w b path (Some (d1 @ es)) = (True, Some (vacuum_old_db_files Op path (d1 @ es)))"
    using m by (simp add: prepare_cache_dir_def)
qed

end
