(* ===== verification/Ext_Float.thy ===== *)
theory Ext_Float
  imports C_Float
begin

text \<open>
  Floating point numbers with both zeros, infinities and NaN, as the equalizer computes with them:
  an operation gives the exact result, with the special cases of IEEE 754, and \<open>x32\<close> and \<open>x64\<close>
  round it to \<^verbatim>\<open>float\<close> and \<^verbatim>\<open>double\<close>: to the nearest, to even on a tie, with gradual underflow and
  with overflow to infinity. The sign and the payload of a NaN are left out: nothing depends on them.
\<close>

datatype xflt = Fin rat | Neg_zero | Infinity bool | NaN

section \<open>Parts of a number\<close>

fun xval :: "xflt \<Rightarrow> rat" where
  "xval (Fin r) = r"
| "xval _ = 0"

fun xneg :: "xflt \<Rightarrow> bool" where
  "xneg (Fin r) \<longleftrightarrow> r < 0"
| "xneg Neg_zero \<longleftrightarrow> True"
| "xneg (Infinity s) \<longleftrightarrow> s"
| "xneg NaN \<longleftrightarrow> False"

fun is_inf :: "xflt \<Rightarrow> bool" where
  "is_inf (Infinity s) \<longleftrightarrow> True"
| "is_inf _ \<longleftrightarrow> False"

definition is_zero :: "xflt \<Rightarrow> bool" where
  "is_zero x \<longleftrightarrow> x = Fin 0 \<or> x = Neg_zero"

text \<open>A finite number with the sign that counts when it is zero.\<close>

definition signed_fin :: "bool \<Rightarrow> rat \<Rightarrow> xflt" where
  "signed_fin s r = (if r = 0 \<and> s then Neg_zero else Fin r)"

section \<open>Arithmetic\<close>

instantiation xflt :: "{zero, one, plus, uminus, minus, times, inverse, ord}"
begin

definition zero_xflt :: xflt where
  "0 = Fin 0"

definition one_xflt :: xflt where
  "1 = Fin 1"

definition plus_xflt :: "xflt \<Rightarrow> xflt \<Rightarrow> xflt" where
  "x + y =
     (if x = NaN \<or> y = NaN then NaN
      else if is_inf x then (if is_inf y \<and> x \<noteq> y then NaN else x)
      else if is_inf y then y
      else signed_fin (xneg x \<and> xneg y) (xval x + xval y))"

definition uminus_xflt :: "xflt \<Rightarrow> xflt" where
  "- x =
     (case x of Fin r \<Rightarrow> signed_fin (r = 0) (- r) | Neg_zero \<Rightarrow> Fin 0 | Infinity s \<Rightarrow> Infinity (\<not> s) | NaN \<Rightarrow> NaN)"

definition minus_xflt :: "xflt \<Rightarrow> xflt \<Rightarrow> xflt" where
  "x - y = (x :: xflt) + (- y)"

definition times_xflt :: "xflt \<Rightarrow> xflt \<Rightarrow> xflt" where
  "x * y =
     (if x = NaN \<or> y = NaN then NaN
      else if is_inf x \<or> is_inf y then (if is_zero x \<or> is_zero y then NaN else Infinity (xneg x \<noteq> xneg y))
      else signed_fin (xneg x \<noteq> xneg y) (xval x * xval y))"

definition divide_xflt :: "xflt \<Rightarrow> xflt \<Rightarrow> xflt" where
  "divide_xflt x y =
     (if x = NaN \<or> y = NaN then NaN
      else if is_inf x then (if is_inf y then NaN else Infinity (xneg x \<noteq> xneg y))
      else if is_inf y then signed_fin (xneg x \<noteq> xneg y) 0
      else if is_zero y then (if is_zero x then NaN else Infinity (xneg x \<noteq> xneg y))
      else signed_fin (xneg x \<noteq> xneg y) (xval x / xval y))"

definition inverse_xflt :: "xflt \<Rightarrow> xflt" where
  "inverse_xflt x = 1 div x"

text \<open>A comparison with NaN is false.\<close>

definition less_xflt :: "xflt \<Rightarrow> xflt \<Rightarrow> bool" where
  "x < y \<longleftrightarrow>
     x \<noteq> NaN \<and> y \<noteq> NaN \<and>
     (if is_inf x \<or> is_inf y then x \<noteq> y \<and> (x = Infinity True \<or> y = Infinity False) else xval x < xval y)"

definition less_eq_xflt :: "xflt \<Rightarrow> xflt \<Rightarrow> bool" where
  "x \<le> y \<longleftrightarrow> x \<noteq> NaN \<and> y \<noteq> NaN \<and> \<not> y < x"

instance ..

end

section \<open>Rounding\<close>

text \<open>
  \<open>p\<close> bits of precision, the exponent of the last bit not below \<open>lo\<close>, and infinity from \<open>2 ^ hi\<close> on.
\<close>

definition xfl :: "int \<Rightarrow> int \<Rightarrow> int \<Rightarrow> xflt \<Rightarrow> xflt" where
  "xfl p lo hi x =
     (case x of
        Fin r \<Rightarrow>
          if r = 0 then x
          else
            let e = max (ilog2 \<bar>r\<bar> - (p - 1)) lo; y = of_int (rne (r / 2 powi e)) * 2 powi e in
            if 2 powi hi \<le> \<bar>y\<bar> then Infinity (r < 0) else signed_fin (r < 0) y
      | _ \<Rightarrow> x)"

definition x32 :: "xflt \<Rightarrow> xflt" where "x32 = xfl 24 (- 149) 128"

definition x64 :: "xflt \<Rightarrow> xflt" where "x64 = xfl 53 (- 1074) 1024"

definition FLT_MIN :: rat where "FLT_MIN = 1 / 2 ^ 126"

section \<open>What the arithmetic keeps\<close>

lemma xless_Fin [simp]: "Fin a < Fin b \<longleftrightarrow> a < b"
  by (simp add: less_xflt_def)

lemma xle_Fin [simp]: "Fin a \<le> Fin b \<longleftrightarrow> a \<le> b"
  by (simp add: less_eq_xflt_def not_less)

lemma xless_NaN [simp]: "\<not> NaN < x" "\<not> x < NaN"
  by (simp_all add: less_xflt_def)

lemma xle_NaN [simp]: "\<not> NaN \<le> x" "\<not> x \<le> NaN"
  by (simp_all add: less_eq_xflt_def)

lemma not_xless_Fin: "x \<noteq> NaN \<Longrightarrow> \<not> x < Fin lo \<Longrightarrow> \<not> Fin hi < x \<Longrightarrow> \<not> is_inf x \<and> lo \<le> xval x \<and> xval x \<le> hi"
  by (cases x) (auto simp: less_xflt_def)

lemma signed_fin_val [simp]: "xval (signed_fin s r) = r"
  by (simp add: signed_fin_def)

text \<open>Whole numbers with few enough bits are not changed, and rounding makes no NaN.\<close>

lemma xfl_int:
  assumes "\<bar>k\<bar> < 2 ^ nat p" and "0 < p" and "lo \<le> - p" and "p \<le> hi"
  shows "xfl p lo hi (Fin (of_int k)) = Fin (of_int k)"
proof (cases "k = 0")
  case True
  then show ?thesis by (simp add: xfl_def)
next
  case False
  let ?r = "of_int k :: rat"
  have pos: "1 \<le> \<bar>?r\<bar>" using False by (metis of_int_1 of_int_abs of_int_le_iff int_one_le_iff_zero_less zero_less_abs_iff)
  have "\<bar>?r\<bar> < 2 powi (ilog2 \<bar>?r\<bar> + 1)" using ilog2_bounds(2) [of "\<bar>?r\<bar>"] pos by linarith
  then have "(2 powi 0 :: rat) < 2 powi (ilog2 \<bar>?r\<bar> + 1)" using pos by simp
  then have "\<not> ilog2 \<bar>?r\<bar> + 1 \<le> 0" using power_int_increasing [of "ilog2 \<bar>?r\<bar> + 1" 0 "2 :: rat"] by auto
  then have l: "0 \<le> ilog2 \<bar>?r\<bar>" by simp
  then have e: "max (ilog2 \<bar>?r\<bar> - (p - 1)) lo = ilog2 \<bar>?r\<bar> - (p - 1)" using assms(3) by simp
  have y: "of_int (rne (?r / 2 powi (ilog2 \<bar>?r\<bar> - (p - 1)))) * 2 powi (ilog2 \<bar>?r\<bar> - (p - 1)) = ?r"
    using fl_int [OF assms(2,1)] False by (simp add: fl_def Let_def)
  have "(of_int \<bar>k\<bar> :: rat) < of_int (2 ^ nat p)" using assms(1) by (simp only: of_int_less_iff)
  then have "\<bar>?r\<bar> < 2 powi p" using assms(2) by (simp add: power_int_nonneg_exp)
  also have "\<dots> \<le> (2 powi hi :: rat)" using assms(4) by (simp add: power_int_increasing)
  finally have "\<not> 2 powi hi \<le> \<bar>?r\<bar>" by simp
  then show ?thesis using False unfolding xfl_def xflt.case Let_def e y by (simp add: signed_fin_def)
qed

lemma x32_int: "\<bar>k\<bar> < 2 ^ 24 \<Longrightarrow> x32 (Fin (of_int k)) = Fin (of_int k)"
  unfolding x32_def by (rule xfl_int) simp_all

lemma x32_NaN [simp]: "x32 x = NaN \<longleftrightarrow> x = NaN"
  by (cases x) (simp_all add: x32_def xfl_def Let_def signed_fin_def)

lemma x32_of_NaN [simp]: "x32 NaN = NaN"
  by simp

lemma xflt_NaN [simp]:
  "NaN + x = NaN" "x + NaN = NaN" "NaN - x = NaN" "NaN * x = NaN" "x * NaN = NaN"
  by (simp_all add: plus_xflt_def minus_xflt_def times_xflt_def)

end
