(* ===== verification/Equalizer.thy ===== *)
theory Equalizer
  imports Softmixer Common Ext_Float
begin

text \<open>
  The equalizer, \<^verbatim>\<open>src/src/moc-2.5.0/equalizer.c\<close>: the files of presets and their parser, the
  list of presets with the current one, the settings file, and the filters that are applied to
  the samples. The functions of the mathematical library (powers of ten, sine, cosine and
  hyperbolic sine) are a parameter. The numbers here have infinities and NaN, since a preset file can
  make them: by its words for them, and by values that overflow or divide by zero.
\<close>

section \<open>Filters\<close>

record libm =
  pow10f :: "xflt \<Rightarrow> xflt"
  m_sin :: "xflt \<Rightarrow> xflt"
  m_cos :: "xflt \<Rightarrow> xflt"
  m_sinh :: "xflt \<Rightarrow> xflt"

record biquad =
  a0 :: xflt
  a1 :: xflt
  a2 :: xflt
  a3 :: xflt
  a4 :: xflt
  x1 :: xflt
  x2 :: xflt
  y1 :: xflt
  y2 :: xflt
  b_cf :: xflt
  b_bw :: xflt
  b_gain :: xflt
  b_srate :: xflt
  israte :: int

definition M_PI :: xflt where "M_PI = x64 (Fin (314159265358979323846 / 10 ^ 20))"
definition M_LN2 :: xflt where "M_LN2 = x64 (Fin (69314718055994530942 / 10 ^ 20))"
definition TWOPI :: xflt where "TWOPI = x64 (Fin 2 * M_PI)"

definition mk_biquad :: "libm \<Rightarrow> xflt \<Rightarrow> xflt \<Rightarrow> xflt \<Rightarrow> xflt \<Rightarrow> biquad" where
  "mk_biquad L dbgain cf srate bw =
     (let A = pow10f L (x32 (dbgain / Fin 40));
          omega = x32 (x64 (x64 (TWOPI * cf) / srate));
          sn = x32 (m_sin L omega);
          cs = x32 (m_cos L omega);
          alpha = x32 (x64 (sn * m_sinh L (x64 (x64 (x64 (x64 (M_LN2 / Fin 2) * bw) * omega) / sn))));
          alpha_m_A = x32 (alpha * A);
          alpha_d_A = x32 (alpha / A);
          b0 = x32 (1 + alpha_m_A);
          b1 = x32 (Fin (- 2) * cs);
          b2 = x32 (1 - alpha_m_A);
          c0 = x32 (1 + alpha_d_A);
          c1 = b1;
          c2 = x32 (1 - alpha_d_A)
      in \<lparr>a0 = x32 (b0 / c0), a1 = x32 (b1 / c0), a2 = x32 (b2 / c0), a3 = x32 (c1 / c0), a4 = x32 (c2 / c0),
          x1 = 0, x2 = 0, y1 = 0, y2 = 0, b_cf = cf, b_bw = bw, b_gain = dbgain, b_srate = srate, israte = \<lfloor>xval srate\<rfloor>\<rparr>)"

text \<open>One filter on one sample, and the filters of a channel one after the other.\<close>

definition biquad_step :: "xflt \<Rightarrow> biquad \<Rightarrow> xflt \<times> biquad" where
  "biquad_step s b =
     (let f = x32 (x32 (x32 (x32 (x32 (s * a0 b) + x32 (a1 b * x1 b)) + x32 (a2 b * x2 b)) - x32 (a3 b * y1 b)) - x32 (a4 b * y2 b))
      in (f, b\<lparr>x2 := x1 b, x1 := s, y2 := y1 b, y1 := f\<rparr>))"

fun channel_step :: "xflt \<Rightarrow> biquad list \<Rightarrow> xflt \<times> biquad list" where
  "channel_step s [] = (s, [])"
| "channel_step s (b # bs) =
     (let (f, b) = biquad_step s b; (out, bs) = channel_step f bs in (out, b # bs))"

text \<open>The samples of a frame, each with the filters of its channel.\<close>

fun frame_step :: "nat \<Rightarrow> xflt list \<Rightarrow> biquad list \<Rightarrow> xflt list \<times> biquad list" where
  "frame_step blen [] bs = ([], bs)"
| "frame_step blen (s # ss) bs =
     (let (f, cs) = channel_step s (take blen bs); (fs, ds) = frame_step blen ss (drop blen bs) in (f # fs, cs @ ds))"

text \<open>
  The loop over the frames. It does not end for no channels, reads behind the buffer for an
  incomplete frame, and behind the filters when there are fewer than channels times bands.
\<close>

function apply_biquads :: "nat \<Rightarrow> nat \<Rightarrow> xflt list \<Rightarrow> biquad list \<Rightarrow> (xflt list \<times> biquad list) result" where
  "apply_biquads ch blen xs bs =
     (if xs = [] then Inr ([], bs)
      else if ch = 0 \<or> length xs < ch \<or> length bs < ch * blen then Inl Undefined
      else
        let (fs, bs) = frame_step blen (take ch xs) bs in
        bindR (apply_biquads ch blen (drop ch xs) bs) (\<lambda>(gs, bs). Inr (fs @ gs, bs)))"
  by pat_completeness auto

termination
  by (relation "measure (\<lambda>(ch, blen, xs, bs). length xs)") auto

declare apply_biquads.simps [simp del]

section \<open>Presets\<close>

record eq_set =
  es_name :: string
  es_channels :: int
  es_preamp :: xflt
  es_bcount :: nat
  es_b :: "biquad list"

text \<open>The name from the settings file: no name, a name, or a name that was freed.\<close>

datatype name_ptr = No_name | Name string | Freed

text \<open>
  The list of presets has at least its static first node, whose preset may be absent;
  \<open>current_equ\<close> is the position of the current node or a null pointer.
\<close>

record equalizer =
  eq_nodes :: "eq_set option list"
  current_equ :: "nat option"
  sample_rate :: int
  equ_active :: bool
  equ_channels :: int
  mixin_rate :: xflt
  r_mixin_rate :: xflt
  preamp :: xflt
  preampf :: xflt
  config_preset_name :: name_ptr

definition current_set :: "equalizer \<Rightarrow> eq_set option" where
  "current_set e = (case current_equ e of None \<Rightarrow> None | Some i \<Rightarrow> eq_nodes e ! i)"

definition equalizer_is_active :: "equalizer \<Rightarrow> bool" where
  "equalizer_is_active e = equ_active e"

definition equalizer_set_active :: "bool \<Rightarrow> equalizer \<Rightarrow> equalizer" where
  "equalizer_set_active act e = e\<lparr>equ_active := act\<rparr>"

definition equalizer_current_eqname :: "equalizer \<Rightarrow> string" where
  "equalizer_current_eqname e =
     (case current_set e of Some s \<Rightarrow> if equ_active e then es_name s else ''off'' | None \<Rightarrow> ''off'')"

definition equalizer_adjust_preamp :: "libm \<Rightarrow> equalizer \<Rightarrow> equalizer" where
  "equalizer_adjust_preamp L e =
     (case current_set e of
        None \<Rightarrow> e
      | Some s \<Rightarrow> e\<lparr>preamp := es_preamp s, preampf := pow10f L (x32 (es_preamp s / Fin 20))\<rparr>)"

text \<open>
  The next and the previous node with a preset, going round. The functions call themselves; the
  preamplification is adjusted on the way out of every call, the last time for the final node.
\<close>

partial_function (option) next_node :: "eq_set option list \<Rightarrow> nat \<Rightarrow> nat option" where
  "next_node ns i =
     (let i = (if Suc i < length ns then Suc i else 0) in
      if ns ! i = None \<and> \<not> (i = 0 \<and> length ns = 1) then next_node ns i else Some i)"

partial_function (option) prev_node :: "eq_set option list \<Rightarrow> nat \<Rightarrow> nat option" where
  "prev_node ns i =
     (let i = (if 0 < i then i - 1 else length ns - 1) in
      if ns ! i = None \<and> \<not> (i = 0 \<and> length ns = 1) then prev_node ns i else Some i)"

definition equalizer_next :: "libm \<Rightarrow> equalizer \<Rightarrow> equalizer option" where
  "equalizer_next L e =
     (case current_equ e of
        None \<Rightarrow> Some (equalizer_adjust_preamp L e)
      | Some i \<Rightarrow> map_option (\<lambda>i. equalizer_adjust_preamp L (e\<lparr>current_equ := Some i\<rparr>)) (next_node (eq_nodes e) i))"

definition equalizer_prev :: "libm \<Rightarrow> equalizer \<Rightarrow> equalizer option" where
  "equalizer_prev L e =
     (case current_equ e of
        None \<Rightarrow> Some (equalizer_adjust_preamp L e)
      | Some i \<Rightarrow> map_option (\<lambda>i. equalizer_adjust_preamp L (e\<lparr>current_equ := Some i\<rparr>)) (prev_node (eq_nodes e) i))"

text \<open>Adding at the end, where only the first node can be without a preset.\<close>

definition append_eq_set :: "eq_set \<Rightarrow> eq_set option list \<Rightarrow> eq_set option list" where
  "append_eq_set s ns = (if last ns = None then butlast ns @ [Some s] else ns @ [Some s])"

section \<open>Files of presets\<close>

text \<open>A plain \<^verbatim>\<open>char\<close> is signed: bytes from 128 on count as white space, too.\<close>

definition blank_char :: "char \<Rightarrow> bool" where
  "blank_char c \<longleftrightarrow> wrapS 8 (of_char c) \<le> 32"

definition skip_line :: "string \<Rightarrow> string" where
  "skip_line s =
     (case dropWhile (\<lambda>c. c \<noteq> CR \<and> c \<noteq> LF) s of
        [] \<Rightarrow> []
      | c # t \<Rightarrow> if c = CR \<and> t \<noteq> [] \<and> hd t = LF then tl t else t)"

lemma skip_line_length: "length (skip_line s) \<le> length s"
  using length_dropWhile_le [of "\<lambda>c. c \<noteq> CR \<and> c \<noteq> LF" s] by (auto simp: skip_line_def split: list.splits)

lemma skip_line_Cons: "c \<noteq> CR \<Longrightarrow> c \<noteq> LF \<Longrightarrow> skip_line (c # s) = skip_line s"
  by (simp add: skip_line_def)

lemma length_dropWhile_Cons: "dropWhile P s = c # t \<Longrightarrow> length t < length s"
  using length_dropWhile_le [of P s] by simp

function skip_whitespace :: "string \<Rightarrow> string" where
  "skip_whitespace s =
     (case dropWhile blank_char s of
        [] \<Rightarrow> []
      | c # t \<Rightarrow> if c = CHR ''#'' then skip_whitespace (skip_line (c # t)) else c # t)"
  by pat_completeness auto

termination
proof (relation "measure length")
  fix s c t
  assume "dropWhile blank_char s = c # t" "c = CHR ''#''"
  then show "(skip_line (c # t), s) \<in> measure length"
    using skip_line_length [of t] skip_line_Cons [of c t] length_dropWhile_Cons [of blank_char s c t]
    by (simp add: CR_def LF_def)
qed simp

declare skip_whitespace.simps [simp del]

text \<open>
  \<^verbatim>\<open>strtof\<close> with the rest of the string; \<open>None\<close> when there is no number. A number is a
  word for infinity or for NaN, which may have letters in parentheses behind it, or digits in
  base 16 or 10 with a fraction and an exponent.
\<close>

definition digits_val :: "int \<Rightarrow> string \<Rightarrow> int" where
  "digits_val base ds = foldl (\<lambda>n c. n * base + (case hex_val c of None \<Rightarrow> 0 | Some d \<Rightarrow> d)) 0 ds"

definition scan_sign :: "string \<Rightarrow> bool \<times> string" where
  "scan_sign s = (if take 1 s = ''-'' then (True, drop 1 s) else if take 1 s = ''+'' then (False, drop 1 s) else (False, s))"

definition scan_exponent :: "string set \<Rightarrow> string \<Rightarrow> int \<times> string" where
  "scan_exponent marks s =
     (if take 1 s \<in> marks then
        let (sg, t) = scan_sign (drop 1 s); ds = takeWhile isdigit t; n = digits_val 10 ds in
        if ds = [] then (0, s) else (if sg then - n else n, drop (length ds) t)
      else (0, s))"

definition scan_mantissa :: "(char \<Rightarrow> bool) \<Rightarrow> int \<Rightarrow> string \<Rightarrow> (int \<times> nat \<times> string) option" where
  "scan_mantissa isd base s =
     (let ds = takeWhile isd s; t = drop (length ds) s;
          fs = (if take 1 t = ''.'' then takeWhile isd (drop 1 t) else []);
          u = (if take 1 t = ''.'' then drop (Suc (length fs)) t else t)
      in if ds = [] \<and> fs = [] then None else Some (digits_val base (ds @ fs), length fs, u))"

definition scan_word :: "string \<Rightarrow> (xflt \<times> string) option" where
  "scan_word s =
     (if strncaseeq s ''infinity'' 8 then Some (Infinity False, drop 8 s)
      else if strncaseeq s ''inf'' 3 then Some (Infinity False, drop 3 s)
      else if strncaseeq s ''nan'' 3 then
        let t = drop 3 s; u = dropWhile (\<lambda>c. isalpha c \<or> isdigit c \<or> c = CHR ''_'') (drop 1 t) in
        Some (NaN, if take 1 t = ''('' \<and> take 1 u = '')'' then drop 1 u else t)
      else None)"

definition scan_hex :: "string \<Rightarrow> (rat \<times> string) option" where
  "scan_hex s =
     (if strncaseeq s ''0x'' 2 then
        (case scan_mantissa (base_digit 16) 16 (drop 2 s) of
           None \<Rightarrow> None
         | Some (n, k, s) \<Rightarrow> let (e, s) = scan_exponent {''p'', ''P''} s in Some (of_int n / 16 ^ k * 2 powi e, s))
      else None)"

definition scan_decimal :: "string \<Rightarrow> (rat \<times> string) option" where
  "scan_decimal s =
     (case scan_mantissa isdigit 10 s of
        None \<Rightarrow> None
      | Some (n, k, s) \<Rightarrow> let (e, s) = scan_exponent {''e'', ''E''} s in Some (of_int n / 10 ^ k * 10 powi e, s))"

definition scan_digits :: "string \<Rightarrow> (rat \<times> string) option" where
  "scan_digits s = (case scan_hex s of None \<Rightarrow> scan_decimal s | Some r \<Rightarrow> Some r)"

definition strtof_exact :: "string \<Rightarrow> (xflt \<times> string) option" where
  "strtof_exact s =
     (let (sg, s) = scan_sign (dropWhile isspace s) in
      map_option (\<lambda>(x, s). (if sg then - x else x, s))
        (case scan_word s of Some r \<Rightarrow> Some r | None \<Rightarrow> map_option (\<lambda>(r, s). (Fin r, s)) (scan_digits s)))"

text \<open>
  Overflow of a number, and underflow to less than the smallest normal one, is an error; a word for
  infinity is not.
\<close>

definition out_of_range :: "xflt \<Rightarrow> bool" where
  "out_of_range x \<longleftrightarrow> (case x of Fin r \<Rightarrow> is_inf (x32 x) \<or> (r \<noteq> 0 \<and> \<bar>r\<bar> < FLT_MIN) | _ \<Rightarrow> False)"

definition read_float :: "string \<Rightarrow> (xflt \<times> string) option" where
  "read_float s =
     (case strtof_exact s of
        None \<Rightarrow> None
      | Some (x, t) \<Rightarrow> if out_of_range x then None else Some (x32 x, t))"

lemma scan_sign_length: "scan_sign s = (sg, t) \<Longrightarrow> length t \<le> length s"
  by (auto simp: scan_sign_def split: if_splits)

lemma scan_exponent_length: "scan_exponent ms s = (e, t) \<Longrightarrow> length t \<le> length s"
proof -
  assume e: "scan_exponent ms s = (e, t)"
  obtain sg u where u: "scan_sign (drop 1 s) = (sg, u)" by fastforce
  then have "length u \<le> length s" using scan_sign_length [OF u] by simp
  then show "length t \<le> length s" using e u by (auto simp: scan_exponent_def Let_def split: if_splits)
qed

lemma scan_mantissa_length: "scan_mantissa isd base s = Some (n, k, t) \<Longrightarrow> length t < length s"
proof -
  assume m: "scan_mantissa isd base s = Some (n, k, t)"
  define ds where "ds = takeWhile isd s"
  define v where "v = drop (length ds) s"
  define fs where "fs = (if take 1 v = ''.'' then takeWhile isd (drop 1 v) else [])"
  define w where "w = (if take 1 v = ''.'' then drop (Suc (length fs)) v else v)"
  have t: "t = w" "\<not> (ds = [] \<and> fs = [])"
    using m unfolding scan_mantissa_def Let_def ds_def [symmetric] v_def [symmetric] fs_def [symmetric] w_def [symmetric]
    by (auto split: if_splits)
  have "length ds \<le> length s" unfolding ds_def by (rule length_takeWhile_le)
  then have "length v = length s - length ds" "length ds \<le> length s" by (simp_all add: v_def)
  moreover have "length w \<le> length v" by (simp add: w_def)
  moreover have "fs \<noteq> [] \<Longrightarrow> length w < length v" by (cases v) (auto simp: fs_def w_def split: if_splits)
  ultimately show "length t < length s" using t by (cases ds) auto
qed

lemma scan_digits_length: "scan_digits s = Some (r, t) \<Longrightarrow> length t < length s"
  by (fastforce simp: scan_digits_def scan_hex_def scan_decimal_def split: option.splits if_splits prod.splits
      dest!: scan_mantissa_length scan_exponent_length)

lemma scan_word_length: "scan_word s = Some (x, t) \<Longrightarrow> length t < length s"
proof -
  assume w: "scan_word s = Some (x, t)"
  define u where "u = dropWhile (\<lambda>c. isalpha c \<or> isdigit c \<or> c = CHR ''_'') (drop 1 (drop 3 s))"
  have n: "0 < length s" using w by (auto simp: scan_word_def strncaseeq_def strcaseeq_def)
  have "t = drop 8 s \<or> t = drop 3 s \<or> t = drop 1 u" using w by (simp add: scan_word_def Let_def u_def split: if_splits)
  then have "length t = length s - 8 \<or> length t = length s - 3 \<or> length t = length u - 1" by auto
  moreover have "length u \<le> length s - 4"
    using length_dropWhile_le [of "\<lambda>c. isalpha c \<or> isdigit c \<or> c = CHR ''_''" "drop 1 (drop 3 s)"] by (simp add: u_def)
  ultimately show "length t < length s" using n by linarith
qed

lemma read_float_length: "read_float s = Some (x, t) \<Longrightarrow> length t < length s"
proof -
  assume r: "read_float s = Some (x, t)"
  obtain sg u where u: "scan_sign (dropWhile isspace s) = (sg, u)" by fastforce
  have "(\<exists>y. scan_word u = Some (y, t)) \<or> (\<exists>y. scan_digits u = Some (y, t))"
    using r u by (auto simp: read_float_def strtof_exact_def split: option.splits if_splits)
  then have "length t < length u" using scan_word_length scan_digits_length by blast
  then show "length t < length s" using scan_sign_length [OF u] length_dropWhile_le [of isspace s] by simp
qed

record eq_setup =
  su_name :: string
  su_preamp :: xflt
  su_bands :: "(xflt \<times> xflt \<times> xflt) list"

lemma skip_whitespace_length: "length (skip_whitespace s) \<le> length s"
proof (induction s rule: skip_whitespace.induct)
  case (1 s)
  show ?case
  proof (cases "dropWhile blank_char s")
    case Nil
    then show ?thesis by (subst skip_whitespace.simps) (auto split: list.split simp del: dropWhile_eq_Nil_conv)
  next
    case (Cons c t)
    have "length (c # t) \<le> length s" using length_dropWhile_le [of blank_char s] Cons by simp
    then show ?thesis using 1 Cons skip_line_length [of "c # t"]
      by (subst skip_whitespace.simps) (force simp: Cons)
  qed
qed

lemma read_float_skip: "read_float s = Some (x, t) \<Longrightarrow> length (skip_whitespace t) < length s"
  using read_float_length [of s x t] skip_whitespace_length [of t] by simp

text \<open>
  The lines of a preset: frequency, band width and gain, or 0 and the preamplification. The arrays
  are doubled when all but one of their \<open>mx\<close> elements are used.
\<close>

function setup_loop :: "string \<Rightarrow> nat \<Rightarrow> eq_setup \<Rightarrow> eq_setup option result" where
  "setup_loop desc mx su =
     (if desc = [] then Inr (Some su)
      else case read_float desc of
        None \<Rightarrow> Inr None
      | Some (cf, rest) \<Rightarrow>
          (case read_float (skip_whitespace rest) of
             None \<Rightarrow> Inr None
           | Some (bw, rest) \<Rightarrow>
               if \<not> is_zero cf then
                 (case read_float (skip_whitespace rest) of
                    None \<Rightarrow> Inr None
                  | Some (dg, rest) \<Rightarrow>
                      let mx = (if length (su_bands su) \<ge> mx - 1 then mx * 2 else mx) in
                      if length (su_bands su) < mx
                      then setup_loop (skip_whitespace rest) mx (su\<lparr>su_bands := su_bands su @ [(cf, bw, dg)]\<rparr>)
                      else Inl Undefined)
               else setup_loop (skip_whitespace rest) mx (su\<lparr>su_preamp := bw\<rparr>)))"
  by pat_completeness auto

termination
  by (relation "measure (\<lambda>(desc, mx, su). length desc)") (auto dest!: read_float_skip)

declare setup_loop.simps [simp del]

text \<open>The reasons why a file is refused are only logged: empty, no header, a bad number.\<close>

datatype setup_error = Empty_file | Invalid_header | Bad_settings

definition read_setup :: "string \<Rightarrow> string \<Rightarrow> (setup_error + eq_setup) result" where
  "read_setup name desc =
     (let desc = skip_whitespace desc in
      if desc = [] then Inr (Inl Empty_file)
      else if \<not> strncaseeq desc ''EQSET'' 5 then Inr (Inl Invalid_header)
      else
        bindR (setup_loop (skip_whitespace (skip_line (drop 5 desc))) 16 \<lparr>su_name = name, su_preamp = 0, su_bands = []\<rparr>) (\<lambda>r.
          Inr (case r of None \<Rightarrow> Inl Bad_settings | Some su \<Rightarrow> Inr su)))"

text \<open>The filters of a preset, for every channel the same.\<close>

definition make_set :: "libm \<Rightarrow> int \<Rightarrow> int \<Rightarrow> eq_setup \<Rightarrow> eq_set" where
  "make_set L rate channels su =
     (let bs = map (\<lambda>(cf, bw, dg). mk_biquad L dg cf (x32 (Fin (of_int rate))) bw) (su_bands su) in
      \<lparr>es_name = su_name su, es_channels = channels, es_preamp = su_preamp su, es_bcount = length bs,
       es_b = concat (replicate (nat channels) bs)\<rparr>)"

text \<open>
  A directory is a list of names with the contents of the regular files that can be opened. The
  buffer for a file has room for 4095 bytes, the one for the name for 1023.
\<close>

type_synonym preset_dir = "(string \<times> string option) list"

definition refresh_file :: "libm \<Rightarrow> int \<Rightarrow> int \<Rightarrow> string \<times> string option \<Rightarrow> eq_set option list \<Rightarrow> eq_set option list result" where
  "refresh_file L rate channels file ns =
     (case file of (name, content) \<Rightarrow>
        bindR (guardR (length ''eqsets/'' + length name < 1024) Undefined) (\<lambda>_.
        case content of
          None \<Rightarrow> Inr ns
        | Some s \<Rightarrow>
            bindR (read_setup name (c_str (take 4095 s))) (\<lambda>r.
              Inr (case r of Inl _ \<Rightarrow> ns | Inr su \<Rightarrow> append_eq_set (make_set L rate channels su) ns))))"

text \<open>The position of the preset with a name, from a position on.\<close>

fun find_preset :: "string \<Rightarrow> eq_set option list \<Rightarrow> nat option" where
  "find_preset name [] = None"
| "find_preset name (n # ns) =
     (if (case n of None \<Rightarrow> False | Some s \<Rightarrow> es_name s = name) then Some 0 else map_option Suc (find_preset name ns))"

text \<open>
  Reading the presets again. The name of the current preset is kept, or else the name from the
  settings is used, which is freed by this function all the same.
\<close>

definition equalizer_refresh :: "libm \<Rightarrow> preset_dir option \<Rightarrow> equalizer \<Rightarrow> equalizer option result" where
  "equalizer_refresh L d e =
     bindR (case current_set e of
              Some s \<Rightarrow> Inr (Some (es_name s), config_preset_name e)
            | None \<Rightarrow> (case config_preset_name e of No_name \<Rightarrow> Inr (None, No_name) | Name n \<Rightarrow> Inr (Some n, Freed)
                       | Freed \<Rightarrow> Inl Undefined)) (\<lambda>(current_set_name, config).
     case d of
       None \<Rightarrow> Inr (Some (e\<lparr>eq_nodes := [None], current_equ := None\<rparr>))
     | Some files \<Rightarrow>
         bindR (foldR (refresh_file L (sample_rate e) (equ_channels e)) files [None]) (\<lambda>ns.
         let cur = (case current_set_name of None \<Rightarrow> Some 0 | Some n \<Rightarrow> find_preset n ns);
             e = e\<lparr>eq_nodes := ns, current_equ := cur, config_preset_name := config\<rparr>
         in Inr (map_option (equalizer_adjust_preamp L)
              (if cur \<noteq> None \<and> current_set e = None then equalizer_next L e else Some e))))"

section \<open>Settings\<close>

definition second_word :: "string \<Rightarrow> string" where
  "second_word s =
     (let s = dropWhile isspace s; w = takeWhile (\<lambda>c. \<not> isspace c) s in
      if w = [] then [] else dropWhile isspace (drop (length w) s))"

definition eq_config_line :: "string \<Rightarrow> equalizer \<Rightarrow> equalizer" where
  "eq_config_line l e =
     (let e = (if strncaseeq l ''Active:'' 7
               then (case second_number l of None \<Rightarrow> e | Some t \<Rightarrow> e\<lparr>equ_active := t > 0\<rparr>) else e);
          e = (if strncaseeq l ''Mixin:'' 6
               then (case strtof_exact (second_word l) of
                       None \<Rightarrow> e | Some (x, _) \<Rightarrow> if 0 \<le> x32 x \<and> x32 x \<le> 1 then e\<lparr>mixin_rate := x32 x\<rparr> else e) else e)
      in if strncaseeq l ''Preset:'' 7
         then let w = take 127 (takeWhile (\<lambda>c. \<not> isspace c) (second_word l)) in
           if w \<noteq> [] \<and> length w < 127 then e\<lparr>config_preset_name := Name w\<rparr> else e
         else e)"

definition equalizer_read_config :: "string option \<Rightarrow> equalizer \<Rightarrow> equalizer" where
  "equalizer_read_config file e = (case file of None \<Rightarrow> e | Some s \<Rightarrow> foldl (\<lambda>e l. eq_config_line l e) e (read_lines s))"

text \<open>A number with six decimals, or a word, as \<^verbatim>\<open>%f\<close> prints it.\<close>

definition show_f :: "xflt \<Rightarrow> string" where
  "show_f x =
     (let n = rne (\<bar>xval x\<bar> * 10 ^ 6); sg = (if xneg x then ''-'' else []) in
      if x = NaN then ''nan''
      else if is_inf x then sg @ ''inf''
      else sg @ show_int (n div 10 ^ 6) @ ''.'' @ pad (CHR ''0'') 6 (show_int (n mod 10 ^ 6)))"

definition equalizer_write_config :: "equalizer \<Rightarrow> string" where
  "equalizer_write_config e =
     ''Active:'' @ SP # show_int (of_bool (equ_active e)) @ [LF] @
     (case current_set e of None \<Rightarrow> [] | Some s \<Rightarrow> ''Preset:'' @ SP # es_name s @ [LF]) @
     ''Mixin:'' @ SP # show_f (mixin_rate e) @ [LF]"

definition equalizer_init :: "libm \<Rightarrow> string option \<Rightarrow> preset_dir option \<Rightarrow> equalizer option result" where
  "equalizer_init L config d =
     (let e = equalizer_read_config config
            \<lparr>eq_nodes = [None], current_equ = None, sample_rate = 44100, equ_active = True, equ_channels = 2,
             mixin_rate = Fin (1 / 4), r_mixin_rate = 0, preamp = 0, preampf = pow10f L 0, config_preset_name = No_name\<rparr>
      in equalizer_refresh L d (e\<lparr>r_mixin_rate := x32 (1 - mixin_rate e)\<rparr>))"

definition equalizer_shutdown :: "bool \<Rightarrow> equalizer \<Rightarrow> string option \<Rightarrow> string option \<times> equalizer" where
  "equalizer_shutdown save e file = (if save then Some (equalizer_write_config e) else file, e\<lparr>eq_nodes := [None]\<rparr>)"

section \<open>Processing\<close>

fun mapR :: "('a \<Rightarrow> 'b result) \<Rightarrow> 'a list \<Rightarrow> 'b list result" where
  "mapR f [] = Inr []"
| "mapR f (x # xs) = bindR (f x) (\<lambda>y. bindR (mapR f xs) (\<lambda>ys. Inr (y # ys)))"

definition with_set :: "(eq_set \<Rightarrow> eq_set) \<Rightarrow> equalizer \<Rightarrow> equalizer" where
  "with_set f e = (case current_equ e of None \<Rightarrow> e | Some i \<Rightarrow> e\<lparr>eq_nodes := (eq_nodes e)[i := map_option f (eq_nodes e ! i)]\<rparr>)"

text \<open>
  The filtered samples mixed with the original ones, cut at the ends of the range. A NaN is neither
  below nor above and is not changed by the cut.
\<close>

definition xclamp :: "xflt \<Rightarrow> xflt \<Rightarrow> xflt \<Rightarrow> xflt" where
  "xclamp lo t hi = (if t < lo then lo else if hi < t then hi else t)"

definition mix_in :: "equalizer \<Rightarrow> xflt \<Rightarrow> xflt \<Rightarrow> xflt" where
  "mix_in e y x = x32 (x32 (r_mixin_rate e * y) + x32 (mixin_rate e * x))"

definition equ_samples :: "xflt \<Rightarrow> xflt \<Rightarrow> xflt list \<Rightarrow> equalizer \<Rightarrow> (xflt list \<times> equalizer) result" where
  "equ_samples lo hi xs e =
     (case current_set e of
        None \<Rightarrow> Inl Undefined
      | Some s \<Rightarrow>
          bindR (apply_biquads (nat (equ_channels e)) (es_bcount s) (map (\<lambda>x. x32 (preampf e * x)) xs) (es_b s)) (\<lambda>(ys, b).
            Inr (map2 (\<lambda>y x. xclamp lo (mix_in e y x) hi) ys xs, with_set (\<lambda>s. s\<lparr>es_b := b\<rparr>) e)))"

text \<open>
  Conversion of a float to an integer type drops the fraction; it is undefined out of range, and
  for infinities and NaN.
\<close>

definition trunc :: "rat \<Rightarrow> int" where
  "trunc x = (if x < 0 then \<lceil>x\<rceil> else \<lfloor>x\<rfloor>)"

definition to_int :: "int \<Rightarrow> int \<Rightarrow> xflt \<Rightarrow> int result" where
  "to_int lo hi x =
     (let n = trunc (xval x) in if x \<noteq> NaN \<and> \<not> is_inf x \<and> lo \<le> n \<and> n \<le> hi then Inr n else Inl Undefined)"

definition xflt_of_int :: "int \<Rightarrow> xflt" where
  "xflt_of_int n = x32 (Fin (of_int n))"

definition equ_ints :: "int \<Rightarrow> int \<Rightarrow> int list \<Rightarrow> equalizer \<Rightarrow> (int list \<times> equalizer) result" where
  "equ_ints lo hi ns e =
     bindR (equ_samples (xflt_of_int lo) (xflt_of_int hi) (map xflt_of_int ns) e) (\<lambda>(ys, e).
     bindR (mapR (to_int lo hi) ys) (\<lambda>ms. Inr (ms, e)))"

definition equ_process_buffer_u8 :: "byte list \<Rightarrow> equalizer \<Rightarrow> (byte list \<times> equalizer) result" where
  "equ_process_buffer_u8 b e = bindR (equ_ints 0 UINT8_MAX (map uint b) e) (\<lambda>(ns, e). Inr (map word_of_int ns, e))"

definition equ_process_buffer_s8 :: "byte list \<Rightarrow> equalizer \<Rightarrow> (byte list \<times> equalizer) result" where
  "equ_process_buffer_s8 b e = bindR (equ_ints INT8_MIN INT8_MAX (map sint b) e) (\<lambda>(ns, e). Inr (map word_of_int ns, e))"

definition equ_process_buffer_u16 :: "byte list \<Rightarrow> equalizer \<Rightarrow> (byte list \<times> equalizer) result" where
  "equ_process_buffer_u16 b e = bindR (equ_ints 0 UINT16_MAX (map uint (to16 b)) e) (\<lambda>(ns, e). Inr (of16 (map word_of_int ns), e))"

definition equ_process_buffer_s16 :: "byte list \<Rightarrow> equalizer \<Rightarrow> (byte list \<times> equalizer) result" where
  "equ_process_buffer_s16 b e = bindR (equ_ints INT16_MIN INT16_MAX (map sint (to16 b)) e) (\<lambda>(ns, e). Inr (of16 (map word_of_int ns), e))"

definition equ_process_buffer_u32 :: "byte list \<Rightarrow> equalizer \<Rightarrow> (byte list \<times> equalizer) result" where
  "equ_process_buffer_u32 b e = bindR (equ_ints 0 UINT32_MAX (map uint (to32 b)) e) (\<lambda>(ns, e). Inr (of32 (map word_of_int ns), e))"

definition equ_process_buffer_s32 :: "byte list \<Rightarrow> equalizer \<Rightarrow> (byte list \<times> equalizer) result" where
  "equ_process_buffer_s32 b e = bindR (equ_ints INT32_MIN INT32_MAX (map sint (to32 b)) e) (\<lambda>(ns, e). Inr (of32 (map word_of_int ns), e))"

text \<open>
  Samples that are floats are not converted. The buffers of the other sound code hold finite
  numbers only, so a NaN that this one would leave in the buffer counts as a fault, and the sign of
  a zero is dropped.
\<close>

definition finite_sample :: "xflt \<Rightarrow> flt result" where
  "finite_sample x = (if x = NaN \<or> is_inf x then Inl Undefined else Inr (xval x))"

definition equ_process_buffer_float :: "flt list \<Rightarrow> equalizer \<Rightarrow> (flt list \<times> equalizer) result" where
  "equ_process_buffer_float fs e =
     bindR (equ_samples (Fin (- 1)) (Fin 1) (map Fin fs) e) (\<lambda>(ys, e). bindR (mapR finite_sample ys) (\<lambda>fs. Inr (fs, e)))"

definition equ_format :: "int \<Rightarrow> byte list \<Rightarrow> equalizer \<Rightarrow> (byte list \<times> equalizer) result" where
  "equ_format sound_format b e =
     (if sound_format = SFMT_U8 then equ_process_buffer_u8 b e
      else if sound_format = SFMT_S8 then equ_process_buffer_s8 b e
      else if sound_format = SFMT_U16 then equ_process_buffer_u16 b e
      else if sound_format = SFMT_S16 then equ_process_buffer_s16 b e
      else if sound_format = SFMT_U32 then equ_process_buffer_u32 b e
      else if sound_format = SFMT_S32 then equ_process_buffer_s32 b e
      else Inr (b, e))"

text \<open>
  The sample rate is taken from the first filter, and other sound makes the filters anew; \<open>None\<close>
  is a search for a preset that does not end.
\<close>

definition equ_prepare :: "libm \<Rightarrow> preset_dir option \<Rightarrow> sound_params \<Rightarrow> eq_set \<Rightarrow> equalizer \<Rightarrow> equalizer option result" where
  "equ_prepare L d params s e =
     (case es_b s of
        [] \<Rightarrow> Inl Undefined
      | b # _ \<Rightarrow>
          if sp_rate params \<noteq> israte b \<or> sp_channels params \<noteq> equ_channels e
          then equalizer_refresh L d (e\<lparr>sample_rate := sp_rate params, equ_channels := sp_channels params\<rparr>)
          else Inr (Some e))"

definition equalizer_process_buffer ::
  "libm \<Rightarrow> preset_dir option \<Rightarrow> sound_params \<Rightarrow> sound \<Rightarrow> equalizer \<Rightarrow> (sound \<times> equalizer) option result" where
  "equalizer_process_buffer L d params buf e =
     (case (equ_active e, current_set e) of
        (True, Some s) \<Rightarrow>
          bindR (equ_prepare L d params s e) (\<lambda>r.
            case r of None \<Rightarrow> Inr None
            | Some e \<Rightarrow>
                let sound_endianness = sp_fmt params AND SFMT_MASK_ENDIANNESS;
                    sound_format = sp_fmt params AND SFMT_MASK_FORMAT;
                    ch = sp_channels params
                in bindR (sfmt_Bps sound_format) (\<lambda>samplesize.
                   bindR (guardR (ch \<noteq> 0) Undefined) (\<lambda>_.
                   bindR (guardR (int (bytes_of buf) mod (int samplesize * ch) = 0) Assert) (\<lambda>_.
                     case buf of
                       Floats fs \<Rightarrow>
                         if sound_format = SFMT_FLOAT
                         then bindR (equ_process_buffer_float fs e) (\<lambda>(fs, e). Inr (Some (Floats fs, e)))
                         else Inl Undefined
                     | Fixed b \<Rightarrow>
                         if sound_format = SFMT_FLOAT then Inl Undefined
                         else
                           let swap = (if sound_endianness \<noteq> SFMT_NE \<and> samplesize > 1 then swap_samples samplesize else Inr)
                           in bindR (swap b) (\<lambda>b. bindR (equ_format sound_format b e) (\<lambda>(b, e).
                                bindR (swap b) (\<lambda>b. Inr (Some (Fixed b, e)))))))))
      | _ \<Rightarrow> Inr (Some (buf, e)))"

end
