(* ===== verification/Equalizer_Spec.thy ===== *)
theory Equalizer_Spec
  imports Equalizer Softmixer_Spec
begin

text \<open>
  The equalizer: what becomes of the samples of 8 and 16 bits and when their conversion is defined,
  presets that make it undefined, the walk through the presets in both directions, the
  name from the settings that is used after it was freed, and a preset file that was printed and
  is read back.
\<close>

section \<open>Filters\<close>

lemma channel_step_length: "length (snd (channel_step s bs)) = length bs"
  by (induction s bs rule: channel_step.induct) (auto simp: Let_def split: prod.split)

lemma channel_step_israte: "map israte (snd (channel_step s bs)) = map israte bs"
  by (induction s bs rule: channel_step.induct) (auto simp: Let_def biquad_step_def split: prod.split)

lemma frame_step_length:
  "length (fst (frame_step blen ss bs)) = length ss \<and> length (snd (frame_step blen ss bs)) = length bs"
proof (induction ss arbitrary: bs)
  case (Cons s ss)
  show ?case using Cons [of "drop blen bs"] channel_step_length [of s "take blen bs"] by (auto simp: Let_def split: prod.split)
qed simp

lemma frame_step_israte: "map israte (snd (frame_step blen ss bs)) = map israte bs"
proof (induction ss arbitrary: bs)
  case (Cons s ss)
  have "map israte (take blen bs) @ map israte (drop blen bs) = map israte bs" by (metis append_take_drop_id map_append)
  then show ?case using Cons [of "drop blen bs"] channel_step_israte [of s "take blen bs"]
    by (auto simp: Let_def split: prod.split)
qed simp

text \<open>
  What the filters of one channel do to the samples of this channel alone: a run over the samples,
  each through all filters, whose memory goes from one sample to the next.
\<close>

fun channel_run :: "xflt list \<Rightarrow> biquad list \<Rightarrow> xflt list \<times> biquad list" where
  "channel_run [] bs = ([], bs)"
| "channel_run (s # ss) bs =
     (let (f, bs) = channel_step s bs; (fs, bs) = channel_run ss bs in (f # fs, bs))"

text \<open>The samples of channel \<open>c\<close> of \<open>n\<close>, and its filters.\<close>

definition every :: "nat \<Rightarrow> nat \<Rightarrow> 'a list \<Rightarrow> 'a list" where
  "every n c xs = map (\<lambda>i. xs ! (i * n + c)) [0..<length xs div n]"

definition chan_filters :: "nat \<Rightarrow> nat \<Rightarrow> 'a list \<Rightarrow> 'a list" where
  "chan_filters blen c bs = take blen (drop (c * blen) bs)"

lemma every_Nil [simp]: "every n c [] = []"
  by (simp add: every_def)

lemma every_append:
  assumes "length fs = n" and "c < n"
  shows "every n c (fs @ gs) = fs ! c # every n c gs"
proof -
  have l: "length (fs @ gs) div n = Suc (length gs div n)" using assms by simp
  have "(fs @ gs) ! (Suc i * n + c) = gs ! (i * n + c)" for i using assms by (simp add: nth_append)
  then show ?thesis using assms unfolding every_def l map_upt_Suc by (simp add: nth_append)
qed

lemma every_nth: "length xs mod n = 0 \<Longrightarrow> i < length xs \<Longrightarrow> 0 < n \<Longrightarrow> xs ! i = every n (i mod n) xs ! (i div n)"
  by (auto simp: every_def less_mult_imp_div_less mult.commute)

lemma frame_step_channel:
  "c < length ss \<Longrightarrow> length ss * blen \<le> length bs \<Longrightarrow>
    (fst (frame_step blen ss bs) ! c, chan_filters blen c (snd (frame_step blen ss bs))) = channel_step (ss ! c) (chan_filters blen c bs)"
proof (induction ss arbitrary: bs c)
  case (Cons s ss)
  obtain f cs where f: "channel_step s (take blen bs) = (f, cs)" by fastforce
  obtain fs ds where d: "frame_step blen ss (drop blen bs) = (fs, ds)" by fastforce
  have l: "length cs = blen" using channel_step_length [of s "take blen bs"] f Cons.prems(2) by simp
  show ?case
  proof (cases c)
    case 0
    then show ?thesis using f d l by (simp add: chan_filters_def)
  next
    case (Suc c')
    have "drop (blen + c' * blen) bs = drop (c' * blen) (drop blen bs)" by (simp add: add.commute)
    then show ?thesis using Cons.IH [of c' "drop blen bs"] Cons.prems f d l Suc by (simp add: chan_filters_def)
  qed
qed simp

text \<open>The loop over the frames is a run of every channel on its own.\<close>

lemma apply_biquads_channels:
  "length xs mod ch = 0 \<Longrightarrow> 0 < ch \<Longrightarrow> ch * blen \<le> length bs \<Longrightarrow>
    \<exists>ys bs'. apply_biquads ch blen xs bs = Inr (ys, bs') \<and> length ys = length xs \<and> map israte bs' = map israte bs
      \<and> (\<forall>c<ch. (every ch c ys, chan_filters blen c bs') = channel_run (every ch c xs) (chan_filters blen c bs))"
proof (induction ch blen xs bs rule: apply_biquads.induct)
  case (1 ch blen xs bs)
  show ?case
  proof (cases "xs = []")
    case True
    then show ?thesis by (simp add: apply_biquads.simps)
  next
    case False
    have le: "ch \<le> length xs"
    proof (rule ccontr)
      assume "\<not> ch \<le> length xs"
      then show False using 1(2) False by simp
    qed
    obtain fs bs1 where f: "frame_step blen (take ch xs) bs = (fs, bs1)" by fastforce
    have len: "length fs = ch" "length bs1 = length bs" "map israte bs1 = map israte bs"
      using frame_step_length [of blen "take ch xs" bs] frame_step_israte [of blen "take ch xs" bs] f le by simp_all
    have "length (drop ch xs) mod ch = 0" using 1(2) le by (simp add: le_mod_geq)
    moreover have "\<not> (ch = 0 \<or> length xs < ch \<or> length bs < ch * blen)" using le 1(3,4) by auto
    ultimately obtain gs bs2 where g: "apply_biquads ch blen (drop ch xs) bs1 = Inr (gs, bs2)"
      "length gs = length (drop ch xs)" "map israte bs2 = map israte bs1"
      "\<forall>c<ch. (every ch c gs, chan_filters blen c bs2) = channel_run (every ch c (drop ch xs)) (chan_filters blen c bs1)"
      using 1(1) [OF False _ f [symmetric] refl] 1(3,4) len by force
    have run: "apply_biquads ch blen xs bs = Inr (fs @ gs, bs2)"
      using False le 1(3,4) f g(1) by (subst apply_biquads.simps) (simp add: Let_def)
    have "(every ch c (fs @ gs), chan_filters blen c bs2) = channel_run (every ch c xs) (chan_filters blen c bs)" if c: "c < ch" for c
    proof -
      have st: "channel_step (xs ! c) (chan_filters blen c bs) = (fs ! c, chan_filters blen c bs1)"
        using frame_step_channel [of c "take ch xs" blen bs] f c le 1(4) by simp
      have xs: "every ch c xs = xs ! c # every ch c (drop ch xs)"
        using every_append [of "take ch xs" ch c "drop ch xs"] c le by simp
      have "channel_run (every ch c (drop ch xs)) (chan_filters blen c bs1) = (every ch c gs, chan_filters blen c bs2)"
        using g(4) c by simp
      then show ?thesis unfolding xs every_append [OF len(1) c] by (simp add: st)
    qed
    then show ?thesis using run g len le by simp
  qed
qed

text \<open>The filtered samples, by number: those of channel \<open>i mod ch\<close> are made by the run of this channel.\<close>

definition filtered :: "nat \<Rightarrow> nat \<Rightarrow> biquad list \<Rightarrow> xflt list \<Rightarrow> xflt list" where
  "filtered ch blen bs xs =
     map (\<lambda>i. fst (channel_run (every ch (i mod ch) xs) (chan_filters blen (i mod ch) bs)) ! (i div ch)) [0..<length xs]"

lemma apply_biquads_filtered:
  assumes "length xs mod ch = 0" and "0 < ch" and "ch * blen \<le> length bs"
  shows "\<exists>bs'. apply_biquads ch blen xs bs = Inr (filtered ch blen bs xs, bs') \<and> map israte bs' = map israte bs
    \<and> (\<forall>c<ch. chan_filters blen c bs' = snd (channel_run (every ch c xs) (chan_filters blen c bs)))"
proof -
  obtain ys bs' where y: "apply_biquads ch blen xs bs = Inr (ys, bs')" "length ys = length xs" "map israte bs' = map israte bs"
    and c: "\<And>c. c < ch \<Longrightarrow> channel_run (every ch c xs) (chan_filters blen c bs) = (every ch c ys, chan_filters blen c bs')"
    using apply_biquads_channels [OF assms] by auto
  have "ys = filtered ch blen bs xs"
    by (rule nth_equalityI) (use y(2) c assms every_nth [of ys ch] in \<open>simp_all add: filtered_def\<close>)
  then show ?thesis using y c by auto
qed

lemma length_filtered [simp]: "length (filtered ch blen bs xs) = length xs"
  by (simp add: filtered_def)

section \<open>Samples\<close>

text \<open>Either there is no preset, or every node has one.\<close>

definition presets_ok :: "eq_set option list \<Rightarrow> bool" where
  "presets_ok ns \<longleftrightarrow> ns = [None] \<or> (ns \<noteq> [] \<and> None \<notin> set ns)"

text \<open>A list of presets with a position in it.\<close>

definition eq_ok :: "equalizer \<Rightarrow> bool" where
  "eq_ok e \<longleftrightarrow> presets_ok (eq_nodes e) \<and> (\<forall>i. current_equ e = Some i \<longrightarrow> i < length (eq_nodes e))"

text \<open>
  An active equalizer whose current preset \<open>s\<close> has a filter for every band of every channel, made for the
  sound: this is how reading the presets leaves it when the current one has a band.
\<close>

definition eq_ready :: "sound_params \<Rightarrow> eq_set \<Rightarrow> equalizer \<Rightarrow> bool" where
  "eq_ready params s e \<longleftrightarrow>
     eq_ok e \<and> equ_active e \<and> current_set e = Some s \<and> 0 < equ_channels e \<and> sp_channels params = equ_channels e \<and>
     es_b s \<noteq> [] \<and> nat (equ_channels e) * es_bcount s \<le> length (es_b s) \<and> israte (hd (es_b s)) = sp_rate params"

text \<open>The mixture of filtered and original samples before the cut.\<close>

definition equ_mix :: "eq_set \<Rightarrow> equalizer \<Rightarrow> xflt list \<Rightarrow> xflt list" where
  "equ_mix s e xs =
     map2 (mix_in e) (filtered (nat (equ_channels e)) (es_bcount s) (es_b s) (map (\<lambda>x. x32 (preampf e * x)) xs)) xs"

text \<open>The equalizer behind the samples: only the memory of the filters has changed, each channel by its samples.\<close>

definition eq_after :: "eq_set \<Rightarrow> xflt list \<Rightarrow> equalizer \<Rightarrow> eq_set \<Rightarrow> equalizer \<Rightarrow> bool" where
  "eq_after s xs e s' e' \<longleftrightarrow>
     (\<exists>b. s' = s\<lparr>es_b := b\<rparr> \<and> e' = with_set (\<lambda>s. s\<lparr>es_b := b\<rparr>) e \<and>
       (\<forall>c<nat (equ_channels e). chan_filters (es_bcount s) c b =
          snd (channel_run (every (nat (equ_channels e)) c (map (\<lambda>x. x32 (preampf e * x)) xs)) (chan_filters (es_bcount s) c (es_b s)))))"

lemma with_set_ready:
  assumes "eq_ready params s e" and "map israte b = map israte (es_b s)"
  shows "eq_ready params (s\<lparr>es_b := b\<rparr>) (with_set (\<lambda>s. s\<lparr>es_b := b\<rparr>) e)"
proof -
  obtain i where i: "current_equ e = Some i" "eq_nodes e ! i = Some s" "i < length (eq_nodes e)"
    using assms(1) by (auto simp: eq_ready_def current_set_def eq_ok_def split: option.splits)
  have "length b = length (es_b s)" using assms(2) by (metis length_map)
  moreover have "es_b s \<noteq> []" using assms(1) by (simp add: eq_ready_def)
  moreover from this have "israte (hd b) = israte (hd (es_b s))" using assms(2) by (metis hd_map list.map_disc_iff)
  moreover have "presets_ok (eq_nodes e) \<Longrightarrow> presets_ok ((eq_nodes e)[i := Some t])" for t
    using i by (cases i) (auto simp: presets_ok_def dest!: set_update_subset_insert [THEN subsetD])
  ultimately show ?thesis
    using assms(1) i by (auto simp: eq_ready_def eq_ok_def with_set_def current_set_def)
qed

lemma equ_samples_mix:
  assumes "eq_ready params s e" and "length xs mod nat (equ_channels e) = 0"
  shows "\<exists>s' e'. equ_samples lo hi xs e = Inr (map (\<lambda>t. xclamp lo t hi) (equ_mix s e xs), e') \<and> eq_after s xs e s' e' \<and> eq_ready params s' e'"
proof -
  let ?ch = "nat (equ_channels e)" and ?xs = "map (\<lambda>x. x32 (preampf e * x)) xs"
  have r: "current_set e = Some s" "0 < ?ch" "?ch * es_bcount s \<le> length (es_b s)" using assms(1) by (auto simp: eq_ready_def)
  obtain b where b: "apply_biquads ?ch (es_bcount s) ?xs (es_b s) = Inr (filtered ?ch (es_bcount s) (es_b s) ?xs, b)"
    "map israte b = map israte (es_b s)"
    "\<forall>c<?ch. chan_filters (es_bcount s) c b = snd (channel_run (every ?ch c ?xs) (chan_filters (es_bcount s) c (es_b s)))"
    using apply_biquads_filtered [of ?xs ?ch "es_bcount s" "es_b s"] r(2,3) assms(2) by auto
  show ?thesis
  proof (intro exI conjI)
    show "equ_samples lo hi xs e = Inr (map (\<lambda>t. xclamp lo t hi) (equ_mix s e xs), with_set (\<lambda>s. s\<lparr>es_b := b\<rparr>) e)"
      using r(1) b(1) by (simp add: equ_samples_def equ_mix_def o_def case_prod_unfold)
    show "eq_after s xs e (s\<lparr>es_b := b\<rparr>) (with_set (\<lambda>s. s\<lparr>es_b := b\<rparr>) e)" using b(3) by (auto simp: eq_after_def)
    show "eq_ready params (s\<lparr>es_b := b\<rparr>) (with_set (\<lambda>s. s\<lparr>es_b := b\<rparr>) e)" by (rule with_set_ready [OF assms(1) b(2)])
  qed
qed

text \<open>The cut and the conversion of a number that is not NaN.\<close>

definition cut_level :: "int \<Rightarrow> int \<Rightarrow> xflt \<Rightarrow> int" where
  "cut_level lo hi t = (if t < Fin (of_int lo) then lo else if Fin (of_int hi) < t then hi else trunc (xval t))"

lemma trunc_bounds: "of_int lo \<le> x \<Longrightarrow> x \<le> of_int hi \<Longrightarrow> lo \<le> 0 \<Longrightarrow> 0 \<le> hi \<Longrightarrow> lo \<le> trunc x \<and> trunc x \<le> hi"
  unfolding trunc_def by (auto simp: le_floor_iff floor_le_iff ceiling_le_iff le_ceiling_iff; linarith)

lemma trunc_of_int [simp]: "trunc (of_int n) = n"
  by (simp add: trunc_def)

lemma cut_level_bounds: "lo \<le> 0 \<Longrightarrow> 0 \<le> hi \<Longrightarrow> t \<noteq> NaN \<Longrightarrow> lo \<le> cut_level lo hi t \<and> cut_level lo hi t \<le> hi"
  using not_xless_Fin [of t "of_int lo" "of_int hi"] trunc_bounds [of lo "xval t" hi] by (auto simp: cut_level_def)

lemma to_int_clamp:
  "lo \<le> 0 \<Longrightarrow> 0 \<le> hi \<Longrightarrow>
    to_int lo hi (xclamp (Fin (of_int lo)) t (Fin (of_int hi))) = (if t = NaN then Inl Undefined else Inr (cut_level lo hi t))"
  using not_xless_Fin [of t "of_int lo" "of_int hi"] trunc_bounds [of lo "xval t" hi]
  by (auto simp: to_int_def xclamp_def cut_level_def Let_def)

lemma mapR_partial:
  "(\<And>x. x \<in> set xs \<Longrightarrow> f x = (if P x then Inl err else Inr (g x))) \<Longrightarrow>
    mapR f xs = (if \<exists>x\<in>set xs. P x then Inl err else Inr (map g xs))"
  by (induction xs) auto

lemma mapR_map: "mapR f (map h xs) = mapR (\<lambda>x. f (h x)) xs"
  by (induction xs) simp_all

lemma equ_ints_mix:
  assumes "eq_ready params s e" and "length ns mod nat (equ_channels e) = 0"
    and "lo \<le> 0" "0 \<le> hi" "\<bar>lo\<bar> < 2 ^ 24" "\<bar>hi\<bar> < 2 ^ 24"
  shows "\<exists>s' e'. eq_after s (map xflt_of_int ns) e s' e' \<and> eq_ready params s' e' \<and>
    equ_ints lo hi ns e =
      (let ts = equ_mix s e (map xflt_of_int ns) in if NaN \<in> set ts then Inl Undefined else Inr (map (cut_level lo hi) ts, e'))"
proof -
  let ?ts = "equ_mix s e (map xflt_of_int ns)"
  have f: "xflt_of_int lo = Fin (of_int lo)" "xflt_of_int hi = Fin (of_int hi)" using assms(5,6) by (simp_all add: xflt_of_int_def x32_int)
  obtain s' e' where e': "eq_after s (map xflt_of_int ns) e s' e'" "eq_ready params s' e'"
    "equ_samples (Fin (of_int lo)) (Fin (of_int hi)) (map xflt_of_int ns) e =
      Inr (map (\<lambda>t. xclamp (Fin (of_int lo)) t (Fin (of_int hi))) ?ts, e')"
    using equ_samples_mix [OF assms(1), of "map xflt_of_int ns" "Fin (of_int lo)" "Fin (of_int hi)"] assms(2) by auto
  have "mapR (to_int lo hi) (map (\<lambda>t. xclamp (Fin (of_int lo)) t (Fin (of_int hi))) ?ts)
      = mapR (\<lambda>t. to_int lo hi (xclamp (Fin (of_int lo)) t (Fin (of_int hi)))) ?ts"
    by (rule mapR_map)
  also have "\<dots> = (if NaN \<in> set ?ts then Inl Undefined else Inr (map (cut_level lo hi) ?ts))"
    using mapR_partial [of ?ts _ "\<lambda>t. t = NaN" Undefined "cut_level lo hi"] to_int_clamp [OF assms(3,4)] by (auto simp: Bex_def)
  finally show ?thesis using e' f by (auto simp: equ_ints_def Let_def)
qed

text \<open>
  The numbers in the samples as the equalizer takes them, with those of an unsigned format from 0 on,
  and the range of the format.
\<close>

definition level_lo :: "int \<Rightarrow> int" where
  "level_lo k = (if signed_kind k then - (2 ^ (bits k - 1)) else 0)"

definition level_hi :: "int \<Rightarrow> int" where
  "level_hi k = level_lo k + 2 ^ bits k - 1"

definition levels :: "int \<Rightarrow> int \<Rightarrow> byte list \<Rightarrow> int list" where
  "levels k e b = map (\<lambda>v. v + 2 ^ (bits k - 1) + level_lo k) (vals k e b)"

lemma levels_raw:
  "levels SFMT_S8 e b = map sint b" "levels SFMT_U8 e b = map uint b"
  "levels SFMT_S16 SFMT_LE b = map sint (to16 b)" "levels SFMT_U16 SFMT_LE b = map uint (to16 b)"
  by (simp_all add: levels_def vals_def level_lo_def word_val_def o_def)

lemma level_range:
  "level_lo SFMT_S8 = INT8_MIN" "level_hi SFMT_S8 = INT8_MAX" "level_lo SFMT_U8 = 0" "level_hi SFMT_U8 = UINT8_MAX"
  "level_lo SFMT_S16 = INT16_MIN" "level_hi SFMT_S16 = INT16_MAX" "level_lo SFMT_U16 = 0" "level_hi SFMT_U16 = UINT16_MAX"
  by (simp_all add: level_lo_def level_hi_def limit_defs)

lemma words_back:
  "\<forall>n\<in>set ns. 0 \<le> n \<and> n < 2 ^ LENGTH('a) \<Longrightarrow> map uint (map word_of_int ns :: 'a::len word list) = ns"
  "\<forall>n\<in>set ns. - (2 ^ (LENGTH('a) - 1)) \<le> n \<and> n < 2 ^ (LENGTH('a) - 1) \<Longrightarrow> map sint (map word_of_int ns :: 'a::len word list) = ns"
  by (auto intro!: map_idI simp: unsigned_of_int signed_of_int take_bit_int_eq_self signed_take_bit_int_eq_self)

lemma equ_format_mix:
  assumes k: "k \<in> fixed_kinds" "bits k \<le> 16" and r: "eq_ready params s e" and al: "Bps k * nat (equ_channels e) dvd length b"
  shows "\<exists>s' e'. eq_after s (map xflt_of_int (levels k SFMT_LE b)) e s' e' \<and> eq_ready params s' e' \<and>
    (let ts = equ_mix s e (map xflt_of_int (levels k SFMT_LE b)) in
     if NaN \<in> set ts then equ_format k b e = Inl Undefined
     else \<exists>b'. equ_format k b e = Inr (b', e') \<and> length b' = length b \<and> levels k SFMT_LE b' = map (cut_level (level_lo k) (level_hi k)) ts)"
proof -
  let ?ns = "levels k SFMT_LE b" and ?lo = "level_lo k" and ?hi = "level_hi k"
  let ?ts = "equ_mix s e (map xflt_of_int ?ns)"
  have p: "0 < Bps k" using bits_cases [OF k(1)] by auto
  obtain q where q: "length b = Bps k * (nat (equ_channels e) * q)" using al by (metis dvdE mult.assoc)
  then have n: "length ?ns mod nat (equ_channels e) = 0" "Bps k * length ?ns = length b"
    using p length_vals [OF k(1)] by (simp_all add: levels_def)
  have lim: "?lo \<le> 0" "0 \<le> ?hi" "\<bar>?lo\<bar> < 2 ^ 24" "\<bar>?hi\<bar> < 2 ^ 24"
    using k by (auto elim!: fixed_kindsE simp: level_range limit_defs)
  obtain s' e' where e': "eq_after s (map xflt_of_int ?ns) e s' e'" "eq_ready params s' e'"
    "equ_ints ?lo ?hi ?ns e = (if NaN \<in> set ?ts then Inl Undefined else Inr (map (cut_level ?lo ?hi) ?ts, e'))"
    using equ_ints_mix [OF r n(1) lim] by (auto simp: Let_def)
  show ?thesis
  proof (cases "NaN \<in> set ?ts")
    case True
    then have "equ_format k b e = Inl Undefined"
      using k e'(3) by (elim fixed_kindsE) (simp_all add: equ_format_def equ_process_buffer_s8_def equ_process_buffer_u8_def
          equ_process_buffer_s16_def equ_process_buffer_u16_def levels_raw level_range)
    then show ?thesis using e'(1,2) True by auto
  next
    case False
    define ms where "ms = map (cut_level ?lo ?hi) ?ts"
    have i: "equ_ints ?lo ?hi ?ns e = Inr (ms, e')" using e'(3) False by (simp add: ms_def)
    have lms: "length ms = length ?ns" by (simp add: ms_def equ_mix_def)
    have c: "\<forall>n\<in>set ms. ?lo \<le> n \<and> n \<le> ?hi"
    proof
      fix n
      assume "n \<in> set ms"
      then obtain t where "t \<in> set ?ts" "n = cut_level ?lo ?hi t" unfolding ms_def by auto
      moreover from this have "t \<noteq> NaN" using False by blast
      ultimately show "?lo \<le> n \<and> n \<le> ?hi" using cut_level_bounds [OF lim(1,2)] by blast
    qed
    have "\<exists>b'. equ_format k b e = Inr (b', e') \<and> length b' = length b \<and> levels k SFMT_LE b' = ms"
      using k(1)
    proof (cases rule: fixed_kindsE)
      case 1
      have "map sint (map word_of_int ms :: 8 word list) = ms" by (rule words_back(2)) (use c 1 in \<open>auto simp: level_range limit_defs\<close>)
      then show ?thesis using i lms n(2) 1
        by (auto simp: equ_format_def equ_process_buffer_s8_def levels_raw level_range limit_defs)
    next
      case 2
      have "map uint (map word_of_int ms :: 8 word list) = ms" by (rule words_back(1)) (use c 2 in \<open>auto simp: level_range limit_defs\<close>)
      then show ?thesis using i lms n(2) 2
        by (auto simp: equ_format_def equ_process_buffer_u8_def levels_raw level_range limit_defs)
    next
      case 3
      have "map sint (map word_of_int ms :: 16 word list) = ms" by (rule words_back(2)) (use c 3 in \<open>auto simp: level_range limit_defs\<close>)
      then show ?thesis using i lms n(2) 3
        by (auto simp: equ_format_def equ_process_buffer_s16_def levels_raw level_range limit_defs)
    next
      case 4
      have "map uint (map word_of_int ms :: 16 word list) = ms" by (rule words_back(1)) (use c 4 in \<open>auto simp: level_range limit_defs\<close>)
      then show ?thesis using i lms n(2) 4
        by (auto simp: equ_format_def equ_process_buffer_u16_def levels_raw level_range limit_defs)
    qed (use k(2) in simp_all)
    then have "\<exists>b'. equ_format k b e = Inr (b', e') \<and> length b' = length b \<and> levels k SFMT_LE b' = map (cut_level ?lo ?hi) ?ts"
      by (simp only: ms_def)
    then show ?thesis using e'(1,2) False by auto
  qed
qed

text \<open>The change of the byte order before and after the processing.\<close>

definition swapped :: "int \<Rightarrow> int \<Rightarrow> byte list \<Rightarrow> byte list result" where
  "swapped k e b = (if e \<noteq> SFMT_NE \<and> Bps k > 1 then swap_samples (Bps k) b else Inr b)"

lemma swapped_levels:
  assumes v: "valid_fmt k e" and al: "Bps k dvd length b"
  shows "\<exists>b'. swapped k e b = Inr b' \<and> length b' = length b \<and> levels k SFMT_LE b' = levels k e b \<and> levels k e b' = levels k SFMT_LE b"
proof (cases "e \<noteq> SFMT_NE \<and> Bps k > 1")
  case True
  note dd = valid_fmtD [OF v]
  have "bits k \<noteq> 8" "e = SFMT_BE" using dd(5,6) True by (auto simp: SFMT_NE_def)
  then show ?thesis using swap_samples_vals [OF dd(1), of b] al True by (auto simp: levels_def swapped_def)
next
  case False
  note dd = valid_fmtD [OF v]
  have "vals k e b = vals k SFMT_LE b"
    using False dd(5,6) bits_cases [OF dd(1)] vals_8 [of k e b SFMT_LE] vals_not_BE [of e k b] by (auto simp: SFMT_NE_def)
  then show ?thesis using False by (auto simp: levels_def swapped_def)
qed

lemma process_buffer_run:
  assumes v: "valid_fmt k e" and fmt: "sp_fmt params = k OR e" and r: "eq_ready params s q"
    and al: "Bps k * nat (sp_channels params) dvd length buf"
  shows "equalizer_process_buffer L d params (Fixed buf) q =
    bindR (swapped k e buf) (\<lambda>b. bindR (equ_format k b q) (\<lambda>(b, q). bindR (swapped k e b) (\<lambda>b. Inr (Some (Fixed b, q)))))"
proof -
  note dd = valid_fmtD [OF v]
  have a: "equ_active q" "current_set q = Some s" "es_b s \<noteq> []" "israte (hd (es_b s)) = sp_rate params"
    "0 < sp_channels params" "sp_channels params = equ_channels q"
    using r by (auto simp: eq_ready_def)
  obtain m where m: "length buf = Bps k * (nat (sp_channels params) * m)" using al by (metis dvdE mult.assoc)
  have B: "sfmt_Bps k = Inr (Bps k)" using Bps_fmt [of k 0] dd(1,2) by (elim fixed_kindsE) (simp_all add: endians_def)
  have "int (length buf) = int (Bps k) * sp_channels params * int m" using m a(5) by simp
  then have md: "int (length buf) mod (int (Bps k) * sp_channels params) = 0" by simp
  have sw: "(if e \<noteq> SFMT_NE \<and> Bps k > 1 then swap_samples (Bps k) else Inr) = swapped k e" by (rule ext) (simp add: swapped_def)
  have prep: "equ_prepare L d params s q = Inr (Some q)" using a by (cases "es_b s") (simp_all add: equ_prepare_def)
  show ?thesis
    unfolding equalizer_process_buffer_def sw [symmetric]
    using a prep fmt fmt_kind(1,2) [OF dd(2,3)] B md dd(4) by (simp add: Let_def)
qed

text \<open>
  C31: Sound of 8 or 16 bits in either byte order, with whole frames, for an equalizer whose current
  preset has bands and filters made for the rate and the channels of the sound. The sound is
  processed without a fault exactly when no mixed sample is NaN. Then as many bytes come out
  as went in, and every sample is the mixture of the original sample and of what the filters
  of its channel make of the amplified samples of this channel, cut at the ends of the range
  and without its fraction. Only the memory of the filters changes, and they are ready for
  the next buffer. A mixed sample that is NaN passes the cut, and its conversion is undefined.
\<close>

theorem equalizer_defined:
  assumes "valid_fmt k e" and "bits k \<le> 16" and "sp_fmt params = k OR e"
    and "eq_ready params s q" and "Bps k * nat (sp_channels params) dvd length buf"
  shows "if NaN \<in> set (equ_mix s q (map xflt_of_int (levels k e buf)))
    then equalizer_process_buffer L d params (Fixed buf) q = Inl Undefined
    else \<exists>out s' q'. equalizer_process_buffer L d params (Fixed buf) q = Inr (Some (Fixed out, q')) \<and> length out = length buf \<and>
      levels k e out = map (cut_level (level_lo k) (level_hi k)) (equ_mix s q (map xflt_of_int (levels k e buf))) \<and>
      eq_after s (map xflt_of_int (levels k e buf)) q s' q' \<and> eq_ready params s' q'"
proof -
  note k = valid_fmtD(1) [OF assms(1)]
  let ?ts = "equ_mix s q (map xflt_of_int (levels k e buf))"
  have al: "Bps k dvd length buf" using assms(5) by (rule dvd_mult_left)
  obtain x where x: "swapped k e buf = Inr x" "length x = length buf" "levels k SFMT_LE x = levels k e buf"
    using swapped_levels [OF assms(1) al] by blast
  have ch: "Bps k * nat (equ_channels q) dvd length x" using assms(4,5) x(2) by (simp add: eq_ready_def)
  obtain s' q' where s': "eq_after s (map xflt_of_int (levels k e buf)) q s' q'" "eq_ready params s' q'"
    and f: "if NaN \<in> set ?ts then equ_format k x q = Inl Undefined
      else \<exists>b'. equ_format k x q = Inr (b', q') \<and> length b' = length x \<and> levels k SFMT_LE b' = map (cut_level (level_lo k) (level_hi k)) ?ts"
    using equ_format_mix [OF k assms(2,4) ch] x(3) by (auto simp: Let_def)
  note run = process_buffer_run [OF assms(1,3-5), of L d]
  show ?thesis
  proof (cases "NaN \<in> set ?ts")
    case True
    then show ?thesis using run x(1) f by simp
  next
    case False
    then obtain y where y: "equ_format k x q = Inr (y, q')" "length y = length x"
      "levels k SFMT_LE y = map (cut_level (level_lo k) (level_hi k)) ?ts" using f by auto
    obtain z where "swapped k e y = Inr z" "length z = length y" "levels k e z = levels k SFMT_LE y"
      using swapped_levels [OF assms(1), of y] al x(2) y(2) by auto
    then show ?thesis using run x y s' False by auto
  qed
qed

text \<open>A preset with one band that changes nothing, at twice the volume.\<close>

definition flat_band :: biquad where
  "flat_band = \<lparr>a0 = Fin 1, a1 = Fin 0, a2 = Fin 0, a3 = Fin 0, a4 = Fin 0, x1 = Fin 0, x2 = Fin 0, y1 = Fin 0, y2 = Fin 0,
     b_cf = Fin 1000, b_bw = Fin 1, b_gain = Fin 0, b_srate = Fin 44100, israte = 44100\<rparr>"

definition flat_set :: eq_set where
  "flat_set = \<lparr>es_name = ''flat'', es_channels = 2, es_preamp = Fin 6, es_bcount = 1, es_b = [flat_band, flat_band]\<rparr>"

definition flat_eq :: equalizer where
  "flat_eq = \<lparr>eq_nodes = [Some flat_set],
     current_equ = Some 0, sample_rate = 44100, equ_active = True, equ_channels = 2, mixin_rate = Fin (1 / 4), r_mixin_rate = Fin (3 / 4),
     preamp = Fin 6, preampf = Fin 2, config_preset_name = No_name\<rparr>"

definition no_libm :: libm where
  "no_libm = \<lparr>pow10f = (\<lambda>_. Fin 1), m_sin = (\<lambda>_. Fin 1), m_cos = (\<lambda>_. Fin 0), m_sinh = (\<lambda>_. Fin 0)\<rparr>"

definition cd_sound :: sound_params where
  "cd_sound = \<lparr>sp_channels = 2, sp_rate = 44100, sp_fmt = SFMT_S16 OR SFMT_BE\<rparr>"

lemma flat_ready: "eq_ready cd_sound flat_set flat_eq"
  by (simp add: eq_ready_def eq_ok_def presets_ok_def cd_sound_def flat_eq_def flat_set_def flat_band_def current_set_def)

text \<open>The sample 1000 becomes 1750, and -32768 is cut.\<close>

lemma flat_mix: "equ_mix flat_set flat_eq (map xflt_of_int (levels SFMT_S16 SFMT_BE [3, 232, 128, 0])) = [Fin 1750, Fin (- 57344)]"
  by code_simp

theorem equalizer_defined_witness:
  "\<exists>out s' q'. equalizer_process_buffer no_libm None cd_sound (Fixed [3, 232, 128, 0]) flat_eq = Inr (Some (Fixed out, q')) \<and>
      length out = 4 \<and> levels SFMT_S16 SFMT_BE out = [1750, - 32768] \<and> eq_ready cd_sound s' q'"
proof -
  have "valid_fmt SFMT_S16 SFMT_BE" by (simp add: valid_fmt_def fixed_kinds_def)
  moreover have "map (cut_level (level_lo SFMT_S16) (level_hi SFMT_S16)) [Fin 1750, Fin (- 57344)] = [1750, - 32768]" by code_simp
  moreover have l4: "length [3 :: byte, 232, 128, 0] = 4" by simp
  moreover have "Bps SFMT_S16 * nat (sp_channels cd_sound) dvd length [3 :: byte, 232, 128, 0]" unfolding l4 by (simp add: cd_sound_def)
  moreover have "sp_fmt cd_sound = SFMT_S16 OR SFMT_BE" by (simp add: cd_sound_def)
  ultimately show ?thesis
    using equalizer_defined [OF _ _ _ flat_ready, of SFMT_S16 SFMT_BE "[3, 232, 128, 0]" no_libm None]
    unfolding flat_mix l4 by auto
qed


text \<open>
  With 32 bits the upper end of the range is not a float: it is rounded up, the cut at the end does
  not help, and the conversion of the loudest sample back to an integer is undefined.
\<close>

lemma loudest_sample_undefined: "equ_process_buffer_u32 [255, 255, 255, 255, 255, 255, 255, 255] flat_eq = Inl Undefined"
  by code_simp

section \<open>Presets that overflow\<close>

text \<open>A NaN goes through all filters of a channel and through the mixture.\<close>

lemma channel_step_NaN: "fst (channel_step NaN bs) = NaN"
  by (induction bs) (simp_all add: biquad_step_def Let_def case_prod_unfold)

lemma channel_run_NaN: "i < length xs \<Longrightarrow> xs ! i = NaN \<Longrightarrow> fst (channel_run xs bs) ! i = NaN"
proof (induction xs arbitrary: i bs)
  case (Cons x xs)
  then show ?case by (cases i) (auto simp: Let_def case_prod_unfold channel_step_NaN)
qed simp

lemma filtered_NaN:
  assumes "length xs mod ch = 0" and "0 < ch" and "i < length xs" and "xs ! i = NaN"
  shows "filtered ch blen bs xs ! i = NaN"
proof -
  have "i div ch < length (every ch (i mod ch) xs)" using assms(1-3) by (auto simp: every_def less_mult_imp_div_less mult.commute)
  then show ?thesis using assms every_nth [OF assms(1,3,2)] by (simp add: filtered_def channel_run_NaN)
qed

text \<open>An infinite preamplification makes a NaN of silence.\<close>

lemma equ_mix_silence:
  assumes "eq_ready params s q" and "is_inf (preampf q)" and "length ns mod nat (equ_channels q) = 0" and "0 \<in> set ns"
  shows "NaN \<in> set (equ_mix s q (map xflt_of_int ns))"
proof -
  let ?xs = "map (\<lambda>x. x32 (preampf q * x)) (map xflt_of_int ns)"
  obtain i where i: "i < length ns" "ns ! i = 0" using assms(4) by (auto simp: in_set_conv_nth)
  have "xflt_of_int 0 = Fin 0" using x32_int [of 0] by (simp add: xflt_of_int_def)
  then have x: "?xs ! i = NaN" using i assms(2) by (cases "preampf q") (simp_all add: times_xflt_def is_zero_def)
  have "filtered (nat (equ_channels q)) (es_bcount s) (es_b s) ?xs ! i = NaN"
    by (rule filtered_NaN) (use assms(1,3) i x in \<open>simp_all add: eq_ready_def\<close>)
  then have "equ_mix s q (map xflt_of_int ns) ! i = mix_in q NaN (map xflt_of_int ns ! i)" using i by (simp add: equ_mix_def)
  also have "\<dots> = NaN" by (simp add: mix_in_def)
  finally show ?thesis using i(1) by (metis equ_mix_def length_filtered length_map length_zip min.idem nth_mem)
qed

text \<open>
  A file with a preamplification too large for a float is refused, but one with a word for infinity is not, and
  neither is one whose power of ten overflows.
\<close>

lemma preset_inf:
  "read_setup ''loud'' (''EQSET'' @ LF # ''0 inf'' @ LF # ''1000 1 0'')
    = Inr (Inr \<lparr>su_name = ''loud'', su_preamp = Infinity False, su_bands = [(Fin 1000, Fin 1, Fin 0)]\<rparr>)"
  "read_setup ''loud'' (''EQSET'' @ LF # ''0 0x3e8'' @ LF # ''1000 1 0'')
    = Inr (Inr \<lparr>su_name = ''loud'', su_preamp = Fin 1000, su_bands = [(Fin 1000, Fin 1, Fin 0)]\<rparr>)"
  "read_setup ''loud'' (''EQSET'' @ LF # ''0 1e39'' @ LF # ''1000 1 0'') = Inr (Inl Bad_settings)"
  by code_simp+

text \<open>
  C32: Sound of 8 or 16 bits, in an equalizer that is ready for it and whose current preset has an
  infinite preamplification, which a file of presets can give it by a word: once the
  amplification is computed, with \<^verbatim>\<open>powf\<close> giving infinity for infinity, a buffer with one silent
  sample is converted out of range, which is undefined.
\<close>

theorem infinite_preamp_undefined:
  assumes "valid_fmt k e" and "bits k \<le> 16" and "sp_fmt params = k OR e"
    and r: "eq_ready params s q" and al: "Bps k * nat (sp_channels params) dvd length buf"
    and inf: "pow10f L (Infinity False) = Infinity False" "es_preamp s = Infinity False" and "0 \<in> set (levels k e buf)"
  shows "equalizer_process_buffer L d params (Fixed buf) (equalizer_adjust_preamp L q) = Inl Undefined"
proof -
  let ?q = "equalizer_adjust_preamp L q"
  have s: "current_set q = Some s" using r by (simp add: eq_ready_def)
  have "x32 (Infinity False / Fin 20) = Infinity False" by code_simp
  then have q: "?q = q\<lparr>preamp := Infinity False, preampf := Infinity False\<rparr>" using inf s by (simp add: equalizer_adjust_preamp_def)
  have r1: "eq_ready params s ?q" using r unfolding q by (cases "current_equ q") (simp_all add: eq_ready_def eq_ok_def current_set_def)
  obtain m where m: "length buf = Bps k * (nat (sp_channels params) * m)" using al by (metis dvdE mult.assoc)
  moreover have "0 < Bps k" using bits_cases [OF valid_fmtD(1) [OF assms(1)]] by auto
  ultimately have "length (levels k e buf) mod nat (equ_channels ?q) = 0"
    using length_vals [OF valid_fmtD(1) [OF assms(1)]] r1 by (simp add: levels_def eq_ready_def)
  then have nan: "NaN \<in> set (equ_mix s ?q (map xflt_of_int (levels k e buf)))"
    using equ_mix_silence [OF r1] assms(8) by (simp add: q)
  obtain x where x: "swapped k e buf = Inr x" "length x = length buf" "levels k SFMT_LE x = levels k e buf"
    using swapped_levels [OF assms(1) dvd_mult_left [OF al]] by blast
  have ch: "Bps k * nat (equ_channels ?q) dvd length x" using r1 al x(2) by (simp add: eq_ready_def)
  have "equ_format k x ?q = Inl Undefined"
    using equ_format_mix [OF valid_fmtD(1) [OF assms(1)] assms(2) r1 ch] nan x(3) by (auto simp: Let_def)
  then show ?thesis using process_buffer_run [OF assms(1,3) r1 al, of L d] x(1) by simp
qed

definition loud_set :: eq_set where
  "loud_set = flat_set\<lparr>es_preamp := Infinity False\<rparr>"

definition loud_eq :: equalizer where
  "loud_eq = flat_eq\<lparr>eq_nodes := [Some loud_set]\<rparr>"

theorem infinite_preamp_undefined_witness:
  "equalizer_process_buffer (no_libm\<lparr>pow10f := \<lambda>x. x\<rparr>) None cd_sound (Fixed [3, 232, 0, 0])
     (equalizer_adjust_preamp (no_libm\<lparr>pow10f := \<lambda>x. x\<rparr>) loud_eq) = Inl Undefined"
proof (rule infinite_preamp_undefined [where k = SFMT_S16 and e = SFMT_BE and s = loud_set])
  show "eq_ready cd_sound loud_set loud_eq"
    by (simp add: eq_ready_def eq_ok_def presets_ok_def cd_sound_def loud_eq_def loud_set_def flat_eq_def flat_set_def flat_band_def current_set_def)
  show "0 \<in> set (levels SFMT_S16 SFMT_BE [3, 232, 0, 0])" by code_simp
  have l4: "length [3 :: byte, 232, 0, 0] = 4" by simp
  show "Bps SFMT_S16 * nat (sp_channels cd_sound) dvd length [3 :: byte, 232, 0, 0]" unfolding l4 by (simp add: cd_sound_def)
qed (simp_all add: valid_fmt_def fixed_kinds_def cd_sound_def no_libm_def loud_set_def)

section \<open>Walking through the presets\<close>

lemma presets_nth: "presets_ok ns \<Longrightarrow> i < length ns \<Longrightarrow> ns ! i = None \<Longrightarrow> i = 0 \<and> length ns = 1"
  by (auto simp: presets_ok_def in_set_conv_nth)

lemma next_node_ok:
  assumes "presets_ok ns" "i < length ns"
  shows "next_node ns i = Some (if Suc i < length ns then Suc i else 0)"
proof -
  let ?j = "if Suc i < length ns then Suc i else 0"
  have "?j < length ns" using assms(2) by auto
  then have "\<not> (ns ! ?j = None \<and> \<not> (?j = 0 \<and> length ns = 1))" using presets_nth [OF assms(1)] by blast
  then show ?thesis by (subst next_node.simps) (simp only: Let_def if_False)
qed

lemma prev_node_ok:
  assumes "presets_ok ns" "i < length ns"
  shows "prev_node ns i = Some (if 0 < i then i - 1 else length ns - 1)"
proof -
  let ?j = "if 0 < i then i - 1 else length ns - 1"
  have "?j < length ns" using assms(2) by auto
  then have "\<not> (ns ! ?j = None \<and> \<not> (?j = 0 \<and> length ns = 1))" using presets_nth [OF assms(1)] by blast
  then show ?thesis by (subst prev_node.simps) (simp only: Let_def if_False)
qed

lemma append_eq_set_ok: "presets_ok ns \<Longrightarrow> presets_ok (append_eq_set s ns)"
  by (auto simp: presets_ok_def append_eq_set_def dest: last_in_set)

lemma refresh_file_ok: "presets_ok ns \<Longrightarrow> refresh_file L r c f ns = Inr ns' \<Longrightarrow> presets_ok ns'"
proof -
  assume ns: "presets_ok ns" and r: "refresh_file L r c f ns = Inr ns'"
  obtain n x where f: "f = (n, x)" by (cases f)
  show "presets_ok ns'"
  proof (cases x)
    case None
    then show ?thesis using ns r f by (auto simp: refresh_file_def bindR_eq_Inr)
  next
    case (Some s)
    note Some' = Some
    show ?thesis
    proof (cases "read_setup n (c_str (take 4095 s))")
      case (Inr y)
      then show ?thesis using ns r f Some' append_eq_set_ok by (cases y) (auto simp: refresh_file_def bindR_eq_Inr)
    qed (use r f Some' in \<open>auto simp: refresh_file_def bindR_eq_Inr\<close>)
  qed
qed

lemma refresh_files_ok: "presets_ok ns \<Longrightarrow> foldR (refresh_file L r c) fs ns = Inr ns' \<Longrightarrow> presets_ok ns'"
  by (rule foldR_invariant [where P = presets_ok]) (auto intro: refresh_file_ok)

lemma find_preset_bound: "find_preset n ns = Some i \<Longrightarrow> i < length ns"
  by (induction n ns arbitrary: i rule: find_preset.induct) (auto split: if_splits)

lemma adjust_preamp_fields [simp]:
  "eq_nodes (equalizer_adjust_preamp L e) = eq_nodes e" "current_equ (equalizer_adjust_preamp L e) = current_equ e"
  by (simp_all add: equalizer_adjust_preamp_def split: option.split)

lemma equalizer_next_ok:
  assumes "eq_ok e" and "current_equ e = Some i"
  shows "equalizer_next L e = Some (equalizer_adjust_preamp L (e\<lparr>current_equ := Some (if Suc i < length (eq_nodes e) then Suc i else 0)\<rparr>))"
  using assms next_node_ok [of "eq_nodes e" i] by (simp add: equalizer_next_def eq_ok_def)

lemma equalizer_prev_ok:
  assumes "eq_ok e" and "current_equ e = Some i"
  shows "equalizer_prev L e = Some (equalizer_adjust_preamp L (e\<lparr>current_equ := Some (if 0 < i then i - 1 else length (eq_nodes e) - 1)\<rparr>))"
  using assms prev_node_ok [of "eq_nodes e" i] by (simp add: equalizer_prev_def eq_ok_def)

lemma eq_ok_move: "eq_ok e \<Longrightarrow> j < length (eq_nodes e) \<Longrightarrow> eq_ok (equalizer_adjust_preamp L (e\<lparr>current_equ := Some j\<rparr>))"
  by (simp add: eq_ok_def)

lemma adjust_preamp_set [simp]: "current_set (equalizer_adjust_preamp L e) = current_set e"
  by (cases "current_equ e") (simp_all add: current_set_def)

lemma adjust_preampf: "current_set e = Some s \<Longrightarrow> preampf (equalizer_adjust_preamp L e) = pow10f L (x32 (es_preamp s / Fin 20))"
  by (simp add: equalizer_adjust_preamp_def)

lemma refresh_name_cases:
  assumes "equalizer_refresh L (Some files) e0 = Inr r"
  shows "\<exists>ns cur config. foldR (refresh_file L (sample_rate e0) (equ_channels e0)) files [None] = Inr ns
    \<and> (cur = Some 0 \<or> (\<exists>n. cur = find_preset n ns))
    \<and> r = map_option (equalizer_adjust_preamp L)
        (if cur \<noteq> None \<and> current_set (e0\<lparr>eq_nodes := ns, current_equ := cur, config_preset_name := config\<rparr>) = None
         then equalizer_next L (e0\<lparr>eq_nodes := ns, current_equ := cur, config_preset_name := config\<rparr>)
         else Some (e0\<lparr>eq_nodes := ns, current_equ := cur, config_preset_name := config\<rparr>))"
proof -
  from assms obtain nm config ns where
    ns: "foldR (refresh_file L (sample_rate e0) (equ_channels e0)) files [None] = Inr ns" and
    r: "r = (let cur = (case nm of None \<Rightarrow> Some 0 | Some n \<Rightarrow> find_preset n ns);
             e = e0\<lparr>eq_nodes := ns, current_equ := cur, config_preset_name := config\<rparr>
         in map_option (equalizer_adjust_preamp L) (if cur \<noteq> None \<and> current_set e = None then equalizer_next L e else Some e))"
    unfolding equalizer_refresh_def bindR_eq_Inr Let_def by (simp only: option.case prod.case split_paired_Ex bindR_eq_Inr sum.inject) blast
  then show ?thesis unfolding Let_def
    by (intro exI [of _ ns] exI [of _ "case nm of None \<Rightarrow> Some 0 | Some n \<Rightarrow> find_preset n ns"] exI [of _ config]) (auto split: option.split)
qed

lemma refresh_ok:
  assumes "equalizer_refresh L d e0 = Inr r"
  obtains e where "r = Some e" "eq_ok e" "\<And>s. current_set e = Some s \<Longrightarrow> preampf e = pow10f L (x32 (es_preamp s / Fin 20))"
proof (cases d)
  case None
  then have "r = Some (e0\<lparr>eq_nodes := [None], current_equ := None\<rparr>)" using assms by (auto simp: equalizer_refresh_def bindR_eq_Inr)
  then show ?thesis using that by (auto simp: eq_ok_def presets_ok_def current_set_def)
next
  case (Some files)
  then obtain ns cur config where ns: "foldR (refresh_file L (sample_rate e0) (equ_channels e0)) files [None] = Inr ns"
    and cur: "cur = Some 0 \<or> (\<exists>n. cur = find_preset n ns)"
    and r: "r = map_option (equalizer_adjust_preamp L)
        (if cur \<noteq> None \<and> current_set (e0\<lparr>eq_nodes := ns, current_equ := cur, config_preset_name := config\<rparr>) = None
         then equalizer_next L (e0\<lparr>eq_nodes := ns, current_equ := cur, config_preset_name := config\<rparr>)
         else Some (e0\<lparr>eq_nodes := ns, current_equ := cur, config_preset_name := config\<rparr>))"
    using assms refresh_name_cases by blast
  have p: "presets_ok ns" using refresh_files_ok [OF _ ns] by (simp add: presets_ok_def)
  then have len: "0 < length ns" by (auto simp: presets_ok_def)
  let ?e = "e0\<lparr>eq_nodes := ns, current_equ := cur, config_preset_name := config\<rparr>"
  have ok: "eq_ok ?e" using p cur len find_preset_bound by (auto simp: eq_ok_def)
  obtain e where e: "r = Some (equalizer_adjust_preamp L e)" "eq_ok e"
  proof (cases "cur \<noteq> None \<and> current_set ?e = None")
    case True
    then obtain i where i: "cur = Some i" by auto
    from equalizer_next_ok [OF ok, of i L] i r True
    have "r = Some (equalizer_adjust_preamp L (equalizer_adjust_preamp L (?e\<lparr>current_equ := Some (if Suc i < length ns then Suc i else 0)\<rparr>)))"
      by simp
    moreover have "eq_ok (equalizer_adjust_preamp L (?e\<lparr>current_equ := Some (if Suc i < length ns then Suc i else 0)\<rparr>))"
      using eq_ok_move [OF ok] len by simp
    ultimately show ?thesis using that by blast
  next
    case False
    then have "r = Some (equalizer_adjust_preamp L ?e)" using r by (simp only: if_False option.map)
    then show ?thesis using that ok by blast
  qed
  have "eq_ok (equalizer_adjust_preamp L e)" using e(2) by (simp add: eq_ok_def)
  then show ?thesis using that e(1) adjust_preampf by auto
qed

text \<open>
  Reading the presets makes the filters ready: a current preset with bands has them for the
  rate and the channels the equalizer was set to.
\<close>

lemma adjust_preamp_other [simp]:
  "equ_active (equalizer_adjust_preamp L e) = equ_active e" "equ_channels (equalizer_adjust_preamp L e) = equ_channels e"
  by (simp_all add: equalizer_adjust_preamp_def split: option.split)

lemma refresh_fields:
  assumes "equalizer_refresh L (Some files) e0 = Inr (Some e)"
  shows "foldR (refresh_file L (sample_rate e0) (equ_channels e0)) files [None] = Inr (eq_nodes e)"
    and "equ_active e = equ_active e0" and "equ_channels e = equ_channels e0"
proof -
  obtain ns cur config where ns: "foldR (refresh_file L (sample_rate e0) (equ_channels e0)) files [None] = Inr ns"
    and r: "Some e = map_option (equalizer_adjust_preamp L)
        (if cur \<noteq> None \<and> current_set (e0\<lparr>eq_nodes := ns, current_equ := cur, config_preset_name := config\<rparr>) = None
         then equalizer_next L (e0\<lparr>eq_nodes := ns, current_equ := cur, config_preset_name := config\<rparr>)
         else Some (e0\<lparr>eq_nodes := ns, current_equ := cur, config_preset_name := config\<rparr>))"
    using refresh_name_cases [OF assms] by metis
  have "eq_nodes e = ns \<and> equ_active e = equ_active e0 \<and> equ_channels e = equ_channels e0"
    using r [symmetric] by (auto simp: equalizer_next_def split: if_splits option.splits)
  then show "foldR (refresh_file L (sample_rate e0) (equ_channels e0)) files [None] = Inr (eq_nodes e)"
    "equ_active e = equ_active e0" "equ_channels e = equ_channels e0" using ns by simp_all
qed

lemma refresh_file_made:
  assumes "refresh_file L r c f ns = Inr ns'" and "Some s \<in> set ns'"
  shows "Some s \<in> set ns \<or> (\<exists>su. s = make_set L r c su)"
proof -
  have app: "Some s \<in> set (append_eq_set t ns) \<Longrightarrow> Some s \<in> set ns \<or> s = t" for t
    by (auto simp: append_eq_set_def split: if_splits dest: in_set_butlastD)
  have "ns' = ns \<or> (\<exists>su. ns' = append_eq_set (make_set L r c su) ns)"
    using assms(1) by (auto simp: refresh_file_def bindR_eq_Inr split: prod.split_asm option.split_asm sum.split_asm) (metis sum.exhaust)
  then show ?thesis using assms(2) app by blast
qed

lemma refresh_files_made:
  assumes "foldR (refresh_file L r c) fs [None] = Inr ns" and "Some s \<in> set ns"
  shows "\<exists>su. s = make_set L r c su"
proof -
  have "\<forall>s. Some s \<in> set ns \<longrightarrow> (\<exists>su. s = make_set L r c su)"
    by (rule foldR_invariant [OF _ _ assms(1), where P = "\<lambda>ns. \<forall>s. Some s \<in> set ns \<longrightarrow> (\<exists>su. s = make_set L r c su)"])
      (use refresh_file_made in \<open>blast, simp\<close>)
  then show ?thesis using assms(2) by blast
qed

lemma make_set_filters:
  assumes "0 < c" and "\<bar>r\<bar> < 2 ^ 24" and "es_bcount (make_set L r c su) \<noteq> 0"
  shows "length (es_b (make_set L r c su)) = nat c * es_bcount (make_set L r c su)"
    and "es_b (make_set L r c su) \<noteq> []" and "israte (hd (es_b (make_set L r c su))) = r"
proof -
  define bs where "bs = map (\<lambda>(cf, bw, dg). mk_biquad L dg cf (x32 (Fin (of_int r))) bw) (su_bands su)"
  have f: "es_b (make_set L r c su) = concat (replicate (nat c) bs)" "es_bcount (make_set L r c su) = length bs"
    by (simp_all add: make_set_def bs_def Let_def)
  obtain b bs' where b: "bs = b # bs'" using assms(3) f(2) by (cases bs) auto
  obtain n where n: "nat c = Suc n" using assms(1) by (cases "nat c") auto
  have "israte x = r" if "x \<in> set bs" for x using that x32_int [OF assms(2)] by (auto simp: bs_def mk_biquad_def Let_def)
  then show "israte (hd (es_b (make_set L r c su))) = r" "es_b (make_set L r c su) \<noteq> []" using f b n by auto
  show "length (es_b (make_set L r c su)) = nat c * es_bcount (make_set L r c su)"
    unfolding f by (simp add: length_concat sum_list_replicate)
qed

lemma refresh_ready:
  assumes "equalizer_refresh L d e0 = Inr (Some e)" and "current_set e = Some s" and "es_bcount s \<noteq> 0" and "equ_active e0"
    and p: "sp_rate params = sample_rate e0" "sp_channels params = equ_channels e0" "0 < equ_channels e0" "\<bar>sample_rate e0\<bar> < 2 ^ 24"
  shows "eq_ready params s e"
proof (cases d)
  case None
  then have "current_set e = None" using assms(1) by (auto simp: equalizer_refresh_def bindR_eq_Inr current_set_def)
  then show ?thesis using assms(2) by simp
next
  case (Some files)
  note f = refresh_fields [OF assms(1) [unfolded Some]]
  obtain e' where "Some e = Some e'" "eq_ok e'" using refresh_ok [OF assms(1)] by blast
  then have ok: "eq_ok e" by simp
  have "Some s \<in> set (eq_nodes e)"
    using assms(2) ok by (auto simp: current_set_def eq_ok_def split: option.splits dest: nth_mem)
  then obtain su where "s = make_set L (sample_rate e0) (equ_channels e0) su" using refresh_files_made [OF f(1)] by blast
  then show ?thesis using make_set_filters [OF p(3,4), of L su] assms(2-4) ok f(2,3) p by (simp add: eq_ready_def)
qed

text \<open>
  The presets can be walked through in both directions: whatever files were read, reading them
  ends, and afterwards going to the next preset and back to the previous one ends at the same preset
  with the same preamplification.
\<close>

lemma equalizer_next_prev:
  assumes "equalizer_refresh L d e0 = Inr r"
  shows "\<exists>e e1 e2. r = Some e \<and> equalizer_next L e = Some e1 \<and> equalizer_prev L e1 = Some e2
    \<and> current_set e2 = current_set e \<and> current_equ e2 = current_equ e \<and> (current_set e \<noteq> None \<longrightarrow> preampf e2 = preampf e)"
proof -
  obtain e where e: "r = Some e" "eq_ok e" "\<And>s. current_set e = Some s \<Longrightarrow> preampf e = pow10f L (x32 (es_preamp s / Fin 20))"
    using refresh_ok [OF assms] by blast
  show ?thesis
  proof (cases "current_equ e")
    case None
    then have "equalizer_adjust_preamp L e = e" by (simp add: equalizer_adjust_preamp_def current_set_def)
    then show ?thesis using e(1) None by (auto simp: equalizer_next_def equalizer_prev_def)
  next
    case (Some i)
    let ?n = "length (eq_nodes e)"
    define j where "j = (if Suc i < ?n then Suc i else 0)"
    let ?e1 = "equalizer_adjust_preamp L (e\<lparr>current_equ := Some j\<rparr>)"
    have i: "i < ?n" using e(2) Some by (simp add: eq_ok_def)
    have j: "j < ?n" "(if 0 < j then j - 1 else ?n - 1) = i" using i by (auto simp: j_def)
    have "equalizer_next L e = Some ?e1" using equalizer_next_ok [OF e(2) Some] by (simp only: j_def)
    moreover have "eq_ok ?e1" by (rule eq_ok_move [OF e(2) j(1)])
    then have p: "equalizer_prev L ?e1 = Some (equalizer_adjust_preamp L (?e1\<lparr>current_equ := Some (if 0 < j then j - 1 else length (eq_nodes ?e1) - 1)\<rparr>))"
      by (rule equalizer_prev_ok) simp
    have n: "length (eq_nodes ?e1) = ?n" by simp
    have "equalizer_prev L ?e1 = Some (equalizer_adjust_preamp L (?e1\<lparr>current_equ := Some i\<rparr>))" using p unfolding n j(2) .
    moreover have "current_set (?e1\<lparr>current_equ := Some i\<rparr>) = current_set e" using Some by (simp add: current_set_def)
    ultimately show ?thesis using e(1,3) Some adjust_preampf by fastforce
  qed
qed

section \<open>A name that is freed\<close>

lemma find_preset_absent: "(\<And>s. Some s \<in> set ns \<Longrightarrow> es_name s \<noteq> n) \<Longrightarrow> find_preset n ns = None"
  by (induction ns) (auto split: option.split)

lemma setup_loop_name: "setup_loop d mx su = Inr (Some su') \<Longrightarrow> su_name su' = su_name su"
proof (induction d mx su rule: setup_loop.induct)
  case (1 d mx su)
  show ?case using 1(3) 1(1,2)
    by (subst (asm) setup_loop.simps) (auto simp: Let_def split: if_splits option.splits prod.splits)
qed

lemma refresh_file_names:
  "refresh_file L r c f ns = Inr ns' \<Longrightarrow> Some s \<in> set ns' \<Longrightarrow> Some s \<in> set ns \<or> es_name s = fst f"
proof -
  assume r: "refresh_file L r c f ns = Inr ns'" and s: "Some s \<in> set ns'"
  obtain n x where f: "f = (n, x)" by (cases f)
  have app: "Some s \<in> set (append_eq_set t ns) \<Longrightarrow> Some s \<in> set ns \<or> s = t" for t
    by (auto simp: append_eq_set_def split: if_splits dest: in_set_butlastD)
  have name: "read_setup n d = Inr (Inr su) \<Longrightarrow> su_name su = n" for d su
    using setup_loop_name by (fastforce simp: read_setup_def Let_def bindR_eq_Inr split: if_splits option.splits)
  show ?thesis
  proof (cases x)
    case None
    then show ?thesis using r s f by (auto simp: refresh_file_def bindR_eq_Inr)
  next
    case (Some c')
    note Some' = Some
    show ?thesis
    proof (cases "read_setup n (c_str (take 4095 c'))")
      case (Inr y)
      show ?thesis
      proof (cases y)
        case (Inl a)
        then show ?thesis using r s f Some' Inr by (auto simp: refresh_file_def bindR_eq_Inr)
      next
        case I: (Inr su)
        then have "ns' = append_eq_set (make_set L r c su) ns" using \<open>refresh_file L r c f ns = Inr ns'\<close> f Some' Inr by (auto simp: refresh_file_def bindR_eq_Inr)
        then have "Some s \<in> set ns \<or> s = make_set L r c su" using s app by simp
        then show ?thesis using name [of _ su] Inr I f by (auto simp: make_set_def Let_def)
      qed
    qed (use r f Some' in \<open>auto simp: refresh_file_def bindR_eq_Inr\<close>)
  qed
qed

lemma refresh_files_names:
  "foldR (refresh_file L r c) fs ns = Inr ns' \<Longrightarrow> Some s \<in> set ns' \<Longrightarrow> Some s \<in> set ns \<or> es_name s \<in> fst ` set fs"
proof (induction fs arbitrary: ns)
  case (Cons f fs)
  then obtain n1 where n1: "refresh_file L r c f ns = Inr n1" "foldR (refresh_file L r c) fs n1 = Inr ns'" by (auto simp: bindR_eq_Inr)
  show ?case using Cons.IH [OF n1(2) Cons.prems(2)] refresh_file_names [OF n1(1), of s] by auto
qed auto

text \<open>
  When the settings name a preset for which there is no file, the name is freed while the
  presets are read, and reading them again, as the command for it or a change of the sample rate
  does, uses the freed name.
\<close>

lemma equalizer_freed_name:
  assumes "equalizer_init L config (Some files) = Inr (Some e)"
    and "config_preset_name (equalizer_read_config config
           \<lparr>eq_nodes = [None], current_equ = None, sample_rate = 44100, equ_active = True, equ_channels = 2,
            mixin_rate = Fin (1 / 4), r_mixin_rate = 0, preamp = 0, preampf = pow10f L 0, config_preset_name = No_name\<rparr>) = Name n"
    and "n \<notin> fst ` set files"
  shows "equalizer_refresh L d e = Inl Undefined"
proof -
  let ?e = "equalizer_read_config config
       \<lparr>eq_nodes = [None], current_equ = None, sample_rate = 44100, equ_active = True, equ_channels = 2,
        mixin_rate = Fin (1 / 4), r_mixin_rate = 0, preamp = 0, preampf = pow10f L 0, config_preset_name = No_name\<rparr>"
  have keep: "current_equ (eq_config_line l x) = current_equ x" for l x
    by (auto simp: eq_config_line_def Let_def split: option.splits prod.splits if_splits)
  have "current_equ (foldl (\<lambda>x l. eq_config_line l x) x ls) = current_equ x" for ls x
    by (induction ls arbitrary: x) (simp_all add: keep)
  then have c: "current_equ ?e = None" by (simp add: equalizer_read_config_def split: option.split)
  have r: "equalizer_refresh L (Some files) (?e\<lparr>r_mixin_rate := x32 (1 - mixin_rate ?e)\<rparr>) = Inr (Some e)"
    using assms(1) by (simp add: equalizer_init_def Let_def)
  then obtain ns where ns: "foldR (refresh_file L (sample_rate ?e) (equ_channels ?e)) files [None] = Inr ns"
    and e: "e = equalizer_adjust_preamp L (?e\<lparr>r_mixin_rate := x32 (1 - mixin_rate ?e), eq_nodes := ns, current_equ := find_preset n ns, config_preset_name := Freed\<rparr>)
      \<or> find_preset n ns \<noteq> None"
    using assms(2) c by (auto simp: equalizer_refresh_def current_set_def bindR_eq_Inr Let_def split: if_splits)
  have "find_preset n ns = None"
    by (rule find_preset_absent) (use refresh_files_names [OF ns] assms(3) in auto)
  then have "current_set e = None" "config_preset_name e = Freed"
    using e by (auto simp: current_set_def equalizer_adjust_preamp_def)
  then show ?thesis by (simp add: equalizer_refresh_def)
qed

section \<open>Files of presets\<close>

lemma digit_cases: "isdigit c \<Longrightarrow> c \<notin> {CHR ''-'', CHR ''+'', CHR ''.'', CHR ''#'', SP, LF, CR} \<and> \<not> isspace c \<and> \<not> blank_char c"
  by (auto simp: isdigit_def SP_def LF_def CR_def isspace_def blank_char_def wrapS_def)

lemma digits_val_dec: "\<forall>c\<in>set ds. isdigit c \<Longrightarrow> digits_val 10 ds = foldl (\<lambda>n c. n * 10 + digit_val c) 0 ds"
proof -
  assume "\<forall>c\<in>set ds. isdigit c"
  then have "foldl (\<lambda>n c. n * 10 + (case hex_val c of None \<Rightarrow> 0 | Some d \<Rightarrow> d)) m ds = foldl (\<lambda>n c. n * 10 + digit_val c) m ds" for m
    by (induction ds arbitrary: m) (simp_all add: hex_val_def)
  then show ?thesis by (simp add: digits_val_def)
qed

lemma scan_decimal_show:
  assumes "x \<in> {SP, LF}"
  shows "scan_decimal (show_nat n @ x # r) = Some (of_nat n, x # r)"
proof -
  have x: "\<not> isdigit x" "x \<noteq> CHR ''.''" using assms by (auto simp: SP_def LF_def isdigit_def)
  have t: "takeWhile isdigit (show_nat n @ x # r) = show_nat n" using show_nat_digits [of n] x(1) by simp
  have "scan_mantissa isdigit 10 (show_nat n @ x # r) = Some (int n, 0, x # r)"
    unfolding scan_mantissa_def t using x(2) show_nat_hd [of n] show_nat_val [of n] show_nat_digits [of n]
    by (simp add: digits_val_dec Let_def)
  moreover have "scan_exponent {''e'', ''E''} (x # r) = (0, x # r)" using assms by (auto simp: scan_exponent_def SP_def LF_def)
  ultimately show ?thesis by (simp add: scan_decimal_def)
qed

lemma strncaseeq_cons2:
  "strncaseeq (c # d # s) ''0x'' 2 \<longleftrightarrow> tolower c = CHR ''0'' \<and> tolower d = CHR ''x''"
  by (simp add: strncaseeq_def strcaseeq_def tolower_def isupper_def numeral_2_eq_2)

text \<open>A decimal number is neither a word nor in base 16.\<close>

lemma scan_digits_show:
  assumes "x \<in> {SP, LF}"
  shows "scan_word (show_nat n @ x # r) = None" and "scan_digits (show_nat n @ x # r) = Some (of_nat n, x # r)"
proof -
  obtain c ds where c: "show_nat n = c # ds" "isdigit c" "\<forall>d\<in>set ds. isdigit d"
    using show_nat_hd [of n] show_nat_digits [of n] by (cases "show_nat n") auto
  have low: "isdigit d \<Longrightarrow> tolower d = d \<and> d \<noteq> CHR ''i'' \<and> d \<noteq> CHR ''n'' \<and> d \<noteq> CHR ''x''" for d
    by (auto simp: isdigit_def tolower_def isupper_def)
  have i: "tolower c \<noteq> CHR ''i''" "tolower c \<noteq> CHR ''n''" using low [OF c(2)] by auto
  have l: "tolower (CHR ''i'') = CHR ''i''" "tolower (CHR ''n'') = CHR ''n''" by code_simp+
  show "scan_word (show_nat n @ x # r) = None"
    using i l by (simp add: scan_word_def c(1) strncaseeq_def strcaseeq_def numeral_eq_Suc)
  obtain d ds' where d: "ds @ x # r = d # ds'" "isdigit d \<or> d = x" using c(3) by (cases ds) auto
  have "tolower SP \<noteq> CHR ''x''" "tolower LF \<noteq> CHR ''x''" by code_simp+
  then have "tolower d \<noteq> CHR ''x''" using d(2) low [of d] assms by auto
  then have "scan_hex (show_nat n @ x # r) = None" using d(1) by (simp add: scan_hex_def c(1) strncaseeq_cons2)
  then show "scan_digits (show_nat n @ x # r) = Some (of_nat n, x # r)"
    using scan_decimal_show [OF assms] by (simp add: scan_digits_def)
qed

lemma strtof_show:
  assumes "x \<in> {SP, LF}"
  shows "strtof_exact (show_int n @ x # r) = Some (Fin (of_int n), x # r)"
proof -
  obtain c ds where c: "show_nat (nat n) = c # ds" "isdigit c"
    using show_nat_hd [of "nat n"] show_nat_digits [of "nat n"] by (cases "show_nat (nat n)") auto
  show ?thesis
  proof (cases "n < 0")
    case True
    have "scan_sign (dropWhile isspace (show_int n @ x # r)) = (True, show_nat (nat (- n)) @ x # r)"
      using True by (simp add: show_int_def scan_sign_def isspace_def SP_def)
    then show ?thesis using True scan_digits_show [OF assms, of "nat (- n)" r]
      by (simp add: strtof_exact_def uminus_xflt_def signed_fin_def)
  next
    case False
    have "scan_sign (dropWhile isspace (show_int n @ x # r)) = (False, show_nat (nat n) @ x # r)"
      using False c digit_cases [OF c(2)] by (simp add: show_int_def scan_sign_def)
    then show ?thesis using False scan_digits_show [OF assms, of "nat n" r] by (simp add: strtof_exact_def)
  qed
qed

lemma read_float_show:
  assumes "x \<in> {SP, LF}" and "\<bar>n\<bar> < 2 ^ 24"
  shows "read_float (show_int n @ x # r) = Some (Fin (of_int n), x # r)"
proof -
  have f: "x32 (Fin (of_int n)) = Fin (of_int n)" by (rule x32_int [OF assms(2)])
  have "n \<noteq> 0 \<Longrightarrow> 1 \<le> \<bar>of_int n :: rat\<bar>" by (metis of_int_1 of_int_abs of_int_le_iff int_one_le_iff_zero_less zero_less_abs_iff)
  then have "\<not> out_of_range (Fin (of_int n))" using f by (auto simp: out_of_range_def FLT_MIN_def)
  then show ?thesis using strtof_show [OF assms(1)] f by (simp add: read_float_def)
qed

lemma is_zero_int [simp]: "is_zero (Fin (of_int n)) \<longleftrightarrow> n = 0" "is_zero (Fin 0)"
  by (simp_all add: is_zero_def)

lemma skip_blank: "blank_char x \<Longrightarrow> skip_whitespace (x # s) = skip_whitespace s"
  by (simp add: skip_whitespace.simps [of "x # s"] skip_whitespace.simps [of s])

lemma blank_SP [simp]: "blank_char SP" "blank_char LF"
  by (simp_all add: blank_char_def SP_def LF_def wrapS_def)

lemma skip_show [simp]: "skip_whitespace (show_int n @ s) = show_int n @ s"
proof -
  obtain c ds where c: "show_int n = c # ds" by (cases "show_int n") auto
  then have "isdigit c \<or> c = CHR ''-''" using show_int_chars [of c n] by simp
  then have "\<not> blank_char c" "c \<noteq> CHR ''#''" using digit_cases [of c] by (auto simp: blank_char_def wrapS_def)
  then show ?thesis using c by (subst skip_whitespace.simps) simp
qed

lemma skip_nil [simp]: "skip_whitespace [] = []"
  by (simp add: skip_whitespace.simps)

text \<open>Whole numbers of up to 24 bits, which a float represents.\<close>

definition print_band :: "int \<times> int \<times> int \<Rightarrow> string" where
  "print_band b = (case b of (cf, bw, dg) \<Rightarrow> show_int cf @ SP # show_int bw @ SP # show_int dg @ [LF])"

definition print_setup :: "int \<Rightarrow> (int \<times> int \<times> int) list \<Rightarrow> string" where
  "print_setup pre bands = ''EQSET'' @ LF # show_int 0 @ SP # show_int pre @ LF # concat (map print_band bands)"

definition band_ok :: "int \<times> int \<times> int \<Rightarrow> bool" where
  "band_ok b = (case b of (cf, bw, dg) \<Rightarrow> cf \<noteq> 0 \<and> \<bar>cf\<bar> < 2 ^ 24 \<and> \<bar>bw\<bar> < 2 ^ 24 \<and> \<bar>dg\<bar> < 2 ^ 24)"

definition float_band :: "int \<times> int \<times> int \<Rightarrow> xflt \<times> xflt \<times> xflt" where
  "float_band b = (case b of (cf, bw, dg) \<Rightarrow> (Fin (of_int cf), Fin (of_int bw), Fin (of_int dg)))"

lemma skip_bands: "skip_whitespace (concat (map print_band bands)) = concat (map print_band bands)"
  by (cases bands) (auto simp: print_band_def split: prod.split)

lemma setup_loop_bands:
  "\<forall>b\<in>set bands. band_ok b \<Longrightarrow> 2 \<le> mx \<Longrightarrow> length (su_bands su) \<le> mx \<Longrightarrow>
    setup_loop (concat (map print_band bands)) mx su = Inr (Some (su\<lparr>su_bands := su_bands su @ map float_band bands\<rparr>))"
proof (induction bands arbitrary: mx su)
  case Nil
  then show ?case by (simp add: setup_loop.simps)
next
  case (Cons b bands)
  obtain cf bw dg where b: "b = (cf, bw, dg)" by (cases b)
  have ok: "cf \<noteq> 0" "\<bar>cf\<bar> < 2 ^ 24" "\<bar>bw\<bar> < 2 ^ 24" "\<bar>dg\<bar> < 2 ^ 24" using Cons.prems(1) b by (auto simp: band_ok_def)
  let ?rest = "concat (map print_band bands)"
  define mx' where "mx' = (if length (su_bands su) \<ge> mx - 1 then mx * 2 else mx)"
  have m: "2 \<le> mx'" "length (su_bands su) < mx'" using Cons.prems(2,3) by (auto simp: mx'_def)
  have printed: "concat (map print_band (b # bands)) = show_int cf @ SP # show_int bw @ SP # show_int dg @ LF # ?rest"
    by (simp add: b print_band_def)
  have "setup_loop (concat (map print_band (b # bands))) mx su
      = setup_loop ?rest mx' (su\<lparr>su_bands := su_bands su @ [(Fin (of_int cf), Fin (of_int bw), Fin (of_int dg))]\<rparr>)"
    unfolding printed using ok m(2) read_float_show unfolding mx'_def
    by (subst setup_loop.simps) (simp add: Let_def skip_blank skip_bands split: if_splits)
  then show ?case using Cons.IH [of mx' "su\<lparr>su_bands := su_bands su @ [(Fin (of_int cf), Fin (of_int bw), Fin (of_int dg))]\<rparr>"] Cons.prems(1) m
    by (simp add: b float_band_def)
qed

text \<open>
  C33: A file of a preset with any number of bands, printed in whole numbers, is read as that preset:
  the name of the file, the preamplification and the bands in order. The arrays the bands are
  stored in are always large enough.
\<close>

theorem eqset_roundtrip:
  assumes "\<forall>b\<in>set bands. band_ok b" and "\<bar>pre\<bar> < 2 ^ 24"
  shows "read_setup name (print_setup pre bands)
    = Inr (Inr \<lparr>su_name = name, su_preamp = Fin (of_int pre), su_bands = map float_band bands\<rparr>)"
proof -
  let ?rest = "concat (map print_band bands)" and ?su = "\<lparr>su_name = name, su_preamp = 0, su_bands = []\<rparr>"
  have head: "skip_whitespace (print_setup pre bands) = print_setup pre bands"
    by (subst skip_whitespace.simps) (simp add: print_setup_def blank_char_def wrapS_def)
  have "skip_line (drop 5 (print_setup pre bands)) = show_int 0 @ SP # show_int pre @ LF # ?rest"
    by (simp add: print_setup_def skip_line_def LF_def CR_def)
  moreover have "setup_loop (show_int 0 @ SP # show_int pre @ LF # ?rest) 16 ?su = setup_loop ?rest 16 (?su\<lparr>su_preamp := Fin (of_int pre)\<rparr>)"
    using assms(2) read_float_show by (subst setup_loop.simps) (simp add: skip_blank skip_bands)
  moreover have "setup_loop ?rest 16 (?su\<lparr>su_preamp := Fin (of_int pre)\<rparr>) = Inr (Some (?su\<lparr>su_preamp := Fin (of_int pre), su_bands := map float_band bands\<rparr>))"
    using setup_loop_bands [OF assms(1), of 16 "?su\<lparr>su_preamp := Fin (of_int pre)\<rparr>"] by simp
  ultimately show ?thesis unfolding read_setup_def head Let_def by (simp add: print_setup_def strncaseeq_def strcaseeq_def)
qed

theorem eqset_roundtrip_witness:
  "read_setup ''rock'' (print_setup (- 6) [(60, 1, 4), (14000, 2, - 3)])
    = Inr (Inr \<lparr>su_name = ''rock'', su_preamp = Fin (of_int (- 6)), su_bands = map float_band [(60, 1, 4), (14000, 2, - 3)]\<rparr>)"
  by (rule eqset_roundtrip) (simp_all add: band_ok_def)

end
