(* ===== verification/Audio_Dev.thy ===== *)
theory Audio_Dev
  imports Equalizer Out_Buf Options Play_Order
begin

text \<open>
  The part of \<^verbatim>\<open>src/src/moc-2.5.0/audio.c\<close> that talks to the sound driver: choosing a driver,
  opening and closing the device, converting the sound of the decoder for it, sending sound through
  the equalizer and the software mixer, and the mixer channels. A driver is a record of functions, as
  in the source; \<^verbatim>\<open>src/src/moc-2.5.0/null_out.c\<close> is modelled as one of them.
\<close>

unbundle bit_operations_syntax

section \<open>Drivers\<close>

record output_driver_caps =
  min_channels :: int
  max_channels :: int
  formats :: int

text \<open>
  The functions work on a state of the driver. \<^verbatim>\<open>shutdown\<close> and \<^verbatim>\<open>reset\<close> may be null pointers.
\<close>

record 'h hw_funcs =
  hw_init :: "output_driver_caps \<Rightarrow> 'h \<Rightarrow> bool \<times> output_driver_caps \<times> 'h"
  hw_shutdown :: "('h \<Rightarrow> 'h) option"
  hw_open :: "sound_params \<Rightarrow> 'h \<Rightarrow> bool \<times> 'h"
  hw_close :: "'h \<Rightarrow> 'h"
  hw_play :: "sound \<Rightarrow> 'h \<Rightarrow> int \<times> 'h"
  hw_read_mixer :: "'h \<Rightarrow> int"
  hw_set_mixer :: "int \<Rightarrow> 'h \<Rightarrow> 'h"
  hw_get_buff_fill :: "'h \<Rightarrow> int"
  hw_reset :: "('h \<Rightarrow> 'h) option"
  hw_get_rate :: "'h \<Rightarrow> int"
  hw_toggle_mixer_channel :: "'h \<Rightarrow> 'h"
  hw_get_mixer_channel_name :: "'h \<Rightarrow> string option"

record ('h, 's) audio_dev =
  hw :: "'h hw_funcs"
  hw_state :: 'h
  hw_caps :: output_driver_caps
  audio_opened :: bool
  driver_sound_params :: sound_params
  req_sound_params :: sound_params
  last_params :: sound_params
  sound_conv :: "'s audio_conversion option"
  need_audio_conversion :: bool
  current_mixer :: int

text \<open>
  What the conversion takes from outside: the name of the resampling method, the way to make a state of the
  resampling library, and the library itself.
\<close>

record 's conv_env =
  ce_method :: string
  ce_new :: "src_type \<Rightarrow> int \<Rightarrow> 's option"
  ce_src :: "'s src"

definition no_params :: sound_params where
  "no_params = \<lparr>sp_channels = 0, sp_rate = 0, sp_fmt = 0\<rparr>"

definition reset_sound_params :: "sound_params \<Rightarrow> sound_params" where
  "reset_sound_params p = p\<lparr>sp_rate := 0, sp_channels := 0, sp_fmt := 0\<rparr>"

definition sample_rate_compat :: "int \<Rightarrow> int \<Rightarrow> bool" where
  "sample_rate_compat sound device \<longleftrightarrow>
     f64 (of_int device * f64 (105 / 100)) \<ge> of_int sound \<and> f64 (of_int device * f64 (95 / 100)) \<le> of_int sound"

section \<open>The device\<close>

text \<open>A product that does not fit into an \<^verbatim>\<open>int\<close> is undefined.\<close>

definition mul_int :: "int \<Rightarrow> int \<Rightarrow> int result" where
  "mul_int a b = (if - (2 ^ 31) \<le> a * b \<and> a * b < 2 ^ 31 then Inr (a * b) else Inl Undefined)"

definition get_bpf :: "('h, 's) audio_dev \<Rightarrow> int result" where
  "get_bpf d =
     bindR (if sp_fmt (driver_sound_params d) \<noteq> 0 then sfmt_Bps (sp_fmt (driver_sound_params d)) else Inr 0) (\<lambda>n.
       mul_int (sp_channels (driver_sound_params d)) (int n))"

definition get_bps :: "('h, 's) audio_dev \<Rightarrow> int result" where
  "get_bps d = bindR (get_bpf d) (mul_int (sp_rate (driver_sound_params d)))"

definition get_buf_fill :: "('h, 's) audio_dev \<Rightarrow> int" where
  "get_buf_fill d = hw_get_buff_fill (hw d) (hw_state d)"

definition audio_close :: "('h, 's) audio_dev \<Rightarrow> ('h, 's) audio_dev" where
  "audio_close d =
     (if audio_opened d then
        let d = d\<lparr>req_sound_params := reset_sound_params (req_sound_params d),
                  driver_sound_params := reset_sound_params (driver_sound_params d), hw_state := hw_close (hw d) (hw_state d)\<rparr>;
            d = (if need_audio_conversion d then d\<lparr>sound_conv := None, need_audio_conversion := False\<rparr> else d)
        in d\<lparr>audio_opened := False\<rparr>
      else d)"

text \<open>The end of \<^verbatim>\<open>audio_open\<close>, after the device was opened.\<close>

definition open_conversion :: "'s conv_env \<Rightarrow> ('h, 's) audio_dev \<Rightarrow> (bool \<times> ('h, 's) audio_dev) result" where
  "open_conversion C d =
     (let d = d\<lparr>driver_sound_params := (driver_sound_params d)\<lparr>sp_rate := hw_get_rate (hw d) (hw_state d)\<rparr>\<rparr>;
          dr = driver_sound_params d; rq = req_sound_params d
      in if sp_fmt dr \<noteq> sp_fmt rq \<or> sp_channels dr \<noteq> sp_channels rq \<or> \<not> sample_rate_compat (sp_rate rq) (sp_rate dr) then
           bindR (audio_conv_new (ce_method C) (ce_new C) rq dr) (\<lambda>conv.
             case conv of
               None \<Rightarrow> Inr (False, d\<lparr>hw_state := hw_close (hw d) (hw_state d), req_sound_params := reset_sound_params rq\<rparr>)
             | Some c \<Rightarrow> Inr (True, d\<lparr>sound_conv := Some c, need_audio_conversion := True, audio_opened := True\<rparr>))
         else Inr (True, d\<lparr>audio_opened := True\<rparr>))"

text \<open>Opening a device that is closed, with the nearest parameters the driver supports.\<close>

definition open_device :: "'s conv_env \<Rightarrow> options \<Rightarrow> sound_params \<Rightarrow> ('h, 's) audio_dev \<Rightarrow> (bool \<times> ('h, 's) audio_dev) result" where
  "open_device C opts params d =
     bindR (options_get_int ''ForceSampleRate'' opts) (\<lambda>force.
     bindR (sfmt_best_matching (formats (hw_caps d)) (sp_fmt params)) (\<lambda>fmt.
       let d = d\<lparr>req_sound_params := params,
                 driver_sound_params := \<lparr>sp_channels = clamp (min_channels (hw_caps d)) (sp_channels params) (max_channels (hw_caps d)),
                   sp_rate = (if force \<noteq> 0 then force else sp_rate params), sp_fmt = fmt\<rparr>\<rparr>;
           (ok, h) = hw_open (hw d) (driver_sound_params d) (hw_state d); d = d\<lparr>hw_state := h\<rparr>
       in if ok then open_conversion C d else Inr (False, d)))"

definition audio_open :: "'s conv_env \<Rightarrow> options \<Rightarrow> sound_params option \<Rightarrow> ('h, 's) audio_dev \<Rightarrow> (bool \<times> ('h, 's) audio_dev) result" where
  "audio_open C opts params d =
     (let d = (case params of None \<Rightarrow> d | Some p \<Rightarrow> d\<lparr>last_params := p\<rparr>); params = last_params d in
      bindR (guardR (sound_format_ok (sp_fmt params)) Assert) (\<lambda>_.
      bindR (if audio_opened d \<and> req_sound_params d = params then bindR (get_bps d) (\<lambda>n. Inr (n \<ge> 88200)) else Inr False) (\<lambda>same.
        if same then Inr (True, d)
        else open_device C opts params (if audio_opened d then audio_close d else d))))"

text \<open>The sound that is put into the output buffer, if there is any.\<close>

definition audio_send_buf :: "'s conv_env \<Rightarrow> sound \<Rightarrow> ('h, 's) audio_dev \<Rightarrow> (sound option \<times> ('h, 's) audio_dev) result" where
  "audio_send_buf C data d =
     (if need_audio_conversion d then
        case sound_conv d of
          None \<Rightarrow> Inl Undefined
        | Some c \<Rightarrow> bindR (audio_conv (ce_src C) c data) (\<lambda>(out, n, c). Inr (out, d\<lparr>sound_conv := Some c\<rparr>))
      else Inr (Some data, d))"

text \<open>Sound on its way to the device: equalizer first, software mixer behind it. \<open>None\<close> is a loop of the equalizer without end.\<close>

definition audio_send_pcm ::
  "libm \<Rightarrow> preset_dir option \<Rightarrow> sound \<Rightarrow> softmixer \<Rightarrow> equalizer \<Rightarrow> ('h, 's) audio_dev
    \<Rightarrow> (int \<times> equalizer \<times> ('h, 's) audio_dev) option result" where
  "audio_send_pcm L dir data m e d =
     bindR (if equalizer_is_active e then equalizer_process_buffer L dir (driver_sound_params d) data e else Inr (Some (data, e))) (\<lambda>r.
       case r of
         None \<Rightarrow> Inr None
       | Some (data, e) \<Rightarrow>
           bindR (if softmixer_is_active m then softmixer_process_buffer m (driver_sound_params d) data else Inr data) (\<lambda>data.
             let (played, h) = hw_play (hw d) data (hw_state d)
             in if played < 0 then fatal else Inr (Some (played, e, d\<lparr>hw_state := h\<rparr>))))"

definition audio_reset :: "('h, 's) audio_dev \<Rightarrow> ('h, 's) audio_dev" where
  "audio_reset d = (case hw_reset (hw d) of None \<Rightarrow> d | Some f \<Rightarrow> d\<lparr>hw_state := f (hw_state d)\<rparr>)"

definition audio_get_time :: "audio \<Rightarrow> 'a out_buf \<Rightarrow> ('h, 's) audio_dev \<Rightarrow> int result" where
  "audio_get_time a b d = (if play_state a \<noteq> STATE_STOP then bindR (get_bps d) (\<lambda>bps. Inr (out_buf_time_get bps b)) else Inr 0)"

section \<open>The mixers\<close>

definition audio_get_mixer :: "softmixer \<Rightarrow> ('h, 's) audio_dev \<Rightarrow> int" where
  "audio_get_mixer m d = (if current_mixer d = 2 then softmixer_get_value m else hw_read_mixer (hw d) (hw_state d))"

definition audio_set_mixer :: "int \<Rightarrow> softmixer \<Rightarrow> ('h, 's) audio_dev \<Rightarrow> softmixer \<times> ('h, 's) audio_dev" where
  "audio_set_mixer val m d =
     (if \<not> (0 \<le> val \<and> val \<le> 100) then (m, d)
      else if current_mixer d = 2 then (softmixer_set_value val m, d)
      else (m, d\<lparr>hw_state := hw_set_mixer (hw d) val (hw_state d)\<rparr>))"

definition audio_get_mixer_channel_name :: "softmixer \<Rightarrow> ('h, 's) audio_dev \<Rightarrow> string option" where
  "audio_get_mixer_channel_name m d =
     (if current_mixer d = 2 then Some (softmixer_name m) else hw_get_mixer_channel_name (hw d) (hw_state d))"

definition audio_toggle_mixer_channel :: "('h, 's) audio_dev \<Rightarrow> ('h, 's) audio_dev" where
  "audio_toggle_mixer_channel d =
     (let d = d\<lparr>current_mixer := (current_mixer d + 1) smod 3\<rparr> in
      if current_mixer d < 2 then d\<lparr>hw_state := hw_toggle_mixer_channel (hw d) (hw_state d)\<rparr> else d)"

section \<open>Start and end\<close>

text \<open>
  The drivers that were compiled in, by their names; a driver that does not work may have changed
  the capabilities and its state.
\<close>

fun find_working_driver ::
  "(string \<times> 'h hw_funcs) list \<Rightarrow> string list \<Rightarrow> output_driver_caps \<Rightarrow> 'h \<Rightarrow> ('h hw_funcs \<times> output_driver_caps \<times> 'h) result" where
  "find_working_driver compiled [] caps h = fatal"
| "find_working_driver compiled (name # names) caps h =
     (case find (\<lambda>(n, _). strcaseeq name n) compiled of
        None \<Rightarrow> find_working_driver compiled names caps h
      | Some (_, funcs) \<Rightarrow>
          let (ok, caps, h) = hw_init funcs caps h in
          if ok then Inr (funcs, caps, h) else find_working_driver compiled names caps h)"

text \<open>The static variables at the start, with the driver that was found.\<close>

definition new_device :: "'h hw_funcs \<Rightarrow> output_driver_caps \<Rightarrow> 'h \<Rightarrow> ('h, 's) audio_dev" where
  "new_device funcs caps h =
     \<lparr>hw = funcs, hw_state = h, hw_caps = caps, audio_opened = False, driver_sound_params = no_params,
      req_sound_params = no_params, last_params = no_params, sound_conv = None, need_audio_conversion = False, current_mixer = 0\<rparr>"

definition audio_init_device ::
  "(string \<times> 'h hw_funcs) list \<Rightarrow> options \<Rightarrow> 'h \<Rightarrow> (('h, 's) audio_dev \<times> int) result" where
  "audio_init_device compiled opts h =
     bindR (options_get_list ''SoundDriver'' opts) (\<lambda>l. bindR (the_list l) (\<lambda>l. bindR (all_strings l) (\<lambda>names.
     bindR (find_working_driver compiled names \<lparr>min_channels = 0, max_channels = 0, formats = 0\<rparr> h) (\<lambda>(funcs, caps, h).
     bindR (guardR (max_channels caps \<ge> min_channels caps) Assert) (\<lambda>_.
     bindR (guardR (sound_format_ok (formats caps)) Assert) (\<lambda>_.
     bindR (options_get_int ''Allow24bitOutput'' opts) (\<lambda>allow.
     bindR (options_get_int ''OutputBuffer'' opts) (\<lambda>kb.
       let caps = (if allow = 0 \<and> formats caps AND (SFMT_S32 OR SFMT_U32) \<noteq> 0
                   then caps\<lparr>formats := formats caps AND NOT (SFMT_S32 OR SFMT_U32)\<rparr> else caps)
       in Inr (new_device funcs caps h, kb * 1024)))))))))"

definition audio_shutdown_device :: "('h, 's) audio_dev \<Rightarrow> ('h, 's) audio_dev" where
  "audio_shutdown_device d = (case hw_shutdown (hw d) of None \<Rightarrow> d | Some f \<Rightarrow> d\<lparr>hw_state := f (hw_state d)\<rparr>)"

section \<open>The driver for tests\<close>

text \<open>It throws the sound away; the pause that \<^verbatim>\<open>null_play\<close> makes meanwhile is not modelled.\<close>

type_synonym null_dev = sound_params

definition null_init :: "output_driver_caps \<Rightarrow> null_dev \<Rightarrow> bool \<times> output_driver_caps \<times> null_dev" where
  "null_init caps p = (True, caps\<lparr>formats := SFMT_S8 OR SFMT_S16 OR SFMT_LE, min_channels := 1, max_channels := 2\<rparr>, p)"

definition null_open :: "sound_params \<Rightarrow> null_dev \<Rightarrow> bool \<times> null_dev" where
  "null_open params p = (True, params)"

definition null_close :: "null_dev \<Rightarrow> null_dev" where
  "null_close p = p\<lparr>sp_rate := 0\<rparr>"

definition null_play :: "sound \<Rightarrow> null_dev \<Rightarrow> int \<times> null_dev" where
  "null_play data p = (int (bytes_of data), p)"

definition null_funcs :: "null_dev hw_funcs" where
  "null_funcs = \<lparr>hw_init = null_init, hw_shutdown = None, hw_open = null_open, hw_close = null_close, hw_play = null_play,
     hw_read_mixer = (\<lambda>_. 100), hw_set_mixer = (\<lambda>_ p. p), hw_get_buff_fill = (\<lambda>_. 0), hw_reset = Some (\<lambda>p. p),
     hw_get_rate = sp_rate, hw_toggle_mixer_channel = (\<lambda>p. p), hw_get_mixer_channel_name = (\<lambda>_. Some ''FakeMixer'')\<rparr>"

end
