(* ===== verification/Audio_Dev_Spec.thy ===== *)
theory Audio_Dev_Spec
  imports Audio_Dev Options_Spec
begin

text \<open>
  Properties of the sound device: whatever was opened, closed and sent, an open device gets
  sound in the parameters it was opened with, and its frame size and byte rate meet what the
  output buffer needs. The contract of a driver is a locale.
\<close>

unbundle bit_operations_syntax

section \<open>Sample rates\<close>

lemma rate_factors: "f64 (105 / 100) \<ge> 104 / 100" "f64 (95 / 100) \<le> 96 / 100" "0 < f64 (95 / 100)"
  by code_simp+

lemma f64_near: "0 < x \<Longrightarrow> \<bar>f64 x - x\<bar> \<le> x / 1000"
proof -
  assume x: "0 < x"
  have "x * 2 powi (- 53) \<le> x * (1 / 1000)" using x by (intro mult_left_mono) (auto simp: power_int_def power_one_over)
  then show ?thesis using fl_near [OF x, of 53] by (simp add: f64_def)
qed

lemma sample_rate_compat_refl:
  assumes "0 < r"
  shows "sample_rate_compat r r"
proof -
  have r: "(0::rat) < of_int r" using assms by simp
  have a: "of_int r * (104 / 100) \<le> of_int r * f64 (105 / 100)" "of_int r * f64 (95 / 100) \<le> of_int r * (96 / 100)"
    using r rate_factors by (auto intro: mult_left_mono)
  have p: "0 < of_int r * f64 (105 / 100)" "0 < of_int r * f64 (95 / 100)"
    using r rate_factors by (auto intro!: mult_pos_pos)
  show ?thesis using f64_near [OF p(1)] f64_near [OF p(2)] a r unfolding sample_rate_compat_def by linarith
qed

section \<open>The contract of a driver\<close>

definition rate_ok :: "int \<Rightarrow> bool" where
  "rate_ok r \<longleftrightarrow> 0 < r \<and> r < 2 ^ 26"

definition params_ok :: "sound_params \<Rightarrow> bool" where
  "params_ok p \<longleftrightarrow> rate_ok (sp_rate p) \<and> 1 \<le> sp_channels p \<and> sp_channels p \<le> 8
     \<and> (\<exists>k\<in>kinds. \<exists>e\<in>endians. sp_fmt p = k OR e) \<and> sound_format_ok (sp_fmt p)"

definition caps_ok :: "output_driver_caps \<Rightarrow> bool" where
  "caps_ok c \<longleftrightarrow> 1 \<le> min_channels c \<and> min_channels c \<le> max_channels c \<and> max_channels c \<le> 8 \<and> (\<exists>k\<in>kinds. formats c AND k \<noteq> 0)"

locale driver =
  fixes F :: "'h hw_funcs"
  assumes rate_after_open: "hw_open F p h = (True, h') \<Longrightarrow> rate_ok (sp_rate p) \<Longrightarrow> rate_ok (hw_get_rate F h')"

interpretation null: driver null_funcs
  by unfold_locales (simp add: null_funcs_def null_open_def)

section \<open>The format for the driver\<close>

lemma first_of_mem: "first_of fs ks = 0 \<or> first_of fs ks \<in> set ks"
  by (induction ks) auto

lemma first_of_found: "\<exists>k\<in>set ks. fs AND k \<noteq> 0 \<and> k \<noteq> 0 \<Longrightarrow> 0 \<notin> set ks \<Longrightarrow> first_of fs ks \<noteq> 0"
  by (induction ks) auto

lemma and_kind:
  assumes "k \<in> kinds"
  shows "(f AND SFMT_MASK_FORMAT) AND k = f AND k"
  by (cases rule: kindsE [OF assms]) (simp_all add: sfmt_defs and.assoc)

lemma one_bit: "(2::int) ^ n AND f = (if bit f n then 2 ^ n else 0)"
  by (rule bit_eqI) (auto simp: bit_simps)

lemma endian_part: "f AND SFMT_MASK_ENDIANNESS \<in> endians"
proof -
  have s: "f AND 2 ^ n = (if bit f n then 2 ^ n else 0)" for n
    using one_bit [of n f] by (simp add: and.commute)
  have "f AND SFMT_MASK_ENDIANNESS = (f AND 2 ^ 12) OR (f AND 2 ^ 13)"
    by (simp add: sfmt_defs flip: bit.conj_disj_distrib)
  then show ?thesis unfolding s by (auto simp: endians_def sfmt_defs)
qed

lemma first_of_sub: "first_of fs ks = 0 \<or> fs AND first_of fs ks \<noteq> 0"
  by (induction ks) auto

lemma kind_bit:
  assumes "k \<in> kinds" and "f AND k \<noteq> 0"
  shows "k AND f = k"
proof -
  obtain n where n: "k = 2 ^ n" using assms(1)
    by (cases rule: kindsE) (auto simp: sfmt_defs intro: that [of 0] that [of 1] that [of 2] that [of 3] that [of 4] that [of 5] that [of 6])
  then show ?thesis using assms(2) one_bit [of n f] by (auto simp: and.commute split: if_splits)
qed

lemma endian_sub:
  assumes "f AND SFMT_LE \<noteq> 0"
  shows "SFMT_NE AND f = SFMT_NE"
  using one_bit [of 12 f] assms by (auto simp: sfmt_defs and.commute split: if_splits)

text \<open>The format is one the driver supports, and of the requested kind when the driver has that.\<close>

lemma best_matching_ok:
  assumes "\<exists>k\<in>kinds. fs AND k \<noteq> 0" and "k \<in> kinds" and "e \<in> endians"
  shows "\<exists>k'\<in>kinds. \<exists>e'\<in>endians. sfmt_best_matching fs (k OR e) = Inr (k' OR e') \<and> (k' OR e') AND fs = k' OR e'
    \<and> (fs AND k \<noteq> 0 \<longrightarrow> k' = k)"
proof -
  let ?all = "{SFMT_S8, SFMT_U8, SFMT_S16, SFMT_U16, SFMT_S32, SFMT_U32, SFMT_FLOAT}"
  define ok where "ok b \<longleftrightarrow> b \<in> kinds \<and> fs AND b \<noteq> 0" for b
  have f: "ok (first_of (fs AND SFMT_MASK_FORMAT) ks)" if "set ks = ?all" for ks
  proof -
    have "0 \<notin> set ks" using that by (simp add: sfmt_defs)
    moreover have "\<exists>k\<in>set ks. (fs AND SFMT_MASK_FORMAT) AND k \<noteq> 0" using assms(1) that and_kind by (auto simp: kinds_def)
    ultimately have "first_of (fs AND SFMT_MASK_FORMAT) ks \<noteq> 0" by (intro first_of_found) auto
    then show ?thesis
      using first_of_mem [of "fs AND SFMT_MASK_FORMAT" ks] first_of_sub [of "fs AND SFMT_MASK_FORMAT" ks] that
        and_kind [of "first_of (fs AND SFMT_MASK_FORMAT) ks" fs] by (auto simp: ok_def kinds_def)
  qed
  define best where "best = (if (fs AND SFMT_MASK_FORMAT) AND k \<noteq> 0 then k
             else if k = SFMT_S8 \<or> k = SFMT_U8 then
               first_of (fs AND SFMT_MASK_FORMAT) [SFMT_S8, SFMT_U8, SFMT_S16, SFMT_U16, SFMT_S32, SFMT_U32, SFMT_FLOAT]
             else if k = SFMT_S16 \<or> k = SFMT_U16 then
               first_of (fs AND SFMT_MASK_FORMAT) [SFMT_S16, SFMT_U16, SFMT_S32, SFMT_U32, SFMT_FLOAT, SFMT_S8, SFMT_U8]
             else if k = SFMT_S32 \<or> k = SFMT_U32 \<or> k = SFMT_FLOAT then
               first_of (fs AND SFMT_MASK_FORMAT) [SFMT_S32, SFMT_U32, SFMT_S16, SFMT_U16, SFMT_FLOAT, SFMT_S8, SFMT_U8]
             else 0)"
  have "k \<in> ?all" using assms(2) by (simp add: kinds_def)
  moreover have "fs AND k \<noteq> 0 \<Longrightarrow> ok k" using assms(2) by (simp add: ok_def)
  ultimately have "ok best" unfolding best_def and_kind [OF assms(2)] by (auto simp del: first_of.simps intro!: f)
  moreover have "fs AND k \<noteq> 0 \<longrightarrow> best = k" using and_kind [OF assms(2), of fs] by (simp add: best_def)
  ultimately have b: "best \<in> kinds" "fs AND best \<noteq> 0" "fs AND k \<noteq> 0 \<longrightarrow> best = k" by (simp_all add: ok_def)
  then have "best \<noteq> 0" by (auto simp: kinds_def sfmt_defs)
  then have r: "sfmt_best_matching fs (k OR e) = Inr (if best AND (SFMT_S8 OR SFMT_U8) = 0 then
                  if fs AND SFMT_LE \<noteq> 0 \<and> fs AND SFMT_BE \<noteq> 0 then best OR SFMT_NE
                  else best OR (fs AND SFMT_MASK_ENDIANNESS)
                else best)"
    unfolding sfmt_best_matching_def Let_def fmt_kind(1) [OF assms(2,3)] best_def [symmetric] by simp
  have "best = best OR 0" by simp
  have e: "SFMT_NE \<in> endians" "0 \<in> endians" by (auto simp: endians_def SFMT_NE_def)
  have "(fs AND SFMT_MASK_ENDIANNESS) AND fs = fs AND SFMT_MASK_ENDIANNESS" by (simp add: and.commute and.left_commute)
  then have "\<exists>e'\<in>endians. (if best AND (SFMT_S8 OR SFMT_U8) = 0 then
                  if fs AND SFMT_LE \<noteq> 0 \<and> fs AND SFMT_BE \<noteq> 0 then best OR SFMT_NE
                  else best OR (fs AND SFMT_MASK_ENDIANNESS)
                else best) = best OR e' \<and> e' AND fs = e'"
    using endian_part [of fs] e endian_sub [of fs] \<open>best = best OR 0\<close> by (auto intro: bexI [of _ 0])
  then obtain e' where e': "e' \<in> endians" "e' AND fs = e'" "sfmt_best_matching fs (k OR e) = Inr (best OR e')"
    unfolding r by auto
  have "(best OR e') AND fs = best OR e'"
    using kind_bit [of best fs] b e'(2) by (simp add: bit.conj_disj_distrib2)
  with b e' show ?thesis by blast
qed

section \<open>What holds of the device\<close>

text \<open>
  An open device has the parameters nearest to the requested ones that the driver supports: the
  number of channels within its limits, a format of its formats, of the requested kind when it
  has that one. The sound is converted exactly when the parameters differ (a small difference of the
  rates aside), by a converter from the one to the other. A closed device has no converter.
\<close>

definition dev_fmt_ok :: "sound_params \<Rightarrow> bool" where
  "dev_fmt_ok p \<longleftrightarrow> rate_ok (sp_rate p) \<and> 1 \<le> sp_channels p \<and> sp_channels p \<le> 8 \<and> (\<exists>k\<in>kinds. \<exists>e\<in>endians. sp_fmt p = k OR e)"

definition nearest_params :: "output_driver_caps \<Rightarrow> sound_params \<Rightarrow> sound_params \<Rightarrow> bool" where
  "nearest_params caps rq dr \<longleftrightarrow>
     min_channels caps \<le> sp_channels dr \<and> sp_channels dr \<le> max_channels caps \<and>
     (min_channels caps \<le> sp_channels rq \<and> sp_channels rq \<le> max_channels caps \<longrightarrow> sp_channels dr = sp_channels rq) \<and>
     sp_fmt dr AND formats caps = sp_fmt dr \<and>
     (formats caps AND (sp_fmt rq AND SFMT_MASK_FORMAT) \<noteq> 0 \<longrightarrow> sp_fmt dr AND SFMT_MASK_FORMAT = sp_fmt rq AND SFMT_MASK_FORMAT)"

definition params_differ :: "sound_params \<Rightarrow> sound_params \<Rightarrow> bool" where
  "params_differ rq dr \<longleftrightarrow>
     sp_fmt dr \<noteq> sp_fmt rq \<or> sp_channels dr \<noteq> sp_channels rq \<or> \<not> sample_rate_compat (sp_rate rq) (sp_rate dr)"

definition dev_inv :: "('h, 's) audio_dev \<Rightarrow> bool" where
  "dev_inv d \<longleftrightarrow>
     (if audio_opened d then
        dev_fmt_ok (driver_sound_params d) \<and> nearest_params (hw_caps d) (req_sound_params d) (driver_sound_params d) \<and>
        (need_audio_conversion d \<longleftrightarrow> params_differ (req_sound_params d) (driver_sound_params d)) \<and>
        (need_audio_conversion d \<longrightarrow>
          (\<exists>c. sound_conv d = Some c \<and> c_from c = req_sound_params d \<and> c_to c = driver_sound_params d))
      else \<not> need_audio_conversion d)"

text \<open>Closing an open device forgets both sets of parameters.\<close>

lemma audio_close_params:
  "audio_opened d \<Longrightarrow> req_sound_params (audio_close d) = no_params \<and> driver_sound_params (audio_close d) = no_params"
  by (simp add: audio_close_def reset_sound_params_def no_params_def Let_def)

lemma audio_close_inv: "dev_inv d \<Longrightarrow> dev_inv (audio_close d) \<and> \<not> audio_opened (audio_close d) \<and> hw (audio_close d) = hw d
    \<and> hw_caps (audio_close d) = hw_caps d \<and> last_params (audio_close d) = last_params d"
  by (auto simp: dev_inv_def audio_close_def Let_def)

lemma fmt_nonzero: "k \<in> kinds \<Longrightarrow> k OR e \<noteq> 0"
  by (auto simp: kinds_def sfmt_defs or_eq_0_iff)

lemma get_bps_ok:
  assumes "dev_fmt_ok (driver_sound_params d)"
  shows "\<exists>b. get_bpf d = Inr b \<and> 0 < b \<and> b \<le> 32 \<and> get_bps d = Inr (sp_rate (driver_sound_params d) * b)"
proof -
  let ?p = "driver_sound_params d"
  obtain k e where k: "k \<in> kinds" "e \<in> endians" "sp_fmt ?p = k OR e" using assms by (auto simp: dev_fmt_ok_def)
  then obtain n where n: "sfmt_Bps (sp_fmt ?p) = Inr n" "n \<in> {1, 2, 4}" using Bps_fmt [OF k(1,2)] by auto
  have c: "1 \<le> sp_channels ?p" "sp_channels ?p \<le> 8" "0 < sp_rate ?p" "sp_rate ?p < 2 ^ 26"
    using assms by (auto simp: dev_fmt_ok_def rate_ok_def)
  define b where "b = sp_channels ?p * int n"
  have b: "0 < b" "b \<le> 32" using c n(2) by (auto simp: b_def)
  then have bpf: "get_bpf d = Inr b" using n(1) k fmt_nonzero [OF k(1)] by (simp add: get_bpf_def mul_int_def flip: b_def)
  have "sp_rate ?p * b \<le> 2 ^ 26 * 32" "0 \<le> sp_rate ?p * b" "sp_rate ?p * b \<noteq> 2 ^ 31"
    using b c mult_mono [of "sp_rate ?p" "2 ^ 26 - 1" b 32] by (auto simp: mult_nonneg_nonneg)
  then have "get_bps d = Inr (sp_rate ?p * b)" by (simp add: get_bps_def bpf mul_int_def)
  then show ?thesis using bpf b by blast
qed

text \<open>The converter keeps what it converts from and to.\<close>

lemma bindR_lastE: "bindR m k = Inr y \<Longrightarrow> (\<And>x. k x = Inr y \<Longrightarrow> P) \<Longrightarrow> P"
  by (auto simp: bindR_eq_Inr)

lemma resample_sound_ends:
  assumes "resample_sound src c x nch = Inr (r, c')"
  shows "c_from c' = c_from c \<and> c_to c' = c_to c"
proof (cases "src_state c")
  case (Some st)
  show ?thesis using assms unfolding resample_sound_def Let_def Some option.case
    by (elim bindR_lastE) (auto split: prod.splits option.splits if_splits)
qed (use assms in \<open>simp add: resample_sound_def\<close>)

lemma conv_resample_ends: "conv_resample src c s = Inr (s', c') \<Longrightarrow> c_from c' = c_from c \<and> c_to c' = c_to c"
  unfolding conv_resample_def
  by (auto simp: bindR_eq_Inr dest!: resample_sound_ends split: option.splits sound.splits if_splits)

lemma audio_conv_ends: "audio_conv src c x = Inr (y, n, c') \<Longrightarrow> c_from c' = c_from c \<and> c_to c' = c_to c"
  by (auto simp: audio_conv_def bindR_eq_Inr dest!: conv_resample_ends)

lemma audio_send_buf_inv:
  assumes "dev_inv d" and "audio_send_buf C x d = Inr (y, d')"
  shows "dev_inv d' \<and> audio_opened d' = audio_opened d \<and> hw d' = hw d \<and> hw_caps d' = hw_caps d \<and> last_params d' = last_params d"
  using assms by (auto simp: audio_send_buf_def dev_inv_def bindR_eq_Inr dest!: audio_conv_ends split: if_splits option.splits)

lemma clamp_channels: "caps_ok c \<Longrightarrow> min_channels c \<le> clamp (min_channels c) n (max_channels c)
    \<and> clamp (min_channels c) n (max_channels c) \<le> max_channels c
    \<and> (min_channels c \<le> n \<and> n \<le> max_channels c \<longrightarrow> clamp (min_channels c) n (max_channels c) = n)
    \<and> 1 \<le> clamp (min_channels c) n (max_channels c) \<and> clamp (min_channels c) n (max_channels c) \<le> 8"
  by (auto simp: caps_ok_def clamp_def)

lemma audio_conv_new_ends: "audio_conv_new m new a b = Inr (Some c) \<Longrightarrow> c_from c = a \<and> c_to c = b"
  by (auto simp: audio_conv_new_def Let_def bindR_eq_Inr split: if_splits option.splits)

lemma audio_conv_new_ok:
  assumes "resample_type m = Inr t" and "sp_rate a \<noteq> sp_rate b \<or> sp_fmt a \<noteq> sp_fmt b \<or> sp_channels a \<noteq> sp_channels b"
  obtains r where "audio_conv_new m new a b = Inr r"
  using assms by (cases "audio_conv_new m new a b") (auto simp: audio_conv_new_def Let_def split: if_splits option.splits)

lemma open_conversion_ok:
  assumes "rate_ok (hw_get_rate (hw d) (hw_state d))" and "resample_type (ce_method C) = Inr t" and "\<not> need_audio_conversion d"
    and "\<not> audio_opened d" and "dev_fmt_ok (driver_sound_params d)"
    and "nearest_params (hw_caps d) (req_sound_params d) (driver_sound_params d)"
  shows "\<exists>ok d'. open_conversion C d = Inr (ok, d') \<and> dev_inv d' \<and> audio_opened d' = ok \<and> hw d' = hw d \<and> hw_caps d' = hw_caps d
    \<and> last_params d' = last_params d \<and> (ok \<longrightarrow> req_sound_params d' = req_sound_params d)"
proof -
  let ?dr = "(driver_sound_params d)\<lparr>sp_rate := hw_get_rate (hw d) (hw_state d)\<rparr>" and ?rq = "req_sound_params d"
  have dr: "dev_fmt_ok ?dr" "nearest_params (hw_caps d) ?rq ?dr"
    using assms(1,5,6) by (simp_all add: dev_fmt_ok_def nearest_params_def)
  show ?thesis
  proof (cases "params_differ ?rq ?dr")
    case True
    note diff = True [unfolded params_differ_def]
    then have "sp_rate ?rq \<noteq> sp_rate ?dr \<or> sp_fmt ?rq \<noteq> sp_fmt ?dr \<or> sp_channels ?rq \<noteq> sp_channels ?dr"
      using sample_rate_compat_refl [of "sp_rate ?dr"] assms(1) by (auto simp: rate_ok_def)
    from audio_conv_new_ok [OF assms(2) this] obtain r where r: "audio_conv_new (ce_method C) (ce_new C) ?rq ?dr = Inr r" .
    show ?thesis using True diff r dr assms(3,4) audio_conv_new_ends [of "ce_method C" "ce_new C" ?rq ?dr]
      by (cases r) (auto simp: open_conversion_def Let_def dev_inv_def)
  next
    case False
    then have "\<not> (sp_fmt ?dr \<noteq> sp_fmt ?rq \<or> sp_channels ?dr \<noteq> sp_channels ?rq \<or> \<not> sample_rate_compat (sp_rate ?rq) (sp_rate ?dr))"
      by (simp only: params_differ_def not_False_eq_True)
    with False show ?thesis using dr assms(3,4) by (auto simp: open_conversion_def Let_def dev_inv_def)
  qed
qed


text \<open>What may be asked of the device, and that the options of the rate have been set up.\<close>

definition force_ok :: "options \<Rightarrow> bool" where
  "force_ok opts \<longleftrightarrow> (\<exists>n. options_get_int ''ForceSampleRate'' opts = Inr n \<and> (n = 0 \<or> rate_ok n))"

definition method_ok :: "'s conv_env \<Rightarrow> bool" where
  "method_ok C \<longleftrightarrow> (\<exists>t. resample_type (ce_method C) = Inr t)"

context driver
begin

lemma open_device_ok:
  assumes d: "dev_inv d" "hw d = F" "caps_ok (hw_caps d)" "\<not> audio_opened d" and o: "force_ok opts" "method_ok C" and p: "params_ok p"
  shows "\<exists>ok d'. open_device C opts p d = Inr (ok, d') \<and> dev_inv d' \<and> hw d' = F \<and> hw_caps d' = hw_caps d
    \<and> last_params d' = last_params d \<and> (ok \<longrightarrow> audio_opened d' \<and> req_sound_params d' = p)"
proof -
  obtain n where n: "options_get_int ''ForceSampleRate'' opts = Inr n" "n = 0 \<or> rate_ok n" using o(1) by (auto simp: force_ok_def)
  obtain t where t: "resample_type (ce_method C) = Inr t" using o(2) by (auto simp: method_ok_def)
  obtain k r where k: "k \<in> kinds" "r \<in> endians" "sp_fmt p = k OR r" using p by (auto simp: params_ok_def)
  then obtain k' r' where k': "k' \<in> kinds" "r' \<in> endians" "sfmt_best_matching (formats (hw_caps d)) (sp_fmt p) = Inr (k' OR r')"
    "(k' OR r') AND formats (hw_caps d) = k' OR r'" "formats (hw_caps d) AND k \<noteq> 0 \<longrightarrow> k' = k"
    using best_matching_ok [of "formats (hw_caps d)" k r] d(3) by (auto simp: caps_ok_def)
  define fmt where "fmt = k' OR r'"
  have fmt: "sfmt_best_matching (formats (hw_caps d)) (sp_fmt p) = Inr fmt" "\<exists>k\<in>kinds. \<exists>r\<in>endians. fmt = k OR r"
    using k' by (auto simp: fmt_def)
  define q where "q = \<lparr>sp_channels = clamp (min_channels (hw_caps d)) (sp_channels p) (max_channels (hw_caps d)),
    sp_rate = (if n \<noteq> 0 then n else sp_rate p), sp_fmt = fmt\<rparr>"
  have q: "dev_fmt_ok q" using fmt(2) n(2) p clamp_channels [OF d(3), of "sp_channels p"]
    by (auto simp: q_def dev_fmt_ok_def params_ok_def)
  have near: "nearest_params (hw_caps d) p q"
    using k k' clamp_channels [OF d(3), of "sp_channels p"] fmt_kind(1) [OF k(1,2)] fmt_kind(1) [OF k'(1,2)]
    by (auto simp: nearest_params_def q_def fmt_def)
  obtain ok h where h: "hw_open F q (hw_state d) = (ok, h)" by fastforce
  define f where "f = d\<lparr>req_sound_params := p, driver_sound_params := q, hw_state := h\<rparr>"
  have run: "open_device C opts p d = (if ok then open_conversion C f else Inr (False, f))"
    unfolding open_device_def n(1) fmt(1) bindR_Inr Let_def q_def [symmetric] using d(2) h by (simp add: f_def)
  have f: "\<not> need_audio_conversion f" "\<not> audio_opened f" "hw f = F" "hw_caps f = hw_caps d" "last_params f = last_params d"
    "req_sound_params f = p" "driver_sound_params f = q" "hw_state f = h" "dev_inv f" using d by (auto simp: f_def dev_inv_def)
  have "rate_ok (hw_get_rate F h)" if ok using rate_after_open [of q "hw_state d" h] h q that by (simp add: dev_fmt_ok_def)
  then show ?thesis using run f q near open_conversion_ok [of f C t] t by (cases ok) auto
qed

lemma audio_open_ok:
  assumes d: "dev_inv d" "hw d = F" "caps_ok (hw_caps d)" and o: "force_ok opts" "method_ok C"
    and p: "params_ok (case params of None \<Rightarrow> last_params d | Some p \<Rightarrow> p)"
  shows "\<exists>ok d'. audio_open C opts params d = Inr (ok, d') \<and> dev_inv d' \<and> hw d' = F \<and> hw_caps d' = hw_caps d
    \<and> last_params d' = (case params of None \<Rightarrow> last_params d | Some p \<Rightarrow> p)
    \<and> (ok \<longrightarrow> audio_opened d' \<and> req_sound_params d' = last_params d')"
proof -
  define p where "p = (case params of None \<Rightarrow> last_params d | Some p \<Rightarrow> p)"
  define e where "e = (case params of None \<Rightarrow> d | Some p \<Rightarrow> d\<lparr>last_params := p\<rparr>)"
  have e: "dev_inv e" "hw e = F" "hw_caps e = hw_caps d" "last_params e = p"
    using d by (cases params; simp add: e_def p_def dev_inv_def)+
  have pk: "params_ok p" using p by (simp add: p_def)
  let ?same = "if audio_opened e \<and> req_sound_params e = p then bindR (get_bps e) (\<lambda>n. Inr (n \<ge> 88200)) else Inr False"
  have "\<exists>b. ?same = Inr b \<and> (b \<longrightarrow> audio_opened e \<and> req_sound_params e = p)"
    using get_bps_ok [of e] e(1) by (auto simp: dev_inv_def)
  then obtain b where b: "?same = Inr b" "b \<longrightarrow> audio_opened e \<and> req_sound_params e = p" by blast
  define c where "c = (if audio_opened e then audio_close e else e)"
  have c: "dev_inv c" "\<not> audio_opened c" "hw c = F" "hw_caps c = hw_caps d" "last_params c = p"
    using e audio_close_inv [OF e(1)] by (auto simp: c_def)
  have run: "audio_open C opts params d = (if b then Inr (True, e) else open_device C opts p c)"
    using pk unfolding audio_open_def e_def [symmetric] Let_def e(4) c_def [symmetric] b(1) by (simp add: params_ok_def)
  show ?thesis using run b(2) e c d(3) open_device_ok [OF c(1,3) _ c(2) o pk] by (cases b) (auto simp: p_def [symmetric])
qed

end

section \<open>Any use of the device\<close>

datatype dev_op = Op_open "sound_params option" | Op_close | Op_send sound | Op_toggle | Op_mixer int softmixer

definition dev_step :: "'s conv_env \<Rightarrow> options \<Rightarrow> dev_op \<Rightarrow> ('h, 's) audio_dev \<Rightarrow> ('h, 's) audio_dev result" where
  "dev_step C opts p d =
     (case p of Op_open params \<Rightarrow> bindR (audio_open C opts params d) (\<lambda>(ok, d). Inr d)
      | Op_close \<Rightarrow> Inr (audio_close d)
      | Op_send x \<Rightarrow> bindR (audio_send_buf C x d) (\<lambda>(y, d). Inr d)
      | Op_toggle \<Rightarrow> Inr (audio_toggle_mixer_channel d)
      | Op_mixer v m \<Rightarrow> Inr (snd (audio_set_mixer v m d)))"

definition op_ok :: "dev_op \<Rightarrow> bool" where
  "op_ok p \<longleftrightarrow> (\<forall>q. p = Op_open (Some q) \<longrightarrow> params_ok q)"

definition dev_all :: "'h hw_funcs \<Rightarrow> output_driver_caps \<Rightarrow> ('h, 's) audio_dev \<Rightarrow> bool" where
  "dev_all F caps d \<longleftrightarrow> dev_inv d \<and> hw d = F \<and> hw_caps d = caps \<and> (last_params d = no_params \<or> params_ok (last_params d))"

lemma dev_all_mixer [simp]:
  "dev_all F caps (d\<lparr>hw_state := h\<rparr>) = dev_all F caps d" "dev_all F caps (d\<lparr>current_mixer := m\<rparr>) = dev_all F caps d"
  by (simp_all add: dev_all_def dev_inv_def)

context driver
begin

lemma dev_step_all:
  assumes "dev_all F caps d" and "caps_ok caps" "force_ok opts" "method_ok C" and "op_ok p" and "dev_step C opts p d = Inr d'"
  shows "dev_all F caps d'"
proof (cases p)
  case (Op_open params)
  have n: "\<not> sound_format_ok (sp_fmt no_params)" by (simp add: no_params_def sound_format_ok_def)
  have r: "\<exists>ok. audio_open C opts params d = Inr (ok, d')" using assms(6) Op_open by (auto simp: dev_step_def bindR_eq_Inr)
  then have g: "params_ok (case params of None \<Rightarrow> last_params d | Some p \<Rightarrow> p)"
    using assms(1,5) Op_open n by (cases params) (auto simp: dev_all_def op_ok_def audio_open_def)
  show ?thesis using r g audio_open_ok [OF _ _ _ assms(3,4) g] assms(1,2) by (auto simp: dev_all_def)
next
  case Op_close
  then show ?thesis using assms(1,6) audio_close_inv [of d] by (auto simp: dev_step_def dev_all_def)
next
  case (Op_send x)
  then obtain y where "audio_send_buf C x d = Inr (y, d')" using assms(6) by (auto simp: dev_step_def bindR_eq_Inr)
  then show ?thesis using assms(1) audio_send_buf_inv [of d C x y d'] by (simp add: dev_all_def)
next
  case Op_toggle
  then show ?thesis using assms(1,6) by (auto simp: dev_step_def audio_toggle_mixer_channel_def Let_def split: if_splits)
next
  case (Op_mixer v m)
  then show ?thesis using assms(1,6) by (auto simp: dev_step_def audio_set_mixer_def split: if_splits)
qed

lemma dev_run_all:
  assumes "caps_ok caps" "force_ok opts" "method_ok C" "\<forall>p\<in>set ops. op_ok p"
    and "foldR (dev_step C opts) ops (new_device F caps h) = Inr d"
  shows "dev_all F caps d"
proof (rule foldR_invariant [OF _ _ assms(5)])
  show "dev_all F caps (new_device F caps h)" by (simp add: dev_all_def new_device_def dev_inv_def)
qed (use assms dev_step_all in blast)

end

section \<open>Properties\<close>

text \<open>
  C34: Whatever was opened, closed and sent before: an open device has parameters the driver
  supports (channels within its limits, as requested when these are; a format of its formats, of the
  requested kind when it has that), and the decoder's sound is converted exactly when its format or
  number of channels differ from them or its rate by more than five percent, by a converter from the one to
  the other; a closed device has no converter. The frame size and the byte rate of an open device
  are positive and do not overflow, as the reading thread of the output buffer needs them. A further request
  with valid parameters succeeds or is refused, without a failed assertion, and closing an open device
  forgets its parameters.
\<close>

theorem audio_device_format:
  assumes "driver F" "caps_ok caps" "force_ok opts" "method_ok C" "\<forall>p\<in>set ops. op_ok p"
    and "foldR (dev_step C opts) ops (new_device F caps h) = Inr d"
  shows "dev_inv d \<and> dev_inv (audio_close d)
    \<and> (audio_opened d \<longrightarrow> req_sound_params (audio_close d) = no_params \<and> driver_sound_params (audio_close d) = no_params)
    \<and> (params_ok p \<longrightarrow> (\<exists>ok d'. audio_open C opts (Some p) d = Inr (ok, d') \<and> dev_inv d' \<and> (ok \<longrightarrow> audio_opened d' \<and> req_sound_params d' = p)))
    \<and> (audio_opened d \<longrightarrow> (\<exists>bpf bps. get_bpf d = Inr bpf \<and> get_bps d = Inr bps \<and>
          valid_params \<lparr>can_open = x, audio_get_bpf = bpf, audio_get_bps = bps, audio_get_buf_fill = get_buf_fill d\<rparr>))"
proof -
  have a: "dev_all F caps d" by (rule driver.dev_run_all [OF assms])
  then have i: "dev_inv d" by (simp add: dev_all_def)
  moreover have "dev_inv (audio_close d)" using audio_close_inv [OF i] by blast
  moreover note audio_close_params [of d]
  moreover have "\<exists>ok d'. audio_open C opts (Some p) d = Inr (ok, d') \<and> dev_inv d' \<and> (ok \<longrightarrow> audio_opened d' \<and> req_sound_params d' = p)" if "params_ok p"
    using driver.audio_open_ok [OF assms(1), of d opts C "Some p"] a assms(2-4) that by (auto simp: dev_all_def)
  moreover have "\<exists>bpf bps. get_bpf d = Inr bpf \<and> get_bps d = Inr bps \<and>
      valid_params \<lparr>can_open = x, audio_get_bpf = bpf, audio_get_bps = bps, audio_get_buf_fill = get_buf_fill d\<rparr>" if "audio_opened d"
  proof -
    have f: "dev_fmt_ok (driver_sound_params d)" using a that by (simp add: dev_all_def dev_inv_def)
    from get_bps_ok [OF this] obtain b where
      b: "get_bpf d = Inr b" "0 < b" "b \<le> 32" "get_bps d = Inr (sp_rate (driver_sound_params d) * b)" by blast
    moreover have "0 \<le> sp_rate (driver_sound_params d) * b" using f b(2) by (simp add: dev_fmt_ok_def rate_ok_def)
    ultimately show ?thesis by (simp add: valid_params_def)
  qed
  ultimately show ?thesis by blast
qed


text \<open>The driver for tests, after a request for unsigned samples, which it does not support.\<close>

definition sample_conv :: "unit conv_env" where
  "sample_conv = \<lparr>ce_method = ''Linear'', ce_new = (\<lambda>_ _. Some ()), ce_src = (\<lambda>_ _ _ _. ((), None))\<rparr>"

definition sample_caps :: output_driver_caps where
  "sample_caps = fst (snd (null_init \<lparr>min_channels = 0, max_channels = 0, formats = 0\<rparr> no_params))"

definition sample_request :: sound_params where
  "sample_request = \<lparr>sp_channels = 2, sp_rate = 44100, sp_fmt = SFMT_U16 OR SFMT_LE\<rparr>"

definition sample_device :: "(null_dev, unit) audio_dev" where
  "sample_device =
     (let dr = sample_request\<lparr>sp_fmt := SFMT_S16 OR SFMT_LE\<rparr> in
      (new_device null_funcs sample_caps dr)
        \<lparr>audio_opened := True, driver_sound_params := dr, req_sound_params := sample_request, last_params := sample_request,
         sound_conv := Some \<lparr>c_from = sample_request, c_to = dr, src_state = None, resample_buf = None, resample_buf_nsamples = 0\<rparr>,
         need_audio_conversion := True, current_mixer := 1\<rparr>)"

lemma default_force: "\<exists>opts. options_init options_static = Inr opts \<and> options_get_int ''ForceSampleRate'' opts = Inr 0"
proof -
  obtain opts where opts: "options_init options_static = Inr opts" "options_typed opts"
    "\<forall>d\<in>set builtin_options. \<exists>x. entry opts (decl_name d) = Some x \<and> as_declared d x"
    using options_init_ok [of options_static] by (auto simp: options_static_def)
  let ?d = "Add_int ''ForceSampleRate'' 0 Check_range 2 [Int_arg 0, Int_arg 500000]"
  have "?d \<in> set builtin_options" by (simp add: builtin_options_def playing_options_def)
  then obtain x where x: "entry opts (decl_name ?d) = Some x" "as_declared ?d x" using opts(3) by blast
  then have v: "o_value x = Num 0" "o_type x = OPTION_INT" by (auto simp: as_declared_def bindR_eq_Inr split: sum.splits prod.splits)
  from get_known(1) [OF opts(2), of "''ForceSampleRate''" x] x(1) v opts(1) show ?thesis by auto
qed

lemma sample_params_ok: "params_ok sample_request" "caps_ok sample_caps" "method_ok sample_conv"
proof -
  show "params_ok sample_request"
    unfolding params_ok_def by (auto simp: sample_request_def rate_ok_def kinds_def endians_def sound_format_ok_def sfmt_defs)
  have "resample_type (ce_method sample_conv) = Inr SRC_LINEAR" by code_simp
  then show "method_ok sample_conv" by (simp add: method_ok_def)
qed (auto simp: sample_caps_def null_init_def caps_ok_def kinds_def sfmt_defs)

lemma sample_device_run:
  assumes "options_get_int ''ForceSampleRate'' opts = Inr 0"
  shows "foldR (dev_step sample_conv opts) [Op_toggle, Op_open (Some sample_request)] (new_device null_funcs sample_caps no_params) = Inr sample_device"
proof -
  have b: "sfmt_best_matching (formats sample_caps) (sp_fmt sample_request) = Inr (SFMT_S16 OR SFMT_LE)" by code_simp
  have "sample_rate_compat 44100 44100" "(1::int) smod 3 = 1" by (rule sample_rate_compat_refl) (simp, code_simp)
  then show ?thesis using assms b sample_params_ok(1)
    by (simp add: dev_step_def audio_open_def open_device_def open_conversion_def audio_toggle_mixer_channel_def sample_device_def
        new_device_def Let_def sample_request_def null_funcs_def null_open_def sample_caps_def null_init_def clamp_def
        audio_conv_new_def params_ok_def sfmt_defs)
qed

theorem audio_device_format_witness:
  "\<exists>opts. options_init options_static = Inr opts \<and>
     foldR (dev_step sample_conv opts) [Op_toggle, Op_open (Some sample_request)] (new_device null_funcs sample_caps no_params) = Inr sample_device \<and>
     dev_inv sample_device \<and> audio_opened sample_device \<and> need_audio_conversion sample_device"
proof -
  obtain opts where o: "options_init options_static = Inr opts" "options_get_int ''ForceSampleRate'' opts = Inr 0" using default_force by blast
  then have f: "force_ok opts" by (simp add: force_ok_def)
  have "\<forall>p\<in>set [Op_toggle, Op_open (Some sample_request)]. op_ok p" using sample_params_ok(1) by (simp add: op_ok_def)
  from audio_device_format [OF null.driver_axioms sample_params_ok(2) f sample_params_ok(3) this sample_device_run [OF o(2)]]
  show ?thesis using o sample_device_run [OF o(2)] by (simp add: sample_device_def Let_def)
qed

end
