(* ===== verification/Clients.thy ===== *)
theory Clients
  imports Audio_Dev Event_Queue Tags_Cache
begin

text \<open>
  The clients of the music server, the first half of \<^verbatim>\<open>src/src/moc-2.5.0/server.c\<close>: the
  state of the server, the table of clients with its lock, the sockets, and the events that are
  queued for the clients and sent to them. Mutexes protect single event queues; each function here is one step.
\<close>

section \<open>Events and state\<close>

definition EV_STATE :: int where "EV_STATE = 0x01"
definition EV_CTIME :: int where "EV_CTIME = 0x02"
definition EV_BUSY :: int where "EV_BUSY = 0x05"
definition EV_DATA :: int where "EV_DATA = 0x06"
definition EV_BITRATE :: int where "EV_BITRATE = 0x07"
definition EV_RATE :: int where "EV_RATE = 0x08"
definition EV_CHANNELS :: int where "EV_CHANNELS = 0x09"
definition EV_EXIT :: int where "EV_EXIT = 0x0a"
definition EV_PONG :: int where "EV_PONG = 0x0b"
definition EV_OPTIONS :: int where "EV_OPTIONS = 0x0c"
definition EV_SEND_PLIST :: int where "EV_SEND_PLIST = 0x0d"
definition EV_TAGS :: int where "EV_TAGS = 0x0e"
definition EV_MIXER_CHANGE :: int where "EV_MIXER_CHANGE = 0x10"
definition EV_AVG_BITRATE :: int where "EV_AVG_BITRATE = 0x12"
definition EV_AUDIO_START :: int where "EV_AUDIO_START = 0x13"
definition EV_AUDIO_STOP :: int where "EV_AUDIO_STOP = 0x14"
definition EV_PLIST_CLEAR :: int where "EV_PLIST_CLEAR = 0x53"
definition EV_QUEUE_CLEAR :: int where "EV_QUEUE_CLEAR = 0x57"

lemmas ev_defs = EV_STATE_def EV_CTIME_def EV_BUSY_def EV_DATA_def EV_BITRATE_def EV_RATE_def EV_CHANNELS_def EV_EXIT_def
  EV_PONG_def EV_OPTIONS_def EV_SEND_PLIST_def EV_TAGS_def EV_MIXER_CHANGE_def EV_AVG_BITRATE_def EV_AUDIO_START_def
  EV_AUDIO_STOP_def EV_PLIST_CLEAR_def EV_QUEUE_CLEAR_def EV_SRV_ERROR_def EV_STATUS_MSG_def EV_FILE_TAGS_def
  EV_PLIST_ADD_def EV_PLIST_DEL_def EV_PLIST_MOVE_def EV_QUEUE_ADD_def EV_QUEUE_DEL_def EV_QUEUE_MOVE_def

text \<open>A slot of the table; \<open>sock\<close> is -1 when it is not in use.\<close>

record client =
  sock :: int
  wants_plist_events :: bool
  events :: event_queue
  requests_plist :: bool
  can_send_plist :: bool
  lock :: bool

text \<open>
  A connection: what arrives, what was sent, and how the next calls of \<^verbatim>\<open>send\<close> behave: a number of
  bytes that are accepted, -1 for an error, another negative number when the call would block; once the
  list is used up, everything is accepted. A closed descriptor fails.
\<close>

record conn =
  c_in :: chan
  c_out :: string
  c_sends :: "int list"
  c_open :: bool

record sound_info =
  avg_bitrate :: int
  bitrate :: int
  rate :: int
  channels :: int

datatype player_request = Seek int | Jump_to int

text \<open>
  The state of the server process. \<open>wake_ups\<close> counts the unread numbers in the pipe, \<open>commands\<close> lists
  the programs that were started with their arguments, \<open>player_requests\<close> what the player was asked for,
  \<open>curr_tags\<close> are the tags of the player's file. \<open>last_file\<close> and \<open>song_command\<close> are static variables of \<^verbatim>\<open>on_song_change\<close>,
  \<open>seed\<close> one of \<^verbatim>\<open>gen_serial\<close>.
\<close>

record ('d, 'h, 's) server =
  clients :: "client list"
  net :: "int \<Rightarrow> conn option"
  wake_ups :: nat
  server_quit :: bool
  s_info :: sound_info
  seed :: int
  s_audio :: audio
  s_dev :: "('h, 's) audio_dev"
  s_out :: "byte out_buf"
  s_mixer :: softmixer
  s_eq :: equalizer
  s_tags :: "'d tags_cache"
  s_opts :: options
  curr_tags :: "file_tags option"
  player_requests :: "player_request list"
  last_file :: "string option"
  song_command :: "lists_t_strs option"
  commands :: "string list list"

text \<open>What is outside: the tags with their database and the file system, the presets of the equalizer, and whether a process can be started.\<close>

record 'd server_env =
  e_tags :: "'d tags_env"
  e_libm :: libm
  e_presets :: "preset_dir option"
  e_fork :: bool

section \<open>Sockets\<close>

definition open_conn :: "int \<Rightarrow> ('d, 'h, 's) server \<Rightarrow> conn option" where
  "open_conn fd s = (if fd < 0 then None else case net s fd of Some c \<Rightarrow> if c_open c then Some c else None | None \<Rightarrow> None)"

definition set_conn :: "int \<Rightarrow> conn \<Rightarrow> ('d, 'h, 's) server \<Rightarrow> ('d, 'h, 's) server" where
  "set_conn fd c s = s\<lparr>net := (net s)(fd := Some c)\<rparr>"

definition read_from :: "(chan \<Rightarrow> 'a option \<times> chan) \<Rightarrow> int \<Rightarrow> ('d, 'h, 's) server \<Rightarrow> 'a option \<times> ('d, 'h, 's) server" where
  "read_from f fd s =
     (case open_conn fd s of None \<Rightarrow> (None, s)
      | Some c \<Rightarrow> let (r, ch) = f (c_in c) in (r, set_conn fd (c\<lparr>c_in := ch\<rparr>) s))"

text \<open>One call of \<^verbatim>\<open>send\<close>, that succeeds when all bytes were accepted, and the loop of \<^verbatim>\<open>send_all\<close>.\<close>

definition send_once :: "string \<Rightarrow> int \<Rightarrow> ('d, 'h, 's) server \<Rightarrow> bool \<times> ('d, 'h, 's) server" where
  "send_once b fd s =
     (case open_conn fd s of None \<Rightarrow> (False, s)
      | Some c \<Rightarrow>
          (case c_sends c of
             [] \<Rightarrow> (True, set_conn fd (c\<lparr>c_out := c_out c @ b\<rparr>) s)
           | r # rs \<Rightarrow> (r \<ge> int (length b), set_conn fd (c\<lparr>c_out := c_out c @ take (nat r) b, c_sends := rs\<rparr>) s)))"

fun sends_left :: "int list \<Rightarrow> string \<Rightarrow> int list" where
  "sends_left rs [] = rs"
| "sends_left [] b = []"
| "sends_left (r # rs) b = (if r < 0 then rs else sends_left rs (drop (nat r) b))"

definition send_bytes :: "string \<Rightarrow> int \<Rightarrow> ('d, 'h, 's) server \<Rightarrow> bool \<times> ('d, 'h, 's) server" where
  "send_bytes b fd s =
     (case open_conn fd s of None \<Rightarrow> (b = [], s)
      | Some c \<Rightarrow>
          let (ok, out) = send_all (c_sends c) b
          in (ok, set_conn fd (c\<lparr>c_out := c_out c @ out, c_sends := sends_left (c_sends c) b\<rparr>) s))"

definition send_int_to :: "int \<Rightarrow> int \<Rightarrow> ('d, 'h, 's) server \<Rightarrow> bool \<times> ('d, 'h, 's) server" where
  "send_int_to i fd s = send_once (enc_int i) fd s"

definition send_str_to :: "string \<Rightarrow> int \<Rightarrow> ('d, 'h, 's) server \<Rightarrow> bool \<times> ('d, 'h, 's) server" where
  "send_str_to str fd s = (case send_int_to (int (length str)) fd s of (ok, s) \<Rightarrow> if ok then send_once str fd s else (False, s))"

definition send_item_to :: "plist_item option \<Rightarrow> int \<Rightarrow> ('d, 'h, 's) server \<Rightarrow> (bool \<times> ('d, 'h, 's) server) result" where
  "send_item_to x fd s =
     (case x of None \<Rightarrow> Inr (send_str_to [] fd s)
      | Some x \<Rightarrow> bindR (packet_buf_add_item x packet_buf_new) (\<lambda>b. Inr (send_bytes (pb_buf b) fd s)))"

definition send_tags_to :: "file_tags option \<Rightarrow> int \<Rightarrow> ('d, 'h, 's) server \<Rightarrow> (bool \<times> ('d, 'h, 's) server) result" where
  "send_tags_to t fd s = bindR (packet_buf_add_tags t packet_buf_new) (\<lambda>b. Inr (send_bytes (pb_buf b) fd s))"

definition close_fd :: "int \<Rightarrow> ('d, 'h, 's) server \<Rightarrow> ('d, 'h, 's) server" where
  "close_fd fd s = (case open_conn fd s of None \<Rightarrow> s | Some c \<Rightarrow> set_conn fd (c\<lparr>c_open := False\<rparr>) s)"

section \<open>The table of clients\<close>

definition cli :: "nat \<Rightarrow> ('d, 'h, 's) server \<Rightarrow> client" where
  "cli i s = clients s ! i"

definition upd_cli :: "nat \<Rightarrow> (client \<Rightarrow> client) \<Rightarrow> ('d, 'h, 's) server \<Rightarrow> ('d, 'h, 's) server" where
  "upd_cli i f s = s\<lparr>clients := (clients s)[i := f (clients s ! i)]\<rparr>"

fun first_client :: "(client \<Rightarrow> bool) \<Rightarrow> client list \<Rightarrow> int \<Rightarrow> int" where
  "first_client p [] i = -1"
| "first_client p (c # cs) i = (if p c then i else first_client p cs (i + 1))"

text \<open>The static table is filled with zeros; only the sockets are set.\<close>

definition clients_init :: "client list \<Rightarrow> client list" where
  "clients_init cs = map (\<lambda>c. c\<lparr>sock := -1\<rparr>) cs"

definition static_client :: client where
  "static_client = \<lparr>sock = 0, wants_plist_events = False, events = event_queue_init, requests_plist = False, can_send_plist = False, lock = False\<rparr>"

definition clients_cleanup :: "('d, 'h, 's) server \<Rightarrow> ('d, 'h, 's) server" where
  "clients_cleanup s = s\<lparr>clients := map (\<lambda>c. c\<lparr>sock := -1\<rparr>) (clients s)\<rparr>"

definition clear_tags_queue :: "int \<Rightarrow> ('d, 'h, 's) server \<Rightarrow> ('d, 'h, 's) server result" where
  "clear_tags_queue i s = bindR (tags_cache_clear_queue i (s_tags s)) (\<lambda>t. Inr (s\<lparr>s_tags := t\<rparr>))"

definition add_client :: "int \<Rightarrow> ('d, 'h, 's) server \<Rightarrow> (bool \<times> ('d, 'h, 's) server) result" where
  "add_client fd s =
     (let i = first_client (\<lambda>c. sock c = -1) (clients s) 0 in
      if i = -1 then Inr (False, s)
      else
        bindR (event_queue_free (events (cli (nat i) s))) (\<lambda>_.
        bindR (clear_tags_queue i (upd_cli (nat i) (\<lambda>_. \<lparr>sock = fd, wants_plist_events = False, events = event_queue_init,
                 requests_plist = False, can_send_plist = False, lock = False\<rparr>) s)) (\<lambda>s. Inr (True, s))))"

definition locking_client :: "('d, 'h, 's) server \<Rightarrow> int" where
  "locking_client s = first_client (\<lambda>c. sock c \<noteq> -1 \<and> lock c) (clients s) 0"

definition is_locking :: "nat \<Rightarrow> ('d, 'h, 's) server \<Rightarrow> bool" where
  "is_locking i s = lock (cli i s)"

definition client_lock :: "nat \<Rightarrow> ('d, 'h, 's) server \<Rightarrow> (bool \<times> ('d, 'h, 's) server) result" where
  "client_lock i s =
     (if lock (cli i s) then Inr (False, s)
      else bindR (guardR (locking_client s = -1) Assert) (\<lambda>_. Inr (True, upd_cli i (\<lambda>c. c\<lparr>lock := True\<rparr>) s)))"

definition client_unlock :: "nat \<Rightarrow> ('d, 'h, 's) server \<Rightarrow> bool \<times> ('d, 'h, 's) server" where
  "client_unlock i s = (if \<not> lock (cli i s) then (False, s) else (True, upd_cli i (\<lambda>c. c\<lparr>lock := False\<rparr>) s))"

definition client_index :: "nat \<Rightarrow> ('d, 'h, 's) server \<Rightarrow> int" where
  "client_index i s = first_client (\<lambda>c. sock c = sock (cli i s)) (clients s) 0"

text \<open>The index is looked up after the socket was set to -1.\<close>

definition del_client :: "nat \<Rightarrow> ('d, 'h, 's) server \<Rightarrow> ('d, 'h, 's) server result" where
  "del_client i s =
     (let s = upd_cli i (\<lambda>c. c\<lparr>sock := -1\<rparr>) s in
      bindR (event_queue_free (events (cli i s))) (\<lambda>q.
        let s = upd_cli i (\<lambda>c. c\<lparr>events := q\<rparr>) s in clear_tags_queue (client_index i s) s))"

definition disconnect :: "nat \<Rightarrow> ('d, 'h, 's) server \<Rightarrow> ('d, 'h, 's) server result" where
  "disconnect i s = del_client i (close_fd (sock (cli i s)) s)"

definition wake_up_server :: "('d, 'h, 's) server \<Rightarrow> ('d, 'h, 's) server" where
  "wake_up_server s = s\<lparr>wake_ups := wake_ups s + 1\<rparr>"

section \<open>Commands on events\<close>

text \<open>The arguments of the command for a new song: a word that starts with a percent sign stands for a tag.\<close>

definition song_arg :: "file_tags \<Rightarrow> string \<Rightarrow> string \<Rightarrow> string result" where
  "song_arg t curr_file arg =
     (let c = chr_at arg 1 in
      if chr_at arg 0 \<noteq> CHR ''%'' then Inr arg
      else if c = CHR ''a'' then Inr (or_empty (artist t))
      else if c = CHR ''r'' then Inr (or_empty (album t))
      else if c = CHR ''t'' then Inr (or_empty (title t))
      else if c = CHR ''n'' then Inr (if track t \<ge> 0 then take 3 (show_int (track t)) else [])
      else if c = CHR ''f'' then Inr curr_file
      else if c = CHR ''D'' then Inr (if time t \<ge> 0 then take 9 (show_int (time t)) else [])
      else if c = CHR ''d'' then (if time t \<ge> 0 then sec_to_min (time t) else Inr [])
      else Inr arg)"

definition run_command :: "'d server_env \<Rightarrow> string list \<Rightarrow> ('d, 'h, 's) server \<Rightarrow> ('d, 'h, 's) server" where
  "run_command E args s = (if e_fork E then s\<lparr>commands := commands s @ [args]\<rparr> else s)"

definition song_list :: "('d, 'h, 's) server \<Rightarrow> lists_t_strs result" where
  "song_list s =
     (case song_command s of
        Some l \<Rightarrow> Inr l
      | None \<Rightarrow>
          bindR (lists_strs_new 4) (\<lambda>l. bindR (options_get_str ''OnSongChange'' (s_opts s)) (\<lambda>command.
            case command of None \<Rightarrow> Inr l | Some c \<Rightarrow> bindR (lists_strs_tokenise c l) (\<lambda>(_, l). Inr l))))"

definition song_args :: "lists_t_strs \<Rightarrow> file_tags \<Rightarrow> string \<Rightarrow> string list result" where
  "song_args l t curr_file =
     bindR (lists_strs_new (lists_strs_size l)) (\<lambda>args.
     bindR (foldR (\<lambda>i args. bindR (lists_strs_at l (int i)) (\<lambda>arg. bindR (song_arg t curr_file arg) (\<lambda>x. lists_strs_append x args)))
              [0..<l_size l] args) (\<lambda>args.
     bindR (lists_strs_fmt [SP] [] args) (\<lambda>_. lists_strs_save args)))"

definition on_song_change :: "'d server_env \<Rightarrow> ('d, 'h, 's) server \<Rightarrow> ('d, 'h, 's) server result" where
  "on_song_change E s =
     bindR (song_list s) (\<lambda>l.
       let s = s\<lparr>song_command := Some l\<rparr>; a = s_audio s in
       if lists_strs_empty l then Inr s
       else case curr_playing_fname a of
         None \<Rightarrow> Inr s
       | Some f \<Rightarrow>
           let same_file = (last_file s = Some f); unpaused = (prev_state a = STATE_PAUSE) in
           bindR (if same_file \<and> \<not> unpaused then options_get_bool ''RepeatSongChange'' (s_opts s) else Inr True) (\<lambda>rep.
             if same_file \<and> (unpaused \<or> \<not> rep) then Inr s
             else
               bindR (tags_cache_get_immediate (e_tags E) a f (TAGS_COMMENTS OR TAGS_TIME) (s_tags s)) (\<lambda>(t, c).
               bindR (song_args l t f) (\<lambda>args. Inr ((run_command E args (s\<lparr>s_tags := c\<rparr>))\<lparr>last_file := Some f\<rparr>)))))"

definition on_stop :: "'d server_env \<Rightarrow> ('d, 'h, 's) server \<Rightarrow> ('d, 'h, 's) server result" where
  "on_stop E s =
     bindR (options_get_str ''OnStop'' (s_opts s)) (\<lambda>command.
       Inr (case command of None \<Rightarrow> s | Some c \<Rightarrow> run_command E [c] s))"

section \<open>Events\<close>

definition is_plist_event :: "int \<Rightarrow> bool" where
  "is_plist_event ev \<longleftrightarrow> ev \<in> {EV_PLIST_ADD, EV_PLIST_DEL, EV_PLIST_MOVE, EV_PLIST_CLEAR}"

definition add_event :: "nat \<Rightarrow> int \<Rightarrow> ev_data \<Rightarrow> ('d, 'h, 's) server \<Rightarrow> ('d, 'h, 's) server result" where
  "add_event i ev d s =
     bindR (event_push \<lparr>e_type = ev, e_data = d\<rparr> (events (cli i s))) (\<lambda>q. Inr (upd_cli i (\<lambda>c. c\<lparr>events := q\<rparr>) s))"

text \<open>The copy of the data for one client.\<close>

definition copy_data :: "int \<Rightarrow> ev_data \<Rightarrow> ev_data result" where
  "copy_data ev d =
     (if d = No_data then Inr No_data
      else if ev \<in> {EV_PLIST_ADD, EV_QUEUE_ADD} then
        case d of Item x \<Rightarrow> Inr (Item (plist_item_copy plist_new_item x)) | _ \<Rightarrow> Inl Undefined
      else if ev \<in> {EV_PLIST_DEL, EV_QUEUE_DEL, EV_STATUS_MSG, EV_SRV_ERROR} then
        case d of Text t \<Rightarrow> Inr (Text t) | _ \<Rightarrow> Inl Undefined
      else if ev \<in> {EV_PLIST_MOVE, EV_QUEUE_MOVE} then
        case d of Move f t \<Rightarrow> Inr (Move f t) | _ \<Rightarrow> Inl Undefined
      else Inr No_data)"

definition add_for :: "int \<Rightarrow> ev_data \<Rightarrow> nat \<Rightarrow> bool \<times> ('d, 'h, 's) server \<Rightarrow> (bool \<times> ('d, 'h, 's) server) result" where
  "add_for ev d i st =
     (case st of (added, s) \<Rightarrow>
        if sock (cli i s) = -1 then Inr (added, s)
        else if \<not> wants_plist_events (cli i s) \<and> is_plist_event ev then Inr (added, s)
        else bindR (copy_data ev d) (\<lambda>d. bindR (add_event i ev d s) (\<lambda>s. Inr (True, s))))"

definition add_event_all :: "'d server_env \<Rightarrow> int \<Rightarrow> ev_data \<Rightarrow> ('d, 'h, 's) server \<Rightarrow> ('d, 'h, 's) server result" where
  "add_event_all E ev d s =
     bindR (if ev = EV_STATE then
              if play_state (s_audio s) = STATE_PLAY then on_song_change E s
              else if play_state (s_audio s) = STATE_STOP then on_stop E s else Inr s
            else Inr s) (\<lambda>s.
     bindR (foldR (add_for ev d) [0..<CLIENTS_MAX] (False, s)) (\<lambda>(added, s).
       Inr (if added then wake_up_server s else s)))"

text \<open>
  Sending the first event of a client: with the answer of the next \<^verbatim>\<open>send\<close>. The loop of
  \<^verbatim>\<open>flush_events\<close> removes one event in each round.
\<close>

definition send_event :: "nat \<Rightarrow> ('d, 'h, 's) server \<Rightarrow> (noblock_io_status \<times> ('d, 'h, 's) server) result" where
  "send_event i s =
     (let fd = sock (cli i s) in
      case open_conn fd s of
        None \<Rightarrow> bindR (event_send_noblock (-1) False (events (cli i s))) (\<lambda>(st, b, q). Inr (st, s))
      | Some c \<Rightarrow>
          let (r, rs) = (case c_sends c of [] \<Rightarrow> (2 ^ 31, []) | r # rs \<Rightarrow> (r, rs)) in
          bindR (event_send_noblock r (r < -1) (events (cli i s))) (\<lambda>(st, b, q).
            Inr (st, set_conn fd (c\<lparr>c_out := c_out c @ b, c_sends := rs\<rparr>) (upd_cli i (\<lambda>c. c\<lparr>events := q\<rparr>) s))))"

fun flush_loop :: "nat \<Rightarrow> nat \<Rightarrow> ('d, 'h, 's) server \<Rightarrow> (noblock_io_status \<times> ('d, 'h, 's) server) result" where
  "flush_loop 0 i s = Inr (NB_IO_OK, s)"
| "flush_loop (Suc k) i s =
     (if event_queue_empty (events (cli i s)) then Inr (NB_IO_OK, s)
      else bindR (send_event i s) (\<lambda>(st, s). if st = NB_IO_OK then flush_loop k i s else Inr (st, s)))"

definition flush_events :: "nat \<Rightarrow> ('d, 'h, 's) server \<Rightarrow> (bool \<times> ('d, 'h, 's) server) result" where
  "flush_events i s = bindR (flush_loop (fresh (events (cli i s))) i s) (\<lambda>(st, s). Inr (st \<noteq> NB_IO_ERR, s))"

definition send_events :: "int list \<Rightarrow> ('d, 'h, 's) server \<Rightarrow> ('d, 'h, 's) server result" where
  "send_events fds s =
     foldR (\<lambda>i s. if sock (cli i s) \<noteq> -1 \<and> sock (cli i s) \<in> set fds then
                    bindR (flush_events i s) (\<lambda>(ok, s). if ok then Inr s else disconnect i s)
                  else Inr s) [0..<CLIENTS_MAX] s"

section \<open>Notifications from the other threads\<close>

definition state_change :: "'d server_env \<Rightarrow> ('d, 'h, 's) server \<Rightarrow> ('d, 'h, 's) server result" where
  "state_change E s = add_event_all E EV_STATE No_data s"

definition ctime_change :: "'d server_env \<Rightarrow> ('d, 'h, 's) server \<Rightarrow> ('d, 'h, 's) server result" where
  "ctime_change E s = add_event_all E EV_CTIME No_data s"

definition tags_change :: "'d server_env \<Rightarrow> ('d, 'h, 's) server \<Rightarrow> ('d, 'h, 's) server result" where
  "tags_change E s = add_event_all E EV_TAGS No_data s"

definition status_msg :: "'d server_env \<Rightarrow> string \<Rightarrow> ('d, 'h, 's) server \<Rightarrow> ('d, 'h, 's) server result" where
  "status_msg E msg s = add_event_all E EV_STATUS_MSG (Text msg) s"

definition server_error :: "'d server_env \<Rightarrow> string \<Rightarrow> ('d, 'h, 's) server \<Rightarrow> ('d, 'h, 's) server result" where
  "server_error E msg s = add_event_all E EV_SRV_ERROR (Text msg) s"

definition ev_audio_start :: "'d server_env \<Rightarrow> ('d, 'h, 's) server \<Rightarrow> ('d, 'h, 's) server result" where
  "ev_audio_start E s = add_event_all E EV_AUDIO_START No_data s"

definition ev_audio_stop :: "'d server_env \<Rightarrow> ('d, 'h, 's) server \<Rightarrow> ('d, 'h, 's) server result" where
  "ev_audio_stop E s = add_event_all E EV_AUDIO_STOP No_data s"

definition server_queue_pop :: "'d server_env \<Rightarrow> string \<Rightarrow> ('d, 'h, 's) server \<Rightarrow> ('d, 'h, 's) server result" where
  "server_queue_pop E f s = add_event_all E EV_QUEUE_DEL (Text f) s"

definition set_info_bitrate :: "'d server_env \<Rightarrow> int \<Rightarrow> ('d, 'h, 's) server \<Rightarrow> ('d, 'h, 's) server result" where
  "set_info_bitrate E n s = add_event_all E EV_BITRATE No_data (s\<lparr>s_info := (s_info s)\<lparr>bitrate := n\<rparr>\<rparr>)"

definition set_info_channels :: "'d server_env \<Rightarrow> int \<Rightarrow> ('d, 'h, 's) server \<Rightarrow> ('d, 'h, 's) server result" where
  "set_info_channels E n s = add_event_all E EV_CHANNELS No_data (s\<lparr>s_info := (s_info s)\<lparr>channels := n\<rparr>\<rparr>)"

definition set_info_rate :: "'d server_env \<Rightarrow> int \<Rightarrow> ('d, 'h, 's) server \<Rightarrow> ('d, 'h, 's) server result" where
  "set_info_rate E n s = add_event_all E EV_RATE No_data (s\<lparr>s_info := (s_info s)\<lparr>rate := n\<rparr>\<rparr>)"

definition set_info_avg_bitrate :: "'d server_env \<Rightarrow> int \<Rightarrow> ('d, 'h, 's) server \<Rightarrow> ('d, 'h, 's) server result" where
  "set_info_avg_bitrate E n s = add_event_all E EV_AVG_BITRATE No_data (s\<lparr>s_info := (s_info s)\<lparr>avg_bitrate := n\<rparr>\<rparr>)"

text \<open>The answer to a request for tags; it goes to one client only, if it is still there.\<close>

definition tags_response :: "int \<Rightarrow> string \<Rightarrow> file_tags \<Rightarrow> ('d, 'h, 's) server \<Rightarrow> ('d, 'h, 's) server result" where
  "tags_response i file t s =
     bindR (guardR (0 \<le> i \<and> i < int CLIENTS_MAX) Assert) (\<lambda>_.
       if sock (cli (nat i) s) \<noteq> -1
       then bindR (add_event (nat i) EV_FILE_TAGS (Tags_of file (Some (tags_dup t))) s) (\<lambda>s. Inr (wake_up_server s))
       else Inr s)"

end
