(* ===== verification/Server.thy ===== *)
theory Server
  imports Clients
begin

text \<open>
  The music server, the second half of \<^verbatim>\<open>src/src/moc-2.5.0/server.c\<close>: the commands of the clients and
  the main loop. A handler returns whether it succeeded; a command that fails closes the
  connection. The lists of the player, the sound device, the options, the equalizer, the software mixer and the cache of tags are those of the other theories.
\<close>

unbundle bit_operations_syntax

section \<open>Commands\<close>

definition CMD_PLAY :: int where "CMD_PLAY = 0x00"
definition CMD_LIST_CLEAR :: int where "CMD_LIST_CLEAR = 0x01"
definition CMD_LIST_ADD :: int where "CMD_LIST_ADD = 0x02"
definition CMD_STOP :: int where "CMD_STOP = 0x04"
definition CMD_PAUSE :: int where "CMD_PAUSE = 0x05"
definition CMD_UNPAUSE :: int where "CMD_UNPAUSE = 0x06"
definition CMD_SET_OPTION :: int where "CMD_SET_OPTION = 0x07"
definition CMD_GET_OPTION :: int where "CMD_GET_OPTION = 0x08"
definition CMD_GET_CTIME :: int where "CMD_GET_CTIME = 0x0d"
definition CMD_GET_SNAME :: int where "CMD_GET_SNAME = 0x0f"
definition CMD_NEXT :: int where "CMD_NEXT = 0x10"
definition CMD_QUIT :: int where "CMD_QUIT = 0x11"
definition CMD_SEEK :: int where "CMD_SEEK = 0x12"
definition CMD_GET_STATE :: int where "CMD_GET_STATE = 0x13"
definition CMD_DISCONNECT :: int where "CMD_DISCONNECT = 0x15"
definition CMD_GET_BITRATE :: int where "CMD_GET_BITRATE = 0x16"
definition CMD_GET_RATE :: int where "CMD_GET_RATE = 0x17"
definition CMD_GET_CHANNELS :: int where "CMD_GET_CHANNELS = 0x18"
definition CMD_PING :: int where "CMD_PING = 0x19"
definition CMD_GET_MIXER :: int where "CMD_GET_MIXER = 0x1a"
definition CMD_SET_MIXER :: int where "CMD_SET_MIXER = 0x1b"
definition CMD_DELETE :: int where "CMD_DELETE = 0x1c"
definition CMD_SEND_PLIST_EVENTS :: int where "CMD_SEND_PLIST_EVENTS = 0x1d"
definition CMD_PREV :: int where "CMD_PREV = 0x20"
definition CMD_SEND_PLIST :: int where "CMD_SEND_PLIST = 0x21"
definition CMD_GET_PLIST :: int where "CMD_GET_PLIST = 0x22"
definition CMD_CAN_SEND_PLIST :: int where "CMD_CAN_SEND_PLIST = 0x23"
definition CMD_CLI_PLIST_ADD :: int where "CMD_CLI_PLIST_ADD = 0x24"
definition CMD_CLI_PLIST_DEL :: int where "CMD_CLI_PLIST_DEL = 0x25"
definition CMD_CLI_PLIST_CLEAR :: int where "CMD_CLI_PLIST_CLEAR = 0x26"
definition CMD_GET_SERIAL :: int where "CMD_GET_SERIAL = 0x27"
definition CMD_PLIST_SET_SERIAL :: int where "CMD_PLIST_SET_SERIAL = 0x28"
definition CMD_LOCK :: int where "CMD_LOCK = 0x29"
definition CMD_UNLOCK :: int where "CMD_UNLOCK = 0x2a"
definition CMD_PLIST_GET_SERIAL :: int where "CMD_PLIST_GET_SERIAL = 0x2b"
definition CMD_GET_TAGS :: int where "CMD_GET_TAGS = 0x2c"
definition CMD_TOGGLE_MIXER_CHANNEL :: int where "CMD_TOGGLE_MIXER_CHANNEL = 0x2d"
definition CMD_GET_MIXER_CHANNEL_NAME :: int where "CMD_GET_MIXER_CHANNEL_NAME = 0x2e"
definition CMD_GET_FILE_TAGS :: int where "CMD_GET_FILE_TAGS = 0x2f"
definition CMD_ABORT_TAGS_REQUESTS :: int where "CMD_ABORT_TAGS_REQUESTS = 0x30"
definition CMD_CLI_PLIST_MOVE :: int where "CMD_CLI_PLIST_MOVE = 0x31"
definition CMD_LIST_MOVE :: int where "CMD_LIST_MOVE = 0x32"
definition CMD_GET_AVG_BITRATE :: int where "CMD_GET_AVG_BITRATE = 0x33"
definition CMD_TOGGLE_SOFTMIXER :: int where "CMD_TOGGLE_SOFTMIXER = 0x34"
definition CMD_TOGGLE_EQUALIZER :: int where "CMD_TOGGLE_EQUALIZER = 0x35"
definition CMD_EQUALIZER_REFRESH :: int where "CMD_EQUALIZER_REFRESH = 0x36"
definition CMD_EQUALIZER_PREV :: int where "CMD_EQUALIZER_PREV = 0x37"
definition CMD_EQUALIZER_NEXT :: int where "CMD_EQUALIZER_NEXT = 0x38"
definition CMD_TOGGLE_MAKE_MONO :: int where "CMD_TOGGLE_MAKE_MONO = 0x39"
definition CMD_JUMP_TO :: int where "CMD_JUMP_TO = 0x3a"
definition CMD_QUEUE_ADD :: int where "CMD_QUEUE_ADD = 0x3b"
definition CMD_QUEUE_DEL :: int where "CMD_QUEUE_DEL = 0x3c"
definition CMD_QUEUE_MOVE :: int where "CMD_QUEUE_MOVE = 0x3d"
definition CMD_QUEUE_CLEAR :: int where "CMD_QUEUE_CLEAR = 0x3e"
definition CMD_GET_QUEUE :: int where "CMD_GET_QUEUE = 0x3f"

lemmas cmd_defs = CMD_PLAY_def CMD_LIST_CLEAR_def CMD_LIST_ADD_def CMD_STOP_def CMD_PAUSE_def CMD_UNPAUSE_def
  CMD_SET_OPTION_def CMD_GET_OPTION_def CMD_GET_CTIME_def CMD_GET_SNAME_def CMD_NEXT_def CMD_QUIT_def
  CMD_SEEK_def CMD_GET_STATE_def CMD_DISCONNECT_def CMD_GET_BITRATE_def CMD_GET_RATE_def CMD_GET_CHANNELS_def
  CMD_PING_def CMD_GET_MIXER_def CMD_SET_MIXER_def CMD_DELETE_def CMD_SEND_PLIST_EVENTS_def CMD_PREV_def
  CMD_SEND_PLIST_def CMD_GET_PLIST_def CMD_CAN_SEND_PLIST_def CMD_CLI_PLIST_ADD_def CMD_CLI_PLIST_DEL_def CMD_CLI_PLIST_CLEAR_def
  CMD_GET_SERIAL_def CMD_PLIST_SET_SERIAL_def CMD_LOCK_def CMD_UNLOCK_def CMD_PLIST_GET_SERIAL_def CMD_GET_TAGS_def
  CMD_TOGGLE_MIXER_CHANNEL_def CMD_GET_MIXER_CHANNEL_NAME_def CMD_GET_FILE_TAGS_def CMD_ABORT_TAGS_REQUESTS_def CMD_CLI_PLIST_MOVE_def CMD_LIST_MOVE_def
  CMD_GET_AVG_BITRATE_def CMD_TOGGLE_SOFTMIXER_def CMD_TOGGLE_EQUALIZER_def CMD_EQUALIZER_REFRESH_def CMD_EQUALIZER_PREV_def CMD_EQUALIZER_NEXT_def
  CMD_TOGGLE_MAKE_MONO_def CMD_JUMP_TO_def CMD_QUEUE_ADD_def CMD_QUEUE_DEL_def CMD_QUEUE_MOVE_def CMD_QUEUE_CLEAR_def
  CMD_GET_QUEUE_def

section \<open>Helpers\<close>

definition with_read :: "(chan \<Rightarrow> 'a option \<times> chan) \<Rightarrow> nat \<Rightarrow> ('a \<Rightarrow> ('d, 'h, 's) server \<Rightarrow> (bool \<times> ('d, 'h, 's) server) result)
    \<Rightarrow> ('d, 'h, 's) server \<Rightarrow> (bool \<times> ('d, 'h, 's) server) result" where
  "with_read f i k s =
     (case read_from f (sock (cli i s)) s of (None, s) \<Rightarrow> Inr (False, s) | (Some x, s) \<Rightarrow> k x s)"

text \<open>A step of a handler that always succeeds.\<close>

definition fine :: "('d, 'h, 's) server result \<Rightarrow> (bool \<times> ('d, 'h, 's) server) result" where
  "fine m = bindR m (\<lambda>s. Inr (True, s))"

definition play_opts :: "options \<Rightarrow> play_options result" where
  "play_opts t =
     bindR (options_get_int ''Shuffle'' t) (\<lambda>a. bindR (options_get_int ''AutoNext'' t) (\<lambda>b.
     bindR (options_get_int ''Repeat'' t) (\<lambda>c. bindR (options_get_int ''QueueNextSongReturn'' t) (\<lambda>d.
       Inr \<lparr>Shuffle = a \<noteq> 0, AutoNext = b \<noteq> 0, Repeat = c \<noteq> 0, QueueNextSongReturn = d \<noteq> 0\<rparr>))))"

text \<open>
  An operation of the player's lists and the notifications it sends: a change of the state, with the state
  the player is in at that moment, and files that were taken from the queue. Only \<^verbatim>\<open>audio_play\<close> takes files, after it has stopped the last song.
\<close>

definition state_change_at :: "'d server_env \<Rightarrow> int \<Rightarrow> ('d, 'h, 's) server \<Rightarrow> ('d, 'h, 's) server result" where
  "state_change_at E st s =
     (let a = s_audio s in bindR (state_change E (s\<lparr>s_audio := a\<lparr>play_state := st\<rparr>\<rparr>)) (\<lambda>s. Inr (s\<lparr>s_audio := a\<rparr>)))"

definition audio_do :: "'d server_env \<Rightarrow> (audio \<Rightarrow> audio result) \<Rightarrow> ('d, 'h, 's) server \<Rightarrow> ('d, 'h, 's) server result" where
  "audio_do E f s =
     bindR (f (s_audio s)) (\<lambda>a.
     bindR (foldR (state_change_at E) (drop (length (reported (s_audio s))) (reported a)) (s\<lparr>s_audio := a\<rparr>))
       (foldR (server_queue_pop E) (drop (length (popped (s_audio s))) (popped a))))"

abbreviation play_env_of :: "'d server_env \<Rightarrow> play_env" where
  "play_env_of E \<equiv> t_play (e_tags E)"

abbreviation fs_of :: "'d server_env \<Rightarrow> host_fs" where
  "fs_of E \<equiv> env_fs (t_play (e_tags E))"

definition send_data_int :: "nat \<Rightarrow> int \<Rightarrow> ('d, 'h, 's) server \<Rightarrow> (bool \<times> ('d, 'h, 's) server) result" where
  "send_data_int i n s =
     bindR (guardR (sock (cli i s) \<noteq> -1) Assert) (\<lambda>_.
       Inr (case send_int_to EV_DATA (sock (cli i s)) s of (ok, s) \<Rightarrow> if ok then send_int_to n (sock (cli i s)) s else (False, s)))"

definition send_data_str :: "nat \<Rightarrow> string \<Rightarrow> ('d, 'h, 's) server \<Rightarrow> (bool \<times> ('d, 'h, 's) server) result" where
  "send_data_str i str s =
     Inr (case send_int_to EV_DATA (sock (cli i s)) s of (ok, s) \<Rightarrow> if ok then send_str_to str (sock (cli i s)) s else (False, s))"

definition busy :: "int \<Rightarrow> ('d, 'h, 's) server \<Rightarrow> ('d, 'h, 's) server" where
  "busy fd s = close_fd fd (snd (send_int_to EV_BUSY fd s))"

section \<open>Playing\<close>

definition req_list_add :: "'d server_env \<Rightarrow> nat \<Rightarrow> ('d, 'h, 's) server \<Rightarrow> (bool \<times> ('d, 'h, 's) server) result" where
  "req_list_add E i s = with_read get_str i (\<lambda>f s. fine (audio_do E (audio_plist_add (play_env_of E) f) s)) s"

definition req_queue_add :: "'d server_env \<Rightarrow> nat \<Rightarrow> ('d, 'h, 's) server \<Rightarrow> (bool \<times> ('d, 'h, 's) server) result" where
  "req_queue_add E i s =
     with_read get_str i (\<lambda>f s.
       bindR (audio_do E (audio_queue_add (play_env_of E) f) s) (\<lambda>s.
         fine (add_event_all E EV_QUEUE_ADD
           (Item (plist_new_item\<lparr>i_file := Some f, i_type := file_type_of (fs_of E) f, i_mtime := get_mtime (fs_of E) f\<rparr>)) s))) s"

definition req_play :: "'d server_env \<Rightarrow> nat \<Rightarrow> ('d, 'h, 's) server \<Rightarrow> (bool \<times> ('d, 'h, 's) server) result" where
  "req_play E i s =
     with_read get_str i (\<lambda>f s. bindR (play_opts (s_opts s)) (\<lambda>opt. fine (audio_do E (audio_play (play_env_of E) opt f) s))) s"

text \<open>\<^verbatim>\<open>audio_seek\<close> and \<^verbatim>\<open>audio_jump_to\<close>: the player is asked only while it plays.\<close>

definition audio_ask :: "player_request \<Rightarrow> ('d, 'h, 's) server \<Rightarrow> ('d, 'h, 's) server" where
  "audio_ask r s =
     (if curr_playing (s_audio s) \<noteq> -1 \<and> play_state (s_audio s) = STATE_PLAY
      then s\<lparr>player_requests := player_requests s @ [r]\<rparr> else s)"

definition req_seek :: "nat \<Rightarrow> ('d, 'h, 's) server \<Rightarrow> (bool \<times> ('d, 'h, 's) server) result" where
  "req_seek i s = with_read get_int i (\<lambda>sec s. Inr (True, audio_ask (Seek sec) s)) s"

definition req_jump_to :: "nat \<Rightarrow> ('d, 'h, 's) server \<Rightarrow> (bool \<times> ('d, 'h, 's) server) result" where
  "req_jump_to i s = with_read get_int i (\<lambda>sec s. Inr (True, audio_ask (Jump_to sec) s)) s"

definition send_sname :: "nat \<Rightarrow> ('d, 'h, 's) server \<Rightarrow> (bool \<times> ('d, 'h, 's) server) result" where
  "send_sname i s = send_data_str i (or_empty (curr_playing_fname (s_audio s))) s"

section \<open>Options\<close>

definition valid_sync_option :: "string \<Rightarrow> bool" where
  "valid_sync_option name \<longleftrightarrow> strcaseeq name ''ShowStreamErrors'' \<or> strcaseeq name ''Repeat'' \<or> strcaseeq name ''Shuffle'' \<or> strcaseeq name ''AutoNext''"

definition send_option :: "nat \<Rightarrow> ('d, 'h, 's) server \<Rightarrow> (bool \<times> ('d, 'h, 's) server) result" where
  "send_option i s =
     with_read get_str i (\<lambda>name s.
       if \<not> valid_sync_option name then Inr (False, s)
       else bindR (options_get_int name (s_opts s)) (\<lambda>v. send_data_int i v s)) s"

definition get_set_option :: "'d server_env \<Rightarrow> nat \<Rightarrow> ('d, 'h, 's) server \<Rightarrow> (bool \<times> ('d, 'h, 's) server) result" where
  "get_set_option E i s =
     with_read get_str i (\<lambda>name s.
       if \<not> valid_sync_option name then Inr (False, s)
       else with_read get_int i (\<lambda>v s.
         bindR (options_set_int name v (s_opts s)) (\<lambda>t. fine (add_event_all E EV_OPTIONS No_data (s\<lparr>s_opts := t\<rparr>)))) s) s"

definition set_mixer :: "nat \<Rightarrow> ('d, 'h, 's) server \<Rightarrow> (bool \<times> ('d, 'h, 's) server) result" where
  "set_mixer i s =
     with_read get_int i (\<lambda>v s. case audio_set_mixer v (s_mixer s) (s_dev s) of (m, d) \<Rightarrow> Inr (True, s\<lparr>s_mixer := m, s_dev := d\<rparr>)) s"

section \<open>The playlist and the queue\<close>

definition delete_item :: "'d server_env \<Rightarrow> nat \<Rightarrow> ('d, 'h, 's) server \<Rightarrow> (bool \<times> ('d, 'h, 's) server) result" where
  "delete_item E i s = with_read get_str i (\<lambda>f s. fine (audio_do E (audio_plist_delete (play_env_of E) f) s)) s"

definition req_queue_del :: "'d server_env \<Rightarrow> nat \<Rightarrow> ('d, 'h, 's) server \<Rightarrow> (bool \<times> ('d, 'h, 's) server) result" where
  "req_queue_del E i s =
     with_read get_str i (\<lambda>f s. bindR (audio_do E (audio_queue_delete (play_env_of E) f) s) (\<lambda>s.
       fine (add_event_all E EV_QUEUE_DEL (Text f) s))) s"

definition find_sending_plist :: "('d, 'h, 's) server \<Rightarrow> int" where
  "find_sending_plist s = first_client (\<lambda>c. sock c \<noteq> -1 \<and> can_send_plist c) (clients s) 0"

definition get_client_plist :: "nat \<Rightarrow> ('d, 'h, 's) server \<Rightarrow> (bool \<times> ('d, 'h, 's) server) result" where
  "get_client_plist i s =
     (let s = upd_cli i (\<lambda>c. c\<lparr>requests_plist := True\<rparr>) s; first = find_sending_plist s in
      if first = -1 then send_data_int i 0 (upd_cli i (\<lambda>c. c\<lparr>requests_plist := False\<rparr>) s)
      else bindR (send_data_int i 1 s) (\<lambda>(ok, s).
        if ok then Inr (send_int_to EV_SEND_PLIST (sock (cli (nat first) s)) s) else Inr (False, s)))"

definition find_cli_requesting_plist :: "('d, 'h, 's) server \<Rightarrow> int" where
  "find_cli_requesting_plist s = first_client requests_plist (clients s) 0"

section \<open>Forwarding a playlist\<close>

text \<open>
  The loop of \<^verbatim>\<open>req_send_plist\<close> ends since each item it receives takes bytes from the socket.
\<close>

definition left :: "nat \<Rightarrow> ('d, 'h, 's) server \<Rightarrow> nat" where
  "left i s = (case open_conn (sock (cli i s)) s of None \<Rightarrow> 0 | Some c \<Rightarrow> length (inp (c_in c)))"

lemma recv_inp: "recv n c = (Some s, c') \<Longrightarrow> inp c = s @ inp c'"
  by (auto simp: recv_def Let_def split: list.splits if_splits)

lemma recv_le: "length (inp (snd (recv n c))) \<le> length (inp c)"
  by (auto simp: recv_def Let_def split: list.splits)

lemma get_int_less: "get_int c = (Some i, c') \<Longrightarrow> length (inp c') < length (inp c)"
  by (auto simp: get_int_def split: prod.splits option.splits if_splits dest!: recv_inp)

lemma get_int_le: "length (inp (snd (get_int c))) \<le> length (inp c)"
  using recv_le [of 4 c] by (auto simp: get_int_def split: prod.splits option.splits)

lemma get_time_le: "length (inp (snd (get_time c))) \<le> length (inp c)"
  using recv_le [of 8 c] by (auto simp: get_time_def split: prod.splits option.splits)

lemma get_str_loop_le: "length (inp (snd (get_str_loop n str c))) \<le> length (inp c)"
proof (induction n str c rule: get_str_loop.induct)
  case (1 n str c)
  obtain r c1 where r: "recv (n - length str) c = (r, c1)" by fastforce
  then have "length (inp c1) \<le> length (inp c)" using recv_le [of "n - length str" c] by simp
  then show ?case using 1 r by (subst get_str_loop.simps) (fastforce split: option.split)
qed

lemma get_str_less: "get_str c = (Some x, c') \<Longrightarrow> length (inp c') < length (inp c)"
proof -
  assume a: "get_str c = (Some x, c')"
  then obtain n c1 where n: "get_int c = (Some n, c1)" by (auto simp: get_str_def split: prod.splits option.splits)
  have "length (inp c') \<le> length (inp c1)"
    using a n get_str_loop_le [of "nat n" "[]" c1] by (auto simp: get_str_def split: prod.splits if_splits)
  then show ?thesis using get_int_less [OF n] by simp
qed

lemma get_str_le: "length (inp (snd (get_str c))) \<le> length (inp c)"
proof -
  obtain r c1 where r: "get_int c = (r, c1)" by fastforce
  then have "length (inp c1) \<le> length (inp c)" using get_int_le [of c] by simp
  then show ?thesis using r get_str_loop_le [of _ "[]" c1]
    by (auto simp: get_str_def split: prod.splits option.splits) (metis order_trans snd_conv)+
qed

lemma then_get_le:
  "length (inp (snd m)) \<le> L \<Longrightarrow> (\<And>x c. length (inp c) \<le> L \<Longrightarrow> length (inp (snd (k x c))) \<le> L) \<Longrightarrow> length (inp (snd (then_get m k))) \<le> L"
  by (auto simp: then_get_def split: prod.splits option.splits)

lemma recv_tags_le: "length (inp (snd (recv_tags c))) \<le> length (inp c)"
  unfolding recv_tags_def
  by (intro then_get_le order_trans [OF get_str_le] order_trans [OF get_int_le]) auto

lemma recv_item_less: "recv_item fs c = (Some x, c') \<Longrightarrow> length (inp c') < length (inp c)"
proof -
  assume a: "recv_item fs c = (Some x, c')"
  then obtain f c1 where f: "get_str c = (Some f, c1)" by (auto simp: recv_item_def then_get_def split: prod.splits option.splits)
  let ?k = "then_get (get_str c1) (\<lambda>tt c. then_get (recv_tags c) (\<lambda>tags c. then_get (get_time c) (\<lambda>t c.
         (Some (plist_new_item\<lparr>i_file := Some f, i_type := file_type_of fs f, i_title_tags := non_empty tt,
            i_tags := Some tags, i_mtime := t\<rparr>), c))))"
  have "length (inp (snd ?k)) \<le> length (inp c1)"
    by (intro then_get_le order_trans [OF get_str_le] order_trans [OF recv_tags_le] order_trans [OF get_time_le]) auto
  then have "length (inp c') \<le> length (inp c1)" using a f by (auto simp: recv_item_def then_get_def [of "(Some f, c1)"] split: if_splits)
  then show ?thesis using get_str_less [OF f] by simp
qed

lemma cli_upd: "cli i (upd_cli j f s) = (if i = j \<and> j < length (clients s) then f (cli j s) else cli i s)"
  by (cases "j < length (clients s)") (auto simp: cli_def upd_cli_def nth_list_update_neq list_update_beyond)

lemma open_conn_set: "open_conn fd (set_conn fd' c s) = (if fd = fd' then if 0 \<le> fd \<and> c_open c then Some c else None else open_conn fd s)"
  by (auto simp: open_conn_def set_conn_def)

lemma open_conn_SomeD: "open_conn fd s = Some c \<Longrightarrow> 0 \<le> fd \<and> c_open c"
  by (auto simp: open_conn_def split: if_splits option.splits)

lemma cli_set_conn [simp]: "cli i (set_conn fd c s) = cli i s"
  by (simp add: cli_def set_conn_def)

lemma open_conn_upd [simp]: "open_conn fd (upd_cli i f s) = open_conn fd s"
  by (simp add: open_conn_def upd_cli_def)

lemma left_send_bytes: "left i (snd (send_bytes b fd s)) = left i s"
  by (auto simp: send_bytes_def left_def open_conn_set split: option.split prod.split dest: open_conn_SomeD)

lemma left_close: "left i (close_fd fd s) \<le> left i s"
  by (auto simp: close_fd_def left_def open_conn_set split: option.split)

lemma left_clear_tags: "clear_tags_queue j s = Inr s' \<Longrightarrow> left i s' = left i s"
  by (auto simp: clear_tags_queue_def bindR_eq_Inr left_def cli_def open_conn_def)

lemma open_conn_none [simp]: "open_conn (-1) s = None"
  by (simp add: open_conn_def)

lemma left_upd: "left i (upd_cli j (\<lambda>c. c\<lparr>events := q\<rparr>) s) = left i s" "left i (upd_cli j (\<lambda>c. c\<lparr>sock := -1\<rparr>) s) \<le> left i s"
  by (auto simp: left_def cli_upd)

lemma left_del: "del_client j s = Inr s' \<Longrightarrow> left i s' \<le> left i s"
  by (auto simp: del_client_def Let_def bindR_eq_Inr left_upd dest!: left_clear_tags [where i = i])

definition drop_requesting :: "nat \<Rightarrow> int \<Rightarrow> ('d, 'h, 's) server \<Rightarrow> ('d, 'h, 's) server result" where
  "drop_requesting r fd s = del_client r (close_fd fd s)"

text \<open>Sending to the client that asked for the playlist; when it fails that client is dropped.\<close>

definition relay_one :: "nat \<Rightarrow> int \<Rightarrow> plist_item \<Rightarrow> ('d, 'h, 's) server \<Rightarrow> (int \<times> ('d, 'h, 's) server) result" where
  "relay_one r send_fd x s =
     (if send_fd \<noteq> -1 then
        bindR (send_item_to (Some x) send_fd s) (\<lambda>(ok, s).
          if ok then Inr (send_fd, s) else bindR (drop_requesting r send_fd s) (\<lambda>s. Inr (-1, s)))
      else Inr (-1, s))"

lemma left_drop: "drop_requesting r fd s = Inr s' \<Longrightarrow> left i s' \<le> left i s"
  using left_close [of i fd s] left_del [of r "close_fd fd s" s' i] by (simp add: drop_requesting_def)

lemma left_send_item: "send_item_to (Some x) fd s = Inr (ok, s') \<Longrightarrow> left i s' = left i s"
  using left_send_bytes [of i _ fd s] by (auto simp: send_item_to_def bindR_eq_Inr) (metis snd_conv)

lemma left_relay:
  assumes "relay_one r fd x s = Inr (fd', s')"
  shows "left i s' \<le> left i s"
proof (cases "fd = -1")
  case False
  then obtain ok s1 where s1: "send_item_to (Some x) fd s = Inr (ok, s1)" using assms by (auto simp: relay_one_def bindR_eq_Inr)
  then show ?thesis using False assms left_send_item [OF s1, of i] left_drop [of r fd s1 s' i]
    by (auto simp: relay_one_def bindR_eq_Inr split: if_splits)
qed (use assms in \<open>simp add: relay_one_def\<close>)

lemma left_read:
  assumes "read_from (recv_item fs) (sock (cli i s)) s = (Some x, s')"
  shows "left i s' < left i s"
proof -
  from assms obtain c ch where c: "open_conn (sock (cli i s)) s = Some c" "recv_item fs (c_in c) = (Some x, ch)"
    "s' = set_conn (sock (cli i s)) (c\<lparr>c_in := ch\<rparr>) s" by (auto simp: read_from_def split: option.splits prod.splits)
  then show ?thesis using recv_item_less [OF c(2)] open_conn_SomeD [OF c(1)] by (simp add: left_def open_conn_set)
qed

function relay_loop :: "host_fs \<Rightarrow> nat \<Rightarrow> nat \<Rightarrow> int \<Rightarrow> ('d, 'h, 's) server \<Rightarrow> (bool \<times> int \<times> ('d, 'h, 's) server) result" where
  "relay_loop fs i r send_fd s =
     (case read_from (recv_item fs) (sock (cli i s)) s of
        (None, s) \<Rightarrow> Inr (False, send_fd, s)
      | (Some x, s) \<Rightarrow>
          if or_empty (i_file x) = [] then Inr (True, send_fd, s)
          else bindR (relay_one r send_fd x s) (\<lambda>p. relay_loop fs i r (fst p) (snd p)))"
  by pat_completeness auto

termination
proof (relation "measure (\<lambda>(fs, i, r, fd, s). left i s)", goal_cases)
  case (2 fs i r fd s x y a p')
  have "left i y < left i s" using left_read [of fs i s a y] 2 by simp
  moreover have "left i (snd p') \<le> left i y" using left_relay [of r fd a y "fst p'" "snd p'" i] 2 by simp
  ultimately show ?case by (simp add: split_beta)
qed simp

declare relay_loop.simps [simp del]

text \<open>The first number for the client that asked; with no such client, or when it fails, the descriptor is -1.\<close>

definition relay_int :: "nat \<Rightarrow> int \<Rightarrow> int \<Rightarrow> ('d, 'h, 's) server \<Rightarrow> (int \<times> ('d, 'h, 's) server) result" where
  "relay_int r send_fd n s =
     (case send_int_to n send_fd s of (ok, s) \<Rightarrow>
        if ok then Inr (send_fd, s) else bindR (drop_requesting r send_fd s) (\<lambda>s. Inr (-1, s)))"

definition req_send_plist :: "'d server_env \<Rightarrow> nat \<Rightarrow> ('d, 'h, 's) server \<Rightarrow> (bool \<times> ('d, 'h, 's) server) result" where
  "req_send_plist E i s =
     (let requesting = find_cli_requesting_plist s; r = nat requesting in
      bindR (if requesting = -1 then Inr (-1, s) else relay_int r (sock (cli r s)) EV_DATA s) (\<lambda>(send_fd, s).
        with_read get_int i (\<lambda>serial s.
          bindR (if send_fd \<noteq> -1 then relay_int r send_fd serial s else Inr (-1, s)) (\<lambda>(send_fd, s).
          bindR (relay_loop (env_fs (t_play (e_tags E))) i r send_fd s) (\<lambda>(item, send_fd, s).
          bindR (if send_fd \<noteq> -1 then send_item_to None send_fd s else Inr (True, s)) (\<lambda>(ok, s).
            if \<not> ok then bindR (drop_requesting r send_fd s) (\<lambda>s. Inr (False, s))
            else Inr (item, if requesting \<noteq> -1 then upd_cli r (\<lambda>c. c\<lparr>requests_plist := False\<rparr>) s else s))))) s))"

section \<open>Sending the queue\<close>

text \<open>The items that are sent; the first that fails ends the loop.\<close>

fun send_queue_items :: "plist \<Rightarrow> nat list \<Rightarrow> int \<Rightarrow> ('d, 'h, 's) server \<Rightarrow> (bool \<times> ('d, 'h, 's) server) result" where
  "send_queue_items q [] fd s = Inr (True, s)"
| "send_queue_items q (k # ks) fd s =
     bindR (plist_deleted q (int k)) (\<lambda>del.
       if del then send_queue_items q ks fd s
       else bindR (item_at q (int k)) (\<lambda>x. bindR (send_item_to (Some x) fd s) (\<lambda>(ok, s).
         if ok then send_queue_items q ks fd s else Inr (False, s))))"

definition req_send_queue :: "'d server_env \<Rightarrow> nat \<Rightarrow> ('d, 'h, 's) server \<Rightarrow> (bool \<times> ('d, 'h, 's) server) result" where
  "req_send_queue E i s =
     (case send_int_to EV_DATA (sock (cli i s)) s of (ok, s) \<Rightarrow>
        if \<not> ok then bindR (disconnect i s) (\<lambda>s. Inr (False, s))
        else
          bindR (audio_queue_get_contents (play_env_of E) (s_audio s)) (\<lambda>q.
          bindR (send_queue_items q [0..<num q] (sock (cli i s)) s) (\<lambda>(ok, s).
            if \<not> ok then bindR (disconnect i s) (\<lambda>s. Inr (False, s))
            else bindR (send_item_to None (sock (cli i s)) s) (\<lambda>(ok, s).
              if \<not> ok then bindR (disconnect i s) (\<lambda>s. Inr (False, s)) else Inr (True, s)))))"

section \<open>Keeping the playlists of the clients alike\<close>

definition plist_sync_cmd :: "'d server_env \<Rightarrow> nat \<Rightarrow> int \<Rightarrow> ('d, 'h, 's) server \<Rightarrow> (bool \<times> ('d, 'h, 's) server) result" where
  "plist_sync_cmd E i cmd s =
     (if cmd = CMD_CLI_PLIST_ADD then
        with_read (recv_item (fs_of E)) i (\<lambda>x s. fine (add_event_all E EV_PLIST_ADD (Item x) s)) s
      else if cmd = CMD_CLI_PLIST_DEL then
        with_read get_str i (\<lambda>f s. fine (add_event_all E EV_PLIST_DEL (Text f) s)) s
      else if cmd = CMD_CLI_PLIST_MOVE then
        with_read get_str i (\<lambda>f s. with_read get_str i (\<lambda>t s. fine (add_event_all E EV_PLIST_MOVE (Move f t) s)) s) s
      else fine (add_event_all E EV_PLIST_CLEAR No_data s))"

definition req_plist_get_serial :: "nat \<Rightarrow> ('d, 'h, 's) server \<Rightarrow> (bool \<times> ('d, 'h, 's) server) result" where
  "req_plist_get_serial i s = send_data_int i (audio_plist_get_serial (s_audio s)) s"

definition req_plist_set_serial :: "nat \<Rightarrow> ('d, 'h, 's) server \<Rightarrow> (bool \<times> ('d, 'h, 's) server) result" where
  "req_plist_set_serial i s =
     with_read get_int i (\<lambda>n s.
       if n < 0 then Inr (False, s) else Inr (True, s\<lparr>s_audio := audio_plist_set_serial n (s_audio s)\<rparr>)) s"

text \<open>The loop of \<^verbatim>\<open>gen_serial\<close> with a bound on its rounds; two are enough.\<close>

fun serial_loop :: "nat \<Rightarrow> int \<Rightarrow> int \<Rightarrow> int \<Rightarrow> (int \<times> int) option" where
  "serial_loop 0 index used sd = None"
| "serial_loop (Suc k) index used sd =
     (let serial = push_bit 8 sd OR index; sd = (sd + 1) AND 0xFF in
      if serial = used then serial_loop k index used sd else Some (serial, sd))"

definition gen_serial :: "nat \<Rightarrow> ('d, 'h, 's) server \<Rightarrow> (int \<times> ('d, 'h, 's) server) result" where
  "gen_serial i s =
     (case serial_loop 2 (client_index i s) (audio_plist_get_serial (s_audio s)) (seed s) of
        None \<Rightarrow> Inl Undefined | Some (n, sd) \<Rightarrow> Inr (n, s\<lparr>seed := sd\<rparr>))"

definition send_serial :: "nat \<Rightarrow> ('d, 'h, 's) server \<Rightarrow> (bool \<times> ('d, 'h, 's) server) result" where
  "send_serial i s = bindR (gen_serial i s) (\<lambda>(n, s). send_data_int i n s)"

section \<open>Tags\<close>

definition req_get_tags :: "nat \<Rightarrow> ('d, 'h, 's) server \<Rightarrow> (bool \<times> ('d, 'h, 's) server) result" where
  "req_get_tags i s =
     (case send_int_to EV_DATA (sock (cli i s)) s of (ok, s) \<Rightarrow>
        if ok then send_tags_to (curr_tags s) (sock (cli i s)) s else Inr (False, s))"

definition get_file_tags :: "'d server_env \<Rightarrow> nat \<Rightarrow> ('d, 'h, 's) server \<Rightarrow> (bool \<times> ('d, 'h, 's) server) result" where
  "get_file_tags E i s =
     with_read get_str i (\<lambda>f s. with_read get_int i (\<lambda>sel s.
       bindR (tags_cache_add_request (e_tags E) f sel (int i) (s_tags s)) (\<lambda>(t, c).
         let s = s\<lparr>s_tags := c\<rparr> in
         fine (case t of None \<Rightarrow> Inr s | Some t \<Rightarrow> tags_response (int i) f t s))) s) s"

definition abort_tags_requests :: "nat \<Rightarrow> ('d, 'h, 's) server \<Rightarrow> (bool \<times> ('d, 'h, 's) server) result" where
  "abort_tags_requests i s =
     with_read get_str i (\<lambda>f s. bindR (tags_cache_clear_up_to f (int i) (s_tags s)) (\<lambda>c. Inr (True, s\<lparr>s_tags := c\<rparr>))) s"

section \<open>Mixer and equalizer\<close>

definition req_get_mixer_channel_name :: "nat \<Rightarrow> ('d, 'h, 's) server \<Rightarrow> (bool \<times> ('d, 'h, 's) server) result" where
  "req_get_mixer_channel_name i s = send_data_str i (or_empty (audio_get_mixer_channel_name (s_mixer s) (s_dev s))) s"

definition req_toggle_mixer_channel :: "'d server_env \<Rightarrow> ('d, 'h, 's) server \<Rightarrow> ('d, 'h, 's) server result" where
  "req_toggle_mixer_channel E s = add_event_all E EV_MIXER_CHANGE No_data (s\<lparr>s_dev := audio_toggle_mixer_channel (s_dev s)\<rparr>)"

definition req_toggle_softmixer :: "'d server_env \<Rightarrow> ('d, 'h, 's) server \<Rightarrow> ('d, 'h, 's) server result" where
  "req_toggle_softmixer E s =
     add_event_all E EV_MIXER_CHANGE No_data (s\<lparr>s_mixer := softmixer_set_active (of_bool (\<not> softmixer_is_active (s_mixer s))) (s_mixer s)\<rparr>)"

text \<open>The name must fit into a buffer of 27 bytes.\<close>

definition update_eq_name :: "'d server_env \<Rightarrow> ('d, 'h, 's) server \<Rightarrow> ('d, 'h, 's) server result" where
  "update_eq_name E s =
     (let n = equalizer_current_eqname (s_eq s); n = (if length n > 14 then take 11 n @ ''...'' else n)
      in bindR (guardR (length (''EQ set to: '' @ n) < 27) Undefined) (\<lambda>_. status_msg E (''EQ set to: '' @ n) s))"

definition req_toggle_equalizer :: "'d server_env \<Rightarrow> ('d, 'h, 's) server \<Rightarrow> ('d, 'h, 's) server result" where
  "req_toggle_equalizer E s = update_eq_name E (s\<lparr>s_eq := equalizer_set_active (\<not> equalizer_is_active (s_eq s)) (s_eq s)\<rparr>)"

text \<open>An operation of the equalizer that does not return stops the server; it is modelled as a fault.\<close>

definition with_eq :: "equalizer option \<Rightarrow> (('d, 'h, 's) server \<Rightarrow> ('d, 'h, 's) server result) \<Rightarrow> ('d, 'h, 's) server \<Rightarrow> ('d, 'h, 's) server result" where
  "with_eq e k s = (case e of None \<Rightarrow> Inl Undefined | Some e \<Rightarrow> k (s\<lparr>s_eq := e\<rparr>))"

definition req_equalizer_refresh :: "'d server_env \<Rightarrow> ('d, 'h, 's) server \<Rightarrow> ('d, 'h, 's) server result" where
  "req_equalizer_refresh E s =
     bindR (equalizer_refresh (e_libm E) (e_presets E) (s_eq s)) (\<lambda>e. with_eq e (status_msg E ''Equalizer refreshed'') s)"

definition req_equalizer_prev :: "'d server_env \<Rightarrow> ('d, 'h, 's) server \<Rightarrow> ('d, 'h, 's) server result" where
  "req_equalizer_prev E s = with_eq (equalizer_prev (e_libm E) (s_eq s)) (update_eq_name E) s"

definition req_equalizer_next :: "'d server_env \<Rightarrow> ('d, 'h, 's) server \<Rightarrow> ('d, 'h, 's) server result" where
  "req_equalizer_next E s = with_eq (equalizer_next (e_libm E) (s_eq s)) (update_eq_name E) s"

definition req_toggle_make_mono :: "'d server_env \<Rightarrow> ('d, 'h, 's) server \<Rightarrow> ('d, 'h, 's) server result" where
  "req_toggle_make_mono E s =
     (let m = softmixer_set_mono (of_bool (\<not> softmixer_is_mono (s_mixer s))) (s_mixer s)
      in status_msg E (''Mono-Mixing set to: '' @ (if softmixer_is_mono m then ''on'' else ''off'')) (s\<lparr>s_mixer := m\<rparr>))"

section \<open>Moving items\<close>

definition req_list_move :: "'d server_env \<Rightarrow> nat \<Rightarrow> ('d, 'h, 's) server \<Rightarrow> (bool \<times> ('d, 'h, 's) server) result" where
  "req_list_move E i s =
     with_read get_str i (\<lambda>f s. with_read get_str i (\<lambda>t s. fine (audio_do E (audio_plist_move (play_env_of E) f t) s)) s) s"

definition req_queue_move :: "'d server_env \<Rightarrow> nat \<Rightarrow> ('d, 'h, 's) server \<Rightarrow> (bool \<times> ('d, 'h, 's) server) result" where
  "req_queue_move E i s =
     with_read get_str i (\<lambda>f s. with_read get_str i (\<lambda>t s.
       bindR (audio_do E (audio_queue_move (play_env_of E) f t) s) (\<lambda>s. fine (add_event_all E EV_QUEUE_MOVE (Move f t) s))) s) s"

section \<open>The commands\<close>

definition execute :: "'d server_env \<Rightarrow> nat \<Rightarrow> int \<Rightarrow> ('d, 'h, 's) server \<Rightarrow> (bool \<times> ('d, 'h, 's) server) result" where
  "execute E i cmd s =
     (if cmd = CMD_QUIT then Inr (True, s\<lparr>server_quit := True\<rparr>)
      else if cmd = CMD_LIST_CLEAR then fine (audio_do E (\<lambda>a. Inr (audio_plist_clear a)) s)
      else if cmd = CMD_LIST_ADD then req_list_add E i s
      else if cmd = CMD_PLAY then req_play E i s
      else if cmd = CMD_DISCONNECT then fine (disconnect i s)
      else if cmd = CMD_PAUSE then fine (audio_do E (audio_pause (play_env_of E)) s)
      else if cmd = CMD_UNPAUSE then bindR (play_opts (s_opts s)) (\<lambda>opt. fine (audio_do E (audio_unpause (play_env_of E) opt) s))
      else if cmd = CMD_STOP then fine (audio_do E (\<lambda>a. Inr (audio_stop a)) s)
      else if cmd = CMD_GET_CTIME then bindR (audio_get_time (s_audio s) (s_out s) (s_dev s)) (\<lambda>t. send_data_int i (max 0 t) s)
      else if cmd = CMD_SEEK then req_seek i s
      else if cmd = CMD_JUMP_TO then req_jump_to i s
      else if cmd = CMD_GET_SNAME then send_sname i s
      else if cmd = CMD_GET_STATE then send_data_int i (play_state (s_audio s)) s
      else if cmd = CMD_GET_BITRATE then send_data_int i (bitrate (s_info s)) s
      else if cmd = CMD_GET_AVG_BITRATE then send_data_int i (avg_bitrate (s_info s)) s
      else if cmd = CMD_GET_RATE then send_data_int i (rate (s_info s)) s
      else if cmd = CMD_GET_CHANNELS then send_data_int i (channels (s_info s)) s
      else if cmd = CMD_NEXT then fine (audio_do E (\<lambda>a. Inr (audio_next a)) s)
      else if cmd = CMD_PREV then fine (audio_do E (\<lambda>a. Inr (audio_prev a)) s)
      else if cmd = CMD_PING then Inr (send_int_to EV_PONG (sock (cli i s)) s)
      else if cmd = CMD_GET_OPTION then send_option i s
      else if cmd = CMD_SET_OPTION then get_set_option E i s
      else if cmd = CMD_GET_MIXER then send_data_int i (audio_get_mixer (s_mixer s) (s_dev s)) s
      else if cmd = CMD_SET_MIXER then set_mixer i s
      else if cmd = CMD_DELETE then delete_item E i s
      else if cmd = CMD_SEND_PLIST_EVENTS then Inr (True, upd_cli i (\<lambda>c. c\<lparr>wants_plist_events := True\<rparr>) s)
      else if cmd = CMD_GET_PLIST then get_client_plist i s
      else if cmd = CMD_SEND_PLIST then req_send_plist E i s
      else if cmd = CMD_CAN_SEND_PLIST then Inr (True, upd_cli i (\<lambda>c. c\<lparr>can_send_plist := True\<rparr>) s)
      else if cmd \<in> {CMD_CLI_PLIST_ADD, CMD_CLI_PLIST_DEL, CMD_CLI_PLIST_CLEAR, CMD_CLI_PLIST_MOVE} then plist_sync_cmd E i cmd s
      else if cmd = CMD_LOCK then client_lock i s
      else if cmd = CMD_UNLOCK then Inr (client_unlock i s)
      else if cmd = CMD_GET_SERIAL then send_serial i s
      else if cmd = CMD_PLIST_GET_SERIAL then req_plist_get_serial i s
      else if cmd = CMD_PLIST_SET_SERIAL then req_plist_set_serial i s
      else if cmd = CMD_GET_TAGS then req_get_tags i s
      else if cmd = CMD_TOGGLE_MIXER_CHANNEL then fine (req_toggle_mixer_channel E s)
      else if cmd = CMD_TOGGLE_SOFTMIXER then fine (req_toggle_softmixer E s)
      else if cmd = CMD_GET_MIXER_CHANNEL_NAME then req_get_mixer_channel_name i s
      else if cmd = CMD_GET_FILE_TAGS then get_file_tags E i s
      else if cmd = CMD_ABORT_TAGS_REQUESTS then abort_tags_requests i s
      else if cmd = CMD_LIST_MOVE then req_list_move E i s
      else if cmd = CMD_TOGGLE_EQUALIZER then fine (req_toggle_equalizer E s)
      else if cmd = CMD_EQUALIZER_REFRESH then fine (req_equalizer_refresh E s)
      else if cmd = CMD_EQUALIZER_PREV then fine (req_equalizer_prev E s)
      else if cmd = CMD_EQUALIZER_NEXT then fine (req_equalizer_next E s)
      else if cmd = CMD_TOGGLE_MAKE_MONO then fine (req_toggle_make_mono E s)
      else if cmd = CMD_QUEUE_ADD then req_queue_add E i s
      else if cmd = CMD_QUEUE_DEL then req_queue_del E i s
      else if cmd = CMD_QUEUE_CLEAR then bindR (audio_do E (\<lambda>a. Inr (audio_queue_clear a)) s) (\<lambda>s. fine (add_event_all E EV_QUEUE_CLEAR No_data s))
      else if cmd = CMD_QUEUE_MOVE then req_queue_move E i s
      else if cmd = CMD_GET_QUEUE then req_send_queue E i s
      else Inr (False, s))"

definition handle_command :: "'d server_env \<Rightarrow> nat \<Rightarrow> ('d, 'h, 's) server \<Rightarrow> ('d, 'h, 's) server result" where
  "handle_command E i s =
     (case read_from get_int (sock (cli i s)) s of
        (None, s) \<Rightarrow> disconnect i s
      | (Some cmd, s) \<Rightarrow> bindR (execute E i cmd s) (\<lambda>(ok, s). if ok then Inr s else disconnect i s))"

section \<open>The main loop\<close>

definition add_clients_fds :: "('d, 'h, 's) server \<Rightarrow> int list \<times> int list" where
  "add_clients_fds s =
     (let live = filter (\<lambda>i. sock (cli i s) \<noteq> -1) [0..<CLIENTS_MAX] in
      (map (\<lambda>i. sock (cli i s)) (filter (\<lambda>i. locking_client s = -1 \<or> is_locking i s) live),
       map (\<lambda>i. sock (cli i s)) (filter (\<lambda>i. \<not> event_queue_empty (events (cli i s))) live)))"

definition max_fd :: "int \<Rightarrow> int \<Rightarrow> ('d, 'h, 's) server \<Rightarrow> int" where
  "max_fd wake_up_pipe mx s = foldl (\<lambda>m c. if sock c > m then sock c else m) (if wake_up_pipe > mx then wake_up_pipe else mx) (clients s)"

definition handle_client :: "'d server_env \<Rightarrow> int list \<Rightarrow> nat \<Rightarrow> ('d, 'h, 's) server \<Rightarrow> ('d, 'h, 's) server result" where
  "handle_client E fds i s =
     (if sock (cli i s) \<noteq> -1 \<and> sock (cli i s) \<in> set fds
      then if locking_client s = -1 \<or> is_locking i s then handle_command E i s else Inr s
      else Inr s)"

definition handle_clients :: "'d server_env \<Rightarrow> int list \<Rightarrow> ('d, 'h, 's) server \<Rightarrow> ('d, 'h, 's) server result" where
  "handle_clients E fds s = foldR (handle_client E fds) [0..<CLIENTS_MAX] s"

definition close_clients :: "('d, 'h, 's) server \<Rightarrow> ('d, 'h, 's) server result" where
  "close_clients s =
     foldR (\<lambda>i s. if sock (cli i s) \<noteq> -1 then disconnect i (snd (send_int_to EV_EXIT (sock (cli i s)) s)) else Inr s) [0..<CLIENTS_MAX] s"

text \<open>
  What happens in one round: how \<^verbatim>\<open>select\<close> ends, a new connection (or \<open>None\<close> when \<^verbatim>\<open>accept\<close> fails),
  and the descriptors that are ready, of those that \<^verbatim>\<open>select\<close> was asked for.
\<close>

datatype select_result = Selected | Interrupted | Select_failed

record io =
  io_select :: select_result
  io_accept :: "(int \<times> conn) option option"
  io_woken :: bool
  io_read :: "int list"
  io_write :: "int list"

definition accept_client :: "(int \<times> conn) option option \<Rightarrow> ('d, 'h, 's) server \<Rightarrow> ('d, 'h, 's) server result" where
  "accept_client a s =
     (case a of
        None \<Rightarrow> Inr s
      | Some None \<Rightarrow> fatal
      | Some (Some (fd, c)) \<Rightarrow> bindR (add_client fd (set_conn fd c s)) (\<lambda>(ok, s). Inr (if ok then s else busy fd s)))"

definition server_round :: "'d server_env \<Rightarrow> io \<Rightarrow> ('d, 'h, 's) server \<Rightarrow> ('d, 'h, 's) server result" where
  "server_round E w s =
     (case add_clients_fds s of (fds_read, fds_write) \<Rightarrow>
        if server_quit s then Inr s
        else case io_select w of
          Select_failed \<Rightarrow> fatal
        | Interrupted \<Rightarrow> Inr s
        | Selected \<Rightarrow>
            bindR (accept_client (io_accept w) s) (\<lambda>s.
            let s = (if io_woken w then s\<lparr>wake_ups := wake_ups s - 1\<rparr> else s) in
            bindR (send_events (filter (\<lambda>fd. fd \<in> set fds_write) (io_write w)) s)
              (handle_clients E (filter (\<lambda>fd. fd \<in> set fds_read) (io_read w)))))"

text \<open>The end: playing stops, the device is released and the cache is closed.\<close>

definition server_shutdown :: "'d server_env \<Rightarrow> ('d, 'h, 's) server \<Rightarrow> ('d, 'h, 's) server result" where
  "server_shutdown E s =
     bindR (audio_do E (\<lambda>a. Inr (audio_stop a)) s) (\<lambda>s.
     bindR (tags_cache_destroy (s_tags s)) (\<lambda>c. Inr (s\<lparr>s_tags := c, s_dev := audio_shutdown_device (s_dev s)\<rparr>)))"

text \<open>The loop, for the rounds that are given; the result is whether it has ended.\<close>

fun server_loop :: "'d server_env \<Rightarrow> io list \<Rightarrow> ('d, 'h, 's) server \<Rightarrow> (bool \<times> ('d, 'h, 's) server) result" where
  "server_loop E [] s = Inr (False, s)"
| "server_loop E (w # ws) s =
     bindR (server_round E w s) (\<lambda>s.
       if server_quit s then
         bindR (close_clients s) (\<lambda>s. bindR (server_shutdown E (clients_cleanup s)) (\<lambda>s. Inr (True, s)))
       else server_loop E ws s)"

text \<open>The static variables at the start.\<close>

definition server_start ::
  "('h, 's) audio_dev \<Rightarrow> byte out_buf \<Rightarrow> softmixer \<Rightarrow> equalizer \<Rightarrow> options \<Rightarrow> 'd tags_cache \<Rightarrow> ('d, 'h, 's) server" where
  "server_start dev out m e opts tags =
     \<lparr>clients = clients_init (replicate CLIENTS_MAX static_client), net = Map.empty, wake_ups = 0, server_quit = False,
      s_info = \<lparr>avg_bitrate = -1, bitrate = -1, rate = -1, channels = -1\<rparr>, seed = 0, s_audio = audio_initialize, s_dev = dev, s_out = out,
      s_mixer = m, s_eq = e, s_tags = tags, s_opts = opts, curr_tags = None, player_requests = [], last_file = None, song_command = None,
      commands = []\<rparr>"

end
