(* ===== verification/Server_Inv.thy ===== *)
theory Server_Inv
  imports Server Tags_Cache_Spec
begin

unbundle bit_operations_syntax

text \<open>
  What every step of the server keeps: the event queues and the queues of tag requests are well
  formed, every queued event has the data its type asks for, the table of clients keeps its size, and no operation but
  the commands for it touches the lock or gives a slot another socket. The rules are stated for results of handlers, so that a
  handler is checked by the structure of its definition.
\<close>

section \<open>The cache of tags\<close>

definition tags_ok :: "'d tags_cache \<Rightarrow> bool" where
  "tags_ok c \<longleftrightarrow> length (queues c) = CLIENTS_MAX \<and> (\<forall>q\<in>set (queues c). queue_inv q)"

lemma sync_queues: "tags_cache_sync E c = Inr c' \<Longrightarrow> queues c' = queues c"
  by (auto simp: tags_cache_sync_def bindR_eq_Inr split: if_splits)

lemma gc_queues: "tags_cache_gc E c = Inr c' \<Longrightarrow> queues c' = queues c"
  by (auto simp: tags_cache_gc_def tags_cache_remove_rec_def bindR_eq_Inr split: option.splits if_splits prod.splits)

lemma add_queues: "tags_cache_add E f t c = Inr c' \<Longrightarrow> queues c' = queues c"
  by (auto simp: tags_cache_add_def bindR_eq_Inr dest!: sync_queues gc_queues)

lemma locked_read_queues: "locked_read_add E a f n i c = Inr (t, c') \<Longrightarrow> queues c' = queues c"
  by (auto simp: locked_read_add_def Let_def bindR_eq_Inr dest!: add_queues split: option.splits db_answer.splits if_splits)

lemma lock_queues: "with_db_lock E f g c = Inr (x, c') \<Longrightarrow> (\<And>y d. g c = Inr (y, d) \<Longrightarrow> queues d = queues c) \<Longrightarrow> queues c' = queues c"
  by (auto simp: with_db_lock_def bindR_eq_Inr split: option.splits if_splits)

lemma read_add_queues: "tags_cache_read_add E a f n i c = Inr (t, c') \<Longrightarrow> queues c' = queues c"
  by (auto simp: tags_cache_read_add_def bindR_eq_Inr split: if_splits intro: lock_queues locked_read_queues)

lemma get_immediate_queues: "tags_cache_get_immediate E a f n c = Inr (t, c') \<Longrightarrow> queues c' = queues c"
  by (auto simp: tags_cache_get_immediate_def split: if_splits intro: read_add_queues)

lemma locked_request_queues: "locked_add_request E f n c = Inr (t, c') \<Longrightarrow> queues c' = queues c"
  by (auto simp: locked_add_request_def bindR_eq_Inr split: option.splits db_answer.splits if_splits)

lemma on_queue_ok:
  assumes "tags_ok c" and "on_queue i f c = Inr c'" and "\<And>q q'. queue_inv q \<Longrightarrow> f q = Inr q' \<Longrightarrow> queue_inv q'"
  shows "tags_ok c'"
proof -
  from assms(1,2) obtain q where q: "f (queues c ! nat i) = Inr q" "c' = c\<lparr>queues := (queues c)[nat i := q]\<rparr>" "nat i < length (queues c)"
    by (auto simp: on_queue_def tags_ok_def bindR_eq_Inr arr_get_eq_Inr arr_set_eq_Inr nat_less_iff split: if_splits)
  then have "queue_inv q" using assms(1) by (intro assms(3) [OF _ q(1)]) (simp add: tags_ok_def)
  then show ?thesis using assms(1) q(2) by (auto simp: tags_ok_def dest!: set_update_subset_insert [THEN subsetD])
qed

lemma request_clear_inv: "queue_inv q \<Longrightarrow> request_queue_clear q = Inr q' \<Longrightarrow> queue_inv q'"
  using request_queue_clear_ok [of q] by fastforce

lemma request_up_to_inv: "queue_inv q \<Longrightarrow> request_queue_clear_up_to f q = Inr q' \<Longrightarrow> queue_inv q'"
  using request_queue_clear_up_to_ok [of q f] by fastforce

lemma request_add_inv: "queue_inv q \<Longrightarrow> request_queue_add f n q = Inr q' \<Longrightarrow> queue_inv q'"
  using request_queue_add_ok [of q f n] by fastforce

lemma clear_queue_tags: "tags_ok c \<Longrightarrow> tags_cache_clear_queue i c = Inr c' \<Longrightarrow> tags_ok c'"
  unfolding tags_cache_clear_queue_def by (erule on_queue_ok) (auto intro: request_clear_inv)

lemma clear_queue_total: "tags_ok c \<Longrightarrow> 0 \<le> i \<Longrightarrow> i < int CLIENTS_MAX \<Longrightarrow> \<exists>c'. tags_cache_clear_queue i c = Inr c'"
  using request_queue_clear_ok [of "queues c ! nat i"]
  by (auto simp: tags_cache_clear_queue_def on_queue_def tags_ok_def nat_less_iff) fastforce

lemma clear_up_to_tags: "tags_ok c \<Longrightarrow> tags_cache_clear_up_to f i c = Inr c' \<Longrightarrow> tags_ok c'"
  unfolding tags_cache_clear_up_to_def by (erule on_queue_ok) (auto intro: request_up_to_inv)

lemma tags_ok_queues: "queues c' = queues c \<Longrightarrow> tags_ok c' = tags_ok c"
  by (simp add: tags_ok_def)

lemma add_request_tags:
  assumes "tags_ok c" and "tags_cache_add_request E f n i c = Inr (t, c')"
  shows "tags_ok c'"
proof -
  from assms(2) obtain u d where d: "(if max_items c \<noteq> 0 then with_db_lock E f (locked_add_request E f n) c else Inr (None, c)) = Inr (u, d)"
    and r: "(case u of Some t \<Rightarrow> Inr (Some t, d) | None \<Rightarrow> bindR (on_queue i (request_queue_add f n) d) (\<lambda>c. Inr (None, c))) = Inr (t, c')"
    by (auto simp: tags_cache_add_request_def bindR_eq_Inr simp del: bindR_Inr split: if_splits)
  have "queues d = queues c" using d lock_queues [OF _ locked_request_queues] by (fastforce split: if_splits)
  then have "tags_ok d" using assms(1) by (simp add: tags_ok_def)
  then show ?thesis using r by (auto simp: bindR_eq_Inr split: option.splits elim!: on_queue_ok intro: request_add_inv)
qed


section \<open>Event queues and the table of clients\<close>

definition queue_ok :: "event_queue \<Rightarrow> bool" where
  "queue_ok q \<longleftrightarrow> queue_inv q \<and> (\<forall>e\<in>set (pending q). data_fits e)"

lemma event_push_ok:
  assumes "queue_inv q"
  obtains q' where "event_push e q = Inr q'" "queue_inv q'" "pending q' = pending q @ [e]"
proof -
  obtain xs where xs: "holds q xs" "pending q = map snd xs" using queue_cases [OF assms] .
  from event_push_holds [OF xs(1), of e] obtain q' where q': "event_push e q = Inr q'" "holds q' (xs @ [(fresh q, e)])" by blast
  with holds_pending [OF q'(2)] show ?thesis using that xs(2) by (auto simp: queue_inv_def)
qed

lemma event_free_ok: "queue_ok q \<Longrightarrow> \<exists>q'. event_queue_free q = Inr q' \<and> queue_ok q' \<and> pending q' = []"
  using event_queue_free_ok [of q] by (auto simp: queue_ok_def)

lemma init_queue_ok: "queue_ok event_queue_init"
  using event_queue_init_inv by (simp add: queue_ok_def)

text \<open>How an operation may change the table: sockets are only given up, locks stay.\<close>

definition same_slot :: "client \<Rightarrow> client \<Rightarrow> bool" where
  "same_slot c c' \<longleftrightarrow> (sock c' = sock c \<or> sock c' = -1) \<and> lock c' = lock c"

definition cl_rel :: "client list \<Rightarrow> client list \<Rightarrow> bool" where
  "cl_rel cs cs' \<longleftrightarrow> list_all2 same_slot cs cs'"

lemma same_slot_refl [simp]: "same_slot c c"
  by (simp add: same_slot_def)

lemma same_slot_trans: "same_slot a b \<Longrightarrow> same_slot b c \<Longrightarrow> same_slot a c"
  by (auto simp: same_slot_def)

definition safe :: "client list \<Rightarrow> ('d, 'h, 's) server \<Rightarrow> bool" where
  "safe cs s \<longleftrightarrow> length cs = CLIENTS_MAX \<and> cl_rel cs (clients s) \<and> (\<forall>c\<in>set (clients s). queue_ok (events c)) \<and> tags_ok (s_tags s)
     \<and> 0 \<le> seed s \<and> seed s < 256"

lemma safe_length: "safe cs s \<Longrightarrow> length (clients s) = CLIENTS_MAX"
  by (auto simp: safe_def cl_rel_def list_all2_lengthD)

lemma safe_fields [simp]:
  "safe cs (s\<lparr>net := a\<rparr>) = safe cs s" "safe cs (s\<lparr>wake_ups := b\<rparr>) = safe cs s" "safe cs (s\<lparr>server_quit := c\<rparr>) = safe cs s"
  "safe cs (s\<lparr>s_info := d\<rparr>) = safe cs s" "safe cs (s\<lparr>s_audio := f\<rparr>) = safe cs s"
  "safe cs (s\<lparr>s_dev := g\<rparr>) = safe cs s" "safe cs (s\<lparr>s_out := h\<rparr>) = safe cs s" "safe cs (s\<lparr>s_mixer := i\<rparr>) = safe cs s"
  "safe cs (s\<lparr>s_eq := j\<rparr>) = safe cs s" "safe cs (s\<lparr>s_opts := k\<rparr>) = safe cs s" "safe cs (s\<lparr>curr_tags := l\<rparr>) = safe cs s"
  "safe cs (s\<lparr>player_requests := m\<rparr>) = safe cs s" "safe cs (s\<lparr>last_file := n\<rparr>) = safe cs s"
  "safe cs (s\<lparr>song_command := p\<rparr>) = safe cs s" "safe cs (s\<lparr>commands := q\<rparr>) = safe cs s"
  "safe cs (set_conn fd c' s) = safe cs s"
  by (simp_all add: safe_def set_conn_def)

lemma safe_tags: "safe cs s \<Longrightarrow> tags_ok t \<Longrightarrow> safe cs (s\<lparr>s_tags := t\<rparr>)"
  by (simp add: safe_def)

lemma safe_queue: "safe cs s \<Longrightarrow> i < CLIENTS_MAX \<Longrightarrow> queue_ok (events (cli i s))"
  using safe_length [of cs s] by (simp add: safe_def cli_def)

lemma safe_upd:
  assumes "safe cs s" and "\<And>c. queue_ok (events c) \<Longrightarrow> queue_ok (events (f c))" and "\<And>c. same_slot c (f c)"
  shows "safe cs (upd_cli i f s)"
proof (cases "i < length (clients s)")
  case True
  have a: "list_all2 same_slot cs (clients s)" using assms(1) by (simp add: safe_def cl_rel_def)
  have "same_slot (cs ! i) (f (clients s ! i))" using same_slot_trans assms(3) list_all2_nthD2 [OF a True] by blast
  from list_all2_update_cong [OF a this, of i] have "list_all2 same_slot cs ((clients s)[i := f (clients s ! i)])" by simp
  moreover have "\<forall>c\<in>set ((clients s)[i := f (clients s ! i)]). queue_ok (events c)"
    using assms(1,2) True by (auto simp: safe_def dest!: set_update_subset_insert [THEN subsetD])
  ultimately show ?thesis using assms(1) by (simp add: safe_def cl_rel_def upd_cli_def)
next
  case False
  then show ?thesis using assms(1) by (simp add: upd_cli_def list_update_beyond)
qed

section \<open>Rules for results\<close>

definition ok1 :: "client list \<Rightarrow> ('d, 'h, 's) server result \<Rightarrow> bool" where
  "ok1 cs m \<longleftrightarrow> (\<forall>s. m = Inr s \<longrightarrow> safe cs s)"

definition ok2 :: "client list \<Rightarrow> ('a \<times> ('d, 'h, 's) server) result \<Rightarrow> bool" where
  "ok2 cs m \<longleftrightarrow> (\<forall>x s. m = Inr (x, s) \<longrightarrow> safe cs s)"

named_theorems safe_intros \<open>what keeps the server safe\<close>

lemma ok_Inl [safe_intros]: "ok1 cs (Inl e)" "ok2 cs (Inl e)"
  by (simp_all add: ok1_def ok2_def)

lemma ok1_Inr [safe_intros]: "safe cs s \<Longrightarrow> ok1 cs (Inr s)"
  by (simp add: ok1_def)

lemma ok2_Inr [safe_intros]: "safe cs (snd p) \<Longrightarrow> ok2 cs (Inr p)"
  by (auto simp: ok2_def)

lemma ok_if [safe_intros]:
  "(b \<Longrightarrow> ok1 cs m) \<Longrightarrow> (\<not> b \<Longrightarrow> ok1 cs m') \<Longrightarrow> ok1 cs (if b then m else m')"
  "(b \<Longrightarrow> ok2 cs n) \<Longrightarrow> (\<not> b \<Longrightarrow> ok2 cs n') \<Longrightarrow> ok2 cs (if b then n else n')"
  by simp_all

lemma bind11: "ok1 cs m \<Longrightarrow> (\<And>s. safe cs s \<Longrightarrow> ok1 cs (k s)) \<Longrightarrow> ok1 cs (bindR m k)"
  by (cases m) (auto simp: ok1_def)

lemma bind12: "ok1 cs m \<Longrightarrow> (\<And>s. safe cs s \<Longrightarrow> ok2 cs (k s)) \<Longrightarrow> ok2 cs (bindR m k)"
  by (cases m) (auto simp: ok1_def ok2_def)

lemma bind21: "ok2 cs m \<Longrightarrow> (\<And>x s. safe cs s \<Longrightarrow> ok1 cs (k (x, s))) \<Longrightarrow> ok1 cs (bindR m k)"
  by (cases m) (auto simp: ok1_def ok2_def)

lemma bind22: "ok2 cs m \<Longrightarrow> (\<And>x s. safe cs s \<Longrightarrow> ok2 cs (k (x, s))) \<Longrightarrow> ok2 cs (bindR m k)"
  by (cases m) (auto simp: ok1_def ok2_def)

lemma bind_any: "(\<And>x. m = Inr x \<Longrightarrow> ok1 cs (k x)) \<Longrightarrow> ok1 cs (bindR m k)" "(\<And>x. m = Inr x \<Longrightarrow> ok2 cs (k' x)) \<Longrightarrow> ok2 cs (bindR m k')"
  by (cases m; simp add: ok1_def ok2_def)+

lemma fold_ok: "safe cs s \<Longrightarrow> (\<And>x s. x \<in> set xs \<Longrightarrow> safe cs s \<Longrightarrow> ok1 cs (f x s)) \<Longrightarrow> ok1 cs (foldR f xs s)"
proof (induction xs arbitrary: s)
  case (Cons x xs)
  then show ?case by (auto intro!: bind11 Cons.IH)
qed (simp add: ok1_def)

lemma fine_ok [safe_intros]: "ok1 cs m \<Longrightarrow> ok2 cs (fine m)"
  unfolding fine_def by (rule bind12) (simp_all add: ok2_def)

section \<open>Sockets\<close>

lemma safe_close [simp]: "safe cs (close_fd fd s) = safe cs s"
  by (simp add: close_fd_def split: option.split)

lemma safe_send_once [simp]: "safe cs (snd (send_once b fd s)) = safe cs s"
  by (simp add: send_once_def split: option.split list.split)

lemma safe_send_bytes [simp]: "safe cs (snd (send_bytes b fd s)) = safe cs s"
  by (simp add: send_bytes_def split: option.split prod.split)

lemma safe_send_int [simp]: "safe cs (snd (send_int_to n fd s)) = safe cs s"
  by (simp add: send_int_to_def)

lemma safe_send_str [simp]: "safe cs (snd (send_str_to n fd s)) = safe cs s"
proof -
  obtain ok t where t: "send_int_to (int (length n)) fd s = (ok, t)" by fastforce
  have "safe cs t = safe cs s" using safe_send_int [of cs "int (length n)" fd s] unfolding t by simp
  then show ?thesis using t by (simp add: send_str_to_def)
qed

lemma safe_read [simp]: "safe cs (snd (read_from f fd s)) = safe cs s"
  by (simp add: read_from_def split: option.split prod.split)

lemma send_item_ok [safe_intros]: "safe cs s \<Longrightarrow> ok2 cs (send_item_to x fd s)"
  by (auto simp: send_item_to_def intro!: ok2_Inr bind_any split: option.split)

lemma send_tags_ok [safe_intros]: "safe cs s \<Longrightarrow> ok2 cs (send_tags_to x fd s)"
  by (auto simp: send_tags_to_def intro!: ok2_Inr bind_any)

lemma with_read_ok:
  assumes "safe cs s" and "\<And>x s' c c'. f c = (Some x, c') \<Longrightarrow> safe cs s' \<Longrightarrow> ok2 cs (k x s')"
  shows "ok2 cs (with_read f i k s)"
proof -
  obtain r s' where r: "read_from f (sock (cli i s)) s = (r, s')" by fastforce
  then have "safe cs s'" using safe_read [of cs f "sock (cli i s)" s] assms(1) by simp
  moreover have "\<exists>c c'. f c = (r, c')" if "r \<noteq> None"
    using r that by (auto simp: read_from_def split: option.splits prod.splits)
  ultimately show ?thesis using r assms(2) by (cases r) (auto simp: with_read_def ok2_def)
qed

section \<open>Removing clients\<close>

lemma clear_tags_ok [safe_intros]: "safe cs s \<Longrightarrow> ok1 cs (clear_tags_queue i s)"
  unfolding clear_tags_queue_def
  by (intro bind_any ok1_Inr safe_tags) (assumption, rule clear_queue_tags, auto simp: safe_def)

lemma safe_upd_sock: "safe cs s \<Longrightarrow> safe cs (upd_cli i (\<lambda>c. c\<lparr>sock := -1\<rparr>) s)"
  by (rule safe_upd) (simp_all add: same_slot_def)

lemma safe_upd_events: "safe cs s \<Longrightarrow> i < CLIENTS_MAX \<longrightarrow> queue_ok q \<Longrightarrow> safe cs (upd_cli i (\<lambda>c. c\<lparr>events := q\<rparr>) s)"
  by (cases "i < CLIENTS_MAX", rule safe_upd) (simp_all add: upd_cli_def list_update_beyond safe_length same_slot_def)

lemma safe_free: "safe cs s \<Longrightarrow> event_queue_free (events (cli i s)) = Inr q \<Longrightarrow> i < CLIENTS_MAX \<longrightarrow> queue_ok q"
  using event_free_ok safe_queue [of cs s i] by fastforce

lemma del_client_ok [safe_intros]:
  assumes "safe cs s"
  shows "ok1 cs (del_client i s)"
  unfolding del_client_def Let_def
  by (intro bind_any clear_tags_ok safe_upd_events safe_upd_sock assms) (rule safe_free [OF safe_upd_sock [OF assms]], assumption)

lemma disconnect_ok [safe_intros]: "safe cs s \<Longrightarrow> ok1 cs (disconnect i s)"
  unfolding disconnect_def by (rule del_client_ok) simp


section \<open>Events\<close>

lemma data_fits_cases:
  assumes "data_fits \<lparr>e_type = ev, e_data = d\<rparr>"
  obtains "d = No_data" | t where "d = Text t" "ev \<in> {EV_PLIST_DEL, EV_QUEUE_DEL, EV_SRV_ERROR, EV_STATUS_MSG}"
  | x where "d = Item x" "i_file x \<noteq> None" "ev \<in> {EV_PLIST_ADD, EV_QUEUE_ADD}"
  | f t where "d = Tags_of f t" "ev = EV_FILE_TAGS" | f t where "d = Move f t" "ev \<in> {EV_PLIST_MOVE, EV_QUEUE_MOVE}"
  using assms unfolding data_fits_def by (cases d) (simp_all split: if_splits)

lemma copy_data_fits:
  assumes "data_fits \<lparr>e_type = ev, e_data = d\<rparr>" and "ev \<noteq> EV_FILE_TAGS"
  shows "\<exists>d'. copy_data ev d = Inr d' \<and> data_fits \<lparr>e_type = ev, e_data = d'\<rparr>"
proof (cases rule: data_fits_cases [OF assms(1)])
  case (3 x)
  then show ?thesis by (auto simp: copy_data_def data_fits_def plist_item_copy_def ev_defs)
qed (use assms in \<open>auto simp: copy_data_def data_fits_def ev_defs\<close>)

lemma add_event_ok [safe_intros]:
  assumes "safe cs s" and "i < CLIENTS_MAX" and "data_fits \<lparr>e_type = ev, e_data = d\<rparr>"
  shows "ok1 cs (add_event i ev d s)"
proof -
  let ?e = "\<lparr>e_type = ev, e_data = d\<rparr>"
  have q: "queue_ok (events (cli i s))" by (rule safe_queue [OF assms(1,2)])
  then obtain q' where q': "event_push ?e (events (cli i s)) = Inr q'" "queue_inv q'" "pending q' = pending (events (cli i s)) @ [?e]"
    using event_push_ok [of "events (cli i s)" ?e] by (auto simp: queue_ok_def)
  then have "queue_ok q'" using q assms(3) by (auto simp: queue_ok_def)
  then show ?thesis using q'(1) safe_upd_events [OF assms(1)] by (simp add: add_event_def ok1_def)
qed

lemma add_for_ok:
  assumes "safe cs (snd p)" and "i < CLIENTS_MAX" and "data_fits \<lparr>e_type = ev, e_data = d\<rparr>" and "ev \<noteq> EV_FILE_TAGS"
  shows "ok2 cs (add_for ev d i p)"
proof -
  obtain b s where p: "p = (b, s)" by fastforce
  obtain d' where d': "copy_data ev d = Inr d'" "data_fits \<lparr>e_type = ev, e_data = d'\<rparr>" using copy_data_fits [OF assms(3,4)] by blast
  have s: "safe cs s" using assms(1) p by simp
  show ?thesis unfolding p add_for_def prod.case d'(1) bindR_Inr
    by (intro ok_if ok2_Inr bind12 add_event_ok s assms(2) d'(2)) (simp_all add: s)
qed

lemma add_loop_ok:
  assumes "data_fits \<lparr>e_type = ev, e_data = d\<rparr>" "ev \<noteq> EV_FILE_TAGS" and "\<forall>i\<in>set is. i < CLIENTS_MAX"
  shows "safe cs (snd p) \<Longrightarrow> ok2 cs (foldR (add_for ev d) is p)"
  using assms(3)
proof (induction "is" arbitrary: p)
  case (Cons i "is")
  have "ok2 cs (add_for ev d i p)" using add_for_ok [of cs p i ev d] Cons.prems assms(1,2) by simp
  then show ?case unfolding foldR.simps by (rule bind22) (use Cons in auto)
qed (auto simp: ok2_def)

lemma ok_option [safe_intros]:
  "ok1 cs m \<Longrightarrow> (\<And>y. x = Some y \<Longrightarrow> ok1 cs (k y)) \<Longrightarrow> ok1 cs (case x of None \<Rightarrow> m | Some y \<Rightarrow> k y)"
  "ok2 cs m' \<Longrightarrow> (\<And>y. x = Some y \<Longrightarrow> ok2 cs (k' y)) \<Longrightarrow> ok2 cs (case x of None \<Rightarrow> m' | Some y \<Rightarrow> k' y)"
  by (cases x; simp)+

lemma ok_prod [safe_intros]:
  "(\<And>a b. p = (a, b) \<Longrightarrow> ok1 cs (k a b)) \<Longrightarrow> ok1 cs (case p of (a, b) \<Rightarrow> k a b)"
  "(\<And>a b. p = (a, b) \<Longrightarrow> ok2 cs (k' a b)) \<Longrightarrow> ok2 cs (case p of (a, b) \<Rightarrow> k' a b)"
  by (cases p; simp)+

lemma on_song_change_ok [safe_intros]:
  assumes "safe cs s"
  shows "ok1 cs (on_song_change E s)"
proof -
  have r: "safe cs (run_command E args (s\<lparr>song_command := Some l, s_tags := c\<rparr>))"
    if "tags_cache_get_immediate (e_tags E) a f n (s_tags s) = Inr (u, c)" for args l c f a n u
  proof -
    have "tags_ok c" using get_immediate_queues [OF that] assms by (simp add: safe_def tags_ok_def)
    then show ?thesis using safe_tags [of cs "s\<lparr>song_command := Some l\<rparr>" c] assms by (simp add: run_command_def)
  qed
  show ?thesis unfolding on_song_change_def Let_def
    by (intro bind_any(1) ok_if(1) ok_option(1) ok_prod(1) ok1_Inr) (simp_all add: assms r)
qed

lemma on_stop_ok [safe_intros]: "safe cs s \<Longrightarrow> ok1 cs (on_stop E s)"
  unfolding on_stop_def by (rule bind_any(1)) (auto simp: run_command_def ok1_def split: option.split)

lemma add_event_all_ok [safe_intros]:
  assumes "safe cs s" and "data_fits \<lparr>e_type = ev, e_data = d\<rparr>" and "ev \<noteq> EV_FILE_TAGS"
  shows "ok1 cs (add_event_all E ev d s)"
  unfolding add_event_all_def
proof (rule bind11)
  show "ok1 cs (if ev = EV_STATE then if play_state (s_audio s) = STATE_PLAY then on_song_change E s
      else if play_state (s_audio s) = STATE_STOP then on_stop E s else Inr s else Inr s)"
    using assms(1) by (auto intro!: safe_intros)
  show "ok1 cs (bindR (foldR (add_for ev d) [0..<CLIENTS_MAX] (False, t)) (\<lambda>(added, s). Inr (if added then wake_up_server s else s)))"
    if "safe cs t" for t
    by (rule bind21 [OF add_loop_ok [OF assms(2,3)]]) (use that in \<open>auto simp: wake_up_server_def ok1_def\<close>)
qed

lemma event_fits [simp]:
  "data_fits \<lparr>e_type = EV_STATE, e_data = No_data\<rparr>" "data_fits \<lparr>e_type = EV_CTIME, e_data = No_data\<rparr>"
  "data_fits \<lparr>e_type = EV_TAGS, e_data = No_data\<rparr>" "data_fits \<lparr>e_type = EV_OPTIONS, e_data = No_data\<rparr>"
  "data_fits \<lparr>e_type = EV_BITRATE, e_data = No_data\<rparr>" "data_fits \<lparr>e_type = EV_RATE, e_data = No_data\<rparr>"
  "data_fits \<lparr>e_type = EV_CHANNELS, e_data = No_data\<rparr>" "data_fits \<lparr>e_type = EV_AVG_BITRATE, e_data = No_data\<rparr>"
  "data_fits \<lparr>e_type = EV_AUDIO_START, e_data = No_data\<rparr>" "data_fits \<lparr>e_type = EV_AUDIO_STOP, e_data = No_data\<rparr>"
  "data_fits \<lparr>e_type = EV_MIXER_CHANGE, e_data = No_data\<rparr>" "data_fits \<lparr>e_type = EV_PLIST_CLEAR, e_data = No_data\<rparr>"
  "data_fits \<lparr>e_type = EV_QUEUE_CLEAR, e_data = No_data\<rparr>" "data_fits \<lparr>e_type = EV_STATUS_MSG, e_data = Text t\<rparr>"
  "data_fits \<lparr>e_type = EV_SRV_ERROR, e_data = Text t\<rparr>" "data_fits \<lparr>e_type = EV_QUEUE_DEL, e_data = Text t\<rparr>"
  "data_fits \<lparr>e_type = EV_PLIST_DEL, e_data = Text t\<rparr>" "data_fits \<lparr>e_type = EV_PLIST_MOVE, e_data = Move f t\<rparr>"
  "data_fits \<lparr>e_type = EV_QUEUE_MOVE, e_data = Move f t\<rparr>" "data_fits \<lparr>e_type = EV_FILE_TAGS, e_data = Tags_of f u\<rparr>"
  "data_fits \<lparr>e_type = EV_PLIST_ADD, e_data = Item x\<rparr> = (i_file x \<noteq> None)" "data_fits \<lparr>e_type = EV_QUEUE_ADD, e_data = Item x\<rparr> = (i_file x \<noteq> None)"
  by (auto simp: data_fits_def ev_defs)

lemma not_file_tags [simp]:
  "EV_STATE \<noteq> EV_FILE_TAGS" "EV_CTIME \<noteq> EV_FILE_TAGS" "EV_TAGS \<noteq> EV_FILE_TAGS" "EV_OPTIONS \<noteq> EV_FILE_TAGS" "EV_BITRATE \<noteq> EV_FILE_TAGS"
  "EV_RATE \<noteq> EV_FILE_TAGS" "EV_CHANNELS \<noteq> EV_FILE_TAGS" "EV_AVG_BITRATE \<noteq> EV_FILE_TAGS" "EV_AUDIO_START \<noteq> EV_FILE_TAGS"
  "EV_AUDIO_STOP \<noteq> EV_FILE_TAGS" "EV_MIXER_CHANGE \<noteq> EV_FILE_TAGS" "EV_PLIST_CLEAR \<noteq> EV_FILE_TAGS" "EV_QUEUE_CLEAR \<noteq> EV_FILE_TAGS"
  "EV_STATUS_MSG \<noteq> EV_FILE_TAGS" "EV_SRV_ERROR \<noteq> EV_FILE_TAGS" "EV_QUEUE_DEL \<noteq> EV_FILE_TAGS" "EV_PLIST_DEL \<noteq> EV_FILE_TAGS"
  "EV_PLIST_MOVE \<noteq> EV_FILE_TAGS" "EV_QUEUE_MOVE \<noteq> EV_FILE_TAGS" "EV_PLIST_ADD \<noteq> EV_FILE_TAGS" "EV_QUEUE_ADD \<noteq> EV_FILE_TAGS"
  by (simp_all add: ev_defs)

lemma tags_response_ok [safe_intros]: "safe cs s \<Longrightarrow> ok1 cs (tags_response i f t s)"
  unfolding tags_response_def
  by (intro bind_any ok_if safe_intros bind11) (auto intro!: safe_intros simp: wake_up_server_def guardR_def split: if_splits)

text \<open>Notifications, as the other threads send them.\<close>

datatype notification = N_state | N_ctime | N_tags | N_status string | N_error string | N_start | N_stop | N_pop string
  | N_bitrate int | N_channels int | N_rate int | N_avg_bitrate int

definition notify :: "'d server_env \<Rightarrow> notification \<Rightarrow> ('d, 'h, 's) server \<Rightarrow> ('d, 'h, 's) server result" where
  "notify E n s =
     (case n of N_state \<Rightarrow> state_change E s | N_ctime \<Rightarrow> ctime_change E s | N_tags \<Rightarrow> tags_change E s | N_status m \<Rightarrow> status_msg E m s
      | N_error m \<Rightarrow> server_error E m s | N_start \<Rightarrow> ev_audio_start E s | N_stop \<Rightarrow> ev_audio_stop E s | N_pop f \<Rightarrow> server_queue_pop E f s
      | N_bitrate v \<Rightarrow> set_info_bitrate E v s | N_channels v \<Rightarrow> set_info_channels E v s | N_rate v \<Rightarrow> set_info_rate E v s
      | N_avg_bitrate v \<Rightarrow> set_info_avg_bitrate E v s)"

lemmas notification_defs = state_change_def ctime_change_def tags_change_def status_msg_def server_error_def ev_audio_start_def
  ev_audio_stop_def server_queue_pop_def set_info_bitrate_def set_info_channels_def set_info_rate_def set_info_avg_bitrate_def

lemma notify_ok: "safe cs s \<Longrightarrow> ok1 cs (notify E n s)"
  by (cases n) (auto simp: notify_def notification_defs intro!: safe_intros)


section \<open>Handlers\<close>

lemma state_change_at_ok: "safe cs s \<Longrightarrow> ok1 cs (state_change_at E st s)"
  unfolding state_change_at_def Let_def state_change_def by (intro bind11 add_event_all_ok safe_intros) simp_all

lemma audio_do_ok [safe_intros]: "safe cs s \<Longrightarrow> ok1 cs (audio_do E f s)"
  unfolding audio_do_def
  by (intro bind_any(1) bind11 fold_ok state_change_at_ok) (auto simp: server_queue_pop_def intro!: add_event_all_ok)

lemma send_data_int_ok [safe_intros]: "safe cs s \<Longrightarrow> ok2 cs (send_data_int i n s)"
proof -
  assume s: "safe cs s"
  obtain ok t where t: "send_int_to EV_DATA (sock (cli i s)) s = (ok, t)" by fastforce
  have "safe cs t" using s safe_send_int [of cs EV_DATA "sock (cli i s)" s] unfolding t by simp
  then show ?thesis unfolding send_data_int_def t by (intro bind_any ok2_Inr) auto
qed

lemma send_data_str_ok [safe_intros]: "safe cs s \<Longrightarrow> ok2 cs (send_data_str i n s)"
proof -
  assume s: "safe cs s"
  obtain ok t where t: "send_int_to EV_DATA (sock (cli i s)) s = (ok, t)" by fastforce
  have "safe cs t" using s safe_send_int [of cs EV_DATA "sock (cli i s)" s] unfolding t by simp
  then show ?thesis unfolding send_data_str_def t by (intro ok2_Inr) auto
qed

lemma safe_ask [simp]: "safe cs (audio_ask r s) = safe cs s"
  by (simp add: audio_ask_def)

lemma safe_flags: "safe cs s \<Longrightarrow> safe cs (upd_cli i (\<lambda>c. c\<lparr>requests_plist := b\<rparr>) s)" "safe cs s \<Longrightarrow> safe cs (upd_cli i (\<lambda>c. c\<lparr>can_send_plist := b\<rparr>) s)"
  "safe cs s \<Longrightarrow> safe cs (upd_cli i (\<lambda>c. c\<lparr>wants_plist_events := b\<rparr>) s)"
  by (rule safe_upd; simp add: same_slot_def)+

lemma recv_item_file: "recv_item fs c = (Some x, c') \<Longrightarrow> i_file x \<noteq> None"
  by (auto simp: recv_item_def then_get_def plist_new_item_def split: prod.splits option.splits if_splits)

lemmas playing_handlers = req_list_add_def req_queue_add_def req_play_def req_seek_def req_jump_to_def send_sname_def send_option_def
  get_set_option_def set_mixer_def delete_item_def req_queue_del_def plist_sync_cmd_def req_plist_get_serial_def req_plist_set_serial_def
  req_list_move_def req_queue_move_def req_get_mixer_channel_name_def

lemma playing_handlers_ok [safe_intros]:
  assumes "safe cs s"
  shows "ok2 cs (req_list_add E i s)" "ok2 cs (req_play E i s)" "ok2 cs (req_seek i s)"
    "ok2 cs (req_jump_to i s)" "ok2 cs (send_sname i s)" "ok2 cs (send_option i s)" "ok2 cs (get_set_option E i s)"
    "ok2 cs (set_mixer i s)" "ok2 cs (delete_item E i s)" "ok2 cs (plist_sync_cmd E i cmd s)"
    "ok2 cs (req_plist_get_serial i s)" "ok2 cs (req_plist_set_serial i s)" "ok2 cs (req_list_move E i s)"
    "ok2 cs (req_get_mixer_channel_name i s)"
  using assms unfolding playing_handlers
  by (auto intro!: with_read_ok safe_intros bind_any(2) split: prod.split dest!: recv_item_file)

lemma queue_handlers_ok [safe_intros]:
  assumes "safe cs s"
  shows "ok2 cs (req_queue_add E i s)" "ok2 cs (req_queue_del E i s)" "ok2 cs (req_queue_move E i s)"
  unfolding req_queue_add_def req_queue_del_def req_queue_move_def
  by (intro with_read_ok bind12 fine_ok add_event_all_ok audio_do_ok assms; simp)+


lemma first_client_cases: "first_client p cs k = -1 \<and> (\<forall>c\<in>set cs. \<not> p c) \<or>
    (\<exists>j<length cs. first_client p cs k = k + int j \<and> p (cs ! j) \<and> (\<forall>i<j. \<not> p (cs ! i)))"
proof (induction cs arbitrary: k)
  case (Cons c cs)
  show ?case
  proof (cases "p c")
    case False
    from Cons [of "k + 1"] show ?thesis
    proof
      assume "\<exists>j<length cs. first_client p cs (k + 1) = k + 1 + int j \<and> p (cs ! j) \<and> (\<forall>i<j. \<not> p (cs ! i))"
      then obtain j where "j < length cs" "first_client p cs (k + 1) = k + 1 + int j" "p (cs ! j)" "\<forall>i<j. \<not> p (cs ! i)" by blast
      then show ?thesis using False by (intro disjI2 exI [of _ "Suc j"]) (auto simp: less_Suc_eq_0_disj)
    qed (use False in auto)
  qed auto
qed simp

lemma get_client_plist_ok [safe_intros]: "safe cs s \<Longrightarrow> ok2 cs (get_client_plist i s)"
  unfolding get_client_plist_def Let_def
  by (intro ok_if send_data_int_ok bind22 safe_flags ok_prod ok2_Inr) auto

lemma drop_requesting_ok [safe_intros]: "safe cs s \<Longrightarrow> ok1 cs (drop_requesting r fd s)"
  unfolding drop_requesting_def by (rule del_client_ok) simp

lemma relay_one_ok [safe_intros]: "safe cs s \<Longrightarrow> ok2 cs (relay_one r fd x s)"
  unfolding relay_one_def by (intro ok_if bind22 send_item_ok bind12 drop_requesting_ok ok2_Inr ok_prod) auto

lemma relay_int_ok [safe_intros]:
  assumes "safe cs s"
  shows "ok2 cs (relay_int r fd n s)"
proof -
  obtain ok t where t: "send_int_to n fd s = (ok, t)" by fastforce
  have "safe cs t" using assms safe_send_int [of cs n fd s] unfolding t by simp
  then show ?thesis unfolding relay_int_def t prod.case by (intro ok_if bind12 drop_requesting_ok ok2_Inr) auto
qed

lemma relay_loop_ok: "safe cs s \<Longrightarrow> \<forall>b fd' s'. relay_loop fs i r fd s = Inr (b, fd', s') \<longrightarrow> safe cs s'"
proof (induction fs i r fd s rule: relay_loop.induct)
  case (1 fs i r fd s)
  obtain x t where x: "read_from (recv_item fs) (sock (cli i s)) s = (x, t)" by fastforce
  have t: "safe cs t" using 1(2) safe_read [of cs "recv_item fs" "sock (cli i s)" s] unfolding x by simp
  show ?case
  proof (cases "x = None \<or> or_empty (i_file (the x)) = []")
    case True
    then show ?thesis using x t by (subst relay_loop.simps) (auto split: option.splits)
  next
    case False
    then obtain y where y: "x = Some y" "or_empty (i_file y) \<noteq> []" by auto
    show ?thesis
    proof (cases "relay_one r fd y t")
      case (Inr p)
      obtain g u where p: "p = (g, u)" by fastforce
      have u: "safe cs u" using relay_one_ok [OF t, of r fd y] Inr p by (auto simp: ok2_def)
      show ?thesis using 1(1) [OF x [symmetric] y(1) y(2) Inr] u x y Inr p by (subst relay_loop.simps) auto
    qed (use x y in \<open>subst relay_loop.simps, auto\<close>)
  qed
qed

lemma req_send_plist_ok [safe_intros]:
  assumes "safe cs s"
  shows "ok2 cs (req_send_plist E i s)"
proof -
  have loop: "ok2 cs (bindR (relay_loop fs i r fd t) (\<lambda>(item, fd, s). k item fd s))"
    if "safe cs t" "\<And>item fd s. safe cs s \<Longrightarrow> ok2 cs (k item fd s)" for fs r fd t k
  proof (rule bind_any(2))
    fix p assume "relay_loop fs i r fd t = Inr p"
    then show "ok2 cs (case p of (item, fd, s) \<Rightarrow> k item fd s)"
      using relay_loop_ok [OF that(1), of fs i r fd] that(2) by (cases p) auto
  qed
  show ?thesis unfolding req_send_plist_def Let_def
    by (intro bind22 ok_if ok2_Inr relay_int_ok assms ok_prod with_read_ok loop send_item_ok bind12 drop_requesting_ok)
      (auto simp: assms safe_flags)
qed

lemma send_queue_items_ok: "safe cs s \<Longrightarrow> ok2 cs (send_queue_items q ks fd s)"
proof (induction ks arbitrary: s)
  case (Cons k ks)
  show ?case unfolding send_queue_items.simps
    by (rule bind_any(2), rule ok_if(2), rule Cons.IH [OF Cons.prems], rule bind_any(2), rule bind22 [OF send_item_ok [OF Cons.prems]])
      (auto intro!: Cons.IH ok_if(2) ok2_Inr)
qed (simp add: ok2_def)

lemma req_send_queue_ok [safe_intros]:
  assumes "safe cs s"
  shows "ok2 cs (req_send_queue E i s)"
proof -
  obtain ok t where t: "send_int_to EV_DATA (sock (cli i s)) s = (ok, t)" by fastforce
  have s: "safe cs t" using assms safe_send_int [of cs EV_DATA "sock (cli i s)" s] unfolding t by simp
  have d: "ok2 cs (bindR (disconnect i u) (\<lambda>s. Inr (False, s)))" if "safe cs u" for u
    by (intro bind12 disconnect_ok ok2_Inr) (use that in auto)
  show ?thesis unfolding req_send_queue_def t prod.case
    by (intro ok_if d s bind_any(2) bind22 [OF send_queue_items_ok] bind22 [OF send_item_ok]) (auto intro!: ok_if d bind22 [OF send_item_ok] ok2_Inr)
qed

lemma serial_loop_seed: "serial_loop k i u sd = Some (n, sd') \<Longrightarrow> 0 \<le> sd' \<and> sd' < 256"
proof (induction k i u sd rule: serial_loop.induct)
  case (2 k i u sd)
  have "(sd + 1) AND 255 = (sd + 1) mod 2 ^ 8" using take_bit_eq_mask [of 8 "sd + 1"] by (simp add: take_bit_eq_mod mask_eq_exp_minus_1)
  then have "0 \<le> (sd + 1) AND 255" "(sd + 1) AND 255 < 256" by simp_all
  then show ?case using 2 by (auto simp: Let_def split: if_splits)
qed simp

lemma serial_ok [safe_intros]: "safe cs s \<Longrightarrow> ok2 cs (send_serial i s)"
proof -
  assume "safe cs s"
  then have "ok2 cs (gen_serial i s)"
    unfolding gen_serial_def by (auto simp: ok2_def safe_def split: option.split dest!: serial_loop_seed)
  then show ?thesis unfolding send_serial_def by (rule bind22) (auto intro: send_data_int_ok)
qed

lemma req_get_tags_ok [safe_intros]:
  assumes "safe cs s"
  shows "ok2 cs (req_get_tags i s)"
proof -
  obtain ok t where t: "send_int_to EV_DATA (sock (cli i s)) s = (ok, t)" by fastforce
  have "safe cs t" using assms safe_send_int [of cs EV_DATA "sock (cli i s)" s] unfolding t by simp
  then show ?thesis unfolding req_get_tags_def t prod.case by (intro ok_if send_tags_ok ok2_Inr) auto
qed

lemma get_file_tags_ok [safe_intros]:
  assumes "safe cs s"
  shows "ok2 cs (get_file_tags E i s)"
proof -
  have "ok2 cs (bindR (tags_cache_add_request (e_tags E) f sel (int i) (s_tags t)) (\<lambda>(r, c).
      fine (case r of None \<Rightarrow> Inr (t\<lparr>s_tags := c\<rparr>) | Some u \<Rightarrow> tags_response (int i) f u (t\<lparr>s_tags := c\<rparr>))))" if "safe cs t" for f sel t
  proof (intro bind_any(2) ok_prod(2) fine_ok ok_option(1) ok1_Inr tags_response_ok)
    fix p r c
    assume "tags_cache_add_request (e_tags E) f sel (int i) (s_tags t) = Inr p" "p = (r, c)"
    then have "tags_ok c" using that by (auto intro: add_request_tags simp: safe_def)
    then show "safe cs (t\<lparr>s_tags := c\<rparr>)" "safe cs (t\<lparr>s_tags := c\<rparr>)" using safe_tags [OF that] by auto
  qed
  then show ?thesis unfolding get_file_tags_def Let_def by (intro with_read_ok assms)
qed

lemma abort_tags_ok [safe_intros]: "safe cs s \<Longrightarrow> ok2 cs (abort_tags_requests i s)"
  unfolding abort_tags_requests_def
  by (intro with_read_ok bind_any(2) ok2_Inr) (auto intro!: safe_tags elim!: clear_up_to_tags [rotated] simp: safe_def [of cs])

lemma update_eq_name_ok [safe_intros]: "safe cs s \<Longrightarrow> ok1 cs (update_eq_name E s)"
  unfolding update_eq_name_def Let_def status_msg_def by (intro bind_any(1) add_event_all_ok) auto

lemma toggles_ok [safe_intros]:
  assumes "safe cs s"
  shows "ok1 cs (req_toggle_mixer_channel E s)" "ok1 cs (req_toggle_softmixer E s)" "ok1 cs (req_toggle_equalizer E s)"
    "ok1 cs (req_equalizer_refresh E s)" "ok1 cs (req_equalizer_prev E s)" "ok1 cs (req_equalizer_next E s)" "ok1 cs (req_toggle_make_mono E s)"
  unfolding req_toggle_mixer_channel_def req_toggle_softmixer_def req_toggle_equalizer_def req_equalizer_refresh_def req_equalizer_prev_def
    req_equalizer_next_def req_toggle_make_mono_def with_eq_def status_msg_def Let_def
  by (intro add_event_all_ok update_eq_name_ok ok_option ok_Inl bind_any(1); simp add: assms)+

text \<open>Every command but those for the lock.\<close>

lemma execute_ok:
  assumes "safe cs s" and "cmd \<noteq> CMD_LOCK" "cmd \<noteq> CMD_UNLOCK"
  shows "ok2 cs (execute E i cmd s)"
  unfolding execute_def if_not_P [OF assms(2)] if_not_P [OF assms(3)]
  by (intro ok_if(2) fine_ok safe_intros bind12 bind_any(2) assms(1) safe_flags) (simp_all add: assms(1) safe_flags)

end
