(* ===== verification/Server_Spec.thy ===== *)
theory Server_Spec
  imports Server_Inv Audio_Dev_Spec
begin

text \<open>
  Properties of the music server over all interleavings of its main loop with the other threads:
  the lock, the delivery of events, the serial numbers, and the forwarding of playlists.
\<close>

unbundle bit_operations_syntax

section \<open>The invariant\<close>

definition live :: "client \<Rightarrow> bool" where
  "live c \<longleftrightarrow> sock c \<noteq> -1"

definition one_lock :: "client list \<Rightarrow> bool" where
  "one_lock cs \<longleftrightarrow> (\<forall>i<length cs. \<forall>j<length cs. live (cs ! i) \<and> lock (cs ! i) \<and> live (cs ! j) \<and> lock (cs ! j) \<longrightarrow> i = j)"

definition own_socks :: "client list \<Rightarrow> bool" where
  "own_socks cs \<longleftrightarrow> (\<forall>i<length cs. \<forall>j<length cs. live (cs ! i) \<and> sock (cs ! i) = sock (cs ! j) \<longrightarrow> i = j)"

definition server_inv :: "('d, 'h, 's) server \<Rightarrow> bool" where
  "server_inv s \<longleftrightarrow> safe (clients s) s \<and> one_lock (clients s) \<and> own_socks (clients s)"

lemma safe_self: "safe cs s \<Longrightarrow> safe (clients s) s"
  by (auto simp: safe_def cl_rel_def list_all2_lengthD intro: list_all2_refl)

lemma safe_inv:
  assumes "safe cs s" "one_lock cs" "own_socks cs"
  shows "server_inv s"
proof -
  have l: "length cs = length (clients s)" "\<And>i. i < length cs \<Longrightarrow> same_slot (cs ! i) (clients s ! i)"
    using assms(1) by (auto simp: safe_def cl_rel_def list_all2_conv_all_nth)
  have "live (clients s ! i) \<longrightarrow> live (cs ! i) \<and> sock (clients s ! i) = sock (cs ! i)" "lock (clients s ! i) = lock (cs ! i)"
    if "i < length cs" for i using l(2) [OF that] by (auto simp: same_slot_def live_def)
  then have "one_lock (clients s)" "own_socks (clients s)"
    using assms(2,3) l(1) unfolding one_lock_def own_socks_def by (metis live_def)+
  then show ?thesis using safe_self [OF assms(1)] by (simp add: server_inv_def)
qed

lemma inv_ok1: "server_inv s \<Longrightarrow> ok1 (clients s) m \<Longrightarrow> m = Inr s' \<Longrightarrow> server_inv s'"
  using safe_inv by (auto simp: server_inv_def ok1_def)

lemma inv_ok2: "server_inv s \<Longrightarrow> ok2 (clients s) m \<Longrightarrow> m = Inr (x, s') \<Longrightarrow> server_inv s'"
  using safe_inv by (auto simp: server_inv_def ok2_def)

lemma inv_safe: "server_inv s \<Longrightarrow> safe (clients s) s"
  by (simp add: server_inv_def)

lemma inv_length: "server_inv s \<Longrightarrow> length (clients s) = CLIENTS_MAX"
  by (simp add: server_inv_def safe_def)

lemma no_lock: "locking_client s = -1 \<Longrightarrow> i < length (clients s) \<Longrightarrow> live (cli i s) \<Longrightarrow> \<not> lock (cli i s)"
  using first_client_cases [of "\<lambda>c. sock c \<noteq> -1 \<and> lock c" "clients s" 0] by (auto simp: locking_client_def cli_def live_def)

text \<open>Changing the lock of one slot.\<close>

lemma upd_lock_inv:
  assumes "server_inv s" and "b \<longrightarrow> (\<forall>j<length (clients s). live (cli j s) \<longrightarrow> \<not> lock (cli j s))"
  shows "server_inv (upd_cli i (\<lambda>c. c\<lparr>lock := b\<rparr>) s)"
proof (cases "i < length (clients s)")
  case True
  let ?cs = "(clients s)[i := (clients s ! i)\<lparr>lock := b\<rparr>]"
  have n: "sock (?cs ! k) = sock (clients s ! k)" "live (?cs ! k) = live (clients s ! k)" "lock (?cs ! k) = (if k = i then b else lock (clients s ! k))" for k
    using True by (auto simp: nth_list_update live_def)
  have "safe ?cs (upd_cli i (\<lambda>c. c\<lparr>lock := b\<rparr>) s)" using assms(1) True
    by (auto simp: server_inv_def safe_def upd_cli_def cl_rel_def intro: list_all2_refl dest!: set_update_subset_insert [THEN subsetD])
  moreover have "own_socks ?cs" using assms(1) by (simp add: server_inv_def own_socks_def n)
  moreover have "one_lock ?cs" using assms unfolding server_inv_def one_lock_def cli_def n by (auto split: if_splits)
  ultimately show ?thesis by (intro safe_inv)
qed (use assms in \<open>simp add: upd_cli_def list_update_beyond\<close>)

lemma client_lock_inv:
  assumes "server_inv s" "client_lock i s = Inr (ok, s')"
  shows "server_inv s'"
  using assms upd_lock_inv [OF assms(1), of True i] no_lock [of s]
  by (auto simp: client_lock_def bindR_eq_Inr split: if_splits)

lemma client_unlock_inv: "server_inv s \<Longrightarrow> server_inv (snd (client_unlock i s))"
  using upd_lock_inv [of s False i] by (simp add: client_unlock_def)

lemma disconnect_inv: "server_inv s \<Longrightarrow> disconnect i s = Inr s' \<Longrightarrow> server_inv s'"
  using inv_ok1 [OF _ disconnect_ok] inv_safe by blast

lemma execute_inv:
  assumes "server_inv s" "execute E i cmd s = Inr (ok, s')"
  shows "server_inv s'"
proof -
  consider "cmd = CMD_LOCK" | "cmd = CMD_UNLOCK" | "cmd \<noteq> CMD_LOCK" "cmd \<noteq> CMD_UNLOCK" by blast
  then show ?thesis
  proof cases
    case 1
    then have "execute E i cmd s = client_lock i s" by (simp add: execute_def cmd_defs)
    then show ?thesis using client_lock_inv assms by metis
  next
    case 2
    then have "execute E i cmd s = Inr (client_unlock i s)" by (simp add: execute_def cmd_defs)
    then show ?thesis using client_unlock_inv [OF assms(1), of i] assms(2) by (metis snd_conv sum.inject(2))
  next
    case 3
    show ?thesis using inv_ok2 [OF assms(1) execute_ok [OF _ 3] assms(2)] assms(1) by (simp add: server_inv_def)
  qed
qed

lemma handle_command_inv:
  assumes "server_inv s" "handle_command E i s = Inr s'"
  shows "server_inv s'"
proof -
  obtain r t where r: "read_from get_int (sock (cli i s)) s = (r, t)" by fastforce
  have "safe (clients s) t" using safe_read [of "clients s" get_int "sock (cli i s)" s] assms(1) unfolding r by (simp add: server_inv_def)
  then have t: "server_inv t" using assms(1) by (auto simp: server_inv_def [of s] intro: safe_inv)
  then show ?thesis using assms(2) r
    by (auto simp: handle_command_def bindR_eq_Inr split: option.splits if_splits intro: disconnect_inv dest: execute_inv)
qed

lemma handle_clients_inv: "server_inv s \<Longrightarrow> handle_clients E fds s = Inr s' \<Longrightarrow> server_inv s'"
  unfolding handle_clients_def
  by (erule foldR_invariant [rotated]) (auto simp: handle_client_def split: if_splits intro: handle_command_inv)

text \<open>Clients come and go.\<close>

lemma add_client_inv:
  assumes "server_inv s" and "\<forall>c\<in>set (clients s). sock c \<noteq> fd" and "add_client fd s = Inr (ok, s')"
  shows "server_inv s'"
proof -
  let ?i = "first_client (\<lambda>c. sock c = -1) (clients s) 0"
  let ?c = "\<lparr>sock = fd, wants_plist_events = False, events = event_queue_init, requests_plist = False, can_send_plist = False, lock = False\<rparr>"
  show ?thesis
  proof (cases "?i = -1")
    case False
    then obtain j where j: "j < length (clients s)" "?i = int j" "sock (clients s ! j) = -1"
      using first_client_cases [of "\<lambda>c. sock c = -1" "clients s" 0] by auto
    let ?cs = "(clients s)[j := ?c]"
    from False j assms(3) have r: "clear_tags_queue (int j) (upd_cli j (\<lambda>_. ?c) s) = Inr s'"
      by (auto simp: add_client_def Let_def bindR_eq_Inr)
    have "safe ?cs (upd_cli j (\<lambda>_. ?c) s)" using assms(1) init_queue_ok
      by (auto simp: server_inv_def safe_def upd_cli_def cl_rel_def intro: list_all2_refl dest!: set_update_subset_insert [THEN subsetD])
    then have "safe ?cs s'" using clear_tags_ok [of ?cs "upd_cli j (\<lambda>_. ?c) s" "int j"] r by (simp add: ok1_def)
    moreover have "own_socks ?cs" using assms(1,2) j unfolding server_inv_def own_socks_def
      by (auto simp: nth_list_update live_def)
    moreover have "one_lock ?cs" using assms(1) j(1) unfolding server_inv_def one_lock_def by (auto simp: nth_list_update live_def)
    ultimately show ?thesis by (intro safe_inv)
  qed (use assms in \<open>simp add: add_client_def\<close>)
qed

lemma same_clients_inv:
  "clients s' = clients s \<Longrightarrow> s_tags s' = s_tags s \<Longrightarrow> seed s' = seed s \<Longrightarrow> server_inv s' = server_inv s"
  by (simp add: server_inv_def safe_def)

lemma set_conn_inv [simp]: "server_inv (set_conn fd c s) = server_inv s"
  by (rule same_clients_inv) (simp_all add: set_conn_def)

lemma busy_inv: "server_inv s \<Longrightarrow> server_inv (busy fd s)"
  using inv_safe [of s] safe_inv [of "clients s" "busy fd s"] by (simp add: busy_def server_inv_def)

definition io_ok :: "io \<Rightarrow> ('d, 'h, 's) server \<Rightarrow> bool" where
  "io_ok w s \<longleftrightarrow> (case io_accept w of Some (Some (fd, c)) \<Rightarrow> 0 \<le> fd \<and> (\<forall>x\<in>set (clients s). sock x \<noteq> fd) | _ \<Rightarrow> True)"

lemma accept_inv:
  assumes "server_inv s" "io_ok w s" "accept_client (io_accept w) s = Inr s'"
  shows "server_inv s'"
proof (cases "\<exists>fd c. io_accept w = Some (Some (fd, c))")
  case True
  then obtain fd c where w: "io_accept w = Some (Some (fd, c))" by blast
  from assms(3) w obtain ok t where t: "add_client fd (set_conn fd c s) = Inr (ok, t)" "s' = (if ok then t else busy fd t)"
    by (auto simp: accept_client_def bindR_eq_Inr)
  have "\<forall>x\<in>set (clients (set_conn fd c s)). sock x \<noteq> fd" using assms(2) w by (simp add: io_ok_def set_conn_def)
  from add_client_inv [OF _ this t(1)] have "server_inv t" using assms(1) by simp
  then show ?thesis using t(2) busy_inv [of t fd] by simp
next
  case False
  then show ?thesis using assms(1,3) by (auto simp: accept_client_def split: option.splits)
qed

text \<open>Sending the events of a client.\<close>

lemma send_noblock_ok:
  assumes "queue_ok q" "pending q = e # es"
  shows "\<exists>st q'. event_send_noblock r wb q = Inr (st, if r > 0 then take (nat r) (packet_bytes e) else [], q') \<and> queue_ok q'
    \<and> (if r > 0 then st = NB_IO_OK \<and> pending q' = es else q' = q \<and> st = (if wb then NB_IO_BLOCK else NB_IO_ERR))"
proof -
  have q: "queue_inv q" "data_fits e" using assms by (auto simp: queue_ok_def)
  obtain b where b: "make_event_packet e = Inr b" "pb_buf b = packet_bytes e" using make_event_packet_ok [OF q(2)] .
  obtain a ys where ys: "holds q ((a, e) # ys)" "map snd ys = es" using pending_cons [OF q(1) assms(2)] .
  obtain q' where q': "event_get_first q = Inr (Some e)" "event_pop q = Inr q'" "holds q' ys" using event_pop_holds [OF ys(1)] by blast
  have "\<not> event_queue_empty q" using ys(1) by (simp add: holds_def event_queue_empty_def)
  moreover have "queue_ok q'" "pending q' = es" using holds_pending [OF q'(3)] ys(2) q'(3) assms by (auto simp: queue_ok_def queue_inv_def)
  ultimately show ?thesis using q' b assms(1) by (auto simp: event_send_noblock_def)
qed

lemma send_event_step:
  assumes "safe cs s" "i < CLIENTS_MAX" "pending (events (cli i s)) = e # es"
  shows "\<exists>st t. send_event i s = Inr (st, t) \<and> safe cs t \<and> (st = NB_IO_OK \<longrightarrow> pending (events (cli i t)) = es)
    \<and> (\<forall>c. open_conn (sock (cli i s)) s = Some c \<and> c_sends c = [] \<and> length (packet_bytes e) < 2 ^ 31
        \<longrightarrow> st = NB_IO_OK \<and> sock (cli i t) = sock (cli i s) \<and> open_conn (sock (cli i t)) t = Some (c\<lparr>c_out := c_out c @ packet_bytes e\<rparr>))"
proof (cases "open_conn (sock (cli i s)) s")
  case None
  from send_noblock_ok [OF safe_queue [OF assms(1,2)] assms(3), of "-1" False] None show ?thesis
    using assms(1) by (auto simp: send_event_def)
next
  case (Some c)
  define r where "r = (case c_sends c of [] \<Rightarrow> 2 ^ 31 | r # rs \<Rightarrow> r)"
  define rs where "rs = (case c_sends c of [] \<Rightarrow> [] | r # rs \<Rightarrow> rs)"
  from send_noblock_ok [OF safe_queue [OF assms(1,2)] assms(3), of r "r < -1"] obtain st q where
    q: "event_send_noblock r (r < -1) (events (cli i s)) = Inr (st, if r > 0 then take (nat r) (packet_bytes e) else [], q)" "queue_ok q"
    "if r > 0 then st = NB_IO_OK \<and> pending q = es else q = events (cli i s) \<and> st = (if r < -1 then NB_IO_BLOCK else NB_IO_ERR)" by blast
  define t where "t = set_conn (sock (cli i s)) (c\<lparr>c_out := c_out c @ (if r > 0 then take (nat r) (packet_bytes e) else []), c_sends := rs\<rparr>)
    (upd_cli i (\<lambda>c. c\<lparr>events := q\<rparr>) s)"
  have p: "(case c_sends c of [] \<Rightarrow> (2 ^ 31, []) | r # rs \<Rightarrow> (r, rs)) = (r, rs)" by (simp add: r_def rs_def split: list.split)
  have run: "send_event i s = Inr (st, t)" using q(1) by (simp add: send_event_def Let_def Some p t_def)
  have i: "i < length (clients s)" using assms(2) safe_length [OF assms(1)] by simp
  have "safe cs t" unfolding t_def using safe_upd_events [OF assms(1)] q(2) by simp
  moreover have "cli i t = (cli i s)\<lparr>events := q\<rparr>" using i by (simp add: t_def cli_upd)
  moreover have "open_conn (sock (cli i s)) t = Some (c\<lparr>c_out := c_out c @ packet_bytes e\<rparr>)" if "c_sends c = []" "length (packet_bytes e) < 2 ^ 31"
    using that open_conn_SomeD [OF Some] by (simp add: t_def open_conn_set r_def rs_def)
  ultimately show ?thesis using run q(3) Some by (auto simp: r_def split: if_splits)
qed

lemma flush_loop_total:
  "safe cs s \<Longrightarrow> i < CLIENTS_MAX \<Longrightarrow> \<exists>st t. flush_loop k i s = Inr (st, t) \<and> safe cs t"
proof (induction k arbitrary: s)
  case (Suc k)
  show ?case
  proof (cases "event_queue_empty (events (cli i s))")
    case False
    have q: "queue_inv (events (cli i s))" using safe_queue [OF Suc.prems] by (simp add: queue_ok_def)
    then obtain e es where e: "pending (events (cli i s)) = e # es"
      using False pending_empty [of "events (cli i s)"] by (cases "pending (events (cli i s))") (auto simp: event_queue_empty_def)
    from send_event_step [OF Suc.prems e] obtain st t where t: "send_event i s = Inr (st, t)" "safe cs t" by blast
    then show ?thesis using False Suc.IH [OF t(2) Suc.prems(2)] Suc.prems(1) by auto
  qed (use Suc in auto)
qed auto

lemma flush_events_total: "safe cs s \<Longrightarrow> i < CLIENTS_MAX \<Longrightarrow> \<exists>ok t. flush_events i s = Inr (ok, t) \<and> safe cs t"
  using flush_loop_total [of cs s i "fresh (events (cli i s))"] by (auto simp: flush_events_def)

lemma del_client_total:
  assumes "safe cs s" "i < CLIENTS_MAX"
  shows "\<exists>t. del_client i s = Inr t \<and> safe cs t"
proof -
  define u where "u = upd_cli i (\<lambda>c. c\<lparr>sock := -1\<rparr>) s"
  have u: "safe cs u" unfolding u_def by (rule safe_upd_sock [OF assms(1)])
  obtain q where q: "event_queue_free (events (cli i u)) = Inr q" "queue_ok q" using event_free_ok [OF safe_queue [OF u assms(2)]] by blast
  define v where "v = upd_cli i (\<lambda>c. c\<lparr>events := q\<rparr>) u"
  have v: "safe cs v" unfolding v_def using safe_upd_events [OF u] q(2) by simp
  have "clients v ! i \<in> set (clients v)" using safe_length [OF v] assms(2) by simp
  then have "0 \<le> client_index i v \<and> client_index i v < int CLIENTS_MAX"
    using first_client_cases [of "\<lambda>c. sock c = sock (cli i v)" "clients v" 0] safe_length [OF v] by (auto simp: client_index_def cli_def)
  then obtain t where "clear_tags_queue (client_index i v) v = Inr t"
    using clear_queue_total [of "s_tags v" "client_index i v"] v by (auto simp: clear_tags_queue_def safe_def)
  then have "del_client i s = Inr t" by (simp add: del_client_def Let_def u_def [symmetric] q(1) v_def [symmetric])
  then show ?thesis using del_client_ok [OF assms(1), of i] by (simp add: ok1_def)
qed

lemma disconnect_total: "safe cs s \<Longrightarrow> i < CLIENTS_MAX \<Longrightarrow> \<exists>t. disconnect i s = Inr t \<and> safe cs t"
  unfolding disconnect_def by (rule del_client_total) simp_all

lemma fold_total:
  "safe cs s \<Longrightarrow> (\<And>x s. x \<in> set xs \<Longrightarrow> safe cs s \<Longrightarrow> \<exists>t. f x s = Inr t \<and> safe cs t) \<Longrightarrow> \<exists>t. foldR f xs s = Inr t \<and> safe cs t"
proof (induction xs arbitrary: s)
  case (Cons x xs)
  obtain t where "f x s = Inr t" "safe cs t" using Cons.prems by (meson list.set_intros(1))
  then show ?case using Cons by simp
qed auto

lemma send_events_total: "safe cs s \<Longrightarrow> \<exists>t. send_events fds s = Inr t \<and> safe cs t"
  unfolding send_events_def
proof (rule fold_total)
  fix i and s :: "('a, 'b, 'c) server"
  assume i: "i \<in> set [0..<CLIENTS_MAX]" and s: "safe cs s"
  obtain ok t where t: "flush_events i s = Inr (ok, t)" "safe cs t" using flush_events_total [OF s, of i] i by auto
  show "\<exists>t. (if sock (cli i s) \<noteq> -1 \<and> sock (cli i s) \<in> set fds then bindR (flush_events i s) (\<lambda>(ok, s). if ok then Inr s else disconnect i s)
      else Inr s) = Inr t \<and> safe cs t"
    using t disconnect_total [OF t(2), of i] i s by auto
qed

lemma close_clients_total: "safe cs s \<Longrightarrow> \<exists>t. close_clients s = Inr t \<and> safe cs t"
  unfolding close_clients_def by (rule fold_total) (auto intro!: disconnect_total)

section \<open>All interleavings\<close>

text \<open>
  One step: a round of the main loop, an answer of the thread that reads tags, a notification of another
  thread, a change of the player's state by its own threads, or bytes that arrive. The descriptor of a new
  connection is not in use.
\<close>

inductive server_step :: "('d, 'h, 's) server \<Rightarrow> ('d, 'h, 's) server \<Rightarrow> bool" where
  round: "io_ok w s \<Longrightarrow> server_round E w s = Inr s' \<Longrightarrow> server_step s s'"
| reader: "reader_round T (s_audio s) cq (s_tags s) = Inr (r, cq', c) \<Longrightarrow>
    (case r of None \<Rightarrow> Inr (s\<lparr>s_tags := c\<rparr>) | Some (i, f, t) \<Rightarrow> tags_response (int i) f t (s\<lparr>s_tags := c\<rparr>)) = Inr s' \<Longrightarrow> server_step s s'"
| notify: "notify E n s = Inr s' \<Longrightarrow> server_step s s'"
| player: "server_step s (s\<lparr>s_audio := a, s_out := b, s_dev := d, curr_tags := t, player_requests := p\<rparr>)"
| arrive: "server_step s (s\<lparr>net := n\<rparr>)"

inductive server_run :: "('d, 'h, 's) server \<Rightarrow> ('d, 'h, 's) server \<Rightarrow> bool" where
  start: "server_run s s"
| step: "server_run s t \<Longrightarrow> server_step t u \<Longrightarrow> server_run s u"

lemma pop_inv: "queue_inv q \<Longrightarrow> request_queue_pop q = Inr (r, q') \<Longrightarrow> queue_inv q'"
proof (cases "pending q")
  case Nil
  assume "queue_inv q" "request_queue_pop q = Inr (r, q')"
  then show ?thesis using Nil pending_empty [of q] by (auto simp: request_queue_pop_def)
next
  case (Cons a as)
  assume "queue_inv q" "request_queue_pop q = Inr (r, q')"
  then show ?thesis using request_queue_pop_ok [OF _ Cons] by fastforce
qed

lemma reader_round_tags:
  assumes "tags_ok c" "reader_round E a cq c = Inr (r, cq', c')"
  shows "tags_ok c'"
proof (cases "find_queue (queues c) cq")
  case (Some i)
  from assms(2) Some obtain x q f n t where q: "i < length (queues c)" "request_queue_pop (queues c ! i) = Inr (x, q)" "x = Some (f, n)"
    "tags_cache_read_add E a f n (int i) (c\<lparr>queues := (queues c)[i := q]\<rparr>) = Inr (t, c')"
    by (auto simp: reader_round_def bindR_eq_Inr arr_get_eq_Inr arr_set_eq_Inr split: option.splits prod.splits)
  have "queue_inv q" using assms(1) q(1,2) by (auto simp: tags_ok_def intro: pop_inv)
  then show ?thesis using read_add_queues [OF q(4)] assms(1)
    by (auto simp: tags_ok_def dest!: set_update_subset_insert [THEN subsetD])
qed (use assms in \<open>simp add: reader_round_def\<close>)

lemma server_round_inv:
  assumes "server_inv s" "io_ok w s" "server_round E w s = Inr s'"
  shows "server_inv s'"
proof (cases "server_quit s \<or> io_select w \<noteq> Selected")
  case False
  then obtain t u v where t: "accept_client (io_accept w) s = Inr t" "u = (if io_woken w then t\<lparr>wake_ups := wake_ups t - 1\<rparr> else t)"
    "send_events (filter (\<lambda>fd. fd \<in> set (snd (add_clients_fds s))) (io_write w)) u = Inr v"
    "handle_clients E (filter (\<lambda>fd. fd \<in> set (fst (add_clients_fds s))) (io_read w)) v = Inr s'"
    using assms(3) unfolding server_round_def Let_def split_beta by (auto simp: bindR_eq_Inr simp del: bindR_Inr)
  have "server_inv t" by (rule accept_inv [OF assms(1,2) t(1)])
  then have u: "server_inv u" using same_clients_inv [of u t] t(2) by simp
  from send_events_total [OF inv_safe [OF u], of "filter (\<lambda>fd. fd \<in> set (snd (add_clients_fds s))) (io_write w)"] t(3)
  have "safe (clients u) v" by auto
  then have "server_inv v" using u by (auto simp: server_inv_def [of u] intro: safe_inv)
  then show ?thesis by (rule handle_clients_inv [OF _ t(4)])
next
  case True
  then show ?thesis using assms(1,3) by (cases "io_select w") (auto simp: server_round_def split: if_splits prod.splits)
qed

lemma server_step_inv:
  assumes "server_step s s'" "server_inv s"
  shows "server_inv s'"
  using assms
proof cases
  case (round w E)
  then show ?thesis using server_round_inv assms(2) by blast
next
  case (reader T cq r cq' c)
  have "tags_ok c" using reader_round_tags [OF _ reader(1)] inv_safe [OF assms(2)] by (simp add: safe_def)
  then have "safe (clients s) (s\<lparr>s_tags := c\<rparr>)" by (rule safe_tags [OF inv_safe [OF assms(2)]])
  then have "ok1 (clients s) (case r of None \<Rightarrow> Inr (s\<lparr>s_tags := c\<rparr>) | Some (i, f, t) \<Rightarrow> tags_response (int i) f t (s\<lparr>s_tags := c\<rparr>))"
    by (intro ok_option(1) ok1_Inr ok_prod(1) tags_response_ok)
  then show ?thesis by (rule inv_ok1 [OF assms(2) _ reader(2)])
next
  case (notify E n)
  then show ?thesis using inv_ok1 [OF assms(2) notify_ok] inv_safe [OF assms(2)] by blast
next
  case (player a b d t p)
  then show ?thesis using same_clients_inv [of s' s] assms(2) by simp
next
  case (arrive n)
  then show ?thesis using same_clients_inv [of s' s] assms(2) by simp
qed

lemma server_run_inv: "server_run s t \<Longrightarrow> server_inv s \<Longrightarrow> server_inv t"
  by (induction rule: server_run.induct) (auto intro: server_step_inv)

lemma tags_init_ok: "tags_ok (tags_cache_init n)"
  using event_queue_init_inv by (auto simp: tags_ok_def tags_cache_init_def request_queue_init_def queue_inv_def holds_def intro: exI [of _ "[]"])

lemma server_start_inv: "server_inv (server_start dev out m e opts (tags_cache_init n))"
proof -
  have c: "clients_init (replicate CLIENTS_MAX static_client) = replicate CLIENTS_MAX (static_client\<lparr>sock := -1\<rparr>)" by (simp add: clients_init_def)
  show ?thesis unfolding server_inv_def server_start_def c
    using init_queue_ok tags_init_ok [of n]
    by (auto simp: safe_def cl_rel_def one_lock_def own_socks_def live_def static_client_def intro: list_all2_refl)
qed

section \<open>Who gets an event\<close>

definition gets :: "int \<Rightarrow> client \<Rightarrow> bool" where
  "gets ev c \<longleftrightarrow> live c \<and> (wants_plist_events c \<or> \<not> is_plist_event ev)"

definition queued :: "int \<Rightarrow> ev_data \<Rightarrow> client \<Rightarrow> client \<Rightarrow> bool" where
  "queued ev d c c' \<longleftrightarrow> c' = c\<lparr>events := events c'\<rparr> \<and>
     pending (events c') = pending (events c) @ (if gets ev c then [\<lparr>e_type = ev, e_data = d\<rparr>] else [])"

lemma add_for_queued:
  assumes "safe cs s" "i < CLIENTS_MAX" "data_fits \<lparr>e_type = ev, e_data = d\<rparr>" "ev \<noteq> EV_FILE_TAGS" "copy_data ev d = Inr d'"
  shows "\<exists>t. add_for ev d i (b, s) = Inr (b \<or> gets ev (cli i s), t) \<and> safe cs t \<and> net t = net s \<and> queued ev d' (cli i s) (cli i t)
    \<and> (\<forall>j. j \<noteq> i \<longrightarrow> cli j t = cli j s)"
proof (cases "gets ev (cli i s)")
  case True
  let ?e = "\<lparr>e_type = ev, e_data = d'\<rparr>"
  have q: "queue_ok (events (cli i s))" by (rule safe_queue [OF assms(1,2)])
  then obtain q' where q': "event_push ?e (events (cli i s)) = Inr q'" "pending q' = pending (events (cli i s)) @ [?e]"
    using event_push_ok [of "events (cli i s)" ?e] by (auto simp: queue_ok_def)
  let ?t = "upd_cli i (\<lambda>c. c\<lparr>events := q'\<rparr>) s"
  have run: "add_for ev d i (b, s) = Inr (True, ?t)" using True q'(1) assms(5) by (auto simp: add_for_def add_event_def gets_def live_def)
  moreover have "safe cs ?t" using add_for_ok [of cs "(b, s)" i ev d] assms run by (auto simp: ok2_def)
  moreover have "cli i ?t = (cli i s)\<lparr>events := q'\<rparr>" using assms(2) safe_length [OF assms(1)] by (simp add: cli_upd)
  ultimately show ?thesis using True q'(2) by (auto simp: queued_def cli_upd) (simp_all add: upd_cli_def)
next
  case False
  then show ?thesis using assms(1) by (auto simp: add_for_def gets_def live_def queued_def)
qed

lemma add_loop_queued:
  assumes "safe cs s" "data_fits \<lparr>e_type = ev, e_data = d\<rparr>" "ev \<noteq> EV_FILE_TAGS" "copy_data ev d = Inr d'"
  shows "k \<le> CLIENTS_MAX \<Longrightarrow> \<exists>b t. foldR (add_for ev d) [0..<k] (False, s) = Inr (b, t) \<and> safe cs t \<and> net t = net s
    \<and> (b \<longleftrightarrow> (\<exists>j<k. gets ev (cli j s))) \<and> (\<forall>j<k. queued ev d' (cli j s) (cli j t)) \<and> (\<forall>j\<ge>k. cli j t = cli j s)"
proof (induction k)
  case (Suc k)
  then obtain b t where t: "foldR (add_for ev d) [0..<k] (False, s) = Inr (b, t)" "safe cs t" "net t = net s"
    "b \<longleftrightarrow> (\<exists>j<k. gets ev (cli j s))" "\<forall>j<k. queued ev d' (cli j s) (cli j t)" "\<forall>j\<ge>k. cli j t = cli j s" by auto
  have "k < CLIENTS_MAX" using Suc.prems by simp
  from add_for_queued [OF t(2) this assms(2-4), of b] obtain u where
    u: "add_for ev d k (b, t) = Inr (b \<or> gets ev (cli k t), u)" "safe cs u" "net u = net t" "queued ev d' (cli k t) (cli k u)"
    "\<forall>j. j \<noteq> k \<longrightarrow> cli j u = cli j t" by blast
  have "foldR (add_for ev d) [0..<Suc k] (False, s) = Inr (b \<or> gets ev (cli k s), u)" using t(1,6) u(1) by (simp add: foldR_append)
  then show ?case using t u by (auto simp: less_Suc_eq)
qed (use assms in auto)

lemma add_event_all_queued:
  assumes "safe cs s" "data_fits \<lparr>e_type = ev, e_data = d\<rparr>" "ev \<noteq> EV_FILE_TAGS" "ev \<noteq> EV_STATE" "copy_data ev d = Inr d'"
  shows "\<exists>t. add_event_all E ev d s = Inr t \<and> safe cs t \<and> net t = net s \<and> (\<forall>j<CLIENTS_MAX. queued ev d' (cli j s) (cli j t))"
  using add_loop_queued [OF assms(1,2,3,5), of CLIENTS_MAX] assms(4)
  by (auto simp: add_event_all_def wake_up_server_def cli_def)

lemma read_open:
  assumes "open_conn fd s = Some c" "f (c_in c) = (r, ch)"
  shows "read_from f fd s = (r, set_conn fd (c\<lparr>c_in := ch\<rparr>) s)" "open_conn fd (set_conn fd (c\<lparr>c_in := ch\<rparr>) s) = Some (c\<lparr>c_in := ch\<rparr>)"
  using assms open_conn_SomeD [OF assms(1)] by (simp_all add: read_from_def open_conn_set)

section \<open>Properties\<close>

text \<open>
  C35: In every state the server can reach, whatever the clients send, the network does and the other
  threads report, at most one client holds the lock, and while it does no command of another client is
  executed; the assertion in \<^verbatim>\<open>client_lock\<close> never fails where the main loop executes commands. No two
  clients share a slot or a descriptor, and sending the queued events and closing all connections never
  fails an assertion or follows a dangling pointer.
\<close>

theorem server_lock_exclusive:
  assumes "server_run (server_start dev out m e opts (tags_cache_init n)) s"
  shows "(\<forall>i<CLIENTS_MAX. \<forall>j<CLIENTS_MAX. live (cli i s) \<and> lock (cli i s) \<and> live (cli j s) \<and> j \<noteq> i
        \<longrightarrow> \<not> lock (cli j s) \<and> handle_client E fds j s = Inr s)
    \<and> (\<forall>i<CLIENTS_MAX. locking_client s = -1 \<or> is_locking i s \<longrightarrow> client_lock i s \<noteq> Inl Assert)
    \<and> (\<forall>i<CLIENTS_MAX. live (cli i s) \<longrightarrow> client_index i s = int i)
    \<and> (\<exists>t. send_events fds s = Inr t) \<and> (\<exists>t. close_clients s = Inr t)"
proof -
  have inv: "server_inv s" by (rule server_run_inv [OF assms server_start_inv])
  have len: "length (clients s) = CLIENTS_MAX" by (rule inv_length [OF inv])
  have one: "i = j" if "i < CLIENTS_MAX" "j < CLIENTS_MAX" "live (cli i s)" "lock (cli i s)" "live (cli j s)" "lock (cli j s)" for i j
    using inv that len by (auto simp: server_inv_def one_lock_def cli_def)
  have "handle_client E fds j s = Inr s"
    if "i < CLIENTS_MAX" "j < CLIENTS_MAX" "live (cli i s)" "lock (cli i s)" "live (cli j s)" "j \<noteq> i" for i j
  proof -
    have "\<not> lock (cli j s)" using one that by blast
    moreover have "locking_client s \<noteq> -1" using no_lock [of s i] that len by auto
    ultimately show ?thesis by (simp add: handle_client_def is_locking_def)
  qed
  moreover have "client_lock i s \<noteq> Inl Assert" if "locking_client s = -1 \<or> is_locking i s" for i
    using that by (auto simp: client_lock_def is_locking_def)
  moreover have "client_index i s = int i" if "i < CLIENTS_MAX" "live (cli i s)" for i
    using first_client_cases [of "\<lambda>c. sock c = sock (cli i s)" "clients s" 0] inv that len
    by (auto simp: client_index_def server_inv_def own_socks_def cli_def live_def)
  ultimately show ?thesis using one send_events_total [OF inv_safe [OF inv], of fds] close_clients_total [OF inv_safe [OF inv]] by blast
qed

text \<open>
  C36: A client that adds a file to its playlist tells all the others: the server reads the item and appends
  it, with its tags, to the queue of every connected client that asked for playlist events, and to no other queue.
\<close>

theorem server_broadcasts_item:
  assumes "server_run (server_start dev out m e opts (tags_cache_init n)) s" and "i < CLIENTS_MAX" and "good_item x" "i_file x = Some f"
    and "open_conn (sock (cli i s)) s = Some c" and "c_in c = stream (enc_int CMD_CLI_PLIST_ADD @ item_bytes f x @ rest)"
  shows "\<exists>t y. handle_command E i s = Inr t \<and> i_file y = Some f \<and> i_tags y = Some (sent_tags (i_tags x))
    \<and> (\<forall>j<CLIENTS_MAX. sock (cli j t) = sock (cli j s) \<and> pending (events (cli j t)) = pending (events (cli j s)) @
         (if live (cli j s) \<and> wants_plist_events (cli j s) then [\<lparr>e_type = EV_PLIST_ADD, e_data = Item y\<rparr>] else []))"
proof -
  have inv: "server_inv s" by (rule server_run_inv [OF assms(1) server_start_inv])
  let ?fd = "sock (cli i s)" and ?it = "sent_item (fs_of E) x"
  have g: "get_int (c_in c) = (Some CMD_CLI_PLIST_ADD, stream (item_bytes f x @ rest))"
    unfolding assms(6) by (rule get_int_enc) (simp add: int32_def cmd_defs)
  let ?c = "c\<lparr>c_in := stream (item_bytes f x @ rest)\<rparr>"
  define s1 where "s1 = set_conn ?fd ?c s"
  define s2 where "s2 = set_conn ?fd (?c\<lparr>c_in := stream rest\<rparr>) s1"
  note r1 = read_open [where f = get_int, OF assms(5) g, folded s1_def]
  have g2: "recv_item (fs_of E) (c_in ?c) = (Some ?it, stream rest)" using recv_item_bytes [OF assms(3,4)] by simp
  note r2 = read_open [where f = "recv_item (fs_of E)", OF r1(2) g2, folded s2_def]
  have s2: "safe (clients s) s2" "\<And>j. cli j s2 = cli j s" using inv_safe [OF inv] by (simp_all add: s1_def s2_def)
  have it: "i_file ?it = Some f" "i_tags ?it = Some (sent_tags (i_tags x))" using assms(4) by (simp_all add: sent_item_def)
  have cp: "copy_data EV_PLIST_ADD (Item ?it) = Inr (Item (plist_item_copy plist_new_item ?it))" by (simp add: copy_data_def)
  have "data_fits \<lparr>e_type = EV_PLIST_ADD, e_data = Item ?it\<rparr>" using it by simp
  from add_event_all_queued [OF s2(1) this _ _ cp, of E] obtain t where
    t: "add_event_all E EV_PLIST_ADD (Item ?it) s2 = Inr t"
    "\<forall>j<CLIENTS_MAX. queued EV_PLIST_ADD (Item (plist_item_copy plist_new_item ?it)) (cli j s2) (cli j t)" by (auto simp: ev_defs)
  have "execute E i CMD_CLI_PLIST_ADD s1 = plist_sync_cmd E i CMD_CLI_PLIST_ADD s1" by (simp add: execute_def cmd_defs)
  then have "execute E i CMD_CLI_PLIST_ADD s1 = Inr (True, t)"
    using r2(1) t(1) by (simp add: plist_sync_cmd_def with_read_def fine_def s1_def)
  then have "handle_command E i s = Inr t" using r1(1) by (simp add: handle_command_def)
  moreover have "sock (cli j t) = sock (cli j s)" "pending (events (cli j t)) = pending (events (cli j s)) @
      (if live (cli j s) \<and> wants_plist_events (cli j s) then [\<lparr>e_type = EV_PLIST_ADD, e_data = Item (plist_item_copy plist_new_item ?it)\<rparr>] else [])"
    if "j < CLIENTS_MAX" for j
  proof -
    have q: "queued EV_PLIST_ADD (Item (plist_item_copy plist_new_item ?it)) (cli j s) (cli j t)" using t(2) that s2(2) by simp
    have "cli j t = (cli j s)\<lparr>events := events (cli j t)\<rparr>" using q by (simp add: queued_def)
    then show "sock (cli j t) = sock (cli j s)" by (metis client.select_convs(1) client.surjective client.update_convs(3))
    show "pending (events (cli j t)) = pending (events (cli j s)) @
      (if live (cli j s) \<and> wants_plist_events (cli j s) then [\<lparr>e_type = EV_PLIST_ADD, e_data = Item (plist_item_copy plist_new_item ?it)\<rparr>] else [])"
      using q by (simp add: queued_def gets_def is_plist_event_def)
  qed
  ultimately show ?thesis using it by (intro exI [of _ t] exI [of _ "plist_item_copy plist_new_item ?it"]) (auto simp: plist_item_copy_def tags_dup_def tags_copy_def)
qed

lemma flush_loop_delivers:
  "safe cs s \<Longrightarrow> i < CLIENTS_MAX \<Longrightarrow> open_conn (sock (cli i s)) s = Some c \<Longrightarrow> c_sends c = [] \<Longrightarrow>
     \<forall>e\<in>set (pending (events (cli i s))). length (packet_bytes e) < 2 ^ 31 \<Longrightarrow> length (pending (events (cli i s))) \<le> k \<Longrightarrow>
     \<exists>t. flush_loop k i s = Inr (NB_IO_OK, t) \<and> pending (events (cli i t)) = [] \<and> sock (cli i t) = sock (cli i s)
       \<and> open_conn (sock (cli i t)) t = Some (c\<lparr>c_out := c_out c @ concat (map packet_bytes (pending (events (cli i s))))\<rparr>)"
proof (induction k arbitrary: s c)
  case (Suc k)
  have q: "queue_inv (events (cli i s))" using safe_queue [OF Suc.prems(1,2)] by (simp add: queue_ok_def)
  show ?case
  proof (cases "pending (events (cli i s))")
    case Nil
    then show ?thesis using pending_empty [OF q] Suc.prems by (simp add: event_queue_empty_def)
  next
    case (Cons e es)
    from send_event_step [OF Suc.prems(1,2) Cons] Suc.prems(3,4,5) Cons obtain t where
      t: "send_event i s = Inr (NB_IO_OK, t)" "safe cs t" "pending (events (cli i t)) = es" "sock (cli i t) = sock (cli i s)"
      "open_conn (sock (cli i t)) t = Some (c\<lparr>c_out := c_out c @ packet_bytes e\<rparr>)" by auto
    have "\<not> event_queue_empty (events (cli i s))" using pending_empty [OF q] Cons by (simp add: event_queue_empty_def)
    then have run: "flush_loop (Suc k) i s = flush_loop k i t" using t(1) by simp
    from Suc.IH [OF t(2) Suc.prems(2) t(5)] Suc.prems(4-6) Cons t(3,4) show ?thesis unfolding run by auto
  qed
qed (auto)

text \<open>
  C37: A client whose socket takes what is sent gets all events that are queued for it, as packets in the order in
  which they were queued, and its queue is empty afterwards.
\<close>

theorem server_delivers_events:
  assumes "server_run (server_start dev out m e opts (tags_cache_init n)) s" and "i < CLIENTS_MAX"
    and "open_conn (sock (cli i s)) s = Some c" "c_sends c = []" "\<forall>e\<in>set (pending (events (cli i s))). length (packet_bytes e) < 2 ^ 31"
  shows "\<exists>t. flush_events i s = Inr (True, t) \<and> pending (events (cli i t)) = []
    \<and> open_conn (sock (cli i t)) t = Some (c\<lparr>c_out := c_out c @ concat (map packet_bytes (pending (events (cli i s))))\<rparr>)"
proof -
  have inv: "server_inv s" by (rule server_run_inv [OF assms(1) server_start_inv])
  have q: "queue_inv (events (cli i s))" using safe_queue [OF inv_safe [OF inv] assms(2)] by (simp add: queue_ok_def)
  obtain xs where xs: "holds (events (cli i s)) xs" "pending (events (cli i s)) = map snd xs" using queue_cases [OF q] .
  have "length (pending (events (cli i s))) \<le> fresh (events (cli i s))" using holds_length [OF xs(1)] xs(2) by simp
  from flush_loop_delivers [OF inv_safe [OF inv] assms(2-5) this] show ?thesis by (auto simp: flush_events_def)
qed

section \<open>Serial numbers\<close>

lemma serial_bits:
  fixes sd i :: int
  assumes "0 \<le> i" "i < 256"
  shows "push_bit 8 sd OR i = sd * 256 + i"
proof -
  have "take_bit 8 i = i" using assms by (simp add: take_bit_int_eq_self_iff)
  then have "bit i k \<Longrightarrow> k < 8" for k by (metis bit_take_bit_iff)
  then have "push_bit 8 sd AND i = 0" by (intro bit_eqI) (force simp: bit_simps)
  then have "push_bit 8 sd OR i = push_bit 8 sd + i" by (simp add: disjunctive_add_eq_or)
  then show ?thesis by (simp add: push_bit_eq_mult)
qed

lemma serial_loop_two:
  assumes "0 \<le> i" "i < 256" "0 \<le> sd" "sd < 256"
  shows "\<exists>n sd'. serial_loop 2 i used sd = Some (n, sd') \<and> n \<noteq> used \<and> n mod 256 = i \<and> 0 \<le> n \<and> n < 2 ^ 16"
proof -
  define sd' where "sd' = (sd + 1) AND 255"
  have "sd' = (sd + 1) mod 256"
    using take_bit_eq_mask [of 8 "sd + 1"] by (simp add: sd'_def take_bit_eq_mod mask_eq_exp_minus_1)
  then have "sd' = (if sd = 255 then 0 else sd + 1)" using assms(3,4) by simp
  then have n: "sd' \<noteq> sd" "0 \<le> sd'" "sd' < 256" using assms(3,4) by auto
  have g: "(x * 256 + i) mod 256 = i \<and> 0 \<le> x * 256 + i \<and> x * 256 + i < 65536" if "0 \<le> x" "x < 256" for x
    using that assms(1,2) by simp
  have run: "serial_loop 2 i used sd = (if sd * 256 + i = used then if sd' * 256 + i = used then None else Some (sd' * 256 + i, (sd' + 1) AND 255)
      else Some (sd * 256 + i, sd'))"
    unfolding numeral_2_eq_2 serial_loop.simps Let_def serial_bits [OF assms(1,2)] sd'_def by simp
  show ?thesis
  proof (cases "sd * 256 + i = used")
    case True
    then have "sd' * 256 + i \<noteq> used" using n(1) by simp
    then show ?thesis using True run g [OF n(2,3)] by simp
  qed (use run g [OF assms(3,4)] in simp)
qed

text \<open>
  C38: The serial number a client gets ends its search after at most two rounds, differs from the one of the server's
  playlist, and has the index of the client in its low byte, so that two clients never get the same number.
\<close>

theorem server_serial_fresh:
  assumes "server_run (server_start dev out m e opts (tags_cache_init n)) s" and "i < CLIENTS_MAX" "live (cli i s)"
  shows "\<exists>k t. gen_serial i s = Inr (k, t) \<and> k \<noteq> audio_plist_get_serial (s_audio s) \<and> k mod 256 = int i \<and> 0 \<le> k \<and> k < 2 ^ 16"
proof -
  have inv: "server_inv s" by (rule server_run_inv [OF assms(1) server_start_inv])
  have "client_index i s = int i"
    using first_client_cases [of "\<lambda>c. sock c = sock (cli i s)" "clients s" 0] inv assms(2,3) inv_length [OF inv]
    by (auto simp: client_index_def server_inv_def own_socks_def cli_def live_def)
  moreover have "0 \<le> seed s" "seed s < 256" using inv_safe [OF inv] by (simp_all add: safe_def)
  ultimately show ?thesis using serial_loop_two [of "int i" "seed s" "audio_plist_get_serial (s_audio s)"] assms(2)
    by (auto simp: gen_serial_def CLIENTS_MAX_def)
qed

section \<open>Forwarding a playlist\<close>

lemma sent_tags_sent: "sent_tags (Some (sent_tags t)) = sent_tags t"
  by (cases t) (auto simp: sent_tags_def tags_new_def or_empty_def non_empty_def)

lemma item_bytes_sent: "item_bytes f (sent_item fs x) = item_bytes f x"
  by (simp add: item_bytes_def sent_item_def sent_tags_sent)

definition list_bytes :: "plist_item list \<Rightarrow> string" where
  "list_bytes xs = concat (map (\<lambda>x. item_bytes (the (i_file x)) x) xs) @ send_str []"

lemma set_conn_keeps [simp]: "clients (set_conn fd c s) = clients s" "s_tags (set_conn fd c s) = s_tags s"
  by (simp_all add: set_conn_def)

lemma send_bytes_open:
  assumes "open_conn fd s = Some c" "c_sends c = []"
  shows "send_bytes b fd s = (True, set_conn fd (c\<lparr>c_out := c_out c @ b\<rparr>) s)"
proof -
  have "send_all [] b = (True, b)" "sends_left [] b = []" by (cases b; simp)+
  then show ?thesis using assms by (cases c) (simp add: send_bytes_def)
qed

lemma send_once_open:
  "open_conn fd s = Some c \<Longrightarrow> c_sends c = [] \<Longrightarrow> send_once b fd s = (True, set_conn fd (c\<lparr>c_out := c_out c @ b\<rparr>) s)"
  by (simp add: send_once_def)

lemma send_item_open:
  assumes "open_conn fd s = Some c" "c_sends c = []" "i_file x = Some f"
  shows "send_item_to (Some x) fd s = Inr (True, set_conn fd (c\<lparr>c_out := c_out c @ item_bytes f x\<rparr>) s)"
  using appends_item [OF packet_buf_new_ok(1) assms(3)] send_bytes_open [OF assms(1,2)] packet_buf_new_ok
  by (auto simp: send_item_to_def appends_def)

lemma relay_loop_items:
  assumes "fd \<noteq> sock (cli i s)"
  shows "\<forall>x\<in>set xs. good_item x \<Longrightarrow> open_conn (sock (cli i s)) s = Some ci \<Longrightarrow> c_in ci = stream (list_bytes xs @ rest) \<Longrightarrow>
     open_conn fd s = Some cr \<Longrightarrow> c_sends cr = [] \<Longrightarrow>
     \<exists>t. relay_loop fs i r fd s = Inr (True, fd, t) \<and> clients t = clients s \<and> s_tags t = s_tags s
       \<and> open_conn fd t = Some (cr\<lparr>c_out := c_out cr @ concat (map (\<lambda>x. item_bytes (the (i_file x)) x) xs)\<rparr>)
       \<and> open_conn (sock (cli i s)) t = Some (ci\<lparr>c_in := stream rest\<rparr>)"
  using assms
proof (induction xs arbitrary: s ci cr)
  case Nil
  let ?fd = "sock (cli i s)"
  have g: "recv_item fs (c_in ci) = (Some (plist_new_item\<lparr>i_file := Some []\<rparr>), stream rest)"
    using Nil.prems(3) get_str_enc [of "[]" rest] by (simp add: list_bytes_def recv_item_def then_get_def short_def MAX_SEND_STRING_def)
  note r = read_open [where f = "recv_item fs", OF Nil.prems(2) g]
  then show ?case using Nil.prems by (subst relay_loop.simps) (auto simp: or_empty_def open_conn_set)
next
  case (Cons x xs)
  let ?fd = "sock (cli i s)"
  obtain f where f: "i_file x = Some f" "f \<noteq> []" using Cons.prems(1) by (auto simp: good_item_def)
  let ?y = "sent_item fs x" and ?ci = "ci\<lparr>c_in := stream (list_bytes xs @ rest)\<rparr>"
  have g: "recv_item fs (c_in ci) = (Some ?y, stream (list_bytes xs @ rest))"
    using recv_item_bytes [of x f fs "list_bytes xs @ rest"] Cons.prems(1,3) f by (simp add: list_bytes_def)
  note r = read_open [where f = "recv_item fs", OF Cons.prems(2) g]
  define s1 where "s1 = set_conn ?fd ?ci s"
  have o1: "open_conn fd s1 = Some cr" "cli i s1 = cli i s" using Cons.prems(4,6) by (simp_all add: s1_def open_conn_set)
  define cr' where "cr' = cr\<lparr>c_out := c_out cr @ item_bytes f x\<rparr>"
  define s2 where "s2 = set_conn fd cr' s1"
  have y: "i_file ?y = Some f" using f(1) by (simp add: sent_item_def)
  have "send_item_to (Some ?y) fd s1 = Inr (True, s2)"
    using send_item_open [OF o1(1) Cons.prems(5) y] by (simp add: item_bytes_sent s2_def cr'_def)
  moreover have "fd \<noteq> -1" using Cons.prems(4) by auto
  ultimately have one: "relay_one r fd ?y s1 = Inr (fd, s2)" by (simp add: relay_one_def)
  have step: "relay_loop fs i r fd s = relay_loop fs i r fd s2"
    using r(1) one y f(2) by (subst relay_loop.simps) (simp add: s1_def or_empty_def)
  have p: "\<forall>x\<in>set xs. good_item x" "open_conn (sock (cli i s2)) s2 = Some ?ci" "c_in ?ci = stream (list_bytes xs @ rest)"
    "open_conn fd s2 = Some cr'" "c_sends cr' = []" "fd \<noteq> sock (cli i s2)"
    using Cons.prems r(2) open_conn_SomeD [OF Cons.prems(4)] by (simp_all add: s2_def s1_def open_conn_set cr'_def)
  from Cons.IH [OF p] show ?case unfolding step using f(1) by (auto simp: s2_def s1_def cr'_def)
qed

lemma send_str_open:
  assumes "open_conn fd s = Some c" "c_sends c = []"
  shows "\<exists>t. send_str_to b fd s = (True, t) \<and> clients t = clients s \<and> s_tags t = s_tags s
    \<and> open_conn fd t = Some (c\<lparr>c_out := c_out c @ send_str b\<rparr>) \<and> (\<forall>fd'. fd' \<noteq> fd \<longrightarrow> open_conn fd' t = open_conn fd' s)"
proof -
  define u where "u = set_conn fd (c\<lparr>c_out := c_out c @ enc_int (int (length b))\<rparr>) s"
  have o1: "open_conn fd u = Some (c\<lparr>c_out := c_out c @ enc_int (int (length b))\<rparr>)"
    using open_conn_SomeD [OF assms(1)] by (simp add: u_def open_conn_set)
  have "send_str_to b fd s = send_once b fd u"
    using send_once_open [OF assms, of "enc_int (int (length b))"] by (simp add: send_str_to_def send_int_to_def u_def)
  moreover have "send_once b fd u = (True, set_conn fd (c\<lparr>c_out := c_out c @ send_str b\<rparr>) u)"
    using send_once_open [OF o1, of b] assms(2) by (simp add: send_str_def)
  ultimately show ?thesis using open_conn_SomeD [OF assms(1)] by (auto simp: u_def open_conn_set)
qed

text \<open>
  C39: The client that asked for a playlist receives exactly what another client sends, byte for byte: the serial number, all
  items with their tags and the end mark. It is no longer waiting then, and nothing of the sender's later commands is consumed.
\<close>

theorem server_forwards_playlist:
  assumes "server_run (server_start dev out m e opts (tags_cache_init n)) s" and "i < CLIENTS_MAX" "r < CLIENTS_MAX" "r \<noteq> i"
    and "find_cli_requesting_plist s = int r" and "open_conn (sock (cli r s)) s = Some cr" "c_sends cr = []"
    and "open_conn (sock (cli i s)) s = Some ci" "c_in ci = stream (enc_int CMD_SEND_PLIST @ enc_int sn @ list_bytes xs @ rest)"
    and "int32 sn" "\<forall>x\<in>set xs. good_item x"
  shows "\<exists>t. handle_command E i s = Inr t \<and> \<not> requests_plist (cli r t) \<and> open_conn (sock (cli i s)) t = Some (ci\<lparr>c_in := stream rest\<rparr>)
    \<and> open_conn (sock (cli r s)) t = Some (cr\<lparr>c_out := c_out cr @ enc_int EV_DATA @ enc_int sn @ list_bytes xs\<rparr>)"
proof -
  have inv: "server_inv s" by (rule server_run_inv [OF assms(1) server_start_inv])
  let ?fi = "sock (cli i s)" and ?fr = "sock (cli r s)"
  have pos: "0 \<le> ?fi" "0 \<le> ?fr" "c_open cr" "c_open ci" using open_conn_SomeD assms(6,8) by blast+
  have ne: "?fr \<noteq> ?fi" using inv assms(2-4) pos inv_length [OF inv] by (auto simp: server_inv_def own_socks_def cli_def live_def)
  have g1: "get_int (c_in ci) = (Some CMD_SEND_PLIST, stream (enc_int sn @ list_bytes xs @ rest))"
    unfolding assms(9) by (rule get_int_enc) (simp add: int32_def cmd_defs)
  define c1 where "c1 = ci\<lparr>c_in := stream (enc_int sn @ list_bytes xs @ rest)\<rparr>"
  define s1 where "s1 = set_conn ?fi c1 s"
  note r1 = read_open [where f = get_int, OF assms(8) g1, folded c1_def, folded s1_def]
  have o1: "open_conn ?fr s1 = Some cr" using assms(6) ne by (simp add: s1_def open_conn_set)
  define s2 where "s2 = set_conn ?fr (cr\<lparr>c_out := c_out cr @ enc_int EV_DATA\<rparr>) s1"
  have d2: "relay_int r ?fr EV_DATA s1 = Inr (?fr, s2)" using send_once_open [OF o1 assms(7)] by (simp add: relay_int_def send_int_to_def s2_def)
  have o2: "open_conn ?fi s2 = Some c1" "open_conn ?fr s2 = Some (cr\<lparr>c_out := c_out cr @ enc_int EV_DATA\<rparr>)"
    using r1(2) ne pos by (simp_all add: s2_def open_conn_set)
  have g2: "get_int (c_in c1) = (Some sn, stream (list_bytes xs @ rest))" using get_int_enc [OF assms(10)] by (simp add: c1_def)
  define c2 where "c2 = c1\<lparr>c_in := stream (list_bytes xs @ rest)\<rparr>"
  define s3 where "s3 = set_conn ?fi c2 s2"
  note r2 = read_open [where f = get_int, OF o2(1) g2, folded c2_def, folded s3_def]
  have o3: "open_conn ?fr s3 = Some (cr\<lparr>c_out := c_out cr @ enc_int EV_DATA\<rparr>)" using o2(2) ne by (simp add: s3_def open_conn_set)
  define cr4 where "cr4 = cr\<lparr>c_out := c_out cr @ enc_int EV_DATA @ enc_int sn\<rparr>"
  define s4 where "s4 = set_conn ?fr cr4 s3"
  have d4: "relay_int r ?fr sn s3 = Inr (?fr, s4)"
    using send_once_open [OF o3, of "enc_int sn"] assms(7) by (simp add: relay_int_def send_int_to_def s4_def cr4_def)
  have o4: "open_conn ?fi s4 = Some c2" "open_conn ?fr s4 = Some cr4" "c_sends cr4 = []" "\<And>j. cli j s4 = cli j s" "clients s4 = clients s"
    using r2(2) ne pos assms(7) by (simp_all add: s4_def s3_def s2_def s1_def open_conn_set cr4_def)
  have "\<exists>t. relay_loop (fs_of E) i r ?fr s4 = Inr (True, ?fr, t) \<and> clients t = clients s4 \<and> s_tags t = s_tags s4
       \<and> open_conn ?fr t = Some (cr4\<lparr>c_out := c_out cr4 @ concat (map (\<lambda>x. item_bytes (the (i_file x)) x) xs)\<rparr>)
       \<and> open_conn (sock (cli i s4)) t = Some (c2\<lparr>c_in := stream rest\<rparr>)"
    using ne o4 by (intro relay_loop_items assms(11)) (simp_all add: c2_def)
  then obtain t where t: "relay_loop (fs_of E) i r ?fr s4 = Inr (True, ?fr, t)" "clients t = clients s"
    "open_conn ?fr t = Some (cr4\<lparr>c_out := c_out cr4 @ concat (map (\<lambda>x. item_bytes (the (i_file x)) x) xs)\<rparr>)"
    "open_conn ?fi t = Some (c2\<lparr>c_in := stream rest\<rparr>)" using o4(4,5) by auto
  from send_str_open [OF t(3), of "[]"] assms(7) obtain u where u: "send_str_to [] ?fr t = (True, u)" "clients u = clients t"
    "open_conn ?fr u = Some (cr4\<lparr>c_out := c_out cr4 @ list_bytes xs\<rparr>)" "open_conn ?fi u = open_conn ?fi t"
    using ne by (auto simp: cr4_def list_bytes_def)
  define v where "v = upd_cli r (\<lambda>c. c\<lparr>requests_plist := False\<rparr>) u"
  have "find_cli_requesting_plist s1 = int r" "cli r s1 = cli r s" "\<And>j. cli j s2 = cli j s" using assms(5) by (simp_all add: find_cli_requesting_plist_def s2_def s1_def)
  moreover have "?fr \<noteq> -1" using pos by simp
  ultimately have "req_send_plist E i s1 = Inr (True, v)"
    using d2 r2(1) d4 t(1) u(1) by (simp add: req_send_plist_def Let_def with_read_def send_item_to_def v_def)
  moreover have "execute E i CMD_SEND_PLIST s1 = req_send_plist E i s1" by (simp add: execute_def cmd_defs)
  ultimately have "handle_command E i s = Inr v" using r1(1) by (simp add: handle_command_def)
  moreover have "\<not> requests_plist (cli r v)" using u(2) t(2) inv_length [OF inv] assms(3) by (simp add: v_def cli_upd)
  ultimately show ?thesis using u t by (auto simp: v_def cr4_def c2_def c1_def)
qed

section \<open>A request that is never answered\<close>

lemma clear_tags_frame: "clear_tags_queue j s = Inr t \<Longrightarrow> net t = net s \<and> clients t = clients s"
  by (auto simp: clear_tags_queue_def bindR_eq_Inr)

lemma del_client_frame: "del_client d s = Inr t \<Longrightarrow> net t = net s \<and> (\<forall>j. j \<noteq> d \<longrightarrow> cli j t = cli j s)"
  by (auto simp: del_client_def Let_def bindR_eq_Inr dest!: clear_tags_frame) (auto simp: upd_cli_def cli_def)

lemma set_conn_twice [simp]: "set_conn fd c (set_conn fd c' s) = set_conn fd c s"
  by (simp add: set_conn_def)

lemma open_conn_net: "net t = net s \<Longrightarrow> open_conn fd t = open_conn fd s"
  by (simp add: open_conn_def)

lemma relay_loop_skip:
  "\<forall>x\<in>set xs. good_item x \<Longrightarrow> open_conn (sock (cli i s)) s = Some ci \<Longrightarrow> c_in ci = stream (list_bytes xs @ rest) \<Longrightarrow>
     relay_loop fs i r (-1) s = Inr (True, -1, set_conn (sock (cli i s)) (ci\<lparr>c_in := stream rest\<rparr>) s)"
proof (induction xs arbitrary: s ci)
  case Nil
  have g: "recv_item fs (c_in ci) = (Some (plist_new_item\<lparr>i_file := Some []\<rparr>), stream rest)"
    using Nil.prems(3) get_str_enc [of "[]" rest] by (simp add: list_bytes_def recv_item_def then_get_def short_def MAX_SEND_STRING_def)
  show ?case using read_open(1) [where f = "recv_item fs", OF Nil.prems(2) g] by (subst relay_loop.simps) (simp add: or_empty_def)
next
  case (Cons x xs)
  let ?fd = "sock (cli i s)" and ?ci = "ci\<lparr>c_in := stream (list_bytes xs @ rest)\<rparr>"
  obtain f where f: "i_file x = Some f" "f \<noteq> []" using Cons.prems(1) by (auto simp: good_item_def)
  have g: "recv_item fs (c_in ci) = (Some (sent_item fs x), stream (list_bytes xs @ rest))"
    using recv_item_bytes [of x f fs "list_bytes xs @ rest"] Cons.prems(1,3) f by (simp add: list_bytes_def)
  note r = read_open [where f = "recv_item fs", OF Cons.prems(2) g]
  have "relay_loop fs i r (-1) s = relay_loop fs i r (-1) (set_conn ?fd ?ci s)"
    using r(1) f by (subst relay_loop.simps) (simp add: relay_one_def or_empty_def sent_item_def)
  also have "\<dots> = Inr (True, -1, set_conn (sock (cli i (set_conn ?fd ?ci s))) (?ci\<lparr>c_in := stream rest\<rparr>) (set_conn ?fd ?ci s))"
    using Cons.prems r(2) by (intro Cons.IH) simp_all
  finally show ?case by simp
qed

text \<open>
  C40: When a client disconnects while it waits for a playlist, its request stays in its slot. The playlist that the next
  client asks for is then read and thrown away: nothing reaches the client that waits, and it goes on waiting.
\<close>

theorem server_stale_request:
  assumes "server_run (server_start dev out m e opts (tags_cache_init n)) s" and "i < CLIENTS_MAX" "d < CLIENTS_MAX" "r \<noteq> d"
    and "find_cli_requesting_plist s = int d" "\<not> live (cli d s)" and "requests_plist (cli r s)" "sock (cli r s) \<noteq> sock (cli i s)"
    and "open_conn (sock (cli i s)) s = Some ci" "c_in ci = stream (enc_int CMD_SEND_PLIST @ enc_int sn @ list_bytes xs @ rest)"
    and "int32 sn" "\<forall>x\<in>set xs. good_item x"
  shows "\<exists>t. handle_command E i s = Inr t \<and> open_conn (sock (cli i s)) t = Some (ci\<lparr>c_in := stream rest\<rparr>)
    \<and> requests_plist (cli r t) \<and> sock (cli r t) = sock (cli r s) \<and> open_conn (sock (cli r s)) t = open_conn (sock (cli r s)) s"
proof -
  have inv: "server_inv s" by (rule server_run_inv [OF assms(1) server_start_inv])
  let ?fi = "sock (cli i s)"
  have di: "i \<noteq> d" using assms(6,9) by (auto simp: live_def)
  have g1: "get_int (c_in ci) = (Some CMD_SEND_PLIST, stream (enc_int sn @ list_bytes xs @ rest))"
    unfolding assms(10) by (rule get_int_enc) (simp add: int32_def cmd_defs)
  define c1 where "c1 = ci\<lparr>c_in := stream (enc_int sn @ list_bytes xs @ rest)\<rparr>"
  define s1 where "s1 = set_conn ?fi c1 s"
  note r1 = read_open [where f = get_int, OF assms(9) g1, folded c1_def, folded s1_def]
  have "safe (clients s) s1" using inv_safe [OF inv] by (simp add: s1_def)
  then obtain s2 where s2: "del_client d s1 = Inr s2" using del_client_total assms(3) by blast
  have f2: "net s2 = net s1" "\<And>j. j \<noteq> d \<Longrightarrow> cli j s2 = cli j s" using del_client_frame [OF s2] by (simp_all add: s1_def)
  have dead: "sock (cli d s1) = -1" using assms(6) by (simp add: live_def s1_def)
  have d2: "relay_int d (sock (cli d s1)) EV_DATA s1 = Inr (-1, s2)"
    using s2 by (simp add: relay_int_def send_int_to_def send_once_def drop_requesting_def close_fd_def dead)
  have o2: "open_conn ?fi s2 = Some c1" using r1(2) open_conn_net [OF f2(1)] by simp
  have g2: "get_int (c_in c1) = (Some sn, stream (list_bytes xs @ rest))" using get_int_enc [OF assms(11)] by (simp add: c1_def)
  define c2 where "c2 = c1\<lparr>c_in := stream (list_bytes xs @ rest)\<rparr>"
  define s3 where "s3 = set_conn ?fi c2 s2"
  note r2 = read_open [where f = get_int, OF o2 g2, folded c2_def, folded s3_def]
  have i3: "cli i s3 = cli i s" using f2(2) [OF di] by (simp add: s3_def)
  define s4 where "s4 = set_conn ?fi (c2\<lparr>c_in := stream rest\<rparr>) s3"
  have l: "relay_loop (fs_of E) i d (-1) s3 = Inr (True, -1, s4)"
    using relay_loop_skip [of xs i s3 c2 rest "fs_of E" d] assms(12) r2(2) i3 by (simp add: c2_def s4_def)
  define t where "t = upd_cli d (\<lambda>c. c\<lparr>requests_plist := False\<rparr>) s4"
  have "find_cli_requesting_plist s1 = int d" using assms(5) by (simp add: find_cli_requesting_plist_def s1_def)
  then have "req_send_plist E i s1 = Inr (True, t)"
    using d2 r2(1) l f2(2) [OF di] by (simp add: req_send_plist_def Let_def with_read_def t_def)
  moreover have "execute E i CMD_SEND_PLIST s1 = req_send_plist E i s1" by (simp add: execute_def cmd_defs)
  ultimately have "handle_command E i s = Inr t" using r1(1) by (simp add: handle_command_def)
  moreover have "cli r t = cli r s" using f2(2) [OF assms(4)] assms(4) by (simp add: t_def s4_def s3_def cli_upd)
  moreover have "open_conn (sock (cli r s)) t = open_conn (sock (cli r s)) s"
    using assms(8) f2(1) by (simp add: t_def s4_def s3_def open_conn_set) (simp add: open_conn_def s1_def set_conn_def)
  moreover have "open_conn ?fi t = Some (ci\<lparr>c_in := stream rest\<rparr>)"
    using open_conn_SomeD [OF assms(9)] by (simp add: t_def s4_def open_conn_set c2_def c1_def)
  ultimately show ?thesis using assms(7) by auto
qed

section \<open>Witnesses\<close>

text \<open>
  A server on the null device. In a round, a client may connect with all the bytes that it will send, and some
  descriptors are ready for reading.
\<close>

definition sample_buf :: "byte out_buf" where
  "sample_buf = \<lparr>ob_fifo = \<lparr>buf = [0], bsize = 1, pos = 0, fill = 0\<rparr>, ob_pause = False, ob_exit = False, ob_stop = False,
      reset_dev = False, ob_time = 0, hardware_buf_fill = 0, read_thread_waiting = False, free_callback = False\<rparr>"

definition sample_mixer :: softmixer where
  "sample_mixer = \<lparr>active = False, mix_mono = False, mixer_val = 100, mixer_amp = 100, mixer_real = 100, mixer_realf = 1\<rparr>"

definition sample_equalizer :: equalizer where
  "sample_equalizer = \<lparr>eq_nodes = [None], current_equ = None, sample_rate = 44100, equ_active = False, equ_channels = 2, mixin_rate = 0, r_mixin_rate = 1,
      preamp = 0, preampf = 1, config_preset_name = No_name\<rparr>"

definition sample_start :: "((string \<times> string) list, null_dev, unit) server" where
  "sample_start = server_start sample_device sample_buf sample_mixer sample_equalizer options_static (tags_cache_init 0)"

definition sample_env :: "(string \<times> string) list server_env" where
  "sample_env = \<lparr>e_tags = sample_tags_env, e_libm = \<lparr>pow10f = id, m_sin = id, m_cos = id, m_sinh = id\<rparr>, e_presets = None, e_fork = True\<rparr>"

definition connect :: "int \<Rightarrow> string \<Rightarrow> int list \<Rightarrow> io" where
  "connect fd b ready = \<lparr>io_select = Selected,
     io_accept = (if fd = -1 then None else Some (Some (fd, \<lparr>c_in = \<lparr>inp = b, avail = []\<rparr>, c_out = [], c_sends = [], c_open = True\<rparr>))),
     io_woken = False, io_read = ready, io_write = []\<rparr>"

fun sample_rounds :: "io list \<Rightarrow> ((string \<times> string) list, null_dev, unit) server \<Rightarrow> ((string \<times> string) list, null_dev, unit) server option" where
  "sample_rounds [] s = Some s"
| "sample_rounds (w # ws) s =
     (if io_ok w s then (case server_round sample_env w s of Inl _ \<Rightarrow> None | Inr t \<Rightarrow> sample_rounds ws t) else None)"

lemma sample_rounds_run: "server_run s0 s \<Longrightarrow> sample_rounds ws s = Some t \<Longrightarrow> server_run s0 t"
proof (induction ws arbitrary: s)
  case (Cons w ws)
  then obtain u where u: "io_ok w s" "server_round sample_env w s = Inr u" "sample_rounds ws u = Some t" by (auto split: if_splits sum.splits)
  from server_run.step [OF Cons.prems(1) server_step.round [OF u(1,2)]] show ?case using Cons.IH u(3) by blast
qed simp

lemma sample_server_run:
  assumes "case sample_rounds ws sample_start of None \<Rightarrow> False | Some s \<Rightarrow> P s"
  shows "\<exists>s. server_run sample_start s \<and> P s"
  using assms sample_rounds_run [OF server_run.start] by (auto split: option.splits)

lemma run_arrive: "server_run s0 s \<Longrightarrow> server_run s0 (set_conn fd c s)"
  unfolding set_conn_def by (erule server_run.step) (rule server_step.arrive)

definition lock_rounds :: "io list" where
  "lock_rounds = [connect 5 (enc_int CMD_LOCK) [], connect 6 [] [5]]"

definition clear_rounds :: "io list" where
  "clear_rounds = [connect 5 (enc_int CMD_CLI_PLIST_CLEAR) [], connect 6 (enc_int CMD_SEND_PLIST_EVENTS) [], connect (-1) [] [6]]"

definition request_rounds :: "io list" where
  "request_rounds = [connect 5 (enc_int CMD_CAN_SEND_PLIST) [], connect 6 (enc_int CMD_GET_PLIST) [5], connect 7 (enc_int CMD_GET_PLIST) [6]]"

lemma lock_rounds_end:
  "case sample_rounds lock_rounds sample_start of None \<Rightarrow> False
    | Some s \<Rightarrow> live (cli 0 s) \<and> lock (cli 0 s) \<and> live (cli 1 s)"
  by code_simp

lemma clear_rounds_end:
  "case sample_rounds clear_rounds sample_start of None \<Rightarrow> False
    | Some s \<Rightarrow> sock (cli 0 s) = 5 \<and> live (cli 1 s) \<and> wants_plist_events (cli 1 s)"
  by code_simp

lemma deliver_rounds_end:
  "case sample_rounds (clear_rounds @ [connect (-1) [] [5]]) sample_start of None \<Rightarrow> False
    | Some s \<Rightarrow> open_conn (sock (cli 1 s)) s = Some \<lparr>c_in = stream [], c_out = [], c_sends = [], c_open = True\<rparr>
       \<and> pending (events (cli 1 s)) = [\<lparr>e_type = EV_PLIST_CLEAR, e_data = No_data\<rparr>]"
  by code_simp

lemma request_rounds_end:
  "case sample_rounds request_rounds sample_start of None \<Rightarrow> False
    | Some s \<Rightarrow> find_cli_requesting_plist s = 1 \<and> requests_plist (cli 1 s) \<and> sock (cli 0 s) = 5 \<and> sock (cli 1 s) = 6
       \<and> open_conn 6 s = Some \<lparr>c_in = stream [], c_out = enc_int EV_DATA @ enc_int 1, c_sends = [], c_open = True\<rparr>"
  by code_simp

lemma stale_rounds_end:
  "case sample_rounds (request_rounds @ [connect (-1) [] [6], connect (-1) [] [7]]) sample_start of None \<Rightarrow> False
    | Some s \<Rightarrow> find_cli_requesting_plist s = 1 \<and> \<not> live (cli 1 s) \<and> requests_plist (cli 2 s) \<and> sock (cli 0 s) = 5 \<and> sock (cli 2 s) = 7"
  by code_simp

theorem server_lock_exclusive_witness:
  "\<exists>s. server_run sample_start s \<and> live (cli 0 s) \<and> lock (cli 0 s) \<and> live (cli 1 s) \<and> \<not> lock (cli 1 s) \<and> handle_client sample_env [6] 1 s = Inr s"
proof -
  obtain s where s: "server_run sample_start s"
    "live (cli 0 s) \<and> lock (cli 0 s) \<and> live (cli 1 s)" using sample_server_run [OF lock_rounds_end] by blast
  from server_lock_exclusive [OF s(1) [unfolded sample_start_def], of sample_env "[6]", THEN conjunct1] s(2)
  have "\<not> lock (cli 1 s) \<and> handle_client sample_env [6] 1 s = Inr s" unfolding CLIENTS_MAX_def by fastforce
  then show ?thesis using s by blast
qed

theorem server_broadcasts_item_witness:
  "\<exists>s t y. server_run sample_start s \<and> handle_command sample_env 0 s = Inr t \<and> i_file y = Some ''/a.ogg'' \<and>
     pending (events (cli 1 t)) = pending (events (cli 1 s)) @ [\<lparr>e_type = EV_PLIST_ADD, e_data = Item y\<rparr>]"
proof -
  obtain u where u: "server_run sample_start u"
    "sock (cli 0 u) = 5 \<and> live (cli 1 u) \<and> wants_plist_events (cli 1 u)" using sample_server_run [OF clear_rounds_end] by blast
  let ?c = "\<lparr>c_in = stream (enc_int CMD_CLI_PLIST_ADD @ item_bytes ''/a.ogg'' sample_item @ []), c_out = [], c_sends = [], c_open = True\<rparr>"
  let ?s = "set_conn 5 ?c u"
  have "open_conn (sock (cli 0 ?s)) ?s = Some ?c" using u(2) by (simp add: open_conn_set)
  from server_broadcasts_item [OF run_arrive [OF u(1) [unfolded sample_start_def], of 5 ?c] _ sample_item_good _ this, of "''/a.ogg''" "[]" sample_env]
  obtain t y where t: "handle_command sample_env 0 ?s = Inr t" "i_file y = Some ''/a.ogg''"
    "\<forall>j<CLIENTS_MAX. sock (cli j t) = sock (cli j ?s) \<and> pending (events (cli j t)) = pending (events (cli j ?s)) @
       (if live (cli j ?s) \<and> wants_plist_events (cli j ?s) then [\<lparr>e_type = EV_PLIST_ADD, e_data = Item y\<rparr>] else [])"
    by (auto simp: CLIENTS_MAX_def sample_item_def)
  have "pending (events (cli 1 t)) = pending (events (cli 1 ?s)) @ [\<lparr>e_type = EV_PLIST_ADD, e_data = Item y\<rparr>]"
    using t(3) u(2) by (simp add: CLIENTS_MAX_def)
  then show ?thesis using t(1,2) run_arrive [OF u(1), of 5 ?c] by blast
qed

theorem server_delivers_events_witness:
  "\<exists>s t. server_run sample_start s \<and> pending (events (cli 1 s)) \<noteq> [] \<and> flush_events 1 s = Inr (True, t) \<and> pending (events (cli 1 t)) = []
     \<and> open_conn (sock (cli 1 t)) t = Some \<lparr>c_in = stream [], c_out = enc_int EV_PLIST_CLEAR, c_sends = [], c_open = True\<rparr>"
proof -
  obtain s where s: "server_run sample_start s"
    "open_conn (sock (cli 1 s)) s = Some \<lparr>c_in = stream [], c_out = [], c_sends = [], c_open = True\<rparr>
     \<and> pending (events (cli 1 s)) = [\<lparr>e_type = EV_PLIST_CLEAR, e_data = No_data\<rparr>]" using sample_server_run [OF deliver_rounds_end] by blast
  have p: "packet_bytes \<lparr>e_type = EV_PLIST_CLEAR, e_data = No_data\<rparr> = enc_int EV_PLIST_CLEAR" by code_simp
  have l: "length (enc_int EV_PLIST_CLEAR) < 2 ^ 31" by (simp add: enc_int_def)
  show ?thesis using server_delivers_events [OF s(1) [unfolded sample_start_def], of 1 "\<lparr>c_in = stream [], c_out = [], c_sends = [], c_open = True\<rparr>"] s p l
    by (auto simp: CLIENTS_MAX_def)
qed

theorem server_serial_fresh_witness:
  "\<exists>s. server_run sample_start s \<and> live (cli 1 s) \<and>
     (\<exists>k t. gen_serial 1 s = Inr (k, t) \<and> k \<noteq> audio_plist_get_serial (s_audio s) \<and> k mod 256 = 1 \<and> k < 2 ^ 16)"
proof -
  obtain s where s: "server_run sample_start s"
    "live (cli 0 s) \<and> lock (cli 0 s) \<and> live (cli 1 s)" using sample_server_run [OF lock_rounds_end] by blast
  show ?thesis using server_serial_fresh [OF s(1) [unfolded sample_start_def], of 1] s by (auto simp: CLIENTS_MAX_def)
qed

theorem server_forwards_playlist_witness:
  "\<exists>s t. server_run sample_start s \<and> handle_command sample_env 0 s = Inr t \<and> requests_plist (cli 1 s) \<and> \<not> requests_plist (cli 1 t)
     \<and> open_conn 6 t = Some \<lparr>c_in = stream [], c_out = enc_int EV_DATA @ enc_int 1 @ enc_int EV_DATA @ enc_int 7 @ list_bytes [sample_item],
         c_sends = [], c_open = True\<rparr>"
proof -
  let ?r = "\<lparr>c_in = stream [], c_out = enc_int EV_DATA @ enc_int 1, c_sends = [], c_open = True\<rparr>"
  obtain u where u: "server_run sample_start u"
    "find_cli_requesting_plist u = 1 \<and> requests_plist (cli 1 u) \<and> sock (cli 0 u) = 5 \<and> sock (cli 1 u) = 6 \<and> open_conn 6 u = Some ?r"
    using sample_server_run [OF request_rounds_end] by blast
  let ?c = "\<lparr>c_in = stream (enc_int CMD_SEND_PLIST @ enc_int 7 @ list_bytes [sample_item] @ []), c_out = [], c_sends = [], c_open = True\<rparr>"
  let ?s = "set_conn 5 ?c u"
  have "find_cli_requesting_plist ?s = int 1" "open_conn (sock (cli 1 ?s)) ?s = Some ?r" "open_conn (sock (cli 0 ?s)) ?s = Some ?c"
    using u(2) by (simp_all add: open_conn_set find_cli_requesting_plist_def)
  from server_forwards_playlist [OF run_arrive [OF u(1) [unfolded sample_start_def], of 5 ?c] _ _ _ this(1,2) _ this(3), of 7 "[sample_item]" "[]" sample_env]
  show ?thesis using u(2) sample_item_good run_arrive [OF u(1), of 5 ?c] by (auto simp: CLIENTS_MAX_def int32_def)
qed

theorem server_stale_request_witness:
  "\<exists>s t. server_run sample_start s \<and> live (cli 2 s) \<and> requests_plist (cli 2 s) \<and> handle_command sample_env 0 s = Inr t \<and> requests_plist (cli 2 t)
     \<and> open_conn 7 t = open_conn 7 s \<and> open_conn 5 t = Some \<lparr>c_in = stream [], c_out = [], c_sends = [], c_open = True\<rparr>"
proof -
  obtain u where u: "server_run sample_start u"
    "find_cli_requesting_plist u = 1 \<and> \<not> live (cli 1 u) \<and> requests_plist (cli 2 u) \<and> sock (cli 0 u) = 5 \<and> sock (cli 2 u) = 7"
    using sample_server_run [OF stale_rounds_end] by blast
  let ?c = "\<lparr>c_in = stream (enc_int CMD_SEND_PLIST @ enc_int 7 @ list_bytes [sample_item] @ []), c_out = [], c_sends = [], c_open = True\<rparr>"
  let ?s = "set_conn 5 ?c u"
  have "find_cli_requesting_plist ?s = int 1" "\<not> live (cli 1 ?s)" "requests_plist (cli 2 ?s)" "sock (cli 2 ?s) \<noteq> sock (cli 0 ?s)"
    "open_conn (sock (cli 0 ?s)) ?s = Some ?c" using u(2) by (simp_all add: open_conn_set find_cli_requesting_plist_def)
  from server_stale_request [OF run_arrive [OF u(1) [unfolded sample_start_def], of 5 ?c] _ _ _ this(1-5), of 7 "[sample_item]" "[]" sample_env]
  show ?thesis using u(2) sample_item_good run_arrive [OF u(1), of 5 ?c] by (auto simp: CLIENTS_MAX_def int32_def live_def)
qed

end
