(* ===== verification/Spec2Isabelle.thy ===== *)
theory Spec2Isabelle
  imports Cron_Spec Rtrd_Main Cli Plist_Props Event_Queue Softmixer_Spec Play_Order_Spec Playlist_File_Spec Out_Buf Str_Lists Options_Spec Tags_Cache_Spec Cache_Dir Equalizer_Spec
    Audio_Dev_Spec Server_Spec
begin

text \<open>
  A verification development for read-the-room, a music player daemon that chooses songs by
  rules on the time of day, and for the music server MOC 2.5.0 that it carries along.

  \<^bold>\<open>The program.\<close> \<^verbatim>\<open>rtrd\<close> becomes a daemon, reads a configuration of cron-like rules with
  tags and then serves a Unix socket. A client asks for a song (\<^verbatim>\<open>REQFILE\<close>); the daemon
  collects the tags of the rules that apply at the moment, turns them into a query for the tag
  database \<^verbatim>\<open>tmsu\<close> and runs it through the shell. Other messages are kept in a queue of one
  message for the player, which polls for it. \<^verbatim>\<open>cli\<close> is the command line client. The music
  server under \<^verbatim>\<open>src/src/moc-2.5.0\<close> keeps playlists and a queue, plays them in a thread,
  converts and mixes the sound, and talks to its clients by a binary protocol with a queue of
  events for each client.

  \<^bold>\<open>Conventions.\<close> A C function that may not return gives a value of \<open>'a result\<close>: on the left a
  \<open>fault\<close> (\<open>Exit\<close> with its status, \<open>Assert\<close>, \<open>Undefined\<close> for an access the C standard leaves
  undefined), on the right its value; \<open>bindR\<close> composes such functions. State is a record that
  is passed along. Integers have the width of the source where wrap-around can be observed
  (samples, protocol words, bit sets) and are unbounded elsewhere; strings are lists of
  characters up to their terminator, and a buffer is a list of characters or words with its size.
  The C library is modelled as far as the sources use it; the shell, the file system, other
  processes, the locale's order of names, random numbers, the mathematical
  functions, the tag database and libsamplerate are parameters.

  \<^bold>\<open>The theories\<close>, each component in its own:
    \<^item> \<^verbatim>\<open>Prelude\<close>, \<^verbatim>\<open>C_String\<close>, \<^verbatim>\<open>Posix_Regex\<close>, \<^verbatim>\<open>C_Float\<close>, \<^verbatim>\<open>Ext_Float\<close>: results and faults, checked
      arrays, string functions, regular expressions with a matcher by derivatives, and floating point
      numbers. For the conversions and the mixer, whose numbers stay within \<open>2^32\<close>, these are rationals with
      explicit rounding to 24 and 53 bits; for the equalizer they have both zeros, infinities, NaN, gradual
      underflow and overflow.
    \<^item> \<^verbatim>\<open>Cron_Parser\<close> (\<^verbatim>\<open>cronparser.c\<close>), \<^verbatim>\<open>Cron_Spec\<close>: rules, their parser and the test of a time. The
      parts of a field have an abstract syntax; the parser accepts exactly its texts and sets
      exactly its flags, a printed configuration is read back, and a rule applies exactly when all
      of its fields select the time, with the days of the month off by one.
    \<^item> \<^verbatim>\<open>Pick_File\<close> (\<^verbatim>\<open>pickfile.c\<close>): from the text of a configuration to the command for the shell,
      which ends at a line feed before its last part, and the file that is taken from its output.
    \<^item> \<^verbatim>\<open>Rtrd\<close>, \<^verbatim>\<open>Rtrd_Main\<close> (\<^verbatim>\<open>rtrd.c\<close>), \<^verbatim>\<open>Sockets\<close> (\<^verbatim>\<open>sockets.c\<close>, \<^verbatim>\<open>memory.c\<close>), \<^verbatim>\<open>Daemonize\<close>
      (\<^verbatim>\<open>daemonize.c\<close>): the handler of a message, the loop over a connection's bytes, the accept loop
      with its descriptors, the start of the daemon. A \<^verbatim>\<open>recv\<close> gives at most 128 bytes, and of
      one delivery only the first command is handled: for clients whose deliveries are one command of at most
      126 characters each, the running daemon is the sequential handling of the commands of all clients;
      a second command in a delivery is lost, and a longer command is read past the end of the buffer.
      The queue refines a mailbox of one message.
      The locale \<open>session_handler\<close> is what the accept loop needs of a handler.
    \<^item> \<^verbatim>\<open>Cli\<close> (\<^verbatim>\<open>cli.c\<close>): the parser of arguments and the program, which always fails.
    \<^item> \<^verbatim>\<open>RBTree\<close> (\<^verbatim>\<open>rbtree.c\<close>), \<^verbatim>\<open>Collation\<close>: red-black trees, with the way up to the root as a list of
      contexts in place of parent pointers. The locales \<open>search_order\<close> and \<open>collation\<close> say what the
      tree needs of the comparison and what the order of names gives.
    \<^item> \<^verbatim>\<open>Files\<close> (parts of \<^verbatim>\<open>files.c\<close>), \<^verbatim>\<open>Plist\<close>, \<^verbatim>\<open>Plist_Spec\<close>, \<^verbatim>\<open>Plist_Order\<close>, \<^verbatim>\<open>Plist_Props\<close> (\<^verbatim>\<open>playlist.c\<close>): playlists
      with deleted items, counters and a search tree of names; the invariant holds after any sequence of
      operations except a change of a file name, where sorting needs different names and no deleted items. The locale \<open>guarded_store\<close> is the filling of a store without duplicates.
    \<^item> \<^verbatim>\<open>Play_Order\<close>, \<^verbatim>\<open>Play_Order_Spec\<close> (\<^verbatim>\<open>audio.c\<close>): the playlist, its shuffled copy and the queue, the
      choice of the next file, the playing thread and the requests. Without shuffling and
      repetition the thread plays the queue, then the rest of the list, and ends. The list
      of requests, one for each file played, bounds the rounds of the thread; the theorem holds for
      every list that is longer than the number of files.
    \<^item> \<^verbatim>\<open>Fifo_Buf\<close> (\<^verbatim>\<open>fifo_buf.c\<close>), \<^verbatim>\<open>Protocol\<close>, \<^verbatim>\<open>Event_Queue\<close> (\<^verbatim>\<open>protocol.c\<close>): the ring of bytes, the
      encoding of the protocol and the linked queue of events. Both queues are instances of the
      locale \<open>fifo\<close>.
    \<^item> \<^verbatim>\<open>Sound_Format\<close>, \<^verbatim>\<open>Audio_Conv\<close>, \<^verbatim>\<open>Audio_Conv_Spec\<close> (\<^verbatim>\<open>audio.c\<close>, \<^verbatim>\<open>audio_conversion.c\<close>), \<^verbatim>\<open>Softmixer\<close>,
      \<^verbatim>\<open>Softmixer_Spec\<close> (\<^verbatim>\<open>softmixer.c\<close>): sample formats, conversions and the mixer, compared with
      exact arithmetic on sample values.
    \<^item> \<^verbatim>\<open>C_Text\<close>, \<^verbatim>\<open>Common\<close> (\<^verbatim>\<open>common.c\<close>), \<^verbatim>\<open>Resolve_Path\<close> (\<^verbatim>\<open>files.c\<close>), \<^verbatim>\<open>Title\<close> (\<^verbatim>\<open>playlist.c\<close>): numbers and lines in
      texts, helpers on strings, the resolution of paths, which agrees with a reference definition on
      components, and the expansion of titles in a buffer of fixed size, which never leaves it.
    \<^item> \<^verbatim>\<open>Playlist_File\<close>, \<^verbatim>\<open>Playlist_File_Spec\<close> (\<^verbatim>\<open>playlist_file.c\<close>): files with playlists; a list that was saved is loaded again.
    \<^item> \<^verbatim>\<open>Out_Buf\<close> (\<^verbatim>\<open>out_buf.c\<close>): the reading thread and a writer as a step relation over the ring of bytes, with the
      points where the thread holds or releases its mutex. In all interleavings the device gets
      exactly what was put, in order, up to what a stop discards.
    \<^item> \<^verbatim>\<open>Str_Lists\<close> (\<^verbatim>\<open>lists.c\<close>): arrays of strings that grow by doubling refine lists; the locale \<open>growable\<close>.
    \<^item> \<^verbatim>\<open>Options\<close>, \<^verbatim>\<open>Options_Init\<close>, \<^verbatim>\<open>Options_Parse\<close> (\<^verbatim>\<open>options.c\<close>); \<^verbatim>\<open>Options_Table\<close>, \<^verbatim>\<open>Options_Typed\<close>, \<^verbatim>\<open>Options_Builtin\<close>, \<^verbatim>\<open>Options_Spec\<close>:
      the hash table of options with open addressing, the built-in options and the parser of the
      configuration. The table is a map from names; reading any configuration keeps it well typed
      or stops the program, and when the buffers of the parser are overrun is said exactly.
    \<^item> \<^verbatim>\<open>Linked_Queue\<close>, \<^verbatim>\<open>Tags_Cache\<close>, \<^verbatim>\<open>Tags_Cache_Spec\<close>, \<^verbatim>\<open>Cache_Dir\<close> (\<^verbatim>\<open>tags_cache.c\<close>): linked queues on an explicit store of
      nodes, shared with the events; the cache over a database that is a parameter, and its directory.
      The reader thread serves the clients in turn; tags that were added are given back or read again; one thread that adds records
      never brings their number above the larger of the limit and what was there, but two threads can.
    \<^item> \<^verbatim>\<open>Equalizer\<close>, \<^verbatim>\<open>Equalizer_Spec\<close> (\<^verbatim>\<open>equalizer.c\<close>): presets, their parser and the filters. The functions of the mathematical
      library are parameters. Samples of 8 and 16 bits come out as the filters of their channel and the mixture give them, cut at the ends
      of the range, unless a mixed sample is NaN, whose conversion is undefined; a preset can bring this about. Buffers of
      floats are finite in the other sound code, so a NaN that would be left in one counts as a fault.
    \<^item> \<^verbatim>\<open>Audio_Dev\<close>, \<^verbatim>\<open>Audio_Dev_Spec\<close> (\<^verbatim>\<open>audio.c\<close>, \<^verbatim>\<open>null_out.c\<close>): the choice of a driver, the device and the conversion for it, and
      the mixers. The locale \<open>driver\<close> is the contract of a driver, and the null driver satisfies it. An open
      device always gets sound in the parameters it was opened with, which are the closest ones the driver supports.
    \<^item> \<^verbatim>\<open>Clients\<close>, \<^verbatim>\<open>Server\<close> (\<^verbatim>\<open>server.c\<close>); \<^verbatim>\<open>Server_Inv\<close>, \<^verbatim>\<open>Server_Spec\<close>: the table of clients with their sockets, event queues and
      lock, the commands run on events, all commands of the protocol, the forwarding of playlists and
      the main loop. A connection has the bytes that will arrive and the answers that \<^verbatim>\<open>send\<close> will give. A run of
      the server interleaves rounds of the loop with the reader of tags, notifications of the player
      and the network. In every run at most one client holds the lock and only its commands run; events
      reach the clients they are for, complete and in order; serial numbers are fresh; a playlist is
      forwarded byte for byte, except when a client that left was still waiting for one.

  \<^bold>\<open>How the parts interact.\<close> \<^verbatim>\<open>Server\<close> calls the playlists and the playing thread of \<^verbatim>\<open>Play_Order\<close>, whose notifications
  become events (\<^verbatim>\<open>Event_Queue\<close>) for all clients; it asks \<^verbatim>\<open>Tags_Cache\<close> for tags, reads and sets \<^verbatim>\<open>Options\<close>, and controls the
  mixer, the equalizer and the device. \<^verbatim>\<open>Audio_Dev\<close> puts together the format tests, the conversion, the equalizer
  and the mixer; the output buffer lies between the player and the device.

  \<^bold>\<open>Bounds.\<close> Loops over linked queues are bounded by \<open>fresh\<close>, the number of nodes ever allocated, which is at
  least the length of the queue (shown with the invariant of the queue). \<open>serial_loop\<close> gets two rounds, which
  is shown to be enough. The forwarding of a playlist ends since each item takes bytes from the
  connection. \<open>server_loop\<close> and the playing thread take the list of what happens in their rounds.

  \<^bold>\<open>Not modelled.\<close> The terminal interface is drawing and key handling on ncurses. The sound drivers other than the
  null driver, the decoder plugins, the streams and the player around them are input and output through external libraries;
  what the server asks of the player is recorded as a list of requests. \<^verbatim>\<open>md5.c\<close> and \<^verbatim>\<open>getopt.c\<close> are third-party
  code. \<^verbatim>\<open>jackclient.c\<close> is a skeleton. The conversions of text encodings are calls of iconv. Signals, pid files
  and the creation of threads are left out, as are log messages and the release of memory, except where memory is
  used after its release.
\<close>

end
